(* ===== verification/Prelude.thy ===== *)
theory Prelude
  imports Main "HOL-Library.Word" "HOL-Library.Char_ord" "HOL-Library.List_Lexorder"
    "HOL-Library.Product_Lexorder"
begin

text \<open>
  Shared vocabulary of the development: machine-integer types, bytes and strings, the result
  type of fallible operations with its sequencing operator, and the generic facts on lists and
  maps that the component theories rewrite with.
\<close>

section \<open>Machine integers, bytes and text\<close>

type_synonym byte = "8 word"
type_synonym u8 = "8 word"
type_synonym u16 = "16 word"
type_synonym u32 = "32 word"
type_synonym u64 = "64 word"
type_synonym bytes = "byte list"

text \<open>A Rust \<open>str\<close> is its UTF-8 bytes: one \<open>char\<close> of \<open>string\<close> per byte.\<close>

definition str_bytes :: "string \<Rightarrow> bytes" where
  "str_bytes s = map (\<lambda>c. word_of_nat (of_char c)) s"

definition bytes_str :: "bytes \<Rightarrow> string" where
  "bytes_str bs = map (\<lambda>b. char_of (unat b)) bs"

section \<open>Results\<close>

text \<open>
  A fallible operation returns an error or a value. \<open>Fail\<close> is the \<open>Err\<close> of the source;
  \<open>Panic\<close> is a Rust panic (a slice out of range, a failed assertion), which aborts the process
  in the release profile.
\<close>

datatype 'e fault = Fail 'e | Panic

definition rbind :: "'e + 'a \<Rightarrow> ('a \<Rightarrow> 'e + 'b) \<Rightarrow> 'e + 'b" where
  "rbind m f = (case m of Inl e \<Rightarrow> Inl e | Inr x \<Rightarrow> f x)"

definition map_err :: "('e \<Rightarrow> 'f) \<Rightarrow> 'e + 'a \<Rightarrow> 'f + 'a" where
  "map_err g m = (case m of Inl e \<Rightarrow> Inl (g e) | Inr x \<Rightarrow> Inr x)"

definition ok_or :: "'e \<Rightarrow> 'a option \<Rightarrow> 'e + 'a" where
  "ok_or e v = (case v of None \<Rightarrow> Inl e | Some x \<Rightarrow> Inr x)"

named_theorems results \<open>inversion of sequenced results\<close>

lemma rbind_simps [simp]:
  "rbind (Inl e) f = Inl e" "rbind (Inr x) f = f x"
  by (simp_all add: rbind_def)

lemma map_err_simps [simp]:
  "map_err g (Inl e) = Inl (g e)" "map_err g (Inr x) = Inr x"
  by (simp_all add: map_err_def)

lemma ok_or_simps [simp]:
  "ok_or e None = Inl e" "ok_or e (Some x) = Inr x"
  by (simp_all add: ok_or_def)

lemma rbind_eq_Inr [results]:
  "rbind m f = Inr y \<longleftrightarrow> (\<exists>x. m = Inr x \<and> f x = Inr y)"
  by (cases m) auto

lemma rbind_eq_Inl [results]:
  "rbind m f = Inl e \<longleftrightarrow> m = Inl e \<or> (\<exists>x. m = Inr x \<and> f x = Inl e)"
  by (cases m) auto

lemma map_err_eq_Inr [results]: "map_err g m = Inr y \<longleftrightarrow> m = Inr y"
  by (cases m) auto

lemma ok_or_eq_Inr [results]: "ok_or e v = Inr x \<longleftrightarrow> v = Some x"
  by (cases v) auto

lemma ok_or_eq_Inl [results]: "ok_or e v = Inl e' \<longleftrightarrow> v = None \<and> e' = e"
  by (cases v) auto

lemma rbind_assoc: "rbind (rbind m f) g = rbind m (\<lambda>x. rbind (f x) g)"
  by (cases m) auto

lemma rbind_cong [fundef_cong]:
  "m = m' \<Longrightarrow> (\<And>x. m' = Inr x \<Longrightarrow> f x = f' x) \<Longrightarrow> rbind m f = rbind m' f'"
  by (cases m') auto

text \<open>Run a fallible function over a list, stopping at the first error (a \<open>for\<close> loop with \<open>?\<close>).\<close>

fun mapM :: "('a \<Rightarrow> 'e + 'b) \<Rightarrow> 'a list \<Rightarrow> 'e + 'b list" where
  "mapM f [] = Inr []"
| "mapM f (x # xs) = rbind (f x) (\<lambda>y. rbind (mapM f xs) (\<lambda>ys. Inr (y # ys)))"

lemma mapM_Inr_iff:
  "mapM f xs = Inr ys \<longleftrightarrow> list_all2 (\<lambda>x y. f x = Inr y) xs ys"
  by (induction xs arbitrary: ys) (auto simp: results list_all2_Cons1)

lemma mapM_length: "mapM f xs = Inr ys \<Longrightarrow> length ys = length xs"
  by (auto simp: mapM_Inr_iff dest: list_all2_lengthD)

lemma mapM_map: "(\<And>x. x \<in> set xs \<Longrightarrow> f x = Inr (g x)) \<Longrightarrow> mapM f xs = Inr (map g xs)"
  by (induction xs) auto

section \<open>Bytes and strings\<close>

lemma length_str_bytes [simp]: "length (str_bytes s) = length s"
  by (simp add: str_bytes_def)

lemma length_bytes_str [simp]: "length (bytes_str bs) = length bs"
  by (simp add: bytes_str_def)

lemma of_char_less_256: "(of_char c :: nat) < 256"
  using of_char_mod_256 [of c, where 'a = nat] by (metis mod_less_divisor zero_less_numeral)

lemma char_byte_inv [simp]: "char_of (unat (word_of_nat (of_char c) :: byte)) = c"
  by (simp add: unat_of_nat)

lemma unat_byte_less: "unat (b :: byte) < 256"
  using unsigned_less [of b, where 'a = nat] by simp

lemma unat_byte_mod [simp]: "unat (b :: byte) mod 256 = unat b"
  using unat_byte_less by simp

lemma byte_char_inv [simp]: "word_of_nat (of_char (char_of (unat b))) = (b :: byte)"
  by (simp add: of_char_of)

lemma bytes_str_inv [simp]: "bytes_str (str_bytes s) = s"
  by (simp add: bytes_str_def str_bytes_def comp_def)

lemma str_bytes_inv [simp]: "str_bytes (bytes_str bs) = bs"
  by (simp add: bytes_str_def str_bytes_def comp_def)

section \<open>Lists\<close>

lemma take_drop_append_mid:
  "length pre = p \<Longrightarrow> length mid = n \<Longrightarrow> take n (drop p (pre @ mid @ post)) = mid"
  by simp

definition subslice :: "'a list \<Rightarrow> nat \<Rightarrow> nat \<Rightarrow> 'a list" where
  \<comment> \<open>\<open>&xs[a..b]\<close> where \<open>a \<le> b \<le> length xs\<close>\<close>
  "subslice xs a b = take (b - a) (drop a xs)"

lemma length_subslice [simp]: "a \<le> b \<Longrightarrow> b \<le> length xs \<Longrightarrow> length (subslice xs a b) = b - a"
  by (simp add: subslice_def)

lemma subslice_append_mid:
  "a = length pre \<Longrightarrow> b = length pre + length mid \<Longrightarrow> subslice (pre @ mid @ post) a b = mid"
  by (simp add: subslice_def)

lemma subslice_subslice:
  "c \<le> d \<Longrightarrow> a + d \<le> b \<Longrightarrow> subslice (subslice xs a b) c d = subslice xs (a + c) (a + d)"
  by (simp add: subslice_def take_drop add.commute min_def)

lemma subslice_join: "a \<le> b \<Longrightarrow> b \<le> c \<Longrightarrow> subslice xs a b @ subslice xs b c = subslice xs a c"
proof -
  assume ab: "a \<le> b" "b \<le> c"
  have "take (c - a) (drop a xs) = take ((b - a) + (c - b)) (drop a xs)" using ab by simp
  also have "\<dots> = take (b - a) (drop a xs) @ take (c - b) (drop (b - a) (drop a xs))"
    by (rule take_add)
  also have "drop (b - a) (drop a xs) = drop b xs" using ab by simp
  finally show ?thesis by (simp add: subslice_def)
qed

lemma subslice_drop: "a \<le> b \<Longrightarrow> subslice xs a b @ drop b xs = drop a xs"
  using append_take_drop_id [of "b - a" "drop a xs"] by (simp add: subslice_def)

text \<open>\<open>&xs[a..b]\<close> as the source writes it: a range that is out of bounds panics.\<close>

definition rust_slice :: "'a list \<Rightarrow> nat \<Rightarrow> nat \<Rightarrow> 'e fault + 'a list" where
  "rust_slice xs a b = (if a \<le> b \<and> b \<le> length xs then Inr (subslice xs a b) else Inl Panic)"

lemma rust_slice_Inr [results]:
  "rust_slice xs a b = Inr ys \<longleftrightarrow> a \<le> b \<and> b \<le> length xs \<and> ys = subslice xs a b"
  by (auto simp: rust_slice_def)

section \<open>Ordered maps\<close>

text \<open>
  A \<open>BTreeMap\<close> as its list of pairs in key order; \<open>btree_push\<close> is
  \<open>entry(k).or_default().push(v)\<close>.
\<close>

fun btree_push :: "'k::linorder \<Rightarrow> 'v \<Rightarrow> ('k \<times> 'v list) list \<Rightarrow> ('k \<times> 'v list) list" where
  "btree_push k v [] = [(k, [v])]"
| "btree_push k v ((k', vs) # m) =
     (if k < k' then (k, [v]) # (k', vs) # m
      else if k = k' then (k', vs @ [v]) # m
      else (k', vs) # btree_push k v m)"

lemma btree_push_keys: "set (map fst (btree_push k v m)) = insert k (set (map fst m))"
  by (induction k v m rule: btree_push.induct) auto

lemma btree_push_sorted:
  "sorted_wrt (<) (map fst m) \<Longrightarrow> sorted_wrt (<) (map fst (btree_push k v m))"
proof (induction k v m rule: btree_push.induct)
  case (2 k v k' vs m)
  then show ?case using btree_push_keys [of k v m] by (fastforce simp del: set_map)
qed simp

lemma btree_push_lookup:
  "sorted_wrt (<) (map fst m) \<Longrightarrow>
    map_of (btree_push k v m) x =
      (if x = k then Some ((case map_of m k of None \<Rightarrow> [] | Some vs \<Rightarrow> vs) @ [v]) else map_of m x)"
proof (induction k v m rule: btree_push.induct)
  case (2 k v k' vs m)
  have "map_of m k = None" if "k < k'"
    using that 2(2) by (auto simp: map_of_eq_None_iff)
  then show ?case using 2 by auto
qed simp

text \<open>Grouping a list by key: every group holds its elements in list order.\<close>

definition group_pairs :: "('k::linorder \<times> 'v) list \<Rightarrow> ('k \<times> 'v list) list" where
  "group_pairs xs = foldl (\<lambda>m (k, v). btree_push k v m) [] xs"

lemma group_pairs_snoc: "group_pairs (xs @ [(k, v)]) = btree_push k v (group_pairs xs)"
  by (simp add: group_pairs_def)

lemma group_pairs_props:
  "sorted_wrt (<) (map fst (group_pairs xs)) \<and> set (map fst (group_pairs xs)) = fst ` set xs \<and>
    (\<forall>k. map_of (group_pairs xs) k =
      (if k \<in> fst ` set xs then Some (map snd (filter (\<lambda>p. fst p = k) xs)) else None))"
proof (induction xs rule: rev_induct)
  case Nil
  then show ?case by (simp add: group_pairs_def)
next
  case (snoc p xs)
  obtain k v where p: "p = (k, v)" by (cases p)
  let ?m = "group_pairs xs"
  have s: "sorted_wrt (<) (map fst ?m)" and keys: "set (map fst ?m) = fst ` set xs"
    and l: "\<And>k. map_of ?m k =
      (if k \<in> fst ` set xs then Some (map snd (filter (\<lambda>p. fst p = k) xs)) else None)"
    using snoc by auto
  have "k \<notin> fst ` set xs \<Longrightarrow> filter (\<lambda>p. fst p = k) xs = []" by (force simp: filter_empty_conv)
  then have "map_of (btree_push k v ?m) x =
      (if x \<in> fst ` set (xs @ [(k, v)])
       then Some (map snd (filter (\<lambda>p. fst p = x) (xs @ [(k, v)]))) else None)" for x
    by (simp add: btree_push_lookup [OF s] l)
  then show ?case
    using btree_push_sorted [OF s] btree_push_keys [of k v ?m] keys
    by (simp add: p group_pairs_snoc del: set_map)
qed

lemma sorted_distinct_fst: "sorted_wrt (<) (map fst m) \<Longrightarrow> distinct (map fst (m :: ('k::linorder \<times> 'v) list))"
  by (simp add: strict_sorted_iff)

lemma group_pairs_member:
  assumes "(k, vs) \<in> set (group_pairs xs)"
  shows "vs = map snd (filter (\<lambda>p. fst p = k) xs)" "k \<in> fst ` set xs"
proof -
  note g = group_pairs_props [of xs]
  have "map_of (group_pairs xs) k = Some vs"
    using g assms by (intro map_of_is_SomeI sorted_distinct_fst) auto
  then show "vs = map snd (filter (\<lambda>p. fst p = k) xs)" "k \<in> fst ` set xs"
    using g by (auto split: if_splits)
qed

text \<open>\<open>BTreeMap::insert\<close>, and an update of the value under a key (\<open>get_mut\<close>).\<close>

fun btree_insert :: "'k::linorder \<Rightarrow> 'v \<Rightarrow> ('k \<times> 'v) list \<Rightarrow> ('k \<times> 'v) list" where
  "btree_insert k v [] = [(k, v)]"
| "btree_insert k v ((k', v') # m) =
     (if k < k' then (k, v) # (k', v') # m
      else if k = k' then (k, v) # m
      else (k', v') # btree_insert k v m)"

definition sorted_map :: "('k::linorder \<times> 'v) list \<Rightarrow> bool" where
  "sorted_map m \<longleftrightarrow> sorted_wrt (<) (map fst m)"

lemma btree_insert_keys: "set (map fst (btree_insert k v m)) = insert k (set (map fst m))"
  by (induction k v m rule: btree_insert.induct) auto

lemma btree_insert_sorted: "sorted_map m \<Longrightarrow> sorted_map (btree_insert k v m)"
proof (induction k v m rule: btree_insert.induct)
  case (2 k v k' v' m)
  then show ?case using btree_insert_keys [of k v m]
    by (fastforce simp: sorted_map_def simp del: set_map)
qed (simp add: sorted_map_def)

lemma btree_insert_lookup:
  "sorted_map m \<Longrightarrow> map_of (btree_insert k v m) x = (if x = k then Some v else map_of m x)"
proof (induction k v m rule: btree_insert.induct)
  case (2 k v k' v' m)
  then show ?case by (auto simp: sorted_map_def)
qed simp

lemma sorted_map_distinct: "sorted_map m \<Longrightarrow> distinct (map fst m)"
  by (simp add: sorted_map_def strict_sorted_iff)

lemma sorted_map_member: "sorted_map m \<Longrightarrow> (k, v) \<in> set m \<longleftrightarrow> map_of m k = Some v"
  using sorted_map_distinct [of m] by (auto simp: map_of_eq_Some_iff)

lemma map_of_map_values:
  "map_of (map (\<lambda>(k, v). (k, f k v)) m) x = map_option (f x) (map_of m x)"
  by (induction m) auto

lemma sorted_map_values: "sorted_map (map (\<lambda>(k, v). (k, f k v)) m) \<longleftrightarrow> sorted_map m"
  by (simp add: sorted_map_def comp_def split_beta)

lemma in_keys_filter: "k \<in> set (map fst (filter P m)) \<longleftrightarrow> (\<exists>v. (k, v) \<in> set m \<and> P (k, v))"
  by force

end
