(* ===== verification/Bytes.thy ===== *)
theory Bytes
  imports Prelude
begin

text \<open>
  Byte-level encodings the components share: little- and big-endian integers
  (\<open>to_le_bytes\<close>, \<open>from_le_bytes\<close>, \<open>put_u32\<close>), the UTF-8 validity test of
  \<open>std::str::from_utf8\<close>, decimal rendering and parsing of integers, and the interface of a
  reader that consumes a value from a position of a buffer and returns the next position.
\<close>

section \<open>Endianness\<close>

fun le_bytes :: "nat \<Rightarrow> nat \<Rightarrow> bytes" where
  "le_bytes 0 v = []"
| "le_bytes (Suc n) v = word_of_nat v # le_bytes n (v div 256)"

fun le_nat :: "bytes \<Rightarrow> nat" where
  "le_nat [] = 0"
| "le_nat (b # bs) = unat b + 256 * le_nat bs"

definition be_nat :: "bytes \<Rightarrow> nat" where
  "be_nat bs = le_nat (rev bs)"

definition u32_le :: "u32 \<Rightarrow> bytes" where
  "u32_le v = le_bytes 4 (unat v)"

definition u64_le :: "u64 \<Rightarrow> bytes" where
  "u64_le v = le_bytes 8 (unat v)"

definition u32_be :: "u32 \<Rightarrow> bytes" where
  "u32_be v = rev (le_bytes 4 (unat v))"

lemma length_le_bytes [simp]: "length (le_bytes n v) = n"
  by (induction n v rule: le_bytes.induct) auto

lemma length_u32_le [simp]: "length (u32_le v) = 4"
  and length_u64_le [simp]: "length (u64_le w) = 8"
  and length_u32_be [simp]: "length (u32_be v) = 4"
  by (simp_all add: u32_le_def u64_le_def u32_be_def)

lemma le_nat_le_bytes: "le_nat (le_bytes n v) = v mod 256 ^ n"
proof (induction n v rule: le_bytes.induct)
  case (1 v)
  then show ?case by simp
next
  case (2 n v)
  have "le_nat (le_bytes (Suc n) v) = v mod 256 + 256 * (v div 256 mod 256 ^ n)"
    using 2 by (simp add: unat_of_nat)
  also have "\<dots> = v mod (256 * 256 ^ n)" by (simp add: mod_mult2_eq)
  finally show ?case by simp
qed

lemma le_nat_bound: "le_nat bs < 256 ^ length bs"
proof (induction bs)
  case Nil
  then show ?case by simp
next
  case (Cons b bs)
  have "unat b + 256 * le_nat bs < 256 + 256 * le_nat bs"
    using unat_byte_less [of b] by simp
  also have "\<dots> = 256 * Suc (le_nat bs)" by simp
  also have "\<dots> \<le> 256 * 256 ^ length bs" using Cons by (intro mult_le_mono2) simp
  finally show ?case by simp
qed

lemma u32_of_le [simp]: "word_of_nat (le_nat (u32_le v)) = v"
proof -
  have "unat v < 256 ^ 4" using unsigned_less [of v, where 'a = nat] by simp
  then show ?thesis by (simp add: u32_le_def le_nat_le_bytes)
qed

lemma u64_of_le [simp]: "word_of_nat (le_nat (u64_le v)) = v"
proof -
  have "unat v < 256 ^ 8" using unsigned_less [of v, where 'a = nat] by simp
  then show ?thesis by (simp add: u64_le_def le_nat_le_bytes)
qed

lemma be_nat_u32_be [simp]: "be_nat (u32_be v) = unat v"
proof -
  have "unat v < 256 ^ 4" using unsigned_less [of v, where 'a = nat] by simp
  then show ?thesis by (simp add: be_nat_def u32_be_def le_nat_le_bytes)
qed

lemma unat_u64_less: "unat (v :: u64) < 2 ^ 64"
  using unsigned_less [of v, where 'a = nat] by simp

lemma unat_u32_less: "unat (v :: u32) < 2 ^ 32"
  using unsigned_less [of v, where 'a = nat] by simp

lemma unat_u16_less: "unat (v :: u16) < 2 ^ 16"
  using unsigned_less [of v, where 'a = nat] by simp

lemma unat_of_nat_u64: "n < 2 ^ 64 \<Longrightarrow> unat (word_of_nat n :: u64) = n"
  by (simp add: unat_of_nat)

lemma unat_of_nat_u32: "n < 2 ^ 32 \<Longrightarrow> unat (word_of_nat n :: u32) = n"
  by (simp add: unat_of_nat)

section \<open>UTF-8\<close>

definition utf8_cont :: "byte \<Rightarrow> bool" where
  "utf8_cont b \<longleftrightarrow> 0x80 \<le> b \<and> b \<le> 0xBF"

text \<open>The well-formed byte sequences of the Unicode standard (its table 3-7).\<close>

fun utf8_valid :: "bytes \<Rightarrow> bool" where
  "utf8_valid [] = True"
| "utf8_valid (a # r) =
     (if a < 0x80 then utf8_valid r
      else if 0xC2 \<le> a \<and> a \<le> 0xDF then
        (case r of b # r2 \<Rightarrow> utf8_cont b \<and> utf8_valid r2 | _ \<Rightarrow> False)
      else if 0xE0 \<le> a \<and> a \<le> 0xEF then
        (case r of b # c # r3 \<Rightarrow>
           (if a = 0xE0 then 0xA0 \<le> b \<and> b \<le> 0xBF
            else if a = 0xED then 0x80 \<le> b \<and> b \<le> 0x9F else utf8_cont b) \<and>
           utf8_cont c \<and> utf8_valid r3
         | _ \<Rightarrow> False)
      else if 0xF0 \<le> a \<and> a \<le> 0xF4 then
        (case r of b # c # d # r4 \<Rightarrow>
           (if a = 0xF0 then 0x90 \<le> b \<and> b \<le> 0xBF
            else if a = 0xF4 then 0x80 \<le> b \<and> b \<le> 0x8F else utf8_cont b) \<and>
           utf8_cont c \<and> utf8_cont d \<and> utf8_valid r4
         | _ \<Rightarrow> False)
      else False)"

lemma utf8_valid_ascii: "(\<And>b. b \<in> set bs \<Longrightarrow> b < 0x80) \<Longrightarrow> utf8_valid bs"
  by (induction bs) auto

section \<open>Decimal integers\<close>

fun dec_digits :: "nat \<Rightarrow> string" where
  "dec_digits n = (if n < 10 then [char_of (48 + n)] else dec_digits (n div 10) @ [char_of (48 + n mod 10)])"

declare dec_digits.simps [simp del]

definition dec_digit_val :: "char \<Rightarrow> nat option" where
  "dec_digit_val c = (let n = of_char c :: nat in if 48 \<le> n \<and> n \<le> 57 then Some (n - 48) else None)"

fun dec_fold :: "nat \<Rightarrow> nat \<Rightarrow> string \<Rightarrow> nat option" where
  "dec_fold bound acc [] = Some acc"
| "dec_fold bound acc (c # cs) =
     (case dec_digit_val c of None \<Rightarrow> None
      | Some d \<Rightarrow> if 10 * acc + d < bound then dec_fold bound (10 * acc + d) cs else None)"

text \<open>
  \<open>str::parse\<close> for an unsigned type of values below \<open>bound\<close>: an optional leading \<open>+\<close>, at least
  one digit, no other byte, no overflow.
\<close>

definition parse_uint :: "nat \<Rightarrow> string \<Rightarrow> nat option" where
  "parse_uint bound s =
     (let ds = (case s of CHR ''+'' # t \<Rightarrow> if t = [] then s else t | _ \<Rightarrow> s)
      in if ds = [] then None else dec_fold bound 0 ds)"

lemma dec_digit_val_digit [simp]: "d < 10 \<Longrightarrow> dec_digit_val (char_of (48 + d)) = Some d"
  by (simp add: dec_digit_val_def)

lemma dec_fold_append:
  "dec_fold b acc (xs @ ys) = Option.bind (dec_fold b acc xs) (\<lambda>a. dec_fold b a ys)"
  by (induction b acc xs rule: dec_fold.induct) (auto split: option.splits)

lemma dec_fold_digits: "n < b \<Longrightarrow> dec_fold b 0 (dec_digits n) = Some n"
proof (induction n rule: dec_digits.induct)
  case (1 n)
  show ?case
  proof (cases "n < 10")
    case True
    with 1 show ?thesis by (simp add: dec_digits.simps [of n])
  next
    case False
    with 1 have "dec_fold b 0 (dec_digits (n div 10)) = Some (n div 10)" by auto
    moreover have "10 * (n div 10) + n mod 10 = n" by simp
    ultimately show ?thesis using False 1(2)
      by (simp add: dec_digits.simps [of n] dec_fold_append)
  qed
qed

lemma dec_digits_range: "c \<in> set (dec_digits n) \<Longrightarrow> \<exists>d < 10. c = char_of (48 + d :: nat)"
proof (induction n rule: dec_digits.induct)
  case (1 n)
  show ?case
  proof (cases "n < 10")
    case True
    with 1(2) show ?thesis by (auto simp: dec_digits.simps [of n])
  next
    case False
    then have "c \<in> set (dec_digits (n div 10)) \<or> c = char_of (48 + n mod 10)"
      using 1(2) by (auto simp: dec_digits.simps [of n])
    then show ?thesis using 1(1) [OF False] by (auto intro: exI [of _ "n mod 10"])
  qed
qed

lemma dec_digits_ne_Nil [simp]: "dec_digits n \<noteq> []"
  by (simp add: dec_digits.simps [of n])

lemma digit_char_code: "c \<in> set (dec_digits n) \<Longrightarrow> 48 \<le> (of_char c :: nat) \<and> (of_char c :: nat) \<le> 57"
  by (drule dec_digits_range) auto

lemma digit_char_ne:
  assumes "c \<in> set (dec_digits n)"
  shows "c \<noteq> CHR ''+''" "c \<noteq> CHR ''.''"
proof -
  have "\<not> 48 \<le> (of_char (CHR ''+'') :: nat)" "\<not> 48 \<le> (of_char (CHR ''.'') :: nat)"
    by simp_all
  then show "c \<noteq> CHR ''+''" "c \<noteq> CHR ''.''" using digit_char_code [OF assms] by blast+
qed

lemma parse_uint_digits: "n < b \<Longrightarrow> parse_uint b (dec_digits n) = Some n"
proof -
  assume n: "n < b"
  obtain c cs where c: "dec_digits n = c # cs"
    by (cases "dec_digits n") auto
  then have "c \<in> set (dec_digits n)" by simp
  then have "c \<noteq> CHR ''+''" by (rule digit_char_ne(1))
  then have "(case dec_digits n of CHR ''+'' # t \<Rightarrow> if t = [] then dec_digits n else t | _ \<Rightarrow> dec_digits n)
    = dec_digits n"
    by (simp add: c split: list.splits char.splits bool.splits)
  then show ?thesis
    using dec_fold_digits [OF n] by (simp add: parse_uint_def)
qed

lemma dec_fold_bound: "acc < b \<Longrightarrow> dec_fold b acc cs = Some n \<Longrightarrow> n < b"
  by (induction b acc cs rule: dec_fold.induct) (auto split: option.splits if_splits)

lemma parse_uint_bound: "0 < b \<Longrightarrow> parse_uint b s = Some n \<Longrightarrow> n < b"
  by (auto simp: parse_uint_def Let_def split: if_splits dest: dec_fold_bound)

lemma dec_digits_inj:
  assumes "dec_digits m = dec_digits n"
  shows "m = n"
proof -
  have "Some m = parse_uint (Suc (max m n)) (dec_digits m)" by (rule parse_uint_digits [symmetric]) simp
  also have "\<dots> = Some n" unfolding assms by (rule parse_uint_digits) simp
  finally show ?thesis by simp
qed

section \<open>Prefixes and separators\<close>

definition starts_with :: "'a list \<Rightarrow> 'a list \<Rightarrow> bool" where
  "starts_with s p \<longleftrightarrow> take (length p) s = p"

definition ends_with :: "'a list \<Rightarrow> 'a list \<Rightarrow> bool" where
  "ends_with s p \<longleftrightarrow> length p \<le> length s \<and> drop (length s - length p) s = p"

definition strip_prefix :: "'a list \<Rightarrow> 'a list \<Rightarrow> 'a list option" where
  "strip_prefix s p = (if starts_with s p then Some (drop (length p) s) else None)"

text \<open>\<open>str::split(c).next()\<close> and \<open>str::split_once(c)\<close>.\<close>

definition split_first :: "char \<Rightarrow> string \<Rightarrow> string" where
  "split_first c s = takeWhile (\<lambda>x. x \<noteq> c) s"

definition split_once :: "char \<Rightarrow> string \<Rightarrow> (string \<times> string) option" where
  "split_once c s =
     (if c \<in> set s then Some (takeWhile (\<lambda>x. x \<noteq> c) s, tl (dropWhile (\<lambda>x. x \<noteq> c) s)) else None)"

lemma starts_with_append [simp]: "starts_with (p @ s) p"
  by (simp add: starts_with_def)

lemma starts_with_iff: "starts_with s p \<longleftrightarrow> (\<exists>r. s = p @ r)"
  unfolding starts_with_def by (metis append_eq_conv_conj append_take_drop_id)

lemma strip_prefix_append [simp]: "strip_prefix (p @ s) p = Some s"
  by (simp add: strip_prefix_def)

lemma strip_prefix_Some: "strip_prefix s p = Some r \<longleftrightarrow> s = p @ r"
  by (auto simp: strip_prefix_def starts_with_iff)

lemma split_once_append: "c \<notin> set a \<Longrightarrow> split_once c (a @ c # b) = Some (a, b)"
  by (simp add: split_once_def takeWhile_append dropWhile_append)

lemma split_first_append: "c \<notin> set a \<Longrightarrow> split_first c (a @ c # b) = a"
  by (simp add: split_first_def takeWhile_append)

lemma split_first_all: "c \<notin> set a \<Longrightarrow> split_first c a = a"
  by (auto simp: split_first_def)

text \<open>\<open>str::trim().is_empty()\<close>: every character has the Unicode property \<open>White_Space\<close>.\<close>

fun all_white :: "nat list \<Rightarrow> bool" where
  "all_white [] = True"
| "all_white (a # r) =
     (if a = 0x20 \<or> 0x09 \<le> a \<and> a \<le> 0x0D then all_white r
      else case r of
        b # r2 \<Rightarrow>
          if a = 0xC2 \<and> (b = 0x85 \<or> b = 0xA0) then all_white r2
          else (case r2 of
            c # r3 \<Rightarrow>
              (if a = 0xE1 \<and> b = 0x9A \<and> c = 0x80 \<or>
                  a = 0xE2 \<and> b = 0x80 \<and> (0x80 \<le> c \<and> c \<le> 0x8A \<or> c = 0xA8 \<or> c = 0xA9 \<or> c = 0xAF) \<or>
                  a = 0xE2 \<and> b = 0x81 \<and> c = 0x9F \<or>
                  a = 0xE3 \<and> b = 0x80 \<and> c = 0x80
               then all_white r3 else False)
          | [] \<Rightarrow> False)
      | [] \<Rightarrow> False)"

definition str_blank :: "string \<Rightarrow> bool" where
  "str_blank s = all_white (map of_char s)"

end
