(* ===== verification/Readers.thy ===== *)
theory Readers
  imports Bytes
begin

text \<open>
  The interface between a byte buffer and the parsers that walk it with a cursor: a reader takes
  the buffer and a position and returns an error or a value with the next position. The contract
  is locality: a successful read stays inside the buffer and depends only on the bytes it
  consumes. \<open>codec\<close> extends it with an encoder whose output the reader reads back. Both are used
  by the GGUF parser, whose readers are the interpretations, and by the stitcher's round trip.
\<close>

type_synonym ('e, 'a) reader = "bytes \<Rightarrow> nat \<Rightarrow> 'e + 'a \<times> nat"

section \<open>Windows\<close>

definition same_window :: "bytes \<Rightarrow> nat \<Rightarrow> bytes \<Rightarrow> nat \<Rightarrow> nat \<Rightarrow> bool" where
  "same_window buf pos buf' pos' n \<longleftrightarrow>
     pos + n \<le> length buf \<and> pos' + n \<le> length buf' \<and> (\<forall>i < n. buf ! (pos + i) = buf' ! (pos' + i))"

lemma same_window_prefix:
  "same_window buf pos buf' pos' n \<Longrightarrow> m \<le> n \<Longrightarrow> same_window buf pos buf' pos' m"
  by (auto simp: same_window_def)

lemma same_window_suffix:
  "same_window buf pos buf' pos' n \<Longrightarrow> m + k \<le> n \<Longrightarrow> same_window buf (pos + m) buf' (pos' + m) k"
  unfolding same_window_def
proof (intro conjI allI impI, goal_cases)
  case (3 i)
  then have "m + i < n" by simp
  with 3 have "buf ! (pos + (m + i)) = buf' ! (pos' + (m + i))" by blast
  then show ?case by (simp add: add.assoc)
qed auto

lemma same_window_subslice:
  "same_window buf pos buf' pos' n \<Longrightarrow> subslice buf pos (pos + n) = subslice buf' pos' (pos' + n)"
  by (auto simp: same_window_def subslice_def intro!: nth_equalityI)

lemma same_window_append:
  "same_window w 0 (pre @ w @ post) (length pre) (length w)"
  by (auto simp: same_window_def nth_append)

section \<open>The reader interface\<close>

text \<open>A slice is never longer than \<open>isize::MAX\<close> bytes.\<close>

definition fits :: "bytes \<Rightarrow> bool" where
  "fits buf \<longleftrightarrow> length buf < 2 ^ 63"

definition local_rd :: "('e, 'a) reader \<Rightarrow> bool" where
  "local_rd rd \<longleftrightarrow>
     (\<forall>buf pos x q. fits buf \<longrightarrow> pos \<le> length buf \<longrightarrow> rd buf pos = Inr (x, q) \<longrightarrow>
        pos \<le> q \<and> q \<le> length buf \<and>
        (\<forall>buf' pos'. fits buf' \<longrightarrow> same_window buf pos buf' pos' (q - pos) \<longrightarrow>
           rd buf' pos' = Inr (x, pos' + (q - pos))))"

lemma local_rdI:
  assumes "\<And>buf pos x q. fits buf \<Longrightarrow> pos \<le> length buf \<Longrightarrow> rd buf pos = Inr (x, q)
      \<Longrightarrow> pos \<le> q \<and> q \<le> length buf"
    and "\<And>buf pos x q buf' pos'. fits buf \<Longrightarrow> fits buf' \<Longrightarrow> pos \<le> length buf
      \<Longrightarrow> rd buf pos = Inr (x, q) \<Longrightarrow> same_window buf pos buf' pos' (q - pos)
      \<Longrightarrow> rd buf' pos' = Inr (x, pos' + (q - pos))"
  shows "local_rd rd"
  using assms unfolding local_rd_def by blast

lemma local_rd_bounds:
  "local_rd rd \<Longrightarrow> fits buf \<Longrightarrow> pos \<le> length buf \<Longrightarrow> rd buf pos = Inr (x, q)
    \<Longrightarrow> pos \<le> q \<and> q \<le> length buf"
  unfolding local_rd_def by blast

lemma local_rd_move:
  "local_rd rd \<Longrightarrow> fits buf \<Longrightarrow> pos \<le> length buf \<Longrightarrow> rd buf pos = Inr (x, q)
    \<Longrightarrow> fits buf' \<Longrightarrow> same_window buf pos buf' pos' (q - pos)
    \<Longrightarrow> rd buf' pos' = Inr (x, pos' + (q - pos))"
  unfolding local_rd_def by blast

lemma local_rd_return: "local_rd (\<lambda>buf pos. Inr (x, pos))"
  by (rule local_rdI) simp_all

lemma local_rd_fail: "local_rd (\<lambda>buf pos. Inl (e buf pos))"
  by (rule local_rdI) simp_all

lemma local_rd_lift:
  assumes "\<And>x. r = Inr x \<Longrightarrow> local_rd (f x)"
  shows "local_rd (\<lambda>buf pos. rbind r (\<lambda>x. f x buf pos))"
proof (cases r)
  case (Inl e)
  then show ?thesis by (simp add: local_rd_fail)
next
  case (Inr x)
  then show ?thesis using assms by simp
qed

lemma local_rd_if:
  "local_rd f \<Longrightarrow> local_rd g \<Longrightarrow> local_rd (\<lambda>buf pos. if b then f buf pos else g buf pos)"
  by (cases b) simp_all

lemma local_rd_bind:
  assumes r: "local_rd r" and f: "\<And>x. local_rd (f x)"
  shows "local_rd (\<lambda>buf pos. rbind (r buf pos) (\<lambda>(x, p). f x buf p))"
proof (rule local_rdI)
  fix buf pos x q
  assume len: "fits buf" "pos \<le> length buf"
    and eq: "rbind (r buf pos) (\<lambda>(x, p). f x buf p) = Inr (x, q)"
  from eq obtain y p where y: "r buf pos = Inr (y, p)" "f y buf p = Inr (x, q)"
    by (auto simp: rbind_eq_Inr)
  from local_rd_bounds [OF r len y(1)] have 1: "pos \<le> p" "p \<le> length buf" by simp_all
  from local_rd_bounds [OF f len(1) 1(2) y(2)] have 2: "p \<le> q" "q \<le> length buf" by simp_all
  show "pos \<le> q \<and> q \<le> length buf" using 1 2 by simp
next
  fix buf pos x q buf' pos'
  assume len: "fits buf" "fits buf'" "pos \<le> length buf"
    and eq: "rbind (r buf pos) (\<lambda>(x, p). f x buf p) = Inr (x, q)"
    and w: "same_window buf pos buf' pos' (q - pos)"
  from eq obtain y p where y: "r buf pos = Inr (y, p)" "f y buf p = Inr (x, q)"
    by (auto simp: rbind_eq_Inr)
  from local_rd_bounds [OF r len(1,3) y(1)] have 1: "pos \<le> p" "p \<le> length buf" by simp_all
  from local_rd_bounds [OF f len(1) 1(2) y(2)] have 2: "p \<le> q" "q \<le> length buf" by simp_all
  have w1: "same_window buf pos buf' pos' (p - pos)"
    by (rule same_window_prefix [OF w]) (use 1 2 in simp)
  have "same_window buf (pos + (p - pos)) buf' (pos' + (p - pos)) (q - p)"
    by (rule same_window_suffix [OF w]) (use 1 2 in simp)
  then have w2: "same_window buf p buf' (pos' + (p - pos)) (q - p)" using 1 by simp
  have "r buf' pos' = Inr (y, pos' + (p - pos))"
    by (rule local_rd_move [OF r len(1,3) y(1) len(2) w1])
  moreover have "f y buf' (pos' + (p - pos)) = Inr (x, pos' + (p - pos) + (q - p))"
    by (rule local_rd_move [OF f len(1) 1(2) y(2) len(2) w2])
  ultimately show "rbind (r buf' pos') (\<lambda>(x, p). f x buf' p) = Inr (x, pos' + (q - pos))"
    using 1 2 by simp
qed

lemmas local_rd_intros =
  local_rd_return local_rd_fail local_rd_lift local_rd_if local_rd_bind

lemma local_rd_agree:
  assumes "local_rd rd" and "\<And>buf pos. fits buf \<Longrightarrow> pos \<le> length buf \<Longrightarrow> rd' buf pos = rd buf pos"
  shows "local_rd rd'"
proof (rule local_rdI)
  fix buf pos x q
  assume a: "fits buf" "pos \<le> length buf" "rd' buf pos = Inr (x, q)"
  then have r: "rd buf pos = Inr (x, q)" using assms(2) by simp
  then show "pos \<le> q \<and> q \<le> length buf" using local_rd_bounds [OF assms(1) a(1,2)] by blast
  fix buf' pos'
  assume b: "fits buf'" "same_window buf pos buf' pos' (q - pos)"
  then have "pos' \<le> length buf'" by (simp add: same_window_def)
  then show "rd' buf' pos' = Inr (x, pos' + (q - pos))"
    using local_rd_move [OF assms(1) a(1,2) r b] assms(2) b by simp
qed

text \<open>The loop \<open>for _ in 0..n\<close> that reads \<open>n\<close> items.\<close>

fun read_many :: "('e, 'a) reader \<Rightarrow> nat \<Rightarrow> ('e, 'a list) reader" where
  "read_many rd 0 buf pos = Inr ([], pos)"
| "read_many rd (Suc n) buf pos =
     rbind (rd buf pos) (\<lambda>(x, p). rbind (read_many rd n buf p) (\<lambda>(xs, q). Inr (x # xs, q)))"

lemma read_many_count: "read_many rd n buf pos = Inr (xs, q) \<Longrightarrow> length xs = n"
  by (induction n arbitrary: pos xs q) (auto simp: results)

locale reader =
  fixes rd :: "('e, 'a) reader"
  assumes local_read: "local_rd rd"
begin

lemma read_in_bounds:
  "fits buf \<Longrightarrow> pos \<le> length buf \<Longrightarrow> rd buf pos = Inr (x, q) \<Longrightarrow> pos \<le> q \<and> q \<le> length buf"
  by (rule local_rd_bounds [OF local_read])

lemma read_relocated:
  assumes "fits buf" "pos \<le> length buf" "rd buf pos = Inr (x, q)"
    and "fits buf'" "same_window buf pos buf' pos' (q - pos)"
  shows "rd buf' pos' = Inr (x, pos' + (q - pos))"
  by (rule local_rd_move [OF local_read assms])

lemma read_many_local: "local_rd (read_many rd n)"
proof (induction n)
  case 0
  have "read_many rd 0 = (\<lambda>buf pos. Inr ([], pos))" by (intro ext) simp
  then show ?case by (simp add: local_rd_return)
next
  case (Suc n)
  have "local_rd (\<lambda>buf pos. rbind (rd buf pos)
      (\<lambda>(x, p). (\<lambda>buf p. rbind (read_many rd n buf p) (\<lambda>(xs, q). (\<lambda>buf q. Inr (x # xs, q)) buf q)) buf p))"
    by (intro local_rd_bind local_read Suc local_rd_return)
  moreover have "read_many rd (Suc n) = (\<lambda>buf pos. rbind (rd buf pos)
      (\<lambda>(x, p). (\<lambda>buf p. rbind (read_many rd n buf p) (\<lambda>(xs, q). (\<lambda>buf q. Inr (x # xs, q)) buf q)) buf p))"
    by (intro ext) simp
  ultimately show ?case by simp
qed

text \<open>A record that reads as a whole reads anywhere, and so does a run of records.\<close>

lemma read_record_at:
  assumes "rd r 0 = Inr (x, length r)" and "fits (pre @ r @ post)"
  shows "rd (pre @ r @ post) (length pre) = Inr (x, length pre + length r)"
proof -
  have "fits r" using assms(2) by (simp add: fits_def)
  from read_relocated [OF this _ assms(1,2), of "length pre"] same_window_append
  show ?thesis by simp
qed

lemma read_many_records:
  assumes "list_all2 (\<lambda>r x. rd r 0 = Inr (x, length r)) rs xs" and "fits (pre @ concat rs @ post)"
  shows "read_many rd (length rs) (pre @ concat rs @ post) (length pre)
    = Inr (xs, length pre + length (concat rs))"
  using assms
proof (induction rs xs arbitrary: pre rule: list_all2_induct)
  case Nil
  then show ?case by simp
next
  case (Cons r rs x xs)
  let ?rest = "concat rs @ post"
  have "rd (pre @ r @ ?rest) (length pre) = Inr (x, length pre + length r)"
    using Cons by (intro read_record_at) auto
  moreover have "read_many rd (length rs) ((pre @ r) @ ?rest) (length (pre @ r))
      = Inr (xs, length (pre @ r) + length (concat rs))"
    using Cons.prems by (intro Cons.IH) auto
  ultimately show ?case by simp
qed

text \<open>What was read out of a buffer is such a record.\<close>

lemma record_of_read:
  assumes "fits buf" "pos \<le> length buf" "rd buf pos = Inr (x, q)"
  shows "rd (subslice buf pos q) 0 = Inr (x, length (subslice buf pos q))"
proof -
  have b: "pos \<le> q" "q \<le> length buf" using read_in_bounds [OF assms] by auto
  have f: "fits (subslice buf pos q)" using assms(1) b by (simp add: fits_def)
  have "same_window buf pos (subslice buf pos q) 0 (q - pos)"
    using b by (simp add: same_window_def subslice_def)
  from read_relocated [OF assms f this] b show ?thesis by simp
qed

end

locale codec = reader rd for rd :: "('e, 'a) reader" +
  fixes enc :: "'a \<Rightarrow> bytes" and valid :: "'a \<Rightarrow> bool"
  assumes read_enc: "valid x \<Longrightarrow> fits (enc x) \<Longrightarrow> rd (enc x) 0 = Inr (x, length (enc x))"
begin

lemma read_enc_at:
  assumes "valid x" and "fits (pre @ enc x @ post)"
  shows "rd (pre @ enc x @ post) (length pre) = Inr (x, length pre + length (enc x))"
proof -
  have "fits (enc x)" using assms(2) by (simp add: fits_def)
  then show ?thesis using assms by (intro read_record_at read_enc)
qed

lemma read_many_enc_at:
  assumes "list_all valid xs" and "fits (pre @ concat (map enc xs) @ post)"
  shows "read_many rd (length xs) (pre @ concat (map enc xs) @ post) (length pre)
    = Inr (xs, length pre + length (concat (map enc xs)))"
proof -
  have le: "x \<in> set xs \<Longrightarrow> length (enc x) \<le> length (concat (map enc xs))" for x
    by (induction xs) auto
  have "fits (enc x)" if "x \<in> set xs" for x
    using assms(2) le [OF that] by (simp add: fits_def)
  then have "list_all2 (\<lambda>r x. rd r 0 = Inr (x, length r)) (map enc xs) xs"
    using assms(1) by (auto simp: list_all2_map1 list.rel_refl_strong list_all_iff intro!: list.rel_refl_strong read_enc)
  from read_many_records [OF this assms(2)] show ?thesis by simp
qed

end

end
