(* ===== verification/Files.thy ===== *)
theory Files
  imports Bytes "HOL-Library.AList"
begin

text \<open>
  The file system the storage components read and write: an association list from paths to file
  contents. A path is its list of components, \<open>Path::join\<close> with one file name appends. Reading
  a path that holds no file is the I/O error of the caller; a write replaces the contents
  (\<open>std::fs::write\<close>) and creates the parent directories implicitly, as \<open>create_dir_all\<close> does before most
  writes of the source. Writing succeeds unless a component says otherwise: full disks, missing
  permissions and, for the writes without a \<open>create_dir_all\<close> before them, missing directories are not
  modelled. A directory is the set of paths below it.
\<close>

type_synonym path = "string list"
type_synonym fs = "(path \<times> bytes) list"

definition read_file :: "fs \<Rightarrow> path \<Rightarrow> bytes option" where
  "read_file fs p = map_of fs p"

definition write_file :: "path \<Rightarrow> bytes \<Rightarrow> fs \<Rightarrow> fs" where
  "write_file p bs fs = AList.update p bs fs"

definition remove_file :: "path \<Rightarrow> fs \<Rightarrow> fs" where
  "remove_file p fs = AList.delete p fs"

definition rename_file :: "path \<Rightarrow> path \<Rightarrow> fs \<Rightarrow> fs" where
  "rename_file p q fs =
     (case read_file fs p of None \<Rightarrow> fs | Some bs \<Rightarrow> write_file q bs (remove_file p fs))"

definition join :: "path \<Rightarrow> string \<Rightarrow> path" where
  "join p s = p @ [s]"

text \<open>
  \<open>Path::join\<close> with a text that is not known to be one file name, and where the file system finds the
  result (without symbolic links): the text is cut at its slashes, \<open>.\<close> and empty parts go nowhere,
  \<open>..\<close> goes up, and a text that begins with a slash starts at the root.
\<close>

fun path_parts :: "string \<Rightarrow> string \<Rightarrow> string list" where
  "path_parts acc [] = [acc]"
| "path_parts acc (c # s) = (if c = CHR ''/'' then acc # path_parts [] s else path_parts (acc @ [c]) s)"

definition step_path :: "path \<Rightarrow> string \<Rightarrow> path" where
  "step_path p c = (if c = [] \<or> c = ''.'' then p else if c = ''..'' then butlast p else p @ [c])"

definition resolve_name :: "path \<Rightarrow> string \<Rightarrow> path" where
  "resolve_name p s = foldl step_path (if take 1 s = ''/'' then [] else p) (path_parts [] s)"

definition plain_name :: "string \<Rightarrow> bool" where
  "plain_name s \<longleftrightarrow> CHR ''/'' \<notin> set s"

text \<open>\<open>Path::with_extension\<close>: the last component's text after its last dot is replaced.\<close>

definition file_stem :: "string \<Rightarrow> string" where
  "file_stem s =
     (let r = dropWhile (\<lambda>c. c \<noteq> CHR ''.'') (rev s)
      in if r = [] \<or> tl r = [] then s else rev (tl r))"

definition with_extension :: "path \<Rightarrow> string \<Rightarrow> path" where
  "with_extension p e = (if p = [] then [] else butlast p @ [file_stem (last p) @ ''.'' @ e])"

text \<open>Is there a file below the directory?\<close>

definition dir_nonempty :: "path \<Rightarrow> fs \<Rightarrow> bool" where
  "dir_nonempty d fs \<longleftrightarrow> (\<exists>(p, _) \<in> set fs. length d < length p \<and> take (length d) p = d)"

text \<open>The names of the files directly inside a directory.\<close>

definition dir_files :: "path \<Rightarrow> fs \<Rightarrow> string list" where
  "dir_files d fs =
     remdups (map (last \<circ> fst) (filter (\<lambda>(p, _). p \<noteq> [] \<and> butlast p = d) fs))"

lemma path_parts_plain: "plain_name s \<Longrightarrow> path_parts acc s = [acc @ s]"
  by (induction s arbitrary: acc) (auto simp: plain_name_def)

lemma path_parts_not_nil [simp]: "path_parts acc s \<noteq> []"
  by (induction s arbitrary: acc) auto

lemma path_parts_append:
  "plain_name ext \<Longrightarrow> path_parts acc (s @ ext) = butlast (path_parts acc s) @ [last (path_parts acc s) @ ext]"
  by (induction s arbitrary: acc) (simp_all add: path_parts_plain)

text \<open>A name with an extension: its directory does not depend on the extension.\<close>

lemma resolve_name_ext:
  assumes "plain_name ext" "2 < length ext"
  shows "resolve_name p (s @ ext) =
    foldl step_path (if take 1 s = ''/'' then [] else p) (butlast (path_parts [] s)) @ [last (path_parts [] s) @ ext]"
proof -
  have "take 1 (s @ ext) = ''/'' \<longleftrightarrow> take 1 s = ''/''"
    using assms by (cases s; cases ext) (auto simp: plain_name_def)
  moreover have "step_path q (x @ ext) = q @ [x @ ext]" for q x
  proof -
    have "2 < length (x @ ext)" using assms(2) by simp
    then have "x @ ext \<noteq> []" "x @ ext \<noteq> ''.''" "x @ ext \<noteq> ''..''" by (metis list.size(3) not_less0) (use \<open>2 < length (x @ ext)\<close> in force)+
    then show ?thesis by (simp add: step_path_def)
  qed
  ultimately show ?thesis by (simp add: resolve_name_def path_parts_append [OF assms(1)])
qed

lemma resolve_name_plain:
  assumes "plain_name s" "plain_name ext" "2 < length ext" shows "resolve_name p (s @ ext) = join p (s @ ext)"
proof -
  have "take 1 s \<noteq> ''/''" using assms(1) by (cases s) (auto simp: plain_name_def)
  then show ?thesis using resolve_name_ext [OF assms(2,3), of p s] path_parts_plain [OF assms(1), of "[]"]
    by (simp add: join_def)
qed

lemma read_write_file: "read_file (write_file p bs fs) q = (if q = p then Some bs else read_file fs q)"
  by (simp add: read_file_def write_file_def update_conv')

lemma read_remove_file: "read_file (remove_file p fs) q = (if q = p then None else read_file fs q)"
  by (simp add: read_file_def remove_file_def delete_conv')

lemma read_rename_file:
  "read_file fs p = Some bs \<Longrightarrow> p \<noteq> q \<Longrightarrow>
    read_file (rename_file p q fs) r = (if r = q then Some bs else if r = p then None else read_file fs r)"
  by (simp add: rename_file_def read_write_file read_remove_file)

lemmas file_simps = read_write_file read_remove_file read_rename_file

lemma join_inject [simp]: "join p s = join q t \<longleftrightarrow> p = q \<and> s = t"
  by (simp add: join_def)

lemma in_dir_files: "s \<in> set (dir_files d fs) \<longleftrightarrow> read_file fs (join d s) \<noteq> None"
proof -
  have "s \<in> set (dir_files d fs) \<longleftrightarrow> (\<exists>bs. (join d s, bs) \<in> set fs)"
    by (auto simp: dir_files_def join_def image_iff snoc_eq_iff_butlast intro!: bexI)
  also have "\<dots> \<longleftrightarrow> join d s \<in> fst ` set fs" by force
  also have "\<dots> \<longleftrightarrow> read_file fs (join d s) \<noteq> None"
    by (simp add: read_file_def map_of_eq_None_iff)
  finally show ?thesis .
qed

text \<open>A temporary name \<open>with_extension("gguf.tmp")\<close> never is the name it was made from.\<close>

lemma tmp_extension_fresh:
  assumes "p \<noteq> []"
  shows "with_extension p ''gguf.tmp'' \<noteq> p"
proof
  assume "with_extension p ''gguf.tmp'' = p"
  then have eq: "butlast p @ [file_stem (last p) @ ''.gguf.tmp''] = p"
    using assms by (simp add: with_extension_def)
  let ?s = "last p" and ?x = "file_stem (last p)"
  have s: "?s = ?x @ ''.gguf.tmp''" using arg_cong [OF eq, of last] by simp
  have "file_stem (y @ ''.gguf.tmp'') = y @ ''.gguf''" for y by (simp add: file_stem_def Let_def)
  then have "?x = ?x @ ''.gguf''" using arg_cong [OF s, of file_stem] by simp
  then show False by simp
qed

end
