(* ===== verification/Gguf.thy ===== *)
theory Gguf
  imports Readers Files
begin

text \<open>
  The GGUF parser, \<open>crates/model-store/src/gguf.rs\<close>. A mapped file is its bytes, the \<open>Cursor\<close> is
  the position a reader takes and returns. \<open>usize\<close> and \<open>u64\<close> arithmetic wraps modulo \<open>2^64\<close>, a
  slice out of range is \<open>Panic\<close>. The formatted reasons of \<open>GgufError::Malformed\<close> are the
  constructors of \<open>malformed_reason\<close>.
\<close>

section \<open>Errors and types\<close>

definition GGUF_MAGIC :: bytes where
  "GGUF_MAGIC = [0x47, 0x47, 0x55, 0x46]"

definition GGUF_VERSION_SUPPORTED :: u32 where
  "GGUF_VERSION_SUPPORTED = 3"

definition GGUF_DEFAULT_ALIGNMENT :: u64 where
  "GGUF_DEFAULT_ALIGNMENT = 32"

definition GGUF_MAX_TENSORS :: u64 where
  "GGUF_MAX_TENSORS = 1048576"

definition GGUF_MAX_KV :: u64 where
  "GGUF_MAX_KV = 65536"

definition GGUF_MAX_DIMS :: u32 where
  "GGUF_MAX_DIMS = 8"

datatype malformed_reason =
    ShortRead nat nat \<comment> \<open>bytes wanted, bytes left\<close>
  | NotUtf8
  | NestedArray
  | PeekPastEof
  | TensorsOverCap u64
  | KvOverCap u64
  | DimsOverCap u32
  | NamedDimsOverCap string u32

datatype gguf_error =
    GgufIo path
  | BadMagic bytes
  | BadVersion u32
  | Malformed nat malformed_reason
  | UnknownKvType u32

type_synonym 'a gguf_res = "gguf_error fault + 'a"
type_synonym 'a gguf_rd = "(gguf_error fault, 'a) reader"

datatype kv_type =
    KU8 | KI8 | KU16 | KI16 | KU32 | KI32 | KF32 | KBool | KString | KArray | KU64 | KI64 | KF64

definition kv_type_from_u32 :: "u32 \<Rightarrow> kv_type gguf_res" where
  "kv_type_from_u32 v =
     (if v = 0 then Inr KU8 else if v = 1 then Inr KI8
      else if v = 2 then Inr KU16 else if v = 3 then Inr KI16
      else if v = 4 then Inr KU32 else if v = 5 then Inr KI32
      else if v = 6 then Inr KF32 else if v = 7 then Inr KBool
      else if v = 8 then Inr KString else if v = 9 then Inr KArray
      else if v = 10 then Inr KU64 else if v = 11 then Inr KI64
      else if v = 12 then Inr KF64
      else Inl (Fail (UnknownKvType v)))"

fun scalar_size :: "kv_type \<Rightarrow> nat option" where
  "scalar_size KU8 = Some 1" | "scalar_size KI8 = Some 1" | "scalar_size KBool = Some 1"
| "scalar_size KU16 = Some 2" | "scalar_size KI16 = Some 2"
| "scalar_size KU32 = Some 4" | "scalar_size KI32 = Some 4" | "scalar_size KF32 = Some 4"
| "scalar_size KU64 = Some 8" | "scalar_size KI64 = Some 8" | "scalar_size KF64 = Some 8"
| "scalar_size KString = None" | "scalar_size KArray = None"

definition ggml_type_name :: "u32 \<Rightarrow> string" where
  "ggml_type_name v =
     (case map_of
        [(0, ''F32''), (1, ''F16''), (2, ''Q4_0''), (3, ''Q4_1''), (6, ''Q5_0''), (7, ''Q5_1''),
         (8, ''Q8_0''), (9, ''Q8_1''), (10, ''Q2_K''), (11, ''Q3_K''), (12, ''Q4_K''),
         (13, ''Q5_K''), (14, ''Q6_K''), (15, ''Q8_K''), (16, ''IQ2_XXS''), (17, ''IQ2_XS''),
         (18, ''IQ3_XXS''), (19, ''IQ1_S''), (20, ''IQ4_NL''), (21, ''IQ3_S''), (22, ''IQ2_S''),
         (23, ''IQ4_XS''), (24, ''I8''), (25, ''I16''), (26, ''I32''), (27, ''I64''),
         (28, ''F64''), (29, ''IQ1_M''), (30, ''BF16''), (34, ''TQ1_0''), (35, ''TQ2_0'')] v
      of Some n \<Rightarrow> n | None \<Rightarrow> ''GGML_UNKNOWN'')"

record kv_entry =
  kv_key :: string
  kv_ty :: kv_type
  array_element_ty :: "kv_type option"
  value_range :: "nat \<times> nat"
  entry_range :: "nat \<times> nat"

record tensor_entry =
  t_name :: string
  t_shape :: "u64 list"
  t_dtype :: u32
  data_offset_rel :: u64
  n_bytes :: u64

record gguf =
  g_path :: path
  g_mmap :: bytes
  g_version :: u32
  g_alignment :: u64
  tensor_data_offset :: u64
  g_n_kv :: u64
  g_n_tensors :: u64
  kv_end_offset :: nat
  index_end_offset :: nat

section \<open>The cursor\<close>

definition read_bytes :: "nat \<Rightarrow> bytes gguf_rd" where
  "read_bytes n buf pos =
     (let e = (pos + n) mod 2 ^ 64
      in if length buf < e then Inl (Fail (Malformed pos (ShortRead n (length buf - pos))))
         else if e < pos then Inl Panic
         else Inr (subslice buf pos e, e))"

definition read_u32 :: "u32 gguf_rd" where
  "read_u32 buf pos = rbind (read_bytes 4 buf pos) (\<lambda>(b, p). Inr (word_of_nat (le_nat b), p))"

definition read_u64 :: "u64 gguf_rd" where
  "read_u64 buf pos = rbind (read_bytes 8 buf pos) (\<lambda>(b, p). Inr (word_of_nat (le_nat b), p))"

definition read_string :: "string gguf_rd" where
  "read_string buf pos =
     rbind (read_u64 buf pos) (\<lambda>(len, p).
     rbind (read_bytes (unat len) buf p) (\<lambda>(bs, q).
       if utf8_valid bs then Inr (bytes_str bs, q)
       else Inl (Fail (Malformed (q - unat len) NotUtf8))))"

definition read_str_borrowed :: "string gguf_rd" where
  "read_str_borrowed buf pos =
     rbind (read_u64 buf pos) (\<lambda>(len, start).
     rbind (read_bytes (unat len) buf start) (\<lambda>(_, q).
       let bs = subslice buf start (start + unat len)
       in if utf8_valid bs then Inr (bytes_str bs, q)
          else Inl (Fail (Malformed start NotUtf8))))"

definition peek_u32 :: "bytes \<Rightarrow> nat \<Rightarrow> u32 gguf_res" where
  "peek_u32 buf pos =
     (if length buf < pos + 4 then Inl (Fail (Malformed pos PeekPastEof))
      else Inr (word_of_nat (le_nat (subslice buf pos (pos + 4)))))"

definition skip_string :: "unit gguf_rd" where
  "skip_string buf pos =
     rbind (read_u64 buf pos) (\<lambda>(n, p).
     rbind (read_bytes (unat n) buf p) (\<lambda>(_, q). Inr ((), q)))"

definition skip_array :: "unit gguf_rd" where
  "skip_array buf pos =
     rbind (read_u32 buf pos) (\<lambda>(t, p).
     rbind (kv_type_from_u32 t) (\<lambda>ety.
     rbind (read_u64 buf p) (\<lambda>(n_elems, q).
       case scalar_size ety of
         Some sz \<Rightarrow> rbind (read_bytes ((sz * unat n_elems) mod 2 ^ 64) buf q) (\<lambda>(_, r). Inr ((), r))
       | None \<Rightarrow>
           if ety = KString
           then rbind (read_many skip_string (unat n_elems) buf q) (\<lambda>(_, r). Inr ((), r))
           else Inl (Fail (Malformed q NestedArray)))))"

definition skip_kv_value :: "kv_type \<Rightarrow> unit gguf_rd" where
  "skip_kv_value ty buf pos =
     (case scalar_size ty of
        Some sz \<Rightarrow> rbind (read_bytes sz buf pos) (\<lambda>(_, p). Inr ((), p))
      | None \<Rightarrow> if ty = KString then skip_string buf pos else skip_array buf pos)"

definition align_up :: "u64 \<Rightarrow> u64 \<Rightarrow> u64" where
  "align_up offset alignment =
     (if alignment = 0 then offset
      else let rm = offset mod alignment
           in if rm = 0 then offset else offset + (alignment - rm))"

section \<open>Opening a file\<close>

text \<open>The key and type tag of a KV record, and the walk of \<open>Gguf::open\<close> over the KV block.\<close>

definition read_kv_type :: "kv_type gguf_rd" where
  "read_kv_type buf pos =
     rbind (read_u32 buf pos) (\<lambda>(t, p). rbind (kv_type_from_u32 t) (\<lambda>ty. Inr (ty, p)))"

fun open_kvs :: "nat \<Rightarrow> u64 \<Rightarrow> u64 gguf_rd" where
  "open_kvs 0 al buf pos = Inr (al, pos)"
| "open_kvs (Suc n) al buf pos =
     rbind (read_string buf pos) (\<lambda>(key, p).
     rbind (read_kv_type buf p) (\<lambda>(ty, value_start).
     rbind (skip_kv_value ty buf value_start) (\<lambda>(_, value_end).
       open_kvs n
         (if key = ''general.alignment'' \<and> ty = KU32
          then word_of_nat (le_nat (subslice buf value_start (value_start + 4))) else al)
         buf value_end)))"

definition open_tensor :: "unit gguf_rd" where
  "open_tensor buf pos =
     rbind (read_string buf pos) (\<lambda>(_, p).
     rbind (read_u32 buf p) (\<lambda>(n_dims, q).
       if GGUF_MAX_DIMS < n_dims then Inl (Fail (Malformed q (DimsOverCap n_dims)))
       else rbind (read_many read_u64 (unat n_dims) buf q) (\<lambda>(_, r).
            rbind (read_u32 buf r) (\<lambda>(_, s).
            rbind (read_u64 buf s) (\<lambda>(_, t). Inr ((), t))))))"

definition gguf_parse :: "path \<Rightarrow> bytes \<Rightarrow> gguf gguf_res" where
  "gguf_parse path buf =
     rbind (read_bytes 4 buf 0) (\<lambda>(magic, p).
     if magic \<noteq> GGUF_MAGIC then Inl (Fail (BadMagic magic)) else
     rbind (read_u32 buf p) (\<lambda>(version, p).
     if version \<noteq> GGUF_VERSION_SUPPORTED then Inl (Fail (BadVersion version)) else
     rbind (read_u64 buf p) (\<lambda>(n_tensors, p).
     rbind (read_u64 buf p) (\<lambda>(n_kv, p).
     if GGUF_MAX_TENSORS < n_tensors then Inl (Fail (Malformed 16 (TensorsOverCap n_tensors))) else
     if GGUF_MAX_KV < n_kv then Inl (Fail (Malformed 24 (KvOverCap n_kv))) else
     rbind (open_kvs (unat n_kv) GGUF_DEFAULT_ALIGNMENT buf p) (\<lambda>(alignment, kv_end).
     rbind (read_many open_tensor (unat n_tensors) buf kv_end) (\<lambda>(_, index_end).
       Inr \<lparr>g_path = path, g_mmap = buf, g_version = version, g_alignment = alignment,
            tensor_data_offset = align_up (word_of_nat index_end) alignment,
            g_n_kv = n_kv, g_n_tensors = n_tensors,
            kv_end_offset = kv_end, index_end_offset = index_end\<rparr>))))))"

definition gguf_open :: "fs \<Rightarrow> path \<Rightarrow> gguf gguf_res" where
  "gguf_open fs path = rbind (ok_or (Fail (GgufIo path)) (read_file fs path)) (gguf_parse path)"

section \<open>The second passes\<close>

definition read_kv_entry :: "kv_entry gguf_rd" where
  "read_kv_entry buf entry_start =
     rbind (read_str_borrowed buf entry_start) (\<lambda>(key, p).
     rbind (read_kv_type buf p) (\<lambda>(ty, value_start).
     rbind (if ty = KArray
            then rbind (rbind (peek_u32 buf value_start) kv_type_from_u32) (\<lambda>t. Inr (Some t))
            else Inr None) (\<lambda>elem_ty.
     rbind (skip_kv_value ty buf value_start) (\<lambda>(_, entry_end).
       Inr (\<lparr>kv_key = key, kv_ty = ty, array_element_ty = elem_ty,
             value_range = (value_start, entry_end), entry_range = (entry_start, entry_end)\<rparr>,
            entry_end)))))"

definition kv_entries :: "gguf \<Rightarrow> kv_entry list gguf_res" where
  "kv_entries g = rbind (read_many read_kv_entry (unat (g_n_kv g)) (g_mmap g) 24) (\<lambda>(es, _). Inr es)"

definition read_tensor_entry :: "tensor_entry gguf_rd" where
  "read_tensor_entry buf pos =
     rbind (read_str_borrowed buf pos) (\<lambda>(name, p).
     rbind (read_u32 buf p) (\<lambda>(n_dims, q).
       if GGUF_MAX_DIMS < n_dims then Inl (Fail (Malformed q (NamedDimsOverCap name n_dims)))
       else rbind (read_many read_u64 (unat n_dims) buf q) (\<lambda>(shape, r).
            rbind (read_u32 buf r) (\<lambda>(dtype, s).
            rbind (read_u64 buf s) (\<lambda>(off, t).
              Inr (\<lparr>t_name = name, t_shape = shape, t_dtype = dtype,
                    data_offset_rel = off, n_bytes = 0\<rparr>, t))))))"

text \<open>
  The sizes: each tensor's data runs to the next offset in sorted order, the last one to the end
  of the file. \<open>sort_by_key\<close> is a stable sort of the indices by offset.
\<close>

definition sorted_idxs :: "tensor_entry list \<Rightarrow> nat list" where
  "sorted_idxs ts = sort_key (\<lambda>i. data_offset_rel (ts ! i)) [0..<length ts]"

fun fill_sizes :: "u64 \<Rightarrow> nat list \<Rightarrow> tensor_entry list \<Rightarrow> tensor_entry list" where
  "fill_sizes file_end [] ts = ts"
| "fill_sizes file_end (i # is) ts =
     (let next_off = (case is of j # _ \<Rightarrow> data_offset_rel (ts ! j) | [] \<Rightarrow> file_end)
      in fill_sizes file_end is
           (ts[i := (ts ! i)\<lparr>n_bytes := next_off - data_offset_rel (ts ! i)\<rparr>]))"

definition tensors :: "gguf \<Rightarrow> tensor_entry list gguf_res" where
  "tensors g =
     rbind (read_many read_tensor_entry (unat (g_n_tensors g)) (g_mmap g) (kv_end_offset g))
       (\<lambda>(ts, _).
          let file_end_rel = word_of_nat (length (g_mmap g)) - tensor_data_offset g
          in Inr (fill_sizes file_end_rel (sorted_idxs ts) ts))"

definition tensor_bytes :: "gguf \<Rightarrow> tensor_entry \<Rightarrow> bytes gguf_res" where
  "tensor_bytes g t =
     (let start = tensor_data_offset g + data_offset_rel t;
          e = start + n_bytes t
      in if start \<le> e \<and> unat e \<le> length (g_mmap g)
         then Inr (subslice (g_mmap g) (unat start) (unat e)) else Inl Panic)"

section \<open>Readers are local\<close>

lemma read_bytes_Inr:
  assumes "n < 2 ^ 64" "fits buf" "pos \<le> length buf"
  shows "read_bytes n buf pos = Inr (bs, q) \<longleftrightarrow>
    pos + n \<le> length buf \<and> q = pos + n \<and> bs = subslice buf pos (pos + n)"
proof (cases "pos + n < 2 ^ 64")
  case True
  then show ?thesis by (auto simp: read_bytes_def Let_def)
next
  case False
  have len: "length buf < 2 ^ 64" using assms(2) by (simp add: fits_def)
  define e where "e = (pos + n) mod 2 ^ 64"
  have "pos + n - 2 ^ 64 < 2 ^ 64" using assms(1,3) len by simp
  then have e: "e = pos + n - 2 ^ 64"
    using False mod_if [of "pos + n" "2 ^ 64"] by (simp add: e_def)
  have "e < pos" using assms(1) e False by linarith
  then have "\<exists>err. read_bytes n buf pos = Inl err"
    unfolding read_bytes_def Let_def e_def [symmetric] by simp
  moreover have "\<not> pos + n \<le> length buf" using False len by linarith
  ultimately show ?thesis by auto
qed

lemma read_bytes_local: "n < 2 ^ 64 \<Longrightarrow> local_rd (read_bytes n)"
proof (rule local_rdI, goal_cases)
  case (1 buf pos bs q)
  then show ?case by (simp add: read_bytes_Inr)
next
  case (2 buf pos bs q buf' pos')
  then have q: "q = pos + n" "bs = subslice buf pos (pos + n)" by (simp_all add: read_bytes_Inr)
  then have w: "same_window buf pos buf' pos' n" using 2 by simp
  then have "pos' + n \<le> length buf'" by (simp add: same_window_def)
  then show ?case using 2 q same_window_subslice [OF w] by (simp add: read_bytes_Inr)
qed

interpretation rd_u32: reader read_u32
proof
  have "local_rd (\<lambda>buf pos. rbind (read_bytes 4 buf pos)
      (\<lambda>(b, p). (\<lambda>buf p. Inr (word_of_nat (le_nat b) :: u32, p)) buf p))"
    by (intro local_rd_intros read_bytes_local) simp
  then show "local_rd read_u32" by (simp add: read_u32_def [abs_def])
qed

interpretation rd_u64: reader read_u64
proof
  have "local_rd (\<lambda>buf pos. rbind (read_bytes 8 buf pos)
      (\<lambda>(b, p). (\<lambda>buf p. Inr (word_of_nat (le_nat b) :: u64, p)) buf p))"
    by (intro local_rd_intros read_bytes_local) simp
  then show "local_rd read_u64" by (simp add: read_u64_def [abs_def])
qed

text \<open>The error position of \<open>read_string\<close> is the position after the length field.\<close>

lemma read_bytes_pos: "n < 2 ^ 64 \<Longrightarrow> fits buf \<Longrightarrow> pos \<le> length buf
    \<Longrightarrow> read_bytes n buf pos = Inr (bs, q) \<Longrightarrow> q = pos + n \<and> bs = subslice buf pos q"
  by (simp add: read_bytes_Inr)

text \<open>The borrowed form and the owning form of the string reader agree, errors included.\<close>

lemma read_str_borrowed_eq:
  assumes "fits buf" "pos \<le> length buf"
  shows "read_str_borrowed buf pos = read_string buf pos"
proof (cases "read_u64 buf pos")
  case (Inl e)
  then show ?thesis by (simp add: read_str_borrowed_def read_string_def)
next
  case (Inr r)
  obtain len p where r: "r = (len, p)" by (cases r)
  have p: "p \<le> length buf" using rd_u64.read_in_bounds [OF assms] Inr r by simp
  show ?thesis
  proof (cases "read_bytes (unat len) buf p")
    case (Inl e)
    then show ?thesis using Inr r by (simp add: read_str_borrowed_def read_string_def)
  next
    case (Inr r')
    obtain bs q where r': "r' = (bs, q)" by (cases r')
    have "q = p + unat len \<and> bs = subslice buf p q"
      using read_bytes_pos [OF unat_u64_less assms(1) p] Inr r' by simp
    then show ?thesis using Inr r r' \<open>read_u64 buf pos = Inr r\<close>
      by (simp add: read_str_borrowed_def read_string_def)
  qed
qed

text \<open>A string read, in one step.\<close>

lemma read_string_Inr:
  assumes "fits buf" "pos \<le> length buf"
  shows "read_string buf pos = Inr (s, q) \<longleftrightarrow>
    (\<exists>len p. read_u64 buf pos = Inr (len, p) \<and> p + unat len \<le> length buf \<and> q = p + unat len \<and>
       utf8_valid (subslice buf p q) \<and> s = bytes_str (subslice buf p q))"
proof -
  have "read_u64 buf pos = Inr (len, p) \<Longrightarrow> p \<le> length buf" for len p
    using rd_u64.read_in_bounds [OF assms] by blast
  then show ?thesis
    using unat_u64_less assms
    by (fastforce simp: read_string_def rbind_eq_Inr read_bytes_Inr split: prod.splits if_splits)
qed

interpretation rd_string: reader read_string
proof
  let ?tl = "\<lambda>len. \<lambda>buf p. rbind (read_bytes (unat (len :: u64)) buf p) (\<lambda>(bs, q).
     (\<lambda>buf q. if utf8_valid bs then Inr (bytes_str bs, q)
       else Inl (Fail (Malformed (q - unat len) NotUtf8))) buf q)"
  have "local_rd (\<lambda>buf pos. rbind (read_u64 buf pos) (\<lambda>(len, p). ?tl len buf p))"
    by (rule local_rd_bind [OF rd_u64.local_read local_rd_bind [OF read_bytes_local]])
      (use unat_u64_less in \<open>auto intro: local_rd_intros\<close>)
  then show "local_rd read_string" by (simp add: read_string_def [abs_def])
qed

lemma skip_string_local: "local_rd skip_string"
proof -
  have "local_rd (\<lambda>buf pos. rbind (read_u64 buf pos) (\<lambda>(n, p).
      (\<lambda>buf p. rbind (read_bytes (unat n) buf p) (\<lambda>(b, q). (\<lambda>buf q. Inr ((), q)) buf q)) buf p))"
    by (intro local_rd_bind rd_u64.local_read read_bytes_local local_rd_return unat_u64_less)
  then show ?thesis by (simp add: skip_string_def [abs_def])
qed

interpretation rd_skip: reader skip_string
  by unfold_locales (rule skip_string_local)

lemma read_kv_type_local: "local_rd read_kv_type"
proof -
  have "local_rd (\<lambda>buf pos. rbind (read_u32 buf pos) (\<lambda>(t, p).
      (\<lambda>buf p. rbind (kv_type_from_u32 t) (\<lambda>ty. (\<lambda>buf p. Inr (ty, p)) buf p)) buf p))"
    by (intro local_rd_bind rd_u32.local_read local_rd_lift local_rd_return)
  then show ?thesis by (simp add: read_kv_type_def [abs_def])
qed

lemma scalar_size_bound: "scalar_size ty = Some sz \<Longrightarrow> sz \<in> {1, 2, 4, 8}"
  by (cases ty) auto

lemma skip_array_elems_local:
  "local_rd (\<lambda>buf q. case scalar_size ety of
         Some sz \<Rightarrow> rbind (read_bytes ((sz * n) mod 2 ^ 64) buf q) (\<lambda>(_, r). Inr ((), r))
       | None \<Rightarrow>
           if ety = KString
           then rbind (read_many skip_string n buf q) (\<lambda>(_, r). Inr ((), r))
           else Inl (Fail (Malformed q NestedArray)))"
proof (cases "scalar_size ety")
  case (Some sz)
  have "local_rd (\<lambda>buf q. rbind (read_bytes ((sz * n) mod 2 ^ 64) buf q)
      (\<lambda>(b, r). (\<lambda>buf r. Inr ((), r)) buf r))"
    by (intro local_rd_bind read_bytes_local local_rd_return) simp
  then show ?thesis using Some by simp
next
  case None
  have "local_rd (\<lambda>buf q. rbind (read_many skip_string n buf q)
      (\<lambda>(b, r). (\<lambda>buf r. Inr ((), r)) buf r))"
    by (intro local_rd_bind rd_skip.read_many_local local_rd_return)
  then show ?thesis using None by (simp add: local_rd_fail local_rd_if)
qed

lemma skip_array_local: "local_rd skip_array"
proof -
  have "local_rd (\<lambda>buf pos. rbind (read_u32 buf pos) (\<lambda>(t, p).
      (\<lambda>buf p. rbind (kv_type_from_u32 t) (\<lambda>ety.
        (\<lambda>buf p. rbind (read_u64 buf p) (\<lambda>(n_elems, q).
          (\<lambda>buf q. case scalar_size ety of
             Some sz \<Rightarrow> rbind (read_bytes ((sz * unat n_elems) mod 2 ^ 64) buf q) (\<lambda>(_, r). Inr ((), r))
           | None \<Rightarrow>
               if ety = KString
               then rbind (read_many skip_string (unat n_elems) buf q) (\<lambda>(_, r). Inr ((), r))
               else Inl (Fail (Malformed q NestedArray))) buf q)) buf p)) buf p))"
    by (intro local_rd_bind rd_u32.local_read local_rd_lift rd_u64.local_read
        skip_array_elems_local)
  then show ?thesis by (simp only: skip_array_def [abs_def])
qed

lemma skip_kv_value_local: "local_rd (skip_kv_value ty)"
proof (cases "scalar_size ty")
  case (Some sz)
  have "sz < 2 ^ 64" using scalar_size_bound [OF Some] by auto
  then have "local_rd (\<lambda>buf pos. rbind (read_bytes sz buf pos)
      (\<lambda>(b, p). (\<lambda>buf p. Inr ((), p)) buf p))"
    by (intro local_rd_bind read_bytes_local local_rd_return)
  then show ?thesis using Some by (simp add: skip_kv_value_def [abs_def])
next
  case None
  then show ?thesis
    by (simp add: skip_kv_value_def [abs_def] skip_string_local skip_array_local local_rd_if)
qed

text \<open>
  The re-read of the alignment sees the bytes that \<open>skip_kv_value\<close> stepped over, so a step of the
  walk is a composition of readers.
\<close>

lemma read_u32_Inr:
  assumes "fits buf" "vs \<le> length buf"
  shows "read_u32 buf vs = Inr (v, ve) \<longleftrightarrow>
    vs + 4 \<le> length buf \<and> ve = vs + 4 \<and> v = word_of_nat (le_nat (subslice buf vs (vs + 4)))"
  using assms by (auto simp: read_u32_def rbind_eq_Inr read_bytes_Inr)

lemma skip_u32_Inr:
  assumes "fits buf" "vs \<le> length buf"
  shows "skip_kv_value KU32 buf vs = Inr (u, ve) \<longleftrightarrow> vs + 4 \<le> length buf \<and> ve = vs + 4"
  using assms by (auto simp: skip_kv_value_def rbind_eq_Inr read_bytes_Inr)

definition open_kv :: "u64 option gguf_rd" where
  "open_kv buf pos =
     rbind (read_string buf pos) (\<lambda>(key, p).
     rbind (read_kv_type buf p) (\<lambda>(ty, vs).
       if key = ''general.alignment'' \<and> ty = KU32
       then rbind (read_u32 buf vs) (\<lambda>(v, ve). Inr (Some (word_of_nat (unat v)), ve))
       else rbind (skip_kv_value ty buf vs) (\<lambda>(_, ve). Inr (None, ve))))"

lemma open_kv_local: "local_rd open_kv"
proof -
  have "local_rd (\<lambda>buf pos. rbind (read_string buf pos) (\<lambda>(key, p).
      (\<lambda>buf p. rbind (read_kv_type buf p) (\<lambda>(ty, vs).
         (\<lambda>buf vs. if key = ''general.alignment'' \<and> ty = KU32
           then rbind (read_u32 buf vs) (\<lambda>(v, ve). (\<lambda>buf ve. Inr (Some (word_of_nat (unat v) :: u64), ve)) buf ve)
           else rbind (skip_kv_value ty buf vs) (\<lambda>(u, ve). (\<lambda>buf ve. Inr (None, ve)) buf ve)) buf vs)) buf p))"
    by (intro local_rd_bind local_rd_if rd_string.local_read read_kv_type_local
        rd_u32.local_read skip_kv_value_local local_rd_return)
  then show ?thesis by (simp only: open_kv_def [abs_def])
qed

interpretation rd_kv: reader open_kv
  by unfold_locales (rule open_kv_local)

lemma le_nat_u32_bound: "length bs = 4 \<Longrightarrow> le_nat bs < 2 ^ 32"
  using le_nat_bound [of bs] by simp

lemma word_of_u32_bytes:
  "length bs = 4 \<Longrightarrow> (word_of_nat (unat (word_of_nat (le_nat bs) :: u32)) :: u64) = word_of_nat (le_nat bs)"
  using le_nat_u32_bound [of bs] by (simp add: unat_of_nat_u32)

lemma open_kvs_Suc:
  assumes b: "fits buf" "pos \<le> length buf"
  shows "open_kvs (Suc n) al buf pos = Inr (al', q) \<longleftrightarrow>
    (\<exists>v p. open_kv buf pos = Inr (v, p) \<and> open_kvs n (case v of None \<Rightarrow> al | Some a \<Rightarrow> a) buf p = Inr (al', q))"
proof (cases "read_string buf pos")
  case (Inl e)
  then show ?thesis by (simp add: open_kv_def)
next
  case str: (Inr r)
  obtain key p where r: "r = (key, p)" by (cases r)
  have p: "p \<le> length buf" using rd_string.read_in_bounds [OF b] str r by simp
  show ?thesis
  proof (cases "read_kv_type buf p")
    case (Inl e)
    then show ?thesis using str r by (simp add: open_kv_def)
  next
    case ty: (Inr r')
    obtain t vs where r': "r' = (t, vs)" by (cases r')
    have vs: "vs \<le> length buf" using local_rd_bounds [OF read_kv_type_local b(1) p] ty r' by simp
    show ?thesis
    proof (cases "key = ''general.alignment'' \<and> t = KU32")
      case True
      have "vs + 4 \<le> length buf \<Longrightarrow> (word_of_nat (unat (word_of_nat (le_nat (subslice buf vs (vs + 4))) :: u32)) :: u64)
          = word_of_nat (le_nat (subslice buf vs (vs + 4)))"
        by (rule word_of_u32_bytes) simp
      then show ?thesis using True str r ty r'
        by (auto simp: open_kv_def rbind_eq_Inr skip_u32_Inr [OF b(1) vs] read_u32_Inr [OF b(1) vs])
    next
      case False
      then show ?thesis using str r ty r' by (auto simp: open_kv_def rbind_eq_Inr)
    qed
  qed
qed

lemma open_kvs_read_many:
  "fits buf \<Longrightarrow> pos \<le> length buf \<Longrightarrow> open_kvs n al buf pos = Inr (al', q) \<longleftrightarrow>
    (\<exists>vs. read_many open_kv n buf pos = Inr (vs, q) \<and>
       al' = foldl (\<lambda>a v. case v of None \<Rightarrow> a | Some b \<Rightarrow> b) al vs)"
proof (induction n arbitrary: al pos)
  case 0
  then show ?case by auto
next
  case (Suc n)
  have "p \<le> length buf" if "open_kv buf pos = Inr (v, p)" for v p
    using rd_kv.read_in_bounds [OF Suc.prems that] by simp
  then show ?case using Suc
    by (fastforce simp: open_kvs_Suc rbind_eq_Inr simp del: open_kvs.simps)
qed

lemma open_tensor_local: "local_rd open_tensor"
proof -
  have "local_rd (\<lambda>buf pos. rbind (read_string buf pos) (\<lambda>(name, p).
     (\<lambda>buf p. rbind (read_u32 buf p) (\<lambda>(n_dims, q).
       (\<lambda>buf q. if GGUF_MAX_DIMS < n_dims
         then (\<lambda>buf q. Inl (Fail (Malformed q (DimsOverCap n_dims)))) buf q
         else (\<lambda>buf q. rbind (read_many read_u64 (unat n_dims) buf q) (\<lambda>(sh, r).
            (\<lambda>buf r. rbind (read_u32 buf r) (\<lambda>(dt, s).
            (\<lambda>buf s. rbind (read_u64 buf s) (\<lambda>(off, t). (\<lambda>buf t. Inr ((), t)) buf t)) buf s)) buf r)) buf q) buf q)) buf p))"
    by (intro local_rd_bind local_rd_if rd_string.local_read rd_u32.local_read rd_u64.local_read
        rd_u64.read_many_local local_rd_return local_rd_fail)
  then show ?thesis by (simp only: open_tensor_def [abs_def])
qed

interpretation rd_tensor: reader open_tensor
  by unfold_locales (rule open_tensor_local)

section \<open>The header\<close>

text \<open>What a successful parse has established, one conclusion per field.\<close>

lemma gguf_parse_Inr:
  assumes "gguf_parse path buf = Inr g" and fits: "fits buf"
  shows "24 \<le> length buf" "take 4 buf = GGUF_MAGIC" "g_path g = path" "g_mmap g = buf"
    "g_version g = 3"
    "read_u64 buf 8 = Inr (g_n_tensors g, 16)" "read_u64 buf 16 = Inr (g_n_kv g, 24)"
    "g_n_tensors g \<le> GGUF_MAX_TENSORS" "g_n_kv g \<le> GGUF_MAX_KV"
    "open_kvs (unat (g_n_kv g)) GGUF_DEFAULT_ALIGNMENT buf 24 = Inr (g_alignment g, kv_end_offset g)"
    "\<exists>us. read_many open_tensor (unat (g_n_tensors g)) buf (kv_end_offset g) = Inr (us, index_end_offset g)"
    "tensor_data_offset g = align_up (word_of_nat (index_end_offset g)) (g_alignment g)"
proof -
  have u64: "read_u64 buf a = Inr (v, p) \<Longrightarrow> a \<le> length buf \<Longrightarrow> a + 8 \<le> length buf \<and> p = a + 8" for a v p
    using fits by (auto simp: read_u64_def rbind_eq_Inr read_bytes_Inr)
  have 0: "read_bytes 4 buf 0 = Inr (m, p) \<longleftrightarrow> 4 \<le> length buf \<and> p = 4 \<and> m = take 4 buf" for m p
    using fits by (auto simp: read_bytes_Inr subslice_def)
  have 1: "4 \<le> length buf \<Longrightarrow> read_u32 buf 4 = Inr (v, p) \<Longrightarrow> 8 \<le> length buf \<and> p = 8" for v p
    using fits by (auto simp: read_u32_Inr)
  from assms(1) obtain m p0 v p1 nt p2 nk p3 al ke us ie where
    m: "read_bytes 4 buf 0 = Inr (m, p0)" "m = GGUF_MAGIC" and
    v: "read_u32 buf p0 = Inr (v, p1)" "v = GGUF_VERSION_SUPPORTED" and
    nt: "read_u64 buf p1 = Inr (nt, p2)" and nk: "read_u64 buf p2 = Inr (nk, p3)" and
    caps: "\<not> GGUF_MAX_TENSORS < nt" "\<not> GGUF_MAX_KV < nk" and
    kv: "open_kvs (unat nk) GGUF_DEFAULT_ALIGNMENT buf p3 = Inr (al, ke)" and
    ts: "read_many open_tensor (unat nt) buf ke = Inr (us, ie)" and
    g: "g = \<lparr>g_path = path, g_mmap = buf, g_version = v, g_alignment = al,
            tensor_data_offset = align_up (word_of_nat ie) al,
            g_n_kv = nk, g_n_tensors = nt, kv_end_offset = ke, index_end_offset = ie\<rparr>"
    unfolding gguf_parse_def rbind_eq_Inr
    by (auto simp: rbind_eq_Inr split: prod.splits if_splits)
  have p: "p0 = 4" "4 \<le> length buf" "m = take 4 buf" using m 0 by auto
  have p1: "p1 = 8" "8 \<le> length buf" using 1 v p by auto
  have p2: "p2 = 16" "16 \<le> length buf" using u64 [OF nt] p1 by auto
  have p3: "p3 = 24" "24 \<le> length buf" using u64 [OF nk] p2 by auto
  show "24 \<le> length buf" by fact
  show "take 4 buf = GGUF_MAGIC" using m p by simp
  show "g_path g = path" "g_mmap g = buf" by (simp_all add: g)
  show "g_version g = 3" using v by (simp add: g GGUF_VERSION_SUPPORTED_def)
  show "read_u64 buf 8 = Inr (g_n_tensors g, 16)" using nt p1 p2 by (simp add: g)
  show "read_u64 buf 16 = Inr (g_n_kv g, 24)" using nk p2 p3 by (simp add: g)
  show "g_n_tensors g \<le> GGUF_MAX_TENSORS" "g_n_kv g \<le> GGUF_MAX_KV" using caps by (simp_all add: g)
  show "open_kvs (unat (g_n_kv g)) GGUF_DEFAULT_ALIGNMENT buf 24 = Inr (g_alignment g, kv_end_offset g)"
    using kv p3 by (simp add: g)
  show "\<exists>us. read_many open_tensor (unat (g_n_tensors g)) buf (kv_end_offset g) = Inr (us, index_end_offset g)"
    using ts by (auto simp: g)
  show "tensor_data_offset g = align_up (word_of_nat (index_end_offset g)) (g_alignment g)"
    by (simp add: g)
qed

text \<open>Parsed offsets are ordered, and the data offset is the next aligned one.\<close>

lemma gguf_parse_offsets:
  assumes "gguf_parse path buf = Inr g" "fits buf"
  shows "24 \<le> kv_end_offset g" "kv_end_offset g \<le> index_end_offset g"
    "index_end_offset g \<le> length buf"
proof -
  note h = gguf_parse_Inr [OF assms]
  from h(10) open_kvs_read_many [OF assms(2) h(1)] obtain vs where
    "read_many open_kv (unat (g_n_kv g)) buf 24 = Inr (vs, kv_end_offset g)" by auto
  then have k: "24 \<le> kv_end_offset g" "kv_end_offset g \<le> length buf"
    using local_rd_bounds [OF rd_kv.read_many_local assms(2) h(1)] by blast+
  from h(11) have i: "kv_end_offset g \<le> index_end_offset g" "index_end_offset g \<le> length buf"
    using local_rd_bounds [OF rd_tensor.read_many_local assms(2) k(2)] by blast+
  show "24 \<le> kv_end_offset g" "kv_end_offset g \<le> index_end_offset g" "index_end_offset g \<le> length buf"
    using k i by auto
qed

lemma alignment_bound:
  assumes "fits buf" "pos \<le> length buf" "unat al < 2 ^ 32"
    "open_kvs n al buf pos = Inr (al', q)"
  shows "unat al' < 2 ^ 32"
  using assms
proof (induction n arbitrary: al pos)
  case 0
  then show ?case by simp
next
  case (Suc n)
  from Suc.prems obtain v p where kv: "open_kv buf pos = Inr (v, p)"
    and rest: "open_kvs n (case v of None \<Rightarrow> al | Some a \<Rightarrow> a) buf p = Inr (al', q)"
    by (auto simp: open_kvs_Suc simp del: open_kvs.simps)
  have p: "p \<le> length buf" using rd_kv.read_in_bounds [OF Suc.prems(1,2) kv] by simp
  have "v = Some a \<Longrightarrow> unat a < 2 ^ 32" for a
  proof -
    assume "v = Some a"
    then obtain w :: u32 where "a = word_of_nat (unat w)"
      using kv by (auto simp: open_kv_def rbind_eq_Inr split: prod.splits if_splits)
    then have "unat a = unat w" using unat_u32_less [of w] unat_of_nat_u64 [of "unat w"] by simp
    then show "unat a < 2 ^ 32" using unat_u32_less [of w] by simp
  qed
  then have "unat (case v of None \<Rightarrow> al | Some a \<Rightarrow> a) < 2 ^ 32"
    using Suc.prems(3) by (simp split: option.splits)
  then show ?case by (rule Suc.IH [OF Suc.prems(1) p _ rest])
qed

lemma align_up_nat:
  assumes "unat off < 2 ^ 63" "unat al < 2 ^ 32"
  shows "unat (align_up off al) =
    (if unat al = 0 \<or> unat off mod unat al = 0 then unat off
     else unat off + (unat al - unat off mod unat al))"
proof (cases "al = 0 \<or> off mod al = 0")
  case True
  then show ?thesis by (auto simp: align_up_def unat_mod Let_def simp flip: unat_eq_0)
next
  case False
  then have ne: "unat al \<noteq> 0" "unat off mod unat al \<noteq> 0"
    by (auto simp: unat_eq_0 simp flip: unat_mod)
  have lt: "unat (off mod al) \<le> unat al" using ne by (simp add: unat_mod less_imp_le)
  then have "unat (al - off mod al) = unat al - unat off mod unat al"
    by (simp add: unat_sub word_le_nat_alt flip: unat_mod)
  moreover have "unat off + (unat al - unat off mod unat al) < 2 ^ 64" using assms by simp
  ultimately have "unat (off + (al - off mod al)) = unat off + (unat al - unat off mod unat al)"
    by (simp add: unat_word_ariths)
  then show ?thesis using False ne by (simp add: align_up_def Let_def)
qed

lemma align_up_props:
  assumes "unat off < 2 ^ 63" "unat al < 2 ^ 32"
  shows "unat off \<le> unat (align_up off al)"
    "unat (align_up off al) < unat off + max 1 (unat al)"
    "unat al dvd unat (align_up off al) \<or> al = 0"
proof -
  note n = align_up_nat [OF assms]
  have "unat al \<noteq> 0 \<Longrightarrow> unat off mod unat al < unat al" by simp
  moreover from this have "unat al \<noteq> 0 \<Longrightarrow> unat off mod unat al \<le> unat al" by simp
  ultimately show "unat off \<le> unat (align_up off al)"
    "unat (align_up off al) < unat off + max 1 (unat al)"
    unfolding n by (cases "unat al = 0"; cases "unat off mod unat al = 0"; simp; linarith)+
  show "unat al dvd unat (align_up off al) \<or> al = 0"
  proof (cases "unat al = 0 \<or> unat off mod unat al = 0")
    case True
    then show ?thesis by (auto simp: n unat_eq_0)
  next
    case False
    then have "unat off + (unat al - unat off mod unat al) = unat al * (unat off div unat al + 1)"
    proof -
      have "unat off mod unat al < unat al" using False by simp
      moreover have "unat off = unat al * (unat off div unat al) + unat off mod unat al" by simp
      ultimately have "unat off + (unat al - unat off mod unat al)
          = unat al * (unat off div unat al) + unat al" by linarith
      then show ?thesis by simp
    qed
    then have "unat al dvd unat (align_up off al)" using False by (simp add: n)
    then show ?thesis ..
  qed
qed

text \<open>
  A file that \<open>Gguf::open\<close> accepts has its parts in order: the 24 header bytes, the KV block,
  the tensor index, all inside the file, and the tensor data starts at the first multiple of the
  alignment after the index (the alignment zero, which a file may declare, means no padding).
\<close>

theorem gguf_open_layout:
  assumes "gguf_open fs path = Inr g" "\<And>buf. read_file fs path = Some buf \<Longrightarrow> fits buf"
  shows "read_file fs path = Some (g_mmap g) \<and> 24 \<le> kv_end_offset g \<and> kv_end_offset g \<le> index_end_offset g \<and>
    index_end_offset g \<le> length (g_mmap g) \<and>
    index_end_offset g \<le> unat (tensor_data_offset g) \<and>
    unat (tensor_data_offset g) < index_end_offset g + max 1 (unat (g_alignment g)) \<and>
    (unat (g_alignment g) dvd unat (tensor_data_offset g) \<or> g_alignment g = 0)"
proof -
  from assms(1) obtain buf where buf: "read_file fs path = Some buf" and p: "gguf_parse path buf = Inr g"
    by (auto simp: gguf_open_def rbind_eq_Inr ok_or_eq_Inr)
  have fits: "fits buf" by (rule assms(2) [OF buf])
  note h = gguf_parse_Inr [OF p fits] and o = gguf_parse_offsets [OF p fits]
  have al: "unat (g_alignment g) < 2 ^ 32"
    by (rule alignment_bound [OF fits h(1) _ h(10)]) (simp add: GGUF_DEFAULT_ALIGNMENT_def)
  have ie: "index_end_offset g < 2 ^ 63" using o fits by (simp add: fits_def)
  then have "unat (word_of_nat (index_end_offset g) :: u64) = index_end_offset g"
    by (intro unat_of_nat_u64) simp
  then show ?thesis
    using align_up_props [of "word_of_nat (index_end_offset g)" "g_alignment g"] al ie o h(4,12) buf
    by simp
qed

section \<open>The second passes succeed\<close>

lemma read_kv_entry_of_open_kv:
  assumes b: "fits buf" "pos \<le> length buf" and kv: "open_kv buf pos = Inr (v, q)"
  shows "\<exists>e. read_kv_entry buf pos = Inr (e, q) \<and> entry_range e = (pos, q) \<and>
    (\<exists>vs. value_range e = (vs, q) \<and> pos + 12 \<le> vs \<and> vs \<le> q \<and>
     v = (if kv_key e = ''general.alignment'' \<and> kv_ty e = KU32
          then Some (word_of_nat (le_nat (subslice buf vs q))) else None))"
proof -
  from kv obtain key p ty vs where
    key: "read_string buf pos = Inr (key, p)" and ty: "read_kv_type buf p = Inr (ty, vs)"
    by (auto simp: open_kv_def rbind_eq_Inr)
  have p: "p \<le> length buf" "pos + 8 \<le> p" using key b
    by (auto simp: read_string_Inr read_u64_def rbind_eq_Inr read_bytes_Inr)
  have vs: "vs \<le> length buf" "vs = p + 4" using ty b p
    by (auto simp: read_kv_type_def rbind_eq_Inr read_u32_Inr)
  have vw: "v = (if key = ''general.alignment'' \<and> ty = KU32
      then Some (word_of_nat (le_nat (subslice buf vs q))) else None) \<and>
      skip_kv_value ty buf vs = Inr ((), q)"
  proof (cases "key = ''general.alignment'' \<and> ty = KU32")
    case True
    then have q: "vs + 4 \<le> length buf" "q = vs + 4"
      and v: "v = Some (word_of_nat (unat (word_of_nat (le_nat (subslice buf vs (vs + 4))) :: u32)))"
      using kv key ty by (auto simp: open_kv_def rbind_eq_Inr read_u32_Inr [OF b(1) vs(1)])
    have "length (subslice buf vs (vs + 4)) = 4" using q by simp
    from word_of_u32_bytes [OF this] show ?thesis
      using True q v by (simp add: skip_u32_Inr [OF b(1) vs(1)])
  next
    case False
    then show ?thesis using kv key ty by (auto simp: open_kv_def rbind_eq_Inr)
  qed
  then have sk: "skip_kv_value ty buf vs = Inr ((), q)" by simp
  have q: "vs \<le> q" "q \<le> length buf"
    using local_rd_bounds [OF skip_kv_value_local b(1) vs(1) sk] by auto
  have "\<exists>t. (if ty = KArray
            then rbind (rbind (peek_u32 buf vs) kv_type_from_u32) (\<lambda>t. Inr (Some t))
            else Inr None) = (Inr t :: kv_type option gguf_res)"
  proof (cases "ty = KArray")
    case True
    with sk obtain w p' ety where "read_u32 buf vs = Inr (w, p')" "kv_type_from_u32 w = Inr ety"
      by (auto simp: skip_kv_value_def skip_array_def rbind_eq_Inr)
    then have "peek_u32 buf vs = Inr w" by (simp add: read_u32_Inr [OF b(1) vs(1)] peek_u32_def)
    then show ?thesis using True \<open>kv_type_from_u32 w = Inr ety\<close> by simp
  qed simp
  then obtain t where t: "(if ty = KArray
            then rbind (rbind (peek_u32 buf vs) kv_type_from_u32) (\<lambda>t. Inr (Some t))
            else Inr None) = (Inr t :: kv_type option gguf_res)" by blast
  have "read_kv_entry buf pos = Inr (\<lparr>kv_key = key, kv_ty = ty, array_element_ty = t,
      value_range = (vs, q), entry_range = (pos, q)\<rparr>, q)"
    using key ty t sk by (simp add: read_kv_entry_def read_str_borrowed_eq [OF b])
  then show ?thesis using vw p vs q by auto
qed

text \<open>Consecutive records: each starts where the previous one ends.\<close>

fun contiguous :: "nat \<Rightarrow> kv_entry list \<Rightarrow> nat \<Rightarrow> bool" where
  "contiguous p [] q \<longleftrightarrow> p = q"
| "contiguous p (e # es) q \<longleftrightarrow>
     fst (entry_range e) = p \<and> p + 12 \<le> fst (value_range e) \<and>
     fst (value_range e) \<le> snd (value_range e) \<and> snd (value_range e) = snd (entry_range e) \<and>
     contiguous (snd (entry_range e)) es q"

definition kv_alignment :: "bytes \<Rightarrow> u64 \<Rightarrow> kv_entry \<Rightarrow> u64" where
  "kv_alignment buf al e =
     (if kv_key e = ''general.alignment'' \<and> kv_ty e = KU32
      then word_of_nat (le_nat (subslice buf (fst (value_range e)) (snd (value_range e)))) else al)"

lemma kv_entries_of_open_kv:
  assumes "fits buf" "pos \<le> length buf" "read_many open_kv n buf pos = Inr (vs, q)"
  shows "\<exists>es. read_many read_kv_entry n buf pos = Inr (es, q) \<and> contiguous pos es q \<and>
    foldl (\<lambda>a v. case v of None \<Rightarrow> a | Some b \<Rightarrow> b) al vs = foldl (kv_alignment buf) al es"
  using assms
proof (induction n arbitrary: pos vs al)
  case 0
  then show ?case by simp
next
  case (Suc n)
  from Suc.prems obtain v p vs' where v: "open_kv buf pos = Inr (v, p)"
    and rest: "read_many open_kv n buf p = Inr (vs', q)" and vs: "vs = v # vs'"
    by (auto simp: rbind_eq_Inr)
  have p: "p \<le> length buf" using rd_kv.read_in_bounds [OF Suc.prems(1,2) v] by simp
  from read_kv_entry_of_open_kv [OF Suc.prems(1,2) v] obtain e w where
    e: "read_kv_entry buf pos = Inr (e, p)" "entry_range e = (pos, p)" "value_range e = (w, p)"
      "pos + 12 \<le> w" "w \<le> p"
    and ve: "v = (if kv_key e = ''general.alignment'' \<and> kv_ty e = KU32
          then Some (word_of_nat (le_nat (subslice buf w p))) else None)"
    by blast
  let ?al = "case v of None \<Rightarrow> al | Some b \<Rightarrow> b"
  from Suc.IH [OF Suc.prems(1) p rest, of ?al] obtain es where
    es: "read_many read_kv_entry n buf p = Inr (es, q)" "contiguous p es q"
    "foldl (\<lambda>a v. case v of None \<Rightarrow> a | Some b \<Rightarrow> b) ?al vs' = foldl (kv_alignment buf) ?al es"
    by blast
  have "?al = kv_alignment buf al e" using e by (simp add: kv_alignment_def ve)
  then show ?case using e es by (auto simp: vs)
qed

lemma contiguous_concat:
  "contiguous p es q \<Longrightarrow> p \<le> q \<and>
    concat (map (\<lambda>e. subslice buf (fst (entry_range e)) (snd (entry_range e))) es) = subslice buf p q"
proof (induction es arbitrary: p)
  case Nil
  then show ?case by (simp add: subslice_def)
next
  case (Cons e es)
  from Cons.prems have c: "fst (entry_range e) = p" "contiguous (snd (entry_range e)) es q"
    and le: "p \<le> snd (entry_range e)" by auto
  from Cons.IH [OF c(2)] have ih: "snd (entry_range e) \<le> q"
    "concat (map (\<lambda>e. subslice buf (fst (entry_range e)) (snd (entry_range e))) es)
      = subslice buf (snd (entry_range e)) q" by auto
  have "subslice buf p (snd (entry_range e)) @ subslice buf (snd (entry_range e)) q = subslice buf p q"
    using le ih(1) by (rule subslice_join)
  then show ?case using c ih le by simp
qed

text \<open>
  \<open>kv_entries\<close> never fails on a file that \<open>open\<close> accepted; its entries are as many as the
  header says, their records tile the KV block exactly (so the block can be re-emitted by
  concatenating them), and the alignment \<open>open\<close> used is the value of the last \<open>u32\<close> entry with
  the key \<open>general.alignment\<close>, 32 without one.
\<close>

theorem kv_entries_tile:
  assumes "gguf_parse path buf = Inr g" "fits buf"
  shows "\<exists>es. kv_entries g = Inr es \<and> length es = unat (g_n_kv g) \<and>
    contiguous 24 es (kv_end_offset g) \<and>
    concat (map (\<lambda>e. subslice buf (fst (entry_range e)) (snd (entry_range e))) es)
      = subslice buf 24 (kv_end_offset g) \<and>
    g_alignment g = foldl (kv_alignment buf) 32 es"
proof -
  note h = gguf_parse_Inr [OF assms]
  from h(10) open_kvs_read_many [OF assms(2) h(1)] obtain vs where
    vs: "read_many open_kv (unat (g_n_kv g)) buf 24 = Inr (vs, kv_end_offset g)"
    and al: "g_alignment g = foldl (\<lambda>a v. case v of None \<Rightarrow> a | Some b \<Rightarrow> b) GGUF_DEFAULT_ALIGNMENT vs"
    by auto
  from kv_entries_of_open_kv [OF assms(2) h(1) vs] al obtain es where
    es: "read_many read_kv_entry (unat (g_n_kv g)) buf 24 = Inr (es, kv_end_offset g)"
    "contiguous 24 es (kv_end_offset g)" "g_alignment g = foldl (kv_alignment buf) 32 es"
    unfolding GGUF_DEFAULT_ALIGNMENT_def by metis
  have "length es = unat (g_n_kv g)" using es(1) by (rule read_many_count)
  then show ?thesis using es contiguous_concat [OF es(2), of buf] h(4) by (simp add: kv_entries_def)
qed

section \<open>The tensor index\<close>

lemma read_tensor_entry_of_open:
  assumes b: "fits buf" "pos \<le> length buf" and t: "open_tensor buf pos = Inr (u, q)"
  shows "\<exists>e. read_tensor_entry buf pos = Inr (e, q) \<and> length (t_shape e) \<le> 8 \<and> n_bytes e = 0"
proof -
  from t obtain name p nd q' sh r dt s off where
    rd: "read_string buf pos = Inr (name, p)" "read_u32 buf p = Inr (nd, q')"
    "\<not> GGUF_MAX_DIMS < nd" "read_many read_u64 (unat nd) buf q' = Inr (sh, r)"
    "read_u32 buf r = Inr (dt, s)" "read_u64 buf s = Inr (off, q)"
    by (auto simp: open_tensor_def rbind_eq_Inr split: if_splits)
  have "length sh = unat nd" by (rule read_many_count [OF rd(4)])
  also have "\<dots> \<le> 8" using rd(3) by (simp add: GGUF_MAX_DIMS_def word_less_nat_alt)
  finally show ?thesis using rd b
    by (simp add: read_tensor_entry_def read_str_borrowed_eq)
qed

lemma tensor_entries_of_open:
  assumes "fits buf" "pos \<le> length buf" "read_many open_tensor n buf pos = Inr (us, q)"
  shows "\<exists>es. read_many read_tensor_entry n buf pos = Inr (es, q)"
  using assms
proof (induction n arbitrary: pos us)
  case 0
  then show ?case by simp
next
  case (Suc n)
  from Suc.prems obtain u p us' where u: "open_tensor buf pos = Inr (u, p)"
    and rest: "read_many open_tensor n buf p = Inr (us', q)"
    by (auto simp: rbind_eq_Inr)
  have p: "p \<le> length buf" using rd_tensor.read_in_bounds [OF Suc.prems(1,2) u] by simp
  from Suc.IH [OF Suc.prems(1) p rest] read_tensor_entry_of_open [OF Suc.prems(1,2) u]
  show ?case by auto
qed

text \<open>
  The size pass touches only \<open>n_bytes\<close>: the entry at the \<open>w\<close>-th sorted index gets the distance to
  the offset at the next one.
\<close>

definition same_but_size :: "tensor_entry \<Rightarrow> tensor_entry \<Rightarrow> bool" where
  "same_but_size t u \<longleftrightarrow> t_name t = t_name u \<and> t_shape t = t_shape u \<and> t_dtype t = t_dtype u \<and>
     data_offset_rel t = data_offset_rel u"

lemma fill_sizes_length [simp]: "length (fill_sizes fe is ts) = length ts"
  by (induction fe "is" ts rule: fill_sizes.induct) (auto simp: Let_def)

lemma fill_sizes_same:
  "i < length ts \<Longrightarrow> same_but_size (fill_sizes fe is ts ! i) (ts ! i)"
proof (induction fe "is" ts rule: fill_sizes.induct)
  case (1 fe ts)
  then show ?case by (simp add: same_but_size_def)
next
  case (2 fe j "is" ts)
  let ?n = "case is of k # _ \<Rightarrow> data_offset_rel (ts ! k) | [] \<Rightarrow> fe"
  let ?ts = "ts[j := (ts ! j)\<lparr>n_bytes := ?n - data_offset_rel (ts ! j)\<rparr>]"
  have "same_but_size (fill_sizes fe is ?ts ! i) (?ts ! i)" using 2 by simp
  moreover have "same_but_size (?ts ! i) (ts ! i)"
    using 2(2) by (cases "i = j") (auto simp: same_but_size_def)
  ultimately show ?case by (simp add: Let_def same_but_size_def)
qed

lemma fill_sizes_offset:
  "i < length ts \<Longrightarrow> data_offset_rel (fill_sizes fe is ts ! i) = data_offset_rel (ts ! i)"
  using fill_sizes_same by (simp add: same_but_size_def)

lemma fill_sizes_untouched:
  "i \<notin> set is \<Longrightarrow> fill_sizes fe is ts ! i = ts ! i"
  by (induction fe "is" ts rule: fill_sizes.induct) (auto simp: Let_def)

lemma fill_sizes_nth:
  assumes "distinct is" "\<forall>i \<in> set is. i < length ts" "w < length is"
  shows "n_bytes (fill_sizes fe is ts ! (is ! w)) =
    (if Suc w < length is then data_offset_rel (ts ! (is ! Suc w)) else fe)
      - data_offset_rel (ts ! (is ! w))"
  using assms
proof (induction fe "is" ts arbitrary: w rule: fill_sizes.induct)
  case (1 fe ts)
  then show ?case by simp
next
  case (2 fe j "is" ts)
  let ?n = "case is of k # _ \<Rightarrow> data_offset_rel (ts ! k) | [] \<Rightarrow> fe"
  let ?ts = "ts[j := (ts ! j)\<lparr>n_bytes := ?n - data_offset_rel (ts ! j)\<rparr>]"
  show ?case
  proof (cases w)
    case 0
    have "fill_sizes fe is ?ts ! j = ?ts ! j" using 2(2) by (intro fill_sizes_untouched) simp
    then show ?thesis using 0 2(3) by (cases "is") (simp_all add: Let_def)
  next
    case (Suc v)
    have off: "data_offset_rel (?ts ! i) = data_offset_rel (ts ! i)" if "i < length ts" for i
      using that by (cases "i = j") auto
    have "n_bytes (fill_sizes fe is ?ts ! (is ! v)) =
      (if Suc v < length is then data_offset_rel (?ts ! (is ! Suc v)) else fe)
        - data_offset_rel (?ts ! (is ! v))"
      using 2(2-4) Suc by (intro 2(1)) auto
    moreover have "is ! v < length ts" "Suc v < length is \<Longrightarrow> is ! Suc v < length ts"
      using 2(3,4) Suc by auto
    ultimately show ?thesis using Suc off by (simp add: Let_def)
  qed
qed

lemma sorted_idxs_props:
  "distinct (sorted_idxs ts)" "set (sorted_idxs ts) = {..<length ts}"
  "length (sorted_idxs ts) = length ts"
  "sorted (map (\<lambda>i. data_offset_rel (ts ! i)) (sorted_idxs ts))"
  by (auto simp: sorted_idxs_def)

lemma map_insort_key_comp: "map g (insort_key (\<lambda>x. f (g x)) x xs) = insort_key f (g x) (map g xs)"
  by (induction xs) auto

lemma map_sort_key_comp: "map g (sort_key (\<lambda>x. f (g x)) xs) = sort_key f (map g xs)"
  by (induction xs) (simp_all add: map_insort_key_comp)

lemma insort_key_agree:
  "f x = g x \<Longrightarrow> (\<And>y. y \<in> set ys \<Longrightarrow> f y = g y) \<Longrightarrow> insort_key f x ys = insort_key g x ys"
  by (induction ys) auto

lemma sort_key_agree: "(\<And>x. x \<in> set xs \<Longrightarrow> f x = g x) \<Longrightarrow> sort_key f xs = sort_key g xs"
  by (induction xs) (auto intro: insort_key_agree)

definition sized :: "u64 \<Rightarrow> tensor_entry list \<Rightarrow> bool" where
  "sized fe us \<longleftrightarrow> (\<forall>w < length us. n_bytes (us ! w) =
     (if Suc w < length us then data_offset_rel (us ! Suc w) else fe) - data_offset_rel (us ! w))"

lemma sized_Cons:
  "sized fe (t # us) \<longleftrightarrow>
     n_bytes t = (case us of u # _ \<Rightarrow> data_offset_rel u | [] \<Rightarrow> fe) - data_offset_rel t \<and> sized fe us"
  by (cases us) (simp_all add: sized_def All_less_Suc2 del: All_less_Suc)

lemma fill_sizes_sorted:
  fixes ts :: "tensor_entry list" and fe :: u64
  defines "us \<equiv> sort_key data_offset_rel (fill_sizes fe (sorted_idxs ts) ts)"
  shows "us = map ((!) (fill_sizes fe (sorted_idxs ts) ts)) (sorted_idxs ts)" "sized fe us"
proof -
  let ?ts = "fill_sizes fe (sorted_idxs ts) ts"
  have "map ((!) ?ts) (sort_key (\<lambda>i. data_offset_rel (?ts ! i)) [0..<length ?ts])
      = sort_key data_offset_rel (map ((!) ?ts) [0..<length ?ts])"
    by (rule map_sort_key_comp)
  also have "map ((!) ?ts) [0..<length ?ts] = ?ts" by (rule map_nth)
  also have "sort_key (\<lambda>i. data_offset_rel (?ts ! i)) [0..<length ?ts] = sorted_idxs ts"
    unfolding sorted_idxs_def fill_sizes_length
    by (rule sort_key_agree) (auto simp: fill_sizes_offset)
  finally show us: "us = map ((!) ?ts) (sorted_idxs ts)" by (simp add: us_def)
  show "sized fe us"
  proof (unfold sized_def, intro allI impI)
    fix w assume "w < length us"
    then have w: "w < length (sorted_idxs ts)" by (simp add: us)
    have lt: "i \<in> set (sorted_idxs ts) \<Longrightarrow> i < length ts" for i
      using sorted_idxs_props(2) by auto
    have "n_bytes (?ts ! (sorted_idxs ts ! w)) =
      (if Suc w < length (sorted_idxs ts) then data_offset_rel (ts ! (sorted_idxs ts ! Suc w)) else fe)
        - data_offset_rel (ts ! (sorted_idxs ts ! w))"
      by (rule fill_sizes_nth) (use w lt sorted_idxs_props(1) in auto)
    then show "n_bytes (us ! w) =
      (if Suc w < length us then data_offset_rel (us ! Suc w) else fe) - data_offset_rel (us ! w)"
      using w lt by (simp add: us fill_sizes_offset)
  qed
qed

lemma sized_tile:
  assumes "fits buf" "g_mmap g = buf" "unat (tensor_data_offset g) + unat fe = length buf"
    and "sized fe us" "sorted (map data_offset_rel us)" "\<forall>t \<in> set us. data_offset_rel t \<le> fe" "us \<noteq> []"
  shows "\<exists>bss. mapM (tensor_bytes g) us = Inr bss \<and> map length bss = map (unat \<circ> n_bytes) us \<and>
    concat bss = drop (unat (tensor_data_offset g) + unat (data_offset_rel (hd us))) buf"
  using assms(4-)
proof (induction us)
  case Nil
  then show ?case by simp
next
  case (Cons t us)
  let ?tdo = "tensor_data_offset g"
  define nx where "nx = (case us of u # _ \<Rightarrow> data_offset_rel u | [] \<Rightarrow> fe)"
  have nb: "n_bytes t = nx - data_offset_rel t" using Cons.prems(1) by (simp add: sized_Cons nx_def)
  have le: "data_offset_rel t \<le> nx" "nx \<le> fe"
    using Cons.prems by (auto simp: nx_def split: list.splits)
  have len: "unat ?tdo + unat fe < 2 ^ 64" using assms(1,3) by (simp add: fits_def)
  have nle: "unat (data_offset_rel t) \<le> unat nx" "unat nx \<le> unat fe"
    using le by (simp_all add: word_le_nat_alt)
  have st: "unat (?tdo + data_offset_rel t) = unat ?tdo + unat (data_offset_rel t)"
    using len nle by (simp add: unat_word_ariths)
  have en: "unat (?tdo + data_offset_rel t + n_bytes t) = unat ?tdo + unat nx"
    using len nle by (simp add: nb unat_word_ariths)
  have nbu: "unat (n_bytes t) = unat nx - unat (data_offset_rel t)"
    using le by (simp add: nb unat_sub)
  let ?bs = "subslice buf (unat ?tdo + unat (data_offset_rel t)) (unat ?tdo + unat nx)"
  have tb: "tensor_bytes g t = Inr ?bs"
    using st en nle assms(2,3) by (simp add: tensor_bytes_def Let_def word_le_nat_alt)
  have bl: "length ?bs = unat (n_bytes t)" using nle nbu assms(3) by simp
  show ?case
  proof (cases us)
    case Nil
    then have "?bs = drop (unat ?tdo + unat (data_offset_rel t)) buf"
      using assms(3) nle by (simp add: nx_def subslice_def)
    then show ?thesis using tb bl Nil by simp
  next
    case (Cons u vs)
    then have hd: "nx = data_offset_rel (hd us)" by (simp add: nx_def)
    from Cons.IH Cons.prems Cons obtain bss where bss: "mapM (tensor_bytes g) us = Inr bss"
      "map length bss = map (unat \<circ> n_bytes) us"
      "concat bss = drop (unat ?tdo + unat nx) buf"
      by (auto simp: sized_Cons hd)
    have "?bs @ drop (unat ?tdo + unat nx) buf = drop (unat ?tdo + unat (data_offset_rel t)) buf"
      by (rule subslice_drop) (use nle in simp)
    then show ?thesis using tb bl bss by simp
  qed
qed

text \<open>Whenever every slice is in range, the slices are a suffix of the file.\<close>

lemma sized_success:
  assumes "fits (g_mmap g)" "tensor_data_offset g + fe = word_of_nat (length (g_mmap g))"
    and "sized fe us" "us \<noteq> []" "mapM (tensor_bytes g) us = Inr bss"
  shows "concat bss = drop (unat (tensor_data_offset g + data_offset_rel (hd us))) (g_mmap g)"
  using assms(3-)
proof (induction us arbitrary: bss)
  case Nil
  then show ?case by simp
next
  case (Cons t us)
  let ?tdo = "tensor_data_offset g" and ?buf = "g_mmap g"
  define nx where "nx = (case us of u # _ \<Rightarrow> data_offset_rel u | [] \<Rightarrow> fe)"
  have nb: "n_bytes t = nx - data_offset_rel t" using Cons.prems(1) by (simp add: sized_Cons nx_def)
  from Cons.prems(3) obtain bs bss' where bs: "tensor_bytes g t = Inr bs"
    "mapM (tensor_bytes g) us = Inr bss'" "bss = bs # bss'" by (auto simp: rbind_eq_Inr)
  from bs(1) have r: "?tdo + data_offset_rel t \<le> ?tdo + nx" "unat (?tdo + nx) \<le> length ?buf"
    "bs = subslice ?buf (unat (?tdo + data_offset_rel t)) (unat (?tdo + nx))"
    by (auto simp: tensor_bytes_def Let_def nb split: if_splits)
  have le: "unat (?tdo + data_offset_rel t) \<le> unat (?tdo + nx)" using r(1) by (simp add: word_le_nat_alt)
  have "concat bss' = drop (unat (?tdo + nx)) ?buf"
  proof (cases us)
    case Nil
    have "unat (word_of_nat (length ?buf) :: u64) = length ?buf"
      using assms(1) by (intro unat_of_nat_u64) (simp add: fits_def)
    then show ?thesis using Nil bs(2) assms(2) by (simp add: nx_def)
  next
    case (Cons u vs)
    then show ?thesis using Cons.IH [OF _ _ bs(2)] Cons.prems(1) by (simp add: sized_Cons nx_def)
  qed
  then show ?case using bs(3) r(3) subslice_drop [OF le] by simp
qed

lemma sum_insort: "sum_list (map f (insort_key k x xs)) = f x + sum_list (map f xs :: nat list)"
  by (induction xs) auto

lemma sum_sort: "sum_list (map f (sort_key k xs)) = sum_list (map f xs :: nat list)"
  by (induction xs) (auto simp: sum_insort)

text \<open>The bytes of all tensors together are no more than the file holds.\<close>

lemma tensors_total_bound:
  assumes "fits (g_mmap g)" "tensors g = Inr ts" "\<And>t. t \<in> set ts \<Longrightarrow> tensor_bytes g t = Inr (td t)"
  shows "sum_list (map (\<lambda>t. length (td t)) ts) \<le> length (g_mmap g)"
proof (cases "ts = []")
  case False
  define fe where "fe = word_of_nat (length (g_mmap g)) - tensor_data_offset g"
  from assms(2) obtain rs where ts: "ts = fill_sizes fe (sorted_idxs rs) rs"
    by (auto simp: tensors_def rbind_eq_Inr Let_def fe_def)
  let ?us = "sort_key data_offset_rel ts"
  have ne: "?us \<noteq> []" using False by (metis length_0_conv length_sort)
  have "mapM (tensor_bytes g) ?us = Inr (map td ?us)" using assms(3) by (intro mapM_map) simp
  then have "concat (map td ?us) = drop (unat (tensor_data_offset g + data_offset_rel (hd ?us))) (g_mmap g)"
    using fill_sizes_sorted(2) [of fe rs] ne
    by (intro sized_success [OF assms(1), where fe = fe]) (simp_all add: fe_def ts)
  then have "length (concat (map td ?us)) \<le> length (g_mmap g)" by simp
  then show ?thesis using sum_sort [of "\<lambda>t. length (td t)" data_offset_rel ts]
    by (simp add: length_concat comp_def)
qed simp

text \<open>
  C12. The tensor index of an accepted file is read back without an error, with at most eight
  dimensions per tensor. When every tensor starts inside the file, the tensors in offset order
  cover the data region from the first offset to the end of the file without gap or overlap, and
  each \<open>tensor_bytes\<close> slice is in range and as long as its \<open>n_bytes\<close>.
\<close>

theorem tensors_tile_data:
  assumes "gguf_parse path buf = Inr g" "fits buf"
  shows "\<exists>ts. tensors g = Inr ts \<and> length ts = unat (g_n_tensors g) \<and>
    (ts \<noteq> [] \<and> (\<forall>t \<in> set ts. unat (tensor_data_offset g) + unat (data_offset_rel t) \<le> length buf) \<longrightarrow>
      (\<exists>bss. mapM (tensor_bytes g) (sort_key data_offset_rel ts) = Inr bss \<and>
         map length bss = map (unat \<circ> n_bytes) (sort_key data_offset_rel ts) \<and>
         concat bss = drop (unat (tensor_data_offset g)
           + unat (data_offset_rel (hd (sort_key data_offset_rel ts)))) buf))"
proof -
  note h = gguf_parse_Inr [OF assms] and o = gguf_parse_offsets [OF assms]
  from h(11) obtain us where us: "read_many open_tensor (unat (g_n_tensors g)) buf (kv_end_offset g)
      = Inr (us, index_end_offset g)" by blast
  have ke: "kv_end_offset g \<le> length buf" using o by simp
  from tensor_entries_of_open [OF assms(2) ke us] obtain ts where
    ts: "read_many read_tensor_entry (unat (g_n_tensors g)) buf (kv_end_offset g)
      = Inr (ts, index_end_offset g)" by blast
  define fe where "fe = word_of_nat (length buf) - tensor_data_offset g"
  define rs where "rs = fill_sizes fe (sorted_idxs ts) ts"
  have t: "tensors g = Inr rs" using ts h(4) by (simp add: tensors_def rs_def fe_def)
  have n: "length rs = unat (g_n_tensors g)" using read_many_count [OF ts] by (simp add: rs_def)
  have "\<exists>bss. mapM (tensor_bytes g) (sort_key data_offset_rel rs) = Inr bss \<and>
         map length bss = map (unat \<circ> n_bytes) (sort_key data_offset_rel rs) \<and>
         concat bss = drop (unat (tensor_data_offset g)
           + unat (data_offset_rel (hd (sort_key data_offset_rel rs)))) buf"
    if ne: "rs \<noteq> []" and in_file: "\<forall>t \<in> set rs. unat (tensor_data_offset g) + unat (data_offset_rel t) \<le> length buf"
  proof (rule sized_tile [OF assms(2) h(4)])
    from ne in_file have "unat (tensor_data_offset g) \<le> length buf" by (cases rs) auto
    moreover have lb: "unat (word_of_nat (length buf) :: u64) = length buf"
      using assms(2) by (intro unat_of_nat_u64) (simp add: fits_def)
    ultimately show fe: "unat (tensor_data_offset g) + unat fe = length buf"
      by (simp add: fe_def unat_sub word_le_nat_alt)
    show "sized fe (sort_key data_offset_rel rs)" unfolding rs_def by (rule fill_sizes_sorted(2))
    show "sorted (map data_offset_rel (sort_key data_offset_rel rs))" by simp
    show "\<forall>t \<in> set (sort_key data_offset_rel rs). data_offset_rel t \<le> fe"
      using in_file fe by (auto simp: word_le_nat_alt)
    show "sort_key data_offset_rel rs \<noteq> []" using ne by (metis length_0_conv length_sort)
  qed
  then show ?thesis using t n by blast
qed

section \<open>Malformed files\<close>

text \<open>
  The outcome of a string read whose length field is in the file, on every branch. A length
  that passes the end of the file is a short-read error only while \<open>pos + len\<close> fits \<open>usize\<close>: a
  length close to \<open>2^64\<close> wraps the end position around, the bound check passes and the slice
  panics.
\<close>

theorem read_string_outcomes:
  fixes L :: nat
  assumes fits: "fits buf" and in_file: "pos + 8 \<le> length buf"
    and len: "L = le_nat (subslice buf pos (pos + 8))"
  shows "read_string buf pos =
    (let p = pos + 8; e = p + L
     in if e \<le> length buf
        then if utf8_valid (subslice buf p e) then Inr (bytes_str (subslice buf p e), e)
             else Inl (Fail (Malformed p NotUtf8))
        else if 2 ^ 64 \<le> e \<and> e - 2 ^ 64 \<le> length buf then Inl Panic
        else Inl (Fail (Malformed p (ShortRead L (length buf - p)))))"
proof -
  have lb: "length buf < 2 ^ 63" using fits by (simp add: fits_def)
  have L: "L < 2 ^ 64"
    using le_nat_bound [of "subslice buf pos (pos + 8)"] in_file by (simp add: len)
  have rd: "read_u64 buf pos = Inr (word_of_nat L, pos + 8)"
    using in_file fits by (simp add: read_u64_def read_bytes_Inr rbind_eq_Inr len)
  have uL: "unat (word_of_nat L :: u64) = L" using L by (rule unat_of_nat_u64)
  consider (ok) "pos + 8 + L \<le> length buf" | (short) "length buf < pos + 8 + L" "pos + 8 + L < 2 ^ 64"
    | (wrap) "2 ^ 64 \<le> pos + 8 + L" by linarith
  then show ?thesis
  proof cases
    case ok
    then have "read_bytes L buf (pos + 8) = Inr (subslice buf (pos + 8) (pos + 8 + L), pos + 8 + L)"
      using L fits in_file by (simp add: read_bytes_Inr)
    then show ?thesis using rd uL ok by (simp add: read_string_def Let_def)
  next
    case short
    then have "(pos + 8 + L) mod 2 ^ 64 = pos + 8 + L" by simp
    then have "read_bytes L buf (pos + 8) = Inl (Fail (Malformed (pos + 8) (ShortRead L (length buf - (pos + 8)))))"
      using short by (simp add: read_bytes_def Let_def)
    then show ?thesis using rd uL short by (simp add: read_string_def Let_def)
  next
    case wrap
    have e: "(pos + 8 + L) mod 2 ^ 64 = pos + 8 + L - 2 ^ 64"
      using wrap L in_file lb mod_if [of "pos + 8 + L" "2 ^ 64"] by simp
    have lt: "pos + 8 + L - 2 ^ 64 < pos + 8" using wrap L by linarith
    have "read_bytes L buf (pos + 8) =
      (if length buf < pos + 8 + L - 2 ^ 64
       then Inl (Fail (Malformed (pos + 8) (ShortRead L (length buf - (pos + 8))))) else Inl Panic)"
      unfolding read_bytes_def Let_def e using lt by simp
    moreover have "\<not> pos + 8 + L \<le> length buf" using wrap lb by simp
    ultimately show ?thesis using rd uL wrap by (simp add: read_string_def Let_def not_less)
  qed
qed

lemma sized_last: "sized fe us \<Longrightarrow> us \<noteq> [] \<Longrightarrow> n_bytes (last us) = fe - data_offset_rel (last us)"
  by (simp add: sized_def last_conv_nth)

text \<open>
  A file truncated inside its data region still opens and lists its tensors, but reading the
  bytes of the tensor with the highest offset panics: its size is computed with a wrapped
  subtraction.
\<close>

theorem tensor_bytes_truncated:
  assumes "gguf_parse path buf = Inr g" "fits buf" "tensors g = Inr ts" "ts \<noteq> []"
    and "t = last (sort_key data_offset_rel ts)"
    and "length buf < unat (tensor_data_offset g) + unat (data_offset_rel t)"
    and "unat (tensor_data_offset g) + unat (data_offset_rel t) < 2 ^ 64"
  shows "tensor_bytes g t = Inl Panic"
proof -
  note h = gguf_parse_Inr [OF assms(1,2)]
  define fe where "fe = word_of_nat (length buf) - tensor_data_offset g"
  from assms(3) h(4) obtain rs where ts: "ts = fill_sizes fe (sorted_idxs rs) rs"
    by (auto simp: tensors_def rbind_eq_Inr Let_def fe_def)
  have "sort_key data_offset_rel ts \<noteq> []" using assms(4) by (metis length_0_conv length_sort)
  then have nb: "n_bytes t = fe - data_offset_rel t"
    using sized_last [OF fill_sizes_sorted(2)] unfolding assms(5) ts by blast
  have "tensor_data_offset g + data_offset_rel t + n_bytes t = word_of_nat (length buf)"
    by (simp add: nb fe_def)
  moreover have "unat (word_of_nat (length buf) :: u64) = length buf"
    using assms(2) by (intro unat_of_nat_u64) (simp add: fits_def)
  moreover have "unat (tensor_data_offset g + data_offset_rel t)
      = unat (tensor_data_offset g) + unat (data_offset_rel t)"
    using assms(7) by (simp add: unat_word_ariths)
  ultimately show ?thesis using assms(6) by (simp add: tensor_bytes_def Let_def word_le_nat_alt)
qed

section \<open>A small file\<close>

text \<open>
  One \<open>u32\<close> entry (the alignment, 8) and one \<open>F32\<close> tensor \<open>t\<close> of shape \<open>[2]\<close>, followed by
  whatever bytes the file holds after the index.
\<close>

definition sample_head :: bytes where
  "sample_head =
    [0x47, 0x47, 0x55, 0x46, 3,0,0,0, 1,0,0,0,0,0,0,0, 1,0,0,0,0,0,0,0,
     17,0,0,0,0,0,0,0, 103, 101, 110, 101, 114, 97, 108, 46, 97, 108, 105, 103, 110, 109, 101, 110,
     116, 4,0,0,0, 8,0,0,0,
     1,0,0,0,0,0,0,0, 116, 1,0,0,0, 2,0,0,0,0,0,0,0, 0,0,0,0, 0,0,0,0,0,0,0,0]"

definition sample_gguf :: bytes where
  "sample_gguf = sample_head @ [0,0,0,0,0,0, 1,2,3,4,5,6,7,8]"

definition sample_parsed :: "bytes \<Rightarrow> gguf" where
  "sample_parsed buf = \<lparr>g_path = [''m.gguf''], g_mmap = buf, g_version = 3, g_alignment = 8,
     tensor_data_offset = 96, g_n_kv = 1, g_n_tensors = 1, kv_end_offset = 57,
     index_end_offset = 90\<rparr>"

definition sample_entry :: "u64 \<Rightarrow> tensor_entry" where
  "sample_entry n = \<lparr>t_name = ''t'', t_shape = [2], t_dtype = 0, data_offset_rel = 0, n_bytes = n\<rparr>"

lemmas sample_eval = sample_head_def read_bytes_def subslice_def read_u32_def read_u64_def

lemma sample_header:
  "read_bytes 4 (sample_head @ d) 0 = Inr (GGUF_MAGIC, 4)" "read_u32 (sample_head @ d) 4 = Inr (3, 8)"
  "read_u64 (sample_head @ d) 8 = Inr (1, 16)" "read_u64 (sample_head @ d) 16 = Inr (1, 24)"
  by (simp_all add: sample_eval GGUF_MAGIC_def)

lemma sample_kv:
  "read_string (sample_head @ d) 24 = Inr (''general.alignment'', 49)"
  "read_kv_type (sample_head @ d) 49 = Inr (KU32, 53)"
  "skip_kv_value KU32 (sample_head @ d) 53 = Inr ((), 57)"
  "word_of_nat (le_nat (subslice (sample_head @ d) 53 57)) = (8 :: u64)"
  by (simp_all add: sample_eval read_string_def bytes_str_def char_of_def bit_0 read_kv_type_def
      kv_type_from_u32_def skip_kv_value_def)

lemma sample_tensor:
  "read_string (sample_head @ d) 57 = Inr (''t'', 66)" "read_u32 (sample_head @ d) 66 = Inr (1, 70)"
  "read_u64 (sample_head @ d) 70 = Inr (2, 78)" "read_u32 (sample_head @ d) 78 = Inr (0, 82)"
  "read_u64 (sample_head @ d) 82 = Inr (0, 90)"
  by (simp_all add: sample_eval read_string_def bytes_str_def char_of_def bit_0)

lemma sample_parse: "gguf_parse [''m.gguf''] (sample_head @ d) = Inr (sample_parsed (sample_head @ d))"
  by (simp add: gguf_parse_def sample_header sample_kv sample_tensor open_tensor_def align_up_def
      GGUF_VERSION_SUPPORTED_def GGUF_MAX_TENSORS_def GGUF_MAX_KV_def GGUF_MAX_DIMS_def
      sample_parsed_def)

lemma sample_length: "length (sample_head @ d) = 90 + length d"
  by (simp add: sample_head_def)

lemma sample_fits: "length d < 100 \<Longrightarrow> fits (sample_head @ d)"
  unfolding fits_def sample_length by simp

lemma sample_tensors:
  assumes "length d < 100"
  shows "tensors (sample_parsed (sample_head @ d)) = Inr [sample_entry (word_of_nat (90 + length d) - 96)]"
proof -
  have "read_str_borrowed (sample_head @ d) 57 = Inr (''t'', 66)"
    using read_str_borrowed_eq [OF sample_fits [OF assms], of 57] sample_length [of d]
    by (simp add: sample_tensor)
  then show ?thesis
    unfolding sample_length [symmetric]
    by (simp add: tensors_def read_tensor_entry_def sample_tensor sample_parsed_def
      GGUF_MAX_DIMS_def sorted_idxs_def sample_entry_def del: length_append)
qed

definition sample_kv_entry :: kv_entry where
  "sample_kv_entry = \<lparr>kv_key = ''general.alignment'', kv_ty = KU32, array_element_ty = None,
     value_range = (53, 57), entry_range = (24, 57)\<rparr>"

lemma sample_kv_entries:
  assumes "length d < 100"
  shows "kv_entries (sample_parsed (sample_head @ d)) = Inr [sample_kv_entry]"
proof -
  have "read_str_borrowed (sample_head @ d) 24 = Inr (''general.alignment'', 49)"
    using read_str_borrowed_eq [OF sample_fits [OF assms], of 24] sample_length [of d]
    by (simp add: sample_kv)
  then show ?thesis
    by (simp add: kv_entries_def sample_parsed_def read_kv_entry_def sample_kv sample_kv_entry_def)
qed

text \<open>The whole sample, with its eight data bytes.\<close>

lemma sample_gguf_props:
  "fits sample_gguf" "length sample_gguf = 104" "drop 96 sample_gguf = [1,2,3,4,5,6,7,8]"
  "gguf_parse [''m.gguf''] sample_gguf = Inr (sample_parsed sample_gguf)"
  "tensors (sample_parsed sample_gguf) = Inr [sample_entry 8]"
  unfolding sample_gguf_def
  by (simp_all add: sample_fits sample_parse sample_tensors) (simp_all add: sample_head_def)

lemma gguf_open_layout_witness:
  "24 \<le> kv_end_offset (sample_parsed sample_gguf) \<and>
   unat (g_alignment (sample_parsed sample_gguf)) dvd unat (tensor_data_offset (sample_parsed sample_gguf))"
proof -
  have "gguf_open [([''m.gguf''], sample_gguf)] [''m.gguf''] = Inr (sample_parsed sample_gguf)"
    by (simp add: gguf_open_def read_file_def sample_gguf_props)
  from gguf_open_layout [OF this] sample_gguf_props show ?thesis
    by (auto simp: sample_parsed_def read_file_def)
qed

lemma kv_entries_tile_witness: "\<exists>es. kv_entries (sample_parsed sample_gguf) = Inr es \<and> length es = 1"
  using kv_entries_tile [OF sample_gguf_props(4,1)] by (auto simp: sample_parsed_def)

lemma tensors_tile_data_witness:
  "\<exists>bss. mapM (tensor_bytes (sample_parsed sample_gguf)) [sample_entry 8] = Inr bss \<and>
     concat bss = [1,2,3,4,5,6,7,8]"
proof -
  have "unat (tensor_data_offset (sample_parsed sample_gguf)) = 96" "data_offset_rel (sample_entry 8) = 0"
    by (simp_all add: sample_parsed_def sample_entry_def)
  then have "\<exists>bss. mapM (tensor_bytes (sample_parsed sample_gguf)) [sample_entry 8] = Inr bss \<and>
     concat bss = drop 96 sample_gguf"
    using tensors_tile_data [OF sample_gguf_props(4,1)] sample_gguf_props(2,5) by auto
  then show ?thesis by (simp only: sample_gguf_props)
qed

lemma tensor_bytes_truncated_witness:
  "tensor_bytes (sample_parsed (sample_head @ [0, 0])) (sample_entry (- 4)) = Inl Panic"
proof (rule tensor_bytes_truncated [OF sample_parse sample_fits])
  show "tensors (sample_parsed (sample_head @ [0, 0])) = Inr [sample_entry (- 4)]"
    by (simp add: sample_tensors)
qed (simp_all add: sample_parsed_def sample_entry_def sample_head_def)

lemma read_string_outcomes_witness:
  "read_string [0xFF, 0xFF, 0xFF, 0xFF, 0xFF, 0xFF, 0xFF, 0xFF] 0 = Inl Panic"
proof -
  let ?b = "[0xFF, 0xFF, 0xFF, 0xFF, 0xFF, 0xFF, 0xFF, 0xFF] :: bytes"
  have "fits ?b" "0 + 8 \<le> length ?b" "18446744073709551615 = le_nat (subslice ?b 0 (0 + 8))"
    by (simp_all add: fits_def subslice_def)
  from read_string_outcomes [OF this] show ?thesis by simp
qed

end
