(* ===== verification/Bundle.thy ===== *)
theory Bundle
  imports Files
begin

text \<open>
  The bundle layer and the manifest it goes into: \<open>crates/model-store/src/bundle.rs\<close>,
  \<open>manifest.rs\<close>, \<open>cid.rs\<close> and the \<open>BundleKey\<close> order of \<open>chunker.rs\<close>. SHA-256, the \<open>cid\<close> crate's
  string form of a digest and \<open>serde_json\<close> are parameters: \<open>sha\<close> maps bytes to their digest,
  \<open>cs\<close> a digest to the CIDv1 string, \<open>to_json\<close> and \<open>from_json\<close> are the (de)serialisers.
\<close>

section \<open>Bundles\<close>

datatype bundle_kind = Embed | Block u32 | Head

fun bundle_name :: "bundle_kind \<Rightarrow> string" where
  "bundle_name Embed = ''embed''"
| "bundle_name (Block n) = ''blk.'' @ dec_digits (unat n)"
| "bundle_name Head = ''head''"

fun kind_layer_range :: "bundle_kind \<Rightarrow> (u32 \<times> u32) option" where
  "kind_layer_range (Block n) = Some (n, n + 1)"
| "kind_layer_range _ = None"

definition classify_tensor :: "string \<Rightarrow> bundle_kind" where
  "classify_tensor name =
     (if starts_with name ''token_embd'' then Embed
      else case strip_prefix name ''blk.'' of
             Some rest \<Rightarrow>
               (case parse_uint (2 ^ 32) (split_first CHR ''.'' rest) of
                  Some n \<Rightarrow> Block (word_of_nat n)
                | None \<Rightarrow> Head)
           | None \<Rightarrow> Head)"

record bundle_member =
  bm_name :: string
  bm_shape :: "u64 list"
  bm_dtype :: string
  bm_dtype_code :: u32
  bm_data_offset_rel :: u64
  bm_cid :: string
  bm_size :: u64
  offset_in_bundle :: u64

record bundle_entry =
  be_name :: string
  be_layer_range :: "(u32 \<times> u32) option"
  be_cid :: string
  be_size :: u64
  be_members :: "bundle_member list"

section \<open>The bundle order\<close>

text \<open>
  \<open>BundleKey(u8, u32)\<close> with its derived \<open>Ord\<close>: \<open>Embed < Block 0 < Block 1 < ... < Head\<close>.
\<close>

datatype bundle_key = BundleKey u8 u32

instantiation bundle_key :: linorder
begin

fun less_eq_bundle_key :: "bundle_key \<Rightarrow> bundle_key \<Rightarrow> bool" where
  "less_eq_bundle_key (BundleKey a b) (BundleKey c d) \<longleftrightarrow> a < c \<or> a = c \<and> b \<le> d"

fun less_bundle_key :: "bundle_key \<Rightarrow> bundle_key \<Rightarrow> bool" where
  "less_bundle_key (BundleKey a b) (BundleKey c d) \<longleftrightarrow> a < c \<or> a = c \<and> b < d"

instance
proof
  fix x y z :: bundle_key
  show "x < y \<longleftrightarrow> x \<le> y \<and> \<not> y \<le> x" by (cases x; cases y) auto
  show "x \<le> x" by (cases x) auto
  show "x \<le> y \<Longrightarrow> y \<le> z \<Longrightarrow> x \<le> z" by (cases x; cases y; cases z) auto
  show "x \<le> y \<Longrightarrow> y \<le> x \<Longrightarrow> x = y" by (cases x; cases y) auto
  show "x \<le> y \<or> y \<le> x" by (cases x; cases y) auto
qed

end

fun key_of_kind :: "bundle_kind \<Rightarrow> bundle_key" where
  "key_of_kind Embed = BundleKey 0 0"
| "key_of_kind (Block n) = BundleKey 1 n"
| "key_of_kind Head = BundleKey 2 0"

fun to_kind :: "bundle_key \<Rightarrow> bundle_kind" where
  "to_kind (BundleKey t n) = (if t = 0 then Embed else if t = 1 then Block n else Head)"

lemma to_kind_of_key [simp]: "to_kind (key_of_kind k) = k"
  by (cases k) auto

lemma key_of_kind_inject [simp]: "key_of_kind k = key_of_kind k' \<longleftrightarrow> k = k'"
  by (metis to_kind_of_key)

lemma bundle_name_inj: "bundle_name k = bundle_name k' \<Longrightarrow> k = k'"
proof (cases k; cases k')
  fix n m assume k: "k = Block n" "k' = Block m" and "bundle_name k = bundle_name k'"
  then have "dec_digits (unat n) = dec_digits (unat m)" by simp
  then have "unat n = unat m" by (rule dec_digits_inj)
  then have "n = m" by (rule unsigned_word_eqI)
  then show "k = k'" using k by simp
qed auto

section \<open>Content identifiers\<close>

definition RAW_CODEC :: u64 where "RAW_CODEC = 0x55"
definition SHA2_256_CODE :: u64 where "SHA2_256_CODE = 0x12"
definition SHA2_256_LEN :: nat where "SHA2_256_LEN = 32"

type_synonym sha = "bytes \<Rightarrow> bytes"
type_synonym cid_str = "u64 \<Rightarrow> u64 \<Rightarrow> bytes \<Rightarrow> string" \<comment> \<open>codec, hash code, digest\<close>

text \<open>A SHA-256 digest has 32 bytes.\<close>

definition sha_sized :: "sha \<Rightarrow> bool" where
  "sha_sized sha \<longleftrightarrow> (\<forall>bs. length (sha bs) = 32)"

definition cid_string_for :: "sha \<Rightarrow> cid_str \<Rightarrow> bytes \<Rightarrow> string" where
  "cid_string_for sha cs bs = cs RAW_CODEC SHA2_256_CODE (sha bs)"

definition cid_string_from_sha256 :: "cid_str \<Rightarrow> bytes \<Rightarrow> 'e fault + string" where
  "cid_string_from_sha256 cs digest =
     (if length digest = SHA2_256_LEN then Inr (cs RAW_CODEC SHA2_256_CODE digest) else Inl Panic)"

lemma cid_string_from_sha256_eq [simp]:
  "sha_sized sha \<Longrightarrow> cid_string_from_sha256 cs (sha bs) = Inr (cid_string_for sha cs bs)"
  by (simp add: cid_string_from_sha256_def cid_string_for_def sha_sized_def SHA2_256_LEN_def)

text \<open>Concrete parameters for the examples: the digest is the length.\<close>

definition sample_sha :: sha where
  "sample_sha bs = word_of_nat (length bs) # replicate 31 0"

definition sample_cs :: cid_str where
  "sample_cs cd hc d = bytes_str d"

lemma sample_sha_sized: "sha_sized sample_sha"
  by (simp add: sha_sized_def sample_sha_def)

section \<open>The manifest\<close>

definition MANIFEST_VERSION :: u32 where "MANIFEST_VERSION = 2"

record chunk =
  ch_cid :: string
  ch_size :: u64

record gguf_info =
  gi_version :: u32
  gi_alignment :: u64
  gi_tensor_data_offset :: u64
  gi_n_kv :: u64
  gi_n_tensors :: u64

record manifest =
  m_format :: string
  m_version :: u32
  m_name :: "string option"
  m_architecture :: "string option"
  m_n_layers :: u32
  m_gguf :: gguf_info
  m_header_chunk :: chunk
  m_bundles :: "bundle_entry list"

type_synonym to_json = "manifest \<Rightarrow> bytes option"
type_synonym from_json = "bytes \<Rightarrow> manifest option"

definition to_json_bytes :: "to_json \<Rightarrow> manifest \<Rightarrow> bytes option" where
  "to_json_bytes to_json m = map_option (\<lambda>v. v @ [0x0A]) (to_json m)"

definition from_json_bytes :: "from_json \<Rightarrow> bytes \<Rightarrow> manifest option" where
  "from_json_bytes from_json bs = from_json bs"

text \<open>
  What the code relies on: parsing the serialised form, with trailing white space, gives the
  document back.
\<close>

definition json_roundtrip :: "to_json \<Rightarrow> from_json \<Rightarrow> bool" where
  "json_roundtrip to_json from_json \<longleftrightarrow> (\<forall>m v. to_json m = Some v \<longrightarrow> from_json (v @ [0x0A]) = Some m)"

lemma json_bytes_roundtrip:
  "json_roundtrip to_json from_json \<Longrightarrow> to_json_bytes to_json m = Some bs \<Longrightarrow>
    from_json_bytes from_json bs = Some m"
  by (auto simp: json_roundtrip_def to_json_bytes_def from_json_bytes_def)

section \<open>Routing\<close>

text \<open>
  Routing is the GGUF naming convention: a name \<open>blk.<N>.<field>\<close> goes to block \<open>N\<close> for every
  \<open>u32\<close> value \<open>N\<close> in decimal, a name that starts with \<open>token_embd\<close> to the embedding bundle, a
  name with neither prefix to the head; and the bundle's own name routes back to it, except that
  the singleton names are no tensor names.
\<close>

theorem classify_tensor_convention:
  shows "classify_tensor (''blk.'' @ dec_digits (unat n) @ ''.'' @ field) = Block n \<and>
    classify_tensor (bundle_name (Block n)) = Block n \<and>
    classify_tensor (''token_embd'' @ field) = Embed \<and>
    (starts_with name ''token_embd'' \<or> starts_with name ''blk.'' \<or> classify_tensor name = Head)"
proof -
  have dot: "CHR ''.'' \<notin> set (dec_digits (unat n))" using digit_char_ne(2) by blast
  have p: "parse_uint (2 ^ 32) (dec_digits (unat n)) = Some (unat n)"
    using unat_u32_less by (intro parse_uint_digits) simp
  have ne: "\<not> starts_with (''blk.'' @ r) ''token_embd''" for r by (simp add: starts_with_def)
  have b: "strip_prefix (''blk.'' @ r) ''blk.'' = Some r" for r by (rule strip_prefix_append)
  have "classify_tensor (''blk.'' @ dec_digits (unat n) @ ''.'' @ field) = Block n"
    using split_first_append [OF dot, of field] p
    unfolding classify_tensor_def if_not_P [OF ne] b by simp
  moreover have "classify_tensor (bundle_name (Block n)) = Block n"
    using split_first_all [OF dot] p
    unfolding classify_tensor_def bundle_name.simps if_not_P [OF ne] b by simp
  moreover have "classify_tensor (''token_embd'' @ field) = Embed"
    unfolding classify_tensor_def by (simp only: starts_with_append if_True)
  ultimately show ?thesis by (simp add: classify_tensor_def strip_prefix_def)
qed

end
