(* ===== verification/Chunker.thy ===== *)
theory Chunker
  imports Gguf Bundle
begin

text \<open>
  The chunker, \<open>crates/model-store/src/chunker.rs\<close>: parse a GGUF, route its tensors into bundles,
  hash and write every bundle, write the manifest; and the verifier that re-hashes a chunk
  directory. A run that fails returns its error only.
\<close>

section \<open>Options, outcome, errors\<close>

record chunker_options =
  output_dir :: path
  overwrite :: bool
  dry_run :: bool

definition chunker_options_new :: "path \<Rightarrow> chunker_options" where
  "chunker_options_new dir = \<lparr>output_dir = dir, overwrite = False, dry_run = False\<rparr>"

record chunk_outcome =
  co_manifest :: manifest
  co_manifest_cid :: string
  co_manifest_bytes :: bytes
  co_n_bundles :: nat
  co_n_tensors :: nat
  co_bytes_written :: u64

datatype chunk_error =
    ParsingGguf path gguf_error
  | GgufPass gguf_error
  | OutputNotEmpty path
  | Serializing
  | ReadingFile path
  | ParsingManifest path
  | HeaderSizeMismatch u64 nat
  | HeaderHashMismatch string string
  | BundleSizeMismatch string u64 nat
  | BundleHashMismatch string string string
  | MemberOverruns string string nat nat nat
  | MemberHashMismatch string string string string

type_synonym 'a chunk_res = "chunk_error fault + 'a"

section \<open>Diagnostics from the KV block\<close>

definition read_gguf_string :: "bytes \<Rightarrow> string option chunk_res" where
  "read_gguf_string bs =
     (if length bs < 8 then Inr None
      else let n = le_nat (take 8 bs); e = (8 + n) mod 2 ^ 64
           in if length bs < e then Inr None
              else rbind (rust_slice bs 8 e) (\<lambda>s.
                     Inr (if utf8_valid s then Some (bytes_str s) else None)))"

record kv_diag =
  name_kv :: "string option"
  arch_kv :: "string option"
  block_count_kv :: "u32 option"

definition scan_kv :: "bytes \<Rightarrow> kv_diag \<Rightarrow> kv_entry \<Rightarrow> kv_diag chunk_res" where
  "scan_kv buf d kv =
     rbind (rust_slice buf (fst (value_range kv)) (snd (value_range kv))) (\<lambda>val.
       if kv_ty kv = KString \<and> kv_key kv = ''general.name''
       then rbind (read_gguf_string val) (\<lambda>s. Inr (d\<lparr>name_kv := s\<rparr>))
       else if kv_ty kv = KString \<and> kv_key kv = ''general.architecture''
       then rbind (read_gguf_string val) (\<lambda>s. Inr (d\<lparr>arch_kv := s\<rparr>))
       else if kv_ty kv = KU32 \<and> ends_with (kv_key kv) ''.block_count'' \<and> 4 \<le> length val
       then Inr (d\<lparr>block_count_kv := Some (word_of_nat (le_nat (take 4 val)))\<rparr>)
       else Inr d)"

fun scan_kvs :: "bytes \<Rightarrow> kv_diag \<Rightarrow> kv_entry list \<Rightarrow> kv_diag chunk_res" where
  "scan_kvs buf d [] = Inr d"
| "scan_kvs buf d (kv # kvs) = rbind (scan_kv buf d kv) (\<lambda>d'. scan_kvs buf d' kvs)"

section \<open>Routing\<close>

definition tensor_key :: "tensor_entry \<Rightarrow> bundle_key" where
  "tensor_key t = key_of_kind (classify_tensor (t_name t))"

definition route_tensors :: "tensor_entry list \<Rightarrow> (bundle_key \<times> nat list) list" where
  "route_tensors ts = group_pairs (map (\<lambda>i. (tensor_key (ts ! i), i)) [0..<length ts])"

definition max_block :: "tensor_entry list \<Rightarrow> int" where
  "max_block ts =
     foldl (\<lambda>m t. case classify_tensor (t_name t) of
                    Block n \<Rightarrow> if m < uint n then uint n else m
                  | _ \<Rightarrow> m) (- 1) ts"

definition layer_count :: "u32 option \<Rightarrow> tensor_entry list \<Rightarrow> u32" where
  "layer_count block_count ts =
     (case block_count of Some b \<Rightarrow> b | None \<Rightarrow> word_of_int (max 0 (max_block ts + 1)))"

section \<open>Bundles\<close>

text \<open>
  The loop over the tensors of one bundle. The bytes accumulated are both what the temporary file
  holds and what the hasher has seen.
\<close>

fun add_members :: "sha \<Rightarrow> cid_str \<Rightarrow> gguf \<Rightarrow> tensor_entry list \<Rightarrow> nat list \<Rightarrow>
    bytes \<Rightarrow> u64 \<Rightarrow> bundle_member list \<Rightarrow> (bytes \<times> u64 \<times> bundle_member list) gguf_res" where
  "add_members sha cs g ts [] content sz ms = Inr (content, sz, ms)"
| "add_members sha cs g ts (ti # is) content sz ms =
     (let t = ts ! ti
      in rbind (tensor_bytes g t) (\<lambda>bs.
           add_members sha cs g ts is (content @ bs) (sz + word_of_nat (length bs))
             (ms @ [\<lparr>bm_name = t_name t, bm_shape = t_shape t, bm_dtype = ggml_type_name (t_dtype t),
                     bm_dtype_code = t_dtype t, bm_data_offset_rel = data_offset_rel t,
                     bm_cid = cid_string_for sha cs bs, bm_size = word_of_nat (length bs),
                     offset_in_bundle = sz\<rparr>])))"

definition build_bundle :: "sha \<Rightarrow> cid_str \<Rightarrow> gguf \<Rightarrow> tensor_entry list \<Rightarrow> bundle_kind \<Rightarrow> nat list \<Rightarrow>
    (bundle_entry \<times> bytes) chunk_res" where
  "build_bundle sha cs g ts kind is =
     rbind (map_err (map_fault GgufPass) (add_members sha cs g ts is [] 0 [])) (\<lambda>(content, sz, ms).
     rbind (cid_string_from_sha256 cs (sha content)) (\<lambda>cid.
       Inr (\<lparr>be_name = bundle_name kind, be_layer_range = kind_layer_range kind, be_cid = cid,
             be_size = sz, be_members = ms\<rparr>, content)))"

definition chunk_file :: "path \<Rightarrow> string \<Rightarrow> path" where
  "chunk_file chunks_dir cid = join chunks_dir (cid @ ''.bin'')"

definition bundle_tmp :: "path \<Rightarrow> bundle_kind \<Rightarrow> path" where
  "bundle_tmp chunks_dir kind = join chunks_dir (''.bundle-'' @ bundle_name kind @ ''.tmp'')"

definition write_chunk :: "path \<Rightarrow> string \<Rightarrow> bytes \<Rightarrow> fs \<Rightarrow> fs" where
  "write_chunk dir cid bs fs =
     (let tmp = join dir (cid @ ''.bin.tmp'')
      in rename_file tmp (chunk_file dir cid) (write_file tmp bs fs))"

record chunk_state =
  cs_fs :: fs
  cs_written :: "string list"
  cs_bytes_written :: u64

definition store_bundle :: "path \<Rightarrow> bundle_kind \<Rightarrow> bundle_entry \<Rightarrow> bytes \<Rightarrow> chunk_state \<Rightarrow> chunk_state" where
  "store_bundle dir kind e content st =
     (let tmp = bundle_tmp dir kind;
          fs = write_file tmp content (cs_fs st)
      in if be_cid e \<in> set (cs_written st)
         then st\<lparr>cs_fs := remove_file tmp fs\<rparr>
         else \<lparr>cs_fs = rename_file tmp (chunk_file dir (be_cid e)) fs,
               cs_written = be_cid e # cs_written st,
               cs_bytes_written = cs_bytes_written st + be_size e\<rparr>)"

fun chunk_bundles :: "sha \<Rightarrow> cid_str \<Rightarrow> gguf \<Rightarrow> tensor_entry list \<Rightarrow> bool \<Rightarrow> path \<Rightarrow>
    (bundle_key \<times> nat list) list \<Rightarrow> chunk_state \<Rightarrow> bundle_entry list \<Rightarrow>
    (chunk_state \<times> bundle_entry list) chunk_res" where
  "chunk_bundles sha cs g ts dry dir [] st es = Inr (st, es)"
| "chunk_bundles sha cs g ts dry dir ((key, is) # groups) st es =
     (let kind = to_kind key
      in rbind (build_bundle sha cs g ts kind is) (\<lambda>(e, content).
           chunk_bundles sha cs g ts dry dir groups
             (if dry then st else store_bundle dir kind e content st) (es @ [e])))"

section \<open>The whole run\<close>

definition prepare_output_dir :: "path \<Rightarrow> bool \<Rightarrow> fs \<Rightarrow> unit chunk_res" where
  "prepare_output_dir dir ovr fs =
     (if dir_nonempty dir fs \<and> \<not> ovr then Inl (Fail (OutputNotEmpty dir)) else Inr ())"

definition make_manifest :: "gguf \<Rightarrow> kv_diag \<Rightarrow> tensor_entry list \<Rightarrow> chunk \<Rightarrow> bundle_entry list \<Rightarrow> manifest" where
  "make_manifest g d ts header es =
     \<lparr>m_format = ''intelnav-model'', m_version = MANIFEST_VERSION, m_name = name_kv d,
      m_architecture = arch_kv d, m_n_layers = layer_count (block_count_kv d) ts,
      m_gguf = \<lparr>gi_version = g_version g, gi_alignment = g_alignment g,
                gi_tensor_data_offset = tensor_data_offset g, gi_n_kv = g_n_kv g,
                gi_n_tensors = g_n_tensors g\<rparr>,
      m_header_chunk = header, m_bundles = es\<rparr>"

definition chunk_gguf :: "sha \<Rightarrow> cid_str \<Rightarrow> to_json \<Rightarrow> path \<Rightarrow> chunker_options \<Rightarrow> fs \<Rightarrow>
    (chunk_outcome \<times> fs) chunk_res" where
  "chunk_gguf sha cs to_json input opts fs =
     rbind (map_err (map_fault (ParsingGguf input)) (gguf_open fs input)) (\<lambda>g.
     rbind (map_err (map_fault GgufPass) (kv_entries g)) (\<lambda>kvs.
     rbind (scan_kvs (g_mmap g) \<lparr>name_kv = None, arch_kv = None, block_count_kv = None\<rparr> kvs) (\<lambda>d.
     rbind (map_err (map_fault GgufPass) (tensors g)) (\<lambda>ts.
     rbind (rust_slice (g_mmap g) 0 (unat (tensor_data_offset g))) (\<lambda>header_bytes.
       let header_cid = cid_string_for sha cs header_bytes;
           header = \<lparr>ch_cid = header_cid, ch_size = word_of_nat (length header_bytes)\<rparr>;
           dir = join (output_dir opts) ''chunks''
       in rbind (if dry_run opts then Inr () else prepare_output_dir (output_dir opts) (overwrite opts) fs) (\<lambda>_.
          let st = (if dry_run opts then \<lparr>cs_fs = fs, cs_written = [], cs_bytes_written = 0\<rparr>
                    else \<lparr>cs_fs = write_chunk dir header_cid header_bytes fs,
                          cs_written = [header_cid],
                          cs_bytes_written = word_of_nat (length header_bytes)\<rparr>)
          in rbind (chunk_bundles sha cs g ts (dry_run opts) dir (route_tensors ts) st []) (\<lambda>(st, es).
             let m = make_manifest g d ts header es
             in rbind (ok_or (Fail Serializing) (to_json_bytes to_json m)) (\<lambda>mb.
                Inr (\<lparr>co_manifest = m, co_manifest_cid = cid_string_for sha cs mb,
                      co_manifest_bytes = mb, co_n_bundles = length es,
                      co_n_tensors = sum_list (map (length \<circ> be_members) es),
                      co_bytes_written = (if dry_run opts then cs_bytes_written st
                        else cs_bytes_written st + word_of_nat (length mb))\<rparr>,
                     if dry_run opts then cs_fs st
                     else write_file (join (output_dir opts) ''manifest.json'') mb (cs_fs st)))))))))) "

section \<open>Verification of a chunk directory\<close>

definition verify_member :: "sha \<Rightarrow> cid_str \<Rightarrow> bundle_entry \<Rightarrow> bytes \<Rightarrow> bundle_member \<Rightarrow> unit chunk_res" where
  "verify_member sha cs b bs m =
     (let start = unat (offset_in_bundle m);
          e = unat (offset_in_bundle m + bm_size m)
      in if length bs < e then Inl (Fail (MemberOverruns (bm_name m) (be_name b) start e (length bs)))
         else rbind (rust_slice bs start e) (\<lambda>part.
           let actual = cid_string_for sha cs part
           in if actual \<noteq> bm_cid m
              then Inl (Fail (MemberHashMismatch (bm_name m) (be_name b) (bm_cid m) actual))
              else Inr ()))"

definition read_chunk :: "path \<Rightarrow> fs \<Rightarrow> string \<Rightarrow> bytes chunk_res" where
  "read_chunk dir fs cid =
     ok_or (Fail (ReadingFile (chunk_file dir cid))) (read_file fs (chunk_file dir cid))"

definition verify_bundle :: "sha \<Rightarrow> cid_str \<Rightarrow> path \<Rightarrow> fs \<Rightarrow> bundle_entry \<Rightarrow> unit chunk_res" where
  "verify_bundle sha cs dir fs b =
     rbind (read_chunk dir fs (be_cid b)) (\<lambda>bs.
       if word_of_nat (length bs) \<noteq> be_size b
       then Inl (Fail (BundleSizeMismatch (be_name b) (be_size b) (length bs)))
       else let actual = cid_string_for sha cs bs
            in if actual \<noteq> be_cid b
               then Inl (Fail (BundleHashMismatch (be_name b) (be_cid b) actual))
               else rbind (mapM (verify_member sha cs b bs) (be_members b)) (\<lambda>_. Inr ()))"

definition verify_chunks :: "sha \<Rightarrow> cid_str \<Rightarrow> from_json \<Rightarrow> path \<Rightarrow> fs \<Rightarrow> unit chunk_res" where
  "verify_chunks sha cs from_json out fs =
     (let mp = join out ''manifest.json''; dir = join out ''chunks''
      in rbind (ok_or (Fail (ReadingFile mp)) (read_file fs mp)) (\<lambda>mb.
         rbind (ok_or (Fail (ParsingManifest mp)) (from_json_bytes from_json mb)) (\<lambda>m.
         rbind (read_chunk dir fs (ch_cid (m_header_chunk m))) (\<lambda>bs.
           if word_of_nat (length bs) \<noteq> ch_size (m_header_chunk m)
           then Inl (Fail (HeaderSizeMismatch (ch_size (m_header_chunk m)) (length bs)))
           else let actual = cid_string_for sha cs bs
                in if actual \<noteq> ch_cid (m_header_chunk m)
                   then Inl (Fail (HeaderHashMismatch (ch_cid (m_header_chunk m)) actual))
                   else rbind (mapM (verify_bundle sha cs dir fs) (m_bundles m)) (\<lambda>_. Inr ())))))"

section \<open>Specification of the bundles\<close>

definition tensor_data :: "gguf \<Rightarrow> tensor_entry \<Rightarrow> bytes" where
  "tensor_data g t = (case tensor_bytes g t of Inl _ \<Rightarrow> [] | Inr bs \<Rightarrow> bs)"

definition readable :: "gguf \<Rightarrow> tensor_entry list \<Rightarrow> bool" where
  "readable g ts \<longleftrightarrow> list_all (\<lambda>t. tensor_bytes g t = Inr (tensor_data g t)) ts"

fun members_of :: "sha \<Rightarrow> cid_str \<Rightarrow> gguf \<Rightarrow> u64 \<Rightarrow> tensor_entry list \<Rightarrow> bundle_member list" where
  "members_of sha cs g off [] = []"
| "members_of sha cs g off (t # ts) =
     (let bs = tensor_data g t
      in \<lparr>bm_name = t_name t, bm_shape = t_shape t, bm_dtype = ggml_type_name (t_dtype t),
          bm_dtype_code = t_dtype t, bm_data_offset_rel = data_offset_rel t,
          bm_cid = cid_string_for sha cs bs, bm_size = word_of_nat (length bs),
          offset_in_bundle = off\<rparr> # members_of sha cs g (off + word_of_nat (length bs)) ts)"

definition content_of :: "gguf \<Rightarrow> tensor_entry list \<Rightarrow> bytes" where
  "content_of g ts = concat (map (tensor_data g) ts)"

definition bundle_of :: "sha \<Rightarrow> cid_str \<Rightarrow> gguf \<Rightarrow> bundle_kind \<Rightarrow> tensor_entry list \<Rightarrow> bundle_entry" where
  "bundle_of sha cs g kind ts =
     \<lparr>be_name = bundle_name kind, be_layer_range = kind_layer_range kind,
      be_cid = cid_string_for sha cs (content_of g ts),
      be_size = word_of_nat (length (content_of g ts)), be_members = members_of sha cs g 0 ts\<rparr>"

definition tensors_of_kind :: "tensor_entry list \<Rightarrow> bundle_kind \<Rightarrow> tensor_entry list" where
  "tensors_of_kind ts k = filter (\<lambda>t. classify_tensor (t_name t) = k) ts"

text \<open>The kinds present, in bundle order.\<close>

definition kinds_of :: "tensor_entry list \<Rightarrow> bundle_kind list" where
  "kinds_of ts = map to_kind (sorted_list_of_set (tensor_key ` set ts))"

section \<open>The loops compute the specification\<close>

lemma add_members_spec:
  "add_members sha cs g ts is c s ms = Inr (c', s', ms') \<Longrightarrow>
    readable g (map ((!) ts) is) \<and> c' = c @ content_of g (map ((!) ts) is) \<and>
    s' = s + word_of_nat (length (content_of g (map ((!) ts) is))) \<and>
    ms' = ms @ members_of sha cs g s (map ((!) ts) is)"
proof (induction sha cs g ts "is" c s ms rule: add_members.induct)
  case (1 sha cs g ts c s ms)
  then show ?case by (simp add: readable_def content_of_def)
next
  case (2 sha cs g ts ti "is" c s ms)
  from 2(2) obtain bs where bs: "tensor_bytes g (ts ! ti) = Inr bs"
    by (auto simp: Let_def rbind_eq_Inr)
  then have td: "tensor_data g (ts ! ti) = bs" by (simp add: tensor_data_def)
  show ?case using 2(1) [OF refl bs] 2(2) bs
    by (auto simp: Let_def td readable_def content_of_def add.assoc)
qed

lemma build_bundle_spec:
  assumes "sha_sized sha" "build_bundle sha cs g ts kind is = Inr (e, content)"
  shows "readable g (map ((!) ts) is) \<and> e = bundle_of sha cs g kind (map ((!) ts) is) \<and>
    content = content_of g (map ((!) ts) is)"
  using assms
  by (auto simp: build_bundle_def results bundle_of_def dest!: add_members_spec)

lemma chunk_bundles_entries:
  "sha_sized sha \<Longrightarrow> chunk_bundles sha cs g ts dry dir groups st es = Inr (st', es') \<Longrightarrow>
    es' = es @ map (\<lambda>(k, is). bundle_of sha cs g (to_kind k) (map ((!) ts) is)) groups \<and>
    list_all (\<lambda>(k, is). readable g (map ((!) ts) is)) groups"
proof (induction sha cs g ts dry dir groups st es rule: chunk_bundles.induct)
  case (1 sha cs g ts dry dir st es)
  then show ?case by simp
next
  case (2 sha cs g ts dry dir key "is" groups st es)
  from 2(3) obtain e content where b: "build_bundle sha cs g ts (to_kind key) is = Inr (e, content)"
    by (auto simp: Let_def rbind_eq_Inr)
  note spec = build_bundle_spec [OF 2(2) b]
  show ?case using 2(1) [OF refl b refl 2(2)] 2(3) b spec by (auto simp: Let_def)
qed

lemma tensor_key_kind: "to_kind (tensor_key t) = classify_tensor (t_name t)"
  by (simp add: tensor_key_def)

lemma tensor_key_eq: "tensor_key t = k \<longleftrightarrow> k = key_of_kind (classify_tensor (t_name t))"
  by (auto simp: tensor_key_def)

lemma filter_nth: "map ((!) ts) (filter (\<lambda>i. P (ts ! i)) [0..<length ts]) = filter P ts"
proof -
  have "filter P (map ((!) ts) [0..<length ts]) = map ((!) ts) (filter (P \<circ> (!) ts) [0..<length ts])"
    by (rule filter_map)
  then show ?thesis by (simp add: map_nth comp_def)
qed

lemma route_tensors_keys: "set (map fst (route_tensors ts)) = tensor_key ` set ts"
proof -
  have "set ts = (!) ts ` {0..<length ts}" by (simp add: nth_image)
  moreover note group_pairs_props [of "map (\<lambda>i. (tensor_key (ts ! i), i)) [0..<length ts]"]
  ultimately show ?thesis by (simp add: route_tensors_def image_image)
qed

lemma route_tensors_spec:
  "map (\<lambda>(k, is). (to_kind k, map ((!) ts) is)) (route_tensors ts) =
   map (\<lambda>k. (k, tensors_of_kind ts k)) (kinds_of ts)"
proof -
  let ?ps = "map (\<lambda>i. (tensor_key (ts ! i), i)) [0..<length ts]"
  note g = group_pairs_props [of ?ps]
  have "set ts = (!) ts ` {0..<length ts}" by (simp add: nth_image)
  then have keys: "fst ` set ?ps = tensor_key ` set ts" by (simp add: image_image)
  have "map fst (route_tensors ts) = sorted_list_of_set (set (map fst (route_tensors ts)))"
    using g by (intro sorted_list_of_set.idem_if_sorted_distinct [symmetric])
      (simp_all add: route_tensors_def strict_sorted_iff)
  also note route_tensors_keys
  finally have fsts: "map fst (route_tensors ts) = sorted_list_of_set (tensor_key ` set ts)" .
  have grp: "(to_kind k, map ((!) ts) is) = (to_kind k, tensors_of_kind ts (to_kind k))"
    if m: "(k, is) \<in> set (route_tensors ts)" for k "is"
  proof -
    from group_pairs_member [OF m [unfolded route_tensors_def]]
    have i: "is = map snd (filter (\<lambda>p. fst p = k) ?ps)" and k: "k \<in> tensor_key ` set ts"
      using keys by auto
    have "is = filter (\<lambda>i. tensor_key (ts ! i) = k) [0..<length ts]"
      unfolding i by (simp add: filter_map comp_def)
    then have "map ((!) ts) is = filter (\<lambda>t. tensor_key t = k) ts"
      using filter_nth [of ts "\<lambda>t. tensor_key t = k"] by simp
    also have "\<dots> = tensors_of_kind ts (to_kind k)"
      unfolding tensors_of_kind_def
      by (rule filter_cong) (use k in \<open>auto simp: tensor_key_def\<close>)
    finally show ?thesis by simp
  qed
  have "map (\<lambda>(k, is). (to_kind k, map ((!) ts) is)) (route_tensors ts) =
      map (\<lambda>(k, is). (to_kind k, tensors_of_kind ts (to_kind k))) (route_tensors ts)"
    using grp by (intro map_cong) auto
  also have "\<dots> = map (\<lambda>k. (k, tensors_of_kind ts k)) (map to_kind (map fst (route_tensors ts)))"
    by (simp add: comp_def split_beta)
  finally show ?thesis by (simp only: fsts kinds_of_def)
qed

lemma members_of_length: "length (members_of sha cs g off ts) = length ts"
  by (induction ts arbitrary: off) (simp_all add: Let_def)

lemma kinds_of_props: "distinct (kinds_of ts)" "set (kinds_of ts) = (\<lambda>t. classify_tensor (t_name t)) ` set ts"
proof -
  have "inj_on to_kind (tensor_key ` set ts)"
    by (auto simp: inj_on_def tensor_key_def)
  then show "distinct (kinds_of ts)" by (simp add: kinds_of_def distinct_map)
  show "set (kinds_of ts) = (\<lambda>t. classify_tensor (t_name t)) ` set ts"
    by (simp add: kinds_of_def image_image tensor_key_kind)
qed

lemma sum_filter_partition:
  "distinct ks \<Longrightarrow> f ` set xs \<subseteq> set ks \<Longrightarrow> (\<Sum>k\<leftarrow>ks. length (filter (\<lambda>x. f x = k) xs)) = length xs"
proof (induction xs)
  case (Cons x xs)
  have "(\<Sum>k\<leftarrow>ks. length (filter (\<lambda>y. f y = k) (x # xs)))
      = (\<Sum>k\<leftarrow>ks. (if k = f x then 1 else 0) + length (filter (\<lambda>y. f y = k) xs))"
    by (intro arg_cong [where f = sum_list] map_cong) auto
  also have "\<dots> = (\<Sum>k\<leftarrow>ks. (if k = f x then 1 else 0)) + length xs"
    using Cons by (simp add: sum_list_addf)
  also have "(\<Sum>k\<leftarrow>ks. (if k = f x then 1 else (0 :: nat))) = 1"
    using Cons.prems by (simp add: sum_list_distinct_conv_sum_set)
  finally show ?case by simp
qed simp

lemma kinds_count: "(\<Sum>k\<leftarrow>kinds_of ts. length (tensors_of_kind ts k)) = length ts"
  unfolding tensors_of_kind_def using kinds_of_props [of ts] by (intro sum_filter_partition) simp_all

text \<open>What a successful run did, one conclusion per step.\<close>

lemma chunk_gguf_Inr:
  assumes "chunk_gguf sha cs to_json input opts fs = Inr (out, fs')"
  obtains g kvs d ts st where
    "gguf_open fs input = Inr g" "tensors g = Inr ts"
    "unat (tensor_data_offset g) \<le> length (g_mmap g)"
    "chunk_bundles sha cs g ts (dry_run opts) (join (output_dir opts) ''chunks'') (route_tensors ts)
      (if dry_run opts then \<lparr>cs_fs = fs, cs_written = [], cs_bytes_written = 0\<rparr>
       else let header = subslice (g_mmap g) 0 (unat (tensor_data_offset g));
                cid = cid_string_for sha cs header
            in \<lparr>cs_fs = write_chunk (join (output_dir opts) ''chunks'') cid header fs,
                cs_written = [cid], cs_bytes_written = word_of_nat (length header)\<rparr>) []
      = Inr (st, m_bundles (co_manifest out))"
    "m_header_chunk (co_manifest out) =
      (let header = subslice (g_mmap g) 0 (unat (tensor_data_offset g))
       in \<lparr>ch_cid = cid_string_for sha cs header, ch_size = word_of_nat (length header)\<rparr>)"
    "to_json_bytes to_json (co_manifest out) = Some (co_manifest_bytes out)"
    "co_n_tensors out = sum_list (map (length \<circ> be_members) (m_bundles (co_manifest out)))"
    "fs' = (if dry_run opts then cs_fs st
      else write_file (join (output_dir opts) ''manifest.json'') (co_manifest_bytes out) (cs_fs st))"
  using assms unfolding chunk_gguf_def Let_def
  by (auto simp: results make_manifest_def Let_def)

lemma map_split_comp: "map (\<lambda>(k, is). f (g k) (h is)) xs = map (\<lambda>(k, ts). f k ts) (map (\<lambda>(k, is). (g k, h is)) xs)"
  by (simp add: comp_def split_beta)

lemma readable_groups:
  assumes "list_all (\<lambda>(k, is). readable g (map ((!) ts) is)) (route_tensors ts)"
  shows "readable g ts"
  unfolding readable_def list_all_iff
proof
  fix t assume t: "t \<in> set ts"
  have "tensor_key t \<in> set (map fst (route_tensors ts))"
    unfolding route_tensors_keys using t by simp
  then obtain "is" where m: "(tensor_key t, is) \<in> set (route_tensors ts)" by auto
  then have "(classify_tensor (t_name t), map ((!) ts) is)
      \<in> set (map (\<lambda>(k, is). (to_kind k, map ((!) ts) is)) (route_tensors ts))"
    by (force simp: tensor_key_kind [symmetric])
  then have "map ((!) ts) is = tensors_of_kind ts (classify_tensor (t_name t))"
    unfolding route_tensors_spec by auto
  then have "t \<in> set (map ((!) ts) is)" using t by (simp add: tensors_of_kind_def)
  then show "tensor_bytes g t = Inr (tensor_data g t)"
    using assms m unfolding readable_def list_all_iff by fastforce
qed

text \<open>
  C11. A successful chunking run, dry or not, refines the bundle specification: one bundle per kind
  present among the tensor names, embedding first, then the blocks by index, then the head; each
  bundle holds exactly the tensors of its kind in index order, its CID is the hash of their
  concatenated bytes, its members carry each tensor's own CID and offset; and the member count over
  all bundles is the number of tensors of the file.
\<close>

theorem chunk_gguf_bundles:
  assumes "chunk_gguf sha cs to_json input opts fs = Inr (out, fs')" "sha_sized sha"
  shows "\<exists>g ts. gguf_open fs input = Inr g \<and> tensors g = Inr ts \<and> readable g ts \<and>
    m_bundles (co_manifest out) = map (\<lambda>k. bundle_of sha cs g k (tensors_of_kind ts k)) (kinds_of ts) \<and>
    co_n_tensors out = length ts"
proof (rule chunk_gguf_Inr [OF assms(1)])
  fix g kvs d ts st
  assume open_ok: "gguf_open fs input = Inr g" and ts: "tensors g = Inr ts"
    and b: "chunk_bundles sha cs g ts (dry_run opts) (join (output_dir opts) ''chunks'') (route_tensors ts)
      (if dry_run opts then \<lparr>cs_fs = fs, cs_written = [], cs_bytes_written = 0\<rparr>
       else let header = subslice (g_mmap g) 0 (unat (tensor_data_offset g));
                cid = cid_string_for sha cs header
            in \<lparr>cs_fs = write_chunk (join (output_dir opts) ''chunks'') cid header fs,
                cs_written = [cid], cs_bytes_written = word_of_nat (length header)\<rparr>) []
      = Inr (st, m_bundles (co_manifest out))"
    and n: "co_n_tensors out = sum_list (map (length \<circ> be_members) (m_bundles (co_manifest out)))"
  note es = chunk_bundles_entries [OF assms(2) b]
  have bs: "m_bundles (co_manifest out) = map (\<lambda>k. bundle_of sha cs g k (tensors_of_kind ts k)) (kinds_of ts)"
    using es by (simp add: map_split_comp [of "bundle_of sha cs g"] route_tensors_spec comp_def)
  have "co_n_tensors out = length ts"
    unfolding n bs by (simp add: comp_def bundle_of_def members_of_length kinds_count)
  then show ?thesis using open_ok ts bs readable_groups es by blast
qed

section \<open>The files written\<close>

lemma chunk_file_inject [simp]: "chunk_file dir c = chunk_file dir c' \<longleftrightarrow> c = c'"
  by (simp add: chunk_file_def)

lemma chunk_file_not_tmp [simp]:
  "chunk_file dir c \<noteq> bundle_tmp dir k" "bundle_tmp dir k \<noteq> chunk_file dir c"
  "chunk_file dir c \<noteq> join dir (c' @ ''.bin.tmp'')" "join dir (c' @ ''.bin.tmp'') \<noteq> chunk_file dir c"
  by (auto simp: chunk_file_def bundle_tmp_def dest: arg_cong [where f = last])

lemma manifest_not_chunk [simp]: "chunk_file (join out ''chunks'') c \<noteq> join out ''manifest.json''"
  by (auto simp: chunk_file_def join_def)

definition stored :: "sha \<Rightarrow> cid_str \<Rightarrow> path \<Rightarrow> fs \<Rightarrow> bytes \<Rightarrow> bool" where
  "stored sha cs dir fs c \<longleftrightarrow> read_file fs (chunk_file dir (cid_string_for sha cs c)) = Some c"

definition chunk_inv :: "sha \<Rightarrow> cid_str \<Rightarrow> path \<Rightarrow> bytes set \<Rightarrow> chunk_state \<Rightarrow> bytes set \<Rightarrow> bool" where
  "chunk_inv sha cs dir C st S \<longleftrightarrow> S \<subseteq> C \<and> (\<forall>c \<in> S. stored sha cs dir (cs_fs st) c) \<and>
     set (cs_written st) = cid_string_for sha cs ` S"

lemma write_chunk_stored: "stored sha cs dir (write_chunk dir (cid_string_for sha cs c) c fs) c"
  by (simp add: stored_def write_chunk_def Let_def file_simps)

lemma store_bundle_inv:
  assumes inj: "inj_on (cid_string_for sha cs) C" and c: "c \<in> C"
    and e: "be_cid e = cid_string_for sha cs c" and inv: "chunk_inv sha cs dir C st S"
  shows "chunk_inv sha cs dir C (store_bundle dir k e c st) (insert c S)"
proof (cases "be_cid e \<in> set (cs_written st)")
  case True
  then have "c \<in> S"
    using inv c e inj by (auto simp: chunk_inv_def dest: inj_onD)
  then show ?thesis using True inv
    by (auto simp: chunk_inv_def store_bundle_def Let_def stored_def file_simps insert_absorb)
next
  case False
  have rd: "read_file (write_file (bundle_tmp dir k) c (cs_fs st)) (bundle_tmp dir k) = Some c"
    by (simp add: file_simps)
  have "c' \<in> S \<Longrightarrow> cid_string_for sha cs c' \<noteq> cid_string_for sha cs c" for c'
    using False inv e unfolding chunk_inv_def by (metis image_eqI)
  then show ?thesis using False inv c e
    by (auto simp: chunk_inv_def store_bundle_def Let_def stored_def read_rename_file [OF rd] read_write_file)
qed

lemma chunk_bundles_inv:
  assumes "sha_sized sha" and inj: "inj_on (cid_string_for sha cs) C"
  shows "chunk_bundles sha cs g ts False dir groups st es = Inr (st', es') \<Longrightarrow>
    (\<And>k is. (k, is) \<in> set groups \<Longrightarrow> content_of g (map ((!) ts) is) \<in> C) \<Longrightarrow>
    chunk_inv sha cs dir C st S \<Longrightarrow>
    chunk_inv sha cs dir C st' (S \<union> (\<lambda>(k, is). content_of g (map ((!) ts) is)) ` set groups)"
proof (induction groups arbitrary: st es S)
  case Nil
  then show ?case by simp
next
  case (Cons gr groups)
  obtain k "is" where gr: "gr = (k, is)" by (cases gr)
  let ?c = "content_of g (map ((!) ts) is)"
  from Cons.prems(1) obtain e content where b: "build_bundle sha cs g ts (to_kind k) is = Inr (e, content)"
    and rest: "chunk_bundles sha cs g ts False dir groups (store_bundle dir (to_kind k) e content st) (es @ [e])
      = Inr (st', es')"
    by (auto simp: gr Let_def rbind_eq_Inr)
  have e: "be_cid e = cid_string_for sha cs ?c" "content = ?c"
    using build_bundle_spec [OF assms(1) b] by (auto simp: bundle_of_def)
  have "?c \<in> C" using Cons.prems(2) by (auto simp: gr)
  from store_bundle_inv [OF inj this e(1) Cons.prems(3)]
  have "chunk_inv sha cs dir C (store_bundle dir (to_kind k) e content st) (insert ?c S)"
    by (simp add: e(2))
  from Cons.IH [OF rest _ this] Cons.prems(2)
  have "chunk_inv sha cs dir C st' (insert ?c S \<union> (\<lambda>(k, is). content_of g (map ((!) ts) is)) ` set groups)"
    by auto
  then show ?case by (simp add: gr)
qed

section \<open>Verification succeeds\<close>

lemma verify_members:
  assumes bs: "bs = pre @ content_of g ts" and len: "length bs < 2 ^ 63"
  shows "mapM (verify_member sha cs b bs) (members_of sha cs g (word_of_nat (length pre)) ts)
    = Inr (replicate (length ts) ())"
  using bs
proof (induction ts arbitrary: pre)
  case Nil
  then show ?case by simp
next
  case (Cons t ts)
  let ?d = "tensor_data g t"
  have bs: "bs = (pre @ ?d) @ content_of g ts" using Cons.prems by (simp add: content_of_def)
  have l: "length pre + length ?d \<le> length bs" by (simp add: bs)
  then have u: "unat (word_of_nat (length pre) :: u64) = length pre"
    "unat (word_of_nat (length pre) + word_of_nat (length ?d) :: u64) = length pre + length ?d"
    using len unat_of_nat_u64 [of "length pre"] unat_of_nat_u64 [of "length pre + length ?d"] by simp_all
  have "subslice bs (length pre) (length pre + length ?d) = ?d"
    unfolding bs append_assoc by (rule subslice_append_mid) simp_all
  then have "verify_member sha cs b bs
      \<lparr>bm_name = t_name t, bm_shape = t_shape t, bm_dtype = ggml_type_name (t_dtype t),
       bm_dtype_code = t_dtype t, bm_data_offset_rel = data_offset_rel t,
       bm_cid = cid_string_for sha cs ?d, bm_size = word_of_nat (length ?d),
       offset_in_bundle = word_of_nat (length pre)\<rparr> = Inr ()"
    using l u by (simp add: verify_member_def Let_def rust_slice_def)
  then show ?case using Cons.IH [OF bs] by (simp add: Let_def)
qed

lemma verify_bundle_ok:
  assumes "stored sha cs dir fs (content_of g ts)" "length (content_of g ts) < 2 ^ 63"
  shows "verify_bundle sha cs dir fs (bundle_of sha cs g k ts) = Inr ()"
  using assms verify_members [of "content_of g ts" "[]" g ts sha cs]
  by (simp add: verify_bundle_def bundle_of_def stored_def read_chunk_def Let_def)

lemma content_bound:
  assumes "fits (g_mmap g)" "tensors g = Inr ts" "readable g ts"
  shows "length (content_of g (tensors_of_kind ts k)) < 2 ^ 63"
proof -
  have "length (content_of g (tensors_of_kind ts k))
      = sum_list (map (\<lambda>t. length (tensor_data g t)) (tensors_of_kind ts k))"
    by (simp add: content_of_def length_concat comp_def)
  also have "\<dots> \<le> sum_list (map (\<lambda>t. length (tensor_data g t)) ts)"
    unfolding tensors_of_kind_def by (rule sum_list_filter_le_nat)
  also have "\<dots> \<le> length (g_mmap g)"
    by (rule tensors_total_bound [OF assms(1,2)]) (use assms(3) in \<open>simp add: readable_def list_all_iff\<close>)
  finally show ?thesis using assms(1) by (simp add: fits_def)
qed

text \<open>The contents one run addresses by CID: the header and every bundle.\<close>

definition run_contents :: "gguf \<Rightarrow> tensor_entry list \<Rightarrow> bytes list" where
  "run_contents g ts = subslice (g_mmap g) 0 (unat (tensor_data_offset g)) #
     map (\<lambda>k. content_of g (tensors_of_kind ts k)) (kinds_of ts)"

definition cid_separates :: "sha \<Rightarrow> cid_str \<Rightarrow> fs \<Rightarrow> path \<Rightarrow> bool" where
  "cid_separates sha cs fs input \<longleftrightarrow>
     (case gguf_open fs input of Inl _ \<Rightarrow> True | Inr g \<Rightarrow>
       (case tensors g of Inl _ \<Rightarrow> True | Inr ts \<Rightarrow>
         inj_on (cid_string_for sha cs) (set (run_contents g ts))))"

text \<open>What a run leaves in the chunk directory: the header, every bundle, and the manifest that lists them.\<close>

lemma chunk_gguf_stores:
  assumes "chunk_gguf sha cs to_json input opts fs = Inr (out, fs')"
    and "\<not> dry_run opts" "sha_sized sha" "cid_separates sha cs fs input"
    and "\<And>buf. read_file fs input = Some buf \<Longrightarrow> fits buf"
  obtains g ts h where "fits (g_mmap g)" "tensors g = Inr ts" "readable g ts"
    "stored sha cs (join (output_dir opts) ''chunks'') fs' h"
    "m_header_chunk (co_manifest out) = \<lparr>ch_cid = cid_string_for sha cs h, ch_size = word_of_nat (length h)\<rparr>"
    "\<And>k. k \<in> set (kinds_of ts) \<Longrightarrow> stored sha cs (join (output_dir opts) ''chunks'') fs' (content_of g (tensors_of_kind ts k))"
    "m_bundles (co_manifest out) = map (\<lambda>k. bundle_of sha cs g k (tensors_of_kind ts k)) (kinds_of ts)"
    "to_json_bytes to_json (co_manifest out) = Some (co_manifest_bytes out)"
    "read_file fs' (join (output_dir opts) ''manifest.json'') = Some (co_manifest_bytes out)"
proof (rule chunk_gguf_Inr [OF assms(1)])
  fix g :: gguf and kvs :: "kv_entry list" and d :: kv_diag and ts :: "tensor_entry list" and st :: chunk_state
  let ?dir = "join (output_dir opts) ''chunks''"
  let ?h = "subslice (g_mmap g) 0 (unat (tensor_data_offset g))"
  let ?m = "co_manifest out"
  let ?c = "\<lambda>k. content_of g (tensors_of_kind ts k)"
  let ?C = "set (run_contents g ts)"
  assume open_ok: "gguf_open fs input = Inr g" and ts: "tensors g = Inr ts"
    and tdo: "unat (tensor_data_offset g) \<le> length (g_mmap g)"
    and b: "chunk_bundles sha cs g ts (dry_run opts) ?dir (route_tensors ts)
      (if dry_run opts then \<lparr>cs_fs = fs, cs_written = [], cs_bytes_written = 0\<rparr>
       else let header = ?h; cid = cid_string_for sha cs header
            in \<lparr>cs_fs = write_chunk ?dir cid header fs,
                cs_written = [cid], cs_bytes_written = word_of_nat (length header)\<rparr>) []
      = Inr (st, m_bundles ?m)"
    and hdr: "m_header_chunk ?m =
      (let header = ?h in \<lparr>ch_cid = cid_string_for sha cs header, ch_size = word_of_nat (length header)\<rparr>)"
    and js: "to_json_bytes to_json ?m = Some (co_manifest_bytes out)"
    and fs': "fs' = (if dry_run opts then cs_fs st
      else write_file (join (output_dir opts) ''manifest.json'') (co_manifest_bytes out) (cs_fs st))"
  from open_ok obtain buf where buf: "read_file fs input = Some buf" "gguf_parse input buf = Inr g"
    by (auto simp: gguf_open_def results)
  have fits: "fits (g_mmap g)" using assms(5) [OF buf(1)] gguf_parse_Inr(4) [OF buf(2)] by simp
  have inj: "inj_on (cid_string_for sha cs) ?C"
    using assms(4) open_ok ts by (simp add: cid_separates_def)
  have "(\<lambda>(k, is). content_of g (map ((!) ts) is)) ` set (route_tensors ts)
      = (\<lambda>(k, ts). content_of g ts) ` set (map (\<lambda>(k, is). (to_kind k, map ((!) ts) is)) (route_tensors ts))"
    by (simp add: image_image split_beta)
  also have "\<dots> = ?c ` set (kinds_of ts)" unfolding route_tensors_spec by (simp add: image_image)
  finally have set_gr: "(\<lambda>(k, is). content_of g (map ((!) ts) is)) ` set (route_tensors ts) = ?c ` set (kinds_of ts)" .
  let ?st0 = "\<lparr>cs_fs = write_chunk ?dir (cid_string_for sha cs ?h) ?h fs,
    cs_written = [cid_string_for sha cs ?h], cs_bytes_written = word_of_nat (length ?h)\<rparr>"
  have inv0: "chunk_inv sha cs ?dir ?C ?st0 {?h}"
    by (simp add: chunk_inv_def write_chunk_stored run_contents_def)
  have inC: "content_of g (map ((!) ts) is) \<in> ?C" if "(k, is) \<in> set (route_tensors ts)" for k "is"
  proof -
    from that have "content_of g (map ((!) ts) is)
        \<in> (\<lambda>(k, is). content_of g (map ((!) ts) is)) ` set (route_tensors ts)" by force
    then show ?thesis unfolding set_gr by (simp add: run_contents_def)
  qed
  have "chunk_bundles sha cs g ts False ?dir (route_tensors ts) ?st0 [] = Inr (st, m_bundles ?m)"
    using b assms(2) by (simp add: Let_def)
  from chunk_bundles_inv [OF assms(3) inj this inC inv0]
  have "chunk_inv sha cs ?dir ?C st ({?h} \<union> ?c ` set (kinds_of ts))" unfolding set_gr .
  then have sto: "stored sha cs ?dir (cs_fs st) ?h" "\<And>k. k \<in> set (kinds_of ts) \<Longrightarrow> stored sha cs ?dir (cs_fs st) (?c k)"
    by (simp_all add: chunk_inv_def)
  have fs'': "stored sha cs ?dir (cs_fs st) c \<Longrightarrow> stored sha cs ?dir fs' c" for c
    using assms(2) by (simp add: stored_def fs' file_simps)
  note es = chunk_bundles_entries [OF assms(3) b]
  have "readable g ts" using readable_groups es by blast
  moreover have "m_bundles ?m = map (\<lambda>k. bundle_of sha cs g k (tensors_of_kind ts k)) (kinds_of ts)"
    using es by (simp add: map_split_comp [of "bundle_of sha cs g"] route_tensors_spec comp_def)
  moreover have "read_file fs' (join (output_dir opts) ''manifest.json'') = Some (co_manifest_bytes out)"
    using assms(2) by (simp add: fs' file_simps)
  ultimately show thesis using that [OF fits ts _ fs'' [OF sto(1)]] hdr fs'' [OF sto(2)] js by (simp add: Let_def)
qed

text \<open>
  C6. A directory that \<open>chunk_gguf\<close> has just written passes \<open>verify_chunks\<close>: every chunk is under
  its CID with the recorded size and hash, and every member slice hashes to the member's CID. The
  hash must not collide on the contents of this run, and the serialiser must round-trip.
\<close>

theorem verify_after_chunk:
  assumes "chunk_gguf sha cs to_json input opts fs = Inr (out, fs')"
    and "\<not> dry_run opts" "sha_sized sha" "json_roundtrip to_json from_json"
    and "cid_separates sha cs fs input"
    and "\<And>buf. read_file fs input = Some buf \<Longrightarrow> fits buf"
  shows "verify_chunks sha cs from_json (output_dir opts) fs' = Inr ()"
proof -
  obtain g ts h where fits: "fits (g_mmap g)" "tensors g = Inr ts" and rd: "readable g ts"
    and h: "stored sha cs (join (output_dir opts) ''chunks'') fs' h"
      "m_header_chunk (co_manifest out) = \<lparr>ch_cid = cid_string_for sha cs h, ch_size = word_of_nat (length h)\<rparr>"
    and k: "\<And>k. k \<in> set (kinds_of ts) \<Longrightarrow> stored sha cs (join (output_dir opts) ''chunks'') fs' (content_of g (tensors_of_kind ts k))"
    and m: "m_bundles (co_manifest out) = map (\<lambda>k. bundle_of sha cs g k (tensors_of_kind ts k)) (kinds_of ts)"
    and js: "to_json_bytes to_json (co_manifest out) = Some (co_manifest_bytes out)"
      "read_file fs' (join (output_dir opts) ''manifest.json'') = Some (co_manifest_bytes out)"
    by (rule chunk_gguf_stores [OF assms(1-3,5,6)]) blast+
  have "verify_bundle sha cs (join (output_dir opts) ''chunks'') fs' (bundle_of sha cs g k (tensors_of_kind ts k)) = Inr ()"
    if "k \<in> set (kinds_of ts)" for k
    using that k content_bound [OF fits rd] by (intro verify_bundle_ok) blast+
  then have "mapM (verify_bundle sha cs (join (output_dir opts) ''chunks'') fs') (m_bundles (co_manifest out))
      = Inr (map (\<lambda>_. ()) (m_bundles (co_manifest out)))"
    unfolding m by (intro mapM_map) auto
  moreover have "read_file fs' (chunk_file (join (output_dir opts) ''chunks'') (cid_string_for sha cs h)) = Some h"
    using h(1) by (simp add: stored_def)
  ultimately show ?thesis
    using h(2) js(2) json_bytes_roundtrip [OF assms(4) js(1)] by (simp add: verify_chunks_def read_chunk_def Let_def)
qed

section \<open>A run on the sample file\<close>

definition sample_bundle :: bundle_entry where
  "sample_bundle = bundle_of sample_sha sample_cs (sample_parsed sample_gguf) Head [sample_entry 8]"

definition sample_manifest :: manifest where
  "sample_manifest = make_manifest (sample_parsed sample_gguf)
     \<lparr>name_kv = None, arch_kv = None, block_count_kv = None\<rparr> [sample_entry 8]
     \<lparr>ch_cid = cid_string_for sample_sha sample_cs (subslice sample_gguf 0 96), ch_size = 96\<rparr> [sample_bundle]"

definition sample_to_json :: to_json where
  "sample_to_json m = (if m = sample_manifest then Some [0x7B, 0x7D] else None)"

definition sample_from_json :: from_json where
  "sample_from_json bs = (if bs = [0x7B, 0x7D, 0x0A] then Some sample_manifest else None)"

definition sample_fs :: fs where
  "sample_fs = [([''m.gguf''], sample_gguf)]"

definition sample_opts :: chunker_options where
  "sample_opts = chunker_options_new [''out'']"

lemma sample_json: "json_roundtrip sample_to_json sample_from_json"
  by (auto simp: json_roundtrip_def sample_to_json_def sample_from_json_def)

lemma sample_open: "gguf_open sample_fs [''m.gguf''] = Inr (sample_parsed sample_gguf)"
  by (simp add: gguf_open_def sample_fs_def read_file_def sample_gguf_props)

lemma sample_gguf_kv_entries: "kv_entries (sample_parsed sample_gguf) = Inr [sample_kv_entry]"
  unfolding sample_gguf_def by (rule sample_kv_entries) simp

lemma sample_bytes: "tensor_bytes (sample_parsed sample_gguf) (sample_entry 8) = Inr [1,2,3,4,5,6,7,8]"
  using sample_gguf_props(2,3)
  by (simp add: tensor_bytes_def sample_parsed_def sample_entry_def subslice_def)

lemma sample_route: "route_tensors [sample_entry 8] = [(BundleKey 2 0, [0])]"
  by (simp add: route_tensors_def tensor_key_def group_pairs_def sample_entry_def classify_tensor_def
      starts_with_def strip_prefix_def)

lemma sample_build:
  "build_bundle sample_sha sample_cs (sample_parsed sample_gguf) [sample_entry 8] Head [0]
    = Inr (sample_bundle, [1,2,3,4,5,6,7,8])"
  by (simp add: build_bundle_def sample_bytes sample_sha_sized sample_bundle_def bundle_of_def
      tensor_data_def content_of_def Let_def)

lemma sample_run:
  "\<exists>out fs'. chunk_gguf sample_sha sample_cs sample_to_json [''m.gguf''] sample_opts sample_fs = Inr (out, fs')"
proof -
  have 1: "scan_kv sample_gguf \<lparr>name_kv = None, arch_kv = None, block_count_kv = None\<rparr>
    sample_kv_entry = Inr \<lparr>name_kv = None, arch_kv = None, block_count_kv = None\<rparr>"
    using sample_gguf_props(2) by (simp add: scan_kv_def rust_slice_def ends_with_def sample_kv_entry_def)
  have 2: "rust_slice sample_gguf 0 96 = Inr (subslice sample_gguf 0 96)"
    using sample_gguf_props(2) by (simp add: rust_slice_def)
  have 3: "prepare_output_dir [''out''] False sample_fs = Inr ()"
    by (simp add: prepare_output_dir_def dir_nonempty_def sample_fs_def)
  have m: "g_mmap (sample_parsed sample_gguf) = sample_gguf" "tensor_data_offset (sample_parsed sample_gguf) = 96"
    by (simp_all add: sample_parsed_def)
  have l: "length (subslice sample_gguf 0 96) = 96" using sample_gguf_props(2) by simp
  show ?thesis
    by (simp add: chunk_gguf_def sample_open sample_gguf_kv_entries 1 2 3 m l sample_gguf_props(5) sample_route
        sample_build sample_opts_def chunker_options_new_def to_json_bytes_def sample_to_json_def
        sample_manifest_def Let_def del: length_subslice)
qed

lemma chunk_gguf_bundles_witness:
  "\<exists>out fs'. chunk_gguf sample_sha sample_cs sample_to_json [''m.gguf''] sample_opts sample_fs = Inr (out, fs') \<and>
    m_bundles (co_manifest out) = [sample_bundle] \<and> co_n_tensors out = 1"
proof -
  obtain out fs' where run: "chunk_gguf sample_sha sample_cs sample_to_json [''m.gguf''] sample_opts sample_fs
    = Inr (out, fs')" using sample_run by blast
  have "kinds_of [sample_entry 8] = [Head]" "tensors_of_kind [sample_entry 8] Head = [sample_entry 8]"
    by (simp_all add: kinds_of_def tensors_of_kind_def tensor_key_def sample_entry_def
        classify_tensor_def starts_with_def strip_prefix_def)
  then show ?thesis
    using chunk_gguf_bundles [OF run sample_sha_sized] run sample_open sample_gguf_props(5)
    by (auto simp: sample_bundle_def)
qed

lemma verify_after_chunk_witness:
  "\<exists>out fs'. chunk_gguf sample_sha sample_cs sample_to_json [''m.gguf''] sample_opts sample_fs = Inr (out, fs') \<and>
    verify_chunks sample_sha sample_cs sample_from_json [''out''] fs' = Inr ()"
proof -
  obtain out fs' where run: "chunk_gguf sample_sha sample_cs sample_to_json [''m.gguf''] sample_opts sample_fs
    = Inr (out, fs')" using sample_run by blast
  have "kinds_of [sample_entry 8] = [Head]" "tensors_of_kind [sample_entry 8] Head = [sample_entry 8]"
    by (simp_all add: kinds_of_def tensors_of_kind_def tensor_key_def sample_entry_def
        classify_tensor_def starts_with_def strip_prefix_def)
  then have "run_contents (sample_parsed sample_gguf) [sample_entry 8]
      = [subslice sample_gguf 0 96, [1,2,3,4,5,6,7,8]]"
    by (simp add: run_contents_def sample_parsed_def content_of_def tensor_data_def
        sample_bytes [unfolded sample_parsed_def])
  moreover have "length (subslice sample_gguf 0 96) = 96" using sample_gguf_props(2) by simp
  ultimately have "cid_separates sample_sha sample_cs sample_fs [''m.gguf'']"
    by (auto simp: cid_separates_def sample_open sample_gguf_props(5) cid_string_for_def sample_cs_def
        sample_sha_def bytes_str_def inj_on_def simp del: length_subslice)
  moreover have "read_file sample_fs [''m.gguf''] = Some buf \<Longrightarrow> fits buf" for buf
    using sample_gguf_props(1) by (simp add: sample_fs_def read_file_def)
  ultimately show ?thesis
    using verify_after_chunk [OF run _ sample_sha_sized sample_json] run
    by (simp add: sample_opts_def chunker_options_new_def) 
qed

end
