(* ===== verification/Stitch.thy ===== *)
theory Stitch
  imports Gguf Bundle
begin

text \<open>
  The subset stitcher, \<open>crates/model-store/src/stitch.rs\<close>: from a manifest and a chunk cache it
  writes a GGUF file with the tensors of a layer range, the block tensors renumbered from zero.
  The scratch file the header is parsed from exists only during the call; its path is the argument
  \<open>scratch\<close>.
\<close>

section \<open>Ranges, outcome, errors\<close>

record stitch_range =
  sr_start :: u32
  sr_end :: u32
  include_embed :: bool
  include_head :: bool

record stitch_outcome =
  so_path :: path
  so_size :: u64
  so_n_tensors :: u64
  so_n_kv :: u64

datatype stitch_error =
    EndBeforeStart u32 u32
  | EndBeyondModel u32 u32
  | EmbedNotAtStart u32
  | HeadNotAtEnd u32 u32
  | ReadChunkFailed path
  | ChunkHashMismatch path string string
  | HeaderSizeDiffers u64 nat
  | ParsingHeader gguf_error
  | NoArchitecture
  | MalformedBundleName string
  | UnknownBundleName string
  | OpeningBundle string path
  | BundleSizeDiffers string u64 nat
  | MemberOverrun string string nat nat nat
  | ZeroTensors
  | KvPass gguf_error
  | PositionDrift u64 u64 string

type_synonym 'a stitch_res = "stitch_error fault + 'a"

record kept_tensor =
  new_name :: string
  kt_dtype_code :: u32
  kt_shape :: "u64 list"
  kt_bytes :: bytes

section \<open>Helpers\<close>

definition rename_tensor :: "string \<Rightarrow> u32 \<Rightarrow> string" where
  "rename_tensor name layer_offset =
     (case strip_prefix name ''blk.'' of
        None \<Rightarrow> name
      | Some rest \<Rightarrow>
          let (n_str, tail) = (case split_once CHR ''.'' rest of Some p \<Rightarrow> p | None \<Rightarrow> (rest, []))
          in case parse_uint (2 ^ 32) n_str of
               None \<Rightarrow> name
             | Some n \<Rightarrow>
                 let local = dec_digits (n - unat layer_offset)
                 in if tail = [] then ''blk.'' @ local else ''blk.'' @ local @ ''.'' @ tail)"

definition validate_range :: "manifest \<Rightarrow> stitch_range \<Rightarrow> unit stitch_res" where
  "validate_range m r =
     (if sr_end r < sr_start r then Inl (Fail (EndBeforeStart (sr_end r) (sr_start r)))
      else if m_n_layers m < sr_end r then Inl (Fail (EndBeyondModel (sr_end r) (m_n_layers m)))
      else if include_embed r \<and> sr_start r \<noteq> 0 then Inl (Fail (EmbedNotAtStart (sr_start r)))
      else if include_head r \<and> sr_end r \<noteq> m_n_layers m
           then Inl (Fail (HeadNotAtEnd (m_n_layers m) (sr_end r)))
      else Inr ())"

definition chunks_dir_resolve :: "fs \<Rightarrow> path \<Rightarrow> string \<Rightarrow> path" where
  "chunks_dir_resolve fs cache cid =
     (let canonical = join (join cache ''chunks'') (cid @ ''.bin'')
      in if read_file fs canonical \<noteq> None then canonical else join cache (cid @ ''.bin''))"

definition stitch_read_chunk :: "sha \<Rightarrow> cid_str \<Rightarrow> fs \<Rightarrow> path \<Rightarrow> string \<Rightarrow> bytes stitch_res" where
  "stitch_read_chunk sha cs fs cache cid =
     (let p = chunks_dir_resolve fs cache cid
      in rbind (ok_or (Fail (ReadChunkFailed p)) (read_file fs p)) (\<lambda>b.
         let actual = cid_string_for sha cs b
         in if actual \<noteq> cid then Inl (Fail (ChunkHashMismatch p actual cid)) else Inr b))"

definition write_zeros :: "nat \<Rightarrow> bytes" where
  "write_zeros n = replicate n 0"

definition scratch_bytes :: "bytes \<Rightarrow> u64 \<Rightarrow> bytes" where
  "scratch_bytes header tdo =
     (let pad = sint (tdo - word_of_nat (length header))
      in header @ (if 0 < pad then write_zeros (nat pad) else []) @ write_zeros 1)"

definition write_string :: "string \<Rightarrow> bytes" where
  "write_string s = u64_le (word_of_nat (length s)) @ str_bytes s"

definition write_kv_u32 :: "string \<Rightarrow> u32 \<Rightarrow> bytes" where
  "write_kv_u32 key v = write_string key @ u32_le 4 @ u32_le v"

definition write_kv_bool :: "string \<Rightarrow> bool \<Rightarrow> bytes" where
  "write_kv_bool key v = write_string key @ u32_le 7 @ [if v then 1 else 0]"

section \<open>Selecting bundles\<close>

definition selects :: "stitch_range \<Rightarrow> string \<Rightarrow> bool stitch_res" where
  "selects r name =
     (if name = ''embed'' then Inr (include_embed r)
      else if name = ''head'' then Inr (include_head r)
      else case strip_prefix name ''blk.'' of
             Some n_str \<Rightarrow>
               rbind (ok_or (Fail (MalformedBundleName name)) (parse_uint (2 ^ 32) n_str)) (\<lambda>n.
                 Inr (unat (sr_start r) \<le> n \<and> n < unat (sr_end r)))
           | None \<Rightarrow> Inl (Fail (UnknownBundleName name)))"

fun open_bundles :: "fs \<Rightarrow> path \<Rightarrow> stitch_range \<Rightarrow> bundle_entry list \<Rightarrow> (string \<times> bytes) list stitch_res" where
  "open_bundles fs cache r [] = Inr []"
| "open_bundles fs cache r (b # bs) =
     rbind (selects r (be_name b)) (\<lambda>inc.
       if \<not> inc then open_bundles fs cache r bs
       else let p = chunks_dir_resolve fs cache (be_cid b)
            in rbind (ok_or (Fail (OpeningBundle (be_name b) p)) (read_file fs p)) (\<lambda>mmap.
               if word_of_nat (length mmap) \<noteq> be_size b
               then Inl (Fail (BundleSizeDiffers (be_name b) (be_size b) (length mmap)))
               else rbind (open_bundles fs cache r bs) (\<lambda>ms. Inr ((be_cid b, mmap) # ms))))"

definition keep_member :: "stitch_range \<Rightarrow> string \<Rightarrow> bytes \<Rightarrow> bundle_member \<Rightarrow> kept_tensor stitch_res" where
  "keep_member r bname mmap m =
     (let start = unat (offset_in_bundle m);
          e = unat (offset_in_bundle m + bm_size m)
      in if length mmap < e then Inl (Fail (MemberOverrun (bm_name m) bname start e (length mmap)))
         else rbind (rust_slice mmap start e) (\<lambda>bs.
           Inr \<lparr>new_name = rename_tensor (bm_name m) (sr_start r), kt_dtype_code = bm_dtype_code m,
                kt_shape = bm_shape m, kt_bytes = bs\<rparr>))"

fun keep_tensors :: "stitch_range \<Rightarrow> (string \<times> bytes) list \<Rightarrow> bundle_entry list \<Rightarrow> kept_tensor list stitch_res" where
  "keep_tensors r mmaps [] = Inr []"
| "keep_tensors r mmaps (b # bs) =
     (case selects r (be_name b) of
        Inr True \<Rightarrow>
          rbind (ok_or Panic (map_of mmaps (be_cid b))) (\<lambda>mmap.
          rbind (mapM (keep_member r (be_name b) mmap) (be_members b)) (\<lambda>ks.
          rbind (keep_tensors r mmaps bs) (\<lambda>rest. Inr (ks @ rest))))
      | _ \<Rightarrow> keep_tensors r mmaps bs)"

section \<open>The new header\<close>

definition rewrite_kv :: "string \<Rightarrow> stitch_range \<Rightarrow> bytes \<Rightarrow> kv_entry \<Rightarrow> bytes stitch_res" where
  "rewrite_kv block_count_key r header kv =
     rbind (rust_slice header (fst (entry_range kv)) (snd (entry_range kv))) (\<lambda>entry_bytes.
       Inr (if kv_key kv = block_count_key \<and> kv_ty kv = KU32
            then write_kv_u32 (kv_key kv) (sr_end r - sr_start r) else entry_bytes))"

definition rewrite_kv_block :: "string \<Rightarrow> stitch_range \<Rightarrow> bytes \<Rightarrow> kv_entry list \<Rightarrow> (bytes \<times> u64) stitch_res" where
  "rewrite_kv_block block_count_key r header kvs =
     rbind (mapM (rewrite_kv block_count_key r header) kvs) (\<lambda>es.
       Inr (concat es @ write_kv_bool ''intelnav.has_embed'' (include_embed r)
              @ write_kv_bool ''intelnav.has_head'' (include_head r),
            word_of_nat (length kvs) + 2))"

definition index_entry :: "kept_tensor \<Rightarrow> u64 \<Rightarrow> bytes" where
  "index_entry t off =
     write_string (new_name t) @ u32_le (word_of_nat (length (kt_shape t)))
       @ concat (map u64_le (kt_shape t)) @ u32_le (kt_dtype_code t) @ u64_le off"

fun build_index :: "u64 \<Rightarrow> u64 \<Rightarrow> kept_tensor list \<Rightarrow> bytes \<times> u64 list" where
  "build_index al cursor [] = ([], [])"
| "build_index al cursor (t # ts) =
     (let (ib, offs) = build_index al (align_up (cursor + word_of_nat (length (kt_bytes t))) al) ts
      in (index_entry t cursor @ ib, cursor # offs))"

definition assemble_header :: "manifest \<Rightarrow> kept_tensor list \<Rightarrow> bytes \<Rightarrow> u64 \<Rightarrow> bytes \<Rightarrow> bytes" where
  "assemble_header m kept new_kv new_n_kv index_bytes =
     GGUF_MAGIC @ u32_le (gi_version (m_gguf m)) @ u64_le (word_of_nat (length kept))
       @ u64_le new_n_kv @ new_kv @ index_bytes"

section \<open>The file\<close>

text \<open>The file position is the length of what has been written.\<close>

fun write_tensors :: "u64 \<Rightarrow> u64 \<Rightarrow> (kept_tensor \<times> u64) list \<Rightarrow> bytes \<Rightarrow> bytes stitch_res" where
  "write_tensors tdo al [] out = Inr out"
| "write_tensors tdo al ((t, off) # r) out =
     (let expected = tdo + off; actual = word_of_nat (length out)
      in if expected \<noteq> actual then Inl (Fail (PositionDrift expected actual (new_name t)))
         else let out' = out @ kt_bytes t;
                  after = word_of_nat (length out') :: u64
              in write_tensors tdo al r (out' @ write_zeros (unat (align_up after al - after))))"

definition stitch_file :: "manifest \<Rightarrow> stitch_range \<Rightarrow> kept_tensor list \<Rightarrow> bytes \<Rightarrow> u64 \<Rightarrow> bytes stitch_res" where
  "stitch_file m r kept new_kv new_n_kv =
     (let al = max (gi_alignment (m_gguf m)) 1;
          (index_bytes, offs) = build_index al 0 kept;
          header = assemble_header m kept new_kv new_n_kv index_bytes;
          tdo = align_up (word_of_nat (length header)) al;
          padding = tdo - word_of_nat (length header)
      in write_tensors tdo al (zip kept offs) (header @ write_zeros (unat padding)))"

definition stitch_subset :: "sha \<Rightarrow> cid_str \<Rightarrow> path \<Rightarrow> manifest \<Rightarrow> path \<Rightarrow> stitch_range \<Rightarrow> path \<Rightarrow> fs \<Rightarrow>
    (stitch_outcome \<times> fs) stitch_res" where
  "stitch_subset sha cs scratch m cache r out_path fs =
     rbind (validate_range m r) (\<lambda>_.
     rbind (stitch_read_chunk sha cs fs cache (ch_cid (m_header_chunk m))) (\<lambda>header_bytes.
     if word_of_nat (length header_bytes) \<noteq> ch_size (m_header_chunk m)
     then Inl (Fail (HeaderSizeDiffers (ch_size (m_header_chunk m)) (length header_bytes))) else
     rbind (map_err (map_fault ParsingHeader)
              (gguf_parse scratch (scratch_bytes header_bytes (gi_tensor_data_offset (m_gguf m))))) (\<lambda>original.
     rbind (ok_or (Fail NoArchitecture) (m_architecture m)) (\<lambda>arch.
     rbind (open_bundles fs cache r (m_bundles m)) (\<lambda>mmaps.
     rbind (keep_tensors r mmaps (m_bundles m)) (\<lambda>kept.
     if kept = [] then Inl (Fail ZeroTensors) else
     rbind (map_err (map_fault KvPass) (kv_entries original)) (\<lambda>kvs.
     rbind (rewrite_kv_block (arch @ ''.block_count'') r header_bytes kvs) (\<lambda>(new_kv, new_n_kv).
     rbind (stitch_file m r kept new_kv new_n_kv) (\<lambda>out.
       let tmp = with_extension out_path ''gguf.tmp''
       in Inr (\<lparr>so_path = out_path, so_size = word_of_nat (length out),
                so_n_tensors = word_of_nat (length kept), so_n_kv = new_n_kv\<rparr>,
               rename_file tmp out_path (write_file tmp out fs)))))))))))"

section \<open>Writers and readers\<close>

interpretation c_u32: codec read_u32 u32_le "\<lambda>_. True"
  by unfold_locales (simp_all add: read_u32_def read_bytes_def fits_def subslice_def)

interpretation c_u64: codec read_u64 u64_le "\<lambda>_. True"
  by unfold_locales (simp_all add: read_u64_def read_bytes_def fits_def subslice_def)

lemma read_string_write:
  assumes "utf8_valid (str_bytes s)" "fits (write_string s)"
  shows "read_string (write_string s) 0 = Inr (s, length (write_string s))"
proof -
  have "length s < 2 ^ 64" using assms(2) by (simp add: fits_def write_string_def)
  then have n: "unat (word_of_nat (length s) :: u64) = length s" by (rule unat_of_nat_u64)
  have "read_u64 (write_string s) 0 = Inr (word_of_nat (length s), 8)"
    using c_u64.read_enc_at [where x = "word_of_nat (length s)" and pre = "[]" and post = "str_bytes s"] assms(2)
    by (simp add: write_string_def)
  moreover have "subslice (write_string s) 8 (8 + length s) = str_bytes s"
    by (simp add: write_string_def subslice_def)
  moreover have "length (write_string s) = 8 + length s" by (simp add: write_string_def)
  ultimately show ?thesis using assms n by (simp add: read_string_Inr)
qed

interpretation c_string: codec read_string write_string "\<lambda>s. utf8_valid (str_bytes s)"
  by unfold_locales (simp add: read_string_write)

definition enc_tensor :: "tensor_entry \<Rightarrow> bytes" where
  "enc_tensor e =
     write_string (t_name e) @ u32_le (word_of_nat (length (t_shape e)))
       @ concat (map u64_le (t_shape e)) @ u32_le (t_dtype e) @ u64_le (data_offset_rel e)"

definition valid_tensor :: "tensor_entry \<Rightarrow> bool" where
  "valid_tensor e \<longleftrightarrow> utf8_valid (str_bytes (t_name e)) \<and> length (t_shape e) \<le> 8 \<and> n_bytes e = 0"

lemma read_tensor_entry_local: "local_rd read_tensor_entry"
proof -
  have str: "local_rd read_str_borrowed"
    by (rule local_rd_agree [OF rd_string.local_read]) (simp add: read_str_borrowed_eq)
  have "local_rd (\<lambda>buf pos. rbind (read_str_borrowed buf pos) (\<lambda>(name, p).
     (\<lambda>buf p. rbind (read_u32 buf p) (\<lambda>(n_dims, q).
       (\<lambda>buf q. if GGUF_MAX_DIMS < n_dims
         then (\<lambda>buf q. Inl (Fail (Malformed q (NamedDimsOverCap name n_dims)))) buf q
         else (\<lambda>buf q. rbind (read_many read_u64 (unat n_dims) buf q) (\<lambda>(sh, r).
            (\<lambda>buf r. rbind (read_u32 buf r) (\<lambda>(dt, s).
            (\<lambda>buf s. rbind (read_u64 buf s) (\<lambda>(off, t). (\<lambda>buf t. Inr (\<lparr>t_name = name, t_shape = sh,
              t_dtype = dt, data_offset_rel = off, n_bytes = 0\<rparr>, t)) buf t)) buf s)) buf r)) buf q) buf q)) buf p))"
    by (intro local_rd_bind local_rd_if str rd_u32.local_read rd_u64.local_read
        rd_u64.read_many_local local_rd_return local_rd_fail)
  then show ?thesis by (simp only: read_tensor_entry_def [abs_def])
qed

lemma read_enc_tensor:
  assumes v: "valid_tensor e" and f: "fits (enc_tensor e)"
  shows "read_tensor_entry (enc_tensor e) 0 = Inr (e, length (enc_tensor e))"
proof -
  define a where "a = write_string (t_name e)"
  define b where "b = u32_le (word_of_nat (length (t_shape e)))"
  define c where "c = concat (map u64_le (t_shape e))"
  define d where "d = u32_le (t_dtype e)"
  define o' where "o' = u64_le (data_offset_rel e)"
  have enc: "enc_tensor e = a @ b @ c @ d @ o'"
    by (simp add: enc_tensor_def a_def b_def c_def d_def o'_def)
  note f' = f [unfolded enc]
  have nd: "unat (word_of_nat (length (t_shape e)) :: u32) = length (t_shape e)"
    using v by (intro unat_of_nat_u32) (simp add: valid_tensor_def)
  have 1: "read_str_borrowed (enc_tensor e) 0 = Inr (t_name e, length a)"
    using c_string.read_enc_at [where x = "t_name e" and pre = "[]" and post = "b @ c @ d @ o'"] v f f' read_str_borrowed_eq [OF f, of 0]
    by (simp add: enc a_def valid_tensor_def)
  have 2: "read_u32 (enc_tensor e) (length a) = Inr (word_of_nat (length (t_shape e)), length a + length b)"
    using c_u32.read_enc_at [where x = "word_of_nat (length (t_shape e))" and pre = a and post = "c @ d @ o'"] f' by (simp add: enc b_def)
  have 3: "read_many read_u64 (length (t_shape e)) (enc_tensor e) (length a + length b)
      = Inr (t_shape e, length a + length b + length c)"
    using c_u64.read_many_enc_at [where xs = "t_shape e" and pre = "a @ b" and post = "d @ o'"] f'
    by (simp add: enc c_def list_all_iff)
  have 4: "read_u32 (enc_tensor e) (length a + length b + length c)
      = Inr (t_dtype e, length a + length b + length c + length d)"
    using c_u32.read_enc_at [where x = "t_dtype e" and pre = "a @ b @ c" and post = "o'"] f' by (simp add: enc d_def add.assoc)
  have 5: "read_u64 (enc_tensor e) (length a + length b + length c + length d)
      = Inr (data_offset_rel e, length (enc_tensor e))"
    using c_u64.read_enc_at [where x = "data_offset_rel e" and pre = "a @ b @ c @ d" and post = "[]"] f' by (simp add: enc o'_def add.assoc)
  have nm: "\<not> GGUF_MAX_DIMS < word_of_nat (length (t_shape e))"
    using v nd by (simp add: GGUF_MAX_DIMS_def valid_tensor_def word_less_nat_alt)
  show ?thesis using 1 2 3 4 5 nm nd v
    by (simp add: read_tensor_entry_def valid_tensor_def)
qed

interpretation c_tensor: codec read_tensor_entry enc_tensor valid_tensor
  by unfold_locales (simp_all add: read_tensor_entry_local read_enc_tensor)

lemma open_of_read_tensor:
  assumes "fits buf" "pos \<le> length buf" "read_tensor_entry buf pos = Inr (e, q)"
  shows "open_tensor buf pos = Inr ((), q)"
  using assms
  by (auto simp: read_tensor_entry_def read_str_borrowed_eq open_tensor_def rbind_eq_Inr split: if_splits)

lemma open_of_read_tensors:
  "fits buf \<Longrightarrow> pos \<le> length buf \<Longrightarrow> read_many read_tensor_entry n buf pos = Inr (es, q) \<Longrightarrow>
    read_many open_tensor n buf pos = Inr (replicate n (), q)"
proof (induction n arbitrary: pos es)
  case 0
  then show ?case by simp
next
  case (Suc n)
  from Suc.prems obtain e p es' where e: "read_tensor_entry buf pos = Inr (e, p)"
    and rest: "read_many read_tensor_entry n buf p = Inr (es', q)"
    by (auto simp: rbind_eq_Inr)
  have "p \<le> length buf" using c_tensor.read_in_bounds [OF Suc.prems(1,2) e] by simp
  from Suc.IH [OF Suc.prems(1) this rest] open_of_read_tensor [OF Suc.prems(1,2) e]
  show ?case by simp
qed

section \<open>The rewritten KV block\<close>

lemma open_kv_write_u32:
  assumes "utf8_valid (str_bytes key)" "key \<noteq> ''general.alignment''" "fits (write_kv_u32 key v)"
  shows "open_kv (write_kv_u32 key v) 0 = Inr (None, length (write_kv_u32 key v))"
proof -
  let ?b = "write_kv_u32 key v" and ?n = "length (write_string key)"
  have 1: "read_string ?b 0 = Inr (key, ?n)"
    using c_string.read_enc_at [where x = key and pre = "[]" and post = "u32_le 4 @ u32_le v"] assms by (simp add: write_kv_u32_def)
  have "read_u32 ?b ?n = Inr (4, ?n + 4)"
    using c_u32.read_enc_at [where x = 4 and pre = "write_string key" and post = "u32_le v"] assms by (simp add: write_kv_u32_def)
  then have 2: "read_kv_type ?b ?n = Inr (KU32, ?n + 4)"
    by (simp add: read_kv_type_def kv_type_from_u32_def)
  have "length ?b = ?n + 4 + 4" by (simp add: write_kv_u32_def)
  then have "skip_kv_value KU32 ?b (?n + 4) = Inr ((), length ?b)"
    using skip_u32_Inr [OF assms(3), of "?n + 4" "()" "length ?b"] by simp
  then show ?thesis using 1 2 assms(2) by (simp add: open_kv_def)
qed

lemma open_kv_write_bool:
  assumes "utf8_valid (str_bytes key)" "key \<noteq> ''general.alignment''" "fits (write_kv_bool key v)"
  shows "open_kv (write_kv_bool key v) 0 = Inr (None, length (write_kv_bool key v))"
proof -
  let ?b = "write_kv_bool key v" and ?n = "length (write_string key)"
  have 1: "read_string ?b 0 = Inr (key, ?n)"
    using c_string.read_enc_at [where x = key and pre = "[]" and post = "u32_le 7 @ [if v then 1 else 0]"] assms
    by (simp add: write_kv_bool_def)
  have "read_u32 ?b ?n = Inr (7, ?n + 4)"
    using c_u32.read_enc_at [where x = 7 and pre = "write_string key" and post = "[if v then 1 else 0]"] assms
    by (simp add: write_kv_bool_def)
  then have 2: "read_kv_type ?b ?n = Inr (KBool, ?n + 4)"
    by (simp add: read_kv_type_def kv_type_from_u32_def)
  have "length ?b = ?n + 4 + 1" by (simp add: write_kv_bool_def)
  then have "skip_kv_value KBool ?b (?n + 4) = Inr ((), length ?b)"
    using assms(3) by (simp add: skip_kv_value_def rbind_eq_Inr read_bytes_Inr)
  then show ?thesis using 1 2 by (simp add: open_kv_def)
qed

section \<open>The data layout\<close>

definition next_mult :: "nat \<Rightarrow> nat \<Rightarrow> nat" where
  "next_mult al n = (if al = 0 \<or> n mod al = 0 then n else n + (al - n mod al))"

definition data_len :: "nat \<Rightarrow> kept_tensor \<Rightarrow> nat" where
  "data_len al t = next_mult al (length (kt_bytes t))"

definition padded :: "nat \<Rightarrow> kept_tensor \<Rightarrow> bytes" where
  "padded al t = kt_bytes t @ replicate (data_len al t - length (kt_bytes t)) 0"

definition total_len :: "nat \<Rightarrow> kept_tensor list \<Rightarrow> nat" where
  "total_len al ts = sum_list (map (data_len al) ts)"

fun offsets :: "nat \<Rightarrow> nat \<Rightarrow> kept_tensor list \<Rightarrow> nat list" where
  "offsets al c [] = []"
| "offsets al c (t # ts) = c # offsets al (c + data_len al t) ts"

lemma align_up_next_mult:
  "unat off < 2 ^ 63 \<Longrightarrow> unat al < 2 ^ 32 \<Longrightarrow> unat (align_up off al) = next_mult (unat al) (unat off)"
  by (simp add: align_up_nat next_mult_def)

lemma next_mult_ge: "n \<le> next_mult al n"
  unfolding next_mult_def by (simp only: le_add1 order_refl split: if_split) simp

lemma next_mult_lt: "next_mult al n < n + max 1 al"
proof -
  have "al \<noteq> 0 \<Longrightarrow> n mod al < al" by simp
  then show ?thesis by (auto simp: next_mult_def max_def)
qed

lemma next_mult_dvd: "al \<noteq> 0 \<Longrightarrow> al dvd next_mult al n"
proof (cases "n mod al = 0")
  case False
  assume al: "al \<noteq> 0"
  then have "n mod al < al" by simp
  moreover have "n = al * (n div al) + n mod al" by simp
  ultimately have "n + (al - n mod al) = al * (n div al) + al" by linarith
  then show ?thesis using False al by (simp add: next_mult_def)
qed (auto simp: next_mult_def)

lemma next_mult_shift: "al dvd c \<Longrightarrow> next_mult al (c + n) = c + next_mult al n"
proof (cases "al = 0")
  case False
  assume "al dvd c"
  then have "(c + n) mod al = n mod al" by (simp add: mod_add_left_eq [symmetric] mod_0_imp_dvd)
  then show ?thesis unfolding next_mult_def by (simp only: add.assoc split: if_split) simp
qed (simp add: next_mult_def)

lemma length_padded: "length (padded al t) = data_len al t"
  using next_mult_ge [of "length (kt_bytes t)" al] by (simp add: padded_def data_len_def)

lemma length_concat_padded: "length (concat (map (padded al) ts)) = total_len al ts"
  by (simp add: length_concat comp_def length_padded total_len_def)

definition entry_at :: "kept_tensor \<Rightarrow> nat \<Rightarrow> tensor_entry" where
  "entry_at t off = \<lparr>t_name = new_name t, t_shape = kt_shape t, t_dtype = kt_dtype_code t,
     data_offset_rel = word_of_nat off, n_bytes = 0\<rparr>"

definition entries_at :: "nat \<Rightarrow> kept_tensor list \<Rightarrow> tensor_entry list" where
  "entries_at al ts = map2 entry_at ts (offsets al 0 ts)"

lemma length_offsets [simp]: "length (offsets al c ts) = length ts"
  by (induction ts arbitrary: c) auto

lemma index_entry_enc: "index_entry t (word_of_nat off) = enc_tensor (entry_at t off)"
  by (simp add: index_entry_def enc_tensor_def entry_at_def)

text \<open>With an alignment below \<open>2^32\<close> and a total that fits, cursor arithmetic does not wrap.\<close>

lemma cursor_step:
  assumes "unat alw < 2 ^ 32" "unat alw dvd c" "c + data_len (unat alw) t < 2 ^ 63"
  shows "align_up (word_of_nat c + word_of_nat (length (kt_bytes t))) alw
    = (word_of_nat (c + data_len (unat alw) t) :: u64)"
proof -
  let ?n = "length (kt_bytes t)"
  have lt: "c + ?n < 2 ^ 63"
    using assms(3) next_mult_ge [of ?n "unat alw"] by (simp add: data_len_def)
  then have n: "unat (word_of_nat (c + ?n) :: u64) = c + ?n" by (intro unat_of_nat_u64) simp
  have "unat (align_up (word_of_nat (c + ?n)) alw) = next_mult (unat alw) (c + ?n)"
    using align_up_next_mult [of "word_of_nat (c + ?n)" alw] n lt assms(1) by simp
  also have "\<dots> = c + data_len (unat alw) t" by (simp add: next_mult_shift [OF assms(2)] data_len_def)
  finally have "unat (align_up (word_of_nat (c + ?n)) alw) = unat (word_of_nat (c + data_len (unat alw) t) :: u64)"
    using unat_of_nat_u64 [of "c + data_len (unat alw) t"] assms(3) by simp
  then show ?thesis by (simp add: unsigned_word_eqI)
qed

lemma data_len_dvd: "al \<noteq> 0 \<Longrightarrow> al dvd c \<Longrightarrow> al dvd c + data_len al t"
  by (simp add: data_len_def next_mult_dvd)

lemma build_index_spec:
  assumes "unat alw < 2 ^ 32" "alw \<noteq> 0"
  shows "unat alw dvd c \<Longrightarrow> c + total_len (unat alw) ts < 2 ^ 63 \<Longrightarrow>
    build_index alw (word_of_nat c) ts =
      (concat (map enc_tensor (map2 entry_at ts (offsets (unat alw) c ts))),
       map word_of_nat (offsets (unat alw) c ts))"
proof (induction ts arbitrary: c)
  case Nil
  then show ?case by simp
next
  case (Cons t ts)
  have al: "unat alw \<noteq> 0" using assms(2) by (simp add: unat_eq_0)
  have b: "c + data_len (unat alw) t + total_len (unat alw) ts < 2 ^ 63"
    using Cons.prems(2) by (simp add: total_len_def)
  then have "c + data_len (unat alw) t < 2 ^ 63" by simp
  from cursor_step [OF assms(1) Cons.prems(1) this]
    Cons.IH [OF data_len_dvd [OF al Cons.prems(1)] b]
  show ?case by (simp add: index_entry_enc)
qed

lemma write_tensors_spec:
  assumes "unat alw < 2 ^ 32" "alw \<noteq> 0" "unat alw dvd tdo"
  shows "unat alw dvd c \<Longrightarrow> length out = tdo + c \<Longrightarrow> tdo + c + total_len (unat alw) ts < 2 ^ 63 \<Longrightarrow>
    write_tensors (word_of_nat tdo) alw (zip ts (map word_of_nat (offsets (unat alw) c ts))) out
      = Inr (out @ concat (map (padded (unat alw)) ts))"
proof (induction ts arbitrary: c out)
  case Nil
  then show ?case by simp
next
  case (Cons t ts)
  let ?al = "unat alw" and ?n = "length (kt_bytes t)"
  have al: "?al \<noteq> 0" using assms(2) by (simp add: unat_eq_0)
  have b: "tdo + (c + data_len ?al t) + total_len ?al ts < 2 ^ 63"
    using Cons.prems(3) by (simp add: total_len_def)
  then have b1: "tdo + c + data_len ?al t < 2 ^ 63" by simp
  have dv: "?al dvd tdo + c" using assms(3) Cons.prems(1) by simp
  have ge: "?n \<le> data_len ?al t" by (simp add: data_len_def next_mult_ge)
  have step: "align_up (word_of_nat (tdo + c) + word_of_nat ?n) alw
      = (word_of_nat (tdo + c + data_len ?al t) :: u64)"
    by (rule cursor_step [OF assms(1) dv b1])
  have "word_of_nat (tdo + c + data_len ?al t) - (word_of_nat (tdo + c) + word_of_nat ?n)
      = (word_of_nat (data_len ?al t - ?n) :: u64)"
    using ge by (simp add: of_nat_diff)
  moreover have "unat (word_of_nat (data_len ?al t - ?n) :: u64) = data_len ?al t - ?n"
    using b1 by (intro unat_of_nat_u64) simp
  ultimately have pad: "unat (align_up (word_of_nat (tdo + c) + word_of_nat ?n) alw
      - (word_of_nat (tdo + c) + word_of_nat ?n)) = data_len ?al t - ?n"
    unfolding step by simp
  have "length (out @ padded ?al t) = tdo + (c + data_len ?al t)"
    using Cons.prems(2) by (simp add: length_padded)
  from Cons.IH [OF data_len_dvd [OF al Cons.prems(1)] this b] Cons.prems(2) pad
  show ?case by (simp add: Let_def write_zeros_def padded_def add.assoc)
qed

text \<open>The stitched file, in closed form: the drift check never fires.\<close>

definition stitched :: "manifest \<Rightarrow> nat \<Rightarrow> kept_tensor list \<Rightarrow> bytes \<Rightarrow> u64 \<Rightarrow> bytes" where
  "stitched m al kept new_kv n_kv =
     (let h = assemble_header m kept new_kv n_kv (concat (map enc_tensor (entries_at al kept)))
      in h @ replicate (next_mult al (length h) - length h) 0 @ concat (map (padded al) kept))"

lemma stitch_file_spec:
  fixes m :: manifest
  defines "alw \<equiv> max (gi_alignment (m_gguf m)) 1"
  assumes al: "unat alw < 2 ^ 32"
    and fit: "length (stitched m (unat alw) kept new_kv n_kv) < 2 ^ 63"
  shows "stitch_file m r kept new_kv n_kv = Inr (stitched m (unat alw) kept new_kv n_kv)"
proof -
  let ?al = "unat alw"
  define h where "h = assemble_header m kept new_kv n_kv (concat (map enc_tensor (entries_at ?al kept)))"
  define T where "T = next_mult ?al (length h)"
  have ne: "alw \<noteq> 0" by (auto simp: alw_def max_def)
  then have aln: "?al \<noteq> 0" by (simp add: unat_eq_0)
  have le: "length h \<le> T" by (simp add: T_def next_mult_ge)
  have len: "T + total_len ?al kept < 2 ^ 63"
    using fit le by (simp add: stitched_def Let_def length_concat_padded flip: h_def T_def)
  have uh: "unat (word_of_nat (length h) :: u64) = length h" using le len by (intro unat_of_nat_u64) simp
  have "build_index alw (word_of_nat 0) kept
      = (concat (map enc_tensor (entries_at ?al kept)), map word_of_nat (offsets ?al 0 kept))"
    unfolding entries_at_def by (rule build_index_spec [OF al ne]) (use len in simp_all)
  then have bi: "build_index alw 0 kept
      = (concat (map enc_tensor (entries_at ?al kept)), map word_of_nat (offsets ?al 0 kept))" by simp
  have uT: "unat (align_up (word_of_nat (length h)) alw) = T"
    using align_up_next_mult [of "word_of_nat (length h)" alw] uh le len al by (simp add: T_def)
  have "align_up (word_of_nat (length h)) alw = word_of_nat (unat (align_up (word_of_nat (length h)) alw))"
    by simp
  then have tdo: "align_up (word_of_nat (length h)) alw = word_of_nat T" unfolding uT .
  have pad: "unat (word_of_nat T - word_of_nat (length h) :: u64) = T - length h"
    unfolding of_nat_diff [OF le, symmetric] by (rule unat_of_nat_u64) (use len in simp)
  have "write_tensors (word_of_nat T) alw (zip kept (map word_of_nat (offsets ?al 0 kept)))
      (h @ replicate (T - length h) 0) = Inr ((h @ replicate (T - length h) 0) @ concat (map (padded ?al) kept))"
    by (rule write_tensors_spec [OF al ne]) (use le len next_mult_dvd [OF aln] in \<open>simp_all add: T_def\<close>)
  then show ?thesis using bi tdo pad
    by (simp add: stitch_file_def stitched_def write_zeros_def flip: alw_def h_def T_def)
qed

section \<open>The KV records of the output\<close>

lemma kv_entry_u32_length:
  assumes "fits buf" "pos \<le> length buf" "read_kv_entry buf pos = Inr (e, q)"
  shows "utf8_valid (str_bytes (kv_key e))" "entry_range e = (pos, q)"
    "kv_ty e = KU32 \<Longrightarrow> q = pos + 16 + length (kv_key e)"
proof -
  from assms obtain p vs where
    key: "read_string buf pos = Inr (kv_key e, p)" and ty: "read_kv_type buf p = Inr (kv_ty e, vs)"
    and sk: "skip_kv_value (kv_ty e) buf vs = Inr ((), q)" and er: "entry_range e = (pos, q)"
    by (auto simp: read_kv_entry_def read_str_borrowed_eq rbind_eq_Inr)
  have k: "p \<le> length buf" "utf8_valid (str_bytes (kv_key e))" "p = pos + 8 + length (kv_key e)"
    using key assms(1,2)
    by (auto simp: read_string_Inr read_u64_def rbind_eq_Inr read_bytes_Inr)
  have vs: "vs = p + 4" "vs \<le> length buf"
    using ty assms(1) k(1) by (auto simp: read_kv_type_def rbind_eq_Inr read_u32_Inr)
  show "utf8_valid (str_bytes (kv_key e))" "entry_range e = (pos, q)" using k er by auto
  show "kv_ty e = KU32 \<Longrightarrow> q = pos + 16 + length (kv_key e)"
    using sk skip_u32_Inr [OF assms(1) vs(2), of "()" q] vs k by simp
qed

lemma kv_records:
  assumes "fits buf"
  shows "pos \<le> length buf \<Longrightarrow> read_many open_kv n buf pos = Inr (vs, q) \<Longrightarrow>
    read_many read_kv_entry n buf pos = Inr (es, q) \<Longrightarrow>
    list_all2 (\<lambda>e v. \<exists>p q. p \<le> length buf \<and> open_kv buf p = Inr (v, q) \<and> read_kv_entry buf p = Inr (e, q)) es vs"
proof (induction n arbitrary: pos vs es)
  case 0
  then show ?case by simp
next
  case (Suc n)
  from Suc.prems obtain v p vs' where v: "open_kv buf pos = Inr (v, p)"
    "read_many open_kv n buf p = Inr (vs', q)" "vs = v # vs'" by (auto simp: rbind_eq_Inr)
  from read_kv_entry_of_open_kv [OF assms Suc.prems(1) v(1)] obtain e where
    e: "read_kv_entry buf pos = Inr (e, p)" by blast
  with Suc.prems obtain es' where es: "read_many read_kv_entry n buf p = Inr (es', q)" "es = e # es'"
    by (auto simp: rbind_eq_Inr)
  have "p \<le> length buf" using rd_kv.read_in_bounds [OF assms Suc.prems(1) v(1)] by simp
  from Suc.IH [OF this v(2) es(1)] show ?case using v e es Suc.prems(1) by auto
qed

lemma rewrite_kv_record:
  assumes "fits buf" "p \<le> length buf" "open_kv buf p = Inr (v, q)" "read_kv_entry buf p = Inr (e, q)"
    and "buf = header @ rest" "rewrite_kv (arch @ ''.block_count'') r header e = Inr rec"
  shows "open_kv rec 0 = Inr (v, length rec)" "length rec = q - p"
proof -
  note e = kv_entry_u32_length [OF assms(1,2,4)]
  have pq: "p \<le> q" "q \<le> length header" "q \<le> length buf"
    and rec: "rec = (if kv_key e = arch @ ''.block_count'' \<and> kv_ty e = KU32
      then write_kv_u32 (kv_key e) (sr_end r - sr_start r) else subslice header p q)"
    using assms(5,6) e(2) by (auto simp: rewrite_kv_def results)
  have sub: "subslice header p q = subslice buf p q" using pq by (simp add: assms(5) subslice_def)
  have fr: "fits (subslice buf p q)" using assms(1) pq by (simp add: fits_def)
  have "open_kv rec 0 = Inr (v, length rec) \<and> length rec = q - p"
  proof (cases "kv_key e = arch @ ''.block_count'' \<and> kv_ty e = KU32")
    case True
    then have nga: "kv_key e \<noteq> ''general.alignment''" by (auto dest: arg_cong [where f = last])
    have "v = None"
      using read_kv_entry_of_open_kv [OF assms(1,2,3)] assms(4) nga by auto
    moreover have len: "length rec = q - p"
      using True e(3) by (simp add: rec write_kv_u32_def write_string_def)
    moreover have "fits rec" using len pq assms(1) by (simp add: fits_def)
    ultimately show ?thesis
      using open_kv_write_u32 [OF e(1) nga] True by (simp add: rec)
  next
    case False
    then have "rec = subslice buf p q" using rec sub by argo
    then show ?thesis using rd_kv.record_of_read [OF assms(1,2,3)] pq by simp
  qed
  then show "open_kv rec 0 = Inr (v, length rec)" "length rec = q - p" by auto
qed

section \<open>Parsing the output\<close>

definition kept_ok :: "kept_tensor \<Rightarrow> bool" where
  "kept_ok t \<longleftrightarrow> utf8_valid (str_bytes (new_name t)) \<and> length (kt_shape t) \<le> 8"

definition align_of :: "u64 option list \<Rightarrow> u64" where
  "align_of vs = foldl (\<lambda>a v. case v of None \<Rightarrow> a | Some b \<Rightarrow> b) GGUF_DEFAULT_ALIGNMENT vs"

lemma entries_valid: "list_all kept_ok ts \<Longrightarrow> list_all valid_tensor (map2 entry_at ts offs)"
  by (induction ts arbitrary: offs)
    (auto simp: valid_tensor_def kept_ok_def entry_at_def zip_Cons1 split: list.splits)

lemma length_entries_at [simp]: "length (entries_at al ts) = length ts"
  by (simp add: entries_at_def)

lemma gguf_parse_concat:
  assumes out: "out = GGUF_MAGIC @ u32_le 3 @ u64_le nt @ u64_le nk @ kv @ idx @ rest" and fits: "fits out"
    and caps: "nt \<le> GGUF_MAX_TENSORS" "nk \<le> GGUF_MAX_KV"
    and kv: "read_many open_kv (unat nk) out 24 = Inr (vs, 24 + length kv)"
    and ts: "read_many open_tensor (unat nt) out (24 + length kv) = Inr (us, 24 + length kv + length idx)"
  shows "gguf_parse path out = Inr \<lparr>g_path = path, g_mmap = out, g_version = 3, g_alignment = align_of vs,
    tensor_data_offset = align_up (word_of_nat (24 + length kv + length idx)) (align_of vs),
    g_n_kv = nk, g_n_tensors = nt, kv_end_offset = 24 + length kv,
    index_end_offset = 24 + length kv + length idx\<rparr>"
proof -
  have m: "length GGUF_MAGIC = 4" by (simp add: GGUF_MAGIC_def)
  have ge: "24 \<le> length out" by (simp add: out m)
  have 1: "read_bytes 4 out 0 = Inr (GGUF_MAGIC, 4)"
    using fits ge m by (simp add: read_bytes_Inr subslice_def) (simp add: out)
  have 2: "read_u32 out 4 = Inr (3, 8)"
    using c_u32.read_enc_at [where x = 3 and pre = GGUF_MAGIC and post = "u64_le nt @ u64_le nk @ kv @ idx @ rest"]
      fits by (simp add: out m)
  have 3: "read_u64 out 8 = Inr (nt, 16)"
    using c_u64.read_enc_at [where x = nt and pre = "GGUF_MAGIC @ u32_le 3" and post = "u64_le nk @ kv @ idx @ rest"]
      fits by (simp add: out m)
  have 4: "read_u64 out 16 = Inr (nk, 24)"
    using c_u64.read_enc_at [where x = nk and pre = "GGUF_MAGIC @ u32_le 3 @ u64_le nt" and post = "kv @ idx @ rest"]
      fits by (simp add: out m)
  have 5: "open_kvs (unat nk) GGUF_DEFAULT_ALIGNMENT out 24 = Inr (align_of vs, 24 + length kv)"
    using kv open_kvs_read_many [OF fits ge] by (simp add: align_of_def)
  show ?thesis using 1 2 3 4 5 ts caps
    by (simp add: gguf_parse_def GGUF_VERSION_SUPPORTED_def not_less [symmetric])
qed

text \<open>The sizes derived from consecutive offsets are the padded lengths.\<close>

lemma sized_offsets:
  assumes "c + total_len al kept < 2 ^ 63" "sized fe us" "fe = word_of_nat (c + total_len al kept)"
    and "map data_offset_rel us = map word_of_nat (offsets al c kept)"
  shows "map (unat \<circ> n_bytes) us = map (data_len al) kept"
  using assms
proof (induction kept arbitrary: c us)
  case Nil
  then show ?case by simp
next
  case (Cons t ts)
  from Cons.prems(4) obtain u us' where us: "us = u # us'" "data_offset_rel u = word_of_nat c"
    "map data_offset_rel us' = map word_of_nat (offsets al (c + data_len al t) ts)"
    by (cases us) auto
  have tot: "c + total_len al (t # ts) = (c + data_len al t) + total_len al ts" by (simp add: total_len_def)
  have fe: "fe = word_of_nat ((c + data_len al t) + total_len al ts)" using Cons.prems(3) unfolding tot .
  have b: "c + data_len al t + total_len al ts < 2 ^ 63" using Cons.prems(1) unfolding tot .
  have "(case us' of w # _ \<Rightarrow> data_offset_rel w | [] \<Rightarrow> fe) = word_of_nat (c + data_len al t)"
    using us(3) fe by (cases ts; cases us') (auto simp: total_len_def)
  then have "n_bytes u = word_of_nat (c + data_len al t) - word_of_nat c"
    using Cons.prems(2) unfolding us(1) sized_Cons us(2) by simp
  also have "\<dots> = word_of_nat (data_len al t)" by simp
  finally have "unat (n_bytes u) = data_len al t" using b by (simp add: unat_of_nat_u64)
  moreover have "sized fe us'" using Cons.prems(2) us(1) by (simp add: sized_Cons)
  ultimately show ?case using Cons.IH [OF b _ fe us(3)] us by simp
qed

lemma offsets_bound: "o' \<in> set (offsets al c ts) \<Longrightarrow> c \<le> o' \<and> o' \<le> c + total_len al ts"
  by (induction ts arbitrary: c) (fastforce simp: total_len_def)+

lemma offsets_sorted: "sorted (offsets al c ts)"
proof (induction ts arbitrary: c)
  case (Cons t ts)
  then show ?case using offsets_bound [of _ al "c + data_len al t" ts] by force
qed simp

lemma insort_key_min: "(\<And>y. y \<in> set ys \<Longrightarrow> f x \<le> f y) \<Longrightarrow> insort_key f x ys = x # ys"
  by (cases ys) auto

lemma sort_key_sorted: "sorted (map f xs) \<Longrightarrow> sort_key f xs = xs"
  by (induction xs) (auto simp: insort_key_min)

lemma entries_at_offsets: "map data_offset_rel (entries_at al ts) = map word_of_nat (offsets al 0 ts)"
proof -
  have "length offs = length ts \<Longrightarrow> map data_offset_rel (map2 entry_at ts offs) = map word_of_nat offs" for offs
    by (induction ts arbitrary: offs) (auto simp: entry_at_def length_Suc_conv)
  then show ?thesis by (simp add: entries_at_def)
qed

lemma concat_equal_lengths:
  "map length xss = map length yss \<Longrightarrow> concat xss = concat yss \<Longrightarrow> xss = yss"
  by (induction xss arbitrary: yss) (auto simp: Cons_eq_map_conv)

definition stitch_demand :: "kept_tensor list \<Rightarrow> nat" where
  "stitch_demand kept = (\<Sum>t\<leftarrow>kept. length (new_name t) + length (kt_bytes t) + 2 ^ 33)"

lemma stitched_length:
  assumes "al < 2 ^ 32" "list_all kept_ok kept"
  shows "length (stitched m al kept new_kv n_kv) \<le> 24 + length new_kv + 2 ^ 32 + stitch_demand kept"
proof -
  let ?idx = "concat (map enc_tensor (entries_at al kept))"
  have each: "length (enc_tensor (entry_at t o')) + data_len al t
      \<le> length (new_name t) + length (kt_bytes t) + 2 ^ 33" if "kept_ok t" for t o'
    using that next_mult_lt [of al "length (kt_bytes t)"] assms(1)
    by (auto simp: enc_tensor_def entry_at_def write_string_def kept_ok_def data_len_def
        length_concat comp_def sum_list_triv max_def split: if_splits)
  have "length (concat (map enc_tensor (map2 entry_at ts offs))) + total_len al ts \<le> stitch_demand ts"
    if "list_all kept_ok ts" "length offs = length ts" for ts offs
    using that
  proof (induction ts arbitrary: offs)
    case (Cons t ts)
    then obtain o' os where o: "offs = o' # os" "length os = length ts" by (cases offs) auto
    have "kept_ok t" using Cons.prems by simp
    from each [OF this, of o'] Cons.IH [OF _ o(2)] Cons.prems(1) show ?case
      by (simp add: o(1) stitch_demand_def total_len_def)
  qed (simp add: total_len_def stitch_demand_def)
  then have sum: "length ?idx + total_len al kept \<le> stitch_demand kept"
    using assms(2) by (simp add: entries_at_def)
  let ?h = "assemble_header m kept new_kv n_kv ?idx"
  have h: "length ?h = 24 + length new_kv + length ?idx"
    by (simp add: assemble_header_def GGUF_MAGIC_def)
  have pad: "next_mult al (length ?h) - length ?h \<le> 2 ^ 32"
    using next_mult_lt [of al "length ?h"] assms(1) by (simp add: max_def split: if_splits)
  show ?thesis using h pad sum
    by (simp add: stitched_def Let_def length_concat_padded)
qed

lemma align_up_max_one: "align_up off (max a 1) = align_up off a"
proof (cases "a = 0")
  case True
  then show ?thesis by (simp add: align_up_def max_def)
next
  case False
  then have "1 \<le> a" by (simp add: word_le_nat_alt) (metis One_nat_def Suc_leI neq0_conv unat_eq_0)
  then show ?thesis by (simp add: max_def)
qed

text \<open>The output read back: header fields, tensor index and tensor bytes.\<close>

lemma stitched_parse:
  fixes m :: manifest
  defines "al \<equiv> unat (max (gi_alignment (m_gguf m)) 1)"
  assumes recs: "list_all2 (\<lambda>rc v. open_kv rc 0 = Inr (v, length rc)) recs vs" "length recs \<le> 65536"
    and al: "al < 2 ^ 32" "gi_alignment (m_gguf m) = align_of vs" and ver: "gi_version (m_gguf m) = 3"
    and kept: "list_all kept_ok kept" "length kept \<le> 1048576"
    and out: "out = stitched m al kept (concat recs) (word_of_nat (length recs))" and fits: "fits out"
  shows "\<exists>g. gguf_parse path out = Inr g \<and> g_mmap g = out \<and> g_version g = 3 \<and>
    g_alignment g = align_of vs \<and> g_n_kv g = word_of_nat (length recs) \<and>
    g_n_tensors g = word_of_nat (length kept) \<and>
    tensors g = Inr (fill_sizes (word_of_nat (total_len al kept)) (sorted_idxs (entries_at al kept)) (entries_at al kept)) \<and>
    unat (tensor_data_offset g) + total_len al kept = length out \<and>
    drop (unat (tensor_data_offset g)) out = concat (map (padded al) kept)"
proof -
  let ?idx = "concat (map enc_tensor (entries_at al kept))"
  let ?kv = "concat recs"
  define h where "h = assemble_header m kept ?kv (word_of_nat (length recs)) ?idx"
  define T where "T = next_mult al (length h)"
  define rest where "rest = replicate (T - length h) 0 @ concat (map (padded al) kept)"
  have hT: "length h \<le> T" by (simp add: T_def next_mult_ge)
  have oh: "out = h @ rest" by (simp add: out stitched_def Let_def rest_def T_def h_def)
  have lo: "length out = T + total_len al kept"
    using hT by (simp add: oh rest_def length_concat_padded)
  have hl: "length h = 24 + length ?kv + length ?idx"
    by (simp add: h_def assemble_header_def GGUF_MAGIC_def)
  have nk: "unat (word_of_nat (length recs) :: u64) = length recs"
    and nt: "unat (word_of_nat (length kept) :: u64) = length kept"
    using recs(2) kept(2) by (intro unat_of_nat_u64; simp)+
  have shape: "out = GGUF_MAGIC @ u32_le 3 @ u64_le (word_of_nat (length kept))
      @ u64_le (word_of_nat (length recs)) @ ?kv @ ?idx @ rest"
    by (simp add: oh h_def assemble_header_def ver)
  let ?pre = "GGUF_MAGIC @ u32_le 3 @ u64_le (word_of_nat (length kept)) @ u64_le (word_of_nat (length recs))"
  have pre: "length ?pre = 24" by (simp add: GGUF_MAGIC_def)
  have kv: "read_many open_kv (unat (word_of_nat (length recs) :: u64)) out 24 = Inr (vs, 24 + length ?kv)"
    using rd_kv.read_many_records [OF recs(1), of ?pre "?idx @ rest"] fits pre by (simp add: nk shape)
  have "read_many read_tensor_entry (length (entries_at al kept)) out (24 + length ?kv)
      = Inr (entries_at al kept, 24 + length ?kv + length ?idx)"
    using c_tensor.read_many_enc_at [of "entries_at al kept" "?pre @ ?kv" rest]
      entries_valid [OF kept(1)] fits pre by (simp add: entries_at_def shape)
  then have ts: "read_many read_tensor_entry (unat (word_of_nat (length kept) :: u64)) out (24 + length ?kv)
      = Inr (entries_at al kept, 24 + length ?kv + length ?idx)" by (simp add: nt)
  have kvin: "24 + length ?kv \<le> length out" using lo hT hl by simp
  note ot = open_of_read_tensors [OF fits kvin ts]
  have caps: "word_of_nat (length kept) \<le> GGUF_MAX_TENSORS" "word_of_nat (length recs) \<le> GGUF_MAX_KV"
    using kept(2) recs(2) nk nt
    by (simp_all add: GGUF_MAX_TENSORS_def GGUF_MAX_KV_def word_le_nat_alt)
  have lt: "length out < 2 ^ 63" using fits by (simp add: fits_def)
  have uh: "unat (word_of_nat (length h) :: u64) = length h"
    using lo hT lt by (intro unat_of_nat_u64) simp
  have "unat (align_up (word_of_nat (length h)) (max (gi_alignment (m_gguf m)) 1)) = T"
    using align_up_next_mult [of "word_of_nat (length h)" "max (gi_alignment (m_gguf m)) 1"] uh lo hT lt al(1)
    by (simp add: T_def al_def)
  then have tdo: "unat (align_up (word_of_nat (24 + length ?kv + length ?idx)) (align_of vs)) = T"
    unfolding align_up_max_one al(2) hl .
  define g where "g = \<lparr>g_path = path, g_mmap = out, g_version = 3, g_alignment = align_of vs,
    tensor_data_offset = align_up (word_of_nat (24 + length ?kv + length ?idx)) (align_of vs),
    g_n_kv = word_of_nat (length recs), g_n_tensors = word_of_nat (length kept),
    kv_end_offset = 24 + length ?kv, index_end_offset = 24 + length ?kv + length ?idx\<rparr>"
  have parse: "gguf_parse path out = Inr g"
    unfolding g_def by (rule gguf_parse_concat [OF shape fits caps kv ot])
  have "word_of_nat (length out) - tensor_data_offset g = word_of_nat (total_len al kept)"
  proof -
    have "tensor_data_offset g = word_of_nat (unat (tensor_data_offset g))" by simp
    also have "unat (tensor_data_offset g) = T" using tdo by (simp add: g_def)
    finally show ?thesis by (simp add: lo)
  qed
  then have "tensors g = Inr (fill_sizes (word_of_nat (total_len al kept)) (sorted_idxs (entries_at al kept)) (entries_at al kept))"
    using ts by (simp add: tensors_def g_def)
  moreover have "drop T out = concat (map (padded al) kept)"
    using hT by (simp add: oh rest_def)
  ultimately show ?thesis using parse tdo lo by (auto simp: g_def)
qed

text \<open>The tensors of the output, with their bytes.\<close>

lemma stitched_tensors:
  assumes fits: "fits out" and mm: "g_mmap g = out" and tl: "total_len al kept < 2 ^ 63"
    and ts: "ts = fill_sizes (word_of_nat (total_len al kept)) (sorted_idxs (entries_at al kept)) (entries_at al kept)"
    and len: "unat (tensor_data_offset g) + total_len al kept = length out"
    and data: "drop (unat (tensor_data_offset g)) out = concat (map (padded al) kept)" and ne: "kept \<noteq> []"
  shows "mapM (tensor_bytes g) ts = Inr (map (padded al) kept) \<and>
    map data_offset_rel ts = map word_of_nat (offsets al 0 kept) \<and>
    list_all2 (\<lambda>k t. t_name t = new_name k \<and> t_shape t = kt_shape k \<and> t_dtype t = kt_dtype_code k) kept ts"
proof -
  let ?es = "entries_at al kept" and ?fe = "word_of_nat (total_len al kept) :: u64"
  have lts: "length ts = length kept" by (simp add: ts)
  have offs: "map data_offset_rel ts = map word_of_nat (offsets al 0 kept)"
    unfolding entries_at_offsets [symmetric] ts
    by (rule nth_equalityI) (simp_all add: fill_sizes_offset)
  have ob: "o' \<in> set (offsets al 0 kept) \<Longrightarrow> unat (word_of_nat o' :: u64) = o'" for o'
    using offsets_bound [of o' al 0 kept] tl by (intro unat_of_nat_u64) simp
  have so: "sorted (map data_offset_rel ts)"
    unfolding offs sorted_map
    by (rule sorted_wrt_mono_rel [OF _ offsets_sorted]) (use ob in \<open>auto simp: word_le_nat_alt\<close>)
  then have us: "sort_key data_offset_rel ts = ts" by (rule sort_key_sorted)
  have sz: "sized ?fe ts" using fill_sizes_sorted(2) [of ?fe ?es] us by (simp add: ts)
  have ufe: "unat ?fe = total_len al kept" using tl by (intro unat_of_nat_u64) simp
  have tne: "ts \<noteq> []" using ne lts by auto
  have hd0: "data_offset_rel (hd ts) = 0"
    using offs ne tne by (cases ts; cases kept) auto
  have "\<forall>t \<in> set ts. data_offset_rel t \<le> ?fe"
  proof
    fix t assume "t \<in> set ts"
    then have "data_offset_rel t \<in> set (map data_offset_rel ts)" by simp
    then obtain o' where o': "o' \<in> set (offsets al 0 kept)" "data_offset_rel t = word_of_nat o'"
      unfolding offs by auto
    then show "data_offset_rel t \<le> ?fe"
      using ob [OF o'(1)] offsets_bound [OF o'(1)] ufe by (simp add: word_le_nat_alt)
  qed
  from sized_tile [OF fits mm _ sz so this tne] len ufe obtain bss where
    bss: "mapM (tensor_bytes g) ts = Inr bss" "map length bss = map (unat \<circ> n_bytes) ts"
      "concat bss = drop (unat (tensor_data_offset g)) out"
    using hd0 by auto
  have "map (unat \<circ> n_bytes) ts = map (data_len al) kept"
    by (rule sized_offsets [where c = 0, OF _ sz _ offs]) (use tl in simp_all)
  then have "map length bss = map length (map (padded al) kept)"
    using bss(2) by (simp add: comp_def length_padded)
  from concat_equal_lengths [OF this] bss(3) data have "bss = map (padded al) kept" by simp
  moreover have "list_all2 (\<lambda>k t. t_name t = new_name k \<and> t_shape t = kt_shape k \<and> t_dtype t = kt_dtype_code k) kept ts"
  proof (rule list_all2_all_nthI)
    fix i assume i: "i < length kept"
    then have "same_but_size (ts ! i) (?es ! i)" unfolding ts by (intro fill_sizes_same) simp
    then show "t_name (ts ! i) = new_name (kept ! i) \<and> t_shape (ts ! i) = kt_shape (kept ! i) \<and>
        t_dtype (ts ! i) = kt_dtype_code (kept ! i)"
      using i by (simp add: same_but_size_def entries_at_def entry_at_def)
  qed (simp add: lts)
  ultimately show ?thesis using bss(1) offs by simp
qed

lemma stitch_subset_Inr:
  assumes "stitch_subset sha cs scratch m cache r out_path fs = Inr (o', fs')"
    and "stitch_read_chunk sha cs fs cache (ch_cid (m_header_chunk m)) = Inr hb"
    and "gguf_parse scratch (scratch_bytes hb (gi_tensor_data_offset (m_gguf m))) = Inr g"
    and "rbind (open_bundles fs cache r (m_bundles m)) (\<lambda>mm. keep_tensors r mm (m_bundles m)) = Inr kept"
  obtains arch kvs new_kv n_kv data where "kept \<noteq> []" "kv_entries g = Inr kvs"
    "rewrite_kv_block (arch @ ''.block_count'') r hb kvs = Inr (new_kv, n_kv)"
    "stitch_file m r kept new_kv n_kv = Inr data"
    "o' = \<lparr>so_path = out_path, so_size = word_of_nat (length data),
           so_n_tensors = word_of_nat (length kept), so_n_kv = n_kv\<rparr>"
    "fs' = rename_file (with_extension out_path ''gguf.tmp'') out_path
       (write_file (with_extension out_path ''gguf.tmp'') data fs)"
  using assms unfolding stitch_subset_def
  by (auto simp: results Let_def split: if_splits)

text \<open>The KV records written: one per source entry, then the two flags.\<close>

lemma rewritten_records:
  assumes g: "gguf_parse scratch (hb @ pad) = Inr g" and fits: "fits (hb @ pad)"
    and kvs: "kv_entries g = Inr kvs"
    and rw: "rewrite_kv_block (arch @ ''.block_count'') r hb kvs = Inr (new_kv, n_kv)"
  shows "\<exists>recs vs. new_kv = concat recs \<and> n_kv = word_of_nat (length recs) \<and>
    length recs = unat (g_n_kv g) + 2 \<and> align_of vs = g_alignment g \<and>
    list_all2 (\<lambda>rc v. open_kv rc 0 = Inr (v, length rc)) recs vs \<and>
    length new_kv \<le> length (hb @ pad) + 100"
proof -
  let ?buf = "hb @ pad"
  note h = gguf_parse_Inr [OF g fits] and of = gguf_parse_offsets [OF g fits]
  from h(10) open_kvs_read_many [OF fits h(1)] obtain vs where
    vs: "read_many open_kv (unat (g_n_kv g)) ?buf 24 = Inr (vs, kv_end_offset g)"
    and al: "g_alignment g = align_of vs"
    by (auto simp: align_of_def)
  from kv_entries_of_open_kv [OF fits h(1) vs, of 0] obtain es' where
    es': "read_many read_kv_entry (unat (g_n_kv g)) ?buf 24 = Inr (es', kv_end_offset g)"
    "contiguous 24 es' (kv_end_offset g)" by blast
  with kvs h(4) have "es' = kvs" by (simp add: kv_entries_def)
  note es = es' [unfolded this]
  from rw obtain ms where ms: "mapM (rewrite_kv (arch @ ''.block_count'') r hb) kvs = Inr ms"
    and nk: "new_kv = concat ms @ write_kv_bool ''intelnav.has_embed'' (include_embed r)
       @ write_kv_bool ''intelnav.has_head'' (include_head r)" "n_kv = word_of_nat (length kvs) + 2"
    by (auto simp: rewrite_kv_block_def results)
  let ?b1 = "write_kv_bool ''intelnav.has_embed'' (include_embed r)"
    and ?b2 = "write_kv_bool ''intelnav.has_head'' (include_head r)"
  have ascii: "utf8_valid (str_bytes ''intelnav.has_embed'')" "utf8_valid (str_bytes ''intelnav.has_head'')"
    by (rule utf8_valid_ascii; auto simp: str_bytes_def)+
  have bl: "length ?b1 = 31" "length ?b2 = 30" by (simp_all add: write_kv_bool_def write_string_def)
  have b: "open_kv ?b1 0 = Inr (None, length ?b1)" "open_kv ?b2 0 = Inr (None, length ?b2)"
    by (rule open_kv_write_bool [OF ascii(1)], simp, simp add: fits_def bl)
      (rule open_kv_write_bool [OF ascii(2)], simp, simp add: fits_def bl)
  have ma: "list_all2 (\<lambda>e rc. rewrite_kv (arch @ ''.block_count'') r hb e = Inr rc) kvs ms"
    using ms by (simp add: mapM_Inr_iff)
  note kr = kv_records [OF fits h(1) vs es(1)]
  have lens: "length kvs = length vs" "length kvs = length ms"
    using kr ma by (auto dest: list_all2_lengthD)
  have rec: "open_kv (ms ! i) 0 = Inr (vs ! i, length (ms ! i)) \<and>
      length (ms ! i) = snd (entry_range (kvs ! i)) - fst (entry_range (kvs ! i))"
    if i: "i < length kvs" for i
  proof -
    from list_all2_nthD [OF kr i] obtain p q where pq: "p \<le> length ?buf"
      "open_kv ?buf p = Inr (vs ! i, q)" "read_kv_entry ?buf p = Inr (kvs ! i, q)" by blast
    from list_all2_nthD [OF ma i] have "rewrite_kv (arch @ ''.block_count'') r hb (kvs ! i) = Inr (ms ! i)" .
    from rewrite_kv_record [OF fits pq refl this] kv_entry_u32_length(2) [OF fits pq(1,3)]
    show ?thesis by simp
  qed
  have "list_all2 (\<lambda>rc v. open_kv rc 0 = Inr (v, length rc)) (ms @ [?b1, ?b2]) (vs @ [None, None])"
    using rec lens b by (auto simp: list_all2_conv_all_nth nth_append less_Suc_eq)
  moreover have "align_of (vs @ [None, None]) = g_alignment g" by (simp add: align_of_def al)
  moreover have n: "length kvs = unat (g_n_kv g)" using read_many_count [OF es(1)] .
  moreover have "length (concat ms) = kv_end_offset g - 24"
  proof -
    have "map length ms = map (\<lambda>e. snd (entry_range e) - fst (entry_range e)) kvs"
      using rec lens by (auto intro: nth_equalityI)
    then have "length (concat ms) = (\<Sum>e\<leftarrow>kvs. snd (entry_range e) - fst (entry_range e))"
      by (simp add: length_concat)
    also have "\<dots> = kv_end_offset g - 24"
    proof -
      have "contiguous p xs q \<Longrightarrow> p \<le> q \<and> (\<Sum>e\<leftarrow>xs. snd (entry_range e) - fst (entry_range e)) = q - p" for p xs q
      proof (induction xs arbitrary: p)
        case (Cons x xs)
        from Cons.prems have "p \<le> snd (entry_range x)" "contiguous (snd (entry_range x)) xs q" by auto
        with Cons.IH [OF this(2)] Cons.prems show ?case by auto
      qed simp
      from this [OF es(2)] show ?thesis by simp
    qed
    finally show ?thesis .
  qed
  ultimately show ?thesis using of bl nk lens
    by (intro exI [of _ "ms @ [?b1, ?b2]"] exI [of _ "vs @ [None, None]"]) simp
qed

text \<open>The file a successful run leaves: the rewritten header records and the kept tensors, laid out.\<close>

lemma stitch_run_file:
  assumes run: "stitch_subset sha cs scratch m cache r out_path fs = Inr (o', fs')" and "out_path \<noteq> []"
    and hb: "stitch_read_chunk sha cs fs cache (ch_cid (m_header_chunk m)) = Inr hb"
    and g: "gguf_parse scratch (scratch_bytes hb (gi_tensor_data_offset (m_gguf m))) = Inr g"
    and sel: "rbind (open_bundles fs cache r (m_bundles m)) (\<lambda>mm. keep_tensors r mm (m_bundles m)) = Inr kept"
    and man: "gi_version (m_gguf m) = 3" "gi_alignment (m_gguf m) = g_alignment g"
    and ok: "list_all kept_ok kept"
    and size: "length (scratch_bytes hb (gi_tensor_data_offset (m_gguf m))) + stitch_demand kept < 2 ^ 62"
  obtains recs vs data where "length recs = unat (g_n_kv g) + 2" "align_of vs = g_alignment g"
    "list_all2 (\<lambda>rc v. open_kv rc 0 = Inr (v, length rc)) recs vs"
    "data = stitched m (unat (max (gi_alignment (m_gguf m)) 1)) kept (concat recs) (word_of_nat (length recs))"
    "unat (max (gi_alignment (m_gguf m)) 1) < 2 ^ 32" "fits data" "read_file fs' out_path = Some data"
    "so_size o' = word_of_nat (length data)" "kept \<noteq> []"
proof -
  let ?al = "unat (max (gi_alignment (m_gguf m)) 1)"
  obtain pad where sb: "scratch_bytes hb (gi_tensor_data_offset (m_gguf m)) = hb @ pad"
    by (simp add: scratch_bytes_def Let_def)
  have fits: "fits (hb @ pad)" using size by (simp add: sb fits_def)
  note g = g [unfolded sb]
  from stitch_subset_Inr [OF run hb g [folded sb] sel] obtain arch kvs new_kv n_kv data where
    s: "kept \<noteq> []" "kv_entries g = Inr kvs"
    "rewrite_kv_block (arch @ ''.block_count'') r hb kvs = Inr (new_kv, n_kv)"
    "stitch_file m r kept new_kv n_kv = Inr data" "so_size o' = word_of_nat (length data)"
    "fs' = rename_file (with_extension out_path ''gguf.tmp'') out_path
       (write_file (with_extension out_path ''gguf.tmp'') data fs)"
    by (metis stitch_outcome.select_convs(2))
  from rewritten_records [OF g fits s(2,3)] obtain recs vs where
    rc: "new_kv = concat recs" "n_kv = word_of_nat (length recs)" "length recs = unat (g_n_kv g) + 2"
    "align_of vs = g_alignment g" "list_all2 (\<lambda>rc v. open_kv rc 0 = Inr (v, length rc)) recs vs"
    "length new_kv \<le> length (hb @ pad) + 100" by blast
  have "unat (g_alignment g) < 2 ^ 32"
    by (rule alignment_bound [OF fits gguf_parse_Inr(1) [OF g fits] _ gguf_parse_Inr(10) [OF g fits]])
      (simp add: GGUF_DEFAULT_ALIGNMENT_def)
  then have al: "?al < 2 ^ 32" by (simp add: man max_def)
  let ?out = "stitched m ?al kept new_kv n_kv"
  have small: "length ?out < 2 ^ 63"
    using stitched_length [OF al ok, of m new_kv n_kv] rc(6) size by (simp add: sb)
  then have data: "data = ?out" using stitch_file_spec [OF al, of kept new_kv n_kv r] s(4) by simp
  have fd: "fits data" using small by (simp add: data fits_def)
  have "read_file (write_file (with_extension out_path ''gguf.tmp'') data fs) (with_extension out_path ''gguf.tmp'') = Some data"
    by (simp add: file_simps)
  from read_rename_file [OF this tmp_extension_fresh [OF assms(2)]] s(6)
  have rd: "read_file fs' out_path = Some data" by simp
  have dat: "data = stitched m ?al kept (concat recs) (word_of_nat (length recs))"
    by (simp add: data rc)
  show thesis by (rule that [OF rc(3,4,5) dat al fd rd s(5,1)])
qed

text \<open>
  C5. Round trip of the stitcher: the file \<open>stitch_subset\<close> writes parses again, with the source's
  alignment and two more KV entries; its tensor index is the kept tensors in order, under their
  new names, with shape and type unchanged; and each tensor's bytes, read through the new offsets,
  are the member's bytes followed by zero padding up to the alignment. The manifest must agree with
  its own header on version and alignment, the names and counts must be within what the parser
  accepts, and the file must be below \<open>2^62\<close> bytes.
\<close>

theorem stitch_roundtrip:
  assumes run: "stitch_subset sha cs scratch m cache r out_path fs = Inr (o', fs')" and "out_path \<noteq> []"
    and hb: "stitch_read_chunk sha cs fs cache (ch_cid (m_header_chunk m)) = Inr hb"
    and g: "gguf_parse scratch (scratch_bytes hb (gi_tensor_data_offset (m_gguf m))) = Inr g"
    and sel: "rbind (open_bundles fs cache r (m_bundles m)) (\<lambda>mm. keep_tensors r mm (m_bundles m)) = Inr kept"
    and man: "gi_version (m_gguf m) = 3" "gi_alignment (m_gguf m) = g_alignment g"
    and ok: "list_all kept_ok kept" "length kept \<le> 1048576" "unat (g_n_kv g) + 2 \<le> 65536"
    and size: "length (scratch_bytes hb (gi_tensor_data_offset (m_gguf m))) + stitch_demand kept < 2 ^ 62"
  shows "\<exists>data g' ts'. read_file fs' out_path = Some data \<and> gguf_parse out_path data = Inr g' \<and>
    so_size o' = word_of_nat (length data) \<and> g_alignment g' = g_alignment g \<and>
    unat (g_n_kv g') = unat (g_n_kv g) + 2 \<and> tensors g' = Inr ts' \<and>
    list_all2 (\<lambda>k t. t_name t = new_name k \<and> t_shape t = kt_shape k \<and> t_dtype t = kt_dtype_code k) kept ts' \<and>
    mapM (tensor_bytes g') ts' = Inr (map (padded (unat (max (g_alignment g) 1))) kept)"
proof -
  let ?al = "unat (max (gi_alignment (m_gguf m)) 1)"
  obtain recs vs data where rc: "length recs = unat (g_n_kv g) + 2" "align_of vs = g_alignment g"
      "list_all2 (\<lambda>rc v. open_kv rc 0 = Inr (v, length rc)) recs vs"
    and dat: "data = stitched m ?al kept (concat recs) (word_of_nat (length recs))"
    and al: "?al < 2 ^ 32" and fd: "fits data" and rd: "read_file fs' out_path = Some data"
    and sz: "so_size o' = word_of_nat (length data)" and ne: "kept \<noteq> []"
    by (rule stitch_run_file [OF run assms(2) hb g sel man ok(1) size])
  from stitched_parse [OF rc(3) _ al _ man(1) ok(1,2) dat fd, of out_path] rc ok man obtain g' where
    g': "gguf_parse out_path data = Inr g'" "g_mmap g' = data" "g_alignment g' = align_of vs"
    "g_n_kv g' = word_of_nat (length recs)"
    "tensors g' = Inr (fill_sizes (word_of_nat (total_len ?al kept)) (sorted_idxs (entries_at ?al kept)) (entries_at ?al kept))"
    "unat (tensor_data_offset g') + total_len ?al kept = length data"
    "drop (unat (tensor_data_offset g')) data = concat (map (padded ?al) kept)" by auto
  have tl: "total_len ?al kept < 2 ^ 63" using g'(6) fd by (simp add: fits_def)
  have "unat (word_of_nat (length recs) :: u64) = length recs"
    using rc(1) ok(3) by (intro unat_of_nat_u64) simp
  then have nk: "unat (g_n_kv g') = unat (g_n_kv g) + 2" unfolding g'(4) rc(1) .
  note st = stitched_tensors [OF fd g'(2) tl refl g'(6,7) ne]
  show ?thesis
    by (intro exI conjI)
      (use rd g'(1,3,5) sz rc(2) nk st [THEN conjunct1] st [THEN conjunct2, THEN conjunct2] man(2) in
        \<open>simp_all only: \<close>)
qed

section \<open>A stitch of the sample\<close>

definition sample_hdr :: bytes where
  "sample_hdr = sample_head @ replicate 6 0"

definition hdr_cid :: string where
  "hdr_cid = cid_string_for sample_sha sample_cs sample_hdr"

definition head_data :: bytes where
  "head_data = [1,2,3,4,5,6,7,8]"

definition head_cid :: string where
  "head_cid = cid_string_for sample_sha sample_cs head_data"

definition stitch_manifest :: manifest where
  "stitch_manifest = \<lparr>m_format = ''intelnav-model'', m_version = 2, m_name = None,
     m_architecture = Some ''t'', m_n_layers = 0,
     m_gguf = \<lparr>gi_version = 3, gi_alignment = 8, gi_tensor_data_offset = 96, gi_n_kv = 1, gi_n_tensors = 1\<rparr>,
     m_header_chunk = \<lparr>ch_cid = hdr_cid, ch_size = 96\<rparr>,
     m_bundles = [\<lparr>be_name = ''head'', be_layer_range = None, be_cid = head_cid, be_size = 8,
       be_members = [\<lparr>bm_name = ''t'', bm_shape = [2], bm_dtype = ''F32'', bm_dtype_code = 0,
         bm_data_offset_rel = 0, bm_cid = head_cid, bm_size = 8, offset_in_bundle = 0\<rparr>]\<rparr>]\<rparr>"

definition stitch_sample_fs :: fs where
  "stitch_sample_fs = [([''c'', ''chunks'', hdr_cid @ ''.bin''], sample_hdr),
     ([''c'', ''chunks'', head_cid @ ''.bin''], head_data)]"

definition head_range :: stitch_range where
  "head_range = \<lparr>sr_start = 0, sr_end = 0, include_embed = False, include_head = True\<rparr>"

definition head_kept :: kept_tensor where
  "head_kept = \<lparr>new_name = ''t'', kt_dtype_code = 0, kt_shape = [2], kt_bytes = head_data\<rparr>"

lemma sample_cids: "hdr_cid \<noteq> head_cid" "length sample_hdr = 96" "length head_data = 8"
proof -
  show l: "length sample_hdr = 96" "length head_data = 8"
    by (simp_all add: sample_hdr_def head_data_def sample_head_def)
  show "hdr_cid \<noteq> head_cid"
    unfolding hdr_cid_def head_cid_def cid_string_for_def sample_cs_def sample_sha_def bytes_str_def l
    by simp
qed

lemma stitch_sample_steps:
  "stitch_read_chunk sample_sha sample_cs stitch_sample_fs [''c''] hdr_cid = Inr sample_hdr"
  "open_bundles stitch_sample_fs [''c''] head_range (m_bundles stitch_manifest) = Inr [(head_cid, head_data)]"
  "keep_tensors head_range [(head_cid, head_data)] (m_bundles stitch_manifest) = Inr [head_kept]"
  "gguf_parse [''m.gguf''] (scratch_bytes sample_hdr 96) = Inr (sample_parsed (sample_hdr @ [0]))"
  "kv_entries (sample_parsed (sample_hdr @ [0])) = Inr [sample_kv_entry]"
proof -
  show "stitch_read_chunk sample_sha sample_cs stitch_sample_fs [''c''] hdr_cid = Inr sample_hdr"
    by (simp add: stitch_read_chunk_def chunks_dir_resolve_def stitch_sample_fs_def read_file_def
        join_def hdr_cid_def Let_def)
  show "open_bundles stitch_sample_fs [''c''] head_range (m_bundles stitch_manifest) = Inr [(head_cid, head_data)]"
    using sample_cids
    by (simp add: stitch_manifest_def selects_def head_range_def chunks_dir_resolve_def
        stitch_sample_fs_def read_file_def join_def Let_def)
  show "keep_tensors head_range [(head_cid, head_data)] (m_bundles stitch_manifest) = Inr [head_kept]"
    by (simp add: stitch_manifest_def selects_def head_range_def keep_member_def rust_slice_def
        head_kept_def head_data_def rename_tensor_def strip_prefix_def starts_with_def subslice_def)
  have "scratch_bytes sample_hdr 96 = sample_hdr @ [0]"
    by (simp add: scratch_bytes_def sample_cids write_zeros_def)
  then show "gguf_parse [''m.gguf''] (scratch_bytes sample_hdr 96) = Inr (sample_parsed (sample_hdr @ [0]))"
    using sample_parse by (simp add: sample_hdr_def)
  show "kv_entries (sample_parsed (sample_hdr @ [0])) = Inr [sample_kv_entry]"
    unfolding sample_hdr_def append_assoc by (rule sample_kv_entries) simp
qed

lemma stitch_sample_run:
  "\<exists>o' fs'. stitch_subset sample_sha sample_cs [''m.gguf''] stitch_manifest [''c''] head_range [''o.gguf'']
    stitch_sample_fs = Inr (o', fs')"
proof -
  have v: "validate_range stitch_manifest head_range = Inr ()"
    by (simp add: validate_range_def head_range_def stitch_manifest_def)
  let ?f = "\<lambda>kv n. stitch_file stitch_manifest head_range [head_kept] kv n"
  let ?e = "subslice sample_hdr 24 57"
  let ?kv = "?e @ write_kv_bool ''intelnav.has_embed'' False @ write_kv_bool ''intelnav.has_head'' True"
  have rw: "rewrite_kv_block ''t.block_count'' head_range sample_hdr [sample_kv_entry] = Inr (?kv, 3)"
    by (simp add: rewrite_kv_block_def rewrite_kv_def rust_slice_def sample_cids sample_kv_entry_def head_range_def)
  have al: "unat (max (gi_alignment (m_gguf stitch_manifest)) 1) = 8" by (simp add: stitch_manifest_def)
  have "list_all kept_ok [head_kept]" by (simp add: kept_ok_def head_kept_def str_bytes_def)
  from stitched_length [OF _ this, of 8 stitch_manifest ?kv 3]
  have "length (stitched stitch_manifest 8 [head_kept] ?kv 3) < 2 ^ 63"
    by (simp add: sample_cids write_kv_bool_def write_string_def stitch_demand_def head_kept_def)
  then have f: "?f ?kv 3 = Inr (stitched stitch_manifest 8 [head_kept] ?kv 3)"
    using stitch_file_spec [of stitch_manifest "[head_kept]" ?kv 3] by (simp add: al)
  have m: "ch_cid (m_header_chunk stitch_manifest) = hdr_cid" "ch_size (m_header_chunk stitch_manifest) = 96"
    "gi_tensor_data_offset (m_gguf stitch_manifest) = 96" "m_architecture stitch_manifest = Some ''t''"
    by (simp_all add: stitch_manifest_def)
  show ?thesis
    by (simp add: stitch_subset_def v m stitch_sample_steps sample_cids rw f Let_def)
qed

lemma stitch_roundtrip_witness:
  "\<exists>o' fs' data g' ts'. stitch_subset sample_sha sample_cs [''m.gguf''] stitch_manifest [''c''] head_range [''o.gguf'']
    stitch_sample_fs = Inr (o', fs') \<and> read_file fs' [''o.gguf''] = Some data \<and>
    gguf_parse [''o.gguf''] data = Inr g' \<and> tensors g' = Inr ts' \<and> map t_name ts' = [''t''] \<and>
    mapM (tensor_bytes g') ts' = Inr [padded 8 head_kept]"
proof -
  obtain o' fs' where run: "stitch_subset sample_sha sample_cs [''m.gguf''] stitch_manifest [''c''] head_range
    [''o.gguf''] stitch_sample_fs = Inr (o', fs')" using stitch_sample_run by blast
  have "list_all kept_ok [head_kept]" by (simp add: kept_ok_def head_kept_def str_bytes_def)
  from stitch_roundtrip [OF run, of sample_hdr "sample_parsed (sample_hdr @ [0])" "[head_kept]"] this
    stitch_sample_steps sample_cids run
  show ?thesis
    by (auto simp: stitch_manifest_def sample_parsed_def scratch_bytes_def write_zeros_def stitch_demand_def
        head_kept_def list_all2_Cons1)
qed

end
