(* ===== verification/Catalog.thy ===== *)
theory Catalog
  imports Bytes
begin

text \<open>
  The curated download catalog, \<open>crates/app/src/catalog.rs\<close>. \<open>f32\<close> fields are their bit patterns.
  BLAKE3 and the \<open>bs58\<close> encoder are the parameters \<open>b3\<close> and \<open>b58\<close>.
\<close>

datatype fit = Fits | Tight | TooBig

datatype model_kind = Ggml

record catalog_entry =
  ce_id :: string
  ce_display_name :: string
  ce_family :: string
  ce_arch :: model_kind
  params_b :: u32
  size_bytes :: u64
  ram_bytes_min :: u64
  hf_repo :: string
  gguf_file :: string
  tokenizer_repo :: string
  tokenizer_file :: string
  ce_note :: string
  block_count :: u16
  default_splits :: "(u16 \<times> u16) list"

definition model_cid :: "(bytes \<Rightarrow> bytes) \<Rightarrow> (bytes \<Rightarrow> string) \<Rightarrow> catalog_entry \<Rightarrow> string" where
  "model_cid b3 b58 e = take 22 (b58 (b3 (str_bytes (''hf|'' @ hf_repo e @ ''|'' @ gguf_file e))))"

definition swarm_ranges :: "catalog_entry \<Rightarrow> (u16 \<times> u16) list" where
  "swarm_ranges e = (if default_splits e = [] then [(0, block_count e)] else default_splits e)"

definition hf_url :: "string \<Rightarrow> string \<Rightarrow> string" where
  "hf_url repo file = ''https://huggingface.co/'' @ repo @ ''/resolve/main/'' @ file @ ''?download=true''"

definition gguf_url :: "catalog_entry \<Rightarrow> string" where
  "gguf_url e = hf_url (hf_repo e) (gguf_file e)"

definition tokenizer_url :: "catalog_entry \<Rightarrow> string" where
  "tokenizer_url e = hf_url (tokenizer_repo e) (tokenizer_file e)"

definition sat_mul :: "u64 \<Rightarrow> u64 \<Rightarrow> u64" where
  "sat_mul a b = (if unat a * unat b < 2 ^ 64 then a * b else - 1)"

text \<open>The three-way test on free memory, shared by the whole-model and the per-slice check.\<close>

definition fit_of :: "u64 \<Rightarrow> u64 \<Rightarrow> fit" where
  "fit_of free need =
     (if sat_mul need 13 div 10 \<le> free then Fits else if need \<le> free then Tight else TooBig)"

definition catalog_fit :: "catalog_entry \<Rightarrow> u64 \<Rightarrow> fit" where
  "catalog_fit e free = fit_of free (ram_bytes_min e)"

definition ascii_lower :: "char \<Rightarrow> char" where
  "ascii_lower c =
     (let n = of_char c :: nat in if 65 \<le> n \<and> n \<le> 90 then char_of (n + 32) else c)"

definition eq_ignore_ascii_case :: "string \<Rightarrow> string \<Rightarrow> bool" where
  "eq_ignore_ascii_case a b \<longleftrightarrow> map ascii_lower a = map ascii_lower b"

function trim_end_matches :: "string \<Rightarrow> string \<Rightarrow> string" where
  "trim_end_matches p s =
     (if p \<noteq> [] \<and> ends_with s p then trim_end_matches p (take (length s - length p) s) else s)"
  by pat_completeness auto
termination
  by (relation "measure (length \<circ> snd)") (auto simp: ends_with_def neq_Nil_conv)

declare trim_end_matches.simps [simp del]

definition GB :: u64 where "GB = 1024 * 1024 * 1024"
definition MB :: u64 where "MB = 1024 * 1024"

definition SPLITS_24_4 :: "(u16 \<times> u16) list" where
  "SPLITS_24_4 = [(0, 6), (6, 12), (12, 18), (18, 24)]"

definition SPLITS_36_4 :: "(u16 \<times> u16) list" where
  "SPLITS_36_4 = [(0, 9), (9, 18), (18, 27), (27, 36)]"

definition SPLITS_28_4 :: "(u16 \<times> u16) list" where
  "SPLITS_28_4 = [(0, 7), (7, 14), (14, 21), (21, 28)]"

text \<open>The UTF-8 bytes of the two non-ASCII characters of the table.\<close>

definition middle_dot :: string where "middle_dot = [CHR 0xC2, CHR 0xB7]"
definition em_dash :: string where "em_dash = [CHR 0xE2, CHR 0x80, CHR 0x94]"

definition CATALOG :: "catalog_entry list" where
  "CATALOG = [
     \<lparr>ce_id = ''qwen2.5-0.5b-instruct-q4'', ce_display_name = ''Qwen 2.5 '' @ middle_dot @ '' 0.5B '' @ middle_dot @ '' Instruct'',
      ce_family = ''qwen'', ce_arch = Ggml, params_b = 0x3F000000, size_bytes = 398 * MB,
      ram_bytes_min = 700 * MB, hf_repo = ''Qwen/Qwen2.5-0.5B-Instruct-GGUF'',
      gguf_file = ''qwen2.5-0.5b-instruct-q4_k_m.gguf'', tokenizer_repo = ''Qwen/Qwen2.5-0.5B-Instruct'',
      tokenizer_file = ''tokenizer.json'', ce_note = ''tiny, fits anywhere '' @ em_dash @ '' good smoke test'',
      block_count = 24, default_splits = SPLITS_24_4\<rparr>,
     \<lparr>ce_id = ''qwen2.5-1.5b-instruct-q4'', ce_display_name = ''Qwen 2.5 '' @ middle_dot @ '' 1.5B '' @ middle_dot @ '' Instruct'',
      ce_family = ''qwen'', ce_arch = Ggml, params_b = 0x3FC00000, size_bytes = 986 * MB,
      ram_bytes_min = 2 * GB, hf_repo = ''Qwen/Qwen2.5-1.5B-Instruct-GGUF'',
      gguf_file = ''qwen2.5-1.5b-instruct-q4_k_m.gguf'', tokenizer_repo = ''Qwen/Qwen2.5-1.5B-Instruct'',
      tokenizer_file = ''tokenizer.json'', ce_note = ''snappy on laptops'',
      block_count = 28, default_splits = SPLITS_28_4\<rparr>,
     \<lparr>ce_id = ''qwen2.5-3b-instruct-q4'', ce_display_name = ''Qwen 2.5 '' @ middle_dot @ '' 3B '' @ middle_dot @ '' Instruct'',
      ce_family = ''qwen'', ce_arch = Ggml, params_b = 0x40400000, size_bytes = 2 * GB,
      ram_bytes_min = 4 * GB, hf_repo = ''Qwen/Qwen2.5-3B-Instruct-GGUF'',
      gguf_file = ''qwen2.5-3b-instruct-q4_k_m.gguf'', tokenizer_repo = ''Qwen/Qwen2.5-3B-Instruct'',
      tokenizer_file = ''tokenizer.json'', ce_note = ''sweet spot for most 16 GB laptops'',
      block_count = 36, default_splits = SPLITS_36_4\<rparr>,
     \<lparr>ce_id = ''qwen2.5-7b-instruct-q4'', ce_display_name = ''Qwen 2.5 '' @ middle_dot @ '' 7B '' @ middle_dot @ '' Instruct'',
      ce_family = ''qwen'', ce_arch = Ggml, params_b = 0x40E00000, size_bytes = 47 * GB div 10,
      ram_bytes_min = 9 * GB, hf_repo = ''Qwen/Qwen2.5-7B-Instruct-GGUF'',
      gguf_file = ''qwen2.5-7b-instruct-q4_k_m.gguf'', tokenizer_repo = ''Qwen/Qwen2.5-7B-Instruct'',
      tokenizer_file = ''tokenizer.json'', ce_note = ''workhorse '' @ em_dash @ '' wants ~9 GiB free'',
      block_count = 28, default_splits = SPLITS_28_4\<rparr>,
     \<lparr>ce_id = ''qwen2.5-coder-1.5b-q4'', ce_display_name = ''Qwen 2.5 Coder '' @ middle_dot @ '' 1.5B'',
      ce_family = ''qwen-coder'', ce_arch = Ggml, params_b = 0x3FC00000, size_bytes = 986 * MB,
      ram_bytes_min = 2 * GB, hf_repo = ''Qwen/Qwen2.5-Coder-1.5B-Instruct-GGUF'',
      gguf_file = ''qwen2.5-coder-1.5b-instruct-q4_k_m.gguf'', tokenizer_repo = ''Qwen/Qwen2.5-Coder-1.5B-Instruct'',
      tokenizer_file = ''tokenizer.json'', ce_note = ''fast code completion'',
      block_count = 28, default_splits = SPLITS_28_4\<rparr>,
     \<lparr>ce_id = ''qwen2.5-coder-7b-q4'', ce_display_name = ''Qwen 2.5 Coder '' @ middle_dot @ '' 7B'',
      ce_family = ''qwen-coder'', ce_arch = Ggml, params_b = 0x40E00000, size_bytes = 47 * GB div 10,
      ram_bytes_min = 9 * GB, hf_repo = ''Qwen/Qwen2.5-Coder-7B-Instruct-GGUF'',
      gguf_file = ''qwen2.5-coder-7b-instruct-q4_k_m.gguf'', tokenizer_repo = ''Qwen/Qwen2.5-Coder-7B-Instruct'',
      tokenizer_file = ''tokenizer.json'', ce_note = ''quality code '' @ em_dash @ '' 16 GB+ machines'',
      block_count = 28, default_splits = SPLITS_28_4\<rparr>]"

definition catalog_find :: "string \<Rightarrow> catalog_entry option" where
  "catalog_find i = List.find (\<lambda>e. eq_ignore_ascii_case (ce_id e) i) CATALOG"

definition find_by_local_name :: "string \<Rightarrow> catalog_entry option" where
  "find_by_local_name name =
     List.find (\<lambda>e. eq_ignore_ascii_case (trim_end_matches ''.gguf'' (gguf_file e)) name) CATALOG"

section \<open>Splits\<close>

text \<open>Consecutive ranges from \<open>a\<close> to \<open>b\<close>, none empty.\<close>

fun covers :: "u16 \<Rightarrow> (u16 \<times> u16) list \<Rightarrow> u16 \<Rightarrow> bool" where
  "covers a [] b \<longleftrightarrow> a = b"
| "covers a ((s, e) # rs) b \<longleftrightarrow> s = a \<and> s < e \<and> covers e rs b"

text \<open>A layer lies in exactly one of the ranges of a cover.\<close>

lemma covers_le: "covers a rs b \<Longrightarrow> a \<le> b"
  by (induction a rs b rule: covers.induct) auto

lemma covers_unique:
  assumes "covers a rs b" "a \<le> l" "l < b"
  shows "length (filter (\<lambda>(s, e). s \<le> l \<and> l < e) rs) = 1"
  using assms
proof (induction a rs b rule: covers.induct)
  case (1 a b)
  then show ?case by simp
next
  case (2 a s e rs b)
  show ?case
  proof (cases "l < e")
    case True
    have "covers x rs b \<Longrightarrow> l < x \<Longrightarrow> filter (\<lambda>(s, e). s \<le> l \<and> l < e) rs = []" for x rs b
    proof (induction x rs b rule: covers.induct)
      case (2 x s e rs b)
      then have "l < e" using less_trans by auto
      with 2 show ?case by auto
    qed simp
    then show ?thesis using 2 True by auto
  next
    case False
    then show ?thesis using 2 by auto
  qed
qed

text \<open>
  The standard splits of every catalog entry partition its transformer blocks: they run from
  block zero to the block count without gap or overlap, so each block belongs to exactly one range
  the swarm announces and probes under.
\<close>

theorem catalog_splits_partition:
  "list_all (\<lambda>e. covers 0 (swarm_ranges e) (block_count e)) CATALOG \<and>
   (\<forall>e l. e \<in> set CATALOG \<and> l < block_count e \<longrightarrow>
      length (filter (\<lambda>(s, t). s \<le> l \<and> l < t) (swarm_ranges e)) = 1)"
proof -
  have c: "list_all (\<lambda>e. covers 0 (swarm_ranges e) (block_count e)) CATALOG"
    by (simp add: CATALOG_def swarm_ranges_def SPLITS_24_4_def SPLITS_28_4_def SPLITS_36_4_def)
  have "length (filter (\<lambda>(s, t). s \<le> l \<and> l < t) (swarm_ranges e)) = 1"
    if "e \<in> set CATALOG" "l < block_count e" for e l
    by (rule covers_unique [of 0 _ "block_count e"]) (use c that in \<open>auto simp: list_all_iff\<close>)
  with c show ?thesis by blast
qed

lemma catalog_splits_partition_witness:
  "length (filter (\<lambda>(s, t). s \<le> 13 \<and> 13 < t) SPLITS_28_4) = 1"
proof -
  let ?e = "CATALOG ! 1"
  have "?e \<in> set CATALOG" by (simp add: CATALOG_def)
  moreover have "swarm_ranges ?e = SPLITS_28_4" "block_count ?e = 28"
    by (simp_all add: CATALOG_def swarm_ranges_def SPLITS_28_4_def)
  ultimately show ?thesis
    using catalog_splits_partition [THEN conjunct2, rule_format, of ?e 13] by simp
qed

end
