(* ===== verification/Contribute.thy ===== *)
theory Contribute
  imports Chunker Catalog
begin

text \<open>
  Hosting sidecars and the split of a downloaded model, \<open>crates/app/src/contribute.rs\<close>. The JSON
  coders of the two sidecar types are the fields of \<open>sidecar_json\<close>; a failed write of a sidecar is
  not modelled, as the file system is ideal. What a failed run leaves on the disk is not modelled:
  \<open>start_split\<close> then returns no file system.
\<close>

record kept_ranges =
  kr_model_cid :: string
  kr_display_name :: string
  kr_block_count :: u16
  kr_gguf_path :: path
  kr_kept :: "(u16 \<times> u16) list"

type_synonym disabled_ranges = "(u16 \<times> u16) list"

record sidecar_json =
  kr_enc :: "kept_ranges \<Rightarrow> bytes"
  kr_dec :: "bytes \<Rightarrow> kept_ranges option"
  dr_enc :: "disabled_ranges \<Rightarrow> bytes"
  dr_dec :: "bytes \<Rightarrow> disabled_ranges option"

definition dr_roundtrip :: "sidecar_json \<Rightarrow> bool" where
  "dr_roundtrip J \<longleftrightarrow> (\<forall>d. dr_dec J (dr_enc J d) = Some d)"

datatype split_event =
    SplitStarted path path
  | SplitDone string nat u64 "(u16 \<times> u16) list" path
  | SplitError "chunk_error fault"

definition default_kept_ranges :: "catalog_entry \<Rightarrow> (u16 \<times> u16) list" where
  "default_kept_ranges e =
     (case default_splits e of [] \<Rightarrow> [(0, block_count e)] | r # _ \<Rightarrow> [r])"

definition shard_dir :: "path \<Rightarrow> string \<Rightarrow> path" where
  "shard_dir models_dir cid = join (join models_dir ''.shards'') cid"

definition disabled_path :: "path \<Rightarrow> path" where
  "disabled_path shard_root = join shard_root ''disabled_ranges.json''"

definition kept_path :: "path \<Rightarrow> path" where
  "kept_path shard_root = join shard_root ''kept_ranges.json''"

definition disabled_load :: "sidecar_json \<Rightarrow> fs \<Rightarrow> path \<Rightarrow> disabled_ranges" where
  "disabled_load J fs root =
     (case Option.bind (read_file fs (disabled_path root)) (dr_dec J) of Some d \<Rightarrow> d | None \<Rightarrow> [])"

definition disabled_contains :: "disabled_ranges \<Rightarrow> u16 \<Rightarrow> u16 \<Rightarrow> bool" where
  "disabled_contains d s e \<longleftrightarrow> list_ex (\<lambda>(a, b). a = s \<and> b = e) d"

text \<open>
  \<open>save\<close> is a plain write into the directory the sidecars were read from. The source gives its
  error back and the watchdog logs it and goes on, which leaves the file as it was; here it succeeds.
\<close>

definition disabled_save :: "sidecar_json \<Rightarrow> path \<Rightarrow> disabled_ranges \<Rightarrow> fs \<Rightarrow> fs" where
  "disabled_save J root d fs = write_file (disabled_path root) (dr_enc J d) fs"

definition disabled_add :: "u16 \<Rightarrow> u16 \<Rightarrow> disabled_ranges \<Rightarrow> disabled_ranges" where
  "disabled_add s e d = (if disabled_contains d s e then d else d @ [(s, e)])"

definition disabled_remove :: "u16 \<Rightarrow> u16 \<Rightarrow> disabled_ranges \<Rightarrow> disabled_ranges" where
  "disabled_remove s e d = filter (\<lambda>(a, b). \<not> (a = s \<and> b = e)) d"

definition start_split :: "sha \<Rightarrow> cid_str \<Rightarrow> to_json \<Rightarrow> sidecar_json \<Rightarrow> (bytes \<Rightarrow> bytes) \<Rightarrow> (bytes \<Rightarrow> string) \<Rightarrow>
    catalog_entry \<Rightarrow> path \<Rightarrow> path \<Rightarrow> fs \<Rightarrow> split_event list \<times> fs option" where
  "start_split sha cs to_json J b3 b58 entry local_path models_dir fs =
     (let cid = model_cid b3 b58 entry;
          kept = default_kept_ranges entry;
          root = shard_dir models_dir cid;
          opts = (chunker_options_new root)\<lparr>overwrite := True\<rparr>
      in case chunk_gguf sha cs to_json local_path opts fs of
           Inl e \<Rightarrow> ([SplitStarted local_path root, SplitError e], None)
         | Inr (out, fs') \<Rightarrow>
             let sidecar = \<lparr>kr_model_cid = cid, kr_display_name = ce_display_name entry,
                   kr_block_count = block_count entry, kr_gguf_path = local_path, kr_kept = kept\<rparr>
             in ([SplitStarted local_path root,
                  SplitDone (co_manifest_cid out) (co_n_bundles out) (co_bytes_written out) kept root],
                 Some (write_file (kept_path root) (kr_enc J sidecar) fs')))"

section \<open>Facts on the sidecars\<close>

lemma contains_add [simp]:
  "disabled_contains (disabled_add s e d) a b \<longleftrightarrow> disabled_contains d a b \<or> a = s \<and> b = e"
  by (auto simp: disabled_add_def disabled_contains_def list_ex_iff)

lemma contains_remove [simp]:
  "disabled_contains (disabled_remove s e d) a b \<longleftrightarrow> disabled_contains d a b \<and> \<not> (a = s \<and> b = e)"
  by (auto simp: disabled_remove_def disabled_contains_def list_ex_iff)

lemma add_idem: "disabled_add s e (disabled_add s e d) = disabled_add s e d"
  by (simp add: disabled_add_def disabled_contains_def list_ex_iff)

lemma load_save:
  "dr_roundtrip J \<Longrightarrow> disabled_load J (disabled_save J root d fs) root' =
    (if root' = root then d else disabled_load J fs root')"
  by (simp add: disabled_load_def disabled_save_def read_write_file disabled_path_def dr_roundtrip_def)

lemma kept_after_save [simp]:
  "read_file (disabled_save J root d fs) (kept_path r) = read_file fs (kept_path r)"
  by (simp add: disabled_save_def read_write_file disabled_path_def kept_path_def)

end
