(* ===== verification/Control.thy ===== *)
theory Control
  imports Bytes "HOL-Library.Multiset"
begin

text \<open>
  The daemon's control state, \<open>crates/app/src/control.rs\<close>: the slice state machine
  (Announcing, Draining, Stopped), chain admission with its guards, the watchdog's operations and
  the request dispatcher. Every operation holds the mutex for its whole body, so a run is a
  sequence of operations. \<open>Instant::now()\<close> is the argument \<open>now\<close>, in milliseconds.
\<close>

section \<open>Wire types and state\<close>

datatype slice_status = Announcing | Draining | Stopped

type_synonym slice_key = "string \<times> u16 \<times> u16"

datatype request =
    ReqStatus
  | ReqListHosted
  | ReqJoin string u16 u16
  | ReqLeave string u16 u16

record status_reply =
  sr_peer_id :: string
  sr_uptime_seconds :: u64
  sr_total_active_chains :: u32
  sr_hosted_slices :: u32

record hosted_slice =
  hs_cid :: string
  hs_display_name :: string
  hs_start :: u16
  hs_end :: u16
  hs_state :: slice_status
  hs_active_chains :: u32

datatype response =
    RespStatus status_reply
  | RespHosted "hosted_slice list"
  | RespJoined
  | RespLeaving
  | RespNotAnnouncing \<comment> \<open>\<open>Error: slice not currently announcing\<close>\<close>
  | RespBadRequest string \<comment> \<open>\<open>Error: bad request\<close> with the parser's message\<close>

record slice_entry =
  display_name :: string
  se_state :: slice_status
  active_chains :: u32
  draining_since :: "nat option"

record control_state =
  cs_peer_id :: string
  started_at :: nat
  slices :: "(slice_key \<times> slice_entry) list"

definition control_new :: "string \<Rightarrow> nat \<Rightarrow> control_state" where
  "control_new peer now = \<lparr>cs_peer_id = peer, started_at = now, slices = []\<rparr>"

section \<open>Operations\<close>

definition snapshot_status :: "nat \<Rightarrow> control_state \<Rightarrow> status_reply" where
  "snapshot_status now st =
     \<lparr>sr_peer_id = cs_peer_id st, sr_uptime_seconds = word_of_nat ((now - started_at st) div 1000),
      sr_total_active_chains = sum_list (map (active_chains \<circ> snd) (slices st)),
      sr_hosted_slices = word_of_nat (length (slices st))\<rparr>"

definition snapshot_hosted :: "control_state \<Rightarrow> hosted_slice list" where
  "snapshot_hosted st =
     map (\<lambda>((cid, s, e), entry).
       \<lparr>hs_cid = cid, hs_display_name = display_name entry, hs_start = s, hs_end = e,
        hs_state = se_state entry, hs_active_chains = active_chains entry\<rparr>) (slices st)"

definition upsert_announcing :: "slice_key \<Rightarrow> string \<Rightarrow> control_state \<Rightarrow> control_state" where
  "upsert_announcing key name st =
     st\<lparr>slices := btree_insert key
         (case map_of (slices st) key of
            Some e \<Rightarrow> e\<lparr>se_state := Announcing, display_name := name\<rparr>
          | None \<Rightarrow> \<lparr>display_name = name, se_state = Announcing, active_chains = 0, draining_since = None\<rparr>)
         (slices st)\<rparr>"

definition begin_drain :: "nat \<Rightarrow> slice_key \<Rightarrow> control_state \<Rightarrow> bool \<times> control_state" where
  "begin_drain now key st =
     (case map_of (slices st) key of
        Some e \<Rightarrow>
          if se_state e = Announcing
          then (True, st\<lparr>slices := btree_insert key (e\<lparr>se_state := Draining, draining_since := Some now\<rparr>) (slices st)\<rparr>)
          else (False, st)
      | None \<Rightarrow> (False, st))"

definition expired_draining :: "nat \<Rightarrow> nat \<Rightarrow> control_state \<Rightarrow> slice_key list" where
  "expired_draining now grace st =
     map fst (filter (\<lambda>(k, e). se_state e = Draining \<and>
       (case draining_since e of None \<Rightarrow> False | Some since \<Rightarrow> grace \<le> now - since)) (slices st))"

definition is_announcing :: "slice_key \<Rightarrow> control_state \<Rightarrow> bool" where
  "is_announcing key st =
     (case map_of (slices st) key of Some e \<Rightarrow> se_state e = Announcing | None \<Rightarrow> False)"

definition sat_inc :: "u32 \<Rightarrow> u32" where
  "sat_inc n = (if n = 0xFFFFFFFF then n else n + 1)"

definition sat_dec :: "u32 \<Rightarrow> u32" where
  "sat_dec n = (if n = 0 then 0 else n - 1)"

text \<open>Admission: \<open>True\<close> stands for the guard handed to the caller.\<close>

definition accept_chain :: "slice_key \<Rightarrow> control_state \<Rightarrow> bool \<times> control_state" where
  "accept_chain key st =
     (case map_of (slices st) key of
        Some e \<Rightarrow>
          if se_state e \<noteq> Announcing then (False, st)
          else (True, st\<lparr>slices := btree_insert key (e\<lparr>active_chains := sat_inc (active_chains e)\<rparr>) (slices st)\<rparr>)
      | None \<Rightarrow> (False, st))"

text \<open>What dropping or releasing a guard runs.\<close>

definition release_entry :: "slice_entry \<Rightarrow> slice_entry" where
  "release_entry e =
     (let e' = e\<lparr>active_chains := sat_dec (active_chains e)\<rparr>
      in if se_state e' = Draining \<and> active_chains e' = 0 then e'\<lparr>se_state := Stopped\<rparr> else e')"

definition release_chain :: "slice_key \<Rightarrow> control_state \<Rightarrow> slice_status option \<times> control_state" where
  "release_chain key st =
     (case map_of (slices st) key of
        Some e \<Rightarrow> (Some (se_state (release_entry e)),
                   st\<lparr>slices := btree_insert key (release_entry e) (slices st)\<rparr>)
      | None \<Rightarrow> (None, st))"

definition drain_idle :: "control_state \<Rightarrow> slice_key list \<times> control_state" where
  "drain_idle st =
     (let idle = (\<lambda>e. se_state e = Draining \<and> active_chains e = 0)
      in (map fst (filter (idle \<circ> snd) (slices st)),
          st\<lparr>slices := map (\<lambda>(k, e). (k, if idle e then e\<lparr>se_state := Stopped\<rparr> else e)) (slices st)\<rparr>))"

definition force_stop_all_draining :: "control_state \<Rightarrow> slice_key list \<times> control_state" where
  "force_stop_all_draining st =
     (map fst (filter (\<lambda>(k, e). se_state e = Draining) (slices st)),
      st\<lparr>slices := map (\<lambda>(k, e). (k, if se_state e = Draining
                                      then e\<lparr>se_state := Stopped, active_chains := 0\<rparr> else e)) (slices st)\<rparr>)"

section \<open>The control server\<close>

definition dispatch :: "nat \<Rightarrow> request \<Rightarrow> control_state \<Rightarrow> response \<times> control_state" where
  "dispatch now req st =
     (case req of
        ReqStatus \<Rightarrow> (RespStatus (snapshot_status now st), st)
      | ReqListHosted \<Rightarrow> (RespHosted (snapshot_hosted st), st)
      | ReqJoin cid s e \<Rightarrow> (RespJoined, upsert_announcing (cid, s, e) [] st)
      | ReqLeave cid s e \<Rightarrow>
          (let (ok, st') = begin_drain now (cid, s, e) st
           in (if ok then RespLeaving else RespNotAnnouncing, st')))"

text \<open>
  One connection: every line is a request, blank lines are skipped. \<open>parse\<close> is
  \<open>serde_json::from_str\<close>; a line comes with the time it is handled at.
\<close>

fun handle_client :: "(string \<Rightarrow> string + request) \<Rightarrow> (nat \<times> string) list \<Rightarrow> control_state \<Rightarrow>
    response list \<times> control_state" where
  "handle_client parse [] st = ([], st)"
| "handle_client parse ((now, line) # ls) st =
     (if str_blank line then handle_client parse ls st
      else let (resp, st') = (case parse line of
                                Inr req \<Rightarrow> dispatch now req st
                              | Inl e \<Rightarrow> (RespBadRequest e, st));
               (rest, st'') = handle_client parse ls st'
           in (resp # rest, st''))"

section \<open>Entries\<close>

definition entry :: "control_state \<Rightarrow> slice_key \<Rightarrow> slice_entry option" where
  "entry st k = map_of (slices st) k"

definition wf_control :: "control_state \<Rightarrow> bool" where
  "wf_control st \<longleftrightarrow> sorted_map (slices st)"

named_theorems control_ops \<open>effect of the operations on one entry\<close>

lemma wf_control_new [simp]: "wf_control (control_new p t)"
  by (simp add: wf_control_def control_new_def sorted_map_def)

lemma entry_new [simp]: "entry (control_new p t) k = None"
  by (simp add: entry_def control_new_def)

lemma wf_ops:
  assumes "wf_control st"
  shows "wf_control (upsert_announcing k n st)" "wf_control (snd (begin_drain now k st))"
    "wf_control (snd (accept_chain k st))" "wf_control (snd (release_chain k st))"
    "wf_control (snd (drain_idle st))" "wf_control (snd (force_stop_all_draining st))"
proof -
  show "wf_control (upsert_announcing k n st)"
    using assms by (simp add: upsert_announcing_def wf_control_def btree_insert_sorted)
  show "wf_control (snd (begin_drain now k st))" "wf_control (snd (accept_chain k st))"
    "wf_control (snd (release_chain k st))"
    using assms by (auto simp: begin_drain_def accept_chain_def release_chain_def wf_control_def
        btree_insert_sorted split: option.splits)
  have "sorted_map (map (\<lambda>(k, e). (k, f e)) m) = sorted_map m" for f :: "slice_entry \<Rightarrow> slice_entry" and m :: "(slice_key \<times> slice_entry) list"
    by (simp add: sorted_map_def comp_def split_beta)
  then show "wf_control (snd (drain_idle st))" "wf_control (snd (force_stop_all_draining st))"
    using assms by (simp_all add: drain_idle_def force_stop_all_draining_def wf_control_def Let_def)
qed

lemma entry_upsert [control_ops]:
  "wf_control st \<Longrightarrow> entry (upsert_announcing k n st) x =
    (if x = k then Some (case entry st k of
        Some e \<Rightarrow> e\<lparr>se_state := Announcing, display_name := n\<rparr>
      | None \<Rightarrow> \<lparr>display_name = n, se_state = Announcing, active_chains = 0, draining_since = None\<rparr>)
     else entry st x)"
  by (simp add: entry_def upsert_announcing_def wf_control_def btree_insert_lookup)

lemma entry_begin_drain [control_ops]:
  "wf_control st \<Longrightarrow> entry (snd (begin_drain now k st)) x =
    (if x = k then map_option (\<lambda>e. if se_state e = Announcing
        then e\<lparr>se_state := Draining, draining_since := Some now\<rparr> else e) (entry st k)
     else entry st x)"
  by (auto simp: entry_def begin_drain_def wf_control_def btree_insert_lookup split: option.splits)

lemma begin_drain_result:
  "fst (begin_drain now k st) \<longleftrightarrow> (\<exists>e. entry st k = Some e \<and> se_state e = Announcing)"
  by (auto simp: entry_def begin_drain_def split: option.splits)

lemma entry_accept [control_ops]:
  "wf_control st \<Longrightarrow> entry (snd (accept_chain k st)) x =
    (if x = k then map_option (\<lambda>e. if se_state e = Announcing
        then e\<lparr>active_chains := sat_inc (active_chains e)\<rparr> else e) (entry st k)
     else entry st x)"
  by (auto simp: entry_def accept_chain_def wf_control_def btree_insert_lookup split: option.splits)

lemma accept_result:
  "fst (accept_chain k st) \<longleftrightarrow> (\<exists>e. entry st k = Some e \<and> se_state e = Announcing)"
  by (auto simp: entry_def accept_chain_def split: option.splits)

lemma accept_refused: "\<not> fst (accept_chain k st) \<Longrightarrow> snd (accept_chain k st) = st"
  by (auto simp: accept_chain_def split: option.splits if_splits)

lemma entry_release [control_ops]:
  "wf_control st \<Longrightarrow> entry (snd (release_chain k st)) x =
    (if x = k then map_option release_entry (entry st k) else entry st x)"
  by (auto simp: entry_def release_chain_def wf_control_def btree_insert_lookup split: option.splits)

lemma entry_drain_idle [control_ops]:
  "entry (snd (drain_idle st)) x =
    map_option (\<lambda>e. if se_state e = Draining \<and> active_chains e = 0 then e\<lparr>se_state := Stopped\<rparr> else e) (entry st x)"
  using map_of_map_values [of "\<lambda>_ e. if se_state e = Draining \<and> active_chains e = 0 then e\<lparr>se_state := Stopped\<rparr> else e"]
  by (simp add: entry_def drain_idle_def Let_def)

lemma entry_force_stop [control_ops]:
  "entry (snd (force_stop_all_draining st)) x =
    map_option (\<lambda>e. if se_state e = Draining then e\<lparr>se_state := Stopped, active_chains := 0\<rparr> else e) (entry st x)"
  using map_of_map_values [of "\<lambda>_ e. if se_state e = Draining then e\<lparr>se_state := Stopped, active_chains := 0\<rparr> else e"]
  by (simp add: entry_def force_stop_all_draining_def)

lemma drain_idle_keys:
  "wf_control st \<Longrightarrow> k \<in> set (fst (drain_idle st)) \<longleftrightarrow>
    (\<exists>e. entry st k = Some e \<and> se_state e = Draining \<and> active_chains e = 0)"
  by (auto simp: drain_idle_def Let_def entry_def wf_control_def sorted_map_member [symmetric]
      in_keys_filter simp del: set_map)

lemma force_stop_keys:
  "wf_control st \<Longrightarrow> k \<in> set (fst (force_stop_all_draining st)) \<longleftrightarrow>
    (\<exists>e. entry st k = Some e \<and> se_state e = Draining)"
  by (auto simp: force_stop_all_draining_def entry_def wf_control_def sorted_map_member [symmetric]
      in_keys_filter simp del: set_map)

lemma expired_keys:
  "wf_control st \<Longrightarrow> k \<in> set (expired_draining now grace st) \<longleftrightarrow>
    (\<exists>e t. entry st k = Some e \<and> se_state e = Draining \<and> draining_since e = Some t \<and> grace \<le> now - t)"
  by (auto simp: expired_draining_def entry_def wf_control_def sorted_map_member [symmetric]
      in_keys_filter simp del: set_map split: option.splits)

section \<open>Runs\<close>

text \<open>
  The control state with the guards the forward sessions hold. A guard is released once, by
  \<open>release\<close> or by its drop; the daemon's tasks and clients interleave in any order.
\<close>

datatype cevent =
    EvUpsert slice_key string
  | EvDrain nat slice_key
  | EvAccept slice_key
  | EvRefuse slice_key
  | EvRelease slice_key
  | EvIdle
  | EvForce

type_synonym sys = "control_state \<times> slice_key list"

inductive cstep :: "sys \<Rightarrow> cevent \<Rightarrow> sys \<Rightarrow> bool" where
  upsert: "cstep (st, gs) (EvUpsert k n) (upsert_announcing k n st, gs)"
| drain: "cstep (st, gs) (EvDrain now k) (snd (begin_drain now k st), gs)"
| accept: "fst (accept_chain k st) \<Longrightarrow> cstep (st, gs) (EvAccept k) (snd (accept_chain k st), k # gs)"
| refuse: "\<not> fst (accept_chain k st) \<Longrightarrow> cstep (st, gs) (EvRefuse k) (snd (accept_chain k st), gs)"
| release: "k \<in> set gs \<Longrightarrow> cstep (st, gs) (EvRelease k) (snd (release_chain k st), remove1 k gs)"
| idle: "cstep (st, gs) EvIdle (snd (drain_idle st), gs)"
| force: "cstep (st, gs) EvForce (snd (force_stop_all_draining st), gs)"

inductive_cases cstep_cases: "cstep (st, gs) ev s'"

lemmas cstep_elim [consumes 1, case_names upsert drain accept refuse release idle force] = cstep_cases

inductive_simps cstep_simps:
  "cstep (st, gs) (EvUpsert k n) s'" "cstep (st, gs) (EvDrain now k) s'" "cstep (st, gs) (EvAccept k) s'"
  "cstep (st, gs) (EvRefuse k) s'" "cstep (st, gs) (EvRelease k) s'" "cstep (st, gs) EvIdle s'"
  "cstep (st, gs) EvForce s'"

inductive crun :: "sys \<Rightarrow> cevent list \<Rightarrow> sys \<Rightarrow> bool" where
  stop: "crun s [] s"
| step: "cstep s ev s' \<Longrightarrow> crun s' evs s'' \<Longrightarrow> crun s (ev # evs) s''"

lemma crun_snoc: "crun s evs s' \<Longrightarrow> cstep s' ev s'' \<Longrightarrow> crun s (evs @ [ev]) s''"
  by (induction rule: crun.induct) (auto intro: crun.intros)

lemma crun_induct [consumes 1, case_names base snoc]:
  assumes "crun s evs s'" and "P [] s"
    and "\<And>evs s' ev s''. crun s evs s' \<Longrightarrow> P evs s' \<Longrightarrow> cstep s' ev s'' \<Longrightarrow> P (evs @ [ev]) s''"
  shows "P evs s'"
proof -
  have "crun s0 pre s \<Longrightarrow> P pre s \<Longrightarrow> crun s0 (pre @ evs) s' \<and> P (pre @ evs) s'"
    if "crun s evs s'" "\<And>evs s' ev s''. crun s0 evs s' \<Longrightarrow> P evs s' \<Longrightarrow> cstep s' ev s'' \<Longrightarrow> P (evs @ [ev]) s''"
    for s0 s pre
    using that
  proof (induction arbitrary: pre rule: crun.induct)
    case (stop s)
    then show ?case by simp
  next
    case (step s ev s' evs s'')
    have "crun s0 (pre @ [ev]) s'" using step.prems(1) step.hyps(1) by (rule crun_snoc)
    moreover have "P (pre @ [ev]) s'" using step.prems step.hyps(1) by blast
    ultimately show ?case using step.IH [of "pre @ [ev]"] step.prems(3) by simp
  qed
  from this [OF assms(1,3) crun.stop assms(2)] show ?thesis by simp
qed

section \<open>The invariant\<close>

definition entry_inv :: "nat \<Rightarrow> bool \<Rightarrow> slice_entry \<Rightarrow> bool" where
  "entry_inv g exact e \<longleftrightarrow>
     (se_state e = Stopped \<longrightarrow> active_chains e = 0) \<and>
     (se_state e = Draining \<longrightarrow> draining_since e \<noteq> None) \<and>
     unat (active_chains e) \<le> g \<and> (exact \<longrightarrow> unat (active_chains e) = g)"

definition sys_inv :: "bool \<Rightarrow> sys \<Rightarrow> bool" where
  "sys_inv exact s \<longleftrightarrow> wf_control (fst s) \<and>
     (\<forall>k e. entry (fst s) k = Some e \<longrightarrow> entry_inv (count_list (snd s) k) exact e) \<and>
     (\<forall>k \<in> set (snd s). entry (fst s) k \<noteq> None)"

lemma sat_inc_unat: "unat n < 2 ^ 32 - 1 \<Longrightarrow> unat (sat_inc n) = unat n + 1"
  by (auto simp: sat_inc_def unat_word_ariths)

lemma sat_dec_unat: "unat (sat_dec n) = unat n - 1"
  by (simp add: sat_dec_def unat_minus_one)

lemma count_remove1: "count_list (remove1 x xs) y = (if x = y then count_list xs y - 1 else count_list xs y)"
proof (induction xs)
  case (Cons a xs)
  have "x \<notin> set xs \<Longrightarrow> count_list xs x = 0" by (simp add: count_list_0_iff)
  then show ?case using Cons by (cases "x \<in> set xs") (auto simp: count_list_0_iff Suc_diff_le neq0_conv [symmetric])
qed simp

lemma release_entry_active: "active_chains (release_entry e) = sat_dec (active_chains e)"
  by (simp add: release_entry_def Let_def)

lemma release_entry_inv:
  assumes "entry_inv g exact e" shows "entry_inv (g - 1) exact (release_entry e)"
  using assms by (auto simp: entry_inv_def release_entry_def Let_def sat_dec_unat sat_dec_def unat_minus_one)

lemma sys_inv_map:
  assumes inv: "sys_inv exact (st, gs)" and "wf_control st'"
    and "\<And>x. entry st' x = map_option (f x) (entry st x)"
    and "\<And>x g e. entry_inv g exact e \<Longrightarrow> entry_inv g exact' (f x e)"
  shows "sys_inv exact' (st', gs)"
  unfolding sys_inv_def fst_conv snd_conv
proof (intro conjI allI impI ballI)
  show "wf_control st'" by fact
  show "entry_inv (count_list gs k) exact' e" if "entry st' k = Some e" for k e
  proof -
    from that assms(3) [of k] obtain e0 where "entry st k = Some e0" "e = f k e0" by auto
    then show ?thesis using inv assms(4) unfolding sys_inv_def fst_conv snd_conv by blast
  qed
  show "entry st' k \<noteq> None" if "k \<in> set gs" for k
  proof -
    have "entry st k \<noteq> None" using inv that unfolding sys_inv_def fst_conv snd_conv by blast
    then show ?thesis by (simp add: assms(3))
  qed
qed

lemma sys_inv_step:
  assumes inv: "sys_inv exact s" and step: "cstep s ev s'" and small: "length (snd s) < 2 ^ 32 - 1"
    and exact: "exact' \<longrightarrow> exact \<and> ev \<noteq> EvForce"
  shows "sys_inv exact' s'"
proof -
  obtain st gs where s: "s = (st, gs)" by (cases s)
  have wf: "wf_control st" and e: "\<And>k e. entry st k = Some e \<Longrightarrow> entry_inv (count_list gs k) exact e"
    and g: "\<And>k. k \<in> set gs \<Longrightarrow> entry st k \<noteq> None"
    using inv by (auto simp: sys_inv_def s)
  have weak: "entry_inv n exact x \<Longrightarrow> entry_inv n exact' x" for n x
    using exact by (auto simp: entry_inv_def)
  note ops = wf_ops [OF wf] control_ops
  have cnt: "count_list gs k < 2 ^ 32 - 1" for k
    using small count_le_length [of gs k] by (simp add: s)
  from step show ?thesis unfolding s
  proof (cases rule: cstep_elim)
    case (upsert k n)
    have "entry st k = None \<Longrightarrow> k \<notin> set gs" using g by blast
    then have "entry st k = None \<Longrightarrow> count_list gs k = 0" by (simp add: count_list_0_iff)
    then show ?thesis using upsert wf e g weak
      by (auto simp: sys_inv_def ops entry_inv_def split: option.splits if_splits)
  next
    case (drain now k)
    have "entry (snd (begin_drain now k st)) x = map_option (\<lambda>e. if x = k \<and> se_state e = Announcing
        then e\<lparr>se_state := Draining, draining_since := Some now\<rparr> else e) (entry st x)" for x
      by (cases "x = k") (simp_all add: entry_begin_drain [OF wf] option.map_ident)
    from sys_inv_map [OF inv [unfolded s] wf_ops(2) [OF wf] this, of exact'] drain weak
    show ?thesis by (auto simp: entry_inv_def split: if_splits)
  next
    case (accept k)
    then obtain x where x: "entry st k = Some x" "se_state x = Announcing" by (auto simp: accept_result)
    have "unat (active_chains x) < 2 ^ 32 - 1" using e [OF x(1)] cnt [of k] by (simp add: entry_inv_def)
    then have "entry_inv (Suc (count_list gs k)) exact' (x\<lparr>active_chains := sat_inc (active_chains x)\<rparr>)"
      using weak [OF e [OF x(1)]] x by (auto simp: entry_inv_def sat_inc_unat)
    then show ?thesis using accept x wf e g weak by (auto simp: sys_inv_def ops split: if_splits)
  next
    case (refuse k)
    then show ?thesis using wf e g weak by (auto simp: sys_inv_def accept_refused)
  next
    case (release k)
    have "entry_inv (count_list (remove1 k gs) x) exact' y"
      if y: "entry (snd (release_chain k st)) x = Some y" for x y
    proof (cases "x = k")
      case True
      with y obtain e0 where "entry st k = Some e0" "y = release_entry e0"
        by (auto simp: entry_release [OF wf])
      then show ?thesis using weak [OF release_entry_inv [OF e]] True by (simp add: count_remove1)
    next
      case False
      then show ?thesis using y weak [OF e] by (simp add: entry_release [OF wf] count_remove1)
    qed
    moreover have "entry (snd (release_chain k st)) x \<noteq> None" if "x \<in> set (remove1 k gs)" for x
    proof -
      have "x \<in> set gs" by (rule subsetD [OF set_remove1_subset that])
      then have "entry st x \<noteq> None" by (rule g)
      then show ?thesis by (cases "x = k") (simp_all add: entry_release [OF wf])
    qed
    ultimately show ?thesis using release wf_ops(4) [OF wf] by (simp add: sys_inv_def)
  next
    case idle
    show ?thesis unfolding idle
      by (rule sys_inv_map [OF inv [unfolded s] wf_ops(5) [OF wf] entry_drain_idle])
        (use exact in \<open>auto simp: entry_inv_def\<close>)
  next
    case force
    show ?thesis unfolding force
      by (rule sys_inv_map [OF inv [unfolded s] wf_ops(6) [OF wf] entry_force_stop])
        (use exact force in \<open>auto simp: entry_inv_def\<close>)
  qed
qed

lemma crun_guards: "crun s evs s' \<Longrightarrow> length (snd s') \<le> length (snd s) + length evs"
proof (induction rule: crun.induct)
  case (step s ev s' evs s'')
  have "length (snd s') \<le> Suc (length (snd s))"
    using step.hyps(1) by (cases rule: cstep.cases) (auto simp: length_remove1)
  then show ?case using step.IH by simp
qed simp

lemma sys_inv_run:
  assumes "crun (control_new peer t, []) evs s" "length evs < 2 ^ 32 - 1"
  shows "sys_inv (EvForce \<notin> set evs) s"
  using assms
proof (induction rule: crun_induct)
  case base
  then show ?case by (simp add: sys_inv_def)
next
  case (snoc evs s' ev s'')
  have "length (snd s') < 2 ^ 32 - 1"
    using crun_guards [OF snoc.hyps(1)] snoc.prems by simp
  with snoc show ?case
    by (intro sys_inv_step [OF _ snoc.hyps(2), of "EvForce \<notin> set evs"]) auto
qed

text \<open>
  C3. In every state the daemon reaches from a fresh control state, under any interleaving of
  joins, leaves, admissions, refusals, guard drops, idle sweeps and watchdog force-stops: the slice
  map stays a map, a stopped slice has no active chains, a draining slice carries its drain time,
  the active count never exceeds the guards held, every guard's slice is listed; and as long as the
  watchdog has not force-stopped anything the count is exactly the number of guards.
\<close>

theorem control_invariant:
  assumes "crun (control_new peer t, []) evs (st, gs)" "length evs < 2 ^ 32 - 1"
  shows "wf_control st \<and> (\<forall>k \<in> set gs. entry st k \<noteq> None) \<and>
    (\<forall>k e. entry st k = Some e \<longrightarrow>
      (se_state e = Stopped \<longrightarrow> active_chains e = 0) \<and>
      (se_state e = Draining \<longrightarrow> draining_since e \<noteq> None) \<and>
      unat (active_chains e) \<le> count_list gs k \<and>
      (EvForce \<notin> set evs \<longrightarrow> unat (active_chains e) = count_list gs k))"
  using sys_inv_run [OF assms] unfolding sys_inv_def entry_inv_def fst_conv snd_conv by blast

lemma not_announcing_step:
  assumes "cstep s ev s'" "wf_control (fst s)" "\<not> is_announcing k (fst s)"
    and "\<And>n. ev \<noteq> EvUpsert k n"
  shows "wf_control (fst s')" "\<not> is_announcing k (fst s')" "ev \<noteq> EvAccept k"
proof -
  have ann: "is_announcing k st \<longleftrightarrow> (\<exists>e. entry st k = Some e \<and> se_state e = Announcing)" for k st
    by (simp add: is_announcing_def entry_def split: option.splits)
  obtain st gs where s: "s = (st, gs)" by (cases s)
  have wf: "wf_control st" and na: "entry st k = Some e \<Longrightarrow> se_state e \<noteq> Announcing" for e
    using assms(2,3) by (auto simp: s ann)
  note ops = wf_ops [OF wf]
  have "wf_control (fst s') \<and> \<not> is_announcing k (fst s') \<and> ev \<noteq> EvAccept k"
    using assms(1) unfolding s
  proof (cases rule: cstep_elim)
    case (upsert k' n)
    then have "k \<noteq> k'" using assms(4) by blast
    then show ?thesis using upsert ops na by (simp add: ann entry_upsert [OF wf])
  next
    case (drain now k')
    then show ?thesis using ops na by (auto simp: ann entry_begin_drain [OF wf] split: if_splits)
  next
    case (accept k')
    then have "k \<noteq> k'" using na by (auto simp: accept_result)
    then show ?thesis using accept ops na by (auto simp: ann entry_accept [OF wf])
  next
    case (refuse k')
    then show ?thesis using wf na by (auto simp: accept_refused ann)
  next
    case (release k')
    then show ?thesis using ops na
      by (auto simp: ann entry_release [OF wf] release_entry_def Let_def split: if_splits)
  next
    case idle
    then show ?thesis using ops na by (auto simp: ann entry_drain_idle split: if_splits)
  next
    case force
    then show ?thesis using ops na by (auto simp: ann entry_force_stop split: if_splits)
  qed
  then show "wf_control (fst s')" "\<not> is_announcing k (fst s')" "ev \<noteq> EvAccept k" by auto
qed

text \<open>
  C14. Drain safety: once a slice is not announcing (drained, stopped or unknown), no chain is
  admitted through it, whatever else happens, until a join or an announce tick registers it again.
\<close>

theorem drained_slice_refuses:
  assumes "crun (st, gs) evs (st', gs')" "wf_control st" "\<not> is_announcing k st"
    and "\<And>n. EvUpsert k n \<notin> set evs"
  shows "EvAccept k \<notin> set evs \<and> \<not> is_announcing k st' \<and> \<not> fst (accept_chain k st')"
proof -
  have "crun s evs s' \<Longrightarrow> wf_control (fst s) \<Longrightarrow> \<not> is_announcing k (fst s) \<Longrightarrow>
      (\<And>n. EvUpsert k n \<notin> set evs) \<Longrightarrow> EvAccept k \<notin> set evs \<and> \<not> is_announcing k (fst s')" for s evs s'
  proof (induction rule: crun.induct)
    case (step s ev s' evs s'')
    have "ev \<noteq> EvUpsert k n" for n using step.prems(3) [of n] by auto
    from not_announcing_step [OF step.hyps(1) step.prems(1,2) this] step.IH step.prems(3)
    show ?case by auto
  qed simp
  from this [OF assms(1)] assms(2-) have "EvAccept k \<notin> set evs" "\<not> is_announcing k st'" by auto
  then show ?thesis by (auto simp: accept_result is_announcing_def entry_def)
qed

text \<open>
  C13. A graceful drain completes: a draining slice with \<open>n > 0\<close> active chains is still draining
  while fewer than \<open>n\<close> guards have been dropped, and is stopped with no active chain after the
  \<open>n\<close>-th; other slices are untouched.
\<close>

theorem drain_completes:
  assumes "wf_control st" "entry st k = Some e" "se_state e = Draining" "0 < unat (active_chains e)"
    and "m \<le> unat (active_chains e)"
  shows "\<exists>e'. entry (((\<lambda>s. snd (release_chain k s)) ^^ m) st) k = Some e' \<and>
    unat (active_chains e') = unat (active_chains e) - m \<and>
    se_state e' = (if m = unat (active_chains e) then Stopped else Draining) \<and>
    (\<forall>x. x \<noteq> k \<longrightarrow> entry (((\<lambda>s. snd (release_chain k s)) ^^ m) st) x = entry st x)"
proof -
  have "m \<le> unat (active_chains e) \<Longrightarrow>
      wf_control (((\<lambda>s. snd (release_chain k s)) ^^ m) st) \<and>
      (\<exists>e'. entry (((\<lambda>s. snd (release_chain k s)) ^^ m) st) k = Some e' \<and>
        unat (active_chains e') = unat (active_chains e) - m \<and>
        se_state e' = (if m = unat (active_chains e) then Stopped else Draining)) \<and>
      (\<forall>x. x \<noteq> k \<longrightarrow> entry (((\<lambda>s. snd (release_chain k s)) ^^ m) st) x = entry st x)"
  proof (induction m)
    case 0
    then show ?case using assms(1-4) by auto
  next
    case (Suc m)
    let ?s = "((\<lambda>s. snd (release_chain k s)) ^^ m) st"
    from Suc obtain e' where wf: "wf_control ?s" and e': "entry ?s k = Some e'"
      "unat (active_chains e') = unat (active_chains e) - m" "se_state e' = Draining"
      and oth: "\<forall>x. x \<noteq> k \<longrightarrow> entry ?s x = entry st x" by auto
    have "unat (active_chains (release_entry e')) = unat (active_chains e) - Suc m"
      using e' by (simp add: release_entry_active sat_dec_unat)
    moreover have "se_state (release_entry e') = (if Suc m = unat (active_chains e) then Stopped else Draining)"
    proof -
      have "sat_dec (active_chains e') = 0 \<longleftrightarrow> unat (sat_dec (active_chains e')) = 0"
        by (simp only: unat_eq_0)
      also have "\<dots> \<longleftrightarrow> unat (active_chains e) - Suc m = 0" unfolding sat_dec_unat e'(2) by simp
      also have "\<dots> \<longleftrightarrow> Suc m = unat (active_chains e)" using Suc.prems by auto
      finally have z: "sat_dec (active_chains e') = 0 \<longleftrightarrow> Suc m = unat (active_chains e)" .
      have "se_state (release_entry e') = (if sat_dec (active_chains e') = 0 then Stopped else Draining)"
        using e'(3) by (simp add: release_entry_def Let_def)
      then show ?thesis unfolding z .
    qed
    ultimately show ?case using wf_ops(4) [OF wf] e'(1) oth by (auto simp: entry_release [OF wf])
  qed
  from this [OF assms(5)] show ?thesis by blast
qed

text \<open>
  After a watchdog force-stop the guards of the evicted chains are still out, and when the
  slice is joined again their late drops are charged to the new chains: for any draining slice with
  a guard out there is a run (force-stop, join, admit, drop of the old guard, leave, idle sweep)
  after which the slice is stopped while the new chain's guard is held.
\<close>

theorem stale_guard_stops_live_chain:
  assumes "wf_control st" "entry st k = Some e" "se_state e = Draining" "k \<in> set gs"
  shows "\<exists>st' gs' e'. crun (st, gs) [EvForce, EvUpsert k n, EvAccept k, EvRelease k, EvDrain t k, EvIdle] (st', gs') \<and>
    k \<in> set gs' \<and> entry st' k = Some e' \<and> se_state e' = Stopped \<and> length gs' = length gs"
proof -
  define s1 where "s1 = snd (force_stop_all_draining st)"
  define s2 where "s2 = upsert_announcing k n s1"
  define s3 where "s3 = snd (accept_chain k s2)"
  define s4 where "s4 = snd (release_chain k s3)"
  define s5 where "s5 = snd (begin_drain t k s4)"
  define s6 where "s6 = snd (drain_idle s5)"
  have w: "wf_control s1" "wf_control s2" "wf_control s3" "wf_control s4"
    using wf_ops assms(1) by (simp_all add: s1_def s2_def s3_def s4_def)
  have e1: "entry s1 k = Some (e\<lparr>se_state := Stopped, active_chains := 0\<rparr>)"
    using assms by (simp add: s1_def entry_force_stop)
  have e2: "entry s2 k = Some (e\<lparr>se_state := Announcing, active_chains := 0, display_name := n\<rparr>)"
    using e1 by (simp add: s2_def entry_upsert [OF w(1)])
  have a2: "fst (accept_chain k s2)" using e2 by (simp add: accept_result)
  have e3: "entry s3 k = Some (e\<lparr>se_state := Announcing, active_chains := 1, display_name := n\<rparr>)"
    using e2 by (simp add: s3_def entry_accept [OF w(2)] sat_inc_def)
  have e4: "entry s4 k = Some (e\<lparr>se_state := Announcing, active_chains := 0, display_name := n\<rparr>)"
    using e3 by (simp add: s4_def entry_release [OF w(3)] release_entry_def Let_def sat_dec_def)
  have e6: "\<exists>e'. entry s6 k = Some e' \<and> se_state e' = Stopped"
    using e4 by (simp add: s6_def s5_def entry_drain_idle entry_begin_drain [OF w(4)])
  let ?gs = "remove1 k (k # gs)"
  have c1: "cstep (st, gs) EvForce (s1, gs)" unfolding s1_def by (rule cstep.force)
  have c2: "cstep (s1, gs) (EvUpsert k n) (s2, gs)" unfolding s2_def by (rule cstep.upsert)
  have c3: "cstep (s2, gs) (EvAccept k) (s3, k # gs)" unfolding s3_def by (rule cstep.accept [OF a2])
  have c4: "cstep (s3, k # gs) (EvRelease k) (s4, ?gs)" unfolding s4_def by (rule cstep.release) simp
  have c5: "cstep (s4, ?gs) (EvDrain t k) (s5, ?gs)" unfolding s5_def by (rule cstep.drain)
  have c6: "cstep (s5, ?gs) EvIdle (s6, ?gs)" unfolding s6_def by (rule cstep.idle)
  note c = c1 c2 c3 c4 c5 c6
  have "crun (st, gs) [EvForce, EvUpsert k n, EvAccept k, EvRelease k, EvDrain t k, EvIdle] (s6, remove1 k (k # gs))"
    by (rule c [THEN crun.step] crun.stop)+
  then show ?thesis using e6 assms(4) by auto
qed

section \<open>A sample run\<close>

definition key0 :: slice_key where
  "key0 = (''cid'', 0, 12)"

text \<open>Joined, then admitted one chain, then told to drain.\<close>

definition ctl1 :: control_state where "ctl1 = upsert_announcing key0 ''m'' (control_new ''peer'' 0)"
definition ctl2 :: control_state where "ctl2 = snd (accept_chain key0 ctl1)"
definition ctl3 :: control_state where "ctl3 = snd (begin_drain 5 key0 ctl2)"

lemma sample_control:
  "wf_control ctl1" "wf_control ctl2" "wf_control ctl3"
  "entry ctl1 key0 = Some \<lparr>display_name = ''m'', se_state = Announcing, active_chains = 0, draining_since = None\<rparr>"
  "entry ctl2 key0 = Some \<lparr>display_name = ''m'', se_state = Announcing, active_chains = 1, draining_since = None\<rparr>"
  "entry ctl3 key0 = Some \<lparr>display_name = ''m'', se_state = Draining, active_chains = 1, draining_since = Some 5\<rparr>"
proof -
  show w: "wf_control ctl1" "wf_control ctl2" "wf_control ctl3"
    by (simp_all add: ctl1_def ctl2_def ctl3_def wf_ops)
  show e1: "entry ctl1 key0 = Some \<lparr>display_name = ''m'', se_state = Announcing, active_chains = 0, draining_since = None\<rparr>"
    by (simp add: ctl1_def entry_upsert)
  show e2: "entry ctl2 key0 = Some \<lparr>display_name = ''m'', se_state = Announcing, active_chains = 1, draining_since = None\<rparr>"
    unfolding ctl2_def by (simp add: entry_accept [OF w(1)] e1 sat_inc_def)
  show "entry ctl3 key0 = Some \<lparr>display_name = ''m'', se_state = Draining, active_chains = 1, draining_since = Some 5\<rparr>"
    unfolding ctl3_def by (simp add: entry_begin_drain [OF w(2)] e2)
qed

lemma sample_crun: "crun (control_new ''peer'' 0, []) [EvUpsert key0 ''m'', EvAccept key0] (ctl2, [key0])"
proof -
  have 1: "cstep (control_new ''peer'' 0, []) (EvUpsert key0 ''m'') (ctl1, [])"
    unfolding ctl1_def by (rule cstep.upsert)
  have "fst (accept_chain key0 ctl1)" using sample_control(4) by (simp add: accept_result)
  then have 2: "cstep (ctl1, []) (EvAccept key0) (ctl2, [key0])"
    unfolding ctl2_def by (rule cstep.accept)
  show ?thesis by (rule crun.step [OF 1 crun.step [OF 2 crun.stop]])
qed

lemma control_invariant_witness:
  "\<exists>e. entry ctl2 key0 = Some e \<and> unat (active_chains e) = count_list [key0] key0"
proof -
  obtain e where e: "entry ctl2 key0 = Some e" using sample_control(5) by blast
  have "length [EvUpsert key0 ''m'', EvAccept key0] < 2 ^ 32 - 1" by simp
  from control_invariant [OF sample_crun this] e
  have "EvForce \<notin> set [EvUpsert key0 ''m'', EvAccept key0] \<longrightarrow> unat (active_chains e) = count_list [key0] key0"
    by blast
  then show ?thesis using e by simp
qed

lemma drained_slice_refuses_witness:
  "crun (ctl3, [key0]) [EvRefuse key0, EvIdle] (snd (drain_idle ctl3), [key0]) \<and>
   \<not> fst (accept_chain key0 (snd (drain_idle ctl3)))"
proof -
  have "\<not> fst (accept_chain key0 ctl3)" using sample_control(6) by (simp add: accept_result)
  from cstep.refuse [OF this] accept_refused [OF this]
  have 1: "cstep (ctl3, [key0]) (EvRefuse key0) (ctl3, [key0])" by simp
  have run: "crun (ctl3, [key0]) [EvRefuse key0, EvIdle] (snd (drain_idle ctl3), [key0])"
    by (rule crun.step [OF 1 crun.step [OF cstep.idle crun.stop]])
  have "\<not> is_announcing key0 ctl3"
    using sample_control(6) by (simp add: is_announcing_def entry_def)
  from drained_slice_refuses [OF run sample_control(3) this] run show ?thesis by simp
qed

lemma drain_completes_witness:
  "\<exists>e'. entry (snd (release_chain key0 ctl3)) key0 = Some e' \<and> se_state e' = Stopped"
  using drain_completes [OF sample_control(3,6), of 1] by auto

lemma stale_guard_stops_live_chain_witness:
  "\<exists>st' gs' e'. crun (ctl3, [key0]) [EvForce, EvUpsert key0 ''m'', EvAccept key0, EvRelease key0,
      EvDrain 9 key0, EvIdle] (st', gs') \<and> key0 \<in> set gs' \<and> entry st' key0 = Some e' \<and> se_state e' = Stopped"
  using stale_guard_stops_live_chain [OF sample_control(3,6), of "[key0]" "''m''" 9] by auto

end
