(* ===== verification/Dht.thy ===== *)
theory Dht
  imports Catalog
begin

text \<open>
  Shard discovery, \<open>crates/net/src/dht.rs\<close>, and the per-model index on top of it,
  \<open>crates/net/src/swarm_index.rs\<close>. The Kademlia store is a parameter: \<open>get\<close> returns the values found
  under a key (or nothing when the query fails). BLAKE3 is \<open>b3\<close>, the CBOR coders of the two record
  types are the fields of \<open>cbor_dht\<close>.
\<close>

section \<open>Records and keys\<close>

record provider_record =
  pr_peer_id :: string
  pr_addrs :: "string list"
  pr_chunks_url :: "string option"
  pr_manifest_cid :: "string option"
  pr_forward_url :: "string option"
  pr_minted_at :: u64

record model_envelope =
  me_cid :: string
  me_display_name :: string
  me_arch :: string
  me_block_count :: u32
  me_total_bytes :: u64
  me_quant :: string

record cbor_dht =
  enc_provider :: "provider_record \<Rightarrow> bytes option"
  dec_provider :: "bytes \<Rightarrow> provider_record option"
  enc_envelope :: "model_envelope \<Rightarrow> bytes option"
  dec_envelope :: "bytes \<Rightarrow> model_envelope option"

definition shard_key_string :: "string \<Rightarrow> u16 \<Rightarrow> u16 \<Rightarrow> string" where
  "shard_key_string cid s e =
     ''intelnav/shard/v1|'' @ cid @ ''|'' @ dec_digits (unat s) @ ''|'' @ dec_digits (unat e)"

definition shard_key :: "(bytes \<Rightarrow> bytes) \<Rightarrow> string \<Rightarrow> u16 \<Rightarrow> u16 \<Rightarrow> bytes" where
  "shard_key b3 cid s e = b3 (str_bytes (shard_key_string cid s e))"

definition model_key_string :: "string \<Rightarrow> string" where
  "model_key_string cid = ''intelnav/model/v1|'' @ cid"

definition model_key :: "(bytes \<Rightarrow> bytes) \<Rightarrow> string \<Rightarrow> bytes" where
  "model_key b3 cid = b3 (str_bytes (model_key_string cid))"

text \<open>The command an announce puts on the swarm task's queue, \<open>None\<close> when encoding fails.\<close>

definition announce_shard :: "(bytes \<Rightarrow> bytes) \<Rightarrow> cbor_dht \<Rightarrow> string \<Rightarrow> u16 \<Rightarrow> u16 \<Rightarrow> provider_record \<Rightarrow>
    (bytes \<times> bytes) option" where
  "announce_shard b3 C cid s e r = map_option (\<lambda>v. (shard_key b3 cid s e, v)) (enc_provider C r)"

definition announce_model :: "(bytes \<Rightarrow> bytes) \<Rightarrow> cbor_dht \<Rightarrow> model_envelope \<Rightarrow> (bytes \<times> bytes) option" where
  "announce_model b3 C env = map_option (\<lambda>v. (model_key b3 (me_cid env), v)) (enc_envelope C env)"

definition find_shard_providers :: "(bytes \<Rightarrow> bytes) \<Rightarrow> cbor_dht \<Rightarrow> (bytes \<Rightarrow> bytes list option) \<Rightarrow>
    string \<Rightarrow> u16 \<Rightarrow> u16 \<Rightarrow> provider_record list option" where
  "find_shard_providers b3 C get cid s e =
     map_option (List.map_filter (dec_provider C)) (get (shard_key b3 cid s e))"

definition fetch_model_envelope :: "(bytes \<Rightarrow> bytes) \<Rightarrow> cbor_dht \<Rightarrow> (bytes \<Rightarrow> bytes list option) \<Rightarrow>
    string \<Rightarrow> model_envelope option option" where
  "fetch_model_envelope b3 C get cid =
     map_option (\<lambda>vs. case List.map_filter (dec_envelope C) vs of [] \<Rightarrow> None | env # _ \<Rightarrow> Some env)
       (get (model_key b3 cid))"

section \<open>The swarm index\<close>

record range_coverage =
  rc_start :: u16
  rc_end :: u16
  rc_providers :: "provider_record list"

record swarm_model =
  sm_cid :: string
  sm_envelope :: "model_envelope option"
  sm_ranges :: "range_coverage list"

definition unique_providers :: "swarm_model \<Rightarrow> nat" where
  "unique_providers m =
     length (remdups (concat (map (\<lambda>r. map pr_peer_id (rc_providers r)) (sm_ranges m))))"

definition gaps :: "swarm_model \<Rightarrow> (u16 \<times> u16) list" where
  "gaps m = map (\<lambda>r. (rc_start r, rc_end r)) (filter (\<lambda>r. rc_providers r = []) (sm_ranges m))"

definition fully_served :: "swarm_model \<Rightarrow> bool" where
  "fully_served m \<longleftrightarrow> sm_ranges m \<noteq> [] \<and> list_all (\<lambda>r. rc_providers r \<noteq> []) (sm_ranges m)"

definition probe_range :: "(bytes \<Rightarrow> bytes) \<Rightarrow> cbor_dht \<Rightarrow> (bytes \<Rightarrow> bytes list option) \<Rightarrow> string \<Rightarrow>
    u16 \<times> u16 \<Rightarrow> range_coverage" where
  "probe_range b3 C get cid = (\<lambda>(s, e).
     \<lparr>rc_start = s, rc_end = e,
      rc_providers = (case find_shard_providers b3 C get cid s e of Some ps \<Rightarrow> ps | None \<Rightarrow> [])\<rparr>)"

definition refresh_one :: "(bytes \<Rightarrow> bytes) \<Rightarrow> cbor_dht \<Rightarrow> (bytes \<Rightarrow> bytes list option) \<Rightarrow> string \<Rightarrow>
    (u16 \<times> u16) list \<Rightarrow> swarm_model" where
  "refresh_one b3 C get cid ranges =
     \<lparr>sm_cid = cid,
      sm_envelope = (case fetch_model_envelope b3 C get cid of Some v \<Rightarrow> v | None \<Rightarrow> None),
      sm_ranges = map (probe_range b3 C get cid) ranges\<rparr>"

definition refresh_many :: "(bytes \<Rightarrow> bytes) \<Rightarrow> cbor_dht \<Rightarrow> (bytes \<Rightarrow> bytes list option) \<Rightarrow>
    (string \<times> (u16 \<times> u16) list) list \<Rightarrow> swarm_model list" where
  "refresh_many b3 C get reqs = map (\<lambda>(cid, ranges). refresh_one b3 C get cid ranges) reqs"

section \<open>Properties\<close>

lemma append_sep_cancel:
  "c \<notin> set d \<Longrightarrow> c \<notin> set d' \<Longrightarrow> xs @ c # d = ys @ c # d' \<Longrightarrow> xs = ys \<and> d = d'"
proof (induction xs arbitrary: ys)
  case Nil
  then show ?case by (cases ys) auto
next
  case (Cons x xs)
  then show ?case by (cases ys) auto
qed

lemma digits_no_bar: "CHR ''|'' \<notin> set (dec_digits n)"
proof
  assume "CHR ''|'' \<in> set (dec_digits n)"
  then have "(of_char (CHR ''|'') :: nat) \<le> 57" using digit_char_code by blast
  then show False by simp
qed

text \<open>
  Distinct (model, start, end) triples are hashed from distinct strings, whatever the CID
  contains, and no shard string is a model string: no two slices share a DHT key unless BLAKE3
  collides.
\<close>

theorem dht_keys_separate:
  "(shard_key_string cid s e = shard_key_string cid' s' e' \<longleftrightarrow> cid = cid' \<and> s = s' \<and> e = e') \<and>
   (model_key_string cid = model_key_string cid' \<longleftrightarrow> cid = cid') \<and>
   shard_key_string cid s e \<noteq> model_key_string cid'"
proof -
  have "cid = cid' \<and> s = s' \<and> e = e'" if eq: "shard_key_string cid s e = shard_key_string cid' s' e'"
  proof -
    have "(cid @ ''|'' @ dec_digits (unat s)) @ CHR ''|'' # dec_digits (unat e)
        = (cid' @ ''|'' @ dec_digits (unat s')) @ CHR ''|'' # dec_digits (unat e')"
      using eq by (simp add: shard_key_string_def)
    from append_sep_cancel [OF digits_no_bar digits_no_bar this]
    have 1: "cid @ CHR ''|'' # dec_digits (unat s) = cid' @ CHR ''|'' # dec_digits (unat s')"
      and e: "dec_digits (unat e) = dec_digits (unat e')" by simp_all
    from append_sep_cancel [OF digits_no_bar digits_no_bar 1]
    have "cid = cid'" "dec_digits (unat s) = dec_digits (unat s')" by simp_all
    then show ?thesis using e dec_digits_inj by (metis unsigned_word_eqI)
  qed
  then show ?thesis by (auto simp: shard_key_string_def model_key_string_def)
qed

text \<open>
  When the index reports a catalog model as fully served, its gap list is empty and every
  transformer block of the model lies in a probed range with a provider, so a chain over the
  standard splits exists.
\<close>

theorem fully_served_serves_blocks:
  assumes "e \<in> set CATALOG" "m = refresh_one b3 C get cid (swarm_ranges e)"
  shows "(fully_served m \<longleftrightarrow> gaps m = []) \<and>
    (fully_served m \<and> l < block_count e \<longrightarrow>
      (\<exists>r \<in> set (sm_ranges m). rc_start r \<le> l \<and> l < rc_end r \<and> rc_providers r \<noteq> []))"
proof -
  have c: "covers 0 (swarm_ranges e) (block_count e)" "swarm_ranges e \<noteq> []"
    using assms(1) by (auto simp: CATALOG_def swarm_ranges_def SPLITS_24_4_def SPLITS_28_4_def SPLITS_36_4_def)
  have ne: "sm_ranges m \<noteq> []" using c(2) by (simp add: assms(2) refresh_one_def)
  have "fully_served m \<longleftrightarrow> gaps m = []"
    using ne by (auto simp: fully_served_def gaps_def filter_empty_conv list_all_iff)
  moreover have "\<exists>r \<in> set (sm_ranges m). rc_start r \<le> l \<and> l < rc_end r \<and> rc_providers r \<noteq> []"
    if "fully_served m" "l < block_count e"
  proof -
    have "length (filter (\<lambda>(s, e). s \<le> l \<and> l < e) (swarm_ranges e)) = 1"
      by (rule covers_unique [OF c(1) _ that(2)]) simp
    then have "filter (\<lambda>(s, e). s \<le> l \<and> l < e) (swarm_ranges e) \<noteq> []" by force
    then obtain p where p: "p \<in> set (swarm_ranges e)" "fst p \<le> l" "l < snd p"
      by (auto simp: filter_empty_conv)
    then have "probe_range b3 C get cid p \<in> set (sm_ranges m)" by (simp add: assms(2) refresh_one_def)
    moreover have "rc_start (probe_range b3 C get cid p) = fst p" "rc_end (probe_range b3 C get cid p) = snd p"
      by (simp_all add: probe_range_def split_beta)
    ultimately show ?thesis using that(1) p by (force simp: fully_served_def list_all_iff)
  qed
  ultimately show ?thesis by blast
qed

definition sample_record :: provider_record where
  "sample_record = \<lparr>pr_peer_id = ''p'', pr_addrs = [], pr_chunks_url = None, pr_manifest_cid = None,
     pr_forward_url = Some ''h:1'', pr_minted_at = 7\<rparr>"

definition sample_cbor :: cbor_dht where
  "sample_cbor = \<lparr>enc_provider = (\<lambda>_. Some []), dec_provider = (\<lambda>_. Some sample_record),
     enc_envelope = (\<lambda>_. None), dec_envelope = (\<lambda>_. None)\<rparr>"

lemma fully_served_serves_blocks_witness:
  "\<exists>r \<in> set (sm_ranges (refresh_one id sample_cbor (\<lambda>_. Some [[]]) ''c'' (swarm_ranges (CATALOG ! 0)))).
     rc_start r \<le> 5 \<and> 5 < rc_end r \<and> rc_providers r \<noteq> []"
proof -
  let ?m = "refresh_one id sample_cbor (\<lambda>_. Some [[]]) ''c'' (swarm_ranges (CATALOG ! 0))"
  have "CATALOG ! 0 \<in> set CATALOG" "block_count (CATALOG ! 0) = 24" by (simp_all add: CATALOG_def)
  moreover have "fully_served ?m"
    by (simp add: fully_served_def refresh_one_def probe_range_def find_shard_providers_def
        sample_cbor_def CATALOG_def swarm_ranges_def SPLITS_24_4_def map_filter_def)
  ultimately show ?thesis using fully_served_serves_blocks [OF _ refl, of "CATALOG ! 0" _ _ _ _ 5] by simp
qed

end
