(* ===== verification/Swarm_Node.thy ===== *)
theory Swarm_Node
  imports Contribute Control Dht
begin

text \<open>
  The hosting daemon's background work, \<open>crates/app/src/swarm_node.rs\<close>: the scan of the sidecars,
  the announce loop, the drain watchdog, persistence of drained slices and the graceful shutdown.
  Libp2p is a parameter: \<open>net_ok\<close> says whether an announce was accepted. Times are milliseconds.
  Relative paths resolve against \<open>cwd\<close>.
\<close>

definition ANNOUNCE_INTERVAL :: nat where "ANNOUNCE_INTERVAL = 5 * 60 * 1000"
definition DRAIN_GRACE :: nat where "DRAIN_GRACE = 5 * 60 * 1000"
definition WATCHDOG_INTERVAL :: nat where "WATCHDOG_INTERVAL = 30 * 1000"

section \<open>Scanning the shards directory\<close>

text \<open>The names of the directory entries, files and directories, in the order the file system lists them.\<close>

definition read_dir :: "path \<Rightarrow> fs \<Rightarrow> string list" where
  "read_dir d fs =
     remdups (map (\<lambda>(p, _). p ! length d)
       (filter (\<lambda>(p, _). length d < length p \<and> take (length d) p = d) fs))"

definition enabled_ranges :: "disabled_ranges \<Rightarrow> (u16 \<times> u16) list \<Rightarrow> (u16 \<times> u16) list" where
  "enabled_ranges d kept = filter (\<lambda>(s, e). \<not> disabled_contains d s e) kept"

definition scan_shard :: "sidecar_json \<Rightarrow> fs \<Rightarrow> path \<Rightarrow> kept_ranges option" where
  "scan_shard J fs root =
     (case Option.bind (read_file fs (kept_path root)) (kr_dec J) of
        None \<Rightarrow> None
      | Some k \<Rightarrow>
          let k' = k\<lparr>kr_kept := enabled_ranges (disabled_load J fs root) (kr_kept k)\<rparr>
          in if kr_kept k' \<noteq> [] then Some k' else None)"

definition scan_kept_ranges :: "sidecar_json \<Rightarrow> path \<Rightarrow> fs \<Rightarrow> kept_ranges list" where
  "scan_kept_ranges J models_dir fs =
     (let shards = join models_dir ''.shards''
      in List.map_filter (\<lambda>name. scan_shard J fs (join shards name)) (read_dir shards fs))"

section \<open>Boot\<close>

definition seed_model :: "kept_ranges \<Rightarrow> control_state \<Rightarrow> control_state" where
  "seed_model k st =
     foldl (\<lambda>st (s, e). upsert_announcing (kr_model_cid k, s, e) (kr_display_name k) st) st (kr_kept k)"

definition seed_control :: "string \<Rightarrow> nat \<Rightarrow> kept_ranges list \<Rightarrow> control_state" where
  "seed_control peer now kept = foldl (\<lambda>st k. seed_model k st) (control_new peer now) kept"

section \<open>Persisting drained slices\<close>

fun persist_stopped :: "sidecar_json \<Rightarrow> path \<Rightarrow> slice_key list \<Rightarrow> fs \<Rightarrow> fs" where
  "persist_stopped J models_dir [] fs = fs"
| "persist_stopped J models_dir ((cid, s, e) # ks) fs =
     (let root = shard_dir models_dir cid;
          d = disabled_add s e (disabled_load J fs root)
      in persist_stopped J models_dir ks (disabled_save J root d fs))"

definition persist_drained_slices :: "sidecar_json \<Rightarrow> path \<Rightarrow> control_state \<times> fs \<Rightarrow> control_state \<times> fs" where
  "persist_drained_slices J models_dir = (\<lambda>(st, fs).
     let (stopped, st') = drain_idle st
     in (st', if stopped = [] then fs else persist_stopped J models_dir stopped fs))"

section \<open>Watchdog\<close>

definition watchdog_tick :: "sidecar_json \<Rightarrow> path \<Rightarrow> nat \<Rightarrow> control_state \<times> fs \<Rightarrow> control_state \<times> fs" where
  "watchdog_tick J models_dir now = (\<lambda>(st, fs).
     if expired_draining now DRAIN_GRACE st = [] then (st, fs)
     else persist_drained_slices J models_dir (snd (force_stop_all_draining st), fs))"

section \<open>Announcing\<close>

definition manifest_cid_for :: "sha \<Rightarrow> cid_str \<Rightarrow> from_json \<Rightarrow> (bytes \<Rightarrow> string option) \<Rightarrow> fs \<Rightarrow> path \<Rightarrow> string option" where
  "manifest_cid_for sha cs from_json pull_source fs root =
     (case Option.bind (read_file fs (join root ''pull_source.json'')) pull_source of
        Some c \<Rightarrow> Some c
      | None \<Rightarrow>
          Option.bind (read_file fs (join root ''manifest.json'')) (\<lambda>bs.
            map_option (\<lambda>_. cid_string_for sha cs bs) (from_json_bytes from_json bs)))"

type_synonym announcement = "string \<times> u16 \<times> u16 \<times> provider_record"

record announce_env =
  ae_sha :: sha
  ae_cs :: cid_str
  ae_from_json :: from_json
  ae_pull_source :: "bytes \<Rightarrow> string option"
  ae_cwd :: path
  ae_peer :: string
  ae_listen :: "string list"
  ae_chunks_addr :: "string option"
  ae_forward_addr :: "string option"
  ae_net_ok :: "announcement \<Rightarrow> bool"

fun announce_ranges :: "string \<Rightarrow> string \<Rightarrow> provider_record \<Rightarrow> (u16 \<times> u16) list \<Rightarrow>
    control_state \<Rightarrow> announcement list \<Rightarrow> control_state \<times> announcement list" where
  "announce_ranges cid name rec [] st out = (st, out)"
| "announce_ranges cid name rec ((s, e) # rs) st out =
     (let key = (cid, s, e)
      in if is_announcing key st then announce_ranges cid name rec rs st (out @ [(cid, s, e, rec)])
         else case map_option se_state (map_of (slices st) key) of
                Some Announcing \<Rightarrow> announce_ranges cid name rec rs st out
              | Some Draining \<Rightarrow> announce_ranges cid name rec rs st out
              | _ \<Rightarrow> announce_ranges cid name rec rs (upsert_announcing key name st) (out @ [(cid, s, e, rec)]))"

definition announce_record :: "announce_env \<Rightarrow> u64 \<Rightarrow> fs \<Rightarrow> kept_ranges \<Rightarrow> provider_record" where
  "announce_record E now fs k =
     \<lparr>pr_peer_id = ae_peer E, pr_addrs = ae_listen E, pr_chunks_url = ae_chunks_addr E,
      pr_manifest_cid =
        (if kr_kept k = [] then None
         else manifest_cid_for (ae_sha E) (ae_cs E) (ae_from_json E) (ae_pull_source E) fs
                (shard_dir (ae_cwd E) (kr_model_cid k))),
      pr_forward_url = ae_forward_addr E, pr_minted_at = now\<rparr>"

fun announce_models :: "announce_env \<Rightarrow> u64 \<Rightarrow> fs \<Rightarrow> kept_ranges list \<Rightarrow> control_state \<Rightarrow> announcement list \<Rightarrow>
    control_state \<times> announcement list" where
  "announce_models E now fs [] st out = (st, out)"
| "announce_models E now fs (k # ks) st out =
     (let (st', out') = announce_ranges (kr_model_cid k) (kr_display_name k) (announce_record E now fs k)
                          (kr_kept k) st out
      in announce_models E now fs ks st' out')"

definition model_envelope_for :: "kept_ranges \<Rightarrow> model_envelope" where
  "model_envelope_for k =
     \<lparr>me_cid = kr_model_cid k, me_display_name = kr_display_name k, me_arch = [],
      me_block_count = ucast (kr_block_count k), me_total_bytes = 0, me_quant = []\<rparr>"

record announce_result =
  ar_state :: control_state
  ar_attempted :: "announcement list"
  ar_published :: nat
  ar_envelopes :: "model_envelope list"

definition announce_all :: "announce_env \<Rightarrow> u64 \<Rightarrow> fs \<Rightarrow> kept_ranges list \<Rightarrow> control_state \<Rightarrow> announce_result" where
  "announce_all E now fs kept st =
     (let (st', out) = announce_models E now fs kept st []
      in \<lparr>ar_state = st', ar_attempted = out, ar_published = length (filter (ae_net_ok E) out),
          ar_envelopes = map model_envelope_for kept\<rparr>)"

text \<open>One turn of the announce loop: persist, rescan, publish.\<close>

definition announce_tick :: "announce_env \<Rightarrow> sidecar_json \<Rightarrow> path \<Rightarrow> u64 \<Rightarrow> control_state \<times> fs \<Rightarrow>
    announce_result \<times> fs" where
  "announce_tick E J models_dir now = (\<lambda>s.
     let (st, fs) = persist_drained_slices J models_dir s;
         kept = scan_kept_ranges J models_dir fs
     in (announce_all E now fs kept st, fs))"

section \<open>Graceful shutdown\<close>

definition shutdown_drain :: "nat \<Rightarrow> control_state \<Rightarrow> control_state \<times> u32" where
  "shutdown_drain now st =
     (let snap = snapshot_hosted st
      in (foldl (\<lambda>st s. if hs_state s = Announcing
                        then snd (begin_drain now (hs_cid s, hs_start s, hs_end s) st) else st) st snap,
          sum_list (map hs_active_chains snap)))"

section \<open>Facts on the announce loop\<close>

lemma is_announcing_entry: "is_announcing k st \<longleftrightarrow> (\<exists>e. entry st k = Some e \<and> se_state e = Announcing)"
  by (simp add: is_announcing_def entry_def split: option.splits)

definition announced_keys :: "announcement list \<Rightarrow> slice_key set" where
  "announced_keys out = (\<lambda>(c, s, e, _). (c, s, e)) ` set out"

definition offered_keys :: "kept_ranges list \<Rightarrow> slice_key set" where
  "offered_keys kept = {(kr_model_cid k, s, e) | k s e. k \<in> set kept \<and> (s, e) \<in> set (kr_kept k)}"

definition vetoed :: "control_state \<Rightarrow> slice_key \<Rightarrow> bool" where
  "vetoed st x \<longleftrightarrow> (\<exists>e. entry st x = Some e \<and> se_state e = Draining)"

lemma announced_snoc [simp]:
  "announced_keys (out @ [(c, s, e, r)]) = insert (c, s, e) (announced_keys out)"
  by (simp add: announced_keys_def)

lemma announced_Nil [simp]: "announced_keys [] = {}"
  by (simp add: announced_keys_def)

text \<open>What one slice of the loop does.\<close>

definition announce_one :: "string \<Rightarrow> slice_key \<Rightarrow> control_state \<Rightarrow> control_state" where
  "announce_one name x st =
     (if is_announcing x st \<or> vetoed st x then st else upsert_announcing x name st)"

lemma announce_ranges_step:
  "announce_ranges cid name r ((s, e) # rs) st out =
     announce_ranges cid name r rs (announce_one name (cid, s, e) st)
       (if vetoed st (cid, s, e) then out else out @ [(cid, s, e, r)])"
  by (auto simp: Let_def announce_one_def vetoed_def entry_def is_announcing_def
      split: option.splits slice_status.splits)

lemma announce_one_wf: "wf_control st \<Longrightarrow> wf_control (announce_one name x st)"
  by (simp add: announce_one_def wf_ops)

lemma announce_one_vetoed:
  "wf_control st \<Longrightarrow> vetoed (announce_one name x st) y \<longleftrightarrow> vetoed st y"
  by (auto simp: announce_one_def vetoed_def entry_upsert is_announcing_entry split: option.splits)

lemma announce_one_announcing:
  "wf_control st \<Longrightarrow> is_announcing y (announce_one name x st) \<longleftrightarrow>
     is_announcing y st \<or> (y = x \<and> \<not> vetoed st x)"
  by (auto simp: announce_one_def vetoed_def entry_upsert is_announcing_entry split: option.splits)

lemma announce_ranges_facts:
  assumes "wf_control st" and "announce_ranges cid name r rs st out = (st', out')"
  shows "wf_control st' \<and> (\<forall>x. vetoed st' x \<longleftrightarrow> vetoed st x) \<and>
    (\<forall>x. is_announcing x st' \<longleftrightarrow> is_announcing x st \<or> (fst x = cid \<and> snd x \<in> set rs \<and> \<not> vetoed st x)) \<and>
    (\<forall>x. x \<in> announced_keys out' \<longleftrightarrow> x \<in> announced_keys out \<or> (fst x = cid \<and> snd x \<in> set rs \<and> \<not> vetoed st x))"
  using assms
proof (induction rs arbitrary: st out)
  case Nil
  then show ?case by simp
next
  case (Cons p rs)
  obtain s e where p: "p = (s, e)" by (cases p)
  let ?st = "announce_one name (cid, s, e) st"
  have run: "announce_ranges cid name r rs ?st (if vetoed st (cid, s, e) then out else out @ [(cid, s, e, r)]) = (st', out')"
    using Cons.prems(2) by (simp only: p announce_ranges_step)
  from Cons.IH [OF announce_one_wf [OF Cons.prems(1)] run]
  show ?case
    by (auto simp: p announce_one_vetoed [OF Cons.prems(1)] announce_one_announcing [OF Cons.prems(1)])
qed

lemma announce_models_facts:
  assumes "wf_control st" and "announce_models E now fs ks st out = (st', out')"
  shows "wf_control st' \<and> (\<forall>x. vetoed st' x \<longleftrightarrow> vetoed st x) \<and>
    (\<forall>x. is_announcing x st' \<longleftrightarrow> is_announcing x st \<or> (x \<in> offered_keys ks \<and> \<not> vetoed st x)) \<and>
    (\<forall>x. x \<in> announced_keys out' \<longleftrightarrow> x \<in> announced_keys out \<or> (x \<in> offered_keys ks \<and> \<not> vetoed st x))"
  using assms
proof (induction ks arbitrary: st out)
  case Nil
  then show ?case by (simp add: offered_keys_def)
next
  case (Cons k ks)
  obtain st1 out1 where r: "announce_ranges (kr_model_cid k) (kr_display_name k) (announce_record E now fs k)
      (kr_kept k) st out = (st1, out1)" by fastforce
  note f1 = announce_ranges_facts [OF Cons.prems(1) r]
  have "announce_models E now fs ks st1 out1 = (st', out')" using Cons.prems(2) r by simp
  note f2 = Cons.IH [OF conjunct1 [OF f1] this]
  have off: "x \<in> offered_keys (k # ks) \<longleftrightarrow>
      (fst x = kr_model_cid k \<and> snd x \<in> set (kr_kept k)) \<or> x \<in> offered_keys ks" for x
    by (cases x) (auto simp: offered_keys_def)
  show ?case unfolding off using f1 f2 by (intro conjI allI) blast+
qed

lemma announce_all_keys:
  assumes "wf_control st"
  shows "wf_control (ar_state (announce_all E now fs kept st))"
    "vetoed (ar_state (announce_all E now fs kept st)) x \<longleftrightarrow> vetoed st x"
    "is_announcing x (ar_state (announce_all E now fs kept st)) \<longleftrightarrow>
      is_announcing x st \<or> (x \<in> offered_keys kept \<and> \<not> vetoed st x)"
    "x \<in> announced_keys (ar_attempted (announce_all E now fs kept st)) \<longleftrightarrow> x \<in> offered_keys kept \<and> \<not> vetoed st x"
proof -
  obtain st' out' where r: "announce_models E now fs kept st [] = (st', out')" by fastforce
  have eq: "ar_state (announce_all E now fs kept st) = st'" "ar_attempted (announce_all E now fs kept st) = out'"
    by (simp_all add: announce_all_def r)
  note f = announce_models_facts [OF assms r, unfolded announced_Nil empty_iff simp_thms]
  show "wf_control (ar_state (announce_all E now fs kept st))" unfolding eq using f by blast
  show "vetoed (ar_state (announce_all E now fs kept st)) x \<longleftrightarrow> vetoed st x" unfolding eq using f by blast
  show "is_announcing x (ar_state (announce_all E now fs kept st)) \<longleftrightarrow>
      is_announcing x st \<or> (x \<in> offered_keys kept \<and> \<not> vetoed st x)" unfolding eq using f by blast
  show "x \<in> announced_keys (ar_attempted (announce_all E now fs kept st)) \<longleftrightarrow> x \<in> offered_keys kept \<and> \<not> vetoed st x"
    unfolding eq using f by blast
qed

section \<open>Persisted leaves\<close>

text \<open>Every sidecar names the model of its directory, as \<open>start_split\<close> and the swarm pull write it.\<close>

definition sidecars_ok :: "sidecar_json \<Rightarrow> path \<Rightarrow> fs \<Rightarrow> bool" where
  "sidecars_ok J models_dir fs \<longleftrightarrow>
     (\<forall>name bs k. read_file fs (kept_path (shard_dir models_dir name)) = Some bs \<longrightarrow> kr_dec J bs = Some k \<longrightarrow>
        kr_model_cid k = name)"

lemma persist_stopped_facts:
  assumes "dr_roundtrip J"
  shows "read_file (persist_stopped J md ks fs) (kept_path r) = read_file fs (kept_path r) \<and>
    (disabled_contains (disabled_load J (persist_stopped J md ks fs) (shard_dir md cid)) s e \<longleftrightarrow>
      disabled_contains (disabled_load J fs (shard_dir md cid)) s e \<or> (cid, s, e) \<in> set ks)"
proof (induction ks arbitrary: fs)
  case Nil
  then show ?case by simp
next
  case (Cons k ks)
  obtain c a b where k: "k = (c, a, b)" by (cases k)
  have "shard_dir md cid = shard_dir md c \<longleftrightarrow> cid = c" by (simp add: shard_dir_def)
  then show ?case using Cons by (auto simp: k Let_def load_save [OF assms])
qed

lemma offered_scan:
  assumes "sidecars_ok J md fs" "(cid, s, e) \<in> offered_keys (scan_kept_ranges J md fs)"
  shows "\<not> disabled_contains (disabled_load J fs (shard_dir md cid)) s e"
proof -
  from assms(2) obtain k where k: "k \<in> set (scan_kept_ranges J md fs)" "kr_model_cid k = cid" "(s, e) \<in> set (kr_kept k)"
    by (auto simp: offered_keys_def)
  from k(1) obtain name where "scan_shard J fs (shard_dir md name) = Some k"
    by (auto simp: scan_kept_ranges_def shard_dir_def map_filter_def Let_def)
  then obtain bs k0 where r: "read_file fs (kept_path (shard_dir md name)) = Some bs" "kr_dec J bs = Some k0"
    "k = k0\<lparr>kr_kept := enabled_ranges (disabled_load J fs (shard_dir md name)) (kr_kept k0)\<rparr>"
    by (auto simp: scan_shard_def Let_def bind_eq_Some_conv split: option.splits if_splits)
  with assms(1) have "kr_model_cid k0 = name" by (simp add: sidecars_ok_def)
  with r(3) k(2,3) show ?thesis by (auto simp: enabled_ranges_def)
qed

lemma persist_drained_facts:
  assumes "dr_roundtrip J" "wf_control st" "persist_drained_slices J md (st, fs) = (st', fs')"
  shows "st' = snd (drain_idle st)"
    "read_file fs' (kept_path r) = read_file fs (kept_path r)"
    "disabled_contains (disabled_load J fs' (shard_dir md cid)) s e \<longleftrightarrow>
      disabled_contains (disabled_load J fs (shard_dir md cid)) s e \<or>
      (\<exists>x. entry st (cid, s, e) = Some x \<and> se_state x = Draining \<and> active_chains x = 0)"
proof -
  obtain ks where d: "drain_idle st = (ks, st')" using assms(3)
    by (auto simp: persist_drained_slices_def split: prod.splits)
  then show "st' = snd (drain_idle st)" by simp
  have "fs' = persist_stopped J md ks fs"
    using assms(3) d by (auto simp: persist_drained_slices_def split: if_splits)
  moreover have "k \<in> set ks \<longleftrightarrow> (\<exists>x. entry st k = Some x \<and> se_state x = Draining \<and> active_chains x = 0)" for k
    using drain_idle_keys [OF assms(2), of k] d by simp
  ultimately show "read_file fs' (kept_path r) = read_file fs (kept_path r)"
    "disabled_contains (disabled_load J fs' (shard_dir md cid)) s e \<longleftrightarrow>
      disabled_contains (disabled_load J fs (shard_dir md cid)) s e \<or>
      (\<exists>x. entry st (cid, s, e) = Some x \<and> se_state x = Draining \<and> active_chains x = 0)"
    using persist_stopped_facts [OF assms(1)] by simp_all
qed

section \<open>Properties\<close>

text \<open>
  An announce tick honours the veto and nothing else: the shard records it sends are exactly
  the (model, range) pairs the sidecars on disk still offer and that are not draining in the control
  state, and these are afterwards the slices announcing besides those that already were.
\<close>

theorem announce_tick_exact:
  assumes "wf_control st" "announce_tick E J md now (st, fs) = (res, fs')"
  shows "announced_keys (ar_attempted res) =
      {x \<in> offered_keys (scan_kept_ranges J md fs'). \<not> vetoed (snd (drain_idle st)) x} \<and>
    (\<forall>x. is_announcing x (ar_state res) \<longleftrightarrow> is_announcing x st \<or> x \<in> announced_keys (ar_attempted res)) \<and>
    (\<forall>x. vetoed (ar_state res) x \<longleftrightarrow> vetoed (snd (drain_idle st)) x)"
proof -
  obtain st1 where p: "persist_drained_slices J md (st, fs) = (st1, fs')"
    and res: "res = announce_all E now fs' (scan_kept_ranges J md fs') st1"
    using assms(2) by (auto simp: announce_tick_def Let_def split: prod.splits)
  have st1: "st1 = snd (drain_idle st)"
    using p by (auto simp: persist_drained_slices_def split: prod.splits)
  have wf: "wf_control st1" unfolding st1 by (rule wf_ops(5) [OF assms(1)])
  have "is_announcing x st1 \<longleftrightarrow> is_announcing x st" for x
    by (cases "entry st x") (auto simp: st1 is_announcing_entry entry_drain_idle)
  with announce_all_keys [OF wf] show ?thesis unfolding res st1 [symmetric]
    by (intro conjI set_eqI allI) (simp_all only: mem_Collect_eq)
qed

text \<open>
  A leave of an idle slice is final: when the slice is draining with no active chain, the tick
  that stops it writes it into \<open>disabled_ranges.json\<close>, and neither that tick nor a scan of the
  resulting disk (a later tick or a restart) offers the slice again.
\<close>

theorem idle_leave_is_final:
  assumes "dr_roundtrip J" "wf_control st" "sidecars_ok J md fs"
    and "entry st (cid, s, e) = Some x" "se_state x = Draining" "active_chains x = 0"
    and "announce_tick E J md now (st, fs) = (res, fs')"
  shows "(cid, s, e) \<notin> offered_keys (scan_kept_ranges J md fs') \<and>
    (cid, s, e) \<notin> announced_keys (ar_attempted res) \<and>
    \<not> is_announcing (cid, s, e) (ar_state res)"
proof -
  obtain st1 where p: "persist_drained_slices J md (st, fs) = (st1, fs')"
    and res: "res = announce_all E now fs' (scan_kept_ranges J md fs') st1"
    using assms(7) by (auto simp: announce_tick_def Let_def split: prod.splits)
  note pd = persist_drained_facts [OF assms(1,2) p]
  have "sidecars_ok J md fs'" using assms(3) by (simp add: sidecars_ok_def pd(2))
  from offered_scan [OF this] have no: "(cid, s, e) \<notin> offered_keys (scan_kept_ranges J md fs')"
    using pd(3) assms(4-6) by blast
  have wf: "wf_control st1" unfolding pd(1) by (rule wf_ops(5) [OF assms(2)])
  have "\<not> is_announcing (cid, s, e) st1" using assms(4-6) by (simp add: pd(1) is_announcing_entry entry_drain_idle)
  with no announce_all_keys(3,4) [OF wf] show ?thesis unfolding res by blast
qed

lemma no_draining_drain_idle:
  assumes "wf_control st" "\<forall>x e. entry st x = Some e \<longrightarrow> se_state e \<noteq> Draining"
  shows "fst (drain_idle st) = []" "entry (snd (drain_idle st)) x = entry st x"
proof -
  have "k \<notin> set (fst (drain_idle st))" for k
    unfolding drain_idle_keys [OF assms(1)] using assms(2) [rule_format, of k] by blast
  then show "fst (drain_idle st) = []" by (metis list.set_intros(1) neq_Nil_conv)
  show "entry (snd (drain_idle st)) x = entry st x"
    using assms(2) [rule_format, of x] by (cases "entry st x") (auto simp: entry_drain_idle)
qed

text \<open>
  A leave with chains in flight is undone: when the last chain of a draining slice ends, the
  dropped guard stops the slice but nothing records the leave, so the next announce tick finds the
  range in its sidecar, registers the slice as announcing again and publishes it; the disk is
  unchanged. (No other slice is draining, so the tick has nothing else to persist.)
\<close>

theorem busy_leave_is_undone:
  assumes "wf_control st" "entry st k = Some x" "se_state x = Draining" "active_chains x = 1"
    and "\<And>y e. y \<noteq> k \<Longrightarrow> entry st y = Some e \<Longrightarrow> se_state e \<noteq> Draining"
    and "k \<in> offered_keys (scan_kept_ranges J md fs)"
    and "announce_tick E J md now (snd (release_chain k st), fs) = (res, fs')"
  shows "fst (release_chain k st) = Some Stopped \<and> fs' = fs \<and>
    k \<in> announced_keys (ar_attempted res) \<and> is_announcing k (ar_state res)"
proof -
  define st0 where "st0 = snd (release_chain k st)"
  have wf: "wf_control st0" unfolding st0_def by (rule wf_ops(4) [OF assms(1)])
  have rel: "release_entry x = x\<lparr>active_chains := 0, se_state := Stopped\<rparr>"
    using assms(3,4) by (simp add: release_entry_def Let_def sat_dec_def)
  have st0: "entry st0 y = (if y = k then Some (release_entry x) else entry st y)" for y
    unfolding st0_def using assms(2) by (simp add: entry_release [OF assms(1)])
  have nd1: "entry st0 y = Some e \<Longrightarrow> se_state e \<noteq> Draining" for y e
    by (cases "y = k") (auto simp: st0 rel dest: assms(5))
  then have nd: "\<forall>x e. entry st0 x = Some e \<longrightarrow> se_state e \<noteq> Draining" by blast
  note idle = no_draining_drain_idle [OF wf nd]
  obtain st1 where d: "drain_idle st0 = ([], st1)" using idle(1) by (metis prod.collapse)
  have e1: "entry st1 y = entry st0 y" for y using idle(2) [of y] d by simp
  have wf1: "wf_control st1" using wf_ops(5) [OF wf] d by simp
  have "announce_tick E J md now (st0, fs) = (announce_all E now fs (scan_kept_ranges J md fs) st1, fs)"
    by (simp add: announce_tick_def persist_drained_slices_def d)
  with assms(7) have res: "fs' = fs" "res = announce_all E now fs (scan_kept_ranges J md fs) st1"
    by (auto simp flip: st0_def)
  have "\<not> vetoed st1 k" using nd1 by (auto simp: vetoed_def e1)
  moreover have "fst (release_chain k st) = Some Stopped"
    using assms(2) rel by (simp add: release_chain_def flip: entry_def)
  ultimately show ?thesis
    using announce_all_keys(3,4) [OF wf1] assms(6) unfolding res by blast
qed

text \<open>
  The watchdog stops more than it should and records none of it: as soon as one draining slice
  has outlived its grace, every draining slice is stopped and its chain count cleared, however
  recently its drain began; and the call that is meant to persist the stops never writes anything.
\<close>

theorem watchdog_stops_all_records_none:
  "snd (watchdog_tick J md now (st, fs)) = fs \<and>
   (expired_draining now DRAIN_GRACE st \<noteq> [] \<longrightarrow>
     (\<forall>x. entry (fst (watchdog_tick J md now (st, fs))) x =
       map_option (\<lambda>e. if se_state e = Draining then e\<lparr>se_state := Stopped, active_chains := 0\<rparr> else e) (entry st x)))"
proof (cases "expired_draining now DRAIN_GRACE st = []")
  case True
  then show ?thesis by (simp add: watchdog_tick_def)
next
  case False
  define st1 where "st1 = snd (force_stop_all_draining st)"
  have nd: "(k, e) \<in> set (slices st1) \<Longrightarrow> se_state e \<noteq> Draining" for k e
    by (auto simp: st1_def force_stop_all_draining_def split: if_splits)
  have "filter ((\<lambda>e. se_state e = Draining \<and> active_chains e = 0) \<circ> snd) (slices st1) = []"
    using nd by (auto simp: filter_empty_conv)
  then have f: "fst (drain_idle st1) = []" by (simp add: drain_idle_def Let_def)
  have w: "watchdog_tick J md now (st, fs) = (snd (drain_idle st1), fs)"
    using False f by (simp add: watchdog_tick_def persist_drained_slices_def st1_def split_beta)
  have "entry (snd (drain_idle st1)) x =
      map_option (\<lambda>e. if se_state e = Draining then e\<lparr>se_state := Stopped, active_chains := 0\<rparr> else e) (entry st x)" for x
    by (cases "entry st x") (simp_all add: entry_drain_idle st1_def entry_force_stop)
  then show ?thesis by (simp add: w)
qed

section \<open>A sample disk\<close>

definition sample_dr_enc :: "disabled_ranges \<Rightarrow> bytes" where
  "sample_dr_enc d = concat (map (\<lambda>(a, b). le_bytes 2 (unat a) @ le_bytes 2 (unat b)) d)"

fun sample_dr_dec :: "bytes \<Rightarrow> disabled_ranges option" where
  "sample_dr_dec [] = Some []"
| "sample_dr_dec (a # b # c # d # bs) =
     map_option ((#) (word_of_nat (le_nat [a, b]), word_of_nat (le_nat [c, d]))) (sample_dr_dec bs)"
| "sample_dr_dec _ = None"

definition sample_kept :: kept_ranges where
  "sample_kept = \<lparr>kr_model_cid = ''cid'', kr_display_name = ''m'', kr_block_count = 12, kr_gguf_path = [],
     kr_kept = [(0, 12)]\<rparr>"

definition sample_sidecars :: sidecar_json where
  "sample_sidecars = \<lparr>kr_enc = (\<lambda>_. [1]), kr_dec = (\<lambda>bs. if bs = [1] then Some sample_kept else None),
     dr_enc = sample_dr_enc, dr_dec = sample_dr_dec\<rparr>"

definition sample_disk :: fs where
  "sample_disk = [([''.shards'', ''cid'', ''kept_ranges.json''], [1])]"

definition sample_env :: announce_env where
  "sample_env = \<lparr>ae_sha = sample_sha, ae_cs = sample_cs, ae_from_json = (\<lambda>_. None), ae_pull_source = (\<lambda>_. None),
     ae_cwd = [], ae_peer = ''peer'', ae_listen = [], ae_chunks_addr = None, ae_forward_addr = None,
     ae_net_ok = (\<lambda>_. True)\<rparr>"

lemma sample_roundtrip: "dr_roundtrip sample_sidecars"
proof -
  have le2: "word_of_nat (le_nat (le_bytes 2 (unat a))) = a" for a :: u16
  proof -
    have "unat a < 256 ^ 2" using unat_u16_less [of a] by simp
    then show ?thesis by (simp add: le_nat_le_bytes)
  qed
  have lb: "\<exists>x y. le_bytes 2 n = [x, y]" for n by (simp add: numeral_2_eq_2)
  have "sample_dr_dec (sample_dr_enc d) = Some d" for d
  proof (induction d)
    case (Cons p d)
    obtain a b where p: "p = (a, b)" by (cases p)
    obtain x y z w where xy: "le_bytes 2 (unat a) = [x, y]" "le_bytes 2 (unat b) = [z, w]" using lb by blast
    with le2 [of a] le2 [of b] Cons show ?case by (simp add: sample_dr_enc_def p)
  qed (simp add: sample_dr_enc_def)
  then show ?thesis by (simp add: dr_roundtrip_def sample_sidecars_def)
qed

lemma sample_sidecars_ok: "sidecars_ok sample_sidecars [] sample_disk"
  by (auto simp: sidecars_ok_def sample_sidecars_def sample_disk_def sample_kept_def read_file_def
      kept_path_def shard_dir_def join_def split: if_splits)

lemma sample_offered: "key0 \<in> offered_keys (scan_kept_ranges sample_sidecars [] sample_disk)"
  by (simp add: offered_keys_def scan_kept_ranges_def scan_shard_def sample_sidecars_def sample_disk_def
      read_dir_def read_file_def kept_path_def disabled_load_def disabled_path_def join_def map_filter_def
      sample_kept_def enabled_ranges_def disabled_contains_def key0_def Let_def)

lemma announce_tick_exact_witness:
  "announced_keys (ar_attempted (fst (announce_tick sample_env sample_sidecars [] 0 (ctl3, sample_disk)))) \<subseteq>
     {x. \<not> vetoed (snd (drain_idle ctl3)) x}"
proof -
  obtain res fs' where r: "announce_tick sample_env sample_sidecars [] 0 (ctl3, sample_disk) = (res, fs')" by fastforce
  from announce_tick_exact [OF sample_control(3) r] show ?thesis unfolding r by auto
qed

lemma idle_leave_is_final_witness:
  "\<exists>fs'. key0 \<notin> offered_keys (scan_kept_ranges sample_sidecars [] fs')"
proof -
  let ?st = "snd (begin_drain 5 key0 ctl1)"
  have e: "entry ?st key0 = Some \<lparr>display_name = ''m'', se_state = Draining, active_chains = 0, draining_since = Some 5\<rparr>"
    using sample_control(4) by (simp add: entry_begin_drain [OF sample_control(1)])
  obtain res fs' where r: "announce_tick sample_env sample_sidecars [] 0 (?st, sample_disk) = (res, fs')" by fastforce
  have "key0 \<notin> offered_keys (scan_kept_ranges sample_sidecars [] fs')"
    using idle_leave_is_final [OF sample_roundtrip wf_ops(2) [OF sample_control(1)] sample_sidecars_ok
      e [unfolded key0_def] _ _ r [unfolded key0_def]] by (simp add: key0_def)
  then show ?thesis ..
qed

lemma busy_leave_is_undone_witness:
  "key0 \<in> announced_keys (ar_attempted (fst (announce_tick sample_env sample_sidecars [] 0
     (snd (release_chain key0 ctl3), sample_disk))))"
proof -
  obtain res fs' where r: "announce_tick sample_env sample_sidecars [] 0
     (snd (release_chain key0 ctl3), sample_disk) = (res, fs')" by fastforce
  have nd: "y \<noteq> key0 \<Longrightarrow> entry ctl3 y = Some e \<Longrightarrow> se_state e \<noteq> Draining" for y e
    unfolding ctl3_def ctl2_def ctl1_def
    by (simp add: entry_begin_drain entry_accept entry_upsert wf_ops)
  from busy_leave_is_undone [OF sample_control(3,6) _ _ nd sample_offered r] show ?thesis unfolding r by simp
qed

lemma watchdog_stops_all_records_none_witness:
  "entry (fst (watchdog_tick sample_sidecars [] 400000 (ctl3, sample_disk))) key0 =
     Some \<lparr>display_name = ''m'', se_state = Stopped, active_chains = 0, draining_since = Some 5\<rparr>"
proof -
  have "key0 \<in> set (expired_draining 400000 DRAIN_GRACE ctl3)"
    using sample_control(6) by (simp add: expired_keys [OF sample_control(3)] DRAIN_GRACE_def)
  then have "expired_draining 400000 DRAIN_GRACE ctl3 \<noteq> []" by auto
  from watchdog_stops_all_records_none [of sample_sidecars "[]" 400000 ctl3 sample_disk, THEN conjunct2,
      rule_format, OF this, of key0] sample_control(6)
  show ?thesis by simp
qed

end
