(* ===== verification/Gate.thy ===== *)
theory Gate
  imports Swarm_Node
begin

text \<open>
  The contribution gate, \<open>crates/app/src/gate.rs\<close>. The hardware probe is the number of free bytes it
  reports; the configuration is its \<open>models_dir\<close> and \<open>relay_only\<close>.
\<close>

datatype hardware_tier = Capable | Modest | Constrained
datatype gate_pass = Hosting | Relay

record suggestion =
  sg_entry :: catalog_entry
  sg_range :: "u16 \<times> u16"
  sg_fit :: fit

datatype gate_state =
    Pass gate_pass
  | NeedsContribution "suggestion option" hardware_tier

definition classify_hardware :: "u64 \<Rightarrow> hardware_tier" where
  "classify_hardware free =
     (if list_ex (\<lambda>e. \<not> size_bytes e < 4 * 1024 * 1024 * 1024 \<and> ram_bytes_min e \<le> free) CATALOG then Capable
      else if 1024 * 1024 * 1024 \<le> free then Modest
      else Constrained)"

definition hosts_any_slice :: "sidecar_json \<Rightarrow> path \<Rightarrow> fs \<Rightarrow> bool" where
  "hosts_any_slice J models_dir fs =
     (let shards = join models_dir ''.shards''
      in list_ex (\<lambda>name.
           let root = join shards name
           in case Option.bind (read_file fs (kept_path root)) (kr_dec J) of
                None \<Rightarrow> False
              | Some k \<Rightarrow> list_ex (\<lambda>(s, e). \<not> disabled_contains (disabled_load J fs root) s e) (kr_kept k))
         (read_dir shards fs))"

section \<open>The suggestion\<close>

definition range_span :: "u16 \<times> u16 \<Rightarrow> u64" where
  "range_span r = ucast (snd r - fst r)"

definition slice_ram :: "catalog_entry \<Rightarrow> u16 \<times> u16 \<Rightarrow> u64" where
  "slice_ram e r = sat_mul (ram_bytes_min e) (range_span r) div ucast (max (block_count e) 1)"

definition slice_fit :: "u64 \<Rightarrow> catalog_entry \<Rightarrow> u16 \<times> u16 \<Rightarrow> fit" where
  "slice_fit free e r = fit_of free (slice_ram e r)"

definition better :: "suggestion \<Rightarrow> suggestion \<Rightarrow> bool" where
  "better prev cand =
     (case (sg_fit prev, sg_fit cand) of
        (Tight, Fits) \<Rightarrow> True
      | (Fits, Tight) \<Rightarrow> False
      | _ \<Rightarrow>
          if size_bytes (sg_entry cand) \<noteq> size_bytes (sg_entry prev)
          then size_bytes (sg_entry cand) < size_bytes (sg_entry prev)
          else range_span (sg_range cand) < range_span (sg_range prev))"

definition consider_slice :: "u64 \<Rightarrow> suggestion option \<Rightarrow> catalog_entry \<times> (u16 \<times> u16) \<Rightarrow> suggestion option" where
  "consider_slice free best = (\<lambda>(e, r).
     if slice_fit free e r = TooBig then best
     else let cand = \<lparr>sg_entry = e, sg_range = r, sg_fit = slice_fit free e r\<rparr>
          in case best of
               None \<Rightarrow> Some cand
             | Some prev \<Rightarrow> Some (if better prev cand then cand else prev))"

text \<open>Both loops, over the entries of a catalog and the ranges of each.\<close>

definition best_of :: "u64 \<Rightarrow> catalog_entry list \<Rightarrow> suggestion option" where
  "best_of free entries =
     foldl (\<lambda>best e. foldl (\<lambda>best r. consider_slice free best (e, r)) best (swarm_ranges e)) None entries"

definition best_suggestion :: "u64 \<Rightarrow> suggestion option" where
  "best_suggestion free = best_of free CATALOG"

definition check_gate :: "sidecar_json \<Rightarrow> path \<Rightarrow> bool \<Rightarrow> u64 \<Rightarrow> fs \<Rightarrow> gate_state" where
  "check_gate J models_dir relay_only free fs =
     (if hosts_any_slice J models_dir fs then Pass Hosting
      else if relay_only then Pass Relay
      else NeedsContribution (best_suggestion free) (classify_hardware free))"

section \<open>Ranking\<close>

text \<open>The order the comparison implements: fit, then model size, then span.\<close>

definition fit_rank :: "fit \<Rightarrow> nat" where
  "fit_rank f = (case f of Fits \<Rightarrow> 0 | Tight \<Rightarrow> 1 | TooBig \<Rightarrow> 2)"

definition sg_rank :: "suggestion \<Rightarrow> nat \<times> u64 \<times> u64" where
  "sg_rank s = (fit_rank (sg_fit s), size_bytes (sg_entry s), range_span (sg_range s))"

lemma better_rank:
  "sg_fit prev \<noteq> TooBig \<Longrightarrow> sg_fit cand \<noteq> TooBig \<Longrightarrow> better prev cand \<longleftrightarrow> sg_rank cand < sg_rank prev"
  by (cases "sg_fit prev"; cases "sg_fit cand") (auto simp: better_def sg_rank_def fit_rank_def)

text \<open>The candidates, in the order the loops meet them.\<close>

definition candidates :: "u64 \<Rightarrow> catalog_entry list \<Rightarrow> suggestion list" where
  "candidates free entries =
     [\<lparr>sg_entry = e, sg_range = r, sg_fit = slice_fit free e r\<rparr>.
        e \<leftarrow> entries, r \<leftarrow> swarm_ranges e, slice_fit free e r \<noteq> TooBig]"

definition is_best :: "suggestion list \<Rightarrow> suggestion option \<Rightarrow> bool" where
  "is_best cs b \<longleftrightarrow>
     (case b of None \<Rightarrow> cs = []
      | Some s \<Rightarrow> s \<in> set cs \<and> sg_fit s \<noteq> TooBig \<and> (\<forall>c \<in> set cs. sg_rank s \<le> sg_rank c))"

lemma consider_best:
  assumes "is_best cs b" "\<forall>c \<in> set cs. sg_fit c \<noteq> TooBig"
  shows "is_best (cs @ (if slice_fit free e r = TooBig then []
      else [\<lparr>sg_entry = e, sg_range = r, sg_fit = slice_fit free e r\<rparr>])) (consider_slice free b (e, r))"
proof (cases "slice_fit free e r = TooBig")
  case True
  then show ?thesis using assms(1) by (simp add: consider_slice_def)
next
  case False
  let ?c = "\<lparr>sg_entry = e, sg_range = r, sg_fit = slice_fit free e r\<rparr>"
  show ?thesis
  proof (cases b)
    case None
    then show ?thesis using assms(1) False by (simp add: consider_slice_def is_best_def)
  next
    case (Some s)
    with assms(1) have s: "s \<in> set cs" "sg_fit s \<noteq> TooBig" "\<forall>c \<in> set cs. sg_rank s \<le> sg_rank c"
      by (simp_all add: is_best_def)
    have "better s ?c \<longleftrightarrow> sg_rank ?c < sg_rank s" using s(2) False by (intro better_rank) simp_all
    then show ?thesis using s False Some
      by (auto simp: consider_slice_def is_best_def Let_def intro: order.trans less_imp_le)
  qed
qed

lemma consider_entry_best:
  assumes "is_best cs b" "\<forall>c \<in> set cs. sg_fit c \<noteq> TooBig"
  shows "is_best (cs @ [\<lparr>sg_entry = e, sg_range = r, sg_fit = slice_fit free e r\<rparr>. r \<leftarrow> rs, slice_fit free e r \<noteq> TooBig])
    (foldl (\<lambda>best r. consider_slice free best (e, r)) b rs)"
  using assms
proof (induction rs arbitrary: cs b)
  case (Cons r rs)
  have fits: "\<forall>c \<in> set (cs @ (if slice_fit free e r = TooBig then []
      else [\<lparr>sg_entry = e, sg_range = r, sg_fit = slice_fit free e r\<rparr>])). sg_fit c \<noteq> TooBig"
    using Cons.prems(2) by auto
  from Cons.IH [OF consider_best [OF Cons.prems] fits] show ?case
    by (cases "slice_fit free e r = TooBig") simp_all
qed simp

lemma best_of_best: "is_best (candidates free entries) (best_of free entries)"
proof (induction entries rule: rev_induct)
  case Nil
  then show ?case by (simp add: candidates_def best_of_def is_best_def)
next
  case (snoc e es)
  have "\<forall>c \<in> set (candidates free es). sg_fit c \<noteq> TooBig" by (auto simp: candidates_def)
  from consider_entry_best [OF snoc this, where e = e and rs = "swarm_ranges e"] show ?case
    by (simp add: candidates_def best_of_def)
qed

text \<open>
  The suggestion is optimal: it is a range of a catalog entry that is not too big for the
  machine, no other such range ranks before it (comfortable before tight, smaller model before
  larger, shorter range before longer), and there is none exactly when every range is too big.
\<close>

theorem best_suggestion_optimal:
  "case best_suggestion free of
     None \<Rightarrow> \<forall>e \<in> set CATALOG. \<forall>r \<in> set (swarm_ranges e). slice_fit free e r = TooBig
   | Some s \<Rightarrow> sg_entry s \<in> set CATALOG \<and> sg_range s \<in> set (swarm_ranges (sg_entry s)) \<and>
       sg_fit s = slice_fit free (sg_entry s) (sg_range s) \<and> sg_fit s \<noteq> TooBig \<and>
       (\<forall>e \<in> set CATALOG. \<forall>r \<in> set (swarm_ranges e). slice_fit free e r \<noteq> TooBig \<longrightarrow>
          sg_rank s \<le> (fit_rank (slice_fit free e r), size_bytes e, range_span r))"
proof -
  have c: "s \<in> set (candidates free CATALOG) \<longleftrightarrow> sg_entry s \<in> set CATALOG \<and>
      sg_range s \<in> set (swarm_ranges (sg_entry s)) \<and> sg_fit s = slice_fit free (sg_entry s) (sg_range s) \<and>
      sg_fit s \<noteq> TooBig" for s
    by (cases s) (auto simp: candidates_def)
  note b = best_of_best [of free CATALOG, folded best_suggestion_def]
  show ?thesis
  proof (cases "best_suggestion free")
    case None
    with b have "candidates free CATALOG = []" by (simp add: is_best_def)
    then have "\<forall>s. s \<notin> set (candidates free CATALOG)" by simp
    then have "slice_fit free e r = TooBig" if "e \<in> set CATALOG" "r \<in> set (swarm_ranges e)" for e r
      using c [of "\<lparr>sg_entry = e, sg_range = r, sg_fit = slice_fit free e r\<rparr>"] that by auto
    then show ?thesis by (simp add: None)
  next
    case (Some s)
    with b have s: "s \<in> set (candidates free CATALOG)" "\<forall>c \<in> set (candidates free CATALOG). sg_rank s \<le> sg_rank c"
      by (simp_all add: is_best_def)
    have "sg_rank s \<le> (fit_rank (slice_fit free e r), size_bytes e, range_span r)"
      if "e \<in> set CATALOG" "r \<in> set (swarm_ranges e)" "slice_fit free e r \<noteq> TooBig" for e r
      using s(2) [rule_format, of "\<lparr>sg_entry = e, sg_range = r, sg_fit = slice_fit free e r\<rparr>"]
        c [of "\<lparr>sg_entry = e, sg_range = r, sg_fit = slice_fit free e r\<rparr>"] that by (simp add: sg_rank_def)
    then show ?thesis using s(1) unfolding c by (auto simp: Some)
  qed
qed

text \<open>
  The gate opens exactly for the peers the announce loop can publish for, or that opted into
  relaying: it reports \<open>Hosting\<close> if and only if the scan of the sidecars finds a slice to announce.
\<close>

theorem gate_agrees_with_scan:
  "(check_gate J md relay free fs = Pass Hosting \<longleftrightarrow> scan_kept_ranges J md fs \<noteq> []) \<and>
   (check_gate J md relay free fs = Pass Relay \<longleftrightarrow> scan_kept_ranges J md fs = [] \<and> relay)"
proof -
  have one: "(case Option.bind (read_file fs (kept_path root)) (kr_dec J) of None \<Rightarrow> False
      | Some k \<Rightarrow> list_ex (\<lambda>(s, e). \<not> disabled_contains (disabled_load J fs root) s e) (kr_kept k)) \<longleftrightarrow>
      scan_shard J fs root \<noteq> None" for root
    by (auto simp: scan_shard_def Let_def enabled_ranges_def list_ex_iff filter_empty_conv split: option.splits)
  have "hosts_any_slice J md fs \<longleftrightarrow> scan_kept_ranges J md fs \<noteq> []"
    unfolding hosts_any_slice_def scan_kept_ranges_def Let_def one
    by (auto simp: list_ex_iff map_filter_def filter_empty_conv)
  then show ?thesis by (simp add: check_gate_def)
qed

text \<open>
  What the tiers mean: \<open>Capable\<close> is having the memory of a whole 7B model, nine GiB. The
  suggestion already offers a comfortable slice of a 7B model at a third of that, so a machine can
  fit such a slice and still be classified \<open>Modest\<close>.
\<close>

theorem capable_means_whole_model:
  "(classify_hardware free = Capable \<longleftrightarrow> 9 * GB \<le> free) \<and>
   classify_hardware (3 * GB) = Modest \<and>
   (\<exists>e \<in> set CATALOG. 4 * GB \<le> size_bytes e \<and> (\<forall>r \<in> set (swarm_ranges e). slice_fit (3 * GB) e r = Fits))"
proof (intro conjI)
  show c: "classify_hardware free = Capable \<longleftrightarrow> 9 * GB \<le> free" for free
    by (auto simp: classify_hardware_def CATALOG_def GB_def MB_def)
  show "classify_hardware (3 * GB) = Modest"
  proof -
    have "classify_hardware (3 * GB) \<noteq> Capable" using c [of "3 * GB"] by (simp add: GB_def)
    then show ?thesis by (simp add: classify_hardware_def GB_def split: if_splits)
  qed
  have "CATALOG ! 3 \<in> set CATALOG" by (simp add: CATALOG_def)
  moreover have "4 * GB \<le> size_bytes (CATALOG ! 3)" by (simp add: CATALOG_def GB_def)
  moreover have "slice_fit (3 * GB) (CATALOG ! 3) r = Fits" if "r \<in> set (swarm_ranges (CATALOG ! 3))" for r
    using that by (auto simp: CATALOG_def swarm_ranges_def SPLITS_28_4_def slice_fit_def slice_ram_def
        fit_of_def sat_mul_def range_span_def GB_def)
  ultimately show "\<exists>e \<in> set CATALOG. 4 * GB \<le> size_bytes e \<and>
      (\<forall>r \<in> set (swarm_ranges e). slice_fit (3 * GB) e r = Fits)" by blast
qed

lemma best_suggestion_optimal_witness:
  "\<exists>s. best_suggestion GB = Some s \<and> sg_rank s \<le> (0, 398 * MB, 6)"
proof -
  let ?e = "CATALOG ! 0"
  have e: "?e \<in> set CATALOG" "(0, 6) \<in> set (swarm_ranges ?e)" "size_bytes ?e = 398 * MB" "range_span (0, 6) = 6"
    "slice_fit GB ?e (0, 6) = Fits"
    by (simp_all add: CATALOG_def swarm_ranges_def SPLITS_24_4_def slice_fit_def slice_ram_def fit_of_def
        sat_mul_def range_span_def GB_def MB_def)
  show ?thesis
  proof (cases "best_suggestion GB")
    case None
    with best_suggestion_optimal [of GB] e show ?thesis by auto
  next
    case (Some s)
    with best_suggestion_optimal [of GB] have
      "\<forall>e \<in> set CATALOG. \<forall>r \<in> set (swarm_ranges e). slice_fit GB e r \<noteq> TooBig \<longrightarrow>
          sg_rank s \<le> (fit_rank (slice_fit GB e r), size_bytes e, range_span r)" by simp
    from this [rule_format, OF e(1,2)] e(3-5) Some show ?thesis by (simp add: fit_rank_def)
  qed
qed

lemma capable_means_whole_model_witness: "classify_hardware (9 * GB) = Capable"
  using capable_means_whole_model [of "9 * GB"] by simp

end
