(* ===== verification/Base58.thy ===== *)
theory Base58
  imports Bytes
begin

text \<open>
  The base58 coder of peer identifiers, module \<open>bs58\<close> of \<open>crates/core/src/ids.rs\<close>, and \<open>PeerId\<close>'s
  parser and display. A \<open>u32\<close> digit is a \<open>nat\<close>: every accumulator stays below \<open>58 * 256\<close>
  (\<open>push_bounds\<close>), so the machine arithmetic never wraps. A \<open>char\<close> of the source is its Unicode
  code point, as the decoder truncates it to a byte.
\<close>

definition ALPHABET :: "nat list" where
  "ALPHABET = map of_char ''123456789ABCDEFGHJKLMNPQRSTUVWXYZabcdefghijkmnopqrstuvwxyz''"

text \<open>\<open>for digit in num.iter_mut()\<close>: multiply by \<open>m\<close> and add the carry, least significant digit first.\<close>

fun mul_add :: "nat \<Rightarrow> nat \<Rightarrow> nat list \<Rightarrow> nat \<Rightarrow> nat list \<times> nat" where
  "mul_add m b [] carry = ([], carry)"
| "mul_add m b (d # ds) carry =
     (let acc = d * m + carry;
          (ds', c) = mul_add m b ds (acc div b)
      in (acc mod b # ds', c))"

text \<open>\<open>while carry > 0\<close>.\<close>

function flush_carry :: "nat \<Rightarrow> nat \<Rightarrow> nat list" where
  "flush_carry b carry = (if 1 < b \<and> 0 < carry then carry mod b # flush_carry b (carry div b) else [])"
  by pat_completeness auto
termination by (relation "measure snd") auto

declare flush_carry.simps [simp del]

definition push_digit :: "nat \<Rightarrow> nat \<Rightarrow> nat list \<Rightarrow> nat \<Rightarrow> nat list" where
  "push_digit m b num x = (let (ds, c) = mul_add m b num x in ds @ flush_carry b c)"

definition b58_encode :: "bytes \<Rightarrow> nat list" where
  "b58_encode input =
     (let leading = length (takeWhile (\<lambda>x. x = 0) input);
          num = foldl (\<lambda>num x. push_digit 256 58 num (unat x)) [] input
      in replicate leading (ALPHABET ! 0) @ map (\<lambda>d. ALPHABET ! d) (rev num))"

definition alphabet_index :: "nat \<Rightarrow> nat option" where
  "alphabet_index c =
     map_option fst (List.find (\<lambda>(i, x). x = c mod 256) (enumerate 0 ALPHABET))"

fun decode_digits :: "nat list \<Rightarrow> nat list \<Rightarrow> nat + nat list" where
  "decode_digits num [] = Inr num"
| "decode_digits num (c # cs) =
     rbind (ok_or c (alphabet_index c)) (\<lambda>idx. decode_digits (push_digit 58 256 num idx) cs)"

text \<open>The error is the character that is not in the alphabet.\<close>

definition b58_decode :: "nat list \<Rightarrow> nat + bytes" where
  "b58_decode input =
     (let leading = length (takeWhile (\<lambda>c. c = 49) input)
      in rbind (decode_digits [] input) (\<lambda>num.
           Inr (replicate leading 0 @ map word_of_nat (rev num))))"

section \<open>Peer identifiers\<close>

datatype peer_id = PeerId bytes

definition peer_id_wf :: "peer_id \<Rightarrow> bool" where
  "peer_id_wf p = (case p of PeerId bs \<Rightarrow> length bs = 32)"

definition peer_display :: "peer_id \<Rightarrow> nat list" where
  "peer_display p = (case p of PeerId bs \<Rightarrow> b58_encode bs)"

datatype peer_parse_error = InvalidChar nat | NotThirtyTwo

definition peer_from_str :: "nat list \<Rightarrow> peer_parse_error + peer_id" where
  "peer_from_str s =
     rbind (map_err InvalidChar (b58_decode s)) (\<lambda>bs.
       if length bs = 32 then Inr (PeerId bs) else Inl NotThirtyTwo)"

text \<open>The abbreviated form: six characters, an ellipsis, six characters.\<close>

definition peer_short :: "peer_id \<Rightarrow> 'e fault + nat list" where
  "peer_short p =
     (let s = peer_display p
      in rbind (rust_slice s 0 6) (\<lambda>a.
           if length s < 6 then Inl Panic
           else rbind (rust_slice s (length s - 6) (length s)) (\<lambda>z. Inr (a @ [0x2026] @ z))))"

section \<open>Digit lists\<close>

text \<open>The value of a digit list, least significant first, and its canonical lists.\<close>

fun val :: "nat \<Rightarrow> nat list \<Rightarrow> nat" where
  "val b [] = 0"
| "val b (d # ds) = d + b * val b ds"

definition canon :: "nat \<Rightarrow> nat list \<Rightarrow> bool" where
  "canon b ds \<longleftrightarrow> (\<forall>d \<in> set ds. d < b) \<and> (ds \<noteq> [] \<longrightarrow> last ds \<noteq> 0)"

lemma val_append: "val b (xs @ ys) = val b xs + b ^ length xs * val b ys"
  by (induction xs) (simp_all add: algebra_simps)

lemma flush_carry_val: "1 < b \<Longrightarrow> val b (flush_carry b c) = c \<and> canon b (flush_carry b c)"
proof (induction b c rule: flush_carry.induct)
  case (1 b c)
  show ?case
  proof (cases "0 < c")
    case True
    with 1 have ih: "val b (flush_carry b (c div b)) = c div b" "canon b (flush_carry b (c div b))" by auto
    have "flush_carry b (c div b) = [] \<Longrightarrow> c div b = 0" using ih(1) by (metis val.simps(1))
    then have "flush_carry b (c div b) = [] \<Longrightarrow> c mod b \<noteq> 0" using True by (metis div_mult_mod_eq add_0 mult_0 less_irrefl)
    then show ?thesis using ih True 1(2) by (subst (1 2) flush_carry.simps) (auto simp: canon_def)
  qed (use 1 in \<open>simp add: flush_carry.simps canon_def\<close>)
qed

lemma mul_add_val:
  "mul_add m b ds c = (ds', c') \<Longrightarrow> val b ds' + b ^ length ds * c' = m * val b ds + c \<and> length ds' = length ds"
proof (induction m b ds c arbitrary: ds' c' rule: mul_add.induct)
  case (2 m b d ds carry)
  let ?acc = "d * m + carry"
  obtain e c where r: "mul_add m b ds (?acc div b) = (e, c)" by fastforce
  with 2(2) have ds': "ds' = ?acc mod b # e" "c' = c" by (simp_all add: Let_def)
  from 2(1) [OF refl r] have ih: "val b e + b ^ length ds * c = m * val b ds + ?acc div b" "length e = length ds" by simp_all
  have "b * (val b e + b ^ length ds * c) = b * (m * val b ds) + b * (?acc div b)" unfolding ih(1) by (simp add: algebra_simps)
  then have "b * val b e + b * b ^ length ds * c = b * m * val b ds + b * (?acc div b)" by (simp add: algebra_simps)
  then have "(?acc mod b + b * val b e) + b * b ^ length ds * c = b * m * val b ds + (?acc mod b + b * (?acc div b))"
    by linarith
  also have "?acc mod b + b * (?acc div b) = ?acc" by (rule mod_mult_div_eq)
  finally show ?case using ih(2) by (simp add: ds' algebra_simps)
qed simp

lemma mul_add_digits: "0 < b \<Longrightarrow> mul_add m b ds c = (ds', c') \<Longrightarrow> \<forall>d \<in> set ds'. d < b"
  by (induction m b ds c arbitrary: ds' c' rule: mul_add.induct) (auto simp: Let_def split: prod.splits)

text \<open>The accumulators and carries are small: with digits below \<open>b\<close>, factor \<open>m\<close> and carry below \<open>m\<close>.\<close>

lemma push_bounds:
  fixes d :: nat assumes "d < b" "c < m" shows "d * m + c < b * m" "(d * m + c) div b < m"
proof -
  have "d * m + c < d * m + m" using assms(2) by simp
  also have "\<dots> = Suc d * m" by simp
  also have "\<dots> \<le> b * m" using assms(1) by (intro mult_le_mono1) simp
  finally show "d * m + c < b * m" .
  then show "(d * m + c) div b < m" by (simp add: less_mult_imp_div_less mult.commute)
qed

lemma canon_bound: "canon b ds \<Longrightarrow> ds \<noteq> [] \<Longrightarrow> b ^ (length ds - 1) \<le> val b ds"
proof (induction ds)
  case (Cons d ds)
  show ?case
  proof (cases "ds = []")
    case True
    then show ?thesis using Cons.prems by (simp add: canon_def)
  next
    case False
    with Cons have "b ^ (length ds - 1) \<le> val b ds" by (simp add: canon_def)
    then have "b * b ^ (length ds - 1) \<le> b * val b ds" by simp
    then have "b ^ length ds \<le> b * val b ds" using False by (cases ds) simp_all
    then show ?thesis by simp
  qed
qed simp

lemma val_bound: "(\<forall>d \<in> set ds. d < b) \<Longrightarrow> val b ds < b ^ length ds"
proof (induction ds)
  case (Cons d ds)
  then have "d < b" "Suc (val b ds) \<le> b ^ length ds" by simp_all
  then have "b * Suc (val b ds) \<le> b * b ^ length ds" by (intro mult_le_mono2)
  then show ?case using \<open>d < b\<close> by simp
qed simp

lemma canon_unique: "canon b xs \<Longrightarrow> canon b ys \<Longrightarrow> val b xs = val b ys \<Longrightarrow> xs = ys"
proof (induction xs arbitrary: ys)
  case Nil
  have "ys = []"
  proof (rule ccontr)
    assume "ys \<noteq> []"
    with canon_bound [OF Nil(2) this] Nil(3) have "b ^ (length ys - 1) = 0" by simp
    then have "b = 0" by simp
    then show False using Nil(2) \<open>ys \<noteq> []\<close> by (auto simp: canon_def)
  qed
  then show ?case by simp
next
  case (Cons x xs)
  show ?case
  proof (cases ys)
    case Nil
    with canon_bound [OF Cons.prems(1)] Cons.prems(3) have "b ^ length xs \<le> 0"
      by (simp del: val.simps(2) power_eq_0_iff)
    then have "b = 0" by simp
    moreover have "x < b" using Cons.prems(1) by (simp add: canon_def)
    ultimately show ?thesis by simp
  next
    case (Cons y zs)
    have lt: "x < b" "y < b" using Cons.prems Cons by (simp_all add: canon_def)
    have eq: "x + b * val b xs = y + b * val b zs" using Cons.prems(3) Cons by simp
    then have "(x + b * val b xs) mod b = (y + b * val b zs) mod b" by simp
    then have xy: "x = y" using lt by simp
    then have "val b xs = val b zs" using eq lt by simp
    moreover have "canon b xs" "canon b zs" using Cons.prems Cons by (auto simp: canon_def split: if_splits)
    ultimately show ?thesis using Cons.IH [of zs] xy Cons by simp
  qed
qed

lemma push_digit_spec:
  assumes "1 < b" "0 < m" "canon b num" "x < m"
  shows "canon b (push_digit m b num x) \<and> val b (push_digit m b num x) = m * val b num + x"
proof -
  obtain ds c where r: "mul_add m b num x = (ds, c)" by fastforce
  note v = mul_add_val [OF r] and d = mul_add_digits [OF _ r] and f = flush_carry_val [OF assms(1), of c]
  have val: "val b (push_digit m b num x) = m * val b num + x"
    using v f by (simp add: push_digit_def r val_append)
  have "last (ds @ flush_carry b c) \<noteq> 0" if ne: "ds @ flush_carry b c \<noteq> []"
  proof (cases "c = 0")
    case False
    then have "flush_carry b c \<noteq> []" using f by (metis val.simps(1))
    then show ?thesis using f by (simp add: canon_def)
  next
    case True
    then have emp: "flush_carry b c = []" by (simp add: flush_carry.simps)
    with ne have ds: "ds \<noteq> []" by simp
    then have num: "num \<noteq> []" using v by auto
    have "b ^ (length num - 1) \<le> m * val b num + x"
      using canon_bound [OF assms(3) num] assms(2) by (cases m) simp_all
    also have "\<dots> = val b ds" using v True by simp
    finally have big: "b ^ (length ds - 1) \<le> val b ds" using v by simp
    have "last ds \<noteq> 0"
    proof
      assume l: "last ds = 0"
      have "val b ds = val b (butlast ds @ [last ds])" using ds by simp
      also have "\<dots> = val b (butlast ds)" by (simp add: val_append l)
      also have "\<dots> < b ^ length (butlast ds)"
        by (rule val_bound) (use d assms(1) in \<open>auto dest: in_set_butlastD\<close>)
      finally show False using big by simp
    qed
    then show ?thesis using emp by simp
  qed
  moreover have "\<forall>x \<in> set (ds @ flush_carry b c). x < b" using d assms(1) f by (auto simp: canon_def)
  ultimately have "canon b (push_digit m b num x)" by (simp add: push_digit_def r canon_def)
  then show ?thesis using val by simp
qed

text \<open>The big-endian value of a list of digits.\<close>

definition bval :: "nat \<Rightarrow> nat list \<Rightarrow> nat" where
  "bval m xs = foldl (\<lambda>n x. m * n + x) 0 xs"

lemma bval_val: "bval m xs = val m (rev xs)"
proof (induction xs rule: rev_induct)
  case (snoc x xs)
  then show ?case by (simp add: bval_def)
qed (simp add: bval_def)

lemma fold_push:
  assumes "1 < b" "0 < m" "\<forall>x \<in> set xs. x < m"
  shows "canon b (foldl (push_digit m b) [] xs) \<and> val b (foldl (push_digit m b) [] xs) = bval m xs"
  using assms(3)
proof (induction xs rule: rev_induct)
  case Nil
  then show ?case by (simp add: canon_def bval_def)
next
  case (snoc x xs)
  then show ?case using push_digit_spec [OF assms(1,2), of "foldl (push_digit m b) [] xs" x] by (simp add: bval_def)
qed

text \<open>Leading zeros are the part of a big-endian list the canonical digits drop.\<close>

definition zeros :: "nat list \<Rightarrow> nat" where
  "zeros xs = length (takeWhile (\<lambda>x. x = 0) xs)"

lemma zeros_split: "xs = replicate (zeros xs) 0 @ dropWhile (\<lambda>x. x = 0) xs"
proof -
  have "takeWhile (\<lambda>x. x = 0) xs = replicate (zeros xs) 0"
    unfolding zeros_def by (rule replicate_length_same [symmetric]) (auto dest: set_takeWhileD)
  then show ?thesis using takeWhile_dropWhile_id [of "\<lambda>x. x = 0" xs] by simp
qed

lemma bval_zeros: "bval m (replicate n 0 @ xs) = bval m xs"
  by (induction n) (simp_all add: bval_def)

lemma canon_rev_dropWhile: "(\<forall>x \<in> set xs. x < m) \<Longrightarrow> canon m (rev (dropWhile (\<lambda>x. x = 0) xs))"
  using hd_dropWhile [of "\<lambda>x. x = 0" xs] by (auto simp: canon_def last_rev dest: set_dropWhileD simp del: dropWhile_eq_Nil_conv)

lemma zeros_replicate_canon: "canon b ds \<Longrightarrow> zeros (replicate n 0 @ rev ds) = n"
proof -
  assume c: "canon b ds"
  have "takeWhile (\<lambda>x. x = 0) (rev ds) = []"
    using c by (cases ds rule: rev_cases) (auto simp: canon_def)
  then show ?thesis by (induction n) (simp_all add: zeros_def)
qed

text \<open>Converting from base \<open>m\<close> to base \<open>b\<close> and back, leading zeros kept, is the identity.\<close>

definition rebase :: "nat \<Rightarrow> nat \<Rightarrow> nat list \<Rightarrow> nat list" where
  "rebase m b xs = replicate (zeros xs) 0 @ rev (foldl (push_digit m b) [] xs)"

lemma rebase_digits: "1 < b \<Longrightarrow> 0 < m \<Longrightarrow> \<forall>x \<in> set xs. x < m \<Longrightarrow> \<forall>x \<in> set (rebase m b xs). x < b"
  using fold_push [of b m xs] by (auto simp: rebase_def canon_def)

lemma rebase_inverse:
  assumes "1 < b" "1 < m" "\<forall>x \<in> set xs. x < m"
  shows "rebase b m (rebase m b xs) = xs"
proof -
  let ?ds = "foldl (push_digit m b) [] xs"
  have f: "canon b ?ds" "val b ?ds = bval m xs" using fold_push [of b m xs] assms by simp_all
  let ?ys = "rebase m b xs"
  have ys: "\<forall>y \<in> set ?ys. y < b" using rebase_digits [of b m xs] assms by simp
  have z: "zeros ?ys = zeros xs" unfolding rebase_def by (rule zeros_replicate_canon [OF f(1)])
  have "bval b ?ys = val b ?ds" by (simp only: rebase_def bval_zeros) (simp add: bval_val)
  then have g: "canon m (foldl (push_digit b m) [] ?ys)" "val m (foldl (push_digit b m) [] ?ys) = bval m xs"
    using fold_push [of m b ?ys] assms ys f(2) by simp_all
  let ?r = "dropWhile (\<lambda>x. x = 0) xs"
  have "bval m xs = bval m ?r" by (subst zeros_split) (rule bval_zeros)
  then have "foldl (push_digit b m) [] ?ys = rev ?r"
    by (intro canon_unique [OF g(1)] canon_rev_dropWhile assms(3)) (simp add: g(2) bval_val)
  then have "rebase b m ?ys = replicate (zeros xs) 0 @ ?r"
    unfolding rebase_def [of b m ?ys] z by (simp only: rev_rev_ident)
  then show ?thesis using zeros_split [of xs] by simp
qed

section \<open>The coder\<close>

lemma alphabet_facts: "length ALPHABET = 58" "distinct ALPHABET" "\<forall>c \<in> set ALPHABET. c < 128" "ALPHABET ! 0 = 49"
  by (simp_all add: ALPHABET_def)

lemma encode_rebase: "b58_encode bs = map ((!) ALPHABET) (rebase 256 58 (map unat bs))"
proof -
  have "takeWhile (\<lambda>x. x = 0) (map unat bs) = map unat (takeWhile (\<lambda>x. x = 0) bs)"
    by (simp add: takeWhile_map comp_def unat_eq_0)
  then have "zeros (map unat bs) = length (takeWhile (\<lambda>x. x = 0) bs)" by (simp add: zeros_def)
  moreover have "foldl (push_digit 256 58) [] (map unat bs) = foldl (\<lambda>num x. push_digit 256 58 num (unat x)) [] bs"
    by (simp add: foldl_map)
  ultimately show ?thesis by (simp add: b58_encode_def rebase_def Let_def)
qed

lemma alphabet_index_iff: "alphabet_index c = Some i \<longleftrightarrow> i < 58 \<and> ALPHABET ! i = c mod 256"
proof -
  have "\<exists>p. List.find (\<lambda>(i, x). x = c mod 256) (enumerate 0 ALPHABET) = Some p"
    if "i < 58" "ALPHABET ! i = c mod 256"
  proof -
    have "(i, c mod 256) \<in> set (enumerate 0 ALPHABET)"
      using that by (auto simp: in_set_enumerate_eq alphabet_facts(1))
    then show ?thesis by (cases "List.find (\<lambda>(i, x). x = c mod 256) (enumerate 0 ALPHABET)") (auto simp: find_None_iff)
  qed
  moreover have "j < 58 \<and> ALPHABET ! j = c mod 256"
    if "List.find (\<lambda>(i, x). x = c mod 256) (enumerate 0 ALPHABET) = Some (j, y)" for j y
  proof -
    from that obtain k where k: "k < 58" "enumerate 0 ALPHABET ! k = (j, y)" "y = c mod 256"
      by (auto simp: find_Some_iff alphabet_facts(1))
    then show ?thesis by (auto simp: nth_enumerate_eq alphabet_facts(1))
  qed
  moreover have "i = j" if "i < 58" "j < 58" "ALPHABET ! i = ALPHABET ! j" for i j
    using that alphabet_facts(1,2) by (simp add: nth_eq_iff_index_eq)
  ultimately show ?thesis by (auto simp: alphabet_index_def)
qed

lemma decode_digits_iff:
  "decode_digits num cs = Inr num' \<longleftrightarrow>
    (\<exists>is. list_all2 (\<lambda>c i. alphabet_index c = Some i) cs is \<and> num' = foldl (push_digit 58 256) num is)"
proof (induction num cs rule: decode_digits.induct)
  case (2 num c cs)
  then show ?case by (cases "alphabet_index c") (auto simp: list_all2_Cons1)
qed auto

lemma index_bound: "list_all2 (\<lambda>c i. alphabet_index c = Some i) cs is \<Longrightarrow> \<forall>i \<in> set is. i < 58"
  by (induction rule: list_all2_induct) (auto simp: alphabet_index_iff)

text \<open>On text of one-byte characters the decoder is the inverse change of base.\<close>

lemma decode_rebase:
  assumes "\<forall>c \<in> set cs. c < 256"
  shows "b58_decode cs = Inr bs \<longleftrightarrow>
    (\<exists>is. list_all2 (\<lambda>c i. alphabet_index c = Some i) cs is \<and> map unat bs = rebase 58 256 is)"
proof -
  have lead: "length (takeWhile (\<lambda>c. c = 49) cs) = zeros is"
    if "list_all2 (\<lambda>c i. alphabet_index c = Some i) cs is" for "is"
    using that assms
  proof (induction rule: list_all2_induct)
    case (Cons c cs i "is")
    then have "i < 58" "ALPHABET ! i = c" by (simp_all add: alphabet_index_iff)
    then have "c = 49 \<longleftrightarrow> i = 0"
      using alphabet_facts by (metis nth_eq_iff_index_eq zero_less_numeral)
    then show ?case using Cons by (simp add: zeros_def)
  qed (simp add: zeros_def)
  have map: "map unat bs = rebase 58 256 is \<longleftrightarrow> bs = map word_of_nat (rebase 58 256 is)"
    if "\<forall>i \<in> set is. i < 58" for "is"
  proof
    assume "map unat bs = rebase 58 256 is"
    then have "map word_of_nat (rebase 58 256 is) = map (word_of_nat \<circ> unat) bs" by (simp flip: map_map)
    also have "\<dots> = bs" by (rule map_idI) simp
    finally show "bs = map word_of_nat (rebase 58 256 is)" by simp
  next
    assume bs: "bs = map word_of_nat (rebase 58 256 is)"
    have "\<forall>x \<in> set (rebase 58 256 is). x < 256" using rebase_digits [of 256 58 "is"] that by simp
    then have "map (unat \<circ> (word_of_nat :: nat \<Rightarrow> byte)) (rebase 58 256 is) = map id (rebase 58 256 is)"
      by (intro map_cong) (auto simp: unat_of_nat)
    then show "map unat bs = rebase 58 256 is" by (simp add: bs)
  qed
  show ?thesis
    using lead map index_bound
    by (auto simp: b58_decode_def Let_def results decode_digits_iff rebase_def; fastforce)
qed

lemma index_of_alphabet: "i < 58 \<Longrightarrow> alphabet_index (ALPHABET ! i) = Some i"
proof -
  assume i: "i < 58"
  then have "ALPHABET ! i < 128" using alphabet_facts(1,3) by simp
  then show ?thesis using i by (simp add: alphabet_index_iff)
qed

lemma encode_ascii: "\<forall>c \<in> set (b58_encode bs). c < 128"
proof
  fix c assume "c \<in> set (b58_encode bs)"
  then obtain i where i: "i \<in> set (rebase 256 58 (map unat bs))" "c = ALPHABET ! i" by (auto simp: encode_rebase)
  have "\<forall>i \<in> set (rebase 256 58 (map unat bs)). i < 58"
    by (rule rebase_digits) (use unat_byte_less in auto)
  then have "ALPHABET ! i \<in> set ALPHABET" using i(1) alphabet_facts(1) by simp
  then show "c < 128" using alphabet_facts(3) i(2) by blast
qed

lemma encode_small: "\<forall>c \<in> set (b58_encode bs). c < 256"
  using encode_ascii [of bs] by auto

text \<open>
  Base58 is a bijection between byte strings and texts over the alphabet: decoding an encoded
  byte string returns it, and any one-byte text that decodes is the encoding of its result, so a
  peer identifier has one display form and parses back from it.
\<close>

theorem peer_id_roundtrip:
  "b58_decode (b58_encode bs) = Inr bs \<and>
   (peer_id_wf p \<longrightarrow> peer_from_str (peer_display p) = Inr p) \<and>
   ((\<forall>c \<in> set s. c < 256) \<longrightarrow> peer_from_str s = Inr p \<longrightarrow> peer_display p = s)"
proof -
  have small: "\<forall>x \<in> set (map unat bs). x < 256" for bs :: bytes using unat_byte_less by auto
  have enc: "b58_decode (b58_encode bs) = Inr bs" for bs
  proof -
    let ?is = "rebase 256 58 (map unat bs)"
    have ix: "\<forall>i \<in> set ?is. i < 58" using rebase_digits [of 58 256 "map unat bs"] small by simp
    note encode_small
    moreover have "list_all2 (\<lambda>c i. alphabet_index c = Some i) (b58_encode bs) ?is"
      using ix by (auto simp: encode_rebase list_all2_map1 index_of_alphabet intro!: list.rel_refl_strong)
    moreover have "map unat bs = rebase 58 256 ?is"
      by (rule rebase_inverse [symmetric]) (use small in simp_all)
    ultimately show ?thesis using decode_rebase by blast
  qed
  moreover have "peer_from_str (peer_display p) = Inr p" if "peer_id_wf p"
    using that enc by (auto simp: peer_id_wf_def peer_from_str_def peer_display_def split: peer_id.splits)
  moreover have "peer_display p = s" if s: "\<forall>c \<in> set s. c < 256" "peer_from_str s = Inr p"
  proof -
    from s(2) obtain ds where ds: "b58_decode s = Inr ds" "p = PeerId ds"
      by (auto simp: peer_from_str_def results split: if_splits)
    then obtain "is" where ix: "list_all2 (\<lambda>c i. alphabet_index c = Some i) s is" "map unat ds = rebase 58 256 is"
      using decode_rebase [OF s(1)] by blast
    have "rebase 256 58 (map unat ds) = is" unfolding ix(2)
      by (rule rebase_inverse) (use index_bound [OF ix(1)] in simp_all)
    moreover have "map ((!) ALPHABET) is = s"
      using ix(1) s(1) by (induction rule: list_all2_induct) (auto simp: alphabet_index_iff)
    ultimately show ?thesis by (simp add: peer_display_def ds(2) encode_rebase)
  qed
  ultimately show ?thesis by blast
qed

text \<open>
  The decoder truncates a character to its low byte, so text outside ASCII parses as well:
  adding 256 to every code point of a display form (not starting with \<open>1\<close>) gives another text
  with the same peer identifier.
\<close>

theorem peer_id_alias:
  assumes "peer_from_str s = Inr p" "s = [] \<or> hd s \<noteq> 49"
  shows "peer_from_str (map (\<lambda>c. c + 256) s) = Inr p"
proof -
  have "decode_digits num (map (\<lambda>c. c + 256) s) = Inr n" if "decode_digits num s = Inr n" for num n
    using that by (simp add: decode_digits_iff list_all2_map1 alphabet_index_def)
  moreover have "takeWhile (\<lambda>c. c = 49) s = []" using assms(2) by (cases s) auto
  moreover have "\<forall>c \<in> set s. c + 256 \<noteq> 49" by simp
  then have "takeWhile (\<lambda>c. c = 49) (map (\<lambda>c. c + 256) s) = []" by (cases s) auto
  ultimately show ?thesis using assms(1)
    by (auto simp: peer_from_str_def b58_decode_def Let_def results split: if_splits)
qed

definition sample_peer :: peer_id where "sample_peer = PeerId (replicate 31 0 @ [1])"

lemma peer_id_roundtrip_witness: "peer_from_str (peer_display sample_peer) = Inr sample_peer"
  using peer_id_roundtrip [of "[]" sample_peer "[]"] by (simp add: peer_id_wf_def sample_peer_def)

lemma peer_id_alias_witness:
  "\<exists>s. s \<noteq> [] \<and> peer_from_str (map (\<lambda>c. c + 256) s) = Inr (PeerId (replicate 32 1))"
proof -
  let ?p = "PeerId (replicate 32 1)" and ?s = "b58_encode (replicate 32 1)"
  have r: "peer_from_str ?s = Inr ?p"
  proof -
    have "\<forall>i \<in> set (rebase 256 58 (replicate 32 1)). i < 58" using rebase_digits [of 58 256 "replicate 32 1"] by simp
    then have i: "\<forall>i \<in> set (rebase 256 58 (map unat (replicate 32 (1 :: byte)))). i < 58" by simp
    have "list_all2 (\<lambda>c i. alphabet_index c = Some i) ?s (rebase 256 58 (map unat (replicate 32 (1 :: byte))))"
      using i unfolding encode_rebase list_all2_map1 by (intro list.rel_refl_strong) (simp add: index_of_alphabet)
    moreover note encode_small
    moreover have "map unat (replicate 32 (1 :: byte)) = rebase 58 256 (rebase 256 58 (map unat (replicate 32 (1 :: byte))))"
      by (rule rebase_inverse [symmetric]) simp_all
    ultimately have "b58_decode ?s = Inr (replicate 32 1)" using decode_rebase by blast
    then show ?thesis by (simp add: peer_from_str_def)
  qed
  have "zeros (map unat (replicate 32 (1 :: byte))) = 0" by (simp add: zeros_def numeral_eq_Suc)
  moreover have "zeros (rebase 256 58 (map unat (replicate 32 (1 :: byte)))) = zeros (map unat (replicate 32 (1 :: byte)))"
    unfolding rebase_def by (rule zeros_replicate_canon [where b = 58]) (use fold_push [of 58 256 "map unat (replicate 32 (1 :: byte))"] in simp)
  ultimately have z: "zeros (rebase 256 58 (map unat (replicate 32 (1 :: byte)))) = 0" by simp
  have "?s \<noteq> []" using r by (auto simp: peer_from_str_def b58_decode_def)
  moreover have "hd ?s \<noteq> 49"
  proof (cases "rebase 256 58 (map unat (replicate 32 (1 :: byte)))")
    case Nil
    with \<open>?s \<noteq> []\<close> show ?thesis by (simp add: encode_rebase)
  next
    case (Cons d ds)
    with z have "d \<noteq> 0" by (auto simp: zeros_def split: if_splits)
    moreover have "d < 58" using rebase_digits [of 58 256 "map unat (replicate 32 (1 :: byte))"] Cons by simp
    ultimately have "ALPHABET ! d \<noteq> ALPHABET ! 0" using alphabet_facts(1,2) by (simp add: nth_eq_iff_index_eq)
    then show ?thesis using Cons alphabet_facts(4) by (simp add: encode_rebase)
  qed
  ultimately show ?thesis using peer_id_alias [OF r] by blast
qed

end
