(* ===== verification/Wire.thy ===== *)
theory Wire
  imports Bytes
begin

text \<open>
  The protocol messages and their framing, \<open>crates/wire/src/lib.rs\<close>, with the value types they carry
  (\<open>crates/core/src/types.rs\<close>, \<open>tier.rs\<close>). The CBOR coder is the parameter \<open>cbor_msg\<close>; a socket is the
  list of the chunks its reads return, ended by end of file.
\<close>

section \<open>Value types\<close>

datatype backend = LlamaCpp | Vllm | MlxLm | Ollama | UnknownBackend

datatype quant = Q4KM | Q5KM | Q8_0 | FP16 | BF16

fun quant_str :: "quant \<Rightarrow> string" where
  "quant_str Q4KM = ''Q4_K_M''"
| "quant_str Q5KM = ''Q5_K_M''"
| "quant_str Q8_0 = ''Q8_0''"
| "quant_str FP16 = ''fp16''"
| "quant_str BF16 = ''bf16''"

record layer_range =
  lr_start :: u16
  lr_end :: u16

definition layer_range_len :: "layer_range \<Rightarrow> u16" where
  "layer_range_len r = (if lr_start r \<le> lr_end r then lr_end r - lr_start r else 0) + 1"

definition layer_range_is_empty :: "layer_range \<Rightarrow> bool" where
  "layer_range_is_empty r \<longleftrightarrow> lr_end r < lr_start r"

datatype role = Volunteer | Cloud

record shard_route =
  sroute_cid :: string
  sroute_start :: u16
  sroute_end :: u16

record capability_v1 =
  cap_peer_id :: bytes
  cap_backend :: backend
  cap_quants :: "quant list"
  cap_vram_bytes :: u64
  cap_ram_bytes :: u64
  cap_tok_per_sec :: u32
  cap_max_seq :: u32
  cap_models :: "string list"
  cap_layers :: "shard_route list"
  cap_role :: role

text \<open>Round-trip times are milliseconds.\<close>

datatype latency_tier = Lan | Continent | Wan

fun typical_rtt :: "latency_tier \<Rightarrow> nat" where
  "typical_rtt Lan = 5" | "typical_rtt Continent = 80" | "typical_rtt Wan = 150"

fun decode_budget :: "latency_tier \<Rightarrow> nat option" where
  "decode_budget Lan = Some 20" | "decode_budget Continent = Some 100" | "decode_budget Wan = None"

fun tier_display :: "latency_tier \<Rightarrow> string" where
  "tier_display Lan = ''T1 LAN''" | "tier_display Continent = ''T2 CONT''" | "tier_display Wan = ''T3 WAN''"

definition classify_rtt :: "nat \<Rightarrow> latency_tier" where
  "classify_rtt ms = (if ms < 5 then Lan else if ms < 80 then Continent else Wan)"

section \<open>Messages\<close>

datatype phase = Prefill | Decode
datatype dtype = Fp16 | Bf16 | Int8

text \<open>Peer and session identifiers, X25519 keys and nonces are byte arrays.\<close>

datatype msg =
    Hello (hello_peer: bytes) (proto_ver: u32) (supported_quants: "quant list")
  | SessionInit (si_session: bytes) (client_pub: bytes) (si_model_cid: string) (si_layers: layer_range) (si_max_seq: u32)
  | SessionAck (sa_session: bytes) (shard_pub: bytes)
  | Prompt bytes bytes bytes
  | ForwardHidden (fh_session: bytes) (fh_seq: u64) (fh_phase: phase) (fh_dtype: dtype)
      (fh_shape: "u32 \<times> u32 \<times> u32") (fh_payload: bytes) (kv_delta: "bytes option") (kv_truncate_to: "u32 option")
  | Token bytes u64 "(u32 \<times> u32) list option" u32
  | Heartbeat bytes u64 u8
  | AbortSession (ab_session: bytes) (ab_reason: string)
  | Advertise capability_v1 bytes
  | Gossip string bytes bytes

datatype wire_error =
    EncodeErr string
  | DecodeErr string
  | FrameTooLarge nat nat
  | TruncatedFrame nat nat

record cbor_msg =
  cm_enc :: "msg \<Rightarrow> string + bytes"
  cm_dec :: "bytes \<Rightarrow> string + msg"

text \<open>What the framing relies on: a message that encodes decodes to itself.\<close>

definition cbor_ok :: "cbor_msg \<Rightarrow> bool" where
  "cbor_ok C \<longleftrightarrow> (\<forall>m bs. cm_enc C m = Inr bs \<longrightarrow> cm_dec C bs = Inr m)"

definition MAX_FRAME_BYTES :: nat where "MAX_FRAME_BYTES = 16 * 1024 * 1024"

definition wire_encode :: "cbor_msg \<Rightarrow> msg \<Rightarrow> wire_error + bytes" where
  "wire_encode C m = map_err EncodeErr (cm_enc C m)"

definition wire_decode :: "cbor_msg \<Rightarrow> bytes \<Rightarrow> wire_error + msg" where
  "wire_decode C bs = map_err DecodeErr (cm_dec C bs)"

text \<open>The frame is appended to the buffer \<open>dst\<close>.\<close>

definition encode_frame :: "cbor_msg \<Rightarrow> msg \<Rightarrow> bytes \<Rightarrow> wire_error + bytes" where
  "encode_frame C m dst =
     rbind (wire_encode C m) (\<lambda>payload.
       if MAX_FRAME_BYTES < length payload then Inl (FrameTooLarge (length payload) MAX_FRAME_BYTES)
       else Inr (dst @ u32_be (word_of_nat (length payload)) @ payload))"

text \<open>The result and what is left of the buffer.\<close>

definition decode_frame :: "cbor_msg \<Rightarrow> bytes \<Rightarrow> (wire_error + msg option) \<times> bytes" where
  "decode_frame C src =
     (if length src < 4 then (Inr None, src)
      else let len = be_nat (take 4 src)
           in if MAX_FRAME_BYTES < len then (Inl (FrameTooLarge len MAX_FRAME_BYTES), src)
              else if length src < 4 + len then (Inr None, src)
              else (rbind (wire_decode C (take len (drop 4 src))) (\<lambda>m. Inr (Some m)), drop len (drop 4 src)))"

definition dht_provider_key :: "string \<Rightarrow> quant \<Rightarrow> string" where
  "dht_provider_key model q = ''/intelnav/v1/model/'' @ model @ ''/'' @ quant_str q"

section \<open>Reading frames from a socket\<close>

datatype read_error = ReadDecode wire_error | TruncatedAtEof nat

text \<open>
  The read loop of \<open>forward_server.rs\<close> and \<open>chain.rs\<close>: decode from the buffer, else append the next
  chunk. The result, the buffer and the chunks not read yet.
\<close>

fun read_frame :: "cbor_msg \<Rightarrow> bytes \<Rightarrow> bytes list \<Rightarrow> (read_error + msg option) \<times> bytes \<times> bytes list" where
  "read_frame C buf [] =
     (case decode_frame C buf of
        (Inl e, buf') \<Rightarrow> (Inl (ReadDecode e), buf', [])
      | (Inr (Some m), buf') \<Rightarrow> (Inr (Some m), buf', [])
      | (Inr None, buf') \<Rightarrow> (if buf' \<noteq> [] then Inl (TruncatedAtEof (length buf')) else Inr None, buf', []))"
| "read_frame C buf (c # cs) =
     (case decode_frame C buf of
        (Inl e, buf') \<Rightarrow> (Inl (ReadDecode e), buf', c # cs)
      | (Inr (Some m), buf') \<Rightarrow> (Inr (Some m), buf', c # cs)
      | (Inr None, buf') \<Rightarrow>
          if c = [] then (if buf' \<noteq> [] then Inl (TruncatedAtEof (length buf')) else Inr None, buf', cs)
          else read_frame C (buf' @ c) cs)"

text \<open>All messages of a connection, as the message loops consume them, with the way it ends.\<close>

fun read_all :: "cbor_msg \<Rightarrow> nat \<Rightarrow> bytes \<Rightarrow> bytes list \<Rightarrow> msg list \<times> (read_error + unit) option" where
  "read_all C 0 buf cs = ([], None)"
| "read_all C (Suc fuel) buf cs =
     (case read_frame C buf cs of
        (Inl e, _) \<Rightarrow> ([], Some (Inl e))
      | (Inr None, _) \<Rightarrow> ([], Some (Inr ()))
      | (Inr (Some m), buf', cs') \<Rightarrow>
          let (ms, r) = read_all C fuel buf' cs' in (m # ms, r))"

section \<open>Facts\<close>

definition frame_of :: "cbor_msg \<Rightarrow> msg \<Rightarrow> bytes option" where
  "frame_of C m = (case encode_frame C m [] of Inl _ \<Rightarrow> None | Inr f \<Rightarrow> Some f)"

lemma frame_of_Some:
  "frame_of C m = Some f \<longleftrightarrow> (\<exists>p. cm_enc C m = Inr p \<and> length p \<le> MAX_FRAME_BYTES \<and>
     f = u32_be (word_of_nat (length p)) @ p)"
  by (auto simp: frame_of_def encode_frame_def wire_encode_def map_err_def rbind_def split: sum.splits if_splits)

lemma frame_len: "n \<le> MAX_FRAME_BYTES \<Longrightarrow> unat (word_of_nat n :: u32) = n"
  by (simp add: MAX_FRAME_BYTES_def unat_of_nat_u32)

lemma decode_complete:
  assumes "cbor_ok C" "frame_of C m = Some f"
  shows "decode_frame C (f @ rest) = (Inr (Some m), rest)"
proof -
  from assms(2) obtain p where p: "cm_enc C m = Inr p" "length p \<le> MAX_FRAME_BYTES"
    "f = u32_be (word_of_nat (length p)) @ p" by (auto simp: frame_of_Some)
  have "cm_dec C p = Inr m" using assms(1) p(1) by (auto simp: cbor_ok_def)
  then show ?thesis using p(2,3) by (simp add: decode_frame_def Let_def frame_len wire_decode_def)
qed

lemma decode_partial:
  assumes "frame_of C m = Some f" "f = a @ b" "b \<noteq> []"
  shows "decode_frame C a = (Inr None, a)"
proof -
  from assms(1) obtain p where p: "length p \<le> MAX_FRAME_BYTES"
    "f = u32_be (word_of_nat (length p)) @ p" by (auto simp: frame_of_Some)
  show ?thesis
  proof (cases "length a < 4")
    case False
    have "take 4 a = take 4 f" using False assms(2) by simp
    also have "\<dots> = u32_be (word_of_nat (length p))" by (simp add: p(2))
    finally have t: "be_nat (take 4 a) = length p" by (simp only: be_nat_u32_be frame_len [OF p(1)])
    have "length a < length f" using assms(2,3) by (cases b) simp_all
    then have "length a < 4 + length p" by (simp add: p(2))
    then show ?thesis using False p(1) by (simp add: decode_frame_def t)
  qed (simp add: decode_frame_def)
qed

lemma frame_ne: "frame_of C m = Some f \<Longrightarrow> f \<noteq> []"
  by (auto simp: frame_of_Some u32_be_def) (metis length_le_bytes length_0_conv length_rev zero_neq_numeral)

lemma read_frame_complete:
  assumes "cbor_ok C" "frame_of C m = Some f" "[] \<notin> set cs" "buf @ concat cs = f @ rest"
  shows "\<exists>buf' cs'. read_frame C buf cs = (Inr (Some m), buf', cs') \<and> buf' @ concat cs' = rest \<and> [] \<notin> set cs'"
  using assms(3,4)
proof (induction cs arbitrary: buf)
  case Nil
  then show ?case using decode_complete [OF assms(1,2), of rest] by simp
next
  case (Cons c cs)
  show ?case
  proof (cases "length f \<le> length buf")
    case True
    then obtain r where r: "buf = f @ r" using Cons.prems(2)
      by (metis append_eq_append_conv_if append_take_drop_id)
    then have "r @ concat (c # cs) = rest" using Cons.prems(2) by simp
    then show ?thesis using r decode_complete [OF assms(1,2), of r] Cons.prems(1) by simp
  next
    case False
    then obtain b where b: "f = buf @ b" "b \<noteq> []"
      using Cons.prems(2) by (metis append_eq_append_conv_if append_take_drop_id append.right_neutral nle_le order_refl)
    have "c \<noteq> []" using Cons.prems(1) by auto
    have "\<exists>buf' cs'. read_frame C (buf @ c) cs = (Inr (Some m), buf', cs') \<and> buf' @ concat cs' = rest \<and> [] \<notin> set cs'"
      by (rule Cons.IH) (use Cons.prems in auto)
    then show ?thesis using \<open>c \<noteq> []\<close> by (simp add: decode_partial [OF assms(2) b])
  qed
qed

text \<open>
  C10. Framing is a faithful stream: any sequence of messages that encode, written frame after frame
  and delivered by the network in any non-empty chunks, is read back as exactly that sequence and
  then a clean end of stream, whatever the chunk boundaries.
\<close>

theorem frames_roundtrip:
  assumes "cbor_ok C" "list_all2 (\<lambda>m f. frame_of C m = Some f) ms fs"
    and "[] \<notin> set chunks" "concat chunks = concat fs"
  shows "read_all C (Suc (length ms)) [] chunks = (ms, Some (Inr ()))"
proof -
  have "read_all C (Suc (length ms)) buf cs = (ms, Some (Inr ()))"
    if "[] \<notin> set cs" "buf @ concat cs = concat fs" for buf cs
    using assms(2) that
  proof (induction ms fs arbitrary: buf cs rule: list_all2_induct)
    case Nil
    then have "cs = []" by (cases cs) auto
    then show ?case using Nil by (simp add: decode_frame_def)
  next
    case (Cons m ms f fs)
    from read_frame_complete [OF assms(1) Cons(1) Cons.prems(1), of buf "concat fs"] Cons.prems(2)
    obtain buf' cs' where r: "read_frame C buf cs = (Inr (Some m), buf', cs')"
      and "buf' @ concat cs' = concat fs" "[] \<notin> set cs'" by auto
    then have "read_all C (Suc (length ms)) buf' cs' = (ms, Some (Inr ()))" using Cons.IH by blast
    then show ?case by (simp add: r)
  qed
  from this [of chunks "[]"] assms(3,4) show ?thesis by simp
qed

lemma decode_frame_None: "decode_frame C buf = (Inr None, buf') \<Longrightarrow> buf' = buf \<and> length buf < 4 + MAX_FRAME_BYTES"
  by (auto simp: decode_frame_def Let_def rbind_def split: if_splits sum.splits)

text \<open>
  A peer cannot make the reader buffer without bound: a message above the cap is refused by its
  sender and, when announced by a header, by the receiver; and while a frame is incomplete the
  buffer is kept as it is and is shorter than the cap plus the header.
\<close>

theorem frame_cap:
  "(\<forall>f. frame_of C m = Some f \<longrightarrow> length f \<le> 4 + MAX_FRAME_BYTES) \<and>
   (4 \<le> length src \<and> MAX_FRAME_BYTES < be_nat (take 4 src) \<longrightarrow>
      decode_frame C src = (Inl (FrameTooLarge (be_nat (take 4 src)) MAX_FRAME_BYTES), src)) \<and>
   (fst (decode_frame C src) = Inr None \<longrightarrow> snd (decode_frame C src) = src \<and> length src < 4 + MAX_FRAME_BYTES)"
proof (intro conjI allI impI)
  show "length f \<le> 4 + MAX_FRAME_BYTES" if "frame_of C m = Some f" for f
    using that by (auto simp: frame_of_Some)
  show "decode_frame C src = (Inl (FrameTooLarge (be_nat (take 4 src)) MAX_FRAME_BYTES), src)"
    if "4 \<le> length src \<and> MAX_FRAME_BYTES < be_nat (take 4 src)"
    using that by (simp add: decode_frame_def Let_def)
  show "snd (decode_frame C src) = src" "length src < 4 + MAX_FRAME_BYTES" if "fst (decode_frame C src) = Inr None"
    using decode_frame_None [of C src "snd (decode_frame C src)"] that by (metis prod.collapse)+
qed

section \<open>A sample coder\<close>

definition sample_msg :: msg where "sample_msg = Heartbeat (replicate 32 1) 42 100"

definition sample_codec :: cbor_msg where
  "sample_codec = \<lparr>cm_enc = (\<lambda>m. if m = sample_msg then Inr [7] else Inl []),
     cm_dec = (\<lambda>bs. if bs = [7] then Inr sample_msg else Inl [])\<rparr>"

lemma sample_codec_ok: "cbor_ok sample_codec"
  by (auto simp: cbor_ok_def sample_codec_def split: if_splits)

lemma sample_frame: "frame_of sample_codec sample_msg = Some [0, 0, 0, 1, 7]"
proof -
  have four: "(4 :: nat) = Suc (Suc (Suc (Suc 0)))" by simp
  have "le_bytes 4 1 = [1, 0, 0, 0]" unfolding four le_bytes.simps by simp
  then have "u32_be (word_of_nat (length [7 :: byte])) = [0, 0, 0, 1]" by (simp add: u32_be_def)
  moreover have "length [7 :: byte] \<le> MAX_FRAME_BYTES" by (simp add: MAX_FRAME_BYTES_def)
  moreover have "cm_enc sample_codec sample_msg = Inr [7]" by (simp add: sample_codec_def)
  ultimately show ?thesis unfolding frame_of_Some by (intro exI [of _ "[7]"]) simp
qed

lemma frames_roundtrip_witness:
  "read_all sample_codec (Suc (length [sample_msg, sample_msg])) [] [[0, 0], [0, 1, 7, 0], [0, 0, 1], [7]]
     = ([sample_msg, sample_msg], Some (Inr ()))"
proof (rule frames_roundtrip [OF sample_codec_ok])
  show "list_all2 (\<lambda>m f. frame_of sample_codec m = Some f) [sample_msg, sample_msg] [[0, 0, 0, 1, 7], [0, 0, 0, 1, 7]]"
    by (simp only: list_all2_Cons list_all2_Nil sample_frame)
qed simp_all

lemma frame_cap_witness:
  "decode_frame sample_codec [255, 0, 0, 0] =
     (Inl (FrameTooLarge (be_nat (take 4 [255, 0, 0, 0])) MAX_FRAME_BYTES), [255, 0, 0, 0])"
proof -
  have "be_nat (take 4 [255, 0, 0, 0]) = 255 * 256 ^ 3" by (simp add: be_nat_def)
  then have "4 \<le> length [255, 0, 0, 0 :: byte] \<and> MAX_FRAME_BYTES < be_nat (take 4 [255, 0, 0, 0])"
    by (simp only: MAX_FRAME_BYTES_def) simp
  with frame_cap [of sample_codec sample_msg "[255, 0, 0, 0]"] show ?thesis by blast
qed

end
