(* ===== verification/Hidden.thy ===== *)
theory Hidden
  imports Wire
begin

text \<open>
  Hidden states and their wire form, \<open>crates/ggml/src/hidden.rs\<close>. An \<open>f32\<close> is its bit pattern:
  comparison, \<open>abs\<close> and \<open>max\<close> are defined on patterns; rounding arithmetic and the \<open>half\<close>
  crate's conversions are the fields of \<open>f32_arith\<close>. A \<open>usize\<close> is a \<open>nat\<close>, reduced modulo \<open>2 ^ 64\<close> where
  the source multiplies or adds without a check.
\<close>

section \<open>Floats\<close>

type_synonym f32 = "32 word"

definition f32_mag :: "f32 \<Rightarrow> nat" where
  "f32_mag x = unat x mod 2 ^ 31"

definition f32_is_nan :: "f32 \<Rightarrow> bool" where
  "f32_is_nan x \<longleftrightarrow> 0x7F800000 < f32_mag x"

text \<open>The sign-magnitude integer: it orders the non-NaN values.\<close>

definition f32_key :: "f32 \<Rightarrow> int" where
  "f32_key x = (if 2 ^ 31 \<le> unat x then - int (f32_mag x) else int (f32_mag x))"

definition f32_gt :: "f32 \<Rightarrow> f32 \<Rightarrow> bool" where
  "f32_gt x y \<longleftrightarrow> \<not> f32_is_nan x \<and> \<not> f32_is_nan y \<and> f32_key y < f32_key x"

definition f32_abs :: "f32 \<Rightarrow> f32" where
  "f32_abs x = word_of_nat (f32_mag x)"

definition f32_max :: "f32 \<Rightarrow> f32 \<Rightarrow> f32" where
  "f32_max x y = (if f32_is_nan x then y else if f32_is_nan y then x else if f32_gt y x then y else x)"

definition NEG_INFINITY :: f32 where "NEG_INFINITY = 0xFF800000"
definition F32_ONE :: f32 where "F32_ONE = 0x3F800000"
definition F32_127 :: f32 where "F32_127 = 0x42FE0000"

record f32_arith =
  to_f16 :: "f32 \<Rightarrow> u16"
  of_f16 :: "u16 \<Rightarrow> f32"
  f32_div :: "f32 \<Rightarrow> f32 \<Rightarrow> f32"
  f32_mul :: "f32 \<Rightarrow> f32 \<Rightarrow> f32"
  f32_round_i8 :: "f32 \<Rightarrow> u8" \<comment> \<open>\<open>round().clamp(-127, 127) as i8 as u8\<close>\<close>
  f32_of_i8 :: "u8 \<Rightarrow> f32" \<comment> \<open>\<open>(byte as i8) as f32\<close>\<close>

definition u16_le :: "u16 \<Rightarrow> bytes" where
  "u16_le v = le_bytes 2 (unat v)"

section \<open>Hidden states\<close>

datatype hidden_error =
    EmptyShape
  | DataLength nat "nat list" nat
  | NeedRank3 "nat list"
  | PosOutOfRange nat nat
  | ArgmaxEmpty
  | ShapeOverflow "u32 \<times> u32 \<times> u32"
  | EncodeLength nat nat
  | EncodeBf16
  | DecodeSize nat nat
  | DecodeBf16

record hidden =
  h_data :: "f32 list"
  h_shape :: "nat list"

definition wrap64 :: "nat \<Rightarrow> nat" where
  "wrap64 n = n mod 2 ^ 64"

text \<open>\<open>iter().product()\<close> on \<open>usize\<close>.\<close>

definition usize_product :: "nat list \<Rightarrow> nat" where
  "usize_product xs = foldl (\<lambda>a x. wrap64 (a * x)) 1 xs"

definition hidden_new :: "f32 list \<Rightarrow> nat list \<Rightarrow> hidden_error + hidden" where
  "hidden_new data shape =
     (if shape = [] then Inl EmptyShape
      else if length data \<noteq> usize_product shape then Inl (DataLength (length data) shape (usize_product shape))
      else Inr \<lparr>h_data = data, h_shape = shape\<rparr>)"

definition hidden_n_elems :: "hidden \<Rightarrow> nat" where
  "hidden_n_elems h = usize_product (h_shape h)"

definition hidden_dim :: "hidden \<Rightarrow> nat \<Rightarrow> nat option" where
  "hidden_dim h i = (if i < length (h_shape h) then Some (h_shape h ! i) else None)"

fun select_rows :: "f32 list \<Rightarrow> nat \<Rightarrow> nat \<Rightarrow> nat \<Rightarrow> nat list \<Rightarrow> hidden_error fault + f32 list" where
  "select_rows data seq inner pos [] = Inr []"
| "select_rows data seq inner pos (i # is) =
     (let off = wrap64 (wrap64 (wrap64 (i * seq) * inner) + wrap64 (pos * inner))
      in rbind (rust_slice data off (wrap64 (off + inner))) (\<lambda>row.
           rbind (select_rows data seq inner pos is) (\<lambda>rest. Inr (row @ rest))))"

definition select_position :: "hidden \<Rightarrow> nat \<Rightarrow> hidden_error fault + hidden" where
  "select_position h pos =
     (case h_shape h of
        [b, seq, inner] \<Rightarrow>
          if seq \<le> pos then Inl (Fail (PosOutOfRange pos seq))
          else rbind (select_rows (h_data h) seq inner pos [0..<b]) (\<lambda>data.
                 map_err Fail (hidden_new data [b, inner]))
      | s \<Rightarrow> Inl (Fail (NeedRank3 s)))"

text \<open>The fold of \<open>argmax\<close> and \<open>argmax_last\<close>: the first index of the largest value.\<close>

definition argmax_fold :: "f32 list \<Rightarrow> nat \<times> f32" where
  "argmax_fold xs =
     foldl (\<lambda>(bi, bv) (i, x). if f32_gt x bv then (i, x) else (bi, bv)) (0, NEG_INFINITY) (enumerate 0 xs)"

definition argmax_last :: "hidden \<Rightarrow> hidden_error fault + u32" where
  "argmax_last h =
     (if h_data h = [] then Inl (Fail ArgmaxEmpty)
      else let idx = fst (argmax_fold (h_data h));
               lst = (if h_shape h = [] then length (h_data h) else last (h_shape h))
           in if lst = 0 then Inl Panic else Inr (word_of_nat (idx mod lst)))"

section \<open>The wire form\<close>

record hidden_payload =
  hp_dtype :: dtype
  hp_shape :: "u32 \<times> u32 \<times> u32"
  hp_bytes :: bytes

definition payload_n_elems :: "hidden_payload \<Rightarrow> nat" where
  "payload_n_elems p = (case hp_shape p of (a, b, c) \<Rightarrow> wrap64 (wrap64 (unat a * unat b) * unat c))"

text \<open>Two chained \<open>checked_mul\<close>.\<close>

definition shape_n_elems :: "u32 \<times> u32 \<times> u32 \<Rightarrow> hidden_error + nat" where
  "shape_n_elems s = (case s of (a, b, c) \<Rightarrow>
     if unat a * unat b < 2 ^ 64 \<and> unat a * unat b * unat c < 2 ^ 64
     then Inr (unat a * unat b * unat c) else Inl (ShapeOverflow s))"

text \<open>\<open>Vec::with_capacity(n)\<close> for elements of \<open>sz\<close> bytes panics above \<open>isize::MAX\<close> bytes.\<close>

definition with_capacity :: "nat \<Rightarrow> nat \<Rightarrow> 'e fault + unit" where
  "with_capacity sz n = (if n * sz < 2 ^ 63 then Inr () else Inl Panic)"

fun split_rows :: "'a list \<Rightarrow> nat \<Rightarrow> nat \<Rightarrow> 'a list list" where
  "split_rows xs h 0 = []"
| "split_rows xs h (Suc r) = take h xs # split_rows (drop h xs) h r"

definition row_scale :: "f32_arith \<Rightarrow> f32 list \<Rightarrow> f32" where
  "row_scale F row =
     (let absmax = foldl (\<lambda>m x. f32_max m (f32_abs x)) 0 row
      in if f32_gt absmax 0 then f32_div F absmax F32_127 else F32_ONE)"

definition quantize_row :: "f32_arith \<Rightarrow> f32 list \<Rightarrow> bytes" where
  "quantize_row F row = map (\<lambda>x. f32_round_i8 F (f32_mul F x (f32_div F F32_ONE (row_scale F row)))) row"

definition encode_int8_rows :: "f32_arith \<Rightarrow> f32 list \<Rightarrow> nat \<Rightarrow> nat \<Rightarrow> bytes" where
  "encode_int8_rows F flat rows h =
     (let rs = split_rows flat h rows
      in concat (map (\<lambda>r. u32_le (row_scale F r)) rs) @ concat (map (quantize_row F) rs))"

definition encode_hidden_with :: "f32_arith \<Rightarrow> f32 list \<Rightarrow> u32 \<times> u32 \<times> u32 \<Rightarrow> dtype \<Rightarrow> hidden_error fault + hidden_payload" where
  "encode_hidden_with F data shape dt =
     rbind (map_err Fail (shape_n_elems shape)) (\<lambda>n.
       if length data \<noteq> n then Inl (Fail (EncodeLength (length data) n))
       else case shape of (a, b, c) \<Rightarrow> (case dt of
              Fp16 \<Rightarrow> Inr \<lparr>hp_dtype = dt, hp_shape = shape, hp_bytes = concat (map (\<lambda>x. u16_le (to_f16 F x)) data)\<rparr>
            | Int8 \<Rightarrow>
                rbind (with_capacity 4 (unat a * unat b)) (\<lambda>_.
                  Inr \<lparr>hp_dtype = dt, hp_shape = shape,
                    hp_bytes = encode_int8_rows F data (unat a * unat b) (unat c)\<rparr>)
            | Bf16 \<Rightarrow> Inl (Fail EncodeBf16)))"

definition encode_hidden :: "f32_arith \<Rightarrow> f32 list \<Rightarrow> u32 \<times> u32 \<times> u32 \<Rightarrow> hidden_error fault + hidden_payload" where
  "encode_hidden F data shape = encode_hidden_with F data shape Fp16"

fun decode_f16s :: "f32_arith \<Rightarrow> bytes \<Rightarrow> f32 list" where
  "decode_f16s F (a # b # bs) = of_f16 F (word_of_nat (le_nat [a, b])) # decode_f16s F bs"
| "decode_f16s F _ = []"

fun decode_f32s :: "bytes \<Rightarrow> f32 list" where
  "decode_f32s (a # b # c # d # bs) = word_of_nat (le_nat [a, b, c, d]) # decode_f32s bs"
| "decode_f32s _ = []"

definition dequantize_row :: "f32_arith \<Rightarrow> f32 \<Rightarrow> bytes \<Rightarrow> f32 list" where
  "dequantize_row F s row = map (\<lambda>b. f32_mul F (f32_of_i8 F b) s) row"

definition decode_hidden :: "f32_arith \<Rightarrow> hidden_payload \<Rightarrow> hidden_error fault + (u32 \<times> u32 \<times> u32) \<times> f32 list" where
  "decode_hidden F p =
     rbind (map_err Fail (shape_n_elems (hp_shape p))) (\<lambda>n.
       case hp_shape p of (a, b, c) \<Rightarrow>
       let rows = unat a * unat b;
           expected = (case hp_dtype p of Int8 \<Rightarrow> wrap64 (wrap64 (rows * 4) + n) | _ \<Rightarrow> wrap64 (n * 2))
       in if length (hp_bytes p) \<noteq> expected then Inl (Fail (DecodeSize expected (length (hp_bytes p))))
          else (case hp_dtype p of
            Fp16 \<Rightarrow> rbind (with_capacity 4 n) (\<lambda>_. Inr (hp_shape p, decode_f16s F (hp_bytes p)))
          | Int8 \<Rightarrow>
              if length (hp_bytes p) < wrap64 (rows * 4) then Inl Panic
              else rbind (with_capacity 4 rows) (\<lambda>_. rbind (with_capacity 4 n) (\<lambda>_.
                let scales = decode_f32s (take (wrap64 (rows * 4)) (hp_bytes p));
                    qs = split_rows (drop (wrap64 (rows * 4)) (hp_bytes p)) (unat c) rows
                in if length scales < rows then Inl Panic
                   else Inr (hp_shape p, concat (map2 (dequantize_row F) scales qs))))
          | Bf16 \<Rightarrow> Inl (Fail DecodeBf16)))"

section \<open>Facts\<close>

lemma length_u16_le [simp]: "length (u16_le v) = 2"
  by (simp add: u16_le_def)

lemma u16_of_le: "word_of_nat (le_nat (u16_le v)) = v"
proof -
  have "unat v < 256 ^ 2" using unat_u16_less [of v] by simp
  then show ?thesis by (simp add: u16_le_def le_nat_le_bytes)
qed

lemma decode_f16s_encode: "decode_f16s F (concat (map (\<lambda>x. u16_le (to_f16 F x)) xs)) = map (\<lambda>x. of_f16 F (to_f16 F x)) xs"
proof (induction xs)
  case (Cons x xs)
  have "\<exists>a b. u16_le (to_f16 F x) = [a, b]"
    unfolding u16_le_def numeral_2_eq_2 le_bytes.simps by (intro exI) (rule refl)
  then obtain a b where ab: "u16_le (to_f16 F x) = [a, b]" by blast
  then have "(word_of_nat (le_nat [a, b]) :: u16) = to_f16 F x" using u16_of_le [of "to_f16 F x"] by simp
  then show ?case using Cons ab by simp
qed simp

lemma decode_f32s_encode: "decode_f32s (concat (map u32_le xs)) = xs"
proof (induction xs)
  case (Cons x xs)
  have four: "(4 :: nat) = Suc (Suc (Suc (Suc 0)))" by simp
  have "\<exists>a b c d. u32_le x = [a, b, c, d]"
    unfolding u32_le_def four le_bytes.simps by (intro exI) (rule refl)
  then obtain a b c d where ab: "u32_le x = [a, b, c, d]" by blast
  then have "(word_of_nat (le_nat [a, b, c, d]) :: u32) = x" using u32_of_le [of x] by simp
  then show ?case using Cons ab by simp
qed simp

lemma split_rows_length [simp]: "length (split_rows xs h r) = r"
  by (induction xs h r rule: split_rows.induct) auto

lemma split_rows_concat: "length xs = r * h \<Longrightarrow> concat (split_rows xs h r) = xs"
  by (induction xs h r rule: split_rows.induct) auto

lemma split_rows_row: "length xs = r * h \<Longrightarrow> row \<in> set (split_rows xs h r) \<Longrightarrow> length row = h"
  by (induction xs h r rule: split_rows.induct) auto

lemma split_rows_of_concat: "(\<And>r. r \<in> set rs \<Longrightarrow> length r = h) \<Longrightarrow> split_rows (concat rs) h (length rs) = rs"
  by (induction rs) auto

lemma length_quantize [simp]: "length (quantize_row F row) = length row"
  by (simp add: quantize_row_def)

text \<open>What one hop over the wire does to a row: it depends on the row alone.\<close>

definition wire_row :: "f32_arith \<Rightarrow> dtype \<Rightarrow> f32 list \<Rightarrow> f32 list" where
  "wire_row F dt row =
     (case dt of Int8 \<Rightarrow> dequantize_row F (row_scale F row) (quantize_row F row)
      | _ \<Rightarrow> map (\<lambda>x. of_f16 F (to_f16 F x)) row)"

lemma length_concat_const: "(\<And>r. r \<in> set rs \<Longrightarrow> length (f r) = n) \<Longrightarrow> length (concat (map f rs)) = length rs * n"
  by (induction rs) auto

lemma int8_bytes:
  assumes "length flat = r * h"
  shows "take (r * 4) (encode_int8_rows F flat r h) = concat (map u32_le (map (row_scale F) (split_rows flat h r)))"
    "drop (r * 4) (encode_int8_rows F flat r h) = concat (map (quantize_row F) (split_rows flat h r))"
    "length (encode_int8_rows F flat r h) = r * 4 + r * h"
proof -
  let ?rs = "split_rows flat h r"
  have s: "length (concat (map (\<lambda>x. u32_le (row_scale F x)) ?rs)) = r * 4"
    using length_concat_const [of ?rs "\<lambda>x. u32_le (row_scale F x)" 4] by simp
  have q: "length (concat (map (quantize_row F) ?rs)) = r * h"
    using length_concat_const [of ?rs "quantize_row F" h] split_rows_row [OF assms] by simp
  show "take (r * 4) (encode_int8_rows F flat r h) = concat (map u32_le (map (row_scale F) (split_rows flat h r)))"
    "drop (r * 4) (encode_int8_rows F flat r h) = concat (map (quantize_row F) (split_rows flat h r))"
    "length (encode_int8_rows F flat r h) = r * 4 + r * h"
    using s q by (simp_all add: encode_int8_rows_def Let_def comp_def)
qed

lemma int8_rows_decode:
  assumes "length flat = r * h"
  shows "decode_f32s (take (r * 4) (encode_int8_rows F flat r h)) = map (row_scale F) (split_rows flat h r)"
    "split_rows (drop (r * 4) (encode_int8_rows F flat r h)) h r = map (quantize_row F) (split_rows flat h r)"
proof -
  show "decode_f32s (take (r * 4) (encode_int8_rows F flat r h)) = map (row_scale F) (split_rows flat h r)"
    unfolding int8_bytes(1) [OF assms] by (rule decode_f32s_encode)
  have "split_rows (concat (map (quantize_row F) (split_rows flat h r))) h (length (map (quantize_row F) (split_rows flat h r)))
      = map (quantize_row F) (split_rows flat h r)"
    by (rule split_rows_of_concat) (use split_rows_row [OF assms] in auto)
  then show "split_rows (drop (r * 4) (encode_int8_rows F flat r h)) h r = map (quantize_row F) (split_rows flat h r)"
    unfolding int8_bytes(2) [OF assms] by simp
qed

lemma map2_maps: "map2 f (map g xs) (map h xs) = map (\<lambda>x. f (g x) (h x)) xs"
  by (induction xs) auto

lemma f16_rows:
  "length xs = r * h \<Longrightarrow> map f xs = concat (map (map f) (split_rows xs h r))"
  by (simp flip: map_concat add: split_rows_concat)

text \<open>The fold of \<open>argmax\<close>: nothing beats the winner, and what comes before it is beaten by it.\<close>

lemma argmax_fold_snoc:
  "argmax_fold (xs @ [x]) = (if f32_gt x (snd (argmax_fold xs)) then (length xs, x) else argmax_fold xs)"
  by (simp add: argmax_fold_def enumerate_append_eq split_beta)

lemma f32_gt_trans: "f32_gt x y \<Longrightarrow> f32_gt y z \<Longrightarrow> f32_gt x z"
  by (auto simp: f32_gt_def)

lemma argmax_fold_inv:
  assumes "\<forall>x \<in> set xs. \<not> f32_is_nan x"
  shows "(\<forall>x \<in> set xs. \<not> f32_gt x (snd (argmax_fold xs))) \<and> \<not> f32_is_nan (snd (argmax_fold xs)) \<and>
    (argmax_fold xs = (0, NEG_INFINITY) \<or>
      (fst (argmax_fold xs) < length xs \<and> xs ! fst (argmax_fold xs) = snd (argmax_fold xs) \<and>
       f32_gt (snd (argmax_fold xs)) NEG_INFINITY \<and>
       (\<forall>j < fst (argmax_fold xs). f32_gt (snd (argmax_fold xs)) (xs ! j))))"
  using assms
proof (induction xs rule: rev_induct)
  case Nil
  have "argmax_fold [] = (0, NEG_INFINITY)" by (simp add: argmax_fold_def)
  moreover have "\<not> f32_is_nan NEG_INFINITY" by (simp add: f32_is_nan_def f32_mag_def NEG_INFINITY_def)
  ultimately show ?case by simp
next
  case (snoc x xs)
  obtain bi bv where b: "argmax_fold xs = (bi, bv)" by fastforce
  have ih: "\<forall>y \<in> set xs. \<not> f32_gt y bv" "\<not> f32_is_nan bv"
    "(bi = 0 \<and> bv = NEG_INFINITY) \<or> (bi < length xs \<and> xs ! bi = bv \<and> f32_gt bv NEG_INFINITY \<and> (\<forall>j < bi. f32_gt bv (xs ! j)))"
    using snoc b by auto
  have nn: "\<not> f32_is_nan y" if "y \<in> set xs" for y using snoc.prems that by auto
  show ?case
  proof (cases "f32_gt x bv")
    case True
    have ge: "f32_gt x y" if "y \<in> set xs" for y
      using True ih(1) nn [OF that] that by (force simp: f32_gt_def)
    have asym: "\<not> f32_gt y x" if "y \<in> set xs" for y using ge [OF that] by (auto simp: f32_gt_def)
    have "f32_gt x NEG_INFINITY" using True ih(3) f32_gt_trans by blast
    moreover have "\<not> f32_gt x x" by (simp add: f32_gt_def)
    ultimately show ?thesis using True ge asym snoc.prems
      by (auto simp: argmax_fold_snoc b nth_append)
  next
    case False
    then show ?thesis using ih snoc.prems by (auto simp: argmax_fold_snoc b nth_append)
  qed
qed

lemma argmax_fold_first:
  assumes "\<forall>x \<in> set xs. \<not> f32_is_nan x" "xs \<noteq> []"
  shows "fst (argmax_fold xs) < length xs"
    "\<forall>x \<in> set xs. \<not> f32_gt x (xs ! fst (argmax_fold xs))"
    "\<forall>j < fst (argmax_fold xs). f32_gt (xs ! fst (argmax_fold xs)) (xs ! j)"
proof -
  note i = argmax_fold_inv [OF assms(1)]
  have ninf: "f32_key NEG_INFINITY \<le> f32_key y" if "\<not> f32_is_nan y" for y
  proof -
    have "f32_mag y \<le> 0x7F800000" using that by (simp add: f32_is_nan_def)
    moreover have "- int (f32_mag y) \<le> f32_key y" unfolding f32_key_def by simp
    moreover have "f32_key NEG_INFINITY = - 0x7F800000"
      by (simp add: f32_key_def f32_mag_def NEG_INFINITY_def)
    ultimately show ?thesis by linarith
  qed
  show "fst (argmax_fold xs) < length xs" using i assms(2) by auto
  show "\<forall>j < fst (argmax_fold xs). f32_gt (xs ! fst (argmax_fold xs)) (xs ! j)" using i by auto
  show "\<forall>x \<in> set xs. \<not> f32_gt x (xs ! fst (argmax_fold xs))"
  proof (cases "argmax_fold xs = (0, NEG_INFINITY)")
    case True
    have "\<not> f32_gt x (xs ! 0)" if "x \<in> set xs" for x
    proof
      assume "f32_gt x (xs ! 0)"
      then have "f32_gt x NEG_INFINITY"
        using ninf [of "xs ! 0"] i by (auto simp: f32_gt_def True)
      then show False using i that by (simp add: True)
    qed
    then show ?thesis by (simp add: True)
  next
    case False
    then have "xs ! fst (argmax_fold xs) = snd (argmax_fold xs)" using i by blast
    then show ?thesis using i by simp
  qed
qed

text \<open>Selecting a position of a single-batch state.\<close>

lemma select_position_row:
  assumes "h_shape h = [1, s, v]" "length (h_data h) = s * v" "s * v < 2 ^ 63" "pos < s"
  shows "select_position h pos = Inr \<lparr>h_data = take v (drop (pos * v) (h_data h)), h_shape = [1, v]\<rparr>"
proof -
  have le: "pos * v + v \<le> s * v"
  proof -
    have "Suc pos * v \<le> s * v" using assms(4) by (intro mult_le_mono1) simp
    then show ?thesis by simp
  qed
  have sm: "pos * v < 2 ^ 64" "pos * v + v < 2 ^ 64" "v < 2 ^ 64" using le assms(3) by simp_all
  have w: "wrap64 (pos * v) = pos * v" "wrap64 (pos * v + v) = pos * v + v" "wrap64 v = v"
    unfolding wrap64_def by (simp_all only: mod_less sm)
  have z: "wrap64 0 = 0" "usize_product [Suc 0, v] = v" using w(3) by (simp_all add: wrap64_def usize_product_def)
  have "rust_slice (h_data h) (pos * v) (pos * v + v) =
      (Inr (take v (drop (pos * v) (h_data h))) :: hidden_error fault + f32 list)"
    using le assms(2) by (simp add: rust_slice_def subslice_def)
  moreover have "length (take v (drop (pos * v) (h_data h))) = v" using le assms(2) by simp
  ultimately show ?thesis using assms(1,4) w z by (simp add: select_position_def hidden_new_def upt_rec Let_def)
qed

lemma wire_rows:
  assumes "encode_hidden_with F data (a, b, c) dt = Inr p" "length data * 4 < 2 ^ 63"
  shows "decode_hidden F p = Inr ((a, b, c), concat (map (wire_row F dt) (split_rows data (unat c) (unat a * unat b))))
    \<and> hp_dtype p = dt \<and> hp_shape p = (a, b, c) \<and> dt \<noteq> Bf16"
proof -
  define r where "r = unat a * unat b"
  define h where "h = unat c"
  have n: "shape_n_elems (a, b, c) = Inr (r * h)" "length data = r * h"
    using assms(1) by (auto simp: encode_hidden_with_def shape_n_elems_def r_def h_def results split: if_splits)
  have cap: "r * h * 4 < 2 ^ 63" using assms(2) n(2) by simp
  show ?thesis
  proof (cases dt)
    case Bf16
    then show ?thesis using assms(1) by (simp add: encode_hidden_with_def results split: if_splits)
  next
    case Fp16
    with assms(1) n have p: "p = \<lparr>hp_dtype = Fp16, hp_shape = (a, b, c), hp_bytes = concat (map (\<lambda>x. u16_le (to_f16 F x)) data)\<rparr>"
      by (simp add: encode_hidden_with_def)
    have len: "length (hp_bytes p) = r * h * 2"
      using length_concat_const [of data "\<lambda>x. u16_le (to_f16 F x)" 2] n(2) by (simp add: p)
    have w: "wrap64 (r * h * 2) = r * h * 2" using cap by (simp add: wrap64_def)
    have "decode_hidden F p = Inr ((a, b, c), map (\<lambda>x. of_f16 F (to_f16 F x)) data)"
      using len w cap n(1) by (simp add: decode_hidden_def p with_capacity_def decode_f16s_encode)
    moreover have "map (\<lambda>x. of_f16 F (to_f16 F x)) data = concat (map (wire_row F Fp16) (split_rows data h r))"
    proof -
      have "wire_row F Fp16 = map (\<lambda>x. of_f16 F (to_f16 F x))" by (rule ext) (simp add: wire_row_def)
      then show ?thesis using f16_rows [OF n(2)] by simp
    qed
    ultimately show ?thesis using Fp16 by (simp add: p r_def h_def)
  next
    case Int8
    with assms(1) n have wc: "r * 4 < 2 ^ 63"
      and p: "p = \<lparr>hp_dtype = Int8, hp_shape = (a, b, c), hp_bytes = encode_int8_rows F data r h\<rparr>"
      by (auto simp: encode_hidden_with_def with_capacity_def results r_def h_def split: if_splits)
    have "x * 4 < 2 ^ 63 \<Longrightarrow> y * 4 < 2 ^ 63 \<Longrightarrow> x * 4 < 2 ^ 64 \<and> x * 4 + y < (2 :: nat) ^ 64" for x y by simp
    from this [OF wc cap] have "r * 4 < 2 ^ 64" "r * 4 + r * h < 2 ^ 64" by blast+
    then have w: "wrap64 (r * 4) = r * 4" "wrap64 (r * 4 + r * h) = r * 4 + r * h"
      unfolding wrap64_def by (simp_all only: mod_less)
    have "decode_hidden F p = Inr ((a, b, c),
        concat (map2 (dequantize_row F) (map (row_scale F) (split_rows data h r)) (map (quantize_row F) (split_rows data h r))))"
      using w wc cap n(1) int8_bytes(3) [OF n(2), of F] int8_rows_decode [OF n(2), of F]
      by (simp add: decode_hidden_def p with_capacity_def Let_def flip: r_def h_def)
    moreover have "map2 (dequantize_row F) (map (row_scale F) rs) (map (quantize_row F) rs) = map (wire_row F Int8) rs" for rs
      by (simp add: map2_maps wire_row_def)
    ultimately show ?thesis using Int8 by (simp add: p r_def h_def)
  qed
qed

text \<open>
  C9. The wire codec acts row by row: a hidden state of a memory-sized shape that encodes is decoded
  by the receiver, for both supported types, to the same shape and to the concatenation of what
  \<open>wire_row\<close> makes of each (batch, position) row on its own. In particular batching positions into
  one message changes none of their values.
\<close>

theorem hidden_wire_roundtrip:
  assumes "encode_hidden_with F data (a, b, c) dt = Inr p" "length data * 4 < 2 ^ 63"
  shows "decode_hidden F p = Inr ((a, b, c), concat (map (wire_row F dt) (split_rows data (unat c) (unat a * unat b))))
    \<and> hp_dtype p = dt \<and> hp_shape p = (a, b, c) \<and> dt \<noteq> Bf16"
  by (rule wire_rows [OF assms])

text \<open>
  For a shape of \<open>2 ^ 63\<close> elements the expected byte count wraps to zero, so an empty payload passes
  the size check and reserving the output panics; for \<open>Int8\<close> so do \<open>2 ^ 62\<close> rows of no columns.
\<close>

lemma decode_hidden_overflow:
  "decode_hidden F \<lparr>hp_dtype = Fp16, hp_shape = (0x80000000, 0x80000000, 2), hp_bytes = []\<rparr> = Inl Panic"
  "decode_hidden F \<lparr>hp_dtype = Int8, hp_shape = (0x80000000, 0x80000000, 0), hp_bytes = []\<rparr> = Inl Panic"
  by (simp_all add: decode_hidden_def shape_n_elems_def wrap64_def with_capacity_def)

definition sample_f32 :: f32_arith where
  "sample_f32 = \<lparr>to_f16 = ucast, of_f16 = ucast, f32_div = (\<lambda>x y. x), f32_mul = (\<lambda>x y. x),
     f32_round_i8 = ucast, f32_of_i8 = ucast\<rparr>"

lemma hidden_wire_roundtrip_witness:
  "\<exists>p. encode_hidden_with sample_f32 [5, 6] (1, 1, 2) Fp16 = Inr p \<and> decode_hidden sample_f32 p = Inr ((1, 1, 2), [5, 6])"
proof -
  obtain p where p: "encode_hidden_with sample_f32 [5, 6] (1, 1, 2) Fp16 = Inr p"
    by (simp add: encode_hidden_with_def shape_n_elems_def)
  have "length [5, 6 :: f32] * 4 < 2 ^ 63" by simp
  from hidden_wire_roundtrip [OF p this]
  have "decode_hidden sample_f32 p = Inr ((1, 1, 2), concat (map (wire_row sample_f32 Fp16)
      (split_rows [5, 6] (unat (2 :: u32)) (unat (1 :: u32) * unat (1 :: u32)))))" by blast
  then have "decode_hidden sample_f32 p = Inr ((1, 1, 2), [5, 6])"
    by (simp add: wire_row_def sample_f32_def)
  with p show ?thesis by blast
qed

end
