(* ===== verification/Forward_Server.thy ===== *)
theory Forward_Server
  imports Swarm_Node Stitch Hidden
begin

text \<open>
  The forward listener, \<open>crates/app/src/forward_server.rs\<close>: the session state machine of one
  connection, admission through the control state, slice loading with its cache, and the forward
  step. A loaded model is an opaque \<open>'m\<close> with the operations \<open>model_ops\<close> (libllama); the cache and the
  control state are shared by the connections. A message accesses the control state at most once, in
  \<open>accept_chain\<close>, and a dropped guard is released by a task of its own; so the handling of one message
  is one step of the listener, and \<open>fstep\<close> interleaves it with the other connections, with the
  releases and with the operations of the daemon's other tasks in any order.
\<close>

section \<open>State\<close>

record 'm model_ops =
  mo_load :: "path \<Rightarrow> bytes \<Rightarrow> string + 'm"
  mo_pipelined :: "'m \<Rightarrow> bool"
  mo_reset :: "'m \<Rightarrow> 'm"
  mo_truncate :: "nat \<Rightarrow> 'm \<Rightarrow> (string fault + unit) \<times> 'm"
  mo_forward_range :: "hidden \<Rightarrow> nat \<Rightarrow> nat \<Rightarrow> nat \<Rightarrow> 'm \<Rightarrow> (string fault + hidden) \<times> 'm"

record 'm loaded_slice =
  ls_handle :: 'm
  ls_offset :: nat

datatype prepare_error =
    ReadKept path
  | ParseKept path
  | DisabledOnDisk u16 u16
  | NotKept u16 u16
  | ReadManifest
  | ParseManifest
  | StitchErr stitch_error
  | LoadErr string

text \<open>
  \<open>w_drops\<close> holds the slices of the guards that were dropped and whose release, a spawned task, has not
  run yet. \<open>fe_send\<close> is \<open>write_frame\<close>: \<open>None\<close> when the frame was encoded and written, else the error.
\<close>

record 'm forward_env =
  fe_send :: "msg \<Rightarrow> string option"
  fe_render :: "prepare_error \<Rightarrow> string"
  fe_ops :: "'m model_ops"
  fe_f32 :: f32_arith
  fe_json :: sidecar_json
  fe_sha :: sha
  fe_cs :: cid_str
  fe_from_json :: from_json
  fe_scratch :: path
  fe_models_dir :: path

record 'm world =
  w_control :: control_state
  w_cache :: "(slice_key \<times> 'm loaded_slice) list"
  w_fs :: fs
  w_drops :: "slice_key list"

record session =
  ss_session :: "bytes option"
  ss_index_pos :: nat
  ss_last_seq :: u64
  ss_active :: "slice_key option"
  ss_guard :: "slice_key option"
  ss_loaded :: "slice_key option"

definition session_new :: session where
  "session_new = \<lparr>ss_session = None, ss_index_pos = 0, ss_last_seq = 0, ss_active = None,
     ss_guard = None, ss_loaded = None\<rparr>"

datatype forward_error =
    BeforeInit
  | SessionMismatch
  | OutOfOrder u64 u64
  | NotLoaded
  | NotPipelined
  | ModelErr string
  | HiddenErr hidden_error
  | SendErr string
  | PrepareErr prepare_error
  | DriverOnly
  | ReadErr read_error
  | SocketErr string

text \<open>How a connection ends; \<open>Aborted\<close> is a panic, which takes the whole process down.\<close>

datatype conn_end = ConnOk | ConnErr forward_error | Aborted

section \<open>Loading a slice\<close>

definition stitched_name :: "u16 \<Rightarrow> u16 \<Rightarrow> string" where
  "stitched_name s e = ''stitched-'' @ dec_digits (unat s) @ ''-'' @ dec_digits (unat e) @ ''.gguf''"

definition stitch_subset_for :: "'m forward_env \<Rightarrow> path \<Rightarrow> u16 \<Rightarrow> u16 \<Rightarrow> u16 \<Rightarrow> fs \<Rightarrow>
    prepare_error fault + path \<times> fs" where
  "stitch_subset_for E root s e n_blocks fs =
     (let out_path = join root (stitched_name s e)
      in if read_file fs out_path \<noteq> None then Inr (out_path, fs)
         else rbind (ok_or (Fail ReadManifest) (read_file fs (join root ''manifest.json''))) (\<lambda>bs.
              rbind (ok_or (Fail ParseManifest) (from_json_bytes (fe_from_json E) bs)) (\<lambda>m.
                let rg = \<lparr>sr_start = ucast s, sr_end = ucast e, include_embed = (s = 0),
                             include_head = (e = n_blocks)\<rparr>
                in case stitch_subset (fe_sha E) (fe_cs E) (fe_scratch E) m root rg out_path fs of
                     Inl (Fail x) \<Rightarrow> Inl (Fail (StitchErr x))
                   | Inl Panic \<Rightarrow> Inl Panic
                   | Inr (out, fs') \<Rightarrow> Inr (so_path out, fs'))))"

definition locate_gguf :: "'m forward_env \<Rightarrow> path \<Rightarrow> kept_ranges \<Rightarrow> u16 \<Rightarrow> u16 \<Rightarrow> fs \<Rightarrow>
    prepare_error fault + path \<times> nat \<times> fs" where
  "locate_gguf E root kept s e fs =
     (if kr_gguf_path kept \<noteq> [] \<and> read_file fs (kr_gguf_path kept) \<noteq> None
      then Inr (kr_gguf_path kept, 0, fs)
      else rbind (stitch_subset_for E root s e (kr_block_count kept) fs) (\<lambda>(p, fs'). Inr (p, unat s, fs')))"

definition load_handle :: "'m forward_env \<Rightarrow> path \<Rightarrow> fs \<Rightarrow> prepare_error fault + 'm" where
  "load_handle E p fs =
     (case read_file fs p of
        None \<Rightarrow> Inl (Fail (LoadErr []))
      | Some bs \<Rightarrow> map_err (\<lambda>x. Fail (LoadErr x)) (mo_load (fe_ops E) p bs))"

definition prepare_slice :: "'m forward_env \<Rightarrow> slice_key \<Rightarrow> 'm world \<Rightarrow> prepare_error fault + 'm world" where
  "prepare_slice E key w =
     (if map_of (w_cache w) key \<noteq> None then Inr w
      else case key of (cid, s, e) \<Rightarrow>
        let root = shard_dir (fe_models_dir E) cid
        in rbind (ok_or (Fail (ReadKept (kept_path root))) (read_file (w_fs w) (kept_path root))) (\<lambda>bs.
           rbind (ok_or (Fail (ParseKept (kept_path root))) (kr_dec (fe_json E) bs)) (\<lambda>kept.
           if disabled_contains (disabled_load (fe_json E) (w_fs w) root) s e then Inl (Fail (DisabledOnDisk s e))
           else if \<not> list_ex (\<lambda>(a, b). a = s \<and> b = e) (kr_kept kept) then Inl (Fail (NotKept s e))
           else rbind (locate_gguf E root kept s e (w_fs w)) (\<lambda>(p, off, fs').
                rbind (load_handle E p fs') (\<lambda>h.
                  Inr (w\<lparr>w_fs := fs', w_cache := AList.update key \<lparr>ls_handle = h, ls_offset = off\<rparr> (w_cache w)\<rparr>))))))"

section \<open>Messages\<close>

type_synonym 'm step_out = "msg list \<times> session \<times> 'm world \<times> conn_end option"

text \<open>Write a reply and go on, or end with the write error.\<close>

definition reply :: "'m forward_env \<Rightarrow> msg \<Rightarrow> session \<Rightarrow> 'm world \<Rightarrow> conn_end option \<Rightarrow> 'm step_out" where
  "reply E m ss w fin =
     (case fe_send E m of None \<Rightarrow> ([m], ss, w, fin) | Some e \<Rightarrow> ([], ss, w, Some (ConnErr (SendErr e))))"

text \<open>\<open>ChainGuard::drop\<close> spawns the release; \<open>run_release\<close> is what that task does.\<close>

definition drop_guard :: "session \<Rightarrow> 'm world \<Rightarrow> 'm world" where
  "drop_guard ss w = (case ss_guard ss of None \<Rightarrow> w | Some k \<Rightarrow> w\<lparr>w_drops := k # w_drops w\<rparr>)"

definition run_release :: "slice_key \<Rightarrow> 'm world \<Rightarrow> 'm world" where
  "run_release k w =
     w\<lparr>w_control := snd (release_chain k (w_control w)), w_drops := remove1 k (w_drops w)\<rparr>"

definition set_handle :: "slice_key \<Rightarrow> 'm loaded_slice \<Rightarrow> 'm \<Rightarrow> 'm world \<Rightarrow> 'm world" where
  "set_handle key ls h w = w\<lparr>w_cache := AList.update key (ls\<lparr>ls_handle := h\<rparr>) (w_cache w)\<rparr>"

definition refusal :: "string \<Rightarrow> u16 \<Rightarrow> u16 \<Rightarrow> string" where
  "refusal cid s e = ''slice '' @ cid @ '' ['' @ dec_digits (unat s) @ ''..'' @ dec_digits (unat e)
     @ '') not announcing on this peer''"

definition on_init :: "'m forward_env \<Rightarrow> session \<Rightarrow> 'm world \<Rightarrow> bytes \<Rightarrow> string \<Rightarrow> layer_range \<Rightarrow> 'm step_out" where
  "on_init E ss w sid cid lr =
     (let key = (cid, lr_start lr, lr_end lr);
          (ok, ctl) = accept_chain key (w_control w)
      in if \<not> ok
         then reply E (AbortSession sid (refusal cid (lr_start lr) (lr_end lr))) ss (w\<lparr>w_control := ctl\<rparr>) (Some ConnOk)
         else
           let ss1 = ss\<lparr>ss_guard := Some key, ss_active := Some key\<rparr>;
               w1 = drop_guard ss (w\<lparr>w_control := ctl\<rparr>)
           in case prepare_slice E key w1 of
                Inl Panic \<Rightarrow> ([], ss1, w1, Some Aborted)
              | Inl (Fail x) \<Rightarrow>
                  reply E (AbortSession sid (''load slice failed: '' @ fe_render E x)) ss1 w1 (Some (ConnErr (PrepareErr x)))
              | Inr w2 \<Rightarrow>
                  (case map_of (w_cache w2) key of
                     None \<Rightarrow> ([], ss1, w2, Some (ConnErr NotLoaded))
                   | Some ls \<Rightarrow>
                       reply E (SessionAck sid (replicate 32 0))
                         (ss1\<lparr>ss_loaded := Some key, ss_session := Some sid, ss_index_pos := 0, ss_last_seq := 0\<rparr>)
                         (set_handle key ls (mo_reset (fe_ops E) (ls_handle ls)) w2) None))"

definition apply_truncate :: "'m model_ops \<Rightarrow> u32 option \<Rightarrow> nat \<Rightarrow> 'm \<Rightarrow> (string fault + nat) \<times> 'm" where
  "apply_truncate M trunc idx h =
     (case trunc of None \<Rightarrow> (Inr idx, h)
      | Some keep \<Rightarrow> (case mo_truncate M (unat keep) h of
                        (Inl e, h') \<Rightarrow> (Inl e, h')
                      | (Inr _, h') \<Rightarrow> (Inr (unat keep), h')))"

definition shape3 :: "hidden \<Rightarrow> (u32 \<times> u32 \<times> u32) option" where
  "shape3 h = (case h_shape h of a # b # c # _ \<Rightarrow> Some (word_of_nat a, word_of_nat b, word_of_nat c) | _ \<Rightarrow> None)"

text \<open>The forward of one hidden state through the loaded slice, at position \<open>idx\<close>.\<close>

definition forward_slice :: "'m forward_env \<Rightarrow> nat \<Rightarrow> nat \<Rightarrow> nat \<Rightarrow> hidden_payload \<Rightarrow> 'm \<Rightarrow>
    (forward_error fault + hidden_payload \<times> nat) \<times> 'm" where
  "forward_slice E idx lstart lend p h =
     (case rbind (map_err (case_fault (\<lambda>x. Fail (HiddenErr x)) Panic) (decode_hidden (fe_f32 E) p)) (\<lambda>((a, b, c), data).
             map_err (\<lambda>x. Fail (HiddenErr x)) (hidden_new data [unat a, unat b, unat c])) of
        Inl x \<Rightarrow> (Inl x, h)
      | Inr hid \<Rightarrow>
          (case mo_forward_range (fe_ops E) hid idx lstart lend h of
             (Inl x, h') \<Rightarrow> (Inl (case x of Fail m \<Rightarrow> Fail (ModelErr m) | Panic \<Rightarrow> Panic), h')
           | (Inr out, h') \<Rightarrow>
               (case shape3 out of
                  None \<Rightarrow> (Inl Panic, h')
                | Some sh \<Rightarrow>
                    (rbind (map_err (case_fault (\<lambda>x. Fail (HiddenErr x)) Panic)
                       (encode_hidden_with (fe_f32 E) (h_data out) sh (hp_dtype p))) (\<lambda>q. Inr (q, h_shape hid ! 1)), h'))))"

definition on_forward :: "'m forward_env \<Rightarrow> session \<Rightarrow> 'm world \<Rightarrow> bytes \<Rightarrow> u64 \<Rightarrow> hidden_payload \<Rightarrow> u32 option \<Rightarrow> 'm step_out" where
  "on_forward E ss w sid seq p trunc =
     (let stop = (\<lambda>w e. ([], ss, w, Some (ConnErr e)))
      in case ss_session ss of
        None \<Rightarrow> stop w BeforeInit
      | Some cur \<Rightarrow>
          if cur \<noteq> sid then stop w SessionMismatch
          else if seq \<le> ss_last_seq ss \<and> 0 < ss_last_seq ss then stop w (OutOfOrder (ss_last_seq ss) seq)
          else (case (ss_loaded ss, ss_active ss) of
            (Some key, Some (_, s, e)) \<Rightarrow>
              (case map_of (w_cache w) key of
                 None \<Rightarrow> stop w NotLoaded
               | Some ls \<Rightarrow>
                   if \<not> mo_pipelined (fe_ops E) (ls_handle ls) then stop w NotPipelined
                   else case apply_truncate (fe_ops E) trunc (ss_index_pos ss) (ls_handle ls) of
                     (Inl (Fail x), h1) \<Rightarrow> stop (set_handle key ls h1 w) (ModelErr x)
                   | (Inl Panic, h1) \<Rightarrow> ([], ss, set_handle key ls h1 w, Some Aborted)
                   | (Inr idx, h1) \<Rightarrow>
                       (case forward_slice E idx (unat s - ls_offset ls) (unat e - ls_offset ls) p h1 of
                          (Inl Panic, h2) \<Rightarrow> ([], ss, set_handle key ls h2 w, Some Aborted)
                        | (Inl (Fail x), h2) \<Rightarrow> stop (set_handle key ls h2 w) x
                        | (Inr (q, seq_len), h2) \<Rightarrow>
                            reply E (ForwardHidden sid seq Decode (hp_dtype q) (hp_shape q) (hp_bytes q) None None)
                              (ss\<lparr>ss_last_seq := seq, ss_index_pos := idx + seq_len\<rparr>) (set_handle key ls h2 w) None))
          | _ \<Rightarrow> stop w NotLoaded))"

definition handle_msg :: "'m forward_env \<Rightarrow> session \<Rightarrow> 'm world \<Rightarrow> msg \<Rightarrow> 'm step_out" where
  "handle_msg E ss w m =
     (case m of
        Hello _ ver _ \<Rightarrow> reply E (Hello (replicate 32 0) ver [Q4KM, FP16]) ss w None
      | SessionInit sid _ cid lr _ \<Rightarrow> on_init E ss w sid cid lr
      | ForwardHidden sid seq _ dt sh payload _ trunc \<Rightarrow>
          on_forward E ss w sid seq \<lparr>hp_dtype = dt, hp_shape = sh, hp_bytes = payload\<rparr> trunc
      | AbortSession _ _ \<Rightarrow> ([], ss, w, Some ConnOk)
      | Heartbeat _ _ _ \<Rightarrow> ([], ss, w, None)
      | Advertise _ _ \<Rightarrow> ([], ss, w, None)
      | Gossip _ _ _ \<Rightarrow> ([], ss, w, None)
      | Prompt _ _ _ \<Rightarrow> ([], ss, w, Some (ConnErr DriverOnly))
      | Token _ _ _ _ \<Rightarrow> ([], ss, w, Some (ConnErr DriverOnly))
      | SessionAck _ _ \<Rightarrow> ([], ss, w, Some (ConnErr DriverOnly)))"

text \<open>Leaving the handler drops the guard.\<close>

definition end_session :: "session \<Rightarrow> 'm world \<Rightarrow> 'm world" where
  "end_session ss w = drop_guard ss w"

text \<open>
  What the loop gets from the socket: the result of \<open>read_frame\<close> (a message, the peer's close, a
  malformed, oversized or truncated frame), or the error of the socket.
\<close>

datatype conn_input = Got "read_error + msg option" | SocketFailed string

abbreviation Frame :: "msg \<Rightarrow> conn_input" where
  "Frame m \<equiv> Got (Inr (Some m))"

definition handle_input :: "'m forward_env \<Rightarrow> session \<Rightarrow> 'm world \<Rightarrow> conn_input \<Rightarrow> 'm step_out" where
  "handle_input E ss w x =
     (case x of
        SocketFailed e \<Rightarrow> ([], ss, w, Some (ConnErr (SocketErr e)))
      | Got (Inl e) \<Rightarrow> ([], ss, w, Some (ConnErr (ReadErr e)))
      | Got (Inr None) \<Rightarrow> ([], ss, w, Some ConnOk)
      | Got (Inr (Some m)) \<Rightarrow> handle_msg E ss w m)"

text \<open>One round of the loop, with the end of the session when it is the last.\<close>

definition connection_step :: "'m forward_env \<Rightarrow> session \<Rightarrow> 'm world \<Rightarrow> conn_input \<Rightarrow> 'm step_out" where
  "connection_step E ss w x =
     (case handle_input E ss w x of
        (out, ss', w', None) \<Rightarrow> (out, ss', w', None)
      | (out, ss', w', Some fin) \<Rightarrow> (out, ss', end_session ss' w', Some fin))"

text \<open>
  One connection. Between two rounds other tasks run, so each input comes with the world the handler
  finds then; the replies of each round with the world it leaves, and how the connection ends
  (\<open>None\<close>: it is still open).
\<close>

fun handle_connection :: "'m forward_env \<Rightarrow> session \<Rightarrow> ('m world \<times> conn_input) list \<Rightarrow>
    (msg list \<times> 'm world) list \<times> conn_end option" where
  "handle_connection E ss [] = ([], None)"
| "handle_connection E ss ((w, x) # xs) =
     (case connection_step E ss w x of
        (out, ss', w', Some fin) \<Rightarrow> ([(out, w')], Some fin)
      | (out, ss', w', None) \<Rightarrow>
          let (rest, fin) = handle_connection E ss' xs in ((out, w') # rest, fin))"

section \<open>The listener\<close>

text \<open>
  The listener with its open connections, numbered as they are accepted. \<open>Other\<close> is an operation
  of another task on the control state (join and announce, leave, idle sweep, watchdog),
  \<open>Elsewhere\<close> what other tasks do to the disk and to the cache. A step says what it replied and, for
  the last round of a connection, how it ended. After a panic there is no process and no further
  step.
\<close>

record 'm server =
  sv_world :: "'m world"
  sv_open :: "(nat \<times> session) list"
  sv_next :: nat

definition server_new :: "control_state \<Rightarrow> fs \<Rightarrow> 'm server" where
  "server_new ctl fs = \<lparr>sv_world = \<lparr>w_control = ctl, w_cache = [], w_fs = fs, w_drops = []\<rparr>,
     sv_open = [], sv_next = 0\<rparr>"

datatype sevent = Connect | Input nat conn_input | Release slice_key | Other cevent | Elsewhere

type_synonym trace = "(sevent \<times> msg list \<times> conn_end option) list"

fun task_event :: "cevent \<Rightarrow> bool" where
  "task_event (EvUpsert k n) = True"
| "task_event (EvDrain now k) = True"
| "task_event EvIdle = True"
| "task_event EvForce = True"
| "task_event ev = False"

inductive fstep :: "'m forward_env \<Rightarrow> 'm server \<Rightarrow> sevent \<Rightarrow> msg list \<Rightarrow> conn_end option \<Rightarrow> 'm server \<Rightarrow> bool"
  for E where
  connect: "fstep E sv Connect [] None
     (sv\<lparr>sv_open := (sv_next sv, session_new) # sv_open sv, sv_next := Suc (sv_next sv)\<rparr>)"
| input: "map_of (sv_open sv) i = Some ss \<Longrightarrow> connection_step E ss (sv_world sv) x = (out, ss', w', fin) \<Longrightarrow>
     fin \<noteq> Some Aborted \<Longrightarrow>
     fstep E sv (Input i x) out fin
       (sv\<lparr>sv_world := w', sv_open := (case fin of None \<Rightarrow> AList.update i ss' (sv_open sv)
                                              | Some _ \<Rightarrow> AList.delete i (sv_open sv))\<rparr>)"
| release: "k \<in> set (w_drops (sv_world sv)) \<Longrightarrow>
     fstep E sv (Release k) [] None (sv\<lparr>sv_world := run_release k (sv_world sv)\<rparr>)"
| other: "task_event ev \<Longrightarrow> cstep (w_control (sv_world sv), []) ev (ctl, []) \<Longrightarrow>
     fstep E sv (Other ev) [] None (sv\<lparr>sv_world := (sv_world sv)\<lparr>w_control := ctl\<rparr>\<rparr>)"
| elsewhere: "fstep E sv Elsewhere [] None (sv\<lparr>sv_world := (sv_world sv)\<lparr>w_cache := c, w_fs := fs\<rparr>\<rparr>)"

inductive frun :: "'m forward_env \<Rightarrow> 'm server \<Rightarrow> trace \<Rightarrow> 'm server \<Rightarrow> bool" for E sv where
  start: "frun E sv [] sv"
| step: "frun E sv tr sv' \<Longrightarrow> fstep E sv' ev out fin sv'' \<Longrightarrow> frun E sv (tr @ [(ev, out, fin)]) sv''"

inductive_cases frun_nilE: "frun E sv [] sv'"
inductive_cases fstep_inputE: "fstep E sv (Input i x) out fin sv'"

definition replies_to :: "nat \<Rightarrow> trace \<Rightarrow> msg list" where
  "replies_to i tr = concat (map (\<lambda>(ev, out, fin). case ev of Input j x \<Rightarrow> if j = i then out else [] | _ \<Rightarrow> []) tr)"

lemma frun_snocE:
  assumes "frun E sv (tr @ [(ev, out, fin)]) sv''"
  obtains sv' where "frun E sv tr sv'" "fstep E sv' ev out fin sv''"
  using assms by (cases rule: frun.cases) auto

lemma frun_split: "frun E sv (tr1 @ tr2) sv'' \<Longrightarrow> \<exists>sv'. frun E sv tr1 sv' \<and> frun E sv' tr2 sv''"
proof (induction tr2 arbitrary: sv'' rule: rev_induct)
  case Nil
  then show ?case by (auto intro: frun.start)
next
  case (snoc e tr2)
  obtain ev out fin where e: "e = (ev, out, fin)" by (cases e)
  from snoc.prems have "frun E sv ((tr1 @ tr2) @ [(ev, out, fin)]) sv''" by (simp add: e)
  then obtain sv1 where "frun E sv (tr1 @ tr2) sv1" "fstep E sv1 ev out fin sv''" by (rule frun_snocE)
  with snoc.IH show ?case unfolding e by (blast intro: frun.step)
qed

lemma replies_append [simp]: "replies_to i (tr @ tr') = replies_to i tr @ replies_to i tr'"
  by (simp add: replies_to_def)

lemma replies_nil [simp]: "replies_to i [] = []"
  by (simp add: replies_to_def)

lemma replies_one: "replies_to i [(ev, out, fin)] = (case ev of Input j x \<Rightarrow> if j = i then out else [] | _ \<Rightarrow> [])"
  by (simp add: replies_to_def)

section \<open>Guards\<close>

definition guards :: "session \<Rightarrow> slice_key list" where
  "guards ss = (case ss_guard ss of None \<Rightarrow> [] | Some k \<Rightarrow> [k])"

text \<open>How many open connections hold a guard on the slice.\<close>

definition held :: "slice_key \<Rightarrow> 'm server \<Rightarrow> nat" where
  "held k sv = length (filter (\<lambda>(i, ss). ss_guard ss = Some k) (sv_open sv))"

lemma reply_state:
  "reply E m ss w fin = (out, ss', w', fin') \<Longrightarrow> ss' = ss \<and> w' = w"
  by (auto simp: reply_def split: option.splits)

lemma set_handle_control [simp]: "w_control (set_handle k ls h w) = w_control w" "w_drops (set_handle k ls h w) = w_drops w"
  by (simp_all add: set_handle_def)

lemma drop_guard_world [simp]:
  "w_control (drop_guard ss w) = w_control w" "w_drops (drop_guard ss w) = guards ss @ w_drops w"
  by (simp_all add: drop_guard_def guards_def split: option.splits)

lemma prepare_control:
  assumes "prepare_slice E key w = Inr w'" shows "w_control w' = w_control w \<and> w_drops w' = w_drops w"
proof -
  obtain cid s e where key: "key = (cid, s, e)" by (cases key)
  show ?thesis using assms
    by (auto simp: prepare_slice_def key Let_def results split: if_splits)
qed

lemma on_forward_control:
  "on_forward E ss w sid seq p trunc = (out, ss', w', fin) \<Longrightarrow>
     w_control w' = w_control w \<and> w_drops w' = w_drops w \<and> ss_guard ss' = ss_guard ss"
  by (auto simp: on_forward_def Let_def dest!: reply_state
      split: option.splits if_splits prod.splits sum.splits fault.splits)

lemma on_init_control:
  assumes "on_init E ss w sid cid lr = (out, ss', w', fin)"
  shows "if fst (accept_chain (cid, lr_start lr, lr_end lr) (w_control w))
    then ss_guard ss' = Some (cid, lr_start lr, lr_end lr) \<and>
      w_control w' = snd (accept_chain (cid, lr_start lr, lr_end lr) (w_control w)) \<and>
      w_drops w' = guards ss @ w_drops w
    else ss' = ss \<and> w_control w' = w_control w \<and> w_drops w' = w_drops w \<and> fin \<noteq> None"
proof -
  let ?key = "(cid, lr_start lr, lr_end lr)"
  obtain ok ctl where a: "accept_chain ?key (w_control w) = (ok, ctl)" by fastforce
  show ?thesis
  proof (cases ok)
    case False
    have "ctl = w_control w" using accept_refused [of ?key "w_control w"] a False by simp
    then show ?thesis using assms a False
      by (auto simp: on_init_def reply_def split: option.splits)
  next
    case True
    then show ?thesis using assms a
      by (auto simp: on_init_def Let_def dest!: reply_state prepare_control
          split: sum.splits fault.splits option.splits)
  qed
qed

lemma handle_input_msg:
  assumes "handle_input E ss w x = (out, ss', w', fin)"
  shows "(\<exists>m. x = Frame m \<and> handle_msg E ss w m = (out, ss', w', fin)) \<or>
    (ss' = ss \<and> w' = w \<and> out = [] \<and> fin \<noteq> None)"
proof (cases x)
  case (Got r)
  show ?thesis
  proof (cases r)
    case (Inr o1)
    then show ?thesis using assms Got by (cases o1) (auto simp: handle_input_def)
  qed (use assms Got in \<open>auto simp: handle_input_def\<close>)
qed (use assms in \<open>auto simp: handle_input_def\<close>)

lemma msg_guards:
  assumes "handle_msg E ss w m = (out, ss', w', fin)" "\<nexists>sid pub cid lr ms. m = SessionInit sid pub cid lr ms"
  shows "w_control w' = w_control w \<and> w_drops w' = w_drops w \<and> ss_guard ss' = ss_guard ss"
  using assms by (cases m) (auto simp: handle_msg_def dest!: reply_state on_forward_control)

text \<open>
  A round accesses the control state at most once, to admit a chain, and every guard it drops goes
  to the releases that are to run.
\<close>

lemma connection_step_guards:
  assumes "connection_step E ss w x = (out, ss', w', fin)"
  shows "(w_control w' = w_control w \<and>
      mset (case fin of None \<Rightarrow> guards ss' | Some _ \<Rightarrow> []) + mset (w_drops w') = mset (guards ss) + mset (w_drops w)) \<or>
    (\<exists>k. fst (accept_chain k (w_control w)) \<and> w_control w' = snd (accept_chain k (w_control w)) \<and>
      mset (case fin of None \<Rightarrow> guards ss' | Some _ \<Rightarrow> []) + mset (w_drops w') =
        add_mset k (mset (guards ss) + mset (w_drops w)))"
proof -
  obtain w1 where h: "handle_input E ss w x = (out, ss', w1, fin)"
    and w': "w' = (case fin of None \<Rightarrow> w1 | Some _ \<Rightarrow> end_session ss' w1)"
    using assms by (auto simp: connection_step_def split: prod.splits option.splits)
  have c: "w_control w' = w_control w1"
    and d: "mset (case fin of None \<Rightarrow> guards ss' | Some _ \<Rightarrow> []) + mset (w_drops w') = mset (guards ss') + mset (w_drops w1)"
    by (simp_all add: w' end_session_def split: option.splits)
  show ?thesis
  proof (cases "\<exists>sid pub cid lr ms. x = Frame (SessionInit sid pub cid lr ms)")
    case False
    then have "w_control w1 = w_control w \<and> w_drops w1 = w_drops w \<and> ss_guard ss' = ss_guard ss"
      using handle_input_msg [OF h] msg_guards by blast
    then show ?thesis using c d by (simp add: guards_def)
  next
    case True
    then obtain sid cid lr where init: "on_init E ss w sid cid lr = (out, ss', w1, fin)"
      using h by (auto simp: handle_input_def handle_msg_def)
    let ?key = "(cid, lr_start lr, lr_end lr)"
    note i = on_init_control [OF init]
    show ?thesis
    proof (cases "fst (accept_chain ?key (w_control w))")
      case False
      with i have "ss' = ss" "w_control w1 = w_control w" "w_drops w1 = w_drops w" by simp_all
      then show ?thesis using c d by simp
    next
      case True
      with i have "ss_guard ss' = Some ?key" "w_control w1 = snd (accept_chain ?key (w_control w))"
        "w_drops w1 = guards ss @ w_drops w" by simp_all
      then have "w_control w' = snd (accept_chain ?key (w_control w))"
        "mset (guards ss') + mset (w_drops w1) = add_mset ?key (mset (guards ss) + mset (w_drops w))"
        using c by (simp_all add: guards_def)
      then show ?thesis using True d by metis
    qed
  qed
qed

text \<open>The listener refines the control state machine: its guards are those of the open connections and those being released.\<close>

definition all_guards :: "'m server \<Rightarrow> slice_key list" where
  "all_guards sv = concat (map (guards \<circ> snd) (sv_open sv)) @ w_drops (sv_world sv)"

definition server_inv :: "'m server \<Rightarrow> bool" where
  "server_inv sv \<longleftrightarrow> distinct (map fst (sv_open sv)) \<and> (\<forall>i \<in> fst ` set (sv_open sv). i < sv_next sv)"

lemma guards_update:
  assumes "map_of xs i = Some ss"
  shows "mset (concat (map (guards \<circ> snd) (AList.update i ss' xs))) + mset (guards ss) =
    mset (concat (map (guards \<circ> snd) xs)) + mset (guards ss')"
  using assms by (induction xs) (auto split: if_splits)

lemma guards_delete:
  assumes "map_of xs i = Some ss" "distinct (map fst xs)"
  shows "mset (concat (map (guards \<circ> snd) (AList.delete i xs))) + mset (guards ss) =
    mset (concat (map (guards \<circ> snd) xs))"
  using assms
proof (induction xs)
  case (Cons a xs)
  have "i \<notin> fst ` set xs \<Longrightarrow> AList.delete i xs = xs" by (simp add: delete_id)
  with Cons show ?case by (auto split: if_splits)
qed simp

lemma server_inv_step:
  assumes "server_inv sv" "fstep E sv ev out fin sv'" shows "server_inv sv'"
  using assms(2,1)
proof (cases rule: fstep.cases)
  case (input i ss x ss' w')
  have i: "i \<in> fst ` set (sv_open sv)" using map_of_SomeD [OF input(3)] by force
  have inv: "distinct (map fst (sv_open sv))" "\<And>j. j \<in> fst ` set (sv_open sv) \<Longrightarrow> j < sv_next sv"
    using assms(1) by (auto simp: server_inv_def)
  have keys: "fst ` set (sv_open sv') \<subseteq> fst ` set (sv_open sv)"
    using i input(2) dom_delete_subset [of i "sv_open sv"] by (auto simp: dom_update split: option.splits)
  have "distinct (map fst (sv_open sv'))"
    using inv(1) input(2) by (simp add: distinct_update distinct_delete split: option.splits)
  moreover have "sv_next sv' = sv_next sv" using input(2) by simp
  ultimately show ?thesis using keys inv(2) unfolding server_inv_def by auto
qed (auto simp: server_inv_def)

lemma held_count: "count_list (all_guards sv) k = held k sv + count_list (w_drops (sv_world sv)) k"
proof -
  have "count_list (concat (map (guards \<circ> snd) xs)) k = length (filter (\<lambda>(i, ss). ss_guard ss = Some k) xs)" for xs :: "(nat \<times> session) list"
    by (induction xs) (auto simp: guards_def count_list_append split: option.splits)
  then show ?thesis by (simp add: all_guards_def held_def count_list_append)
qed

lemma cstep_guards_irrelevant: "task_event ev \<Longrightarrow> cstep (st, []) ev (st', []) \<Longrightarrow> cstep (st, gs) ev (st', gs)"
  by (cases ev) (auto simp: cstep_simps)

lemma guards_exchange:
  fixes a b g l d d' :: "'k multiset"
  assumes "a + g = b + l" "l + d' = g + d" shows "a + d' = b + d"
proof (rule multiset_eqI)
  fix x
  show "count (a + d') x = count (b + d) x"
    using arg_cong [OF assms(1), of "\<lambda>m. count m x"] arg_cong [OF assms(2), of "\<lambda>m. count m x"] by simp
qed

lemma fstep_refines:
  assumes "fstep E sv ev out fin sv'" "server_inv sv" "mset gs = mset (all_guards sv)"
  shows "\<exists>evs gs'. crun (w_control (sv_world sv), gs) evs (w_control (sv_world sv'), gs') \<and>
    mset gs' = mset (all_guards sv') \<and> length evs \<le> 1 \<and> (EvForce \<in> set evs \<longrightarrow> ev = Other EvForce)"
  using assms(1)
proof (cases rule: fstep.cases)
  case connect
  then show ?thesis using assms(3)
    by (intro exI [of _ "[]"] exI [of _ gs]) (simp add: crun.stop all_guards_def guards_def session_new_def)
next
  case (input i ss x ss' w')
  let ?live = "mset (case fin of None \<Rightarrow> guards ss' | Some _ \<Rightarrow> [])"
  have open': "mset (concat (map (guards \<circ> snd) (sv_open sv'))) + mset (guards ss) =
      mset (concat (map (guards \<circ> snd) (sv_open sv))) + ?live"
    using guards_update [OF input(3), of ss'] guards_delete [OF input(3)] assms(2) input(2)
    by (simp add: server_inv_def split: option.splits)
  have w': "sv_world sv' = w'" using input(2) by simp
  from connection_step_guards [OF input(4)] show ?thesis
  proof (elim disjE exE conjE)
    assume c: "w_control w' = w_control (sv_world sv)"
      and d: "?live + mset (w_drops w') = mset (guards ss) + mset (w_drops (sv_world sv))"
    have "mset gs = mset (all_guards sv')"
      using guards_exchange [OF open' d] assms(3) w' by (simp add: all_guards_def)
    then show ?thesis using c w' by (intro exI [of _ "[]"] exI [of _ gs]) (simp add: crun.stop)
  next
    fix k assume a: "fst (accept_chain k (w_control (sv_world sv)))"
      and c: "w_control w' = snd (accept_chain k (w_control (sv_world sv)))"
      and d: "?live + mset (w_drops w') = add_mset k (mset (guards ss) + mset (w_drops (sv_world sv)))"
    have "mset (k # gs) = mset (all_guards sv')"
      using guards_exchange [OF open', of "mset (w_drops w')" "add_mset k (mset (w_drops (sv_world sv)))"] d assms(3) w'
      by (simp add: all_guards_def)
    moreover have "crun (w_control (sv_world sv), gs) [EvAccept k] (w_control w', k # gs)"
      unfolding c by (rule crun.step [OF cstep.accept [OF a] crun.stop])
    ultimately show ?thesis using w'
      by (intro exI [of _ "[EvAccept k]"] exI [of _ "k # gs"]) simp
  qed
next
  case (release k)
  have "k \<in># mset gs" using release(5) assms(3) by (simp add: all_guards_def)
  then have k: "k \<in> set gs" by simp
  have "crun (w_control (sv_world sv), gs) [EvRelease k] (w_control (sv_world sv'), remove1 k gs)"
    unfolding release by (simp add: run_release_def) (rule crun.step [OF cstep.release [OF k] crun.stop])
  moreover have "mset (remove1 k gs) = mset (all_guards sv')"
    using release assms(3) by (simp add: all_guards_def run_release_def)
  ultimately show ?thesis by (intro exI [of _ "[EvRelease k]"] exI [of _ "remove1 k gs"]) simp
next
  case (other ev' ctl)
  have "crun (w_control (sv_world sv), gs) [ev'] (w_control (sv_world sv'), gs)"
    using crun.step [OF cstep_guards_irrelevant [OF other(5,6)] crun.stop] other by simp
  then show ?thesis using other assms(3)
    by (intro exI [of _ "[ev']"] exI [of _ gs]) (auto simp: all_guards_def)
next
  case (elsewhere c fs)
  then show ?thesis using assms(3)
    by (intro exI [of _ "[]"] exI [of _ gs]) (simp add: crun.stop all_guards_def)
qed

lemma crun_append: "crun s evs s' \<Longrightarrow> crun s' evs' s'' \<Longrightarrow> crun s (evs @ evs') s''"
  by (induction rule: crun.induct) (auto intro: crun.intros)

lemma frun_refines:
  assumes "frun E (server_new ctl fs) tr sv"
  shows "server_inv sv \<and> (\<exists>evs gs. crun (ctl, []) evs (w_control (sv_world sv), gs) \<and>
    mset gs = mset (all_guards sv) \<and> length evs \<le> length tr \<and> (EvForce \<in> set evs \<longrightarrow> Other EvForce \<in> fst ` set tr))"
  using assms
proof (induction rule: frun.induct)
  case start
  show ?case by (intro conjI exI [of _ "[]"]) (auto simp: server_inv_def server_new_def all_guards_def intro: crun.stop)
next
  case (step tr sv' ev out fin sv'')
  then obtain evs gs where r: "server_inv sv'" "crun (ctl, []) evs (w_control (sv_world sv'), gs)"
    "mset gs = mset (all_guards sv')" "length evs \<le> length tr" "EvForce \<in> set evs \<longrightarrow> Other EvForce \<in> fst ` set tr" by blast
  from fstep_refines [OF step.hyps(2) r(1,3)] obtain evs' gs' where
    r': "crun (w_control (sv_world sv'), gs) evs' (w_control (sv_world sv''), gs')"
    "mset gs' = mset (all_guards sv'')" "length evs' \<le> 1" "EvForce \<in> set evs' \<longrightarrow> ev = Other EvForce" by blast
  have "crun (ctl, []) (evs @ evs') (w_control (sv_world sv''), gs')" by (rule crun_append [OF r(2) r'(1)])
  then show ?case using server_inv_step [OF r(1) step.hyps(2)] r(4,5) r'(2-4)
    by (intro conjI exI [of _ "evs @ evs'"] exI [of _ gs']) auto
qed

lemma mset_count_list: "mset xs = mset ys \<Longrightarrow> count_list xs k = count_list ys k"
  by (metis count_mset)

lemma chains_counted:
  assumes "frun E (server_new (control_new peer t) fs) tr sv" "length tr < 2 ^ 32 - 1"
    and "entry (w_control (sv_world sv)) k = Some e"
  shows "unat (active_chains e) \<le> held k sv + count_list (w_drops (sv_world sv)) k"
    and "Other EvForce \<notin> fst ` set tr \<Longrightarrow> unat (active_chains e) = held k sv + count_list (w_drops (sv_world sv)) k"
proof -
  from frun_refines [OF assms(1)] obtain evs gs where
    r: "crun (control_new peer t, []) evs (w_control (sv_world sv), gs)" "mset gs = mset (all_guards sv)"
    "length evs \<le> length tr" "EvForce \<in> set evs \<longrightarrow> Other EvForce \<in> fst ` set tr" by blast
  have "length evs < 2 ^ 32 - 1" using r(3) assms(2) by simp
  from sys_inv_run [OF r(1) this] assms(3)
  have "entry_inv (count_list gs k) (EvForce \<notin> set evs) e" unfolding sys_inv_def fst_conv snd_conv by blast
  then have "entry_inv (held k sv + count_list (w_drops (sv_world sv)) k) (EvForce \<notin> set evs) e"
    unfolding mset_count_list [OF r(2)] held_count .
  then show "unat (active_chains e) \<le> held k sv + count_list (w_drops (sv_world sv)) k"
    "Other EvForce \<notin> fst ` set tr \<Longrightarrow> unat (active_chains e) = held k sv + count_list (w_drops (sv_world sv)) k"
    using r(4) unfolding entry_inv_def by blast+
qed

lemma ended_is_closed:
  assumes "frun E (server_new ctl fs) tr sv" "(Input i x, out, Some fin) \<in> set tr"
  shows "map_of (sv_open sv) i = None \<and> i < sv_next sv"
  using assms
proof (induction rule: frun.induct)
  case (step tr sv' ev out' fin' sv'')
  note inv = conjunct1 [OF frun_refines [OF step.hyps(1)]]
  from step.hyps(2) show ?case
  proof (cases rule: fstep.cases)
    case (input j ss y ss' w')
    have "j < sv_next sv'" using inv map_of_SomeD [OF input(3)] unfolding server_inv_def by force
    then show ?thesis using input step.IH step.prems
      by (auto simp: update_conv' delete_conv' split: option.splits)
  qed (use step.IH step.prems in \<open>auto simp: run_release_def\<close>)
qed simp

lemma drops_bound:
  assumes "frun E (server_new ctl fs) tr sv" shows "length (w_drops (sv_world sv)) \<le> length tr"
proof -
  from frun_refines [OF assms] obtain evs gs where
    r: "crun (ctl, []) evs (w_control (sv_world sv), gs)" "mset gs = mset (all_guards sv)" "length evs \<le> length tr" by blast
  have "length (w_drops (sv_world sv)) \<le> length (all_guards sv)" by (simp add: all_guards_def)
  also have "\<dots> = length gs" using r(2) by (metis size_mset)
  also have "\<dots> \<le> length tr" using crun_guards [OF r(1)] r(3) by simp
  finally show ?thesis .
qed

text \<open>The releases that were spawned can run, whatever else happens, and change nothing else.\<close>

lemma releases_run:
  assumes "frun E (server_new ctl fs) tr sv"
  shows "\<exists>ks sv'. frun E (server_new ctl fs) (tr @ map (\<lambda>k. (Release k, [], None)) ks) sv' \<and>
    length ks = length (w_drops (sv_world sv)) \<and> w_drops (sv_world sv') = [] \<and> sv_open sv' = sv_open sv"
  using assms
proof (induction "length (w_drops (sv_world sv))" arbitrary: tr sv)
  case 0
  then show ?case by (intro exI [of _ "[]"] exI [of _ sv]) simp
next
  case (Suc n)
  then obtain k ks where d: "w_drops (sv_world sv) = k # ks" by (cases "w_drops (sv_world sv)") auto
  let ?sv = "sv\<lparr>sv_world := run_release k (sv_world sv)\<rparr>"
  have "fstep E sv (Release k) [] None ?sv" by (rule fstep.release) (simp add: d)
  from frun.step [OF Suc.prems this] have r: "frun E (server_new ctl fs) (tr @ [(Release k, [], None)]) ?sv" .
  have "n = length (w_drops (sv_world ?sv))" using Suc.hyps(2) d by (simp add: run_release_def)
  from Suc.hyps(1) [OF this r] obtain ks' sv' where
    "frun E (server_new ctl fs) ((tr @ [(Release k, [], None)]) @ map (\<lambda>k. (Release k, [], None)) ks') sv'"
    "length ks' = length (w_drops (sv_world ?sv))" "w_drops (sv_world sv') = []" "sv_open sv' = sv_open ?sv" by blast
  then show ?case using Suc.hyps(2) d
    by (intro exI [of _ "k # ks'"] exI [of _ sv']) (simp add: run_release_def)
qed

text \<open>
  C7. No chain leaks. In every interleaving of any number of connections with each other, with the
  releases of dropped guards and with the daemon's other tasks (joins, leaves, idle sweeps and, apart
  from the exact count, the watchdog's force-stop), each listed slice counts as many active chains as
  open connections hold a guard on it plus releases that are still to run. A connection that has
  ended, by a close, a refusal, an abort, a failed load, an error of the model, a malformed or
  truncated frame, a socket error or a failed write, is not among them; and the releases can always
  run, after which every count is that of the open connections alone. After a force-stop the
  count is at most that.
\<close>

theorem connection_returns_guards:
  assumes "frun E (server_new (control_new peer t) fs) tr sv" "2 * length tr < 2 ^ 32 - 1"
  shows "(\<forall>k e. entry (w_control (sv_world sv)) k = Some e \<longrightarrow>
      unat (active_chains e) \<le> held k sv + count_list (w_drops (sv_world sv)) k \<and>
      (Other EvForce \<notin> fst ` set tr \<longrightarrow> unat (active_chains e) = held k sv + count_list (w_drops (sv_world sv)) k)) \<and>
    (\<forall>i x out fin. (Input i x, out, Some fin) \<in> set tr \<longrightarrow> map_of (sv_open sv) i = None) \<and>
    (\<exists>ks sv'. frun E (server_new (control_new peer t) fs) (tr @ map (\<lambda>k. (Release k, [], None)) ks) sv' \<and>
      sv_open sv' = sv_open sv \<and>
      (\<forall>k e. entry (w_control (sv_world sv')) k = Some e \<longrightarrow>
        unat (active_chains e) \<le> held k sv \<and>
        (Other EvForce \<notin> fst ` set tr \<longrightarrow> unat (active_chains e) = held k sv)))"
proof -
  let ?new = "server_new (control_new peer t) fs :: 'a server"
  have len: "length tr < 2 ^ 32 - 1" using assms(2) by simp
  note now = chains_counted [OF assms(1) len]
  obtain ks sv' where r: "frun E ?new (tr @ map (\<lambda>k. (Release k, [], None)) ks) sv'"
    "length ks = length (w_drops (sv_world sv))" "w_drops (sv_world sv') = []" "sv_open sv' = sv_open sv"
    using releases_run [OF assms(1)] by blast
  have "length ks \<le> length tr" unfolding r(2) by (rule drops_bound [OF assms(1)])
  then have "length (tr @ map (\<lambda>k. (Release k, [], None)) ks) < 2 ^ 32 - 1" using assms(2) by simp
  note later = chains_counted [OF r(1) this]
  have held: "held k sv' = held k sv" for k by (simp add: held_def r(4))
  have force: "Other EvForce \<notin> fst ` set (tr @ map (\<lambda>k. (Release k, [], None)) ks)" if "Other EvForce \<notin> fst ` set tr"
    using that by auto
  have "\<exists>ks sv'. frun E ?new (tr @ map (\<lambda>k. (Release k, [], None)) ks) sv' \<and> sv_open sv' = sv_open sv \<and>
      (\<forall>k e. entry (w_control (sv_world sv')) k = Some e \<longrightarrow> unat (active_chains e) \<le> held k sv \<and>
        (Other EvForce \<notin> fst ` set tr \<longrightarrow> unat (active_chains e) = held k sv))"
    using r(1,4) later force by (intro exI [of _ ks] exI [of _ sv']) (auto simp: r(3) held)
  then show ?thesis using now ended_is_closed [OF assms(1)] by blast
qed
section \<open>Sessions\<close>

definition session_inv :: "session \<Rightarrow> 'm world \<Rightarrow> bool" where
  "session_inv ss w \<longleftrightarrow> (ss_session ss \<noteq> None \<longrightarrow>
     (\<exists>key. ss_guard ss = Some key \<and> ss_active ss = Some key \<and> ss_loaded ss = Some key))"

lemma forward_reply:
  assumes "on_forward E ss w sid seq p trunc = (out, ss', w', fin)"
  shows "ss_session ss' = ss_session ss \<and> ss_active ss' = ss_active ss \<and> ss_loaded ss' = ss_loaded ss \<and>
    (out \<noteq> [] \<longrightarrow> ss_session ss = Some sid \<and> (ss_last_seq ss = 0 \<or> ss_last_seq ss < seq) \<and> ss_last_seq ss' = seq \<and>
       (\<exists>dt sh b. out = [ForwardHidden sid seq Decode dt sh b None None])) \<and> (fin = None \<longrightarrow> out \<noteq> [])"
  using assms
  by (auto simp: on_forward_def Let_def reply_def word_gt_0
      split: option.splits if_splits prod.splits sum.splits fault.splits) (metis surj_pair)+

lemma init_reply:
  assumes "on_init E ss w sid cid lr = (out, ss', w', fin)"
  shows "(fin = None \<longrightarrow> out = [SessionAck sid (replicate 32 0)] \<and> ss_session ss' = Some sid \<and>
      ss_guard ss' = Some (cid, lr_start lr, lr_end lr) \<and> ss_active ss' = ss_guard ss' \<and> ss_loaded ss' = ss_guard ss') \<and>
    (\<forall>m \<in> set out. m = SessionAck sid (replicate 32 0) \<and> fin = None \<or> (\<exists>r. m = AbortSession sid r))"
  using assms
  by (auto simp: on_init_def Let_def reply_def split: option.splits if_splits prod.splits sum.splits fault.splits)

lemma session_inv_step:
  assumes "session_inv ss w" "handle_msg E ss w m = (out, ss', w', None)"
  shows "session_inv ss' w'"
proof (cases m)
  case (SessionInit sid pub cid lr ms)
  then have "on_init E ss w sid cid lr = (out, ss', w', None)" using assms(2) by (simp add: handle_msg_def)
  from init_reply [OF this] show ?thesis by (simp add: session_inv_def)
next
  case (ForwardHidden sid seq ph dt sh payload d trunc)
  then have "on_forward E ss w sid seq \<lparr>hp_dtype = dt, hp_shape = sh, hp_bytes = payload\<rparr> trunc = (out, ss', w', None)"
    using assms(2) by (simp add: handle_msg_def)
  from forward_reply [OF this] on_forward_control [OF this] show ?thesis
    using assms(1) by (simp add: session_inv_def)
qed (use assms in \<open>auto simp: handle_msg_def session_inv_def dest!: reply_state\<close>)

lemma handle_out:
  assumes "handle_msg E ss w m = (out, ss', w', fin)"
  shows "(\<exists>sid pub cid lr mx. m = SessionInit sid pub cid lr mx \<and> on_init E ss w sid cid lr = (out, ss', w', fin)) \<or>
    (\<exists>sid seq ph dt sh b d t. m = ForwardHidden sid seq ph dt sh b d t \<and>
       on_forward E ss w sid seq \<lparr>hp_dtype = dt, hp_shape = sh, hp_bytes = b\<rparr> t = (out, ss', w', fin)) \<or>
    (ss' = ss \<and> (\<forall>x \<in> set out. \<exists>p v q. x = Hello p v q))"
  using assms by (cases m) (auto simp: handle_msg_def reply_def split: option.splits)

text \<open>
  What a session knows: the \<open>SessionInit\<close> that opened it, for a slice that was announcing, and the
  sequence numbers it has answered since.
\<close>

definition answer_of :: "bytes \<Rightarrow> (u64 \<Rightarrow> bool) \<Rightarrow> msg \<Rightarrow> bool" where
  "answer_of sid ok m =
     (case m of Hello _ _ _ \<Rightarrow> True | ForwardHidden s q _ _ _ _ _ _ \<Rightarrow> s = sid \<and> ok q | _ \<Rightarrow> False)"

definition opened_at :: "'m forward_env \<Rightarrow> 'm server \<Rightarrow> nat \<Rightarrow> bytes \<Rightarrow> trace \<Rightarrow> trace \<Rightarrow> bool" where
  "opened_at E sv0 i sid tr tr' \<longleftrightarrow> (\<exists>tr0 pub cid lr mx k sv1.
     tr = tr0 @ (Input i (Frame (SessionInit sid pub cid lr mx)), [SessionAck sid k], None) # tr' \<and>
     frun E sv0 tr0 sv1 \<and> is_announcing (cid, lr_start lr, lr_end lr) (w_control (sv_world sv1)))"

definition session_trace :: "'m forward_env \<Rightarrow> 'm server \<Rightarrow> nat \<Rightarrow> bytes \<Rightarrow> u64 \<Rightarrow> trace \<Rightarrow> bool" where
  "session_trace E sv0 i sid last_seq tr \<longleftrightarrow> (\<exists>tr'. opened_at E sv0 i sid tr tr' \<and>
     (\<forall>m \<in> set (replies_to i tr'). answer_of sid (\<lambda>q. q = 0 \<or> q \<le> last_seq) m))"

lemma answer_mono:
  assumes "answer_of sid ok m" "\<And>q. ok q \<Longrightarrow> ok' q" shows "answer_of sid ok' m"
  using assms by (cases m) (auto simp: answer_of_def)

lemma step_forwards:
  assumes "connection_step E ss w x = (out, ss', w', fin)" "ForwardHidden sid seq ph dt sh b d t \<in> set out"
  shows "(\<exists>ph' dt' sh' b' d' t'. x = Frame (ForwardHidden sid seq ph' dt' sh' b' d' t')) \<and>
    ss_session ss = Some sid \<and> (ss_last_seq ss = 0 \<or> ss_last_seq ss < seq)"
proof -
  obtain w1 where "handle_input E ss w x = (out, ss', w1, fin)"
    using assms(1) by (auto simp: connection_step_def split: prod.splits option.splits)
  with assms(2) obtain m where x: "x = Frame m" and h: "handle_msg E ss w m = (out, ss', w1, fin)"
    using handle_input_msg by fastforce
  from handle_out [OF h] show ?thesis
  proof (elim disjE exE conjE)
    fix sid pub cid lr mx assume "on_init E ss w sid cid lr = (out, ss', w1, fin)"
    from init_reply [OF this] assms(2) show ?thesis by auto
  next
    fix sid2 seq2 ph2 dt2 sh2 b2 d2 t2 assume m: "m = ForwardHidden sid2 seq2 ph2 dt2 sh2 b2 d2 t2"
      and "on_forward E ss w sid2 seq2 \<lparr>hp_dtype = dt2, hp_shape = sh2, hp_bytes = b2\<rparr> t2 = (out, ss', w1, fin)"
    from forward_reply [OF this(2)] assms(2) have "sid2 = sid" "seq2 = seq" "ss_session ss = Some sid"
      "ss_last_seq ss = 0 \<or> ss_last_seq ss < seq" by (cases "out = []"; auto)+
    then show ?thesis unfolding x m by blast
  qed (use assms(2) in auto)
qed

lemma opened_snoc: "opened_at E sv0 i sid tr tr' \<Longrightarrow> opened_at E sv0 i sid (tr @ [e]) (tr' @ [e])"
  unfolding opened_at_def by (elim exE conjE, hypsubst, intro exI conjI, simp, assumption+)

lemma session_trace_snoc:
  assumes "session_trace E sv0 i sid last_seq tr"
    and "\<And>m. m \<in> set (replies_to i [e]) \<Longrightarrow> answer_of sid (\<lambda>q. q = 0 \<or> q \<le> last_seq') m"
    and "last_seq = 0 \<or> last_seq \<le> last_seq'"
  shows "session_trace E sv0 i sid last_seq' (tr @ [e])"
proof -
  obtain tr' where t: "opened_at E sv0 i sid tr tr'"
    "\<And>m. m \<in> set (replies_to i tr') \<Longrightarrow> answer_of sid (\<lambda>q. q = 0 \<or> q \<le> last_seq) m"
    using assms(1) unfolding session_trace_def by blast
  have "q = 0 \<or> q \<le> last_seq'" if "q = 0 \<or> q \<le> last_seq" for q
    using that assms(3) by (metis order_trans word_le_0_iff)
  note up = answer_mono [OF t(2) this]
  show ?thesis unfolding session_trace_def
  proof (intro exI [of _ "tr' @ [e]"] conjI ballI)
    show "opened_at E sv0 i sid (tr @ [e]) (tr' @ [e])" by (rule opened_snoc [OF t(1)])
    show "answer_of sid (\<lambda>q. q = 0 \<or> q \<le> last_seq') m" if "m \<in> set (replies_to i (tr' @ [e]))" for m
      using that up assms(2) by auto
  qed
qed

lemma round_keeps_trace:
  assumes run: "frun E sv0 tr sv" and round: "connection_step E ss (sv_world sv) x = (out, ss', w', None)"
    and old: "\<And>sid. ss_session ss = Some sid \<Longrightarrow> session_trace E sv0 i sid (ss_last_seq ss) tr"
    and new: "ss_session ss' = Some sid'"
  shows "session_trace E sv0 i sid' (ss_last_seq ss') (tr @ [(Input i x, out, None)])"
proof -
  obtain m where x: "x = Frame m" and h: "handle_msg E ss (sv_world sv) m = (out, ss', w', None)"
  proof -
    have "handle_input E ss (sv_world sv) x = (out, ss', w', None)"
      using round by (auto simp: connection_step_def split: prod.splits option.splits)
    from handle_input_msg [OF this] that show thesis by blast
  qed
  have rep: "replies_to i [(Input i x, out, None)] = out" by (simp add: replies_one)
  from handle_out [OF h] show ?thesis
  proof (elim disjE exE conjE)
    fix sid pub cid lr mx assume m: "m = SessionInit sid pub cid lr mx"
      and i: "on_init E ss (sv_world sv) sid cid lr = (out, ss', w', None)"
    from init_reply [OF i] new have o: "out = [SessionAck sid (replicate 32 0)]" "sid' = sid" by auto
    have "fst (accept_chain (cid, lr_start lr, lr_end lr) (w_control (sv_world sv)))"
      using on_init_control [OF i] by (auto split: if_splits)
    then have "is_announcing (cid, lr_start lr, lr_end lr) (w_control (sv_world sv))"
      by (simp only: accept_result is_announcing_entry)
    with run have "opened_at E sv0 i sid' (tr @ [(Input i x, out, None)]) []"
      unfolding opened_at_def o x m by blast
    then show ?thesis unfolding session_trace_def by (intro exI [of _ "[]"]) simp
  next
    fix sid seq ph dt sh b d t
    assume f: "on_forward E ss (sv_world sv) sid seq \<lparr>hp_dtype = dt, hp_shape = sh, hp_bytes = b\<rparr> t = (out, ss', w', None)"
    note r = forward_reply [OF f]
    have s: "ss_session ss = Some sid'" using r new by simp
    obtain dt' sh' b' where o: "out = [ForwardHidden sid seq Decode dt' sh' b' None None]" using r by blast
    have o': "answer_of sid (\<lambda>q. q = 0 \<or> q \<le> seq) m" if "m \<in> set out" for m
      using that unfolding o by (simp add: answer_of_def)
    have l: "sid = sid'" "ss_last_seq ss' = seq" "ss_last_seq ss = 0 \<or> ss_last_seq ss < seq" using r s o by auto
    show ?thesis
      unfolding l(2) by (rule session_trace_snoc [OF old [OF s]]) (use o' l(1,3) in \<open>unfold rep, auto intro: less_imp_le\<close>)
  next
    assume "ss' = ss" and o: "\<forall>x \<in> set out. \<exists>p v q. x = Hello p v q"
    then show ?thesis using session_trace_snoc [OF old, of sid' "(Input i x, out, None)" "ss_last_seq ss'"] new
      unfolding rep by (fastforce simp: answer_of_def)
  qed
qed

lemma frun_session_trace:
  assumes "frun E (server_new ctl fs) tr sv" "map_of (sv_open sv) i = Some ss" "ss_session ss = Some sid"
  shows "session_trace E (server_new ctl fs) i sid (ss_last_seq ss) tr"
  using assms
proof (induction arbitrary: ss sid rule: frun.induct)
  case start
  then show ?case by (simp add: server_new_def)
next
  case (step tr sv' ev out fin sv'')
  let ?e = "(ev, out, fin)"
  have keep: "session_trace E (server_new ctl fs) i sid (ss_last_seq ss) (tr @ [?e])"
    if "map_of (sv_open sv') i = Some ss" "replies_to i [?e] = []"
    by (rule session_trace_snoc [OF step.IH [OF that(1) step.prems(2)]]) (simp_all only: that(2), simp_all)
  from step.hyps(2) show ?case
  proof (cases rule: fstep.cases)
    case connect
    show ?thesis
    proof (cases "i = sv_next sv'")
      case True
      then have "ss = session_new" using step.prems(1) connect by simp
      then show ?thesis using step.prems(2) by (simp add: session_new_def)
    next
      case False
      then show ?thesis using step.prems connect keep by (simp add: replies_one)
    qed
  next
    case (input j ss0 x ss' w')
    show ?thesis
    proof (cases "j = i")
      case False
      then show ?thesis using step.prems input keep
        by (auto simp: replies_one update_conv' delete_conv' split: option.splits)
    next
      case True
      then have "fin = None" "ss' = ss" using step.prems input by (auto simp: update_conv' delete_conv' split: option.splits)
      then show ?thesis
        using round_keeps_trace [OF step.hyps(1) input(4) [unfolded \<open>fin = None\<close>] step.IH] input True step.prems(2) by auto
    qed
  qed (use step.prems keep in \<open>auto simp: replies_one\<close>)
qed

text \<open>
  C8. A forward is served only inside an admitted session and in sequence order. In every
  interleaving, when the listener sends a \<open>ForwardHidden\<close> to a connection: it answers a
  \<open>ForwardHidden\<close> of that connection with the same session and sequence number; that session was
  acknowledged before, to a \<open>SessionInit\<close> of that connection, for a slice that was announcing at that
  moment; nothing but greetings and answers of this session was sent since; and each of these
  answers has a smaller sequence number than this one, or number 0 (which the check lets repeat until
  the first positive number).
\<close>

theorem forward_only_in_session:
  assumes "frun E (server_new ctl fs) (tr1 @ (Input i x, out, fin) # tr2) sv" "ForwardHidden sid seq ph dt sh b d t \<in> set out"
  shows "(\<exists>ph' dt' sh' b' d' t'. x = Frame (ForwardHidden sid seq ph' dt' sh' b' d' t')) \<and>
    (\<exists>tr0 tr' sv1 pub cid lr mx k.
      tr1 = tr0 @ (Input i (Frame (SessionInit sid pub cid lr mx)), [SessionAck sid k], None) # tr' \<and>
      frun E (server_new ctl fs) tr0 sv1 \<and>
      is_announcing (cid, lr_start lr, lr_end lr) (w_control (sv_world sv1)) \<and>
      (\<forall>m \<in> set (replies_to i tr'). answer_of sid (\<lambda>q. q = 0 \<or> q < seq) m))"
proof -
  obtain sv2 where "frun E (server_new ctl fs) (tr1 @ [(Input i x, out, fin)]) sv2"
    using frun_split [of E "server_new ctl fs" "tr1 @ [(Input i x, out, fin)]" tr2 sv] assms(1) by auto
  then obtain sv1 where r: "frun E (server_new ctl fs) tr1 sv1" "fstep E sv1 (Input i x) out fin sv2" by (rule frun_snocE)
  from r(2) obtain ss ss' w' where s: "map_of (sv_open sv1) i = Some ss"
    "connection_step E ss (sv_world sv1) x = (out, ss', w', fin)" by (rule fstep_inputE)
  from step_forwards [OF s(2) assms(2)] obtain ph' dt' sh' b' d' t' where f: "x = Frame (ForwardHidden sid seq ph' dt' sh' b' d' t')"
    "ss_session ss = Some sid" "ss_last_seq ss = 0 \<or> ss_last_seq ss < seq" by blast
  from frun_session_trace [OF r(1) s(1) f(2)] obtain tr' where t: "opened_at E (server_new ctl fs) i sid tr1 tr'"
    "\<And>m. m \<in> set (replies_to i tr') \<Longrightarrow> answer_of sid (\<lambda>q. q = 0 \<or> q \<le> ss_last_seq ss) m"
    unfolding session_trace_def by blast
  have "q = 0 \<or> q < seq" if "q = 0 \<or> q \<le> ss_last_seq ss" for q
  proof (cases "ss_last_seq ss = 0")
    case False
    then show ?thesis using that f(3) by (auto intro: order_le_less_trans)
  qed (use that in simp)
  then have ans: "\<forall>m \<in> set (replies_to i tr'). answer_of sid (\<lambda>q. q = 0 \<or> q < seq) m"
    by (intro ballI answer_mono [OF t(2)])
  obtain tr0 pub cid lr mx k sv0 where o:
    "tr1 = tr0 @ (Input i (Frame (SessionInit sid pub cid lr mx)), [SessionAck sid k], None) # tr'"
    "frun E (server_new ctl fs) tr0 sv0" "is_announcing (cid, lr_start lr, lr_end lr) (w_control (sv_world sv0))"
    using t(1) unfolding opened_at_def by blast
  show ?thesis
  proof (rule conjI)
    show "\<exists>ph' dt' sh' b' d' t'. x = Frame (ForwardHidden sid seq ph' dt' sh' b' d' t')" unfolding f(1) by blast
  qed (intro exI [of _ tr0] exI [of _ tr'] exI [of _ sv0] exI [of _ pub] exI [of _ cid] exI [of _ lr] exI [of _ mx]
      exI [of _ k] conjI o ans)
qed

text \<open>
  Any admitted consumer can take the daemon down: in an open session, one \<open>ForwardHidden\<close> with
  the next sequence number, an empty payload and a shape of \<open>2 ^ 63\<close> elements makes the handler
  panic, which aborts the process.
\<close>

theorem forward_remote_abort:
  assumes "ss_session ss = Some sid" "ss_loaded ss = Some key" "ss_active ss = Some key"
    and "map_of (w_cache w) key = Some ls" "mo_pipelined (fe_ops E) (ls_handle ls)" "ss_last_seq ss < seq"
  shows "snd (handle_connection E ss
    [(w, Frame (ForwardHidden sid seq ph Fp16 (0x80000000, 0x80000000, 2) [] None None))]) = Some Aborted"
proof -
  obtain c s e where key: "key = (c, s, e)" by (cases key)
  have "\<not> (seq \<le> ss_last_seq ss \<and> 0 < ss_last_seq ss)" using assms(6) by (auto simp: not_le)
  then show ?thesis using assms(1-5)
    by (simp add: connection_step_def handle_input_def handle_msg_def on_forward_def key apply_truncate_def forward_slice_def decode_hidden_overflow)
qed

text \<open>
  Sessions on one slice share one model: when a second consumer opens a session on a slice that
  is already loaded, the KV cache behind the first consumer's session is reset, while the first
  session stays open at its old position.
\<close>

theorem sessions_share_model:
  assumes "session_inv ssA w" "ss_session ssA = Some sidA" "ss_active ssA = Some (cid, s, e)"
    and "map_of (w_cache w) (cid, s, e) = Some ls" "is_announcing (cid, s, e) (w_control w)"
    and "fe_send E (SessionAck sidB (replicate 32 0)) = None"
    and "handle_msg E session_new w (SessionInit sidB pub cid \<lparr>lr_start = s, lr_end = e\<rparr> mx) = (out, ssB, w', fin)"
  shows "fin = None \<and> ss_loaded ssA = ss_loaded ssB \<and>
    map_of (w_cache w') (cid, s, e) = Some (ls\<lparr>ls_handle := mo_reset (fe_ops E) (ls_handle ls)\<rparr>)"
proof -
  have "fst (accept_chain (cid, s, e) (w_control w))"
    using assms(5) by (simp only: accept_result is_announcing_entry)
  then obtain ctl where a: "accept_chain (cid, s, e) (w_control w) = (True, ctl)"
    by (cases "accept_chain (cid, s, e) (w_control w)") simp
  have l: "ss_loaded ssA = Some (cid, s, e)" using assms(1-3) by (auto simp: session_inv_def)
  have d: "drop_guard session_new w1 = w1" for w1 :: "'a world" by (simp add: drop_guard_def session_new_def)
  have "handle_msg E session_new w (SessionInit sidB pub cid \<lparr>lr_start = s, lr_end = e\<rparr> mx) =
    ([SessionAck sidB (replicate 32 0)],
     session_new\<lparr>ss_guard := Some (cid, s, e), ss_active := Some (cid, s, e), ss_loaded := Some (cid, s, e),
       ss_session := Some sidB, ss_index_pos := 0, ss_last_seq := 0\<rparr>,
     set_handle (cid, s, e) ls (mo_reset (fe_ops E) (ls_handle ls)) (w\<lparr>w_control := ctl\<rparr>), None)"
    using a assms(4,6) d by (simp add: handle_msg_def on_init_def session_new_def prepare_slice_def reply_def Let_def)
  with assms(7) have "fin = None" "ss_loaded ssB = Some (cid, s, e)"
    "w' = set_handle (cid, s, e) ls (mo_reset (fe_ops E) (ls_handle ls)) (w\<lparr>w_control := ctl\<rparr>)" by auto
  then show ?thesis using l by (simp add: set_handle_def update_conv')
qed

section \<open>A sample peer\<close>

text \<open>A model is the list of positions it has seen.\<close>

definition sample_ops :: "nat model_ops" where
  "sample_ops = \<lparr>mo_load = (\<lambda>_ _. Inr 0), mo_pipelined = (\<lambda>_. True), mo_reset = (\<lambda>_. 0),
     mo_truncate = (\<lambda>k n. (Inr (), k)), mo_forward_range = (\<lambda>h i s e n. (Inr h, n + 1))\<rparr>"

definition sample_fenv :: "nat forward_env" where
  "sample_fenv = \<lparr>fe_send = (\<lambda>_. None), fe_render = (\<lambda>_. []), fe_ops = sample_ops, fe_f32 = sample_f32,
     fe_json = sample_sidecars, fe_sha = sample_sha, fe_cs = sample_cs, fe_from_json = (\<lambda>_. None),
     fe_scratch = [], fe_models_dir = []\<rparr>"

definition sample_world :: "nat world" where
  "sample_world = \<lparr>w_control = ctl1, w_cache = [(key0, \<lparr>ls_handle = 7, ls_offset = 0\<rparr>)], w_fs = sample_disk,
     w_drops = []\<rparr>"

definition sample_session :: session where
  "sample_session = \<lparr>ss_session = Some [1], ss_index_pos = 4, ss_last_seq = 3, ss_active = Some key0,
     ss_guard = Some key0, ss_loaded = Some key0\<rparr>"

lemma sample_announcing: "is_announcing key0 (w_control sample_world)"
  using sample_control(4) by (simp add: sample_world_def is_announcing_entry)

lemma sample_ops [simp]:
  "fe_ops sample_fenv = sample_ops" "fe_send sample_fenv m = None" "mo_pipelined sample_ops h" "mo_reset sample_ops h = 0"
  by (simp_all add: sample_fenv_def sample_ops_def)

definition sample_init_msg :: msg where
  "sample_init_msg = SessionInit [1] [] ''cid'' \<lparr>lr_start = 0, lr_end = 12\<rparr> 9"

definition sample_fwd :: msg where
  "sample_fwd = ForwardHidden [1] 1 Decode Fp16 (1, 1, 1) [5, 0] None None"

definition sample_opened :: session where
  "sample_opened = session_new\<lparr>ss_guard := Some key0, ss_active := Some key0, ss_loaded := Some key0, ss_session := Some [1],
       ss_index_pos := 0, ss_last_seq := 0\<rparr>"

lemma sample_init:
  assumes "is_announcing key0 (w_control w)" "map_of (w_cache w) key0 = Some ls"
  shows "handle_msg sample_fenv session_new w sample_init_msg = ([SessionAck [1] (replicate 32 0)], sample_opened,
     set_handle key0 ls 0 (w\<lparr>w_control := snd (accept_chain key0 (w_control w))\<rparr>), None)"
proof -
  have "fst (accept_chain key0 (w_control w))" using assms(1) by (simp only: accept_result is_announcing_entry)
  then have a: "accept_chain key0 (w_control w) = (True, snd (accept_chain key0 (w_control w)))" by (metis prod.collapse)
  have d: "drop_guard session_new w1 = w1" for w1 :: "nat world" by (simp add: drop_guard_def session_new_def)
  show ?thesis
    unfolding handle_msg_def msg.case on_init_def layer_range.select_convs key0_def [symmetric] Let_def sample_init_msg_def
    by (subst a) (simp add: d assms(2) prepare_slice_def sample_opened_def reply_def)
qed

lemma sample_forward:
  "forward_slice sample_fenv 0 0 12 \<lparr>hp_dtype = Fp16, hp_shape = (1, 1, 1), hp_bytes = [5, 0]\<rparr> 0 =
    (Inr (\<lparr>hp_dtype = Fp16, hp_shape = (1, 1, 1), hp_bytes = [5, 0]\<rparr>, 1), 1)"
proof -
  have "decode_hidden sample_f32 \<lparr>hp_dtype = Fp16, hp_shape = (1, 1, 1), hp_bytes = [5, 0]\<rparr> = Inr ((1, 1, 1), [5])"
    by (simp add: decode_hidden_def shape_n_elems_def wrap64_def with_capacity_def sample_f32_def)
  moreover have "hidden_new [5] [1, 1, 1] = Inr \<lparr>h_data = [5], h_shape = [1, 1, 1]\<rparr>"
    by (simp add: hidden_new_def usize_product_def wrap64_def)
  moreover have "le_bytes 2 5 = [5, 0]" by (simp add: numeral_2_eq_2)
  then have "encode_hidden_with sample_f32 [5] (1, 1, 1) Fp16 = Inr \<lparr>hp_dtype = Fp16, hp_shape = (1, 1, 1), hp_bytes = [5, 0]\<rparr>"
    by (simp add: encode_hidden_with_def shape_n_elems_def sample_f32_def u16_le_def)
  ultimately show ?thesis by (simp add: forward_slice_def sample_fenv_def sample_ops_def shape3_def)
qed

text \<open>
  A slice is joined, two connections open a session on it, it is told to drain, the first
  connection gets an answer and the second sends a frame that is too large.
\<close>

definition sample_trace :: trace where
  "sample_trace = [(Other (EvUpsert key0 ''m''), [], None), (Elsewhere, [], None), (Connect, [], None), (Connect, [], None),
     (Input 0 (Frame sample_init_msg), [SessionAck [1] (replicate 32 0)], None),
     (Input 1 (Frame sample_init_msg), [SessionAck [1] (replicate 32 0)], None),
     (Other (EvDrain 5 key0), [], None)]"

definition sample_reply :: msg where
  "sample_reply = ForwardHidden [1] 1 Decode Fp16 (1, 1, 1) [5, 0] None None"

definition sample_bad :: conn_input where
  "sample_bad = Got (Inl (ReadDecode (FrameTooLarge 20000000 16777216)))"

lemma sample_server_run:
  "\<exists>sv. frun sample_fenv (server_new (control_new ''peer'' 0) sample_disk) sample_trace sv \<and>
    sv_open sv = [(1, sample_opened), (0, sample_opened)] \<and> w_drops (sv_world sv) = [] \<and>
    map_of (w_cache (sv_world sv)) key0 = Some \<lparr>ls_handle = 0, ls_offset = 0\<rparr> \<and>
    entry (w_control (sv_world sv)) key0 =
       Some \<lparr>display_name = ''m'', se_state = Draining, active_chains = 2, draining_since = Some 5\<rparr>"
proof -
  let ?E = sample_fenv and ?ls = "\<lparr>ls_handle = 0, ls_offset = 0\<rparr> :: nat loaded_slice"
  define ctlb where "ctlb = snd (accept_chain key0 ctl2)"
  define w0 :: "nat world" where "w0 = \<lparr>w_control = ctl1, w_cache = [(key0, ?ls)], w_fs = sample_disk, w_drops = []\<rparr>"
  define sv where "sv ctl = \<lparr>sv_world = w0\<lparr>w_control := ctl\<rparr>, sv_open = [(1, sample_opened), (0, sample_opened)], sv_next = 2\<rparr>" for ctl
  define sv1 where "sv1 = \<lparr>sv_world = w0\<lparr>w_control := ctl2\<rparr>, sv_open = [(1, session_new), (0, sample_opened)], sv_next = 2\<rparr>"
  define sv0 where "sv0 = \<lparr>sv_world = w0, sv_open = [(1, session_new), (0, session_new)], sv_next = 2\<rparr>"
  have idle: "drop_guard session_new w1 = w1" "set_handle key0 ?ls 0 (w0\<lparr>w_control := ctl\<rparr>) = w0\<lparr>w_control := ctl\<rparr>" for w1 :: "nat world" and ctl
    by (simp_all add: drop_guard_def session_new_def set_handle_def w0_def)
  have opens: "connection_step ?E session_new (w0\<lparr>w_control := ctl\<rparr>) (Frame sample_init_msg) =
      ([SessionAck [1] (replicate 32 0)], sample_opened, w0\<lparr>w_control := snd (accept_chain key0 ctl)\<rparr>, None)"
    if "is_announcing key0 ctl" for ctl
    using sample_init [of "w0\<lparr>w_control := ctl\<rparr>" ?ls] that
    by (simp add: connection_step_def handle_input_def w0_def set_handle_def)
  have a1: "is_announcing key0 ctl1" and a2: "is_announcing key0 ctl2" using sample_control by (simp_all add: is_announcing_entry)
  have eb: "entry ctlb key0 = Some \<lparr>display_name = ''m'', se_state = Announcing, active_chains = 2, draining_since = None\<rparr>"
    unfolding ctlb_def by (simp add: entry_accept [OF sample_control(2)] sample_control(5) sat_inc_def)
  have 1: "fstep ?E (server_new (control_new ''peer'' 0) sample_disk) (Other (EvUpsert key0 ''m'')) [] None
      (server_new ctl1 sample_disk)"
    using fstep.other [of "EvUpsert key0 ''m''" "server_new (control_new ''peer'' 0) sample_disk :: nat server", OF _ cstep.upsert]
    by (simp add: server_new_def ctl1_def)
  have 2: "fstep ?E (server_new ctl1 sample_disk) Elsewhere [] None \<lparr>sv_world = w0, sv_open = [], sv_next = 0\<rparr>"
    using fstep.elsewhere [of ?E "server_new ctl1 sample_disk" sample_disk "[(key0, ?ls)]"] by (simp add: server_new_def w0_def)
  have 3: "fstep ?E \<lparr>sv_world = w0, sv_open = [], sv_next = 0\<rparr> Connect [] None
      \<lparr>sv_world = w0, sv_open = [(0, session_new)], sv_next = 1\<rparr>"
    using fstep.connect [of ?E "\<lparr>sv_world = w0, sv_open = [], sv_next = 0\<rparr>"] by simp
  have 4: "fstep ?E \<lparr>sv_world = w0, sv_open = [(0, session_new)], sv_next = 1\<rparr> Connect [] None sv0"
    using fstep.connect [of ?E "\<lparr>sv_world = w0, sv_open = [(0, session_new)], sv_next = 1\<rparr>"] by (simp add: sv0_def numeral_2_eq_2)
  have "connection_step ?E session_new (sv_world sv0) (Frame sample_init_msg) =
      ([SessionAck [1] (replicate 32 0)], sample_opened, w0\<lparr>w_control := ctl2\<rparr>, None)"
    using opens [OF a1] by (simp add: sv0_def w0_def ctl2_def)
  from fstep.input [OF _ this, of 0] have 5: "fstep ?E sv0 (Input 0 (Frame sample_init_msg)) [SessionAck [1] (replicate 32 0)] None sv1"
    by (simp add: sv0_def sv1_def)
  have "connection_step ?E session_new (sv_world sv1) (Frame sample_init_msg) =
      ([SessionAck [1] (replicate 32 0)], sample_opened, w0\<lparr>w_control := ctlb\<rparr>, None)"
    using opens [OF a2] by (simp add: sv1_def ctlb_def)
  from fstep.input [OF _ this, of 1] have 6: "fstep ?E sv1 (Input 1 (Frame sample_init_msg)) [SessionAck [1] (replicate 32 0)] None (sv ctlb)"
    by (simp add: sv_def sv1_def)
  have 7: "fstep ?E (sv ctlb) (Other (EvDrain 5 key0)) [] None (sv (snd (begin_drain 5 key0 ctlb)))"
    using fstep.other [of "EvDrain 5 key0" "sv ctlb", OF _ cstep.drain] by (simp add: sv_def)
  have run: "frun ?E (server_new (control_new ''peer'' 0) sample_disk) sample_trace (sv (snd (begin_drain 5 key0 ctlb)))"
    using frun.step [OF frun.step [OF frun.step [OF frun.step [OF frun.step [OF frun.step [OF frun.step
      [OF frun.start 1] 2] 3] 4] 5] 6] 7] by (simp add: sample_trace_def)
  have "wf_control ctlb" unfolding ctlb_def by (rule wf_ops(3) [OF sample_control(2)])
  from entry_begin_drain [OF this, of 5 key0 key0] eb run show ?thesis
    by (intro exI [of _ "sv (snd (begin_drain 5 key0 ctlb))"]) (simp add: sv_def w0_def)
qed

text \<open>The second connection sends a frame that is too large.\<close>

lemma sample_bad_run:
  "\<exists>sv. frun sample_fenv (server_new (control_new ''peer'' 0) sample_disk)
      (sample_trace @ [(Input 1 sample_bad, [], Some (ConnErr (ReadErr (ReadDecode (FrameTooLarge 20000000 16777216)))))]) sv \<and>
    sv_open sv = [(0, sample_opened)] \<and> w_drops (sv_world sv) = [key0] \<and> entry (w_control (sv_world sv)) key0 \<noteq> None"
proof -
  obtain sv where sv: "frun sample_fenv (server_new (control_new ''peer'' 0) sample_disk) sample_trace sv"
    "sv_open sv = [(1, sample_opened), (0, sample_opened)]" "w_drops (sv_world sv) = []"
    "entry (w_control (sv_world sv)) key0 \<noteq> None" using sample_server_run by (metis option.distinct(1))
  have "connection_step sample_fenv sample_opened (sv_world sv) sample_bad =
      ([], sample_opened, end_session sample_opened (sv_world sv), Some (ConnErr (ReadErr (ReadDecode (FrameTooLarge 20000000 16777216)))))"
    by (simp add: connection_step_def handle_input_def sample_bad_def)
  from frun.step [OF sv(1) fstep.input [OF _ this, of 1]] sv(2-4) show ?thesis
    by (intro exI conjI) (assumption | simp add: end_session_def guards_def sample_opened_def)+
qed

lemma connection_returns_guards_witness:
  "\<exists>sv :: nat server. \<exists>e. sv_open sv = [(0, sample_opened)] \<and>
     entry (w_control (sv_world sv)) key0 = Some e \<and> unat (active_chains e) = 2 \<and> w_drops (sv_world sv) = [key0]"
proof -
  let ?tr = "sample_trace @ [(Input 1 sample_bad, [], Some (ConnErr (ReadErr (ReadDecode (FrameTooLarge 20000000 16777216)))))]"
  obtain sv e where sv: "frun sample_fenv (server_new (control_new ''peer'' 0) sample_disk) ?tr sv"
    "sv_open sv = [(0, sample_opened)]" "w_drops (sv_world sv) = [key0]" "entry (w_control (sv_world sv)) key0 = Some e"
    using sample_bad_run by (metis not_None_eq)
  have "2 * length ?tr < 2 ^ 32 - 1" by (simp add: sample_trace_def)
  from conjunct1 [OF connection_returns_guards [OF sv(1) this]] sv(4)
  have "Other EvForce \<notin> fst ` set ?tr \<longrightarrow> unat (active_chains e) = held key0 sv + count_list (w_drops (sv_world sv)) key0" by blast
  moreover have "Other EvForce \<notin> fst ` set ?tr" by (simp add: sample_trace_def)
  moreover have "held key0 sv = 1" by (simp add: held_def sv(2) sample_opened_def)
  ultimately show ?thesis using sv by auto
qed

lemma forward_only_in_session_witness:
  "\<exists>tr0 tr' pub cid lr mx k. sample_trace =
     tr0 @ (Input 0 (Frame (SessionInit [1] pub cid lr mx)), [SessionAck [1] k], None) # tr'"
proof -
  obtain sv where sv: "frun sample_fenv (server_new (control_new ''peer'' 0) sample_disk) sample_trace sv"
    "sv_open sv = [(1, sample_opened), (0, sample_opened)]"
    "map_of (w_cache (sv_world sv)) key0 = Some \<lparr>ls_handle = 0, ls_offset = 0\<rparr>" using sample_server_run by blast
  have "\<exists>ss w. handle_msg sample_fenv sample_opened (sv_world sv) sample_fwd = ([sample_reply], ss, w, None)"
    using sample_forward sv(3)
    by (simp add: handle_msg_def sample_fwd_def on_forward_def apply_truncate_def reply_def key0_def session_new_def
        sample_opened_def sample_reply_def)
  then obtain ss w where "connection_step sample_fenv sample_opened (sv_world sv) (Frame sample_fwd) = ([sample_reply], ss, w, None)"
    by (auto simp: connection_step_def handle_input_def)
  from frun.step [OF sv(1) fstep.input [OF _ this, of 0]] sv(2) obtain sv' where
    "frun sample_fenv (server_new (control_new ''peer'' 0) sample_disk) (sample_trace @ (Input 0 (Frame sample_fwd), [sample_reply], None) # []) sv'"
    by auto
  from forward_only_in_session [OF this, unfolded sample_reply_def, OF list.set_intros(1)]
  show ?thesis unfolding sample_reply_def by blast
qed

lemma forward_remote_abort_witness:
  "snd (handle_connection sample_fenv sample_session
    [(sample_world, Frame (ForwardHidden [1] 4 Decode Fp16 (0x80000000, 0x80000000, 2) [] None None))]) = Some Aborted"
  by (rule forward_remote_abort [where key = key0 and ls = "\<lparr>ls_handle = 7, ls_offset = 0\<rparr>"])
    (simp_all add: sample_session_def sample_world_def)

lemma sessions_share_model_witness:
  "\<exists>w' :: nat world. map_of (w_cache w') key0 = Some \<lparr>ls_handle = 0, ls_offset = 0\<rparr>"
proof -
  obtain out ssB w' fin where h: "handle_msg sample_fenv session_new sample_world
      (SessionInit [2] [] ''cid'' \<lparr>lr_start = 0, lr_end = 12\<rparr> 9) = (out, ssB, w', fin)" by (metis prod.exhaust)
  have "map_of (w_cache w') (''cid'', 0, 12) =
      Some (\<lparr>ls_handle = 7, ls_offset = 0\<rparr>\<lparr>ls_handle := mo_reset (fe_ops sample_fenv) (ls_handle \<lparr>ls_handle = 7, ls_offset = 0\<rparr>)\<rparr>)"
    by (rule conjunct2 [OF conjunct2 [OF sessions_share_model [of sample_session _ "[1]", OF _ _ _ _ _ _ h]]])
      (use sample_announcing in \<open>simp_all add: sample_session_def session_inv_def key0_def sample_world_def sample_fenv_def\<close>)
  then show ?thesis by (intro exI [of _ w']) (simp add: key0_def sample_fenv_def sample_ops_def)
qed

end
