(* ===== verification/Chain.thy ===== *)
theory Chain
  imports Hidden Catalog
begin

text \<open>
  The driver's side of a pipeline, \<open>crates/runtime/src/chain.rs\<close>: opening one session per peer, and
  pushing a hidden state through the peers in order. The network is the parameter \<open>network\<close> over a
  state \<open>'w\<close>; its calls include the timeouts. Telemetry events are not modelled.
\<close>

section \<open>Computations with a state and an error\<close>

type_synonym ('s, 'e, 'a) st = "'s \<Rightarrow> ('e + 'a) \<times> 's"

definition sbind :: "('s, 'e, 'a) st \<Rightarrow> ('a \<Rightarrow> ('s, 'e, 'b) st) \<Rightarrow> ('s, 'e, 'b) st" where
  "sbind m f = (\<lambda>s. case m s of (Inl e, s') \<Rightarrow> (Inl e, s') | (Inr x, s') \<Rightarrow> f x s')"

definition slift :: "'e + 'a \<Rightarrow> ('s, 'e, 'a) st" where
  "slift r = (\<lambda>s. (r, s))"

definition smap_err :: "('e \<Rightarrow> 'f) \<Rightarrow> ('s, 'e, 'a) st \<Rightarrow> ('s, 'f, 'a) st" where
  "smap_err g m = (\<lambda>s. case m s of (r, s') \<Rightarrow> (map_err g r, s'))"

lemma sbind_Inr [results]:
  "sbind m f s = (Inr y, s'') \<longleftrightarrow> (\<exists>x s'. m s = (Inr x, s') \<and> f x s' = (Inr y, s''))"
  by (auto simp: sbind_def split: prod.splits sum.splits)

lemma slift_Inr [results]: "slift r s = (Inr y, s') \<longleftrightarrow> r = Inr y \<and> s' = s"
  by (auto simp: slift_def)

lemma smap_err_Inr [results]: "smap_err g m s = (Inr y, s') \<longleftrightarrow> m s = (Inr y, s')"
  by (auto simp: smap_err_def map_err_def split: prod.splits sum.splits)

lemma sbind_step: "m s = (Inr x, s') \<Longrightarrow> sbind m f s = f x s'"
  by (simp add: sbind_def)

section \<open>Links, configuration and errors\<close>

record link =
  lk_addr :: string
  lk_layers :: layer_range
  lk_session :: bytes
  lk_seq :: u64

record chain_cfg =
  cc_peers :: "string list"
  cc_splits :: "u16 list"
  cc_proto_ver :: u32
  cc_model_cid :: string
  cc_max_seq :: u32
  cc_wire_dtype :: dtype

definition cfg_single :: "string \<Rightarrow> u16 \<Rightarrow> chain_cfg" where
  "cfg_single peer split = \<lparr>cc_peers = [peer], cc_splits = [split], cc_proto_ver = 1,
     cc_model_cid = ''local'', cc_max_seq = 2048, cc_wire_dtype = Fp16\<rparr>"

definition cfg_many :: "string list \<Rightarrow> u16 list \<Rightarrow> chain_cfg" where
  "cfg_many peers splits = (cfg_single ''127.0.0.1:7717'' 0)\<lparr>cc_peers := peers, cc_splits := splits\<rparr>"

datatype handshake_reason =
    ProtoMismatch u32 u32
  | ExpectedHello "msg option"
  | ExpectedAck "msg option"

datatype drop_reason =
    WriteFailed string
  | ReadFailed string
  | UnexpectedMsg msg
  | ClosedBeforeReply
  | BadDtype dtype
  | ShapeDiffers nat nat "u32 \<times> u32 \<times> u32"

datatype other_reason =
    NoPeers
  | LengthMismatch nat nat
  | NotIncreasing "u16 list"
  | FirstSplitZero
  | LastSplit u16 u16
  | EncodeFailed wire_error
  | NotRank3 "nat list"
  | HiddenFailed hidden_error

datatype chain_error =
    ConnectErr nat string string
  | HandshakeErr nat string handshake_reason
  | TimeoutErr nat string
  | DroppedErr nat string drop_reason
  | AbortedErr nat string string
  | OtherErr other_reason

datatype 'a io = IoOk 'a | IoTimeout | IoErr string

record 'w network =
  nw_connect :: "nat \<Rightarrow> string \<Rightarrow> 'w \<Rightarrow> unit io \<times> 'w"
  nw_write :: "nat \<Rightarrow> msg \<Rightarrow> 'w \<Rightarrow> unit io \<times> 'w"
  nw_read :: "nat \<Rightarrow> 'w \<Rightarrow> msg option io \<times> 'w"

text \<open>\<open>ce_sids\<close> gives the random session identifiers in the order they are drawn.\<close>

record 'w chain_env =
  ce_codec :: cbor_msg
  ce_net :: "'w network"
  ce_f32 :: f32_arith
  ce_sids :: "nat \<Rightarrow> bytes"

record chain =
  cn_cfg :: chain_cfg
  cn_links :: "link list"
  cn_front_end :: u16

section \<open>Framed input and output\<close>

definition write_with_timeout :: "'w chain_env \<Rightarrow> nat \<Rightarrow> string \<Rightarrow> msg \<Rightarrow> ('w, chain_error fault, unit) st" where
  "write_with_timeout E i addr m =
     (\<lambda>w. case encode_frame (ce_codec E) m [] of
        Inl e \<Rightarrow> (Inl (Fail (OtherErr (EncodeFailed e))), w)
      | Inr _ \<Rightarrow> (case nw_write (ce_net E) i m w of
            (IoTimeout, w') \<Rightarrow> (Inl (Fail (TimeoutErr i addr)), w')
          | (IoErr s, w') \<Rightarrow> (Inl (Fail (DroppedErr i addr (WriteFailed s))), w')
          | (IoOk _, w') \<Rightarrow> (Inr (), w')))"

definition read_with_timeout :: "'w chain_env \<Rightarrow> nat \<Rightarrow> string \<Rightarrow> ('w, chain_error fault, msg option) st" where
  "read_with_timeout E i addr =
     (\<lambda>w. case nw_read (ce_net E) i w of
        (IoTimeout, w') \<Rightarrow> (Inl (Fail (TimeoutErr i addr)), w')
      | (IoErr s, w') \<Rightarrow> (Inl (Fail (DroppedErr i addr (ReadFailed s))), w')
      | (IoOk m, w') \<Rightarrow> (Inr m, w'))"

section \<open>Opening the chain\<close>

definition check_cfg :: "chain_cfg \<Rightarrow> u16 \<Rightarrow> other_reason + unit" where
  "check_cfg cfg n_blocks =
     (if cc_peers cfg = [] then Inl NoPeers
      else if length (cc_peers cfg) \<noteq> length (cc_splits cfg)
      then Inl (LengthMismatch (length (cc_peers cfg)) (length (cc_splits cfg)))
      else if list_ex (\<lambda>(a, b). b \<le> a) (zip (cc_splits cfg) (tl (cc_splits cfg))) then Inl (NotIncreasing (cc_splits cfg))
      else if hd (cc_splits cfg) = 0 then Inl FirstSplitZero
      else if n_blocks \<le> last (cc_splits cfg) then Inl (LastSplit (last (cc_splits cfg)) n_blocks)
      else Inr ())"

definition link_layers :: "u16 list \<Rightarrow> u16 \<Rightarrow> nat \<Rightarrow> layer_range" where
  "link_layers splits n_blocks i =
     \<lparr>lr_start = splits ! i, lr_end = (if i + 1 < length splits then splits ! (i + 1) else n_blocks)\<rparr>"

definition connect_tcp :: "'w chain_env \<Rightarrow> nat \<Rightarrow> string \<Rightarrow> ('w, chain_error fault, unit) st" where
  "connect_tcp E i addr =
     (\<lambda>w. case nw_connect (ce_net E) i addr w of
        (IoTimeout, w') \<Rightarrow> (Inl (Fail (TimeoutErr i addr)), w')
      | (IoErr s, w') \<Rightarrow> (Inl (Fail (ConnectErr i addr s)), w')
      | (IoOk _, w') \<Rightarrow> (Inr (), w'))"

definition check_hello :: "chain_cfg \<Rightarrow> nat \<Rightarrow> string \<Rightarrow> msg option \<Rightarrow> chain_error fault + unit" where
  "check_hello cfg i addr r =
     (case r of
        Some (Hello _ ver _) \<Rightarrow>
          if ver = cc_proto_ver cfg then Inr ()
          else Inl (Fail (HandshakeErr i addr (ProtoMismatch (cc_proto_ver cfg) ver)))
      | other \<Rightarrow> Inl (Fail (HandshakeErr i addr (ExpectedHello other))))"

definition check_ack :: "nat \<Rightarrow> string \<Rightarrow> bytes \<Rightarrow> msg option \<Rightarrow> chain_error fault + unit" where
  "check_ack i addr sid r =
     (case r of
        Some (SessionAck sid' _) \<Rightarrow>
          if sid' = sid then Inr () else Inl (Fail (HandshakeErr i addr (ExpectedAck r)))
      | Some (AbortSession _ reason) \<Rightarrow> Inl (Fail (AbortedErr i addr reason))
      | other \<Rightarrow> Inl (Fail (HandshakeErr i addr (ExpectedAck other))))"

definition open_link :: "'w chain_env \<Rightarrow> chain_cfg \<Rightarrow> u16 \<Rightarrow> nat \<Rightarrow> string \<Rightarrow> ('w, chain_error fault, link) st" where
  "open_link E cfg n_blocks i addr =
     (let layers = link_layers (cc_splits cfg) n_blocks i; sid = ce_sids E i
      in sbind (connect_tcp E i addr) (\<lambda>_.
         sbind (write_with_timeout E i addr (Hello (replicate 32 0) (cc_proto_ver cfg) [Q4KM, FP16])) (\<lambda>_.
         sbind (read_with_timeout E i addr) (\<lambda>r.
         sbind (slift (check_hello cfg i addr r)) (\<lambda>_.
         sbind (write_with_timeout E i addr
                  (SessionInit sid (replicate 32 0) (cc_model_cid cfg) layers (cc_max_seq cfg))) (\<lambda>_.
         sbind (read_with_timeout E i addr) (\<lambda>r.
         sbind (slift (check_ack i addr sid r)) (\<lambda>_.
           slift (Inr \<lparr>lk_addr = addr, lk_layers = layers, lk_session = sid, lk_seq = 0\<rparr>)))))))))"

fun open_links :: "'w chain_env \<Rightarrow> chain_cfg \<Rightarrow> u16 \<Rightarrow> nat \<Rightarrow> string list \<Rightarrow> ('w, chain_error fault, link list) st" where
  "open_links E cfg n_blocks i [] = slift (Inr [])"
| "open_links E cfg n_blocks i (a # as) =
     sbind (open_link E cfg n_blocks i a) (\<lambda>l. sbind (open_links E cfg n_blocks (i + 1) as) (\<lambda>ls. slift (Inr (l # ls))))"

definition chain_connect :: "'w chain_env \<Rightarrow> chain_cfg \<Rightarrow> u16 \<Rightarrow> ('w, chain_error fault, chain) st" where
  "chain_connect E cfg n_blocks =
     sbind (slift (map_err (\<lambda>r. Fail (OtherErr r)) (check_cfg cfg n_blocks))) (\<lambda>_.
     sbind (open_links E cfg n_blocks 0 (cc_peers cfg)) (\<lambda>ls.
       slift (Inr \<lparr>cn_cfg = cfg, cn_links = ls, cn_front_end = hd (cc_splits cfg)\<rparr>)))"

section \<open>One step through the peers\<close>

definition check_reply :: "nat \<Rightarrow> string \<Rightarrow> bytes \<Rightarrow> msg option \<Rightarrow> chain_error fault + hidden_payload" where
  "check_reply i addr sid r =
     (case r of
        Some (ForwardHidden sid' _ _ dt sh payload _ _) \<Rightarrow>
          if sid' = sid then Inr \<lparr>hp_dtype = dt, hp_shape = sh, hp_bytes = payload\<rparr>
          else Inl (Fail (DroppedErr i addr (UnexpectedMsg (the r))))
      | Some (AbortSession _ reason) \<Rightarrow> Inl (Fail (AbortedErr i addr reason))
      | Some other \<Rightarrow> Inl (Fail (DroppedErr i addr (UnexpectedMsg other)))
      | None \<Rightarrow> Inl (Fail (DroppedErr i addr ClosedBeforeReply)))"

definition hidden_fault :: "hidden_error fault \<Rightarrow> chain_error fault" where
  "hidden_fault f = (case f of Fail e \<Rightarrow> Fail (OtherErr (HiddenFailed e)) | Panic \<Rightarrow> Panic)"

definition accept_reply :: "f32_arith \<Rightarrow> nat \<Rightarrow> string \<Rightarrow> nat \<Rightarrow> nat \<Rightarrow> hidden_payload \<Rightarrow> chain_error fault + hidden" where
  "accept_reply F i addr exp_b exp_s p =
     (if hp_dtype p = Bf16 then Inl (Fail (DroppedErr i addr (BadDtype (hp_dtype p))))
      else rbind (map_err hidden_fault (decode_hidden F p)) (\<lambda>((a, b, c), data).
        if unat a \<noteq> exp_b \<or> unat b \<noteq> exp_s then Inl (Fail (DroppedErr i addr (ShapeDiffers exp_b exp_s (a, b, c))))
        else map_err (\<lambda>e. hidden_fault (Fail e)) (hidden_new data [unat a, unat b, unat c])))"

text \<open>Link \<open>l\<close> comes with its sequence number already advanced.\<close>

definition hop :: "'w chain_env \<Rightarrow> dtype \<Rightarrow> phase \<Rightarrow> u32 option \<Rightarrow> nat \<Rightarrow> link \<Rightarrow> hidden \<Rightarrow> ('w, chain_error fault, hidden) st" where
  "hop E dt ph keep i l cur =
     (case h_shape cur of
        [b, s, h] \<Rightarrow>
          sbind (slift (map_err hidden_fault
                  (encode_hidden_with (ce_f32 E) (h_data cur) (word_of_nat b, word_of_nat s, word_of_nat h) dt))) (\<lambda>p.
          sbind (write_with_timeout E i (lk_addr l)
                  (ForwardHidden (lk_session l) (lk_seq l) ph (hp_dtype p) (hp_shape p) (hp_bytes p) None keep)) (\<lambda>_.
          sbind (read_with_timeout E i (lk_addr l)) (\<lambda>r.
          sbind (slift (check_reply i (lk_addr l) (lk_session l) r)) (\<lambda>q.
            slift (accept_reply (ce_f32 E) i (lk_addr l) b s q)))))
      | sh \<Rightarrow> slift (Inl (Fail (OtherErr (NotRank3 sh)))))"

fun walk_links :: "'w chain_env \<Rightarrow> dtype \<Rightarrow> phase \<Rightarrow> u32 option \<Rightarrow> nat \<Rightarrow> link list \<Rightarrow> hidden \<Rightarrow> 'w \<Rightarrow>
    (chain_error fault + hidden) \<times> link list \<times> 'w" where
  "walk_links E dt ph keep i [] cur w = (Inr cur, [], w)"
| "walk_links E dt ph keep i (l # ls) cur w =
     (let l' = l\<lparr>lk_seq := lk_seq l + 1\<rparr>
      in case hop E dt ph keep i l' cur w of
           (Inl e, w') \<Rightarrow> (Inl e, l' # ls, w')
         | (Inr h, w') \<Rightarrow>
             let (r, ls', w'') = walk_links E dt ph keep (i + 1) ls h w' in (r, l' # ls', w''))"

definition step_with_truncate :: "'w chain_env \<Rightarrow> hidden \<Rightarrow> phase \<Rightarrow> u32 option \<Rightarrow> (chain \<times> 'w, chain_error fault, hidden) st" where
  "step_with_truncate E h ph keep = (\<lambda>(c, w).
     let (r, ls, w') = walk_links E (cc_wire_dtype (cn_cfg c)) ph keep 0 (cn_links c) h w
     in (r, c\<lparr>cn_links := ls\<rparr>, w'))"

definition chain_step :: "'w chain_env \<Rightarrow> hidden \<Rightarrow> phase \<Rightarrow> (chain \<times> 'w, chain_error fault, hidden) st" where
  "chain_step E h ph = step_with_truncate E h ph None"

fun close_links :: "'w chain_env \<Rightarrow> string \<Rightarrow> nat \<Rightarrow> link list \<Rightarrow> 'w \<Rightarrow> 'w" where
  "close_links E reason i [] w = w"
| "close_links E reason i (l # ls) w =
     close_links E reason (i + 1) ls
       (let m = AbortSession (lk_session l) reason
        in case encode_frame (ce_codec E) m [] of Inl _ \<Rightarrow> w | Inr _ \<Rightarrow> snd (nw_write (ce_net E) i m w))"

definition chain_close :: "'w chain_env \<Rightarrow> string \<Rightarrow> chain \<Rightarrow> 'w \<Rightarrow> 'w" where
  "chain_close E reason c w = close_links E reason 0 (cn_links c) w"

section \<open>Facts\<close>

lemma check_cfg_ok:
  assumes "check_cfg cfg n = Inr ()"
  shows "cc_peers cfg \<noteq> []" "length (cc_peers cfg) = length (cc_splits cfg)" "sorted_wrt (<) (cc_splits cfg)"
    "hd (cc_splits cfg) \<noteq> 0" "last (cc_splits cfg) < n"
proof -
  have a: "cc_peers cfg \<noteq> []" "length (cc_peers cfg) = length (cc_splits cfg)"
    "\<not> list_ex (\<lambda>(a, b). b \<le> a) (zip (cc_splits cfg) (tl (cc_splits cfg)))"
    "hd (cc_splits cfg) \<noteq> 0" "last (cc_splits cfg) < n"
    using assms by (auto simp: check_cfg_def not_le split: if_splits)
  have "\<not> list_ex (\<lambda>(a, b). b \<le> a) (zip xs (tl xs)) \<Longrightarrow> sorted_wrt (<) xs" for xs :: "u16 list"
  proof (induction xs rule: induct_list012)
    case (3 x y zs)
    then have s: "sorted_wrt (<) (y # zs)" "x < y" by (auto simp: list_ex_iff not_le)
    then show ?case by auto
  qed simp_all
  then show "cc_peers cfg \<noteq> []" "length (cc_peers cfg) = length (cc_splits cfg)" "sorted_wrt (<) (cc_splits cfg)"
    "hd (cc_splits cfg) \<noteq> 0" "last (cc_splits cfg) < n" using a by simp_all
qed

lemma open_link_ok:
  assumes "open_link E cfg n i a w = (Inr l, w')"
  shows "l = \<lparr>lk_addr = a, lk_layers = link_layers (cc_splits cfg) n i, lk_session = ce_sids E i, lk_seq = 0\<rparr>"
  using assms by (auto simp: open_link_def Let_def results)

lemma open_links_ok:
  assumes "open_links E cfg n i as w = (Inr ls, w')"
  shows "ls = map (\<lambda>j. \<lparr>lk_addr = as ! j, lk_layers = link_layers (cc_splits cfg) n (i + j),
      lk_session = ce_sids E (i + j), lk_seq = 0\<rparr>) [0..<length as]"
  using assms
proof (induction as arbitrary: i ls w)
  case Nil
  then show ?case by (simp add: results)
next
  case (Cons a as)
  from Cons.prems obtain l w1 ls' where l: "open_link E cfg n i a w = (Inr l, w1)"
    and r: "open_links E cfg n (i + 1) as w1 = (Inr ls', w')" "ls = l # ls'"
    by (auto simp: results)
  show ?case unfolding r(2) open_link_ok [OF l] Cons.IH [OF r(1)]
    by (simp add: upt_conv_Cons map_Suc_upt [symmetric] comp_def del: upt_Suc map_Suc_upt)
qed

lemma covers_chain:
  assumes "sorted_wrt (<) (s # ss)" "last (s # ss) < n"
  shows "covers s (map (\<lambda>j. (lr_start (link_layers (s # ss) n j), lr_end (link_layers (s # ss) n j))) [0..<length (s # ss)]) n"
  using assms
proof (induction ss arbitrary: s)
  case Nil
  then show ?case by (simp add: link_layers_def)
next
  case (Cons t ss)
  have shift: "link_layers (s # t # ss) n (Suc j) = link_layers (t # ss) n j" for j by (simp add: link_layers_def)
  have "covers t (map (\<lambda>j. (lr_start (link_layers (t # ss) n j), lr_end (link_layers (t # ss) n j))) [0..<length (t # ss)]) n"
    by (rule Cons.IH) (use Cons.prems in auto)
  moreover have "s < t" using Cons.prems by simp
  moreover have m: "map (\<lambda>j. (a j, b j)) [0..<length (s # t # ss)] = (a 0, b 0) # map (\<lambda>j. (a (Suc j), b (Suc j))) [0..<length (t # ss)]"
    for a b :: "nat \<Rightarrow> u16"
    by (simp add: upt_conv_Cons map_Suc_upt [symmetric] comp_def del: upt_Suc map_Suc_upt)
  moreover have "lr_start (link_layers (s # t # ss) n 0) = s" "lr_end (link_layers (s # t # ss) n 0) = t"
    by (simp_all add: link_layers_def)
  ultimately show ?case unfolding m shift covers.simps by simp
qed

definition connected_covers :: "'w chain_env \<Rightarrow> chain_cfg \<Rightarrow> u16 \<Rightarrow> chain \<Rightarrow> bool" where
  "connected_covers E cfg n_blocks c \<longleftrightarrow>
    covers 0 ((0, cn_front_end c) # map (\<lambda>l. (lr_start (lk_layers l), lr_end (lk_layers l))) (cn_links c)) n_blocks \<and>
    map lk_addr (cn_links c) = cc_peers cfg \<and>
    map lk_session (cn_links c) = map (ce_sids E) [0..<length (cc_peers cfg)] \<and>
    (\<forall>l \<in> set (cn_links c). lk_seq l = 0)"

lemma connect_covers:
  assumes "chain_connect E cfg n_blocks w = (Inr c, w')"
  shows "connected_covers E cfg n_blocks c"
proof -
  from assms obtain ls where k: "check_cfg cfg n_blocks = Inr ()" and ls: "open_links E cfg n_blocks 0 (cc_peers cfg) w = (Inr ls, w')"
    and c: "c = \<lparr>cn_cfg = cfg, cn_links = ls, cn_front_end = hd (cc_splits cfg)\<rparr>"
    by (auto simp: chain_connect_def results)
  note ok = check_cfg_ok [OF k]
  obtain s ss where ss: "cc_splits cfg = s # ss" using ok(1,2) by (cases "cc_splits cfg") auto
  have "covers s (map (\<lambda>j. (lr_start (link_layers (s # ss) n_blocks j), lr_end (link_layers (s # ss) n_blocks j))) [0..<length (s # ss)]) n_blocks"
    by (rule covers_chain) (use ok ss in auto)
  moreover have "0 < s" using ok(4) ss by (simp add: word_gt_0)
  moreover have "length (cc_peers cfg) = length (s # ss)" using ok(2) ss by simp
  ultimately show ?thesis using open_links_ok [OF ls] map_nth [of "cc_peers cfg"]
    by (auto simp: connected_covers_def c ss comp_def simp del: upt_Suc)
qed

text \<open>
  C4. A chain that connects covers the model: the driver's front range and the peers' layer ranges,
  in the order of the links, run from block zero to the block count without gap or overlap and none
  is empty; every link has its own session, acknowledged by its peer, and starts at sequence zero.
\<close>

theorem connect_covers_model:
  assumes "chain_connect E cfg n_blocks w = (Inr c, w')"
  shows "covers 0 ((0, cn_front_end c) # map (\<lambda>l. (lr_start (lk_layers l), lr_end (lk_layers l))) (cn_links c)) n_blocks \<and>
    map lk_addr (cn_links c) = cc_peers cfg \<and>
    map lk_session (cn_links c) = map (ce_sids E) [0..<length (cc_peers cfg)] \<and>
    (\<forall>l \<in> set (cn_links c). lk_seq l = 0)"
  using connect_covers [OF assms] by (simp add: connected_covers_def)

text \<open>A step only advances sequence numbers, up to the link that failed.\<close>

lemma walk_links_seq:
  assumes "walk_links E dt ph keep i ls cur w = (r, ls', w')"
  shows "length ls' = length ls \<and>
    (\<exists>k \<le> length ls. (\<forall>j < length ls. ls' ! j = (if j < k then (ls ! j)\<lparr>lk_seq := lk_seq (ls ! j) + 1\<rparr> else ls ! j)) \<and>
      (case r of Inr _ \<Rightarrow> k = length ls | Inl _ \<Rightarrow> 0 < k))"
  using assms
proof (induction ls arbitrary: i cur w ls')
  case Nil
  then show ?case by (auto split: sum.splits)
next
  case (Cons l ls)
  obtain r1 w1 where h: "hop E dt ph keep i (l\<lparr>lk_seq := lk_seq l + 1\<rparr>) cur w = (r1, w1)" by fastforce
  show ?case
  proof (cases r1)
    case (Inl e)
    then have "r = Inl e" "ls' = l\<lparr>lk_seq := lk_seq l + 1\<rparr> # ls" using Cons.prems h by (simp_all add: Let_def)
    then show ?thesis by (auto simp: nth_Cons split: nat.splits intro!: exI [of _ 1])
  next
    case (Inr x)
    then obtain ls1 where ls1: "walk_links E dt ph keep (i + 1) ls x w1 = (r, ls1, w')"
      "ls' = l\<lparr>lk_seq := lk_seq l + 1\<rparr> # ls1"
      using Cons.prems h by (auto simp: Let_def split: prod.splits)
    from Cons.IH [OF ls1(1)] obtain k where k: "length ls1 = length ls" "k \<le> length ls"
      "\<forall>j < length ls. ls1 ! j = (if j < k then (ls ! j)\<lparr>lk_seq := lk_seq (ls ! j) + 1\<rparr> else ls ! j)"
      "case r of Inr _ \<Rightarrow> k = length ls | Inl _ \<Rightarrow> 0 < k" by blast
    then show ?thesis
      by (intro conjI exI [of _ "Suc k"]) (auto simp: ls1(2) nth_Cons less_Suc_eq_0_disj split: sum.splits nat.splits)
  qed
qed

lemma hop_shape:
  assumes "hop E dt ph keep i l cur w = (Inr h, w')"
  shows "\<exists>b s x y. h_shape cur = [b, s, x] \<and> h_shape h = [b, s, y] \<and> usize_product (h_shape h) = length (h_data h)"
proof -
  obtain b s x where sh: "h_shape cur = [b, s, x]"
    using assms by (auto simp: hop_def results split: list.splits)
  with assms obtain q where "accept_reply (ce_f32 E) i (lk_addr l) b s q = Inr h"
    by (auto simp: hop_def results)
  then show ?thesis using sh
    by (auto simp: accept_reply_def hidden_new_def results split: if_splits prod.splits)
qed

text \<open>
  C30. A step keeps the batch and sequence dimensions: what comes out of the last peer has the shape
  of what went in except for the innermost dimension, and as many values as its shape says; every
  link's sequence number advanced by one. A failed step has advanced a prefix of the links and the
  peer that failed, no further.
\<close>

theorem chain_step_shape:
  assumes "step_with_truncate E h ph keep (c, w) = (r, c', w')"
  shows "(\<exists>k. k \<le> length (cn_links c) \<and>
      cn_links c' = map (\<lambda>l. l\<lparr>lk_seq := lk_seq l + 1\<rparr>) (take k (cn_links c)) @ drop k (cn_links c) \<and>
      (case r of
         Inr h' \<Rightarrow> k = length (cn_links c) \<and>
           (cn_links c \<noteq> [] \<longrightarrow> (\<exists>b s x y. h_shape h = [b, s, x] \<and> h_shape h' = [b, s, y] \<and>
              usize_product (h_shape h') = length (h_data h')))
       | Inl _ \<Rightarrow> 0 < k))"
proof -
  let ?dt = "cc_wire_dtype (cn_cfg c)"
  obtain ls' where w: "walk_links E ?dt ph keep 0 (cn_links c) h w = (r, ls', w')" and c': "cn_links c' = ls'"
    using assms by (auto simp: step_with_truncate_def Let_def split: prod.splits)
  from walk_links_seq [OF w] obtain k where len: "length ls' = length (cn_links c)" and k: "k \<le> length (cn_links c)"
    and nth: "\<forall>j < length (cn_links c). ls' ! j =
        (if j < k then (cn_links c ! j)\<lparr>lk_seq := lk_seq (cn_links c ! j) + 1\<rparr> else cn_links c ! j)"
    and fin: "case r of Inr _ \<Rightarrow> k = length (cn_links c) | Inl _ \<Rightarrow> 0 < k" by blast
  have links: "ls' = map (\<lambda>l. l\<lparr>lk_seq := lk_seq l + 1\<rparr>) (take k (cn_links c)) @ drop k (cn_links c)"
    using len k nth by (intro nth_equalityI) (auto simp: nth_append)
  have shape: "walk_links E dt ph keep i (l # ls) cur w = (Inr h', ls', w') \<Longrightarrow>
      \<exists>b s x y. h_shape cur = [b, s, x] \<and> h_shape h' = [b, s, y] \<and> usize_product (h_shape h') = length (h_data h')"
    for dt i l ls cur w h' ls' w'
  proof (induction ls arbitrary: i l cur w ls')
    case Nil
    then show ?case by (auto simp: Let_def split: prod.splits sum.splits dest!: hop_shape)
  next
    case (Cons l2 ls)
    from Cons.prems obtain h1 w1 ls1 where hp: "hop E dt ph keep i (l\<lparr>lk_seq := lk_seq l + 1\<rparr>) cur w = (Inr h1, w1)"
      and "walk_links E dt ph keep (i + 1) (l2 # ls) h1 w1 = (Inr h', ls1, w')"
      by (auto simp: Let_def simp del: walk_links.simps(2) simp: walk_links.simps(2) [of _ _ _ _ _ l]
          split: prod.splits sum.splits)
    from Cons.IH [OF this(2)] hop_shape [OF hp] show ?case by auto
  qed
  show ?thesis
    using k links fin shape w by (intro exI [of _ k]) (cases r; cases "cn_links c"; auto simp: c')
qed

section \<open>A sample chain\<close>

text \<open>The network state is the queue of the replies still to be read.\<close>

definition queue_net :: "msg list network" where
  "queue_net = \<lparr>nw_connect = (\<lambda>_ _ q. (IoOk (), q)), nw_write = (\<lambda>_ _ q. (IoOk (), q)),
     nw_read = (\<lambda>_ q. case q of [] \<Rightarrow> (IoOk None, []) | m # ms \<Rightarrow> (IoOk (Some m), ms))\<rparr>"

definition queue_env :: "msg list chain_env" where
  "queue_env = \<lparr>ce_codec = \<lparr>cm_enc = (\<lambda>_. Inr [7]), cm_dec = (\<lambda>_. Inl [])\<rparr>, ce_net = queue_net,
     ce_f32 = sample_f32, ce_sids = (\<lambda>i. [word_of_nat i])\<rparr>"

lemma queue_encode: "\<exists>f. encode_frame (ce_codec queue_env) m [] = Inr f"
  by (simp add: encode_frame_def wire_encode_def queue_env_def MAX_FRAME_BYTES_def)

lemma queue_write: "write_with_timeout queue_env i a m q = (Inr (), q)"
  using queue_encode [of m] by (auto simp: write_with_timeout_def) (simp add: queue_env_def queue_net_def)

lemma queue_read: "read_with_timeout queue_env i a (m # q) = (Inr (Some m), q)"
  by (simp add: read_with_timeout_def queue_env_def queue_net_def)

lemma queue_connect: "connect_tcp queue_env i a q = (Inr (), q)"
  by (simp add: connect_tcp_def queue_env_def queue_net_def)

lemma sample_connect:
  "chain_connect queue_env (cfg_single ''p'' 3) 8 [Hello [] 1 [], SessionAck [0] []] =
    (Inr \<lparr>cn_cfg = cfg_single ''p'' 3, cn_links = [\<lparr>lk_addr = ''p'', lk_layers = \<lparr>lr_start = 3, lr_end = 8\<rparr>,
       lk_session = [0], lk_seq = 0\<rparr>], cn_front_end = 3\<rparr>, [])"
proof -
  have s: "ce_sids queue_env 0 = [0]" by (simp add: queue_env_def)
  show ?thesis
    by (simp add: chain_connect_def check_cfg_def cfg_single_def open_link_def sbind_def slift_def
        queue_connect queue_write queue_read check_hello_def check_ack_def s link_layers_def Let_def)
qed

lemma connect_covers_model_witness:
  "\<exists>c w'. chain_connect queue_env (cfg_single ''p'' 3) 8 [Hello [] 1 [], SessionAck [0] []] = (Inr c, w') \<and>
     covers 0 ((0, cn_front_end c) # map (\<lambda>l. (lr_start (lk_layers l), lr_end (lk_layers l))) (cn_links c)) 8"
  using connect_covers_model [OF sample_connect] sample_connect by blast

lemma chain_step_shape_witness:
  "\<exists>r c' w'. step_with_truncate queue_env \<lparr>h_data = [5], h_shape = [1, 1, 1]\<rparr> Decode None
      (\<lparr>cn_cfg = cfg_single ''p'' 3, cn_links = [\<lparr>lk_addr = ''p'', lk_layers = \<lparr>lr_start = 3, lr_end = 8\<rparr>,
       lk_session = [0], lk_seq = 0\<rparr>], cn_front_end = 3\<rparr>, []) = (r, c', w') \<and> length (cn_links c') = 1"
proof -
  let ?c = "\<lparr>cn_cfg = cfg_single ''p'' 3, cn_links = [\<lparr>lk_addr = ''p'', lk_layers = \<lparr>lr_start = 3, lr_end = 8\<rparr>,
       lk_session = [0], lk_seq = 0\<rparr>], cn_front_end = 3\<rparr>"
  obtain r c' w' where s: "step_with_truncate queue_env \<lparr>h_data = [5], h_shape = [1, 1, 1]\<rparr> Decode None (?c, []) = (r, c', w')"
    by (metis prod.exhaust)
  from chain_step_shape [OF s] obtain k where "k \<le> length (cn_links ?c)"
    "cn_links c' = map (\<lambda>l. l\<lparr>lk_seq := lk_seq l + 1\<rparr>) (take k (cn_links ?c)) @ drop k (cn_links ?c)" by blast
  then have "length (cn_links c') = 1" by simp
  with s show ?thesis by blast
qed

end
