(* ===== verification/Sampler.thy ===== *)
theory Sampler
  imports Hidden "HOL-Library.Multiset"
begin

text \<open>
  The logits sampler, \<open>crates/runtime/src/sample.rs\<close>. Comparisons of \<open>f32\<close> and the sign test of the
  \<open>f64\<close> temperature are defined on bit patterns; rounding arithmetic, \<open>exp\<close> and the narrowing of \<open>f64\<close>
  are the fields of \<open>sampler_arith\<close>. The generator is a state \<open>'r\<close> with \<open>gen\<close>, the uniform draw from
  [0, 1); the order \<open>sort_unstable_by\<close> leaves the indices in is the field \<open>sa_desc\<close>.
\<close>

type_synonym f64 = "64 word"

definition f64_mag :: "f64 \<Rightarrow> nat" where
  "f64_mag x = unat x mod 2 ^ 63"

definition f64_is_nan :: "f64 \<Rightarrow> bool" where
  "f64_is_nan x \<longleftrightarrow> 0x7FF0000000000000 < f64_mag x"

definition f64_key :: "f64 \<Rightarrow> int" where
  "f64_key x = (if 2 ^ 63 \<le> unat x then - int (f64_mag x) else int (f64_mag x))"

definition f64_gt :: "f64 \<Rightarrow> f64 \<Rightarrow> bool" where
  "f64_gt x y \<longleftrightarrow> \<not> f64_is_nan x \<and> \<not> f64_is_nan y \<and> f64_key y < f64_key x"

definition f64_le :: "f64 \<Rightarrow> f64 \<Rightarrow> bool" where
  "f64_le x y \<longleftrightarrow> \<not> f64_is_nan x \<and> \<not> f64_is_nan y \<and> f64_key x \<le> f64_key y"

definition F64_ONE :: f64 where "F64_ONE = 0x3FF0000000000000"

definition f32_ge :: "f32 \<Rightarrow> f32 \<Rightarrow> bool" where
  "f32_ge x y \<longleftrightarrow> \<not> f32_is_nan x \<and> \<not> f32_is_nan y \<and> f32_key y \<le> f32_key x"

record 'r sampler_arith =
  sa_div :: "f32 \<Rightarrow> f32 \<Rightarrow> f32"
  sa_mul :: "f32 \<Rightarrow> f32 \<Rightarrow> f32"
  sa_add :: "f32 \<Rightarrow> f32 \<Rightarrow> f32"
  sa_sub :: "f32 \<Rightarrow> f32 \<Rightarrow> f32"
  sa_exp :: "f32 \<Rightarrow> f32"
  sa_of_f64 :: "f64 \<Rightarrow> f32"
  sa_gen :: "'r \<Rightarrow> f32 \<times> 'r"
  sa_desc :: "f32 list \<Rightarrow> nat list" \<comment> \<open>the sorted indices\<close>

text \<open>What the source relies on of the sort: the result is a permutation of the indices.\<close>

definition sort_ok :: "'r sampler_arith \<Rightarrow> bool" where
  "sort_ok A \<longleftrightarrow> (\<forall>ps. mset (sa_desc A ps) = mset [0..<length ps])"

record 'r sampler =
  sm_temperature :: f64
  sm_top_p :: "f64 option"
  sm_rng :: 'r

record sampler_cfg =
  repeat_penalty :: f32
  repeat_ctx :: nat

datatype sample_error = EmptyLogits

section \<open>The functions\<close>

definition argmax_logits :: "f32 list \<Rightarrow> u32" where
  "argmax_logits xs = word_of_nat (fst (argmax_fold xs))"

fun penalize :: "'r sampler_arith \<Rightarrow> f32 \<Rightarrow> u32 list \<Rightarrow> f32 list \<Rightarrow> f32 list" where
  "penalize A p [] xs = xs"
| "penalize A p (t # ts) xs =
     (let i = unat t
      in if length xs \<le> i then penalize A p ts xs
         else penalize A p ts (xs[i := if f32_ge (xs ! i) 0 then sa_div A (xs ! i) p else sa_mul A (xs ! i) p]))"

definition apply_repeat_penalty :: "'r sampler_arith \<Rightarrow> f32 list \<Rightarrow> u32 list \<Rightarrow> nat \<Rightarrow> f32 \<Rightarrow> f32 list" where
  "apply_repeat_penalty A xs ctx n p = penalize A p (drop (length ctx - n) ctx) xs"

definition f32_sum :: "'r sampler_arith \<Rightarrow> f32 list \<Rightarrow> f32" where
  "f32_sum A xs = foldl (sa_add A) 0 xs"

definition softmax_temperature :: "'r sampler_arith \<Rightarrow> f32 list \<Rightarrow> f32 \<Rightarrow> f32 list" where
  "softmax_temperature A xs t =
     (let scale = sa_div A F32_ONE t;
          m = foldl f32_max NEG_INFINITY xs;
          exps = map (\<lambda>x. sa_exp A (sa_mul A (sa_sub A x m) scale)) xs;
          s = f32_sum A exps
      in if f32_gt s 0 then map (\<lambda>e. sa_div A e s) exps else exps)"

text \<open>The first index whose cumulative mass exceeds the draw.\<close>

fun walk_mass :: "'r sampler_arith \<Rightarrow> f32 \<Rightarrow> f32 \<Rightarrow> (nat \<times> f32) list \<Rightarrow> nat option" where
  "walk_mass A r acc [] = None"
| "walk_mass A r acc ((i, p) # ps) =
     (let acc' = sa_add A acc p in if f32_gt acc' r then Some i else walk_mass A r acc' ps)"

definition sample_multinomial :: "'r sampler_arith \<Rightarrow> f32 list \<Rightarrow> 'r \<Rightarrow> u32 \<times> 'r" where
  "sample_multinomial A probs rng =
     (let (r, rng') = sa_gen A rng
      in (case walk_mass A r 0 (enumerate 0 probs) of
            Some i \<Rightarrow> word_of_nat i | None \<Rightarrow> word_of_nat (length probs - 1), rng'))"

fun nucleus_cutoff :: "'r sampler_arith \<Rightarrow> f32 \<Rightarrow> f32 \<Rightarrow> nat \<Rightarrow> f32 list \<Rightarrow> nat option" where
  "nucleus_cutoff A top_p cum k [] = None"
| "nucleus_cutoff A top_p cum k (p # ps) =
     (let cum' = sa_add A cum p in if f32_ge cum' top_p then Some (k + 1) else nucleus_cutoff A top_p cum' (k + 1) ps)"

definition sample_top_p :: "'r sampler_arith \<Rightarrow> f32 list \<Rightarrow> f32 \<Rightarrow> 'r \<Rightarrow> u32 \<times> 'r" where
  "sample_top_p A probs top_p rng =
     (let idx = sa_desc A probs;
          cutoff = (case nucleus_cutoff A top_p 0 0 (map ((!) probs) idx) of Some c \<Rightarrow> c | None \<Rightarrow> length idx);
          kept = take cutoff idx;
          mass = f32_sum A (map ((!) probs) kept)
      in if f32_ge 0 mass then (word_of_nat (idx ! 0), rng)
         else let (g, rng') = sa_gen A rng; r = sa_mul A g mass
              in (case walk_mass A r 0 (map (\<lambda>i. (i, probs ! i)) kept) of
                    Some i \<Rightarrow> word_of_nat i | None \<Rightarrow> word_of_nat (idx ! (cutoff - 1)), rng'))"

definition penalized :: "'r sampler_arith \<Rightarrow> sampler_cfg \<Rightarrow> u32 list \<Rightarrow> f32 list \<Rightarrow> f32 list" where
  "penalized A cfg ctx logits =
     (if f32_gt (repeat_penalty cfg) F32_ONE \<and> ctx \<noteq> []
      then apply_repeat_penalty A logits ctx (repeat_ctx cfg) (repeat_penalty cfg) else logits)"

definition sample :: "'r sampler_arith \<Rightarrow> 'r sampler \<Rightarrow> f32 list \<Rightarrow> u32 list \<Rightarrow> sampler_cfg \<Rightarrow>
    (sample_error + u32) \<times> 'r sampler" where
  "sample A s logits ctx cfg =
     (if logits = [] then (Inl EmptyLogits, s)
      else let view = penalized A cfg ctx logits
      in if f64_le (sm_temperature s) 0 then (Inr (argmax_logits view), s)
      else let probs = softmax_temperature A view (sa_of_f64 A (sm_temperature s));
               (t, rng) = (case sm_top_p s of
                  Some p \<Rightarrow> if f64_gt p 0 \<and> f64_gt F64_ONE p then sample_top_p A probs (sa_of_f64 A p) (sm_rng s)
                            else sample_multinomial A probs (sm_rng s)
                | None \<Rightarrow> sample_multinomial A probs (sm_rng s))
           in (Inr t, s\<lparr>sm_rng := rng\<rparr>))"

section \<open>Properties\<close>

lemma length_penalize [simp]: "length (penalize A p ts xs) = length xs"
  by (induction A p ts xs rule: penalize.induct) (auto simp: Let_def)

lemma length_penalized [simp]: "length (penalized A cfg ctx xs) = length xs"
  by (simp add: penalized_def apply_repeat_penalty_def)

lemma length_softmax [simp]: "length (softmax_temperature A xs t) = length xs"
  by (simp add: softmax_temperature_def Let_def)

lemma walk_mass_in: "walk_mass A r acc ps = Some i \<Longrightarrow> i \<in> fst ` set ps"
  by (induction A r acc ps rule: walk_mass.induct) (auto simp: Let_def split: if_splits)

lemma cutoff_bound: "nucleus_cutoff A t cum k ps = Some c \<Longrightarrow> k < c \<and> c \<le> k + length ps"
  by (induction A t cum k ps rule: nucleus_cutoff.induct) (auto simp: Let_def split: if_splits dest!: meta_spec)

lemma argmax_fold_less: "xs \<noteq> [] \<Longrightarrow> fst (argmax_fold xs) < length xs"
proof (induction xs rule: rev_induct)
  case (snoc x xs)
  have "argmax_fold [] = (0, NEG_INFINITY)" by (simp add: argmax_fold_def)
  then show ?case using snoc argmax_fold_snoc [of "[]" x] by (cases "xs = []") (simp_all add: argmax_fold_snoc less_Suc_eq)
qed simp

lemma multinomial_less:
  "probs \<noteq> [] \<Longrightarrow> \<exists>i rng'. sample_multinomial A probs rng = (word_of_nat i, rng') \<and> i < length probs"
  by (auto simp: sample_multinomial_def split_beta Let_def in_set_enumerate_eq image_iff
      split: option.splits dest!: walk_mass_in)

lemma top_p_less:
  assumes "sort_ok A" "probs \<noteq> []"
  shows "\<exists>i rng'. sample_top_p A probs p rng = (word_of_nat i, rng') \<and> i < length probs"
proof -
  let ?idx = "sa_desc A probs"
  have m: "mset ?idx = mset [0..<length probs]" using assms(1) by (simp add: sort_ok_def)
  then have len: "length ?idx = length probs" by (metis length_upt diff_zero size_mset)
  have s: "set ?idx = {0..<length probs}" using m by (metis atLeastLessThan_upt set_mset_mset)
  define c where "c = (case nucleus_cutoff A p 0 0 (map ((!) probs) ?idx) of Some c \<Rightarrow> c | None \<Rightarrow> length ?idx)"
  have c: "0 < c" "c \<le> length probs"
    using cutoff_bound [of A p 0 0 "map ((!) probs) ?idx"] assms(2) len by (auto simp: c_def split: option.splits)
  have nth: "?idx ! k < length probs" if "k < length probs" for k
    using nth_mem [of k ?idx] that len s by auto
  have walk: "i < length probs" if "walk_mass A r 0 (map (\<lambda>i. (i, probs ! i)) (take c ?idx)) = Some i" for r i
    using walk_mass_in [OF that] s in_set_takeD [of _ c ?idx] by (force simp: image_iff)
  have "?idx ! 0 < length probs" by (rule nth) (use assms(2) in simp)
  moreover have "c - 1 < length probs" using c by linarith
  then have "?idx ! (c - 1) < length probs" by (rule nth)
  ultimately show ?thesis using walk
    by (auto simp: sample_top_p_def Let_def split_beta simp flip: c_def split: option.splits)
qed

text \<open>
  Sampling always returns a token of the vocabulary: on a non-empty logit vector of at most
  \<open>2 ^ 32\<close> entries every path (greedy, multinomial, nucleus, with or without repeat penalty, NaNs
  included) yields an index into the vector; on an empty one it is an error.
\<close>

theorem sample_in_vocab:
  assumes "sort_ok A" "length logits \<le> 2 ^ 32"
  shows "case fst (sample A s logits ctx cfg) of
      Inl e \<Rightarrow> logits = []
    | Inr t \<Rightarrow> unat t < length logits"
proof (cases "logits = []")
  case False
  have w: "unat (word_of_nat i :: u32) < length logits" if "i < length logits" for i
    using that assms(2) by (simp add: unat_of_nat_u32)
  let ?v = "penalized A cfg ctx logits"
  have v: "?v \<noteq> []" "length ?v = length logits" using False length_penalized [of A cfg ctx logits]
    by (auto simp del: length_penalized)
  have p: "softmax_temperature A ?v t \<noteq> []" for t
    using v(1) length_softmax [of A ?v t] by (metis length_0_conv)
  have a: "unat (argmax_logits ?v) < length logits"
    unfolding argmax_logits_def using w argmax_fold_less [OF v(1)] v(2) by simp
  have m: "unat (fst (sample_multinomial A (softmax_temperature A ?v t) r)) < length logits" for t r
    using multinomial_less [OF p [of t], of A r] w v(2) by fastforce
  have n: "unat (fst (sample_top_p A (softmax_temperature A ?v t) q r)) < length logits" for t q r
    using top_p_less [OF assms(1) p [of t], of q r] w v(2) by fastforce
  show ?thesis using False a m n
    by (auto simp: sample_def Let_def split_beta split: option.splits)
qed (simp add: sample_def)

text \<open>
  Greedy decoding is exact: at temperature zero without a penalty the sampler returns the first
  position of the largest logit and leaves the generator alone.
\<close>

theorem greedy_is_first_max:
  assumes "f64_le (sm_temperature s) 0" "\<not> f32_gt (repeat_penalty cfg) F32_ONE"
    and "logits \<noteq> []" "\<forall>x \<in> set logits. \<not> f32_is_nan x" "length logits \<le> 2 ^ 32"
  shows "\<exists>t. sample A s logits ctx cfg = (Inr t, s) \<and> unat t < length logits \<and>
    (\<forall>x \<in> set logits. \<not> f32_gt x (logits ! unat t)) \<and>
    (\<forall>j < unat t. f32_gt (logits ! unat t) (logits ! j))"
proof -
  note f = argmax_fold_first [OF assms(4,3)]
  have u: "unat (argmax_logits logits) = fst (argmax_fold logits)"
    using f(1) assms(5) by (simp add: argmax_logits_def unat_of_nat_u32)
  have "sample A s logits ctx cfg = (Inr (argmax_logits logits), s)"
    using assms(1-3) by (simp add: sample_def penalized_def)
  then show ?thesis using f by (simp add: u)
qed

text \<open>
  The repeat penalty is applied once per occurrence, not once per token: when every entry of
  the window is the token \<open>t\<close>, its positive logit is divided by the penalty as many times as the
  window is long, and no other logit moves.
\<close>

theorem penalty_compounds:
  assumes "unat t < length xs" "\<forall>k \<le> n. f32_ge (((\<lambda>v. sa_div A v p) ^^ k) (xs ! unat t)) 0"
  shows "apply_repeat_penalty A xs (replicate n t) n p =
    xs[unat t := ((\<lambda>v. sa_div A v p) ^^ n) (xs ! unat t)]"
proof -
  have "penalize A p (replicate m t) (xs[unat t := ((\<lambda>v. sa_div A v p) ^^ k) (xs ! unat t)]) =
      xs[unat t := ((\<lambda>v. sa_div A v p) ^^ (k + m)) (xs ! unat t)]" if "k + m \<le> n" for k m
    using that
  proof (induction m arbitrary: k)
    case (Suc m)
    have "f32_ge (((\<lambda>v. sa_div A v p) ^^ k) (xs ! unat t)) 0" using assms(2) Suc.prems by simp
    moreover have "Suc k + m \<le> n" using Suc.prems by simp
    ultimately show ?case using Suc.IH [of "Suc k"] assms(1) by (simp add: Let_def)
  qed simp
  from this [of 0 n] show ?thesis by (simp add: apply_repeat_penalty_def)
qed

definition sample_arith :: "nat sampler_arith" where
  "sample_arith = \<lparr>sa_div = (\<lambda>x y. x), sa_mul = (\<lambda>x y. x), sa_add = (\<lambda>x y. y), sa_sub = (\<lambda>x y. x), sa_exp = id,
     sa_of_f64 = (\<lambda>_. F32_ONE), sa_gen = (\<lambda>n. (0, n + 1)), sa_desc = (\<lambda>ps. [0..<length ps])\<rparr>"

definition sample_sampler :: "nat sampler" where
  "sample_sampler = \<lparr>sm_temperature = 0, sm_top_p = None, sm_rng = 3\<rparr>"

lemma sample_in_vocab_witness:
  "\<exists>t. fst (sample sample_arith (sample_sampler\<lparr>sm_temperature := F64_ONE\<rparr>) [5, 6] [] \<lparr>repeat_penalty = F32_ONE, repeat_ctx = 0\<rparr>) = Inr t
     \<and> unat t < 2"
proof -
  let ?r = "fst (sample sample_arith (sample_sampler\<lparr>sm_temperature := F64_ONE\<rparr>) [5, 6] [] \<lparr>repeat_penalty = F32_ONE, repeat_ctx = 0\<rparr>)"
  have "sort_ok sample_arith" by (simp add: sort_ok_def sample_arith_def)
  moreover have "length [5, 6 :: f32] \<le> 2 ^ 32" by simp
  ultimately have "case ?r of Inl e \<Rightarrow> [5, 6 :: f32] = [] | Inr t \<Rightarrow> unat t < length [5, 6 :: f32]"
    by (rule sample_in_vocab)
  then show ?thesis by (cases ?r) simp_all
qed

lemma greedy_is_first_max_witness:
  "\<exists>t. sample sample_arith sample_sampler [5, 6] [] \<lparr>repeat_penalty = F32_ONE, repeat_ctx = 0\<rparr> = (Inr t, sample_sampler)
     \<and> \<not> f32_gt 6 ([5, 6] ! unat t)"
proof -
  have "\<forall>x \<in> set [5, 6]. \<not> f32_is_nan x" by (simp add: f32_is_nan_def f32_mag_def)
  moreover have "f64_le (sm_temperature sample_sampler) 0"
    by (simp add: sample_sampler_def f64_le_def f64_is_nan_def f64_mag_def)
  moreover have "length [5, 6 :: f32] \<le> 2 ^ 32" "[5, 6 :: f32] \<noteq> []" by simp_all
  moreover have "\<not> f32_gt (repeat_penalty \<lparr>repeat_penalty = F32_ONE, repeat_ctx = 0\<rparr>) F32_ONE" by (simp add: f32_gt_def)
  ultimately obtain t where "sample sample_arith sample_sampler [5, 6] [] \<lparr>repeat_penalty = F32_ONE, repeat_ctx = 0\<rparr> = (Inr t, sample_sampler)"
    "\<forall>x \<in> set [5, 6]. \<not> f32_gt x ([5, 6] ! unat t)"
    using greedy_is_first_max [of sample_sampler "\<lparr>repeat_penalty = F32_ONE, repeat_ctx = 0\<rparr>" "[5, 6]" sample_arith "[]"] by blast
  then show ?thesis by auto
qed

definition halving_arith :: "nat sampler_arith" where
  "halving_arith = sample_arith\<lparr>sa_div := (\<lambda>x y. x - 0x00800000)\<rparr>"

lemma penalty_compounds_witness:
  "apply_repeat_penalty halving_arith [F32_ONE, 7] (replicate 2 0) 2 0x40000000 = [F32_ONE - 0x01000000, 7]"
proof -
  have p2: "(f ^^ 2) x = f (f x)" for f :: "f32 \<Rightarrow> f32" and x by (simp add: numeral_2_eq_2)
  have "f32_ge (((\<lambda>v. sa_div halving_arith v 0x40000000) ^^ k) ([F32_ONE, 7] ! unat (0 :: u32))) 0" if "k \<le> 2" for k
  proof -
    from that have "k \<in> {0, 1, 2}" by auto
    then show ?thesis
      by (auto simp: halving_arith_def f32_ge_def F32_ONE_def f32_is_nan_def f32_mag_def f32_key_def p2)
  qed
  with penalty_compounds [of 0 "[F32_ONE, 7]" 2 halving_arith "0x40000000"]
  have "apply_repeat_penalty halving_arith [F32_ONE, 7] (replicate 2 0) 2 0x40000000 =
    [F32_ONE, 7][0 := ((\<lambda>v. sa_div halving_arith v 0x40000000) ^^ 2) F32_ONE]" by simp
  then show ?thesis by (simp add: p2 halving_arith_def F32_ONE_def)
qed

end
