(* ===== verification/Turn.thy ===== *)
theory Turn
  imports Chain Sampler
begin

text \<open>
  One generation turn: locally (\<open>crates/runtime/src/generate.rs\<close>) and over a peer chain
  (\<open>run_turn\<close> in \<open>chain.rs\<close>), with the chat template. A model handle is an opaque \<open>'m\<close> with the operations
  \<open>pipe_ops\<close> of the \<open>Forwarding\<close> and \<open>Pipelined\<close> traits; the tokenizer and the token callback are the
  fields of \<open>tok_ops\<close>.
\<close>

section \<open>Chat template\<close>

record chat_turn =
  ct_role :: string
  ct_content :: string

definition newline :: string where "newline = [CHR 0x0A]"

definition im_block :: "string \<Rightarrow> string \<Rightarrow> string" where
  "im_block role content = ''<|im_start|>'' @ role @ newline @ content @ ''<|im_end|>'' @ newline"

definition qwen_chat_prompt :: "string \<Rightarrow> string option \<Rightarrow> string" where
  "qwen_chat_prompt user sys =
     im_block ''system'' (case sys of Some s \<Rightarrow> s | None \<Rightarrow> ''You are a helpful assistant.'')
     @ im_block ''user'' user @ ''<|im_start|>assistant'' @ newline"

definition chat_role :: "string \<Rightarrow> string" where
  "chat_role r = (if r = ''system'' \<or> r = ''user'' \<or> r = ''assistant'' then r else ''user'')"

definition build_chat_prompt :: "chat_turn list \<Rightarrow> string" where
  "build_chat_prompt turns =
     (if (case turns of [] \<Rightarrow> False | t # _ \<Rightarrow> ct_role t = ''system'') then []
      else im_block ''system'' ''You are a helpful assistant.'')
     @ concat (map (\<lambda>t. im_block (chat_role (ct_role t)) (ct_content t)) turns)
     @ ''<|im_start|>assistant'' @ newline"

section \<open>Interfaces\<close>

record 'm pipe_ops =
  po_pipelined :: "'m \<Rightarrow> bool"
  po_embed :: "u32 list \<Rightarrow> ('m, string fault, hidden) st"
  po_forward_range :: "hidden \<Rightarrow> nat \<Rightarrow> nat \<Rightarrow> nat \<Rightarrow> ('m, string fault, hidden) st"
  po_head :: "hidden \<Rightarrow> ('m, string fault, hidden) st"
  po_head_all :: "hidden \<Rightarrow> ('m, string fault, hidden) st"
  po_truncate :: "nat \<Rightarrow> ('m, string fault, unit) st"
  po_reset :: "'m \<Rightarrow> 'm"
  po_forward :: "u32 list \<Rightarrow> nat \<Rightarrow> ('m, string fault, hidden) st"

text \<open>
  \<open>tk_emit toks t\<close> is the decoder's push of \<open>t\<close> after \<open>toks\<close> and the callback on the text: \<open>None\<close>, or
  the error or panic of either.
\<close>

record tok_ops =
  tk_encode :: "string \<Rightarrow> string + u32 list"
  tk_is_eos :: "u32 \<Rightarrow> bool"
  tk_emit :: "u32 list \<Rightarrow> u32 \<Rightarrow> string fault option"

record sampling_cfg =
  sg_temperature :: f64
  sg_top_p :: "f64 option"
  sg_repeat_penalty :: f32
  sg_repeat_ctx :: nat
  sg_max_new_tokens :: nat

definition sampler_cfg_of :: "sampling_cfg \<Rightarrow> sampler_cfg" where
  "sampler_cfg_of c = \<lparr>repeat_penalty = sg_repeat_penalty c, repeat_ctx = sg_repeat_ctx c\<rparr>"

datatype turn_error =
    NotPipelinedModel
  | ModelFailed string
  | ChainFailed chain_error
  | TokFailed string
  | EmptyPrompt
  | SampleFailed sample_error
  | EmitFailed string
  | HiddenFault hidden_error
  | SpecNeedsK nat
  | SpecGreedyOnly
  | SpecNoPenalty
  | OutOfFuel

section \<open>Local generation\<close>

definition emit :: "tok_ops \<Rightarrow> u32 list \<Rightarrow> u32 \<Rightarrow> turn_error fault + unit" where
  "emit T toks t = (case tk_emit T toks t of None \<Rightarrow> Inr () | Some (Fail e) \<Rightarrow> Inl (Fail (EmitFailed e)) | Some Panic \<Rightarrow> Inl Panic)"

definition encode_prompt :: "tok_ops \<Rightarrow> string \<Rightarrow> turn_error fault + u32 list" where
  "encode_prompt T prompt =
     rbind (map_err (\<lambda>e. Fail (TokFailed e)) (tk_encode T prompt)) (\<lambda>toks.
       if toks = [] then Inl (Fail EmptyPrompt) else Inr toks)"

definition sample_next :: "'r sampler_arith \<Rightarrow> sampling_cfg \<Rightarrow> f32 list \<Rightarrow> u32 list \<Rightarrow> ('r sampler, turn_error fault, u32) st" where
  "sample_next A cfg logits toks =
     (\<lambda>s. case sample A s logits toks (sampler_cfg_of cfg) of (r, s') \<Rightarrow> (map_err (\<lambda>e. Fail (SampleFailed e)) r, s'))"

definition sampler_new :: "sampling_cfg \<Rightarrow> 'r \<Rightarrow> 'r sampler" where
  "sampler_new cfg rng = \<lparr>sm_temperature = sg_temperature cfg, sm_top_p = sg_top_p cfg, sm_rng = rng\<rparr>"

definition on_fst :: "('a, 'e, 'x) st \<Rightarrow> ('a \<times> 'b, 'e, 'x) st" where
  "on_fst m = (\<lambda>(a, b). case m a of (r, a') \<Rightarrow> (r, a', b))"

definition on_snd :: "('b, 'e, 'x) st \<Rightarrow> ('a \<times> 'b, 'e, 'x) st" where
  "on_snd m = (\<lambda>(a, b). case m b of (r, b') \<Rightarrow> (r, a, b'))"

definition model_call :: "('m, string fault, 'a) st \<Rightarrow> ('m, turn_error fault, 'a) st" where
  "model_call m = smap_err (\<lambda>f. case f of Fail e \<Rightarrow> Fail (ModelFailed e) | Panic \<Rightarrow> Panic) m"

text \<open>The loop, on what is left of \<open>max_new_tokens\<close>; its result is the tokens generated.\<close>

fun generate_loop :: "'m pipe_ops \<Rightarrow> 'r sampler_arith \<Rightarrow> tok_ops \<Rightarrow> sampling_cfg \<Rightarrow> nat \<Rightarrow> u32 list \<Rightarrow> u32 \<Rightarrow>
    ('m \<times> 'r sampler, turn_error fault, u32 list) st" where
  "generate_loop P A T cfg 0 toks next = slift (Inr [])"
| "generate_loop P A T cfg (Suc left) toks next =
     (if tk_is_eos T next then slift (Inr [])
      else let toks' = toks @ [next]
      in sbind (slift (emit T toks next)) (\<lambda>_.
         sbind (on_fst (model_call (po_forward P [next] (length toks' - 1)))) (\<lambda>logits.
         sbind (on_snd (sample_next A cfg (h_data logits) toks')) (\<lambda>next'.
         sbind (generate_loop P A T cfg left toks' next') (\<lambda>gen. slift (Inr (next # gen)))))))"

definition generate :: "'m pipe_ops \<Rightarrow> 'r sampler_arith \<Rightarrow> tok_ops \<Rightarrow> sampling_cfg \<Rightarrow> 'r \<Rightarrow> string \<Rightarrow>
    'm \<Rightarrow> (turn_error fault + u32 list) \<times> 'm \<times> 'r sampler" where
  "generate P A T cfg rng prompt m =
     sbind (slift (encode_prompt T prompt)) (\<lambda>toks.
     sbind (on_fst (model_call (po_forward P toks 0))) (\<lambda>logits.
     sbind (on_snd (sample_next A cfg (h_data logits) toks)) (\<lambda>next.
       generate_loop P A T cfg (sg_max_new_tokens cfg) toks next)))
     (po_reset P m, sampler_new cfg rng)"

section \<open>A turn over the chain\<close>

record ('m, 'w, 'r) driver =
  dv_model :: 'm
  dv_chain :: chain
  dv_net :: 'w
  dv_sampler :: "'r sampler"

definition on_model :: "('m, turn_error fault, 'a) st \<Rightarrow> (('m, 'w, 'r) driver, turn_error fault, 'a) st" where
  "on_model f = (\<lambda>d. case f (dv_model d) of (r, m') \<Rightarrow> (r, d\<lparr>dv_model := m'\<rparr>))"

definition chain_fault :: "chain_error fault \<Rightarrow> turn_error fault" where
  "chain_fault f = (case f of Fail e \<Rightarrow> Fail (ChainFailed e) | Panic \<Rightarrow> Panic)"

definition on_chain :: "(chain \<times> 'w, chain_error fault, 'a) st \<Rightarrow> (('m, 'w, 'r) driver, turn_error fault, 'a) st" where
  "on_chain f = (\<lambda>d. case f (dv_chain d, dv_net d) of (r, c', w') \<Rightarrow> (map_err chain_fault r, d\<lparr>dv_chain := c', dv_net := w'\<rparr>))"

definition on_sampler :: "('r sampler, turn_error fault, 'a) st \<Rightarrow> (('m, 'w, 'r) driver, turn_error fault, 'a) st" where
  "on_sampler f = (\<lambda>d. case f (dv_sampler d) of (r, s') \<Rightarrow> (r, d\<lparr>dv_sampler := s'\<rparr>))"

definition pipelined :: "'m pipe_ops \<Rightarrow> ('m, turn_error fault, 'a) st \<Rightarrow> ('m, turn_error fault, 'a) st" where
  "pipelined P f = (\<lambda>m. if po_pipelined P m then f m else (Inl (Fail NotPipelinedModel), m))"

definition front_forward :: "'m pipe_ops \<Rightarrow> u32 list \<Rightarrow> nat \<Rightarrow> nat \<Rightarrow> ('m, turn_error fault, hidden) st" where
  "front_forward P toks index_pos front_end =
     pipelined P (sbind (model_call (po_embed P toks)) (\<lambda>emb.
       model_call (po_forward_range P emb index_pos 0 front_end)))"

definition head_forward :: "'m pipe_ops \<Rightarrow> hidden \<Rightarrow> ('m, turn_error fault, hidden) st" where
  "head_forward P h = pipelined P (model_call (po_head P h))"

definition head_all_forward :: "'m pipe_ops \<Rightarrow> hidden \<Rightarrow> ('m, turn_error fault, hidden) st" where
  "head_all_forward P h = pipelined P (model_call (po_head_all P h))"

text \<open>Feed tokens at a position through the front slice, the peers and the head.\<close>

definition feed :: "'m pipe_ops \<Rightarrow> 'w chain_env \<Rightarrow> nat \<Rightarrow> phase \<Rightarrow> u32 list \<Rightarrow> nat \<Rightarrow> u32 option \<Rightarrow>
    (hidden \<Rightarrow> ('m, turn_error fault, hidden) st) \<Rightarrow> (('m, 'w, 'r) driver, turn_error fault, hidden) st" where
  "feed P E front_end ph toks index_pos keep head =
     sbind (on_model (front_forward P toks index_pos front_end)) (\<lambda>front.
     sbind (on_chain (step_with_truncate E front ph keep)) (\<lambda>tail.
       on_model (head tail)))"

fun turn_loop :: "'m pipe_ops \<Rightarrow> 'w chain_env \<Rightarrow> 'r sampler_arith \<Rightarrow> tok_ops \<Rightarrow> sampling_cfg \<Rightarrow> nat \<Rightarrow> nat \<Rightarrow> nat \<Rightarrow>
    u32 list \<Rightarrow> u32 \<Rightarrow> (('m, 'w, 'r) driver, turn_error fault, u32 list) st" where
  "turn_loop P E A T cfg front_end 0 index_pos toks next = slift (Inr [])"
| "turn_loop P E A T cfg front_end (Suc left) index_pos toks next =
     (if tk_is_eos T next then slift (Inr [])
      else let toks' = toks @ [next]
      in sbind (slift (emit T toks next)) (\<lambda>_.
         sbind (feed P E front_end Decode [next] index_pos None (head_forward P)) (\<lambda>logits.
         sbind (on_sampler (sample_next A cfg (h_data logits) toks')) (\<lambda>next'.
         sbind (turn_loop P E A T cfg front_end left (index_pos + 1) toks' next') (\<lambda>gen. slift (Inr (next # gen)))))))"

definition run_turn :: "'m pipe_ops \<Rightarrow> 'w chain_env \<Rightarrow> 'r sampler_arith \<Rightarrow> tok_ops \<Rightarrow> sampling_cfg \<Rightarrow> 'r \<Rightarrow> string \<Rightarrow>
    (('m, 'w, 'r) driver, turn_error fault, u32 list) st" where
  "run_turn P E A T cfg rng prompt = (\<lambda>d.
     let front_end = unat (cn_front_end (dv_chain d));
         d0 = d\<lparr>dv_model := po_reset P (dv_model d), dv_sampler := sampler_new cfg rng\<rparr>
     in sbind (slift (encode_prompt T prompt)) (\<lambda>toks.
        sbind (feed P E front_end Prefill toks 0 None (head_forward P)) (\<lambda>logits.
        sbind (on_sampler (sample_next A cfg (h_data logits) toks)) (\<lambda>next.
          turn_loop P E A T cfg front_end (sg_max_new_tokens cfg) (length toks) toks next))) d0)"

section \<open>What the turn computes\<close>

text \<open>Greedy decoding of a next-token function, up to the end token, which is not part of the result.\<close>

fun greedy :: "(u32 list \<Rightarrow> u32) \<Rightarrow> (u32 \<Rightarrow> bool) \<Rightarrow> nat \<Rightarrow> u32 list \<Rightarrow> u32 list" where
  "greedy lm eos 0 ctx = []"
| "greedy lm eos (Suc n) ctx = (if eos (lm ctx) then [] else lm ctx # greedy lm eos n (ctx @ [lm ctx]))"

text \<open>
  What a turn relies on of the model halves and the peers: \<open>R kf kc d\<close> says that the front slice's KV
  cache holds the tokens \<open>kf\<close> and the peers' caches the tokens \<open>kc\<close>. Feeding tokens at the position
  where both caches end (after the peers' truncation) extends both and gives the logits of each fed
  position, which depend on the tokens before it alone (causal attention); \<open>V\<close> is the vocabulary size
  and \<open>N\<close> the context window, in which what is fed has to fit.
\<close>

definition step_keeps :: "u32 list \<Rightarrow> u32 option \<Rightarrow> u32 list" where
  "step_keeps kc keep = (case keep of None \<Rightarrow> kc | Some n \<Rightarrow> take (unat n) kc)"

definition reset_law :: "'m pipe_ops \<Rightarrow> (u32 list \<Rightarrow> u32 list \<Rightarrow> ('m, 'w, 'r) driver \<Rightarrow> bool) \<Rightarrow> bool" where
  "reset_law P R \<longleftrightarrow> (\<forall>kf kc d s. R kf kc d \<longrightarrow>
     R [] kc (d\<lparr>dv_model := po_reset P (dv_model d), dv_sampler := s\<rparr>))"

definition truncate_law :: "'m pipe_ops \<Rightarrow> (u32 list \<Rightarrow> u32 list \<Rightarrow> ('m, 'w, 'r) driver \<Rightarrow> bool) \<Rightarrow> bool" where
  "truncate_law P R \<longleftrightarrow> (\<forall>kf kc d n. R kf kc d \<longrightarrow> n \<le> length kf \<longrightarrow>
     (\<exists>m'. po_truncate P n (dv_model d) = (Inr (), m') \<and> po_pipelined P (dv_model d) \<and>
       R (take n kf) kc (d\<lparr>dv_model := m'\<rparr>)))"

definition feed_law :: "'m pipe_ops \<Rightarrow> 'w chain_env \<Rightarrow> nat \<Rightarrow> nat \<Rightarrow> (u32 list \<Rightarrow> u32 list \<Rightarrow> ('m, 'w, 'r) driver \<Rightarrow> bool) \<Rightarrow>
    (hidden \<Rightarrow> ('m, turn_error fault, hidden) st) \<Rightarrow> (u32 list \<Rightarrow> u32 list \<Rightarrow> hidden) \<Rightarrow> bool" where
  "feed_law P E front_end N R head out \<longleftrightarrow> (\<forall>kf kc d ts ph keep. R kf kc d \<longrightarrow> ts \<noteq> [] \<longrightarrow> step_keeps kc keep = kf \<longrightarrow>
     length kf + length ts \<le> N \<longrightarrow>
     (\<exists>d'. feed P E front_end ph ts (length kf) keep head d = (Inr (out kf ts), d') \<and> R (kf @ ts) (kf @ ts) d'))"

definition last_logits :: "nat \<Rightarrow> (u32 list \<Rightarrow> f32 list) \<Rightarrow> u32 list \<Rightarrow> u32 list \<Rightarrow> hidden" where
  "last_logits V logits kf ts = \<lparr>h_data = logits (kf @ ts), h_shape = [1, V]\<rparr>"

definition all_logits :: "nat \<Rightarrow> (u32 list \<Rightarrow> f32 list) \<Rightarrow> u32 list \<Rightarrow> u32 list \<Rightarrow> hidden" where
  "all_logits V logits kf ts =
     \<lparr>h_data = concat (map (\<lambda>i. logits (kf @ take (Suc i) ts)) [0..<length ts]), h_shape = [1, length ts, V]\<rparr>"

definition causal_target :: "'m pipe_ops \<Rightarrow> 'w chain_env \<Rightarrow> nat \<Rightarrow> nat \<Rightarrow> nat \<Rightarrow> (u32 list \<Rightarrow> f32 list) \<Rightarrow>
    (u32 list \<Rightarrow> u32 list \<Rightarrow> ('m, 'w, 'r) driver \<Rightarrow> bool) \<Rightarrow> bool" where
  "causal_target P E front_end N V logits R \<longleftrightarrow>
     0 < V \<and> N * V < 2 ^ 31 \<and> 0 < N \<and> (\<forall>ctx. length (logits ctx) = V) \<and> reset_law P R \<and> truncate_law P R \<and>
     feed_law P E front_end N R (head_forward P) (last_logits V logits) \<and>
     feed_law P E front_end N R (head_all_forward P) (all_logits V logits)"

definition next_token :: "(u32 list \<Rightarrow> f32 list) \<Rightarrow> u32 list \<Rightarrow> u32" where
  "next_token logits ctx = argmax_logits (logits ctx)"

definition greedy_cfg :: "sampling_cfg \<Rightarrow> bool" where
  "greedy_cfg cfg \<longleftrightarrow> f64_le (sg_temperature cfg) 0 \<and> \<not> f32_gt (sg_repeat_penalty cfg) F32_ONE"

lemma sample_next_greedy:
  assumes "greedy_cfg cfg" "logits \<noteq> []" "sm_temperature s = sg_temperature cfg"
  shows "sample_next A cfg logits toks s = (Inr (argmax_logits logits), s)"
  using assms by (simp add: sample_next_def sample_def greedy_cfg_def sampler_cfg_of_def penalized_def)

lemma feed_sampler:
  assumes "feed P E fe ph ts pos keep head d = (r, d')" shows "dv_sampler d' = dv_sampler d"
  using assms by (auto simp: feed_def sbind_def on_model_def on_chain_def split: prod.splits sum.splits)

lemma causal_parts:
  assumes "causal_target P E front_end N V logits R"
  shows "0 < V" "N * V < 2 ^ 31" "length (logits ctx) = V" "logits ctx \<noteq> []" "reset_law P R" "truncate_law P R"
    "feed_law P E front_end N R (head_forward P) (last_logits V logits)"
    "feed_law P E front_end N R (head_all_forward P) (all_logits V logits)"
proof -
  show v: "0 < V" "N * V < 2 ^ 31" "length (logits ctx) = V" "reset_law P R" "truncate_law P R"
    "feed_law P E front_end N R (head_forward P) (last_logits V logits)"
    "feed_law P E front_end N R (head_all_forward P) (all_logits V logits)"
    using assms by (simp_all add: causal_target_def)
  show "logits ctx \<noteq> []"
  proof
    assume "logits ctx = []"
    then show False using v(1,3) by simp
  qed
qed

lemma feed_lawD:
  assumes "feed_law P E front_end N R head out" "R kf kc d" "ts \<noteq> []" "step_keeps kc keep = kf"
    "length kf + length ts \<le> N" "pos = length kf" "kf' = kf @ ts"
  shows "\<exists>d'. feed P E front_end ph ts pos keep head d = (Inr (out kf ts), d') \<and> R kf' kf' d'"
  unfolding assms(6,7) by (rule assms(1) [unfolded feed_law_def, rule_format, OF assms(2-5)])

lemma truncate_lawD:
  assumes "truncate_law P R" "R kf kc d" "n \<le> length kf"
  shows "\<exists>m'. po_truncate P n (dv_model d) = (Inr (), m') \<and> po_pipelined P (dv_model d) \<and>
    R (take n kf) kc (d\<lparr>dv_model := m'\<rparr>)"
  by (rule assms(1) [unfolded truncate_law_def, rule_format, OF assms(2,3)])

lemma reset_lawD:
  assumes "reset_law P R" "R kf kc d"
  shows "R [] kc (d\<lparr>dv_model := po_reset P (dv_model d), dv_sampler := s\<rparr>)"
  by (rule assms(1) [unfolded reset_law_def, rule_format, OF assms(2)])

lemma sbind_app: "sbind m f s = (case m s of (Inl e, s') \<Rightarrow> (Inl e, s') | (Inr x, s') \<Rightarrow> f x s')"
  by (simp add: sbind_def)

lemma last_logits_data: "h_data (last_logits V logits kf ts) = logits (kf @ ts)"
  by (simp add: last_logits_def)

lemma step_keeps_simps [simp]: "step_keeps kc None = kc" "step_keeps kc (Some n) = take (unat n) kc"
  by (simp_all add: step_keeps_def)

lemma sbind_slift_Inr: "sbind (slift (Inr x)) f = f x"
  by (simp add: sbind_def slift_def fun_eq_iff)

lemma on_sampler_greedy:
  assumes "greedy_cfg cfg" "h_data h \<noteq> []" "sm_temperature (dv_sampler d) = sg_temperature cfg"
  shows "on_sampler (sample_next A cfg (h_data h) toks) d = (Inr (argmax_logits (h_data h)), d)"
  by (simp add: on_sampler_def sample_next_greedy [OF assms])

lemma emit_ok: "tk_emit T toks t = None \<Longrightarrow> emit T toks t = Inr ()"
  by (simp add: emit_def)

lemma turn_loop_greedy:
  assumes ok: "causal_target P E front_end N V logits R" and cfg: "greedy_cfg cfg"
    and emit: "\<And>toks t. tk_emit T toks t = None"
    and R: "R toks toks d" and s: "sm_temperature (dv_sampler d) = sg_temperature cfg"
    and "pos = length toks" "t = next_token logits toks" "length toks + left \<le> N"
  shows "\<exists>d'. turn_loop P E A T cfg front_end left pos toks t d =
    (Inr (greedy (next_token logits) (tk_is_eos T) left toks), d')"
  using R s assms(6,7,8)
proof (induction left arbitrary: toks d pos t)
  case 0
  then show ?case by (simp add: slift_def)
next
  case (Suc left)
  show ?case
  proof (cases "tk_is_eos T t")
    case True
    then show ?thesis using Suc.prems(4) by (simp add: slift_def)
  next
    case False
    let ?toks = "toks @ [t]"
    let ?h = "last_logits V logits toks [t]"
    obtain d1 where f: "feed P E front_end Decode [t] pos None (head_forward P) d = (Inr ?h, d1)" and R1: "R ?toks ?toks d1"
      using feed_lawD [OF causal_parts(7) [OF ok] Suc.prems(1) _ _ _ Suc.prems(3) refl, of "[t]" None Decode]
        Suc.prems(5) by auto
    have s1: "sm_temperature (dv_sampler d1) = sg_temperature cfg" using feed_sampler [OF f] Suc.prems(2) by simp
    have smp: "on_sampler (sample_next A cfg (h_data ?h) ?toks) d1 = (Inr (next_token logits ?toks), d1)"
      using on_sampler_greedy [OF cfg _ s1, of ?h] causal_parts(4) [OF ok]
      by (simp add: next_token_def last_logits_data)
    obtain d2 where l: "turn_loop P E A T cfg front_end left (pos + 1) ?toks (next_token logits ?toks) d1 =
        (Inr (greedy (next_token logits) (tk_is_eos T) left ?toks), d2)"
      using Suc.IH [OF R1 s1, of "pos + 1" "next_token logits ?toks"] Suc.prems(3,5) by auto
    have g: "greedy (next_token logits) (tk_is_eos T) (Suc left) toks = t # greedy (next_token logits) (tk_is_eos T) left ?toks"
      using False Suc.prems(4) by simp
    show ?thesis
      unfolding g using False
      by (simp add: Let_def emit_ok [OF emit] sbind_slift_Inr sbind_app f smp [simplified] l [simplified] slift_def)
  qed
qed

lemma turn_greedy:
  assumes ok: "causal_target P E (unat (cn_front_end (dv_chain d))) N V logits R" and cfg: "greedy_cfg cfg"
    and emit: "\<And>toks t. tk_emit T toks t = None"
    and enc: "tk_encode T prompt = Inr toks" "toks \<noteq> []" and R: "R kf [] d"
    and N: "length toks + sg_max_new_tokens cfg \<le> N"
  shows "\<exists>d'. run_turn P E A T cfg rng prompt d =
    (Inr (greedy (next_token logits) (tk_is_eos T) (sg_max_new_tokens cfg) toks), d')"
proof -
  let ?fe = "unat (cn_front_end (dv_chain d))"
  let ?d0 = "d\<lparr>dv_model := po_reset P (dv_model d), dv_sampler := sampler_new cfg rng\<rparr>"
  let ?h = "last_logits V logits [] toks"
  have R0: "R [] [] ?d0" by (rule reset_lawD [OF causal_parts(5) [OF ok] R])
  obtain d1 where f: "feed P E ?fe Prefill toks 0 None (head_forward P) ?d0 = (Inr ?h, d1)" and R1: "R toks toks d1"
    using feed_lawD [OF causal_parts(7) [OF ok] R0 enc(2) _ _ _ refl, of None 0 Prefill] N by auto
  have s1: "sm_temperature (dv_sampler d1) = sg_temperature cfg"
    using feed_sampler [OF f] by (simp add: sampler_new_def)
  have smp: "on_sampler (sample_next A cfg (h_data ?h) toks) d1 = (Inr (next_token logits toks), d1)"
    using on_sampler_greedy [OF cfg _ s1, of ?h] causal_parts(4) [OF ok]
      by (simp add: next_token_def last_logits_data)
  have e: "encode_prompt T prompt = Inr toks" by (simp add: encode_prompt_def enc)
  obtain d2 where l: "turn_loop P E A T cfg ?fe (sg_max_new_tokens cfg) (length toks) toks (next_token logits toks) d1 =
      (Inr (greedy (next_token logits) (tk_is_eos T) (sg_max_new_tokens cfg) toks), d2)"
    using turn_loop_greedy [OF ok cfg emit R1 s1 refl refl N] by blast
  show ?thesis
    by (simp add: run_turn_def Let_def e sbind_slift_Inr sbind_app f smp [simplified] l [simplified])
qed

section \<open>A sample target\<close>

text \<open>
  One peer that answers every message with itself, and a front slice whose state is the tokens it has
  seen; the values it sends are zero.
\<close>

definition echo_net :: "msg option network" where
  "echo_net = \<lparr>nw_connect = (\<lambda>_ _ q. (IoOk (), q)), nw_write = (\<lambda>_ m q. (IoOk (), Some m)),
     nw_read = (\<lambda>_ q. (IoOk q, None))\<rparr>"

definition echo_env :: "msg option chain_env" where
  "echo_env = \<lparr>ce_codec = \<lparr>cm_enc = (\<lambda>_. Inr [7]), cm_dec = (\<lambda>_. Inl [])\<rparr>, ce_net = echo_net,
     ce_f32 = sample_f32, ce_sids = (\<lambda>i. [word_of_nat i])\<rparr>"

definition echo_chain :: "64 word \<Rightarrow> chain" where
  "echo_chain q = \<lparr>cn_cfg = cfg_single ''p'' 3, cn_links = [\<lparr>lk_addr = ''p'', lk_layers = \<lparr>lr_start = 3, lr_end = 8\<rparr>,
     lk_session = [0], lk_seq = q\<rparr>], cn_front_end = 3\<rparr>"

definition toy_ops :: "(u32 list \<Rightarrow> f32 list) \<Rightarrow> u32 list pipe_ops" where
  "toy_ops L = \<lparr>po_pipelined = (\<lambda>_. True),
     po_embed = (\<lambda>ts m. (Inr \<lparr>h_data = ts, h_shape = [1, length ts, 1]\<rparr>, m)),
     po_forward_range = (\<lambda>h pos _ _ m. (Inr \<lparr>h_data = replicate (length (h_data h)) 0, h_shape = h_shape h\<rparr>, take pos m @ h_data h)),
     po_head = (\<lambda>h m. (Inr \<lparr>h_data = L m, h_shape = [1, 2]\<rparr>, m)),
     po_head_all = (\<lambda>h m. let n = length (h_data h) in
       (Inr \<lparr>h_data = concat (map (\<lambda>i. L (take (length m - n) m @ take (Suc i) (drop (length m - n) m))) [0..<n]), h_shape = [1, n, 2]\<rparr>, m)),
     po_truncate = (\<lambda>n m. (Inr (), take n m)),
     po_reset = (\<lambda>_. []),
     po_forward = (\<lambda>ts pos m. (Inr \<lparr>h_data = L (take pos m @ ts), h_shape = [1, 2]\<rparr>, take pos m @ ts))\<rparr>"

definition sample_holds :: "u32 list \<Rightarrow> u32 list \<Rightarrow> (u32 list, msg option, nat) driver \<Rightarrow> bool" where
  "sample_holds kf kc d \<longleftrightarrow> dv_model d = kf \<and> (\<exists>q. dv_chain d = echo_chain q)"

lemma echo_hop:
  assumes "0 < n" "n < 2 ^ 31"
  shows "hop echo_env Fp16 ph keep i \<lparr>lk_addr = ''p'', lk_layers = R, lk_session = [0], lk_seq = q\<rparr>
    \<lparr>h_data = replicate n 0, h_shape = [1, n, 1]\<rparr> w = (Inr \<lparr>h_data = replicate n 0, h_shape = [1, n, 1]\<rparr>, None)"
proof -
  have u: "unat (word_of_nat n :: u32) = n" using assms by (simp add: unat_of_nat_u32)
  have sh: "shape_n_elems (1, word_of_nat n, 1) = Inr n" using assms by (simp add: shape_n_elems_def u)
  define p where "p = \<lparr>hp_dtype = Fp16, hp_shape = (1 :: u32, word_of_nat n :: u32, 1 :: u32),
    hp_bytes = concat (map (\<lambda>x. u16_le (to_f16 sample_f32 x)) (replicate n 0))\<rparr>"
  have enc: "encode_hidden_with sample_f32 (replicate n 0) (1, word_of_nat n, 1) Fp16 = Inr p"
    by (simp add: encode_hidden_with_def sh p_def)
  have len: "length (hp_bytes p) = n * 2"
    using length_concat_const [of "replicate n (0 :: f32)" "\<lambda>x. u16_le (to_f16 sample_f32 x)" 2] by (simp add: p_def)
  have w: "wrap64 (n * 2) = n * 2" using assms by (simp add: wrap64_def)
  have dec: "decode_hidden sample_f32 p = Inr ((1, word_of_nat n, 1), replicate n 0)"
  proof -
    have "hp_bytes p = concat (map (\<lambda>x. u16_le (to_f16 sample_f32 x)) (replicate n 0))" unfolding p_def by simp
    then have "decode_f16s sample_f32 (hp_bytes p) = map (\<lambda>x. of_f16 sample_f32 (to_f16 sample_f32 x)) (replicate n 0)"
      by (simp only: decode_f16s_encode)
    also have "\<dots> = replicate n 0" by (simp add: sample_f32_def)
    finally have d: "decode_f16s sample_f32 (hp_bytes p) = replicate n 0" .
    have "hp_dtype p = Fp16" "hp_shape p = (1, word_of_nat n, 1)" by (simp_all add: p_def)
    then show ?thesis using len w assms sh d by (simp add: decode_hidden_def with_capacity_def)
  qed
  have new: "hidden_new (replicate n 0) [1, n, 1] = Inr \<lparr>h_data = replicate n 0, h_shape = [1, n, 1]\<rparr>"
    using assms by (simp add: hidden_new_def usize_product_def wrap64_def)
  have acc: "accept_reply sample_f32 i ''p'' 1 n p = Inr \<lparr>h_data = replicate n 0, h_shape = [1, n, 1]\<rparr>"
    using dec new by (simp add: accept_reply_def p_def u)
  have wr: "write_with_timeout echo_env i a m w = (Inr (), Some m)" for a m w
    by (simp add: write_with_timeout_def encode_frame_def wire_encode_def MAX_FRAME_BYTES_def echo_env_def echo_net_def)
  have rd: "read_with_timeout echo_env i a m = (Inr m, None)" for a m
    by (simp add: read_with_timeout_def echo_env_def echo_net_def)
  have f: "ce_f32 echo_env = sample_f32" by (simp add: echo_env_def)
  have reply: "\<lparr>hp_dtype = hp_dtype p, hp_shape = hp_shape p, hp_bytes = hp_bytes p\<rparr> = p" by simp
  show ?thesis
    by (simp add: hop_def f enc sbind_app slift_def wr rd check_reply_def reply acc [simplified])
qed

lemma sample_feed:
  assumes "sample_holds kf kc d" "ts \<noteq> []" "length ts < 2 ^ 31"
    and head: "\<And>h m. h_data h = replicate (length ts) 0 \<Longrightarrow> m = kf @ ts \<Longrightarrow> head h m = (Inr out, m)"
  shows "\<exists>d'. feed (toy_ops L) echo_env 3 ph ts (length kf) keep head d = (Inr out, d') \<and> sample_holds (kf @ ts) (kf @ ts) d'"
proof -
  obtain q where d: "dv_model d = kf" "dv_chain d = echo_chain q" using assms(1) by (auto simp: sample_holds_def)
  let ?h = "\<lparr>h_data = replicate (length ts) (0 :: f32), h_shape = [1, length ts, 1]\<rparr>"
  have front: "front_forward (toy_ops L) ts (length kf) 3 kf = (Inr ?h, kf @ ts)"
    by (simp add: front_forward_def pipelined_def toy_ops_def model_call_def smap_err_def sbind_app map_err_def)
  have "0 < length ts" using assms(2) by simp
  note hp = echo_hop [OF this assms(3), of ph keep 0 "\<lparr>lr_start = 3, lr_end = 8\<rparr>" "q + 1" "dv_net d"]
  have st: "step_with_truncate echo_env ?h ph keep (echo_chain q, dv_net d) = (Inr ?h, echo_chain (q + 1), None)"
    using hp by (simp add: step_with_truncate_def echo_chain_def cfg_single_def Let_def)
  have hd: "head ?h (kf @ ts) = (Inr out, kf @ ts)" by (rule head) simp_all
  show ?thesis
    using front st hd
    by (auto simp: feed_def sbind_app on_model_def on_chain_def d map_err_def sample_holds_def)
qed

lemma sample_causal:
  assumes "\<And>ctx. length (L ctx) = 2"
  shows "causal_target (toy_ops L) echo_env 3 (2 ^ 20) 2 L sample_holds"
proof -
  have e: "x + y \<le> 2 ^ 20 \<Longrightarrow> y < (2 :: nat) ^ 31" for x y :: nat by simp
  have "reset_law (toy_ops L) sample_holds"
    by (auto simp: reset_law_def sample_holds_def toy_ops_def)
  moreover have "truncate_law (toy_ops L) sample_holds"
    by (auto simp: truncate_law_def sample_holds_def toy_ops_def)
  moreover have "feed_law (toy_ops L) echo_env 3 (2 ^ 20) sample_holds (head_forward (toy_ops L)) (last_logits 2 L)"
    unfolding feed_law_def
    by (intro allI impI sample_feed) (auto dest: e simp: head_forward_def pipelined_def model_call_def smap_err_def
        toy_ops_def last_logits_def map_err_def)
  moreover have "feed_law (toy_ops L) echo_env 3 (2 ^ 20) sample_holds (head_all_forward (toy_ops L)) (all_logits 2 L)"
    unfolding feed_law_def
    by (intro allI impI sample_feed) (auto dest: e simp: head_all_forward_def pipelined_def model_call_def smap_err_def
        toy_ops_def all_logits_def map_err_def Let_def)
  ultimately show ?thesis using assms by (simp add: causal_target_def)
qed

definition sample_logits :: "u32 list \<Rightarrow> f32 list" where
  "sample_logits ctx = (if length ctx < 4 then [F32_ONE, 0] else [0, F32_ONE])"

definition sample_tok :: tok_ops where
  "sample_tok = \<lparr>tk_encode = (\<lambda>_. Inr [5, 6]), tk_is_eos = (\<lambda>t. t = 1), tk_emit = (\<lambda>_ _. None)\<rparr>"

definition sample_driver :: "(u32 list, msg option, nat) driver" where
  "sample_driver = \<lparr>dv_model = [], dv_chain = echo_chain 0, dv_net = None,
     dv_sampler = \<lparr>sm_temperature = 0, sm_top_p = None, sm_rng = 0\<rparr>\<rparr>"

definition sample_sampling :: "nat \<Rightarrow> sampling_cfg" where
  "sample_sampling n = \<lparr>sg_temperature = 0, sg_top_p = None, sg_repeat_penalty = F32_ONE, sg_repeat_ctx = 64, sg_max_new_tokens = n\<rparr>"

lemma sample_target: "causal_target (toy_ops sample_logits) echo_env (unat (cn_front_end (dv_chain sample_driver))) (2 ^ 20) 2 sample_logits sample_holds"
  using sample_causal [of sample_logits] by (simp add: sample_driver_def echo_chain_def sample_logits_def)

lemma sample_next_token: "next_token sample_logits ctx = (if length ctx < 4 then 0 else 1)"
  by (simp add: next_token_def sample_logits_def argmax_logits_def argmax_fold_def enumerate_eq_zip
      f32_gt_def F32_ONE_def NEG_INFINITY_def f32_is_nan_def f32_mag_def f32_key_def)

lemma sample_greedy_cfg: "greedy_cfg (sample_sampling n)"
  by (simp add: greedy_cfg_def sample_sampling_def f64_le_def f64_is_nan_def f64_mag_def f32_gt_def)

text \<open>
  C1. A greedy turn over the chain is the model's greedy continuation: when the front slice, the peers
  and the head compute the logits of the tokens fed so far, what \<open>run_turn\<close> generates from a fresh
  chain is exactly the chain of most likely next tokens after the prompt, stopped before the first end
  token and at \<open>max_new_tokens\<close>; it does not depend on the split, the hops or the sampler's randomness.
\<close>

theorem run_turn_greedy:
  assumes "causal_target P E (unat (cn_front_end (dv_chain d))) N V logits R" "greedy_cfg cfg"
    and "\<And>toks t. tk_emit T toks t = None"
    and "tk_encode T prompt = Inr toks" "toks \<noteq> []" "R kf [] d"
    and "length toks + sg_max_new_tokens cfg \<le> N"
  shows "\<exists>d'. run_turn P E A T cfg rng prompt d =
    (Inr (greedy (next_token logits) (tk_is_eos T) (sg_max_new_tokens cfg) toks), d')"
  by (rule turn_greedy [OF assms])

lemma run_turn_greedy_witness:
  "\<exists>d'. run_turn (toy_ops sample_logits) echo_env sample_arith sample_tok (sample_sampling 7) 0 ''hi'' sample_driver = (Inr [0, 0], d')"
proof -
  have e: "tk_emit sample_tok toks t = None" for toks t by (simp add: sample_tok_def)
  have p: "tk_encode sample_tok ''hi'' = Inr [5, 6]" by (simp add: sample_tok_def)
  have h: "sample_holds [] [] sample_driver" by (simp add: sample_holds_def sample_driver_def exI [of _ 0])
  have n: "length [5, 6 :: u32] + sg_max_new_tokens (sample_sampling 7) \<le> 2 ^ 20" by (simp add: sample_sampling_def)
  have "greedy (next_token sample_logits) (tk_is_eos sample_tok) (sg_max_new_tokens (sample_sampling 7)) [5, 6] = [0, 0]"
    by (simp add: sample_sampling_def sample_next_token sample_tok_def numeral_eq_Suc)
  then show ?thesis
    using run_turn_greedy [OF sample_target sample_greedy_cfg e p _ h n, of sample_arith 0] by simp
qed

end
