(* ===== verification/Spec.thy ===== *)
theory Spec
  imports Turn
begin

text \<open>
  Speculative decoding over the chain (\<open>crates/runtime/src/spec.rs\<close>). The state is the driver of
  \<open>Turn\<close> (target model, chain, network) paired with the draft model; the blocking task that advances
  the draft runs beside the commit step and touches the draft alone, so it is sequenced after it. The
  rounds take fuel: \<open>max_new_tokens\<close> rounds are enough, because every round that does not end the turn
  emits a token.
\<close>

section \<open>Proposing and verifying\<close>

definition on_hidden :: "hidden_error fault + 'a \<Rightarrow> turn_error fault + 'a" where
  "on_hidden r = map_err (\<lambda>f. case f of Fail e \<Rightarrow> Fail (HiddenFault e) | Panic \<Rightarrow> Panic) r"

fun propose_k_drafts :: "'d pipe_ops \<Rightarrow> hidden \<Rightarrow> nat \<Rightarrow> nat \<Rightarrow> ('d, turn_error fault, u32 list) st" where
  "propose_k_drafts Q cur 0 pos = slift (Inr [])"
| "propose_k_drafts Q cur (Suc k) pos =
     sbind (slift (on_hidden (argmax_last cur))) (\<lambda>t.
       if k = 0 then slift (Inr [t])
       else sbind (model_call (po_forward Q [t] pos)) (\<lambda>cur'.
            sbind (propose_k_drafts Q cur' k (pos + 1)) (\<lambda>ts. slift (Inr (t # ts)))))"

text \<open>The target's prediction of the token at offset \<open>i\<close>.\<close>

definition pred_at :: "hidden \<Rightarrow> hidden \<Rightarrow> nat \<Rightarrow> turn_error fault + u32" where
  "pred_at pending verify i =
     on_hidden (rbind (if i = 0 then Inr pending else select_position verify (i - 1)) argmax_last)"

fun match_prefix :: "hidden \<Rightarrow> hidden \<Rightarrow> u32 list \<Rightarrow> nat \<Rightarrow> turn_error fault + nat" where
  "match_prefix pending verify [] i = Inr i"
| "match_prefix pending verify (t # ts) i =
     rbind (pred_at pending verify i) (\<lambda>p. if p = t then match_prefix pending verify ts (i + 1) else Inr i)"

text \<open>The tokens of a round and the last of them.\<close>

definition commit_tokens :: "hidden \<Rightarrow> hidden \<Rightarrow> u32 list \<Rightarrow> nat \<Rightarrow> turn_error fault + u32 list \<times> u32" where
  "commit_tokens pending verify drafts j =
     (if j = length drafts
      then rbind (on_hidden (rbind (select_position verify (length drafts - 1)) argmax_last)) (\<lambda>bonus.
             Inr (drafts @ [bonus], bonus))
      else rbind (pred_at pending verify j) (\<lambda>t. Inr (take j drafts @ [t], t)))"

text \<open>Emit in lock-step with the budget and the end token: what was emitted, and whether to stop.\<close>

fun emit_all :: "tok_ops \<Rightarrow> nat \<Rightarrow> u32 list \<Rightarrow> u32 list \<Rightarrow> turn_error fault + u32 list \<times> bool" where
  "emit_all T left toks [] = Inr ([], False)"
| "emit_all T 0 toks (t # ts) = Inr ([], True)"
| "emit_all T (Suc left) toks (t # ts) =
     rbind (emit T toks t) (\<lambda>_.
       if tk_is_eos T t then Inr ([t], True)
       else rbind (emit_all T left (toks @ [t]) ts) (\<lambda>(gen, stop). Inr (t # gen, stop)))"

definition truncate_kv :: "'m pipe_ops \<Rightarrow> nat \<Rightarrow> ('m, turn_error fault, unit) st" where
  "truncate_kv P keep = pipelined P (model_call (po_truncate P keep))"

definition advance_and_propose :: "'d pipe_ops \<Rightarrow> nat \<Rightarrow> nat \<Rightarrow> u32 list \<Rightarrow> u32 \<Rightarrow> nat \<Rightarrow> ('d, turn_error fault, u32 list) st" where
  "advance_and_propose Q j k drafts_prev last_committed pos =
     (if j = k
      then sbind (model_call (po_forward Q [drafts_prev ! (k - 1), last_committed] (pos + k - 1))) (\<lambda>cur.
             propose_k_drafts Q cur k (pos + k + 1))
      else sbind (truncate_kv Q (pos + j)) (\<lambda>_.
           sbind (model_call (po_forward Q [last_committed] (pos + j))) (\<lambda>cur.
             propose_k_drafts Q cur k (pos + j + 1))))"

section \<open>The rounds\<close>

fun spec_rounds :: "'m pipe_ops \<Rightarrow> 'w chain_env \<Rightarrow> 'd pipe_ops \<Rightarrow> tok_ops \<Rightarrow> nat \<Rightarrow> nat \<Rightarrow> nat \<Rightarrow> nat \<Rightarrow>
    hidden \<Rightarrow> nat \<Rightarrow> u32 list \<Rightarrow> u32 list \<Rightarrow> (('m, 'w, 'r) driver \<times> 'd, turn_error fault, u32 list) st" where
  "spec_rounds P E Q T front_end k fuel 0 pending pos toks drafts = slift (Inr [])"
| "spec_rounds P E Q T front_end k 0 (Suc left) pending pos toks drafts = slift (Inl (Fail OutOfFuel))"
| "spec_rounds P E Q T front_end k (Suc fuel) (Suc left) pending pos toks drafts =
     sbind (on_fst (feed P E front_end Decode drafts pos None (head_all_forward P))) (\<lambda>verify.
     sbind (slift (match_prefix pending verify drafts 0)) (\<lambda>j.
     sbind (slift (commit_tokens pending verify drafts j)) (\<lambda>(emitted, last_committed).
     sbind (slift (emit_all T (Suc left) toks emitted)) (\<lambda>(gen, stop).
       if stop then slift (Inr gen)
       else sbind (on_fst (on_model (truncate_kv P (pos + j)))) (\<lambda>_.
            sbind (on_fst (feed P E front_end Decode [last_committed] (pos + j) (Some (word_of_nat (pos + j))) (head_forward P))) (\<lambda>pending'.
            sbind (on_snd (advance_and_propose Q j k drafts last_committed pos)) (\<lambda>drafts'.
            sbind (spec_rounds P E Q T front_end k fuel (Suc left - length gen) pending' (pos + j + 1) (toks @ gen) drafts') (\<lambda>rest.
              slift (Inr (gen @ rest))))))))))"

definition f64_is_zero :: "f64 \<Rightarrow> bool" where
  "f64_is_zero x \<longleftrightarrow> f64_mag x = 0"

definition spec_check :: "sampling_cfg \<Rightarrow> nat \<Rightarrow> turn_error fault + unit" where
  "spec_check cfg k =
     (if k < 2 then Inl (Fail (SpecNeedsK k))
      else if \<not> f64_is_zero (sg_temperature cfg) then Inl (Fail SpecGreedyOnly)
      else if f32_gt (sg_repeat_penalty cfg) F32_ONE then Inl (Fail SpecNoPenalty)
      else Inr ())"

definition run_turn_spec :: "'m pipe_ops \<Rightarrow> 'w chain_env \<Rightarrow> 'd pipe_ops \<Rightarrow> tok_ops \<Rightarrow> sampling_cfg \<Rightarrow> nat \<Rightarrow> string \<Rightarrow>
    (('m, 'w, 'r) driver \<times> 'd, turn_error fault, u32 list) st" where
  "run_turn_spec P E Q T cfg k prompt =
     sbind (slift (spec_check cfg k)) (\<lambda>_. \<lambda>(d, m).
       let front_end = unat (cn_front_end (dv_chain d))
       in sbind (slift (encode_prompt T prompt)) (\<lambda>toks.
          sbind (on_fst (feed P E front_end Prefill toks 0 None (head_forward P))) (\<lambda>pending.
          sbind (on_snd (model_call (po_forward Q toks 0))) (\<lambda>draft_pending.
          sbind (on_snd (propose_k_drafts Q draft_pending k (length toks))) (\<lambda>drafts.
            spec_rounds P E Q T front_end k (sg_max_new_tokens cfg) (sg_max_new_tokens cfg) pending (length toks) toks drafts))))
          (d\<lparr>dv_model := po_reset P (dv_model d)\<rparr>, po_reset Q m))"

section \<open>What a round computes\<close>

text \<open>Greedy decoding up to and including the end token.\<close>

fun greedy_incl :: "(u32 list \<Rightarrow> u32) \<Rightarrow> (u32 \<Rightarrow> bool) \<Rightarrow> nat \<Rightarrow> u32 list \<Rightarrow> u32 list" where
  "greedy_incl lm eos 0 ctx = []"
| "greedy_incl lm eos (Suc n) ctx =
     (if eos (lm ctx) then [lm ctx] else lm ctx # greedy_incl lm eos n (ctx @ [lm ctx]))"

lemma greedy_incl_greedy:
  "greedy_incl lm eos n ctx = greedy lm eos n ctx @
     (if length (greedy lm eos n ctx) < n then [lm (ctx @ greedy lm eos n ctx)] else [])"
  by (induction n arbitrary: ctx) simp_all

fun follows :: "(u32 list \<Rightarrow> u32) \<Rightarrow> u32 list \<Rightarrow> u32 list \<Rightarrow> bool" where
  "follows lm ctx [] \<longleftrightarrow> True"
| "follows lm ctx (t # ts) \<longleftrightarrow> t = lm ctx \<and> follows lm (ctx @ [t]) ts"

lemma follows_snoc: "follows lm ctx (ts @ [t]) \<longleftrightarrow> follows lm ctx ts \<and> t = lm (ctx @ ts)"
  by (induction ts arbitrary: ctx) auto

lemma emit_all_greedy:
  assumes "follows lm ctx es" "\<And>toks t. tk_emit T toks t = None"
  shows "\<exists>gen stop. emit_all T left ctx es = Inr (gen, stop) \<and>
    (if stop then gen = greedy_incl lm (tk_is_eos T) left ctx
     else gen = es \<and> length es \<le> left \<and>
       greedy_incl lm (tk_is_eos T) left ctx = es @ greedy_incl lm (tk_is_eos T) (left - length es) (ctx @ es))"
  using assms(1)
proof (induction es arbitrary: left ctx)
  case (Cons t ts)
  note t = Cons.prems [simplified]
  show ?case
  proof (cases left)
    case (Suc n)
    show ?thesis
    proof (cases "tk_is_eos T t")
      case True
      then show ?thesis using t by (auto simp: Suc emit_ok [OF assms(2)] intro: exI [of _ True])
    next
      case False
      obtain gen stop where e: "emit_all T n (ctx @ [t]) ts = Inr (gen, stop)"
        and g: "if stop then gen = greedy_incl lm (tk_is_eos T) n (ctx @ [t])
          else gen = ts \<and> length ts \<le> n \<and> greedy_incl lm (tk_is_eos T) n (ctx @ [t]) =
            ts @ greedy_incl lm (tk_is_eos T) (n - length ts) ((ctx @ [t]) @ ts)"
        using Cons.IH t by blast
      have "emit_all T left ctx (t # ts) = Inr (t # gen, stop)" using False by (simp add: Suc emit_ok [OF assms(2)] e)
      moreover have "greedy_incl lm (tk_is_eos T) left ctx = t # greedy_incl lm (tk_is_eos T) n (ctx @ [t])"
        using t False by (simp add: Suc)
      ultimately show ?thesis using g
        by (intro exI [of _ "t # gen"] exI [of _ stop]) (cases stop; simp add: Suc)
    qed
  qed (auto intro: exI [of _ True])
qed (auto intro: exI [of _ False])

lemma argmax_row:
  assumes "length xs = V" "0 < V" "V < 2 ^ 31"
  shows "argmax_last \<lparr>h_data = xs, h_shape = [1, V]\<rparr> = Inr (argmax_logits xs)"
proof -
  have "xs \<noteq> []" using assms(1,2) by auto
  then show ?thesis using argmax_fold_less [of xs] assms by (simp add: argmax_last_def argmax_logits_def Let_def)
qed

lemma row_of_concat:
  assumes "\<And>i. length (f i) = V" "i < n"
  shows "take V (drop (i * V) (concat (map f [0..<n]))) = f i"
proof -
  have len: "length (concat (map f [a..<b])) = (b - a) * V" for a b
    using length_concat_const [of "[a..<b]" f V] assms(1) by simp
  have "[0..<n] = [0..<i] @ i # [Suc i..<n]" using assms(2) by (metis less_imp_le upt_conv_Cons upt_add_eq_append le_add_diff_inverse zero_le add_0)
  then show ?thesis using len [of 0 i] assms(1) by simp
qed

section \<open>Rounds over a causal target\<close>

definition row_logits :: "nat \<Rightarrow> f32 list \<Rightarrow> hidden" where
  "row_logits V xs = \<lparr>h_data = xs, h_shape = [1, V]\<rparr>"

lemma select_causal:
  assumes len: "\<And>ctx. length (logits ctx) = V" and V: "length ds * V < 2 ^ 31" and i: "i < length ds"
  shows "select_position (all_logits V logits ctx ds) i = Inr (row_logits V (logits (ctx @ take (Suc i) ds)))"
proof -
  have l: "length (concat (map (\<lambda>i. logits (ctx @ take (Suc i) ds)) [0..<length ds])) = length ds * V"
    using length_concat_const [of "[0..<length ds]" "\<lambda>i. logits (ctx @ take (Suc i) ds)" V] len by simp
  have "length ds * V < 2 ^ 63" using V by simp
  then show ?thesis
    using select_position_row [of "all_logits V logits ctx ds" "length ds" V i] l i
      row_of_concat [of "\<lambda>i. logits (ctx @ take (Suc i) ds)" V i "length ds"] len
    by (simp add: all_logits_def row_logits_def)
qed

lemma pred_at_causal:
  assumes len: "\<And>ctx. length (logits ctx) = V" and V: "0 < V" "V < 2 ^ 31" "length ds * V < 2 ^ 31" and i: "i \<le> length ds"
  shows "pred_at (row_logits V (logits ctx)) (all_logits V logits ctx ds) i = Inr (next_token logits (ctx @ take i ds))"
proof -
  have row: "on_hidden (argmax_last (row_logits V (logits c))) = Inr (next_token logits c)" for c
    using argmax_row [OF len V(1,2)] by (simp add: on_hidden_def map_err_def next_token_def row_logits_def)
  show ?thesis
  proof (cases i)
    case 0
    then show ?thesis using row [of ctx] by (simp add: pred_at_def)
  next
    case (Suc j)
    then show ?thesis using row select_causal [OF len V(3), where i = j and ctx = ctx] i by (simp add: pred_at_def)
  qed
qed

lemma match_prefix_causal:
  assumes pred: "\<And>i. i \<le> length ds \<Longrightarrow> pred_at pending verify i = Inr (lm (ctx @ take i ds))"
    and "follows lm ctx (take i ds)" "i \<le> length ds"
  shows "\<exists>j \<le> length ds. match_prefix pending verify (drop i ds) i = Inr j \<and> follows lm ctx (take j ds)"
  using assms(2,3)
proof (induction "length ds - i" arbitrary: i)
  case 0
  then show ?case by auto
next
  case (Suc n)
  then have i: "i < length ds" by simp
  then have d: "drop i ds = ds ! i # drop (i + 1) ds" "take (i + 1) ds = take i ds @ [ds ! i]"
    by (simp_all add: Cons_nth_drop_Suc take_Suc_conv_app_nth)
  show ?case
  proof (cases "lm (ctx @ take i ds) = ds ! i")
    case True
    have "\<exists>j \<le> length ds. match_prefix pending verify (drop (i + 1) ds) (i + 1) = Inr j \<and> follows lm ctx (take j ds)"
      using Suc.hyps(2) Suc.prems(1) True i by (intro Suc.hyps(1)) (simp_all add: take_Suc_conv_app_nth follows_snoc)
    then show ?thesis using True pred i unfolding d(1) by simp
  next
    case False
    then show ?thesis using Suc.prems(1) pred i unfolding d(1) by (auto intro: exI [of _ i])
  qed
qed

lemma commit_tokens_causal:
  assumes pred: "\<And>i. i \<le> length ds \<Longrightarrow> pred_at pending verify i = Inr (lm (ctx @ take i ds))"
    and "j \<le> length ds" "ds \<noteq> []"
  shows "commit_tokens pending verify ds j = Inr (take j ds @ [lm (ctx @ take j ds)], lm (ctx @ take j ds))"
proof (cases "j = length ds")
  case True
  have "on_hidden (rbind (select_position verify (length ds - 1)) argmax_last) = pred_at pending verify j"
    using True assms(3) by (simp add: pred_at_def)
  then show ?thesis using True pred [of j] by (simp add: commit_tokens_def)
next
  case False
  then show ?thesis using assms(2) pred [of j] by (simp add: commit_tokens_def)
qed

section \<open>The draft\<close>

text \<open>
  What the rounds need of the draft: \<open>D n m\<close> says its KV cache holds \<open>n\<close> positions. Forwarding at
  that position and rolling back succeed; its predictions are arbitrary.
\<close>

definition draft_law :: "'d pipe_ops \<Rightarrow> nat \<Rightarrow> (nat \<Rightarrow> 'd \<Rightarrow> bool) \<Rightarrow> bool" where
  "draft_law Q N D \<longleftrightarrow>
     (\<forall>n m. D n m \<longrightarrow> D 0 (po_reset Q m)) \<and>
     (\<forall>n m n'. D n m \<longrightarrow> n' \<le> n \<longrightarrow> (\<exists>m'. po_truncate Q n' m = (Inr (), m') \<and> po_pipelined Q m \<and> D n' m')) \<and>
     (\<forall>n m ts. D n m \<longrightarrow> ts \<noteq> [] \<longrightarrow> n + length ts \<le> N \<longrightarrow>
        (\<exists>h m'. po_forward Q ts n m = (Inr h, m') \<and> D (n + length ts) m' \<and>
           h_data h \<noteq> [] \<and> h_shape h \<noteq> [] \<and> last (h_shape h) \<noteq> 0))"

definition has_row :: "hidden \<Rightarrow> bool" where
  "has_row h \<longleftrightarrow> h_data h \<noteq> [] \<and> h_shape h \<noteq> [] \<and> last (h_shape h) \<noteq> 0"

lemma draft_forward:
  assumes "draft_law Q N D" "D n m" "ts \<noteq> []" "n + length ts \<le> N" "n' = n + length ts"
  shows "\<exists>h m'. model_call (po_forward Q ts n) m = (Inr h, m') \<and> D n' m' \<and> has_row h"
proof -
  have "\<exists>h m'. po_forward Q ts n m = (Inr h, m') \<and> D (n + length ts) m' \<and> has_row h"
    using assms(1-4) unfolding draft_law_def has_row_def by blast
  then show ?thesis by (auto simp: assms(5) model_call_def smap_err_def map_err_def)
qed

lemma draft_truncate:
  assumes "draft_law Q N D" "D n m" "n' \<le> n"
  shows "\<exists>m'. truncate_kv Q n' m = (Inr (), m') \<and> D n' m'"
proof -
  have "\<exists>m'. po_truncate Q n' m = (Inr (), m') \<and> po_pipelined Q m \<and> D n' m'"
    using assms unfolding draft_law_def by blast
  then show ?thesis by (auto simp: truncate_kv_def pipelined_def model_call_def smap_err_def map_err_def)
qed

lemma has_row_argmax: "has_row h \<Longrightarrow> \<exists>t. on_hidden (argmax_last h) = Inr t"
  by (simp add: has_row_def argmax_last_def on_hidden_def map_err_def Let_def)

lemma propose_ok:
  assumes "draft_law Q N D" "has_row cur" "D pos m" "0 < k" "pos + k \<le> N + 1" "n = pos + k - 1"
  shows "\<exists>ts m'. propose_k_drafts Q cur k pos m = (Inr ts, m') \<and> length ts = k \<and> D n m'"
  using assms(2-6)
proof (induction k arbitrary: cur pos m n)
  case (Suc k)
  obtain t where t: "on_hidden (argmax_last cur) = Inr t" using has_row_argmax [OF Suc.prems(1)] by blast
  show ?case
  proof (cases k)
    case 0
    then show ?thesis using t Suc.prems by (simp add: sbind_app slift_def)
  next
    case (Suc k')
    obtain h m1 where f: "model_call (po_forward Q [t] pos) m = (Inr h, m1)" and D: "D (pos + 1) m1" and h: "has_row h"
      using draft_forward [OF assms(1) Suc.prems(2), of "[t]"] Suc.prems(4) Suc by auto
    have k: "0 < k" "pos + 1 + k \<le> N + 1" "n = pos + 1 + k - 1" using Suc Suc.prems by simp_all
    obtain ts m2 where p: "propose_k_drafts Q h k (pos + 1) m1 = (Inr ts, m2)" and l: "length ts = k" "D n m2"
      using Suc.IH [OF h D k] by blast
    have "propose_k_drafts Q cur (Suc k) pos m = (Inr (t # ts), m2)"
      using k(1) p by (simp add: t sbind_slift_Inr sbind_app f slift_def)
    then show ?thesis using l by auto
  qed
qed simp

lemma advance_ok:
  assumes "draft_law Q N D" "D (pos + k - 1) m" "j \<le> k" "2 \<le> k" "pos + j + k \<le> N" "n = pos + j + 1 + k - 1"
  shows "\<exists>ts m'. advance_and_propose Q j k ds t pos m = (Inr ts, m') \<and> length ts = k \<and> D n m'"
proof (cases "j = k")
  case True
  obtain h m1 where f: "model_call (po_forward Q [ds ! (k - 1), t] (pos + k - 1)) m = (Inr h, m1)"
    and D: "D (pos + k + 1) m1" and h: "has_row h"
    using draft_forward [OF assms(1,2), of "[ds ! (k - 1), t]" "pos + k + 1"] assms(4,5) True by auto
  have "0 < k" "pos + k + 1 + k \<le> N + 1" "n = pos + k + 1 + k - 1" using True assms(4-6) by simp_all
  note p = propose_ok [OF assms(1) h D this]
  have "advance_and_propose Q j k ds t pos m = propose_k_drafts Q h k (pos + k + 1) m1"
    using f by (simp add: True advance_and_propose_def sbind_app)
  then show ?thesis using p by simp
next
  case False
  then have "pos + j \<le> pos + k - 1" using assms(3) by simp
  from draft_truncate [OF assms(1,2) this] obtain m0 where t: "truncate_kv Q (pos + j) m = (Inr (), m0)" and D0: "D (pos + j) m0" by blast
  obtain h m1 where f: "model_call (po_forward Q [t] (pos + j)) m0 = (Inr h, m1)" and D: "D (pos + j + 1) m1" and h: "has_row h"
    using draft_forward [OF assms(1) D0, of "[t]" "pos + j + 1"] assms(4,5) by auto
  have "0 < k" "pos + j + 1 + k \<le> N + 1" "n = pos + j + 1 + k - 1" using assms(4-6) by simp_all
  note p = propose_ok [OF assms(1) h D this]
  have "advance_and_propose Q j k ds t pos m = propose_k_drafts Q h k (pos + j + 1) m1"
    using f t False by (simp add: advance_and_propose_def sbind_app)
  then show ?thesis using p by simp
qed

section \<open>The turn\<close>

lemma on_fst_app: "on_fst m (a, b) = (case m a of (r, a') \<Rightarrow> (r, a', b))"
  by (simp add: on_fst_def)

lemma on_snd_app: "on_snd m (a, b) = (case m b of (r, b') \<Rightarrow> (r, a, b'))"
  by (simp add: on_snd_def)

lemma window_bounds:
  fixes V N n :: nat
  assumes "0 < V" "N * V < 2 ^ 31" "0 < N"
  shows "V < 2 ^ 31" "N < 2 ^ 32" "n \<le> N \<Longrightarrow> n * V < 2 ^ 31"
proof -
  have le: "V \<le> N * V" "N \<le> N * V" using assms(1,3) by simp_all
  show "V < 2 ^ 31" using le(1) assms(2) by (rule le_less_trans)
  have "N < 2 ^ 31" using le(2) assms(2) by (rule le_less_trans)
  then show "N < 2 ^ 32" by simp
  show "n \<le> N \<Longrightarrow> n * V < 2 ^ 31" by (rule le_less_trans [OF mult_le_mono1 assms(2)])
qed

text \<open>The first half of a round: the drafts are verified, and the accepted ones with the next token are greedy.\<close>

lemma verify_drafts:
  assumes ok: "causal_target P E fe N V logits R" and N: "0 < N"
    and "R toks toks d" "pending = row_logits V (logits toks)" "pos = length toks" "drafts \<noteq> []" "length toks + length drafts \<le> N"
  obtains d1 j t where "feed P E fe Decode drafts pos None (head_all_forward P) d = (Inr (all_logits V logits toks drafts), d1)"
    "R (toks @ drafts) (toks @ drafts) d1" "j \<le> length drafts" "match_prefix pending (all_logits V logits toks drafts) drafts 0 = Inr j"
    "commit_tokens pending (all_logits V logits toks drafts) drafts j = Inr (take j drafts @ [t], t)"
    "follows (next_token logits) toks (take j drafts @ [t])"
proof -
  note parts = causal_parts [OF ok]
  note VN = window_bounds [OF parts(1,2) N]
  let ?verify = "all_logits V logits toks drafts" and ?lm = "next_token logits"
  obtain d1 where f1: "feed P E fe Decode drafts pos None (head_all_forward P) d = (Inr ?verify, d1)"
    and R1: "R (toks @ drafts) (toks @ drafts) d1"
    using feed_lawD [OF parts(8) assms(3,6) _ _ assms(5) refl, of None Decode] assms(7) by auto
  have pred: "pred_at pending ?verify i = Inr (?lm (toks @ take i drafts))" if "i \<le> length drafts" for i
    using pred_at_causal [OF parts(3) parts(1) VN(1) VN(3) that] assms(4,7) by simp
  obtain j where j: "j \<le> length drafts" "match_prefix pending ?verify drafts 0 = Inr j" "follows ?lm toks (take j drafts)"
    using match_prefix_causal [where i = 0, OF pred] by auto
  have "commit_tokens pending ?verify drafts j = Inr (take j drafts @ [?lm (toks @ take j drafts)], ?lm (toks @ take j drafts))"
    by (rule commit_tokens_causal [OF pred j(1) assms(6)])
  moreover have "follows ?lm toks (take j drafts @ [?lm (toks @ take j drafts)])" using j(3) by (simp add: follows_snoc)
  ultimately show thesis by (rule that [OF f1 R1 j(1,2)])
qed

text \<open>The second half: the cache is cut back to the accepted tokens and the new one is fed.\<close>

lemma sync_target:
  assumes ok: "causal_target P E fe N V logits R" and N: "0 < N"
    and R1: "R (toks @ drafts) (toks @ drafts) d1" and j: "j \<le> length drafts" "pos = length toks" "pos + j + 1 \<le> N"
  obtains m1 d3 where "on_model (truncate_kv P (pos + j)) d1 = (Inr (), d1\<lparr>dv_model := m1\<rparr>)"
    "feed P E fe Decode [t] (pos + j) (Some (word_of_nat (pos + j))) (head_forward P) (d1\<lparr>dv_model := m1\<rparr>) =
      (Inr (last_logits V logits (toks @ take j drafts) [t]), d3)"
    "R (toks @ take j drafts @ [t]) (toks @ take j drafts @ [t]) d3"
proof -
  note parts = causal_parts [OF ok]
  note VN = window_bounds [OF parts(1,2) N]
  have kf: "take (pos + j) (toks @ drafts) = toks @ take j drafts" using j by simp
  have "pos + j \<le> length (toks @ drafts)" using j by simp
  from truncate_lawD [OF parts(6) R1 this] obtain m1 where tr: "po_truncate P (pos + j) (dv_model d1) = (Inr (), m1)"
    "po_pipelined P (dv_model d1)" and R2: "R (toks @ take j drafts) (toks @ drafts) (d1\<lparr>dv_model := m1\<rparr>)"
    unfolding kf by blast
  let ?d2 = "d1\<lparr>dv_model := m1\<rparr>" and ?keep = "Some (word_of_nat (pos + j)) :: u32 option"
  have f2: "on_model (truncate_kv P (pos + j)) d1 = (Inr (), ?d2)"
    using tr by (simp add: on_model_def truncate_kv_def pipelined_def model_call_def smap_err_def map_err_def)
  have fits: "length (toks @ take j drafts) + length [t] \<le> N" using j by simp
  have "pos + j < 2 ^ 32" using j VN(2) by linarith
  from unat_of_nat_u32 [OF this] have keep: "step_keeps (toks @ drafts) ?keep = toks @ take j drafts"
    by (simp only: step_keeps_simps kf)
  have pj: "pos + j = length (toks @ take j drafts)" using j by simp
  have gk: "toks @ take j drafts @ [t] = (toks @ take j drafts) @ [t]" by simp
  from feed_lawD [OF parts(7) R2 _ keep fits pj gk, of Decode] show thesis using that [OF f2] by blast
qed

lemma spec_rounds_greedy:
  assumes ok: "causal_target P E fe N V logits R" and dr: "draft_law Q N D"
    and emit: "\<And>toks t. tk_emit T toks t = None" and k: "2 \<le> k"
    and "left \<le> fuel" "R toks toks d" "pending = row_logits V (logits toks)" "pos = length toks"
      "length drafts = k" "D (pos + k - 1) m" "pos + left + k \<le> N"
  shows "\<exists>s'. spec_rounds P E Q T fe k fuel left pending pos toks drafts (d, m) =
    (Inr (greedy_incl (next_token logits) (tk_is_eos T) left toks), s')"
  using assms(5-11)
proof (induction fuel arbitrary: left toks d pending pos drafts m)
  case 0
  then show ?case by (simp add: slift_def)
next
  case (Suc fuel)
  let ?lm = "next_token logits" and ?eos = "tk_is_eos T"
  note parts = causal_parts [OF ok]
  have N: "0 < N" using Suc.prems(7) k by simp
  note VN = window_bounds [OF parts(1,2) N]
  show ?case
  proof (cases left)
    case 0
    then show ?thesis by (simp add: slift_def)
  next
    case left: (Suc l)
    let ?verify = "all_logits V logits toks drafts"
    have "drafts \<noteq> []" using Suc.prems(5) k by auto
    moreover have "length toks + length drafts \<le> N" using Suc.prems by simp
    ultimately obtain d1 j t where f1: "feed P E fe Decode drafts pos None (head_all_forward P) d = (Inr ?verify, d1)"
      and R1: "R (toks @ drafts) (toks @ drafts) d1" and j: "j \<le> length drafts" "match_prefix pending ?verify drafts 0 = Inr j"
      and c: "commit_tokens pending ?verify drafts j = Inr (take j drafts @ [t], t)"
      and fl: "follows ?lm toks (take j drafts @ [t])"
      by (rule verify_drafts [OF ok N Suc.prems(2,3,4)])
    from emit_all_greedy [OF fl emit, where left = left] obtain gen stop where
      e: "emit_all T left toks (take j drafts @ [t]) = Inr (gen, stop)" and g: "if stop then gen = greedy_incl ?lm ?eos left toks
        else gen = take j drafts @ [t] \<and> length (take j drafts @ [t]) \<le> left \<and>
          greedy_incl ?lm ?eos left toks = (take j drafts @ [t]) @
            greedy_incl ?lm ?eos (left - length (take j drafts @ [t])) (toks @ (take j drafts @ [t]))"
      by (elim exE conjE)
    show ?thesis
    proof (cases stop)
      case True
      then show ?thesis using g j c e f1 by (simp add: left sbind_app on_fst_app slift_def)
    next
      case False
      with g have gen: "gen = take j drafts @ [t]" "length gen \<le> left"
        "greedy_incl ?lm ?eos left toks = gen @ greedy_incl ?lm ?eos (left - length gen) (toks @ gen)" by simp_all
      have lg: "length gen = j + 1" using gen(1) j(1) by simp
      have jk: "j \<le> k" "j + 1 \<le> left" using j(1) Suc.prems(5) lg gen(2) by simp_all
      have "pos + j + 1 \<le> N" using jk Suc.prems(7) by simp
      from sync_target [OF ok N R1 j(1) Suc.prems(4) this, of t] gen(1) obtain m1 d3 where
        f2: "on_model (truncate_kv P (pos + j)) d1 = (Inr (), d1\<lparr>dv_model := m1\<rparr>)"
        and f3: "feed P E fe Decode [t] (pos + j) (Some (word_of_nat (pos + j))) (head_forward P) (d1\<lparr>dv_model := m1\<rparr>) =
          (Inr (last_logits V logits (toks @ take j drafts) [t]), d3)"
        and R3: "R (toks @ gen) (toks @ gen) d3" by blast
      have pend: "last_logits V logits (toks @ take j drafts) [t] = row_logits V (logits (toks @ gen))"
        using gen(1) by (simp add: last_logits_def row_logits_def)
      have "pos + j + k \<le> N" using jk Suc.prems(7) by simp
      from advance_ok [OF dr Suc.prems(6) jk(1) k this refl] obtain drafts' m3 where
        a: "advance_and_propose Q j k drafts t pos m = (Inr drafts', m3)" and l': "length drafts' = k"
        and D': "D (pos + j + 1 + k - 1) m3" by blast
      have "left - length gen \<le> fuel" "pos + j + 1 = length (toks @ gen)" "pos + j + 1 + (left - length gen) + k \<le> N"
        using lg Suc.prems(1,4,7) gen(2) by simp_all
      from Suc.IH [OF this(1) R3 refl this(2) l' D' this(3)] obtain s' where
        r: "spec_rounds P E Q T fe k fuel (left - length gen) (row_logits V (logits (toks @ gen))) (pos + j + 1) (toks @ gen) drafts' (d3, m3) =
          (Inr (greedy_incl ?lm ?eos (left - length gen) (toks @ gen)), s')" by blast
      have "spec_rounds P E Q T fe k (Suc fuel) (Suc l) pending pos toks drafts (d, m) =
          (Inr (gen @ greedy_incl ?lm ?eos (left - length gen) (toks @ gen)), s')"
        using e r by (simp add: sbind_app on_fst_app on_snd_app slift_def f1 j(2) c False f2 f3 pend a left del: of_nat_add)
      then show ?thesis using gen(3) unfolding left by metis
    qed
  qed
qed

lemma f64_is_zero_le: "f64_is_zero x \<Longrightarrow> f64_le x 0"
  by (simp add: f64_is_zero_def f64_le_def f64_is_nan_def f64_key_def f64_mag_def)

lemma spec_check_ok:
  "spec_check cfg k = Inr () \<longleftrightarrow> 2 \<le> k \<and> f64_is_zero (sg_temperature cfg) \<and> \<not> f32_gt (sg_repeat_penalty cfg) F32_ONE"
  by (auto simp: spec_check_def)

lemma spec_check_greedy: "spec_check cfg k = Inr () \<Longrightarrow> greedy_cfg cfg"
  by (simp add: spec_check_ok greedy_cfg_def f64_is_zero_le)

lemma spec_greedy:
  assumes ok: "causal_target P E (unat (cn_front_end (dv_chain d))) N V logits R" and dr: "draft_law Q N D"
    and chk: "spec_check cfg k = Inr ()" and emit: "\<And>toks t. tk_emit T toks t = None"
    and enc: "tk_encode T prompt = Inr toks" "toks \<noteq> []" and R: "R kf [] d" and D: "D n m"
    and N: "length toks + sg_max_new_tokens cfg + k \<le> N"
  shows "\<exists>s'. run_turn_spec P E Q T cfg k prompt (d, m) =
    (Inr (greedy_incl (next_token logits) (tk_is_eos T) (sg_max_new_tokens cfg) toks), s')"
proof -
  let ?fe = "unat (cn_front_end (dv_chain d))" and ?mx = "sg_max_new_tokens cfg"
  let ?d0 = "d\<lparr>dv_model := po_reset P (dv_model d)\<rparr>"
  have k: "2 \<le> k" using chk by (simp add: spec_check_ok)
  have R0: "R [] [] ?d0" using reset_lawD [OF causal_parts(5) [OF ok] R, of "dv_sampler d"] by simp
  obtain d1 where f: "feed P E ?fe Prefill toks 0 None (head_forward P) ?d0 = (Inr (row_logits V (logits toks)), d1)" and R1: "R toks toks d1"
    using feed_lawD [OF causal_parts(7) [OF ok] R0 enc(2) _ _ _ refl, of None 0 Prefill] N
    by (auto simp: last_logits_def row_logits_def)
  have D0: "D 0 (po_reset Q m)" using dr D unfolding draft_law_def by blast
  obtain h m1 where g: "model_call (po_forward Q toks 0) (po_reset Q m) = (Inr h, m1)" and D1: "D (length toks) m1" and h: "has_row h"
    using draft_forward [OF dr D0 enc(2), of "length toks"] N by auto
  have "0 < k" "length toks + k \<le> N + 1" using k N by simp_all
  from propose_ok [OF dr h D1 this refl] obtain ds m2 where p: "propose_k_drafts Q h k (length toks) m1 = (Inr ds, m2)"
    and ds: "length ds = k" and D2: "D (length toks + k - 1) m2" by blast
  obtain s' where r: "spec_rounds P E Q T ?fe k ?mx ?mx (row_logits V (logits toks)) (length toks) toks ds (d1, m2) =
      (Inr (greedy_incl (next_token logits) (tk_is_eos T) ?mx toks), s')"
    using spec_rounds_greedy [OF ok dr emit k le_refl R1 refl refl ds D2 N] by blast
  have e: "encode_prompt T prompt = Inr toks" by (simp add: encode_prompt_def enc)
  show ?thesis
    using f g p r by (simp add: run_turn_spec_def chk e sbind_slift_Inr sbind_app on_fst_app on_snd_app)
qed

text \<open>
  C2. Speculative decoding is greedy decoding, up to the end token: over the same target and prompt,
  whatever the draft predicts, \<open>run_turn_spec\<close> emits what \<open>run_turn\<close> emits, followed by the end token
  when that is what stopped the turn (\<open>run_turn\<close> does not emit it).
\<close>

theorem spec_matches_run_turn:
  assumes "causal_target P E (unat (cn_front_end (dv_chain d))) N V logits R" "draft_law Q N D"
    and "spec_check cfg k = Inr ()" "\<And>toks t. tk_emit T toks t = None"
    and "tk_encode T prompt = Inr toks" "toks \<noteq> []" "R kf [] d" "D n m"
    and "length toks + sg_max_new_tokens cfg + k \<le> N"
  shows "\<exists>gen d' s'. run_turn P E A T cfg rng prompt d = (Inr gen, d') \<and>
    run_turn_spec P E Q T cfg k prompt (d, m) =
      (Inr (gen @ (if length gen < sg_max_new_tokens cfg then [next_token logits (toks @ gen)] else [])), s')"
proof -
  have "length toks + sg_max_new_tokens cfg \<le> N" using assms(9) by simp
  from turn_greedy [OF assms(1) spec_check_greedy [OF assms(3)] assms(4-7) this, of A rng]
    spec_greedy [OF assms(1-9)] greedy_incl_greedy show ?thesis by metis
qed

section \<open>Termination\<close>

definition in_fuel :: "('s, turn_error fault, 'a) st \<Rightarrow> bool" where
  "in_fuel f \<longleftrightarrow> (\<forall>s. fst (f s) \<noteq> Inl (Fail OutOfFuel))"

named_theorems fuel_intros

lemma in_fuel_sbind [fuel_intros]: "in_fuel f \<Longrightarrow> (\<And>x. in_fuel (g x)) \<Longrightarrow> in_fuel (sbind f g)"
  by (auto simp: in_fuel_def sbind_app split: prod.splits sum.splits) (metis fst_conv)

lemma in_fuel_slift [fuel_intros]: "r \<noteq> Inl (Fail OutOfFuel) \<Longrightarrow> in_fuel (slift r)"
  by (simp add: in_fuel_def slift_def)

lemma in_fuel_lifts [fuel_intros]:
  "in_fuel f \<Longrightarrow> in_fuel (on_fst f)" "in_fuel g \<Longrightarrow> in_fuel (on_snd g)" "in_fuel h \<Longrightarrow> in_fuel (on_model h)"
  by (auto simp: in_fuel_def on_fst_def on_snd_def on_model_def split: prod.splits) (metis fst_conv)+

lemma in_fuel_calls [fuel_intros]: "in_fuel (model_call c)" "in_fuel (on_chain b)"
  "in_fuel f \<Longrightarrow> in_fuel (pipelined P f)"
  by (auto simp: in_fuel_def model_call_def smap_err_def on_chain_def map_err_def chain_fault_def pipelined_def
      split: prod.splits sum.splits fault.splits)

lemma in_fuel_parts [fuel_intros]:
  "(\<And>h. in_fuel (head h)) \<Longrightarrow> in_fuel (feed P E fe ph ts pos keep head)"
  "in_fuel (head_forward P h)" "in_fuel (head_all_forward P h)" "in_fuel (truncate_kv P n)"
  unfolding feed_def front_forward_def head_forward_def head_all_forward_def truncate_kv_def
  by (intro fuel_intros; assumption)+

lemma on_hidden_fuel: "on_hidden r \<noteq> Inl (Fail OutOfFuel)"
  by (auto simp: on_hidden_def map_err_def split: sum.splits fault.splits)

lemma in_fuel_value [fuel_intros]:
  "r \<noteq> Inl (Fail OutOfFuel) \<Longrightarrow> (\<And>x. r = Inr x \<Longrightarrow> in_fuel (g x)) \<Longrightarrow> in_fuel (sbind (slift r) g)"
  by (cases r) (auto simp: in_fuel_def sbind_app slift_def)

lemma pred_at_fuel: "pred_at pending verify i \<noteq> Inl (Fail OutOfFuel)"
  by (simp add: pred_at_def on_hidden_fuel)

lemma match_prefix_fuel: "match_prefix pending verify ts i \<noteq> Inl (Fail OutOfFuel)"
proof (induction ts arbitrary: i)
  case (Cons t ts)
  then show ?case using pred_at_fuel [of pending verify i] by (cases "pred_at pending verify i") auto
qed simp

lemma commit_tokens_fuel: "commit_tokens pending verify ds j \<noteq> Inl (Fail OutOfFuel)"
  using pred_at_fuel [of pending verify j] on_hidden_fuel [of "rbind (select_position verify (length ds - 1)) argmax_last"]
  by (cases "pred_at pending verify j"; cases "on_hidden (rbind (select_position verify (length ds - 1)) argmax_last)")
    (auto simp: commit_tokens_def)

lemma commit_tokens_nonempty: "commit_tokens pending verify ds j = Inr (es, t) \<Longrightarrow> es \<noteq> []"
  by (auto simp: commit_tokens_def results split: if_splits)

lemma emit_all_fuel: "emit_all T left toks es \<noteq> Inl (Fail OutOfFuel)"
proof (induction es arbitrary: left toks)
  case (Cons t ts)
  show ?case
  proof (cases left)
    case (Suc n)
    show ?thesis using Cons [of n "toks @ [t]"]
      by (cases "emit_all T n (toks @ [t]) ts") (auto simp: Suc emit_def split: option.splits fault.splits)
  qed simp
qed simp

lemma emit_all_goes_on: "emit_all T left toks es = Inr (gen, False) \<Longrightarrow> gen = es \<and> length es \<le> left"
proof (induction es arbitrary: left toks gen)
  case (Cons t ts)
  then show ?case by (cases left) (fastforce simp: results split: if_splits)+
qed simp

lemma propose_fuel [fuel_intros]: "in_fuel (propose_k_drafts Q cur k pos)"
proof (induction k arbitrary: cur pos)
  case 0
  then show ?case by (auto intro!: fuel_intros)
next
  case (Suc k)
  show ?case unfolding propose_k_drafts.simps using Suc
    by (auto intro!: in_fuel_value in_fuel_sbind in_fuel_slift in_fuel_calls on_hidden_fuel)
qed

lemma advance_fuel [fuel_intros]: "in_fuel (advance_and_propose Q j k ds t pos)"
  by (auto simp: advance_and_propose_def intro!: in_fuel_sbind in_fuel_calls in_fuel_parts propose_fuel)

lemma spec_rounds_fuel:
  "left \<le> fuel \<Longrightarrow> in_fuel (spec_rounds P E Q T fe k fuel left pending pos toks ds ::
    (('m, 'w, 'r) driver \<times> 'd, turn_error fault, u32 list) st)"
proof (induction fuel arbitrary: left pending pos toks ds)
  case 0
  then show ?case by (auto intro!: fuel_intros)
next
  case (Suc fuel)
  show ?case
  proof (cases left)
    case 0
    then show ?thesis by (auto intro!: fuel_intros)
  next
    case left: (Suc l)
    have rounds: "in_fuel (spec_rounds P E Q T fe k fuel (Suc l - length gen) pending' pos' toks' ds' ::
        (('m, 'w, 'r) driver \<times> 'd, turn_error fault, u32 list) st)"
      if "commit_tokens pending verify ds j = Inr (es, t)" "emit_all T (Suc l) toks es = Inr (gen, False)"
      for verify j es t gen pending' pos' toks' ds'
    proof (rule Suc.IH)
      have "gen = es" "es \<noteq> []" using emit_all_goes_on [OF that(2)] commit_tokens_nonempty [OF that(1)] by blast+
      then show "Suc l - length gen \<le> fuel" using Suc.prems left by (cases gen) auto
    qed
    show ?thesis unfolding left spec_rounds.simps
      by (intro in_fuel_sbind [OF in_fuel_lifts(1)] in_fuel_value in_fuel_parts match_prefix_fuel commit_tokens_fuel)
        (auto intro!: in_fuel_value in_fuel_sbind [OF in_fuel_lifts(1)] in_fuel_sbind [OF in_fuel_lifts(2)]
          in_fuel_sbind [OF rounds] in_fuel_lifts in_fuel_parts in_fuel_slift emit_all_fuel advance_fuel)
  qed
qed

text \<open>
  C29. A speculative turn ends: whatever the models, the peers, the tokenizer and the callback do,
  \<open>max_new_tokens\<close> rounds are enough, because a round that does not end the turn has emitted a token.
\<close>

theorem run_turn_spec_terminates: "fst (run_turn_spec P E Q T cfg k prompt s) \<noteq> Inl (Fail OutOfFuel)"
proof -
  have c: "spec_check cfg k \<noteq> Inl (Fail OutOfFuel)" by (simp add: spec_check_def)
  have e: "encode_prompt T prompt \<noteq> Inl (Fail OutOfFuel)"
    by (auto simp: encode_prompt_def map_err_def split: sum.splits)
  have "in_fuel (sbind (slift (encode_prompt T prompt)) (\<lambda>toks.
          sbind (on_fst (feed P E fe Prefill toks 0 None (head_forward P))) (\<lambda>pending.
          sbind (on_snd (model_call (po_forward Q toks 0))) (\<lambda>draft_pending.
          sbind (on_snd (propose_k_drafts Q draft_pending k (length toks))) (\<lambda>drafts.
            spec_rounds P E Q T fe k n n pending (length toks) toks drafts)))))" for fe n
    by (intro in_fuel_value in_fuel_sbind in_fuel_lifts in_fuel_parts in_fuel_calls propose_fuel spec_rounds_fuel e order_refl)
  then have "in_fuel (run_turn_spec P E Q T cfg k prompt)"
    unfolding run_turn_spec_def
    by (intro in_fuel_value c) (auto simp: in_fuel_def Let_def)
  then show ?thesis unfolding in_fuel_def by blast
qed

lemma sample_draft_law: "(\<And>ctx. length (L ctx) = 2) \<Longrightarrow> draft_law (toy_ops L) (2 ^ 20) (\<lambda>n m. length m = n)"
  by (auto simp: draft_law_def toy_ops_def) (metis list.size(3) zero_neq_numeral)

lemma spec_matches_run_turn_witness:
  "\<exists>s'. run_turn_spec (toy_ops sample_logits) echo_env (toy_ops (\<lambda>_. [F32_ONE, 0])) sample_tok (sample_sampling 7) 4 ''hi''
      (sample_driver, []) = (Inr [0, 0, 1], s')"
proof -
  have e: "tk_emit sample_tok toks t = None" for toks t by (simp add: sample_tok_def)
  have p: "tk_encode sample_tok ''hi'' = Inr [5, 6]" by (simp add: sample_tok_def)
  have h: "sample_holds [] [] sample_driver" by (simp add: sample_holds_def sample_driver_def exI [of _ 0])
  have n: "length [5, 6 :: u32] + sg_max_new_tokens (sample_sampling 7) + 4 \<le> 2 ^ 20" by (simp add: sample_sampling_def)
  have c: "spec_check (sample_sampling 7) 4 = Inr ()"
    by (simp add: spec_check_ok sample_sampling_def f64_is_zero_def f64_mag_def f32_gt_def)
  have d: "draft_law (toy_ops (\<lambda>_. [F32_ONE, 0])) (2 ^ 20) (\<lambda>n m. length m = n)" by (rule sample_draft_law) simp
  have g: "greedy (next_token sample_logits) (tk_is_eos sample_tok) (sg_max_new_tokens (sample_sampling 7)) [5, 6] = [0, 0]"
    by (simp add: sample_sampling_def sample_next_token sample_tok_def numeral_eq_Suc)
  obtain gen d' s' where r: "run_turn (toy_ops sample_logits) echo_env sample_arith sample_tok (sample_sampling 7) 0 ''hi'' sample_driver = (Inr gen, d')"
    and s: "run_turn_spec (toy_ops sample_logits) echo_env (toy_ops (\<lambda>_. [F32_ONE, 0])) sample_tok (sample_sampling 7) 4 ''hi'' (sample_driver, []) =
      (Inr (gen @ (if length gen < sg_max_new_tokens (sample_sampling 7) then [next_token sample_logits ([5, 6] @ gen)] else [])), s')"
    using spec_matches_run_turn [OF sample_target d c e p _ h _ n, of "[]" 0 sample_arith 0] by auto
  have "gen = [0, 0]"
    using turn_greedy [OF sample_target sample_greedy_cfg e p _ h, of 7 sample_arith 0] r g
    by (auto simp: sample_sampling_def)
  then show ?thesis using s by (simp add: sample_sampling_def sample_next_token)
qed

end
