(* ===== verification/Text.thy ===== *)
theory Text
  imports Bytes
begin

text \<open>
  The \<open>str\<close> operations of the standard library that the client code uses, on UTF-8 byte strings: character
  boundaries, slicing, trimming and splitting at white space.
\<close>

definition code :: "char \<Rightarrow> nat" where
  "code c = of_char c"

text \<open>A byte that starts a character; \<open>is_char_boundary\<close>.\<close>

definition starts_char :: "char \<Rightarrow> bool" where
  "starts_char c \<longleftrightarrow> code c < 0x80 \<or> 0xC0 \<le> code c"

definition is_char_boundary :: "string \<Rightarrow> nat \<Rightarrow> bool" where
  "is_char_boundary s i \<longleftrightarrow> i = 0 \<or> i = length s \<or> i < length s \<and> starts_char (s ! i)"

text \<open>\<open>&s[i..]\<close> and \<open>&s[i..j]\<close>: a panic off a character boundary.\<close>

definition str_from :: "string \<Rightarrow> nat \<Rightarrow> 'e fault + string" where
  "str_from s i = (if is_char_boundary s i then Inr (drop i s) else Inl Panic)"

definition str_range :: "string \<Rightarrow> nat \<Rightarrow> nat \<Rightarrow> 'e fault + string" where
  "str_range s i j =
     (if i \<le> j \<and> is_char_boundary s i \<and> is_char_boundary s j then Inr (take (j - i) (drop i s)) else Inl Panic)"

text \<open>The bytes of one character with the Unicode property \<open>White_Space\<close>.\<close>

definition white_char :: "string \<Rightarrow> bool" where
  "white_char cs =
     (case map code cs of
        [a] \<Rightarrow> a = 0x20 \<or> 0x09 \<le> a \<and> a \<le> 0x0D
      | [a, b] \<Rightarrow> a = 0xC2 \<and> (b = 0x85 \<or> b = 0xA0)
      | [a, b, c] \<Rightarrow>
          a = 0xE1 \<and> b = 0x9A \<and> c = 0x80 \<or>
          a = 0xE2 \<and> b = 0x80 \<and> (0x80 \<le> c \<and> c \<le> 0x8A \<or> c = 0xA8 \<or> c = 0xA9 \<or> c = 0xAF) \<or>
          a = 0xE2 \<and> b = 0x81 \<and> c = 0x9F \<or>
          a = 0xE3 \<and> b = 0x80 \<and> c = 0x80
      | _ \<Rightarrow> False)"

definition last_n :: "nat \<Rightarrow> 'a list \<Rightarrow> 'a list" where
  "last_n n xs = drop (length xs - n) xs"

text \<open>The length of the white-space character a string starts (ends) with, else 0.\<close>

definition white_head :: "string \<Rightarrow> nat" where
  "white_head s =
     (case List.find (\<lambda>n. n \<le> length s \<and> white_char (take n s)) [1, 2, 3] of Some n \<Rightarrow> n | None \<Rightarrow> 0)"

definition white_tail :: "string \<Rightarrow> nat" where
  "white_tail s =
     (case List.find (\<lambda>n. n \<le> length s \<and> white_char (last_n n s)) [1, 2, 3] of Some n \<Rightarrow> n | None \<Rightarrow> 0)"

lemma white_head_le: "white_head s \<le> length s"
  by (auto simp: white_head_def find_Some_iff split: option.splits)

lemma white_tail_le: "white_tail s \<le> length s"
  by (auto simp: white_tail_def find_Some_iff split: option.splits)

function trim_start :: "string \<Rightarrow> string" where
  "trim_start s = (if white_head s = 0 then s else trim_start (drop (white_head s) s))"
  by pat_completeness auto
termination
  using white_head_le by (relation "measure length") (auto intro!: diff_less, metis le_zero_eq length_0_conv list.size(3) not_gr_zero white_head_le)

function trim_end :: "string \<Rightarrow> string" where
  "trim_end s = (if white_tail s = 0 then s else trim_end (take (length s - white_tail s) s))"
  by pat_completeness auto
termination
  using white_tail_le by (relation "measure length") (auto, metis Suc_leI diff_less le_zero_eq length_0_conv list.size(3) not_gr_zero white_tail_le)

declare trim_start.simps [simp del] trim_end.simps [simp del]

definition trim :: "string \<Rightarrow> string" where
  "trim s = trim_end (trim_start s)"

lemma trim_start_fixed: "white_head (trim_start s) = 0"
proof (induction s rule: trim_start.induct)
  case (1 s)
  then show ?case by (cases "white_head s = 0") (simp_all add: trim_start.simps [of s])
qed

lemma trim_end_fixed: "white_tail (trim_end s) = 0"
proof (induction s rule: trim_end.induct)
  case (1 s)
  then show ?case by (cases "white_tail s = 0") (simp_all add: trim_end.simps [of s])
qed

text \<open>\<open>str::split_whitespace\<close>: the maximal runs without a white-space character.\<close>

function split_white :: "string \<Rightarrow> string \<Rightarrow> string list" where
  "split_white word [] = (if word = [] then [] else [word])"
| "split_white word (c # s) =
     (let n = white_head (c # s)
      in if n = 0 then split_white (word @ [c]) s
         else (if word = [] then [] else [word]) @ split_white [] (drop n (c # s)))"
  by pat_completeness auto
termination
  by (relation "measure (\<lambda>(_, s). length s)") auto

declare split_white.simps [simp del]

definition split_whitespace :: "string \<Rightarrow> string list" where
  "split_whitespace s = split_white [] s"

end
