(* ===== verification/Backend.thy ===== *)
theory Backend
  imports Turn Forward_Server Text
begin

text \<open>
  The model backend: \<open>crates/runtime/src/ggml_backend.rs\<close> over the safe wrappers of
  \<open>crates/ggml/src/lib.rs\<close>, the device hint \<open>device.rs\<close>, the handle \<open>model.rs\<close> and the tokenizer
  wrapper \<open>tokenizer.rs\<close>. An \<open>i32\<close> is its 32 bits. A libllama context is an opaque \<open>'c\<close> with the C
  functions \<open>llama\<close>; a row pointer is the list of the values read through it, or nothing when null.
\<close>

section \<open>Device hint\<close>

datatype device_pref = DevAuto | DevCpu | DevCuda nat | DevMetal nat

definition n_gpu_layers :: "device_pref \<Rightarrow> u32" where
  "n_gpu_layers d = (case d of DevCpu \<Rightarrow> 0 | _ \<Rightarrow> - 1)"

definition device_label :: "device_pref \<Rightarrow> string" where
  "device_label d =
     (case d of DevAuto \<Rightarrow> ''auto'' | DevCpu \<Rightarrow> ''cpu'' | DevCuda _ \<Rightarrow> ''cuda'' | DevMetal _ \<Rightarrow> ''metal'')"

definition device_ordinal :: "string \<Rightarrow> nat" where
  "device_ordinal rest =
     (case parse_uint (2 ^ 64) (dropWhile (\<lambda>c. c = CHR '':'' \<or> c = CHR ''='') rest) of Some n \<Rightarrow> n | None \<Rightarrow> 0)"

definition device_from_str :: "string \<Rightarrow> string + device_pref" where
  "device_from_str s =
     (let t = map ascii_lower (trim s)
      in if t = ''auto'' \<or> t = [] then Inr DevAuto
         else if t = ''cpu'' then Inr DevCpu
         else case strip_prefix t ''cuda'' of
           Some rest \<Rightarrow> Inr (DevCuda (device_ordinal rest))
         | None \<Rightarrow> (case strip_prefix t ''metal'' of
             Some rest \<Rightarrow> Inr (DevMetal (device_ordinal rest))
           | None \<Rightarrow> Inl t))"

section \<open>The tokenizer wrapper\<close>

record tok_lib =
  tl_encode :: "string \<Rightarrow> string + u32 list"
  tl_decode :: "u32 list \<Rightarrow> string + string"
  tl_token_to_id :: "string \<Rightarrow> u32 option"

definition eos_ids :: "tok_lib \<Rightarrow> u32 list" where
  "eos_ids L = List.map_filter (tl_token_to_id L) [''<|im_end|>'', ''<|endoftext|>'', ''</s>'']"

definition is_eos :: "tok_lib \<Rightarrow> u32 \<Rightarrow> bool" where
  "is_eos L t \<longleftrightarrow> t \<in> set (eos_ids L)"

record incremental =
  ic_ids :: "u32 list"
  ic_emitted :: nat

definition incremental_new :: incremental where
  "incremental_new = \<lparr>ic_ids = [], ic_emitted = 0\<rparr>"

definition decoder_push :: "tok_lib \<Rightarrow> u32 \<Rightarrow> (incremental, string fault, string option) st" where
  "decoder_push L t = (\<lambda>d.
     let ids = ic_ids d @ [t]; d1 = d\<lparr>ic_ids := ids\<rparr>
     in case tl_decode L ids of
          Inl e \<Rightarrow> (Inl (Fail e), d1)
        | Inr s \<Rightarrow>
            if length s \<le> ic_emitted d then (Inr None, d1)
            else (case str_from s (ic_emitted d) of
                    Inl f \<Rightarrow> (Inl f, d1)
                  | Inr delta \<Rightarrow> (Inr (Some delta), d1\<lparr>ic_emitted := length s\<rparr>)))"

fun push_all :: "tok_lib \<Rightarrow> u32 list \<Rightarrow> (incremental, string fault, string) st" where
  "push_all L [] = slift (Inr [])"
| "push_all L (t # ts) =
     sbind (decoder_push L t) (\<lambda>d. sbind (push_all L ts) (\<lambda>r. slift (Inr ((case d of Some s \<Rightarrow> s | None \<Rightarrow> []) @ r))))"

text \<open>
  The tokenizer of a turn whose prompt has \<open>plen\<close> tokens: the decoder sees the generated tokens only;
  \<open>cb\<close> is the callback on new text.
\<close>

definition turn_tok :: "tok_lib \<Rightarrow> (string \<Rightarrow> string option) \<Rightarrow> nat \<Rightarrow> tok_ops" where
  "turn_tok L cb plen =
     \<lparr>tk_encode = tl_encode L, tk_is_eos = is_eos L,
      tk_emit = (\<lambda>toks t.
        case push_all L (drop plen toks) incremental_new of
          (Inl f, _) \<Rightarrow> Some f
        | (Inr _, d) \<Rightarrow> (case decoder_push L t d of
              (Inl f, _) \<Rightarrow> Some f
            | (Inr None, _) \<Rightarrow> None
            | (Inr (Some s), _) \<Rightarrow> map_option Fail (cb s)))\<rparr>"

section \<open>Batches\<close>

record batch =
  bt_tokens :: "u32 list"
  bt_embd :: "f32 list"
  bt_pos :: "u32 list"
  bt_seq :: u32
  bt_logits :: "bool list"

datatype backend_error =
    NoKvSlot string
  | CallFailed string u32
  | NullRow u32
  | NoMemory
  | SeqRmRejected u32 u32
  | TokenCount nat nat
  | RankNot3 "nat list"
  | BatchNot1 nat
  | SeqOutOfBounds nat nat
  | HiddenDim nat u32
  | DataOverflow nat nat
  | DataLen nat nat "nat list"
  | BadHidden hidden_error

definition i32_pos :: "u32 \<Rightarrow> bool" where
  "i32_pos x \<longleftrightarrow> x \<noteq> 0 \<and> unat x < 2 ^ 31"

text \<open>\<open>x as usize\<close> extends the sign.\<close>

definition i32_as_usize :: "u32 \<Rightarrow> nat" where
  "i32_as_usize x = (if unat x < 2 ^ 31 then unat x else unat x + (2 ^ 64 - 2 ^ 32))"

definition logits_flags :: "nat \<Rightarrow> bool \<Rightarrow> bool list" where
  "logits_flags n last_only = map (\<lambda>i. \<not> last_only \<or> i + 1 = n) [0..<n]"

definition positions :: "u32 \<Rightarrow> nat \<Rightarrow> u32 list" where
  "positions pos n = map (\<lambda>i. pos + word_of_nat i) [0..<n]"

text \<open>\<open>Batch::tokens\<close> and \<open>fill_tokens_in\<close>, always called with the batch's own size.\<close>

definition token_batch :: "u32 list \<Rightarrow> u32 \<Rightarrow> u32 \<Rightarrow> bool \<Rightarrow> backend_error fault + batch" where
  "token_batch toks pos seq last_only =
     (let n = length toks
      in if \<not> i32_pos (word_of_nat n) then Inl Panic
         else Inr \<lparr>bt_tokens = toks, bt_embd = [], bt_pos = positions pos n, bt_seq = seq, bt_logits = logits_flags n last_only\<rparr>)"

definition embd_batch :: "f32 list \<Rightarrow> u32 \<Rightarrow> u32 \<Rightarrow> u32 \<Rightarrow> u32 \<Rightarrow> bool \<Rightarrow> backend_error fault + batch" where
  "embd_batch data n n_embd pos seq last_only =
     (if \<not> (i32_pos n \<and> i32_pos n_embd) then Inl Panic
      else if length data \<noteq> wrap64 (i32_as_usize n * i32_as_usize n_embd) then Inl Panic
      else Inr \<lparr>bt_tokens = [], bt_embd = data, bt_pos = positions pos (unat n), bt_seq = seq,
                bt_logits = logits_flags (unat n) last_only\<rparr>)"

section \<open>The context\<close>

record 'c llama =
  ll_embed_only :: "batch \<Rightarrow> 'c \<Rightarrow> u32 \<times> 'c"
  ll_decode_layers :: "batch \<Rightarrow> u32 \<Rightarrow> u32 \<Rightarrow> bool \<Rightarrow> 'c \<Rightarrow> u32 \<times> 'c"
  ll_head_only :: "batch \<Rightarrow> 'c \<Rightarrow> u32 \<times> 'c"
  ll_logits :: "u32 \<Rightarrow> nat \<Rightarrow> 'c \<Rightarrow> f32 list option"
  ll_embeddings :: "u32 \<Rightarrow> nat \<Rightarrow> 'c \<Rightarrow> f32 list option"
  ll_memory :: "'c \<Rightarrow> bool"
  ll_seq_rm :: "u32 \<Rightarrow> u32 \<Rightarrow> u32 \<Rightarrow> 'c \<Rightarrow> bool \<times> 'c"

record 'c ggml_backend =
  be_ctx :: 'c
  be_n_embd :: u32
  be_n_layer :: u32
  be_n_vocab :: u32
  be_n_ctx :: u32

definition HEAD_SCRATCH_SEQ :: u32 where "HEAD_SCRATCH_SEQ = 1"

definition check_ret :: "string \<Rightarrow> u32 \<Rightarrow> backend_error fault + unit" where
  "check_ret f rc = (if rc = 0 then Inr () else if rc = 1 then Inl (Fail (NoKvSlot f)) else Inl (Fail (CallFailed f rc)))"

definition ctx_call :: "string \<Rightarrow> ('c \<Rightarrow> u32 \<times> 'c) \<Rightarrow> ('c, backend_error fault, unit) st" where
  "ctx_call f m = (\<lambda>c. case m c of (rc, c') \<Rightarrow> (check_ret f rc, c'))"

definition get_row :: "(u32 \<Rightarrow> nat \<Rightarrow> 'c \<Rightarrow> f32 list option) \<Rightarrow> u32 \<Rightarrow> nat \<Rightarrow> ('c, backend_error fault, f32 list) st" where
  "get_row get i n = (\<lambda>c. (ok_or (Fail (NullRow i)) (get i n c), c))"

definition kv_seq_rm :: "'c llama \<Rightarrow> u32 \<Rightarrow> u32 \<Rightarrow> u32 \<Rightarrow> ('c, backend_error fault, unit) st" where
  "kv_seq_rm L seq p0 p1 = (\<lambda>c.
     if \<not> ll_memory L c then (Inl (Fail NoMemory), c)
     else case ll_seq_rm L seq p0 p1 c of (ok, c') \<Rightarrow> (if ok then Inr () else Inl (Fail (SeqRmRejected p0 p1)), c'))"

text \<open>\<open>let _ = \<dots>\<close>: the error is dropped.\<close>

definition ignoring :: "('c, 'e, unit) st \<Rightarrow> ('c, 'e, unit) st" where
  "ignoring m = (\<lambda>c. (Inr (), snd (m c)))"

definition pull_rows :: "(u32 \<Rightarrow> nat \<Rightarrow> 'c \<Rightarrow> f32 list option) \<Rightarrow> nat \<Rightarrow> nat \<Rightarrow> ('c, backend_error fault, f32 list) st" where
  "pull_rows get seq n = (\<lambda>c.
     (rbind (with_capacity 4 (wrap64 (seq * n))) (\<lambda>_.
      rbind (mapM (\<lambda>i. ok_or (Fail (NullRow (word_of_nat i))) (get (word_of_nat i) n c)) [0..<seq]) (\<lambda>rows. Inr (concat rows))), c))"

section \<open>The adapter\<close>

definition ids_to_i32 :: "u32 list \<Rightarrow> u32 \<Rightarrow> backend_error fault + u32 list" where
  "ids_to_i32 ids n_ctx =
     (let mx = i32_as_usize n_ctx
      in if ids = [] \<or> mx < length ids then Inl (Fail (TokenCount (length ids) mx)) else Inr ids)"

definition check_hidden :: "hidden \<Rightarrow> u32 \<Rightarrow> u32 \<Rightarrow> backend_error fault + nat" where
  "check_hidden h n_embd n_ctx =
     (case h_shape h of
        [b, seq, d] \<Rightarrow>
          if b \<noteq> 1 then Inl (Fail (BatchNot1 b))
          else let mx = i32_as_usize n_ctx
          in if seq = 0 \<or> mx < seq then Inl (Fail (SeqOutOfBounds seq mx))
          else if (word_of_nat d :: u32) \<noteq> n_embd then Inl (Fail (HiddenDim d n_embd))
          else if 2 ^ 64 \<le> seq * d then Inl (Fail (DataOverflow seq d))
          else if length (h_data h) \<noteq> seq * d then Inl (Fail (DataLen (length (h_data h)) (seq * d) (h_shape h)))
          else Inr seq
      | sh \<Rightarrow> Inl (Fail (RankNot3 sh)))"

definition mk_hidden :: "f32 list \<Rightarrow> nat list \<Rightarrow> backend_error fault + hidden" where
  "mk_hidden data shape = map_err (\<lambda>e. Fail (BadHidden e)) (hidden_new data shape)"

definition on_ctx :: "('c, 'e, 'a) st \<Rightarrow> ('c ggml_backend, 'e, 'a) st" where
  "on_ctx m = (\<lambda>B. case m (be_ctx B) of (r, c') \<Rightarrow> (r, B\<lparr>be_ctx := c'\<rparr>))"

definition be_forward :: "'c llama \<Rightarrow> u32 list \<Rightarrow> nat \<Rightarrow> ('c ggml_backend, backend_error fault, hidden) st" where
  "be_forward L ids index_pos = (\<lambda>B. on_ctx (
     sbind (slift (ids_to_i32 ids (be_n_ctx B))) (\<lambda>ids.
     sbind (slift (token_batch ids (word_of_nat index_pos) 0 True)) (\<lambda>b.
     sbind (ctx_call ''llama_decode_layers'' (ll_decode_layers L b 0 (be_n_layer B) True)) (\<lambda>_.
     sbind (get_row (ll_logits L) (word_of_nat (length ids) - 1) (i32_as_usize (be_n_vocab B))) (\<lambda>row.
       slift (mk_hidden row [1, i32_as_usize (be_n_vocab B)])))))) B)"

definition be_reset_cache :: "'c llama \<Rightarrow> 'c ggml_backend \<Rightarrow> 'c ggml_backend" where
  "be_reset_cache L B = snd (on_ctx (kv_seq_rm L 0 (- 1) (- 1)) B)"

definition be_embed :: "'c llama \<Rightarrow> u32 list \<Rightarrow> ('c ggml_backend, backend_error fault, hidden) st" where
  "be_embed L ids = (\<lambda>B. on_ctx (
     sbind (slift (ids_to_i32 ids (be_n_ctx B))) (\<lambda>ids.
     sbind (slift (token_batch ids 0 HEAD_SCRATCH_SEQ False)) (\<lambda>b.
     sbind (ctx_call ''llama_embed_only'' (ll_embed_only L b)) (\<lambda>_.
     sbind (pull_rows (ll_embeddings L) (length ids) (i32_as_usize (be_n_embd B))) (\<lambda>flat.
     sbind (ignoring (kv_seq_rm L HEAD_SCRATCH_SEQ (- 1) (- 1))) (\<lambda>_.
       slift (mk_hidden flat [1, length ids, i32_as_usize (be_n_embd B)]))))))) B)"

definition be_forward_range :: "'c llama \<Rightarrow> hidden \<Rightarrow> nat \<Rightarrow> nat \<Rightarrow> nat \<Rightarrow> ('c ggml_backend, backend_error fault, hidden) st" where
  "be_forward_range L h index_pos lstart lend = (\<lambda>B. on_ctx (
     sbind (slift (check_hidden h (be_n_embd B) (be_n_ctx B))) (\<lambda>seq.
     sbind (slift (embd_batch (h_data h) (word_of_nat seq) (be_n_embd B) (word_of_nat index_pos) 0 False)) (\<lambda>b.
     sbind (ctx_call ''llama_decode_layers'' (ll_decode_layers L b (word_of_nat lstart) (word_of_nat lend) False)) (\<lambda>_.
     sbind (pull_rows (ll_embeddings L) seq (i32_as_usize (be_n_embd B))) (\<lambda>out.
       slift (mk_hidden out [1, seq, i32_as_usize (be_n_embd B)])))))) B)"

definition be_head :: "'c llama \<Rightarrow> hidden \<Rightarrow> ('c ggml_backend, backend_error fault, hidden) st" where
  "be_head L h = (\<lambda>B. on_ctx (
     sbind (slift (check_hidden h (be_n_embd B) (be_n_ctx B))) (\<lambda>seq.
     let off = wrap64 ((seq - 1) * i32_as_usize (be_n_embd B))
     in sbind (slift (rust_slice (h_data h) off (wrap64 (off + i32_as_usize (be_n_embd B))))) (\<lambda>last_row.
     sbind (slift (embd_batch last_row 1 (be_n_embd B) 0 HEAD_SCRATCH_SEQ True)) (\<lambda>b.
     sbind (ctx_call ''llama_head_only'' (ll_head_only L b)) (\<lambda>_.
     sbind (get_row (ll_logits L) 0 (i32_as_usize (be_n_vocab B))) (\<lambda>row.
     sbind (ignoring (kv_seq_rm L HEAD_SCRATCH_SEQ (- 1) (- 1))) (\<lambda>_.
       slift (mk_hidden row [1, i32_as_usize (be_n_vocab B)])))))))) B)"

definition be_head_all :: "'c llama \<Rightarrow> hidden \<Rightarrow> ('c ggml_backend, backend_error fault, hidden) st" where
  "be_head_all L h = (\<lambda>B. on_ctx (
     sbind (slift (check_hidden h (be_n_embd B) (be_n_ctx B))) (\<lambda>seq.
     sbind (slift (embd_batch (h_data h) (word_of_nat seq) (be_n_embd B) 0 HEAD_SCRATCH_SEQ False)) (\<lambda>b.
     sbind (ctx_call ''llama_head_only'' (ll_head_only L b)) (\<lambda>_.
     sbind (pull_rows (ll_logits L) seq (i32_as_usize (be_n_vocab B))) (\<lambda>rows.
     sbind (ignoring (kv_seq_rm L HEAD_SCRATCH_SEQ (- 1) (- 1))) (\<lambda>_.
       slift (mk_hidden rows [1, seq, i32_as_usize (be_n_vocab B)]))))))) B)"

definition be_truncate :: "'c llama \<Rightarrow> nat \<Rightarrow> ('c ggml_backend, backend_error fault, unit) st" where
  "be_truncate L keep = on_ctx (kv_seq_rm L 0 (word_of_nat keep) (- 1))"

text \<open>The handle as the operations of the turn and of the forward server; \<open>render\<close> prints an error.\<close>

definition rendered :: "(backend_error \<Rightarrow> string) \<Rightarrow> ('s, backend_error fault, 'a) st \<Rightarrow> ('s, string fault, 'a) st" where
  "rendered render = smap_err (case_fault (\<lambda>e. Fail (render e)) Panic)"

definition ggml_pipe :: "(backend_error \<Rightarrow> string) \<Rightarrow> 'c llama \<Rightarrow> 'c ggml_backend pipe_ops" where
  "ggml_pipe render L =
     \<lparr>po_pipelined = (\<lambda>_. True),
      po_embed = (\<lambda>ids. rendered render (be_embed L ids)),
      po_forward_range = (\<lambda>h i s e. rendered render (be_forward_range L h i s e)),
      po_head = (\<lambda>h. rendered render (be_head L h)),
      po_head_all = (\<lambda>h. rendered render (be_head_all L h)),
      po_truncate = (\<lambda>keep. rendered render (be_truncate L keep)),
      po_reset = be_reset_cache L,
      po_forward = (\<lambda>ids i. rendered render (be_forward L ids i))\<rparr>"

section \<open>What reaches libllama\<close>

lemma i32_as_usize_pos: "unat x < 2 ^ 31 \<Longrightarrow> i32_as_usize x = unat x"
  by (simp add: i32_as_usize_def)

lemma check_hidden_ok:
  assumes "check_hidden h n_embd n_ctx = Inr seq"
  shows "\<exists>d. h_shape h = [1, seq, d] \<and> 0 < seq \<and> seq \<le> i32_as_usize n_ctx \<and> word_of_nat d = n_embd \<and> length (h_data h) = seq * d"
  using assms by (auto simp: check_hidden_def Let_def split: list.splits if_splits)

lemma check_hidden_exact:
  assumes "check_hidden h n_embd n_ctx = Inr seq" "i32_pos n_ctx" "length (h_data h) < 2 ^ 32"
  shows "h_shape h = [1, seq, unat n_embd]" "0 < seq" "seq \<le> unat n_ctx" "length (h_data h) = seq * unat n_embd"
proof -
  obtain d where d: "h_shape h = [1, seq, d]" "0 < seq" "seq \<le> i32_as_usize n_ctx" "word_of_nat d = n_embd" "length (h_data h) = seq * d"
    using check_hidden_ok [OF assms(1)] by blast
  have "d \<le> seq * d" using d(2) by simp
  then have "d < 2 ^ 32" using d(5) assms(3) by linarith
  then have "unat n_embd = d" using unat_of_nat_u32 d(4) by blast
  then show "h_shape h = [1, seq, unat n_embd]" "0 < seq" "seq \<le> unat n_ctx" "length (h_data h) = seq * unat n_embd"
    using d assms(2) by (simp_all add: i32_as_usize_pos i32_pos_def)
qed

lemma i32_pos_of_nat: "0 < n \<Longrightarrow> n < 2 ^ 31 \<Longrightarrow> i32_pos (word_of_nat n)"
proof -
  assume n: "0 < n" "n < 2 ^ 31"
  then have "n < 2 ^ 32" by simp
  from unat_of_nat_u32 [OF this] show "i32_pos (word_of_nat n)" using n by (auto simp: i32_pos_def)
qed

lemma embd_batch_ok:
  assumes "0 < n" "n < 2 ^ 31" "i32_pos n_embd" "length data = n * unat n_embd"
  shows "\<exists>b. embd_batch data (word_of_nat n) n_embd pos seq lo = Inr b \<and> bt_embd b = data \<and> length (bt_pos b) = n"
proof -
  have u: "unat (word_of_nat n :: u32) = n" using unat_of_nat_u32 [of n] assms(2) by simp
  have "unat n_embd < 2 ^ 31" using assms(3) by (simp add: i32_pos_def)
  then have "n * unat n_embd < 2 ^ 31 * 2 ^ 31" using assms(1,2) by (intro mult_strict_mono) simp_all
  then have "wrap64 (n * unat n_embd) = n * unat n_embd" by (simp add: wrap64_def)
  then show ?thesis using assms u i32_pos_of_nat [OF assms(1,2)]
    by (simp add: embd_batch_def i32_as_usize_def i32_pos_def positions_def)
qed

definition no_panic :: "('s, 'e fault, 'a) st \<Rightarrow> bool" where
  "no_panic m \<longleftrightarrow> (\<forall>s. fst (m s) \<noteq> Inl Panic)"

named_theorems panic_intros

lemma no_panic_sbind [panic_intros]: "no_panic m \<Longrightarrow> (\<And>x. no_panic (f x)) \<Longrightarrow> no_panic (sbind m f)"
  by (auto simp: no_panic_def sbind_app split: prod.splits sum.splits) (metis fst_conv)

lemma no_panic_value: "r \<noteq> Inl Panic \<Longrightarrow> (\<And>x. r = Inr x \<Longrightarrow> no_panic (f x)) \<Longrightarrow> no_panic (sbind (slift r) f)"
  by (cases r) (auto simp: no_panic_def sbind_app slift_def)

lemma no_panic_slift [panic_intros]: "r \<noteq> Inl Panic \<Longrightarrow> no_panic (slift r)"
  by (simp add: no_panic_def slift_def)

lemma no_panic_calls [panic_intros]:
  "no_panic (ctx_call f m)" "no_panic (get_row get i n)" "no_panic (ignoring k)" "no_panic (kv_seq_rm L a b c)"
  by (auto simp: no_panic_def ctx_call_def check_ret_def get_row_def ignoring_def kv_seq_rm_def ok_or_def
      split: prod.splits option.splits)

lemma mapM_ok_or_no_panic: "mapM (\<lambda>i. ok_or (Fail (g i)) (f i)) xs \<noteq> Inl Panic"
  by (induction xs) (auto simp: results)

lemma no_panic_pull:
  assumes "seq \<le> unat c" "i32_pos n" "unat c * unat n < 2 ^ 61"
  shows "no_panic (pull_rows get seq (i32_as_usize n))"
proof -
  have e: "i32_as_usize n = unat n" using assms(2) by (simp add: i32_as_usize_def i32_pos_def)
  have "seq * unat n \<le> unat c * unat n" using assms(1) by simp
  then have lt: "seq * unat n < 2 ^ 61" using assms(3) by (rule le_less_trans)
  then have "seq * unat n < 2 ^ 64" by (rule less_trans) simp
  then have w: "wrap64 (seq * unat n) = seq * unat n" unfolding wrap64_def by (simp only: mod_less)
  show ?thesis using lt unfolding e
    by (auto simp: no_panic_def pull_rows_def w with_capacity_def results mapM_ok_or_no_panic)
qed

lemma mk_hidden_no_panic: "mk_hidden data sh \<noteq> Inl Panic"
  by (cases "hidden_new data sh") (simp_all add: mk_hidden_def)

lemma check_hidden_no_panic: "check_hidden h a b \<noteq> Inl Panic"
  by (auto simp: check_hidden_def Let_def split: list.splits)

lemma on_ctx_fst: "fst (on_ctx m B) = fst (m (be_ctx B))"
  by (simp add: on_ctx_def split_beta)

lemma hidden_slices_ok:
  assumes "check_hidden h n_embd n_ctx = Inr seq" "i32_pos n_ctx" "i32_pos n_embd" "length (h_data h) < 2 ^ 32"
  shows "embd_batch (h_data h) (word_of_nat seq) n_embd pos sid lo \<noteq> Inl Panic"
    and "rust_slice (h_data h) (wrap64 ((seq - 1) * i32_as_usize n_embd))
      (wrap64 (wrap64 ((seq - 1) * i32_as_usize n_embd) + i32_as_usize n_embd)) =
        Inr (drop ((seq - 1) * unat n_embd) (h_data h))"
    and "embd_batch (drop ((seq - 1) * unat n_embd) (h_data h)) 1 n_embd pos sid lo \<noteq> Inl Panic"
proof -
  note c = check_hidden_exact [OF assms(1,2,4)]
  have seq: "seq < 2 ^ 31" using c(3) assms(2) by (simp add: i32_pos_def)
  show "embd_batch (h_data h) (word_of_nat seq) n_embd pos sid lo \<noteq> Inl Panic"
    using embd_batch_ok [OF c(2) seq assms(3) c(4), of pos sid lo] by auto
  have step: "(seq - 1) * unat n_embd + unat n_embd = length (h_data h)"
    using c(2,4) by (cases seq) simp_all
  then have "(seq - 1) * unat n_embd \<le> length (h_data h)" by linarith
  moreover have lt2: "length (h_data h) < 2 ^ 64" by (rule less_trans [OF assms(4)]) simp
  ultimately have lt: "(seq - 1) * unat n_embd < 2 ^ 64" by (rule le_less_trans)
  have e: "i32_as_usize n_embd = unat n_embd" using assms(3) by (simp add: i32_as_usize_pos i32_pos_def)
  have w: "wrap64 ((seq - 1) * unat n_embd) = (seq - 1) * unat n_embd" "wrap64 (length (h_data h)) = length (h_data h)"
    unfolding wrap64_def using lt lt2 by (simp_all only: mod_less)
  show "rust_slice (h_data h) (wrap64 ((seq - 1) * i32_as_usize n_embd))
      (wrap64 (wrap64 ((seq - 1) * i32_as_usize n_embd) + i32_as_usize n_embd)) =
        Inr (drop ((seq - 1) * unat n_embd) (h_data h))"
    unfolding e w(1) step w(2) using step by (simp add: rust_slice_def subslice_def)
  have "length (drop ((seq - 1) * unat n_embd) (h_data h)) = 1 * unat n_embd" using step by simp
  then show "embd_batch (drop ((seq - 1) * unat n_embd) (h_data h)) 1 n_embd pos sid lo \<noteq> Inl Panic"
    using embd_batch_ok [OF _ _ assms(3), of 1 "drop ((seq - 1) * unat n_embd) (h_data h)" pos sid lo] by auto
qed

lemma token_batch_no_panic:
  assumes "ids_to_i32 ids n_ctx = Inr ids'" "i32_pos n_ctx"
  shows "token_batch ids' pos sid lo \<noteq> Inl Panic"
proof -
  have "0 < length ids'" "length ids' < 2 ^ 31"
    using assms by (auto simp: ids_to_i32_def Let_def i32_pos_def i32_as_usize_def split: if_splits)
  then show ?thesis using i32_pos_of_nat by (simp add: token_batch_def Let_def)
qed

lemma pull_after_check:
  assumes "check_hidden h n_embd n_ctx = Inr seq" "i32_pos n_ctx" "i32_pos n" "unat n_ctx * unat n < 2 ^ 61"
  shows "no_panic (pull_rows get seq (i32_as_usize n))"
  using check_hidden_ok [OF assms(1)] assms(2) no_panic_pull [OF _ assms(3,4)]
  by (auto simp: i32_as_usize_def i32_pos_def)

lemma pull_after_ids:
  assumes "ids_to_i32 ids n_ctx = Inr ids'" "i32_pos n_ctx" "i32_pos n" "unat n_ctx * unat n < 2 ^ 61"
  shows "no_panic (pull_rows get (length ids') (i32_as_usize n))"
proof -
  have "length ids' \<le> unat n_ctx"
    using assms(1,2) by (auto simp: ids_to_i32_def Let_def i32_pos_def i32_as_usize_def split: if_splits)
  then show ?thesis by (rule no_panic_pull [OF _ assms(3,4)])
qed

lemma ids_no_panic: "ids_to_i32 ids n \<noteq> Inl Panic"
  by (simp add: ids_to_i32_def Let_def)

lemmas backend_panics = no_panic_value no_panic_sbind no_panic_slift no_panic_calls
  check_hidden_no_panic ids_no_panic mk_hidden_no_panic

text \<open>The operations a peer's message or the driver's turn reaches.\<close>

definition backend_safe :: "'c llama \<Rightarrow> 'c ggml_backend \<Rightarrow> hidden \<Rightarrow> u32 list \<Rightarrow> nat \<Rightarrow> nat \<Rightarrow> nat \<Rightarrow> bool" where
  "backend_safe L B h ids i s e \<longleftrightarrow>
     fst (be_forward_range L h i s e B) \<noteq> Inl Panic \<and> fst (be_head L h B) \<noteq> Inl Panic \<and>
     fst (be_head_all L h B) \<noteq> Inl Panic \<and> fst (be_embed L ids B) \<noteq> Inl Panic \<and>
     fst (be_forward L ids i B) \<noteq> Inl Panic \<and> fst (be_truncate L i B) \<noteq> Inl Panic"

text \<open>
  C18. Whatever arrives over the wire, the adapter does not abort the process: for a model with a
  positive context, embedding and vocabulary size whose rows fit a vector, and a payload below
  \<open>2 ^ 32\<close> values, no assertion of the batch wrappers, no slice and no allocation fails, in any of the
  operations a peer or a driver calls, with any shape, token list and layer range.
\<close>

theorem backend_never_panics:
  assumes "i32_pos (be_n_ctx B)" "i32_pos (be_n_embd B)" "length (h_data h) < 2 ^ 32" "i32_pos (be_n_vocab B)"
    and "unat (be_n_ctx B) * unat (be_n_embd B) < 2 ^ 61" "unat (be_n_ctx B) * unat (be_n_vocab B) < 2 ^ 61"
  shows "backend_safe L B h ids i s e"
  unfolding backend_safe_def
proof (intro conjI)
  note ok = hidden_slices_ok [OF _ assms(1-3)]
  note rows = pull_after_check [OF _ assms(1,2,5)] pull_after_check [OF _ assms(1,4,6)] pull_after_ids [OF _ assms(1,2,5)]
  have fst: "no_panic m \<Longrightarrow> fst (on_ctx m B) \<noteq> Inl Panic" for m :: "('a, backend_error fault, 'b) st"
    by (simp add: on_ctx_fst no_panic_def)
  show "fst (be_forward_range L h i s e B) \<noteq> Inl Panic"
    unfolding be_forward_range_def by (rule fst) (intro backend_panics ok(1) rows; assumption)
  show "fst (be_head_all L h B) \<noteq> Inl Panic"
    unfolding be_head_all_def by (rule fst) (intro backend_panics ok(1) rows; assumption)
  show "fst (be_embed L ids B) \<noteq> Inl Panic"
    unfolding be_embed_def by (rule fst) (intro backend_panics token_batch_no_panic [OF _ assms(1)] rows; assumption)
  show "fst (be_forward L ids i B) \<noteq> Inl Panic"
    unfolding be_forward_def by (rule fst) (intro backend_panics token_batch_no_panic [OF _ assms(1)]; assumption)
  show "fst (be_truncate L i B) \<noteq> Inl Panic"
    unfolding be_truncate_def by (simp add: on_ctx_fst kv_seq_rm_def split_beta)
  show "fst (be_head L h B) \<noteq> Inl Panic"
    unfolding be_head_def Let_def
  proof (rule fst, rule no_panic_value [OF check_hidden_no_panic], unfold ok(2) sbind_slift_Inr)
    fix seq assume c: "check_hidden h (be_n_embd B) (be_n_ctx B) = Inr seq"
    show "no_panic (sbind (slift (embd_batch (drop ((seq - 1) * unat (be_n_embd B)) (h_data h)) 1 (be_n_embd B) 0 HEAD_SCRATCH_SEQ True)) (\<lambda>b.
        sbind (ctx_call ''llama_head_only'' (ll_head_only L b)) (\<lambda>_.
        sbind (get_row (ll_logits L) 0 (i32_as_usize (be_n_vocab B))) (\<lambda>row.
        sbind (ignoring (kv_seq_rm L HEAD_SCRATCH_SEQ (- 1) (- 1))) (\<lambda>_.
          slift (mk_hidden row [1, i32_as_usize (be_n_vocab B)]))))))"
      by (intro backend_panics ok(3) [OF c])
  qed
qed

text \<open>A context without a cache that answers every call with rows of zeros.\<close>

definition zero_llama :: "unit llama" where
  "zero_llama = \<lparr>ll_embed_only = (\<lambda>_ c. (0, c)), ll_decode_layers = (\<lambda>_ _ _ _ c. (0, c)), ll_head_only = (\<lambda>_ c. (0, c)),
     ll_logits = (\<lambda>_ n _. Some (replicate n 0)), ll_embeddings = (\<lambda>_ n _. Some (replicate n 0)),
     ll_memory = (\<lambda>_. False), ll_seq_rm = (\<lambda>_ _ _ c. (True, c))\<rparr>"

definition small_backend :: "unit ggml_backend" where
  "small_backend = \<lparr>be_ctx = (), be_n_embd = 2, be_n_layer = 3, be_n_vocab = 5, be_n_ctx = 8\<rparr>"

lemma backend_never_panics_witness:
  "backend_safe zero_llama small_backend \<lparr>h_data = [1, 2, 3, 4], h_shape = [1, 2, 2]\<rparr> [7, 8] 4294967295 0 3"
  by (rule backend_never_panics) (simp_all add: small_backend_def i32_pos_def)

section \<open>Streaming text\<close>

text \<open>Each decode of one more token is the previous text and some whole characters.\<close>

fun grows :: "tok_lib \<Rightarrow> u32 list \<Rightarrow> string \<Rightarrow> u32 list \<Rightarrow> bool" where
  "grows L ids s [] \<longleftrightarrow> True"
| "grows L ids s (t # ts) \<longleftrightarrow>
     (case tl_decode L (ids @ [t]) of
        Inl _ \<Rightarrow> False
      | Inr s' \<Rightarrow> take (length s) s' = s \<and> length s \<le> length s' \<and> is_char_boundary s' (length s) \<and> grows L (ids @ [t]) s' ts)"

lemma push_grows:
  assumes "tl_decode L (ids @ [t]) = Inr s'" "take (length s) s' = s" "length s \<le> length s'" "is_char_boundary s' (length s)"
  shows "\<exists>r. decoder_push L t \<lparr>ic_ids = ids, ic_emitted = length s\<rparr> = (Inr r, \<lparr>ic_ids = ids @ [t], ic_emitted = length s'\<rparr>) \<and>
    s @ (case r of None \<Rightarrow> [] | Some x \<Rightarrow> x) = s'"
proof (cases "length s' \<le> length s")
  case True
  then have "length s' = length s" "s' = s" using assms(2,3) by auto
  then show ?thesis using assms(1) by (simp add: decoder_push_def)
next
  case False
  have "s @ drop (length s) s' = s'" using append_take_drop_id [of "length s" s'] assms(2) by simp
  then show ?thesis using False assms by (simp add: decoder_push_def Let_def str_from_def)
qed

lemma push_all_grows:
  assumes "grows L ids s ts" "ts = [] \<longrightarrow> tl_decode L ids = Inr s"
  shows "\<exists>r d. push_all L ts \<lparr>ic_ids = ids, ic_emitted = length s\<rparr> = (Inr r, d) \<and> tl_decode L (ids @ ts) = Inr (s @ r)"
  using assms
proof (induction ts arbitrary: ids s)
  case Nil
  then show ?case by (simp add: slift_def)
next
  case (Cons t ts)
  from Cons.prems(1) obtain s' where s: "tl_decode L (ids @ [t]) = Inr s'" "take (length s) s' = s"
    "length s \<le> length s'" "is_char_boundary s' (length s)" and g: "grows L (ids @ [t]) s' ts"
    by (auto split: sum.splits)
  obtain r where r: "decoder_push L t \<lparr>ic_ids = ids, ic_emitted = length s\<rparr> = (Inr r, \<lparr>ic_ids = ids @ [t], ic_emitted = length s'\<rparr>)"
    "s @ (case r of None \<Rightarrow> [] | Some x \<Rightarrow> x) = s'"
    using push_grows [OF s] by blast
  obtain rs d where "push_all L ts \<lparr>ic_ids = ids @ [t], ic_emitted = length s'\<rparr> = (Inr rs, d)"
    "tl_decode L ((ids @ [t]) @ ts) = Inr (s' @ rs)"
    using Cons.IH [OF g] s(1) by blast
  then show ?case using r by (auto simp: sbind_app slift_def)
qed

text \<open>
  The incremental decoder loses and repeats nothing as long as every token completes its
  characters: when each decode is the previous text and some whole characters, the pieces it returns
  are, concatenated, the decoded text of all the tokens.
\<close>

theorem decoder_streams_text:
  assumes "tl_decode L [] = Inr []" "grows L [] [] ts"
  shows "\<exists>s d. push_all L ts incremental_new = (Inr s, d) \<and> tl_decode L ts = Inr s"
  using push_all_grows [of L "[]" "[]" ts] assms by (simp add: incremental_new_def)

text \<open>A vocabulary of bytes: token \<open>n\<close> is one byte; the text decodes when it is ASCII.\<close>

definition ascii_lib :: tok_lib where
  "ascii_lib = \<lparr>tl_encode = (\<lambda>s. Inr (map (\<lambda>c. word_of_nat (code c)) s)), tl_decode = (\<lambda>ids. Inr (map (\<lambda>i. char_of (unat i)) ids)),
     tl_token_to_id = (\<lambda>_. None)\<rparr>"

lemma decoder_streams_text_witness:
  "\<exists>d. push_all ascii_lib [72, 105, 33] incremental_new = (Inr ''Hi!'', d)"
proof -
  have "grows ascii_lib [] [] [72, 105, 33]"
    by (simp add: ascii_lib_def is_char_boundary_def starts_char_def code_def)
  moreover have "tl_decode ascii_lib [72, 105, 33] = Inr ''Hi!''"
    by (simp add: ascii_lib_def char_of_def bit_Suc_0_iff)
  moreover have "tl_decode ascii_lib [] = Inr []" by (simp add: ascii_lib_def)
  ultimately show ?thesis using decoder_streams_text [of ascii_lib "[72, 105, 33]"] by auto
qed

definition REPLACEMENT :: string where
  "REPLACEMENT = [CHR 0xEF, CHR 0xBF, CHR 0xBD]"

text \<open>
  A character that two tokens make up breaks the stream: the decoder has already sent the
  replacement character for its first half, of three bytes; when the character is complete, a
  four-byte one is cut inside, which is a panic, and a shorter one is never sent.
\<close>

theorem decoder_split_char:
  assumes "tl_decode L (ids @ [a]) = Inr (s @ REPLACEMENT)" "tl_decode L (ids @ [a, b]) = Inr (s @ c)"
    and "2 \<le> length c" "length c \<le> 4" "list_all (\<lambda>x. \<not> starts_char x) (tl c)"
    and "is_char_boundary (s @ REPLACEMENT) (length s)"
  shows "\<exists>d. decoder_push L a \<lparr>ic_ids = ids, ic_emitted = length s\<rparr> = (Inr (Some REPLACEMENT), d) \<and>
    fst (decoder_push L b d) = (if length c = 4 then Inl Panic else Inr None)"
proof -
  have p: "decoder_push L a \<lparr>ic_ids = ids, ic_emitted = length s\<rparr> =
      (Inr (Some REPLACEMENT), \<lparr>ic_ids = ids @ [a], ic_emitted = length s + 3\<rparr>)"
    using assms(1,6) by (simp add: decoder_push_def Let_def str_from_def REPLACEMENT_def)
  have "\<not> is_char_boundary (s @ c) (length s + 3)" if "length c = 4"
  proof -
    have "c ! 3 = tl c ! 2" "2 < length (tl c)" using that by (cases c; simp add: numeral_3_eq_3 numeral_2_eq_2)+
    then have "\<not> starts_char (c ! 3)" using assms(5) by (simp add: list_all_length)
    then show ?thesis using that by (simp add: is_char_boundary_def nth_append)
  qed
  then have "fst (decoder_push L b \<lparr>ic_ids = ids @ [a], ic_emitted = length s + 3\<rparr>) = (if length c = 4 then Inl Panic else Inr None)"
    using assms(2-4) by (simp add: decoder_push_def Let_def str_from_def)
  then show ?thesis using p by blast
qed

text \<open>Two tokens for the two halves of the four bytes F0 9F 98 80, U+1F600.\<close>

definition emoji_lib :: tok_lib where
  "emoji_lib = \<lparr>tl_encode = (\<lambda>_. Inr []), tl_decode = (\<lambda>ids. Inr (if ids = [1] then REPLACEMENT
     else if ids = [1, 2] then [CHR 0xF0, CHR 0x9F, CHR 0x98, CHR 0x80] else [])), tl_token_to_id = (\<lambda>_. None)\<rparr>"

lemma decoder_split_char_witness:
  "\<exists>d. decoder_push emoji_lib 1 incremental_new = (Inr (Some REPLACEMENT), d) \<and> fst (decoder_push emoji_lib 2 d) = Inl Panic"
  using decoder_split_char [of emoji_lib "[]" 1 "[]" 2 "[CHR 0xF0, CHR 0x9F, CHR 0x98, CHR 0x80]"]
  by (simp add: emoji_lib_def incremental_new_def is_char_boundary_def starts_char_def code_def)

end
