(* ===== verification/Chain_Driver.thy ===== *)
theory Chain_Driver
  imports Dht Spec Backend
begin

text \<open>
  The chat client's chain driver, \<open>crates/app/src/chain_driver.rs\<close>, and its latency probe,
  \<open>crates/app/src/probe_latency.rs\<close>: building a chain target from the configuration or from the
  discovered providers, failing over to alternates while connecting, and one whole turn. The parser of
  socket addresses is \<open>pa\<close>; it gives the canonical text of the address, or nothing. The deltas are what
  the turn sends to the user interface.
\<close>

section \<open>Targets\<close>

record chain_target =
  ct_peers :: "string list"
  ct_splits :: "u16 list"
  ct_alternates :: "string list list"

datatype target_error =
    NoPeersConfigured
  | PeersSplitsLength nat nat
  | BadPeer nat string
  | NoRanges
  | NoForwardUrl u16 u16
  | NoReachable u16 u16

definition MAX_CANDIDATES_PER_HOP :: nat where "MAX_CANDIDATES_PER_HOP = 3"

definition MAX_FAILOVER_ATTEMPTS :: nat where "MAX_FAILOVER_ATTEMPTS = 4"

type_synonym parse_addr = "string \<Rightarrow> string option"

definition from_config :: "parse_addr \<Rightarrow> string list \<Rightarrow> u16 list \<Rightarrow> target_error + chain_target" where
  "from_config pa peers splits =
     (if peers = [] then Inl NoPeersConfigured
      else if length peers \<noteq> length splits then Inl (PeersSplitsLength (length peers) (length splits))
      else rbind (mapM (\<lambda>(i, p). ok_or (BadPeer i p) (pa p)) (enumerate 0 peers)) (\<lambda>parsed.
             Inr \<lparr>ct_peers = parsed, ct_splits = splits, ct_alternates = replicate (length parsed) []\<rparr>))"

text \<open>\<open>Vec::dedup\<close> drops consecutive repetitions only.\<close>

fun dedup :: "'a list \<Rightarrow> 'a list" where
  "dedup (x # y # xs) = (if x = y then dedup (y # xs) else x # dedup (y # xs))"
| "dedup xs = xs"

definition candidates :: "parse_addr \<Rightarrow> provider_record list \<Rightarrow> (u64 \<times> string) list" where
  "candidates pa ps =
     List.map_filter (\<lambda>p. case pr_forward_url p of None \<Rightarrow> None
        | Some u \<Rightarrow> map_option (\<lambda>a. (pr_minted_at p, a)) (pa u)) ps"

text \<open>Stable sort, newest first.\<close>

definition by_freshness :: "(u64 \<times> string) list \<Rightarrow> (u64 \<times> string) list" where
  "by_freshness cs = sort_key (\<lambda>(minted, _). - int (unat minted)) cs"

definition hop_sockets :: "string list \<Rightarrow> string list" where
  "hop_sockets ranked = dedup (take MAX_CANDIDATES_PER_HOP ranked)"

text \<open>One range: its error when no candidate is left, else its primary and alternates.\<close>

definition pick_hop :: "target_error \<Rightarrow> string list \<Rightarrow> target_error + string \<times> string list" where
  "pick_hop e ranked = (case hop_sockets ranked of [] \<Rightarrow> Inl e | primary # alts \<Rightarrow> Inr (primary, alts))"

definition assemble :: "(u16 \<times> u16 \<times> string \<times> string list) list \<Rightarrow> chain_target" where
  "assemble hops =
     \<lparr>ct_peers = map (\<lambda>(_, _, p, _). p) hops, ct_splits = map (\<lambda>(s, _, _, _). s) hops,
      ct_alternates = map (\<lambda>(_, _, _, a). a) hops\<rparr>"

definition from_swarm :: "parse_addr \<Rightarrow> (u16 \<times> u16 \<times> provider_record list) list \<Rightarrow> target_error + chain_target" where
  "from_swarm pa ranges =
     (if ranges = [] then Inl NoRanges
      else rbind (mapM (\<lambda>(s, e, ps).
             rbind (pick_hop (NoForwardUrl s e) (map snd (by_freshness (candidates pa ps)))) (\<lambda>(p, alts). Inr (s, e, p, alts)))
             ranges) (\<lambda>hops. Inr (assemble hops)))"

definition failover :: "nat \<Rightarrow> chain_target \<Rightarrow> bool \<times> chain_target" where
  "failover i t =
     (if length (ct_alternates t) \<le> i then (False, t)
      else case ct_alternates t ! i of
        [] \<Rightarrow> (False, t)
      | next # alts \<Rightarrow>
          let t' = t\<lparr>ct_alternates := (ct_alternates t)[i := alts]\<rparr>
          in if i < length (ct_peers t) then (True, t'\<lparr>ct_peers := (ct_peers t)[i := next]\<rparr>) else (False, t'))"

definition has_alternates :: "chain_target \<Rightarrow> bool" where
  "has_alternates t \<longleftrightarrow> list_ex (\<lambda>a. a \<noteq> []) (ct_alternates t)"

section \<open>Latency probes\<close>

text \<open>Times are in microseconds.\<close>

record probe_result =
  pb_rtt :: "nat option"
  pb_measured_at :: nat

definition CACHE_TTL :: nat where "CACHE_TTL = 60000000"
definition PROBE_TIMEOUT :: nat where "PROBE_TIMEOUT = 800000"

definition score :: "probe_result \<Rightarrow> u64" where
  "score r = (case pb_rtt r of Some d \<Rightarrow> word_of_nat d | None \<Rightarrow> - 1)"

type_synonym probe_cache = "(string \<times> probe_result) list"

definition cache_get :: "nat \<Rightarrow> probe_cache \<Rightarrow> string \<Rightarrow> probe_result option" where
  "cache_get now c addr =
     (case map_of c addr of None \<Rightarrow> None | Some r \<Rightarrow> if now - pb_measured_at r < CACHE_TTL then Some r else None)"

definition cache_put :: "string \<Rightarrow> probe_result \<Rightarrow> probe_cache \<Rightarrow> probe_cache" where
  "cache_put addr r c = AList.update addr r c"

text \<open>
  \<open>net addr\<close> is how long the TCP handshake takes, or nothing when it fails; a handshake longer than
  the timeout is cut off. \<open>now\<close> is read when the probe starts.
\<close>

definition probe :: "(string \<Rightarrow> nat option) \<Rightarrow> nat \<Rightarrow> string \<Rightarrow> probe_cache \<Rightarrow> probe_result \<times> probe_cache" where
  "probe net now addr c =
     (case cache_get now c addr of
        Some r \<Rightarrow> (r, c)
      | None \<Rightarrow>
          let r = (case net addr of
                Some d \<Rightarrow> if d < PROBE_TIMEOUT then \<lparr>pb_rtt = Some d, pb_measured_at = now + d\<rparr>
                          else \<lparr>pb_rtt = None, pb_measured_at = now + PROBE_TIMEOUT\<rparr>
              | None \<Rightarrow> \<lparr>pb_rtt = None, pb_measured_at = now\<rparr>)
          in (r, cache_put addr r c))"

text \<open>
  The probes of a range run concurrently; the handshake time being a function of the address, the
  results and the cache are those of one probe after the other.
\<close>

fun probe_many :: "(string \<Rightarrow> nat option) \<Rightarrow> nat \<Rightarrow> string list \<Rightarrow> probe_cache \<Rightarrow> probe_result list \<times> probe_cache" where
  "probe_many net now [] c = ([], c)"
| "probe_many net now (a # as) c =
     (let (r, c1) = probe net now a c; (rs, c2) = probe_many net now as c1 in (r # rs, c2))"

definition by_latency :: "string list \<Rightarrow> probe_result list \<Rightarrow> string list" where
  "by_latency addrs probes =
     map snd (sort_key fst (map (\<lambda>(a, r). (score r, a)) (filter (\<lambda>(_, r). pb_rtt r \<noteq> None) (zip addrs probes))))"

text \<open>\<open>clock i\<close> is the time when the probes of range \<open>i\<close> start.\<close>

fun probe_hops :: "parse_addr \<Rightarrow> (string \<Rightarrow> nat option) \<Rightarrow> (nat \<Rightarrow> nat) \<Rightarrow> nat \<Rightarrow> (u16 \<times> u16 \<times> provider_record list) list \<Rightarrow>
    probe_cache \<Rightarrow> (target_error + (u16 \<times> u16 \<times> string \<times> string list) list) \<times> probe_cache" where
  "probe_hops pa net clock i [] c = (Inr [], c)"
| "probe_hops pa net clock i ((s, e, ps) # rs) c =
     (let addrs = map snd (by_freshness (candidates pa ps));
          (probes, c1) = probe_many net (clock i) addrs c
      in case pick_hop (NoReachable s e) (by_latency addrs probes) of
           Inl err \<Rightarrow> (Inl err, c1)
         | Inr (p, alts) \<Rightarrow>
             let (r, c2) = probe_hops pa net clock (i + 1) rs c1
             in (rbind r (\<lambda>hops. Inr ((s, e, p, alts) # hops)), c2))"

definition from_swarm_with_probe :: "parse_addr \<Rightarrow> (string \<Rightarrow> nat option) \<Rightarrow> (nat \<Rightarrow> nat) \<Rightarrow>
    (u16 \<times> u16 \<times> provider_record list) list \<Rightarrow> probe_cache \<Rightarrow> (target_error + chain_target) \<times> probe_cache" where
  "from_swarm_with_probe pa net clock ranges c =
     (if ranges = [] then (Inl NoRanges, c)
      else let (r, c') = probe_hops pa net clock 0 ranges c in (rbind r (\<lambda>hops. Inr (assemble hops)), c'))"

section \<open>Connecting\<close>

datatype delta = DToken string | DDone | DError

definition parse_wire_dtype :: "string \<Rightarrow> dtype \<times> string" where
  "parse_wire_dtype s =
     (let t = map ascii_lower (trim s)
      in if t = ''int8'' \<or> t = ''i8'' then (Int8, ''int8'') else (Fp16, ''fp16''))"

definition failed_index :: "chain_error \<Rightarrow> nat option" where
  "failed_index e =
     (case e of ConnectErr i _ _ \<Rightarrow> Some i | TimeoutErr i _ \<Rightarrow> Some i | HandshakeErr i _ _ \<Rightarrow> Some i
      | AbortedErr i _ _ \<Rightarrow> Some i | DroppedErr i _ _ \<Rightarrow> Some i | OtherErr _ \<Rightarrow> None)"

definition target_cfg :: "chain_target \<Rightarrow> string \<Rightarrow> dtype \<Rightarrow> chain_cfg" where
  "target_cfg t model_name dt =
     \<lparr>cc_peers = ct_peers t, cc_splits = ct_splits t, cc_proto_ver = 1, cc_model_cid = model_name,
      cc_max_seq = 2048, cc_wire_dtype = dt\<rparr>"

definition swap_note :: "nat \<Rightarrow> string" where
  "swap_note i = ''[swarm] hop '' @ dec_digits i @ '' unreachable, swapping to backup'' @ newline"

text \<open>
  The connect loop after \<open>attempts\<close> failures; \<open>sids a\<close> gives the random session identifiers of
  attempt \<open>a\<close>. Besides the chain or the last error it returns the target as it is left and the
  notes sent to the user.
\<close>

function connect_loop :: "(nat \<Rightarrow> nat \<Rightarrow> bytes) \<Rightarrow> 'w chain_env \<Rightarrow> string \<Rightarrow> u16 \<Rightarrow> dtype \<Rightarrow> nat \<Rightarrow> chain_target \<Rightarrow> 'w \<Rightarrow>
    (chain_error fault + chain) \<times> chain_target \<times> delta list \<times> 'w" where
  "connect_loop sids E name n_blocks dt attempts t w =
     (case chain_connect (E\<lparr>ce_sids := sids attempts\<rparr>) (target_cfg t name dt) n_blocks w of
        (Inr c, w') \<Rightarrow> (Inr c, t, [], w')
      | (Inl Panic, w') \<Rightarrow> (Inl Panic, t, [], w')
      | (Inl (Fail e), w') \<Rightarrow>
          (case failed_index e of
             None \<Rightarrow> (Inl (Fail e), t, [], w')
           | Some i \<Rightarrow>
               if MAX_FAILOVER_ATTEMPTS < attempts + 1 then (Inl (Fail e), t, [], w')
               else let (ok, t') = failover i t
                    in if \<not> ok then (Inl (Fail e), t', [], w')
                       else let (r, t'', notes, w'') = connect_loop sids E name n_blocks dt (attempts + 1) t' w'
                            in (r, t'', DToken (swap_note i) # notes, w'')))"
  by pat_completeness auto
termination by (relation "measure (\<lambda>(_, _, _, _, _, attempts, _, _). MAX_FAILOVER_ATTEMPTS + 1 - attempts)") auto

declare connect_loop.simps [simp del]

definition connect_with_failover :: "(nat \<Rightarrow> nat \<Rightarrow> bytes) \<Rightarrow> 'w chain_env \<Rightarrow> string \<Rightarrow> u16 \<Rightarrow> dtype \<Rightarrow> chain_target \<Rightarrow> 'w \<Rightarrow>
    (chain_error fault + chain) \<times> chain_target \<times> delta list \<times> 'w" where
  "connect_with_failover sids E name n_blocks dt t w = connect_loop sids E name n_blocks dt 0 t w"

section \<open>The driver\<close>

record 'm loaded =
  ld_path :: path
  ld_handle :: 'm
  ld_tok :: tok_lib
  ld_kind :: model_kind

record local_model =
  lm_name :: string
  lm_path :: path
  lm_tokenizer :: "path option"
  lm_size_bytes :: u64
  lm_arch :: "model_kind option"

record draft_target =
  dt_path :: path
  dt_k :: nat

record 'm chain_driver =
  cd_inner :: "'m loaded option"
  cd_target :: "chain_target option"
  cd_draft :: "draft_target option"
  cd_draft_slot :: "(path \<times> 'm) option"
  cd_wire_dtype :: dtype

definition chain_driver_new :: "'m chain_driver" where
  "chain_driver_new = \<lparr>cd_inner = None, cd_target = None, cd_draft = None, cd_draft_slot = None, cd_wire_dtype = Fp16\<rparr>"

definition set_wire_dtype :: "dtype \<Rightarrow> 'm chain_driver \<Rightarrow> 'm chain_driver" where
  "set_wire_dtype dt D = D\<lparr>cd_wire_dtype := dt\<rparr>"

definition set_target :: "chain_target option \<Rightarrow> 'm chain_driver \<Rightarrow> 'm chain_driver" where
  "set_target t D = D\<lparr>cd_target := t\<rparr>"

definition set_draft :: "draft_target option \<Rightarrow> 'm chain_driver \<Rightarrow> 'm chain_driver" where
  "set_draft d D = D\<lparr>cd_draft_slot := None, cd_draft := d\<rparr>"

text \<open>
  What a driver calls: loading a model file and a tokenizer, the model's operations, the arithmetic of
  the sampler, the network, and the end of the token channel (\<open>dn_send\<close> gives the error when the
  receiver is gone).
\<close>

record ('m, 'w, 'r) driver_env =
  dn_load :: "path \<Rightarrow> string + 'm"
  dn_tok :: "path \<Rightarrow> string + tok_lib"
  dn_blocks :: "'m \<Rightarrow> nat"
  dn_ops :: "'m pipe_ops"
  dn_arith :: "'r sampler_arith"
  dn_net :: "'w chain_env"
  dn_sids :: "nat \<Rightarrow> nat \<Rightarrow> bytes"
  dn_send :: "string \<Rightarrow> string option"

datatype driver_error =
    NoChainConfigured
  | NoTokenizer path
  | LoadFailed path string
  | TokLoadFailed path string
  | DraftLoadFailed path string
  | DraftUnloaded
  | ConnectFailed chain_error
  | TurnFailed turn_error

text \<open>\<open>ensure\<close>, which the chain driver and the local driver share: load unless that path is loaded.\<close>

definition ensure_loaded :: "('m, 'w, 'r) driver_env \<Rightarrow> local_model \<Rightarrow> 'm loaded option \<Rightarrow> driver_error + 'm loaded" where
  "ensure_loaded N m slot =
     (let load = rbind (ok_or (NoTokenizer (lm_path m)) (lm_tokenizer m)) (\<lambda>tp.
            rbind (map_err (LoadFailed (lm_path m)) (dn_load N (lm_path m))) (\<lambda>h.
            rbind (map_err (TokLoadFailed tp) (dn_tok N tp)) (\<lambda>t.
              Inr \<lparr>ld_path = lm_path m, ld_handle = h, ld_tok = t, ld_kind = Ggml\<rparr>)))
      in case slot of Some l \<Rightarrow> if ld_path l = lm_path m then Inr l else load | None \<Rightarrow> load)"

definition ensure_draft :: "('m, 'w, 'r) driver_env \<Rightarrow> draft_target \<Rightarrow> (path \<times> 'm) option \<Rightarrow> driver_error + path \<times> 'm" where
  "ensure_draft N dc slot =
     (let load = rbind (map_err (DraftLoadFailed (dt_path dc)) (dn_load N (dt_path dc))) (\<lambda>h. Inr (dt_path dc, h))
      in case slot of Some (p, h) \<Rightarrow> if p = dt_path dc then Inr (p, h) else load | None \<Rightarrow> load)"

text \<open>Speculative decoding is greedy and without a repeat penalty, whatever the caller asks for.\<close>

definition spec_cfg_of :: "sampling_cfg \<Rightarrow> sampling_cfg" where
  "spec_cfg_of cfg = cfg\<lparr>sg_temperature := 0, sg_top_p := None, sg_repeat_penalty := F32_ONE\<rparr>"

text \<open>
  The turn on an open chain. The target model's handle is left as the turn leaves it; the draft comes
  back into its slot only when the turn succeeded. The tokens of the reply are the decoder's pieces.
\<close>

definition turn_on_chain :: "('m, 'w, 'r) driver_env \<Rightarrow> 'm loaded \<Rightarrow> (path \<times> 'm) option \<Rightarrow> nat option \<Rightarrow> sampling_cfg \<Rightarrow> 'r \<Rightarrow>
    string \<Rightarrow> chain \<Rightarrow> 'w \<Rightarrow> (driver_error fault + u32 list) \<times> 'm \<times> (path \<times> 'm) option \<times> chain \<times> 'w" where
  "turn_on_chain N l draft k cfg rng prompt c w =
     (let plen = (case tl_encode (ld_tok l) prompt of Inr ts \<Rightarrow> length ts | Inl _ \<Rightarrow> 0);
          T = turn_tok (ld_tok l) (dn_send N) plen;
          d = \<lparr>dv_model = ld_handle l, dv_chain = c, dv_net = w, dv_sampler = sampler_new cfg rng\<rparr>;
          fail = map_err (\<lambda>f. case f of Fail e \<Rightarrow> Fail (TurnFailed e) | Panic \<Rightarrow> Panic)
      in case k of
           None \<Rightarrow> (case run_turn (dn_ops N) (dn_net N) (dn_arith N) T cfg rng prompt d of (r, d') \<Rightarrow>
             (fail r, dv_model d', draft, dv_chain d', dv_net d'))
         | Some k \<Rightarrow> (case draft of
               None \<Rightarrow> (Inl (Fail DraftUnloaded), ld_handle l, None, c, w)
             | Some (p, h) \<Rightarrow>
                 (case run_turn_spec (dn_ops N) (dn_net N) (dn_ops N) T (spec_cfg_of cfg) k prompt (d, h) of (r, d', h') \<Rightarrow>
                   (fail r, dv_model d', (case r of Inr _ \<Rightarrow> Some (p, h') | Inl _ \<Rightarrow> None), dv_chain d', dv_net d'))))"

text \<open>
  One turn. The deltas are those sent before the reply's text, the result is the tokens of the reply.
  The swapped target replaces the driver's own once the chain is open.
\<close>

definition connect_and_run :: "('m, 'w, 'r) driver_env \<Rightarrow> local_model \<Rightarrow> 'm loaded \<Rightarrow> chain_target \<Rightarrow> string \<Rightarrow> sampling_cfg \<Rightarrow> 'r \<Rightarrow>
    'm chain_driver \<Rightarrow> 'w \<Rightarrow> (driver_error fault + u32 list) \<times> delta list \<times> 'm chain_driver \<times> 'w" where
  "connect_and_run N m l target prompt cfg rng D w =
     (case connect_with_failover (dn_sids N) (dn_net N) (lm_name m) (word_of_nat (dn_blocks N (ld_handle l)))
         (cd_wire_dtype D) target w of
       (Inl f, t', notes, w1) \<Rightarrow>
         (Inl (case f of Fail e \<Rightarrow> Fail (ConnectFailed e) | Panic \<Rightarrow> Panic), notes, D, w1)
     | (Inr c, t', notes, w1) \<Rightarrow>
         (case turn_on_chain N l (cd_draft_slot D) (map_option dt_k (cd_draft D)) cfg rng prompt c w1 of
           (r, h', draft', c', w2) \<Rightarrow>
             (r, notes, D\<lparr>cd_target := Some t', cd_inner := Some (l\<lparr>ld_handle := h'\<rparr>), cd_draft_slot := draft'\<rparr>,
              case r of
                Inl (Fail DraftUnloaded) \<Rightarrow> w2
              | Inl Panic \<Rightarrow> w2
              | _ \<Rightarrow> chain_close (dn_net N) (if isl r then ''driver error'' else ''turn complete'') c' w2)))"

definition run_driver :: "('m, 'w, 'r) driver_env \<Rightarrow> local_model \<Rightarrow> chat_turn list \<Rightarrow> sampling_cfg \<Rightarrow> 'r \<Rightarrow> 'm chain_driver \<Rightarrow> 'w \<Rightarrow>
    (driver_error fault + u32 list) \<times> delta list \<times> 'm chain_driver \<times> 'w" where
  "run_driver N m msgs cfg rng D w =
     (case cd_target D of
        None \<Rightarrow> (Inl (Fail NoChainConfigured), [], D, w)
      | Some target \<Rightarrow>
     (case ensure_loaded N m (cd_inner D) of
        Inl e \<Rightarrow> (Inl (Fail e), [], D, w)
      | Inr l \<Rightarrow>
     (let D1 = D\<lparr>cd_inner := Some l\<rparr>; prompt = build_chat_prompt msgs
      in case cd_draft D of
           None \<Rightarrow> connect_and_run N m l target prompt cfg rng D1 w
         | Some dc \<Rightarrow> (case ensure_draft N dc (cd_draft_slot D) of
               Inl e \<Rightarrow> (Inl (Fail e), [], D1, w)
             | Inr slot \<Rightarrow> connect_and_run N m l target prompt cfg rng (D1\<lparr>cd_draft_slot := Some slot\<rparr>) w))))"

text \<open>What \<open>stream\<close> sends after the reply's text.\<close>

definition last_delta :: "driver_error fault + 'a \<Rightarrow> delta list" where
  "last_delta r = (case r of Inr _ \<Rightarrow> [DDone] | Inl (Fail _) \<Rightarrow> [DError] | Inl Panic \<Rightarrow> [])"

section \<open>Failing over\<close>

text \<open>A target has a list of alternates per hop; a hop's route is its peer and then its alternates.\<close>

definition wf_target :: "chain_target \<Rightarrow> bool" where
  "wf_target t \<longleftrightarrow> length (ct_alternates t) = length (ct_peers t)"

definition route :: "chain_target \<Rightarrow> nat \<Rightarrow> string list" where
  "route t i = ct_peers t ! i # ct_alternates t ! i"

definition backups :: "chain_target \<Rightarrow> nat" where
  "backups t = sum_list (map length (ct_alternates t))"

lemma failover_swap:
  assumes "wf_target t" "failover i t = (True, t')"
  shows "wf_target t'" "ct_splits t' = ct_splits t" "length (ct_peers t') = length (ct_peers t)"
    "backups t = backups t' + 1" "j < length (ct_peers t) \<Longrightarrow> route t j = (if j = i then [ct_peers t ! i] else []) @ route t' j"
proof -
  obtain a as where i: "i < length (ct_alternates t)" and as: "ct_alternates t ! i = a # as"
    and t': "t' = t\<lparr>ct_alternates := (ct_alternates t)[i := as], ct_peers := (ct_peers t)[i := a]\<rparr>"
    using assms by (auto simp: failover_def wf_target_def Let_def split: if_splits list.splits)
  show "wf_target t'" "ct_splits t' = ct_splits t" "length (ct_peers t') = length (ct_peers t)"
    using assms(1) by (simp_all add: t' wf_target_def)
  have "sum_list (map length ((ct_alternates t)[i := as])) + length (a # as) = backups t + length as"
    using sum_list_update [of i "map length (ct_alternates t)" "length as"] i as
      elem_le_sum_list [of i "map length (ct_alternates t)"]
    by (simp add: backups_def map_update)
  then show "backups t = backups t' + 1" by (simp add: backups_def t')
  show "route t j = (if j = i then [ct_peers t ! i] else []) @ route t' j" if "j < length (ct_peers t)"
    using that i as assms(1) by (simp add: route_def t' wf_target_def)
qed

lemma failover_none:
  assumes "wf_target t" "failover i t = (False, t')"
  shows "t' = t"
  using assms by (auto simp: failover_def wf_target_def Let_def split: if_splits list.splits)

text \<open>\<open>t\<close> after the swaps announced by \<open>notes\<close>.\<close>

definition swapped :: "chain_target \<Rightarrow> chain_target \<Rightarrow> delta list \<Rightarrow> bool" where
  "swapped t t' notes \<longleftrightarrow> wf_target t' \<and> ct_splits t' = ct_splits t \<and> length (ct_peers t') = length (ct_peers t) \<and>
     backups t = backups t' + length notes \<and>
     (\<forall>i < length (ct_peers t). \<exists>tried. route t i = tried @ route t' i)"

lemma swapped_refl: "wf_target t \<Longrightarrow> swapped t t []"
  by (simp add: swapped_def)

lemma swapped_step:
  assumes "wf_target t" "failover i t = (True, t1)" "swapped t1 t' notes"
  shows "swapped t t' (n # notes)"
proof -
  note f = failover_swap [OF assms(1,2)]
  have "\<exists>tried. route t j = tried @ route t' j" if j: "j < length (ct_peers t)" for j
  proof -
    obtain tried where "route t1 j = tried @ route t' j" using assms(3) j f(3) by (auto simp: swapped_def)
    then show ?thesis using f(5) [OF j] by (metis append.assoc)
  qed
  then show ?thesis using assms(3) f by (simp add: swapped_def)
qed

lemma connect_loop_ok:
  assumes "wf_target t" "connect_loop sids E name n dt a t w = (r, t', ns, w')" "a \<le> MAX_FAILOVER_ATTEMPTS"
  shows "swapped t t' ns \<and> length ns + a \<le> MAX_FAILOVER_ATTEMPTS \<and>
    (case r of Inr c \<Rightarrow> \<exists>a. connected_covers (E\<lparr>ce_sids := sids a\<rparr>) (target_cfg t' name dt) n c | Inl _ \<Rightarrow> True)"
  using assms
proof (induction "MAX_FAILOVER_ATTEMPTS - a" arbitrary: a t w ns rule: less_induct)
  case less
  obtain r1 w1 where c: "chain_connect (E\<lparr>ce_sids := sids a\<rparr>) (target_cfg t name dt) n w = (r1, w1)" by fastforce
  note run = less.prems(2) [unfolded connect_loop.simps [of _ _ _ _ _ a] c]
  show ?case
  proof (cases "\<exists>e i t1. r1 = Inl (Fail e) \<and> failed_index e = Some i \<and> a < MAX_FAILOVER_ATTEMPTS \<and> failover i t = (True, t1)")
    case False
    then have "t' = t \<and> ns = [] \<and> (r1 = r \<or> (\<exists>e. r = Inl e))"
      using run failover_none [OF less.prems(1)] by (auto simp: Let_def split: sum.splits fault.splits option.splits if_splits prod.splits)
    then show ?thesis using less.prems(1,3) c
      by (auto simp: swapped_refl intro: connect_covers split: sum.splits)
  next
    case True
    then obtain e i t1 where e: "r1 = Inl (Fail e)" "failed_index e = Some i" "a < MAX_FAILOVER_ATTEMPTS"
      and t1: "failover i t = (True, t1)" by blast
    obtain ns1 where l: "connect_loop sids E name n dt (a + 1) t1 w1 = (r, t', ns1, w')"
      and n: "ns = DToken (swap_note i) # ns1"
      using run e t1 by (auto simp: Let_def split: prod.splits)
    have "swapped t1 t' ns1 \<and> length ns1 + (a + 1) \<le> MAX_FAILOVER_ATTEMPTS \<and>
        (case r of Inr c \<Rightarrow> \<exists>a. connected_covers (E\<lparr>ce_sids := sids a\<rparr>) (target_cfg t' name dt) n c | Inl _ \<Rightarrow> True)"
      by (rule less.hyps [OF _ failover_swap(1) [OF less.prems(1) t1] l]) (use e(3) in auto)
    then show ?thesis using swapped_step [OF less.prems(1) t1] n by auto
  qed
qed

text \<open>
  C16. Failing over while connecting: at most four swaps, each announced once; every hop is left on its
  peer or on one of its own alternates, those tried before it are gone for good and the splits never
  change. When it ends with a chain, the chain covers the model over exactly the peers the target is
  left with.
\<close>

theorem failover_reaches_backups:
  assumes "wf_target t" "connect_with_failover sids E name n dt t w = (r, t', sent, w')"
  shows "length sent \<le> MAX_FAILOVER_ATTEMPTS \<and> wf_target t' \<and> ct_splits t' = ct_splits t \<and>
    length (ct_peers t') = length (ct_peers t) \<and> backups t = backups t' + length sent \<and>
    (\<forall>i < length (ct_peers t). \<exists>tried. route t i = tried @ route t' i) \<and>
    (case r of Inr c \<Rightarrow> \<exists>a. connected_covers (E\<lparr>ce_sids := sids a\<rparr>) (target_cfg t' name dt) n c | Inl _ \<Rightarrow> True)"
  using connect_loop_ok [OF assms(1) assms(2) [unfolded connect_with_failover_def]] by (simp add: swapped_def conj_ac)

definition two_peers :: chain_target where
  "two_peers = \<lparr>ct_peers = [''a''], ct_splits = [3], ct_alternates = [[''b'']]\<rparr>"

lemma queue_env_sids: "queue_env\<lparr>ce_sids := \<lambda>i. [word_of_nat i]\<rparr> = queue_env"
  by (simp add: queue_env_def)

lemma failover_reaches_backups_witness:
  "\<exists>c t' sent w'. connect_with_failover (\<lambda>_ i. [word_of_nat i]) queue_env ''m'' 8 Fp16 two_peers
      [Hello [] 2 [], Hello [] 1 [], SessionAck [0] []] = (Inr c, t', sent, w') \<and>
    map lk_addr (cn_links c) = [''b''] \<and> ct_peers t' = [''b''] \<and> length sent = 1"
proof -
  have s: "ce_sids queue_env 0 = [0]" by (simp add: queue_env_def)
  have c1: "chain_connect queue_env (target_cfg two_peers ''m'' Fp16) 8 [Hello [] 2 [], Hello [] 1 [], SessionAck [0] []] =
      (Inl (Fail (HandshakeErr 0 ''a'' (ProtoMismatch 1 2))), [Hello [] 1 [], SessionAck [0] []])"
    by (simp add: chain_connect_def check_cfg_def target_cfg_def two_peers_def open_link_def sbind_def slift_def
        queue_connect queue_write queue_read check_hello_def Let_def)
  let ?t = "two_peers\<lparr>ct_peers := [''b''], ct_alternates := [[]]\<rparr>"
  have fo: "failover 0 two_peers = (True, ?t)" by (simp add: failover_def two_peers_def)
  obtain c where c2: "chain_connect queue_env (target_cfg ?t ''m'' Fp16) 8 [Hello [] 1 [], SessionAck [0] []] = (Inr c, [])"
    by (simp add: chain_connect_def check_cfg_def target_cfg_def two_peers_def open_link_def sbind_def slift_def
        queue_connect queue_write queue_read check_hello_def check_ack_def s Let_def)
  have run: "connect_with_failover (\<lambda>_ i. [word_of_nat i]) queue_env ''m'' 8 Fp16 two_peers
      [Hello [] 2 [], Hello [] 1 [], SessionAck [0] []] = (Inr c, ?t, [DToken (swap_note 0)], [])"
    using c1 c2 fo
    by (simp add: connect_with_failover_def connect_loop.simps [of _ _ _ _ _ 0] connect_loop.simps [of _ _ _ _ _ "Suc 0"]
        queue_env_sids failed_index_def MAX_FAILOVER_ATTEMPTS_def)
  have "\<exists>a. connected_covers (queue_env\<lparr>ce_sids := \<lambda>i. [word_of_nat i]\<rparr>) (target_cfg ?t ''m'' Fp16) 8 c"
    using failover_reaches_backups [OF _ run] by (simp add: wf_target_def two_peers_def)
  then have "map lk_addr (cn_links c) = [''b'']" by (auto simp: connected_covers_def target_cfg_def)
  with run show ?thesis by auto
qed

section \<open>Targets from the swarm\<close>

definition ranked :: "parse_addr \<Rightarrow> provider_record list \<Rightarrow> string list" where
  "ranked pa ps = map snd (by_freshness (candidates pa ps))"

lemma in_candidates:
  "(n, a) \<in> set (candidates pa ps) \<longleftrightarrow> (\<exists>p \<in> set ps. \<exists>u. pr_forward_url p = Some u \<and> pa u = Some a \<and> pr_minted_at p = n)"
  by (induction ps) (auto simp: candidates_def map_filter_simps split: option.splits)

lemma set_ranked: "set (ranked pa ps) = {a. \<exists>q \<in> set ps. \<exists>u. pr_forward_url q = Some u \<and> pa u = Some a}"
  using in_candidates [of _ _ pa ps] by (force simp: ranked_def by_freshness_def)

lemma hd_dedup: "xs \<noteq> [] \<Longrightarrow> dedup xs \<noteq> [] \<and> hd (dedup xs) = hd xs"
  by (induction xs rule: dedup.induct) auto

lemma set_dedup: "set (dedup xs) = set xs"
  by (induction xs rule: dedup.induct) auto

lemma hop_sockets_hd: "xs \<noteq> [] \<Longrightarrow> hop_sockets xs \<noteq> [] \<and> hd (hop_sockets xs) = hd xs"
  using hd_dedup [of "take MAX_CANDIDATES_PER_HOP xs"] by (cases xs) (simp_all add: hop_sockets_def MAX_CANDIDATES_PER_HOP_def)

lemma hop_sockets_Nil [simp]: "hop_sockets [] = []"
  by (simp add: hop_sockets_def)

lemma from_swarm_routes:
  assumes "from_swarm pa ranges = Inr t"
  shows "ranges \<noteq> [] \<and> wf_target t \<and> ct_splits t = map fst ranges \<and> length (ct_peers t) = length ranges \<and>
    (\<forall>i < length ranges. ranked pa (snd (snd (ranges ! i))) \<noteq> [] \<and> route t i = hop_sockets (ranked pa (snd (snd (ranges ! i)))))"
proof -
  let ?f = "\<lambda>(s, e, ps). rbind (pick_hop (NoForwardUrl s e) (ranked pa ps)) (\<lambda>(p, alts). Inr (s, e, p, alts))"
  obtain hops where h: "mapM ?f ranges = Inr hops" and t: "t = assemble hops" and ne: "ranges \<noteq> []"
    using assms by (auto simp: from_swarm_def ranked_def results split: if_splits)
  have l: "length hops = length ranges" using mapM_length [OF h] by simp
  have step: "fst (hops ! i) = fst (ranges ! i) \<and> ranked pa (snd (snd (ranges ! i))) \<noteq> [] \<and>
      (case snd (snd (hops ! i)) of (p, a) \<Rightarrow> p # a) = hop_sockets (ranked pa (snd (snd (ranges ! i))))"
    if "i < length ranges" for i
  proof -
    obtain s e ps where r: "ranges ! i = (s, e, ps)" by (metis prod.exhaust)
    have "?f (ranges ! i) = Inr (hops ! i)" using h that by (auto simp: mapM_Inr_iff dest: list_all2_nthD)
    then obtain p a where "pick_hop (NoForwardUrl s e) (ranked pa ps) = Inr (p, a)" "hops ! i = (s, e, p, a)"
      by (auto simp: r results)
    then show ?thesis by (auto simp: r pick_hop_def split: list.splits)
  qed
  have "ct_splits t = map fst ranges"
    using step l by (intro nth_equalityI) (auto simp: t assemble_def split_beta)
  moreover have "route t i = hop_sockets (ranked pa (snd (snd (ranges ! i))))" if "i < length ranges" for i
    using step [OF that] l that by (simp add: route_def t assemble_def split_beta)
  ultimately show ?thesis using step l ne by (auto simp: wf_target_def t assemble_def)
qed

lemma ranked_freshest:
  assumes "ranked pa ps \<noteq> []"
  shows "\<exists>p \<in> set ps. \<exists>u. pr_forward_url p = Some u \<and> pa u = Some (hd (ranked pa ps)) \<and>
    (\<forall>q \<in> set ps. (\<exists>u a. pr_forward_url q = Some u \<and> pa u = Some a) \<longrightarrow> pr_minted_at q \<le> pr_minted_at p)"
proof -
  let ?cs = "candidates pa ps" and ?k = "\<lambda>(minted, _). - int (unat minted)"
  obtain c cs where s: "by_freshness ?cs = c # cs" using assms by (cases "by_freshness ?cs") (auto simp: ranked_def)
  have set: "set (c # cs) = set ?cs" unfolding s [symmetric] by (simp add: by_freshness_def)
  have "sorted (map ?k (c # cs))" unfolding s [symmetric] by (simp add: by_freshness_def)
  then have min: "?k c \<le> ?k x" if "x \<in> set ?cs" for x using that unfolding set [symmetric] by (auto split: prod.splits)
  have "c \<in> set ?cs" using set by auto
  then obtain p u where p: "p \<in> set ps" "pr_forward_url p = Some u" "pa u = Some (snd c)" "pr_minted_at p = fst c"
    using in_candidates [of "fst c" "snd c"] by auto
  have "pr_minted_at q \<le> pr_minted_at p" if q: "q \<in> set ps" "pr_forward_url q = Some v" "pa v = Some a" for q v a
  proof -
    have "(pr_minted_at q, a) \<in> set ?cs" using q by (auto simp: in_candidates)
    from min [OF this] show ?thesis using p(4) by (simp add: word_le_def split_beta)
  qed
  moreover have "hd (ranked pa ps) = snd c" by (simp add: ranked_def s)
  ultimately show ?thesis using p by (intro bexI [of _ p] exI [of _ u]) auto
qed

text \<open>
  A chain built from the discovered providers has one hop per range, in range order, starting where
  the range starts; the hop's peer is the parsed forward address of a provider of that range, and no
  provider of the range with a usable address has a newer record. The backups of a hop are providers
  of its own range, at most two.
\<close>

theorem from_swarm_freshest:
  assumes "from_swarm pa ranges = Inr t"
  shows "ct_splits t = map fst ranges \<and> length (ct_peers t) = length ranges \<and>
    (\<forall>i < length ranges. length (route t i) \<le> MAX_CANDIDATES_PER_HOP \<and>
      set (route t i) \<subseteq> {a. \<exists>q \<in> set (snd (snd (ranges ! i))). \<exists>u. pr_forward_url q = Some u \<and> pa u = Some a} \<and>
      (\<exists>p \<in> set (snd (snd (ranges ! i))). \<exists>u. pr_forward_url p = Some u \<and> pa u = Some (ct_peers t ! i) \<and>
        (\<forall>q \<in> set (snd (snd (ranges ! i))). (\<exists>u a. pr_forward_url q = Some u \<and> pa u = Some a) \<longrightarrow>
          pr_minted_at q \<le> pr_minted_at p)))"
proof -
  note r = from_swarm_routes [OF assms]
  have len: "length (dedup xs) \<le> length xs" for xs :: "string list" by (induction xs rule: dedup.induct) auto
  have len: "length (hop_sockets xs) \<le> MAX_CANDIDATES_PER_HOP" for xs
    using len [of "take MAX_CANDIDATES_PER_HOP xs"] by (simp add: hop_sockets_def)
  have sub: "set (hop_sockets (ranked pa ps)) \<subseteq> {a. \<exists>q \<in> set ps. \<exists>u. pr_forward_url q = Some u \<and> pa u = Some a}" for ps
    using set_take_subset [of MAX_CANDIDATES_PER_HOP "ranked pa ps"]
    unfolding set_ranked by (simp add: hop_sockets_def set_dedup)
  have hd: "ct_peers t ! i = hd (ranked pa (snd (snd (ranges ! i))))" if "i < length ranges" for i
    using r that hop_sockets_hd [of "ranked pa (snd (snd (ranges ! i)))"] by (metis list.sel(1) route_def)
  have one: "length (route t i) \<le> MAX_CANDIDATES_PER_HOP \<and>
      set (route t i) \<subseteq> {a. \<exists>q \<in> set (snd (snd (ranges ! i))). \<exists>u. pr_forward_url q = Some u \<and> pa u = Some a} \<and>
      (\<exists>p \<in> set (snd (snd (ranges ! i))). \<exists>u. pr_forward_url p = Some u \<and> pa u = Some (ct_peers t ! i) \<and>
        (\<forall>q \<in> set (snd (snd (ranges ! i))). (\<exists>u a. pr_forward_url q = Some u \<and> pa u = Some a) \<longrightarrow>
          pr_minted_at q \<le> pr_minted_at p))" if i: "i < length ranges" for i
  proof -
    have e: "route t i = hop_sockets (ranked pa (snd (snd (ranges ! i))))" "ranked pa (snd (snd (ranges ! i))) \<noteq> []"
      using r i by blast+
    show ?thesis unfolding e(1) hd [OF i] by (intro conjI len sub ranked_freshest e(2))
  qed
  have "ct_splits t = map fst ranges" "length (ct_peers t) = length ranges" using r by blast+
  then show ?thesis using one by blast
qed

definition sample_addr :: parse_addr where
  "sample_addr u = (if u = ''bad'' then None else Some u)"

definition sample_provider :: "string \<Rightarrow> u64 \<Rightarrow> provider_record" where
  "sample_provider u minted = sample_record\<lparr>pr_forward_url := Some u, pr_minted_at := minted\<rparr>"

lemma sample_ranked:
  "ranked sample_addr [sample_provider ''h1'' 5, sample_provider ''bad'' 9, sample_provider ''h2'' 7] = [''h2'', ''h1'']"
  by (simp add: ranked_def by_freshness_def candidates_def map_filter_def sample_addr_def sample_provider_def sample_record_def)

lemma from_swarm_freshest_witness:
  "\<exists>t. from_swarm sample_addr [(3, 8, [sample_provider ''h1'' 5, sample_provider ''bad'' 9, sample_provider ''h2'' 7])] = Inr t \<and>
     ct_splits t = [3] \<and> ct_peers t = [''h2''] \<and> length (route t 0) \<le> 3"
proof -
  have r: "map snd (by_freshness (candidates sample_addr [sample_provider ''h1'' 5, sample_provider ''bad'' 9, sample_provider ''h2'' 7])) = [''h2'', ''h1'']"
    using sample_ranked by (simp add: ranked_def)
  let ?t = "\<lparr>ct_peers = [''h2''], ct_splits = [3], ct_alternates = [[''h1'']]\<rparr>"
  have "from_swarm sample_addr [(3, 8, [sample_provider ''h1'' 5, sample_provider ''bad'' 9, sample_provider ''h2'' 7])] = Inr ?t"
    by (simp add: from_swarm_def r pick_hop_def hop_sockets_def MAX_CANDIDATES_PER_HOP_def assemble_def numeral_3_eq_3)
  from from_swarm_freshest [OF this] this show ?thesis by (simp add: MAX_CANDIDATES_PER_HOP_def)
qed

text \<open>The ranges of a discovered model as the model picker hands them over (\<open>commit_browser\<close>).\<close>

definition picked_ranges :: "swarm_model \<Rightarrow> (u16 \<times> u16 \<times> provider_record list) list" where
  "picked_ranges m = map (\<lambda>r. (rc_start r, rc_end r, rc_providers r)) (sm_ranges m)"

lemma catalog_splits_increase:
  assumes "e \<in> set CATALOG"
  shows "\<not> list_ex (\<lambda>(a, b). b \<le> a) (zip (map fst (swarm_ranges e)) (tl (map fst (swarm_ranges e)))) \<and>
    swarm_ranges e \<noteq> [] \<and> fst (hd (swarm_ranges e)) = 0"
  using assms by (auto simp: CATALOG_def swarm_ranges_def SPLITS_24_4_def SPLITS_28_4_def SPLITS_36_4_def)

text \<open>
  A model picked from the swarm list can never be used: the ranges of every catalog model start at
  block zero, so the first split of the target is zero, which opening a chain refuses before it talks
  to any peer, and that refusal is not failed over; the same target fails the same way on every turn.
\<close>

theorem swarm_chain_never_connects:
  assumes "e \<in> set CATALOG" "m = refresh_one b3 C get cid (swarm_ranges e)"
    and "from_swarm pa (picked_ranges m) = Inr t"
  shows "connect_with_failover sids E name n dt t w = (Inl (Fail (OtherErr FirstSplitZero)), t, [], w)"
proof -
  note r = from_swarm_routes [OF assms(3)]
  have s: "ct_splits t = map fst (swarm_ranges e)"
    using r by (simp add: picked_ranges_def assms(2) refresh_one_def comp_def probe_range_def split_beta)
  have "length (ct_peers t) = length (ct_splits t)" "ct_peers t \<noteq> []"
    using r by (auto simp: picked_ranges_def)
  then have "check_cfg (target_cfg t name dt) n = Inl FirstSplitZero"
    using catalog_splits_increase [OF assms(1)] by (simp add: check_cfg_def target_cfg_def s hd_map)
  then have "chain_connect (E\<lparr>ce_sids := sids 0\<rparr>) (target_cfg t name dt) n w = (Inl (Fail (OtherErr FirstSplitZero)), w)"
    by (simp add: chain_connect_def sbind_app slift_def map_err_def)
  then show ?thesis by (simp add: connect_with_failover_def connect_loop.simps [of _ _ _ _ _ 0] failed_index_def)
qed

lemma swarm_chain_never_connects_witness:
  "\<exists>t. from_swarm sample_addr (picked_ranges (refresh_one id sample_cbor (\<lambda>_. Some [[]]) ''c'' (swarm_ranges (CATALOG ! 0)))) = Inr t \<and>
     connect_with_failover (\<lambda>_ i. [word_of_nat i]) queue_env ''m'' 24 Fp16 t [] = (Inl (Fail (OtherErr FirstSplitZero)), t, [], [])"
proof -
  let ?m = "refresh_one id sample_cbor (\<lambda>_. Some [[]]) ''c'' (swarm_ranges (CATALOG ! 0))"
  have e: "CATALOG ! 0 \<in> set CATALOG" and c: "swarm_ranges (CATALOG ! 0) = SPLITS_24_4"
    by (simp_all add: CATALOG_def swarm_ranges_def SPLITS_24_4_def)
  have p: "pick_hop err (map snd (by_freshness (candidates sample_addr [sample_record]))) = Inr (''h:1'', [])" for err
    by (simp add: by_freshness_def candidates_def map_filter_simps sample_addr_def sample_record_def pick_hop_def
        hop_sockets_def MAX_CANDIDATES_PER_HOP_def numeral_3_eq_3)
  have "probe_range id sample_cbor (\<lambda>_. Some [[]]) ''c'' x = \<lparr>rc_start = fst x, rc_end = snd x, rc_providers = [sample_record]\<rparr>" for x
    by (cases x) (simp add: probe_range_def find_shard_providers_def sample_cbor_def map_filter_simps)
  then have pr: "picked_ranges ?m = map (\<lambda>(a, b). (a, b, [sample_record])) SPLITS_24_4"
    unfolding c by (simp add: picked_ranges_def refresh_one_def split_beta)
  have "\<exists>t. from_swarm sample_addr (picked_ranges ?m) = Inr t"
    unfolding pr by (simp add: from_swarm_def p SPLITS_24_4_def)
  then obtain t where t: "from_swarm sample_addr (picked_ranges ?m) = Inr t" by blast
  show ?thesis by (rule exI [of _ t], rule conjI [OF t], rule swarm_chain_never_connects [OF e refl t])
qed

text \<open>
  The cap on candidates is applied before the repetitions are dropped, and only neighbours are
  compared: three fresh records of one address leave no backup although others are known, and an
  address that comes back after another one is its own backup.
\<close>

lemma republish_wastes_backups:
  assumes "ranked pa ps = [a, a, a] @ rest"
  shows "\<exists>t. from_swarm pa [(s, e, ps)] = Inr t \<and> route t 0 = [a] \<and> failover 0 t = (False, t)"
proof -
  have "hop_sockets (map snd (by_freshness (candidates pa ps))) = [a]"
    using assms by (simp add: hop_sockets_def MAX_CANDIDATES_PER_HOP_def numeral_3_eq_3 ranked_def)
  then show ?thesis by (simp add: from_swarm_def pick_hop_def assemble_def route_def failover_def)
qed

lemma republish_is_own_backup:
  assumes "ranked pa ps = [a, b, a] @ rest" "a \<noteq> b"
  shows "\<exists>t. from_swarm pa [(s, e, ps)] = Inr t \<and> route t 0 = [a, b, a]"
proof -
  have "hop_sockets (map snd (by_freshness (candidates pa ps))) = [a, b, a]"
    using assms by (simp add: hop_sockets_def MAX_CANDIDATES_PER_HOP_def numeral_3_eq_3 ranked_def)
  then show ?thesis by (simp add: from_swarm_def pick_hop_def assemble_def route_def)
qed

section \<open>Probing\<close>

text \<open>A fresh cache entry answers the next probe of the address, whatever the network does.\<close>

lemma probe_cached:
  assumes "probe net now a c = (r, c')" "now \<le> pb_measured_at r" "later - pb_measured_at r < CACHE_TTL"
  shows "probe net' later a c' = (r, c') \<or> (\<exists>r0. cache_get now c a = Some r0)"
  using assms by (auto simp: probe_def cache_get_def cache_put_def update_conv' Let_def split: option.splits if_splits)

lemma by_latency_sorted:
  "sorted (map fst (sort_key fst (map (\<lambda>(a, r). (score r, a)) (filter (\<lambda>(_, r). pb_rtt r \<noteq> None) (zip addrs probes)))))"
  by simp

lemma by_latency_set:
  "set (by_latency addrs probes) = {a. \<exists>r. (a, r) \<in> set (zip addrs probes) \<and> pb_rtt r \<noteq> None}"
  by (force simp: by_latency_def)

section \<open>The driver's state\<close>

definition driver_inv :: "'m chain_driver \<Rightarrow> bool" where
  "driver_inv D \<longleftrightarrow>
     (\<forall>p h. cd_draft_slot D = Some (p, h) \<longrightarrow> (\<exists>dc. cd_draft D = Some dc \<and> dt_path dc = p)) \<and>
     (\<forall>t. cd_target D = Some t \<longrightarrow> wf_target t)"

lemma driver_inv_new: "driver_inv chain_driver_new"
  by (simp add: driver_inv_def chain_driver_new_def)

lemma driver_inv_setters:
  "driver_inv D \<Longrightarrow> driver_inv (set_draft d D)" "driver_inv D \<Longrightarrow> driver_inv (set_wire_dtype dt D)"
  "driver_inv D \<Longrightarrow> driver_inv (set_target None D)"
  "driver_inv D \<Longrightarrow> from_swarm pa ranges = Inr t \<Longrightarrow> driver_inv (set_target (Some t) D)"
  using from_swarm_routes [of pa ranges t] by (auto simp: driver_inv_def set_draft_def set_wire_dtype_def set_target_def)

lemma from_config_wf: "from_config pa peers splits = Inr t \<Longrightarrow> wf_target t"
  by (auto simp: from_config_def wf_target_def results split: if_splits)

lemma ensure_loaded_path: "ensure_loaded N m slot = Inr l \<Longrightarrow> ld_path l = lm_path m"
  by (auto simp: ensure_loaded_def Let_def results split: option.splits if_splits)

lemma ensure_draft_path: "ensure_draft N dc slot = Inr (p, h) \<Longrightarrow> p = dt_path dc"
  by (auto simp: ensure_draft_def Let_def results split: option.splits if_splits prod.splits)

text \<open>What a turn leaves of the draft slot.\<close>

definition draft_after :: "(path \<times> 'm) option \<Rightarrow> nat option \<Rightarrow> driver_error fault + 'a \<Rightarrow> (path \<times> 'm) option \<Rightarrow> bool" where
  "draft_after slot k r slot' \<longleftrightarrow>
     (if k = None then slot' = slot
      else case r of Inl _ \<Rightarrow> slot' = None | Inr _ \<Rightarrow> \<exists>p h h'. slot = Some (p, h) \<and> slot' = Some (p, h'))"

lemma turn_on_chain_draft:
  assumes "turn_on_chain N l slot k cfg rng prompt c w = (r, h', slot', c', w')"
  shows "draft_after slot k r slot'"
  using assms by (auto simp: draft_after_def turn_on_chain_def Let_def split: option.splits prod.splits sum.splits)

text \<open>How a turn's result relates to the state it leaves.\<close>

definition turn_leaves :: "local_model \<Rightarrow> 'm chain_driver \<Rightarrow> driver_error fault + 'a \<Rightarrow> 'm chain_driver \<Rightarrow> bool" where
  "turn_leaves m D r D' \<longleftrightarrow>
     cd_draft D' = cd_draft D \<and> cd_wire_dtype D' = cd_wire_dtype D \<and>
     (case r of
        Inr _ \<Rightarrow> (\<exists>l. cd_inner D' = Some l \<and> ld_path l = lm_path m) \<and>
          (\<forall>dc. cd_draft D = Some dc \<longrightarrow> (\<exists>h. cd_draft_slot D' = Some (dt_path dc, h)))
      | Inl (Fail (TurnFailed _)) \<Rightarrow> cd_draft D \<noteq> None \<longrightarrow> cd_draft_slot D' = None
      | Inl (Fail (ConnectFailed _)) \<Rightarrow> cd_target D' = cd_target D
      | _ \<Rightarrow> True)"

lemma map_err_Inl: "map_err g m = Inl e \<longleftrightarrow> (\<exists>x. m = Inl x \<and> e = g x)"
  by (cases m) auto

lemma turn_failure: "map_err (case_fault (\<lambda>e. Fail (TurnFailed e)) Panic) r \<noteq> Inl (Fail (ConnectFailed x))"
  by (cases r) (auto split: fault.splits)

lemma load_errors:
  "ensure_loaded N m slot = Inl e \<Longrightarrow> (case e of TurnFailed _ \<Rightarrow> False | ConnectFailed _ \<Rightarrow> False | _ \<Rightarrow> True)"
  "ensure_draft N dc dslot = Inl e \<Longrightarrow> (case e of TurnFailed _ \<Rightarrow> False | ConnectFailed _ \<Rightarrow> False | _ \<Rightarrow> True)"
  by (auto simp: ensure_loaded_def ensure_draft_def Let_def results map_err_Inl split: option.splits if_splits)

lemma turn_leaves_load:
  assumes "case e of TurnFailed _ \<Rightarrow> False | ConnectFailed _ \<Rightarrow> False | _ \<Rightarrow> True"
    and "cd_draft D' = cd_draft D" "cd_wire_dtype D' = cd_wire_dtype D"
  shows "turn_leaves m D (Inl (Fail e)) D'"
  using assms by (auto simp: turn_leaves_def split: driver_error.splits)

lemma connect_and_run_inv:
  assumes inv: "driver_inv D" and wf: "wf_target target" "cd_target D = Some target" and l: "ld_path l = lm_path m"
    and slot: "\<And>dc. cd_draft D = Some dc \<Longrightarrow> \<exists>h. cd_draft_slot D = Some (dt_path dc, h)"
    and run: "connect_and_run N m l target prompt cfg rng D w = (r, sent, D', w')"
  shows "driver_inv D' \<and> turn_leaves m D r D'"
proof -
  let ?n = "word_of_nat (dn_blocks N (ld_handle l))"
  obtain r1 t' ns w1 where c: "connect_with_failover (dn_sids N) (dn_net N) (lm_name m) ?n (cd_wire_dtype D) target w = (r1, t', ns, w1)"
    by (metis prod.exhaust)
  have wf': "wf_target t'"
    using connect_loop_ok [OF wf(1) c [unfolded connect_with_failover_def]] by (simp add: swapped_def)
  show ?thesis
  proof (cases r1)
    case (Inl f)
    then show ?thesis using run c inv by (auto simp: connect_and_run_def turn_leaves_def split: fault.splits)
  next
    case (Inr ch)
    obtain r2 h' slot' c' w2 where t: "turn_on_chain N l (cd_draft_slot D) (map_option dt_k (cd_draft D)) cfg rng prompt ch w1 = (r2, h', slot', c', w2)"
      by (metis prod.exhaust)
    note d = turn_on_chain_draft [OF t]
    have r: "r = r2" "D' = D\<lparr>cd_target := Some t', cd_inner := Some (l\<lparr>ld_handle := h'\<rparr>), cd_draft_slot := slot'\<rparr>"
      using run c Inr t by (simp_all add: connect_and_run_def)
    have no: "r2 \<noteq> Inl (Fail (ConnectFailed x))" for x
      using t by (auto simp: turn_on_chain_def Let_def turn_failure split: option.splits prod.splits)
    have "driver_inv D'" using inv wf' d slot by (auto simp: r draft_after_def driver_inv_def split: sum.splits if_splits)
    moreover have "turn_leaves m D r D'"
      using d slot l no by (auto simp: r draft_after_def turn_leaves_def split: sum.splits fault.splits driver_error.splits if_splits)
    ultimately show ?thesis ..
  qed
qed

lemma run_driver_inv:
  assumes inv: "driver_inv D" and run: "run_driver N m msgs cfg rng D w = (r, sent, D', w')"
  shows "driver_inv D' \<and> turn_leaves m D r D'"
proof (cases "cd_target D")
  case None
  then show ?thesis using run inv by (auto simp: run_driver_def turn_leaves_def)
next
  case (Some target)
  note t = this
  then have wf: "wf_target target" using inv by (simp add: driver_inv_def)
  show ?thesis
  proof (cases "ensure_loaded N m (cd_inner D)")
    case (Inl e)
    then show ?thesis using run inv t turn_leaves_load [OF load_errors(1) [OF Inl], of D D] by (auto simp: run_driver_def)
  next
    case (Inr l)
    let ?D1 = "D\<lparr>cd_inner := Some l\<rparr>"
    have leaves: "turn_leaves m D2 r D' \<Longrightarrow> cd_draft D2 = cd_draft D \<Longrightarrow> cd_wire_dtype D2 = cd_wire_dtype D \<Longrightarrow>
        cd_target D2 = cd_target D \<Longrightarrow> turn_leaves m D r D'" for D2
      by (simp add: turn_leaves_def split: sum.splits fault.splits driver_error.splits)
    note go = connect_and_run_inv [OF _ wf _ ensure_loaded_path [OF Inr]]
    show ?thesis
    proof (cases "cd_draft D")
      case None
      then have "connect_and_run N m l target (build_chat_prompt msgs) cfg rng ?D1 w = (r, sent, D', w')"
        using run t Inr by (simp add: run_driver_def)
      from go [OF _ _ _ this] show ?thesis using inv t None leaves [of ?D1] by (simp add: driver_inv_def)
    next
      case (Some dc)
      show ?thesis
      proof (cases "ensure_draft N dc (cd_draft_slot D)")
        case (Inl e)
        then show ?thesis using run inv t Inr Some turn_leaves_load [OF load_errors(2) [OF Inl], of ?D1 D]
          by (auto simp: run_driver_def driver_inv_def)
      next
        case (Inr slot)
        let ?D2 = "?D1\<lparr>cd_draft_slot := Some slot\<rparr>"
        have p: "fst slot = dt_path dc" using ensure_draft_path [of N dc _ "fst slot" "snd slot"] Inr by simp
        have "connect_and_run N m l target (build_chat_prompt msgs) cfg rng ?D2 w = (r, sent, D', w')"
          using run t \<open>ensure_loaded N m (cd_inner D) = Inr l\<close> Inr Some by (simp add: run_driver_def)
        from go [OF _ _ _ this] show ?thesis using inv t Some p leaves [of ?D2]
          by (cases slot) (simp add: driver_inv_def)
      qed
    qed
  qed
qed

text \<open>
  C17. The chain driver's state stays consistent over turns: the cached draft model always is the one of
  the configured draft, and the target has alternates for each of its hops. After a reply the model of
  the request and the draft are loaded; after a failed turn the consumed draft's slot is empty; a chain
  that could not be opened leaves the target as it was configured, so the swaps tried are forgotten.
\<close>

theorem driver_keeps_invariant:
  assumes "driver_inv D" "run_driver N m msgs cfg rng D w = (r, sent, D', w')"
  shows "driver_inv D' \<and> turn_leaves m D r D'"
  by (rule run_driver_inv [OF assms])

definition sample_driver_env :: "(u32 list, msg option, nat) driver_env" where
  "sample_driver_env = \<lparr>dn_load = (\<lambda>_. Inr []), dn_tok = (\<lambda>_. Inr ascii_lib), dn_blocks = (\<lambda>_. 8), dn_ops = toy_ops sample_logits,
     dn_arith = sample_arith, dn_net = echo_env, dn_sids = (\<lambda>_ i. [word_of_nat i]), dn_send = (\<lambda>_. None)\<rparr>"

definition sample_model :: local_model where
  "sample_model = \<lparr>lm_name = ''m'', lm_path = [''m.gguf''], lm_tokenizer = Some [''t''], lm_size_bytes = 1, lm_arch = Some Ggml\<rparr>"

lemma driver_keeps_invariant_witness:
  "\<exists>r sent D' w'. run_driver sample_driver_env sample_model [] (sample_sampling 3) 0
      (set_draft (Some \<lparr>dt_path = [''d''], dt_k = 4\<rparr>) (set_target (Some two_peers) chain_driver_new)) None = (r, sent, D', w') \<and>
    driver_inv D'"
proof -
  let ?D = "set_draft (Some \<lparr>dt_path = [''d''], dt_k = 4\<rparr>) (set_target (Some two_peers) (chain_driver_new :: u32 list chain_driver))"
  have i: "driver_inv ?D" by (simp add: driver_inv_def set_draft_def set_target_def chain_driver_new_def two_peers_def wf_target_def)
  obtain r sent D' w' where "run_driver sample_driver_env sample_model [] (sample_sampling 3) 0 ?D None = (r, sent, D', w')"
    by (metis prod.exhaust)
  from driver_keeps_invariant [OF i this] this show ?thesis by blast
qed

end
