(* ===== verification/Local.thy ===== *)
theory Local
  imports Chain_Driver
begin

text \<open>
  Local models: the scan of the models directory and the in-process driver
  (\<open>crates/app/src/local.rs\<close>), and where a model's tokenizer is looked for
  (\<open>Tok::locate_for\<close> in \<open>crates/runtime/src/tokenizer.rs\<close>). Paths are UTF-8.
\<close>

section \<open>Names\<close>

fun split_char :: "char \<Rightarrow> string \<Rightarrow> string list" where
  "split_char c [] = [[]]"
| "split_char c (x # xs) =
     (if x = c then [] # split_char c xs
      else case split_char c xs of [] \<Rightarrow> [[x]] | w # ws \<Rightarrow> (x # w) # ws)"

fun join_char :: "char \<Rightarrow> string list \<Rightarrow> string" where
  "join_char c [] = []"
| "join_char c [w] = w"
| "join_char c (w # ws) = w @ c # join_char c ws"

lemma split_char_ne: "split_char c s \<noteq> []"
  by (induction s) (auto split: list.splits)

lemma join_split: "join_char c (split_char c s) = s"
proof (induction s)
  case (Cons x xs)
  then show ?case using split_char_ne [of c xs] by (cases "split_char c xs"; cases "tl (split_char c xs)") auto
qed simp

text \<open>\<open>Path::extension\<close>: none without a dot, or when the only dot is the first character.\<close>

definition extension :: "string \<Rightarrow> string option" where
  "extension s =
     (if file_stem s = s then None else Some (drop (length (file_stem s) + 1) s))"

definition contains :: "string \<Rightarrow> string \<Rightarrow> bool" where
  "contains s p \<longleftrightarrow> list_ex (\<lambda>i. take (length p) (drop i s) = p) [0..<length s + 1]"

text \<open>A path written as text, relative to the working directory.\<close>

definition path_of :: "path \<Rightarrow> string \<Rightarrow> path" where
  "path_of cwd s =
     (let parts = filter (\<lambda>w. w \<noteq> []) (split_char CHR ''/'' s)
      in if take 1 s = ''/'' then parts else cwd @ parts)"

section \<open>The tokenizer of a model\<close>

definition is_file :: "fs \<Rightarrow> path \<Rightarrow> bool" where
  "is_file fs p \<longleftrightarrow> read_file fs p \<noteq> None"

text \<open>The names tried with a shortened stem, longest first.\<close>

definition prefix_names :: "string \<Rightarrow> string list" where
  "prefix_names stem =
     (let parts = split_char CHR ''-'' stem
      in map (\<lambda>n. join_char CHR ''-'' (take n parts) @ ''.tokenizer.json'') (rev [1..<length parts]))"

definition locate_for :: "fs \<Rightarrow> path \<Rightarrow> path option" where
  "locate_for fs gguf =
     (if gguf = [] then None
      else let d = butlast gguf; stem = file_stem (last gguf)
      in if is_file fs (join d (stem @ ''.tokenizer.json'')) then Some (join d (stem @ ''.tokenizer.json''))
         else if is_file fs (join d ''tokenizer.json'') then Some (join d ''tokenizer.json'')
         else case List.find (\<lambda>n. is_file fs (join d n)) (prefix_names stem) of
           Some n \<Rightarrow> Some (join d n)
         | None \<Rightarrow> map_option (join d) (List.find (\<lambda>n. ends_with n ''.tokenizer.json'') (dir_files d fs)))"

section \<open>The scan\<close>

definition is_usable :: "local_model \<Rightarrow> bool" where
  "is_usable m \<longleftrightarrow> lm_tokenizer m \<noteq> None \<and> lm_arch m \<noteq> None"

text \<open>The architecture check reads nothing and always succeeds.\<close>

definition sniff_arch :: "path \<Rightarrow> string + model_kind" where
  "sniff_arch p = Inr Ggml"

definition file_len :: "fs \<Rightarrow> path \<Rightarrow> u64" where
  "file_len fs p = (case read_file fs p of Some bs \<Rightarrow> word_of_nat (length bs) | None \<Rightarrow> 0)"

definition model_at :: "fs \<Rightarrow> path \<Rightarrow> local_model" where
  "model_at fs p =
     \<lparr>lm_name = file_stem (last p), lm_path = p, lm_tokenizer = locate_for fs p, lm_size_bytes = file_len fs p,
      lm_arch = (case sniff_arch p of Inr a \<Rightarrow> Some a | Inl _ \<Rightarrow> None)\<rparr>"

text \<open>Names are compared bytewise.\<close>

definition name_key :: "local_model \<Rightarrow> nat list" where
  "name_key m = map code (lm_name m)"

definition list_models :: "fs \<Rightarrow> path \<Rightarrow> local_model list" where
  "list_models fs d =
     sort_key name_key (map (\<lambda>n. model_at fs (join d n)) (filter (\<lambda>n. extension n = Some ''gguf'') (dir_files d fs)))"

text \<open>The first of the smallest.\<close>

fun min_by_size :: "local_model list \<Rightarrow> local_model option" where
  "min_by_size [] = None"
| "min_by_size (m # ms) =
     (case min_by_size ms of None \<Rightarrow> Some m | Some b \<Rightarrow> Some (if lm_size_bytes b < lm_size_bytes m then b else m))"

definition pick_default :: "local_model list \<Rightarrow> local_model option" where
  "pick_default ms = min_by_size (filter is_usable ms)"

definition resolve :: "fs \<Rightarrow> path \<Rightarrow> local_model list \<Rightarrow> string \<Rightarrow> local_model option" where
  "resolve fs cwd ms name =
     (if is_file fs (path_of cwd name) then Some (model_at fs (path_of cwd name))
      else let needle = map ascii_lower name
      in case List.find (\<lambda>m. eq_ignore_ascii_case (lm_name m) needle) ms of
           Some m \<Rightarrow> Some m
         | None \<Rightarrow> List.find (\<lambda>m. contains (map ascii_lower (lm_name m)) needle) ms)"

section \<open>The local driver\<close>

text \<open>The send errors of the token callback are dropped, so the generation runs to its end.\<close>

definition run_local :: "('m, 'w, 'r) driver_env \<Rightarrow> local_model \<Rightarrow> chat_turn list \<Rightarrow> sampling_cfg \<Rightarrow> 'r \<Rightarrow> 'm loaded option \<Rightarrow>
    (driver_error fault + u32 list) \<times> 'm loaded option" where
  "run_local N m msgs cfg rng slot =
     (case ensure_loaded N m slot of
        Inl e \<Rightarrow> (Inl (Fail e), slot)
      | Inr l \<Rightarrow>
          let prompt = build_chat_prompt msgs;
              plen = (case tl_encode (ld_tok l) prompt of Inr ts \<Rightarrow> length ts | Inl _ \<Rightarrow> 0)
          in case generate (dn_ops N) (dn_arith N) (turn_tok (ld_tok l) (\<lambda>_. None) plen) cfg rng prompt (ld_handle l) of
               (r, h', s') \<Rightarrow> (map_err (case_fault (\<lambda>e. Fail (TurnFailed e)) Panic) r, Some (l\<lparr>ld_handle := h'\<rparr>)))"

section \<open>Facts of the scan\<close>

lemma list_models_paths:
  "lm_path ` set (list_models fs d) = {join d n | n. is_file fs (join d n) \<and> extension n = Some ''gguf''}"
  using in_dir_files [of _ d fs] by (force simp: list_models_def is_file_def model_at_def)

lemma min_by_size_None: "min_by_size ms = None \<longleftrightarrow> ms = []"
  by (cases ms) (auto split: option.splits)

lemma min_by_size_least: "min_by_size ms = Some m \<Longrightarrow> m \<in> set ms \<and> (\<forall>b \<in> set ms. lm_size_bytes m \<le> lm_size_bytes b)"
proof (induction ms arbitrary: m)
  case (Cons a ms)
  show ?case
  proof (cases "min_by_size ms")
    case None
    then show ?thesis using Cons.prems by (simp add: min_by_size_None)
  next
    case (Some b)
    then show ?thesis using Cons.prems Cons.IH [OF Some]
      by (auto simp: not_less split: if_splits intro: order.trans less_imp_le)
  qed
qed simp

lemma eq_ignore_lower: "eq_ignore_ascii_case x (map ascii_lower name) = eq_ignore_ascii_case x name"
proof -
  have "ascii_lower (ascii_lower c) = ascii_lower c" for c
    by (auto simp: ascii_lower_def Let_def of_char_of)
  then show ?thesis by (simp add: eq_ignore_ascii_case_def comp_def)
qed

lemma list_models_arch: "m \<in> set (list_models fs d) \<Longrightarrow> lm_arch m \<noteq> None"
  by (auto simp: list_models_def model_at_def sniff_arch_def)

lemma pick_default_scan:
  assumes "ms = list_models fs d"
  shows "case pick_default ms of
      Some m \<Rightarrow> m \<in> set ms \<and> is_usable m \<and> (\<forall>b \<in> set ms. is_usable b \<longrightarrow> lm_size_bytes m \<le> lm_size_bytes b)
    | None \<Rightarrow> \<forall>b \<in> set ms. lm_tokenizer b = None"
proof (cases "pick_default ms")
  case None
  then show ?thesis using list_models_arch [of _ fs d]
    by (auto simp: pick_default_def min_by_size_None filter_empty_conv is_usable_def assms)
next
  case (Some m)
  then show ?thesis using min_by_size_least [of "filter is_usable ms" m] by (simp add: pick_default_def)
qed

lemma resolve_cases:
  assumes "resolve fs cwd ms name = Some m"
  shows "if is_file fs (path_of cwd name) then lm_path m = path_of cwd name
    else m \<in> set ms \<and> (eq_ignore_ascii_case (lm_name m) name \<or>
      contains (map ascii_lower (lm_name m)) (map ascii_lower name) \<and> (\<forall>b \<in> set ms. \<not> eq_ignore_ascii_case (lm_name b) name))"
proof (cases "is_file fs (path_of cwd name)")
  case True
  then show ?thesis using assms by (auto simp: resolve_def model_at_def)
next
  case False
  show ?thesis
  proof (cases "List.find (\<lambda>m. eq_ignore_ascii_case (lm_name m) name) ms")
    case None
    then have "List.find (\<lambda>m. contains (map ascii_lower (lm_name m)) (map ascii_lower name)) ms = Some m"
      using assms False by (simp add: resolve_def eq_ignore_lower)
    then show ?thesis using None False by (auto simp: find_None_iff find_Some_iff)
  next
    case (Some b)
    then have "b = m" using assms False by (simp add: resolve_def eq_ignore_lower)
    then show ?thesis using Some False by (auto simp: find_Some_iff)
  qed
qed

text \<open>
  The default model is a usable model of the scan and no usable one is smaller, and there is one as
  soon as any model has a tokenizer; a name given by the user resolves to a file of that name, else to
  a model called that up to ASCII case, and to a model whose name merely contains it only when there
  is neither.
\<close>

theorem default_and_named_models:
  assumes "ms = list_models fs d"
  shows "(case pick_default ms of
      Some m \<Rightarrow> m \<in> set ms \<and> is_usable m \<and> (\<forall>b \<in> set ms. is_usable b \<longrightarrow> lm_size_bytes m \<le> lm_size_bytes b)
    | None \<Rightarrow> \<forall>b \<in> set ms. lm_tokenizer b = None) \<and>
    (\<forall>m. resolve fs cwd ms name = Some m \<longrightarrow>
      (if is_file fs (path_of cwd name) then lm_path m = path_of cwd name
       else m \<in> set ms \<and> (eq_ignore_ascii_case (lm_name m) name \<or>
         contains (map ascii_lower (lm_name m)) (map ascii_lower name) \<and>
         (\<forall>b \<in> set ms. \<not> eq_ignore_ascii_case (lm_name b) name))))"
  using pick_default_scan [OF assms] resolve_cases by blast

text \<open>Two models, one with a tokenizer, and a name that both contain.\<close>

definition sample_dir :: fs where
  "sample_dir = [([''models'', ''Qwen-7b.gguf''], [1, 2]), ([''models'', ''qwen.gguf''], [1]), ([''models'', ''Qwen.tokenizer.json''], [3])]"

lemma default_and_named_models_witness:
  "\<exists>m n. pick_default (list_models sample_dir [''models'']) = Some m \<and> lm_tokenizer m \<noteq> None \<and>
     resolve sample_dir [] (list_models sample_dir [''models'']) ''QWEN'' = Some n \<and> eq_ignore_ascii_case (lm_name n) ''qwen''"
proof -
  let ?ms = "list_models sample_dir [''models'']"
  have q: "is_file sample_dir [''models'', ''Qwen.tokenizer.json'']" by (simp add: is_file_def read_file_def sample_dir_def)
  have "locate_for sample_dir [''models'', ''Qwen-7b.gguf''] = Some [''models'', ''Qwen.tokenizer.json'']"
    by (simp add: locate_for_def file_stem_def Let_def is_file_def read_file_def sample_dir_def join_def prefix_names_def)
  then have mem: "model_at sample_dir [''models'', ''Qwen-7b.gguf''] \<in> set ?ms" "lm_tokenizer (model_at sample_dir [''models'', ''Qwen-7b.gguf'']) \<noteq> None"
    by (auto simp: list_models_def extension_def file_stem_def Let_def dir_files_def sample_dir_def join_def model_at_def)
  have mem2: "model_at sample_dir [''models'', ''qwen.gguf''] \<in> set ?ms" "lm_name (model_at sample_dir [''models'', ''qwen.gguf'']) = ''qwen''"
    by (auto simp: list_models_def extension_def file_stem_def Let_def dir_files_def sample_dir_def join_def model_at_def)
  obtain m where m: "pick_default ?ms = Some m" "is_usable m"
    using default_and_named_models [OF refl, of sample_dir "[''models'']" "[]" "''QWEN''", THEN conjunct1] mem
    by (cases "pick_default ?ms") auto
  have nf: "\<not> is_file sample_dir (path_of [] ''QWEN'')" by (simp add: path_of_def is_file_def read_file_def sample_dir_def)
  have eq: "eq_ignore_ascii_case (lm_name (model_at sample_dir [''models'', ''qwen.gguf''])) ''QWEN''"
    unfolding mem2(2) by (simp add: eq_ignore_ascii_case_def ascii_lower_def char_of_def bit_Suc_0_iff)
  then have "List.find (\<lambda>m. eq_ignore_ascii_case (lm_name m) ''QWEN'') ?ms \<noteq> None"
    using mem2(1) by (auto simp: find_None_iff)
  then obtain n where n: "resolve sample_dir [] ?ms ''QWEN'' = Some n"
    using nf eq_ignore_lower [of _ "''QWEN''"] by (auto simp: resolve_def Let_def simp del: list.map)
  have "\<forall>b. resolve sample_dir [] ?ms ''QWEN'' = Some b \<longrightarrow> eq_ignore_ascii_case (lm_name b) ''QWEN''"
    using default_and_named_models [OF refl, of sample_dir "[''models'']" "[]" "''QWEN''"] nf eq mem2(1) by auto
  then have "eq_ignore_ascii_case (lm_name n) ''QWEN''" using n by blast
  then have "eq_ignore_ascii_case (lm_name n) ''qwen''" by (simp add: eq_ignore_ascii_case_def ascii_lower_def char_of_def bit_Suc_0_iff)
  then show ?thesis using m n by (auto simp: is_usable_def)
qed

section \<open>Local and distributed generation side by side\<close>

text \<open>
  What local generation relies on of the model: the whole of it computes its own logits. They are not those
  of the chain, whose activations the wire rounds (\<open>crates/ggml/tests/bit_identical.rs\<close>).
\<close>

definition local_law :: "'m pipe_ops \<Rightarrow> nat \<Rightarrow> nat \<Rightarrow> (u32 list \<Rightarrow> f32 list) \<Rightarrow> (u32 list \<Rightarrow> 'm \<Rightarrow> bool) \<Rightarrow> bool" where
  "local_law P N V logits Q \<longleftrightarrow> (\<forall>ctx. logits ctx \<noteq> []) \<and>
     (\<forall>kf m. Q kf m \<longrightarrow> Q [] (po_reset P m)) \<and>
     (\<forall>kf m ts. Q kf m \<longrightarrow> ts \<noteq> [] \<longrightarrow> length kf + length ts \<le> N \<longrightarrow>
       (\<exists>m'. po_forward P ts (length kf) m = (Inr (last_logits V logits kf ts), m') \<and> Q (kf @ ts) m'))"

lemma local_forward:
  assumes "local_law P N V logits Q" "Q kf m" "ts \<noteq> []" "length kf + length ts \<le> N" "n = length kf"
  shows "\<exists>m'. on_fst (model_call (po_forward P ts n)) (m, s) = (Inr (last_logits V logits kf ts), m', s) \<and> Q (kf @ ts) m'"
proof -
  obtain m' where "po_forward P ts (length kf) m = (Inr (last_logits V logits kf ts), m')" "Q (kf @ ts) m'"
    using assms(1-4) unfolding local_law_def by blast
  then show ?thesis by (simp add: assms(5) on_fst_def model_call_def smap_err_def map_err_def)
qed

lemma sample_local:
  assumes "greedy_cfg cfg" "h_data h \<noteq> []" "sm_temperature s = sg_temperature cfg"
  shows "on_snd (sample_next A cfg (h_data h) toks) (m, s) = (Inr (argmax_logits (h_data h)), m, s)"
  by (simp add: on_snd_def sample_next_greedy [OF assms])

lemma generate_loop_greedy:
  assumes law: "local_law P N V logits Q" and cfg: "greedy_cfg cfg" and len: "\<And>ctx. logits ctx \<noteq> []"
    and emit: "\<And>toks t. tk_emit T toks t = None"
    and "Q toks m" "sm_temperature s = sg_temperature cfg" "t = next_token logits toks" "length toks + left \<le> N"
  shows "\<exists>st. generate_loop P A T cfg left toks t (m, s) = (Inr (greedy (next_token logits) (tk_is_eos T) left toks), st)"
  using assms(5-8)
proof (induction left arbitrary: toks m t)
  case 0
  then show ?case by (simp add: slift_def)
next
  case (Suc left)
  show ?case
  proof (cases "tk_is_eos T t")
    case True
    then show ?thesis using Suc.prems(3) by (simp add: slift_def)
  next
    case False
    let ?toks = "toks @ [t]"
    let ?h = "last_logits V logits toks [t]"
    obtain m1 where f: "on_fst (model_call (po_forward P [t] (length toks))) (m, s) = (Inr ?h, m1, s)" and Q1: "Q ?toks m1"
      using local_forward [OF law Suc.prems(1) _ _ refl, of "[t]"] Suc.prems(4) by fastforce
    have smp: "on_snd (sample_next A cfg (h_data ?h) ?toks) (m1, s) = (Inr (next_token logits ?toks), m1, s)"
      using sample_local [OF cfg _ Suc.prems(2), of ?h] len by (simp add: next_token_def last_logits_data)
    obtain st where l: "generate_loop P A T cfg left ?toks (next_token logits ?toks) (m1, s) =
        (Inr (greedy (next_token logits) (tk_is_eos T) left ?toks), st)"
      using Suc.IH [OF Q1 Suc.prems(2) refl] Suc.prems(4) by auto
    have g: "greedy (next_token logits) (tk_is_eos T) (Suc left) toks = t # greedy (next_token logits) (tk_is_eos T) left ?toks"
      using False Suc.prems(3) by simp
    show ?thesis
      unfolding g using False
      by (simp add: Let_def emit_ok [OF emit] sbind_slift_Inr sbind_app f smp [simplified] l [simplified] slift_def)
  qed
qed

lemma generate_greedy:
  assumes law: "local_law P N V logits Q" and cfg: "greedy_cfg cfg" and len: "\<And>ctx. logits ctx \<noteq> []"
    and emit: "\<And>toks t. tk_emit T toks t = None"
    and enc: "tk_encode T prompt = Inr toks" "toks \<noteq> []" and Q: "Q kf m" and N: "length toks + sg_max_new_tokens cfg \<le> N"
  shows "\<exists>st. generate P A T cfg rng prompt m =
    (Inr (greedy (next_token logits) (tk_is_eos T) (sg_max_new_tokens cfg) toks), st)"
proof -
  let ?s = "sampler_new cfg rng" and ?h = "last_logits V logits [] toks"
  have s: "sm_temperature ?s = sg_temperature cfg" by (simp add: sampler_new_def)
  have Q0: "Q [] (po_reset P m)" using law Q unfolding local_law_def by blast
  obtain m1 where f: "on_fst (model_call (po_forward P toks 0)) (po_reset P m, ?s) = (Inr ?h, m1, ?s)" and Q1: "Q toks m1"
    using local_forward [OF law Q0 enc(2), of 0] N by fastforce
  have smp: "on_snd (sample_next A cfg (h_data ?h) toks) (m1, ?s) = (Inr (next_token logits toks), m1, ?s)"
    using sample_local [OF cfg _ s, of ?h] len by (simp add: next_token_def last_logits_data)
  have e: "encode_prompt T prompt = Inr toks" by (simp add: encode_prompt_def enc)
  obtain st where l: "generate_loop P A T cfg (sg_max_new_tokens cfg) toks (next_token logits toks) (m1, ?s) =
      (Inr (greedy (next_token logits) (tk_is_eos T) (sg_max_new_tokens cfg) toks), st)"
    using generate_loop_greedy [OF law cfg len emit Q1 s refl N] by blast
  show ?thesis by (simp add: generate_def e sbind_slift_Inr sbind_app f smp [simplified] l [simplified])
qed

text \<open>Two greedy choosers give the same text exactly as long as they choose alike.\<close>

lemma greedy_nth:
  "i < length (greedy f eos n ctx) \<Longrightarrow> greedy f eos n ctx ! i = f (ctx @ take i (greedy f eos n ctx))"
proof (induction n arbitrary: ctx i)
  case (Suc n)
  then show ?case by (cases i) (auto split: if_splits)
qed simp

lemma greedy_agree:
  assumes "\<forall>i<k. f (ctx @ take i (greedy f eos n ctx)) = g (ctx @ take i (greedy f eos n ctx))"
  shows "take k (greedy g eos n ctx) = take k (greedy f eos n ctx)"
  using assms
proof (induction n arbitrary: ctx k)
  case (Suc n)
  show ?case
  proof (cases k)
    case (Suc j)
    then have "f ctx = g ctx" using Suc.prems by (auto dest: spec [of _ 0])
    moreover have "take j (greedy g eos n (ctx @ [f ctx])) = take j (greedy f eos n (ctx @ [f ctx]))" if "\<not> eos (f ctx)"
    proof (intro Suc.IH allI impI)
      fix i assume "i < j"
      then show "f ((ctx @ [f ctx]) @ take i (greedy f eos n (ctx @ [f ctx]))) = g ((ctx @ [f ctx]) @ take i (greedy f eos n (ctx @ [f ctx])))"
        using Suc.prems [rule_format, of "Suc i"] Suc that by simp
    qed
    ultimately show ?thesis using Suc by simp
  qed simp
qed simp

lemma greedy_agree_conv:
  assumes "k \<le> length (greedy f eos n ctx)" "take k (greedy g eos n ctx) = take k (greedy f eos n ctx)" "i < k"
  shows "f (ctx @ take i (greedy f eos n ctx)) = g (ctx @ take i (greedy f eos n ctx))"
proof -
  let ?f = "greedy f eos n ctx" and ?g = "greedy g eos n ctx"
  have l: "i < length ?g" using arg_cong [OF assms(2), of length] assms(1,3) by (simp add: min_def split: if_splits)
  have "?f ! i = ?g ! i" using arg_cong [OF assms(2), of "\<lambda>xs. xs ! i"] assms(3) by simp
  moreover have "take i ?g = take i ?f" using arg_cong [OF assms(2), of "take i"] assms(3) by (simp add: min_def)
  ultimately show ?thesis using greedy_nth [OF l] greedy_nth [of i f eos n ctx] assms(1,3) by simp
qed

text \<open>
  C19. Running a model locally and running it split over peers part only where the numbers part: with
  greedy sampling, whatever logits the chain computes and whatever other logits the whole model computes
  locally, on every prompt that fits the context window both \<open>run_turn\<close> and \<open>generate\<close> return a text, and
  the two agree on their first \<open>k\<close> tokens exactly as long as the argmax of the two logits is the same at
  each of the first \<open>k\<close> contexts of the chain's own text (the end of the text included: one more common
  argmax there and the texts are equal). Positions, resets, end-of-text tests, token limits and detokenising
  add no difference. That the argmax survives the rounding of the wire is not a claim here; the repository's
  test \<open>bit_identical.rs\<close> measures it.
\<close>

theorem local_agrees_with_chain:
  assumes "causal_target P E (unat (cn_front_end (dv_chain d))) N V logits R" "local_law P' N V' logits' Q" "greedy_cfg cfg"
    and "\<And>toks t. tk_emit T toks t = None" "tk_encode T prompt = Inr toks" "toks \<noteq> []"
    and "R kf [] d" "Q kl m" "length toks + sg_max_new_tokens cfg \<le> N"
  shows "\<exists>gen gen'. fst (run_turn P E A T cfg rng prompt d) = Inr gen \<and> fst (generate P' A T cfg rng' prompt m) = Inr gen' \<and>
     (\<forall>k. (\<forall>i<k. next_token logits (toks @ take i gen) = next_token logits' (toks @ take i gen)) \<longrightarrow> take k gen' = take k gen) \<and>
     (\<forall>k\<le>length gen. take k gen' = take k gen \<longrightarrow>
        (\<forall>i<k. next_token logits (toks @ take i gen) = next_token logits' (toks @ take i gen)))"
proof -
  let ?g = "\<lambda>L. greedy (next_token L) (tk_is_eos T) (sg_max_new_tokens cfg) toks"
  obtain d' where r: "run_turn P E A T cfg rng prompt d = (Inr (?g logits), d')"
    using turn_greedy [OF assms(1,3-7,9), of A rng] by auto
  have ne: "\<And>ctx. logits' ctx \<noteq> []" using assms(2) by (simp add: local_law_def)
  obtain st where l: "generate P' A T cfg rng' prompt m = (Inr (?g logits'), st)"
    using generate_greedy [OF assms(2,3) ne assms(4-6,8,9), of A rng'] by auto
  show ?thesis
  proof (intro exI conjI)
    show "fst (run_turn P E A T cfg rng prompt d) = Inr (?g logits)" by (simp add: r)
    show "fst (generate P' A T cfg rng' prompt m) = Inr (?g logits')" by (simp add: l)
  qed (blast intro: greedy_agree, blast dest: greedy_agree_conv)
qed

text \<open>A local model with other logits, which chooses as the chain does at the first context and ends the text at the next.\<close>

definition early_logits :: "u32 list \<Rightarrow> f32 list" where
  "early_logits ctx = (if length ctx < 3 then [F32_ONE, F32_ONE] else [0, F32_ONE])"

lemma early_next_token: "next_token early_logits ctx = (if length ctx < 3 then 0 else 1)"
  by (simp add: next_token_def early_logits_def argmax_logits_def argmax_fold_def enumerate_eq_zip
      f32_gt_def F32_ONE_def NEG_INFINITY_def f32_is_nan_def f32_mag_def f32_key_def)

lemma toy_local: "(\<And>ctx. L ctx \<noteq> []) \<Longrightarrow> local_law (toy_ops L) N 2 L (=)"
  by (auto simp: local_law_def toy_ops_def last_logits_def)

lemma local_agrees_with_chain_witness:
  "\<exists>gen'. fst (run_turn (toy_ops sample_logits) echo_env sample_arith sample_tok (sample_sampling 7) 0 ''hi'' sample_driver) = Inr [0, 0] \<and>
     fst (generate (toy_ops early_logits) sample_arith sample_tok (sample_sampling 7) 0 ''hi'' []) = Inr gen' \<and>
     take 1 gen' = [0] \<and> take 2 gen' \<noteq> [0, 0]"
proof -
  let ?n = "\<lambda>gen i. next_token sample_logits ([5, 6] @ take i gen)" and ?n' = "\<lambda>gen i. next_token early_logits ([5, 6] @ take i gen)"
  have e: "tk_emit sample_tok toks t = None" for toks t by (simp add: sample_tok_def)
  have p: "tk_encode sample_tok ''hi'' = Inr [5, 6]" by (simp add: sample_tok_def)
  have h: "sample_holds [] [] sample_driver" by (simp add: sample_holds_def sample_driver_def exI [of _ 0])
  have n: "length [5, 6 :: u32] + sg_max_new_tokens (sample_sampling 7) \<le> 2 ^ 20" by (simp add: sample_sampling_def)
  have ne: "[5, 6 :: u32] \<noteq> []" by simp
  have q: "local_law (toy_ops early_logits) (2 ^ 20) 2 early_logits (=)" by (rule toy_local) (simp add: early_logits_def)
  have g: "greedy (next_token sample_logits) (tk_is_eos sample_tok) (sg_max_new_tokens (sample_sampling 7)) [5, 6] = [0, 0]"
    by (simp add: sample_sampling_def sample_next_token sample_tok_def numeral_eq_Suc)
  have t: "fst (run_turn (toy_ops sample_logits) echo_env sample_arith sample_tok (sample_sampling 7) 0 ''hi'' sample_driver) = Inr [0, 0]"
    using turn_greedy [OF sample_target sample_greedy_cfg e p _ h n, of sample_arith 0] g by auto
  obtain gen gen' where r: "fst (run_turn (toy_ops sample_logits) echo_env sample_arith sample_tok (sample_sampling 7) 0 ''hi'' sample_driver) = Inr gen"
      "fst (generate (toy_ops early_logits) sample_arith sample_tok (sample_sampling 7) 0 ''hi'' []) = Inr gen'"
    and a: "\<forall>k. (\<forall>i<k. ?n gen i = ?n' gen i) \<longrightarrow> take k gen' = take k gen"
    and b: "\<forall>k\<le>length gen. take k gen' = take k gen \<longrightarrow> (\<forall>i<k. ?n gen i = ?n' gen i)"
    using local_agrees_with_chain [OF sample_target q sample_greedy_cfg e p ne h refl n, of sample_arith 0 0] by blast
  have "gen = [0, 0]" using r(1) t by simp
  then have "take 1 gen' = [0]" "take 2 gen' \<noteq> [0, 0]"
    using a [rule_format, of 1] b [rule_format, of 2 1] by (auto simp: sample_next_token early_next_token)
  then show ?thesis using t r(2) by blast
qed

end
