(* ===== verification/Fetch.thy ===== *)
theory Fetch
  imports Chunker Stitch
begin

text \<open>
  The HTTP chunk fetcher, \<open>crates/model-store/src/http.rs\<close>: manifest download under a size cap, and
  verified chunk downloads into the cache with resumption of partial files. The server is the
  parameter \<open>hl_get\<close> over a state \<open>'w\<close>, and may answer anything; URLs are an opaque \<open>'u\<close> of the \<open>url\<close> crate.
  The downloads of one call run concurrently, on different files when the CIDs are plain names; they
  are sequenced, in the order of the list.
\<close>

section \<open>Plans, outcomes, errors\<close>

record fetch_options =
  cache_root :: path
  fo_resume :: bool
  max_manifest_bytes :: u64

text \<open>The cache root on Unix; \<open>env\<close> holds the environment's paths, \<open>tmp\<close> is the temporary directory.\<close>

definition default_cache_root :: "(string \<Rightarrow> path option) \<Rightarrow> path \<Rightarrow> path" where
  "default_cache_root env tmp =
     (case env ''XDG_CACHE_HOME'' of
        Some x \<Rightarrow> join (join x ''intelnav'') ''models''
      | None \<Rightarrow> (case env ''HOME'' of
          Some h \<Rightarrow> join (join (join h ''.cache'') ''intelnav'') ''models''
        | None \<Rightarrow> join tmp ''intelnav-cache''))"

definition default_options :: "path \<Rightarrow> fetch_options" where
  "default_options root = \<lparr>cache_root = root, fo_resume = True, max_manifest_bytes = 64 * 1024 * 1024\<rparr>"

datatype fetch_plan = FullPlan | BundlesPlan "string list"

definition for_range :: "manifest \<Rightarrow> u32 \<Rightarrow> u32 \<Rightarrow> fetch_plan" where
  "for_range m s e =
     BundlesPlan ((if s = 0 then [''embed''] else []) @
       map (\<lambda>n. ''blk.'' @ dec_digits n) [unat s..<unat e] @
       (if e = m_n_layers m then [''head''] else []))"

record fetched_manifest =
  fm_dir :: path
  fm_manifest :: manifest
  fm_cid :: string
  fm_url :: string

record fetch_outcome =
  ft_dir :: path
  ft_manifest :: manifest
  ft_manifest_cid :: string
  ft_downloaded :: u64
  ft_reused :: u64

record fetch_one =
  fo_size :: u64
  fo_cached :: bool

datatype fetch_error =
    GetFailed string
  | HttpStatus nat
  | ManifestLength u64 u64
  | ManifestTooLong u64
  | StreamBroken
  | ParsingManifestJson
  | ParsingUrl string
  | NoBundle string
  | JoinUrl string
  | SizeMismatch string u64 u64
  | HashMismatch string string

text \<open>A response: the body arrives in pieces, and the connection may break after them.\<close>

record http_reply =
  hr_status :: nat
  hr_length :: "u64 option"
  hr_body :: "bytes list"
  hr_broken :: bool

record ('u, 'w) http_lib =
  hl_get :: "'u \<Rightarrow> u64 option \<Rightarrow> 'w \<Rightarrow> (string + http_reply) \<times> 'w"
  hl_parse :: "string \<Rightarrow> 'u option"
  hl_segments :: "'u \<Rightarrow> string list option"
  hl_set_path :: "string \<Rightarrow> 'u \<Rightarrow> 'u"
  hl_join :: "'u \<Rightarrow> string \<Rightarrow> 'u option"

record ('u, 'w) fetch_env =
  fx_sha :: sha
  fx_cs :: cid_str
  fx_json :: from_json
  fx_http :: "('u, 'w) http_lib"

text \<open>\<open>send().await?.error_for_status()?\<close>\<close>

definition http_get :: "('u, 'w) http_lib \<Rightarrow> 'u \<Rightarrow> u64 option \<Rightarrow> 'w \<Rightarrow> (fetch_error fault + http_reply) \<times> 'w" where
  "http_get L u from w =
     (case hl_get L u from w of (r, w') \<Rightarrow>
       (rbind (map_err (\<lambda>e. Fail (GetFailed e)) r) (\<lambda>r.
          if 400 \<le> hr_status r \<and> hr_status r < 600 then Inl (Fail (HttpStatus (hr_status r))) else Inr r), w'))"

section \<open>The manifest\<close>

fun read_capped :: "u64 \<Rightarrow> bytes \<Rightarrow> bytes list \<Rightarrow> fetch_error fault + bytes" where
  "read_capped mx buf [] = Inr buf"
| "read_capped mx buf (b # bs) =
     (if mx < word_of_nat (length buf) + word_of_nat (length b) then Inl (Fail (ManifestTooLong mx))
      else read_capped mx (buf @ b) bs)"

definition fetch_manifest_bytes :: "('u, 'w) http_lib \<Rightarrow> 'u \<Rightarrow> u64 \<Rightarrow> 'w \<Rightarrow> (fetch_error fault + bytes) \<times> 'w" where
  "fetch_manifest_bytes L u mx w =
     (case http_get L u None w of (r, w') \<Rightarrow>
       (rbind r (\<lambda>r.
          case hr_length r of
            Some len \<Rightarrow> if mx < len then Inl (Fail (ManifestLength len mx)) else
              rbind (read_capped mx [] (hr_body r)) (\<lambda>bs. if hr_broken r then Inl (Fail StreamBroken) else Inr bs)
          | None \<Rightarrow> rbind (read_capped mx [] (hr_body r)) (\<lambda>bs. if hr_broken r then Inl (Fail StreamBroken) else Inr bs)), w'))"

definition fetch_manifest_only :: "('u, 'w) fetch_env \<Rightarrow> string \<Rightarrow> fetch_options \<Rightarrow> fs \<Rightarrow> 'w \<Rightarrow>
    (fetch_error fault + fetched_manifest) \<times> fs \<times> 'w" where
  "fetch_manifest_only E url opts fs w =
     (case hl_parse (fx_http E) url of
        None \<Rightarrow> (Inl (Fail (GetFailed url)), fs, w)
      | Some u \<Rightarrow>
     (case fetch_manifest_bytes (fx_http E) u (max_manifest_bytes opts) w of
        (Inl e, w') \<Rightarrow> (Inl e, fs, w')
      | (Inr bs, w') \<Rightarrow>
          (case from_json_bytes (fx_json E) bs of
             None \<Rightarrow> (Inl (Fail ParsingManifestJson), fs, w')
           | Some m \<Rightarrow>
               let cid = cid_string_for (fx_sha E) (fx_cs E) bs; dir = join (cache_root opts) cid
               in (Inr \<lparr>fm_dir = dir, fm_manifest = m, fm_cid = cid, fm_url = url\<rparr>,
                   write_file (join dir ''manifest.json'') bs fs, w'))))"

section \<open>One chunk\<close>

text \<open>The identifier comes from the manifest and is not checked before it becomes a file name.\<close>

definition cached_file :: "path \<Rightarrow> string \<Rightarrow> path" where
  "cached_file dir cid = resolve_name dir (cid @ ''.bin'')"

definition chunk_tmp :: "path \<Rightarrow> string \<Rightarrow> path" where
  "chunk_tmp dir cid = resolve_name dir (cid @ ''.bin.tmp'')"

definition cache_hit :: "sha \<Rightarrow> cid_str \<Rightarrow> chunk \<Rightarrow> path \<Rightarrow> fs \<Rightarrow> bool" where
  "cache_hit sha cs c dir fs \<longleftrightarrow>
     (case read_file fs (cached_file dir (ch_cid c)) of
        None \<Rightarrow> False
      | Some bs \<Rightarrow> word_of_nat (length bs) = ch_size c \<and> cid_string_for sha cs bs = ch_cid c)"

text \<open>The bytes of a partial download to go on from, and the files left.\<close>

definition resume_point :: "chunk \<Rightarrow> path \<Rightarrow> bool \<Rightarrow> fs \<Rightarrow> bytes \<times> fs" where
  "resume_point c dir resume fs =
     (if \<not> resume then ([], fs)
      else case read_file fs (chunk_tmp dir (ch_cid c)) of
        None \<Rightarrow> ([], fs)
      | Some p \<Rightarrow> if word_of_nat (length p) < ch_size c then (p, fs) else ([], remove_file (chunk_tmp dir (ch_cid c)) fs))"

text \<open>
  What the body leaves: the temporary file holds what was kept and the body, a complete and verified
  one is renamed. The count starts from the resume point whether the server resumed or not.
\<close>

definition finish_chunk :: "sha \<Rightarrow> cid_str \<Rightarrow> chunk \<Rightarrow> path \<Rightarrow> bytes \<Rightarrow> http_reply \<Rightarrow> fs \<Rightarrow> (fetch_error fault + fetch_one) \<times> fs" where
  "finish_chunk sha cs c dir p r fs =
     (let tmp = chunk_tmp dir (ch_cid c);
          kept = (if hr_status r = 206 \<and> p \<noteq> [] then p else []);
          content = kept @ concat (hr_body r);
          total = word_of_nat (length p) + word_of_nat (length (concat (hr_body r))) :: u64;
          fs1 = write_file tmp content fs
      in if hr_broken r then (Inl (Fail StreamBroken), fs1)
         else if total \<noteq> ch_size c then (Inl (Fail (SizeMismatch (ch_cid c) (ch_size c) total)), remove_file tmp fs1)
         else case cid_string_from_sha256 cs (sha content) of
           Inl f \<Rightarrow> (Inl f, fs1)
         | Inr actual \<Rightarrow>
             if actual \<noteq> ch_cid c then (Inl (Fail (HashMismatch (ch_cid c) actual)), remove_file tmp fs1)
             else (Inr \<lparr>fo_size = ch_size c, fo_cached = False\<rparr>, rename_file tmp (cached_file dir (ch_cid c)) fs1))"

definition fetch_chunk :: "('u, 'w) fetch_env \<Rightarrow> 'u \<Rightarrow> path \<Rightarrow> chunk \<Rightarrow> bool \<Rightarrow> fs \<Rightarrow> 'w \<Rightarrow>
    (fetch_error fault + fetch_one) \<times> fs \<times> 'w" where
  "fetch_chunk E base dir c resume fs w =
     (if cache_hit (fx_sha E) (fx_cs E) c dir fs then (Inr \<lparr>fo_size = ch_size c, fo_cached = True\<rparr>, fs, w)
      else let fs1 = remove_file (cached_file dir (ch_cid c)) fs
      in case hl_join (fx_http E) base (''chunks/'' @ ch_cid c @ ''.bin'') of
           None \<Rightarrow> (Inl (Fail (JoinUrl (ch_cid c))), fs1, w)
         | Some u \<Rightarrow>
             (case resume_point c dir resume fs1 of (p, fs2) \<Rightarrow>
             (case http_get (fx_http E) u (if p = [] then None else Some (word_of_nat (length p))) w of
                (Inl e, w') \<Rightarrow> (Inl e, fs2, w')
              | (Inr r, w') \<Rightarrow> (case finish_chunk (fx_sha E) (fx_cs E) c dir p r fs2 of (res, fs3) \<Rightarrow> (res, fs3, w')))))"

section \<open>All chunks\<close>

definition derive_chunk_base :: "('u, 'w) http_lib \<Rightarrow> string \<Rightarrow> fetch_error fault + 'u" where
  "derive_chunk_base L url =
     rbind (ok_or (Fail (ParsingUrl url)) (hl_parse L url)) (\<lambda>u.
       let segs = (case hl_segments L u of Some s \<Rightarrow> s | None \<Rightarrow> [])
       in if segs \<noteq> [] \<and> last segs = ''manifest.json''
          then Inr (hl_set_path L (if length segs \<le> 1 then ''/''
                     else ''/'' @ concat (map (\<lambda>s. s @ ''/'') (butlast segs))) u)
          else Inr u)"

fun dedup_chunks :: "string list \<Rightarrow> chunk list \<Rightarrow> chunk list" where
  "dedup_chunks seen [] = []"
| "dedup_chunks seen (c # cs) =
     (if ch_cid c \<in> set seen then dedup_chunks seen cs else c # dedup_chunks (ch_cid c # seen) cs)"

definition bundle_chunk :: "bundle_entry \<Rightarrow> chunk" where
  "bundle_chunk b = \<lparr>ch_cid = be_cid b, ch_size = be_size b\<rparr>"

definition wanted_chunks :: "manifest \<Rightarrow> fetch_plan \<Rightarrow> fetch_error fault + chunk list" where
  "wanted_chunks m plan =
     (case plan of
        FullPlan \<Rightarrow> Inr (m_header_chunk m # map bundle_chunk (m_bundles m))
      | BundlesPlan names \<Rightarrow>
          rbind (mapM (\<lambda>n. ok_or (Fail (NoBundle n)) (List.find (\<lambda>b. be_name b = n) (m_bundles m))) names) (\<lambda>bs.
            Inr (m_header_chunk m # map bundle_chunk bs)))"

fun fetch_all :: "('u, 'w) fetch_env \<Rightarrow> 'u \<Rightarrow> path \<Rightarrow> bool \<Rightarrow> chunk list \<Rightarrow> fs \<Rightarrow> 'w \<Rightarrow>
    (fetch_error fault + fetch_one) list \<times> fs \<times> 'w" where
  "fetch_all E base dir resume [] fs w = ([], fs, w)"
| "fetch_all E base dir resume (c # cs) fs w =
     (case fetch_chunk E base dir c resume fs w of (r, fs1, w1) \<Rightarrow>
       (case fetch_all E base dir resume cs fs1 w1 of (rs, fs2, w2) \<Rightarrow> (r # rs, fs2, w2)))"

definition sum_sizes :: "bool \<Rightarrow> fetch_one list \<Rightarrow> u64" where
  "sum_sizes cached fs = sum_list (map fo_size (filter (\<lambda>f. fo_cached f = cached) fs))"

definition fetch_chunks :: "('u, 'w) fetch_env \<Rightarrow> fetched_manifest \<Rightarrow> fetch_plan \<Rightarrow> fetch_options \<Rightarrow> fs \<Rightarrow> 'w \<Rightarrow>
    (fetch_error fault + fetch_outcome) \<times> fs \<times> 'w" where
  "fetch_chunks E fetched plan opts fs w =
     (case derive_chunk_base (fx_http E) (fm_url fetched) of
        Inl e \<Rightarrow> (Inl e, fs, w)
      | Inr base \<Rightarrow>
     (case wanted_chunks (fm_manifest fetched) plan of
        Inl e \<Rightarrow> (Inl e, fs, w)
      | Inr wanted \<Rightarrow>
     (case fetch_all E base (join (fm_dir fetched) ''chunks'') (fo_resume opts) (dedup_chunks [] wanted) fs w of
        (rs, fs', w') \<Rightarrow>
          (rbind (mapM id rs) (\<lambda>fs.
             Inr \<lparr>ft_dir = fm_dir fetched, ft_manifest = fm_manifest fetched, ft_manifest_cid = fm_cid fetched,
                  ft_downloaded = sum_sizes False fs, ft_reused = sum_sizes True fs\<rparr>), fs', w'))))"

definition fetch_manifest_and_chunks :: "('u, 'w) fetch_env \<Rightarrow> string \<Rightarrow> fetch_plan \<Rightarrow> fetch_options \<Rightarrow> fs \<Rightarrow> 'w \<Rightarrow>
    (fetch_error fault + fetch_outcome) \<times> fs \<times> 'w" where
  "fetch_manifest_and_chunks E url plan opts fs w =
     (case fetch_manifest_only E url opts fs w of
        (Inl e, fs', w') \<Rightarrow> (Inl e, fs', w')
      | (Inr f, fs', w') \<Rightarrow> fetch_chunks E f plan opts fs' w')"

section \<open>What ends up in the cache\<close>

lemma bin_ext: "plain_name ''.bin''" "2 < length ''.bin''" "plain_name ''.bin.tmp''" "2 < length ''.bin.tmp''"
  by (simp_all add: plain_name_def)

lemma cached_plain:
  "plain_name cid \<Longrightarrow> cached_file dir cid = chunk_file dir cid"
  "plain_name cid \<Longrightarrow> chunk_tmp dir cid = join dir (cid @ ''.bin.tmp'')"
  by (simp_all add: cached_file_def chunk_tmp_def chunk_file_def resolve_name_plain bin_ext)

lemma chunk_bin_not_tmp [simp]: "cached_file d c \<noteq> chunk_tmp d c" "chunk_tmp d c \<noteq> cached_file d c"
proof -
  show "cached_file d c \<noteq> chunk_tmp d c"
    unfolding cached_file_def chunk_tmp_def resolve_name_ext [OF bin_ext(1,2)] resolve_name_ext [OF bin_ext(3,4)] by simp
  then show "chunk_tmp d c \<noteq> cached_file d c" by metis
qed

lemma plain_bin_not_tmp: "plain_name c \<Longrightarrow> plain_name c' \<Longrightarrow> cached_file d c \<noteq> chunk_tmp d c'"
proof -
  have "last (c @ ''.bin'') \<noteq> last (c' @ ''.bin.tmp'')" by simp
  then have "c @ ''.bin'' \<noteq> c' @ ''.bin.tmp''" by metis
  then show "plain_name c \<Longrightarrow> plain_name c' \<Longrightarrow> cached_file d c \<noteq> chunk_tmp d c'" by (simp add: cached_plain chunk_file_def)
qed

lemma plain_inject:
  "plain_name c \<Longrightarrow> plain_name c' \<Longrightarrow> cached_file d c = cached_file d c' \<longleftrightarrow> c = c'"
  "plain_name c \<Longrightarrow> plain_name c' \<Longrightarrow> chunk_tmp d c = chunk_tmp d c' \<longleftrightarrow> c = c'"
  by (simp_all add: cached_plain)

text \<open>The file of a chunk holds bytes with its identifier; a hit in the cache also has its size.\<close>

definition verified :: "sha \<Rightarrow> cid_str \<Rightarrow> path \<Rightarrow> fs \<Rightarrow> string \<Rightarrow> bool" where
  "verified sha cs dir fs cid \<longleftrightarrow>
     (\<exists>bs. read_file fs (cached_file dir cid) = Some bs \<and> cid_string_for sha cs bs = cid)"

text \<open>
  What the program relies on of the CID crate: the text of a CID is a plain name, without slashes (it is
  in base 32).
\<close>

definition cid_plain :: "sha \<Rightarrow> cid_str \<Rightarrow> bool" where
  "cid_plain sha cs \<longleftrightarrow> (\<forall>bs. plain_name (cid_string_for sha cs bs))"

lemma verified_plain: "verified sha cs dir fs cid \<Longrightarrow> cid_plain sha cs \<Longrightarrow> plain_name cid"
  by (auto simp: verified_def cid_plain_def)

lemma cache_hit_verified: "cache_hit sha cs c dir fs \<Longrightarrow> verified sha cs dir fs (ch_cid c)"
  by (auto simp: cache_hit_def verified_def split: option.splits)

text \<open>One download changes nothing but its own two files, and leaves its chunk verified or absent.\<close>

definition own_files :: "path \<Rightarrow> string \<Rightarrow> path set" where
  "own_files dir cid = {cached_file dir cid, chunk_tmp dir cid}"

definition chunk_effect :: "sha \<Rightarrow> cid_str \<Rightarrow> path \<Rightarrow> string \<Rightarrow> fs \<Rightarrow> bool \<Rightarrow> fs \<Rightarrow> bool" where
  "chunk_effect sha cs dir cid fs ok fs' \<longleftrightarrow>
     (\<forall>q. q \<notin> own_files dir cid \<longrightarrow> read_file fs' q = read_file fs q) \<and>
     (if ok then verified sha cs dir fs' cid else read_file fs' (cached_file dir cid) = None)"

lemma resume_point_files:
  assumes "resume_point c dir resume fs = (p, fs')" "q \<noteq> chunk_tmp dir (ch_cid c)"
  shows "read_file fs' q = read_file fs q"
  using assms by (auto simp: resume_point_def file_simps split: if_splits option.splits)

lemma finish_chunk_effect:
  assumes "sha_sized sha" "read_file fs (cached_file dir (ch_cid c)) = None"
    and "finish_chunk sha cs c dir p r fs = (res, fs')"
  shows "chunk_effect sha cs dir (ch_cid c) fs (\<not> isl res) fs'"
proof -
  let ?tmp = "chunk_tmp dir (ch_cid c)"
  let ?content = "(if hr_status r = 206 \<and> p \<noteq> [] then p else []) @ concat (hr_body r)"
  let ?total = "word_of_nat (length p) + word_of_nat (length (concat (hr_body r))) :: u64"
  note d = assms(3) [unfolded finish_chunk_def Let_def cid_string_from_sha256_eq [OF assms(1)]]
  show ?thesis
  proof (cases "hr_broken r \<or> ?total \<noteq> ch_size c \<or> cid_string_for sha cs ?content \<noteq> ch_cid c")
    case True
    then show ?thesis using d assms(2) by (auto simp: chunk_effect_def own_files_def file_simps split: if_splits)
  next
    case False
    then have fs': "fs' = rename_file ?tmp (cached_file dir (ch_cid c)) (write_file ?tmp ?content fs)" "\<not> isl res"
      and cid: "cid_string_for sha cs ?content = ch_cid c"
      using d by auto
    have rd: "read_file (write_file ?tmp ?content fs) ?tmp = Some ?content" by (simp add: file_simps)
    show ?thesis unfolding fs'(1) using fs'(2) cid
      by (simp add: chunk_effect_def own_files_def verified_def read_rename_file [OF rd] read_write_file)
  qed
qed

lemma fetch_chunk_effect:
  assumes "sha_sized (fx_sha E)" "fetch_chunk E base dir c resume fs w = (res, fs', w')"
  shows "chunk_effect (fx_sha E) (fx_cs E) dir (ch_cid c) fs (\<not> isl res) fs'"
proof (cases "cache_hit (fx_sha E) (fx_cs E) c dir fs")
  case True
  then show ?thesis using assms(2) cache_hit_verified [OF True] by (auto simp: fetch_chunk_def chunk_effect_def)
next
  case False
  let ?fs1 = "remove_file (cached_file dir (ch_cid c)) fs"
  note d = assms(2) [unfolded fetch_chunk_def if_not_P [OF False] Let_def]
  show ?thesis
  proof (cases "hl_join (fx_http E) base (''chunks/'' @ ch_cid c @ ''.bin'')")
    case None
    then show ?thesis using d by (auto simp: chunk_effect_def own_files_def file_simps)
  next
    case (Some u)
    obtain p fs2 where p: "resume_point c dir resume ?fs1 = (p, fs2)" by fastforce
    have fs2: "read_file fs2 q = (if q = cached_file dir (ch_cid c) then None else read_file fs q)"
      if "q \<noteq> chunk_tmp dir (ch_cid c)" for q
      using resume_point_files [OF p that] by (simp add: file_simps)
    obtain g w1 where g: "http_get (fx_http E) u (if p = [] then None else Some (word_of_nat (length p))) w = (g, w1)" by fastforce
    show ?thesis
    proof (cases g)
      case (Inl e)
      then have "fs' = fs2" "isl res" using d Some p g by auto
      then show ?thesis using fs2 by (auto simp: chunk_effect_def own_files_def)
    next
      case (Inr r)
      obtain fs3 where f: "finish_chunk (fx_sha E) (fx_cs E) c dir p r fs2 = (res, fs')"
        using d Some p g Inr by (auto split: prod.splits)
      from finish_chunk_effect [OF assms(1) _ f] fs2 show ?thesis
        by (auto simp: chunk_effect_def own_files_def)
    qed
  qed
qed

lemma own_files_disjoint:
  assumes "plain_name cid" "plain_name cid'" "cid \<noteq> cid'" shows "own_files dir cid \<inter> own_files dir cid' = {}"
  using plain_bin_not_tmp [OF assms(1,2), of dir] plain_bin_not_tmp [OF assms(2,1), of dir]
    plain_inject [OF assms(1,2), of dir] assms(3) by (auto simp: own_files_def)

lemma own_files_inside: "plain_name cid \<Longrightarrow> q \<in> own_files dir cid \<Longrightarrow> butlast q = dir"
  by (auto simp: own_files_def cached_plain chunk_file_def join_def)

lemma dedup_chunks_cids:
  "distinct (map ch_cid (dedup_chunks seen cs)) \<and>
   set (map ch_cid (dedup_chunks seen cs)) = set (map ch_cid cs) - set seen"
  by (induction seen cs rule: dedup_chunks.induct) auto

lemma fetch_all_effect:
  assumes "sha_sized (fx_sha E)" "distinct (map ch_cid cs)" "fetch_all E base dir resume cs fs w = (rs, fs', w')"
  shows "length rs = length cs \<and>
    (\<forall>q. q \<notin> (\<Union>c \<in> set cs. own_files dir (ch_cid c)) \<longrightarrow> read_file fs' q = read_file fs q) \<and>
    ((\<forall>c \<in> set cs. plain_name (ch_cid c)) \<longrightarrow> (\<forall>i < length cs. if isl (rs ! i) then read_file fs' (cached_file dir (ch_cid (cs ! i))) = None
      else verified (fx_sha E) (fx_cs E) dir fs' (ch_cid (cs ! i)))) \<and>
    (cid_plain (fx_sha E) (fx_cs E) \<longrightarrow> (\<forall>i < length cs. \<not> isl (rs ! i) \<longrightarrow> plain_name (ch_cid (cs ! i))))"
  using assms(2,3)
proof (induction cs arbitrary: fs w rs)
  case (Cons c cs)
  obtain r fs1 w1 where r: "fetch_chunk E base dir c resume fs w = (r, fs1, w1)" by (metis prod.exhaust)
  obtain rs1 where rs: "fetch_all E base dir resume cs fs1 w1 = (rs1, fs', w')" "rs = r # rs1"
    using Cons.prems(2) r by (auto split: prod.splits)
  note e = fetch_chunk_effect [OF assms(1) r]
  note ih = Cons.IH [OF _ rs(1)]
  have d: "distinct (map ch_cid cs)" "ch_cid c \<notin> set (map ch_cid cs)" using Cons.prems(1) by simp_all
  note ih = ih [OF d(1)]
  have hd: "if isl r then read_file fs' (cached_file dir (ch_cid c)) = None else verified (fx_sha E) (fx_cs E) dir fs' (ch_cid c)"
    if plain: "\<forall>c \<in> set (c # cs). plain_name (ch_cid c)"
  proof -
    have "cached_file dir (ch_cid c) \<in> own_files dir (ch_cid c)" by (simp add: own_files_def)
    then have "cached_file dir (ch_cid c) \<notin> own_files dir (ch_cid c')" if "c' \<in> set cs" for c'
      using own_files_disjoint [of "ch_cid c" "ch_cid c'" dir] plain d(2) that by auto
    then have "read_file fs' (cached_file dir (ch_cid c)) = read_file fs1 (cached_file dir (ch_cid c))" using ih by blast
    then show ?thesis using e by (auto simp: chunk_effect_def verified_def split: if_splits)
  qed
  have frame: "read_file fs' q = read_file fs q" if "q \<notin> (\<Union>c \<in> set (c # cs). own_files dir (ch_cid c))" for q
    using that ih e by (auto simp: chunk_effect_def)
  show ?case
  proof (intro conjI allI impI)
    show "length rs = length (c # cs)" using ih rs(2) by simp
  next
    fix q assume "q \<notin> (\<Union>c \<in> set (c # cs). own_files dir (ch_cid c))"
    then show "read_file fs' q = read_file fs q" by (rule frame)
  next
    fix i assume "\<forall>c \<in> set (c # cs). plain_name (ch_cid c)" "i < length (c # cs)"
    then show "if isl (rs ! i) then read_file fs' (cached_file dir (ch_cid ((c # cs) ! i))) = None
        else verified (fx_sha E) (fx_cs E) dir fs' (ch_cid ((c # cs) ! i))"
      using hd ih rs(2) by (cases i) auto
  next
    fix i assume p: "cid_plain (fx_sha E) (fx_cs E)" and i: "i < length (c # cs)" "\<not> isl (rs ! i)"
    have "plain_name (ch_cid c)" if "\<not> isl r"
      using e that verified_plain [OF _ p] by (auto simp: chunk_effect_def)
    then show "plain_name (ch_cid ((c # cs) ! i))" using ih p i rs(2) by (cases i) auto
  qed
qed auto

lemma mapM_id_Inr: "mapM id rs = Inr ys \<longleftrightarrow> rs = map Inr ys"
  by (induction rs arbitrary: ys) (auto simp: results Cons_eq_map_conv)

lemma fetch_chunks_files:
  assumes "sha_sized (fx_sha E)" "fetch_chunks E f plan opts fs w = (r, fs', w')"
    and "wanted_chunks (fm_manifest f) plan = Inr ws"
  shows "(\<forall>q. q \<notin> (\<Union>c \<in> set ws. own_files (join (fm_dir f) ''chunks'') (ch_cid c)) \<longrightarrow> read_file fs' q = read_file fs q) \<and>
    ((\<forall>c \<in> set ws. plain_name (ch_cid c)) \<longrightarrow>
      (\<forall>c \<in> set ws. \<forall>q \<in> own_files (join (fm_dir f) ''chunks'') (ch_cid c). butlast q = join (fm_dir f) ''chunks'') \<and>
      (\<forall>c \<in> set ws. read_file fs' (cached_file (join (fm_dir f) ''chunks'') (ch_cid c)) \<noteq> read_file fs (cached_file (join (fm_dir f) ''chunks'') (ch_cid c)) \<longrightarrow>
        read_file fs' (cached_file (join (fm_dir f) ''chunks'') (ch_cid c)) = None \<or>
        verified (fx_sha E) (fx_cs E) (join (fm_dir f) ''chunks'') fs' (ch_cid c))) \<and>
    (cid_plain (fx_sha E) (fx_cs E) \<longrightarrow> \<not> isl r \<longrightarrow>
      (\<forall>c \<in> set ws. plain_name (ch_cid c) \<and> verified (fx_sha E) (fx_cs E) (join (fm_dir f) ''chunks'') fs' (ch_cid c)))"
proof (cases "derive_chunk_base (fx_http E) (fm_url f)")
  case (Inl e)
  then show ?thesis using assms(2) by (auto simp: fetch_chunks_def own_files_inside)
next
  case (Inr base)
  let ?d = "join (fm_dir f) ''chunks''" and ?cs = "dedup_chunks [] ws"
  obtain rs fs1 w1 where rs1: "fetch_all E base ?d (fo_resume opts) ?cs fs w = (rs, fs1, w1)" by (metis prod.exhaust)
  have same: "fs1 = fs'" "w1 = w'" and r: "\<not> isl r \<Longrightarrow> \<exists>ys. rs = map Inr ys"
    using assms(2,3) Inr rs1 by (auto simp: fetch_chunks_def isl_def) (cases "mapM id rs"; auto simp: mapM_id_Inr)
  note rs = rs1 [unfolded same]
  have dd: "distinct (map ch_cid ?cs)" "set (map ch_cid ?cs) = set (map ch_cid ws)"
    using dedup_chunks_cids [of "[]" ws] by auto
  note e = fetch_all_effect [OF assms(1) dd(1) rs]
  have files: "(\<Union>c \<in> set ?cs. own_files ?d (ch_cid c)) = (\<Union>c \<in> set ws. own_files ?d (ch_cid c))"
    using arg_cong [OF dd(2), of "\<lambda>S. \<Union> (own_files ?d ` S)"] by simp
  have each: "\<exists>i < length ?cs. ch_cid (?cs ! i) = ch_cid c" if "c \<in> set ws" for c
  proof -
    have "ch_cid c \<in> set (map ch_cid ?cs)" using that unfolding dd(2) by simp
    then show ?thesis by (metis in_set_conv_nth length_map nth_map)
  qed
  have plain: "\<forall>c \<in> set ?cs. plain_name (ch_cid c)" if "\<forall>c \<in> set ws. plain_name (ch_cid c)"
  proof
    fix c assume "c \<in> set ?cs"
    then have "ch_cid c \<in> set (map ch_cid ws)" using dd(2) by auto
    then show "plain_name (ch_cid c)" using that by auto
  qed
  have at: "if isl (rs ! i) then read_file fs' (cached_file ?d (ch_cid (?cs ! i))) = None
      else verified (fx_sha E) (fx_cs E) ?d fs' (ch_cid (?cs ! i))"
    if "\<forall>c \<in> set ws. plain_name (ch_cid c)" "i < length ?cs" for i
    using e plain [OF that(1)] that(2) by blast
  show ?thesis
  proof (intro conjI allI impI ballI)
    fix q assume "q \<notin> (\<Union>c \<in> set ws. own_files ?d (ch_cid c))"
    then show "read_file fs' q = read_file fs q" using e unfolding files by blast
  next
    fix c q assume "\<forall>c \<in> set ws. plain_name (ch_cid c)" "c \<in> set ws" "q \<in> own_files ?d (ch_cid c)"
    then show "butlast q = ?d" using own_files_inside by blast
  next
    fix c assume p: "\<forall>c \<in> set ws. plain_name (ch_cid c)" and "c \<in> set ws"
    then obtain i where "i < length ?cs" "ch_cid (?cs ! i) = ch_cid c" using each by blast
    then show "read_file fs' (cached_file ?d (ch_cid c)) = None \<or> verified (fx_sha E) (fx_cs E) ?d fs' (ch_cid c)"
      using at [OF p] by (metis (no_types, lifting))
  next
    fix c assume p: "cid_plain (fx_sha E) (fx_cs E)" and ok: "\<not> isl r" and c: "c \<in> set ws"
    obtain ys where ys: "rs = map Inr ys" using r ok by blast
    have all: "\<forall>c \<in> set ws. plain_name (ch_cid c)"
    proof
      fix c' assume "c' \<in> set ws"
      then obtain j where "j < length ?cs" "ch_cid (?cs ! j) = ch_cid c'" using each by blast
      then show "plain_name (ch_cid c')" using e p ys by (metis (no_types, lifting) length_map nth_map sum.disc(2))
    qed
    then show "plain_name (ch_cid c)" using c by blast
    obtain i where "i < length ?cs" "ch_cid (?cs ! i) = ch_cid c" using each c by blast
    then show "verified (fx_sha E) (fx_cs E) ?d fs' (ch_cid c)"
      using at [OF all] e ys by (metis (no_types, lifting) length_map nth_map sum.disc(2))
  qed
qed

text \<open>
  C20. What a fetch does to the files. Whatever the server sends and whatever the manifest says,
  \<open>fetch_chunks\<close> touches no file but the two that each wanted identifier names. When the identifiers
  are plain names (no slash), these files lie directly in the chunk directory, and every chunk file
  that changed is gone or holds bytes with its identifier, so the cache holds no unverified
  download. When the call succeeds, the identifiers were plain names, the text of a CID being one, and
  every wanted chunk is there, verified: a hostile manifest never passes. Until it fails, though, an
  identifier with slashes names files elsewhere, which are created or removed (\<open>hostile_cid_escapes\<close>).
\<close>

theorem fetched_chunks_verified:
  assumes "sha_sized (fx_sha E)" "fetch_chunks E f plan opts fs w = (r, fs', w')"
    and "wanted_chunks (fm_manifest f) plan = Inr ws"
  shows "(\<forall>q. q \<notin> (\<Union>c \<in> set ws. own_files (join (fm_dir f) ''chunks'') (ch_cid c)) \<longrightarrow> read_file fs' q = read_file fs q) \<and>
    ((\<forall>c \<in> set ws. plain_name (ch_cid c)) \<longrightarrow>
      (\<forall>c \<in> set ws. \<forall>q \<in> own_files (join (fm_dir f) ''chunks'') (ch_cid c). butlast q = join (fm_dir f) ''chunks'') \<and>
      (\<forall>c \<in> set ws. read_file fs' (cached_file (join (fm_dir f) ''chunks'') (ch_cid c)) \<noteq> read_file fs (cached_file (join (fm_dir f) ''chunks'') (ch_cid c)) \<longrightarrow>
        read_file fs' (cached_file (join (fm_dir f) ''chunks'') (ch_cid c)) = None \<or>
        verified (fx_sha E) (fx_cs E) (join (fm_dir f) ''chunks'') fs' (ch_cid c))) \<and>
    (cid_plain (fx_sha E) (fx_cs E) \<longrightarrow> \<not> isl r \<longrightarrow>
      (\<forall>c \<in> set ws. plain_name (ch_cid c) \<and> verified (fx_sha E) (fx_cs E) (join (fm_dir f) ''chunks'') fs' (ch_cid c)))"
  by (rule fetch_chunks_files [OF assms])

text \<open>
  The condition on the identifiers is needed: with the identifier \<open>../../x\<close> an interrupted download
  leaves its bytes two directories above the chunks, before anything was verified.
\<close>

theorem hostile_cid_escapes:
  assumes "\<not> cache_hit sha cs \<lparr>ch_cid = ''../../x'', ch_size = n\<rparr> (d @ [a, ''chunks'']) fs" "hr_broken r"
    and "finish_chunk sha cs \<lparr>ch_cid = ''../../x'', ch_size = n\<rparr> (d @ [a, ''chunks'']) p r fs = (res, fs')"
  shows "cached_file (d @ [a, ''chunks'']) ''../../x'' = d @ [''x.bin''] \<and>
    read_file fs' (d @ [''x.bin.tmp'']) = Some ((if hr_status r = 206 \<and> p \<noteq> [] then p else []) @ concat (hr_body r))"
proof -
  have c: "cached_file (d @ [a, ''chunks'']) ''../../x'' = d @ [''x.bin'']"
    "chunk_tmp (d @ [a, ''chunks'']) ''../../x'' = d @ [''x.bin.tmp'']"
    by (simp_all add: cached_file_def chunk_tmp_def resolve_name_def step_path_def butlast_append)
  then show ?thesis using assms(2,3) by (auto simp: finish_chunk_def Let_def file_simps)
qed

section \<open>A fetched range is a stitchable range\<close>

text \<open>
  A manifest as the chunker writes it: bundle names are canonical and distinct, and a recorded size is
  the size of the bytes with that identifier.
\<close>

definition honest_manifest :: "sha \<Rightarrow> cid_str \<Rightarrow> manifest \<Rightarrow> bool" where
  "honest_manifest sha cs m \<longleftrightarrow>
     (\<exists>ks. map be_name (m_bundles m) = map bundle_name ks) \<and> distinct (map be_name (m_bundles m)) \<and>
     (\<forall>c \<in> set (m_header_chunk m # map bundle_chunk (m_bundles m)).
        \<forall>bs. cid_string_for sha cs bs = ch_cid c \<longrightarrow> word_of_nat (length bs) = ch_size c)"

definition range_of :: "manifest \<Rightarrow> u32 \<Rightarrow> u32 \<Rightarrow> stitch_range" where
  "range_of m s e = \<lparr>sr_start = s, sr_end = e, include_embed = (s = 0), include_head = (e = m_n_layers m)\<rparr>"

lemma cached_file_resolved:
  "plain_name cid \<Longrightarrow> read_file fs (cached_file (join cache ''chunks'') cid) \<noteq> None \<Longrightarrow>
    chunks_dir_resolve fs cache cid = cached_file (join cache ''chunks'') cid"
  by (simp add: chunks_dir_resolve_def cached_plain chunk_file_def)

lemma verified_stitch_read:
  assumes "verified sha cs (join cache ''chunks'') fs cid" "plain_name cid"
  shows "\<exists>bs. stitch_read_chunk sha cs fs cache cid = Inr bs \<and> cid_string_for sha cs bs = cid"
  using assms cached_file_resolved [of cid fs cache] by (auto simp: verified_def stitch_read_chunk_def)

lemma selects_bundle_name:
  "selects r (bundle_name k) = Inr (case k of Embed \<Rightarrow> include_embed r | Head \<Rightarrow> include_head r
     | Block n \<Rightarrow> sr_start r \<le> n \<and> n < sr_end r)"
proof (cases k)
  case (Block n)
  have p: "parse_uint (2 ^ 32) (dec_digits (unat n)) = Some (unat n)"
    using unat_u32_less by (intro parse_uint_digits) simp
  have "strip_prefix (''blk.'' @ dec_digits (unat n)) ''blk.'' = Some (dec_digits (unat n))" by (rule strip_prefix_append)
  then show ?thesis using p by (simp add: Block selects_def word_le_nat_alt word_less_nat_alt)
qed (simp_all add: selects_def)

lemma for_range_selects:
  assumes "selects (range_of m s e) (bundle_name k) = Inr True"
  shows "case for_range m s e of BundlesPlan names \<Rightarrow> bundle_name k \<in> set names | FullPlan \<Rightarrow> False"
  using assms [unfolded selects_bundle_name]
  by (cases k) (auto simp: range_of_def for_range_def word_le_nat_alt word_less_nat_alt)

lemma open_bundles_ok:
  assumes "\<And>b. b \<in> set bs \<Longrightarrow> \<exists>inc. selects r (be_name b) = Inr inc \<and>
      (inc \<longrightarrow> (\<exists>mm. read_file fs (chunks_dir_resolve fs cache (be_cid b)) = Some mm \<and> word_of_nat (length mm) = be_size b))"
  shows "\<exists>ms. open_bundles fs cache r bs = Inr ms"
  using assms
proof (induction bs)
  case (Cons b bs)
  obtain inc where i: "selects r (be_name b) = Inr inc"
    "inc \<Longrightarrow> \<exists>mm. read_file fs (chunks_dir_resolve fs cache (be_cid b)) = Some mm \<and> word_of_nat (length mm) = be_size b"
    using Cons.prems [of b] by auto
  obtain ms where "open_bundles fs cache r bs = Inr ms" using Cons by auto
  then show ?case using i by (cases inc) auto
qed simp

lemma verified_range_opens:
  assumes h: "honest_manifest sha cs m" and plain: "cid_plain sha cs" and ws: "wanted_chunks m (for_range m s e) = Inr ws"
    and ver: "\<And>c. c \<in> set ws \<Longrightarrow> verified sha cs (join dir ''chunks'') fs' (ch_cid c)"
  shows "(\<exists>hb. stitch_read_chunk sha cs fs' dir (ch_cid (m_header_chunk m)) = Inr hb \<and>
      word_of_nat (length hb) = ch_size (m_header_chunk m)) \<and>
    (\<exists>ms. open_bundles fs' dir (range_of m s e) (m_bundles m) = Inr ms)"
proof -
  let ?d = "join dir ''chunks''" and ?r = "range_of m s e"
  obtain names where n: "for_range m s e = BundlesPlan names" by (simp add: for_range_def)
  obtain bs where bs: "mapM (\<lambda>n. ok_or (Fail (NoBundle n)) (List.find (\<lambda>b. be_name b = n) (m_bundles m))) names = (Inr bs :: fetch_error fault + bundle_entry list)"
    and ws': "ws = m_header_chunk m # map bundle_chunk bs"
    using ws unfolding n by (auto simp: wanted_chunks_def results)
  note h = h [unfolded honest_manifest_def]
  have pl: "plain_name (ch_cid c)" if "c \<in> set ws" for c by (rule verified_plain [OF ver [OF that] plain])
  have hdr: "\<exists>hb. stitch_read_chunk sha cs fs' dir (ch_cid (m_header_chunk m)) = Inr hb \<and>
      word_of_nat (length hb) = ch_size (m_header_chunk m)"
    using verified_stitch_read [OF ver [of "m_header_chunk m"] pl] h by (auto simp: ws')
  have sel: "\<exists>inc. selects ?r (be_name b) = Inr inc \<and>
      (inc \<longrightarrow> (\<exists>mm. read_file fs' (chunks_dir_resolve fs' dir (be_cid b)) = Some mm \<and> word_of_nat (length mm) = be_size b))"
    if b: "b \<in> set (m_bundles m)" for b
  proof -
    obtain ks where "map be_name (m_bundles m) = map bundle_name ks" using h by blast
    then have "be_name b \<in> bundle_name ` set ks" using b by (metis image_eqI list.set_map)
    then obtain k where k: "be_name b = bundle_name k" by blast
    have "\<exists>mm. read_file fs' (chunks_dir_resolve fs' dir (be_cid b)) = Some mm \<and> word_of_nat (length mm) = be_size b"
      if "selects ?r (be_name b) = Inr True"
    proof -
      have "bundle_name k \<in> set names" using for_range_selects that n unfolding k by fastforce
      then obtain i where i: "i < length names" "names ! i = be_name b" unfolding k by (metis in_set_conv_nth)
      have "ok_or (Fail (NoBundle (names ! i))) (List.find (\<lambda>b. be_name b = names ! i) (m_bundles m)) = (Inr (bs ! i) :: fetch_error fault + bundle_entry)"
        and "i < length bs"
        using bs i(1) by (auto simp: mapM_Inr_iff dest: list_all2_nthD list_all2_lengthD)
      then have f: "List.find (\<lambda>b'. be_name b' = be_name b) (m_bundles m) = Some (bs ! i)" by (simp add: i(2) results)
      then have "bs ! i \<in> set (m_bundles m)" "be_name (bs ! i) = be_name b" by (auto simp: find_Some_iff)
      then have "bs ! i = b" using b h by (meson distinct_map inj_onD)
      then have mem: "bundle_chunk b \<in> set ws" using \<open>i < length bs\<close> by (auto simp: ws')
      obtain mm where mm: "read_file fs' (cached_file ?d (be_cid b)) = Some mm" "cid_string_for sha cs mm = be_cid b"
        using ver [OF mem] by (auto simp: verified_def bundle_chunk_def)
      have "word_of_nat (length mm) = be_size b"
        using h b mm(2) by (fastforce simp: bundle_chunk_def)
      then show ?thesis using mm(1) cached_file_resolved [of "be_cid b" fs' dir] pl [OF mem] by (simp add: bundle_chunk_def)
    qed
    then show ?thesis unfolding k selects_bundle_name by (auto split: if_splits)
  qed
  show ?thesis using hdr open_bundles_ok [OF sel] by blast
qed

text \<open>
  C25. What a peer fetches for a layer range is what the stitcher needs: after a successful fetch of
  \<open>for_range\<close>, the header chunk reads back verified and with its recorded size, and opening the bundles
  of that range succeeds, so neither a missing chunk nor a wrong size can fail the stitch.
\<close>

theorem fetched_range_opens:
  assumes "sha_sized (fx_sha E)" "cid_plain (fx_sha E) (fx_cs E)" "honest_manifest (fx_sha E) (fx_cs E) (fm_manifest f)"
    and "fetch_chunks E f (for_range (fm_manifest f) s e) opts fs w = (Inr out, fs', w')"
  shows "ft_dir out = fm_dir f \<and>
    (\<exists>hb. stitch_read_chunk (fx_sha E) (fx_cs E) fs' (ft_dir out) (ch_cid (m_header_chunk (fm_manifest f))) = Inr hb \<and>
      word_of_nat (length hb) = ch_size (m_header_chunk (fm_manifest f))) \<and>
    (\<exists>ms. open_bundles fs' (ft_dir out) (range_of (fm_manifest f) s e) (m_bundles (fm_manifest f)) = Inr ms)"
proof -
  let ?m = "fm_manifest f" and ?d = "join (fm_dir f) ''chunks''"
  obtain ws where ws: "wanted_chunks ?m (for_range ?m s e) = Inr ws"
    using assms(4) by (auto simp: fetch_chunks_def split: sum.splits)
  have dir: "ft_dir out = fm_dir f"
    using assms(4) by (auto simp: fetch_chunks_def results split: sum.splits prod.splits)
  have "verified (fx_sha E) (fx_cs E) ?d fs' (ch_cid c)" if "c \<in> set ws" for c
    using fetch_chunks_files [OF assms(1,4) ws] that assms(2) by simp
  then show ?thesis unfolding dir using verified_range_opens [OF assms(3,2) ws] by blast
qed

section \<open>Honest servers\<close>

lemma fetch_chunk_whole:
  assumes sha: "sha_sized (fx_sha E)" and miss: "\<not> cache_hit (fx_sha E) (fx_cs E) c dir fs"
    and join: "hl_join (fx_http E) base (''chunks/'' @ ch_cid c @ ''.bin'') = Some u"
    and rp: "resume_point c dir resume (remove_file (cached_file dir (ch_cid c)) fs) = ([], fs2)"
    and get: "hl_get (fx_http E) u None w = (Inr r, w')" "hr_status r < 400" "\<not> hr_broken r"
    and body: "word_of_nat (length (concat (hr_body r))) = ch_size c" "cid_string_for (fx_sha E) (fx_cs E) (concat (hr_body r)) = ch_cid c"
  shows "fetch_chunk E base dir c resume fs w =
    (Inr \<lparr>fo_size = ch_size c, fo_cached = False\<rparr>,
     rename_file (chunk_tmp dir (ch_cid c)) (cached_file dir (ch_cid c)) (write_file (chunk_tmp dir (ch_cid c)) (concat (hr_body r)) fs2), w')"
  using miss join rp get body sha
  by (simp add: fetch_chunk_def http_get_def finish_chunk_def Let_def)

text \<open>A digest of 32 letters: the halves of the bytes of the length.\<close>

definition letters :: "byte \<Rightarrow> bytes" where
  "letters b = [97 + word_of_nat (unat b div 16), 97 + word_of_nat (unat b mod 16)]"

definition length_sha :: sha where
  "length_sha bs = concat (map letters (le_bytes 16 (length bs)))"

lemma unat_letter: "n < 16 \<Longrightarrow> unat (97 + word_of_nat n :: byte) = 97 + n"
  by (simp add: unat_word_ariths unat_of_nat)

lemma letters_inject: "letters b = letters c \<longleftrightarrow> b = c"
proof
  have h: "unat x div 16 < 16" for x :: byte using unat_byte_less [of x] by simp
  assume "letters b = letters c"
  then have "unat (97 + word_of_nat (unat b div 16) :: byte) = unat (97 + word_of_nat (unat c div 16) :: byte)"
    "unat (97 + word_of_nat (unat b mod 16) :: byte) = unat (97 + word_of_nat (unat c mod 16) :: byte)"
    by (simp_all only: letters_def list.inject)
  then have "unat b div 16 = unat c div 16" "unat b mod 16 = unat c mod 16" by (simp_all add: unat_letter h)
  then have "unat b = unat c" by (metis div_mult_mod_eq)
  then show "b = c" by (rule unsigned_word_eqI)
qed simp

lemma concat_letters_inject: "length xs = length ys \<Longrightarrow> concat (map letters xs) = concat (map letters ys) \<longleftrightarrow> xs = ys"
proof (induction xs ys rule: list_induct2)
  case (Cons x xs y ys)
  have "length (letters x) = length (letters y)" by (simp add: letters_def)
  then show ?case using Cons.IH letters_inject by auto
qed simp

lemma length_sha_sized: "sha_sized length_sha"
  by (simp add: sha_sized_def length_sha_def length_concat comp_def letters_def sum_list_triv)

lemma length_sha_cid:
  assumes "cid_string_for length_sha sample_cs xs = cid_string_for length_sha sample_cs ys"
  shows "(word_of_nat (length xs) :: u64) = word_of_nat (length ys)"
proof -
  have "str_bytes (bytes_str (length_sha xs)) = str_bytes (bytes_str (length_sha ys))"
    using assms by (simp add: cid_string_for_def sample_cs_def)
  then have "le_bytes 16 (length xs) = le_bytes 16 (length ys)" by (simp add: length_sha_def concat_letters_inject)
  then have "length xs mod 256 ^ 16 = length ys mod 256 ^ 16" by (metis le_nat_le_bytes)
  then have "length xs mod 256 ^ 16 mod 2 ^ 64 = length ys mod 256 ^ 16 mod 2 ^ 64" by simp
  moreover have "n mod 256 ^ 16 mod 2 ^ 64 = n mod 2 ^ 64" for n :: nat
    by (rule mod_mod_cancel) (simp add: le_imp_power_dvd)
  ultimately have "length xs mod 2 ^ 64 = length ys mod 2 ^ 64" by simp
  then show ?thesis by (simp add: word_of_nat_eq_iff take_bit_eq_mod)
qed

lemma slash_byte: "CHR ''/'' = char_of (unat (b :: byte)) \<Longrightarrow> unat b = 47"
proof -
  assume "CHR ''/'' = char_of (unat b)"
  then have "(of_char (CHR ''/'') :: nat) = of_char (char_of (unat b) :: char)" by simp
  then show "unat b = 47" using unat_byte_less [of b] by simp
qed

lemma length_sha_plain: "cid_plain length_sha sample_cs"
proof -
  have "unat b \<noteq> 47" if "b \<in> set (letters c)" for b c
  proof -
    have "unat c div 16 < 16" using unat_byte_less [of c] by simp
    then have "97 \<le> unat b" using that by (auto simp: letters_def unat_letter)
    then show ?thesis by simp
  qed
  then show ?thesis
    by (auto simp: cid_plain_def plain_name_def cid_string_for_def sample_cs_def length_sha_def bytes_str_def dest!: slash_byte)
qed

definition head_bytes :: bytes where "head_bytes = [1, 2, 3]"
definition block_bytes :: bytes where "block_bytes = [9, 9]"

definition demo_chunk :: "bytes \<Rightarrow> chunk" where
  "demo_chunk bs = \<lparr>ch_cid = cid_string_for length_sha sample_cs bs, ch_size = word_of_nat (length bs)\<rparr>"

definition demo_manifest :: manifest where
  "demo_manifest = \<lparr>m_format = ''intelnav-model'', m_version = 2, m_name = None, m_architecture = None, m_n_layers = 3,
     m_gguf = \<lparr>gi_version = 3, gi_alignment = 32, gi_tensor_data_offset = 0, gi_n_kv = 0, gi_n_tensors = 0\<rparr>,
     m_header_chunk = demo_chunk head_bytes,
     m_bundles = [\<lparr>be_name = bundle_name (Block 1), be_layer_range = None, be_cid = ch_cid (demo_chunk block_bytes),
       be_size = ch_size (demo_chunk block_bytes), be_members = []\<rparr>]\<rparr>"

definition demo_http :: "(string, unit) http_lib" where
  "demo_http = \<lparr>hl_get = (\<lambda>u from w. (Inr \<lparr>hr_status = 200, hr_length = None,
       hr_body = [if u = ''chunks/'' @ ch_cid (demo_chunk head_bytes) @ ''.bin'' then head_bytes else block_bytes], hr_broken = False\<rparr>, w)),
     hl_parse = Some, hl_segments = (\<lambda>_. None), hl_set_path = (\<lambda>_ u. u), hl_join = (\<lambda>_ s. Some s)\<rparr>"

definition demo_env :: "(string, unit) fetch_env" where
  "demo_env = \<lparr>fx_sha = length_sha, fx_cs = sample_cs, fx_json = (\<lambda>_. Some demo_manifest), fx_http = demo_http\<rparr>"

definition demo_fetched :: fetched_manifest where
  "demo_fetched = \<lparr>fm_dir = [''d''], fm_manifest = demo_manifest, fm_cid = ''c'', fm_url = ''u''\<rparr>"

definition demo_opts :: fetch_options where
  "demo_opts = \<lparr>cache_root = [''d''], fo_resume = True, max_manifest_bytes = 1000\<rparr>"

lemma demo_cids: "ch_cid (demo_chunk block_bytes) \<noteq> ch_cid (demo_chunk head_bytes)"
proof
  assume "ch_cid (demo_chunk block_bytes) = ch_cid (demo_chunk head_bytes)"
  then have "(word_of_nat (length block_bytes) :: u64) = word_of_nat (length head_bytes)"
    by (intro length_sha_cid) (simp add: demo_chunk_def)
  then show False by (simp add: block_bytes_def head_bytes_def)
qed

lemma plain_demo: "bs = head_bytes \<or> bs = block_bytes \<Longrightarrow> plain_name (ch_cid (demo_chunk bs))"
  using length_sha_plain by (simp add: cid_plain_def demo_chunk_def)

lemma demo_honest: "honest_manifest length_sha sample_cs demo_manifest"
proof -
  have size: "\<forall>bs. cid_string_for length_sha sample_cs bs = ch_cid (demo_chunk xs) \<longrightarrow> word_of_nat (length bs) = ch_size (demo_chunk xs)" for xs
  proof (intro allI impI)
    fix bs assume "cid_string_for length_sha sample_cs bs = ch_cid (demo_chunk xs)"
    then have "(word_of_nat (length bs) :: u64) = word_of_nat (length xs)" by (intro length_sha_cid) (simp add: demo_chunk_def)
    then show "word_of_nat (length bs) = ch_size (demo_chunk xs)" by (simp add: demo_chunk_def)
  qed
  have "map be_name (m_bundles demo_manifest) = map bundle_name [Block 1]" by (simp add: demo_manifest_def del: bundle_name.simps)
  moreover have "m_header_chunk demo_manifest # map bundle_chunk (m_bundles demo_manifest) = [demo_chunk head_bytes, demo_chunk block_bytes]"
    by (simp add: demo_manifest_def bundle_chunk_def)
  ultimately show ?thesis unfolding honest_manifest_def using size [of head_bytes] size [of block_bytes]
    by (metis distinct_length_2_or_more distinct_singleton list.set_cases list.simps(8) list.simps(9) set_ConsD)
qed

lemma demo_wanted: "wanted_chunks demo_manifest (for_range demo_manifest 1 2) = Inr [demo_chunk head_bytes, demo_chunk block_bytes]"
  by (simp add: wanted_chunks_def for_range_def demo_manifest_def bundle_chunk_def upt_conv_Cons)

lemma demo_fetch_at:
  assumes "fm_manifest f = demo_manifest" "fo_resume opts"
    and fresh: "\<forall>c q. plain_name c \<longrightarrow> q \<in> own_files (join (fm_dir f) ''chunks'') c \<longrightarrow> read_file fs q = None"
  shows "\<exists>out fs'. fetch_chunks demo_env f (for_range demo_manifest 1 2) opts fs () = (Inr out, fs', ())"
proof -
  let ?d = "join (fm_dir f) ''chunks''" and ?u = "fm_url f"
  have one: "\<exists>fs'. fetch_chunk demo_env u ?d (demo_chunk bs) True fs () = (Inr \<lparr>fo_size = ch_size (demo_chunk bs), fo_cached = False\<rparr>, fs', ()) \<and>
      (\<forall>q. q \<notin> own_files ?d (ch_cid (demo_chunk bs)) \<longrightarrow> read_file fs' q = read_file fs q)"
    if "bs = head_bytes \<or> bs = block_bytes" "\<forall>q \<in> own_files ?d (ch_cid (demo_chunk bs)). read_file fs q = None" for bs fs u
  proof -
    let ?f = "cached_file ?d (ch_cid (demo_chunk bs))" and ?t = "chunk_tmp ?d (ch_cid (demo_chunk bs))"
    have n: "read_file fs ?f = None" "read_file fs ?t = None" using that(2) by (simp_all add: own_files_def)
    have rp: "resume_point (demo_chunk bs) ?d True (remove_file ?f fs) = ([], remove_file ?f fs)"
      using n by (simp add: resume_point_def file_simps)
    have miss: "\<not> cache_hit (fx_sha demo_env) (fx_cs demo_env) (demo_chunk bs) ?d fs" using n by (simp add: cache_hit_def)
    have j: "hl_join (fx_http demo_env) u (''chunks/'' @ ch_cid (demo_chunk bs) @ ''.bin'') = Some (''chunks/'' @ ch_cid (demo_chunk bs) @ ''.bin'')"
      by (simp add: demo_env_def demo_http_def)
    have eq: "''chunks/'' @ ch_cid (demo_chunk bs) @ ''.bin'' = ''chunks/'' @ ch_cid (demo_chunk head_bytes) @ ''.bin'' \<longleftrightarrow> bs = head_bytes"
      using that(1) demo_cids by auto
    have g: "hl_get (fx_http demo_env) (''chunks/'' @ ch_cid (demo_chunk bs) @ ''.bin'') None () =
        (Inr \<lparr>hr_status = 200, hr_length = None, hr_body = [bs], hr_broken = False\<rparr>, ())"
      using that(1) unfolding demo_env_def demo_http_def fetch_env.simps http_lib.simps eq by (cases "bs = head_bytes") simp_all
    have sz: "sha_sized (fx_sha demo_env)" using length_sha_sized by (simp add: demo_env_def)
    let ?r = "\<lparr>hr_status = 200, hr_length = None, hr_body = [bs], hr_broken = False\<rparr>"
    have ok: "hr_status ?r < 400" "\<not> hr_broken ?r" "word_of_nat (length (concat (hr_body ?r))) = ch_size (demo_chunk bs)"
      "cid_string_for (fx_sha demo_env) (fx_cs demo_env) (concat (hr_body ?r)) = ch_cid (demo_chunk bs)"
      by (simp_all add: demo_env_def demo_chunk_def)
    have "concat (hr_body ?r) = bs" by simp
    then have "fetch_chunk demo_env u ?d (demo_chunk bs) True fs () = (Inr \<lparr>fo_size = ch_size (demo_chunk bs), fo_cached = False\<rparr>,
        rename_file ?t ?f (write_file ?t bs (remove_file ?f fs)), ())"
      using fetch_chunk_whole [OF sz miss j rp g ok] by (simp only:)
    moreover have "read_file (write_file ?t bs (remove_file ?f fs)) ?t = Some bs" by (simp add: file_simps)
    ultimately show ?thesis by (auto simp: own_files_def read_rename_file file_simps)
  qed
  have dd: "dedup_chunks [] [demo_chunk head_bytes, demo_chunk block_bytes] = [demo_chunk head_bytes, demo_chunk block_bytes]"
    using demo_cids by simp
  obtain fs1 where f1: "fetch_chunk demo_env ?u ?d (demo_chunk head_bytes) True fs () =
      (Inr \<lparr>fo_size = ch_size (demo_chunk head_bytes), fo_cached = False\<rparr>, fs1, ())"
    "\<forall>q. q \<notin> own_files ?d (ch_cid (demo_chunk head_bytes)) \<longrightarrow> read_file fs1 q = read_file fs q"
    using one [of head_bytes fs ?u] fresh plain_demo [of head_bytes] by auto
  have "\<forall>q \<in> own_files ?d (ch_cid (demo_chunk block_bytes)). read_file fs1 q = None"
    using f1(2) fresh plain_demo [of block_bytes] own_files_disjoint [OF plain_demo plain_demo demo_cids, of ?d] by auto
  then obtain fs2 where f2: "fetch_chunk demo_env ?u ?d (demo_chunk block_bytes) True fs1 () =
      (Inr \<lparr>fo_size = ch_size (demo_chunk block_bytes), fo_cached = False\<rparr>, fs2, ())"
    using one [of block_bytes fs1 ?u] by auto
  have b: "derive_chunk_base (fx_http demo_env) ?u = Inr ?u"
    by (simp add: derive_chunk_base_def demo_env_def demo_http_def)
  have w: "wanted_chunks (fm_manifest f) (for_range demo_manifest 1 2) = Inr [demo_chunk head_bytes, demo_chunk block_bytes]"
    using demo_wanted assms(1) by simp
  show ?thesis using f1(1) f2 assms(2)
    by (simp add: fetch_chunks_def b w dd)
qed

lemma demo_fetch_ok: "\<exists>out fs'. fetch_chunks demo_env demo_fetched (for_range demo_manifest 1 2) demo_opts [] () = (Inr out, fs', ())"
  by (rule demo_fetch_at) (simp_all add: demo_fetched_def demo_opts_def read_file_def)

lemma fetched_range_opens_witness:
  "\<exists>out fs' ms. fetch_chunks demo_env demo_fetched (for_range demo_manifest 1 2) demo_opts [] () = (Inr out, fs', ()) \<and>
     open_bundles fs' (ft_dir out) (range_of demo_manifest 1 2) (m_bundles demo_manifest) = Inr ms"
proof -
  obtain out fs' where f: "fetch_chunks demo_env demo_fetched (for_range demo_manifest 1 2) demo_opts [] () = (Inr out, fs', ())"
    using demo_fetch_ok by blast
  have e: "fx_sha demo_env = length_sha" "fx_cs demo_env = sample_cs" "fm_manifest demo_fetched = demo_manifest"
    by (simp_all add: demo_env_def demo_fetched_def)
  show ?thesis using fetched_range_opens [of demo_env demo_fetched 1 2, unfolded e, OF length_sha_sized length_sha_plain demo_honest f] f by blast
qed

lemma fetched_chunks_verified_witness:
  "\<exists>out fs'. fetch_chunks demo_env demo_fetched (for_range demo_manifest 1 2) demo_opts [] () = (Inr out, fs', ()) \<and>
     verified length_sha sample_cs [''d'', ''chunks''] fs' (ch_cid (demo_chunk block_bytes))"
proof -
  obtain out fs' where f: "fetch_chunks demo_env demo_fetched (for_range demo_manifest 1 2) demo_opts [] () = (Inr out, fs', ())"
    using demo_fetch_ok by blast
  have e: "fx_sha demo_env = length_sha" "fx_cs demo_env = sample_cs" "fm_manifest demo_fetched = demo_manifest"
    "join (fm_dir demo_fetched) ''chunks'' = [''d'', ''chunks'']"
    by (simp_all add: demo_env_def demo_fetched_def join_def)
  show ?thesis using fetched_chunks_verified [of demo_env demo_fetched, unfolded e, OF length_sha_sized f demo_wanted] f length_sha_plain by auto
qed

end
