(* ===== verification/Serve.thy ===== *)
theory Serve
  imports Fetch
begin

text \<open>
  The chunk server, \<open>crates/model-store/src/serve.rs\<close>: the handlers of the single-model and of the
  multi-shard routes, over a file system. The parameters are SHA-256 and the CID text, and \<open>ps\<close>, which
  reads the \<open>manifest_cid\<close> of a \<open>pull_source.json\<close>. Route parameters arrive percent-decoded. A body is
  sent in one piece; request headers are not looked at. Binding and accepting are not modelled.
\<close>

definition reply_ok :: "bytes \<Rightarrow> http_reply" where
  "reply_ok bs = \<lparr>hr_status = 200, hr_length = Some (word_of_nat (length bs)), hr_body = [bs], hr_broken = False\<rparr>"

definition reply_status :: "nat \<Rightarrow> http_reply" where
  "reply_status n = \<lparr>hr_status = n, hr_length = None, hr_body = [], hr_broken = False\<rparr>"

definition cid_char :: "char \<Rightarrow> bool" where
  "cid_char c \<longleftrightarrow> (let n = of_char c :: nat in 97 \<le> n \<and> n \<le> 122 \<or> 50 \<le> n \<and> n \<le> 55)"

definition is_valid_chunk_filename :: "string \<Rightarrow> bool" where
  "is_valid_chunk_filename s \<longleftrightarrow>
     ends_with s ''.bin'' \<and> (let stem = take (length s - 4) s in 32 \<le> length stem \<and> list_all cid_char stem)"

text \<open>A file's reply: its bytes, or 404.\<close>

definition serve_file :: "fs \<Rightarrow> path \<Rightarrow> http_reply" where
  "serve_file fs p = (case read_file fs p of Some bs \<Rightarrow> reply_ok bs | None \<Rightarrow> reply_status 404)"

definition serve_manifest :: "fs \<Rightarrow> path \<Rightarrow> http_reply" where
  "serve_manifest fs root = serve_file fs (join root ''manifest.json'')"

definition serve_chunk :: "fs \<Rightarrow> path \<Rightarrow> string \<Rightarrow> http_reply" where
  "serve_chunk fs root name =
     (if \<not> is_valid_chunk_filename name then reply_status 400
      else serve_file fs (join (join root ''chunks'') name))"

section \<open>Several shards\<close>

text \<open>The entries of a directory, in the order the file system lists them.\<close>

definition dir_entries :: "path \<Rightarrow> fs \<Rightarrow> path list" where
  "dir_entries d fs =
     remdups (map (\<lambda>(p, _). take (length d + 1) p) (filter (\<lambda>(p, _). length d < length p \<and> take (length d) p = d) fs))"

definition shard_matches :: "sha \<Rightarrow> cid_str \<Rightarrow> (bytes \<Rightarrow> string option) \<Rightarrow> fs \<Rightarrow> string \<Rightarrow> path \<Rightarrow> bool" where
  "shard_matches sha cs ps fs cid dir \<longleftrightarrow>
     Option.bind (read_file fs (join dir ''pull_source.json'')) ps = Some cid \<or>
     map_option (cid_string_for sha cs) (read_file fs (join dir ''manifest.json'')) = Some cid"

definition resolve_shard :: "sha \<Rightarrow> cid_str \<Rightarrow> (bytes \<Rightarrow> string option) \<Rightarrow> fs \<Rightarrow> path \<Rightarrow> string \<Rightarrow> path option" where
  "resolve_shard sha cs ps fs root cid = List.find (shard_matches sha cs ps fs cid) (dir_entries root fs)"

definition serve_multi_manifest :: "sha \<Rightarrow> cid_str \<Rightarrow> (bytes \<Rightarrow> string option) \<Rightarrow> fs \<Rightarrow> path \<Rightarrow> string \<Rightarrow> http_reply" where
  "serve_multi_manifest sha cs ps fs root cid =
     (case resolve_shard sha cs ps fs root cid of None \<Rightarrow> reply_status 404 | Some dir \<Rightarrow> serve_manifest fs dir)"

definition serve_multi_chunk :: "sha \<Rightarrow> cid_str \<Rightarrow> (bytes \<Rightarrow> string option) \<Rightarrow> fs \<Rightarrow> path \<Rightarrow> string \<Rightarrow> string \<Rightarrow> http_reply" where
  "serve_multi_chunk sha cs ps fs root cid name =
     (if \<not> is_valid_chunk_filename name then reply_status 400
      else case resolve_shard sha cs ps fs root cid of
        None \<Rightarrow> reply_status 404
      | Some dir \<Rightarrow> serve_file fs (join (join dir ''chunks'') name))"

section \<open>Facts\<close>

lemma valid_filename_parts:
  assumes "is_valid_chunk_filename s"
  shows "\<exists>stem. s = stem @ ''.bin'' \<and> 32 \<le> length stem \<and> list_all cid_char stem"
proof -
  have "drop (length s - 4) s = ''.bin''"
    using assms by (simp add: is_valid_chunk_filename_def ends_with_def eval_nat_numeral)
  then have "s = take (length s - 4) s @ ''.bin''" by (metis append_take_drop_id)
  then show ?thesis using assms by (auto simp: is_valid_chunk_filename_def Let_def)
qed

lemma valid_filename_no_separator:
  assumes "is_valid_chunk_filename s"
  shows "CHR ''/'' \<notin> set s \<and> CHR 0x00 \<notin> set s \<and> s \<noteq> ''..''"
proof -
  obtain stem where s: "s = stem @ ''.bin''" "32 \<le> length stem" "list_all cid_char stem"
    using valid_filename_parts [OF assms] by blast
  have "c \<noteq> CHR ''/'' \<and> c \<noteq> CHR 0x00" if "c \<in> set stem" for c
    using s(3) that by (auto simp: list_all_iff cid_char_def)
  then show ?thesis using s by (auto simp: Cons_eq_append_conv)
qed

lemma serve_file_ok: "hr_status (serve_file fs p) = 200 \<longleftrightarrow> read_file fs p \<noteq> None"
  by (auto simp: serve_file_def reply_ok_def reply_status_def split: option.splits)

text \<open>
  The chunk server gives away nothing but chunks and manifests: a successful reply to a chunk
  request is the content of a file directly inside the \<open>chunks\<close> directory of a shard whose manifest or
  pull record has the requested identifier, and its name cannot leave that directory; a name that is
  not a chunk name is refused without looking at the file system.
\<close>

theorem serve_confined:
  assumes "hr_status (serve_multi_chunk sha cs ps fs root cid name) = 200"
  shows "\<exists>dir bs. dir \<in> set (dir_entries root fs) \<and> shard_matches sha cs ps fs cid dir \<and>
    read_file fs (join (join dir ''chunks'') name) = Some bs \<and> concat (hr_body (serve_multi_chunk sha cs ps fs root cid name)) = bs \<and>
    CHR ''/'' \<notin> set name \<and> name \<noteq> ''..''"
proof -
  have v: "is_valid_chunk_filename name"
    using assms by (auto simp: serve_multi_chunk_def reply_status_def split: if_splits)
  obtain dir where d: "resolve_shard sha cs ps fs root cid = Some dir"
    using assms v by (auto simp: serve_multi_chunk_def reply_status_def split: option.splits)
  then have "dir \<in> set (dir_entries root fs)" "shard_matches sha cs ps fs cid dir"
    by (auto simp: resolve_shard_def find_Some_iff)
  moreover obtain bs where bs: "read_file fs (join (join dir ''chunks'') name) = Some bs"
    using assms v d by (auto simp: serve_multi_chunk_def serve_file_ok)
  moreover have "concat (hr_body (serve_multi_chunk sha cs ps fs root cid name)) = bs"
    using v d bs by (simp add: serve_multi_chunk_def serve_file_def reply_ok_def)
  ultimately show ?thesis using valid_filename_no_separator [OF v] by blast
qed

text \<open>A shard directory \<open>m\<close> with its manifest and one chunk, whose identifiers are the same text.\<close>

definition flat_cid :: string where "flat_cid = replicate 40 (CHR ''b'')"
definition flat_sha :: sha where "flat_sha _ = replicate 32 0"
definition flat_cs :: cid_str where "flat_cs _ _ _ = flat_cid"

definition shard_fs :: fs where
  "shard_fs = [([''s'', ''m'', ''manifest.json''], [7]), ([''s'', ''m'', ''chunks'', flat_cid @ ''.bin''], [1, 2, 3])]"

lemma flat_sized: "sha_sized flat_sha" by (simp add: sha_sized_def flat_sha_def)

lemma flat_filename: "is_valid_chunk_filename (flat_cid @ ''.bin'')"
  by (simp add: is_valid_chunk_filename_def ends_with_def flat_cid_def list_all_iff cid_char_def)

lemma shard_fs_files:
  "read_file shard_fs (join (join [''s'', ''m''] ''chunks'') (flat_cid @ ''.bin'')) = Some [1, 2, 3]"
  by (simp add: shard_fs_def read_file_def join_def)

lemma shard_fs_resolve: "resolve_shard flat_sha flat_cs (\<lambda>_. None) shard_fs [''s''] flat_cid = Some [''s'', ''m'']"
  by (simp add: resolve_shard_def dir_entries_def shard_fs_def shard_matches_def read_file_def join_def cid_string_for_def flat_cs_def)

lemma serve_confined_witness:
  "\<exists>dir bs. dir \<in> set (dir_entries [''s''] shard_fs) \<and>
     read_file shard_fs (join (join dir ''chunks'') (flat_cid @ ''.bin'')) = Some bs"
proof -
  have "hr_status (serve_multi_chunk flat_sha flat_cs (\<lambda>_. None) shard_fs [''s''] flat_cid (flat_cid @ ''.bin'')) = 200"
    by (simp add: serve_multi_chunk_def flat_filename shard_fs_resolve serve_file_def shard_fs_files reply_ok_def)
  from serve_confined [OF this] show ?thesis by blast
qed

section \<open>Fetching from the server\<close>

text \<open>
  The server as the fetcher sees it: a URL is the manifest identifier and the name of the file asked
  for. The \<open>Range\<close> header is ignored.
\<close>

definition own_server :: "sha \<Rightarrow> cid_str \<Rightarrow> (bytes \<Rightarrow> string option) \<Rightarrow> fs \<Rightarrow> path \<Rightarrow> string \<times> string \<Rightarrow> u64 option \<Rightarrow> unit \<Rightarrow>
    (string + http_reply) \<times> unit" where
  "own_server sha cs ps fs root u from w =
     (Inr (case strip_prefix (snd u) ''chunks/'' of
        Some name \<Rightarrow> serve_multi_chunk sha cs ps fs root (fst u) name
      | None \<Rightarrow> serve_multi_manifest sha cs ps fs root (fst u)), w)"

definition own_http :: "sha \<Rightarrow> cid_str \<Rightarrow> (bytes \<Rightarrow> string option) \<Rightarrow> fs \<Rightarrow> path \<Rightarrow> (string \<times> string, unit) http_lib" where
  "own_http sha cs ps fs root =
     \<lparr>hl_get = own_server sha cs ps fs root, hl_parse = (\<lambda>s. Some (s, [])), hl_segments = (\<lambda>_. None),
      hl_set_path = (\<lambda>_ u. u), hl_join = (\<lambda>u s. Some (fst u, s))\<rparr>"

definition own_env :: "sha \<Rightarrow> cid_str \<Rightarrow> from_json \<Rightarrow> (bytes \<Rightarrow> string option) \<Rightarrow> fs \<Rightarrow> path \<Rightarrow> (string \<times> string, unit) fetch_env" where
  "own_env sha cs json ps fs root = \<lparr>fx_sha = sha, fx_cs = cs, fx_json = json, fx_http = own_http sha cs ps fs root\<rparr>"

lemma own_get:
  assumes "is_valid_chunk_filename (cid @ ''.bin'')" "resolve_shard sha cs ps sfs root m = Some dir"
    and "read_file sfs (chunk_file (join dir ''chunks'') cid) = Some bs"
  shows "hl_get (fx_http (own_env sha cs json ps sfs root)) (m, ''chunks/'' @ cid @ ''.bin'') from () = (Inr (reply_ok bs), ())"
proof -
  have "strip_prefix (''chunks/'' @ (cid @ ''.bin'')) ''chunks/'' = Some (cid @ ''.bin'')" by (rule strip_prefix_append)
  then show ?thesis
    using assms by (simp add: own_env_def own_http_def own_server_def serve_multi_chunk_def serve_file_def chunk_file_def)
qed

text \<open>
  Resuming a download from this server fails: the client asks for the rest of a partly downloaded
  chunk, the server sends the whole chunk with status 200, and the client adds the bytes it already had
  to the count, so it reports a size mismatch and deletes what it had; only the next attempt, from
  nothing, succeeds.
\<close>

theorem own_server_resume:
  assumes sha: "sha_sized sha" and name: "is_valid_chunk_filename (ch_cid c @ ''.bin'')"
    and server: "resolve_shard sha cs ps sfs root m = Some sdir"
      "read_file sfs (chunk_file (join sdir ''chunks'') (ch_cid c)) = Some bs" "cid_string_for sha cs bs = ch_cid c"
    and size: "length bs < 2 ^ 64" "ch_size c = word_of_nat (length bs)"
    and partial: "read_file fs (chunk_tmp dir (ch_cid c)) = Some p" "p \<noteq> []" "length p < length bs"
    and absent: "read_file fs (cached_file dir (ch_cid c)) = None"
  shows "\<exists>fs1 fs2. fetch_chunk (own_env sha cs json ps sfs root) (m, []) dir c True fs () =
      (Inl (Fail (SizeMismatch (ch_cid c) (ch_size c) (word_of_nat (length p) + word_of_nat (length bs)))), fs1, ()) \<and>
    read_file fs1 (chunk_tmp dir (ch_cid c)) = None \<and>
    fetch_chunk (own_env sha cs json ps sfs root) (m, []) dir c True fs1 () =
      (Inr \<lparr>fo_size = ch_size c, fo_cached = False\<rparr>, fs2, ()) \<and>
    read_file fs2 (cached_file dir (ch_cid c)) = Some bs"
proof -
  let ?E = "own_env sha cs json ps sfs root" and ?tmp = "chunk_tmp dir (ch_cid c)" and ?f = "cached_file dir (ch_cid c)"
  have E: "fx_sha ?E = sha" "fx_cs ?E = cs" by (simp_all add: own_env_def)
  have join: "hl_join (fx_http ?E) (m, []) (''chunks/'' @ ch_cid c @ ''.bin'') = Some (m, ''chunks/'' @ ch_cid c @ ''.bin'')"
    by (simp add: own_env_def own_http_def)
  note get = own_get [OF name server(1,2), of json]
  have ok: "hr_status (reply_ok bs) = 200" "concat (hr_body (reply_ok bs)) = bs" "\<not> hr_broken (reply_ok bs)"
    by (simp_all add: reply_ok_def)
  have lp: "length p < 2 ^ 64" using partial(3) size(1) by (rule less_trans)
  have lt: "(word_of_nat (length p) :: u64) < ch_size c"
    using partial(3) size lp by (simp add: word_less_nat_alt unat_of_nat_u64)
  have np: "(word_of_nat (length p) :: u64) \<noteq> 0"
    using partial(2) unat_of_nat_u64 [OF lp] by (metis length_0_conv unat_0)
  have miss: "\<not> cache_hit sha cs c dir g" if "read_file g ?f = None" for g using that by (simp add: cache_hit_def)
  let ?fs0 = "remove_file ?f fs"
  have rp: "resume_point c dir True ?fs0 = (p, ?fs0)"
    using partial(1) lt by (simp add: resume_point_def file_simps)
  let ?fs1 = "remove_file ?tmp (write_file ?tmp bs ?fs0)"
  have first: "fetch_chunk ?E (m, []) dir c True fs () =
      (Inl (Fail (SizeMismatch (ch_cid c) (ch_size c) (word_of_nat (length p) + word_of_nat (length bs)))), ?fs1, ())"
    using miss [OF absent] join rp get partial(2) np size(2) ok
    by (simp add: fetch_chunk_def E http_get_def finish_chunk_def Let_def)
  have a1: "read_file ?fs1 ?f = None" "read_file ?fs1 ?tmp = None" by (simp_all add: file_simps)
  have rp2: "resume_point c dir True (remove_file ?f ?fs1) = ([], remove_file ?f ?fs1)"
    using a1(2) by (simp add: resume_point_def file_simps)
  have second: "fetch_chunk ?E (m, []) dir c True ?fs1 () = (Inr \<lparr>fo_size = ch_size c, fo_cached = False\<rparr>,
      rename_file ?tmp ?f (write_file ?tmp bs (remove_file ?f ?fs1)), ())"
    using fetch_chunk_whole [of ?E c dir ?fs1 "(m, [])" _ True, unfolded E, OF sha miss [OF a1(1)] join rp2 get] ok size(2) server(3)
    by simp
  have "read_file (write_file ?tmp bs (remove_file ?f ?fs1)) ?tmp = Some bs" by (simp add: file_simps)
  then have "read_file (rename_file ?tmp ?f (write_file ?tmp bs (remove_file ?f ?fs1))) ?f = Some bs"
    by (simp add: read_rename_file)
  then show ?thesis using first a1(2) second by blast
qed

lemma own_server_resume_witness:
  "\<exists>fs1 fs2. fetch_chunk (own_env flat_sha flat_cs (\<lambda>_. None) (\<lambda>_. None) shard_fs [''s'']) (flat_cid, []) [''d'']
       \<lparr>ch_cid = flat_cid, ch_size = 3\<rparr> True [(chunk_tmp [''d''] flat_cid, [1])] () =
     (Inl (Fail (SizeMismatch flat_cid 3 4)), fs1, ()) \<and> read_file fs2 (cached_file [''d''] flat_cid) = Some [1, 2, 3]"
proof -
  let ?c = "\<lparr>ch_cid = flat_cid, ch_size = 3\<rparr>" and ?fs = "[(chunk_tmp [''d''] flat_cid, [1])] :: fs"
  have v: "is_valid_chunk_filename (ch_cid ?c @ ''.bin'')" using flat_filename by simp
  have f: "read_file shard_fs (chunk_file (join [''s'', ''m''] ''chunks'') (ch_cid ?c)) = Some [1, 2, 3]"
    using shard_fs_files by (simp add: chunk_file_def)
  have c: "cid_string_for flat_sha flat_cs [1, 2, 3] = ch_cid ?c" by (simp add: cid_string_for_def flat_cs_def)
  have z: "ch_size ?c = word_of_nat (length ([1, 2, 3] :: bytes))" by simp
  have p: "read_file ?fs (chunk_tmp [''d''] (ch_cid ?c)) = Some [1]" by (simp add: read_file_def)
  have a: "read_file ?fs (cached_file [''d''] (ch_cid ?c)) = None" by (simp add: read_file_def)
  show ?thesis
    using own_server_resume [OF flat_sized v shard_fs_resolve f c _ z p _ _ a, of "\<lambda>_. None"] by auto
qed

end
