(* ===== verification/Pull.thy ===== *)
theory Pull
  imports Fetch Serve Forward_Server
begin

text \<open>
  Pulling a slice from a peer, \<open>crates/app/src/swarm_contribute.rs\<close>: the choice of the provider and the
  task of \<open>start_pull\<close> with its events. The writer of \<open>pull_source.json\<close> is the parameter \<open>pse\<close>.
\<close>

section \<open>Providers\<close>

definition reachable :: "provider_record \<Rightarrow> bool" where
  "reachable p \<longleftrightarrow> pr_chunks_url p \<noteq> None \<and> pr_manifest_cid p \<noteq> None"

text \<open>\<open>Iterator::max_by_key\<close>: of several maxima the last.\<close>

fun max_by_key :: "('a \<Rightarrow> 'k :: linorder) \<Rightarrow> 'a list \<Rightarrow> 'a option" where
  "max_by_key f [] = None"
| "max_by_key f (x # xs) =
     (case max_by_key f xs of None \<Rightarrow> Some x | Some y \<Rightarrow> if f x \<le> f y then Some y else Some x)"

definition pick_provider :: "provider_record list \<Rightarrow> provider_record option" where
  "pick_provider ps = max_by_key pr_minted_at (filter reachable ps)"

fun default_range :: "(u16 \<times> u16 \<times> provider_record list) list \<Rightarrow> (u16 \<times> u16 \<times> provider_record) option" where
  "default_range [] = None"
| "default_range ((s, e, ps) # rs) =
     (case pick_provider ps of Some p \<Rightarrow> Some (s, e, p) | None \<Rightarrow> default_range rs)"

section \<open>The pull\<close>

record pull_source =
  ps_peer_id :: string
  ps_manifest_cid :: string
  ps_manifest_url :: string
  ps_range :: "u16 \<times> u16"

datatype pull_error =
    MissingUrls
  | PullManifest "fetch_error fault"
  | PullChunks "fetch_error fault"

datatype pull_event =
    PullStarted string "u16 \<times> u16"
  | PullManifestOk string u32
  | PullChunksDone u64 nat
  | PullDone "(u16 \<times> u16) list" path
  | PullError pull_error

definition manifest_url :: "string \<Rightarrow> string \<Rightarrow> string" where
  "manifest_url host cid = ''http://'' @ host @ ''/'' @ cid @ ''/manifest.json''"

definition pulled_kept :: "string \<Rightarrow> u16 \<times> u16 \<Rightarrow> manifest \<Rightarrow> kept_ranges" where
  "pulled_kept mid rg m =
     \<lparr>kr_model_cid = mid,
      kr_display_name = (case m_name m of Some n \<Rightarrow> n | None \<Rightarrow> mid),
      kr_block_count = ucast (m_n_layers m), kr_gguf_path = [], kr_kept = [rg]\<rparr>"

definition start_pull :: "('u, 'w) fetch_env \<Rightarrow> sidecar_json \<Rightarrow> (pull_source \<Rightarrow> bytes) \<Rightarrow> string \<Rightarrow> u16 \<times> u16 \<Rightarrow>
    provider_record \<Rightarrow> path \<Rightarrow> fs \<Rightarrow> 'w \<Rightarrow> pull_event list \<times> fs \<times> 'w" where
  "start_pull E J pse mid rg provider models_dir fs w =
     (case (pr_chunks_url provider, pr_manifest_cid provider) of
        (Some host, Some mcid) \<Rightarrow>
          let root = shard_dir models_dir mid;
              url = manifest_url host mcid;
              opts = default_options root;
              ev1 = [PullStarted url rg]
          in (case fetch_manifest_only E url opts fs w of
                (Inl e, fs1, w1) \<Rightarrow> (ev1 @ [PullError (PullManifest e)], fs1, w1)
              | (Inr f, fs1, w1) \<Rightarrow>
                  let ev2 = ev1 @ [PullManifestOk (fm_cid f) (m_n_layers (fm_manifest f))];
                      plan = for_range (fm_manifest f) (ucast (fst rg)) (ucast (snd rg))
                  in (case fetch_chunks E f plan opts fs1 w1 of
                        (Inl e, fs2, w2) \<Rightarrow> (ev2 @ [PullError (PullChunks e)], fs2, w2)
                      | (Inr out, fs2, w2) \<Rightarrow>
                          let ev3 = ev2 @ [PullChunksDone (ft_downloaded out) (length (m_bundles (ft_manifest out)))];
                              fs3 = write_file (kept_path root) (kr_enc J (pulled_kept mid rg (fm_manifest f))) fs2;
                              src = \<lparr>ps_peer_id = pr_peer_id provider, ps_manifest_cid = fm_cid f,
                                     ps_manifest_url = url, ps_range = rg\<rparr>
                          in (ev3 @ [PullDone [rg] root], write_file (join root ''pull_source.json'') (pse src) fs3, w2)))
      | _ \<Rightarrow> ([PullError MissingUrls], fs, w))"

section \<open>The choice of the provider\<close>

lemma max_by_key_Some:
  "max_by_key f xs = Some y \<longleftrightarrow> (\<exists>as bs. xs = as @ y # bs \<and> (\<forall>a \<in> set as. f a \<le> f y) \<and> (\<forall>b \<in> set bs. f b < f y))"
proof (induction xs arbitrary: y)
  case (Cons x xs)
  show ?case
  proof (cases "max_by_key f xs")
    case None
    then have "xs = []" by (cases xs) (auto split: option.splits if_splits)
    then show ?thesis by (auto simp: Cons_eq_append_conv)
  next
    case (Some z)
    then obtain as bs where z: "xs = as @ z # bs" "\<forall>a \<in> set as. f a \<le> f z" "\<forall>b \<in> set bs. f b < f z"
      using Cons.IH by auto
    have top: "f a \<le> f z" if "a \<in> set xs" for a using that z by (auto intro: less_imp_le)
    show ?thesis
    proof (cases "f x \<le> f z")
      case True
      have "y = z" if "x # xs = as @ y # bs" "\<forall>a \<in> set as. f a \<le> f y" "\<forall>b \<in> set bs. f b < f y" for as bs
      proof (cases as)
        case Nil
        then show ?thesis using that True z(1) by auto
      next
        case (Cons a as')
        then have "max_by_key f xs = Some y" using that Cons.IH by auto
        then show ?thesis using Some by simp
      qed
      moreover have "\<exists>as bs. x # xs = as @ z # bs \<and> (\<forall>a \<in> set as. f a \<le> f z) \<and> (\<forall>b \<in> set bs. f b < f z)"
        using z True by (intro exI [of _ "x # as"] exI [of _ bs]) auto
      ultimately show ?thesis using Some True by auto
    next
      case False
      have "y = x" if "x # xs = as @ y # bs" "\<forall>a \<in> set as. f a \<le> f y" "\<forall>b \<in> set bs. f b < f y" for as bs
      proof (cases as)
        case (Cons a as')
        then have "f x \<le> f y" "y \<in> set xs" using that by auto
        then show ?thesis using top False by (meson order_trans)
      qed (use that in auto)
      moreover have "\<exists>as bs. x # xs = as @ x # bs \<and> (\<forall>a \<in> set as. f a \<le> f x) \<and> (\<forall>b \<in> set bs. f b < f x)"
        using top False by (intro exI [of _ "[]"] exI [of _ xs]) force
      ultimately show ?thesis using Some False by auto
    qed
  qed
qed simp

lemma max_by_key_None [simp]: "max_by_key f xs = None \<longleftrightarrow> xs = []"
  by (cases xs) (auto split: option.splits if_splits)

lemma default_range_Some:
  "default_range rs = Some (s, e, p) \<Longrightarrow>
     \<exists>as ps bs. rs = as @ (s, e, ps) # bs \<and> pick_provider ps = Some p \<and> (\<forall>(_, _, qs) \<in> set as. pick_provider qs = None)"
proof (induction rs)
  case (Cons r rs)
  obtain s' e' ps' where r: "r = (s', e', ps')" by (cases r)
  show ?case
  proof (cases "pick_provider ps'")
    case None
    then obtain as ps bs where "rs = as @ (s, e, ps) # bs" "pick_provider ps = Some p" "\<forall>(_, _, qs) \<in> set as. pick_provider qs = None"
      using Cons r by auto
    then show ?thesis using None r by (intro exI [of _ "r # as"] exI [of _ ps] exI [of _ bs]) auto
  next
    case (Some q)
    then show ?thesis using Cons.prems r by (intro exI [of _ "[]"] exI [of _ ps'] exI [of _ rs]) auto
  qed
qed simp

text \<open>
  The range a contributor is offered: it is the first listed range with a reachable provider, and
  the provider is the newest reachable one of that range (the last listed among equals); nothing is
  offered exactly when no listed provider has both a chunk address and a manifest identifier.
\<close>

theorem default_range_choice:
  "(default_range rs = None \<longleftrightarrow> (\<forall>(_, _, ps) \<in> set rs. \<forall>p \<in> set ps. \<not> reachable p)) \<and>
   (\<forall>s e p. default_range rs = Some (s, e, p) \<longrightarrow>
      (\<exists>as ps bs us vs. rs = as @ (s, e, ps) # bs \<and> (\<forall>(_, _, qs) \<in> set as. \<forall>q \<in> set qs. \<not> reachable q) \<and>
         filter reachable ps = us @ p # vs \<and>
         (\<forall>q \<in> set us. pr_minted_at q \<le> pr_minted_at p) \<and> (\<forall>q \<in> set vs. pr_minted_at q < pr_minted_at p)))"
proof (intro conjI allI impI)
  have none: "pick_provider ps = None \<longleftrightarrow> (\<forall>p \<in> set ps. \<not> reachable p)" for ps
    by (auto simp: pick_provider_def filter_empty_conv)
  show "default_range rs = None \<longleftrightarrow> (\<forall>(_, _, ps) \<in> set rs. \<forall>p \<in> set ps. \<not> reachable p)"
  proof (induction rs)
    case (Cons r rs)
    then show ?case by (cases r; cases "pick_provider (snd (snd r))") (auto simp: none [symmetric])
  qed simp
  fix s e p assume "default_range rs = Some (s, e, p)"
  then obtain as ps bs where d: "rs = as @ (s, e, ps) # bs" "pick_provider ps = Some p"
    "\<forall>(_, _, qs) \<in> set as. pick_provider qs = None"
    using default_range_Some by blast
  obtain us vs where "filter reachable ps = us @ p # vs" "\<forall>q \<in> set us. pr_minted_at q \<le> pr_minted_at p"
    "\<forall>q \<in> set vs. pr_minted_at q < pr_minted_at p"
    using d(2) by (auto simp: pick_provider_def max_by_key_Some)
  then show "\<exists>as ps bs us vs. rs = as @ (s, e, ps) # bs \<and> (\<forall>(_, _, qs) \<in> set as. \<forall>q \<in> set qs. \<not> reachable q) \<and>
         filter reachable ps = us @ p # vs \<and>
         (\<forall>q \<in> set us. pr_minted_at q \<le> pr_minted_at p) \<and> (\<forall>q \<in> set vs. pr_minted_at q < pr_minted_at p)"
    using d unfolding none by blast
qed

definition demo_provider :: "string option \<Rightarrow> u64 \<Rightarrow> provider_record" where
  "demo_provider m t = \<lparr>pr_peer_id = [], pr_addrs = [], pr_chunks_url = Some ''h'', pr_manifest_cid = m, pr_forward_url = None, pr_minted_at = t\<rparr>"

lemma default_range_choice_witness:
  "\<exists>p ps us vs. default_range [(0, 4, [demo_provider None 9, demo_provider (Some []) 3])] = Some (0, 4, p) \<and>
     filter reachable ps = us @ p # vs"
proof -
  let ?rs = "[(0 :: u16, 4 :: u16, [demo_provider None 9, demo_provider (Some []) 3])]"
  have d: "default_range ?rs = Some (0, 4, demo_provider (Some []) 3)"
    by (simp add: pick_provider_def reachable_def demo_provider_def)
  from default_range_choice [of ?rs] have "\<forall>s e p. default_range ?rs = Some (s, e, p) \<longrightarrow>
      (\<exists>ps us vs. filter reachable ps = us @ p # vs)" by blast
  from this [rule_format, OF d] d show ?thesis by blast
qed

section \<open>A pulled slice cannot be served\<close>

text \<open>A successful pull, and what it leaves: the manifest is below a directory named after its own identifier.\<close>

lemma fetch_chunks_wanted:
  "fetch_chunks E f plan opts fs w = (Inr out, fs', w') \<Longrightarrow> \<exists>ws. wanted_chunks (fm_manifest f) plan = Inr ws"
  by (auto simp: fetch_chunks_def split: sum.splits)

lemma fetch_manifest_only_Inr:
  assumes "fetch_manifest_only E url opts fs w = (Inr f, fs', w')"
  shows "\<exists>bs. fs' = write_file (join (join (cache_root opts) (fm_cid f)) ''manifest.json'') bs fs \<and>
    fm_dir f = join (cache_root opts) (fm_cid f) \<and> fm_cid f = cid_string_for (fx_sha E) (fx_cs E) bs \<and> fm_url f = url"
  using assms by (auto simp: fetch_manifest_only_def Let_def split: option.splits prod.splits sum.splits)

lemma start_pull_files:
  assumes sha: "sha_sized (fx_sha E)" and plain: "cid_plain (fx_sha E) (fx_cs E)"
    and pull: "start_pull E J pse mid rg provider models_dir fs w = (evs, fs', w')" "last evs = PullDone ks root"
  shows "\<exists>(f :: fetched_manifest) bs (src :: pull_source). root = shard_dir models_dir mid \<and> ks = [rg] \<and>
    read_file fs' (join (join root (fm_cid f)) ''manifest.json'') = Some bs \<and>
    fm_cid f = cid_string_for (fx_sha E) (fx_cs E) bs \<and>
    read_file fs' (kept_path root) = Some (kr_enc J (pulled_kept mid rg (fm_manifest f))) \<and>
    read_file fs' (join root ''pull_source.json'') = Some (pse src) \<and> ps_manifest_cid src = fm_cid f \<and>
    (\<forall>q. take (length root) q \<noteq> root \<or> (length q = length root + 1 \<and> q \<noteq> kept_path root \<and> q \<noteq> join root ''pull_source.json'') \<longrightarrow>
       read_file fs' q = read_file fs q)"
proof -
  obtain host mcid where urls: "pr_chunks_url provider = Some host" "pr_manifest_cid provider = Some mcid"
    using pull by (cases "pr_chunks_url provider"; cases "pr_manifest_cid provider") (auto simp: start_pull_def)
  let ?root = "shard_dir models_dir mid" and ?url = "manifest_url host mcid"
  let ?opts = "default_options ?root"
  obtain f fs1 w1 where f: "fetch_manifest_only E ?url ?opts fs w = (Inr f, fs1, w1)"
    using pull urls by (cases "fetch_manifest_only E ?url ?opts fs w"; cases "fst (fetch_manifest_only E ?url ?opts fs w)")
      (auto simp: start_pull_def Let_def)
  let ?plan = "for_range (fm_manifest f) (ucast (fst rg)) (ucast (snd rg))"
  obtain out fs2 where c: "fetch_chunks E f ?plan ?opts fs1 w1 = (Inr out, fs2, w')"
    using pull urls f by (cases "fetch_chunks E f ?plan ?opts fs1 w1"; cases "fst (fetch_chunks E f ?plan ?opts fs1 w1)")
      (auto simp: start_pull_def Let_def)
  let ?src = "\<lparr>ps_peer_id = pr_peer_id provider, ps_manifest_cid = fm_cid f, ps_manifest_url = ?url, ps_range = rg\<rparr>"
  have fs': "fs' = write_file (join ?root ''pull_source.json'') (pse ?src)
      (write_file (kept_path ?root) (kr_enc J (pulled_kept mid rg (fm_manifest f))) fs2)"
    and ks: "ks = [rg]" "root = ?root"
    using pull urls f c by (auto simp: start_pull_def Let_def)
  obtain bs where bs: "fs1 = write_file (join (join ?root (fm_cid f)) ''manifest.json'') bs fs"
      "fm_dir f = join ?root (fm_cid f)" "fm_cid f = cid_string_for (fx_sha E) (fx_cs E) bs"
    using fetch_manifest_only_Inr [OF f] unfolding default_options_def fetch_options.simps by blast
  obtain ws where ws: "wanted_chunks (fm_manifest f) ?plan = Inr ws" using fetch_chunks_wanted [OF c] by blast
  note frame = conjunct1 [OF fetch_chunks_files [OF sha c ws]]
  have pl: "plain_name (ch_cid x)" if "x \<in> set ws" for x using fetch_chunks_files [OF sha c ws] plain that by simp
  have deep: "length q = length ?root + 3 \<and> take (length ?root) q = ?root \<and> q ! (length ?root + 1) = ''chunks''"
    if "q \<in> own_files (join (fm_dir f) ''chunks'') (ch_cid x)" "x \<in> set ws" for q x
    using that(1) pl [OF that(2)]
    by (auto simp: own_files_def cached_plain chunk_file_def join_def bs(2) nth_append)
  have man: "read_file fs2 (join (join ?root (fm_cid f)) ''manifest.json'') = Some bs"
    using frame [rule_format, of "join (join ?root (fm_cid f)) ''manifest.json''"] deep bs(1)
    by (force simp: join_def read_write_file)
  have out: "read_file fs' q = read_file fs q"
    if "take (length ?root) q \<noteq> ?root \<or> (length q = length ?root + 1 \<and> q \<noteq> kept_path ?root \<and> q \<noteq> join ?root ''pull_source.json'')" for q
  proof -
    have "q \<noteq> kept_path ?root" "q \<noteq> join ?root ''pull_source.json''" "q \<noteq> join (join ?root (fm_cid f)) ''manifest.json''"
      using that by (auto simp: kept_path_def join_def)
    moreover have "q \<notin> (\<Union>c \<in> set ws. own_files (join (fm_dir f) ''chunks'') (ch_cid c))" using that deep by fastforce
    ultimately show ?thesis using frame by (simp add: fs' bs(1) read_write_file)
  qed
  show ?thesis
    unfolding ks(2)
    using ks(1) man bs(3) out
    by (intro exI [of _ f] exI [of _ bs] exI [of _ ?src]) (simp add: fs' read_write_file kept_path_def join_def)
qed

lemma dir_entries_read:
  "p \<in> set (dir_entries d fs) \<longleftrightarrow>
     (\<exists>q. read_file fs q \<noteq> None \<and> length d < length q \<and> take (length d) q = d \<and> p = take (length d + 1) q)"
proof -
  have "(\<exists>bs. (q, bs) \<in> set fs) \<longleftrightarrow> read_file fs q \<noteq> None" for q
    by (simp add: read_file_def map_of_eq_None_iff image_iff Bex_def)
  note ex = this [symmetric]
  show ?thesis unfolding ex by (simp add: dir_entries_def image_iff Bex_def split_beta)
qed

lemma distinct_set_singleton:
  assumes "distinct xs" "set xs = {a}"
  shows "xs = [a]"
proof (cases xs)
  case (Cons x ys)
  then have x: "x = a" "x \<notin> set ys" using assms by auto
  have "set ys \<subseteq> {a}" using assms(2) Cons by auto
  then have "ys = []" using x by (cases ys) auto
  then show ?thesis using Cons x by simp
qed (use assms in simp)

lemma shard_root_join: "shard_dir models_dir mid = join (join models_dir ''.shards'') mid"
  by (simp add: shard_dir_def)

text \<open>
  A pulled slice is announced but cannot be served: after a successful \<open>start_pull\<close> into an empty
  shards directory the daemon scans the slice as one it hosts and finds the manifest identifier to
  announce in \<open>pull_source.json\<close>, but it has put the manifest one directory deeper than the chunk
  server and the slice loader look for it. The chunk server answers 404 to a request for that very
  manifest, and a chain that starts on the slice is refused because the manifest cannot be read.
\<close>

theorem pulled_slice_dead:
  assumes sha: "sha_sized (fx_sha E)" and plain: "cid_plain (fx_sha E) (fx_cs E)"
    and pull: "start_pull E J pse mid rg provider models_dir [] w = (evs, fs', w')" "last evs = PullDone ks root"
    and laws: "\<forall>s. psd (pse s) = Some (ps_manifest_cid s)" "\<forall>k. kr_dec J (kr_enc J k) = Some k"
    and node: "fe_json FE = J" "fe_models_dir FE = models_dir" "w_fs W = fs'" "w_cache W = []"
  shows "\<exists>cid k. scan_shard J fs' root = Some k \<and> kr_kept k = [rg] \<and>
    manifest_cid_for (fx_sha E) (fx_cs E) json psd fs' root = Some cid \<and>
    serve_multi_manifest (fx_sha E) (fx_cs E) psd fs' (join models_dir ''.shards'') cid = reply_status 404 \<and>
    prepare_slice FE (mid, fst rg, snd rg) W = Inl (Fail ReadManifest)"
proof -
  obtain f :: fetched_manifest and bs and src :: pull_source where f: "root = shard_dir models_dir mid" "ks = [rg]"
    "read_file fs' (join (join root (fm_cid f)) ''manifest.json'') = Some bs"
    "read_file fs' (kept_path root) = Some (kr_enc J (pulled_kept mid rg (fm_manifest f)))"
    "read_file fs' (join root ''pull_source.json'') = Some (pse src)" "ps_manifest_cid src = fm_cid f"
    and frame: "\<And>q. take (length root) q \<noteq> root \<or> (length q = length root + 1 \<and> q \<noteq> kept_path root \<and> q \<noteq> join root ''pull_source.json'') \<Longrightarrow>
       read_file fs' q = None"
    using start_pull_files [OF sha plain pull] by (auto simp: read_file_def)
  let ?k = "pulled_kept mid rg (fm_manifest f)" and ?d = "join models_dir ''.shards''"
  have k: "kr_kept ?k = [rg]" "kr_gguf_path ?k = []" by (simp_all add: pulled_kept_def)
  have none: "read_file fs' (join root s) = None" if "s \<noteq> ''kept_ranges.json''" "s \<noteq> ''pull_source.json''" for s
    using that by (intro frame) (simp add: kept_path_def join_def)
  have dis: "disabled_load J fs' root = []"
    using none [of "''disabled_ranges.json''"] by (simp add: disabled_load_def disabled_path_def)
  have scan: "scan_shard J fs' root = Some ?k"
    using f(4) laws(2) dis by (simp add: scan_shard_def enabled_ranges_def disabled_contains_def k(1))
  have man: "manifest_cid_for (fx_sha E) (fx_cs E) json psd fs' root = Some (fm_cid f)"
    using f(5,6) laws(1) by (simp add: manifest_cid_for_def)
  have len: "length root = length ?d + 1" by (simp add: f(1) shard_root_join join_def)
  have "set (dir_entries ?d fs') = {root}"
  proof (rule set_eqI)
    fix p
    have "p = root" if "read_file fs' q \<noteq> None" "p = take (length ?d + 1) q" for q
    proof -
      have "take (length root) q = root" using that(1) frame by metis
      then show ?thesis using that(2) len by simp
    qed
    moreover have "\<exists>q. read_file fs' q \<noteq> None \<and> length ?d < length q \<and> take (length ?d) q = ?d \<and> root = take (length ?d + 1) q"
      using f(4) len by (intro exI [of _ "kept_path root"]) (simp add: kept_path_def join_def f(1) shard_dir_def)
    ultimately show "p \<in> set (dir_entries ?d fs') \<longleftrightarrow> p \<in> {root}" by (auto simp: dir_entries_read)
  qed
  moreover have "distinct (dir_entries ?d fs')" by (simp add: dir_entries_def)
  ultimately have dirs: "dir_entries ?d fs' = [root]"
    by (intro distinct_set_singleton)
  have "resolve_shard (fx_sha E) (fx_cs E) psd fs' ?d (fm_cid f) = Some root"
    using f(5,6) laws(1) by (simp add: resolve_shard_def dirs shard_matches_def)
  then have serve: "serve_multi_manifest (fx_sha E) (fx_cs E) psd fs' ?d (fm_cid f) = reply_status 404"
    using none [of "''manifest.json''"] by (simp add: serve_multi_manifest_def serve_manifest_def serve_file_def)
  have "stitched_name s e \<noteq> ''kept_ranges.json''" "stitched_name s e \<noteq> ''pull_source.json''" for s e
    by (simp_all add: stitched_name_def)
  then have "stitch_subset_for FE root s e n fs' = Inl (Fail ReadManifest)" for s e n
    using none [of "stitched_name s e"] none [of "''manifest.json''"] by (simp add: stitch_subset_for_def)
  then have "prepare_slice FE (mid, fst rg, snd rg) W = Inl (Fail ReadManifest)"
    using f(4) laws(2) dis k by (simp add: prepare_slice_def node disabled_contains_def locate_gguf_def f(1) [symmetric] split_beta)
  then show ?thesis using scan k(1) man serve by blast
qed

section \<open>A sample pull\<close>

text \<open>A sidecar coder: fields separated by the tag 2, each of their bytes after the tag 1.\<close>

definition tagged :: "bytes \<Rightarrow> bytes" where "tagged s = concat (map (\<lambda>b. [1, b]) s)"

definition enc_fields :: "bytes list \<Rightarrow> bytes" where
  "enc_fields ss = tagged (hd ss) @ concat (map (\<lambda>s. 2 # tagged s) (tl ss))"

fun dec_fields :: "bytes \<Rightarrow> bytes \<times> bytes list" where
  "dec_fields [] = ([], [])"
| "dec_fields (t # r) =
     (if t = 2 then ([], fst (dec_fields r) # snd (dec_fields r))
      else case r of [] \<Rightarrow> ([], []) | b # r' \<Rightarrow> (b # fst (dec_fields r'), snd (dec_fields r')))"

lemma dec_tagged: "dec_fields (tagged s @ r) = (s @ fst (dec_fields r), snd (dec_fields r))"
  by (induction s) (simp_all add: tagged_def)

lemma dec_enc_fields: "ss \<noteq> [] \<Longrightarrow> dec_fields (enc_fields ss) = (hd ss, tl ss)"
proof -
  have "dec_fields (concat (map (\<lambda>s. 2 # tagged s) ss)) = ([], ss)" for ss
    by (induction ss) (simp_all add: dec_tagged)
  then show ?thesis by (simp add: enc_fields_def dec_tagged)
qed

definition demo_kr_enc :: "kept_ranges \<Rightarrow> bytes" where
  "demo_kr_enc k = enc_fields (str_bytes (kr_model_cid k) # str_bytes (kr_display_name k) # le_bytes 2 (unat (kr_block_count k)) #
     sample_dr_enc (kr_kept k) # map str_bytes (kr_gguf_path k))"

definition demo_kr_dec :: "bytes \<Rightarrow> kept_ranges option" where
  "demo_kr_dec bs =
     (case dec_fields bs of (c, n # b # d # p) \<Rightarrow>
        map_option (\<lambda>d. \<lparr>kr_model_cid = bytes_str c, kr_display_name = bytes_str n, kr_block_count = word_of_nat (le_nat b),
          kr_gguf_path = map bytes_str p, kr_kept = d\<rparr>) (sample_dr_dec d)
      | _ \<Rightarrow> None)"

definition demo_sidecars :: sidecar_json where
  "demo_sidecars = \<lparr>kr_enc = demo_kr_enc, kr_dec = demo_kr_dec, dr_enc = sample_dr_enc, dr_dec = sample_dr_dec\<rparr>"

lemma demo_kr_roundtrip: "kr_dec demo_sidecars (kr_enc demo_sidecars k) = Some k"
proof -
  have d: "sample_dr_dec (sample_dr_enc d) = Some d" for d
    using sample_roundtrip by (simp add: dr_roundtrip_def sample_sidecars_def)
  have "unat w < 256 ^ 2" for w :: u16 using unat_u16_less [of w] by simp
  then have b: "word_of_nat (le_nat (le_bytes 2 (unat w))) = w" for w :: u16 by (simp add: le_nat_le_bytes)
  have "map bytes_str (map str_bytes p) = p" for p :: path by (simp add: o_def)
  then show ?thesis by (simp add: demo_sidecars_def demo_kr_dec_def demo_kr_enc_def dec_enc_fields d b)
qed

definition demo_pse :: "pull_source \<Rightarrow> bytes" where "demo_pse s = str_bytes (ps_manifest_cid s)"

lemma demo_pull: "\<exists>evs fs' ks root. start_pull demo_env demo_sidecars demo_pse ''m'' (1, 2) (demo_provider (Some ''c'') 1) [] [] () = (evs, fs', ()) \<and>
    last evs = PullDone ks root"
proof -
  let ?url = "manifest_url ''h'' ''c''" and ?root = "shard_dir [] ''m''"
  let ?opts = "default_options ?root"
  obtain g g' where g: "hl_get (fx_http demo_env) ?url None () = (Inr g, ())" "hr_status g = 200" "hr_length g = None"
      "length (concat (hr_body g)) < 10" "length (hr_body g) = 1" "\<not> hr_broken g"
    by (simp add: demo_env_def demo_http_def head_bytes_def block_bytes_def)
  have "\<exists>bs. fetch_manifest_bytes (fx_http demo_env) ?url (64 * 1024 * 1024) () = (Inr bs, ())"
  proof -
    obtain b where b: "hr_body g = [b]" using g(5) by (cases "hr_body g") auto
    have "\<not> (64 * 1024 * 1024 :: u64) < word_of_nat (length b)" using g(4) b by (simp add: word_less_nat_alt unat_of_nat_u64)
    then show ?thesis using g b by (simp add: fetch_manifest_bytes_def http_get_def)
  qed
  then obtain bs where bs: "fetch_manifest_bytes (fx_http demo_env) ?url (64 * 1024 * 1024) () = (Inr bs, ())" by blast
  have p: "hl_parse (fx_http demo_env) ?url = Some ?url" by (simp add: demo_env_def demo_http_def)
  have j: "from_json_bytes (fx_json demo_env) bs = Some demo_manifest" by (simp add: demo_env_def from_json_bytes_def)
  let ?cid = "cid_string_for (fx_sha demo_env) (fx_cs demo_env) bs"
  let ?f = "\<lparr>fm_dir = join ?root ?cid, fm_manifest = demo_manifest, fm_cid = ?cid, fm_url = ?url\<rparr>"
  let ?fs = "write_file (join (join ?root ?cid) ''manifest.json'') bs []"
  have f: "fetch_manifest_only demo_env ?url ?opts [] () = (Inr ?f, ?fs, ())"
    using bs p j by (simp add: fetch_manifest_only_def default_options_def Let_def)
  have none: "read_file [] q = None" for q by (simp add: read_file_def)
  have "\<forall>c q. plain_name c \<longrightarrow> q \<in> own_files (join (fm_dir ?f) ''chunks'') c \<longrightarrow> read_file ?fs q = None"
    by (auto simp: own_files_def cached_plain chunk_file_def join_def read_write_file none)
  then obtain out fs' where "fetch_chunks demo_env ?f (for_range demo_manifest 1 2) ?opts ?fs () = (Inr out, fs', ())"
    using demo_fetch_at [of ?f ?opts ?fs] by (auto simp: default_options_def)
  then show ?thesis using f by (simp add: start_pull_def demo_provider_def Let_def)
qed

lemma pulled_slice_dead_witness:
  "\<exists>fs' root cid k. scan_shard demo_sidecars fs' root = Some k \<and>
     serve_multi_manifest length_sha sample_cs (\<lambda>bs. Some (bytes_str bs)) fs' [''.shards''] cid = reply_status 404"
proof -
  obtain evs fs' ks root where p: "start_pull demo_env demo_sidecars demo_pse ''m'' (1, 2) (demo_provider (Some ''c'') 1) [] [] () = (evs, fs', ())"
    "last evs = PullDone ks root" using demo_pull by blast
  let ?FE = "sample_fenv\<lparr>fe_json := demo_sidecars, fe_models_dir := []\<rparr>" and ?W = "\<lparr>w_control = w_control sample_world, w_cache = [], w_fs = fs', w_drops = []\<rparr>"
  have e: "fx_sha demo_env = length_sha" "fx_cs demo_env = sample_cs" by (simp_all add: demo_env_def)
  have s: "sha_sized (fx_sha demo_env)" using length_sha_sized e by simp
  have pl: "cid_plain (fx_sha demo_env) (fx_cs demo_env)" using length_sha_plain e by simp
  have l: "\<forall>s. Some (bytes_str (demo_pse s)) = Some (ps_manifest_cid s)" by (simp add: demo_pse_def)
  have "\<exists>cid k. scan_shard demo_sidecars fs' root = Some k \<and> kr_kept k = [(1, 2)] \<and>
    manifest_cid_for (fx_sha demo_env) (fx_cs demo_env) (\<lambda>_. None) (\<lambda>bs. Some (bytes_str bs)) fs' root = Some cid \<and>
    serve_multi_manifest (fx_sha demo_env) (fx_cs demo_env) (\<lambda>bs. Some (bytes_str bs)) fs' (join [] ''.shards'') cid = reply_status 404 \<and>
    prepare_slice ?FE (''m'', fst (1 :: u16, 2 :: u16), snd (1 :: u16, 2 :: u16)) ?W = Inl (Fail ReadManifest)"
    by (rule pulled_slice_dead [OF s pl p l]) (simp_all add: demo_kr_roundtrip)
  then show ?thesis unfolding e by (auto simp: join_def)
qed

end
