(* ===== verification/Event_Loop.thy ===== *)
theory Event_Loop
  imports Prelude "HOL-Library.Multiset" "HOL-Library.AList"
begin

text \<open>
  Event loops that answer callers. Both libp2p hosts of the program (\<open>crates/net/src/swarm.rs\<close>,
  \<open>crates/model-store/src/p2p.rs\<close>) are a task that takes one event after another, keeps the one-shot senders
  of the callers it has not answered yet in tables, and drops them all when it ends. What such a loop
  owes its callers is stated once here, as the interface \<open>event_loop\<close>, and instantiated by each of the two.
\<close>

section \<open>Running a loop\<close>

fun run_until :: "('e \<Rightarrow> 's \<Rightarrow> 'o list \<times> 's) \<Rightarrow> ('e \<Rightarrow> bool) \<Rightarrow> 'e list \<Rightarrow> 's \<Rightarrow> 'o list \<times> 's" where
  "run_until step stops [] s = ([], s)"
| "run_until step stops (e # es) s =
     (case step e s of (out, s1) \<Rightarrow>
        if stops e then (out, s1)
        else (case run_until step stops es s1 of (out2, s2) \<Rightarrow> (out @ out2, s2)))"

text \<open>The events a loop takes: up to and including the one it stops at.\<close>

fun taken :: "('e \<Rightarrow> bool) \<Rightarrow> 'e list \<Rightarrow> 'e list" where
  "taken stops [] = []" | "taken stops (e # es) = (if stops e then [e] else e # taken stops es)"

lemma taken_stop: "stops e \<Longrightarrow> \<forall>x \<in> set es. \<not> stops x \<Longrightarrow> taken stops (es @ e # rest) = es @ [e]"
  by (induction es) auto

lemma taken_all: "\<forall>x \<in> set es. \<not> stops x \<Longrightarrow> taken stops es = es"
  by (induction es) auto

lemma run_until_taken: "run_until step stops (taken stops es) s = run_until step stops es s"
  by (induction es arbitrary: s) (auto split: prod.splits)

lemma run_until_append:
  "\<forall>x \<in> set es. \<not> stops x \<Longrightarrow> run_until step stops (es @ fs) s =
    (case run_until step stops es s of (out, s1) \<Rightarrow> case run_until step stops fs s1 of (out2, s2) \<Rightarrow> (out @ out2, s2))"
  by (induction es arbitrary: s) (auto split: prod.splits)

section \<open>Tables of waiting callers\<close>

text \<open>The callers in a table, as a multiset; taking one out, and putting one in over what was there.\<close>

definition callers :: "('k \<times> 'v) list \<Rightarrow> 'v multiset" where "callers xs = mset (map snd xs)"

lemma callers_Nil [simp]: "callers [] = {#}" by (simp add: callers_def)

lemma filter_absent: "k \<notin> fst ` set xs \<Longrightarrow> filter (\<lambda>(k', _). k \<noteq> k') xs = xs"
  by (force simp: filter_id_conv)

lemma mset_delete_key:
  assumes "distinct (map fst xs)" "map_of xs k = Some v"
  shows "mset xs = add_mset (k, v) (mset (AList.delete k xs))"
  using assms
proof (induction xs)
  case (Cons x xs)
  then show ?case by (cases x) (auto simp: AList.delete_eq filter_absent split: if_splits simp del: mset_filter)
qed simp

lemma update_delete_mset:
  assumes "distinct (map fst xs)"
  shows "mset (AList.update k v xs) = add_mset (k, v) (mset (AList.delete k xs))"
  using assms
proof (induction xs)
  case (Cons x xs)
  then show ?case by (cases x) (auto simp: AList.delete_eq filter_absent simp del: mset_filter)
qed simp

lemma take_waiting:
  "distinct (map fst xs) \<Longrightarrow> map_of xs k = Some v \<Longrightarrow>
    mset (map f xs) = add_mset (f (k, v)) (mset (map f (AList.delete k xs)))"
  using arg_cong [OF mset_delete_key, of xs k v "image_mset f"] by simp

lemma waiting_update:
  assumes "distinct (map fst xs)"
  shows "mset (map f (AList.update k v xs)) = add_mset (f (k, v)) (mset (map f (AList.delete k xs)))"
  using arg_cong [OF update_delete_mset [OF assms], of "image_mset f"] by simp

lemma delete_absent: "map_of xs k = None \<Longrightarrow> AList.delete k xs = xs"
  by (simp add: delete_id map_of_eq_None_iff)

lemma callers_take: "distinct (map fst xs) \<Longrightarrow> map_of xs k = Some v \<Longrightarrow> callers xs = add_mset v (callers (AList.delete k xs))"
  unfolding callers_def using take_waiting [of xs k v snd] by simp

lemma callers_put:
  "distinct (map fst xs) \<Longrightarrow>
    callers (AList.update k v xs) + (case map_of xs k of Some old \<Rightarrow> {#old#} | None \<Rightarrow> {#}) = add_mset v (callers xs)"
  unfolding callers_def using waiting_update [of xs snd k v] take_waiting [of xs k _ snd]
  by (auto simp: delete_absent split: option.splits)

section \<open>What a loop owes its callers\<close>

text \<open>
  \<open>issue_of\<close> are the callers an event brings, \<open>settle_of\<close> those an effect is the end of (an answer, or their
  sender dropped), \<open>waiting\<close> those the state holds. A step neither loses nor invents a caller.
\<close>

locale event_loop =
  fixes step :: "'e \<Rightarrow> 's \<Rightarrow> 'o list \<times> 's" and stops :: "'e \<Rightarrow> bool" and inv :: "'s \<Rightarrow> bool"
    and issue_of :: "'e \<Rightarrow> nat list" and settle_of :: "'o \<Rightarrow> nat list" and waiting :: "'s \<Rightarrow> nat multiset"
  assumes inv_step: "inv s \<Longrightarrow> step e s = (out, s') \<Longrightarrow> inv s'"
    and conserves: "inv s \<Longrightarrow> step e s = (out, s') \<Longrightarrow> mset (issue_of e) + waiting s = mset (concat (map settle_of out)) + waiting s'"
    and empties: "stops e \<Longrightarrow> step e s = (out, s') \<Longrightarrow> waiting s' = {#}"
begin

lemma run_inv: "inv s \<Longrightarrow> run_until step stops es s = (out, s') \<Longrightarrow> inv s'"
proof (induction es arbitrary: s out)
  case (Cons e es)
  obtain o1 s1 where 1: "step e s = (o1, s1)" by fastforce
  then show ?case using Cons inv_step [OF Cons.prems(1) 1] by (auto split: if_splits prod.splits)
qed simp

lemma run_conserves:
  assumes "inv s" "run_until step stops es s = (out, s')"
  shows "mset (concat (map issue_of (taken stops es))) + waiting s = mset (concat (map settle_of out)) + waiting s'"
  using assms
proof (induction es arbitrary: s out)
  case (Cons e es)
  obtain o1 s1 where 1: "step e s = (o1, s1)" by fastforce
  note c = conserves [OF Cons.prems(1) 1]
  show ?case
  proof (cases "stops e")
    case True
    then show ?thesis using c Cons.prems(2) 1 by simp
  next
    case False
    obtain o2 where 2: "run_until step stops es s1 = (o2, s')" "out = o1 @ o2" using Cons.prems(2) 1 False by (auto split: prod.splits)
    note IH = Cons.IH [OF inv_step [OF Cons.prems(1) 1] 2(1)]
    show ?thesis
    proof (rule multiset_eqI)
      show "count (mset (concat (map issue_of (taken stops (e # es)))) + waiting s) w =
          count (mset (concat (map settle_of out)) + waiting s') w" for w
        using arg_cong [OF c, of "\<lambda>M. count M w"] arg_cong [OF IH, of "\<lambda>M. count M w"] False
        by (simp add: 2(2) del: mset_concat)
    qed
  qed
qed simp

lemma settled_once:
  assumes "inv s" "waiting s = {#}" "run_until step stops es s = (out, s')" "distinct (concat (map issue_of (taken stops es)))"
  shows "distinct (concat (map settle_of out)) \<and> set (concat (map settle_of out)) \<inter> set_mset (waiting s') = {}"
proof -
  let ?i = "concat (map issue_of (taken stops es))" and ?o = "concat (map settle_of out)"
  have eq: "mset ?i = mset ?o + waiting s'" using run_conserves [OF assms(1,3)] assms(2) by simp
  have "count (mset ?i) w \<le> 1" for w using assms(4) by (simp add: distinct_count_atmost_1)
  then have le: "count (mset ?o) w + count (waiting s') w \<le> 1" for w unfolding eq by simp
  have "count (mset ?o) w \<le> 1" for w using le [of w] by linarith
  then have "distinct ?o" unfolding distinct_count_atmost_1
    by (metis One_nat_def count_greater_eq_one_iff count_inI le_antisym set_mset_mset)
  moreover have "\<not> (w \<in> set ?o \<and> w \<in># waiting s')" for w
  proof
    assume "w \<in> set ?o \<and> w \<in># waiting s'"
    then have "0 < count (mset ?o) w" "0 < count (waiting s') w" by (simp_all del: mset_concat set_concat)
    then show False using le [of w] by linarith
  qed
  ultimately show ?thesis by blast
qed

lemma all_settled:
  assumes "inv s" "waiting s = {#}" "\<forall>x \<in> set es. \<not> stops x" "stops e" "run_until step stops (es @ [e]) s = (out, s')"
  shows "mset (concat (map settle_of out)) = mset (concat (map issue_of (es @ [e])))"
proof -
  have t: "taken stops (es @ [e]) = es @ [e]" using taken_stop [OF assms(4,3), of "[]"] by simp
  obtain o1 s1 where 1: "run_until step stops es s = (o1, s1)" by fastforce
  obtain o2 s2 where 2: "step e s1 = (o2, s2)" by fastforce
  have "s' = s2" using assms(5) assms(4) 1 2 by (simp add: run_until_append [of es stops step "[e]", OF assms(3)])
  then have "waiting s' = {#}" using empties [OF assms(4) 2] by simp
  then show ?thesis using run_conserves [OF assms(1,5)] assms(2) t by simp
qed

end

end
