(* ===== verification/P2p.thy ===== *)
theory P2p
  imports Fetch Event_Loop
begin

text \<open>
  The peer-to-peer chunk fetcher, \<open>crates/model-store/src/p2p.rs\<close>: the event loop \<open>drive_swarm\<close> over its
  three tables, and the fetch of a manifest with its chunks through a node. The libp2p swarm is the
  environment: an event carries what the swarm reports and the ids it hands out while the event is
  handled (\<open>get_providers\<close>, \<open>send_request\<close>); what the loop asks of the swarm and the replies it sends to
  its callers are the effects. Peers, callers (the one-shot senders) and ids are numbers. A hash set is
  the list of its elements; the order in which one is iterated is the parameter \<open>pe_iter\<close>. Building the
  node, dialling and the \<open>identify\<close> exchange are effects without a state.
\<close>

section \<open>Messages, errors, events\<close>

datatype chunk_response = ChunkBytes bytes | NotFound

datatype p2p_error =
    StartProviding string
  | NoProviders string
  | KadGet string
  | ChunkSize string u64 nat
  | ChunkHash string string
  | AllNotFound nat string
  | OutboundFail string
  | DialFailed string
  | ReplyLost
  | ManifestCap u64
  | ParsingManifest
  | ManifestCid string string
  | NoBundleNamed string

record p2p_env =
  pe_sha :: sha
  pe_cs :: cid_str
  pe_seed :: "path option"
  pe_iter :: "nat list \<Rightarrow> nat list"

datatype p2p_event =
    CmdAnnounce string nat "string option" \<comment> \<open>\<open>start_providing\<close>'s error\<close>
  | CmdFetch string u64 nat nat \<comment> \<open>CID, size, caller, query id\<close>
  | CmdDial string nat "string option"
  | CmdsClosed
  | FoundProviders nat "nat list" nat \<comment> \<open>query, providers, the id of a request sent\<close>
  | QueryFinished nat
  | QueryFailed nat string
  | QueryOther nat
  | Request nat string fs
  | Response nat chunk_response nat
  | OutboundFailure nat string
  | Identified nat "string list"
  | OtherEvent

datatype p2p_effect =
    DoneReply nat "p2p_error option"
  | FetchReply nat "p2p_error + bytes"
  | Dropped nat \<comment> \<open>a caller whose sender is dropped unanswered\<close>
  | StartQuery nat string
  | SendRequest nat nat string
  | Respond nat chunk_response
  | AddAddress nat string

record pending_fetch =
  pf_size :: u64
  pf_found :: "nat list"
  pf_tried :: "nat list"
  pf_waiter :: nat

record swarm =
  sw_pending :: "(string \<times> pending_fetch) list"
  sw_reqs :: "(nat \<times> string) list"
  sw_queries :: "(nat \<times> string) list"

definition swarm_new :: swarm where
  "swarm_new = \<lparr>sw_pending = [], sw_reqs = [], sw_queries = []\<rparr>"

section \<open>The event loop\<close>

definition load_chunk_from_dir :: "sha \<Rightarrow> cid_str \<Rightarrow> fs \<Rightarrow> path \<Rightarrow> string \<Rightarrow> bytes option" where
  "load_chunk_from_dir sha cs fs dir cid =
     (case List.find (\<lambda>p. read_file fs p \<noteq> None) [join (join dir ''chunks'') (cid @ ''.bin''), join dir (cid @ ''.bin'')] of
        None \<Rightarrow> None
      | Some p \<Rightarrow> Option.bind (read_file fs p) (\<lambda>bs. if cid_string_for sha cs bs = cid then Some bs else None))"

definition serve_request :: "p2p_env \<Rightarrow> fs \<Rightarrow> string \<Rightarrow> chunk_response" where
  "serve_request E fs cid =
     (case pe_seed E of
        None \<Rightarrow> NotFound
      | Some dir \<Rightarrow> (case load_chunk_from_dir (pe_sha E) (pe_cs E) fs dir cid of
                       Some bs \<Rightarrow> ChunkBytes bs | None \<Rightarrow> NotFound))"

text \<open>The size, unless it is \<open>u64::MAX\<close>, then the hash.\<close>

definition check_chunk :: "p2p_env \<Rightarrow> string \<Rightarrow> u64 \<Rightarrow> bytes \<Rightarrow> p2p_error + bytes" where
  "check_chunk E cid sz bs =
     (if \<not> (sz = - 1 \<or> word_of_nat (length bs) = sz) then Inl (ChunkSize cid sz (length bs))
      else let actual = cid_string_for (pe_sha E) (pe_cs E) bs
           in if actual \<noteq> cid then Inl (ChunkHash cid actual) else Inr bs)"

definition on_found :: "string \<Rightarrow> nat list \<Rightarrow> nat \<Rightarrow> swarm \<Rightarrow> p2p_effect list \<times> swarm" where
  "on_found cid ps rid s =
     (case map_of (sw_pending s) cid of
        None \<Rightarrow> ([], s)
      | Some pf \<Rightarrow>
          let pf1 = pf\<lparr>pf_found := List.union ps (pf_found pf)\<rparr>
          in (case List.find (\<lambda>p. p \<notin> set (pf_tried pf)) ps of
                None \<Rightarrow> ([], s\<lparr>sw_pending := AList.update cid pf1 (sw_pending s)\<rparr>)
              | Some p \<Rightarrow>
                  ([SendRequest rid p cid],
                   s\<lparr>sw_pending := AList.update cid (pf1\<lparr>pf_tried := p # pf_tried pf\<rparr>) (sw_pending s),
                     sw_reqs := AList.update rid cid (sw_reqs s)\<rparr>)))"

definition on_finished :: "string \<Rightarrow> swarm \<Rightarrow> p2p_effect list \<times> swarm" where
  "on_finished cid s =
     (case map_of (sw_pending s) cid of
        None \<Rightarrow> ([], s)
      | Some pf \<Rightarrow>
          let rest = AList.delete cid (sw_pending s)
          in if pf_found pf = [] then ([FetchReply (pf_waiter pf) (Inl (NoProviders cid))], s\<lparr>sw_pending := rest\<rparr>)
             else ([], s\<lparr>sw_pending := AList.update cid pf rest\<rparr>))"

text \<open>A pending fetch is taken out and fails.\<close>

definition fail_fetch :: "string \<Rightarrow> p2p_error \<Rightarrow> swarm \<Rightarrow> p2p_effect list \<times> swarm" where
  "fail_fetch cid e s =
     (case map_of (sw_pending s) cid of
        None \<Rightarrow> ([], s)
      | Some pf \<Rightarrow> ([FetchReply (pf_waiter pf) (Inl e)], s\<lparr>sw_pending := AList.delete cid (sw_pending s)\<rparr>))"

definition on_response :: "p2p_env \<Rightarrow> string \<Rightarrow> chunk_response \<Rightarrow> nat \<Rightarrow> swarm \<Rightarrow> p2p_effect list \<times> swarm" where
  "on_response E cid resp rid s =
     (case map_of (sw_pending s) cid of
        None \<Rightarrow> ([], s)
      | Some pf \<Rightarrow>
          let rest = AList.delete cid (sw_pending s)
          in (case resp of
                ChunkBytes bs \<Rightarrow> ([FetchReply (pf_waiter pf) (check_chunk E cid (pf_size pf) bs)], s\<lparr>sw_pending := rest\<rparr>)
              | NotFound \<Rightarrow>
                  (case filter (\<lambda>p. p \<notin> set (pf_tried pf)) (pe_iter E (pf_found pf)) of
                     p # _ \<Rightarrow>
                       ([SendRequest rid p cid],
                        s\<lparr>sw_pending := AList.update cid (pf\<lparr>pf_tried := p # pf_tried pf\<rparr>) rest,
                          sw_reqs := AList.update rid cid (sw_reqs s)\<rparr>)
                   | [] \<Rightarrow> ([FetchReply (pf_waiter pf) (Inl (AllNotFound (length (pf_tried pf)) cid))], s\<lparr>sw_pending := rest\<rparr>))))"

fun drive_event :: "p2p_env \<Rightarrow> p2p_event \<Rightarrow> swarm \<Rightarrow> p2p_effect list \<times> swarm" where
  "drive_event E (CmdAnnounce cid w err) s = ([DoneReply w (map_option StartProviding err)], s)"
| "drive_event E (CmdFetch cid sz w q) s =
     (StartQuery q cid # (case map_of (sw_pending s) cid of Some old \<Rightarrow> [Dropped (pf_waiter old)] | None \<Rightarrow> []),
      s\<lparr>sw_queries := AList.update q cid (sw_queries s),
        sw_pending := AList.update cid \<lparr>pf_size = sz, pf_found = [], pf_tried = [], pf_waiter = w\<rparr> (sw_pending s)\<rparr>)"
| "drive_event E (CmdDial addr w err) s = ([DoneReply w (map_option DialFailed err)], s)"
| "drive_event E CmdsClosed s = (map (Dropped \<circ> pf_waiter \<circ> snd) (sw_pending s), swarm_new)"
| "drive_event E (FoundProviders q ps rid) s =
     (case map_of (sw_queries s) q of None \<Rightarrow> ([], s) | Some cid \<Rightarrow> on_found cid ps rid s)"
| "drive_event E (QueryFinished q) s =
     (case map_of (sw_queries s) q of None \<Rightarrow> ([], s) | Some cid \<Rightarrow> on_finished cid s)"
| "drive_event E (QueryFailed q e) s =
     (case map_of (sw_queries s) q of None \<Rightarrow> ([], s) | Some cid \<Rightarrow> fail_fetch cid (KadGet e) s)"
| "drive_event E (QueryOther q) s = ([], s)"
| "drive_event E (Request ch cid fs) s = ([Respond ch (serve_request E fs cid)], s)"
| "drive_event E (Response r resp rid) s =
     (case map_of (sw_reqs s) r of
        None \<Rightarrow> ([], s)
      | Some cid \<Rightarrow> on_response E cid resp rid (s\<lparr>sw_reqs := AList.delete r (sw_reqs s)\<rparr>))"
| "drive_event E (OutboundFailure r e) s =
     (case map_of (sw_reqs s) r of
        None \<Rightarrow> ([], s)
      | Some cid \<Rightarrow> fail_fetch cid (OutboundFail e) (s\<lparr>sw_reqs := AList.delete r (sw_reqs s)\<rparr>))"
| "drive_event E (Identified p addrs) s = (map (AddAddress p) addrs, s)"
| "drive_event E OtherEvent s = ([], s)"

text \<open>The loop ends when the node is dropped; its state, and with it every waiting sender, is dropped then.\<close>

fun drive_swarm :: "p2p_env \<Rightarrow> p2p_event list \<Rightarrow> swarm \<Rightarrow> p2p_effect list \<times> swarm" where
  "drive_swarm E [] s = ([], s)"
| "drive_swarm E (e # es) s =
     (case drive_event E e s of (out, s1) \<Rightarrow>
        if e = CmdsClosed then (out, s1)
        else (case drive_swarm E es s1 of (out2, s2) \<Rightarrow> (out @ out2, s2)))"

lemmas drive_handlers = on_found_def on_finished_def fail_fetch_def on_response_def Let_def

section \<open>Every caller is accounted for\<close>

definition sw_ok :: "swarm \<Rightarrow> bool" where "sw_ok s \<longleftrightarrow> distinct (map fst (sw_pending s))"

definition waiting :: "swarm \<Rightarrow> nat multiset" where
  "waiting s = mset (map (pf_waiter \<circ> snd) (sw_pending s))"

fun reply_of :: "p2p_effect \<Rightarrow> nat list" where
  "reply_of (FetchReply w r) = [w]" | "reply_of _ = []"

fun drop_of :: "p2p_effect \<Rightarrow> nat list" where
  "drop_of (Dropped w) = [w]" | "drop_of _ = []"

fun issue_of :: "p2p_event \<Rightarrow> nat list" where
  "issue_of (CmdFetch cid sz w q) = [w]" | "issue_of _ = []"

definition replies :: "p2p_effect list \<Rightarrow> nat multiset" where "replies out = mset (concat (map reply_of out))"
definition drops :: "p2p_effect list \<Rightarrow> nat multiset" where "drops out = mset (concat (map drop_of out))"

text \<open>The fetches the loop takes: those before the node is dropped.\<close>

definition issued :: "p2p_event list \<Rightarrow> nat multiset" where
  "issued evs = mset (concat (map issue_of (takeWhile (\<lambda>e. e \<noteq> CmdsClosed) evs)))"

lemma effect_counts [simp]:
  "replies [] = {#}" "drops [] = {#}" "replies (e # out) = mset (reply_of e) + replies out" "drops (e # out) = mset (drop_of e) + drops out"
  "replies (out @ out2) = replies out + replies out2" "drops (out @ out2) = drops out + drops out2"
  by (simp_all add: replies_def drops_def)

lemma sw_ok_step: "sw_ok s \<Longrightarrow> drive_event E ev s = (out, s') \<Longrightarrow> sw_ok s'"
  by (cases ev) (auto simp: sw_ok_def drive_handlers swarm_new_def distinct_update distinct_delete
      split: option.splits list.splits chunk_response.splits if_splits)

lemma step_accounts:
  assumes "sw_ok s" "drive_event E ev s = (out, s')"
  shows "mset (issue_of ev) + waiting s = replies out + drops out + waiting s'"
proof -
  have dd: "AList.delete k (AList.delete k xs) = AList.delete k xs" for k and xs :: "(string \<times> pending_fetch) list"
    by (simp add: delete_idem)
  note ok = assms(1) [unfolded sw_ok_def]
  note take = take_waiting [OF ok, of _ _ "pf_waiter \<circ> snd", unfolded comp_def snd_conv]
  note put = waiting_update [of _ "pf_waiter \<circ> snd", unfolded comp_def snd_conv]
  note d = ok distinct_delete [OF ok]
  show ?thesis
  proof (cases ev)
    case (CmdFetch cid sz w q)
    then show ?thesis
      using assms(2) take [of cid] put [OF ok, of cid] delete_absent [of "sw_pending s" cid]
      by (cases "map_of (sw_pending s) cid") (auto simp: waiting_def comp_def)
  next
    case CmdsClosed
    then show ?thesis using assms(2)
      by (auto simp: waiting_def swarm_new_def replies_def drops_def comp_def)
  next
    case (FoundProviders q ps rid)
    then show ?thesis using assms(2) take put [OF ok]
      by (auto simp: waiting_def comp_def drive_handlers split: option.splits)
  next
    case (Response r resp rid)
    then show ?thesis using assms(2) take put [OF d(2)]
      by (auto simp: waiting_def comp_def drive_handlers dd split: option.splits list.splits chunk_response.splits)
  qed (use assms(2) take put [OF d(2)] in
      \<open>auto simp: waiting_def comp_def drive_handlers dd replies_def drops_def split: option.splits if_splits\<close>)
qed

lemma sw_ok_new [simp]: "sw_ok swarm_new" by (simp add: sw_ok_def swarm_new_def)

lemma drive_swarm_run: "drive_swarm E evs s = run_until (drive_event E) (\<lambda>e. e = CmdsClosed) evs s"
  by (induction evs arbitrary: s) (auto split: prod.splits)

lemma settled_effects: "mset (concat (map (\<lambda>e. reply_of e @ drop_of e) out)) = replies out + drops out"
  by (induction out) (simp_all add: replies_def drops_def)

lemma issued_taken: "mset (concat (map issue_of (taken (\<lambda>e. e = CmdsClosed) evs))) = issued evs"
  by (induction evs) (auto simp: issued_def)

interpretation p2p: event_loop "drive_event E" "\<lambda>e. e = CmdsClosed" sw_ok issue_of "\<lambda>e. reply_of e @ drop_of e" waiting for E
proof
  show "mset (issue_of e) + waiting s = mset (concat (map (\<lambda>e. reply_of e @ drop_of e) out)) + waiting s'"
    if "sw_ok s" "drive_event E e s = (out, s')" for s e out s'
    unfolding settled_effects using step_accounts [OF that] by simp
qed (auto simp: sw_ok_step waiting_def swarm_new_def)

text \<open>
  No caller of the peer-to-peer fetcher is answered twice or forgotten: whatever the swarm reports
  and in whatever order, the callers of \<open>fetch\<close> taken by the event loop are, each exactly once, those
  answered, those whose sender was dropped (a second fetch of the same chunk replaces the first, or the
  node went away) and those still pending.
\<close>

theorem p2p_callers_accounted:
  "issued evs = replies (fst (drive_swarm E evs swarm_new)) + drops (fst (drive_swarm E evs swarm_new)) +
     waiting (snd (drive_swarm E evs swarm_new))"
proof -
  have "waiting swarm_new = {#}" by (simp add: waiting_def swarm_new_def)
  then show ?thesis using p2p.run_conserves [OF sw_ok_new, of E evs] unfolding drive_swarm_run issued_taken settled_effects
    by (metis add.right_neutral prod.collapse)
qed

section \<open>Only verified bytes are delivered\<close>

definition chunk_ok :: "p2p_env \<Rightarrow> string \<Rightarrow> u64 \<Rightarrow> bytes \<Rightarrow> bool" where
  "chunk_ok E cid sz bs \<longleftrightarrow> cid_string_for (pe_sha E) (pe_cs E) bs = cid \<and> (sz = - 1 \<or> word_of_nat (length bs) = sz)"

lemma check_chunk_Inr: "check_chunk E cid sz bs = Inr bs' \<longleftrightarrow> bs' = bs \<and> chunk_ok E cid sz bs"
  by (auto simp: check_chunk_def chunk_ok_def Let_def)

text \<open>What the callers asked for, and what the pending table says they did.\<close>

fun asked_of :: "p2p_event \<Rightarrow> (string \<times> u64 \<times> nat) set" where
  "asked_of (CmdFetch cid sz w q) = {(cid, sz, w)}" | "asked_of _ = {}"

definition recs_in :: "(string \<times> u64 \<times> nat) set \<Rightarrow> (string \<times> pending_fetch) list \<Rightarrow> bool" where
  "recs_in A xs \<longleftrightarrow> (\<forall>(cid, pf) \<in> set xs. (cid, pf_size pf, pf_waiter pf) \<in> A)"

lemma recs_inD: "map_of xs cid = Some pf \<Longrightarrow> recs_in A xs \<Longrightarrow> (cid, pf_size pf, pf_waiter pf) \<in> A"
  by (auto simp: recs_in_def dest: map_of_SomeD)

lemma set_update_sub: "set (AList.update k v xs) \<subseteq> insert (k, v) (set xs)"
  by (induction xs) auto

lemma recs_in_update: "(cid, pf_size pf, pf_waiter pf) \<in> A \<Longrightarrow> recs_in A xs \<Longrightarrow> recs_in A (AList.update cid pf xs)"
  using set_update_sub [of cid pf xs] unfolding recs_in_def by fastforce

lemma recs_in_delete: "recs_in A xs \<Longrightarrow> recs_in A (AList.delete cid xs)"
  unfolding recs_in_def by (auto simp: AList.delete_eq)

lemma step_recorded:
  assumes "drive_event E ev s = (out, s')" "recs_in A (sw_pending s)" "asked_of ev \<subseteq> A"
  shows "recs_in A (sw_pending s') \<and> (\<forall>w bs. FetchReply w (Inr bs) \<in> set out \<longrightarrow> (\<exists>cid sz. (cid, sz, w) \<in> A \<and> chunk_ok E cid sz bs))"
proof -
  have c: "chunk_ok E cid sz bs'" if "Inr bs' = check_chunk E cid sz bs" for cid sz bs bs'
    using that [symmetric] by (simp add: check_chunk_Inr)
  show ?thesis
    using assms
    by (cases ev; auto simp: drive_handlers swarm_new_def recs_in_def [of _ "[]"] dest: c
        intro!: recs_in_update recs_in_delete split: option.splits list.splits chunk_response.splits if_splits)
      ((rule recs_inD; assumption) | (intro exI conjI, rule recs_inD, assumption, assumption, erule c))+
qed

lemma run_recorded:
  assumes "drive_swarm E evs s = (out, s')" "recs_in A (sw_pending s)" "\<forall>ev \<in> set evs. asked_of ev \<subseteq> A"
  shows "recs_in A (sw_pending s') \<and> (\<forall>w bs. FetchReply w (Inr bs) \<in> set out \<longrightarrow> (\<exists>cid sz. (cid, sz, w) \<in> A \<and> chunk_ok E cid sz bs))"
  using assms
proof (induction evs arbitrary: s out)
  case (Cons e es)
  obtain o1 s1 where 1: "drive_event E e s = (o1, s1)" by fastforce
  have st: "recs_in A (sw_pending s1)" "\<forall>w bs. FetchReply w (Inr bs) \<in> set o1 \<longrightarrow> (\<exists>cid sz. (cid, sz, w) \<in> A \<and> chunk_ok E cid sz bs)"
    using step_recorded [OF 1 Cons.prems(2)] Cons.prems(3) by auto
  show ?case
  proof (cases "e = CmdsClosed")
    case True
    then show ?thesis using Cons.prems(1) 1 st by auto
  next
    case False
    then obtain o2 where "drive_swarm E es s1 = (o2, s')" "out = o1 @ o2" using Cons.prems(1) 1 by (auto split: prod.splits)
    then show ?thesis using Cons.IH [of s1 o2] st Cons.prems(3) by auto
  qed
qed auto

text \<open>
  C24. Whatever the swarm and its peers do, the bytes a caller receives from a fetch are bytes it asked
  for: they hash to the identifier of a fetch that this caller made, and have the size it gave with it.
\<close>

theorem p2p_delivers_verified:
  "\<forall>w bs. FetchReply w (Inr bs) \<in> set (fst (drive_swarm E evs swarm_new)) \<longrightarrow>
     (\<exists>cid sz q. CmdFetch cid sz w q \<in> set evs \<and> cid_string_for (pe_sha E) (pe_cs E) bs = cid \<and>
        (sz = - 1 \<or> word_of_nat (length bs) = sz))"
proof -
  let ?A = "\<Union>ev \<in> set evs. asked_of ev"
  have a: "\<exists>q. CmdFetch cid sz w q \<in> set evs" if "(cid, sz, w) \<in> ?A" for cid sz w
  proof -
    have "(cid, sz, w) \<in> asked_of ev \<longleftrightarrow> (\<exists>q. ev = CmdFetch cid sz w q)" for ev by (cases ev) auto
    then show ?thesis using that by auto
  qed
  have "\<forall>w bs. FetchReply w (Inr bs) \<in> set (fst (drive_swarm E evs swarm_new)) \<longrightarrow>
      (\<exists>cid sz. (cid, sz, w) \<in> ?A \<and> chunk_ok E cid sz bs)"
    using run_recorded [of E evs swarm_new _ _ ?A] by (cases "drive_swarm E evs swarm_new") (auto simp: swarm_new_def recs_in_def)
  then show ?thesis unfolding chunk_ok_def using a by blast
qed

text \<open>And the other way: what the node gives to a peer is read from its own directory and verified first.\<close>

lemma load_chunk_verified:
  "load_chunk_from_dir sha cs fs dir cid = Some bs \<Longrightarrow>
    cid_string_for sha cs bs = cid \<and> (\<exists>p. read_file fs p = Some bs \<and> p \<in> {join (join dir ''chunks'') (cid @ ''.bin''), join dir (cid @ ''.bin'')})"
  by (auto simp: load_chunk_from_dir_def find_Some_iff bind_eq_Some_conv nth_Cons' split: option.splits if_splits)

section \<open>A pending fetch is never abandoned\<close>

text \<open>
  The runs of the loop under what libp2p documents: the ids it hands out are fresh, and a query reports
  nothing after its end. \<open>Q\<close> is the set of the queries still running.
\<close>

fun legal :: "p2p_event \<Rightarrow> nat set \<Rightarrow> swarm \<Rightarrow> bool" where
  "legal (CmdFetch cid sz w q) Q s \<longleftrightarrow> map_of (sw_queries s) q = None"
| "legal (FoundProviders q ps rid) Q s \<longleftrightarrow> q \<in> Q \<and> map_of (sw_reqs s) rid = None"
| "legal (QueryFinished q) Q s \<longleftrightarrow> q \<in> Q"
| "legal (QueryFailed q e) Q s \<longleftrightarrow> q \<in> Q"
| "legal (Response r resp rid) Q s \<longleftrightarrow> map_of (sw_reqs s) rid = None"
| "legal _ Q s \<longleftrightarrow> True"

fun queries_after :: "p2p_event \<Rightarrow> nat set \<Rightarrow> nat set" where
  "queries_after (CmdFetch cid sz w q) Q = insert q Q"
| "queries_after (QueryFinished q) Q = Q - {q}"
| "queries_after (QueryFailed q e) Q = Q - {q}"
| "queries_after _ Q = Q"

inductive p2p_reach :: "p2p_env \<Rightarrow> nat set \<Rightarrow> swarm \<Rightarrow> bool" for E where
  start: "p2p_reach E {} swarm_new"
| step: "p2p_reach E Q s \<Longrightarrow> legal ev Q s \<Longrightarrow> drive_event E ev s = (out, s') \<Longrightarrow> p2p_reach E (queries_after ev Q) s'"

definition sourced :: "nat set \<Rightarrow> swarm \<Rightarrow> bool" where
  "sourced Q s \<longleftrightarrow> (\<forall>cid pf. map_of (sw_pending s) cid = Some pf \<longrightarrow>
     set (pf_tried pf) \<subseteq> set (pf_found pf) \<and>
     (pf_found pf \<noteq> [] \<longrightarrow> (\<exists>r. map_of (sw_reqs s) r = Some cid)) \<and>
     ((\<exists>q \<in> Q. map_of (sw_queries s) q = Some cid) \<or> (\<exists>r. map_of (sw_reqs s) r = Some cid)))"

text \<open>The invariant over the three tables alone.\<close>

definition backed :: "nat set \<Rightarrow> (nat \<Rightarrow> string option) \<Rightarrow> (nat \<Rightarrow> string option) \<Rightarrow> string \<Rightarrow> pending_fetch \<Rightarrow> bool" where
  "backed Q qs rs cid pf \<longleftrightarrow> set (pf_tried pf) \<subseteq> set (pf_found pf) \<and>
     (pf_found pf \<noteq> [] \<longrightarrow> (\<exists>r. rs r = Some cid)) \<and> ((\<exists>q \<in> Q. qs q = Some cid) \<or> (\<exists>r. rs r = Some cid))"

lemma sourced_backed:
  "sourced Q s \<longleftrightarrow> (\<forall>cid pf. map_of (sw_pending s) cid = Some pf \<longrightarrow>
     backed Q (map_of (sw_queries s)) (map_of (sw_reqs s)) cid pf)"
  unfolding sourced_def backed_def by blast

lemma backed_mono:
  assumes "backed Q qs rs cid pf" "\<exists>r. rs r = Some cid \<Longrightarrow> \<exists>r. rs' r = Some cid"
    and "\<exists>q \<in> Q. qs q = Some cid \<Longrightarrow> \<exists>q \<in> Q'. qs' q = Some cid"
  shows "backed Q' qs' rs' cid pf"
  using assms unfolding backed_def by blast

lemma backed_new_request:
  assumes "rs r = None" "backed Q qs rs cid pf"
  shows "backed Q qs (rs(r \<mapsto> c)) cid pf"
proof (rule backed_mono [OF assms(2)])
  assume "\<exists>x. rs x = Some cid"
  then obtain x where "rs x = Some cid" ..
  then show "\<exists>x. (rs(r \<mapsto> c)) x = Some cid" using assms(1) by (intro exI [of _ x]) auto
qed

lemma backed_own_request: "set (pf_tried pf) \<subseteq> set (pf_found pf) \<Longrightarrow> backed Q qs (rs(r \<mapsto> cid)) cid pf"
  by (auto simp: backed_def)

lemma backed_new_query:
  assumes "qs q = None" "backed Q qs rs cid pf"
  shows "backed (insert q Q) (qs(q \<mapsto> c)) rs cid pf"
proof (rule backed_mono [OF assms(2)])
  assume "\<exists>x \<in> Q. qs x = Some cid"
  then obtain x where "x \<in> Q" "qs x = Some cid" ..
  then show "\<exists>x \<in> insert q Q. (qs(q \<mapsto> c)) x = Some cid" using assms(1) by (intro bexI [of _ x]) auto
qed

lemma backed_request_done:
  assumes "rs r = Some c" "cid \<noteq> c" "backed Q qs rs cid pf"
  shows "backed Q qs (rs(r := None)) cid pf"
proof (rule backed_mono [OF assms(3)])
  assume "\<exists>x. rs x = Some cid"
  then obtain x where "rs x = Some cid" ..
  then show "\<exists>x. (rs(r := None)) x = Some cid" using assms(1,2) by (intro exI [of _ x]) auto
qed

lemma backed_query_done:
  "backed Q qs rs cid pf \<Longrightarrow> qs q \<noteq> Some cid \<or> pf_found pf \<noteq> [] \<Longrightarrow> backed (Q - {q}) qs rs cid pf"
  by (auto simp: backed_def)

lemmas pending_maps = update_conv' delete_conv'

lemma backed_more:
  assumes "backed Q qs rs cid pf" "pf_tried pf' = pf_tried pf" "set (pf_found pf') = F \<union> set (pf_found pf)" "F \<subseteq> set (pf_tried pf)"
  shows "backed Q qs rs cid pf'"
proof -
  have "set (pf_found pf') = set (pf_found pf)" using assms unfolding backed_def by blast
  then have "pf_found pf' = [] \<longleftrightarrow> pf_found pf = []" by (metis set_empty)
  then show ?thesis using assms(1,2) \<open>set (pf_found pf') = set (pf_found pf)\<close> by (simp add: backed_def)
qed

lemma sourced_found:
  assumes src: "sourced Q s" and legal: "legal (FoundProviders q ps rid) Q s"
    and ev: "drive_event E (FoundProviders q ps rid) s = (out, s')"
  shows "sourced (queries_after (FoundProviders q ps rid) Q) s'"
proof -
  let ?P = "map_of (sw_pending s)" and ?R = "map_of (sw_reqs s)" and ?K = "map_of (sw_queries s)"
  have inv: "backed Q ?K ?R cid pf" if "?P cid = Some pf" for cid pf using src that by (simp add: sourced_backed)
  show ?thesis
  proof (cases "?K q")
    case (Some c)
    show ?thesis
    proof (cases "?P c")
      case (Some pf)
      note pf = inv [OF Some]
      show ?thesis
      proof (cases "List.find (\<lambda>p. p \<notin> set (pf_tried pf)) ps")
        case None
        then have "set ps \<subseteq> set (pf_tried pf)" by (auto simp: find_None_iff)
        then have "backed Q ?K ?R c (pf\<lparr>pf_found := List.union ps (pf_found pf)\<rparr>)"
          using backed_more [OF pf] by simp
        then show ?thesis using ev \<open>?K q = Some c\<close> Some None inv
          by (auto simp: sourced_backed pending_maps on_found_def Let_def split: if_splits)
      next
        case (Some p)
        then have p: "p \<in> set ps" by (auto simp: find_Some_iff)
        let ?pf = "pf\<lparr>pf_found := List.union ps (pf_found pf), pf_tried := p # pf_tried pf\<rparr>"
        have own: "backed Q ?K (?R(rid \<mapsto> c)) c ?pf"
          using pf p by (intro backed_own_request) (auto simp: backed_def)
        have "backed Q ?K (?R(rid \<mapsto> c)) cid pf'" if "?P cid = Some pf'" for cid pf'
          using backed_new_request [OF _ inv [OF that]] legal by simp
        then show ?thesis using ev \<open>?K q = Some c\<close> \<open>?P c = Some pf\<close> Some own
          by (auto simp: sourced_backed pending_maps on_found_def Let_def split: if_splits)
      qed
    qed (use ev Some src in \<open>auto simp: on_found_def\<close>)
  qed (use ev src in auto)
qed

lemma sourced_response:
  assumes iter: "\<And>xs. set (pe_iter E xs) = set xs"
    and src: "sourced Q s" and legal: "legal (Response r resp rid) Q s" and ev: "drive_event E (Response r resp rid) s = (out, s')"
  shows "sourced (queries_after (Response r resp rid) Q) s'"
proof -
  let ?P = "map_of (sw_pending s)" and ?R = "map_of (sw_reqs s)" and ?K = "map_of (sw_queries s)"
  have inv: "backed Q ?K ?R cid pf" if "?P cid = Some pf" for cid pf using src that by (simp add: sourced_backed)
  show ?thesis
  proof (cases "?R r")
    case (Some c)
    have keep: "backed Q ?K (?R(r := None)) cid pf" if "?P cid = Some pf" "cid \<noteq> c" for cid pf
      by (rule backed_request_done [OF Some that(2) inv [OF that(1)]])
    have fresh: "(?R(r := None)) rid = None" using legal by simp
    note keep' = backed_new_request [where c = c, OF fresh keep]
    have again: "backed Q ?K (?R(r := None, rid \<mapsto> c)) c (pf\<lparr>pf_tried := p # pf_tried pf\<rparr>)"
      if "?P c = Some pf" "p \<in> set (pe_iter E (pf_found pf))" for pf p
      using inv [OF that(1)] that(2) iter by (intro backed_own_request) (auto simp: backed_def)
    show ?thesis
    proof (cases "?P c")
      case None
      then have "backed Q ?K (?R(r := None)) cid pf" if "?P cid = Some pf" for cid pf
        by (intro keep that) (use None that in auto)
      then show ?thesis using ev Some None by (auto simp: sourced_backed pending_maps on_response_def)
    next
      case (Some pf)
      let ?rest = "filter (\<lambda>p. p \<notin> set (pf_tried pf)) (pe_iter E (pf_found pf))"
      have st: "sourced Q (s\<lparr>sw_reqs := AList.delete r (sw_reqs s), sw_pending := AList.delete c (sw_pending s)\<rparr>)"
        using keep by (auto simp: sourced_backed pending_maps split: if_splits)
      show ?thesis
      proof (cases "resp = NotFound \<and> ?rest \<noteq> []")
        case False
        then show ?thesis using ev st Some \<open>?R r = Some c\<close>
          by (cases resp) (auto simp: on_response_def Let_def)
      next
        case True
        then obtain p ps where p: "?rest = p # ps" by (cases ?rest) auto
        then have "p \<in> set ?rest" by simp
        then have "p \<in> set (pe_iter E (pf_found pf))" by simp
        note a = again [OF Some this]
        show ?thesis using ev True p Some \<open>?R r = Some c\<close> a keep'
          by (auto simp: sourced_backed pending_maps on_response_def Let_def split: if_splits)
      qed
    qed
  qed (use ev src in auto)
qed

lemma sourced_step:
  assumes iter: "\<And>xs. set (pe_iter E xs) = set xs"
    and src: "sourced Q s" and legal: "legal ev Q s" and ev: "drive_event E ev s = (out, s')"
  shows "sourced (queries_after ev Q) s'"
proof -
  let ?P = "map_of (sw_pending s)" and ?R = "map_of (sw_reqs s)" and ?K = "map_of (sw_queries s)"
  have inv: "backed Q ?K ?R cid pf" if "?P cid = Some pf" for cid pf using src that by (simp add: sourced_backed)
  show ?thesis
  proof (cases ev)
    case (CmdFetch c sz w q)
    have "backed (insert q Q) (?K(q \<mapsto> c)) ?R cid pf" if "?P cid = Some pf" for cid pf
      using backed_new_query [OF _ inv [OF that]] legal CmdFetch by simp
    moreover have "backed (insert q Q) (?K(q \<mapsto> c)) ?R c \<lparr>pf_size = sz, pf_found = [], pf_tried = [], pf_waiter = w\<rparr>"
      by (simp add: backed_def)
    ultimately show ?thesis using ev CmdFetch by (auto simp: sourced_backed pending_maps split: if_splits)
  next
    case (FoundProviders q ps rid)
    then show ?thesis using sourced_found [OF src] legal ev by blast
  next
    case (QueryFinished q)
    show ?thesis
    proof (cases "?K q")
      case (Some c)
      have keep: "backed (Q - {q}) ?K ?R cid pf" if "?P cid = Some pf" "cid \<noteq> c \<or> pf_found pf \<noteq> [] \<or> ?P c = None" for cid pf
        by (intro backed_query_done inv that(1)) (use that Some in auto)
      then show ?thesis using ev QueryFinished Some
        by (auto simp: sourced_backed pending_maps on_finished_def Let_def split: option.splits if_splits)
    next
      case None
      then have "backed (Q - {q}) ?K ?R cid pf" if "?P cid = Some pf" for cid pf
        using backed_query_done [OF inv [OF that]] by simp
      then show ?thesis using ev QueryFinished None by (auto simp: sourced_backed)
    qed
  next
    case (QueryFailed q e)
    have keep: "backed (Q - {q}) ?K ?R cid pf" if "?P cid = Some pf" "\<And>c. ?K q = Some c \<Longrightarrow> cid \<noteq> c \<or> ?P c = None" for cid pf
      by (intro backed_query_done inv that(1)) (use that in auto)
    then show ?thesis using ev QueryFailed
      by (auto simp: sourced_backed pending_maps fail_fetch_def split: option.splits if_splits)
  next
    case (Response r resp rid)
    then show ?thesis using sourced_response [OF iter src] legal ev by blast
  next
    case (OutboundFailure r e)
    have keep: "backed Q ?K (?R(r := None)) cid pf" if "?P cid = Some pf" "?R r = Some c" "cid \<noteq> c \<or> ?P c = None" for cid pf c
    proof -
      have "cid \<noteq> c" using that by auto
      then show ?thesis by (rule backed_request_done [OF that(2) _ inv [OF that(1)]])
    qed
    then show ?thesis using ev OutboundFailure src
      by (auto simp: sourced_backed pending_maps fail_fetch_def split: option.splits if_splits)
  qed (use ev src in \<open>auto simp: sourced_def swarm_new_def\<close>)
qed

lemma reach_sourced:
  assumes iter: "\<And>xs. set (pe_iter E xs) = set xs" and reach: "p2p_reach E Q s"
  shows "sourced Q s"
  using reach
proof induction
  case start
  show ?case by (simp add: sourced_def swarm_new_def)
next
  case (step Q s ev out s')
  show ?case by (rule sourced_step [OF iter step.IH step.hyps(2,3)])
qed

text \<open>
  C22. A pending fetch always has somebody it waits for: in every state the loop can reach, a chunk with
  a waiting caller has a provider query still running or a request still unanswered. Since libp2p ends
  every query and every request (answer or failure, by its time-outs), no caller waits for ever: once
  nothing is outstanding, no fetch is pending.
\<close>

theorem p2p_never_hangs:
  assumes "\<And>xs. set (pe_iter E xs) = set xs" and "p2p_reach E Q s"
  shows "(\<forall>cid pf. map_of (sw_pending s) cid = Some pf \<longrightarrow>
      (\<exists>q \<in> Q. map_of (sw_queries s) q = Some cid) \<or> (\<exists>r. map_of (sw_reqs s) r = Some cid)) \<and>
    (Q = {} \<and> sw_reqs s = [] \<longrightarrow> sw_pending s = [])"
proof -
  have a: "(\<exists>q \<in> Q. map_of (sw_queries s) q = Some cid) \<or> (\<exists>r. map_of (sw_reqs s) r = Some cid)"
    if "map_of (sw_pending s) cid = Some pf" for cid pf
    using reach_sourced [OF assms] that unfolding sourced_def by blast
  have "sw_pending s = []" if "Q = {}" "sw_reqs s = []"
  proof (rule ccontr)
    assume "sw_pending s \<noteq> []"
    then obtain cid pf where "(cid, pf) \<in> set (sw_pending s)" by (cases "sw_pending s") auto
    then obtain pf where "map_of (sw_pending s) cid = Some pf" by (metis weak_map_of_SomeI)
    then show False using a that by fastforce
  qed
  then show ?thesis using a by blast
qed

definition demo_p2p :: p2p_env where
  "demo_p2p = \<lparr>pe_sha = sample_sha, pe_cs = sample_cs, pe_seed = None, pe_iter = id\<rparr>"

text \<open>A caller 7 fetches a chunk, two providers 1 and 2 are found one after the other and both asked.\<close>

definition two_found :: swarm where
  "two_found = snd (drive_swarm demo_p2p [CmdFetch ''c'' (- 1) 7 0, FoundProviders 0 [1] 0, FoundProviders 0 [2] 1] swarm_new)"

lemma two_found_val: "two_found = \<lparr>sw_pending = [(''c'', \<lparr>pf_size = - 1, pf_found = [2, 1], pf_tried = [2, 1], pf_waiter = 7\<rparr>)],
    sw_reqs = [(0, ''c''), (1, ''c'')], sw_queries = [(0, ''c'')]\<rparr>"
  by (simp add: two_found_def swarm_new_def on_found_def List.union_def)

lemma p2p_never_hangs_witness:
  "p2p_reach demo_p2p {0} two_found \<and> (\<exists>r. map_of (sw_reqs two_found) r = Some ''c'')"
proof -
  let ?s1 = "snd (drive_event demo_p2p (CmdFetch ''c'' (- 1) 7 0) swarm_new)"
  let ?s2 = "snd (drive_event demo_p2p (FoundProviders 0 [1] 0) ?s1)"
  let ?s3 = "snd (drive_event demo_p2p (FoundProviders 0 [2] 1) ?s2)"
  have 1: "p2p_reach demo_p2p {0} ?s1"
    using p2p_reach.step [OF p2p_reach.start, of "CmdFetch ''c'' (- 1) 7 0"] by (simp add: swarm_new_def)
  have 2: "p2p_reach demo_p2p {0} ?s2"
    using p2p_reach.step [OF 1, of "FoundProviders 0 [1] 0"] by (simp add: swarm_new_def on_found_def)
  have 3: "p2p_reach demo_p2p {0} ?s3"
    using p2p_reach.step [OF 2, of "FoundProviders 0 [2] 1"] by (simp add: swarm_new_def on_found_def List.union_def)
  have e: "?s3 = two_found" by (simp add: two_found_def swarm_new_def on_found_def List.union_def)
  have r: "p2p_reach demo_p2p {0} two_found" using 3 unfolding e .
  have "map_of (sw_pending two_found) ''c'' \<noteq> None" by (simp add: two_found_val)
  then have "(\<exists>q \<in> {0}. map_of (sw_queries two_found) q = Some ''c'') \<or> (\<exists>r. map_of (sw_reqs two_found) r = Some ''c'')"
    using p2p_never_hangs [OF _ r] by (auto simp: demo_p2p_def)
  moreover have "map_of (sw_reqs two_found) 0 = Some ''c''" by (simp add: two_found_val)
  ultimately show ?thesis using r by blast
qed

section \<open>Giving up too early\<close>

text \<open>
  A fetch can fail although a provider has the chunk: when two providers have been asked, the
  \<open>NotFound\<close> of one fails the fetch if no further provider is untried, without waiting for the other
  request; the other provider's bytes, when they arrive, are thrown away.
\<close>

theorem p2p_late_answer_lost:
  assumes "map_of (sw_pending s) cid = Some pf" "set (pe_iter E (pf_found pf)) \<subseteq> set (pf_tried pf)"
    and "map_of (sw_reqs s) r1 = Some cid" "map_of (sw_reqs s) r2 = Some cid" "r1 \<noteq> r2"
  shows "fst (drive_swarm E [Response r1 NotFound n1, Response r2 (ChunkBytes bs) n2] s) =
    [FetchReply (pf_waiter pf) (Inl (AllNotFound (length (pf_tried pf)) cid))]"
proof -
  have "filter (\<lambda>p. p \<notin> set (pf_tried pf)) (pe_iter E (pf_found pf)) = []"
    using assms(2) by (auto simp: filter_empty_conv)
  then show ?thesis using assms by (simp add: on_response_def delete_conv')
qed

lemma p2p_late_answer_lost_witness:
  "fst (drive_swarm demo_p2p [Response 0 NotFound 2, Response 1 (ChunkBytes [1]) 2] two_found) =
     [FetchReply 7 (Inl (AllNotFound 2 ''c''))]"
  using p2p_late_answer_lost [of two_found "''c''" "\<lparr>pf_size = - 1, pf_found = [2, 1], pf_tried = [2, 1], pf_waiter = 7\<rparr>" demo_p2p 0 1 2 "[1]" 2]
  by (simp add: two_found_val demo_p2p_def)

lemma p2p_delivers_verified_witness:
  "\<exists>q. CmdFetch (cid_string_for sample_sha sample_cs [1]) (- 1) 7 q \<in>
     set [CmdFetch (cid_string_for sample_sha sample_cs [1]) (- 1) 7 0, FoundProviders 0 [1] 0, Response 0 (ChunkBytes [1]) 1]"
proof -
  let ?c = "cid_string_for sample_sha sample_cs [1]"
  let ?evs = "[CmdFetch ?c (- 1) 7 0, FoundProviders 0 [1] 0, Response 0 (ChunkBytes [1]) 1]"
  have "FetchReply 7 (Inr [1]) \<in> set (fst (drive_swarm demo_p2p ?evs swarm_new))"
    by (simp add: swarm_new_def on_found_def on_response_def check_chunk_def Let_def demo_p2p_def)
  then obtain cid sz q where "CmdFetch cid sz 7 q \<in> set ?evs" "cid_string_for (pe_sha demo_p2p) (pe_cs demo_p2p) [1] = cid"
    using p2p_delivers_verified [of demo_p2p ?evs] by blast
  then show ?thesis by auto
qed

end
