(* ===== verification/P2p_Fetch.thy ===== *)
theory P2p_Fetch
  imports P2p
begin

text \<open>
  Fetching a manifest and its chunks through a peer-to-peer node (\<open>crates/model-store/src/p2p.rs\<close>,
  \<open>Node::fetch\<close> and \<open>fetch_manifest_and_chunks_p2p_with\<close>), and the contract \<open>chunk_source\<close> between the
  two: the node may fail, but what it returns has the identifier and the size asked for.
\<close>

section \<open>The node\<close>

text \<open>
  The node is its loop's state, the number of its next call and the events the swarm will report. A
  call sends the command and waits for the reply; when the events end, the loop has ended with the
  runtime and the reply never comes. The query id of a call is the number of the call.
\<close>

type_synonym node = "swarm \<times> nat \<times> p2p_event list"

fun reply_for :: "nat \<Rightarrow> p2p_effect list \<Rightarrow> (p2p_error + bytes) option" where
  "reply_for w [] = None"
| "reply_for w (FetchReply v r # out) = (if v = w then Some r else reply_for w out)"
| "reply_for w (Dropped v # out) = (if v = w then Some (Inl ReplyLost) else reply_for w out)"
| "reply_for w (_ # out) = reply_for w out"

fun await_reply :: "p2p_env \<Rightarrow> nat \<Rightarrow> p2p_event list \<Rightarrow> swarm \<Rightarrow> (p2p_error + bytes) \<times> swarm \<times> p2p_event list" where
  "await_reply E w [] s = (Inl ReplyLost, s, [])"
| "await_reply E w (e # es) s =
     (case drive_event E e s of (out, s1) \<Rightarrow>
       (case reply_for w out of Some r \<Rightarrow> (r, s1, es) | None \<Rightarrow> await_reply E w es s1))"

definition node_fetch :: "p2p_env \<Rightarrow> string \<Rightarrow> u64 \<Rightarrow> node \<Rightarrow> (p2p_error + bytes) \<times> node" where
  "node_fetch E cid sz = (\<lambda>(s, w, es).
     case drive_event E (CmdFetch cid sz w w) s of (out, s1) \<Rightarrow>
       (case await_reply E w es s1 of (r, s2, es2) \<Rightarrow> (r, s2, w + 1, es2)))"

section \<open>Fetching a plan\<close>

definition p2p_wanted :: "manifest \<Rightarrow> fetch_plan \<Rightarrow> p2p_error + chunk list" where
  "p2p_wanted m plan =
     (case plan of
        FullPlan \<Rightarrow> Inr (m_header_chunk m # map bundle_chunk (m_bundles m))
      | BundlesPlan names \<Rightarrow>
          rbind (mapM (\<lambda>n. ok_or (NoBundleNamed n) (List.find (\<lambda>b. be_name b = n) (m_bundles m))) names) (\<lambda>bs.
            Inr (m_header_chunk m # map bundle_chunk bs)))"

text \<open>One chunk: a verified file is kept, else it is fetched and written. The flag says which.\<close>

definition p2p_chunk :: "sha \<Rightarrow> cid_str \<Rightarrow> (string \<Rightarrow> u64 \<Rightarrow> 'w \<Rightarrow> (p2p_error + bytes) \<times> 'w) \<Rightarrow> path \<Rightarrow> chunk \<Rightarrow> fs \<Rightarrow> 'w \<Rightarrow>
    (p2p_error + bool) \<times> fs \<times> 'w" where
  "p2p_chunk sha cs fetch dir c fs w =
     (if cache_hit sha cs c dir fs then (Inr True, fs, w)
      else case fetch (ch_cid c) (ch_size c) w of
        (Inl e, w1) \<Rightarrow> (Inl e, fs, w1)
      | (Inr bs, w1) \<Rightarrow>
          (Inr False, rename_file (chunk_tmp dir (ch_cid c)) (cached_file dir (ch_cid c)) (write_file (chunk_tmp dir (ch_cid c)) bs fs), w1))"

fun p2p_chunks :: "sha \<Rightarrow> cid_str \<Rightarrow> (string \<Rightarrow> u64 \<Rightarrow> 'w \<Rightarrow> (p2p_error + bytes) \<times> 'w) \<Rightarrow> path \<Rightarrow> chunk list \<Rightarrow> u64 \<Rightarrow> u64 \<Rightarrow> fs \<Rightarrow> 'w \<Rightarrow>
    (p2p_error + u64 \<times> u64) \<times> fs \<times> 'w" where
  "p2p_chunks sha cs fetch dir [] dl re fs w = (Inr (dl, re), fs, w)"
| "p2p_chunks sha cs fetch dir (c # ws) dl re fs w =
     (case p2p_chunk sha cs fetch dir c fs w of
        (Inl e, fs1, w1) \<Rightarrow> (Inl e, fs1, w1)
      | (Inr hit, fs1, w1) \<Rightarrow>
          p2p_chunks sha cs fetch dir ws (if hit then dl else dl + ch_size c) (if hit then re + ch_size c else re) fs1 w1)"

definition fetch_p2p_with :: "sha \<Rightarrow> cid_str \<Rightarrow> from_json \<Rightarrow> (string \<Rightarrow> u64 \<Rightarrow> 'w \<Rightarrow> (p2p_error + bytes) \<times> 'w) \<Rightarrow> string \<Rightarrow> fetch_plan \<Rightarrow>
    path \<Rightarrow> u64 \<Rightarrow> fs \<Rightarrow> 'w \<Rightarrow> (p2p_error + fetch_outcome) \<times> fs \<times> 'w" where
  "fetch_p2p_with sha cs json fetch mcid plan root mx fs w =
     (case fetch mcid (- 1) w of
        (Inl e, w1) \<Rightarrow> (Inl e, fs, w1)
      | (Inr bs, w1) \<Rightarrow>
          if mx < word_of_nat (length bs) then (Inl (ManifestCap mx), fs, w1)
          else case from_json_bytes json bs of
            None \<Rightarrow> (Inl ParsingManifest, fs, w1)
          | Some m \<Rightarrow>
              let actual = cid_string_for sha cs bs
              in if actual \<noteq> mcid then (Inl (ManifestCid actual mcid), fs, w1)
              else let dir = join root mcid; fs1 = write_file (join dir ''manifest.json'') bs fs
              in case p2p_wanted m plan of
                   Inl e \<Rightarrow> (Inl e, fs1, w1)
                 | Inr ws \<Rightarrow>
                     (case p2p_chunks sha cs fetch (join dir ''chunks'') ws 0 0 fs1 w1 of
                        (Inl e, fs2, w2) \<Rightarrow> (Inl e, fs2, w2)
                      | (Inr (dl, re), fs2, w2) \<Rightarrow>
                          (Inr \<lparr>ft_dir = dir, ft_manifest = m, ft_manifest_cid = mcid, ft_downloaded = dl, ft_reused = re\<rparr>, fs2, w2)))"

lemma p2p_wanted_Inr: "p2p_wanted m plan = Inr ws \<Longrightarrow> wanted_chunks m plan = Inr ws"
proof -
  have ok: "ok_or e x = Inr y \<longleftrightarrow> x = Some y" for e :: 'e and x and y :: 'y by (cases x) auto
  show "p2p_wanted m plan = Inr ws \<Longrightarrow> wanted_chunks m plan = Inr ws"
    by (cases plan) (auto simp: p2p_wanted_def wanted_chunks_def results mapM_Inr_iff ok)
qed

section \<open>The contract\<close>

locale chunk_source =
  fixes sha :: sha and cs :: cid_str
    and fetch :: "string \<Rightarrow> u64 \<Rightarrow> 'w \<Rightarrow> (p2p_error + bytes) \<times> 'w"
    and valid :: "'w \<Rightarrow> bool"
  assumes genuine: "valid w \<Longrightarrow> fetch cid sz w = (Inr bs, w') \<Longrightarrow> cid_string_for sha cs bs = cid"
    and sized: "valid w \<Longrightarrow> fetch cid sz w = (Inr bs, w') \<Longrightarrow> sz = - 1 \<or> word_of_nat (length bs) = sz"
    and stays: "valid w \<Longrightarrow> fetch cid sz w = (r, w') \<Longrightarrow> valid w'"
begin

lemma chunk_effect:
  assumes "valid w" "p2p_chunk sha cs fetch dir c fs w = (Inr hit, fs', w')"
  shows "verified sha cs dir fs' (ch_cid c) \<and> valid w' \<and> (\<forall>q. q \<notin> own_files dir (ch_cid c) \<longrightarrow> read_file fs' q = read_file fs q)"
proof (cases "cache_hit sha cs c dir fs")
  case True
  then show ?thesis using assms cache_hit_verified [OF True] by (simp add: p2p_chunk_def)
next
  case False
  obtain bs where bs: "fetch (ch_cid c) (ch_size c) w = (Inr bs, w')"
    and fs': "fs' = rename_file (chunk_tmp dir (ch_cid c)) (cached_file dir (ch_cid c)) (write_file (chunk_tmp dir (ch_cid c)) bs fs)"
    using assms(2) False by (auto simp: p2p_chunk_def split: prod.splits sum.splits)
  have "read_file (write_file (chunk_tmp dir (ch_cid c)) bs fs) (chunk_tmp dir (ch_cid c)) = Some bs" by (simp add: file_simps)
  then show ?thesis using genuine [OF assms(1) bs] stays [OF assms(1) bs]
    by (auto simp: fs' verified_def own_files_def read_rename_file file_simps)
qed

lemma chunks_effect:
  assumes "valid w" "p2p_chunks sha cs fetch dir ws dl re fs w = (Inr n, fs', w')" "cid_plain sha cs"
  shows "(\<forall>c \<in> set ws. verified sha cs dir fs' (ch_cid c)) \<and> valid w' \<and>
    (\<forall>q. q \<notin> (\<Union>c \<in> set ws. own_files dir (ch_cid c)) \<longrightarrow> read_file fs' q = read_file fs q)"
  using assms
proof (induction ws arbitrary: dl re fs w)
  case (Cons c ws)
  obtain hit fs1 w1 where 1: "p2p_chunk sha cs fetch dir c fs w = (Inr hit, fs1, w1)"
    and 2: "p2p_chunks sha cs fetch dir ws (if hit then dl else dl + ch_size c) (if hit then re + ch_size c else re) fs1 w1 = (Inr n, fs', w')"
    using Cons.prems(2) by (auto split: prod.splits sum.splits)
  note e = chunk_effect [OF Cons.prems(1) 1]
  note ih = Cons.IH [OF conjunct1 [OF conjunct2 [OF e]] 2 Cons.prems(3)]
  have pl: "plain_name (ch_cid c)" "\<forall>c \<in> set ws. plain_name (ch_cid c)"
    using e ih verified_plain [OF _ Cons.prems(3)] by blast+
  have "verified sha cs dir fs' (ch_cid c)"
  proof (cases "\<exists>c' \<in> set ws. ch_cid c' = ch_cid c")
    case True
    then show ?thesis using ih by auto
  next
    case False
    have "cached_file dir (ch_cid c) \<in> own_files dir (ch_cid c)" by (simp add: own_files_def)
    then have "cached_file dir (ch_cid c) \<notin> (\<Union>c' \<in> set ws. own_files dir (ch_cid c'))"
      using own_files_disjoint [OF pl(1)] pl(2) False by fastforce
    then have "read_file fs' (cached_file dir (ch_cid c)) = read_file fs1 (cached_file dir (ch_cid c))" using ih by blast
    then show ?thesis using e by (simp add: verified_def)
  qed
  then show ?case using e ih by auto
qed auto

lemma plan_fetched:
  assumes "valid w" "fetch_p2p_with sha cs json fetch mcid plan root mx fs w = (Inr out, fs', w')" "cid_plain sha cs"
  shows "\<exists>bs ws. from_json_bytes json bs = Some (ft_manifest out) \<and> cid_string_for sha cs bs = mcid \<and>
    read_file fs' (join (join root mcid) ''manifest.json'') = Some bs \<and> ft_dir out = join root mcid \<and>
    p2p_wanted (ft_manifest out) plan = Inr ws \<and>
    (\<forall>c \<in> set ws. verified sha cs (join (join root mcid) ''chunks'') fs' (ch_cid c))"
proof -
  let ?d = "join (join root mcid) ''chunks''" and ?man = "join (join root mcid) ''manifest.json''"
  obtain bs w1 where bs: "fetch mcid (- 1) w = (Inr bs, w1)"
    using assms(2) by (cases "fetch mcid (- 1) w"; cases "fst (fetch mcid (- 1) w)") (auto simp: fetch_p2p_with_def)
  note v = stays [OF assms(1) bs]
  obtain m ws n where m: "from_json_bytes json bs = Some m" "cid_string_for sha cs bs = mcid" "p2p_wanted m plan = Inr ws"
      "p2p_chunks sha cs fetch ?d ws 0 0 (write_file ?man bs fs) w1 = (Inr n, fs', w')"
      "ft_dir out = join root mcid" "ft_manifest out = m"
    using assms(2) bs by (auto simp: fetch_p2p_with_def Let_def split: if_splits option.splits sum.splits prod.splits)
  note e = chunks_effect [OF v m(4) assms(3)]
  then have pl: "\<forall>c \<in> set ws. plain_name (ch_cid c)" using verified_plain [OF _ assms(3)] by blast
  have "length (butlast ?man) \<noteq> length ?d" by (simp add: join_def)
  then have "butlast ?man \<noteq> ?d" by metis
  then have "?man \<notin> (\<Union>c \<in> set ws. own_files ?d (ch_cid c))" using own_files_inside pl by blast
  then have "read_file fs' ?man = Some bs" using e by (simp add: read_write_file)
  then show ?thesis using m e by blast
qed

end

section \<open>The node keeps the contract\<close>

definition node_valid :: "node \<Rightarrow> bool" where
  "node_valid = (\<lambda>(s, w, es). (\<forall>ev \<in> set es. asked_of ev = {}) \<and> recs_in {(c, z, v). v < w} (sw_pending s))"

lemma reply_for_in: "reply_for w out = Some (Inr bs) \<Longrightarrow> FetchReply w (Inr bs) \<in> set out"
  by (induction w out rule: reply_for.induct) (auto split: if_splits)

lemma await_effect:
  assumes "await_reply E w es s = (r, s', es')" "recs_in A (sw_pending s)" "\<forall>ev \<in> set es. asked_of ev = {}"
  shows "recs_in A (sw_pending s') \<and> set es' \<subseteq> set es \<and> (\<forall>bs. r = Inr bs \<longrightarrow> (\<exists>cid sz. (cid, sz, w) \<in> A \<and> chunk_ok E cid sz bs))"
  using assms
proof (induction es arbitrary: s)
  case (Cons e es)
  obtain out s1 where 1: "drive_event E e s = (out, s1)" by fastforce
  have st: "recs_in A (sw_pending s1)" "\<forall>w bs. FetchReply w (Inr bs) \<in> set out \<longrightarrow> (\<exists>cid sz. (cid, sz, w) \<in> A \<and> chunk_ok E cid sz bs)"
    using step_recorded [OF 1 Cons.prems(2)] Cons.prems(3) by auto
  show ?case
  proof (cases "reply_for w out")
    case None
    then have "await_reply E w es s1 = (r, s', es')" using Cons.prems(1) 1 by simp
    then show ?thesis using Cons.IH [of s1] st(1) Cons.prems(3) by auto
  next
    case (Some r')
    then have e: "r = r'" "s' = s1" "es' = es" using Cons.prems(1) 1 by auto
    then show ?thesis using st Some by (auto dest: reply_for_in)
  qed
qed auto

lemma node_fetch_effect:
  assumes "node_valid st" "node_fetch E cid sz st = (r, st')"
  shows "node_valid st' \<and> (\<forall>bs. r = Inr bs \<longrightarrow> chunk_ok E cid sz bs)"
proof -
  obtain s w es where st: "st = (s, w, es)" by (cases st)
  obtain out s1 where 1: "drive_event E (CmdFetch cid sz w w) s = (out, s1)" by fastforce
  obtain s2 es2 where 2: "await_reply E w es s1 = (r, s2, es2)" and st': "st' = (s2, w + 1, es2)"
    using assms(2) st 1 by (auto simp: node_fetch_def split: prod.splits)
  let ?A = "{(c, z, v). v \<le> w \<and> (v = w \<longrightarrow> c = cid \<and> z = sz)}"
  have v: "\<forall>ev \<in> set es. asked_of ev = {}" "recs_in {(c, z, v). v < w} (sw_pending s)" using assms(1) st by (auto simp: node_valid_def)
  have "recs_in ?A (sw_pending s)" using v(2) by (force simp: recs_in_def)
  then have "recs_in ?A (sw_pending s1)" using step_recorded [OF 1, of ?A] by auto
  note a = await_effect [OF 2 this v(1)]
  have "recs_in {(c, z, v). v < w + 1} (sw_pending s2)" using conjunct1 [OF a] by (fastforce simp: recs_in_def)
  then show ?thesis using a v(1) by (auto simp: st' node_valid_def)
qed

interpretation node: chunk_source "pe_sha E" "pe_cs E" "node_fetch E" node_valid for E
proof unfold_locales
  fix w cid sz bs w'
  assume "node_valid w" "node_fetch E cid sz w = (Inr bs, w')"
  then have "chunk_ok E cid sz bs" using node_fetch_effect by blast
  then show "cid_string_for (pe_sha E) (pe_cs E) bs = cid" and "sz = - 1 \<or> word_of_nat (length bs) = sz"
    by (simp_all add: chunk_ok_def)
next
  fix w cid sz r w'
  assume "node_valid w" "node_fetch E cid sz w = (r, w')"
  then show "node_valid w'" using node_fetch_effect by blast
qed

text \<open>
  C23. A layer range fetched from the peer-to-peer swarm is what the stitcher needs: whatever peers
  answer, when the fetch succeeds the manifest in the cache has the requested identifier, the header
  chunk reads back verified with its recorded size, and opening the bundles of the range succeeds.
\<close>

theorem p2p_range_opens:
  assumes "node_valid st" "cid_plain (pe_sha E) (pe_cs E)" "honest_manifest (pe_sha E) (pe_cs E) m"
    and "fetch_p2p_with (pe_sha E) (pe_cs E) json (node_fetch E) mcid (for_range m s e) root mx fs st = (Inr out, fs', st')"
    and "ft_manifest out = m"
  shows "(\<exists>bs. read_file fs' (join (ft_dir out) ''manifest.json'') = Some bs \<and> cid_string_for (pe_sha E) (pe_cs E) bs = mcid \<and>
      from_json_bytes json bs = Some m) \<and>
    (\<exists>hb. stitch_read_chunk (pe_sha E) (pe_cs E) fs' (ft_dir out) (ch_cid (m_header_chunk m)) = Inr hb \<and>
      word_of_nat (length hb) = ch_size (m_header_chunk m)) \<and>
    (\<exists>ms. open_bundles fs' (ft_dir out) (range_of m s e) (m_bundles m) = Inr ms)"
proof -
  obtain bs ws where f: "from_json_bytes json bs = Some m" "cid_string_for (pe_sha E) (pe_cs E) bs = mcid"
    "read_file fs' (join (join root mcid) ''manifest.json'') = Some bs" "ft_dir out = join root mcid"
    "p2p_wanted m (for_range m s e) = Inr ws"
    "\<forall>c \<in> set ws. verified (pe_sha E) (pe_cs E) (join (join root mcid) ''chunks'') fs' (ch_cid c)"
    using node.plan_fetched [OF assms(1,4,2)] assms(5) by blast
  show ?thesis
    using f verified_range_opens [OF assms(3,2) p2p_wanted_Inr [OF f(5)], of "join root mcid" fs'] by auto
qed

section \<open>A sample run\<close>

definition len_env :: p2p_env where
  "len_env = \<lparr>pe_sha = length_sha, pe_cs = sample_cs, pe_seed = None, pe_iter = id\<rparr>"

text \<open>One provider answers the three fetches: the manifest (its bytes are \<open>[7]\<close>), the header, block 1.\<close>

definition answers :: "p2p_event list" where
  "answers = [FoundProviders 0 [1] 0, Response 0 (ChunkBytes [7]) 9, FoundProviders 1 [1] 1, Response 1 (ChunkBytes head_bytes) 9,
     FoundProviders 2 [1] 2, Response 2 (ChunkBytes block_bytes) 9]"

lemma node_fetch_answered:
  assumes "sw_pending s = []" "sw_reqs s = []" "chunk_ok len_env cid sz bs"
  shows "\<exists>s'. node_fetch len_env cid sz (s, w, FoundProviders w [1] r # Response r (ChunkBytes bs) n # es) = (Inr bs, s', w + 1, es) \<and>
    sw_pending s' = [] \<and> sw_reqs s' = []"
proof -
  have "check_chunk len_env cid sz bs = Inr bs" using assms(3) by (simp add: check_chunk_Inr)
  then show ?thesis using assms(1,2)
    by (simp add: node_fetch_def update_conv' on_found_def on_response_def Let_def)
qed

lemma demo_p2p_run:
  "\<exists>out fs' st'. fetch_p2p_with length_sha sample_cs (\<lambda>_. Some demo_manifest) (node_fetch len_env) (cid_string_for length_sha sample_cs [7])
     (for_range demo_manifest 1 2) [] 100 [] (swarm_new, 0, answers) = (Inr out, fs', st') \<and> ft_manifest out = demo_manifest"
proof -
  let ?m = "cid_string_for length_sha sample_cs [7]" and ?h = "demo_chunk head_bytes" and ?b = "demo_chunk block_bytes"
  let ?dir = "join (join [] ?m) ''chunks''" and ?fs = "write_file (join (join [] ?m) ''manifest.json'') [7] []"
  have ok: "chunk_ok len_env (ch_cid (demo_chunk bs)) (ch_size (demo_chunk bs)) bs" "chunk_ok len_env ?m (- 1) [7]" for bs
    by (simp_all add: chunk_ok_def len_env_def demo_chunk_def)
  have new: "sw_pending swarm_new = []" "sw_reqs swarm_new = []" by (simp_all add: swarm_new_def)
  obtain s1 where 1: "node_fetch len_env ?m (- 1) (swarm_new, 0, answers) = (Inr [7], s1, 1,
      [FoundProviders 1 [1] 1, Response 1 (ChunkBytes head_bytes) 9, FoundProviders 2 [1] 2, Response 2 (ChunkBytes block_bytes) 9])"
    "sw_pending s1 = []" "sw_reqs s1 = []"
    using node_fetch_answered [OF new ok(2), where w = 0 and r = 0 and n = 9] by (auto simp: answers_def)
  obtain s2 where 2: "node_fetch len_env (ch_cid ?h) (ch_size ?h) (s1, 1,
      [FoundProviders 1 [1] 1, Response 1 (ChunkBytes head_bytes) 9, FoundProviders 2 [1] 2, Response 2 (ChunkBytes block_bytes) 9]) =
      (Inr head_bytes, s2, 2, [FoundProviders 2 [1] 2, Response 2 (ChunkBytes block_bytes) 9])" "sw_pending s2 = []" "sw_reqs s2 = []"
    using node_fetch_answered [OF 1(2,3) ok(1) [of head_bytes], where w = 1 and r = 1 and n = 9] by (auto simp: numeral_2_eq_2)
  obtain s3 where 3: "node_fetch len_env (ch_cid ?b) (ch_size ?b) (s2, 2, [FoundProviders 2 [1] 2, Response 2 (ChunkBytes block_bytes) 9]) =
      (Inr block_bytes, s3, 3, [])"
    using node_fetch_answered [OF 2(2,3) ok(1) [of block_bytes], where w = 2 and r = 2 and n = 9] by auto
  have pl: "plain_name (ch_cid ?h)" "plain_name (ch_cid ?b)" using plain_demo by simp_all
  have none: "read_file ?fs (cached_file ?dir c) = None" if "plain_name c" for c
    using that by (simp add: read_write_file cached_plain chunk_file_def join_def) (simp add: read_file_def)
  have miss1: "\<not> cache_hit length_sha sample_cs ?h ?dir ?fs" using pl by (simp add: cache_hit_def none)
  let ?put = "\<lambda>c bs fs. rename_file (chunk_tmp ?dir (ch_cid c)) (cached_file ?dir (ch_cid c)) (write_file (chunk_tmp ?dir (ch_cid c)) bs fs)"
  have "read_file (?put ?h head_bytes ?fs) (cached_file ?dir (ch_cid ?b)) = None"
    using demo_cids none pl plain_bin_not_tmp [OF pl(2,1), of ?dir] plain_inject [OF pl, of ?dir]
    by (simp add: read_rename_file [of _ _ head_bytes] read_write_file)
  then have miss2: "\<not> cache_hit length_sha sample_cs ?b ?dir (?put ?h head_bytes ?fs)" by (simp add: cache_hit_def)
  have c: "p2p_chunks length_sha sample_cs (node_fetch len_env) ?dir [?h, ?b] 0 0 ?fs (s1, 1,
      [FoundProviders 1 [1] 1, Response 1 (ChunkBytes head_bytes) 9, FoundProviders 2 [1] 2, Response 2 (ChunkBytes block_bytes) 9]) =
    (Inr (ch_size ?h + ch_size ?b, 0), ?put ?b block_bytes (?put ?h head_bytes ?fs), s3, 3, [])"
    using miss1 miss2 2 3 by (simp add: p2p_chunk_def)
  have w: "p2p_wanted demo_manifest (for_range demo_manifest 1 2) = Inr [?h, ?b]"
    by (simp add: p2p_wanted_def for_range_def demo_manifest_def bundle_chunk_def upt_conv_Cons)
  show ?thesis using 1(1) c w by (simp add: fetch_p2p_with_def from_json_bytes_def Let_def)
qed

lemma p2p_range_opens_witness:
  "\<exists>out fs' st' ms. fetch_p2p_with length_sha sample_cs (\<lambda>_. Some demo_manifest) (node_fetch len_env) (cid_string_for length_sha sample_cs [7])
     (for_range demo_manifest 1 2) [] 100 [] (swarm_new, 0, answers) = (Inr out, fs', st') \<and>
     open_bundles fs' (ft_dir out) (range_of demo_manifest 1 2) (m_bundles demo_manifest) = Inr ms"
proof -
  obtain out fs' st' where r: "fetch_p2p_with length_sha sample_cs (\<lambda>_. Some demo_manifest) (node_fetch len_env) (cid_string_for length_sha sample_cs [7])
     (for_range demo_manifest 1 2) [] 100 [] (swarm_new, 0, answers) = (Inr out, fs', st')" "ft_manifest out = demo_manifest"
    using demo_p2p_run by blast
  have e: "pe_sha len_env = length_sha" "pe_cs len_env = sample_cs" by (simp_all add: len_env_def)
  have v: "node_valid (swarm_new, 0, answers)" by (simp add: node_valid_def answers_def swarm_new_def recs_in_def)
  show ?thesis using p2p_range_opens [of _ len_env, unfolded e, OF v length_sha_plain demo_honest r] r(1) by blast
qed

end
