(* ===== verification/Net_Swarm.thy ===== *)
theory Net_Swarm
  imports Dht Event_Loop
begin

text \<open>
  The discovery host, \<open>crates/net/src/swarm.rs\<close>: the task \<open>drive_swarm\<close> over its queues and tables of waiting
  callers, the handle \<open>Libp2pNode\<close>, and the lookups of \<open>dht.rs\<close> through it. libp2p is the environment: an
  event carries what the swarm reports, and a command what the swarm answers to the call it leads to (an
  error, or the id of a Kademlia query). Callers are numbers; peer ids and addresses are their texts.
  Building the swarm and its transport has no state of the program.
\<close>

section \<open>Messages\<close>

record identified_peer =
  ip_peer_id :: string
  ip_protocol_version :: string
  ip_agent_version :: string
  ip_listen_addrs :: "string list"

datatype net_error =
    DialError string
  | BootstrapError string
  | PutError string
  | GetError string

datatype net_event =
    NDial string nat "string option" \<comment> \<open>address, caller, \<open>dial\<close>'s error\<close>
  | NNextIdentified nat
  | NAddBootstrap string string
  | NBootstrap nat "string + nat" \<comment> \<open>caller, \<open>kad.bootstrap\<close>'s error or query\<close>
  | NAnnounce bytes bytes nat "string + nat" \<comment> \<open>key, value, caller, \<open>kad.put_record\<close>'s error or query\<close>
  | NGet bytes nat nat \<comment> \<open>key, caller, query\<close>
  | NShutdown
  | NClosed
  | NIdentified identified_peer
  | NPutResult nat "string option"
  | NFoundRecord nat bytes
  | NGetFinished nat bool \<comment> \<open>\<open>FinishedWithNoAdditionalRecord\<close>, and whether the step is the last\<close>
  | NGetFailed nat string
  | NBootstrapStep nat "string option" bool
  | NOther

datatype net_effect =
    UnitReply nat "net_error option"
  | PeerReply nat identified_peer
  | RecordsReply nat "net_error + bytes list"
  | Forgotten nat \<comment> \<open>a caller whose sender is dropped unanswered\<close>
  | Dial string
  | AddKadAddress string string
  | KadBootstrap
  | KadPut bytes bytes
  | KadGet bytes

record net_swarm =
  ns_pending_id :: "identified_peer list"
  ns_id_waiters :: "nat list"
  ns_put :: "(nat \<times> nat) list"
  ns_get :: "(nat \<times> nat) list"
  ns_bufs :: "(nat \<times> bytes list) list"
  ns_boot :: "(nat \<times> nat) list"

definition net_new :: net_swarm where
  "net_new = \<lparr>ns_pending_id = [], ns_id_waiters = [], ns_put = [], ns_get = [], ns_bufs = [], ns_boot = []\<rparr>"

section \<open>The task\<close>

text \<open>\<open>HashMap::insert\<close> drops a sender that was there, \<open>HashMap::remove\<close> hands it out.\<close>

definition replaced :: "nat \<Rightarrow> (nat \<times> nat) list \<Rightarrow> net_effect list" where
  "replaced q tbl = (case map_of tbl q of Some w \<Rightarrow> [Forgotten w] | None \<Rightarrow> [])"

definition answer :: "(nat \<Rightarrow> net_effect) \<Rightarrow> nat \<Rightarrow> (nat \<times> nat) list \<Rightarrow> net_effect list" where
  "answer f q tbl = (case map_of tbl q of Some w \<Rightarrow> [f w] | None \<Rightarrow> [])"

definition buffered :: "nat \<Rightarrow> net_swarm \<Rightarrow> bytes list" where
  "buffered q s = (case map_of (ns_bufs s) q of Some vs \<Rightarrow> vs | None \<Rightarrow> [])"

definition end_get :: "net_effect list \<Rightarrow> nat \<Rightarrow> net_swarm \<Rightarrow> net_effect list \<times> net_swarm" where
  "end_get out q s = (out, s\<lparr>ns_bufs := AList.delete q (ns_bufs s), ns_get := AList.delete q (ns_get s)\<rparr>)"

text \<open>When the task returns, every sender it holds is dropped.\<close>

definition drop_all :: "net_swarm \<Rightarrow> net_effect list \<times> net_swarm" where
  "drop_all s =
     (map Forgotten (map snd (ns_boot s) @ map snd (ns_get s) @ map snd (ns_put s) @ ns_id_waiters s), net_new)"

fun net_step :: "net_event \<Rightarrow> net_swarm \<Rightarrow> net_effect list \<times> net_swarm" where
  "net_step (NDial addr w err) s = ([Dial addr, UnitReply w (map_option DialError err)], s)"
| "net_step (NNextIdentified w) s =
     (case ns_pending_id s of
        p # ps \<Rightarrow> ([PeerReply w p], s\<lparr>ns_pending_id := ps\<rparr>)
      | [] \<Rightarrow> ([], s\<lparr>ns_id_waiters := ns_id_waiters s @ [w]\<rparr>))"
| "net_step (NAddBootstrap p addr) s = ([AddKadAddress p addr], s)"
| "net_step (NBootstrap w r) s =
     (case r of
        Inr q \<Rightarrow> (KadBootstrap # replaced q (ns_boot s), s\<lparr>ns_boot := AList.update q w (ns_boot s)\<rparr>)
      | Inl e \<Rightarrow> ([KadBootstrap, UnitReply w (Some (BootstrapError e))], s))"
| "net_step (NAnnounce k v w r) s =
     (case r of
        Inr q \<Rightarrow> (KadPut k v # replaced q (ns_put s), s\<lparr>ns_put := AList.update q w (ns_put s)\<rparr>)
      | Inl e \<Rightarrow> ([KadPut k v, UnitReply w (Some (PutError e))], s))"
| "net_step (NGet k w q) s =
     (KadGet k # replaced q (ns_get s),
      s\<lparr>ns_bufs := AList.update q [] (ns_bufs s), ns_get := AList.update q w (ns_get s)\<rparr>)"
| "net_step NShutdown s = drop_all s"
| "net_step NClosed s = drop_all s"
| "net_step (NIdentified p) s =
     (let learn = map (AddKadAddress (ip_peer_id p)) (ip_listen_addrs p)
      in case ns_id_waiters s of
           w # ws \<Rightarrow> (learn @ [PeerReply w p], s\<lparr>ns_id_waiters := ws\<rparr>)
         | [] \<Rightarrow> (learn, s\<lparr>ns_pending_id := ns_pending_id s @ [p]\<rparr>))"
| "net_step (NPutResult q err) s =
     (answer (\<lambda>w. UnitReply w (map_option PutError err)) q (ns_put s), s\<lparr>ns_put := AList.delete q (ns_put s)\<rparr>)"
| "net_step (NFoundRecord q v) s =
     ([], case map_of (ns_bufs s) q of
            Some vs \<Rightarrow> s\<lparr>ns_bufs := AList.update q (vs @ [v]) (ns_bufs s)\<rparr>
          | None \<Rightarrow> s)"
| "net_step (NGetFinished q final) s =
     (if final then end_get (answer (\<lambda>w. RecordsReply w (Inr (buffered q s))) q (ns_get s)) q s else ([], s))"
| "net_step (NGetFailed q e) s =
     end_get (answer (\<lambda>w. RecordsReply w (if buffered q s = [] then Inl (GetError e) else Inr (buffered q s))) q (ns_get s)) q s"
| "net_step (NBootstrapStep q err final) s =
     (if final
      then (answer (\<lambda>w. UnitReply w (map_option BootstrapError err)) q (ns_boot s), s\<lparr>ns_boot := AList.delete q (ns_boot s)\<rparr>)
      else ([], s))"
| "net_step NOther s = ([], s)"

definition net_stops :: "net_event \<Rightarrow> bool" where
  "net_stops e \<longleftrightarrow> e = NShutdown \<or> e = NClosed"

definition drive_net :: "net_event list \<Rightarrow> net_swarm \<Rightarrow> net_effect list \<times> net_swarm" where
  "drive_net = run_until net_step net_stops"

section \<open>Starting\<close>

text \<open>
  \<open>spawn\<close> waits for the first listen address, five seconds at most over all the events before it. An event is
  the time at which it arrives, in milliseconds, and the address if it is one; \<open>now\<close> is the time at which
  the loop asks for the next.
\<close>

definition LISTEN_DEADLINE :: nat where "LISTEN_DEADLINE = 5000"

fun wait_listen :: "nat \<Rightarrow> (nat \<times> string option) list \<Rightarrow> string option" where
  "wait_listen now [] = None"
| "wait_listen now ((t, a) # es) =
     (if LISTEN_DEADLINE \<le> now \<or> LISTEN_DEADLINE < t then None
      else case a of Some addr \<Rightarrow> Some addr | None \<Rightarrow> wait_listen (max now t) es)"

section \<open>The handle\<close>

datatype node_error = TaskGone | ReplyDropped string | NetError net_error

text \<open>A call sends its command and waits; the reply is dropped when the task ends first. \<open>None\<close> is a call that still waits.\<close>

definition await_unit :: "string \<Rightarrow> nat \<Rightarrow> net_effect list \<Rightarrow> (node_error + unit) option" where
  "await_unit what w out =
     (case List.map_filter (\<lambda>e. case e of
          UnitReply v r \<Rightarrow> if v = w then Some (case r of None \<Rightarrow> Inr () | Some x \<Rightarrow> Inl (NetError x)) else None
        | Forgotten v \<Rightarrow> if v = w then Some (Inl (ReplyDropped what)) else None
        | _ \<Rightarrow> None) out of [] \<Rightarrow> None | r # _ \<Rightarrow> Some r)"

definition await_records :: "nat \<Rightarrow> net_effect list \<Rightarrow> (node_error + bytes list) option" where
  "await_records w out =
     (case List.map_filter (\<lambda>e. case e of
          RecordsReply v r \<Rightarrow> if v = w then Some (case r of Inr vs \<Rightarrow> Inr vs | Inl x \<Rightarrow> Inl (NetError x)) else None
        | Forgotten v \<Rightarrow> if v = w then Some (Inl (ReplyDropped ''find reply dropped'')) else None
        | _ \<Rightarrow> None) out of [] \<Rightarrow> None | r # _ \<Rightarrow> Some r)"

text \<open>
  \<open>get_record_raw\<close>: the records found for a key, where \<open>s\<close> is the state of the task when it takes the command
  (\<open>None\<close> when the task is gone), \<open>q\<close> the query it starts, and \<open>evs\<close> the events the task takes after it.
\<close>

definition get_record_raw :: "net_swarm option \<Rightarrow> nat \<Rightarrow> nat \<Rightarrow> net_event list \<Rightarrow> bytes \<Rightarrow> (node_error + bytes list) option" where
  "get_record_raw s w q evs k =
     (case s of
        None \<Rightarrow> Some (Inl TaskGone)
      | Some st \<Rightarrow> await_records w (fst (drive_net (NGet k w q # evs) st)))"

section \<open>Every caller is accounted for\<close>

fun net_issue :: "net_event \<Rightarrow> nat list" where
  "net_issue (NDial a w e) = [w]" | "net_issue (NNextIdentified w) = [w]" | "net_issue (NBootstrap w r) = [w]"
| "net_issue (NAnnounce k v w r) = [w]" | "net_issue (NGet k w q) = [w]" | "net_issue _ = []"

fun net_settle :: "net_effect \<Rightarrow> nat list" where
  "net_settle (UnitReply w r) = [w]" | "net_settle (PeerReply w p) = [w]" | "net_settle (RecordsReply w r) = [w]"
| "net_settle (Forgotten w) = [w]" | "net_settle _ = []"

definition net_waiting :: "net_swarm \<Rightarrow> nat multiset" where
  "net_waiting s = mset (ns_id_waiters s) + callers (ns_put s) + callers (ns_get s) + callers (ns_boot s)"

definition net_inv :: "net_swarm \<Rightarrow> bool" where
  "net_inv s \<longleftrightarrow> distinct (map fst (ns_put s)) \<and> distinct (map fst (ns_get s)) \<and> distinct (map fst (ns_boot s)) \<and>
     map fst (ns_bufs s) = map fst (ns_get s) \<and> (ns_pending_id s = [] \<or> ns_id_waiters s = [])"

lemma net_inv_new [simp]: "net_inv net_new" and net_waiting_new [simp]: "net_waiting net_new = {#}"
  by (simp_all add: net_inv_def net_new_def net_waiting_def)

lemma key_listed: "(k, v) \<in> set xs \<Longrightarrow> map fst xs = map fst ys \<Longrightarrow> k \<in> fst ` set ys"
  by (metis fst_conv image_eqI image_set)

lemmas net_handlers = net_inv_def drop_all_def net_new_def end_get_def Let_def

lemma net_inv_step:
  assumes "net_inv s" "net_step e s = (out, s')"
  shows "net_inv s'"
proof (cases e)
  case (NFoundRecord q v)
  show ?thesis
  proof (cases "map_of (ns_bufs s) q")
    case (Some vs)
    then have "q \<in> fst ` set (ns_bufs s)" by (force dest: map_of_SomeD)
    then have "map fst (AList.update q (vs @ [v]) (ns_bufs s)) = map fst (ns_bufs s)" by (simp add: update_keys)
    then show ?thesis using assms NFoundRecord Some by (auto simp: net_inv_def)
  qed (use assms NFoundRecord in auto)
qed (use assms in \<open>auto simp: net_handlers distinct_update distinct_removeAll update_keys delete_keys
    split: list.splits sum.splits option.splits if_splits\<close>)

lemma settle_forgotten [simp]: "concat (map net_settle (map Forgotten ws)) = ws"
  by (induction ws) simp_all

lemma settle_drop_all: "mset (concat (map net_settle (fst (drop_all s)))) = net_waiting s"
  by (simp add: drop_all_def net_waiting_def callers_def ac_simps del: map_map mset_map)

lemma snd_drop_all: "drop_all s = (out, s') \<Longrightarrow> s' = net_new \<and> out = fst (drop_all s)"
  by (auto simp: drop_all_def)

lemma settle_learn [simp]: "concat (map net_settle (map (AddKadAddress p) as)) = []"
  by (induction as) simp_all

lemma settle_replaced [simp]: "mset (concat (map net_settle (replaced q tbl))) = (case map_of tbl q of Some w \<Rightarrow> {#w#} | None \<Rightarrow> {#})"
  by (simp add: replaced_def split: option.splits)

lemma settle_answer:
  assumes "distinct (map fst tbl)" "\<And>w. net_settle (f w) = [w]"
  shows "mset (concat (map net_settle (answer f q tbl))) + callers (AList.delete q tbl) = callers tbl"
  using callers_take [OF assms(1), of q] assms(2) by (auto simp: answer_def delete_absent split: option.splits)

lemma net_conserves:
  assumes "net_inv s" "net_step e s = (out, s')"
  shows "mset (net_issue e) + net_waiting s = mset (concat (map net_settle out)) + net_waiting s'"
proof -
  note d = assms(1) [unfolded net_inv_def]
  note put = callers_put [of "ns_put s"] callers_put [of "ns_get s"] callers_put [of "ns_boot s"]
  have a: "mset (concat (map net_settle (answer f q (ns_put s)))) + callers (AList.delete q (ns_put s)) = callers (ns_put s)"
    "mset (concat (map net_settle (answer f q (ns_get s)))) + callers (AList.delete q (ns_get s)) = callers (ns_get s)"
    "mset (concat (map net_settle (answer f q (ns_boot s)))) + callers (AList.delete q (ns_boot s)) = callers (ns_boot s)"
    if "\<And>w. net_settle (f w) = [w]" for f q
    using settle_answer [OF _ that] d by blast+
  show ?thesis
  proof (cases e)
    case (NBootstrap w r)
    then show ?thesis using assms(2) put(3) [of _ w] d by (cases r) (auto simp: net_waiting_def ac_simps split: option.splits)
  next
    case (NAnnounce k v w r)
    then show ?thesis using assms(2) put(1) [of _ w] d by (cases r) (auto simp: net_waiting_def ac_simps split: option.splits)
  next
    case (NGet k w q)
    then show ?thesis using assms(2) put(2) [of q w] d by (auto simp: net_waiting_def ac_simps split: option.splits)
  next
    case (NPutResult q err)
    then show ?thesis using assms(2) a(1) [of "\<lambda>w. UnitReply w (map_option PutError err)" q]
      by (auto simp: net_waiting_def ac_simps simp del: mset_concat)
  next
    case (NGetFinished q final)
    then show ?thesis using assms(2) a(2) [of "\<lambda>w. RecordsReply w (Inr (buffered q s))" q]
      by (auto simp: net_waiting_def end_get_def ac_simps split: if_splits simp del: mset_concat)
  next
    case (NGetFailed q er)
    then show ?thesis using assms(2) a(2) [of "\<lambda>w. RecordsReply w (if buffered q s = [] then Inl (GetError er) else Inr (buffered q s))" q]
      by (auto simp: net_waiting_def end_get_def ac_simps split del: if_split simp del: mset_concat)
  next
    case (NBootstrapStep q err final)
    then show ?thesis using assms(2) a(3) [of "\<lambda>w. UnitReply w (map_option BootstrapError err)" q]
      by (auto simp: net_waiting_def ac_simps split: if_splits simp del: mset_concat)
  next
    case NShutdown
    then show ?thesis using assms(2) settle_drop_all [of s] snd_drop_all [of s out s'] by simp
  next
    case NClosed
    then show ?thesis using assms(2) settle_drop_all [of s] snd_drop_all [of s out s'] by simp
  qed (use assms(2) in \<open>auto simp: net_waiting_def Let_def split: list.splits option.splits\<close>)
qed

lemma net_empties: "net_stops e \<Longrightarrow> net_step e s = (out, s') \<Longrightarrow> net_waiting s' = {#}"
  by (auto simp: net_stops_def drop_all_def)

interpretation net: event_loop net_step net_stops net_inv net_issue net_settle net_waiting
  by unfold_locales (fact net_inv_step, fact net_conserves, fact net_empties)

text \<open>
  C26. Every call of the discovery host ends at most once: whatever libp2p reports, no caller of the task is
  answered twice or both answered and still waiting (callers are distinct), and when the task ends,
  by a shutdown or because its handles are gone, every one of them has been answered or told, by its
  dropped sender, that no answer will come.
\<close>

theorem net_calls_settle:
  assumes "distinct (concat (map net_issue (evs @ [e])))" "\<forall>x \<in> set evs. \<not> net_stops x" "net_stops e"
  shows "distinct (concat (map net_settle (fst (drive_net (evs @ [e]) net_new)))) \<and>
    set (concat (map net_settle (fst (drive_net (evs @ [e]) net_new)))) = set (concat (map net_issue (evs @ [e])))"
proof -
  obtain out s' where r: "run_until net_step net_stops (evs @ [e]) net_new = (out, s')" by fastforce
  have t: "taken net_stops (evs @ [e]) = evs @ [e]" using taken_stop [OF assms(3,2), of "[]"] by simp
  have m: "mset (concat (map net_settle out)) = mset (concat (map net_issue (evs @ [e])))"
    by (rule net.all_settled [OF _ _ assms(2,3) r]) simp_all
  have "distinct (concat (map net_settle out))"
    using net.settled_once [OF _ _ r] assms(1) t by simp
  moreover have "set (concat (map net_settle out)) = set (concat (map net_issue (evs @ [e])))"
    by (rule mset_eq_setD [OF m])
  ultimately show ?thesis by (simp only: drive_net_def r fst_conv)
qed

lemma net_calls_settle_witness:
  "set (concat (map net_settle (fst (drive_net ([NGet [] 1 7, NNextIdentified 2, NBootstrap 3 (Inr 7), NGetFailed 7 ''t''] @ [NShutdown]) net_new)))) = {1, 2, 3}"
  using net_calls_settle [of "[NGet [] 1 7, NNextIdentified 2, NBootstrap 3 (Inr 7), NGetFailed 7 ''t'']" NShutdown]
  by (simp add: net_stops_def insert_commute)

section \<open>Lookups\<close>

text \<open>The values libp2p reports for a query, and the events that leave a query running.\<close>

definition found :: "nat \<Rightarrow> net_event list \<Rightarrow> bytes list" where
  "found q evs = List.map_filter (\<lambda>e. case e of NFoundRecord p v \<Rightarrow> if p = q then Some v else None | _ \<Rightarrow> None) evs"

fun running :: "nat \<Rightarrow> net_event \<Rightarrow> bool" where
  "running q (NGet k w p) \<longleftrightarrow> p \<noteq> q" | "running q (NGetFinished p final) \<longleftrightarrow> p \<noteq> q \<or> \<not> final" | "running q (NGetFailed p e) \<longleftrightarrow> p \<noteq> q"
| "running q NShutdown \<longleftrightarrow> False" | "running q NClosed \<longleftrightarrow> False" | "running q _ \<longleftrightarrow> True"

lemma found_simps [simp]:
  "found q [] = []" "found q (e # evs) = (case e of NFoundRecord p v \<Rightarrow> if p = q then [v] else [] | _ \<Rightarrow> []) @ found q evs"
  by (auto simp: found_def map_filter_simps split: net_event.splits)

lemma found_set: "v \<in> set (found q evs) \<longleftrightarrow> NFoundRecord q v \<in> set evs"
  by (induction evs) (auto split: net_event.splits)

lemma map_of_delete: "map_of (AList.delete k xs) q = (if q = k then None else map_of xs q)"
  by (simp add: delete_conv')

lemma running_step:
  assumes "running q e" "net_step e s = (out, s')" "map_of (ns_bufs s) q = Some b" "map_of (ns_get s) q = Some w"
  shows "map_of (ns_bufs s') q = Some (b @ found q [e]) \<and> map_of (ns_get s') q = Some w"
  using assms
  by (cases e) (auto simp: end_get_def Let_def update_conv' map_of_delete split: list.splits sum.splits option.splits if_splits)

lemma running_run:
  assumes "\<forall>e \<in> set evs. running q e" "drive_net evs s = (out, s')" "map_of (ns_bufs s) q = Some b" "map_of (ns_get s) q = Some w"
  shows "map_of (ns_bufs s') q = Some (b @ found q evs) \<and> map_of (ns_get s') q = Some w"
  using assms
proof (induction evs arbitrary: s out b)
  case (Cons e evs)
  obtain o1 s1 where 1: "net_step e s = (o1, s1)" by fastforce
  have e: "running q e" "\<not> net_stops e" using Cons.prems(1) by (auto simp: net_stops_def)
  obtain o2 where "drive_net evs s1 = (o2, s')" using Cons.prems(2) 1 e(2) by (auto simp: drive_net_def split: prod.splits)
  with running_step [OF e(1) 1 Cons.prems(3,4)] Cons.IH [of s1] Cons.prems(1) show ?case by (cases e) auto
qed (simp add: drive_net_def)

lemma running_not_stop: "running q e \<Longrightarrow> \<not> net_stops e"
  by (auto simp: net_stops_def)

text \<open>While the query runs its caller is not answered: the task still holds it.\<close>

lemma quiet_run:
  assumes "net_inv s" "w \<notin># net_waiting s" "w \<notin> set (concat (map net_issue evs))" "\<forall>e \<in> set evs. running q e"
    and "drive_net (NGet k w q # evs) s = (out, s')"
  shows "map_of (ns_bufs s') q = Some (found q evs) \<and> map_of (ns_get s') q = Some w \<and> w \<notin> set (concat (map net_settle out))"
proof -
  obtain o1 s1 where 1: "net_step (NGet k w q) s = (o1, s1)" by fastforce
  obtain o2 where 2: "drive_net evs s1 = (o2, s')" "out = o1 @ o2"
    using assms(5) 1 by (auto simp: drive_net_def net_stops_def split: prod.splits)
  have m: "map_of (ns_bufs s') q = Some ([] @ found q evs) \<and> map_of (ns_get s') q = Some w"
    by (rule running_run [OF assms(4) 2(1)]) (simp_all add: 1 [simplified, THEN conjunct2, symmetric] update_conv')
  then have "w \<in># callers (ns_get s')" by (force simp: callers_def dest: map_of_SomeD)
  then have "w \<in># net_waiting s'" by (simp add: net_waiting_def)
  then have 3: "0 < count (net_waiting s') w" by simp
  let ?evs = "NGet k w q # evs"
  have "taken net_stops ?evs = ?evs" using assms(4) by (intro taken_all) (auto simp: net_stops_def dest: running_not_stop)
  then have "mset (concat (map net_issue ?evs)) + net_waiting s = mset (concat (map net_settle out)) + net_waiting s'"
    using net.run_conserves [OF assms(1) assms(5) [unfolded drive_net_def]] by simp
  from arg_cong [OF this, of "\<lambda>M. count M w"]
  have "count (mset (concat (map net_settle out))) w + count (net_waiting s') w =
      count (mset (concat (map net_issue ?evs))) w + count (net_waiting s) w" by (simp del: mset_concat)
  moreover have "count (mset (concat (map net_issue ?evs))) w = 1" "count (net_waiting s) w = 0"
    using assms(2,3) by (simp_all add: count_eq_zero_iff del: mset_concat)
  ultimately have "count (mset (concat (map net_settle out))) w = 0" using 3 by linarith
  then show ?thesis using m by (simp add: count_eq_zero_iff del: mset_concat)
qed

lemma await_skip:
  assumes "w \<notin> set (concat (map net_settle out))"
  shows "await_records w (out @ rest) = await_records w rest"
proof -
  let ?f = "\<lambda>e. case e of
          RecordsReply v r \<Rightarrow> if v = w then Some (case r of Inr vs \<Rightarrow> Inr vs | Inl x \<Rightarrow> Inl (NetError x)) else None
        | Forgotten v \<Rightarrow> if v = w then Some (Inl (ReplyDropped ''find reply dropped'')) else None
        | _ \<Rightarrow> None"
  have "List.map_filter ?f out = []" using assms
    by (induction out) (auto simp: map_filter_simps split: net_effect.splits option.splits if_splits)
  then have "List.map_filter ?f (out @ rest) = List.map_filter ?f rest" by (simp add: List.map_filter_def)
  then show ?thesis by (simp add: await_records_def)
qed

definition get_end :: "nat \<Rightarrow> net_event \<Rightarrow> bool" where
  "get_end q e \<longleftrightarrow> e = NGetFinished q True \<or> (\<exists>er. e = NGetFailed q er)"

lemma get_record_collects:
  assumes "net_inv s" "w \<notin># net_waiting s" "w \<notin> set (concat (map net_issue evs))" "\<forall>e \<in> set evs. running q e" "get_end q e"
  shows "get_record_raw (Some s) w q (evs @ e # rest) k =
    Some (case e of NGetFailed p er \<Rightarrow> if found q evs = [] then Inl (NetError (GetError er)) else Inr (found q evs) | _ \<Rightarrow> Inr (found q evs))"
proof -
  obtain o1 s1 where 1: "drive_net (NGet k w q # evs) s = (o1, s1)" by fastforce
  note quiet = quiet_run [OF assms(1-4) 1]
  have "\<forall>x \<in> set (NGet k w q # evs). \<not> net_stops x" using assms(4) by (auto simp: net_stops_def dest: running_not_stop)
  from run_until_append [OF this, of net_step "e # rest" s] 1
  have "fst (drive_net (NGet k w q # evs @ e # rest) s) = o1 @ fst (drive_net (e # rest) s1)"
    by (auto simp: drive_net_def split: prod.splits)
  moreover have "\<not> net_stops e" using assms(5) by (auto simp: get_end_def net_stops_def)
  then obtain o3 where "fst (drive_net (e # rest) s1) = fst (net_step e s1) @ o3"
    by (cases "net_step e s1"; cases "run_until net_step net_stops rest (snd (net_step e s1))") (auto simp: drive_net_def)
  moreover have "fst (net_step e s1) = [RecordsReply w (case e of NGetFailed p er \<Rightarrow> if found q evs = [] then Inl (GetError er) else Inr (found q evs)
      | _ \<Rightarrow> Inr (found q evs))]"
    using assms(5) quiet by (auto simp: get_end_def end_get_def answer_def buffered_def)
  ultimately have "get_record_raw (Some s) w q (evs @ e # rest) k = await_records w ([RecordsReply w (case e of
      NGetFailed p er \<Rightarrow> if found q evs = [] then Inl (GetError er) else Inr (found q evs) | _ \<Rightarrow> Inr (found q evs))] @ o3)"
    using await_skip quiet by (simp add: get_record_raw_def)
  then show ?thesis using assms(5) by (auto simp: await_records_def map_filter_simps get_end_def)
qed

text \<open>What \<open>dht.rs\<close> makes of a lookup: an error is no answer.\<close>

definition dht_get :: "net_swarm option \<Rightarrow> nat \<Rightarrow> nat \<Rightarrow> net_event list \<Rightarrow> bytes \<Rightarrow> bytes list option" where
  "dht_get s w q evs k = (case get_record_raw s w q evs k of Some (Inr vs) \<Rightarrow> Some vs | _ \<Rightarrow> None)"

text \<open>
  C27. The records of the providers a lookup returns are those libp2p reported for its query and no others, however
  the lookups, announcements and other events of the task interleave; in particular a slice that a peer
  announced is found, when the network hands out the value it put. A lookup that fails on the way still
  returns what it had found.
\<close>

theorem announced_is_found:
  assumes "net_inv s" "w \<notin># net_waiting s" "w \<notin> set (concat (map net_issue evs))" "\<forall>e \<in> set evs. running q e" "get_end q e"
    and "\<And>r v. enc_provider C r = Some v \<Longrightarrow> dec_provider C v = Some r"
    and "announce_shard b3 C cid st en r = Some (key, v)" "NFoundRecord q v \<in> set evs"
  shows "\<exists>ps. find_shard_providers b3 C (dht_get (Some s) w q (evs @ e # rest)) cid st en = Some ps \<and> r \<in> set ps \<and>
    set ps = {p. \<exists>v. NFoundRecord q v \<in> set evs \<and> dec_provider C v = Some p} \<and>
    KadGet key \<in> set (fst (drive_net (NGet (shard_key b3 cid st en) w q # evs @ e # rest) s))"
proof -
  have f: "set (found q evs) = {v. NFoundRecord q v \<in> set evs}" by (auto simp: found_set)
  then have "found q evs \<noteq> []" using assms(8) by auto
  then have "dht_get (Some s) w q (evs @ e # rest) k = Some (found q evs)" for k
    using get_record_collects [OF assms(1-5), of rest k] by (auto simp: dht_get_def split: net_event.splits)
  moreover have "set (List.map_filter (dec_provider C) vs) = {p. \<exists>v \<in> set vs. dec_provider C v = Some p}" for vs
    by (auto simp: List.map_filter_def) force
  moreover have "dec_provider C v = Some r" "key = shard_key b3 cid st en" using assms(6,7) by (auto simp: announce_shard_def)
  ultimately show ?thesis using f assms(8)
    by (auto simp: find_shard_providers_def drive_net_def net_stops_def split: prod.splits)
qed

definition demo_provider :: provider_record where
  "demo_provider = \<lparr>pr_peer_id = ''p'', pr_addrs = [], pr_chunks_url = None, pr_manifest_cid = None, pr_forward_url = None, pr_minted_at = 1\<rparr>"

definition demo_cbor :: cbor_dht where
  "demo_cbor = \<lparr>enc_provider = (\<lambda>r. if r = demo_provider then Some [1] else None), dec_provider = (\<lambda>v. if v = [1] then Some demo_provider else None),
     enc_envelope = (\<lambda>_. None), dec_envelope = (\<lambda>_. None)\<rparr>"

lemma announced_is_found_witness:
  "\<exists>ps. find_shard_providers id demo_cbor (dht_get (Some net_new) 1 7 ([NFoundRecord 7 [0], NOther, NFoundRecord 7 [1]] @ NGetFailed 7 ''timeout'' # [])) ''m'' 0 8
      = Some ps \<and> demo_provider \<in> set ps"
proof -
  let ?evs = "[NFoundRecord 7 [0], NOther, NFoundRecord 7 [1]]"
  have codec: "dec_provider demo_cbor v = Some r" if "enc_provider demo_cbor r = Some v" for r v
    using that by (auto simp: demo_cbor_def split: if_splits)
  have put: "announce_shard id demo_cbor ''m'' 0 8 demo_provider = Some (shard_key id ''m'' 0 8, [1])"
    by (simp add: announce_shard_def demo_cbor_def)
  have get: "1 \<notin># net_waiting net_new" "1 \<notin> set (concat (map net_issue ?evs))" "\<forall>e \<in> set ?evs. running 7 e"
    "get_end 7 (NGetFailed 7 ''timeout'')" "NFoundRecord 7 [1] \<in> set ?evs"
    by (simp_all add: get_end_def)
  from announced_is_found [OF net_inv_new get(1-4) codec put get(5), of "[]"] show ?thesis by blast
qed

section \<open>Identify\<close>

fun askers :: "net_event list \<Rightarrow> nat list" where
  "askers [] = []" | "askers (NNextIdentified w # es) = w # askers es" | "askers (_ # es) = askers es"

fun idents :: "net_event list \<Rightarrow> identified_peer list" where
  "idents [] = []" | "idents (NIdentified p # es) = p # idents es" | "idents (_ # es) = idents es"

definition peer_replies :: "net_effect list \<Rightarrow> (nat \<times> identified_peer) list" where
  "peer_replies out = List.map_filter (\<lambda>e. case e of PeerReply w p \<Rightarrow> Some (w, p) | _ \<Rightarrow> None) out"

lemma peer_replies_simps [simp]:
  "peer_replies [] = []" "peer_replies (e # out) = (case e of PeerReply w p \<Rightarrow> [(w, p)] | _ \<Rightarrow> []) @ peer_replies out"
  "peer_replies (out @ out2) = peer_replies out @ peer_replies out2"
  by (auto simp: peer_replies_def map_filter_simps List.map_filter_def split: net_effect.splits)

lemma peer_replies_none [simp]:
  "peer_replies (map (AddKadAddress p) as) = []" "peer_replies (replaced q tbl) = []"
  "(\<And>w. peer_replies [f w] = []) \<Longrightarrow> peer_replies (answer f q tbl) = []"
  by (induction as) (auto simp: replaced_def answer_def split: option.splits)

lemma fifo_step:
  assumes "net_inv s" "net_step e s = (out, s')" "\<not> net_stops e"
  shows "zip (ns_id_waiters s @ askers (e # es)) (ns_pending_id s @ idents (e # es)) =
      peer_replies out @ zip (ns_id_waiters s' @ askers es) (ns_pending_id s' @ idents es) \<and>
    length (ns_pending_id s') + length (askers [e]) + length (ns_id_waiters s) = length (ns_pending_id s) + length (idents [e]) + length (ns_id_waiters s')"
  using assms
  by (cases e) (auto simp: net_inv_def net_stops_def end_get_def Let_def split: list.splits sum.splits option.splits if_splits)

lemma fifo_run:
  assumes "net_inv s" "drive_net es s = (out, s')" "\<forall>e \<in> set es. \<not> net_stops e"
  shows "peer_replies out @ zip (ns_id_waiters s') (ns_pending_id s') = zip (ns_id_waiters s @ askers es) (ns_pending_id s @ idents es) \<and>
    length (ns_pending_id s') + length (askers es) + length (ns_id_waiters s) = length (ns_pending_id s) + length (idents es) + length (ns_id_waiters s')"
  using assms
proof (induction es arbitrary: s out)
  case (Cons e es)
  obtain o1 s1 where 1: "net_step e s = (o1, s1)" by fastforce
  obtain o2 where 2: "drive_net es s1 = (o2, s')" "out = o1 @ o2" using Cons.prems 1 by (auto simp: drive_net_def split: prod.splits)
  have "length (askers (e # es)) = length (askers [e]) + length (askers es)" "length (idents (e # es)) = length (idents [e]) + length (idents es)"
    by (cases e; simp)+
  then show ?case
    using fifo_step [OF Cons.prems(1) 1, of es] Cons.IH [OF net_inv_step [OF Cons.prems(1) 1] 2(1)] Cons.prems(3) 2(2) by simp
qed (simp add: drive_net_def)

text \<open>
  The callers of \<open>next_identified\<close> are answered in their order with the Identify exchanges in theirs, each
  caller one and each exchange once: whichever comes first waits for the other. So a caller is not given
  the next exchange but the oldest that no caller has had, and the exchanges nobody asks for stay queued:
  after a run without callers the task holds every one of them.
\<close>

theorem identify_in_order:
  assumes "\<forall>e \<in> set es. \<not> net_stops e"
  shows "peer_replies (fst (drive_net es net_new)) = zip (askers es) (idents es) \<and>
    length (ns_pending_id (snd (drive_net es net_new))) = length (idents es) - length (askers es)"
proof -
  obtain out s' where r: "drive_net es net_new = (out, s')" by fastforce
  have "net_inv s'" using net.run_inv [OF net_inv_new r [unfolded drive_net_def]] .
  then show ?thesis using fifo_run [OF net_inv_new r assms] r by (auto simp: net_inv_def net_new_def)
qed

lemma identify_in_order_witness:
  "peer_replies (fst (drive_net [NIdentified p, NIdentified r, NNextIdentified 1] net_new)) = [(1, p)] \<and>
    length (ns_pending_id (snd (drive_net [NIdentified p, NIdentified r, NNextIdentified 1] net_new))) = 1"
  using identify_in_order [of "[NIdentified p, NIdentified r, NNextIdentified 1]"] by (simp add: net_stops_def)

end
