(* ===== verification/Directory.thy ===== *)
theory Directory
  imports Wire "HOL-Library.AList"
begin

text \<open>
  Peer directories, \<open>crates/net/src/directory.rs\<close> and \<open>crates/net/src/mdns.rs\<close>: the trait \<open>PeerDirectory\<close> as the
  locale \<open>peer_directory\<close>, its two implementations, and what an mDNS announcement becomes. A hash map is
  its association list (only sets of its entries are spoken of). The JSON of a capability, the texts of
  IP addresses, the clock and the mDNS daemon are the environment.
\<close>

section \<open>Records\<close>

record peer_record =
  pd_peer_id :: bytes
  pd_addrs :: "string list"
  pd_capability :: capability_v1
  pd_last_seen :: u64

definition serves :: "string \<Rightarrow> quant \<Rightarrow> peer_record \<Rightarrow> bool" where
  "serves m q r \<longleftrightarrow> m \<in> set (cap_models (pd_capability r)) \<and> q \<in> set (cap_quants (pd_capability r))"

text \<open>The default method of the trait, over the directory's \<open>all\<close>.\<close>

definition providers :: "('d \<Rightarrow> peer_record list) \<Rightarrow> string \<Rightarrow> quant \<Rightarrow> 'd \<Rightarrow> peer_record list" where
  "providers all m q d = filter (serves m q) (all d)"

section \<open>The interface\<close>

text \<open>The records of which no later one is of the same peer.\<close>

definition latest :: "peer_record list \<Rightarrow> peer_record set" where
  "latest rs = {r. \<exists>xs ys. rs = xs @ r # ys \<and> pd_peer_id r \<notin> pd_peer_id ` set ys}"

lemma latest_Nil [simp]: "latest [] = {}" by (simp add: latest_def)

lemma latest_snoc: "latest (rs @ [r]) = insert r {x \<in> latest rs. pd_peer_id x \<noteq> pd_peer_id r}"
proof (intro set_eqI iffI)
  fix x assume "x \<in> latest (rs @ [r])"
  then obtain xs ys where e: "rs @ [r] = xs @ x # ys" "pd_peer_id x \<notin> pd_peer_id ` set ys" by (auto simp: latest_def)
  show "x \<in> insert r {x \<in> latest rs. pd_peer_id x \<noteq> pd_peer_id r}"
  proof (cases ys rule: rev_cases)
    case (snoc zs z)
    then show ?thesis using e by (auto simp: latest_def)
  qed (use e in simp)
next
  fix x assume "x \<in> insert r {x \<in> latest rs. pd_peer_id x \<noteq> pd_peer_id r}"
  then consider "x = r" | xs ys where "rs = xs @ x # ys" "pd_peer_id x \<notin> pd_peer_id ` set ys" "pd_peer_id x \<noteq> pd_peer_id r"
    by (auto simp: latest_def)
  then show "x \<in> latest (rs @ [r])"
  proof cases
    case 1
    then show ?thesis unfolding latest_def by (intro CollectI exI [of _ rs] exI [of _ "[]"]) simp
  next
    case (2 xs ys)
    then show ?thesis unfolding latest_def by (intro CollectI exI [of _ xs] exI [of _ "ys @ [r]"]) simp
  qed
qed

locale peer_directory =
  fixes all :: "'d \<Rightarrow> peer_record list" and learn :: "peer_record \<Rightarrow> 'd \<Rightarrow> 'd" and valid :: "'d \<Rightarrow> bool"
  assumes keyed: "valid d \<Longrightarrow> distinct (map pd_peer_id (all d))"
    and stays: "valid d \<Longrightarrow> valid (learn r d)"
    and learned: "valid d \<Longrightarrow> set (all (learn r d)) = insert r {x \<in> set (all d). pd_peer_id x \<noteq> pd_peer_id r}"
begin

lemma all_latest: "valid d \<Longrightarrow> all d = [] \<Longrightarrow> valid (fold learn rs d) \<and> set (all (fold learn rs d)) = latest rs"
  by (induction rs rule: rev_induct) (simp_all add: stays learned latest_snoc)

lemma providers_latest:
  "valid d \<Longrightarrow> all d = [] \<Longrightarrow>
    set (providers all m q (fold learn rs d)) = {r \<in> latest rs. serves m q r} \<and> distinct (map pd_peer_id (providers all m q (fold learn rs d)))"
  using all_latest [of d rs] keyed [of "fold learn rs d"] by (auto simp: providers_def distinct_map_filter)

end

section \<open>Static and mDNS directories\<close>

type_synonym directory = "(bytes \<times> peer_record) list"

definition directory_insert :: "peer_record \<Rightarrow> directory \<Rightarrow> directory" where
  "directory_insert r d = AList.update (pd_peer_id r) r d"

definition directory_all :: "directory \<Rightarrow> peer_record list" where
  "directory_all d = map snd d"

definition directory_ok :: "directory \<Rightarrow> bool" where
  "directory_ok d \<longleftrightarrow> distinct (map fst d) \<and> (\<forall>(k, r) \<in> set d. pd_peer_id r = k)"

lemma directory_ok_keys: "directory_ok d \<Longrightarrow> map pd_peer_id (directory_all d) = map fst d"
  by (auto simp: directory_ok_def directory_all_def)

lemma set_update: "distinct (map fst xs) \<Longrightarrow> set (AList.update k v xs) = insert (k, v) {(a, b) \<in> set xs. a \<noteq> k}"
  by (induction xs) (auto intro: rev_image_eqI)

interpretation static: peer_directory directory_all directory_insert directory_ok
proof
  fix d r assume ok: "directory_ok d"
  show "distinct (map pd_peer_id (directory_all d))" using ok by (simp only: directory_ok_keys) (simp add: directory_ok_def)
  show "directory_ok (directory_insert r d)" using ok
    by (auto simp: directory_ok_def directory_insert_def distinct_update set_update)
  show "set (directory_all (directory_insert r d)) = insert r {x \<in> set (directory_all d). pd_peer_id x \<noteq> pd_peer_id r}" using ok
    by (auto simp: directory_ok_def directory_insert_def directory_all_def set_update image_iff Bex_def)
qed

record service_info =
  si_props :: "(string \<times> string) list"
  si_addresses :: "string list"
  si_port :: u16

definition TXT_CAPABILITY :: string where "TXT_CAPABILITY = ''cap''"
definition TXT_PEER_ID :: string where "TXT_PEER_ID = ''pid''"

text \<open>The JSON coders of a capability.\<close>

record cap_json =
  cj_enc :: "capability_v1 \<Rightarrow> string option"
  cj_dec :: "string \<Rightarrow> capability_v1 option"

definition record_from_info :: "cap_json \<Rightarrow> u64 \<Rightarrow> service_info \<Rightarrow> peer_record option" where
  "record_from_info J now i =
     Option.bind (map_of (si_props i) TXT_CAPABILITY) (\<lambda>raw.
       map_option (\<lambda>cap.
         \<lparr>pd_peer_id = cap_peer_id cap, pd_addrs = map (\<lambda>ip. ip @ '':'' @ dec_digits (unat (si_port i))) (si_addresses i),
          pd_capability = cap, pd_last_seen = now\<rparr>) (cj_dec J raw))"

text \<open>What a node that advertises itself publishes; a capability that cannot be encoded is published as nothing.\<close>

definition self_info :: "cap_json \<Rightarrow> string list \<Rightarrow> capability_v1 \<Rightarrow> u16 \<Rightarrow> string \<Rightarrow> service_info" where
  "self_info J host_ifs cap port pid =
     \<lparr>si_props = [(TXT_PEER_ID, pid), (TXT_CAPABILITY, case cj_enc J cap of Some s \<Rightarrow> s | None \<Rightarrow> [])],
      si_addresses = host_ifs, si_port = port\<rparr>"

datatype mdns_event = Resolved service_info u64 | Removed string | OtherService | RecvError

fun mdns_step :: "cap_json \<Rightarrow> mdns_event \<Rightarrow> directory \<Rightarrow> directory" where
  "mdns_step J (Resolved i now) d =
     (case record_from_info J now i of Some r \<Rightarrow> directory_insert r d | None \<Rightarrow> d)"
| "mdns_step J (Removed name) d = d"
| "mdns_step J OtherService d = d"
| "mdns_step J RecvError d = d"

definition mdns_watch :: "cap_json \<Rightarrow> mdns_event list \<Rightarrow> directory" where
  "mdns_watch J evs = fold (mdns_step J) evs []"

fun heard :: "cap_json \<Rightarrow> mdns_event list \<Rightarrow> peer_record list" where
  "heard J [] = []"
| "heard J (Resolved i now # evs) = (case record_from_info J now i of Some r \<Rightarrow> r # heard J evs | None \<Rightarrow> heard J evs)"
| "heard J (_ # evs) = heard J evs"

lemma watch_heard: "fold (mdns_step J) evs d = fold directory_insert (heard J evs) d"
proof (induction evs arbitrary: d)
  case (Cons e evs)
  then show ?case by (cases e) (auto split: option.splits)
qed simp

lemma watch_providers:
  "set (providers directory_all m q (mdns_watch J evs)) = {r \<in> latest (heard J evs). serves m q r} \<and>
    distinct (map pd_peer_id (providers directory_all m q (mdns_watch J evs)))"
  using static.providers_latest [of "[]" m q "heard J evs"]
  by (simp add: mdns_watch_def watch_heard directory_ok_def directory_all_def)

text \<open>
  The peers an mDNS directory gives for a model and a quantisation are, one record each, those whose last
  readable announcement offers it; an announcement that a service is gone changes nothing, so a peer that
  has left is still given.
\<close>

theorem mdns_providers:
  "set (providers directory_all m q (mdns_watch J evs)) = {r \<in> latest (heard J evs). serves m q r} \<and>
    distinct (map pd_peer_id (providers directory_all m q (mdns_watch J evs))) \<and>
    mdns_watch J (evs @ [Removed name]) = mdns_watch J evs"
  using watch_providers by (simp add: mdns_watch_def)

text \<open>
  A node that advertises itself is found by the others of its network: once its service is resolved it is a
  provider of each model and quantisation it offers, under its own id and at its addresses, until it
  announces something else.
\<close>

theorem advertised_is_provided:
  assumes "\<And>c s. cj_enc J c = Some s \<Longrightarrow> cj_dec J s = Some c" "cj_enc J cap \<noteq> None" "m \<in> set (cap_models cap)" "q \<in> set (cap_quants cap)"
    and "\<forall>r \<in> set (heard J later). pd_peer_id r \<noteq> cap_peer_id cap"
  shows "\<exists>r \<in> set (providers directory_all m q (mdns_watch J (earlier @ Resolved (self_info J ips cap port pid) now # later))).
    pd_peer_id r = cap_peer_id cap \<and> pd_capability r = cap \<and> pd_addrs r = map (\<lambda>ip. ip @ '':'' @ dec_digits (unat port)) ips \<and>
    pd_last_seen r = now"
proof -
  obtain s where s: "cj_enc J cap = Some s" "cj_dec J s = Some cap" using assms(1,2) by blast
  let ?r = "\<lparr>pd_peer_id = cap_peer_id cap, pd_addrs = map (\<lambda>ip. ip @ '':'' @ dec_digits (unat port)) ips, pd_capability = cap, pd_last_seen = now\<rparr>"
  have i: "record_from_info J now (self_info J ips cap port pid) = Some ?r"
    using s by (simp add: record_from_info_def self_info_def TXT_CAPABILITY_def TXT_PEER_ID_def)
  have app: "heard J (xs @ ys) = heard J xs @ heard J ys" for xs ys
    by (induction J xs rule: heard.induct) (auto split: option.splits)
  have "?r \<in> latest (heard J earlier @ ?r # heard J later)"
    unfolding latest_def using assms(5) by (intro CollectI exI [of _ "heard J earlier"] exI [of _ "heard J later"]) auto
  then have "?r \<in> latest (heard J (earlier @ Resolved (self_info J ips cap port pid) now # later))" by (simp add: app i)
  then have "?r \<in> set (providers directory_all m q (mdns_watch J (earlier @ Resolved (self_info J ips cap port pid) now # later)))"
    using assms(3,4) by (simp add: watch_providers [THEN conjunct1] serves_def)
  then show ?thesis by (intro bexI [of _ ?r]) simp_all
qed

definition demo_cap :: capability_v1 where
  "demo_cap = \<lparr>cap_peer_id = [7], cap_backend = LlamaCpp, cap_quants = [Q8_0], cap_vram_bytes = 0, cap_ram_bytes = 0, cap_tok_per_sec = 0,
     cap_max_seq = 0, cap_models = [''m''], cap_layers = [], cap_role = Volunteer\<rparr>"

definition demo_cap_json :: cap_json where
  "demo_cap_json = \<lparr>cj_enc = (\<lambda>c. if c = demo_cap then Some ''x'' else None), cj_dec = (\<lambda>s. if s = ''x'' then Some demo_cap else None)\<rparr>"

lemma advertised_is_provided_witness:
  "\<exists>r. r \<in> set (providers directory_all ''m'' Q8_0 (mdns_watch demo_cap_json
      ([RecvError] @ Resolved (self_info demo_cap_json [''10.0.0.1''] demo_cap 7717 ''p'') 5 # [Removed ''x'']))) \<and> pd_peer_id r = [7]"
proof -
  have "cj_dec demo_cap_json s = Some c" if "cj_enc demo_cap_json c = Some s" for c s
    using that by (auto simp: demo_cap_json_def split: if_splits)
  moreover have "cj_enc demo_cap_json demo_cap \<noteq> None" "''m'' \<in> set (cap_models demo_cap)" "Q8_0 \<in> set (cap_quants demo_cap)" "cap_peer_id demo_cap = [7]"
    by (simp_all add: demo_cap_json_def demo_cap_def)
  ultimately show ?thesis
    using advertised_is_provided [of demo_cap_json demo_cap "''m''" Q8_0 "[Removed ''x'']" "[RecvError]" "[''10.0.0.1'']" 7717 "''p''" 5] by auto
qed

end
