(* ===== verification/Metadata.thy ===== *)
theory Metadata
  imports Gguf
begin

text \<open>
  The model picker's metadata reader, \<open>crates/model-store/src/metadata.rs\<close>: one walk over the key/value table of
  a parsed GGUF, and the label of a mixture-of-experts model. \<open>String::from_utf8_lossy\<close> is written out.
\<close>

section \<open>Lossy decoding\<close>

text \<open>
  One step of the decoder: whether the bytes start with a well-formed character, and the number of bytes
  of it, or of the longest prefix of one.
\<close>

definition lead_len :: "byte \<Rightarrow> nat" where
  "lead_len a =
     (if a < 0x80 then 1 else if 0xC2 \<le> a \<and> a \<le> 0xDF then 2 else if 0xE0 \<le> a \<and> a \<le> 0xEF then 3
      else if 0xF0 \<le> a \<and> a \<le> 0xF4 then 4 else 0)"

definition second_ok :: "byte \<Rightarrow> byte \<Rightarrow> bool" where
  "second_ok a b =
     (if a = 0xE0 then 0xA0 \<le> b \<and> b \<le> 0xBF else if a = 0xED then 0x80 \<le> b \<and> b \<le> 0x9F
      else if a = 0xF0 then 0x90 \<le> b \<and> b \<le> 0xBF else if a = 0xF4 then 0x80 \<le> b \<and> b \<le> 0x8F else utf8_cont b)"

fun utf8_step :: "bytes \<Rightarrow> bool \<times> nat" where
  "utf8_step [] = (True, 0)"
| "utf8_step (a # r) =
     (let n = lead_len a
      in if n = 1 then (True, 1)
         else if n = 0 then (False, 1)
         else case r of
                [] \<Rightarrow> (False, 1)
              | b # r2 \<Rightarrow>
                  if \<not> second_ok a b then (False, 1)
                  else if n = 2 then (True, 2)
                  else case r2 of
                         [] \<Rightarrow> (False, 2)
                       | c # r3 \<Rightarrow>
                           if \<not> utf8_cont c then (False, 2)
                           else if n = 3 then (True, 3)
                           else case r3 of
                                  [] \<Rightarrow> (False, 3)
                                | d # _ \<Rightarrow> if utf8_cont d then (True, 4) else (False, 3))"

lemma utf8_step_pos: "bs \<noteq> [] \<Longrightarrow> 0 < snd (utf8_step bs)"
  by (cases bs) (auto simp: Let_def split: list.splits)

lemma utf8_step_less: "(ok, n) = utf8_step (a # r) \<Longrightarrow> 0 < n"
  using utf8_step_pos [of "a # r"] by (metis list.distinct(1) snd_conv)

definition REPLACEMENT :: bytes where "REPLACEMENT = [0xEF, 0xBF, 0xBD]"

function from_utf8_lossy :: "bytes \<Rightarrow> bytes" where
  "from_utf8_lossy [] = []"
| "from_utf8_lossy (a # r) =
     (case utf8_step (a # r) of (ok, n) \<Rightarrow> (if ok then take n (a # r) else REPLACEMENT) @ from_utf8_lossy (drop n (a # r)))"
  by pat_completeness auto
termination
  by (relation "measure length") (auto dest!: utf8_step_less simp del: utf8_step.simps)

declare from_utf8_lossy.simps [simp del]

text \<open>Well-formed text is kept as it is.\<close>

lemma above: "c \<le> (a :: byte) \<Longrightarrow> d < c \<Longrightarrow> \<not> a \<le> d"
  by auto

lemma valid_parts:
  assumes "utf8_valid (a # r)"
  shows "lead_len a = 1 \<and> utf8_valid r \<or>
    lead_len a = 2 \<and> (\<exists>b t. r = b # t \<and> second_ok a b \<and> utf8_valid t) \<or>
    lead_len a = 3 \<and> (\<exists>b c t. r = b # c # t \<and> second_ok a b \<and> utf8_cont c \<and> utf8_valid t) \<or>
    lead_len a = 4 \<and> (\<exists>b c d t. r = b # c # d # t \<and> second_ok a b \<and> utf8_cont c \<and> utf8_cont d \<and> utf8_valid t)"
proof -
  have b: "second_ok a b" if "0xC2 \<le> a" "a \<le> 0xDF" "utf8_cont b" for b using that by (auto simp: second_ok_def)
  have c: "second_ok a b"
    if "0xE0 \<le> a" "a \<le> 0xEF" "if a = 0xE0 then 0xA0 \<le> b \<and> b \<le> 0xBF else if a = 0xED then 0x80 \<le> b \<and> b \<le> 0x9F else utf8_cont b" for b
    using that by (auto simp: second_ok_def)
  have d: "second_ok a b"
    if "0xF0 \<le> a" "a \<le> 0xF4" "if a = 0xF0 then 0x90 \<le> b \<and> b \<le> 0xBF else if a = 0xF4 then 0x80 \<le> b \<and> b \<le> 0x8F else utf8_cont b" for b
    using that by (auto simp: second_ok_def)
  note v = assms [unfolded utf8_valid.simps(2) [of a r]]
  consider "a < 0x80" | "\<not> a < 0x80" "0xC2 \<le> a \<and> a \<le> 0xDF"
    | "\<not> a < 0x80" "\<not> (0xC2 \<le> a \<and> a \<le> 0xDF)" "0xE0 \<le> a \<and> a \<le> 0xEF"
    | "\<not> a < 0x80" "\<not> (0xC2 \<le> a \<and> a \<le> 0xDF)" "\<not> (0xE0 \<le> a \<and> a \<le> 0xEF)" "0xF0 \<le> a \<and> a \<le> 0xF4"
    using assms by (simp only: utf8_valid.simps split: if_splits) blast+
  then show ?thesis
  proof cases
    case 1
    then show ?thesis using v by (simp add: lead_len_def)
  next
    case 2
    then show ?thesis using v b by (simp add: lead_len_def split: list.splits del: utf8_valid.simps)
  next
    case 3
    then have "\<not> a \<le> 0xDF" using above [of "0xE0" a "0xDF"] by simp
    with 3 show ?thesis using v c by (simp add: lead_len_def split: list.splits del: utf8_valid.simps)
  next
    case 4
    then have "\<not> a \<le> 0xDF" "\<not> a \<le> 0xEF" using above [of "0xF0" a "0xDF"] above [of "0xF0" a "0xEF"] by simp_all
    with 4 show ?thesis using v d by (simp add: lead_len_def split: list.splits del: utf8_valid.simps)
  qed
qed

lemma utf8_step_valid:
  assumes "utf8_valid (a # r)"
  shows "fst (utf8_step (a # r)) \<and> utf8_valid (drop (snd (utf8_step (a # r))) (a # r))"
  using valid_parts [OF assms] by (elim disjE conjE exE) (simp_all add: Let_def)

lemma lossy_valid: "utf8_valid bs \<Longrightarrow> from_utf8_lossy bs = bs"
proof (induction bs rule: from_utf8_lossy.induct)
  case (2 a r)
  obtain ok n where s: "utf8_step (a # r) = (ok, n)" by fastforce
  with utf8_step_valid [OF 2(2)] have "ok" "utf8_valid (drop n (a # r))" by simp_all
  with 2(1) [OF s [symmetric]] show ?case by (simp add: from_utf8_lossy.simps s del: utf8_step.simps)
qed (simp add: from_utf8_lossy.simps)

section \<open>The record\<close>

record model_metadata =
  mm_name :: "string option"
  mm_architecture :: "string option"
  mm_block_count :: "u32 option"
  mm_embedding_length :: "u32 option"
  mm_head_count :: "u32 option"
  mm_expert_count :: "u32 option"
  mm_expert_used_count :: "u32 option"
  mm_expert_shared_count :: "u32 option"

definition no_metadata :: model_metadata where
  "no_metadata = \<lparr>mm_name = None, mm_architecture = None, mm_block_count = None, mm_embedding_length = None, mm_head_count = None,
     mm_expert_count = None, mm_expert_used_count = None, mm_expert_shared_count = None\<rparr>"

definition is_moe :: "model_metadata \<Rightarrow> bool" where
  "is_moe m \<longleftrightarrow> (case mm_expert_count m of Some n \<Rightarrow> 1 < n | None \<Rightarrow> False)"

definition times_sign :: string where "times_sign = [CHR 0xC3, CHR 0x97]"

definition moe_label :: "model_metadata \<Rightarrow> string option" where
  "moe_label m =
     (case mm_expert_count m of
        None \<Rightarrow> None
      | Some n \<Rightarrow>
          if n \<le> 1 then None
          else let k = (case mm_expert_used_count m of Some k \<Rightarrow> k | None \<Rightarrow> 0)
               in Some (if k = 0 then ''MoE '' @ times_sign @ dec_digits (unat n)
                        else ''MoE '' @ dec_digits (unat n) @ times_sign @ ''top-'' @ dec_digits (unat k)))"

section \<open>Reading it\<close>

definition meta_u32 :: "bytes \<Rightarrow> u32 option" where
  "meta_u32 bs = (if length bs < 4 then None else Some (word_of_nat (le_nat (take 4 bs))))"

text \<open>The end \<open>8 + len\<close> wraps in \<open>usize\<close>; a range that is not in the bytes gives nothing.\<close>

definition meta_str :: "bytes \<Rightarrow> string option" where
  "meta_str bs =
     (if length bs < 8 then None
      else let e = unat (8 + word_of_nat (le_nat (take 8 bs)) :: u64)
           in if 8 \<le> e \<and> e \<le> length bs then Some (bytes_str (from_utf8_lossy (subslice bs 8 e))) else None)"

definition kv_slice :: "bytes \<Rightarrow> kv_entry \<Rightarrow> bytes gguf_res" where
  "kv_slice buf e =
     (case value_range e of (a, b) \<Rightarrow> if a \<le> b \<and> b \<le> length buf then Inr (subslice buf a b) else Inl Panic)"

definition note_kv :: "kv_entry \<Rightarrow> bytes \<Rightarrow> model_metadata \<Rightarrow> model_metadata" where
  "note_kv e v m =
     (let k = kv_key e
      in if kv_ty e = KString \<and> k = ''general.name'' then m\<lparr>mm_name := meta_str v\<rparr>
         else if kv_ty e = KString \<and> k = ''general.architecture'' then m\<lparr>mm_architecture := meta_str v\<rparr>
         else if kv_ty e = KU32 \<and> ends_with k ''.block_count'' then m\<lparr>mm_block_count := meta_u32 v\<rparr>
         else if kv_ty e = KU32 \<and> ends_with k ''.embedding_length'' then m\<lparr>mm_embedding_length := meta_u32 v\<rparr>
         else if kv_ty e = KU32 \<and> ends_with k ''.attention.head_count'' then m\<lparr>mm_head_count := meta_u32 v\<rparr>
         else if kv_ty e = KU32 \<and> ends_with k ''.expert_count'' then m\<lparr>mm_expert_count := meta_u32 v\<rparr>
         else if kv_ty e = KU32 \<and> ends_with k ''.expert_used_count'' then m\<lparr>mm_expert_used_count := meta_u32 v\<rparr>
         else if kv_ty e = KU32 \<and> ends_with k ''.expert_shared_count'' then m\<lparr>mm_expert_shared_count := meta_u32 v\<rparr>
         else m)"

fun note_kvs :: "bytes \<Rightarrow> kv_entry list \<Rightarrow> model_metadata \<Rightarrow> model_metadata gguf_res" where
  "note_kvs buf [] m = Inr m"
| "note_kvs buf (e # es) m = rbind (kv_slice buf e) (\<lambda>v. note_kvs buf es (note_kv e v m))"

definition read_model_metadata :: "fs \<Rightarrow> path \<Rightarrow> model_metadata gguf_res" where
  "read_model_metadata fs path =
     rbind (gguf_open fs path) (\<lambda>g. rbind (kv_entries g) (\<lambda>es. note_kvs (g_mmap g) es no_metadata))"

section \<open>What is read\<close>

text \<open>The value of the last entry of a kind whose key is chosen by \<open>P\<close>.\<close>

definition last_value :: "(bytes \<Rightarrow> 'a option) \<Rightarrow> kv_type \<Rightarrow> (string \<Rightarrow> bool) \<Rightarrow> bytes \<Rightarrow> kv_entry list \<Rightarrow> 'a option" where
  "last_value rd ty P buf es =
     (case rev (filter (\<lambda>e. kv_ty e = ty \<and> P (kv_key e)) es) of
        [] \<Rightarrow> None | e # _ \<Rightarrow> rd (subslice buf (fst (value_range e)) (snd (value_range e))))"

lemma last_value_snoc:
  "last_value rd ty P buf (es @ [e]) =
    (if kv_ty e = ty \<and> P (kv_key e) then rd (subslice buf (fst (value_range e)) (snd (value_range e))) else last_value rd ty P buf es)"
  by (simp add: last_value_def)

lemma ends_with_last: "ends_with k (s @ [c]) \<Longrightarrow> k \<noteq> [] \<and> last k = c"
  by (auto simp: ends_with_def) (metis append_take_drop_id last_appendR last_snoc snoc_eq_iff_butlast)

text \<open>The suffixes exclude each other: no key ends with two of them.\<close>

lemma ends_with_iff: "ends_with k s \<longleftrightarrow> (\<exists>p. k = p @ s)"
  by (auto simp: ends_with_def) (metis append_take_drop_id)

lemma suffix_clash:
  assumes "ends_with k s" "ends_with k t"
  shows "ends_with s t \<or> ends_with t s"
  using assms by (auto simp: ends_with_iff append_eq_append_conv2)

definition META_SUFFIXES :: "string list" where
  "META_SUFFIXES = [''.block_count'', ''.embedding_length'', ''.attention.head_count'', ''.expert_count'', ''.expert_used_count'', ''.expert_shared_count'']"

lemma suffixes_exclusive:
  assumes "s \<in> set META_SUFFIXES" "t \<in> set META_SUFFIXES" "ends_with k s" "ends_with k t"
  shows "s = t"
proof -
  have "\<forall>s \<in> set META_SUFFIXES. \<forall>t \<in> set META_SUFFIXES. ends_with s t \<longrightarrow> s = t"
    by (simp add: META_SUFFIXES_def ends_with_def)
  then show ?thesis using assms suffix_clash by blast
qed

lemma note_kv_fields:
  defines "u \<equiv> \<lambda>e v s old. if kv_ty e = KU32 \<and> ends_with (kv_key e) s then meta_u32 v else old"
    and "t \<equiv> \<lambda>e v k old. if kv_ty e = KString \<and> kv_key e = k then meta_str v else old"
  shows "mm_name (note_kv e v m) = t e v ''general.name'' (mm_name m)"
    "mm_architecture (note_kv e v m) = t e v ''general.architecture'' (mm_architecture m)"
    "mm_block_count (note_kv e v m) = u e v ''.block_count'' (mm_block_count m)"
    "mm_embedding_length (note_kv e v m) = u e v ''.embedding_length'' (mm_embedding_length m)"
    "mm_head_count (note_kv e v m) = u e v ''.attention.head_count'' (mm_head_count m)"
    "mm_expert_count (note_kv e v m) = u e v ''.expert_count'' (mm_expert_count m)"
    "mm_expert_used_count (note_kv e v m) = u e v ''.expert_used_count'' (mm_expert_used_count m)"
    "mm_expert_shared_count (note_kv e v m) = u e v ''.expert_shared_count'' (mm_expert_shared_count m)"
proof -
  let ?k = "kv_key e"
  have n: "\<forall>t \<in> set META_SUFFIXES. t \<noteq> s \<longrightarrow> \<not> ends_with ?k t" if "s \<in> set META_SUFFIXES" "ends_with ?k s" for s
    using suffixes_exclusive that by blast
  show "mm_name (note_kv e v m) = t e v ''general.name'' (mm_name m)" "mm_architecture (note_kv e v m) = t e v ''general.architecture'' (mm_architecture m)"
    by (simp_all add: note_kv_def t_def Let_def)
  show "mm_block_count (note_kv e v m) = u e v ''.block_count'' (mm_block_count m)"
    using n [of "''.block_count''"] by (cases "ends_with ?k ''.block_count''") (simp_all add: note_kv_def u_def Let_def META_SUFFIXES_def)
  show "mm_embedding_length (note_kv e v m) = u e v ''.embedding_length'' (mm_embedding_length m)"
    using n [of "''.embedding_length''"] by (cases "ends_with ?k ''.embedding_length''") (simp_all add: note_kv_def u_def Let_def META_SUFFIXES_def)
  show "mm_head_count (note_kv e v m) = u e v ''.attention.head_count'' (mm_head_count m)"
    using n [of "''.attention.head_count''"] by (cases "ends_with ?k ''.attention.head_count''") (simp_all add: note_kv_def u_def Let_def META_SUFFIXES_def)
  show "mm_expert_count (note_kv e v m) = u e v ''.expert_count'' (mm_expert_count m)"
    using n [of "''.expert_count''"] by (cases "ends_with ?k ''.expert_count''") (simp_all add: note_kv_def u_def Let_def META_SUFFIXES_def)
  show "mm_expert_used_count (note_kv e v m) = u e v ''.expert_used_count'' (mm_expert_used_count m)"
    using n [of "''.expert_used_count''"] by (cases "ends_with ?k ''.expert_used_count''") (simp_all add: note_kv_def u_def Let_def META_SUFFIXES_def)
  show "mm_expert_shared_count (note_kv e v m) = u e v ''.expert_shared_count'' (mm_expert_shared_count m)"
    using n [of "''.expert_shared_count''"] by (cases "ends_with ?k ''.expert_shared_count''") (simp_all add: note_kv_def u_def Let_def META_SUFFIXES_def)
qed

definition fields_of :: "bytes \<Rightarrow> kv_entry list \<Rightarrow> model_metadata" where
  "fields_of buf es =
     (let n = (\<lambda>s. last_value meta_u32 KU32 (\<lambda>k. ends_with k s) buf es);
          t = (\<lambda>s. last_value meta_str KString (\<lambda>k. k = s) buf es)
      in \<lparr>mm_name = t ''general.name'', mm_architecture = t ''general.architecture'', mm_block_count = n ''.block_count'',
          mm_embedding_length = n ''.embedding_length'', mm_head_count = n ''.attention.head_count'', mm_expert_count = n ''.expert_count'',
          mm_expert_used_count = n ''.expert_used_count'', mm_expert_shared_count = n ''.expert_shared_count''\<rparr>)"

lemma fields_of_snoc:
  "fields_of buf (es @ [e]) = note_kv e (subslice buf (fst (value_range e)) (snd (value_range e))) (fields_of buf es)"
  by (rule model_metadata.equality) (simp_all add: note_kv_fields fields_of_def last_value_snoc)

lemma note_kvs_append: "note_kvs buf (es @ fs) m = rbind (note_kvs buf es m) (note_kvs buf fs)"
  by (induction es arbitrary: m) (auto simp: rbind_def split: sum.splits)

lemma note_kvs_fields:
  "\<forall>e \<in> set es. fst (value_range e) \<le> snd (value_range e) \<and> snd (value_range e) \<le> length buf \<Longrightarrow>
    note_kvs buf es no_metadata = Inr (fields_of buf es)"
proof (induction es rule: rev_induct)
  case Nil
  show ?case by (simp add: fields_of_def no_metadata_def last_value_def)
next
  case (snoc e es)
  then show ?case by (simp add: note_kvs_append fields_of_snoc kv_slice_def case_prod_unfold)
qed

lemma contiguous_in: "contiguous p es q \<Longrightarrow> e \<in> set es \<Longrightarrow> fst (value_range e) \<le> snd (value_range e) \<and> snd (value_range e) \<le> q"
proof (induction es arbitrary: p)
  case (Cons x es)
  then show ?case using contiguous_concat [of "snd (entry_range x)" es q "[]"] by auto
qed simp

lemma moe_label_moe: "(moe_label m \<noteq> None) = is_moe m"
  by (auto simp: moe_label_def is_moe_def not_le Let_def split: option.splits)

text \<open>
  Reading the metadata of a GGUF that opens never fails and never slices out of range, and each field is the
  value of the last key/value entry meant for it: a string with that very key, a 32-bit number whose key
  ends with that suffix, whatever the architecture's prefix.
\<close>

theorem metadata_fields:
  assumes "gguf_open fs path = Inr g" "fits (g_mmap g)"
  shows "\<exists>es. kv_entries g = Inr es \<and> length es = unat (g_n_kv g) \<and> read_model_metadata fs path = Inr (fields_of (g_mmap g) es)"
proof -
  from assms(1) obtain buf where buf: "read_file fs path = Some buf" and p: "gguf_parse path buf = Inr g"
    by (auto simp: gguf_open_def rbind_eq_Inr ok_or_eq_Inr)
  have m: "g_mmap g = buf" using p by (auto simp: gguf_parse_def rbind_eq_Inr split: if_splits)
  with assms(2) have fits: "fits buf" by simp
  from kv_entries_tile [OF p fits] obtain es where es: "kv_entries g = Inr es" "length es = unat (g_n_kv g)"
    "contiguous 24 es (kv_end_offset g)" by blast
  have "kv_end_offset g \<le> length buf" using gguf_parse_offsets [OF p fits] by simp
  then have "note_kvs buf es no_metadata = Inr (fields_of buf es)"
    using contiguous_in [OF es(3)] by (intro note_kvs_fields) (meson le_trans)
  then show ?thesis using es assms(1) m by (simp add: read_model_metadata_def)
qed

lemma metadata_fields_witness:
  "\<exists>es. kv_entries (sample_parsed sample_gguf) = Inr es \<and> length es = 1 \<and>
    read_model_metadata [([''m.gguf''], sample_gguf)] [''m.gguf''] = Inr (fields_of sample_gguf es)"
proof -
  have "gguf_open [([''m.gguf''], sample_gguf)] [''m.gguf''] = Inr (sample_parsed sample_gguf)"
    by (simp add: gguf_open_def read_file_def sample_gguf_props)
  from metadata_fields [OF this] sample_gguf_props(1) show ?thesis by (auto simp: sample_parsed_def)
qed

end
