(* ===== verification/Config.thy ===== *)
theory Config
  imports Local
begin

text \<open>
  Configuration (\<open>crates/core/src/config.rs\<close>): the defaults, the file and the environment
  overlay, in that order. The directories of the platform (crate
  \<open>directories\<close>) and the TOML parser are parameters; a path in a variable is read relative to \<open>cwd\<close>.
\<close>

section \<open>Run mode\<close>

datatype run_mode = LocalMode | Network

definition mode_str :: "run_mode \<Rightarrow> string" where
  "mode_str m = (case m of LocalMode \<Rightarrow> ''local'' | Network \<Rightarrow> ''network'')"

text \<open>The error is the text \<open>Error::Config\<close> displays.\<close>

definition mode_from_str :: "string \<Rightarrow> string + run_mode" where
  "mode_from_str s =
     (let w = map ascii_lower (trim s)
      in if w = ''local'' \<or> w = ''offline'' then Inr LocalMode
         else if w = ''network'' \<or> w = ''remote'' then Inr Network
         else Inl (''config: unknown run mode `'' @ w @ ''` (expected local|network)''))"

section \<open>The configuration\<close>

record config =
  cf_mode :: run_mode
  cf_default_tier :: latency_tier
  cf_allow_wan :: bool
  cf_quorum :: u8
  cf_bootstrap :: "string list"
  cf_default_model :: string
  cf_models_dir :: path
  cf_device :: string
  cf_registry_url :: "string option"
  cf_registry_model :: "string option"
  cf_peers :: "string list"
  cf_splits :: "u16 list"
  cf_draft_model :: "path option"
  cf_spec_k :: u16
  cf_wire_dtype :: string
  cf_libp2p_listen :: string
  cf_chunks_addr :: "string option"
  cf_forward_addr :: "string option"
  cf_relay_only :: bool

record project_dirs =
  pd_data :: path
  pd_config :: path
  pd_cache :: path
  pd_state :: "path option"

definition default_models_dir :: "path \<Rightarrow> project_dirs option \<Rightarrow> path" where
  "default_models_dir cwd d = (case d of Some p \<Rightarrow> join (pd_data p) ''models'' | None \<Rightarrow> join cwd ''models'')"

definition config_path :: "project_dirs option \<Rightarrow> path option" where
  "config_path d = map_option (\<lambda>p. join (pd_config p) ''config.toml'') d"

definition log_path :: "path \<Rightarrow> project_dirs option \<Rightarrow> path" where
  "log_path tmp d =
     (case d of
        Some p \<Rightarrow> join (case pd_state p of Some s \<Rightarrow> s | None \<Rightarrow> pd_cache p) ''intelnav.log''
      | None \<Rightarrow> join tmp ''intelnav.log'')"

definition config_default :: "path \<Rightarrow> config" where
  "config_default models =
     \<lparr>cf_mode = LocalMode, cf_default_tier = Continent, cf_allow_wan = False, cf_quorum = 1, cf_bootstrap = [],
      cf_default_model = ''deepseek-coder:33b'', cf_models_dir = models, cf_device = ''auto'', cf_registry_url = None,
      cf_registry_model = None, cf_peers = [], cf_splits = [], cf_draft_model = None, cf_spec_k = 0,
      cf_wire_dtype = ''fp16'', cf_libp2p_listen = ''/ip4/0.0.0.0/tcp/0'', cf_chunks_addr = None,
      cf_forward_addr = None, cf_relay_only = False\<rparr>"

section \<open>The environment overlay\<close>

text \<open>A variable that is set is handed to its rule; one that is not leaves the field as it is.\<close>

definition overlay :: "(string \<Rightarrow> string option) \<Rightarrow> string \<Rightarrow> (string \<Rightarrow> config \<Rightarrow> config) \<Rightarrow> config \<Rightarrow> config" where
  "overlay env k f c = (case env k of Some v \<Rightarrow> f v c | None \<Rightarrow> c)"

definition env_flag :: "string \<Rightarrow> bool" where
  "env_flag v \<longleftrightarrow> map ascii_lower v = ''1'' \<or> map ascii_lower v = ''true'' \<or> map ascii_lower v = ''yes''"

definition env_list :: "string \<Rightarrow> string list" where
  "env_list v = filter (\<lambda>s. s \<noteq> []) (split_char CHR '','' v)"

definition env_opt :: "string \<Rightarrow> string option" where
  "env_opt v = (if v = [] then None else Some v)"

definition env_splits :: "string \<Rightarrow> u16 list" where
  "env_splits v = List.map_filter (\<lambda>s. map_option word_of_nat (parse_uint (2 ^ 16) (trim s))) (split_char CHR '','' v)"

definition env_tier :: "string \<Rightarrow> latency_tier \<Rightarrow> latency_tier" where
  "env_tier v old =
     (let w = map ascii_lower v
      in if w = ''lan'' \<or> w = ''t1'' then Lan else if w = ''wan'' \<or> w = ''t3'' then Wan
         else if w = ''cont'' \<or> w = ''continent'' \<or> w = ''t2'' then Continent else old)"

definition env_rules :: "path \<Rightarrow> (string \<times> (string \<Rightarrow> config \<Rightarrow> config)) list" where
  "env_rules cwd =
     [(''INTELNAV_MODE'', \<lambda>v c. case mode_from_str v of Inr m \<Rightarrow> c\<lparr>cf_mode := m\<rparr> | Inl _ \<Rightarrow> c),
      (''INTELNAV_MODELS_DIR'', \<lambda>v c. c\<lparr>cf_models_dir := path_of cwd v\<rparr>),
      (''INTELNAV_DEVICE'', \<lambda>v c. c\<lparr>cf_device := v\<rparr>),
      (''INTELNAV_ALLOW_WAN'', \<lambda>v c. c\<lparr>cf_allow_wan := env_flag v\<rparr>),
      (''INTELNAV_QUORUM'', \<lambda>v c. case parse_uint 256 v of Some n \<Rightarrow> c\<lparr>cf_quorum := max (word_of_nat n) 1\<rparr> | None \<Rightarrow> c),
      (''INTELNAV_BOOTSTRAP'', \<lambda>v c. c\<lparr>cf_bootstrap := env_list v\<rparr>),
      (''INTELNAV_REGISTRY_URL'', \<lambda>v c. c\<lparr>cf_registry_url := env_opt v\<rparr>),
      (''INTELNAV_REGISTRY_MODEL'', \<lambda>v c. c\<lparr>cf_registry_model := env_opt v\<rparr>),
      (''INTELNAV_PEERS'', \<lambda>v c. c\<lparr>cf_peers := env_list v\<rparr>),
      (''INTELNAV_SPLITS'', \<lambda>v c. c\<lparr>cf_splits := env_splits v\<rparr>),
      (''INTELNAV_DRAFT_MODEL'', \<lambda>v c. c\<lparr>cf_draft_model := map_option (path_of cwd) (env_opt v)\<rparr>),
      (''INTELNAV_SPEC_K'', \<lambda>v c. case parse_uint (2 ^ 16) v of Some n \<Rightarrow> c\<lparr>cf_spec_k := word_of_nat n\<rparr> | None \<Rightarrow> c),
      (''INTELNAV_WIRE_DTYPE'', \<lambda>v c. if v = [] then c else c\<lparr>cf_wire_dtype := v\<rparr>),
      (''INTELNAV_LIBP2P_LISTEN'', \<lambda>v c. if v = [] then c else c\<lparr>cf_libp2p_listen := v\<rparr>),
      (''INTELNAV_CHUNKS_ADDR'', \<lambda>v c. c\<lparr>cf_chunks_addr := env_opt v\<rparr>),
      (''INTELNAV_FORWARD_ADDR'', \<lambda>v c. c\<lparr>cf_forward_addr := env_opt v\<rparr>),
      (''INTELNAV_RELAY_ONLY'', \<lambda>v c. c\<lparr>cf_relay_only := env_flag v\<rparr>),
      (''INTELNAV_TIER'', \<lambda>v c. c\<lparr>cf_default_tier := env_tier v (cf_default_tier c)\<rparr>)]"

definition apply_env :: "path \<Rightarrow> (string \<Rightarrow> string option) \<Rightarrow> config \<Rightarrow> config" where
  "apply_env cwd env c = fold (\<lambda>(k, f). overlay env k f) (env_rules cwd) c"

datatype config_error = ConfigIo | ConfigParse path string

text \<open>A path that exists and is no file (here: there are files below it) is an I/O error.\<close>

definition config_load :: "path \<Rightarrow> project_dirs option \<Rightarrow> (bytes \<Rightarrow> string + config) \<Rightarrow> (string \<Rightarrow> string option) \<Rightarrow> fs \<Rightarrow>
    config_error + config" where
  "config_load cwd d toml env fs =
     rbind
       (case config_path d of
          None \<Rightarrow> Inr (config_default (default_models_dir cwd d))
        | Some p \<Rightarrow>
            (case read_file fs p of
               None \<Rightarrow> if dir_nonempty p fs then Inl ConfigIo else Inr (config_default (default_models_dir cwd d))
             | Some raw \<Rightarrow> if utf8_valid raw then map_err (ConfigParse p) (toml raw) else Inl ConfigIo))
       (\<lambda>c. Inr (apply_env cwd env c))"

section \<open>Properties\<close>

lemma overlay_None [simp]: "env k = None \<Longrightarrow> overlay env k f c = c"
  and overlay_Some [simp]: "env k = Some v \<Longrightarrow> overlay env k f c = f v c"
  by (simp_all add: overlay_def)

text \<open>A field is changed by its own rule only.\<close>

lemma fold_keeps:
  "list_all (\<lambda>(k, f). \<forall>v c. sel (f v c) = sel c) rs \<Longrightarrow> sel (fold (\<lambda>(k, f). overlay env k f) rs c) = sel c"
  by (induction rs arbitrary: c) (auto simp: overlay_def split: option.splits)

lemma env_field:
  assumes "n < length (env_rules cwd)" "env_rules cwd ! n = (k, f)"
    and "list_all (\<lambda>(k, f). \<forall>v c. sel (f v c) = sel c) (take n (env_rules cwd) @ drop (Suc n) (env_rules cwd))"
    and "\<And>v c. sel (f v c) = g v (sel c)"
  shows "sel (apply_env cwd env c) = (case env k of Some v \<Rightarrow> g v (sel c) | None \<Rightarrow> sel c)"
proof -
  let ?pre = "take n (env_rules cwd)" and ?post = "drop (Suc n) (env_rules cwd)"
  have "env_rules cwd = ?pre @ (k, f) # ?post" using id_take_nth_drop [OF assms(1)] assms(2) by simp
  then have "apply_env cwd env c = fold (\<lambda>(k, f). overlay env k f) ?post (overlay env k f (fold (\<lambda>(k, f). overlay env k f) ?pre c))"
    by (metis (no_types, lifting) apply_env_def case_prod_conv fold.simps(2) comp_apply fold_append)
  then show ?thesis using assms(3,4) fold_keeps [of sel ?pre env c] fold_keeps [of sel ?post env]
    by (simp add: overlay_def split: option.splits)
qed

lemmas rule_simps = env_rules_def nth_Cons' take_Cons' drop_Cons'

lemma env_mode: "cf_mode (apply_env cwd env c) = (case env ''INTELNAV_MODE'' of Some v \<Rightarrow> (\<lambda>v x. case mode_from_str v of Inr m \<Rightarrow> m | Inl _ \<Rightarrow> x) v (cf_mode c) | None \<Rightarrow> cf_mode c)"
  by (rule env_field [where n = 0], (simp add: rule_simps split: option.split sum.split)+)

lemma env_quorum: "cf_quorum (apply_env cwd env c) = (case env ''INTELNAV_QUORUM'' of Some v \<Rightarrow> (\<lambda>v x. case parse_uint 256 v of Some n \<Rightarrow> max (word_of_nat n) 1 | None \<Rightarrow> x) v (cf_quorum c) | None \<Rightarrow> cf_quorum c)"
  by (rule env_field [where n = 4], (simp add: rule_simps split: option.split sum.split)+)

lemma env_peers: "cf_peers (apply_env cwd env c) = (case env ''INTELNAV_PEERS'' of Some v \<Rightarrow> (\<lambda>v _. env_list v) v (cf_peers c) | None \<Rightarrow> cf_peers c)"
  by (rule env_field [where n = 8], (simp add: rule_simps split: option.split sum.split)+)

lemma env_splits: "cf_splits (apply_env cwd env c) = (case env ''INTELNAV_SPLITS'' of Some v \<Rightarrow> (\<lambda>v _. env_splits v) v (cf_splits c) | None \<Rightarrow> cf_splits c)"
  by (rule env_field [where n = 9], (simp add: rule_simps split: option.split sum.split)+)

lemma env_wire_dtype: "cf_wire_dtype (apply_env cwd env c) = (case env ''INTELNAV_WIRE_DTYPE'' of Some v \<Rightarrow> (\<lambda>v x. if v = [] then x else v) v (cf_wire_dtype c) | None \<Rightarrow> cf_wire_dtype c)"
  by (rule env_field [where n = 12], (simp add: rule_simps split: option.split sum.split)+)

lemma env_relay_only: "cf_relay_only (apply_env cwd env c) = (case env ''INTELNAV_RELAY_ONLY'' of Some v \<Rightarrow> (\<lambda>v _. env_flag v) v (cf_relay_only c) | None \<Rightarrow> cf_relay_only c)"
  by (rule env_field [where n = 16], (simp add: rule_simps split: option.split sum.split)+)

lemma env_default_model: "cf_default_model (apply_env cwd env c) = cf_default_model c"
  unfolding apply_env_def by (rule fold_keeps) (simp add: env_rules_def split: option.split sum.split)

text \<open>
  The layers of the configuration: without a file it starts from the defaults; a variable that is
  set decides its field alone and wins over the file; one that is set to something its type does not
  read, or not set, leaves the field (for the splits, the parts that do not parse are left out).
\<close>

theorem config_layers:
  assumes "config_load cwd d toml env fs = Inr c"
  shows "\<exists>c0. (case config_path d of None \<Rightarrow> c0 = config_default (default_models_dir cwd d)
       | Some p \<Rightarrow> (case read_file fs p of None \<Rightarrow> c0 = config_default (default_models_dir cwd d) | Some raw \<Rightarrow> toml raw = Inr c0)) \<and>
    cf_mode c = (case env ''INTELNAV_MODE'' of Some v \<Rightarrow> (case mode_from_str v of Inr m \<Rightarrow> m | Inl _ \<Rightarrow> cf_mode c0) | None \<Rightarrow> cf_mode c0) \<and>
    cf_quorum c = (case env ''INTELNAV_QUORUM'' of
       Some v \<Rightarrow> (case parse_uint 256 v of Some n \<Rightarrow> max (word_of_nat n) 1 | None \<Rightarrow> cf_quorum c0) | None \<Rightarrow> cf_quorum c0) \<and>
    cf_peers c = (case env ''INTELNAV_PEERS'' of Some v \<Rightarrow> env_list v | None \<Rightarrow> cf_peers c0) \<and>
    cf_splits c = (case env ''INTELNAV_SPLITS'' of Some v \<Rightarrow> env_splits v | None \<Rightarrow> cf_splits c0) \<and>
    cf_wire_dtype c = (case env ''INTELNAV_WIRE_DTYPE'' of Some v \<Rightarrow> (if v = [] then cf_wire_dtype c0 else v) | None \<Rightarrow> cf_wire_dtype c0) \<and>
    cf_relay_only c = (case env ''INTELNAV_RELAY_ONLY'' of Some v \<Rightarrow> env_flag v | None \<Rightarrow> cf_relay_only c0) \<and>
    cf_default_model c = cf_default_model c0"
proof -
  obtain c0 where c0: "c = apply_env cwd env c0"
    "case config_path d of None \<Rightarrow> c0 = config_default (default_models_dir cwd d)
       | Some p \<Rightarrow> (case read_file fs p of None \<Rightarrow> c0 = config_default (default_models_dir cwd d) | Some raw \<Rightarrow> toml raw = Inr c0)"
    using assms by (auto simp: config_load_def results split: option.splits if_splits)
  then show ?thesis
    by (intro exI [of _ c0]) (simp add: env_mode env_quorum env_peers env_splits env_wire_dtype env_relay_only env_default_model cong: option.case_cong)
qed

definition sample_vars :: "string \<Rightarrow> string option" where
  "sample_vars k = (if k = ''INTELNAV_SPLITS'' then Some ''6,x,12'' else if k = ''INTELNAV_QUORUM'' then Some ''0'' else None)"

lemma sample_trims: "trim ''6'' = ''6''" "trim ''x'' = ''x''" "trim ''12'' = ''12''"
  by (simp_all add: trim_def trim_start.simps trim_end.simps white_head_def white_tail_def white_char_def code_def last_n_def)

lemma sample_splits: "env_splits ''6,x,12'' = [6, 12]" "parse_uint 256 ''0'' = Some 0"
  by (simp_all add: env_splits_def sample_trims parse_uint_def dec_digit_val_def map_filter_simps)

lemma config_layers_witness:
  "\<exists>c. config_load [] None (\<lambda>_. Inl []) sample_vars [] = Inr c \<and> cf_splits c = [6, 12] \<and> cf_quorum c = 1 \<and> cf_mode c = LocalMode \<and>
    cf_default_model c = ''deepseek-coder:33b''"
proof -
  obtain c where c: "config_load [] None (\<lambda>_. Inl []) sample_vars [] = Inr c" by (simp add: config_load_def config_path_def)
  from config_layers [OF this] show ?thesis
    by (simp add: c config_path_def sample_vars_def sample_splits config_default_def)
qed

lemma mode_roundtrip: "mode_from_str (mode_str m) = Inr m"
  by (cases m) (simp_all add: mode_from_str_def mode_str_def trim_def trim_start.simps trim_end.simps white_head_def
      white_tail_def white_char_def code_def last_n_def ascii_lower_def Let_def)

end
