(* ===== verification/Wrap.thy ===== *)
theory Wrap
  imports Prelude
begin

text \<open>
  Text geometry of the chat client, \<open>crates/app/src/tui/wrap.rs\<close>: character boundaries, code fences,
  wrapping, and the place of the cursor in the wrapped input box. A string is the list of its Unicode
  scalar values; a byte offset counts their UTF-8 lengths. The column width of a character (crate
  \<open>unicode-width\<close>, 0 for a control character) is the parameter \<open>cw\<close>.
\<close>

type_synonym utext = "nat list"

definition NL :: nat where "NL = 0x0A"
definition TICK :: nat where "TICK = 0x60"

definition clen :: "nat \<Rightarrow> nat" where
  "clen c = (if c < 0x80 then 1 else if c < 0x800 then 2 else if c < 0x10000 then 3 else 4)"

definition blen :: "utext \<Rightarrow> nat" where
  "blen t = sum_list (map clen t)"

text \<open>\<open>&s[..i]\<close> and \<open>&s[i..]\<close>; \<open>None\<close> (a panic) off a character boundary.\<close>

fun cut :: "utext \<Rightarrow> nat \<Rightarrow> (utext \<times> utext) option" where
  "cut [] i = (if i = 0 then Some ([], []) else None)"
| "cut (c # t) i =
     (if i = 0 then Some ([], c # t)
      else if clen c \<le> i then map_option (\<lambda>(a, b). (c # a, b)) (cut t (i - clen c)) else None)"

definition boundary :: "utext \<Rightarrow> nat \<Rightarrow> bool" where
  "boundary t i \<longleftrightarrow> cut t i \<noteq> None"

section \<open>Character boundaries\<close>

fun walk_back :: "utext \<Rightarrow> nat \<Rightarrow> nat" where
  "walk_back t 0 = 0"
| "walk_back t (Suc j) = (if boundary t (Suc j) then Suc j else walk_back t j)"

definition prev_char_boundary :: "utext \<Rightarrow> nat \<Rightarrow> nat" where
  "prev_char_boundary t i = (if i = 0 then 0 else walk_back t (min i (blen t) - 1))"

function walk_on :: "utext \<Rightarrow> nat \<Rightarrow> nat \<Rightarrow> nat" where
  "walk_on t n j = (if j < n \<and> \<not> boundary t j then walk_on t n (j + 1) else j)"
  by pat_completeness auto
termination by (relation "measure (\<lambda>(t, n, j). n - j)") auto

declare walk_on.simps [simp del]

definition next_char_boundary :: "utext \<Rightarrow> nat \<Rightarrow> nat" where
  "next_char_boundary t i = (if blen t \<le> i then blen t else walk_on t (blen t) (i + 1))"

section \<open>Code fences\<close>

datatype segment = Prose utext | Code utext utext

definition uwhite :: "nat \<Rightarrow> bool" where
  "uwhite c \<longleftrightarrow> 0x09 \<le> c \<and> c \<le> 0x0D \<or> c \<in> {0x20, 0x85, 0xA0, 0x1680, 0x2028, 0x2029, 0x202F, 0x205F, 0x3000} \<or>
     0x2000 \<le> c \<and> c \<le> 0x200A"

definition utrim :: "utext \<Rightarrow> utext" where
  "utrim t = rev (dropWhile uwhite (rev (dropWhile uwhite t)))"

text \<open>The rest of a line and what follows its newline.\<close>

fun take_line :: "utext \<Rightarrow> utext \<times> utext" where
  "take_line [] = ([], [])"
| "take_line (c # t) = (if c = NL then ([], t) else (case take_line t of (a, b) \<Rightarrow> (c # a, b)))"

lemma take_line_le: "length (snd (take_line t)) \<le> length t"
  by (induction t) (auto split: prod.splits)

lemma after_fence_le: "length (snd (take_line (drop n t))) < Suc (length t)"
  using take_line_le [of "drop n t"] by simp

record fence_state =
  fn_out :: "segment list"
  fn_prose :: utext
  fn_code :: utext
  fn_lang :: utext
  fn_in :: bool

definition fence_push :: "utext \<Rightarrow> fence_state \<Rightarrow> fence_state" where
  "fence_push cs s = (if fn_in s then s\<lparr>fn_code := fn_code s @ cs\<rparr> else s\<lparr>fn_prose := fn_prose s @ cs\<rparr>)"

definition fence_open :: "utext \<Rightarrow> fence_state \<Rightarrow> fence_state" where
  "fence_open line s =
     s\<lparr>fn_out := (if fn_prose s \<noteq> [] then fn_out s @ [Prose (fn_prose s)] else fn_out s), fn_prose := [],
       fn_lang := utrim (fn_lang s @ line), fn_in := True\<rparr>"

definition fence_close :: "fence_state \<Rightarrow> fence_state" where
  "fence_close s = s\<lparr>fn_out := fn_out s @ [Code (fn_lang s) (fn_code s)], fn_lang := [], fn_code := [], fn_in := False\<rparr>"

text \<open>How many backticks, up to three, the text starts with.\<close>

definition ticks :: "utext \<Rightarrow> nat" where
  "ticks t = length (takeWhile (\<lambda>c. c = TICK) (take 3 t))"

function fence_scan :: "bool \<Rightarrow> utext \<Rightarrow> fence_state \<Rightarrow> fence_state" where
  "fence_scan start [] s = s"
| "fence_scan start (c # t) s =
     (if start \<and> c = TICK then
        (if ticks (c # t) = 3
         then fence_scan True (snd (take_line (drop 3 (c # t))))
                (if fn_in s then fence_close s else fence_open (fst (take_line (drop 3 (c # t)))) s)
         else fence_scan False (drop (ticks (c # t)) (c # t)) (fence_push (replicate (ticks (c # t)) TICK) s))
      else fence_scan (c = NL) t (fence_push [c] s))"
  by pat_completeness auto
termination
  by (relation "measure (\<lambda>(_, t, _). length t)") (auto simp: ticks_def after_fence_le)

declare fence_scan.simps [simp del]

definition split_code_fences :: "utext \<Rightarrow> segment list" where
  "split_code_fences t =
     (let s = fence_scan True t \<lparr>fn_out = [], fn_prose = [], fn_code = [], fn_lang = [], fn_in = False\<rparr>;
          out = (if fn_in s \<and> fn_code s \<noteq> [] then fn_out s @ [Code (fn_lang s) (fn_code s)]
                 else if fn_prose s \<noteq> [] then fn_out s @ [Prose (fn_prose s)] else fn_out s)
      in if out = [] then [Prose []] else out)"

section \<open>Wrapping prose\<close>

record wrap_state =
  wr_out :: "utext list"
  wr_cur :: utext
  wr_cur_w :: nat
  wr_word :: utext
  wr_word_w :: nat

fun hard_wrap :: "(nat \<Rightarrow> nat) \<Rightarrow> nat \<Rightarrow> utext \<Rightarrow> utext \<Rightarrow> nat \<Rightarrow> utext list \<Rightarrow> utext \<times> nat \<times> utext list" where
  "hard_wrap cw width [] piece acc out = (piece, acc, out)"
| "hard_wrap cw width (c # cs) piece acc out =
     (if width < acc + cw c then hard_wrap cw width cs [c] (cw c) (out @ [piece])
      else hard_wrap cw width cs (piece @ [c]) (acc + cw c) out)"

definition flush_word :: "(nat \<Rightarrow> nat) \<Rightarrow> nat \<Rightarrow> wrap_state \<Rightarrow> wrap_state" where
  "flush_word cw width s =
     (if wr_word s = [] then s
      else if wr_cur_w s + wr_word_w s \<le> width
      then s\<lparr>wr_cur := wr_cur s @ wr_word s, wr_cur_w := wr_cur_w s + wr_word_w s, wr_word := [], wr_word_w := 0\<rparr>
      else let out = (if wr_cur s \<noteq> [] then wr_out s @ [wr_cur s] else wr_out s)
           in if width < wr_word_w s
              then (case hard_wrap cw width (wr_word s) [] 0 out of (piece, acc, out2) \<Rightarrow>
                      \<lparr>wr_out = out2, wr_cur = piece, wr_cur_w = acc, wr_word = [], wr_word_w = 0\<rparr>)
              else \<lparr>wr_out = out, wr_cur = wr_word s, wr_cur_w = wr_word_w s, wr_word = [], wr_word_w = 0\<rparr>)"

definition blank :: "nat \<Rightarrow> bool" where "blank c \<longleftrightarrow> c = 0x20 \<or> c = 0x09"

definition wrap_char :: "(nat \<Rightarrow> nat) \<Rightarrow> nat \<Rightarrow> nat \<Rightarrow> wrap_state \<Rightarrow> wrap_state" where
  "wrap_char cw width c s =
     (if blank c then
        (let s1 = flush_word cw width s
         in if width < wr_cur_w s1 + 1 then s1\<lparr>wr_out := wr_out s1 @ [wr_cur s1], wr_cur := [], wr_cur_w := 0\<rparr>
            else if wr_cur s1 \<noteq> [] then s1\<lparr>wr_cur := wr_cur s1 @ [c], wr_cur_w := wr_cur_w s1 + 1\<rparr>
            else s1)
      else s\<lparr>wr_word := wr_word s @ [c], wr_word_w := wr_word_w s + cw c\<rparr>)"

definition wrap_visual :: "(nat \<Rightarrow> nat) \<Rightarrow> utext \<Rightarrow> nat \<Rightarrow> utext list" where
  "wrap_visual cw t width =
     (if width = 0 then [t] else if t = [] then [[]]
      else let s = flush_word cw width (fold (wrap_char cw width) t
                     \<lparr>wr_out = [], wr_cur = [], wr_cur_w = 0, wr_word = [], wr_word_w = 0\<rparr>)
           in if wr_cur s \<noteq> [] \<or> wr_out s = [] then wr_out s @ [wr_cur s] else wr_out s)"

section \<open>Scrolling\<close>


definition sat_sub :: "u16 \<Rightarrow> u16 \<Rightarrow> u16" where
  "sat_sub a b = (if b \<le> a then a - b else 0)"

definition transcript_scroll_to_top :: "u16 \<times> bool" where
  "transcript_scroll_to_top = (0, False)"

definition transcript_scroll_to_bottom :: "u16 \<Rightarrow> u16 \<Rightarrow> u16 \<times> bool" where
  "transcript_scroll_to_bottom tot viewport = (sat_sub tot viewport, True)"

definition input_scroll_for_cursor :: "u16 \<Rightarrow> u16 \<Rightarrow> u16" where
  "input_scroll_for_cursor cursor_row inner_h = (if inner_h = 0 then 0 else sat_sub cursor_row (inner_h - 1))"

section \<open>The input box\<close>

fun split_nl :: "utext \<Rightarrow> utext list" where
  "split_nl [] = [[]]"
| "split_nl (c # t) =
     (if c = NL then [] # split_nl t else (case split_nl t of [] \<Rightarrow> [[c]] | p # ps \<Rightarrow> (c # p) # ps))"

fun wrap_para :: "(nat \<Rightarrow> nat) \<Rightarrow> nat \<Rightarrow> utext \<Rightarrow> nat \<Rightarrow> utext \<Rightarrow> utext list" where
  "wrap_para cw width cur w [] = [cur]"
| "wrap_para cw width cur w (c # cs) =
     (if width < w + cw c then cur # wrap_para cw width [c] (cw c) cs
      else wrap_para cw width (cur @ [c]) (w + cw c) cs)"

definition input_visual_rows :: "(nat \<Rightarrow> nat) \<Rightarrow> utext \<Rightarrow> nat \<Rightarrow> utext list" where
  "input_visual_rows cw t width =
     (if width = 0 then [t]
      else concat (map (\<lambda>p. if p = [] then [[]] else wrap_para cw width [] 0 p) (split_nl t)))"

fun pos_loop :: "(nat \<Rightarrow> nat) \<Rightarrow> nat \<Rightarrow> nat \<Rightarrow> nat \<Rightarrow> u16 \<Rightarrow> nat \<Rightarrow> utext \<Rightarrow> u16 \<times> nat" where
  "pos_loop cw width cursor i row col [] = (row, col)"
| "pos_loop cw width cursor i row col (c # t) =
     (if cursor \<le> i then (row, col)
      else if c = NL then pos_loop cw width cursor (i + clen c) (row + 1) 0 t
      else if width < col + cw c then pos_loop cw width cursor (i + clen c) (row + 1) (cw c) t
      else pos_loop cw width cursor (i + clen c) row (col + cw c) t)"

definition cursor_visual_pos :: "(nat \<Rightarrow> nat) \<Rightarrow> utext \<Rightarrow> nat \<Rightarrow> nat \<Rightarrow> u16 \<times> u16" where
  "cursor_visual_pos cw t cursor width =
     (if width = 0 then (0, 0) else (case pos_loop cw width cursor 0 0 0 t of (row, col) \<Rightarrow> (row, word_of_nat col)))"

fun start_loop :: "(nat \<Rightarrow> nat) \<Rightarrow> nat \<Rightarrow> nat \<Rightarrow> nat \<Rightarrow> nat \<Rightarrow> nat \<Rightarrow> utext \<Rightarrow> nat" where
  "start_loop cw width cursor i row_start col [] = row_start"
| "start_loop cw width cursor i row_start col (c # t) =
     (if cursor \<le> i then row_start
      else if c = NL then start_loop cw width cursor (i + clen c) (i + 1) 0 t
      else if width < col + cw c then start_loop cw width cursor (i + clen c) i (cw c) t
      else start_loop cw width cursor (i + clen c) row_start (col + cw c) t)"

definition visual_row_start :: "(nat \<Rightarrow> nat) \<Rightarrow> utext \<Rightarrow> nat \<Rightarrow> nat \<Rightarrow> nat" where
  "visual_row_start cw t cursor width = (if width = 0 then 0 else start_loop cw width cursor 0 0 0 t)"

fun end_loop :: "(nat \<Rightarrow> nat) \<Rightarrow> nat \<Rightarrow> nat \<Rightarrow> nat \<Rightarrow> utext \<Rightarrow> nat" where
  "end_loop cw width i col [] = i"
| "end_loop cw width i col (c # t) =
     (if c = NL \<or> width < col + cw c then i else end_loop cw width (i + clen c) (col + cw c) t)"

text \<open>\<open>None\<close> is the panic of the slice \<open>&input[start..]\<close>.\<close>

definition visual_row_end :: "(nat \<Rightarrow> nat) \<Rightarrow> utext \<Rightarrow> nat \<Rightarrow> nat \<Rightarrow> nat option" where
  "visual_row_end cw t cursor width =
     (if width = 0 then Some (blen t)
      else let start = visual_row_start cw t cursor width
           in map_option (\<lambda>(_, t2). end_loop cw width start 0 t2) (cut t start))"

definition input_height_visual :: "(nat \<Rightarrow> nat) \<Rightarrow> utext \<Rightarrow> u16 \<Rightarrow> u16 \<Rightarrow> u16" where
  "input_height_visual cw t width max_h =
     (let inner_w = max (sat_sub width 4) 4;
          rows = word_of_nat (length (input_visual_rows cw t (unat inner_w)))
      in min (max (rows + 2) 3) (max max_h 3))"

section \<open>Offsets and boundaries\<close>

lemma clen_pos [simp]: "0 < clen c" by (simp add: clen_def)
lemma clen_ge1 [simp]: "Suc 0 \<le> clen c" by (simp add: clen_def)
lemma clen_ne0 [simp]: "clen c \<noteq> 0" using clen_pos [of c] by simp
lemma clen_NL [simp]: "clen NL = 1" by (simp add: clen_def NL_def)

lemma blen_simps [simp]: "blen [] = 0" "blen (c # t) = clen c + blen t" "blen (a @ b) = blen a + blen b"
  by (simp_all add: blen_def)

lemma blen_zero [simp]: "blen t = 0 \<longleftrightarrow> t = []"
  by (cases t) (simp_all add: less_imp_neq)

lemma cut_Some: "cut t i = Some (a, b) \<longleftrightarrow> t = a @ b \<and> blen a = i"
proof (induction t arbitrary: i a)
  case (Cons c t)
  show ?case
  proof (cases a)
    case Nil
    then show ?thesis by auto
  next
    case (Cons d a')
    then show ?thesis using Cons.IH [of "i - clen c" a'] by (auto simp: le_iff_add)
  qed
qed auto

lemma cut_append [simp]: "cut (a @ b) (blen a) = Some (a, b)"
  by (simp add: cut_Some)

lemma boundary_iff: "boundary t i \<longleftrightarrow> (\<exists>a b. t = a @ b \<and> blen a = i)"
  using cut_Some by (fastforce simp: boundary_def)

lemma boundary_le: "boundary t i \<Longrightarrow> i \<le> blen t"
  by (auto simp: boundary_iff)

lemma boundary_0 [simp]: "boundary t 0" by (auto simp: boundary_iff)

lemma boundary_blen [simp]: "boundary t (blen t)" by (auto simp: boundary_iff)

lemma walk_back_spec: "boundary t (walk_back t j) \<and> walk_back t j \<le> j \<and> (\<forall>k \<le> j. boundary t k \<longrightarrow> k \<le> walk_back t j)"
proof (induction j)
  case (Suc j)
  then show ?case by (auto simp: le_Suc_eq)
qed simp

lemma walk_on_spec:
  "j \<le> n \<Longrightarrow> boundary t n \<Longrightarrow>
    boundary t (walk_on t n j) \<and> j \<le> walk_on t n j \<and> walk_on t n j \<le> n \<and> (\<forall>k. j \<le> k \<and> boundary t k \<longrightarrow> walk_on t n j \<le> k)"
proof (induction t n j rule: walk_on.induct)
  case (1 t n j)
  show ?case
  proof (cases "j < n \<and> \<not> boundary t j")
    case True
    then have "walk_on t n j = walk_on t n (j + 1)" by (simp add: walk_on.simps)
    moreover have "Suc j \<le> k" if "j \<le> k" "boundary t k" for k
      using that True by (metis Suc_leI le_neq_implies_less)
    ultimately show ?thesis using 1 True by (simp add: Suc_le_eq)
  next
    case False
    then have "walk_on t n j = j" by (simp add: walk_on.simps)
    moreover have "boundary t j" using False 1(2,3) by (metis le_neq_implies_less)
    ultimately show ?thesis using 1(2) by simp
  qed
qed

lemma char_boundaries:
  assumes "boundary t i"
  shows "boundary t (prev_char_boundary t i) \<and> prev_char_boundary t i \<le> i \<and> (0 < i \<longrightarrow> prev_char_boundary t i < i) \<and>
    boundary t (next_char_boundary t i) \<and> i \<le> next_char_boundary t i \<and> (i < blen t \<longrightarrow> i < next_char_boundary t i)"
proof -
  note le = boundary_le [OF assms]
  have "walk_on t (blen t) (i + 1) \<ge> i + 1 \<and> boundary t (walk_on t (blen t) (i + 1))" if "i < blen t"
    using walk_on_spec [of "i + 1" "blen t" t] that by simp
  then show ?thesis
    using walk_back_spec [of t "i - 1"] le by (auto simp: prev_char_boundary_def next_char_boundary_def Let_def not_le)
qed

text \<open>The character before the cursor and the one after it, as Backspace and Delete remove them.\<close>

lemma boundary_Cons: "boundary (c # t) k \<longleftrightarrow> k = 0 \<or> clen c \<le> k \<and> boundary t (k - clen c)"
  by (auto simp: boundary_def)

lemma boundary_past: "boundary (a @ t) (blen a + k) \<longleftrightarrow> boundary t k"
  by (induction a) (auto simp: boundary_Cons add.assoc)

lemma next_boundary:
  assumes "boundary (a @ c # b) k" "blen a < k"
  shows "blen a + clen c \<le> k"
proof -
  have "boundary (c # b) (k - blen a)" using assms boundary_past [of a "c # b" "k - blen a"] by simp
  then show ?thesis using assms(2) unfolding boundary_Cons by linarith
qed

lemma boundary_here: "boundary (a @ t) (blen a)"
  using boundary_past [of a t 0] by simp

lemma boundary_after: "boundary (a @ c # b) (blen a + clen c)"
  using boundary_past [of a "c # b" "clen c"] by (simp add: boundary_Cons)

lemma prev_char_snoc: "prev_char_boundary (a @ c # b) (blen a + clen c) = blen a"
proof -
  let ?i = "blen a + clen c"
  note w = walk_back_spec [of "a @ c # b" "?i - 1"]
  have "blen a \<le> ?i - 1" using clen_pos [of c] by linarith
  then have "blen a \<le> walk_back (a @ c # b) (?i - 1)" using w boundary_here by blast
  moreover have "walk_back (a @ c # b) (?i - 1) < ?i" using conjunct1 [OF conjunct2 [OF w]] clen_pos [of c] by linarith
  ultimately have "walk_back (a @ c # b) (?i - 1) = blen a"
    using next_boundary [OF conjunct1 [OF w]] by (metis leD le_neq_implies_less)
  then show ?thesis by (simp add: prev_char_boundary_def)
qed

lemma next_char_cons: "next_char_boundary (a @ c # b) (blen a) = blen a + clen c"
proof -
  let ?n = "blen (a @ c # b)"
  have le: "blen a + 1 \<le> ?n" "blen a < ?n" by (simp_all add: trans_le_add1)
  note w = walk_on_spec [OF le(1) boundary_blen]
  have "blen a + 1 \<le> blen a + clen c" using clen_pos [of c] by linarith
  then have "walk_on (a @ c # b) ?n (blen a + 1) \<le> blen a + clen c" using w boundary_after by blast
  moreover have "blen a < walk_on (a @ c # b) ?n (blen a + 1)" using w by linarith
  then have "blen a + clen c \<le> walk_on (a @ c # b) ?n (blen a + 1)" using next_boundary [OF conjunct1 [OF w]] by blast
  ultimately have "walk_on (a @ c # b) ?n (blen a + 1) = blen a + clen c" by (rule le_antisym)
  then show ?thesis using le(2) unfolding next_char_boundary_def by (metis not_le)
qed

section \<open>Layout of the input box\<close>

text \<open>
  One pass over the text with the finished rows, the current row and its width: what both the rows and
  the cursor are computed from.
\<close>

fun layout :: "(nat \<Rightarrow> nat) \<Rightarrow> nat \<Rightarrow> utext \<Rightarrow> utext list \<Rightarrow> utext \<Rightarrow> nat \<Rightarrow> utext list \<times> utext \<times> nat" where
  "layout cw width [] rows cur w = (rows, cur, w)"
| "layout cw width (c # t) rows cur w =
     (if c = NL then layout cw width t (rows @ [cur]) [] 0
      else if width < w + cw c then layout cw width t (rows @ [cur]) [c] (cw c)
      else layout cw width t rows (cur @ [c]) (w + cw c))"

definition row_width :: "(nat \<Rightarrow> nat) \<Rightarrow> utext \<Rightarrow> nat" where
  "row_width cw t = sum_list (map cw t)"

lemma row_width_simps [simp]: "row_width cw [] = 0" "row_width cw (c # t) = cw c + row_width cw t"
  "row_width cw (a @ b) = row_width cw a + row_width cw b"
  by (simp_all add: row_width_def)

lemma split_nl_ne [simp]: "split_nl t \<noteq> []" by (induction t) (auto split: list.splits)

lemma layout_rows:
  "layout cw width t rows cur w = (R, C, W) \<Longrightarrow>
    rows @ wrap_para cw width cur w (hd (split_nl t)) @ concat (map (wrap_para cw width [] 0) (tl (split_nl t))) = R @ [C]"
proof (induction t arbitrary: rows cur w)
  case (Cons c t)
  obtain p ps where p: "split_nl t = p # ps" by (cases "split_nl t") auto
  show ?case
  proof (cases "c = NL")
    case True
    then show ?thesis using Cons.IH [of "rows @ [cur]" "[]" 0] Cons.prems p by simp
  next
    case False
    then show ?thesis using Cons.IH [of "rows @ [cur]" "[c]" "cw c"] Cons.IH [of rows "cur @ [c]" "w + cw c"] Cons.prems p
      by (simp split: if_splits)
  qed
qed simp

lemma rows_layout:
  assumes "0 < width" "layout cw width t [] [] 0 = (R, C, W)"
  shows "input_visual_rows cw t width = R @ [C]"
proof -
  have "(if p = [] then [[]] else wrap_para cw width [] 0 p) = wrap_para cw width [] 0 p" for p by (cases p) auto
  then have "input_visual_rows cw t width = concat (map (wrap_para cw width [] 0) (split_nl t))"
    using assms(1) by (simp add: input_visual_rows_def)
  moreover have "split_nl t = hd (split_nl t) # tl (split_nl t)" by simp
  ultimately show ?thesis using layout_rows [OF assms(2)] by (metis append_Nil concat.simps(2) list.simps(9))
qed

lemma layout_append:
  "layout cw width (a @ b) rows cur w = (case layout cw width a rows cur w of (R, C, W) \<Rightarrow> layout cw width b R C W)"
  by (induction a arbitrary: rows cur w) auto

text \<open>Going on only adds rows, and only extends the current one.\<close>

lemma layout_grows:
  "layout cw width t rows cur w = (R, C, W) \<Longrightarrow> \<exists>x xs. R @ [C] = rows @ (cur @ x) # xs"
proof (induction t arbitrary: rows cur w)
  case (Cons c t)
  consider "c = NL" | "c \<noteq> NL" "width < w + cw c" | "c \<noteq> NL" "\<not> width < w + cw c" by blast
  then show ?case
  proof cases
    case 1
    then have "layout cw width t (rows @ [cur]) [] 0 = (R, C, W)" using Cons.prems by simp
    from Cons.IH [OF this] show ?thesis by (metis append.assoc append_Cons append_Nil append_Nil2)
  next
    case 2
    then have "layout cw width t (rows @ [cur]) [c] (cw c) = (R, C, W)" using Cons.prems by simp
    from Cons.IH [OF this] show ?thesis by (metis append.assoc append_Cons append_Nil append_Nil2)
  next
    case 3
    then have "layout cw width t rows (cur @ [c]) (w + cw c) = (R, C, W)" using Cons.prems by simp
    from Cons.IH [OF this] show ?thesis by (metis append.assoc)
  qed
qed auto

lemma layout_content:
  assumes "layout cw width t rows cur w = (R, C, W)"
  shows "concat R @ C = concat rows @ cur @ filter (\<lambda>c. c \<noteq> NL) t"
  using assms by (induction t arbitrary: rows cur w) (auto split: if_splits)

lemma layout_widths:
  assumes "layout cw width t rows cur w = (R, C, W)" "w = row_width cw cur" "w \<le> width" "\<forall>r \<in> set rows. row_width cw r \<le> width"
    and "\<forall>c \<in> set t. cw c \<le> width"
  shows "W = row_width cw C \<and> W \<le> width \<and> (\<forall>r \<in> set R. row_width cw r \<le> width)"
  using assms
proof (induction t arbitrary: rows cur w)
  case (Cons c t)
  have t: "\<forall>c \<in> set t. cw c \<le> width" "cw c \<le> width" using Cons.prems by auto
  have rows: "\<forall>r \<in> set (rows @ [cur]). row_width cw r \<le> width" using Cons.prems by auto
  consider "c = NL" | "c \<noteq> NL" "width < w + cw c" | "c \<noteq> NL" "w + cw c \<le> width" by linarith
  then show ?case
  proof cases
    case 1
    then have "layout cw width t (rows @ [cur]) [] 0 = (R, C, W)" using Cons.prems(1) by simp
    then show ?thesis by (rule Cons.IH) (use rows t in simp_all)
  next
    case 2
    then have "layout cw width t (rows @ [cur]) [c] (cw c) = (R, C, W)" using Cons.prems(1) by simp
    then show ?thesis by (rule Cons.IH) (use rows t in simp_all)
  next
    case 3
    then have "layout cw width t rows (cur @ [c]) (w + cw c) = (R, C, W)" using Cons.prems(1) by simp
    then show ?thesis by (rule Cons.IH) (use 3 Cons.prems(2,4) t in simp_all)
  qed
qed auto

text \<open>The current row is the end of the text read so far, and holds no newline.\<close>

lemma layout_suffix:
  "layout cw width t rows cur w = (R, C, W) \<Longrightarrow> NL \<notin> set cur \<Longrightarrow> (\<exists>t0. cur @ t = t0 @ C) \<and> NL \<notin> set C"
proof (induction t arbitrary: rows cur w)
  case (Cons c t)
  consider "c = NL" | "c \<noteq> NL" "width < w + cw c" | "c \<noteq> NL" "\<not> width < w + cw c" by blast
  then show ?case
  proof cases
    case 1
    then have "layout cw width t (rows @ [cur]) [] 0 = (R, C, W)" using Cons.prems by simp
    from Cons.IH [OF this] obtain t0 where "t = t0 @ C" "NL \<notin> set C" by auto
    then have "cur @ c # t = (cur @ c # t0) @ C" by simp
    with \<open>NL \<notin> set C\<close> show ?thesis by blast
  next
    case 2
    then have "layout cw width t (rows @ [cur]) [c] (cw c) = (R, C, W)" using Cons.prems by simp
    from Cons.IH [OF this] 2 obtain t0 where "c # t = t0 @ C" "NL \<notin> set C" by auto
    then have "cur @ c # t = (cur @ t0) @ C" by simp
    with \<open>NL \<notin> set C\<close> show ?thesis by blast
  next
    case 3
    then have "layout cw width t rows (cur @ [c]) (w + cw c) = (R, C, W)" using Cons.prems by simp
    from Cons.IH [OF this] 3 Cons.prems show ?thesis by auto
  qed
qed auto

lemma pos_loop_layout:
  "layout cw width a rows cur w = (R, C, W) \<Longrightarrow>
    pos_loop cw width (i + blen a) i (word_of_nat (length rows)) w (a @ b) = (word_of_nat (length R), W)"
proof (induction a arbitrary: rows cur w i)
  case Nil
  then show ?case by (cases b) simp_all
next
  case (Cons c a)
  have i: "\<not> i + (clen c + blen a) \<le> i" using clen_pos [of c] by linarith
  show ?case
    using Cons.prems i Cons.IH [of "rows @ [cur]" "[]" 0 "i + clen c"] Cons.IH [of "rows @ [cur]" "[c]" "cw c" "i + clen c"]
      Cons.IH [of rows "cur @ [c]" "w + cw c" "i + clen c"]
    by (simp add: ac_simps split: if_splits)
qed

lemma start_loop_layout:
  "layout cw width a rows cur w = (R, C, W) \<Longrightarrow>
    start_loop cw width (i + blen cur + blen a) (i + blen cur) i w (a @ b) + blen C = i + blen cur + blen a"
proof (induction a arbitrary: rows cur w i)
  case Nil
  then show ?case by (cases b) simp_all
next
  case (Cons c a)
  have i: "\<not> i + blen cur + (clen c + blen a) \<le> i + blen cur" using clen_pos [of c] by linarith
  show ?case
    using Cons.prems i Cons.IH [of "rows @ [cur]" "[]" 0 "i + blen cur + 1"] Cons.IH [of "rows @ [cur]" "[c]" "cw c" "i + blen cur"]
      Cons.IH [of rows "cur @ [c]" "w + cw c" i]
    by (simp add: ac_simps split: if_splits)
qed

lemma end_loop_layout:
  "layout cw width t rows cur w = (R, C, W) \<Longrightarrow>
    \<exists>y b'. t = y @ b' \<and> end_loop cw width i w t = i + blen y \<and> (R @ [C]) ! length rows = cur @ y"
proof (induction t arbitrary: cur w i)
  case (Cons c t)
  show ?case
  proof (cases "c = NL \<or> width < w + cw c")
    case True
    then obtain C0 W0 where "layout cw width t (rows @ [cur]) C0 W0 = (R, C, W)" using Cons.prems by (auto split: if_splits)
    from layout_grows [OF this] obtain x xs where "R @ [C] = rows @ cur # (C0 @ x) # xs" by auto
    then have "(R @ [C]) ! length rows = cur" by simp
    moreover have "end_loop cw width i w (c # t) = i" using True by simp
    ultimately show ?thesis by (intro exI [of _ "[]"] exI [of _ "c # t"]) simp
  next
    case False
    then have "layout cw width t rows (cur @ [c]) (w + cw c) = (R, C, W)" using Cons.prems by auto
    from Cons.IH [OF this, of "i + clen c"] obtain y b' where
      "t = y @ b'" "end_loop cw width (i + clen c) (w + cw c) t = i + clen c + blen y" "(R @ [C]) ! length rows = cur @ c # y" by auto
    then show ?thesis using False by (intro exI [of _ "c # y"] exI [of _ b']) (simp add: add.assoc)
  qed
qed auto

lemma end_loop_through:
  "NL \<notin> set r \<Longrightarrow> w + row_width cw r \<le> width \<Longrightarrow>
    end_loop cw width i w (r @ t) = end_loop cw width (i + blen r) (w + row_width cw r) t"
  by (induction r arbitrary: i w) (auto simp: add.assoc)

text \<open>The text before the cursor, its rows, and the rest of the cursor's row.\<close>

lemma cursor_layout:
  assumes "0 < width" "cut t cursor = Some (a, b)" "layout cw width a [] [] 0 = (R, C, W)" "\<forall>c \<in> set t. cw c \<le> width"
  shows "\<exists>y b' xs a0. b = y @ b' \<and> a = a0 @ C \<and> NL \<notin> set C \<and> W = row_width cw C \<and> W \<le> width \<and>
    input_visual_rows cw t width = R @ (C @ y) # xs \<and> concat R @ C = filter (\<lambda>c. c \<noteq> NL) a \<and>
    cursor_visual_pos cw t cursor width = (word_of_nat (length R), word_of_nat W) \<and>
    visual_row_start cw t cursor width = blen a0 \<and> visual_row_end cw t cursor width = Some (cursor + blen y)"
proof -
  have t: "t = a @ b" and cur: "cursor = blen a" using assms(2) by (simp_all add: cut_Some)
  have fit: "W = row_width cw C \<and> W \<le> width"
    using layout_widths [OF assms(3)] assms(1,4) by (simp add: t)
  obtain R2 C2 W2 where two: "layout cw width b R C W = (R2, C2, W2)" by (cases "layout cw width b R C W") auto
  then have rows: "input_visual_rows cw t width = R2 @ [C2]"
    using assms(1,3) by (intro rows_layout) (simp_all add: t layout_append)
  obtain a0 where a0: "a = a0 @ C" "NL \<notin> set C" using layout_suffix [OF assms(3)] by auto
  obtain y b' where y: "b = y @ b'" "end_loop cw width cursor W b = cursor + blen y" "(R2 @ [C2]) ! length R = C @ y"
    using end_loop_layout [OF two, of cursor] by auto
  obtain x xs where "R2 @ [C2] = R @ (C @ x) # xs" using layout_grows [OF two] by auto
  with y(3) have grow: "R2 @ [C2] = R @ (C @ y) # xs" by simp
  have start: "visual_row_start cw t cursor width = blen a0"
    using start_loop_layout [OF assms(3), of 0 b] assms(1) by (simp add: visual_row_start_def t cur a0(1))
  have "cut t (blen a0) = Some (a0, C @ b)" by (simp add: cut_Some t a0(1))
  moreover have "end_loop cw width (blen a0) 0 (C @ b) = cursor + blen y"
    using end_loop_through [of C 0 cw width "blen a0" b] fit a0 y(2) by (simp add: cur)
  ultimately have last: "visual_row_end cw t cursor width = Some (cursor + blen y)"
    using start assms(1) by (simp add: visual_row_end_def)
  have "cursor_visual_pos cw t cursor width = (word_of_nat (length R), word_of_nat W)"
    using pos_loop_layout [OF assms(3), of 0 b] assms(1) by (simp add: cursor_visual_pos_def t cur)
  then show ?thesis using y(1) a0 fit rows grow start last layout_content [OF assms(3)] by auto
qed

text \<open>
  C38. The cursor is drawn where its text is: with its byte offset on a character boundary and every
  character no wider than the box, the row and column of \<open>cursor_visual_pos\<close> name a row of
  \<open>input_visual_rows\<close> and a place in it, and what is drawn before that place is the text before the
  cursor, its newlines apart.
\<close>

theorem cursor_in_rows:
  assumes "0 < width" "width < 2 ^ 16" "cut t cursor = Some (a, b)" "\<forall>c \<in> set t. cw c \<le> width"
    and "length (input_visual_rows cw t width) < 2 ^ 16"
  shows "\<exists>row col rows before after. cursor_visual_pos cw t cursor width = (row, col) \<and> input_visual_rows cw t width = rows \<and>
    unat row < length rows \<and> rows ! unat row = before @ after \<and> unat col = row_width cw before \<and>
    concat (take (unat row) rows) @ before = filter (\<lambda>c. c \<noteq> NL) a"
proof -
  obtain R C W where l: "layout cw width a [] [] 0 = (R, C, W)" by (cases "layout cw width a [] [] 0") auto
  obtain y xs where *: "W = row_width cw C" "W \<le> width" "input_visual_rows cw t width = R @ (C @ y) # xs"
    "concat R @ C = filter (\<lambda>c. c \<noteq> NL) a"
    "cursor_visual_pos cw t cursor width = (word_of_nat (length R), word_of_nat W)"
    using cursor_layout [OF assms(1,3) l assms(4)] by blast
  have "length R < 2 ^ 16" using assms(5) *(3) by simp
  then have "unat (word_of_nat (length R) :: u16) = length R" "unat (word_of_nat W :: u16) = W"
    using *(2) assms(2) by (simp_all add: unat_of_nat take_bit_nat_eq_self_iff)
  then show ?thesis using * by auto
qed

text \<open>
  Home and End stay on the row the cursor is drawn on: they cut the text on character boundaries
  around the cursor (so the slice of \<open>visual_row_end\<close> never panics), and what lies between them is
  exactly that row.
\<close>

theorem home_end_row:
  assumes "0 < width" "cut t cursor = Some (a, b)" "\<forall>c \<in> set t. cw c \<le> width"
    and "length (input_visual_rows cw t width) < 2 ^ 16"
  shows "\<exists>front left right back. t = front @ left @ right @ back \<and> cursor = blen (front @ left) \<and>
    visual_row_start cw t cursor width = blen front \<and> visual_row_end cw t cursor width = Some (blen (front @ left @ right)) \<and>
    input_visual_rows cw t width ! unat (fst (cursor_visual_pos cw t cursor width)) = left @ right \<and> NL \<notin> set left"
proof -
  obtain R C W where l: "layout cw width a [] [] 0 = (R, C, W)" by (cases "layout cw width a [] [] 0") auto
  obtain y b' xs a0 where *: "b = y @ b'" "a = a0 @ C" "NL \<notin> set C" "input_visual_rows cw t width = R @ (C @ y) # xs"
    "cursor_visual_pos cw t cursor width = (word_of_nat (length R), word_of_nat W)"
    "visual_row_start cw t cursor width = blen a0" "visual_row_end cw t cursor width = Some (cursor + blen y)"
    using cursor_layout [OF assms(1,2) l assms(3)] by blast
  have "length R < 2 ^ 16" using assms(4) *(4) by simp
  then have "unat (word_of_nat (length R) :: u16) = length R" by (simp add: unat_of_nat take_bit_nat_eq_self_iff)
  moreover have "t = a0 @ C @ y @ b'" "cursor = blen (a0 @ C)" using assms(2) *(1,2) by (simp_all add: cut_Some)
  ultimately show ?thesis using * by (intro exI [of _ a0] exI [of _ C] exI [of _ y] exI [of _ b']) (simp add: add.assoc)
qed

text \<open>A CJK text (two columns and three bytes a character) in a box of four columns, the cursor after the third.\<close>

definition demo_text :: utext where "demo_text = [0x4F60, 0x597D, 0x4E16, 0x61, NL, 0x62]"
definition demo_cols :: "nat \<Rightarrow> nat" where "demo_cols c = (if c < 0x100 then 1 else 2)"

lemma demo_wide:
  "cut demo_text 9 = Some ([0x4F60, 0x597D, 0x4E16], [0x61, NL, 0x62])"
  "cursor_visual_pos demo_cols demo_text 9 4 = (1, 2)"
  "input_visual_rows demo_cols demo_text 4 = [[0x4F60, 0x597D], [0x4E16, 0x61], [0x62]]"
  "\<forall>c \<in> set demo_text. demo_cols c \<le> 4"
  by (simp_all add: demo_text_def demo_cols_def clen_def NL_def cursor_visual_pos_def input_visual_rows_def)

lemma cursor_in_rows_witness:
  "\<exists>before after. [0x4E16, 0x61] = before @ after \<and> row_width demo_cols before = 2 \<and>
    [0x4F60, 0x597D] @ before = [0x4F60, 0x597D, 0x4E16]"
proof -
  have "length (input_visual_rows demo_cols demo_text 4) < 2 ^ 16" by (simp add: demo_wide)
  from cursor_in_rows [OF _ _ demo_wide(1,4) this] show ?thesis
    by (simp add: demo_wide) (auto simp: NL_def)
qed

lemma home_end_row_witness:
  "\<exists>front left right back. demo_text = front @ left @ right @ back \<and> blen (front @ left) = 9 \<and> left @ right = [0x4E16, 0x61]"
proof -
  have "length (input_visual_rows demo_cols demo_text 4) < 2 ^ 16" by (simp add: demo_wide)
  from home_end_row [OF _ demo_wide(1,4) this] obtain front left right rest where
    "demo_text = front @ left @ right @ rest" "9 = blen (front @ left)" "[0x4E16, 0x61] = left @ right"
    by (auto simp: demo_wide)
  then show ?thesis by metis
qed

text \<open>
  The other convention: with the cursor on the wrap boundary that Home has just reached, a second Home
  goes to the row above.
\<close>

lemma home_twice:
  "visual_row_start (\<lambda>_. 1) [0x61, 0x62, 0x63, 0x64, 0x65, 0x66] 6 5 = 5"
  "visual_row_start (\<lambda>_. 1) [0x61, 0x62, 0x63, 0x64, 0x65, 0x66] 5 5 = 0"
  by (simp_all add: visual_row_start_def clen_def NL_def)

section \<open>Wrapped prose\<close>

text \<open>What a character takes in a wrapped row: a space or a tab one column.\<close>

definition shown :: "(nat \<Rightarrow> nat) \<Rightarrow> nat \<Rightarrow> nat" where
  "shown cw c = (if blank c then 1 else cw c)"

definition solid :: "utext \<Rightarrow> utext" where
  "solid t = filter (\<lambda>c. \<not> blank c) t"

lemma solid_simps [simp]: "solid [] = []" "solid (c # t) = (if blank c then solid t else c # solid t)" "solid (a @ b) = solid a @ solid b"
  by (simp_all add: solid_def)

lemma shown_word: "\<forall>c \<in> set t. \<not> blank c \<Longrightarrow> row_width (shown cw) t = row_width cw t \<and> solid t = t"
  by (induction t) (simp_all add: shown_def)

definition wrap_ok :: "(nat \<Rightarrow> nat) \<Rightarrow> nat \<Rightarrow> utext \<Rightarrow> wrap_state \<Rightarrow> bool" where
  "wrap_ok cw width t s \<longleftrightarrow>
     wr_cur_w s = row_width (shown cw) (wr_cur s) \<and> wr_cur_w s \<le> width \<and>
     (\<forall>r \<in> set (wr_out s). row_width (shown cw) r \<le> width) \<and>
     wr_word_w s = row_width cw (wr_word s) \<and> (\<forall>c \<in> set (wr_word s). \<not> blank c \<and> cw c \<le> width) \<and>
     solid (concat (wr_out s)) @ solid (wr_cur s) @ wr_word s = solid t"

lemma hard_wrap_ok:
  assumes "hard_wrap cw width cs piece acc out = (piece2, acc2, out2)"
    and "acc = row_width (shown cw) piece" "acc \<le> width" "\<forall>r \<in> set out. row_width (shown cw) r \<le> width"
    and "\<forall>c \<in> set cs. \<not> blank c \<and> cw c \<le> width"
  shows "acc2 = row_width (shown cw) piece2 \<and> acc2 \<le> width \<and> (\<forall>r \<in> set out2. row_width (shown cw) r \<le> width) \<and>
    solid (concat out2) @ solid piece2 = solid (concat out) @ solid piece @ cs"
  using assms
proof (induction cs arbitrary: piece acc out)
  case (Cons c cs)
  have c: "shown cw c = cw c" "\<not> blank c" "cw c \<le> width" "\<forall>c \<in> set cs. \<not> blank c \<and> cw c \<le> width"
    using Cons.prems(5) by (simp_all add: shown_def)
  show ?case
  proof (cases "width < acc + cw c")
    case True
    then have "hard_wrap cw width cs [c] (cw c) (out @ [piece]) = (piece2, acc2, out2)" using Cons.prems(1) by simp
    from Cons.IH [OF this _ _ _ c(4)] show ?thesis using c Cons.prems by simp
  next
    case False
    then have "hard_wrap cw width cs (piece @ [c]) (acc + cw c) out = (piece2, acc2, out2)" using Cons.prems(1) by simp
    from Cons.IH [OF this _ _ _ c(4)] show ?thesis using c Cons.prems False by simp
  qed
qed simp

lemma flush_word_ok:
  assumes "wrap_ok cw width t s"
  shows "wrap_ok cw width t (flush_word cw width s) \<and> wr_word (flush_word cw width s) = []"
proof (cases "wr_word s = []")
  case False
  obtain piece acc out2 where
    h: "hard_wrap cw width (wr_word s) [] 0 (if wr_cur s \<noteq> [] then wr_out s @ [wr_cur s] else wr_out s) = (piece, acc, out2)"
    by (cases "hard_wrap cw width (wr_word s) [] 0 (if wr_cur s \<noteq> [] then wr_out s @ [wr_cur s] else wr_out s)") auto
  have w: "row_width (shown cw) (wr_word s) = row_width cw (wr_word s)" "solid (wr_word s) = wr_word s"
    using shown_word [of "wr_word s" cw] assms by (simp_all add: wrap_ok_def)
  consider "wr_cur_w s + wr_word_w s \<le> width" | "width < wr_cur_w s + wr_word_w s" "wr_word_w s \<le> width" |
    "width < wr_cur_w s + wr_word_w s" "width < wr_word_w s" by linarith
  then show ?thesis
  proof cases
    case 1
    then show ?thesis using assms False w by (simp add: flush_word_def wrap_ok_def)
  next
    case 2
    then show ?thesis using assms False w by (auto simp: flush_word_def wrap_ok_def Let_def)
  next
    case 3
    have "acc = row_width (shown cw) piece \<and> acc \<le> width \<and> (\<forall>r \<in> set out2. row_width (shown cw) r \<le> width) \<and>
      solid (concat out2) @ solid piece = solid (concat (wr_out s)) @ solid (wr_cur s) @ wr_word s"
      using hard_wrap_ok [OF h] assms unfolding wrap_ok_def by (cases "wr_cur s = []") simp_all
    moreover have "flush_word cw width s = \<lparr>wr_out = out2, wr_cur = piece, wr_cur_w = acc, wr_word = [], wr_word_w = 0\<rparr>"
      using 3 False h by (simp add: flush_word_def Let_def)
    ultimately show ?thesis using assms by (simp add: wrap_ok_def)
  qed
qed (use assms in \<open>simp add: flush_word_def\<close>)

lemma wrap_char_ok:
  assumes "wrap_ok cw width t s" "cw c \<le> width" "0 < width"
  shows "wrap_ok cw width (t @ [c]) (wrap_char cw width c s)"
proof (cases "blank c")
  case True
  have "wrap_ok cw width t (flush_word cw width s)" "wr_word (flush_word cw width s) = []"
    using flush_word_ok [OF assms(1)] by simp_all
  then show ?thesis using True by (auto simp: wrap_char_def wrap_ok_def Let_def shown_def)
qed (use assms in \<open>simp add: wrap_char_def wrap_ok_def\<close>)

lemma wrap_fold_ok:
  assumes "\<forall>c \<in> set u. cw c \<le> width" "0 < width" "wrap_ok cw width t s"
  shows "wrap_ok cw width (t @ u) (fold (wrap_char cw width) u s)"
  using assms
proof (induction u arbitrary: t s)
  case (Cons c u)
  then show ?case using Cons.IH [of "t @ [c]" "wrap_char cw width c s"] wrap_char_ok [of cw width t s c] by simp
qed simp

text \<open>
  \<open>wrap_visual\<close> gives at least one row and rows that fit the width (a space or tab counted as one
  column), and drops nothing but spaces and tabs: provided no single character is wider than the row.
\<close>

theorem wrap_visual_fits:
  assumes "0 < width" "\<forall>c \<in> set t. cw c \<le> width"
  shows "wrap_visual cw t width \<noteq> [] \<and> (\<forall>r \<in> set (wrap_visual cw t width). row_width (shown cw) r \<le> width) \<and>
    solid (concat (wrap_visual cw t width)) = solid t"
proof (cases "t = []")
  case False
  define s where "s = fold (wrap_char cw width) t \<lparr>wr_out = [], wr_cur = [], wr_cur_w = 0, wr_word = [], wr_word_w = 0\<rparr>"
  have "wrap_ok cw width ([] @ t) s" unfolding s_def by (rule wrap_fold_ok) (use assms in \<open>simp_all add: wrap_ok_def\<close>)
  then have "wrap_ok cw width t (flush_word cw width s)" "wr_word (flush_word cw width s) = []"
    using flush_word_ok [of cw width t s] by simp_all
  moreover have "wrap_visual cw t width = (let s = flush_word cw width s in
      if wr_cur s \<noteq> [] \<or> wr_out s = [] then wr_out s @ [wr_cur s] else wr_out s)"
    using assms(1) False by (simp add: wrap_visual_def s_def)
  ultimately show ?thesis by (auto simp: wrap_ok_def Let_def)
qed (use assms in \<open>simp add: wrap_visual_def\<close>)

lemma wrap_visual_fits_witness:
  "wrap_visual (\<lambda>_. 1) [0x61, 0x62, 0x20, 0x63, 0x64, 0x65, 0x66, 0x67] 4 = [[0x61, 0x62, 0x20], [0x63, 0x64, 0x65, 0x66], [0x67]] \<and>
    solid (concat (wrap_visual (\<lambda>_. 1) [0x61, 0x62, 0x20, 0x63, 0x64, 0x65, 0x66, 0x67] 4)) = [0x61, 0x62, 0x63, 0x64, 0x65, 0x66, 0x67]"
  using wrap_visual_fits [of 4 "[0x61, 0x62, 0x20, 0x63, 0x64, 0x65, 0x66, 0x67]" "\<lambda>_. 1"]
  by (simp add: wrap_visual_def wrap_char_def flush_word_def blank_def)

section \<open>Code fences, a line at a time\<close>

fun keep_lines :: "utext \<Rightarrow> utext list" where
  "keep_lines [] = []"
| "keep_lines (c # t) =
     (if c = NL then [c] # keep_lines t else (case keep_lines t of [] \<Rightarrow> [[c]] | l # ls \<Rightarrow> (c # l) # ls))"

text \<open>The reference: a line that starts with three backticks opens or closes a block; any other is text.\<close>

definition fence_line :: "utext \<Rightarrow> fence_state \<Rightarrow> fence_state" where
  "fence_line l s =
     (if take 3 l = [TICK, TICK, TICK]
      then (if fn_in s then fence_close s else fence_open (takeWhile (\<lambda>c. c \<noteq> NL) (drop 3 l)) s)
      else fence_push l s)"

lemma fence_push_push [simp]: "fence_push b (fence_push a s) = fence_push (a @ b) s"
  by (simp add: fence_push_def)

lemma keep_lines_take_line:
  "keep_lines (u @ t) = (if u @ t = [] then [] else (u @ fst (take_line t) @ (if NL \<in> set t then [NL] else [])) # keep_lines (snd (take_line t)))"
  if "NL \<notin> set u"
proof -
  have base: "keep_lines t = (if t = [] then [] else (fst (take_line t) @ (if NL \<in> set t then [NL] else [])) # keep_lines (snd (take_line t)))"
    by (induction t) (auto split: prod.splits)
  show ?thesis using that by (induction u) (auto simp: base split: list.splits)
qed

lemma take_line_fst: "fst (take_line t) = takeWhile (\<lambda>c. c \<noteq> NL) t"
  by (induction t) (auto split: prod.splits)

lemma ticks_split:
  "t = replicate (ticks t) TICK @ drop (ticks t) t \<and> ticks t \<le> 3 \<and>
    (ticks t = 3 \<longleftrightarrow> take 3 t = [TICK, TICK, TICK]) \<and> (ticks t < 3 \<longrightarrow> drop (ticks t) t = [] \<or> hd (drop (ticks t) t) \<noteq> TICK)"
  by (cases t; cases "tl t"; cases "tl (tl t)") (auto simp: ticks_def eval_nat_numeral)

lemma keep_lines_past: "NL \<notin> set u \<Longrightarrow> u \<noteq> [] \<Longrightarrow> keep_lines (u @ t) = (case keep_lines t of [] \<Rightarrow> [u] | l # ls \<Rightarrow> (u @ l) # ls)"
proof (induction u)
  case (Cons c u)
  then show ?case by (cases "u = []") (auto split: list.splits)
qed simp

lemma keep_lines_ne: "keep_lines t = l # ls \<Longrightarrow> l \<noteq> [] \<and> hd l = hd t"
  by (cases t) (auto split: if_splits list.splits)

lemma tick_run [simp]: "NL \<notin> set (replicate n TICK)" by (simp add: NL_def TICK_def)

lemma fence_scan_ticks:
  assumes "ticks (c # t) < 3" "c = TICK"
    and "fence_scan False (drop (ticks (c # t)) (c # t)) (fence_push (replicate (ticks (c # t)) TICK) s) =
      (case keep_lines (drop (ticks (c # t)) (c # t)) of [] \<Rightarrow> fence_push (replicate (ticks (c # t)) TICK) s
       | l # ls \<Rightarrow> fold fence_line ls (fence_push l (fence_push (replicate (ticks (c # t)) TICK) s)))"
  shows "fence_scan True (c # t) s = fold fence_line (keep_lines (c # t)) s"
proof -
  let ?n = "ticks (c # t)" and ?r = "drop (ticks (c # t)) (c # t)"
  note sp = ticks_split [of "c # t"]
  have "0 < ?n" using assms(2) by (simp add: ticks_def)
  then have "replicate ?n TICK \<noteq> []" by simp
  from keep_lines_past [OF tick_run this, of ?r] have lines:
    "keep_lines (c # t) = (case keep_lines ?r of [] \<Rightarrow> [replicate ?n TICK] | l # ls \<Rightarrow> (replicate ?n TICK @ l) # ls)"
    using sp by simp
  have "take 3 (replicate ?n TICK) \<noteq> [TICK, TICK, TICK]" using assms(1) by (auto dest: arg_cong [of _ _ length])
  moreover have "take 3 (replicate ?n TICK @ l) \<noteq> [TICK, TICK, TICK]" if "keep_lines ?r = l # ls" for l ls
  proof -
    have "l \<noteq> []" "hd l \<noteq> TICK" using keep_lines_ne [OF that] sp assms(1) that by auto
    then show ?thesis using assms(1) \<open>0 < ?n\<close> by (cases l) (auto simp: take_Cons' numeral_3_eq_3 less_Suc_eq)
  qed
  moreover have "fence_scan True (c # t) s = fence_scan False ?r (fence_push (replicate ?n TICK) s)"
    using assms(1,2) by (simp add: fence_scan.simps)
  ultimately show ?thesis using assms(3) lines by (simp add: fence_line_def split: list.splits)
qed

lemma fence_scan_lines:
  "fence_scan start t s =
     (if start then fold fence_line (keep_lines t) s
      else (case keep_lines t of [] \<Rightarrow> s | l # ls \<Rightarrow> fold fence_line ls (fence_push l s)))"
proof (induction start t s rule: fence_scan.induct)
  case (1 start s)
  then show ?case by (simp add: fence_scan.simps)
next
  case (2 start c t s)
  show ?case
  proof (cases "start \<and> c = TICK")
    case fence: True
    show ?thesis
    proof (cases "ticks (c # t) = 3")
      case True
      let ?r = "drop 3 (c # t)"
      have t: "c # t = replicate 3 TICK @ ?r" and t3: "take 3 (c # t) = [TICK, TICK, TICK]"
        using ticks_split [of "c # t"] True by metis+
      have k: "keep_lines (c # t) = (replicate 3 TICK @ fst (take_line ?r) @ (if NL \<in> set ?r then [NL] else [])) # keep_lines (snd (take_line ?r))"
        using keep_lines_take_line [OF tick_run, of 3 ?r] t by simp
      have line: "fence_line (replicate 3 TICK @ fst (take_line ?r) @ (if NL \<in> set ?r then [NL] else [])) s =
        (if fn_in s then fence_close s else fence_open (fst (take_line ?r)) s)"
        using takeWhile_idem [of "\<lambda>c. c \<noteq> NL" ?r] by (simp add: fence_line_def take_line_fst numeral_3_eq_3 takeWhile_tail)
      have "fence_scan start (c # t) s =
        fence_scan True (snd (take_line ?r)) (if fn_in s then fence_close s else fence_open (fst (take_line ?r)) s)"
        using fence True by (simp only: fence_scan.simps simp_thms if_True)
      also have "\<dots> = fold fence_line (keep_lines (snd (take_line ?r))) (if fn_in s then fence_close s else fence_open (fst (take_line ?r)) s)"
        using 2(1) [OF fence True] by simp
      also have "\<dots> = fold fence_line (keep_lines (c # t)) s" by (simp only: k line fold_simps)
      finally show ?thesis using fence by simp
    next
      case False
      then have "ticks (c # t) < 3" using ticks_split [of "c # t"] by linarith
      then show ?thesis using fence_scan_ticks [of c t s] 2(2) [OF fence False] fence by simp
    qed
  next
    case False
    then have step: "fence_scan start (c # t) s = fence_scan (c = NL) t (fence_push [c] s)" by (simp only: fence_scan.simps if_False)
    have "fence_line (c # l) s = fence_push (c # l) s" if "start" for l
      using False that by (auto simp: fence_line_def)
    then show ?thesis using 2(3) [OF False] step by (auto split: list.splits)
  qed
qed

definition fences_by_line :: "utext \<Rightarrow> segment list" where
  "fences_by_line t =
     (let s = fold fence_line (keep_lines t) \<lparr>fn_out = [], fn_prose = [], fn_code = [], fn_lang = [], fn_in = False\<rparr>;
          out = fn_out s @ (if fn_in s \<and> fn_code s \<noteq> [] then [Code (fn_lang s) (fn_code s)]
                            else if fn_prose s \<noteq> [] then [Prose (fn_prose s)] else [])
      in if out = [] then [Prose []] else out)"

text \<open>
  The character scanner splits a message as a reading by lines does: a block opens and closes at
  lines that begin with three backticks, the language is what follows them on the opening line, any
  other line (one with backticks further in, or one or two at its start, too) is text of the block or
  the prose it is in.
\<close>

theorem fences_are_lines: "split_code_fences t = fences_by_line t"
  by (simp add: split_code_fences_def fences_by_line_def fence_scan_lines Let_def)

end
