(* ===== verification/Render.thy ===== *)
theory Render
  imports Config Wrap
begin

text \<open>
  Text the client shows: sizes and status lines of local models (\<open>human_bytes\<close>, \<open>status_line\<close> in
  \<open>crates/app/src/local.rs\<close>), summaries and errors of chain targets (\<open>crates/app/src/chain_driver.rs\<close>), and
  the UTF-8 bytes of a text of scalar values. Socket addresses are kept as the text they display as.
\<close>

section \<open>UTF-8\<close>

definition utf8_char :: "nat \<Rightarrow> string" where
  "utf8_char c = map char_of
     (if c < 0x80 then [c]
      else if c < 0x800 then [0xC0 + c div 0x40, 0x80 + c mod 0x40]
      else if c < 0x10000 then [0xE0 + c div 0x1000, 0x80 + c div 0x40 mod 0x40, 0x80 + c mod 0x40]
      else [0xF0 + c div 0x40000, 0x80 + c div 0x1000 mod 0x40, 0x80 + c div 0x40 mod 0x40, 0x80 + c mod 0x40])"

definition utf8 :: "utext \<Rightarrow> string" where
  "utf8 t = concat (map utf8_char t)"

text \<open>An ASCII literal as scalar values.\<close>

definition ascii :: "string \<Rightarrow> utext" where
  "ascii s = map of_char s"

lemma length_utf8: "length (utf8 t) = blen t"
  by (induction t) (simp_all add: utf8_def utf8_char_def clen_def)

lemma utf8_append [simp]: "utf8 (a @ b) = utf8 a @ utf8 b" and utf8_Nil [simp]: "utf8 [] = []"
  by (simp_all add: utf8_def)

definition arrow :: string where "arrow = [CHR 0xE2, CHR 0x86, CHR 0x92]"
definition check_mark :: string where "check_mark = [CHR 0xE2, CHR 0x9C, CHR 0x93]"
definition warn_sign :: string where "warn_sign = [CHR 0xE2, CHR 0x9A, CHR 0xA0]"
definition at_least :: string where "at_least = [CHR 0xE2, CHR 0x89, CHR 0xA5]"

text \<open>\<open>&s[..s.len().min(12)]\<close>; \<open>None\<close> is the panic of a cut inside a character.\<close>

definition short12 :: "string \<Rightarrow> string option" where
  "short12 s = (if is_char_boundary s (min (length s) 12) then Some (take 12 s) else None)"

text \<open>\<open>{:<n}\<close> and \<open>{:>n}\<close>: padding counts characters.\<close>

definition chars :: "string \<Rightarrow> nat" where
  "chars s = length (filter starts_char s)"

definition pad_right :: "nat \<Rightarrow> string \<Rightarrow> string" where
  "pad_right n s = s @ replicate (n - chars s) CHR '' ''"

definition pad_left :: "nat \<Rightarrow> string \<Rightarrow> string" where
  "pad_left n s = replicate (n - chars s) CHR '' '' @ s"

fun sep_by :: "string \<Rightarrow> string list \<Rightarrow> string" where
  "sep_by d [] = []"
| "sep_by d [w] = w"
| "sep_by d (w # ws) = w @ d @ sep_by d ws"

section \<open>Sizes\<close>

text \<open>The quotient rounded to the nearest, ties to even: what both the conversion to \<open>f64\<close> and the formatter do.\<close>

definition round_even :: "nat \<Rightarrow> nat \<Rightarrow> nat" where
  "round_even a b =
     (let q = a div b; r = 2 * (a mod b) in if r < b \<or> r = b \<and> even q then q else q + 1)"

text \<open>\<open>n as f64\<close>: 53 significant bits. Dividing by a power of two is then exact.\<close>

definition as_f64 :: "u64 \<Rightarrow> nat" where
  "as_f64 n = (let d = 2 ^ hd (filter (\<lambda>e. unat n < 2 ^ (53 + e)) [0..<12]) in round_even (unat n) d * d)"

definition KB :: u64 where "KB = 1024"

definition tenths :: "nat \<Rightarrow> nat \<Rightarrow> string" where
  "tenths a b = (let t = round_even (10 * a) b in dec_digits (t div 10) @ ''.'' @ dec_digits (t mod 10))"

definition human_bytes :: "u64 \<Rightarrow> string" where
  "human_bytes n =
     (if GB \<le> n then tenths (as_f64 n) (unat GB) @ '' GiB''
      else if MB \<le> n then dec_digits (round_even (as_f64 n) (unat MB)) @ '' MiB''
      else if KB \<le> n then dec_digits (round_even (as_f64 n) (unat KB)) @ '' KiB''
      else dec_digits (unat n) @ '' B'')"

definition dotted :: "string list \<Rightarrow> string" where
  "dotted ws = sep_by ('' '' @ middle_dot @ '' '') ws"

definition status_line :: "local_model \<Rightarrow> string" where
  "status_line m =
     (let sz = human_bytes (lm_size_bytes m)
      in case (lm_arch m, lm_tokenizer m) of
           (Some a, Some _) \<Rightarrow> dotted [lm_name m, sz, ''Ggml'']
         | (Some a, None) \<Rightarrow> dotted [lm_name m, sz, ''Ggml'', ''missing tokenizer.json'']
         | (None, _) \<Rightarrow> dotted [lm_name m, sz, ''unsupported arch''])"

section \<open>Chain targets\<close>

definition show_u16 :: "u16 \<Rightarrow> string" where
  "show_u16 n = dec_digits (unat n)"

definition debug_u16s :: "u16 list \<Rightarrow> string" where
  "debug_u16s ns = ''['' @ sep_by '', '' (map show_u16 ns) @ '']''"

definition show_range :: "u16 \<Rightarrow> u16 \<Rightarrow> string" where
  "show_range s e = ''['' @ show_u16 s @ ''..'' @ show_u16 e @ '')''"

definition target_summary :: "chain_target \<Rightarrow> string" where
  "target_summary t =
     (let alts = sum_list (map length (ct_alternates t));
          base = [sep_by '','' (ct_peers t), ''splits='' @ debug_u16s (ct_splits t)]
      in if alts = 0 then dotted base else dotted (base @ [dec_digits alts @ '' alt'']))"

definition draft_summary :: "draft_target \<Rightarrow> string" where
  "draft_summary d =
     dotted [if dt_path d = [] then ''<draft>'' else last (dt_path d), ''k='' @ dec_digits (dt_k d)]"

text \<open>The messages of \<open>from_config\<close> and \<open>from_swarm\<close>.\<close>

definition target_error_text :: "target_error \<Rightarrow> string" where
  "target_error_text e =
     (case e of
        NoPeersConfigured \<Rightarrow> ''no peers configured''
      | PeersSplitsLength p s \<Rightarrow> ''peers ('' @ dec_digits p @ '') and splits ('' @ dec_digits s @ '') length mismatch''
      | BadPeer i p \<Rightarrow> ''peer['' @ dec_digits i @ ''] = `'' @ p @ ''` is not a valid host:port''
      | NoRanges \<Rightarrow> ''no ranges to assemble''
      | NoForwardUrl s e \<Rightarrow> ''no provider with a forward_url for layers '' @ show_range s e
      | NoReachable s e \<Rightarrow> ''no reachable provider for layers '' @ show_range s e)"

section \<open>Properties\<close>

lemma round_even_exact [simp]: "0 < b \<Longrightarrow> round_even (a * b) b = a"
  by (simp add: round_even_def)

text \<open>A size is shown within half a unit of its last digit.\<close>

lemma round_even_near: "0 < b \<Longrightarrow> 2 * a \<le> 2 * round_even a b * b + b \<and> 2 * round_even a b * b \<le> 2 * a + b"
proof -
  assume b: "0 < b"
  define q r where "q = a div b" and "r = a mod b"
  have a: "a = q * b + r" and r: "r < b" using b by (simp_all add: q_def r_def)
  have "round_even a b = (if 2 * r < b \<or> 2 * r = b \<and> even q then q else q + 1)"
    by (simp add: round_even_def q_def r_def Let_def)
  then show ?thesis using r unfolding a by (auto simp: algebra_simps)
qed

lemma as_f64_small: "unat n < 2 ^ 53 \<Longrightarrow> as_f64 n = unat n"
  by (simp add: as_f64_def upt_conv_Cons round_even_def del: upt_Suc)

end
