(* ===== verification/Browser.thy ===== *)
theory Browser
  imports Render
begin

text \<open>
  The model picker, \<open>crates/app/src/browser.rs\<close>: local models, swarm models and catalog entries folded
  into one list of rows, and the selection that moves over them. \<open>b3\<close> and \<open>b58\<close> are BLAKE3 and Base58
  (for the catalog's CIDs), \<open>free\<close> the memory the probe reports.
\<close>

section \<open>Rows\<close>

datatype row_kind =
    RowLocal path
  | RowSwarm string nat nat nat bool
  | RowInstall catalog_entry fit nat

record source_row =
  row_model :: string
  row_tag :: string
  row_detail :: string
  row_kind :: row_kind
  row_enabled :: bool
  row_contribute_ok :: bool

definition local_row :: "local_model \<Rightarrow> source_row" where
  "local_row m =
     \<lparr>row_model = lm_name m, row_tag = ''local'', row_detail = dotted [''cached'', human_bytes (lm_size_bytes m)],
      row_kind = RowLocal (lm_path m), row_enabled = True,
      row_contribute_ok = find_by_local_name (lm_name m) \<noteq> None\<rparr>"

definition swarm_row :: "swarm_model \<Rightarrow> source_row" where
  "swarm_row m =
     (let unique = unique_providers m; tot = length (sm_ranges m);
          cov = length (filter (\<lambda>r. rc_providers r \<noteq> []) (sm_ranges m)); fully = fully_served m;
          peers = dec_digits unique @ '' peers'';
          slices = dec_digits cov @ ''/'' @ dec_digits tot @ '' slices''
      in \<lparr>row_model = (case sm_envelope m of Some e \<Rightarrow> me_display_name e | None \<Rightarrow> sm_cid m), row_tag = ''swarm'',
          row_detail = (if fully then dotted [peers, slices, ''ready'']
                        else if cov = 0 then dotted [peers, ''no slice fully covered yet'']
                        else dotted [peers, slices, ''partial'']),
          row_kind = RowSwarm (sm_cid m) unique tot cov fully, row_enabled = fully, row_contribute_ok = True\<rparr>)"

definition fit_blurb :: "catalog_entry \<Rightarrow> fit \<Rightarrow> string" where
  "fit_blurb e f =
     (case f of
        Fits \<Rightarrow> dotted [human_bytes (size_bytes e), ''fits your RAM'']
      | Tight \<Rightarrow> dotted [human_bytes (size_bytes e), ''tight '' @ em_dash @ '' '' @ human_bytes (ram_bytes_min e) @ '' min free'']
      | TooBig \<Rightarrow> dotted [human_bytes (size_bytes e), ''too big '' @ em_dash @ '' needs '' @ human_bytes (ram_bytes_min e) @ '' free''])"

definition hub_row :: "(catalog_entry \<Rightarrow> string) \<Rightarrow> swarm_model list \<Rightarrow> u64 \<Rightarrow> catalog_entry \<Rightarrow> source_row" where
  "hub_row cid_of swarm free e =
     (let f = catalog_fit e free;
          peers = (case List.find (\<lambda>m. sm_cid m = cid_of e) (rev swarm) of Some m \<Rightarrow> unique_providers m | None \<Rightarrow> 0)
      in \<lparr>row_model = ce_display_name e, row_tag = ''hub'',
          row_detail = (if 0 < peers then dotted [fit_blurb e f, dec_digits peers @ '' swarm peers''] else fit_blurb e f),
          row_kind = RowInstall e f peers, row_enabled = f \<noteq> TooBig, row_contribute_ok = f \<noteq> TooBig\<rparr>)"

definition gguf_stem :: "catalog_entry \<Rightarrow> string" where
  "gguf_stem e = trim_end_matches ''.gguf'' (gguf_file e)"

definition build_rows :: "(catalog_entry \<Rightarrow> string) \<Rightarrow> local_model list \<Rightarrow> swarm_model list \<Rightarrow> u64 \<Rightarrow> source_row list" where
  "build_rows cid_of locals swarm free =
     map local_row (filter is_usable locals) @
     map swarm_row (filter (\<lambda>m. sm_cid m \<notin> cid_of ` set CATALOG) swarm) @
     map (hub_row cid_of swarm free) (filter (\<lambda>e. gguf_stem e \<notin> lm_name ` set locals) CATALOG)"

section \<open>Selection\<close>

record browser_state =
  br_rows :: "source_row list"
  br_selected :: nat

definition browser_new :: "source_row list \<Rightarrow> browser_state" where
  "browser_new rows =
     \<lparr>br_rows = rows,
      br_selected = (case List.find (\<lambda>i. row_enabled (rows ! i)) [0..<length rows] of Some i \<Rightarrow> i | None \<Rightarrow> 0)\<rparr>"

definition selectable :: "source_row list \<Rightarrow> nat \<Rightarrow> bool" where
  "selectable rows i \<longleftrightarrow> row_enabled (rows ! i) \<or> row_contribute_ok (rows ! i)"

text \<open>At most \<open>n\<close> steps from \<open>i\<close> to the first place that passes.\<close>

fun seek :: "(nat \<Rightarrow> nat) \<Rightarrow> (nat \<Rightarrow> bool) \<Rightarrow> nat \<Rightarrow> nat \<Rightarrow> nat option" where
  "seek nxt ok 0 i = None"
| "seek nxt ok (Suc n) i = (if ok (nxt i) then Some (nxt i) else seek nxt ok n (nxt i))"

definition up_from :: "nat \<Rightarrow> nat \<Rightarrow> nat" where
  "up_from n i = (if i = 0 then n - 1 else i - 1)"

definition down_from :: "nat \<Rightarrow> nat \<Rightarrow> nat" where
  "down_from n i = (i + 1) mod n"

definition move :: "(nat \<Rightarrow> nat \<Rightarrow> nat) \<Rightarrow> browser_state \<Rightarrow> browser_state" where
  "move dir s =
     (let rows = br_rows s
      in case seek (dir (length rows)) (selectable rows) (length rows) (br_selected s) of
           Some i \<Rightarrow> s\<lparr>br_selected := i\<rparr>
         | None \<Rightarrow> s)"

definition browser_up :: "browser_state \<Rightarrow> browser_state" where "browser_up = move up_from"
definition browser_down :: "browser_state \<Rightarrow> browser_state" where "browser_down = move down_from"

definition browser_current :: "browser_state \<Rightarrow> source_row option" where
  "browser_current s = (if br_selected s < length (br_rows s) then Some (br_rows s ! br_selected s) else None)"

datatype key_code =
    KUp | KDown | KLeft | KRight | KHome | KEnd | KPageUp | KPageDown | KEnter | KTab | KEsc | KBackspace | KDelete
  | KChar nat | KOther

datatype browser_action = Commit | ContributeRow | CloseBrowser | Consumed | Passthrough

definition browser_key :: "browser_state \<Rightarrow> key_code \<Rightarrow> browser_state \<times> browser_action" where
  "browser_key s k =
     (if k = KUp \<or> k = KChar 0x6B then (browser_up s, Consumed)
      else if k = KDown \<or> k = KChar 0x6A then (browser_down s, Consumed)
      else if k = KEnter then (s, Commit)
      else if k = KChar 0x63 then (s, ContributeRow)
      else if k = KEsc \<or> k = KChar 0x71 then (s, CloseBrowser)
      else (s, Passthrough))"

section \<open>Moving\<close>

lemma seek_Some:
  "seek nxt ok n i = Some j \<longleftrightarrow> (\<exists>k < n. j = (nxt ^^ Suc k) i \<and> ok j \<and> (\<forall>m < k. \<not> ok ((nxt ^^ Suc m) i)))"
proof (induction n arbitrary: i)
  case (Suc n)
  show ?case
  proof (cases "ok (nxt i)")
    case True
    then show ?thesis by (auto intro: exI [of _ 0]) (metis funpow_0 funpow_swap1 funpow.simps(2) comp_apply gr0I)+
  next
    case False
    have "(\<exists>k < Suc n. j = (nxt ^^ Suc k) i \<and> ok j \<and> (\<forall>m < k. \<not> ok ((nxt ^^ Suc m) i))) \<longleftrightarrow>
      (\<exists>k < n. j = (nxt ^^ Suc k) (nxt i) \<and> ok j \<and> (\<forall>m < k. \<not> ok ((nxt ^^ Suc m) (nxt i))))" (is "?L \<longleftrightarrow> ?R")
    proof
      assume ?L
      then obtain k where k: "k < Suc n" "j = (nxt ^^ Suc k) i" "ok j" "\<forall>m < k. \<not> ok ((nxt ^^ Suc m) i)" by blast
      then obtain k' where "k = Suc k'" using False by (cases k) auto
      with k show ?R by (auto simp: funpow_swap1 intro!: exI [of _ k'])
    next
      assume ?R
      then obtain k where k: "k < n" "j = (nxt ^^ Suc k) (nxt i)" "ok j" "\<forall>m < k. \<not> ok ((nxt ^^ Suc m) (nxt i))" by blast
      have "\<not> ok ((nxt ^^ Suc m) i)" if "m < Suc k" for m
        using that False k(4) by (cases m) (auto simp: funpow_swap1)
      with k show ?L by (intro exI [of _ "Suc k"]) (simp add: funpow_swap1)
    qed
    then show ?thesis using False Suc.IH by simp
  qed
qed simp

text \<open>A step that is undone by another one on a range it does not leave: so is the search.\<close>

lemma funpow_back:
  assumes "\<And>x. x < n \<Longrightarrow> nxt x < n \<and> prv (nxt x) = x" "i < (n :: nat)" "m \<le> k"
  shows "(prv ^^ m) ((nxt ^^ k) i) = (nxt ^^ (k - m)) i"
  using assms(3)
proof (induction m)
  case (Suc m)
  have lt: "(nxt ^^ j) i < n" for j by (induction j) (use assms(1,2) in auto)
  have "k - m = Suc (k - Suc m)" using Suc.prems by simp
  then show ?case using Suc assms(1) [OF lt [of "k - Suc m"]] by simp
qed simp

lemma seek_back:
  assumes "\<And>x. x < n \<Longrightarrow> nxt x < n \<and> prv (nxt x) = x" "i < n" "ok i" "seek nxt ok n i = Some j"
  shows "seek prv ok n j = Some i"
proof -
  obtain k where k: "k < n" "j = (nxt ^^ Suc k) i" "\<forall>m < k. \<not> ok ((nxt ^^ Suc m) i)"
    using assms(4) unfolding seek_Some by blast
  have bk: "(prv ^^ m) j = (nxt ^^ (Suc k - m)) i" if "m \<le> Suc k" for m
    unfolding k(2) by (rule funpow_back [OF assms(1,2) that])
  have "\<not> ok ((prv ^^ Suc m) j)" if "m < k" for m
  proof -
    have "Suc k - Suc m = Suc (k - m - 1)" using that by simp
    then have "(prv ^^ Suc m) j = (nxt ^^ Suc (k - m - 1)) i" using bk [of "Suc m"] that by (simp only: Suc_le_eq)
    then show ?thesis using k(3) that by simp
  qed
  moreover have "(prv ^^ Suc k) j = i" using bk [of "Suc k"] by simp
  ultimately show ?thesis using k(1) assms(3) unfolding seek_Some by (intro exI [of _ k]) simp
qed

lemma up_down_from: "i < n \<Longrightarrow> down_from n i < n \<and> up_from n (down_from n i) = i"
  by (cases "i + 1 = n") (auto simp: down_from_def up_from_def)

lemma down_up_from: "i < n \<Longrightarrow> up_from n i < n \<and> down_from n (up_from n i) = i"
  by (auto simp: down_from_def up_from_def)

lemma seek_in_range:
  "(\<And>x. x < n \<Longrightarrow> nxt x < n) \<Longrightarrow> i < (n :: nat) \<Longrightarrow> seek nxt ok k i = Some j \<Longrightarrow> j < n \<and> ok j"
  by (induction k arbitrary: i) (auto split: if_splits)

definition browser_ok :: "browser_state \<Rightarrow> bool" where
  "browser_ok s \<longleftrightarrow> br_rows s = [] \<and> br_selected s = 0 \<or> br_selected s < length (br_rows s)"

lemma move_ok:
  assumes "browser_ok s" "\<And>x n. x < n \<Longrightarrow> dir n x < n"
  shows "browser_ok (move dir s) \<and> br_rows (move dir s) = br_rows s \<and>
    (br_selected (move dir s) = br_selected s \<or> selectable (br_rows s) (br_selected (move dir s)))"
proof (cases "seek (dir (length (br_rows s))) (selectable (br_rows s)) (length (br_rows s)) (br_selected s)")
  case (Some i)
  have "br_selected s < length (br_rows s)" using assms(1) Some by (auto simp: browser_ok_def)
  then have "i < length (br_rows s) \<and> selectable (br_rows s) i" using seek_in_range [OF assms(2) _ Some] by blast
  then show ?thesis using Some by (simp add: move_def browser_ok_def)
qed (use assms(1) in \<open>simp add: move_def\<close>)

lemma browser_new_ok: "browser_ok (browser_new rows)"
  by (auto simp: browser_new_def browser_ok_def find_Some_iff split: option.splits)

lemma browser_key_ok: "browser_ok s \<Longrightarrow> browser_ok (fst (browser_key s k))"
  using move_ok [of s up_from] move_ok [of s down_from] up_down_from down_up_from
  by (auto simp: browser_key_def browser_up_def browser_down_def)

text \<open>From a row that can be selected the search always ends, at worst where it began.\<close>

lemma seek_None: "seek nxt ok n i = None \<Longrightarrow> k < n \<Longrightarrow> \<not> ok ((nxt ^^ Suc k) i)"
proof (induction n arbitrary: i k)
  case (Suc n)
  then show ?case by (cases k) (auto simp: funpow_swap1 split: if_splits)
qed simp

lemma down_many: "i < n \<Longrightarrow> (down_from n ^^ k) i = (i + k) mod n"
  by (induction k) (simp_all add: down_from_def mod_Suc_eq)

lemma up_many: "i < n \<Longrightarrow> (up_from n ^^ n) i = i"
  using funpow_back [of n "down_from n" "up_from n" i n n] up_down_from down_many [of i n n] by simp

definition undoes :: "(nat \<Rightarrow> nat \<Rightarrow> nat) \<Rightarrow> (nat \<Rightarrow> nat \<Rightarrow> nat) \<Rightarrow> bool" where
  "undoes prv nxt \<longleftrightarrow> (\<forall>n x. x < n \<longrightarrow> nxt n x < n \<and> prv n (nxt n x) = x \<and> (nxt n ^^ n) x = x)"

lemma undoes_dirs: "undoes up_from down_from" "undoes down_from up_from"
  using up_down_from down_up_from up_many down_many by (simp_all add: undoes_def)

lemma move_back:
  assumes "undoes prv nxt" "br_selected s < length (br_rows s)" "selectable (br_rows s) (br_selected s)"
  shows "move prv (move nxt s) = s"
proof -
  let ?n = "length (br_rows s)" and ?ok = "selectable (br_rows s)" and ?i = "br_selected s"
  have inv: "nxt ?n x < ?n \<and> prv ?n (nxt ?n x) = x" if "x < ?n" for x using assms(1) that by (simp add: undoes_def)
  have "Suc (?n - 1) = ?n" using assms(2) by linarith
  then have "(nxt ?n ^^ Suc (?n - 1)) ?i = ?i" using assms(1,2) by (simp only: undoes_def)
  moreover have "?n - 1 < ?n" using assms(2) by linarith
  ultimately obtain j where j: "seek (nxt ?n) ?ok ?n ?i = Some j"
    using seek_None [of "nxt ?n" ?ok ?n ?i "?n - 1"] assms(3) by (cases "seek (nxt ?n) ?ok ?n ?i") auto
  have "seek (prv ?n) ?ok ?n j = Some ?i" by (rule seek_back [where nxt = "nxt ?n", OF inv assms(2,3) j])
  then show ?thesis using j by (simp add: move_def)
qed

text \<open>
  Moving the selection: whatever key is pressed it stays on a row of the list, the rows do not
  change, and it only moves to a row that can be run or contributed to; and from such a row, Up undoes
  Down and Down undoes Up, skipping the same rows.
\<close>

theorem selection_moves:
  assumes "browser_ok s"
  shows "browser_ok (fst (browser_key s k)) \<and> br_rows (fst (browser_key s k)) = br_rows s \<and>
    (br_selected (fst (browser_key s k)) = br_selected s \<or> selectable (br_rows s) (br_selected (fst (browser_key s k)))) \<and>
    (br_rows s = [] \<or> \<not> selectable (br_rows s) (br_selected s) \<or> browser_up (browser_down s) = s \<and> browser_down (browser_up s) = s)"
proof -
  have "browser_up (browser_down s) = s \<and> browser_down (browser_up s) = s" if "br_rows s \<noteq> []" "selectable (br_rows s) (br_selected s)"
    using that assms move_back [OF undoes_dirs(1), of s] move_back [OF undoes_dirs(2), of s]
    by (auto simp: browser_up_def browser_down_def browser_ok_def)
  moreover have "br_rows (fst (browser_key s k)) = br_rows s \<and>
    (br_selected (fst (browser_key s k)) = br_selected s \<or> selectable (br_rows s) (br_selected (fst (browser_key s k))))"
    using move_ok [OF assms, of up_from] move_ok [OF assms, of down_from] up_down_from down_up_from
    by (auto simp: browser_key_def browser_up_def browser_down_def)
  ultimately show ?thesis using browser_key_ok [OF assms] by blast
qed

definition demo_row :: "bool \<Rightarrow> bool \<Rightarrow> source_row" where
  "demo_row en con = \<lparr>row_model = [], row_tag = ''hub'', row_detail = [], row_kind = RowLocal [], row_enabled = en, row_contribute_ok = con\<rparr>"

definition demo_browser :: browser_state where
  "demo_browser = \<lparr>br_rows = [demo_row True False, demo_row False False, demo_row False True], br_selected = 0\<rparr>"

lemma demo_moves: "browser_ok demo_browser" "selectable (br_rows demo_browser) (br_selected demo_browser)"
  "br_selected (browser_down demo_browser) = 2"
  by code_simp+

lemma selection_moves_witness:
  "br_selected (browser_down demo_browser) = 2 \<and> browser_up (browser_down demo_browser) = demo_browser"
  using selection_moves [OF demo_moves(1), of KDown] demo_moves by (simp add: demo_browser_def)

section \<open>What is listed\<close>

lemma filter_all: "length (filter P xs) = length xs \<longleftrightarrow> list_all P xs"
proof (induction xs)
  case (Cons x xs)
  have "length (filter P xs) \<noteq> Suc (length xs)" using length_filter_le [of P xs] by linarith
  with Cons show ?case by auto
qed simp

lemma fully_served_count:
  "fully_served m \<longleftrightarrow> 0 < length (sm_ranges m) \<and>
     length (filter (\<lambda>r. rc_providers r \<noteq> []) (sm_ranges m)) = length (sm_ranges m)"
  by (simp add: fully_served_def filter_all)

text \<open>Thirteen tenths of the minimum are no overflow for the entries of the table.\<close>

lemma fit_of_ok:
  assumes "unat need * 13 < 2 ^ 64"
  shows "fit_of free need \<noteq> TooBig \<longleftrightarrow> need \<le> free"
proof -
  have "unat (sat_mul need 13 div 10) = unat need * 13 div 10"
    using assms by (simp add: sat_mul_def unat_div unat_word_ariths)
  then have "need \<le> sat_mul need 13 div 10" by (simp add: word_le_nat_alt)
  then show ?thesis by (auto simp: fit_of_def intro: order_trans)
qed

lemma catalog_fits:
  assumes "e \<in> set CATALOG"
  shows "catalog_fit e free \<noteq> TooBig \<longleftrightarrow> ram_bytes_min e \<le> free"
proof -
  have "list_all (\<lambda>e. unat (ram_bytes_min e) * 13 < 2 ^ 64) CATALOG" by (simp add: CATALOG_def GB_def MB_def)
  then show ?thesis using assms fit_of_ok by (simp add: catalog_fit_def list_all_iff)
qed

lemma rows_listed:
  assumes "r \<in> set (build_rows cid_of locals swarm free)"
  shows "case row_kind r of
      RowLocal p \<Rightarrow> (\<exists>m. m \<in> set locals \<and> is_usable m \<and> lm_path m = p \<and> row_enabled r)
    | RowSwarm cid peers tot cov fully \<Rightarrow> cid \<notin> cid_of ` set CATALOG \<and> row_enabled r = (0 < tot \<and> cov = tot) \<and> cov \<le> tot \<and>
        (\<exists>m. m \<in> set swarm \<and> sm_cid m = cid \<and> row_enabled r = fully_served m \<and> peers = unique_providers m)
    | RowInstall e f peers \<Rightarrow> e \<in> set CATALOG \<and> gguf_stem e \<notin> lm_name ` set locals \<and> row_enabled r = (ram_bytes_min e \<le> free)"
proof (cases "r \<in> local_row ` set locals \<or> r \<in> swarm_row ` set swarm")
  case True
  then show ?thesis using assms
    by (auto simp: build_rows_def local_row_def swarm_row_def hub_row_def Let_def fully_served_count)
next
  case False
  then obtain e where "r = hub_row cid_of swarm free e" "e \<in> set CATALOG" "gguf_stem e \<notin> lm_name ` set locals"
    using assms by (auto simp: build_rows_def)
  then show ?thesis using catalog_fits by (simp add: hub_row_def Let_def)
qed

text \<open>
  The rows of the picker: a local row is a usable model on disk; a swarm row is a model the swarm
  serves and the catalog does not have, and can be joined exactly when every one of its slices has a
  provider; a catalog row is an entry with no model file of its name on disk, and can be installed
  exactly when the free memory reaches its minimum.
\<close>

theorem picker_rows:
  assumes "r \<in> set (build_rows cid_of locals swarm free)"
  shows "case row_kind r of
      RowLocal p \<Rightarrow> (\<exists>m. m \<in> set locals \<and> is_usable m \<and> lm_path m = p \<and> row_enabled r)
    | RowSwarm cid peers tot cov fully \<Rightarrow> cid \<notin> cid_of ` set CATALOG \<and> row_enabled r = (0 < tot \<and> cov = tot) \<and> cov \<le> tot \<and>
        (\<exists>m. m \<in> set swarm \<and> sm_cid m = cid \<and> row_enabled r = fully_served m \<and> peers = unique_providers m)
    | RowInstall e f peers \<Rightarrow> e \<in> set CATALOG \<and> gguf_stem e \<notin> lm_name ` set locals \<and> row_enabled r = (ram_bytes_min e \<le> free)"
  by (rule rows_listed [OF assms])

lemma picker_rows_witness:
  "\<exists>f n. row_kind (hub_row (\<lambda>_. []) [] 0 (hd CATALOG)) = RowInstall (hd CATALOG) f n \<and>
    \<not> row_enabled (hub_row (\<lambda>_. []) [] 0 (hd CATALOG))"
proof -
  have "hub_row (\<lambda>_. []) [] 0 (hd CATALOG) \<in> set (build_rows (\<lambda>_. []) [] [] 0)" by (simp add: build_rows_def CATALOG_def)
  from picker_rows [OF this] show ?thesis by (simp add: hub_row_def Let_def CATALOG_def MB_def)
qed

text \<open>
  An entry whose model file is on disk but cannot be used (its tokenizer is missing) has no row at all:
  the local rows leave it out because it is not usable, the catalog rows because it is there.
\<close>

lemma unusable_cached_hidden:
  assumes "m \<in> set locals" "lm_name m = gguf_stem e" "\<not> is_usable m" "distinct (map lm_path locals)"
    and "r \<in> set (build_rows cid_of locals swarm free)"
  shows "row_kind r \<noteq> RowInstall e f n \<and> row_kind r \<noteq> RowLocal (lm_path m)"
proof -
  have "m' = m" if "m' \<in> set locals" "lm_path m' = lm_path m" for m'
    using that assms(1,4) by (metis distinct_map inj_onD)
  moreover have "gguf_stem e \<in> lm_name ` set locals" using assms(1) unfolding assms(2) [symmetric] by (rule imageI)
  ultimately show ?thesis using rows_listed [OF assms(5)] assms(3) by (auto split: row_kind.splits)
qed

end
