(* ===== verification/Ggml_Host.thy ===== *)
theory Ggml_Host
  imports Render "HOL-Library.Sublist"
begin

text \<open>
  The hardware below the native library: the probe of backends and GPUs (\<open>crates/ggml/src/probe.rs\<close>, reported by
  \<open>crates/runtime/src/probe.rs\<close>). What the operating system answers (which files exist, what a command prints,
  whether a library opens) is a parameter.
\<close>

section \<open>Lines\<close>

text \<open>\<open>str::lines\<close>: a carriage return goes with the line feed after it, and an empty last piece is no line.\<close>

definition strip_cr :: "string \<Rightarrow> string" where
  "strip_cr l = (if ends_with l [CHR 0x0D] then butlast l else l)"

definition str_lines :: "string \<Rightarrow> string list" where
  "str_lines s =
     (let parts = split_char (CHR 0x0A) s
      in map strip_cr (butlast parts) @ (if last parts = [] then [] else [last parts]))"

section \<open>Backends\<close>

datatype platform = Linux | MacOS | Windows | OtherOS

datatype backend_status = Available | Missing string "string option" | NotApplicable

record backend_check =
  bc_tag :: string
  bc_status :: backend_status

record detected_gpu =
  dg_vendor :: string
  dg_detail :: string

record ggml_probe =
  gp_gpus :: "detected_gpu list"
  gp_backends :: "backend_check list"
  gp_preferred :: "string list"

text \<open>
  The host: \<open>hw_run\<close> is the output of a command that ran and exited with 0; \<open>hw_drm\<close> are the entries of
  \<open>/sys/class/drm\<close>, where it can be read, each with what its \<open>device/vendor\<close> says.
\<close>

record hardware =
  hw_os :: platform
  hw_exists :: "string \<Rightarrow> bool"
  hw_run :: "string \<Rightarrow> string list \<Rightarrow> bytes option"
  hw_drm :: "(string \<times> string option) list option"

definition is_available :: "backend_status \<Rightarrow> bool" where
  "is_available s \<longleftrightarrow> s = Available"

definition find_first :: "hardware \<Rightarrow> string list \<Rightarrow> string option" where
  "find_first W ps = List.find (hw_exists W) ps"

definition run_cmd :: "hardware \<Rightarrow> string \<Rightarrow> string list \<Rightarrow> string option" where
  "run_cmd W program args =
     (case hw_run W program args of
        None \<Rightarrow> None
      | Some out \<Rightarrow> if utf8_valid out then Some (bytes_str out) else None)"

definition install_hint_cuda :: string where
  "install_hint_cuda = ''install the NVIDIA proprietary driver for your distro '' @
     ''(Ubuntu: `sudo apt install nvidia-driver-<latest>`, Fedora: follow the rpmfusion guide)''"

definition install_hint_rocm :: string where
  "install_hint_rocm = ''install the ROCm runtime for your distro '' @
     ''(Fedora: `sudo dnf install rocm-hip rocm-runtime hipblas rocblas`, '' @
     ''Ubuntu: follow https://rocm.docs.amd.com/projects/install-on-linux)''"

definition install_hint_vulkan :: string where
  "install_hint_vulkan = ''install your GPU driver'' @ [CHR 0x27] @ ''s Vulkan loader '' @
     ''(Ubuntu: `sudo apt install libvulkan1`, Fedora: `sudo dnf install vulkan-loader`, Arch: `sudo pacman -S vulkan-icd-loader`)''"

definition check_cuda :: "hardware \<Rightarrow> backend_check" where
  "check_cuda W =
     \<lparr>bc_tag = ''cuda'', bc_status =
       (if hw_os W \<noteq> Linux \<and> hw_os W \<noteq> Windows then NotApplicable
        else case find_first W [''/usr/lib/x86_64-linux-gnu/libcuda.so.1'', ''/usr/lib64/libcuda.so.1'', ''/usr/lib/libcuda.so.1''] of
          Some _ \<Rightarrow> Available
        | None \<Rightarrow> Missing ''libcuda.so.1 not found (install the NVIDIA driver)'' (Some install_hint_cuda))\<rparr>"

definition check_rocm :: "hardware \<Rightarrow> backend_check" where
  "check_rocm W =
     \<lparr>bc_tag = ''rocm'', bc_status =
       (if hw_os W \<noteq> Linux then NotApplicable
        else
          let hsa = find_first W [''/usr/lib64/libhsa-runtime64.so.1'', ''/usr/lib/x86_64-linux-gnu/libhsa-runtime64.so.1'',
                ''/opt/rocm/lib/libhsa-runtime64.so.1''];
              hip = find_first W [''/usr/lib64/libamdhip64.so.6'', ''/usr/lib64/libamdhip64.so.5'',
                ''/usr/lib/x86_64-linux-gnu/libamdhip64.so'', ''/opt/rocm/lib/libamdhip64.so'']
          in if hsa = None then Missing ''libhsa-runtime64.so.1 not found (ROCm runtime missing)'' (Some install_hint_rocm)
             else if hip = None then Missing ''libamdhip64.so not found (HIP runtime missing)'' (Some install_hint_rocm)
             else Available)\<rparr>"

definition check_vulkan :: "hardware \<Rightarrow> backend_check" where
  "check_vulkan W =
     \<lparr>bc_tag = ''vulkan'', bc_status =
       (case find_first W [''/usr/lib/x86_64-linux-gnu/libvulkan.so.1'', ''/usr/lib64/libvulkan.so.1'', ''/usr/lib/libvulkan.so.1'',
              ''/usr/local/lib/libvulkan.1.dylib'', ''/opt/homebrew/lib/libvulkan.1.dylib''] of
          Some _ \<Rightarrow> Available
        | None \<Rightarrow> Missing ''libvulkan.so.1 not found'' (Some install_hint_vulkan))\<rparr>"

definition check_metal :: "hardware \<Rightarrow> backend_check" where
  "check_metal W = \<lparr>bc_tag = ''metal'', bc_status = (if hw_os W = MacOS then Available else NotApplicable)\<rparr>"

definition check_cpu :: backend_check where
  "check_cpu = \<lparr>bc_tag = ''cpu'', bc_status = Available\<rparr>"

section \<open>GPUs\<close>

definition nvidia_gpus :: "string \<Rightarrow> detected_gpu list" where
  "nvidia_gpus out =
     map (\<lambda>l. \<lparr>dg_vendor = ''NVIDIA'', dg_detail = l\<rparr>) (filter (\<lambda>l. l \<noteq> []) (map trim (str_lines out)))"

text \<open>
  The agents of \<open>rocminfo\<close>: the name seen last is kept until the device type that follows says whether its
  agent is a GPU.
\<close>

fun rocm_agents :: "string list \<Rightarrow> string option \<Rightarrow> detected_gpu list" where
  "rocm_agents [] pending = []"
| "rocm_agents (l # ls) pending =
     (let line = trim l
      in case strip_prefix line ''Marketing Name:'' of
           Some rest \<Rightarrow> rocm_agents ls (Some (trim rest))
         | None \<Rightarrow>
             (case strip_prefix line ''Device Type:'' of
                None \<Rightarrow> rocm_agents ls pending
              | Some kind \<Rightarrow>
                  if eq_ignore_ascii_case (trim kind) ''GPU'' then
                    (case pending of
                       Some name \<Rightarrow>
                         (if name = [] then [] else [\<lparr>dg_vendor = ''AMD'', dg_detail = name\<rparr>]) @ rocm_agents ls None
                     | None \<Rightarrow> rocm_agents ls None)
                  else rocm_agents ls None))"

definition drm_gpus :: "hardware \<Rightarrow> string \<Rightarrow> string \<Rightarrow> string \<Rightarrow> detected_gpu list" where
  "drm_gpus W vid vendor driver =
     (if hw_os W \<noteq> Linux then []
      else case hw_drm W of
        None \<Rightarrow> []
      | Some entries \<Rightarrow>
          List.map_filter (\<lambda>(name, v). case v of
              Some t \<Rightarrow> if trim t = vid then Some \<lparr>dg_vendor = vendor, dg_detail = name @ driver\<rparr> else None
            | None \<Rightarrow> None) entries)"

definition detect_gpus :: "hardware \<Rightarrow> detected_gpu list" where
  "detect_gpus W =
     (let nvidia = (case run_cmd W ''nvidia-smi'' [''--query-gpu=name,driver_version'', ''--format=csv,noheader''] of
            Some out \<Rightarrow> nvidia_gpus out | None \<Rightarrow> []);
          amd = (case run_cmd W ''rocminfo'' [] of Some out \<Rightarrow> rocm_agents (str_lines out) None | None \<Rightarrow> []);
          amd_drm = (if amd = [] then drm_gpus W ''0x1002'' ''AMD'' '' (amdgpu)'' else [])
      in nvidia @ amd @ amd_drm @ drm_gpus W ''0x8086'' ''Intel'' '' (i915)'')"

section \<open>The probe\<close>

definition RANK :: "string list" where
  "RANK = [''cuda'', ''rocm'', ''metal'', ''vulkan'', ''cpu'']"

definition tag_available :: "backend_check list \<Rightarrow> string \<Rightarrow> bool" where
  "tag_available bs tag = (case List.find (\<lambda>b. bc_tag b = tag) bs of Some b \<Rightarrow> is_available (bc_status b) | None \<Rightarrow> False)"

definition probe_collect :: "hardware \<Rightarrow> ggml_probe" where
  "probe_collect W =
     (let backends = [check_cuda W, check_rocm W, check_vulkan W, check_metal W, check_cpu]
      in \<lparr>gp_gpus = detect_gpus W, gp_backends = backends, gp_preferred = filter (tag_available backends) RANK\<rparr>)"

definition recommended :: "ggml_probe \<Rightarrow> string" where
  "recommended p = (case gp_preferred p of t # _ \<Rightarrow> t | [] \<Rightarrow> ''cpu'')"

definition esc :: "string \<Rightarrow> string" where
  "esc n = CHR 0x1B # CHR 0x5B # n @ [CHR 0x6D]"

definition cross_mark :: string where "cross_mark = [CHR 0xE2, CHR 0x9C, CHR 0x97]"

definition show_backend :: "backend_check \<Rightarrow> string list" where
  "show_backend b =
     (let tag = pad_right 8 (bc_tag b)
      in case bc_status b of
           Available \<Rightarrow> [''  '' @ esc ''32'' @ check_mark @ esc ''0'' @ '' '' @ tag @ '' runtime libs present'']
         | Missing reason hint \<Rightarrow>
             (''  '' @ esc ''33'' @ cross_mark @ esc ''0'' @ '' '' @ tag @ '' '' @ reason) #
             (case hint of Some h \<Rightarrow> [''              hint: '' @ h] | None \<Rightarrow> [])
         | NotApplicable \<Rightarrow> [''  '' @ esc ''90'' @ middle_dot @ esc ''0'' @ '' '' @ tag @ '' n/a on this platform''])"

definition show_probe :: "ggml_probe \<Rightarrow> string list" where
  "show_probe p =
     ''GPUs:'' #
     (if gp_gpus p = [] then [''  (none detected)'']
      else map (\<lambda>g. ''  '' @ dg_vendor g @ '' '' @ middle_dot @ '' '' @ dg_detail g) (gp_gpus p)) @
     ''libllama backends:'' # concat (map show_backend (gp_backends p)) @
     [''preferred order: '' @ sep_by ('' '' @ arrow @ '' '') (gp_preferred p)]"

section \<open>The report of the runtime\<close>

record run_probe =
  rp_available :: "string list"
  rp_recommended :: string
  rp_cores :: nat
  rp_brand :: string
  rp_total :: u64
  rp_free :: u64
  rp_summary :: string

definition human_size :: "u64 \<Rightarrow> string" where
  "human_size bytes =
     (if GB \<le> bytes then tenths (as_f64 bytes) (unat GB) @ '' GiB''
      else if MB \<le> bytes then tenths (as_f64 bytes) (unat MB) @ '' MiB''
      else if KB \<le> bytes then tenths (as_f64 bytes) (unat KB) @ '' KiB''
      else dec_digits (unat bytes) @ '' B'')"

definition run_probe_collect :: "hardware \<Rightarrow> string list \<Rightarrow> u64 \<Rightarrow> u64 \<Rightarrow> run_probe" where
  "run_probe_collect W brands total_mem free_mem =
     (let gg = probe_collect W
      in \<lparr>rp_available = gp_preferred gg, rp_recommended = recommended gg, rp_cores = length brands,
          rp_brand = (case brands of b # _ \<Rightarrow> b | [] \<Rightarrow> []), rp_total = total_mem, rp_free = free_mem,
          rp_summary = recommended gg @ '' '' @ middle_dot @ '' '' @ dec_digits (length brands) @ '' cores '' @ middle_dot @ '' '' @
            human_size total_mem @ '' RAM ('' @ human_size free_mem @ '' free)''\<rparr>)"

definition max_model_bytes :: "run_probe \<Rightarrow> u64" where
  "max_model_bytes p = sat_mul (rp_free p) 4 div 5"

definition show_run_probe :: "run_probe \<Rightarrow> string list" where
  "show_run_probe p =
     [''backend:   '' @ rp_recommended p,
      ''  available: '' @ sep_by '', '' (rp_available p),
      ''cpu:       '' @ dec_digits (rp_cores p) @ '' '' @ [CHR 0xC3, CHR 0x97] @ '' '' @ rp_brand p,
      ''memory:    '' @ human_size (rp_total p) @ '' total / '' @ human_size (rp_free p) @ '' available'',
      ''max model: ~'' @ human_size (max_model_bytes p) @ '' (80% of available RAM)'']"


section \<open>The order of the backends\<close>

lemma check_tags [simp]:
  "bc_tag (check_cuda W) = ''cuda''" "bc_tag (check_rocm W) = ''rocm''" "bc_tag (check_vulkan W) = ''vulkan''"
  "bc_tag (check_metal W) = ''metal''" "bc_tag check_cpu = ''cpu''" "bc_status check_cpu = Available"
  by (simp_all only: check_cuda_def check_rocm_def check_vulkan_def check_metal_def check_cpu_def backend_check.simps)

lemma probe_backends: "gp_backends (probe_collect W) = [check_cuda W, check_rocm W, check_vulkan W, check_metal W, check_cpu]"
  by (simp add: probe_collect_def Let_def)

lemma probe_statuses:
  "tag_available (gp_backends (probe_collect W)) ''cuda'' \<longleftrightarrow> bc_status (check_cuda W) = Available"
  "tag_available (gp_backends (probe_collect W)) ''rocm'' \<longleftrightarrow> bc_status (check_rocm W) = Available"
  "tag_available (gp_backends (probe_collect W)) ''vulkan'' \<longleftrightarrow> bc_status (check_vulkan W) = Available"
  "tag_available (gp_backends (probe_collect W)) ''metal'' \<longleftrightarrow> bc_status (check_metal W) = Available"
  "tag_available (gp_backends (probe_collect W)) ''cpu''"
  by (simp_all add: tag_available_def probe_backends is_available_def)

lemma preferred_split:
  "gp_preferred (probe_collect W) =
    filter (tag_available (gp_backends (probe_collect W))) [''cuda'', ''rocm'', ''metal'', ''vulkan''] @ [''cpu'']"
proof -
  have "gp_preferred (probe_collect W) = filter (tag_available (gp_backends (probe_collect W))) ([''cuda'', ''rocm'', ''metal'', ''vulkan''] @ [''cpu''])"
    by (simp add: probe_collect_def Let_def RANK_def)
  also have "\<dots> = filter (tag_available (gp_backends (probe_collect W))) [''cuda'', ''rocm'', ''metal'', ''vulkan''] @ [''cpu'']"
    unfolding filter_append by (simp only: filter.simps probe_statuses(5) if_True)
  finally show ?thesis .
qed

text \<open>
  The backends to try are those whose libraries are there, each once, in the order of specialisation; the last is
  always the CPU, so there is always one to recommend: the first.
\<close>

theorem preferred_backends:
  "set (gp_preferred (probe_collect W)) = bc_tag ` {b \<in> set (gp_backends (probe_collect W)). bc_status b = Available} \<and>
   subseq (gp_preferred (probe_collect W)) [''cuda'', ''rocm'', ''metal'', ''vulkan'', ''cpu''] \<and>
   last (gp_preferred (probe_collect W)) = ''cpu'' \<and> recommended (probe_collect W) = hd (gp_preferred (probe_collect W))"
proof -
  let ?p = "probe_collect W"
  have 1: "set (gp_preferred ?p) = bc_tag ` {b \<in> set (gp_backends ?p). bc_status b = Available}"
  proof -
    have "bc_tag ` {b \<in> set (gp_backends ?p). bc_status b = Available} =
        set (map bc_tag (filter (\<lambda>b. bc_status b = Available) (gp_backends ?p)))" by auto
    then show ?thesis by (simp only: preferred_split filter.simps probe_statuses) (simp add: probe_backends insert_commute)
  qed
  have "subseq (gp_preferred ?p) ([''cuda'', ''rocm'', ''metal'', ''vulkan''] @ [''cpu''])"
    unfolding preferred_split by (intro list_emb_append_mono subseq_filter_left subseq_order.order_refl)
  then have 2: "subseq (gp_preferred ?p) [''cuda'', ''rocm'', ''metal'', ''vulkan'', ''cpu'']" by simp
  have 3: "last (gp_preferred ?p) = ''cpu''" "gp_preferred ?p \<noteq> []" unfolding preferred_split by (simp_all only: last_snoc) simp
  then have "recommended ?p = hd (gp_preferred ?p)" by (cases "gp_preferred ?p") (simp_all add: recommended_def)
  with 1 2 3 show ?thesis by blast
qed

section \<open>Reading rocminfo\<close>

definition trimmed :: "string \<Rightarrow> bool" where
  "trimmed s \<longleftrightarrow> s \<noteq> [] \<and> white_head s = 0 \<and> white_tail s = 0"

lemma white_plain_first: "\<not> code c \<le> 0x20 \<Longrightarrow> code c < 0x80 \<Longrightarrow> \<not> white_char (c # cs)"
  by (auto simp: white_char_def split: list.splits)

lemma white_long: "code c < 0x80 \<Longrightarrow> cs \<noteq> [] \<Longrightarrow> \<not> white_char (c # cs)"
  by (auto simp: white_char_def split: list.splits)

lemma white_head_none: "(\<And>n. n \<in> {1, 2, 3} \<Longrightarrow> n \<le> length s \<Longrightarrow> \<not> white_char (take n s)) \<Longrightarrow> white_head s = 0"
  by (simp add: white_head_def)

lemma white_tail_none: "(\<And>n. n \<in> {1, 2, 3} \<Longrightarrow> n \<le> length s \<Longrightarrow> \<not> white_char (last_n n s)) \<Longrightarrow> white_tail s = 0"
  by (simp add: white_tail_def)

lemma white_tail_zero: "white_tail s = 0 \<Longrightarrow> n \<in> {1, 2, 3} \<Longrightarrow> n \<le> length s \<Longrightarrow> \<not> white_char (last_n n s)"
  by (auto simp: white_tail_def split: if_splits)

text \<open>Blanks and ASCII text before a trimmed text.\<close>

lemma trim_start_blanks: "white_head s = 0 \<Longrightarrow> trim_start (replicate n CHR '' '' @ s) = s"
proof (induction n)
  case (Suc n)
  have w: "white_head (replicate (Suc n) CHR '' '' @ s) = 1" by (simp add: white_head_def white_char_def code_def)
  have "trim_start (replicate (Suc n) CHR '' '' @ s) = trim_start (replicate n CHR '' '' @ s)"
    using w by (subst trim_start.simps) simp
  with Suc show ?case by simp
qed (simp add: trim_start.simps)

lemma trim_blanks: "trimmed s \<Longrightarrow> trim (replicate n CHR '' '' @ s) = s"
  by (simp add: trim_def trimmed_def trim_start_blanks trim_end.simps)

lemma trimmed_append:
  assumes "\<forall>c \<in> set (p @ [x]). code c < 0x80" "trimmed s" "\<not> code (hd (p @ [x])) \<le> 0x20"
  shows "trimmed (p @ x # s)"
proof -
  let ?l = "p @ x # s"
  have h: "hd ?l = hd (p @ [x])" "?l \<noteq> []" by (cases p; simp)+
  then obtain t where l: "?l = hd (p @ [x]) # t" by (metis list.collapse)
  have c: "code (hd (p @ [x])) < 0x80" using assms(1) hd_in_set [of "p @ [x]"] by blast
  have "white_head ?l = 0"
  proof (rule white_head_none)
    fix n assume "n \<in> {1, 2, 3 :: nat}"
    then obtain m where "n = Suc m" by (auto simp: numeral_eq_Suc)
    then show "\<not> white_char (take n ?l)" unfolding l by (simp add: white_plain_first [OF assms(3) c])
  qed
  moreover have "white_tail ?l = 0"
  proof (rule white_tail_none)
    fix n assume n: "n \<in> {1, 2, 3 :: nat}" "n \<le> length ?l"
    show "\<not> white_char (last_n n ?l)"
    proof (cases "n \<le> length s")
      case True
      then have "last_n n ?l = last_n n s" by (simp add: last_n_def Suc_diff_le)
      then show ?thesis using white_tail_zero [of s n] assms(2) n(1) True by (simp add: trimmed_def)
    next
      case False
      then have k: "last_n n ?l = drop (length (p @ [x]) - (n - length s)) (p @ [x]) @ s" using n(2)
        by (simp add: last_n_def)
      let ?d = "drop (length (p @ [x]) - (n - length s)) (p @ [x])"
      have "?d \<noteq> []" using False n(2) by simp
      then obtain c d where d: "?d = c # d" by (cases ?d) auto
      then have "c \<in> set (p @ [x])" by (metis in_set_dropD list.set_intros(1))
      with assms(1) have "code c < 0x80" by blast
      then show ?thesis unfolding k d using assms(2) by (simp add: white_long trimmed_def)
    qed
  qed
  ultimately show ?thesis using h by (simp add: trimmed_def)
qed


text \<open>
  What \<open>rocminfo\<close> prints of an agent, as far as it matters here: a line with its marketing name, a line with its
  device type, and other lines before, between and after them.
\<close>

definition other_line :: "string \<Rightarrow> bool" where
  "other_line l \<longleftrightarrow> strip_prefix (trim l) ''Marketing Name:'' = None \<and> strip_prefix (trim l) ''Device Type:'' = None"

record agent =
  ag_before :: "string list"
  ag_name :: string
  ag_between :: "string list"
  ag_kind :: string
  ag_after :: "string list"

definition name_line :: "string \<Rightarrow> string" where "name_line n = ''  Marketing Name:         '' @ n"
definition type_line :: "string \<Rightarrow> string" where "type_line k = ''  Device Type:            '' @ k"

definition agent_lines :: "agent \<Rightarrow> string list" where
  "agent_lines a =
     ag_before a @ name_line (ag_name a) # ag_between a @ type_line (ag_kind a) # ag_after a"

definition agent_ok :: "agent \<Rightarrow> bool" where
  "agent_ok a \<longleftrightarrow> trimmed (ag_name a) \<and> trimmed (ag_kind a) \<and> list_all other_line (ag_before a @ ag_between a @ ag_after a)"

lemma rocm_skip: "list_all other_line ls \<Longrightarrow> rocm_agents (ls @ rest) pend = rocm_agents rest pend"
  by (induction ls) (simp_all add: other_line_def Let_def)

lemma strip_other: "strip_prefix (''Device Type:'' @ r) ''Marketing Name:'' = None"
  by (simp add: strip_prefix_def starts_with_def)

lemma strip_append [simp]: "strip_prefix (p @ s) p = Some s"
  by (simp add: strip_prefix_def starts_with_def)

lemma trim_field:
  assumes "trimmed v" "\<forall>c \<in> set key. code c < 0x80" "\<not> code (hd key) \<le> 0x20" "key \<noteq> []"
  shows "trim (replicate 2 CHR '' '' @ key @ replicate (Suc n) CHR '' '' @ v) = key @ replicate (Suc n) CHR '' '' @ v"
proof -
  have "\<forall>c \<in> set ((key @ replicate n CHR '' '') @ [CHR '' '']). code c < 0x80" using assms(2) by (auto simp: code_def)
  moreover have "\<not> code (hd ((key @ replicate n CHR '' '') @ [CHR '' ''])) \<le> 0x20" using assms(3,4) by simp
  ultimately have "trimmed ((key @ replicate n CHR '' '') @ CHR '' '' # v)" using trimmed_append assms(1) by blast
  then have "trimmed (key @ replicate (Suc n) CHR '' '' @ v)" by (simp add: replicate_append_same [symmetric])
  from trim_blanks [OF this, of 2] show ?thesis by simp
qed

lemma agent_fields:
  assumes "trimmed v"
  shows "trim (name_line v) = ''Marketing Name:'' @ replicate 9 CHR '' '' @ v"
    "trim (type_line v) = ''Device Type:'' @ replicate 12 CHR '' '' @ v"
proof -
  have "trim (replicate 2 CHR '' '' @ ''Marketing Name:'' @ replicate (Suc 8) CHR '' '' @ v) = ''Marketing Name:'' @ replicate (Suc 8) CHR '' '' @ v"
    by (rule trim_field [OF assms]) (simp_all add: code_def)
  then show "trim (name_line v) = ''Marketing Name:'' @ replicate 9 CHR '' '' @ v"
    by (simp add: name_line_def numeral_eq_Suc)
  have "trim (replicate 2 CHR '' '' @ ''Device Type:'' @ replicate (Suc 11) CHR '' '' @ v) = ''Device Type:'' @ replicate (Suc 11) CHR '' '' @ v"
    by (rule trim_field [OF assms]) (simp_all add: code_def)
  then show "trim (type_line v) = ''Device Type:'' @ replicate 12 CHR '' '' @ v"
    by (simp add: type_line_def numeral_eq_Suc)
qed

lemma rocm_agent:
  assumes "agent_ok a"
  shows "rocm_agents (agent_lines a @ rest) pend =
    (if eq_ignore_ascii_case (ag_kind a) ''GPU'' then [\<lparr>dg_vendor = ''AMD'', dg_detail = ag_name a\<rparr>] else []) @ rocm_agents rest None"
proof -
  have n: "trimmed (ag_name a)" and k: "trimmed (ag_kind a)"
    and o: "list_all other_line (ag_before a)" "list_all other_line (ag_between a)" "list_all other_line (ag_after a)"
    using assms by (simp_all add: agent_ok_def)
  have name: "rocm_agents (name_line (ag_name a) # ls) p = rocm_agents ls (Some (ag_name a))" for ls p
    by (simp only: rocm_agents.simps Let_def agent_fields(1) [OF n] strip_append option.case trim_blanks [OF n])
  have kind: "rocm_agents (type_line (ag_kind a) # ls) (Some (ag_name a)) =
      (if eq_ignore_ascii_case (ag_kind a) ''GPU'' then [\<lparr>dg_vendor = ''AMD'', dg_detail = ag_name a\<rparr>] else []) @ rocm_agents ls None" for ls
  proof -
    have "ag_name a \<noteq> []" using n by (simp add: trimmed_def)
    then show ?thesis
      by (simp only: rocm_agents.simps Let_def agent_fields(2) [OF k] strip_other strip_append option.case trim_blanks [OF k]
          if_False append_Nil split: if_split) simp
  qed
  show ?thesis
    by (simp only: agent_lines_def append_assoc append_Cons rocm_skip [OF o(1)] rocm_skip [OF o(2)] rocm_skip [OF o(3)] name kind)
qed

text \<open>
  From what \<open>rocminfo\<close> prints of the agents of a machine, CPUs among them, the probe reads exactly the GPUs, each
  under its own marketing name and in order.
\<close>

theorem rocm_gpus_read:
  assumes "list_all agent_ok agents"
  shows "rocm_agents (concat (map agent_lines agents)) None =
    map (\<lambda>a. \<lparr>dg_vendor = ''AMD'', dg_detail = ag_name a\<rparr>) (filter (\<lambda>a. eq_ignore_ascii_case (ag_kind a) ''GPU'') agents)"
  using assms by (induction agents) (simp_all add: rocm_agent del: append_assoc)

definition demo_agents :: "agent list" where
  "demo_agents = [\<lparr>ag_before = [''HSA Agents''], ag_name = ''Ryzen 7'', ag_between = [], ag_kind = ''CPU'', ag_after = []\<rparr>,
     \<lparr>ag_before = [], ag_name = ''Radeon'', ag_between = [''  Vendor Name: AMD''], ag_kind = ''GPU'', ag_after = []\<rparr>]"

lemma rocm_gpus_read_witness:
  "rocm_agents (concat (map agent_lines demo_agents)) None = [\<lparr>dg_vendor = ''AMD'', dg_detail = ''Radeon''\<rparr>]"
proof -
  have "list_all agent_ok demo_agents" by (simp add: demo_agents_def agent_ok_def trimmed_def other_line_def) code_simp
  moreover have "filter (\<lambda>a. eq_ignore_ascii_case (ag_kind a) ''GPU'') demo_agents = tl demo_agents" by code_simp
  ultimately show ?thesis by (simp only: rocm_gpus_read) (simp add: demo_agents_def)
qed

end
