(* ===== verification/Ggml_Loader.thy ===== *)
theory Ggml_Loader
  imports Ggml_Host
begin

text \<open>
  Finding and opening the native library, \<open>crates/ggml/src/loader.rs\<close>, the override for adjacent AMD
  architectures, \<open>crates/app/src/gpu_compat.rs\<close>, and the two helpers of the command \<open>doctor\<close> on the same files
  (\<open>crates/app/src/cmd.rs\<close>). The dynamic linker is a parameter: given the libraries already loaded, does one open, and
  which symbols does it have. A directory tree carries the modification times of its files.
\<close>

section \<open>File names\<close>

definition lib_body :: "string \<Rightarrow> string" where
  "lib_body name = (case strip_prefix name ''lib'' of Some b \<Rightarrow> b | None \<Rightarrow> name)"

definition is_companion_filename :: "string \<Rightarrow> bool" where
  "is_companion_filename name \<longleftrightarrow>
     (starts_with (lib_body name) ''ggml.'' \<or> starts_with (lib_body name) ''ggml-'') \<and>
     (ends_with name ''.so'' \<or> ends_with name ''.dylib'' \<or> ends_with name ''.dll'' \<or> contains name ''.so.'')"

definition load_rank :: "string \<Rightarrow> nat" where
  "load_rank n = (if contains n ''ggml-base'' then 0 else if contains n ''ggml-cpu'' then 1 else 2)"

definition platform_lib_names :: "platform \<Rightarrow> string list" where
  "platform_lib_names os =
     (case os of Windows \<Rightarrow> [''llama.dll'', ''intelnav_llama.dll'']
      | MacOS \<Rightarrow> [''libllama.dylib'', ''libintelnav_llama.dylib'']
      | _ \<Rightarrow> [''libllama.so'', ''libintelnav_llama.so''])"

section \<open>Opening\<close>

record linker =
  ln_opens :: "path list \<Rightarrow> path \<Rightarrow> bool"
  ln_symbols :: "path \<Rightarrow> string list"

definition REQUIRED_SYMBOLS :: "string list" where
  "REQUIRED_SYMBOLS =
     [''ggml_backend_load_all'', ''ggml_backend_load_all_from_path'', ''llama_model_free'', ''llama_model_get_vocab'',
      ''llama_model_n_embd'', ''llama_model_n_layer'', ''llama_vocab_n_tokens'', ''llama_tokenize'', ''llama_free'',
      ''llama_batch_init'', ''llama_batch_free'', ''llama_decode'', ''llama_embed_only'', ''llama_decode_layers'',
      ''llama_head_only'', ''llama_get_logits_ith'', ''llama_get_embeddings_ith'', ''llama_get_memory'',
      ''llama_memory_seq_rm'', ''llama_set_embeddings'', ''intelnav_load_model'', ''intelnav_new_context'',
      ''intelnav_trip_abort'']"

datatype open_error = Dlopen path | MissingSymbol string

record loader =
  lo_companions :: "path list"
  lo_loaded_from :: path

text \<open>The companions of a library, in the order they are opened: \<open>sort_by_key\<close> is stable. \<open>names\<close> is the directory listing.\<close>

definition companion_paths :: "path \<Rightarrow> string list \<Rightarrow> path list" where
  "companion_paths lib names =
     sort_key (\<lambda>p. load_rank (last p))
       (filter (\<lambda>p. is_companion_filename (last p) \<and> p \<noteq> lib) (map (join (butlast lib)) names))"

definition preload_all :: "linker \<Rightarrow> path list \<Rightarrow> path list" where
  "preload_all L ps = foldl (\<lambda>handles p. if ln_opens L handles p then handles @ [p] else handles) [] ps"

definition preload_companions :: "linker \<Rightarrow> path \<Rightarrow> string list option \<Rightarrow> path list" where
  "preload_companions L lib listing =
     (if lib = [] then []
      else case listing of None \<Rightarrow> [] | Some names \<Rightarrow> preload_all L (companion_paths lib names))"

definition loader_open :: "linker \<Rightarrow> string list option \<Rightarrow> path \<Rightarrow> open_error + loader" where
  "loader_open L listing lib =
     (let companions = preload_companions L lib listing
      in if \<not> ln_opens L companions lib then Inl (Dlopen lib)
         else case List.find (\<lambda>s. s \<notin> set (ln_symbols L lib)) REQUIRED_SYMBOLS of
           Some s \<Rightarrow> Inl (MissingSymbol s)
         | None \<Rightarrow> Inr \<lparr>lo_companions = companions, lo_loaded_from = lib\<rparr>)"

section \<open>Finding\<close>

datatype dir_node = FileNode string "nat option" | DirNode string "dir_node list option"

text \<open>The files below a directory, in the order the walk visits them, with their modification times.\<close>

fun walk :: "path \<Rightarrow> dir_node \<Rightarrow> (path \<times> nat option) list" where
  "walk dir (FileNode name mtime) = [(join dir name, mtime)]"
| "walk dir (DirNode name None) = []"
| "walk dir (DirNode name (Some entries)) = concat (map (walk (join dir name)) entries)"

definition newer :: "string list \<Rightarrow> (path \<times> nat) option \<Rightarrow> path \<times> nat option \<Rightarrow> (path \<times> nat) option" where
  "newer names best = (\<lambda>(p, mtime).
     if last p \<notin> set names then best
     else case mtime of
       None \<Rightarrow> best
     | Some t \<Rightarrow> (case best of Some (q, bt) \<Rightarrow> if t \<le> bt then best else Some (p, t) | None \<Rightarrow> Some (p, t)))"

record lib_env =
  le_os :: platform
  le_cwd :: path
  le_path :: "string option" \<comment> \<open>\<open>INTELNAV_LIBLLAMA_PATH\<close>\<close>
  le_dir :: "string option" \<comment> \<open>\<open>INTELNAV_LIBLLAMA_DIR\<close>\<close>
  le_xdg :: "string option"
  le_home :: "string option"
  le_is_file :: "path \<Rightarrow> bool"
  le_tree :: "path \<Rightarrow> dir_node list option" \<comment> \<open>the entries of a directory, \<open>None\<close> where there is none\<close>

datatype find_error = BadPath string | BadDir string | NoCacheRoot

definition loader_cache_root :: "lib_env \<Rightarrow> find_error + path" where
  "loader_cache_root E =
     (case le_xdg E of
        Some x \<Rightarrow> Inr (join (join (path_of (le_cwd E) x) ''intelnav'') ''libllama'')
      | None \<Rightarrow>
          (case le_home E of
             Some h \<Rightarrow> Inr (join (join (join (path_of (le_cwd E) h) ''.cache'') ''intelnav'') ''libllama'')
           | None \<Rightarrow> Inl NoCacheRoot))"

definition newest_in :: "string list \<Rightarrow> (path \<times> nat option) list \<Rightarrow> (path \<times> nat) option" where
  "newest_in names files = foldl (newer names) None files"

definition find_in_cache :: "lib_env \<Rightarrow> find_error + path option" where
  "find_in_cache E =
     rbind (loader_cache_root E) (\<lambda>root.
       Inr (case le_tree E root of
              None \<Rightarrow> None
            | Some entries \<Rightarrow>
                map_option fst (newest_in (platform_lib_names (le_os E)) (concat (map (walk root) entries)))))"

definition find_libllama :: "lib_env \<Rightarrow> find_error + path" where
  "find_libllama E =
     (case le_path E of
        Some raw \<Rightarrow> if le_is_file E (path_of (le_cwd E) raw) then Inr (path_of (le_cwd E) raw) else Inl (BadPath raw)
      | None \<Rightarrow>
          (case le_dir E of
             Some raw \<Rightarrow>
               (case List.find (le_is_file E) (map (join (path_of (le_cwd E) raw)) (platform_lib_names (le_os E))) of
                  Some p \<Rightarrow> Inr p
                | None \<Rightarrow> Inl (BadDir raw))
           | None \<Rightarrow>
               rbind (find_in_cache E) (\<lambda>hit.
                 Inr (case hit of Some p \<Rightarrow> p | None \<Rightarrow> [hd (platform_lib_names (le_os E))]))))"

datatype default_error = NotFound find_error | NotOpened open_error

text \<open>The loader of the process, set once; the listing of the library's directory is read when it is opened.\<close>

definition default_loader :: "lib_env \<Rightarrow> linker \<Rightarrow> (path \<Rightarrow> string list option) \<Rightarrow> loader option \<Rightarrow>
    (default_error + loader) \<times> loader option" where
  "default_loader E L listing cell =
     (case cell of
        Some l \<Rightarrow> (Inr l, cell)
      | None \<Rightarrow>
          (case find_libllama E of
             Inl e \<Rightarrow> (Inl (NotFound e), None)
           | Inr p \<Rightarrow>
               (case loader_open L (listing (butlast p)) p of
                  Inl e \<Rightarrow> (Inl (NotOpened e), None)
                | Inr l \<Rightarrow> (Inr l, Some l))))"

section \<open>What doctor says about it\<close>

definition count_companions :: "path \<Rightarrow> string list option \<Rightarrow> nat" where
  "count_companions lib listing =
     (if lib = [] then 0
      else case listing of
        None \<Rightarrow> 0
      | Some names \<Rightarrow>
          length (filter (\<lambda>n. (starts_with (lib_body n) ''ggml-'' \<or> starts_with (lib_body n) ''ggml.'') \<and>
            (ends_with n ''.so'' \<or> ends_with n ''.dylib'' \<or> ends_with n ''.dll'' \<or> contains n ''.so.'')) names))"

text \<open>\<open>lower\<close> is \<open>str::to_lowercase\<close>.\<close>

definition dlopen_hint :: "(string \<Rightarrow> string) \<Rightarrow> string \<Rightarrow> string" where
  "dlopen_hint lower err =
     (let e = lower err
      in if contains e ''no such file or directory'' then
           ''the library is not at INTELNAV_LIBLLAMA_DIR or its SONAME dependencies aren'' @ [CHR 0x27] @ ''t next to it '' @ em_dash @
           '' unpack a libllama tarball and point INTELNAV_LIBLLAMA_DIR at the resulting bin/ subdir''
         else if contains e ''version `glibc_'' \<or> contains e ''symbol version'' then
           ''your libllama tarball was built against a newer glibc than your system '' @ em_dash @
           '' grab the matching tarball for your distro or rebuild from source''
         else if contains e ''undefined symbol'' then
           ''libllama and its companion ggml libs are from different builds '' @ em_dash @ '' make sure you extracted ONE tarball '' @
           ''cleanly, with no stale .so files in INTELNAV_LIBLLAMA_DIR from an older version''
         else ''dlopen failed ('' @ err @ ''); check INTELNAV_LIBLLAMA_DIR points at a bin/ directory containing libllama + '' @
           ''its companion libggml*.so files'')"

section \<open>Adjacent architectures\<close>

definition override_for :: "string \<Rightarrow> string option" where
  "override_for arch =
     (if arch \<in> set [''gfx1031'', ''gfx1032'', ''gfx1033'', ''gfx1034'', ''gfx1035'', ''gfx1036''] then Some ''10.3.0''
      else if arch \<in> set [''gfx1101'', ''gfx1102'', ''gfx1103''] then Some ''11.0.0''
      else if arch \<in> set [''gfx1150'', ''gfx1151'', ''gfx1152'', ''gfx1200'', ''gfx1201''] then Some ''11.0.0''
      else None)"

definition ascii_digit :: "char \<Rightarrow> bool" where
  "ascii_digit c \<longleftrightarrow> 48 \<le> code c \<and> code c \<le> 57"

definition gfx_of_line :: "string \<Rightarrow> string option" where
  "gfx_of_line l =
     Option.bind (strip_prefix (trim l) ''Name:'') (\<lambda>rest.
     Option.bind (strip_prefix (trim rest) ''amdgcn-amd-amdhsa--'') (\<lambda>a.
       let arch = (case split_whitespace a of w # _ \<Rightarrow> w | [] \<Rightarrow> [])
       in if starts_with arch ''gfx'' \<and> 3 < length arch \<and> ascii_digit (arch ! 3) \<and> \<not> contains arch ''generic''
          then Some arch else None))"

text \<open>The text is the lossy reading of what \<open>rocminfo\<close> printed, when it ran and exited with 0.\<close>

definition detect_gfx_arch :: "string option \<Rightarrow> string option" where
  "detect_gfx_arch out =
     Option.bind out (\<lambda>s. case List.map_filter gfx_of_line (str_lines s) of a # _ \<Rightarrow> Some a | [] \<Rightarrow> None)"

text \<open>The variable \<open>HSA_OVERRIDE_GFX_VERSION\<close> after it.\<close>

definition ensure_runtime_overrides :: "string option \<Rightarrow> string option \<Rightarrow> string option" where
  "ensure_runtime_overrides var out =
     (case var of Some v \<Rightarrow> Some v | None \<Rightarrow> Option.bind (detect_gfx_arch out) override_for)"


section \<open>The order of opening\<close>

text \<open>
  What the linker asks of a library: those it depends on are already loaded, under the assumption that a library
  depends only on libraries of an earlier rank among its companions: the base on none, the CPU variants on the
  base, the backends and \<open>libggml\<close> itself on both.
\<close>

definition layered :: "linker \<Rightarrow> (path \<Rightarrow> path set) \<Rightarrow> path set \<Rightarrow> bool" where
  "layered L deps ps \<longleftrightarrow>
     (\<forall>loaded p. ln_opens L loaded p \<longleftrightarrow> deps p \<subseteq> set loaded) \<and>
     (\<forall>p \<in> ps. \<forall>q \<in> deps p. q \<in> ps \<and> load_rank (last q) < load_rank (last p))"

lemma preload_snoc: "preload_all L (ps @ [p]) = preload_all L ps @ (if ln_opens L (preload_all L ps) p then [p] else [])"
  by (simp add: preload_all_def)

lemma preload_sorted:
  assumes "layered L deps (set all)" "sorted (map (\<lambda>p. load_rank (last p)) all)" "all = ps @ rest"
  shows "preload_all L ps = ps"
  using assms(3)
proof (induction ps arbitrary: rest rule: rev_induct)
  case (snoc p ps)
  have IH: "preload_all L ps = ps" using snoc by simp
  have "deps p \<subseteq> set ps"
  proof
    fix q assume "q \<in> deps p"
    then have q: "q \<in> set all" "load_rank (last q) < load_rank (last p)"
      using assms(1) snoc.prems by (auto simp: layered_def)
    have "load_rank (last p) \<le> load_rank (last r)" if "r \<in> set (p # rest)" for r
      using assms(2) that snoc.prems by (auto simp: sorted_append)
    then show "q \<in> set ps" using q snoc.prems by fastforce
  qed
  then show ?case using assms(1) by (simp add: preload_snoc IH layered_def)
qed (simp add: preload_all_def)

lemma companions_sorted: "sorted (map (\<lambda>p. load_rank (last p)) (companion_paths lib names))"
  by (simp add: companion_paths_def)

text \<open>
  Opening in order of rank is enough: when every companion depends on companions of an earlier rank only, and the
  library on companions only, all companions load and the library opens, provided it has the symbols of the
  fork; no search path of the environment is involved.
\<close>

theorem preload_order_suffices:
  assumes "lib \<noteq> []" "layered L deps (set (companion_paths lib names))" "deps lib \<subseteq> set (companion_paths lib names)"
    and "set REQUIRED_SYMBOLS \<subseteq> set (ln_symbols L lib)"
  shows "loader_open L (Some names) lib = Inr \<lparr>lo_companions = companion_paths lib names, lo_loaded_from = lib\<rparr>"
proof -
  have "preload_all L (companion_paths lib names) = companion_paths lib names"
    by (rule preload_sorted [OF assms(2) companions_sorted, of _ "[]"]) simp
  moreover have "List.find (\<lambda>s. s \<notin> set (ln_symbols L lib)) REQUIRED_SYMBOLS = None"
    using assms(4) by (auto simp: find_None_iff)
  ultimately show ?thesis using assms(1-3) by (simp add: loader_open_def preload_companions_def layered_def)
qed

section \<open>The library that is found\<close>

definition lib_files :: "string list \<Rightarrow> (path \<times> nat option) list \<Rightarrow> (path \<times> nat) list" where
  "lib_files names files = List.map_filter (\<lambda>(p, t). if last p \<in> set names then map_option (Pair p) t else None) files"

lemma lib_files_simps [simp]:
  "lib_files names [] = []"
  "lib_files names (fs @ [(p, t)]) = lib_files names fs @ (case t of Some m \<Rightarrow> if last p \<in> set names then [(p, m)] else [] | None \<Rightarrow> [])"
  by (auto simp: lib_files_def map_filter_def split: option.splits)

lemma newest_in_best:
  "case newest_in names files of
     None \<Rightarrow> lib_files names files = []
   | Some (p, t) \<Rightarrow> (p, t) \<in> set (lib_files names files) \<and> (\<forall>(q, u) \<in> set (lib_files names files). u \<le> t)"
proof (induction files rule: rev_induct)
  case (snoc f fs)
  obtain p t where f: "f = (p, t)" by (cases f)
  have n: "newest_in names (fs @ [f]) = newer names (newest_in names fs) f" by (simp add: newest_in_def)
  show ?case using snoc unfolding n unfolding f
    by (cases t; cases "newest_in names fs") (force simp: newer_def)+
qed (simp add: newest_in_def)

text \<open>
  Without the two variables the library is the most recently modified one below the cache directory, however deep,
  and the bare name for the linker's own search only when there is none.
\<close>

theorem newest_library_found:
  assumes "le_path E = None" "le_dir E = None" "loader_cache_root E = Inr root" "le_tree E root = Some entries"
    and "find_libllama E = Inr p"
  shows "if lib_files (platform_lib_names (le_os E)) (concat (map (walk root) entries)) = [] then p = [hd (platform_lib_names (le_os E))]
    else \<exists>t. (p, t) \<in> set (lib_files (platform_lib_names (le_os E)) (concat (map (walk root) entries))) \<and>
      (\<forall>(q, u) \<in> set (lib_files (platform_lib_names (le_os E)) (concat (map (walk root) entries))). u \<le> t)"
proof -
  let ?names = "platform_lib_names (le_os E)" and ?files = "concat (map (walk root) entries)"
  have p: "p = (case newest_in ?names ?files of Some (q, t) \<Rightarrow> q | None \<Rightarrow> [hd ?names])"
    using assms by (auto simp: find_libllama_def find_in_cache_def split: option.splits)
  show ?thesis using newest_in_best [of ?names ?files] unfolding p
    by (cases "newest_in ?names ?files") auto
qed

text \<open>
  The loader of the process is settled by the first success: it is returned ever after, whatever the environment
  has become; a failure is not kept, so that the next call tries again.
\<close>

theorem default_loader_once:
  assumes "default_loader E L listing cell = (r, cell')"
  shows "case r of
      Inr l \<Rightarrow> cell' = Some l \<and> default_loader E' L' listing' cell' = (Inr l, cell')
    | Inl e \<Rightarrow> cell = None \<and> default_loader E' L' listing' cell' = default_loader E' L' listing' None"
  using assms by (auto simp: default_loader_def split: option.splits sum.splits)

text \<open>
  The number of companions \<open>doctor\<close> reports as loaded is the number of files the loader tries to open, whether
  they open or not.
\<close>

theorem doctor_counts_files:
  assumes "lib \<noteq> []" "\<not> is_companion_filename (last lib)"
  shows "count_companions lib (Some names) = length (companion_paths lib names)"
proof -
  have "filter (\<lambda>p. is_companion_filename (last p) \<and> p \<noteq> lib) (map (join (butlast lib)) names) =
      map (join (butlast lib)) (filter is_companion_filename names)"
    using assms(2) by (induction names) (auto simp: join_def, metis last_snoc)
  moreover have "(\<lambda>n. (starts_with (lib_body n) ''ggml-'' \<or> starts_with (lib_body n) ''ggml.'') \<and>
      (ends_with n ''.so'' \<or> ends_with n ''.dylib'' \<or> ends_with n ''.dll'' \<or> contains n ''.so.'')) = is_companion_filename"
    by (rule ext) (simp only: is_companion_filename_def disj_commute)
  ultimately show ?thesis using assms(1) by (simp add: count_companions_def companion_paths_def)
qed


section \<open>Witnesses\<close>

definition demo_linker :: linker where
  "demo_linker = \<lparr>ln_opens = (\<lambda>loaded p. (if last p = ''libggml-cpu.so'' then {[''l'', ''libggml-base.so'']} else
       if last p = ''libllama.so'' then {[''l'', ''libggml-cpu.so'']} else {}) \<subseteq> set loaded),
     ln_symbols = (\<lambda>_. REQUIRED_SYMBOLS)\<rparr>"

text \<open>The directory lists the CPU library before the base it depends on.\<close>

lemma preload_order_suffices_witness:
  "loader_open demo_linker (Some [''libggml-cpu.so'', ''libllama.so'', ''libggml-base.so'']) [''l'', ''libllama.so''] =
    Inr \<lparr>lo_companions = [[''l'', ''libggml-base.so''], [''l'', ''libggml-cpu.so'']], lo_loaded_from = [''l'', ''libllama.so'']\<rparr>"
proof -
  let ?deps = "\<lambda>p :: path. if last p = ''libggml-cpu.so'' then {[''l'', ''libggml-base.so'']} else
       if last p = ''libllama.so'' then {[''l'', ''libggml-cpu.so'']} else {}"
  have c: "companion_paths [''l'', ''libllama.so''] [''libggml-cpu.so'', ''libllama.so'', ''libggml-base.so''] =
      [[''l'', ''libggml-base.so''], [''l'', ''libggml-cpu.so'']]" by code_simp
  have r: "load_rank ''libggml-base.so'' = 0" "load_rank ''libggml-cpu.so'' = 1" by code_simp+
  have "layered demo_linker ?deps (set (companion_paths [''l'', ''libllama.so''] [''libggml-cpu.so'', ''libllama.so'', ''libggml-base.so'']))"
    unfolding c layered_def by (simp add: demo_linker_def r)
  from preload_order_suffices [OF _ this] show ?thesis unfolding c by (simp add: demo_linker_def)
qed

definition demo_entries :: "dir_node list" where
  "demo_entries = [DirNode ''a'' (Some [FileNode ''libllama.so'' (Some 5)]), DirNode ''b'' (Some [FileNode ''libllama.so'' (Some 9)])]"

definition demo_lib_env :: lib_env where
  "demo_lib_env = \<lparr>le_os = Linux, le_cwd = [], le_path = None, le_dir = None, le_xdg = Some ''/k'', le_home = None, le_is_file = (\<lambda>_. False),
     le_tree = (\<lambda>_. Some demo_entries)\<rparr>"

definition demo_root :: path where "demo_root = [''k'', ''intelnav'', ''libllama'']"
definition demo_old :: path where "demo_old = demo_root @ [''a'', ''libllama.so'']"
definition demo_new :: path where "demo_new = demo_root @ [''b'', ''libllama.so'']"

lemma newest_library_found_witness: "find_libllama demo_lib_env = Inr demo_new"
proof -
  have e: "le_path demo_lib_env = None" "le_dir demo_lib_env = None" "loader_cache_root demo_lib_env = Inr demo_root"
    "le_tree demo_lib_env demo_root = Some demo_entries" by code_simp+
  obtain p where p: "find_libllama demo_lib_env = Inr p" using e
    by (auto simp: find_libllama_def find_in_cache_def)
  have files: "lib_files (platform_lib_names (le_os demo_lib_env)) (concat (map (walk demo_root) demo_entries)) = [(demo_old, 5), (demo_new, 9)]"
    by code_simp
  have "\<exists>t. (p, t) \<in> set [(demo_old, 5), (demo_new, 9)] \<and> (\<forall>(q, u) \<in> set [(demo_old, 5), (demo_new, 9 :: nat)]. u \<le> t)"
    using newest_library_found [OF e p] unfolding files by (simp only: list.distinct if_False)
  then have "p = demo_new" by auto
  with p show ?thesis by simp
qed

lemma default_loader_once_witness:
  "\<exists>l. default_loader demo_lib_env (demo_linker\<lparr>ln_opens := \<lambda>_ _. False\<rparr>) (\<lambda>_. None) (Some \<lparr>lo_companions = [], lo_loaded_from = [''p'']\<rparr>) = (Inr l, Some l)"
  using default_loader_once [of demo_lib_env demo_linker "\<lambda>_. None" "Some \<lparr>lo_companions = [], lo_loaded_from = [''p'']\<rparr>"
      "Inr \<lparr>lo_companions = [], lo_loaded_from = [''p'']\<rparr>" "Some \<lparr>lo_companions = [], lo_loaded_from = [''p'']\<rparr>"
      demo_lib_env "demo_linker\<lparr>ln_opens := \<lambda>_ _. False\<rparr>" "\<lambda>_. None"]
  by (auto simp: default_loader_def)

lemma doctor_counts_files_witness:
  "count_companions [''l'', ''libllama.so''] (Some [''libggml-cpu.so'', ''libllama.so'', ''README'']) = 1"
proof -
  have "\<not> is_companion_filename (last [''l'', ''libllama.so''])" by code_simp
  from doctor_counts_files [OF _ this] show ?thesis by simp code_simp
qed

end
