(* ===== verification/Service.thy ===== *)
theory Service
  imports Ggml_Loader
begin

text \<open>
  The systemd user unit of the host, \<open>crates/app/src/service/systemd.rs\<close> (and the dispatch in \<open>service/mod.rs\<close>): finding the
  binary, rendering the unit, installing, starting and removing it. What the commands it runs answer is a
  parameter; paths are texts here, since they end up in the unit. Times are milliseconds.
\<close>

section \<open>The environment\<close>

datatype outcome = CannotRun | Exited bool string \<comment> \<open>success, and the status as it is printed\<close>

text \<open>\<open>sv_active t\<close> is whether \<open>systemctl --user is-active\<close> succeeds at time \<open>t\<close>; \<open>sv_delay\<close> is what a sleep takes beyond its length.\<close>

record service_env =
  sv_os :: platform
  sv_exe_dir :: "string option"
  sv_var :: "string \<Rightarrow> string option"
  sv_exists :: "string \<Rightarrow> bool"
  sv_config_dir :: "string option"
  sv_socket :: string
  sv_mkdir :: bool
  sv_write :: bool
  sv_remove :: bool
  sv_run :: "string list \<Rightarrow> outcome"
  sv_active :: "nat \<Rightarrow> bool"
  sv_delay :: "nat \<Rightarrow> nat"
  sv_journal :: "bytes option"
  sv_lossy :: "bytes \<Rightarrow> string"

definition UNIT_NAME :: string where "UNIT_NAME = ''intelnav-node.service''"

definition join_text :: "string \<Rightarrow> string \<Rightarrow> string" where
  "join_text dir name =
     (if dir = [] then name else if ends_with dir ''/'' then dir @ name else dir @ ''/'' @ name)"

definition user_unit_path :: "service_env \<Rightarrow> string" where
  "user_unit_path E =
     (case sv_config_dir E of
        Some d \<Rightarrow> join_text (join_text d ''systemd/user'') UNIT_NAME
      | None \<Rightarrow> ''/tmp/'' @ UNIT_NAME)"

definition current_user :: "service_env \<Rightarrow> string" where
  "current_user E =
     (case sv_var E ''USER'' of
        Some u \<Rightarrow> u
      | None \<Rightarrow> (case sv_var E ''LOGNAME'' of Some u \<Rightarrow> u | None \<Rightarrow> ''root''))"

section \<open>The unit\<close>

definition path_candidates :: "service_env \<Rightarrow> string list" where
  "path_candidates E =
     (case sv_exe_dir E of Some d \<Rightarrow> [join_text d ''intelnav-node''] | None \<Rightarrow> []) @
     (case sv_var E ''PATH'' of
        Some p \<Rightarrow> map (\<lambda>dir. join_text dir ''intelnav-node'') (split_char CHR '':'' p)
      | None \<Rightarrow> [])"

definition locate_node_binary :: "service_env \<Rightarrow> string + string" where
  "locate_node_binary E =
     (case List.find (sv_exists E) (path_candidates E) of
        Some p \<Rightarrow> Inr p
      | None \<Rightarrow> Inl (''couldn'' @ [CHR 0x27] @ ''t find `intelnav-node` next to the running `intelnav` or on $PATH. '' @
          ''Build it first: `cargo build --release -p intelnav-node`''))"

definition FORWARDED :: "string list" where
  "FORWARDED = [''INTELNAV_LIBLLAMA_DIR'', ''INTELNAV_LIBP2P_LISTEN'', ''INTELNAV_CHUNKS_ADDR'', ''INTELNAV_FORWARD_ADDR'',
     ''INTELNAV_MODELS_DIR'', ''INTELNAV_DEVICE'', ''INTELNAV_BOOTSTRAP'', ''HSA_OVERRIDE_GFX_VERSION'']"

definition forwarded_env :: "service_env \<Rightarrow> (string \<times> string) list" where
  "forwarded_env E = List.map_filter (\<lambda>k. map_option (Pair k) (sv_var E k)) FORWARDED"

definition line_feed :: char where "line_feed = CHR 0x0A"

definition unlines :: "string list \<Rightarrow> string" where
  "unlines ls = concat (map (\<lambda>l. l @ [line_feed]) ls)"

definition unit_head :: "string \<Rightarrow> string list" where
  "unit_head exec =
     [''[Unit]'', ''Description=IntelNav swarm node'', ''Documentation=https://intelnav.net'', ''After=network-online.target'',
      ''Wants=network-online.target'', '''', ''[Service]'', ''Type=simple'', ''ExecStart='' @ exec, ''Restart=on-failure'', ''RestartSec=5'']"

definition unit_tail :: "string list" where
  "unit_tail = ['''', ''[Install]'', ''WantedBy=default.target'']"

definition env_line :: "string \<times> string \<Rightarrow> string" where
  "env_line = (\<lambda>(k, v). ''Environment='' @ k @ ''='' @ v)"

definition render_unit :: "service_env \<Rightarrow> string + string" where
  "render_unit E =
     rbind (locate_node_binary E) (\<lambda>exec.
       Inr (unlines (unit_head exec) @ concat (map (\<lambda>kv. env_line kv @ [line_feed]) (forwarded_env E)) @ unlines unit_tail))"

section \<open>Status\<close>

datatype service_status = ServiceActive | RunningAdHoc | Inactive | Unsupported

definition service_state :: "service_env \<Rightarrow> nat \<Rightarrow> service_status" where
  "service_state E now =
     (if sv_os E \<noteq> Linux then Unsupported
      else if \<not> sv_exists E (user_unit_path E) then (if sv_exists E (sv_socket E) then RunningAdHoc else Inactive)
      else if sv_active E now then ServiceActive else Inactive)"

section \<open>Installing\<close>

definition run_checked :: "service_env \<Rightarrow> string list \<Rightarrow> string + unit" where
  "run_checked E cmd =
     (case sv_run E cmd of
        CannotRun \<Rightarrow> Inl (''invoke '' @ hd cmd)
      | Exited ok status \<Rightarrow> if ok then Inr () else Inl (hd cmd @ '' exited with '' @ status))"

function wait_for_active :: "service_env \<Rightarrow> nat \<Rightarrow> nat \<Rightarrow> bool" where
  "wait_for_active E deadline now =
     (if now < deadline then (if sv_active E now then True else wait_for_active E deadline (now + 250 + sv_delay E now)) else False)"
  by pat_completeness auto
termination
  by (relation "measure (\<lambda>(E, deadline, now). deadline - now)") auto

declare wait_for_active.simps [simp del]

text \<open>A long line of the journal is cut at byte 140; \<open>None\<close> is the panic of a cut inside a character.\<close>

definition short_line :: "string \<Rightarrow> string option" where
  "short_line l =
     (if 140 < length l then (if is_char_boundary l 140 then Some (take 140 l @ [CHR 0xE2, CHR 0x80, CHR 0xA6]) else None) else Some l)"

fun all_some :: "'a option list \<Rightarrow> 'a list option" where
  "all_some [] = Some []"
| "all_some (None # xs) = None"
| "all_some (Some x # xs) = map_option ((#) x) (all_some xs)"

definition recent_journal :: "service_env \<Rightarrow> string option option" where
  "recent_journal E =
     (case sv_journal E of
        None \<Rightarrow> Some None
      | Some out \<Rightarrow>
          (case all_some (map short_line (str_lines (sv_lossy E out))) of
             Some ls \<Rightarrow> Some (Some (sep_by [line_feed] ls))
           | None \<Rightarrow> None))"

datatype install_result = Installed | InstallError string | InstallPanic

text \<open>The result, the unit file if it was written, and the commands that were run.\<close>

definition install_service :: "service_env \<Rightarrow> nat \<Rightarrow> install_result \<times> string option \<times> string list list" where
  "install_service E now =
     (if sv_os E \<noteq> Linux then (InstallError ''automatic service install is Linux-only for now'', None, [])
      else case render_unit E of
        Inl e \<Rightarrow> (InstallError e, None, [])
      | Inr u \<Rightarrow>
          let linger = [''pkexec'', ''loginctl'', ''enable-linger'', current_user E];
              reload = [''systemctl'', ''--user'', ''daemon-reload''];
              enable = [''systemctl'', ''--user'', ''enable'', ''--now'', UNIT_NAME]
          in if \<not> sv_mkdir E then (InstallError ''create'', None, [])
             else if \<not> sv_write E then (InstallError ''write'', None, [])
             else if sv_run E linger = CannotRun then (InstallError ''invoke pkexec loginctl'', Some u, [linger])
             else (case run_checked E reload of
                 Inl e \<Rightarrow> (InstallError e, Some u, [linger, reload])
               | Inr _ \<Rightarrow>
                   (case run_checked E enable of
                      Inl e \<Rightarrow> (InstallError e, Some u, [linger, reload, enable])
                    | Inr _ \<Rightarrow>
                        (if wait_for_active E (now + 4000) now then Installed
                         else case recent_journal E of
                           None \<Rightarrow> InstallPanic
                         | Some logs \<Rightarrow>
                             InstallError (''service installed but failed to start. Recent journal:'' @ [line_feed] @
                               (case logs of Some l \<Rightarrow> l | None \<Rightarrow> [])),
                         Some u, [linger, reload, enable]))))"

definition uninstall_service :: "service_env \<Rightarrow> (string + unit) \<times> string list list" where
  "uninstall_service E =
     (if sv_os E \<noteq> Linux then (Inl ''automatic service uninstall is Linux-only for now'', [])
      else
        let disable = [''systemctl'', ''--user'', ''disable'', ''--now'', UNIT_NAME];
            reload = [''systemctl'', ''--user'', ''daemon-reload'']
        in if sv_exists E (user_unit_path E) \<and> \<not> sv_remove E then (Inl (''remove '' @ user_unit_path E), [disable])
           else (Inr (), [disable, reload]))"

section \<open>What the unit says\<close>

lemma split_unlines:
  "\<forall>l \<in> set ls. line_feed \<notin> set l \<Longrightarrow> split_char line_feed (unlines ls) = ls @ [[]]"
proof (induction ls)
  case (Cons l ls)
  have "split_char c (w @ c # s) = w # split_char c s" if "c \<notin> set w" for c and w s :: string
    using that by (induction w) (auto split: list.splits)
  with Cons show ?case by (simp add: unlines_def)
qed (simp add: unlines_def)

text \<open>How a line of a unit is read back, up to systemd's own quoting: a name and its value.\<close>

definition read_env :: "string \<Rightarrow> (string \<times> string) option" where
  "read_env l = Option.bind (strip_prefix l ''Environment='') (split_once CHR ''='')"

lemma FORWARDED_names: "k \<in> set FORWARDED \<Longrightarrow> CHR ''='' \<notin> set k \<and> line_feed \<notin> set k"
proof -
  have "list_all (\<lambda>k. CHR ''='' \<notin> set k \<and> line_feed \<notin> set k) FORWARDED" by code_simp
  then show "k \<in> set FORWARDED \<Longrightarrow> CHR ''='' \<notin> set k \<and> line_feed \<notin> set k" unfolding list_all_iff by blast
qed

lemma read_env_line: "CHR ''='' \<notin> set k \<Longrightarrow> read_env (env_line (k, v)) = Some (k, v)"
proof -
  assume k: "CHR ''='' \<notin> set k"
  have "split_once CHR ''='' (k @ CHR ''='' # v) = Some (k, v)"
    using k by (auto simp: split_once_def takeWhile_append dropWhile_append)
  moreover have "strip_prefix (env_line (k, v)) ''Environment='' = Some (k @ CHR ''='' # v)"
    using strip_append [of "''Environment=''" "k @ CHR ''='' # v"] by (simp add: env_line_def)
  ultimately show ?thesis by (simp add: read_env_def)
qed

lemma forwarded_iff: "(k, v) \<in> set (forwarded_env E) \<longleftrightarrow> k \<in> set FORWARDED \<and> sv_var E k = Some v"
  by (force simp: forwarded_env_def map_filter_def)

lemma unit_fixed_lines:
  "\<forall>l \<in> set unit_tail. line_feed \<notin> set l \<and> read_env l = None"
  "line_feed \<notin> set exec \<Longrightarrow> \<forall>l \<in> set (unit_head exec). line_feed \<notin> set l"
  "\<forall>l \<in> set (unit_head exec). read_env l = None"
proof -
  have "list_all (\<lambda>l. line_feed \<notin> set l \<and> read_env l = None) unit_tail" by code_simp
  then show "\<forall>l \<in> set unit_tail. line_feed \<notin> set l \<and> read_env l = None" by (simp add: list_all_iff)
  show "line_feed \<notin> set exec \<Longrightarrow> \<forall>l \<in> set (unit_head exec). line_feed \<notin> set l"
    by (simp add: unit_head_def line_feed_def)
  show "\<forall>l \<in> set (unit_head exec). read_env l = None"
    by (simp add: unit_head_def read_env_def strip_prefix_def starts_with_def)
qed

text \<open>
  The unit carries the environment: as long as no value has a line break, its lines are the fixed directives, the
  binary, and one line for each variable of the list that is set, from which its name and value are read back.
\<close>

theorem unit_carries_env:
  assumes "render_unit E = Inr u" "locate_node_binary E = Inr exec" "line_feed \<notin> set exec"
    and "\<And>k v. k \<in> set FORWARDED \<Longrightarrow> sv_var E k = Some v \<Longrightarrow> line_feed \<notin> set v"
  shows "split_char line_feed u = unit_head exec @ map env_line (forwarded_env E) @ unit_tail @ [[]] \<and>
    List.map_filter read_env (split_char line_feed u) = forwarded_env E"
proof -
  let ?env = "map env_line (forwarded_env E)"
  have "u = unlines (unit_head exec @ ?env @ unit_tail)"
    using assms(1,2) by (simp add: render_unit_def unlines_def comp_def)
  moreover have "\<forall>l \<in> set ?env. line_feed \<notin> set l"
    using assms(4) FORWARDED_names by (force simp: forwarded_iff env_line_def line_feed_def)
  ultimately have lines: "split_char line_feed u = unit_head exec @ ?env @ unit_tail @ [[]]"
    using split_unlines [of "unit_head exec @ ?env @ unit_tail"] unit_fixed_lines(1) unit_fixed_lines(2) [OF assms(3)] by auto
  have none: "List.map_filter read_env ls = []" if "\<forall>l \<in> set ls. read_env l = None" for ls
    using that by (auto simp: map_filter_def)
  have "List.map_filter read_env (map env_line kvs) = kvs" if "set kvs \<subseteq> set (forwarded_env E)" for kvs
    using that
  proof (induction kvs)
    case (Cons kv kvs)
    obtain k v where kv: "kv = (k, v)" by (cases kv)
    then have "CHR ''='' \<notin> set k" using Cons.prems FORWARDED_names by (auto simp: forwarded_iff)
    with Cons show ?case by (simp add: map_filter_simps kv read_env_line)
  qed (simp add: map_filter_simps)
  then have "List.map_filter read_env ?env = forwarded_env E" by blast
  moreover have "List.map_filter read_env (a @ b) = List.map_filter read_env a @ List.map_filter read_env b" for a b
    by (simp add: map_filter_def)
  moreover have "read_env [] = None" by code_simp
  ultimately show ?thesis using lines none unit_fixed_lines(1) unit_fixed_lines(3) [of exec] by (simp add: map_filter_simps)
qed


definition demo_service :: service_env where
  "demo_service = \<lparr>sv_os = Linux, sv_exe_dir = Some ''/o'', sv_var = (\<lambda>k. if k = ''INTELNAV_DEVICE'' then Some ''cpu'' else None),
     sv_exists = (\<lambda>p. True), sv_config_dir = Some ''/c'', sv_socket = [], sv_mkdir = True, sv_write = True, sv_remove = True,
     sv_run = (\<lambda>_. Exited True []), sv_active = (\<lambda>t. 1500 \<le> t), sv_delay = (\<lambda>_. 3), sv_journal = None, sv_lossy = (\<lambda>_. [])\<rparr>"

lemma unit_carries_env_witness:
  "\<exists>u. render_unit demo_service = Inr u \<and> List.map_filter read_env (split_char line_feed u) = [(''INTELNAV_DEVICE'', ''cpu'')]"
proof -
  have e: "locate_node_binary demo_service = Inr ''/o/intelnav-node''" by code_simp
  obtain u where u: "render_unit demo_service = Inr u" by (simp add: render_unit_def e)
  have "line_feed \<notin> set ''/o/intelnav-node''" by code_simp
  moreover have "line_feed \<notin> set v" if "sv_var demo_service k = Some v" for k v
    using that by (simp add: demo_service_def line_feed_def split: if_splits) auto
  moreover have "forwarded_env demo_service = [(''INTELNAV_DEVICE'', ''cpu'')]" by code_simp
  ultimately show ?thesis using unit_carries_env [OF u e] u by metis
qed

text \<open>A line break in a variable is a line of the unit of its own.\<close>

lemma injected_directive:
  "case render_unit (demo_service\<lparr>sv_var := \<lambda>k. if k = ''INTELNAV_DEVICE'' then Some (''cpu'' @ [line_feed] @ ''ExecStartPre=/bin/x'') else None\<rparr>) of
     Inr u \<Rightarrow> ''ExecStartPre=/bin/x'' \<in> set (split_char line_feed u) | Inl e \<Rightarrow> False"
  by code_simp

text \<open>An entry of \<open>PATH\<close> that is not absolute gives a binary that is not.\<close>

lemma relative_binary:
  "locate_node_binary (demo_service\<lparr>sv_exe_dir := None, sv_var := \<lambda>k. if k = ''PATH'' then Some ''bin:/usr/bin'' else None\<rparr>) =
    Inr ''bin/intelnav-node''"
  by code_simp

text \<open>A line of the journal with a character across byte 140.\<close>

lemma journal_panics:
  "recent_journal (demo_service\<lparr>sv_journal := Some [], sv_lossy := \<lambda>_. replicate 139 CHR ''x'' @ [CHR 0xC3, CHR 0xA9]\<rparr>) = None"
  by code_simp

section \<open>What an installation means\<close>

lemma wait_active_time:
  "wait_for_active E deadline now \<Longrightarrow> \<exists>t. now \<le> t \<and> t < deadline \<and> sv_active E t"
proof (induction E deadline now rule: wait_for_active.induct)
  case (1 E deadline now)
  have n: "now < deadline" using 1(2) by (subst (asm) wait_for_active.simps) (simp split: if_splits)
  show ?case
  proof (cases "sv_active E now")
    case False
    then have "wait_for_active E deadline (now + 250 + sv_delay E now)" using 1(2) n by (subst (asm) wait_for_active.simps) simp
    from 1(1) [OF n False this] obtain t where "now + 250 + sv_delay E now \<le> t" "t < deadline" "sv_active E t" by blast
    then show ?thesis by (intro exI [of _ t]) simp
  qed (use n in auto)
qed

text \<open>
  A reported installation is a running service: the unit on disk is the rendered one, the manager has accepted
  both of its commands, and within four seconds the service was seen active.
\<close>

theorem installed_is_running:
  assumes "install_service E now = (Installed, unit, cmds)"
  shows "\<exists>u t. render_unit E = Inr u \<and> unit = Some u \<and>
    cmds = [[''pkexec'', ''loginctl'', ''enable-linger'', current_user E], [''systemctl'', ''--user'', ''daemon-reload''],
      [''systemctl'', ''--user'', ''enable'', ''--now'', UNIT_NAME]] \<and>
    (\<forall>c \<in> set (tl cmds). \<exists>st. sv_run E c = Exited True st) \<and> now \<le> t \<and> t < now + 4000 \<and> sv_active E t"
proof -
  have run: "run_checked E c = Inr x \<Longrightarrow> \<exists>st. sv_run E c = Exited True st" for c x
    by (auto simp: run_checked_def split: outcome.splits if_splits)
  obtain u where u: "render_unit E = Inr u" using assms by (auto simp: install_service_def split: if_splits sum.splits)
  let ?reload = "[''systemctl'', ''--user'', ''daemon-reload'']" and ?enable = "[''systemctl'', ''--user'', ''enable'', ''--now'', UNIT_NAME]"
  obtain x y where r: "run_checked E ?reload = Inr x" "run_checked E ?enable = Inr y" and a: "wait_for_active E (now + 4000) now"
    and out: "unit = Some u" "cmds = [[''pkexec'', ''loginctl'', ''enable-linger'', current_user E], ?reload, ?enable]"
    using assms unfolding install_service_def u Let_def sum.case
    by (simp split: if_splits sum.splits option.splits del: if_bool_eq_conj)
  from wait_active_time [OF a] obtain t where "now \<le> t" "t < now + 4000" "sv_active E t" by blast
  then show ?thesis using u out run [OF r(1)] run [OF r(2)] unfolding out by (intro exI [of _ u] exI [of _ t]) simp
qed

lemma installed_is_running_witness: "\<exists>t unit cmds. install_service demo_service 1000 = (Installed, unit, cmds) \<and> t < 5000 \<and> sv_active demo_service t"
proof -
  have "fst (install_service demo_service 1000) = Installed" by code_simp
  then obtain unit cmds where i: "install_service demo_service 1000 = (Installed, unit, cmds)" by (metis prod.collapse)
  from installed_is_running [OF i] i show ?thesis by auto
qed

end
