(* ===== verification/App.thy ===== *)
theory App
  imports Browser Pull Control Service
begin

text \<open>
  The state of the chat client (\<open>AppState\<close> in \<open>crates/app/src/tui/mod.rs\<close>) and the operations on its input:
  undo, paste placeholders, command suggestions (\<open>crates/app/src/slash.rs\<close>), the prompt history, submitting
  a prompt. Times are in milliseconds. An operation that can panic gives an option.
\<close>

section \<open>State\<close>

datatype turn_role = System | User | Assistant

record ui_turn =
  tn_role :: turn_role
  tn_content :: string
  tn_complete :: bool

definition user_turn :: "string \<Rightarrow> ui_turn" where
  "user_turn s = \<lparr>tn_role = User, tn_content = s, tn_complete = True\<rparr>"

definition system_turn :: "string \<Rightarrow> ui_turn" where
  "system_turn s = \<lparr>tn_role = System, tn_content = s, tn_complete = True\<rparr>"

definition assistant_open :: ui_turn where
  "assistant_open = \<lparr>tn_role = Assistant, tn_content = [], tn_complete = False\<rparr>"

record doctor_view =
  dv_runtime :: string
  dv_available :: "string list"
  dv_preferred :: string
  dv_models_dir :: path
  dv_model :: string
  dv_mode :: string

datatype view = Chat | BrowserView browser_state | Doctor doctor_view

text \<open>A driver at work on a turn: what it was started with. Its deltas arrive in \<open>drain_stream\<close>.\<close>

datatype stream_job =
    LocalJob local_model "chat_turn list"
  | ChainJob local_model "chat_turn list"

record dl_progress =
  dp_label :: string
  dp_done :: u64
  dp_total :: "u64 option"
  dp_bps :: f64

record 'm app =
  ap_models_dir :: path
  ap_mode :: run_mode
  ap_model :: string
  ap_tier :: string
  ap_quorum :: u8
  ap_allow_wan :: bool
  ap_chain :: "'m chain_driver"
  ap_local_scan :: "local_model list"
  ap_swarm_index :: bool \<comment> \<open>a live swarm handle\<close>
  ap_swarm_models :: "swarm_model list"
  ap_swarm_rx :: "(string \<times> (u16 \<times> u16) list) list option" \<comment> \<open>the refresh under way\<close>
  ap_history :: "ui_turn list"
  ap_input :: utext
  ap_cursor :: nat
  ap_scroll_off :: u16
  ap_follow_tail :: bool
  ap_last_viewport :: u16
  ap_last_total :: u16
  ap_last_input_inner_w :: u16
  ap_sugg_idx :: nat
  ap_view :: view
  ap_prompt_history :: "utext list"
  ap_history_idx :: "nat option"
  ap_paste_stash :: "(u32 \<times> utext) list"
  ap_next_paste_id :: u32
  ap_streaming :: "stream_job option"
  ap_download :: "catalog_entry option"
  ap_dl_progress :: "dl_progress option"
  ap_splitting :: "(catalog_entry \<times> local_model) option"
  ap_pulling :: "(string \<times> (u16 \<times> u16) \<times> provider_record) option"
  ap_should_quit :: bool
  ap_exit_pending :: "nat option"
  ap_clear_pending :: "nat option"
  ap_input_undo :: "(utext \<times> nat) list"
  ap_leave_picker :: "slice_key list"

text \<open>
  What the client calls or reads: the files, the column widths, the clock, address parsing, the memory
  and the description of the machine, CIDs of the catalog, the sidecar parser, what the service actions
  read and run, and the texts of the errors it shows.
\<close>

record app_env =
  ae_fs :: fs
  ae_cwd :: path
  ae_cw :: "nat \<Rightarrow> nat"
  ae_now :: nat
  ae_parse_addr :: parse_addr
  ae_free :: u64
  ae_runtime :: string
  ae_available :: "string list"
  ae_preferred :: string
  ae_cid_of :: "catalog_entry \<Rightarrow> string"
  ae_kept :: "bytes \<Rightarrow> kept_ranges option"
  ae_service :: service_env
  ae_sock :: string
  ae_path_text :: "path \<Rightarrow> string"
  ae_pull_error :: "pull_error \<Rightarrow> string"
  ae_split_error :: "chunk_error fault \<Rightarrow> string"

definition app_new :: "path \<Rightarrow> run_mode \<Rightarrow> 'm chain_driver \<Rightarrow> local_model list \<Rightarrow> string \<Rightarrow> u8 \<Rightarrow> bool \<Rightarrow> string \<Rightarrow> 'm app" where
  "app_new models_dir mode chain scan model quorum allow_wan tier =
     \<lparr>ap_models_dir = models_dir, ap_mode = mode, ap_model = model, ap_tier = tier, ap_quorum = quorum,
      ap_allow_wan = allow_wan, ap_chain = chain, ap_local_scan = scan, ap_swarm_index = False, ap_swarm_models = [],
      ap_swarm_rx = None, ap_history = [], ap_input = [], ap_cursor = 0, ap_scroll_off = 0, ap_follow_tail = True,
      ap_last_viewport = 0, ap_last_total = 0, ap_last_input_inner_w = 0, ap_sugg_idx = 0, ap_view = Chat,
      ap_prompt_history = [], ap_history_idx = None, ap_paste_stash = [], ap_next_paste_id = 1, ap_streaming = None,
      ap_download = None, ap_dl_progress = None, ap_splitting = None, ap_pulling = None, ap_should_quit = False,
      ap_exit_pending = None, ap_clear_pending = None, ap_input_undo = [], ap_leave_picker = []\<rparr>"

definition push_system :: "string \<Rightarrow> 'm app \<Rightarrow> 'm app" where
  "push_system s a = a\<lparr>ap_history := ap_history a @ [system_turn s]\<rparr>"

definition in_overlay :: "'m app \<Rightarrow> bool" where
  "in_overlay a \<longleftrightarrow> ap_view a \<noteq> Chat"

section \<open>Undo\<close>

definition UNDO_HISTORY_CAP :: nat where "UNDO_HISTORY_CAP = 32"

definition push_undo :: "'m app \<Rightarrow> 'm app" where
  "push_undo a =
     a\<lparr>ap_input_undo :=
         (if UNDO_HISTORY_CAP \<le> length (ap_input_undo a) then tl (ap_input_undo a) else ap_input_undo a)
         @ [(ap_input a, ap_cursor a)]\<rparr>"

definition pop_undo :: "'m app \<Rightarrow> bool \<times> 'm app" where
  "pop_undo a =
     (if ap_input_undo a = [] then (False, a)
      else (True, a\<lparr>ap_input_undo := butlast (ap_input_undo a), ap_input := fst (last (ap_input_undo a)),
                     ap_cursor := snd (last (ap_input_undo a)), ap_history_idx := None, ap_sugg_idx := 0\<rparr>))"

section \<open>Models\<close>

definition cycle_model :: "'m app \<Rightarrow> 'm app" where
  "cycle_model a =
     (let usable = filter is_usable (ap_local_scan a)
      in if length usable \<le> 1 then a
         else let cur = (case List.find (\<lambda>i. lm_name (usable ! i) = ap_model a) [0..<length usable] of Some i \<Rightarrow> i | None \<Rightarrow> 0);
                  name = lm_name (usable ! ((cur + 1) mod length usable))
              in push_system (''model '' @ arrow @ '' '' @ name) (a\<lparr>ap_model := name\<rparr>))"

definition greet_mode :: "app_env \<Rightarrow> 'm app \<Rightarrow> 'm app" where
  "greet_mode E a =
     (case ap_mode a of
        LocalMode \<Rightarrow>
          (let n = length (filter is_usable (ap_local_scan a)); dir = ae_path_text E (ap_models_dir a)
           in if n = 0
              then push_system (''local mode '' @ em_dash @ '' no usable models in '' @ dir @
                     ''. Drop a .gguf (+ tokenizer.json) there, or /mode network.'') a
              else push_system (''local mode '' @ em_dash @ '' '' @ dec_digits n @ '' models in '' @ dir @ ''. Current: '' @ ap_model a) a)
      | Network \<Rightarrow>
          push_system (case cd_target (ap_chain a) of
              Some t \<Rightarrow> ''network mode '' @ em_dash @ '' peer chain '' @ target_summary t
            | None \<Rightarrow> ''network mode '' @ em_dash @ '' no peer chain configured. /peers a:7717,b:7717 6,12 to set one.'') a)"

section \<open>Paste placeholders\<close>

definition insert_at :: "nat \<Rightarrow> utext \<Rightarrow> utext \<Rightarrow> utext option" where
  "insert_at i new t = map_option (\<lambda>(a, b). a @ new @ b) (cut t i)"

definition PASTE_THRESHOLD :: nat where "PASTE_THRESHOLD = 10000"
definition KEEP_HEAD :: nat where "KEEP_HEAD = 500"
definition KEEP_TAIL :: nat where "KEEP_TAIL = 500"

definition paste_ref :: "u32 \<Rightarrow> nat \<Rightarrow> utext" where
  "paste_ref i lines = ascii (''[#pasted-'' @ dec_digits (unat i) @ '' +'' @ dec_digits lines @ '' lines]'')"

definition insert_paste :: "utext \<Rightarrow> 'm app \<Rightarrow> 'm app option" where
  "insert_paste p a =
     (let n = length p;
          mid = take (n - (KEEP_HEAD + KEEP_TAIL)) (drop KEEP_HEAD p);
          (body, a1) =
            (if PASTE_THRESHOLD < n
             then (take KEEP_HEAD p @ paste_ref (ap_next_paste_id a) (length (filter (\<lambda>c. c = NL) mid) + 1) @ drop (n - KEEP_TAIL) p,
                   a\<lparr>ap_next_paste_id := ap_next_paste_id a + 1, ap_paste_stash := (ap_next_paste_id a, mid) # ap_paste_stash a\<rparr>)
             else (p, a))
      in map_option (\<lambda>t. a1\<lparr>ap_input := t, ap_cursor := ap_cursor a + blen body, ap_history_idx := None\<rparr>)
           (insert_at (ap_cursor a) body (ap_input a)))"

definition paste_id :: "utext \<Rightarrow> u32" where
  "paste_id tok =
     (case parse_uint (2 ^ 32) (utf8 (takeWhile (\<lambda>c. \<not> uwhite c) (dropWhile uwhite tok))) of
        Some n \<Rightarrow> word_of_nat n | None \<Rightarrow> 0)"

function inflate :: "(u32 \<times> utext) list \<Rightarrow> utext \<Rightarrow> utext" where
  "inflate stash [] = []"
| "inflate stash (c # t) =
     (let r = drop 9 (c # t)
      in case (if take 9 (c # t) = ascii ''[#pasted-'' \<and> 0x5D \<in> set r
               then map_of stash (paste_id (takeWhile (\<lambda>c. c \<noteq> 0x5D) r)) else None) of
           Some full \<Rightarrow> full @ inflate stash (tl (dropWhile (\<lambda>c. c \<noteq> 0x5D) r))
         | None \<Rightarrow> c # inflate stash t)"
  by pat_completeness auto
termination
proof (relation "measure (\<lambda>(_, t). length t)")
  fix stash c t and r full :: utext
  assume "r = drop 9 (c # t)"
  then show "((stash, tl (dropWhile (\<lambda>c. c \<noteq> 0x5D) r)), stash :: (u32 \<times> utext) list, c # t) \<in> measure (\<lambda>(_, t). length t)"
    using length_dropWhile_le [of "\<lambda>c. c \<noteq> 0x5D" r] by simp
qed auto

declare inflate.simps [simp del]

definition inflate_paste_refs :: "'m app \<Rightarrow> utext \<Rightarrow> utext" where
  "inflate_paste_refs a t = (if ap_paste_stash a = [] then t else inflate (ap_paste_stash a) t)"

section \<open>Command suggestions\<close>

record slash_cmd =
  sc_name :: string
  sc_args :: string
  sc_help :: string

definition OVERLAY_MAX_ITEMS :: nat where "OVERLAY_MAX_ITEMS = 16"

definition cmd :: "string \<Rightarrow> string \<Rightarrow> string \<Rightarrow> slash_cmd" where
  "cmd n a h = \<lparr>sc_name = n, sc_args = a, sc_help = h\<rparr>"

definition COMMANDS :: "slash_cmd list" where
  "COMMANDS = [
     cmd ''help'' '''' ''list commands'',
     cmd ''clear'' '''' ''clear the transcript'',
     cmd ''mode'' ''<local|network>'' ''pick backend mode'',
     cmd ''model'' ''<name>'' ''switch active model'',
     cmd ''models'' '''' ''open the model picker'',
     cmd ''hosting'' '''' ''view + manage slices you host'',
     cmd ''leave'' ''[<n> | <cid> <start> <end>]'' ''drain a hosted slice (no args to pick from a list)'',
     cmd ''service'' ''<install|status|uninstall>'' ''manage the intelnav-node systemd unit'',
     cmd ''keybindings'' '''' ''list every keyboard shortcut'',
     cmd ''doctor'' '''' ''runtime snapshot'',
     cmd ''quorum'' ''<n>'' ''set replication quorum'',
     cmd ''tier'' ''<lan|cont|wan>'' ''set network tier'',
     cmd ''peers'' ''[host:port,... split,...]'' ''configure pipeline peer chain'',
     cmd ''draft'' ''[path.gguf k]'' ''enable speculative decoding'',
     cmd ''wire'' ''<fp16|int8>'' ''activation dtype on the chain'',
     cmd ''quit'' '''' ''exit the app'']"

definition ulower :: "nat \<Rightarrow> nat" where
  "ulower c = (if 0x41 \<le> c \<and> c \<le> 0x5A then c + 0x20 else c)"

definition suggest :: "utext \<Rightarrow> slash_cmd list" where
  "suggest input =
     (case strip_prefix input (ascii ''/'') of
        None \<Rightarrow> []
      | Some rest \<Rightarrow>
          if list_ex uwhite rest then []
          else take OVERLAY_MAX_ITEMS (filter (\<lambda>c. starts_with (ascii (sc_name c)) (map ulower rest)) COMMANDS))"

definition suggestions :: "'m app \<Rightarrow> slash_cmd list" where
  "suggestions a = suggest (ap_input a)"

definition set_input :: "utext \<Rightarrow> 'm app \<Rightarrow> 'm app" where
  "set_input t a = a\<lparr>ap_input := t, ap_cursor := blen t\<rparr>"

definition accept_suggestion :: "'m app \<Rightarrow> 'm app" where
  "accept_suggestion a =
     (let s = suggestions a
      in if s = [] then a
         else let c = s ! min (ap_sugg_idx a) (length s - 1)
              in (set_input (ascii (''/'' @ sc_name c @ (if sc_args c = [] then [] else '' ''))) a)\<lparr>ap_sugg_idx := 0\<rparr>)"

section \<open>The prompt history\<close>

definition row_limit :: "'m app \<Rightarrow> nat" where
  "row_limit a = unat (max (ap_last_input_inner_w a) 4)"

definition cursor_on_first_input_row :: "app_env \<Rightarrow> 'm app \<Rightarrow> bool" where
  "cursor_on_first_input_row E a \<longleftrightarrow> fst (cursor_visual_pos (ae_cw E) (ap_input a) (ap_cursor a) (row_limit a)) = 0"

definition cursor_on_last_input_row :: "app_env \<Rightarrow> 'm app \<Rightarrow> bool" where
  "cursor_on_last_input_row E a \<longleftrightarrow>
     word_of_nat (length (input_visual_rows (ae_cw E) (ap_input a) (row_limit a)))
       \<le> fst (cursor_visual_pos (ae_cw E) (ap_input a) (ap_cursor a) (row_limit a)) + 1"

text \<open>An index out of range panics.\<close>

definition nth_opt :: "'a list \<Rightarrow> nat \<Rightarrow> 'a option" where
  "nth_opt xs i = (if i < length xs then Some (xs ! i) else None)"

definition history_up :: "'m app \<Rightarrow> 'm app option" where
  "history_up a =
     (if ap_prompt_history a = [] then Some a
      else let i = (case ap_history_idx a of None \<Rightarrow> length (ap_prompt_history a) - 1 | Some n \<Rightarrow> n - 1)
           in map_option (\<lambda>t. set_input t (a\<lparr>ap_history_idx := Some i\<rparr>)) (nth_opt (ap_prompt_history a) i))"

definition history_down :: "'m app \<Rightarrow> 'm app option" where
  "history_down a =
     (case ap_history_idx a of
        None \<Rightarrow> Some a
      | Some i \<Rightarrow>
          if length (ap_prompt_history a) \<le> i + 1 then Some (set_input [] (a\<lparr>ap_history_idx := None\<rparr>))
          else map_option (\<lambda>t. set_input t (a\<lparr>ap_history_idx := Some (i + 1)\<rparr>)) (nth_opt (ap_prompt_history a) (i + 1)))"

section \<open>A prompt\<close>

definition emit_fatal :: "string \<Rightarrow> 'm app \<Rightarrow> 'm app" where
  "emit_fatal msg a =
     (if ap_history a \<noteq> [] \<and> tn_role (last (ap_history a)) = Assistant \<and> \<not> tn_complete (last (ap_history a))
      then let t = last (ap_history a)
           in a\<lparr>ap_history := butlast (ap_history a) @ [t\<lparr>tn_content := tn_content t @ msg, tn_complete := True\<rparr>]\<rparr>
      else push_system msg a)"

definition role_name :: "turn_role \<Rightarrow> string" where
  "role_name r = (case r of User \<Rightarrow> ''user'' | Assistant \<Rightarrow> ''assistant'' | System \<Rightarrow> ''system'')"

text \<open>
  What the model is sent: every turn but the system ones, without the reply that is still empty. The
  last message is dropped when it is an assistant's and empty.
\<close>

definition chat_messages :: "ui_turn list \<Rightarrow> chat_turn list" where
  "chat_messages h =
     (let ms = map (\<lambda>t. \<lparr>ct_role = role_name (tn_role t), ct_content = tn_content t\<rparr>)
                (filter (\<lambda>t. \<not> (tn_role t = Assistant \<and> \<not> tn_complete t \<and> tn_content t = []))
                  (filter (\<lambda>t. tn_role t \<noteq> System) h))
      in if ms \<noteq> [] \<and> ct_role (last ms) = ''assistant'' \<and> ct_content (last ms) = [] then butlast ms else ms)"

definition start_local :: "app_env \<Rightarrow> chat_turn list \<Rightarrow> 'm app \<Rightarrow> 'm app" where
  "start_local E ms a =
     (case resolve (ae_fs E) (ae_cwd E) (ap_local_scan a) (ap_model a) of
        None \<Rightarrow> emit_fatal (''no local model matches `'' @ ap_model a @ ''`. /models to list. Drop a .gguf into '' @
                 ae_path_text E (ap_models_dir a)) a
      | Some m \<Rightarrow> if is_usable m then a\<lparr>ap_streaming := Some (LocalJob m ms)\<rparr> else emit_fatal (status_line m) a)"

definition start_chain :: "app_env \<Rightarrow> chat_turn list \<Rightarrow> 'm app \<Rightarrow> 'm app" where
  "start_chain E ms a =
     (if cd_target (ap_chain a) = None
      then emit_fatal ''no peer chain configured. /peers <host:port,...> <split,...> to set one.'' a
      else case resolve (ae_fs E) (ae_cwd E) (ap_local_scan a) (ap_model a) of
        None \<Rightarrow> emit_fatal (''peer chain needs the same GGUF locally for the front slice; no match for `'' @ ap_model a @
                 ''` in '' @ ae_path_text E (ap_models_dir a) @ ''. /models to list.'') a
      | Some m \<Rightarrow> if is_usable m then a\<lparr>ap_streaming := Some (ChainJob m ms)\<rparr> else emit_fatal (status_line m) a)"

definition send_prompt :: "app_env \<Rightarrow> string \<Rightarrow> 'm app \<Rightarrow> 'm app" where
  "send_prompt E msg a =
     (let a1 = a\<lparr>ap_history := ap_history a @ [user_turn msg, assistant_open], ap_follow_tail := True\<rparr>;
          ms = chat_messages (ap_history a1)
      in case ap_mode a of LocalMode \<Rightarrow> start_local E ms a1 | Network \<Rightarrow> start_chain E ms a1)"

text \<open>
  Enter: the trimmed input is remembered (unless it is a command or a repetition), its placeholders are
  put back, and it is run as a command (by \<open>slash\<close>) or sent to the model.
\<close>

definition submit :: "app_env \<Rightarrow> (string \<Rightarrow> 'm app \<Rightarrow> 'w) \<Rightarrow> ('m app \<Rightarrow> 'w) \<Rightarrow> 'm app \<Rightarrow> 'w" where
  "submit E slash ret a =
     (if in_overlay a then ret a
      else let msg = utrim (ap_input a);
               a1 = a\<lparr>ap_input := [], ap_cursor := 0, ap_history_idx := None\<rparr>
           in if msg = [] then ret a1
              else let a2 = (if \<not> starts_with msg (ascii ''/'') \<and> (ap_prompt_history a1 = [] \<or> last (ap_prompt_history a1) \<noteq> msg)
                             then a1\<lparr>ap_prompt_history := ap_prompt_history a1 @ [msg]\<rparr> else a1);
                       full = inflate_paste_refs a2 msg
                   in case strip_prefix full (ascii ''/'') of
                        Some c \<Rightarrow> slash (utf8 c) a2
                      | None \<Rightarrow> ret (send_prompt E (utf8 full) a2))"

end
