(* ===== verification/App_Slash.thy ===== *)
theory App_Slash
  imports App Swarm_Node
begin

text \<open>
  The slash commands of the chat client (\<open>handle_slash\<close> and what it calls in
  \<open>crates/app/src/tui/mod.rs\<close>). The daemon the hosting commands talk to is its control state, \<open>None\<close> when
  nothing listens on the socket; a call is one dispatched request. \<open>None\<close> as a result is a panic.
\<close>

type_synonym 'm ui = "'m app \<times> control_state option"

definition say :: "string \<Rightarrow> 'm ui \<Rightarrow> 'm ui" where
  "say s = apfst (push_system s)"

definition daemon_call :: "app_env \<Rightarrow> request \<Rightarrow> 'm ui \<Rightarrow> (string + response) \<times> 'm ui" where
  "daemon_call E req u =
     (case snd u of
        None \<Rightarrow> (Inl (''connect '' @ ae_sock E), u)
      | Some st \<Rightarrow> let (r, st') = dispatch (ae_now E) req st in (Inr r, (fst u, Some st')))"

text \<open>The message of an error reply.\<close>

definition refusal_text :: "response \<Rightarrow> string option" where
  "refusal_text r =
     (case r of RespNotAnnouncing \<Rightarrow> Some ''slice not currently announcing''
      | RespBadRequest e \<Rightarrow> Some (''bad request: '' @ e) | _ \<Rightarrow> None)"

section \<open>Hosting\<close>

definition state_word :: "slice_status \<Rightarrow> string" where
  "state_word s = (case s of Announcing \<Rightarrow> ''active'' | Draining \<Rightarrow> ''draining'' | Stopped \<Rightarrow> ''stopped'')"

definition slice_text :: "string \<Rightarrow> hosted_slice \<Rightarrow> string" where
  "slice_text label s =
     pad_right 32 label @ '' layers ['' @ pad_left 3 (show_u16 (hs_start s)) @ ''..'' @ pad_left 3 (show_u16 (hs_end s)) @ '') '' @
     middle_dot @ '' '' @ state_word (hs_state s) @ '' '' @ middle_dot @ '' '' @ dec_digits (unat (hs_active_chains s)) @ '' active''"

definition hosted_line :: "hosted_slice \<Rightarrow> string" where
  "hosted_line s = ''  '' @ slice_text (if hs_display_name s = [] then hs_cid s else hs_display_name s) s @ newline"

definition handle_hosting_cmd :: "app_env \<Rightarrow> 'm ui \<Rightarrow> 'm ui" where
  "handle_hosting_cmd E u =
     (let (r, u1) = daemon_call E ReqListHosted u
      in say (case r of
                Inr (RespHosted ss) \<Rightarrow>
                  (if ss = [] then ''hosting: nothing yet '' @ em_dash @ '' open /models and press `c` on a row to contribute.''
                   else ''hosting:'' @ newline @ concat (map hosted_line ss) @ newline @
                        ''  /leave <cid> <start> <end> to drain a slice gracefully.'')
              | Inr other \<Rightarrow>
                  (case refusal_text other of Some m \<Rightarrow> ''hosting: daemon refused: '' @ m | None \<Rightarrow> ''hosting: unexpected daemon reply'')
              | Inl _ \<Rightarrow> ''hosting: daemon not reachable. /service install or run `intelnav-node`.'') u1)"

definition do_leave :: "app_env \<Rightarrow> string \<Rightarrow> u16 \<Rightarrow> u16 \<Rightarrow> 'm ui \<Rightarrow> 'm ui option" where
  "do_leave E cid s e u =
     (let (r, u1) = daemon_call E (ReqLeave cid s e) u
      in case r of
           Inr RespLeaving \<Rightarrow>
             map_option (\<lambda>short. say (''leaving '' @ short @ '' '' @ show_range s e @ '' '' @ em_dash @
               '' draining; in-flight chains will finish.'') u1) (short12 cid)
         | Inr other \<Rightarrow>
             Some (say (case refusal_text other of Some m \<Rightarrow> ''/leave failed: '' @ m | None \<Rightarrow> ''/leave: unexpected daemon reply'') u1)
         | Inl err \<Rightarrow> Some (say (''/leave: daemon unreachable: '' @ err) u1))"

fun picker_lines :: "nat \<Rightarrow> hosted_slice list \<Rightarrow> string list option" where
  "picker_lines n [] = Some []"
| "picker_lines n (s # ss) =
     Option.bind (if hs_display_name s = [] then short12 (hs_cid s) else Some (hs_display_name s)) (\<lambda>label.
     Option.bind (picker_lines (n + 1) ss) (\<lambda>ls.
       Some ((''  ['' @ dec_digits n @ '']  '' @ slice_text label s) # ls)))"

definition slice_of :: "hosted_slice \<Rightarrow> slice_key" where
  "slice_of s = (hs_cid s, hs_start s, hs_end s)"

definition show_leave_picker :: "app_env \<Rightarrow> 'm ui \<Rightarrow> 'm ui option" where
  "show_leave_picker E u =
     (let (r, u1) = daemon_call E ReqListHosted u
      in case r of
           Inr (RespHosted ss) \<Rightarrow>
             (if ss = []
              then Some (say (''/leave: nothing hosted right now '' @ em_dash @ '' /models then `c` to start.'')
                          (apfst (\<lambda>a. a\<lparr>ap_leave_picker := []\<rparr>) u1))
              else map_option (\<lambda>ls. say (sep_by newline ((''pick a slice to drain (then `/leave <n>`):'') # ls))
                                 (apfst (\<lambda>a. a\<lparr>ap_leave_picker := map slice_of ss\<rparr>) u1)) (picker_lines 1 ss))
         | Inr other \<Rightarrow>
             Some (say (case refusal_text other of Some m \<Rightarrow> ''/leave: daemon refused: '' @ m | None \<Rightarrow> ''/leave: unexpected daemon reply'') u1)
         | Inl _ \<Rightarrow> Some (say ''/leave: daemon not reachable. /service install or run `intelnav-node`.'' u1))"

definition leave_usage :: string where
  "leave_usage =
     sep_by newline [''usage:'', ''  /leave                       list hosted slices to pick from'',
       ''  /leave <n>                   drain row n from the last listing'',
       ''  /leave <cid> <start> <end>   drain by full coords'']"

definition leave_coords :: "app_env \<Rightarrow> string list \<Rightarrow> 'm ui \<Rightarrow> 'm ui option" where
  "leave_coords E args u =
     (case args of
        cid # s # e # _ \<Rightarrow>
          (case (parse_uint (2 ^ 16) s, parse_uint (2 ^ 16) e) of
             (Some s', Some e') \<Rightarrow> do_leave E cid (word_of_nat s') (word_of_nat e') u
           | _ \<Rightarrow> Some (say leave_usage u))
      | _ \<Rightarrow> Some (say leave_usage u))"

text \<open>\<open>usize\<close> row numbers; row 0 and rows past the listing are refused.\<close>

definition handle_leave_cmd :: "app_env \<Rightarrow> string list \<Rightarrow> 'm ui \<Rightarrow> 'm ui option" where
  "handle_leave_cmd E args u =
     (case args of
        [] \<Rightarrow> show_leave_picker E u
      | [w] \<Rightarrow>
          (case parse_uint (2 ^ 64) w of
             Some n \<Rightarrow>
               (case (if n = 0 then None else nth_opt (ap_leave_picker (fst u)) (n - 1)) of
                  Some (cid, s, e) \<Rightarrow> do_leave E cid s e u
                | None \<Rightarrow> Some (say (''/leave '' @ dec_digits n @ '': no row '' @ dec_digits n @ '' in the last listing '' @ em_dash @
                            '' type /leave with no args to refresh.'') u))
           | None \<Rightarrow> leave_coords E args u)
      | _ \<Rightarrow> leave_coords E args u)"

section \<open>The peer chain\<close>

text \<open>The display of \<open>ParseIntError\<close> for a text that does not parse.\<close>

fun int_fault :: "nat \<Rightarrow> nat \<Rightarrow> string \<Rightarrow> string" where
  "int_fault b acc [] = ''invalid digit found in string''"
| "int_fault b acc (c # cs) =
     (case dec_digit_val c of None \<Rightarrow> ''invalid digit found in string''
      | Some d \<Rightarrow> if 10 * acc + d < b then int_fault b (10 * acc + d) cs else ''number too large to fit in target type'')"

definition int_error :: "nat \<Rightarrow> string \<Rightarrow> string" where
  "int_error b s =
     (if s = [] then ''cannot parse integer from empty string''
      else int_fault b 0 (case s of CHR ''+'' # t \<Rightarrow> if t = [] then s else t | _ \<Rightarrow> s))"

definition parse_u16 :: "string \<Rightarrow> string + u16" where
  "parse_u16 s = (case parse_uint (2 ^ 16) s of Some n \<Rightarrow> Inr (word_of_nat n) | None \<Rightarrow> Inl (int_error (2 ^ 16) s))"

definition with_chain :: "('m chain_driver \<Rightarrow> 'm chain_driver) \<Rightarrow> 'm app \<Rightarrow> 'm app" where
  "with_chain f a = a\<lparr>ap_chain := f (ap_chain a)\<rparr>"

definition handle_peers_cmd :: "app_env \<Rightarrow> string list \<Rightarrow> 'm app \<Rightarrow> 'm app" where
  "handle_peers_cmd E args a =
     (case args of
        [] \<Rightarrow> push_system (case cd_target (ap_chain a) of
                  Some t \<Rightarrow> ''peer chain: '' @ target_summary t
                | None \<Rightarrow> ''peer chain: (not configured) '' @ em_dash @ '' /peers a:7717,b:7717 6,12'') a
      | p # rest \<Rightarrow>
          if p = ''clear'' then push_system ''peer chain cleared'' (with_chain (set_target None) a)
          else (case rest of
             [] \<Rightarrow> push_system (''/peers <host:port,...> <split,...> '' @ em_dash @ '' e.g. /peers 10.0.0.4:7717,10.0.0.5:7717 8,16'') a
           | sp # _ \<Rightarrow>
               (case mapM parse_u16 (env_list sp) of
                  Inl e \<Rightarrow> push_system (''bad --splits value: '' @ e) a
                | Inr splits \<Rightarrow>
                    (case from_config (ae_parse_addr E) (env_list p) splits of
                       Inl e \<Rightarrow> push_system (''peers: '' @ target_error_text e) a
                     | Inr t \<Rightarrow> push_system (''peer chain '' @ arrow @ '' '' @ target_summary t @ newline @
                                  ''(use /mode network to route turns through it)'') (with_chain (set_target (Some t)) a)))))"

definition handle_draft_cmd :: "app_env \<Rightarrow> string list \<Rightarrow> 'm app \<Rightarrow> 'm app" where
  "handle_draft_cmd E args a =
     (case args of
        [] \<Rightarrow> push_system (case cd_draft (ap_chain a) of
                  Some d \<Rightarrow> ''draft: '' @ draft_summary d
                | None \<Rightarrow> ''draft: (not configured) '' @ em_dash @ '' /draft <path.gguf> [k=4]'') a
      | p # rest \<Rightarrow>
          if p = ''clear'' then push_system (''draft cleared '' @ em_dash @ '' spec-dec disabled'') (with_chain (set_draft None) a)
          else if \<not> is_file (ae_fs E) (path_of (ae_cwd E) p) then push_system (''draft: no such file: '' @ p) a
          else let k = (case rest of [] \<Rightarrow> 4 | w # _ \<Rightarrow> (case parse_uint (2 ^ 64) w of Some n \<Rightarrow> n | None \<Rightarrow> 4))
               in if k < 2 then push_system (''draft: k must be '' @ at_least @ '' 2, got '' @ dec_digits k) a
                  else let d = \<lparr>dt_path = path_of (ae_cwd E) p, dt_k = k\<rparr>
                       in push_system (''draft '' @ arrow @ '' '' @ draft_summary d @ newline @
                            ''(spec-dec is greedy-only in v1: temperature is ignored)'') (with_chain (set_draft (Some d)) a))"

definition dtype_word :: "dtype \<Rightarrow> string" where
  "dtype_word d = (case d of Fp16 \<Rightarrow> ''fp16'' | Int8 \<Rightarrow> ''int8'' | Bf16 \<Rightarrow> ''bf16'')"

definition handle_wire_cmd :: "string list \<Rightarrow> 'm app \<Rightarrow> 'm app" where
  "handle_wire_cmd args a =
     (case args of
        [] \<Rightarrow> push_system (''wire dtype: '' @ dtype_word (cd_wire_dtype (ap_chain a)) @ '' (switch: /wire fp16|int8)'') a
      | w # _ \<Rightarrow> (case parse_wire_dtype w of
            (d, name) \<Rightarrow> push_system (''wire dtype '' @ arrow @ '' '' @ name) (with_chain (set_wire_dtype d) a)))"

section \<open>The picker\<close>

definition scan_local_kept :: "app_env \<Rightarrow> path \<Rightarrow> kept_ranges list" where
  "scan_local_kept E models_dir =
     (let shards = join models_dir ''.shards''
      in List.map_filter (\<lambda>n. Option.bind (read_file (ae_fs E) (kept_path (join shards n))) (ae_kept E)) (read_dir shards (ae_fs E)))"

definition add_request :: "kept_ranges \<Rightarrow> (string \<times> (u16 \<times> u16) list) list \<Rightarrow> (string \<times> (u16 \<times> u16) list) list" where
  "add_request k rs = (if list_ex (\<lambda>(c, _). c = kr_model_cid k) rs then rs else rs @ [(kr_model_cid k, kr_kept k)])"

text \<open>Every catalog CID, then every hosted one the catalog does not have.\<close>

definition refresh_requests :: "app_env \<Rightarrow> path \<Rightarrow> (string \<times> (u16 \<times> u16) list) list" where
  "refresh_requests E models_dir =
     fold add_request (scan_local_kept E models_dir) (map (\<lambda>e. (ae_cid_of E e, swarm_ranges e)) CATALOG)"

definition kick_swarm_refresh :: "app_env \<Rightarrow> 'm app \<Rightarrow> 'm app" where
  "kick_swarm_refresh E a =
     (if ap_swarm_index a then a\<lparr>ap_swarm_rx := Some (refresh_requests E (ap_models_dir a))\<rparr> else a)"

definition show_rows :: "app_env \<Rightarrow> 'm app \<Rightarrow> 'm app" where
  "show_rows E a =
     a\<lparr>ap_view := BrowserView (browser_new (build_rows (ae_cid_of E) (ap_local_scan a) (ap_swarm_models a) (ae_free E)))\<rparr>"

definition open_browser :: "app_env \<Rightarrow> 'm app \<Rightarrow> 'm app" where
  "open_browser E a =
     kick_swarm_refresh E (show_rows E (a\<lparr>ap_local_scan := list_models (ae_fs E) (ap_models_dir a)\<rparr>))"

section \<open>Dispatch\<close>

definition return_sign :: string where "return_sign = [CHR 0xE2, CHR 0x86, CHR 0xB5]"
definition up_arrow :: string where "up_arrow = [CHR 0xE2, CHR 0x86, CHR 0x91]"
definition down_arrow :: string where "down_arrow = [CHR 0xE2, CHR 0x86, CHR 0x93]"

definition keybindings_text :: string where
  "keybindings_text = sep_by newline
     [''keybindings:'',
      ''  '' @ return_sign @ ''                  send the prompt'',
      ''  shift + '' @ return_sign @ ''          newline (also: '' @ [CHR 0x5C] @ '' + '' @ return_sign @ '')'',
      ''  esc esc            clear input (double-tap within 600 ms)'',
      ''  ctrl + c           cancel stream / clear input. twice within 1.5s = quit'',
      ''  ctrl + d           quit when input is empty'',
      ''  ctrl + l           clear transcript'',
      ''  ctrl + g           edit current input in $EDITOR'',
      ''  ctrl + shift + _   undo last input edit'',
      ''  alt + p            cycle to next cached model'',
      ''  '' @ up_arrow @ '' / '' @ down_arrow @ ''              prompt history (when cursor is on first/last input row)'',
      ''  tab                accept slash-completion'',
      ''  page up / down     scroll transcript'',
      ''  shift + home/end   jump to start/end of transcript'',
      ''  ctrl + z           suspend (terminal default; resume with `fg`)'']"

definition help_line :: "slash_cmd \<Rightarrow> string" where
  "help_line c =
     (if sc_args c = [] then ''  /'' @ pad_right 8 (sc_name c) @ ''  '' @ sc_help c
      else ''  /'' @ pad_right 8 (sc_name c) @ '' '' @ pad_right 20 (sc_args c) @ ''  '' @ sc_help c)"

fun service_status_text :: "service_status \<Rightarrow> string" where
  "service_status_text ServiceActive = ''Active''"
| "service_status_text RunningAdHoc = ''RunningAdHoc''"
| "service_status_text Inactive = ''Inactive''"
| "service_status_text Unsupported = ''Unsupported''"

definition handle_service_cmd :: "app_env \<Rightarrow> string list \<Rightarrow> 'm app \<Rightarrow> 'm app option" where
  "handle_service_cmd E args a =
     (let act = (case args of [] \<Rightarrow> ''status'' | w # _ \<Rightarrow> w)
      in map_option (\<lambda>s. push_system s a)
        (if act = ''status'' then Some (''service: '' @ service_status_text (service_state (ae_service E) (ae_now E)))
         else if act = ''install''
         then (case fst (install_service (ae_service E) (ae_now E)) of
                 Installed \<Rightarrow> Some ''service: installed and started.''
               | InstallError e \<Rightarrow> Some (''service install: '' @ e)
               | InstallPanic \<Rightarrow> None)
         else if act = ''uninstall''
         then Some (case fst (uninstall_service (ae_service E)) of
                      Inr _ \<Rightarrow> ''service: uninstalled.'' | Inl e \<Rightarrow> ''service uninstall: '' @ e)
         else Some (''/service: unknown action `'' @ act @ ''` '' @ em_dash @ '' install|status|uninstall'')))"

definition handle_mode_cmd :: "string list \<Rightarrow> 'm app \<Rightarrow> 'm app" where
  "handle_mode_cmd args a =
     (case args of
        [] \<Rightarrow> push_system (''current mode: '' @ mode_str (ap_mode a)) a
      | w # _ \<Rightarrow>
          (case mode_from_str w of
             Inr m \<Rightarrow> push_system (''mode '' @ arrow @ '' '' @ mode_str m) (a\<lparr>ap_mode := m\<rparr>)
           | Inl e \<Rightarrow> push_system e a))"

definition handle_model_cmd :: "string list \<Rightarrow> 'm app \<Rightarrow> 'm app" where
  "handle_model_cmd args a =
     (case args of
        [] \<Rightarrow> push_system (''current model: '' @ ap_model a) a
      | w # _ \<Rightarrow> push_system (''model '' @ arrow @ '' '' @ w) (a\<lparr>ap_model := w\<rparr>))"

definition ascii_upper :: "char \<Rightarrow> char" where
  "ascii_upper c = (let n = of_char c :: nat in if 97 \<le> n \<and> n \<le> 122 then char_of (n - 32) else c)"

definition handle_quorum_cmd :: "string list \<Rightarrow> 'm app \<Rightarrow> 'm app" where
  "handle_quorum_cmd args a =
     (case args of
        [] \<Rightarrow> a
      | w # _ \<Rightarrow>
          (case parse_uint 256 w of
             None \<Rightarrow> a
           | Some n \<Rightarrow> push_system (''quorum '' @ arrow @ '' '' @ dec_digits n) (a\<lparr>ap_quorum := word_of_nat n\<rparr>)))"

definition handle_tier_cmd :: "string list \<Rightarrow> 'm app \<Rightarrow> 'm app" where
  "handle_tier_cmd args a =
     (case args of
        [] \<Rightarrow> a
      | w # _ \<Rightarrow> push_system (''tier '' @ arrow @ '' '' @ w) (a\<lparr>ap_tier := map ascii_upper w\<rparr>))"

definition open_doctor :: "app_env \<Rightarrow> 'm app \<Rightarrow> 'm app" where
  "open_doctor E a =
     a\<lparr>ap_view := Doctor \<lparr>dv_runtime = ae_runtime E, dv_available = ae_available E, dv_preferred = ae_preferred E,
         dv_models_dir = ap_models_dir a, dv_model = ap_model a, dv_mode = mode_str (ap_mode a)\<rparr>\<rparr>"

text \<open>The commands that touch only the client and cannot fail.\<close>

definition client_cmd :: "app_env \<Rightarrow> string \<Rightarrow> string list \<Rightarrow> 'm app \<Rightarrow> 'm app" where
  "client_cmd E h args a =
     (if h = ''help'' then push_system (sep_by newline (''commands:'' # map help_line COMMANDS)) a
      else if h = ''clear'' then a\<lparr>ap_history := []\<rparr>
      else if h = ''mode'' then handle_mode_cmd args a
      else if h = ''model'' then handle_model_cmd args a
      else if h = ''models'' then open_browser E a
      else if h = ''doctor'' then open_doctor E a
      else if h = ''quorum'' then handle_quorum_cmd args a
      else if h = ''tier'' then handle_tier_cmd args a
      else if h = ''peers'' then handle_peers_cmd E args a
      else if h = ''draft'' then handle_draft_cmd E args a
      else if h = ''wire'' then handle_wire_cmd args a
      else if h = ''keybindings'' \<or> h = ''keys'' then push_system keybindings_text a
      else if h = ''quit'' \<or> h = ''exit'' then a\<lparr>ap_should_quit := True\<rparr>
      else push_system (''unknown command: /'' @ h) a)"

definition handle_slash :: "app_env \<Rightarrow> string \<Rightarrow> 'm ui \<Rightarrow> 'm ui option" where
  "handle_slash E c u =
     (let parts = split_whitespace c; h = (case parts of [] \<Rightarrow> [] | w # _ \<Rightarrow> w); args = tl parts
      in if h = ''hosting'' then Some (handle_hosting_cmd E u)
         else if h = ''leave'' then handle_leave_cmd E args u
         else if h = ''service'' then map_option (\<lambda>a. (a, snd u)) (handle_service_cmd E args (fst u))
         else Some (apfst (client_cmd E h args) u))"

definition submit_ui :: "app_env \<Rightarrow> 'm ui \<Rightarrow> 'm ui option" where
  "submit_ui E u = submit E (\<lambda>c a. handle_slash E c (a, snd u)) (\<lambda>a. Some (a, snd u)) (fst u)"

end
