(* ===== verification/App_Events.thy ===== *)
theory App_Events
  imports App_Slash
begin

text \<open>
  What the picker starts and what the background tasks report (\<open>commit_browser\<close>, \<open>contribute_browser\<close>,
  \<open>start_install\<close> and the \<open>drain_*\<close> functions of \<open>crates/app/src/tui/mod.rs\<close>). A drain handles the messages
  that are there, up to one that ends the task; what is behind it is dropped with the channel.
\<close>

section \<open>Committing a row\<close>

definition close_browser :: "'m app \<Rightarrow> 'm app" where
  "close_browser a = a\<lparr>ap_view := Chat\<rparr>"

definition current_row :: "'m app \<Rightarrow> source_row option" where
  "current_row a = (case ap_view a of BrowserView s \<Rightarrow> browser_current s | _ \<Rightarrow> None)"

definition path_stem :: "path \<Rightarrow> string option" where
  "path_stem p = (if p = [] then None else Some (file_stem (last p)))"

definition or_default :: "'a option \<Rightarrow> 'a \<Rightarrow> 'a" where
  "or_default v d = (case v of Some x \<Rightarrow> x | None \<Rightarrow> d)"

definition range_triples :: "swarm_model \<Rightarrow> (u16 \<times> u16 \<times> provider_record list) list" where
  "range_triples m = map (\<lambda>r. (rc_start r, rc_end r, rc_providers r)) (sm_ranges m)"

definition start_install :: "app_env \<Rightarrow> catalog_entry \<Rightarrow> 'm app \<Rightarrow> 'm app" where
  "start_install E e a =
     (if ap_download a \<noteq> None then push_system (''another download is in progress '' @ em_dash @ '' wait for it to finish.'') a
      else (push_system (''installing '' @ ce_display_name e @ '' '' @ arrow @ '' '' @ ae_path_text E (ap_models_dir a)) a)
             \<lparr>ap_download := Some e,
              ap_dl_progress := Some \<lparr>dp_label = ce_display_name e, dp_done = 0, dp_total = Some (size_bytes e), dp_bps = 0\<rparr>\<rparr>)"

definition lost_model :: string where
  "lost_model = ''swarm cache lost this model '' @ em_dash @ '' reopen /models and retry.''"

definition commit_swarm :: "app_env \<Rightarrow> source_row \<Rightarrow> string \<Rightarrow> nat \<Rightarrow> 'm app \<Rightarrow> 'm app option" where
  "commit_swarm E row cid peers a =
     (case List.find (\<lambda>m. sm_cid m = cid) (ap_swarm_models a) of
        None \<Rightarrow> Some (push_system lost_model a)
      | Some m \<Rightarrow>
          (case from_swarm (ae_parse_addr E) (range_triples m) of
             Inr t \<Rightarrow>
               map_option (\<lambda>short.
                 (with_chain (set_target (Some t))
                    (push_system (arrow @ '' swarm '' @ middle_dot @ '' '' @ row_model row @ '' ('' @ dec_digits peers @ '' peers, cid='' @ short @
                      '') '' @ middle_dot @ '' chain '' @ target_summary t) a))\<lparr>ap_mode := Network, ap_model := row_model row\<rparr>) (short12 cid)
           | Inl e \<Rightarrow> Some (push_system (''couldn't assemble chain for '' @ row_model row @ '': '' @ target_error_text e) a)))"

definition commit_browser :: "app_env \<Rightarrow> 'm app \<Rightarrow> 'm app option" where
  "commit_browser E a =
     (case current_row a of
        None \<Rightarrow> Some a
      | Some row \<Rightarrow>
          if \<not> row_enabled row then Some a
          else map_option close_browser
            (case row_kind row of
               RowLocal p \<Rightarrow>
                 (let stem = or_default (path_stem p) (row_model row)
                  in Some (push_system (arrow @ '' local '' @ middle_dot @ '' '' @ stem) (a\<lparr>ap_mode := LocalMode, ap_model := stem\<rparr>)))
             | RowSwarm cid peers _ _ _ \<Rightarrow> commit_swarm E row cid peers a
             | RowInstall e _ _ \<Rightarrow> Some (start_install E e a)))"

section \<open>Contributing\<close>

definition begin_split :: "app_env \<Rightarrow> catalog_entry \<Rightarrow> local_model \<Rightarrow> 'm app \<Rightarrow> 'm app" where
  "begin_split E e m a =
     (push_system (''splitting '' @ ce_display_name e @ '' '' @ arrow @ '' shards in '' @ ae_path_text E (ap_models_dir a) @
        ''/.shards/'' @ ae_cid_of E e) a)\<lparr>ap_splitting := Some (e, m)\<rparr>"

definition contribute_local :: "app_env \<Rightarrow> path \<Rightarrow> 'm app \<Rightarrow> 'm app" where
  "contribute_local E p a =
     (let stem = trim_end_matches ''.gguf'' (or_default (path_stem p) [])
      in case (find_by_local_name stem, List.find (\<lambda>m. lm_path m = p) (ap_local_scan a)) of
           (None, _) \<Rightarrow>
             push_system (''`'' @ stem @ ''` isn't in the catalog '' @ em_dash @ '' hosting an arbitrary GGUF needs catalog metadata '' @
               ''(block_count, standard splits). Either pick a hub row in /models, or add this model to '' @
               ''crates/app/src/catalog.rs first.'') a
         | (Some e, Some m) \<Rightarrow>
             if is_usable m then begin_split E e m a
             else push_system (stem @ '' cached but not usable: '' @ status_line m) a
         | (Some _, None) \<Rightarrow> push_system (stem @ '': local file vanished between scans '' @ em_dash @ '' reopen /models'') a)"

definition contribute_swarm :: "string \<Rightarrow> 'm app \<Rightarrow> 'm app option" where
  "contribute_swarm cid a =
     (case List.find (\<lambda>m. sm_cid m = cid) (ap_swarm_models a) of
        None \<Rightarrow> Some (push_system lost_model a)
      | Some m \<Rightarrow>
          (case default_range (range_triples m) of
             None \<Rightarrow> Some (push_system ''no provider on the DHT publishes a chunk-server URL for any slice yet.'' a)
           | Some (s, e, p) \<Rightarrow>
               Option.bind (short12 cid) (\<lambda>c. map_option (\<lambda>peer.
                 (push_system (''pulling slice '' @ show_range s e @ '' of '' @ c @ '' from '' @ peer) a)\<lparr>ap_pulling := Some (cid, (s, e), p)\<rparr>)
                 (short12 (pr_peer_id p)))))"

definition contribute_install :: "app_env \<Rightarrow> catalog_entry \<Rightarrow> 'm app \<Rightarrow> 'm app" where
  "contribute_install E e a =
     (case List.find (\<lambda>m. lm_name m = gguf_stem e) (ap_local_scan a) of
        Some m \<Rightarrow>
          if is_usable m then begin_split E e m a
          else push_system (ce_display_name e @ '' is cached but not usable: '' @ status_line m) a
      | None \<Rightarrow>
          push_system (ce_display_name e @ '' isn't cached yet '' @ em_dash @
            '' press Enter on this row to download first, then `c` to split + host.'') a)"

definition contribute_browser :: "app_env \<Rightarrow> 'm app \<Rightarrow> 'm app option" where
  "contribute_browser E a =
     (case current_row a of
        None \<Rightarrow> Some a
      | Some row \<Rightarrow>
          if \<not> row_contribute_ok row then Some a
          else map_option close_browser
            (case row_kind row of
               RowLocal p \<Rightarrow> Some (contribute_local E p a)
             | RowSwarm cid _ _ _ _ \<Rightarrow> contribute_swarm cid a
             | RowInstall e _ _ \<Rightarrow> Some (contribute_install E e a)))"

section \<open>Deltas of the model\<close>

datatype stream_delta = Token string | StreamDone | StreamError string

definition on_last :: "(ui_turn \<Rightarrow> ui_turn) \<Rightarrow> 'm app \<Rightarrow> 'm app" where
  "on_last f a = (if ap_history a = [] then a else a\<lparr>ap_history := butlast (ap_history a) @ [f (last (ap_history a))]\<rparr>)"

definition if_open :: "(ui_turn \<Rightarrow> ui_turn) \<Rightarrow> ui_turn \<Rightarrow> ui_turn" where
  "if_open f t = (if tn_role t = Assistant \<and> \<not> tn_complete t then f t else t)"

fun stream_events :: "stream_delta list \<Rightarrow> 'm app \<Rightarrow> 'm app" where
  "stream_events [] a = a"
| "stream_events (Token s # ds) a = stream_events ds (on_last (if_open (\<lambda>t. t\<lparr>tn_content := tn_content t @ s\<rparr>)) a)"
| "stream_events (StreamDone # ds) a =
     (on_last (\<lambda>t. if tn_role t = Assistant then t\<lparr>tn_complete := True\<rparr> else t) a)\<lparr>ap_streaming := None\<rparr>"
| "stream_events (StreamError e # ds) a =
     (if ap_history a = [] then push_system (''error: '' @ e) a
      else on_last (if_open (\<lambda>t. t\<lparr>tn_content := tn_content t @ newline @ warn_sign @ '' '' @ e, tn_complete := True\<rparr>)) a)
       \<lparr>ap_streaming := None\<rparr>"

definition drain_stream :: "stream_delta list \<Rightarrow> 'm app \<Rightarrow> 'm app" where
  "drain_stream ds a = (if ap_streaming a = None then a else stream_events ds a)"

section \<open>The other tasks\<close>

fun swarm_events :: "app_env \<Rightarrow> swarm_model list list \<Rightarrow> 'm app \<Rightarrow> 'm app" where
  "swarm_events E [] a = a"
| "swarm_events E (ms # rest) a =
     swarm_events E rest (let a1 = a\<lparr>ap_swarm_models := ms\<rparr> in case ap_view a of BrowserView _ \<Rightarrow> show_rows E a1 | _ \<Rightarrow> a1)"

definition drain_swarm :: "app_env \<Rightarrow> swarm_model list list \<Rightarrow> 'm app \<Rightarrow> 'm app" where
  "drain_swarm E evs a =
     (if ap_swarm_rx a = None \<or> evs = [] then a else (swarm_events E evs a)\<lparr>ap_swarm_rx := None\<rparr>)"

definition kept_text :: "(u16 \<times> u16) list \<Rightarrow> string" where
  "kept_text rs = sep_by '' '' (map (\<lambda>(s, e). show_range s e) rs)"

fun pull_events :: "app_env \<Rightarrow> pull_event list \<Rightarrow> 'm app \<Rightarrow> 'm app option" where
  "pull_events E [] a = Some a"
| "pull_events E (PullStarted url rg # evs) a =
     pull_events E evs (push_system (''pull: GET '' @ url @ '' for slice '' @ show_range (fst rg) (snd rg)) a)"
| "pull_events E (PullManifestOk cid n # evs) a =
     Option.bind (short12 cid) (\<lambda>c.
       pull_events E evs (push_system (''pull: manifest ok ('' @ dec_digits (unat n) @ '' layers, cid '' @ c @ '')'') a))"
| "pull_events E (PullChunksDone bs n # evs) a =
     pull_events E evs (push_system (''pull: chunks ok ('' @ dec_digits n @ '' bundles, '' @ human_bytes bs @ '')'') a)"
| "pull_events E (PullDone kept root # evs) a =
     Some ((push_system (check_mark @ '' slice pulled '' @ em_dash @ '' hosting '' @ kept_text kept @ '' in '' @ ae_path_text E root) a)
            \<lparr>ap_pulling := None\<rparr>)"
| "pull_events E (PullError e # evs) a =
     Some ((push_system (warn_sign @ '' pull failed: '' @ ae_pull_error E e) a)\<lparr>ap_pulling := None\<rparr>)"

definition drain_pull :: "app_env \<Rightarrow> pull_event list \<Rightarrow> 'm app \<Rightarrow> 'm app option" where
  "drain_pull E evs a = (if ap_pulling a = None then Some a else pull_events E evs a)"

fun split_events :: "app_env \<Rightarrow> split_event list \<Rightarrow> 'm app \<Rightarrow> 'm app option" where
  "split_events E [] a = Some a"
| "split_events E (SplitStarted gguf out # evs) a =
     split_events E evs (push_system (''split: chunking '' @ ae_path_text E gguf @ '' '' @ arrow @ '' '' @ ae_path_text E out) a)"
| "split_events E (SplitDone cid n bs kept root # evs) a =
     map_option (\<lambda>c.
       (push_system (''shards live at '' @ ae_path_text E root)
         (push_system (dotted [check_mark @ '' split done '' @ em_dash @ '' '' @ dec_digits n @ '' bundles'', human_bytes bs @ '' written'',
            ''manifest '' @ c, ''hosting '' @ kept_text kept]) a))\<lparr>ap_splitting := None\<rparr>) (short12 cid)"
| "split_events E (SplitError e # evs) a =
     Some ((push_system (warn_sign @ '' split failed: '' @ ae_split_error E e) a)\<lparr>ap_splitting := None\<rparr>)"

definition drain_split :: "app_env \<Rightarrow> split_event list \<Rightarrow> 'm app \<Rightarrow> 'm app option" where
  "drain_split E evs a = (if ap_splitting a = None then Some a else split_events E evs a)"

datatype dl_event = DlProgress dl_progress | DlDone string path | DlError string string

fun dl_events :: "app_env \<Rightarrow> dl_event list \<Rightarrow> 'm app \<Rightarrow> 'm app" where
  "dl_events E [] a = a"
| "dl_events E (DlProgress p # evs) a = dl_events E evs (a\<lparr>ap_dl_progress := Some p\<rparr>)"
| "dl_events E (DlDone label p # evs) a =
     (let stem = or_default (path_stem p) label
      in (push_system (check_mark @ '' installed '' @ label @ '' '' @ em_dash @ '' ready to use as `'' @ stem @ ''`'') a)
           \<lparr>ap_local_scan := list_models (ae_fs E) (ap_models_dir a), ap_mode := LocalMode, ap_model := stem,
            ap_download := None, ap_dl_progress := None\<rparr>)"
| "dl_events E (DlError label m # evs) a =
     (push_system (warn_sign @ '' '' @ label @ '': '' @ m) a)\<lparr>ap_download := None, ap_dl_progress := None\<rparr>"

definition drain_download :: "app_env \<Rightarrow> dl_event list \<Rightarrow> 'm app \<Rightarrow> 'm app" where
  "drain_download E evs a = (if ap_download a = None then a else dl_events E evs a)"

end
