(* ===== verification/Download.thy ===== *)
theory Download
  imports App_Events
begin

text \<open>
  Model downloads, \<open>crates/app/src/download.rs\<close>: the streaming download to a \<open>.part\<close> file that is renamed at the end,
  and the installation of a catalog entry. The network and the disk are the environment: a response is its
  status and the chunks of its body, each with the time it arrives (in milliseconds; the clock reads 1000
  when a download starts) and whether the write it leads to is accepted. Tokio's file takes a write before
  it is on disk and reports the failure of the last one when it is flushed: \<open>rs_kept\<close> is how much of the file
  is on disk then. Bytes per second are computed in \<open>f64\<close>, a parameter.
\<close>

section \<open>The environment\<close>

datatype dl_step = Chunk nat bytes bool | ReadFails

record dl_response =
  rs_success :: bool
  rs_status :: string
  rs_total :: "u64 option"
  rs_steps :: "dl_step list"
  rs_kept :: "nat option"
  rs_end :: nat

record dl_env =
  de_mkdir :: "path \<Rightarrow> bool"
  de_client :: bool
  de_get :: "string \<Rightarrow> dl_response option"
  de_create :: "path \<Rightarrow> bool"
  de_rename :: bool
  de_bps :: "u64 \<Rightarrow> nat \<Rightarrow> f64"
  de_show :: "path \<Rightarrow> string"

section \<open>One download\<close>

definition part_of :: "path \<Rightarrow> path" where
  "part_of dest =
     (let ext = (case extension (last dest) of Some e \<Rightarrow> e | None \<Rightarrow> [])
      in with_extension dest (if ext = [] then ''part'' else ext @ ''.part''))"

definition sat_add64 :: "u64 \<Rightarrow> u64 \<Rightarrow> u64" where
  "sat_add64 a b = (if a + b < a then - 1 else a + b)"

definition append_file :: "path \<Rightarrow> bytes \<Rightarrow> fs \<Rightarrow> fs" where
  "append_file p bs fs = write_file p ((case read_file fs p of Some old \<Rightarrow> old | None \<Rightarrow> []) @ bs) fs"

text \<open>The loop over the body: a progress event at most every 120 ms.\<close>

fun dl_loop :: "dl_env \<Rightarrow> string \<Rightarrow> u64 option \<Rightarrow> path \<Rightarrow> dl_step list \<Rightarrow> u64 \<Rightarrow> nat \<Rightarrow> u64 \<Rightarrow> fs \<Rightarrow>
    (string + u64) \<times> dl_event list \<times> fs" where
  "dl_loop E label want part [] cnt last_emit last_cnt fs = (Inr cnt, [], fs)"
| "dl_loop E label want part (ReadFails # steps) cnt last_emit last_cnt fs = (Inl ''network read'', [], fs)"
| "dl_loop E label want part (Chunk t bs ok # steps) cnt last_emit last_cnt fs =
     (if \<not> ok then (Inl ''file write'', [], fs)
      else let fs1 = append_file part bs fs;
               cnt1 = sat_add64 cnt (word_of_nat (length bs))
           in if 120 \<le> t - last_emit
              then (case dl_loop E label want part steps cnt1 t cnt1 fs1 of (r, evs, fs2) \<Rightarrow>
                     (r, DlProgress \<lparr>dp_label = label, dp_done = cnt1, dp_total = want,
                           dp_bps = de_bps E (cnt1 - last_cnt) (max 1 (t - last_emit))\<rparr> # evs, fs2))
              else dl_loop E label want part steps cnt1 last_emit last_cnt fs1)"

text \<open>After the loop: the flush, whose error is dropped, the rename, and a last progress event.\<close>

definition finish_download :: "dl_env \<Rightarrow> string \<Rightarrow> path \<Rightarrow> dl_response \<Rightarrow> (string + u64) \<times> dl_event list \<times> fs \<Rightarrow>
    (string + path) \<times> dl_event list \<times> fs" where
  "finish_download E label dest rs = (\<lambda>(q, evs, fs1).
     case q of
       Inl e \<Rightarrow> (Inl e, evs, fs1)
     | Inr cnt \<Rightarrow>
         let part = part_of dest;
             fs2 = (case rs_kept rs of None \<Rightarrow> fs1 | Some n \<Rightarrow> write_file part (take n (the (read_file fs1 part))) fs1)
         in if \<not> de_rename E then (Inl (''rename '' @ de_show E part @ '' '' @ arrow @ '' '' @ de_show E dest), evs, fs2)
            else (Inr dest,
                  evs @ [DlProgress \<lparr>dp_label = label, dp_done = cnt, dp_total = Some cnt, dp_bps = de_bps E cnt (max 1 (rs_end rs - 1000))\<rparr>],
                  rename_file part dest fs2))"

definition download :: "dl_env \<Rightarrow> string \<Rightarrow> path \<Rightarrow> string \<Rightarrow> fs \<Rightarrow> (string + path) \<times> dl_event list \<times> fs" where
  "download E url dest label fs =
     (if dest \<noteq> [] \<and> \<not> de_mkdir E (butlast dest) then (Inl (''mkdir '' @ de_show E (butlast dest)), [], fs)
      else if \<not> de_client E then (Inl ''http client'', [], fs)
      else case de_get E url of
        None \<Rightarrow> (Inl (''GET '' @ url), [], fs)
      | Some rs \<Rightarrow>
          if \<not> rs_success rs then (Inl (url @ '' returned '' @ rs_status rs), [], fs)
          else if \<not> de_create E (part_of dest) then (Inl (''create '' @ de_show E (part_of dest)), [], fs)
          else finish_download E label dest rs
                 (dl_loop E label (rs_total rs) (part_of dest) (rs_steps rs) 0 0 0 (write_file (part_of dest) [] fs)))"

section \<open>Installing a catalog entry\<close>

definition install_entry :: "dl_env \<Rightarrow> catalog_entry \<Rightarrow> path \<Rightarrow> fs \<Rightarrow> dl_event list \<times> fs" where
  "install_entry E ce dir fs =
     (let tok_label = ce_display_name ce @ '' '' @ middle_dot @ '' tokenizer'';
          gguf_label = ce_display_name ce @ '' '' @ middle_dot @ '' weights''
      in case download E (tokenizer_url ce) (join dir (gguf_stem ce @ ''.tokenizer.json'')) tok_label fs of
           (Inl e, evs, fs1) \<Rightarrow> (evs @ [DlError tok_label e], fs1)
         | (Inr _, evs, fs1) \<Rightarrow>
             (case download E (gguf_url ce) (join dir (gguf_file ce)) gguf_label fs1 of
                (Inl e, evs2, fs2) \<Rightarrow> (evs @ evs2 @ [DlError gguf_label e], fs2)
              | (Inr p, evs2, fs2) \<Rightarrow> (evs @ evs2 @ [DlDone (ce_display_name ce) p], fs2)))"

text \<open>A download on its own, for any URL.\<close>

definition spawn :: "dl_env \<Rightarrow> string \<Rightarrow> path \<Rightarrow> string \<Rightarrow> fs \<Rightarrow> dl_event list \<times> fs" where
  "spawn E url dest label fs =
     (case download E url dest label fs of
        (Inr p, evs, fs1) \<Rightarrow> (evs @ [DlDone label p], fs1)
      | (Inl e, evs, fs1) \<Rightarrow> (evs @ [DlError label e], fs1))"

section \<open>What is on disk\<close>

definition body_of :: "dl_step list \<Rightarrow> bytes" where
  "body_of steps = concat (map (\<lambda>s. case s of Chunk t bs ok \<Rightarrow> bs | ReadFails \<Rightarrow> []) steps)"

lemma stem_ext: "file_stem s \<noteq> s \<Longrightarrow> s = file_stem s @ ''.'' @ drop (length (file_stem s) + 1) s"
proof -
  assume n: "file_stem s \<noteq> s"
  define r where "r = dropWhile (\<lambda>c. c \<noteq> CHR ''.'') (rev s)"
  define t where "t = takeWhile (\<lambda>c. c \<noteq> CHR ''.'') (rev s)"
  from n have r: "r \<noteq> []" "tl r \<noteq> []" "file_stem s = rev (tl r)" by (auto simp: file_stem_def r_def Let_def split: if_splits)
  have "hd r = CHR ''.''" using hd_dropWhile [of "\<lambda>c. c \<noteq> CHR ''.''" "rev s"] r(1) by (simp add: r_def)
  then have "r = CHR ''.'' # tl r" using r(1) by (metis list.collapse)
  moreover have "rev s = t @ r" by (simp add: r_def t_def)
  ultimately have "s = rev (tl r) @ ''.'' @ rev t" by (metis append.assoc append_Cons append_Nil rev.simps(2) rev_append rev_rev_ident)
  then show ?thesis using r(3) by (metis append.assoc append_eq_conv_conj length_append_singleton Suc_eq_plus1)
qed

lemma part_ne: "dest \<noteq> [] \<Longrightarrow> part_of dest \<noteq> dest"
proof
  assume "dest \<noteq> []" and eq: "part_of dest = dest"
  then have l: "last (part_of dest) = last dest" by simp
  let ?s = "last dest"
  show False
  proof (cases "extension ?s")
    case None
    then have "file_stem ?s = ?s" by (auto simp: extension_def split: if_splits)
    then show ?thesis using l None \<open>dest \<noteq> []\<close> by (simp add: part_of_def with_extension_def)
  next
    case (Some e)
    then have "file_stem ?s \<noteq> ?s" and e: "e = drop (length (file_stem ?s) + 1) ?s" by (auto simp: extension_def split: if_splits)
    from stem_ext [OF this(1)] e have s: "?s = file_stem ?s @ ''.'' @ e" by simp
    have "file_stem ?s @ ''.'' @ (if e = [] then ''part'' else e @ ''.part'') = file_stem ?s @ ''.'' @ e"
      using l Some \<open>dest \<noteq> []\<close> s by (simp add: part_of_def with_extension_def)
    then show ?thesis by (simp split: if_splits)
  qed
qed

lemma read_append_file:
  "read_file (append_file p bs fs) q = (if q = p then Some ((case read_file fs p of Some old \<Rightarrow> old | None \<Rightarrow> []) @ bs) else read_file fs q)"
  by (simp add: append_file_def read_write_file)

text \<open>The loop touches the part file only; it ends well exactly when every read and write does, with the whole body there.\<close>

lemma dl_loop_disk:
  assumes "dl_loop E label want part steps cnt le lc fs = (r, evs, fs1)" "read_file fs part = Some old"
  shows "(\<forall>p. p \<noteq> part \<longrightarrow> read_file fs1 p = read_file fs p) \<and>
    (\<forall>n. r = Inr n \<longrightarrow> read_file fs1 part = Some (old @ body_of steps)) \<and>
    ((\<exists>n. r = Inr n) \<longleftrightarrow> (\<forall>s \<in> set steps. \<exists>t bs. s = Chunk t bs True))"
  using assms
proof (induction E label want part steps cnt le lc fs arbitrary: r evs old fs1 rule: dl_loop.induct)
  case (3 E label want part t bs ok steps cnt le lc fs)
  show ?case
  proof (cases ok)
    case True
    let ?fs = "append_file part bs fs" and ?c = "sat_add64 cnt (word_of_nat (length bs))"
    have rd: "read_file ?fs part = Some (old @ bs)" using 3(4) by (simp add: read_append_file)
    obtain r2 e2 f2 where rec: "(if 120 \<le> t - le then dl_loop E label want part steps ?c t ?c ?fs
        else dl_loop E label want part steps ?c le lc ?fs) = (r2, e2, f2)" by (metis prod_cases3)
    have eq: "r = r2" "fs1 = f2" using 3(3) rec True by (auto simp: Let_def split: if_splits prod.splits)
    have "(\<forall>p. p \<noteq> part \<longrightarrow> read_file f2 p = read_file ?fs p) \<and>
        (\<forall>n. r2 = Inr n \<longrightarrow> read_file f2 part = Some ((old @ bs) @ body_of steps)) \<and>
        ((\<exists>n. r2 = Inr n) \<longleftrightarrow> (\<forall>s \<in> set steps. \<exists>t bs. s = Chunk t bs True))"
    proof (cases "120 \<le> t - le")
      case c: True
      with rec have l: "dl_loop E label want part steps ?c t ?c ?fs = (r2, e2, f2)" by simp
      show ?thesis by (rule 3(1) [OF _ refl refl c l rd]) (simp add: True)
    next
      case c: False
      with rec have l: "dl_loop E label want part steps ?c le lc ?fs = (r2, e2, f2)" by simp
      show ?thesis by (rule 3(2) [OF _ refl refl c l rd]) (simp add: True)
    qed
    then show ?thesis using eq True by (auto simp: read_append_file body_of_def)
  next
    case False
    then show ?thesis using 3(3) by auto
  qed
qed (auto simp: body_of_def)

text \<open>What is installed for a response.\<close>

definition landed :: "dl_response \<Rightarrow> bytes" where
  "landed rs = (case rs_kept rs of None \<Rightarrow> body_of (rs_steps rs) | Some n \<Rightarrow> take n (body_of (rs_steps rs)))"

definition body_ok :: "dl_response \<Rightarrow> bool" where
  "body_ok rs \<longleftrightarrow> (\<forall>s \<in> set (rs_steps rs). \<exists>t bs. s = Chunk t bs True)"

lemma finish_disk:
  assumes "part_of dest \<noteq> dest" "finish_download E label dest rs (q, evs, f1) = (r, evs', fs')"
    and "\<And>n. q = Inr n \<Longrightarrow> read_file f1 (part_of dest) = Some (body_of (rs_steps rs))"
  shows "(\<forall>p. p \<noteq> part_of dest \<longrightarrow> p \<noteq> dest \<longrightarrow> read_file fs' p = read_file f1 p) \<and>
    (case r of Inl e \<Rightarrow> read_file fs' dest = read_file f1 dest
     | Inr d \<Rightarrow> d = dest \<and> (\<exists>n. q = Inr n) \<and> read_file fs' (part_of dest) = None \<and> read_file fs' dest = Some (landed rs))"
proof (cases q)
  case (Inr cnt)
  let ?part = "part_of dest"
  let ?f2 = "case rs_kept rs of None \<Rightarrow> f1 | Some n \<Rightarrow> write_file ?part (take n (the (read_file f1 ?part))) f1"
  have f2: "read_file ?f2 ?part = Some (landed rs)" "\<And>p. p \<noteq> ?part \<Longrightarrow> read_file ?f2 p = read_file f1 p"
    using assms(3) [OF Inr] by (auto simp: read_write_file landed_def split: option.splits)
  show ?thesis using assms(1,2) Inr f2
    by (cases "de_rename E") (auto simp: finish_download_def Let_def read_rename_file [OF f2(1) assms(1)])
qed (use assms in \<open>auto simp: finish_download_def\<close>)

lemma download_disk:
  assumes "dest \<noteq> []" "download E url dest label fs = (r, evs, fs')"
  shows "(\<forall>p. p \<noteq> part_of dest \<longrightarrow> p \<noteq> dest \<longrightarrow> read_file fs' p = read_file fs p) \<and>
    (case r of
       Inl e \<Rightarrow> read_file fs' dest = read_file fs dest
     | Inr d \<Rightarrow> d = dest \<and> read_file fs' (part_of dest) = None \<and>
         (\<exists>rs. de_get E url = Some rs \<and> rs_success rs \<and> body_ok rs \<and> read_file fs' dest = Some (landed rs)))"
proof -
  let ?part = "part_of dest"
  note ne = part_ne [OF assms(1)]
  consider e where "r = Inl e" "fs' = fs" | rs where "de_get E url = Some rs" "rs_success rs"
    "finish_download E label dest rs (dl_loop E label (rs_total rs) ?part (rs_steps rs) 0 0 0 (write_file ?part [] fs)) = (r, evs, fs')"
    using assms(2) unfolding download_def by (auto split: if_splits option.splits)
  then show ?thesis
  proof cases
    case 2
    obtain q e1 f1 where l: "dl_loop E label (rs_total rs) ?part (rs_steps rs) 0 0 0 (write_file ?part [] fs) = (q, e1, f1)"
      by (metis prod_cases3)
    have "read_file (write_file ?part [] fs) ?part = Some []" by (simp add: read_write_file)
    note disk = dl_loop_disk [OF l this]
    have keep: "read_file f1 p = read_file fs p" if "p \<noteq> ?part" for p using disk that by (simp add: read_write_file)
    from finish_disk [OF ne 2(3) [unfolded l]] disk have
      "(\<forall>p. p \<noteq> ?part \<longrightarrow> p \<noteq> dest \<longrightarrow> read_file fs' p = read_file f1 p) \<and>
       (case r of Inl e \<Rightarrow> read_file fs' dest = read_file f1 dest
        | Inr d \<Rightarrow> d = dest \<and> (\<exists>n. q = Inr n) \<and> read_file fs' ?part = None \<and> read_file fs' dest = Some (landed rs))" by simp
    then show ?thesis using keep ne disk 2(1,2) by (cases r) (auto simp: body_ok_def)
  qed simp
qed

text \<open>
  C28. A download never leaves a half-written file under its name: until the body has been read and written to its
  end, the destination is what it was, and when the download succeeds it is what was written to the part
  file, which is gone. That is the whole body, except that a failure of the flush is ignored: then the file
  that is installed lacks its end.
\<close>

theorem download_atomic:
  assumes "dest \<noteq> []" "download E url dest label fs = (r, evs, fs')"
  shows "(\<forall>p. p \<noteq> part_of dest \<longrightarrow> p \<noteq> dest \<longrightarrow> read_file fs' p = read_file fs p) \<and>
    (case r of
       Inl e \<Rightarrow> read_file fs' dest = read_file fs dest
     | Inr d \<Rightarrow> d = dest \<and> read_file fs' (part_of dest) = None \<and>
         (\<exists>rs. de_get E url = Some rs \<and> rs_success rs \<and> (\<forall>s \<in> set (rs_steps rs). \<exists>t bs. s = Chunk t bs True) \<and>
            read_file fs' dest = Some (case rs_kept rs of None \<Rightarrow> body_of (rs_steps rs) | Some n \<Rightarrow> take n (body_of (rs_steps rs)))))"
  using download_disk [OF assms] unfolding landed_def body_ok_def .

definition demo_dl :: "nat option \<Rightarrow> dl_env" where
  "demo_dl kept = \<lparr>de_mkdir = (\<lambda>_. True), de_client = True,
     de_get = (\<lambda>_. Some \<lparr>rs_success = True, rs_status = ''200 OK'', rs_total = Some 3, rs_steps = [Chunk 1005 [1, 2] True, Chunk 1200 [3] True],
        rs_kept = kept, rs_end = 1300\<rparr>),
     de_create = (\<lambda>_. True), de_rename = True, de_bps = (\<lambda>_ _. 0), de_show = (\<lambda>_. [])\<rparr>"

text \<open>The disk fills up with the last byte still in memory: the flush fails, and the truncated file is installed.\<close>

lemma download_atomic_witness:
  "\<exists>evs fs'. download (demo_dl (Some 2)) ''u'' [''m.gguf''] ''m'' [] = (Inr [''m.gguf''], evs, fs') \<and> read_file fs' [''m.gguf''] = Some [1, 2]"
proof -
  obtain r evs fs' where d: "download (demo_dl (Some 2)) ''u'' [''m.gguf''] ''m'' [] = (r, evs, fs')" by (metis prod_cases3)
  have "r = Inr [''m.gguf'']" using d by (auto simp: download_def demo_dl_def finish_download_def Let_def)
  with download_atomic [OF _ d] d show ?thesis by (auto simp: demo_dl_def body_of_def)
qed

section \<open>Installation\<close>

fun in_progress :: "dl_event \<Rightarrow> bool" where
  "in_progress (DlProgress p) = True" | "in_progress _ = False"

lemma dl_loop_progress: "list_all in_progress (fst (snd (dl_loop E label want part steps cnt le lc fs)))"
  by (induction E label want part steps cnt le lc fs rule: dl_loop.induct) (simp_all add: Let_def case_prod_unfold)

lemma finish_progress: "list_all in_progress (fst (snd x)) \<Longrightarrow> list_all in_progress (fst (snd (finish_download E label dest rs x)))"
  by (cases x) (auto simp: finish_download_def Let_def split: sum.splits)

lemma download_progress:
  assumes "download E url dest label fs = (r, evs, fs')"
  shows "list_all in_progress evs"
proof -
  have "list_all in_progress (fst (snd (download E url dest label fs)))"
    by (simp add: download_def finish_progress dl_loop_progress split: option.splits)
  with assms show ?thesis by simp
qed

lemma dl_events_progress: "list_all in_progress evs \<Longrightarrow> dl_events A (evs @ [DlDone label p]) a = dl_events A [DlDone label p] a"
proof (induction evs arbitrary: a)
  case (Cons e evs)
  then show ?case by (cases e) (simp_all add: Let_def push_system_def)
qed simp

text \<open>The names of a catalog entry's files.\<close>

lemma catalog_names:
  assumes "ce \<in> set CATALOG"
  shows "gguf_stem ce @ ''.gguf'' = gguf_file ce \<and> file_stem (gguf_file ce) = gguf_stem ce \<and> extension (gguf_file ce) = Some ''gguf''"
proof -
  have "list_all (\<lambda>ce. gguf_stem ce @ ''.gguf'' = gguf_file ce \<and> file_stem (gguf_file ce) = gguf_stem ce \<and> extension (gguf_file ce) = Some ''gguf'') CATALOG"
    by code_simp
  with assms show ?thesis unfolding list_all_iff by blast
qed

lemma installed_files:
  assumes "ce \<in> set CATALOG" "install_entry E ce dir fs = (pre @ [DlDone l p], fs2)" "list_all in_progress pre"
  shows "l = ce_display_name ce \<and> p = join dir (gguf_file ce) \<and> is_file fs2 (join dir (gguf_file ce)) \<and>
    is_file fs2 (join dir (gguf_stem ce @ ''.tokenizer.json''))"
proof -
  let ?t = "join dir (gguf_stem ce @ ''.tokenizer.json'')" and ?g = "join dir (gguf_file ce)"
  note n = catalog_names [OF assms(1)]
  obtain r1 e1 f1 where 1: "download E (tokenizer_url ce) ?t (ce_display_name ce @ '' '' @ middle_dot @ '' tokenizer'') fs = (r1, e1, f1)"
    by (metis prod_cases3)
  obtain r2 e2 f2 where 2: "download E (gguf_url ce) ?g (ce_display_name ce @ '' '' @ middle_dot @ '' weights'') f1 = (r2, e2, f2)"
    by (metis prod_cases3)
  have ok: "\<exists>a. r1 = Inr a" "\<exists>b. r2 = Inr b" and out: "l = ce_display_name ce" "Inr p = r2" "fs2 = f2"
    using assms(2) 1 2 by (auto simp: install_entry_def Let_def split: sum.splits)
  have dt: "?t \<noteq> []" "?g \<noteq> []" by (simp_all add: join_def)
  have part: "part_of ?g = join dir (gguf_stem ce @ ''.gguf.part'')" using n by (simp add: part_of_def with_extension_def join_def)
  have ne: "?t \<noteq> part_of ?g" "?t \<noteq> ?g"
    unfolding part using n by (auto simp: join_def simp flip: n [THEN conjunct1])
  have "is_file f1 ?t" using download_disk [OF dt(1) 1] ok(1) by (auto simp: is_file_def)
  then have "is_file f2 ?t" using download_disk [OF dt(2) 2] ne by (auto simp: is_file_def)
  moreover have "p = ?g \<and> is_file f2 ?g" using download_disk [OF dt(2) 2] out(2) by (auto simp: is_file_def)
  ultimately show ?thesis using out by simp
qed

text \<open>
  C40. Installing from the picker ends with a model that can be used: when the installation of a catalog entry
  reports that it is done, the client is in local mode with that model chosen, and the model is in its
  scan of the models directory with a tokenizer, so the next prompt runs on it.
\<close>

theorem installed_is_usable:
  assumes "ce \<in> set CATALOG" "install_entry E ce dir fs = (pre @ [DlDone l p], fs2)" "list_all in_progress pre"
    and "ap_download a \<noteq> None" "ap_models_dir a = dir" "ae_fs A = fs2"
  shows "\<exists>m. m \<in> set (ap_local_scan (drain_download A (pre @ [DlDone l p]) a)) \<and> is_usable m \<and> lm_path m = join dir (gguf_file ce) \<and>
    ap_mode (drain_download A (pre @ [DlDone l p]) a) = LocalMode \<and> ap_model (drain_download A (pre @ [DlDone l p]) a) = lm_name m \<and>
    ap_download (drain_download A (pre @ [DlDone l p]) a) = None"
proof -
  let ?b = "drain_download A (pre @ [DlDone l p]) a" and ?m = "model_at fs2 (join dir (gguf_file ce))"
  note n = catalog_names [OF assms(1)]
  note f = installed_files [OF assms(1-3)]
  have b: "?b = dl_events A [DlDone l p] a" using assms(4)
    by (simp only: drain_download_def dl_events_progress [OF assms(3)] if_False)
  have "gguf_file ce \<in> set (dir_files dir fs2)" using f
    by (force simp: dir_files_def is_file_def read_file_def join_def dest: map_of_SomeD)
  then have "?m \<in> set (list_models fs2 dir)" using n by (auto simp: list_models_def)
  moreover have "locate_for fs2 (join dir (gguf_file ce)) \<noteq> None" using f n by (simp add: locate_for_def join_def)
  then have "is_usable ?m" by (simp add: is_usable_def model_at_def sniff_arch_def)
  ultimately show ?thesis unfolding b using f n assms(5,6)
    by (intro exI [of _ ?m]) (simp add: Let_def model_at_def path_stem_def or_default_def join_def)
qed

lemma installed_is_usable_witness:
  "\<exists>evs fs2 m. install_entry (demo_dl None) (hd CATALOG) [] [] = (evs, fs2) \<and> m \<in> set (list_models fs2 []) \<and> is_usable m"
proof -
  let ?ce = "hd CATALOG" and ?E = "demo_dl None"
  obtain r1 e1 f1 where 1: "download ?E (tokenizer_url ?ce) (join [] (gguf_stem ?ce @ ''.tokenizer.json'')) (ce_display_name ?ce @ '' '' @ middle_dot @ '' tokenizer'') [] = (r1, e1, f1)"
    by (metis prod_cases3)
  obtain r2 e2 f2 where 2: "download ?E (gguf_url ?ce) (join [] (gguf_file ?ce)) (ce_display_name ?ce @ '' '' @ middle_dot @ '' weights'') f1 = (r2, e2, f2)"
    by (metis prod_cases3)
  have "\<exists>p. download ?E u d la x = (Inr p, evs, y)" if "download ?E u d la x = (r, evs, y)" for u d la x r evs y
    using that by (auto simp: download_def demo_dl_def finish_download_def Let_def)
  then obtain p1 p2 where r: "r1 = Inr p1" "r2 = Inr p2" using 1 2 by fastforce
  have inst: "install_entry ?E ?ce [] [] = ((e1 @ e2) @ [DlDone (ce_display_name ?ce) p2], f2)"
    using 1 2 r by (simp add: install_entry_def Let_def)
  have ce: "?ce \<in> set CATALOG" by (simp add: CATALOG_def)
  have prog: "list_all in_progress (e1 @ e2)" using download_progress [OF 1] download_progress [OF 2] by simp
  let ?a = "(app_new [] LocalMode chain_driver_new [] [] 1 False [] :: unit app)\<lparr>ap_download := Some ?ce\<rparr>"
  let ?A = "\<lparr>ae_fs = f2, ae_cwd = [], ae_cw = (\<lambda>_. 1), ae_now = 0, ae_parse_addr = Some, ae_free = 0, ae_runtime = [],
      ae_available = [], ae_preferred = [], ae_cid_of = (\<lambda>_. []), ae_kept = (\<lambda>_. None), ae_service = demo_service,
      ae_sock = [], ae_path_text = (\<lambda>_. []), ae_pull_error = (\<lambda>_. []), ae_split_error = (\<lambda>_. [])\<rparr> :: app_env"
  have a: "ap_download ?a \<noteq> None" "ap_models_dir ?a = []" "ae_fs ?A = f2" by (simp_all add: app_new_def)
  have "ap_local_scan (drain_download ?A ((e1 @ e2) @ [DlDone (ce_display_name ?ce) p2]) ?a) = list_models f2 []"
    using a by (simp only: drain_download_def dl_events_progress [OF prog] if_False) (simp add: Let_def)
  with installed_is_usable [OF ce inst prog a] inst show ?thesis by auto
qed

end
