(* ===== verification/First_Run.thy ===== *)
theory First_Run
  imports Swarm_Node Config
begin

text \<open>
  What the binaries set up before they start, \<open>crates/app/src/firstrun.rs\<close>, the identity of the node
  (\<open>load_or_generate_identity\<close> in \<open>swarm_node.rs\<close>) and the command \<open>intelnav init\<close> (\<open>cmd.rs\<close>). The disk holds files, the
  directories that exist and the files set to mode 0600; the operating system says which directories, files
  and ports can be had. The TOML printer, the crate \<open>hex\<close> and the source of random seeds are parameters.
  An identity is its 32-byte seed.
\<close>

section \<open>The disk and the host\<close>

record disk =
  dk_files :: fs
  dk_dirs :: "path list"
  dk_private :: "path list"

definition exists_at :: "path \<Rightarrow> disk \<Rightarrow> bool" where
  "exists_at p d \<longleftrightarrow> read_file (dk_files d) p \<noteq> None \<or> p \<in> set (dk_dirs d)"

record host =
  ho_dirs :: "project_dirs option"
  ho_cwd :: path
  ho_mkdir :: "path \<Rightarrow> bool"
  ho_write :: "path \<Rightarrow> bool"
  ho_chmod :: "path \<Rightarrow> bool"
  ho_bind :: "nat \<Rightarrow> u16 \<Rightarrow> u16 option option" \<comment> \<open>of the n-th attempt: not bound, or bound and its port if it has one\<close>
  ho_toml :: "config \<Rightarrow> bytes option"
  ho_hex :: "bytes \<Rightarrow> string"
  ho_unhex :: "string \<Rightarrow> bytes option"
  ho_random :: bytes

datatype host_error =
    NoConfigDir
  | MkdirFailed path
  | TomlFailed
  | WriteFailed path
  | PermsFailed path

text \<open>A fallible step that changes the disk: what it has done stays done when it fails.\<close>

type_synonym 'a on_disk = "disk \<Rightarrow> (host_error + 'a) \<times> disk"

definition dbind :: "'a on_disk \<Rightarrow> ('a \<Rightarrow> 'b on_disk) \<Rightarrow> 'b on_disk" where
  "dbind m f d = (case m d of (Inl e, d') \<Rightarrow> (Inl e, d') | (Inr x, d') \<Rightarrow> f x d')"

definition create_dir_all :: "host \<Rightarrow> path \<Rightarrow> unit on_disk" where
  "create_dir_all H p d =
     (if p \<in> set (dk_dirs d) then (Inr (), d)
      else if ho_mkdir H p then (Inr (), d\<lparr>dk_dirs := map (\<lambda>n. take n p) [0..<Suc (length p)] @ dk_dirs d\<rparr>)
      else (Inl (MkdirFailed p), d))"

definition write_at :: "host \<Rightarrow> path \<Rightarrow> bytes \<Rightarrow> unit on_disk" where
  "write_at H p bs d =
     (if ho_write H p then (Inr (), d\<lparr>dk_files := write_file p bs (dk_files d)\<rparr>) else (Inl (WriteFailed p), d))"

definition set_private_perms :: "host \<Rightarrow> path \<Rightarrow> unit on_disk" where
  "set_private_perms H p d =
     (if ho_chmod H p then (Inr (), d\<lparr>dk_private := p # dk_private d\<rparr>) else (Inl (PermsFailed p), d))"

section \<open>First run\<close>

record init_report =
  ir_wrote_config :: bool
  ir_wrote_identity :: bool
  ir_created_models_dir :: bool

definition is_first_run :: "init_report \<Rightarrow> bool" where
  "is_first_run r \<longleftrightarrow> ir_wrote_config r \<or> ir_wrote_identity r"

definition identity_path :: "host \<Rightarrow> path" where
  "identity_path H = (case ho_dirs H of Some p \<Rightarrow> join (pd_data p) ''peer.key'' | None \<Rightarrow> join (ho_cwd H) ''peer.key'')"

text \<open>Two attempts to bind: the preferred port, then any. The listener is released again.\<close>

definition pick_free_port :: "host \<Rightarrow> nat \<Rightarrow> u16 \<Rightarrow> u16" where
  "pick_free_port H n preferred =
     (case ho_bind H n preferred of
        Some a \<Rightarrow> (case a of Some port \<Rightarrow> port | None \<Rightarrow> preferred)
      | None \<Rightarrow>
          (case ho_bind H (n + 1) 0 of
             Some (Some port) \<Rightarrow> port
           | _ \<Rightarrow> preferred))"

definition any_port :: "u16 \<Rightarrow> string" where
  "any_port port = ''0.0.0.0:'' @ dec_digits (unat port)"

definition first_config :: "host \<Rightarrow> config" where
  "first_config H =
     (config_default (default_models_dir (ho_cwd H) (ho_dirs H)))
       \<lparr>cf_mode := Network, cf_chunks_addr := Some (any_port (pick_free_port H 0 8765)),
        cf_forward_addr := Some (any_port (pick_free_port H 2 7717))\<rparr>"

definition ensure_config :: "host \<Rightarrow> path \<Rightarrow> bool on_disk" where
  "ensure_config H cfg d =
     (if exists_at cfg d then (Inr False, d)
      else case ho_toml H (first_config H) of
        None \<Rightarrow> (Inl TomlFailed, d)
      | Some toml \<Rightarrow> dbind (write_at H cfg toml) (\<lambda>_ d. (Inr True, d)) d)"

definition write_identity :: "host \<Rightarrow> path \<Rightarrow> unit on_disk" where
  "write_identity H p =
     dbind (create_dir_all H (butlast p)) (\<lambda>_.
     dbind (write_at H p (str_bytes (ho_hex H (ho_random H)))) (\<lambda>_.
     set_private_perms H p))"

definition ensure_identity :: "host \<Rightarrow> path \<Rightarrow> bool on_disk" where
  "ensure_identity H p d =
     (if exists_at p d then (Inr False, d) else dbind (write_identity H p) (\<lambda>_ d. (Inr True, d)) d)"

definition ensure_models_dir :: "host \<Rightarrow> path \<Rightarrow> bool on_disk" where
  "ensure_models_dir H p d =
     (if exists_at p d then (Inr False, d) else dbind (create_dir_all H p) (\<lambda>_ d. (Inr True, d)) d)"

definition ensure_initialized :: "host \<Rightarrow> init_report on_disk" where
  "ensure_initialized H d =
     (case config_path (ho_dirs H) of
        None \<Rightarrow> (Inl NoConfigDir, d)
      | Some cfg \<Rightarrow>
          dbind (create_dir_all H (butlast cfg)) (\<lambda>_.
          dbind (ensure_config H cfg) (\<lambda>c.
          dbind (ensure_identity H (identity_path H)) (\<lambda>i.
          dbind (ensure_models_dir H (default_models_dir (ho_cwd H) (ho_dirs H))) (\<lambda>m d.
            (Inr \<lparr>ir_wrote_config = c, ir_wrote_identity = i, ir_created_models_dir = m\<rparr>, d))))) d)"

section \<open>The identity at start\<close>

datatype identity_error = ReadKey | DecodeKey | KeyLength

text \<open>A missing key is generated; that it could not be stored is not an error.\<close>

definition load_or_generate_identity :: "host \<Rightarrow> disk \<Rightarrow> (identity_error + bytes) \<times> disk" where
  "load_or_generate_identity H d =
     (let p = identity_path H
      in if exists_at p d then
           (case read_file (dk_files d) p of
              None \<Rightarrow> Inl ReadKey
            | Some raw \<Rightarrow>
                if \<not> utf8_valid raw then Inl ReadKey
                else case ho_unhex H (trim (bytes_str raw)) of
                  None \<Rightarrow> Inl DecodeKey
                | Some seed \<Rightarrow> if length seed = 32 then Inr seed else Inl KeyLength, d)
         else let d1 = snd (create_dir_all H (butlast p) d)
              in (Inr (ho_random H), snd (write_at H p (str_bytes (ho_hex H (ho_random H))) d1)))"

section \<open>The command init\<close>

datatype init_line = ConfigExists path | WroteConfig path | ModelsDir path | IdentityExists path | WroteIdentity path

definition init_config :: "host \<Rightarrow> bool \<Rightarrow> path \<Rightarrow> init_line on_disk" where
  "init_config H force cfg d =
     (if exists_at cfg d \<and> \<not> force then (Inr (ConfigExists cfg), d)
      else case ho_toml H (config_default (default_models_dir (ho_cwd H) (ho_dirs H))) of
        None \<Rightarrow> (Inl TomlFailed, d)
      | Some toml \<Rightarrow> dbind (write_at H cfg toml) (\<lambda>_ d. (Inr (WroteConfig cfg), d)) d)"

definition init_identity :: "host \<Rightarrow> bool \<Rightarrow> path \<Rightarrow> init_line on_disk" where
  "init_identity H force p d =
     (if exists_at p d \<and> \<not> force then (Inr (IdentityExists p), d)
      else dbind (write_identity H p) (\<lambda>_ d. (Inr (WroteIdentity p), d)) d)"

definition init_cmd :: "host \<Rightarrow> bool \<Rightarrow> init_line list on_disk" where
  "init_cmd H force d =
     (case config_path (ho_dirs H) of
        None \<Rightarrow> (Inl NoConfigDir, d)
      | Some cfg \<Rightarrow>
          let models = default_models_dir (ho_cwd H) (ho_dirs H)
          in dbind (create_dir_all H (butlast cfg)) (\<lambda>_.
             dbind (init_config H force cfg) (\<lambda>a.
             dbind (create_dir_all H models) (\<lambda>_.
             dbind (init_identity H force (identity_path H)) (\<lambda>b d.
               (Inr [a, ModelsDir models, b], d))))) d)"

section \<open>Finding the library\<close>

definition is_dir :: "path \<Rightarrow> disk \<Rightarrow> bool" where
  "is_dir p d \<longleftrightarrow> p \<in> set (dk_dirs d) \<or> dir_nonempty p (dk_files d)"

definition libllama_candidate_paths :: "host \<Rightarrow> disk \<Rightarrow> path list" where
  "libllama_candidate_paths H d =
     (case ho_dirs H of
        None \<Rightarrow> []
      | Some p \<Rightarrow>
          let root = join (pd_cache p) ''libllama''
          in join root ''bin'' #
             map (\<lambda>name. join (join root name) ''bin'')
               (filter (\<lambda>name. is_dir (join root name) d) (read_dir root (dk_files d))))"

text \<open>The variable \<open>INTELNAV_LIBLLAMA_DIR\<close> before and after.\<close>

definition auto_discover_libllama_dir :: "host \<Rightarrow> disk \<Rightarrow> path option \<Rightarrow> path option \<times> path option" where
  "auto_discover_libllama_dir H d var =
     (case var of
        Some dir \<Rightarrow> (Some dir, var)
      | None \<Rightarrow>
          (case List.find (\<lambda>p. exists_at (join p ''libllama.so'') d) (libllama_candidate_paths H d) of
             Some p \<Rightarrow> (Some p, Some p)
           | None \<Rightarrow> (None, None)))"


section \<open>Texts without blanks\<close>

definition plain :: "char \<Rightarrow> bool" where
  "plain c \<longleftrightarrow> 0x20 < code c \<and> code c < 0x80"

lemma not_white_plain: "\<forall>c \<in> set cs. plain c \<Longrightarrow> \<not> white_char cs"
  by (auto simp: white_char_def plain_def split: list.splits)

lemma find_None_white: "\<forall>n \<in> {1, 2, 3}. \<not> white_char (f n) \<Longrightarrow> List.find (\<lambda>n. n \<le> m \<and> white_char (f n)) [1, 2, 3 :: nat] = None"
  by simp

lemma trim_plain: "\<forall>c \<in> set s. plain c \<Longrightarrow> trim s = s"
proof -
  assume p: "\<forall>c \<in> set s. plain c"
  then have "\<not> white_char (take n s)" "\<not> white_char (last_n n s)" for n
    by (rule_tac not_white_plain; auto simp: last_n_def dest: in_set_takeD in_set_dropD)+
  then have "white_head s = 0" "white_tail s = 0"
    unfolding white_head_def white_tail_def by (simp_all add: find_None_white)
  then show ?thesis by (simp add: trim_def trim_start.simps trim_end.simps)
qed

lemma utf8_plain: "\<forall>c \<in> set s. plain c \<Longrightarrow> utf8_valid (str_bytes s)"
  by (rule utf8_valid_ascii) (auto simp: str_bytes_def plain_def code_def word_less_nat_alt unat_of_nat)

section \<open>What the steps leave behind\<close>

lemma dbind_Inr: "dbind m f d = (Inr y, d') \<longleftrightarrow> (\<exists>x d1. m d = (Inr x, d1) \<and> f x d1 = (Inr y, d'))"
  by (auto simp: dbind_def split: prod.splits sum.splits)

definition grows :: "disk \<Rightarrow> disk \<Rightarrow> bool" where
  "grows d d' \<longleftrightarrow> (\<forall>p. exists_at p d \<longrightarrow> exists_at p d') \<and> set (dk_dirs d) \<subseteq> set (dk_dirs d') \<and> set (dk_private d) \<subseteq> set (dk_private d')"

lemma grows_trans [trans]: "grows a b \<Longrightarrow> grows b c \<Longrightarrow> grows a c" and grows_refl [simp]: "grows a a"
  by (auto simp: grows_def)

lemma create_dir_facts:
  assumes "create_dir_all H p d = (Inr x, d')"
  shows "grows d d' \<and> p \<in> set (dk_dirs d') \<and> dk_files d' = dk_files d \<and> dk_private d' = dk_private d"
  using assms by (auto simp: create_dir_all_def grows_def exists_at_def split: if_splits)

lemma write_at_facts:
  assumes "write_at H p bs d = (Inr x, d')"
  shows "grows d d' \<and> dk_files d' = write_file p bs (dk_files d)"
  using assms by (auto simp: write_at_def grows_def exists_at_def read_write_file split: if_splits)

lemma private_facts:
  assumes "set_private_perms H p d = (Inr x, d')"
  shows "grows d d' \<and> dk_files d' = dk_files d \<and> p \<in> set (dk_private d')"
  using assms by (auto simp: set_private_perms_def grows_def exists_at_def split: if_splits)

lemma write_identity_facts:
  assumes "write_identity H p d = (Inr x, d')"
  shows "grows d d' \<and> dk_files d' = write_file p (str_bytes (ho_hex H (ho_random H))) (dk_files d) \<and> p \<in> set (dk_private d')"
  using assms unfolding write_identity_def
  by (auto simp: dbind_Inr dest!: create_dir_facts write_at_facts private_facts intro: grows_trans)

lemma ensure_config_facts:
  assumes "ensure_config H cfg d = (Inr b, d')"
  shows "grows d d' \<and> exists_at cfg d' \<and>
    (if b then \<exists>toml. ho_toml H (first_config H) = Some toml \<and> dk_files d' = write_file cfg toml (dk_files d) else d' = d)"
  using assms unfolding ensure_config_def
  by (auto simp: dbind_Inr exists_at_def read_write_file dest!: write_at_facts split: if_splits option.splits)

lemma ensure_identity_facts:
  assumes "ensure_identity H p d = (Inr b, d')"
  shows "grows d d' \<and> exists_at p d' \<and>
    (if b then dk_files d' = write_file p (str_bytes (ho_hex H (ho_random H))) (dk_files d) \<and> p \<in> set (dk_private d') else d' = d)"
  using assms unfolding ensure_identity_def
  by (auto simp: dbind_Inr exists_at_def read_write_file dest!: write_identity_facts split: if_splits)

lemma ensure_models_facts:
  assumes "ensure_models_dir H p d = (Inr b, d')"
  shows "grows d d' \<and> exists_at p d' \<and> dk_files d' = dk_files d"
  using assms unfolding ensure_models_dir_def
  by (auto simp: dbind_Inr exists_at_def dest!: create_dir_facts split: if_splits)

text \<open>The host at a later start: the same directories and the same codecs.\<close>

definition same_host :: "host \<Rightarrow> host \<Rightarrow> bool" where
  "same_host H H' \<longleftrightarrow> ho_dirs H' = ho_dirs H \<and> ho_cwd H' = ho_cwd H \<and> ho_unhex H' = ho_unhex H"

definition hex_ok :: "host \<Rightarrow> bool" where
  "hex_ok H \<longleftrightarrow> (\<forall>bs. ho_unhex H (ho_hex H bs) = Some bs \<and> set (ho_hex H bs) \<subseteq> set ''0123456789abcdef'')"

definition toml_ok :: "host \<Rightarrow> (bytes \<Rightarrow> string + config) \<Rightarrow> bool" where
  "toml_ok H parse \<longleftrightarrow> (\<forall>c bs. ho_toml H c = Some bs \<longrightarrow> utf8_valid bs \<and> parse bs = Inr c)"

lemma hex_plain: "hex_ok H \<Longrightarrow> \<forall>c \<in> set (ho_hex H bs). plain c"
proof
  fix c assume "hex_ok H" "c \<in> set (ho_hex H bs)"
  then have "c \<in> set ''0123456789abcdef''" unfolding hex_ok_def by blast
  moreover have "\<forall>c \<in> set ''0123456789abcdef''. plain c" by (simp add: plain_def code_def)
  ultimately show "plain c" by blast
qed

lemma stored_identity:
  assumes "hex_ok H" "same_host H H'" "length (ho_random H) = 32"
    and "read_file (dk_files d) (identity_path H) = Some (str_bytes (ho_hex H (ho_random H)))"
  shows "load_or_generate_identity H' d = (Inr (ho_random H), d)"
proof -
  have "identity_path H' = identity_path H" using assms(2) by (simp add: same_host_def identity_path_def split: option.splits)
  moreover have "ho_unhex H' (trim (ho_hex H (ho_random H))) = Some (ho_random H)"
    using assms(1,2) by (simp add: trim_plain [OF hex_plain] same_host_def) (simp add: hex_ok_def)
  ultimately show ?thesis using assms(3,4) utf8_plain [OF hex_plain [OF assms(1)]]
    by (simp add: load_or_generate_identity_def exists_at_def)
qed

lemma initialized_facts:
  assumes "ensure_initialized H d = (Inr r, d')"
  obtains cfg where "config_path (ho_dirs H) = Some cfg" "butlast cfg \<in> set (dk_dirs d')" "exists_at cfg d'"
    "exists_at (identity_path H) d'" "exists_at (default_models_dir (ho_cwd H) (ho_dirs H)) d'"
    "ir_wrote_config r \<Longrightarrow> \<exists>toml. ho_toml H (first_config H) = Some toml \<and> read_file (dk_files d') cfg = Some toml"
    "ir_wrote_identity r \<Longrightarrow> read_file (dk_files d') (identity_path H) = Some (str_bytes (ho_hex H (ho_random H))) \<and>
      identity_path H \<in> set (dk_private d')"
proof -
  from assms obtain cfg where cfg: "config_path (ho_dirs H) = Some cfg"
    by (auto simp: ensure_initialized_def split: option.splits)
  from assms [unfolded ensure_initialized_def cfg] obtain x c i m d1 d2 d3 where
    1: "create_dir_all H (butlast cfg) d = (Inr x, d1)" and 2: "ensure_config H cfg d1 = (Inr c, d2)"
    and 3: "ensure_identity H (identity_path H) d2 = (Inr i, d3)"
    and 4: "ensure_models_dir H (default_models_dir (ho_cwd H) (ho_dirs H)) d3 = (Inr m, d')"
    and r: "r = \<lparr>ir_wrote_config = c, ir_wrote_identity = i, ir_created_models_dir = m\<rparr>"
    by (auto simp: dbind_Inr)
  note f1 = create_dir_facts [OF 1] and f2 = ensure_config_facts [OF 2]
    and f3 = ensure_identity_facts [OF 3] and f4 = ensure_models_facts [OF 4]
  have ne: "cfg \<noteq> identity_path H"
    using cfg by (auto simp: config_path_def identity_path_def join_def split: option.splits)
  show ?thesis
  proof (rule that [OF cfg])
    show "butlast cfg \<in> set (dk_dirs d')" using f1 f2 f3 f4 by (auto simp: grows_def)
    show "exists_at cfg d'" using f2 f3 f4 by (auto simp: grows_def)
    show "exists_at (identity_path H) d'" using f3 f4 by (auto simp: grows_def)
    show "exists_at (default_models_dir (ho_cwd H) (ho_dirs H)) d'" using f4 by simp
    show "\<exists>toml. ho_toml H (first_config H) = Some toml \<and> read_file (dk_files d') cfg = Some toml" if "ir_wrote_config r"
      using that f2 f3 f4 ne by (cases i) (auto simp: r read_write_file)
    show "read_file (dk_files d') (identity_path H) = Some (str_bytes (ho_hex H (ho_random H))) \<and>
      identity_path H \<in> set (dk_private d')" if "ir_wrote_identity r"
      using that f3 f4 by (auto simp: r read_write_file grows_def)
  qed
qed


section \<open>Setup is done once\<close>

text \<open>
  C32. The first start settles what the later ones use: once the setup has succeeded, running it again changes
  nothing and reports nothing, on whatever ports and randomness the host then has; the identity of the node is
  the one that was generated, and its key file is private; and the configuration that is loaded is the one
  that was written, under the variables of the environment: network mode, with both ports set.
\<close>

theorem setup_settles:
  assumes "hex_ok H" "toml_ok H parse" "length (ho_random H) = 32" "same_host H H'"
    and "ensure_initialized H d = (Inr r, d')"
  shows "ensure_initialized H' d' = (Inr \<lparr>ir_wrote_config = False, ir_wrote_identity = False, ir_created_models_dir = False\<rparr>, d') \<and>
    (ir_wrote_identity r \<longrightarrow> load_or_generate_identity H' d' = (Inr (ho_random H), d') \<and> identity_path H \<in> set (dk_private d')) \<and>
    (ir_wrote_config r \<longrightarrow> config_load (ho_cwd H) (ho_dirs H) parse env (dk_files d') = Inr (apply_env (ho_cwd H) env (first_config H)))"
proof -
  obtain cfg where cfg: "config_path (ho_dirs H) = Some cfg" and ex: "butlast cfg \<in> set (dk_dirs d')" "exists_at cfg d'"
      "exists_at (identity_path H) d'" "exists_at (default_models_dir (ho_cwd H) (ho_dirs H)) d'"
    and c: "ir_wrote_config r \<Longrightarrow> \<exists>toml. ho_toml H (first_config H) = Some toml \<and> read_file (dk_files d') cfg = Some toml"
    and i: "ir_wrote_identity r \<Longrightarrow> read_file (dk_files d') (identity_path H) = Some (str_bytes (ho_hex H (ho_random H))) \<and>
      identity_path H \<in> set (dk_private d')"
    by (rule initialized_facts [OF assms(5)]) blast
  have same: "ho_dirs H' = ho_dirs H" "ho_cwd H' = ho_cwd H" "identity_path H' = identity_path H"
    using assms(4) by (simp_all add: same_host_def identity_path_def split: option.splits)
  have "ensure_initialized H' d' = (Inr \<lparr>ir_wrote_config = False, ir_wrote_identity = False, ir_created_models_dir = False\<rparr>, d')"
    by (simp add: ensure_initialized_def same cfg dbind_def create_dir_all_def ensure_config_def ensure_identity_def
        ensure_models_dir_def ex)
  moreover have "load_or_generate_identity H' d' = (Inr (ho_random H), d')" if "ir_wrote_identity r"
    using stored_identity [OF assms(1,4,3)] i [OF that] by simp
  moreover have "config_load (ho_cwd H) (ho_dirs H) parse env (dk_files d') = Inr (apply_env (ho_cwd H) env (first_config H))"
    if "ir_wrote_config r"
    using c [OF that] assms(2) by (auto simp: config_load_def cfg toml_ok_def)
  ultimately show ?thesis using i by blast
qed

definition hex_digit :: "nat \<Rightarrow> char" where
  "hex_digit n = ''0123456789abcdef'' ! n"

definition hex_encode :: "bytes \<Rightarrow> string" where
  "hex_encode bs = concat (map (\<lambda>b. [hex_digit (unat b div 16), hex_digit (unat b mod 16)]) bs)"

definition hex_value :: "char \<Rightarrow> nat" where
  "hex_value c = (if code c < 58 then code c - 48 else code c - 87)"

fun hex_decode :: "string \<Rightarrow> bytes option" where
  "hex_decode [] = Some []"
| "hex_decode [a] = None"
| "hex_decode (a # b # s) = map_option ((#) (word_of_nat (16 * hex_value a + hex_value b))) (hex_decode s)"

lemma hex_digit_facts: "n < 16 \<Longrightarrow> hex_digit n \<in> set ''0123456789abcdef'' \<and> hex_value (hex_digit n) = n"
proof -
  assume "n < 16"
  moreover have "\<forall>n \<in> set [0..<16]. hex_digit n \<in> set ''0123456789abcdef'' \<and> hex_value (hex_digit n) = n" by code_simp
  ultimately show ?thesis by simp
qed

lemma hex_roundtrip: "hex_decode (hex_encode bs) = Some bs \<and> set (hex_encode bs) \<subseteq> set ''0123456789abcdef''"
proof (induction bs)
  case (Cons b bs)
  have "unat b div 16 < 16" "unat b mod 16 < 16" using unat_byte_less [of b] by (auto simp: less_mult_imp_div_less)
  note d = hex_digit_facts [OF this(1)] hex_digit_facts [OF this(2)]
  have s: "hex_encode (b # bs) = hex_digit (unat b div 16) # hex_digit (unat b mod 16) # hex_encode bs"
    by (simp add: hex_encode_def)
  show ?case unfolding s using d Cons by simp
qed (simp add: hex_encode_def)

definition demo_base :: host where
  "demo_base = \<lparr>ho_dirs = Some \<lparr>pd_data = [''d''], pd_config = [''c''], pd_cache = [''k''], pd_state = None\<rparr>, ho_cwd = [],
     ho_mkdir = (\<lambda>_. True), ho_write = (\<lambda>_. True), ho_chmod = (\<lambda>_. True),
     ho_bind = (\<lambda>n p. if p = 8765 then None else Some (Some (if p = 0 then 40000 else p))),
     ho_toml = (\<lambda>_. None), ho_hex = hex_encode, ho_unhex = hex_decode, ho_random = replicate 32 7\<rparr>"

definition demo_host :: host where
  "demo_host = demo_base\<lparr>ho_toml := (\<lambda>c. if c = first_config demo_base then Some [1] else None)\<rparr>"

lemma demo_host_simps:
  "ho_dirs demo_host = Some \<lparr>pd_data = [''d''], pd_config = [''c''], pd_cache = [''k''], pd_state = None\<rparr>" "ho_cwd demo_host = []"
  "ho_mkdir demo_host p" "ho_write demo_host p" "ho_chmod demo_host p" "ho_hex demo_host = hex_encode" "ho_unhex demo_host = hex_decode"
  "ho_random demo_host = replicate 32 7" "ho_toml demo_host c = (if c = first_config demo_host then Some [1] else None)"
  by (simp_all add: demo_host_def demo_base_def first_config_def pick_free_port_def)

text \<open>A first start on an empty disk where port 8765 is taken.\<close>

lemma setup_settles_witness:
  "\<exists>d'. load_or_generate_identity demo_host d' = (Inr (replicate 32 7), d') \<and>
    config_load [] (ho_dirs demo_host) (\<lambda>_. Inr (first_config demo_host)) (\<lambda>_. None) (dk_files d') =
      Inr (apply_env [] (\<lambda>_. None) (first_config demo_host))"
proof -
  let ?d = "\<lparr>dk_files = [], dk_dirs = [], dk_private = []\<rparr> :: disk"
  have h: "hex_ok demo_host" using hex_roundtrip by (simp add: hex_ok_def demo_host_simps)
  have t: "toml_ok demo_host (\<lambda>_. Inr (first_config demo_host))" by (simp add: toml_ok_def demo_host_simps)
  obtain r d' where run: "ensure_initialized demo_host ?d = (r, d')" by (metis prod.collapse)
  have nil: "read_file [] p = None" for p by (simp add: read_file_def)
  have "\<exists>a. r = Inr \<lparr>ir_wrote_config = True, ir_wrote_identity = True, ir_created_models_dir = a\<rparr>"
    using run
    by (auto simp: ensure_initialized_def dbind_def create_dir_all_def ensure_config_def ensure_identity_def ensure_models_dir_def
        write_identity_def write_at_def set_private_perms_def exists_at_def read_write_file config_path_def identity_path_def
        demo_host_simps join_def nil default_models_dir_def split: if_splits)
  then obtain a where r: "r = Inr \<lparr>ir_wrote_config = True, ir_wrote_identity = True, ir_created_models_dir = a\<rparr>" ..
  have "length (ho_random demo_host) = 32" "same_host demo_host demo_host" by (simp_all add: demo_host_simps same_host_def)
  from setup_settles [OF h t this run [unfolded r], of "\<lambda>_. None"] show ?thesis by (auto simp: demo_host_simps)
qed

end
