(* ===== verification/Startup.thy ===== *)
theory Startup
  imports First_Run
begin

text \<open>
  The life of a host, \<open>crates/app/src/swarm_node.rs\<close>: how it starts (identity, swarm, seeds from
  \<open>crates/app/src/bootstrap.rs\<close>, sidecars, tasks), its announce loop, and its graceful shutdown. The network, the
  JSON coders and the parsers of addresses are parameters. Times are milliseconds except in the cache of the
  seeds, which is in seconds as in the source.
\<close>

section \<open>The seed list\<close>

record bootstrap_manifest =
  bm_version :: u32
  bm_minted_at :: u64
  bm_ttl_seconds :: u64
  bm_seeds :: "string list"

record cached_manifest =
  cm_fetched_at :: u64
  cm_manifest :: bootstrap_manifest

definition SEED_TTL :: u64 where "SEED_TTL = 7 * 24 * 60 * 60"

definition cache_path :: "project_dirs option \<Rightarrow> path option" where
  "cache_path dirs = map_option (\<lambda>p. join (pd_config p) ''bootstrap.cache.json'') dirs"

text \<open>What the loader uses of the world: the coder, the clock, and the reply to its request.\<close>

record boot_env =
  bo_dirs :: "project_dirs option"
  bo_enc :: "cached_manifest \<Rightarrow> bytes"
  bo_dec :: "bytes \<Rightarrow> cached_manifest option"
  bo_now :: u64
  bo_can_write :: bool
  bo_get :: "string + bootstrap_manifest"

definition read_cache :: "boot_env \<Rightarrow> fs \<Rightarrow> cached_manifest option" where
  "read_cache B fs = Option.bind (cache_path (bo_dirs B)) (\<lambda>p. Option.bind (read_file fs p) (bo_dec B))"

definition write_cache :: "boot_env \<Rightarrow> bootstrap_manifest \<Rightarrow> fs \<Rightarrow> (string + unit) \<times> fs" where
  "write_cache B m fs =
     (case cache_path (bo_dirs B) of
        None \<Rightarrow> (Inl ''no config dir for bootstrap cache'', fs)
      | Some p \<Rightarrow>
          if bo_can_write B then (Inr (), write_file p (bo_enc B \<lparr>cm_fetched_at = bo_now B, cm_manifest = m\<rparr>) fs)
          else (Inl ''write'', fs))"

definition sat_sub64 :: "u64 \<Rightarrow> u64 \<Rightarrow> u64" where
  "sat_sub64 a b = (if a < b then 0 else a - b)"

definition is_fresh :: "boot_env \<Rightarrow> cached_manifest \<Rightarrow> bool" where
  "is_fresh B c \<longleftrightarrow> sat_sub64 (bo_now B) (cm_fetched_at c) < min SEED_TTL (bm_ttl_seconds (cm_manifest c))"

definition fetch_remote :: "boot_env \<Rightarrow> string + bootstrap_manifest" where
  "fetch_remote B =
     rbind (bo_get B) (\<lambda>m.
       if bm_version m \<noteq> 1 then Inl (''unsupported bootstrap manifest version '' @ dec_digits (unat (bm_version m))) else Inr m)"

text \<open>The seeds, whether the network was asked, and the disk afterwards.\<close>

definition load_seeds :: "boot_env \<Rightarrow> fs \<Rightarrow> string list \<times> bool \<times> fs" where
  "load_seeds B fs =
     (case read_cache B fs of
        Some c \<Rightarrow>
          if is_fresh B c then (bm_seeds (cm_manifest c), False, fs)
          else (case fetch_remote B of
                  Inr m \<Rightarrow> (bm_seeds m, True, snd (write_cache B m fs))
                | Inl e \<Rightarrow> (bm_seeds (cm_manifest c), True, fs))
      | None \<Rightarrow>
          (case fetch_remote B of
             Inr m \<Rightarrow> (bm_seeds m, True, snd (write_cache B m fs))
           | Inl e \<Rightarrow> ([], True, fs)))"

definition refresh :: "boot_env \<Rightarrow> fs \<Rightarrow> (string + nat) \<times> fs" where
  "refresh B fs =
     (case fetch_remote B of
        Inl e \<Rightarrow> (Inl e, fs)
      | Inr m \<Rightarrow>
          (case write_cache B m fs of
             (Inl e, fs') \<Rightarrow> (Inl e, fs')
           | (Inr _, fs') \<Rightarrow> (Inr (length (bm_seeds m)), fs')))"

section \<open>The announce loop\<close>

text \<open>
  Its ticks, each with its time and with what the other tasks (the control server, the forward server, the
  watchdog, a download) have done to the control state and the disk since the tick before.
\<close>

type_synonym others = "control_state \<times> fs \<Rightarrow> control_state \<times> fs"

fun announce_ticks :: "announce_env \<Rightarrow> sidecar_json \<Rightarrow> path \<Rightarrow> (u64 \<times> others) list \<Rightarrow> control_state \<times> fs \<Rightarrow> announce_result list" where
  "announce_ticks E J md [] s = []"
| "announce_ticks E J md ((now, f) # ticks) s =
     (let (r, fs) = announce_tick E J md now (f s) in r # announce_ticks E J md ticks (ar_state r, fs))"

text \<open>Whether a loop runs, and all it announces: first at boot, then at each tick.\<close>

definition spawn_announce_loop :: "announce_env \<Rightarrow> sidecar_json \<Rightarrow> path \<Rightarrow> u64 \<Rightarrow> (u64 \<times> others) list \<Rightarrow> control_state \<times> fs \<Rightarrow>
    announce_result list option" where
  "spawn_announce_loop E J md now ticks = (\<lambda>(st, fs).
     let initial = scan_kept_ranges J md fs
     in if initial = [] then None
        else let r = announce_all E now fs initial st in Some (r # announce_ticks E J md ticks (ar_state r, fs)))"

section \<open>Starting the host\<close>

datatype node_call = CallDial string | CallBootstrap

datatype start_error =
    StartIdentity identity_error
  | StartKeypair
  | StartListen string
  | StartSwarm
  | StartControl

text \<open>The addresses of the configuration and what the operating system grants.\<close>

record start_env =
  st_host :: host
  st_keypair :: "bytes \<Rightarrow> string option" \<comment> \<open>the peer id of the key pair\<close>
  st_multiaddr :: "string \<Rightarrow> bool"
  st_socket_addr :: "string \<Rightarrow> bool"
  st_swarm :: bool
  st_control_socket :: bool

record swarm_handle =
  sh_peer :: string
  sh_calls :: "node_call list"
  sh_control :: "control_state option"
  sh_announce :: bool
  sh_watchdog :: bool
  sh_chunks :: "string option"
  sh_forward :: "string option"
  sh_control_server :: bool

definition dial_seeds :: "start_env \<Rightarrow> string list \<Rightarrow> node_call list" where
  "dial_seeds S seeds =
     map CallDial (filter (st_multiaddr S) seeds) @ (if seeds = [] then [] else [CallBootstrap])"

definition bound_addr :: "start_env \<Rightarrow> string option \<Rightarrow> string option" where
  "bound_addr S a = (case a of Some raw \<Rightarrow> if st_socket_addr S raw then Some raw else None | None \<Rightarrow> None)"

definition spawn_inner :: "start_env \<Rightarrow> boot_env \<Rightarrow> sidecar_json \<Rightarrow> config \<Rightarrow> path option \<Rightarrow> nat \<Rightarrow> disk \<Rightarrow>
    (start_error + swarm_handle) \<times> disk" where
  "spawn_inner S B J cfg models_dir now d =
     (case load_or_generate_identity (st_host S) d of
        (Inl e, d1) \<Rightarrow> (Inl (StartIdentity e), d1)
      | (Inr seed, d1) \<Rightarrow>
          (case st_keypair S seed of
             None \<Rightarrow> (Inl StartKeypair, d1)
           | Some peer \<Rightarrow>
               if \<not> st_multiaddr S (cf_libp2p_listen cfg) then (Inl (StartListen (cf_libp2p_listen cfg)), d1)
               else if \<not> st_swarm S then (Inl StartSwarm, d1)
               else
                 let (seeds, fs2) = (if cf_bootstrap cfg = [] then (case load_seeds B (dk_files d1) of (s, _, fs2) \<Rightarrow> (s, fs2))
                                     else (cf_bootstrap cfg, dk_files d1));
                     d2 = d1\<lparr>dk_files := fs2\<rparr>;
                     calls = dial_seeds S seeds
                 in case models_dir of
                      None \<Rightarrow>
                        (Inr \<lparr>sh_peer = peer, sh_calls = calls, sh_control = None, sh_announce = False, sh_watchdog = False,
                              sh_chunks = None, sh_forward = None, sh_control_server = False\<rparr>, d2)
                    | Some dir \<Rightarrow>
                        let kept = scan_kept_ranges J dir fs2
                        in if \<not> st_control_socket S then (Inl StartControl, d2)
                           else (Inr \<lparr>sh_peer = peer, sh_calls = calls, sh_control = Some (seed_control peer now kept),
                                      sh_announce = (kept \<noteq> []), sh_watchdog = True,
                                      sh_chunks = bound_addr S (cf_chunks_addr cfg), sh_forward = bound_addr S (cf_forward_addr cfg),
                                      sh_control_server = True\<rparr>, d2)))"

section \<open>Shutting down\<close>

definition SHUTDOWN_DRAIN_BUDGET :: nat where "SHUTDOWN_DRAIN_BUDGET = 30 * 1000"
definition SHUTDOWN_POLL :: nat where "SHUTDOWN_POLL = 500"

definition attached :: "control_state \<Rightarrow> u32" where
  "attached st = sum_list (map hs_active_chains (snapshot_hosted st))"

text \<open>
  The wait: \<open>st t\<close> is the control state at time \<open>t\<close>, which the other tasks go on changing; a sleep takes the
  poll interval and whatever delay the scheduler adds. The result is the time the loop is left.
\<close>

function drain_wait :: "(nat \<Rightarrow> control_state) \<Rightarrow> (nat \<Rightarrow> nat) \<Rightarrow> nat \<Rightarrow> nat \<Rightarrow> nat" where
  "drain_wait st delay deadline now =
     (if now < deadline \<and> attached (st now) \<noteq> 0 then drain_wait st delay deadline (now + SHUTDOWN_POLL + delay now) else now)"
  by pat_completeness auto
termination
  by (relation "measure (\<lambda>(st, delay, deadline, now). deadline - now)") (auto simp: SHUTDOWN_POLL_def)

declare drain_wait.simps [simp del]

text \<open>After the signal: drain, wait, and the number of chains that are cut off.\<close>

definition serve_shutdown :: "(control_state \<Rightarrow> nat \<Rightarrow> control_state) \<Rightarrow> (nat \<Rightarrow> nat) \<Rightarrow> nat \<Rightarrow> control_state \<Rightarrow> nat \<times> u32" where
  "serve_shutdown run delay now st =
     (let st1 = fst (shutdown_drain now st);
          left = drain_wait (run st1) delay (now + SHUTDOWN_DRAIN_BUDGET) now
      in (left, attached (run st1 left)))"


section \<open>The seeds survive being offline\<close>

definition coder_ok :: "boot_env \<Rightarrow> bootstrap_manifest \<Rightarrow> bool" where
  "coder_ok B m \<longleftrightarrow> (\<forall>t. bo_dec B (bo_enc B \<lparr>cm_fetched_at = t, cm_manifest = m\<rparr>) = Some \<lparr>cm_fetched_at = t, cm_manifest = m\<rparr>)"

text \<open>
  A list of seeds that was fetched and stored is what every later start gets, without asking the network while
  it is younger than a week and than the time the server gives it, and from the disk after that for as
  long as the network cannot be reached. A start before the time of the fetch (the clock was set back) takes it as
  fresh.
\<close>

theorem seeds_survive_offline:
  assumes "coder_ok B m" "cache_path (bo_dirs B) \<noteq> None" "bo_can_write B" "fetch_remote B = Inr m"
    and "load_seeds B fs = (seeds, True, fs')" "bo_dirs B' = bo_dirs B" "bo_dec B' = bo_dec B"
    and "sat_sub64 (bo_now B') (bo_now B) < min SEED_TTL (bm_ttl_seconds m) \<or> (\<exists>e. fetch_remote B' = Inl e)"
  shows "seeds = bm_seeds m \<and> fst (load_seeds B' fs') = seeds \<and>
    fst (snd (load_seeds B' fs')) = (\<not> sat_sub64 (bo_now B') (bo_now B) < min SEED_TTL (bm_ttl_seconds m)) \<and>
    snd (snd (load_seeds B' fs')) = fs'"
proof -
  obtain p where p: "cache_path (bo_dirs B) = Some p" using assms(2) by blast
  let ?c = "\<lparr>cm_fetched_at = bo_now B, cm_manifest = m\<rparr>"
  have fs': "seeds = bm_seeds m" "fs' = write_file p (bo_enc B ?c) fs"
    using assms(3,4,5) by (auto simp: load_seeds_def write_cache_def p split: option.splits if_splits)
  then have "read_cache B' fs' = Some ?c"
    using assms(1,6,7) p by (simp add: read_cache_def read_write_file coder_ok_def)
  then show ?thesis using assms(8) fs'(1)
    by (cases "fetch_remote B'") (auto simp: load_seeds_def is_fresh_def)
qed

section \<open>What a host announces\<close>

text \<open>
  C33. A slice that is joined while the host runs is announced at the next tick exactly when the host had a
  slice to announce when it started: without one there is no announce loop, and nothing the host is given later is
  announced before it is restarted.
\<close>

theorem joined_slice_announced:
  assumes "wf_control st" "\<And>s. f s = (st1, fs1)" "wf_control st1"
    and "announce_tick E J md t1 (st1, fs1) = (r1, fs2)" "k \<in> offered_keys (scan_kept_ranges J md fs2)" "\<not> vetoed (snd (drain_idle st1)) k"
  shows "(\<exists>rs r. spawn_announce_loop E J md t0 [(t1, f)] (st, fs) = Some rs \<and> r \<in> set (tl rs) \<and> k \<in> announced_keys (ar_attempted r))
    \<longleftrightarrow> scan_kept_ranges J md fs \<noteq> []"
proof -
  obtain st2 where p: "persist_drained_slices J md (st1, fs1) = (st2, fs2)"
    and r1: "r1 = announce_all E t1 fs2 (scan_kept_ranges J md fs2) st2"
    using assms(4) by (auto simp: announce_tick_def Let_def split: prod.splits)
  have st2: "st2 = snd (drain_idle st1)" using p by (auto simp: persist_drained_slices_def split: prod.splits)
  have "k \<in> announced_keys (ar_attempted r1)"
    using announce_all_keys(4) [OF wf_ops(5) [OF assms(3)], of k E t1 fs2 "scan_kept_ranges J md fs2"] assms(5,6)
    unfolding r1 st2 by simp
  then show ?thesis by (auto simp: spawn_announce_loop_def Let_def assms(2,4))
qed

section \<open>Shutdown\<close>

lemma drain_fold:
  assumes "wf_control st"
  shows "wf_control (foldl (\<lambda>st s. if hs_state s = Announcing then snd (begin_drain now (hs_cid s, hs_start s, hs_end s) st) else st) st snap) \<and>
    entry (foldl (\<lambda>st s. if hs_state s = Announcing then snd (begin_drain now (hs_cid s, hs_start s, hs_end s) st) else st) st snap) k =
      (if \<exists>s \<in> set snap. hs_state s = Announcing \<and> (hs_cid s, hs_start s, hs_end s) = k
       then map_option (\<lambda>e. if se_state e = Announcing then e\<lparr>se_state := Draining, draining_since := Some now\<rparr> else e) (entry st k)
       else entry st k)"
  using assms
proof (induction snap arbitrary: st)
  case (Cons s snap)
  let ?st = "if hs_state s = Announcing then snd (begin_drain now (hs_cid s, hs_start s, hs_end s) st) else st"
  have "wf_control ?st" using Cons.prems by (simp add: wf_ops)
  from Cons.IH [OF this] Cons.prems show ?case
    by (cases "entry st k") (auto simp: entry_begin_drain)
qed simp

lemma shutdown_entry:
  assumes "wf_control st"
  shows "wf_control (fst (shutdown_drain now st))"
    "entry (fst (shutdown_drain now st)) k =
      map_option (\<lambda>e. if se_state e = Announcing then e\<lparr>se_state := Draining, draining_since := Some now\<rparr> else e) (entry st k)"
proof -
  have fst: "fst (shutdown_drain now st) = foldl (\<lambda>st s. if hs_state s = Announcing
      then snd (begin_drain now (hs_cid s, hs_start s, hs_end s) st) else st) st (snapshot_hosted st)"
    by (simp add: shutdown_drain_def Let_def)
  show "wf_control (fst (shutdown_drain now st))" unfolding fst using drain_fold [OF assms] by blast
  have "\<exists>s \<in> set (snapshot_hosted st). hs_state s = Announcing \<and> (hs_cid s, hs_start s, hs_end s) = k"
    if e: "entry st k = Some e" "se_state e = Announcing" for e
  proof -
    have "(k, e) \<in> set (slices st)" using e(1) by (simp add: entry_def map_of_SomeD)
    then show ?thesis using e(2) by (cases k) (force simp: snapshot_hosted_def image_iff)
  qed
  then show "entry (fst (shutdown_drain now st)) k =
      map_option (\<lambda>e. if se_state e = Announcing then e\<lparr>se_state := Draining, draining_since := Some now\<rparr> else e) (entry st k)"
    unfolding fst using drain_fold [OF assms, of now "snapshot_hosted st" k] by (cases "entry st k") auto
qed

lemma drain_wait_time:
  assumes "\<And>t. delay t \<le> m" "now < deadline + SHUTDOWN_POLL + m"
  shows "drain_wait st delay deadline now < deadline + SHUTDOWN_POLL + m \<and>
    (attached (st (drain_wait st delay deadline now)) \<noteq> 0 \<longrightarrow> deadline \<le> drain_wait st delay deadline now)"
  using assms(2)
proof (induction st delay\<equiv>delay deadline now rule: drain_wait.induct)
  case (1 st deadline now)
  show ?case
  proof (cases "now < deadline \<and> attached (st now) \<noteq> 0")
    case True
    have "now + SHUTDOWN_POLL + delay now < deadline + SHUTDOWN_POLL + m" using True assms(1) [of now] by simp
    from 1(1) [OF True this] True show ?thesis by (simp add: drain_wait.simps [of st delay deadline now])
  next
    case False
    then have "drain_wait st delay deadline now = now" by (subst drain_wait.simps) auto
    then show ?thesis using False 1(2) by auto
  qed
qed

text \<open>
  A shutdown is graceful and bounded: from the signal on no slice is announcing, so no new chain is admitted;
  the process ends within the budget of 30 seconds, one poll and the delay of the scheduler; and
  a chain that is still attached then is cut off only when the whole budget has passed.
\<close>

theorem shutdown_bounded:
  assumes "wf_control st" "\<And>t. delay t \<le> m" "serve_shutdown run delay now st = (left, lost)"
  shows "(\<forall>k. \<not> fst (accept_chain k (fst (shutdown_drain now st)))) \<and>
    left < now + SHUTDOWN_DRAIN_BUDGET + SHUTDOWN_POLL + m \<and> (lost \<noteq> 0 \<longrightarrow> now + SHUTDOWN_DRAIN_BUDGET \<le> left)"
proof -
  have "\<not> fst (accept_chain k (fst (shutdown_drain now st)))" for k
    using shutdown_entry(2) [OF assms(1), of now k] unfolding accept_chain_def entry_def
    by (cases "map_of (slices st) k") auto
  moreover have "left < now + SHUTDOWN_DRAIN_BUDGET + SHUTDOWN_POLL + m \<and> (lost \<noteq> 0 \<longrightarrow> now + SHUTDOWN_DRAIN_BUDGET \<le> left)"
    using drain_wait_time [of delay m now "now + SHUTDOWN_DRAIN_BUDGET", OF assms(2)] assms(3)
    by (auto simp: serve_shutdown_def Let_def SHUTDOWN_POLL_def)
  ultimately show ?thesis by blast
qed

text \<open>
  C34. An announce tick during a shutdown takes the drain for a leave: every idle slice is written to its
  \<open>disabled_ranges.json\<close> while the daemon waits for the chains of another, and the next start does not host
  it any more.
\<close>

theorem shutdown_tick_disables:
  assumes "dr_roundtrip J" "wf_control st" "sidecars_ok J md fs"
    and "entry st (cid, s, e) = Some x" "se_state x = Announcing" "active_chains x = 0"
    and "announce_tick E J md now' (fst (shutdown_drain now st), fs) = (res, fs')"
  shows "disabled_contains (disabled_load J fs' (shard_dir md cid)) s e \<and>
    (cid, s, e) \<notin> offered_keys (scan_kept_ranges J md fs')"
proof -
  obtain st2 where p: "persist_drained_slices J md (fst (shutdown_drain now st), fs) = (st2, fs')"
    using assms(7) by (auto simp: announce_tick_def Let_def split: prod.splits)
  note pd = persist_drained_facts [OF assms(1) shutdown_entry(1) [OF assms(2)] p]
  have dis: "disabled_contains (disabled_load J fs' (shard_dir md cid)) s e"
    unfolding pd(3) using assms(4-6) by (simp add: shutdown_entry(2) [OF assms(2)])
  have "sidecars_ok J md fs'" using assms(3) by (simp add: sidecars_ok_def pd(2))
  from offered_scan [OF this] dis show ?thesis by blast
qed


section \<open>Witnesses\<close>

definition demo_seeds :: bootstrap_manifest where
  "demo_seeds = \<lparr>bm_version = 1, bm_minted_at = 0, bm_ttl_seconds = 60, bm_seeds = [''a'']\<rparr>"

definition demo_boot :: "bool \<Rightarrow> u64 \<Rightarrow> boot_env" where
  "demo_boot online now =
     \<lparr>bo_dirs = ho_dirs demo_host, bo_enc = (\<lambda>c. u64_le (cm_fetched_at c)),
      bo_dec = (\<lambda>bs. Some \<lparr>cm_fetched_at = word_of_nat (le_nat bs), cm_manifest = demo_seeds\<rparr>), bo_now = now, bo_can_write = True,
      bo_get = (if online then Inr demo_seeds else Inl ''off'')\<rparr>"

text \<open>Fetched at 1000, read again two minutes later without a network.\<close>

lemma seeds_survive_offline_witness:
  "fst (load_seeds (demo_boot False 1120) (snd (snd (load_seeds (demo_boot True 1000) [])))) = [''a'']"
proof -
  obtain seeds asked fs' where l: "load_seeds (demo_boot True 1000) [] = (seeds, asked, fs')" by (metis prod_cases3)
  then have asked: "asked = True" by (auto simp: load_seeds_def read_cache_def read_file_def split: sum.splits option.splits)
  have "coder_ok (demo_boot True 1000) demo_seeds"
    by (simp add: coder_ok_def demo_boot_def)
  moreover have "cache_path (bo_dirs (demo_boot True 1000)) \<noteq> None" by (simp add: cache_path_def demo_boot_def demo_host_simps)
  ultimately show ?thesis
    using seeds_survive_offline [of "demo_boot True 1000" demo_seeds "[]" seeds fs' "demo_boot False 1120"] l asked
    by (simp add: demo_boot_def fetch_remote_def demo_seeds_def)
qed

lemma joined_slice_announced_witness:
  "(\<exists>rs r. spawn_announce_loop sample_env sample_sidecars [] 0 [(300, \<lambda>_. (ctl1, sample_disk))] (control_new ''peer'' 0, []) = Some rs \<and>
      r \<in> set (tl rs) \<and> key0 \<in> announced_keys (ar_attempted r)) \<longleftrightarrow> False"
proof -
  have nd: "entry ctl1 y = Some e \<Longrightarrow> se_state e \<noteq> Draining" for y e
    unfolding ctl1_def by (auto simp: entry_upsert split: if_splits)
  then have "\<forall>x e. entry ctl1 x = Some e \<longrightarrow> se_state e \<noteq> Draining" by blast
  note idle = no_draining_drain_idle [OF sample_control(1) this]
  obtain st2 where d: "drain_idle ctl1 = ([], st2)" using idle(1) by (metis prod.collapse)
  have t: "announce_tick sample_env sample_sidecars [] 300 (ctl1, sample_disk) =
      (announce_all sample_env 300 sample_disk (scan_kept_ranges sample_sidecars [] sample_disk) st2, sample_disk)"
    by (simp add: announce_tick_def persist_drained_slices_def d)
  have "\<not> vetoed (snd (drain_idle ctl1)) key0" by (simp add: vetoed_def idle(2) sample_control(4))
  moreover have "scan_kept_ranges sample_sidecars [] [] = []" by (simp add: scan_kept_ranges_def read_dir_def map_filter_def)
  ultimately show ?thesis
    using joined_slice_announced [of "control_new ''peer'' 0" "\<lambda>_. (ctl1, sample_disk)", OF wf_control_new refl sample_control(1) t sample_offered, of 0 "[]"] by simp
qed

lemma shutdown_bounded_witness:
  "\<exists>left lost. serve_shutdown (\<lambda>st t. if t < 5000 then st else snd (release_chain key0 st)) (\<lambda>_. 0) 0 ctl2 = (left, lost) \<and> left < 30500"
proof -
  let ?run = "\<lambda>st t. if t < 5000 then st else snd (release_chain key0 st)"
  obtain left lost where r: "serve_shutdown ?run (\<lambda>_. 0) 0 ctl2 = (left, lost)" by (rule prod.exhaust)
  have "left < 0 + SHUTDOWN_DRAIN_BUDGET + SHUTDOWN_POLL + 0"
    using shutdown_bounded [OF sample_control(2) order_refl r] by blast
  then have "left < 30500" by (simp add: SHUTDOWN_DRAIN_BUDGET_def SHUTDOWN_POLL_def)
  with r show ?thesis by blast
qed

lemma shutdown_tick_disables_witness:
  "\<exists>fs'. key0 \<notin> offered_keys (scan_kept_ranges sample_sidecars [] fs') \<and>
    key0 \<in> offered_keys (scan_kept_ranges sample_sidecars [] sample_disk)"
proof -
  obtain res fs' where r: "announce_tick sample_env sample_sidecars [] 0 (fst (shutdown_drain 5 ctl1), sample_disk) = (res, fs')"
    by fastforce
  show ?thesis
    using shutdown_tick_disables [OF sample_roundtrip sample_control(1) sample_sidecars_ok sample_control(4) [unfolded key0_def] _ _ r]
      sample_offered by (auto simp: key0_def)
qed

end
