(* ===== verification/Crypto.thy ===== *)
theory Crypto
  imports Base58
begin

text \<open>
  Identities, handshakes and the encryption of prompts, \<open>crates/crypto/src/lib.rs\<close>. The primitives (Ed25519, X25519,
  AES-256-GCM, BLAKE3) are crates: they are the fields of \<open>primitives\<close>, and what is used of them are the named
  hypotheses below, each the documented behaviour of one primitive. A random seed, secret or nonce is an argument.
\<close>

record primitives =
  ed_public :: "bytes \<Rightarrow> bytes" \<comment> \<open>the public key of a seed\<close>
  ed_sign :: "bytes \<Rightarrow> bytes \<Rightarrow> bytes"
  ed_decode :: "bytes \<Rightarrow> string option" \<comment> \<open>why a text is no public key\<close>
  ed_verify :: "bytes \<Rightarrow> bytes \<Rightarrow> bytes \<Rightarrow> bool"
  x_public :: "bytes \<Rightarrow> bytes"
  x_dh :: "bytes \<Rightarrow> bytes \<Rightarrow> bytes"
  gcm_seal :: "bytes \<Rightarrow> bytes \<Rightarrow> bytes \<Rightarrow> string + bytes"
  gcm_open :: "bytes \<Rightarrow> bytes \<Rightarrow> bytes \<Rightarrow> string + bytes"
  blake3_xof :: "bytes \<Rightarrow> nat \<Rightarrow> bytes"

datatype crypto_error = BadSignature | Aead string | BadKeyLen | Ed25519 string

section \<open>Identity\<close>

record identity =
  id_signing :: bytes

definition from_seed :: "bytes \<Rightarrow> identity" where
  "from_seed seed = \<lparr>id_signing = seed\<rparr>"

definition identity_seed :: "identity \<Rightarrow> bytes" where
  "identity_seed i = id_signing i"

definition identity_public :: "primitives \<Rightarrow> identity \<Rightarrow> bytes" where
  "identity_public P i = ed_public P (id_signing i)"

definition identity_sign :: "primitives \<Rightarrow> identity \<Rightarrow> bytes \<Rightarrow> bytes" where
  "identity_sign P i msg = ed_sign P (id_signing i) msg"

text \<open>The key is decoded before the length of the signature is looked at.\<close>

definition verify_sig :: "primitives \<Rightarrow> bytes \<Rightarrow> bytes \<Rightarrow> bytes \<Rightarrow> crypto_error + unit" where
  "verify_sig P peer_pub msg sig =
     (case ed_decode P peer_pub of
        Some e \<Rightarrow> Inl (Ed25519 e)
      | None \<Rightarrow>
          if length sig \<noteq> 64 then Inl BadKeyLen
          else if ed_verify P peer_pub msg sig then Inr () else Inl BadSignature)"

section \<open>Handshake\<close>

record handshake =
  hs_secret :: bytes
  hs_public :: bytes

definition handshake_new :: "primitives \<Rightarrow> bytes \<Rightarrow> handshake" where
  "handshake_new P secret = \<lparr>hs_secret = secret, hs_public = x_public P secret\<rparr>"

definition derive_shared :: "primitives \<Rightarrow> handshake \<Rightarrow> bytes \<Rightarrow> bytes" where
  "derive_shared P h peer_pub = x_dh P (hs_secret h) peer_pub"

section \<open>Prompts\<close>

definition session_key :: "primitives \<Rightarrow> bytes \<Rightarrow> bytes" where
  "session_key P shared = blake3_xof P (str_bytes ''intelnav/v1/prompt'' @ shared) 32"

definition encrypt_prompt :: "primitives \<Rightarrow> bytes \<Rightarrow> bytes \<Rightarrow> bytes \<Rightarrow> crypto_error + (bytes \<times> bytes)" where
  "encrypt_prompt P nonce key plaintext =
     (if length key \<noteq> 32 then Inl BadKeyLen
      else rbind (map_err Aead (gcm_seal P key nonce plaintext)) (\<lambda>ct. Inr (ct, nonce)))"

definition decrypt_prompt :: "primitives \<Rightarrow> bytes \<Rightarrow> bytes \<Rightarrow> bytes \<Rightarrow> crypto_error + bytes" where
  "decrypt_prompt P key ciphertext nonce =
     (if length key \<noteq> 32 then Inl BadKeyLen else map_err Aead (gcm_open P key nonce ciphertext))"

section \<open>What is used of the primitives\<close>

text \<open>The two sides of an exchange agree (RFC 7748).\<close>

definition dh_agrees :: "primitives \<Rightarrow> bool" where
  "dh_agrees P \<longleftrightarrow> (\<forall>a b. x_dh P a (x_public P b) = x_dh P b (x_public P a))"

text \<open>Authenticated encryption: what was sealed opens again, and nothing else opens.\<close>

definition gcm_correct :: "primitives \<Rightarrow> bool" where
  "gcm_correct P \<longleftrightarrow> (\<forall>k n m c. gcm_seal P k n m = Inr c \<longrightarrow> gcm_open P k n c = Inr m)"

definition gcm_authentic :: "primitives \<Rightarrow> bool" where
  "gcm_authentic P \<longleftrightarrow> (\<forall>k n m c. gcm_open P k n c = Inr m \<longrightarrow> gcm_seal P k n m = Inr c)"

definition xof_length :: "primitives \<Rightarrow> bool" where
  "xof_length P \<longleftrightarrow> (\<forall>bs n. length (blake3_xof P bs n) = n)"

definition ed_correct :: "primitives \<Rightarrow> bool" where
  "ed_correct P \<longleftrightarrow> (\<forall>s m. ed_decode P (ed_public P s) = None \<and> length (ed_sign P s m) = 64 \<and>
     ed_verify P (ed_public P s) m (ed_sign P s m))"

section \<open>A prompt reaches the entry shard\<close>

text \<open>
  What a client encrypts for a shard the shard reads: from the two public keys both derive the same session key, of
  the length the cipher takes, and the plaintext comes back; a ciphertext that is not one of the shard's key, nonce
  and that plaintext never decrypts to it.
\<close>

theorem prompt_roundtrip:
  assumes "dh_agrees P" "gcm_correct P" "gcm_authentic P" "xof_length P"
    and "client = handshake_new P a" "shard = handshake_new P b"
    and "encrypt_prompt P nonce (session_key P (derive_shared P client (hs_public shard))) prompt = Inr (ct, n)"
  shows "n = nonce \<and> decrypt_prompt P (session_key P (derive_shared P shard (hs_public client))) ct n = Inr prompt \<and>
    (\<forall>ct'. ct' \<noteq> ct \<longrightarrow> decrypt_prompt P (session_key P (derive_shared P shard (hs_public client))) ct' n \<noteq> Inr prompt)"
proof -
  let ?k = "session_key P (derive_shared P client (hs_public shard))"
  have k: "session_key P (derive_shared P shard (hs_public client)) = ?k" "length ?k = 32"
    using assms(1,4) by (simp_all add: assms(5,6) derive_shared_def handshake_new_def dh_agrees_def session_key_def xof_length_def)
  have seal: "gcm_seal P ?k nonce prompt = Inr ct" "n = nonce"
    using assms(7) k(2) by (auto simp: encrypt_prompt_def results)
  then have "gcm_open P ?k nonce ct = Inr prompt" using assms(2) by (auto simp: gcm_correct_def)
  moreover have "gcm_open P ?k nonce ct' \<noteq> Inr prompt" if "ct' \<noteq> ct" for ct'
    using assms(3) seal(1) that by (fastforce simp: gcm_authentic_def)
  ultimately show ?thesis using seal(2) k by (simp add: decrypt_prompt_def results)
qed

text \<open>A signature of an identity, also of one restored from its seed, verifies under its public key.\<close>

lemma signed_verifies:
  "ed_correct P \<Longrightarrow> verify_sig P (identity_public P i) msg (identity_sign P (from_seed (identity_seed i)) msg) = Inr ()"
  by (simp add: verify_sig_def identity_public_def identity_sign_def identity_seed_def from_seed_def ed_correct_def)

section \<open>A toy instance\<close>

definition toy_crypto :: primitives where
  "toy_crypto = \<lparr>ed_public = id, ed_sign = (\<lambda>s m. replicate 64 0), ed_decode = (\<lambda>_. None), ed_verify = (\<lambda>k m s. s = replicate 64 0),
     x_public = id, x_dh = (\<lambda>a b. if a < b then a @ b else b @ a), gcm_seal = (\<lambda>k n m. Inr (k @ n @ m)),
     gcm_open = (\<lambda>k n c. case strip_prefix c (k @ n) of Some m \<Rightarrow> Inr m | None \<Rightarrow> Inl ''aead''),
     blake3_xof = (\<lambda>bs n. take n (bs @ replicate n 0))\<rparr>"

lemma toy_crypto_ok: "dh_agrees toy_crypto" "gcm_correct toy_crypto" "gcm_authentic toy_crypto" "xof_length toy_crypto" "ed_correct toy_crypto"
  by (auto simp: toy_crypto_def dh_agrees_def gcm_correct_def gcm_authentic_def xof_length_def ed_correct_def strip_prefix_def
      starts_with_iff split: if_splits option.splits)

lemma prompt_roundtrip_witness:
  "\<exists>ct n. decrypt_prompt toy_crypto (session_key toy_crypto (derive_shared toy_crypto (handshake_new toy_crypto [2])
     (hs_public (handshake_new toy_crypto [1])))) ct n = Inr [7]"
proof -
  let ?k = "session_key toy_crypto (derive_shared toy_crypto (handshake_new toy_crypto [1]) (hs_public (handshake_new toy_crypto [2])))"
  have "length ?k = 32" using toy_crypto_ok(4) by (simp add: xof_length_def session_key_def)
  then obtain ct where "encrypt_prompt toy_crypto [9] ?k [7] = Inr (ct, [9])" by (simp add: encrypt_prompt_def toy_crypto_def)
  from prompt_roundtrip [OF toy_crypto_ok(1-4) refl refl this] show ?thesis by blast
qed

end
