(* ===== verification/Telemetry.thy ===== *)
theory Telemetry
  imports Prelude "HOL-Library.Multiset"
begin

text \<open>
  Step events of a chain, \<open>crates/runtime/src/telemetry.rs\<close>. Any number of threads emit: an emit first takes the next
  number of the shared counter and then sends, and others can come in between. The channel (Tokio's broadcast
  channel) is the sequence of the events sent; a subscriber gets the suffix from its subscription on, or is
  told that it lagged, which is the channel's part.
\<close>

section \<open>Events\<close>

datatype step_phase = Prefill | Decode | Heartbeat

record step_event =
  ev_seq :: u64
  ev_at_ms :: u64
  ev_peer_index :: u64
  ev_peer_id :: string
  ev_phase :: step_phase
  ev_rtt_ms :: "32 word"
  ev_bytes_up :: u64
  ev_bytes_down :: u64
  ev_synthetic :: bool

text \<open>The handle: the counter, what was sent, and where in it each subscriber started.\<close>

record telemetry =
  tm_seq :: u64
  tm_sent :: "step_event list"
  tm_receivers :: "nat list"

definition telemetry_new :: telemetry where
  "telemetry_new = \<lparr>tm_seq = 0, tm_sent = [], tm_receivers = []\<rparr>"

definition subscribe :: "telemetry \<Rightarrow> telemetry" where
  "subscribe t = t\<lparr>tm_receivers := tm_receivers t @ [length (tm_sent t)]\<rparr>"

definition subscriber_count :: "telemetry \<Rightarrow> nat" where
  "subscriber_count t = length (tm_receivers t)"

definition has_subscribers :: "telemetry \<Rightarrow> bool" where
  "has_subscribers t \<longleftrightarrow> 0 < subscriber_count t"

text \<open>The two steps of an emit. Without a receiver the send is an error, which is ignored.\<close>

definition take_seq :: "telemetry \<Rightarrow> u64 \<times> telemetry" where
  "take_seq t = (tm_seq t, t\<lparr>tm_seq := tm_seq t + 1\<rparr>)"

definition stamp :: "u64 \<Rightarrow> u64 \<Rightarrow> step_event \<Rightarrow> step_event" where
  "stamp n now ev = ev\<lparr>ev_seq := n, ev_at_ms := (if ev_at_ms ev = 0 then now else ev_at_ms ev)\<rparr>"

definition send :: "step_event \<Rightarrow> telemetry \<Rightarrow> telemetry" where
  "send ev t = (if has_subscribers t then t\<lparr>tm_sent := tm_sent t @ [ev]\<rparr> else t)"

definition emit_event :: "u64 \<Rightarrow> step_event \<Rightarrow> telemetry \<Rightarrow> u64 \<times> telemetry" where
  "emit_event now ev t = (let (n, t1) = take_seq t in (n, send (stamp n now ev) t1))"

section \<open>Threads\<close>

text \<open>The emits under way: those that have taken their number and not sent yet.\<close>

type_synonym emitters = "telemetry \<times> step_event list"

inductive emit_step :: "emitters \<Rightarrow> emitters \<Rightarrow> bool" where
  take: "take_seq t = (n, t') \<Longrightarrow> emit_step (t, ps) (t', ps @ [stamp n now ev])"
| sent: "i < length ps \<Longrightarrow> emit_step (t, ps) (send (ps ! i) t, take i ps @ drop (Suc i) ps)"
| sub: "emit_step (t, ps) (subscribe t, ps)"

inductive reach :: "nat \<Rightarrow> emitters \<Rightarrow> bool" where
  start: "reach 0 (telemetry_new, [])"
| step: "reach k s \<Longrightarrow> emit_step s s' \<Longrightarrow> reach (Suc k) s'"

text \<open>Fewer than \<open>2 ^ 64\<close> steps: the counter has not wrapped, and every number is below it and used once.\<close>

definition seq_inv :: "nat \<Rightarrow> emitters \<Rightarrow> bool" where
  "seq_inv k = (\<lambda>(t, ps). unat (tm_seq t) \<le> k \<and> distinct (map ev_seq (tm_sent t @ ps)) \<and>
     (\<forall>e \<in> set (tm_sent t @ ps). ev_seq e < tm_seq t))"

lemma set_take_drop: "set (take i ps) \<union> set (drop (Suc i) ps) \<subseteq> set ps"
  by (auto dest: in_set_takeD in_set_dropD)

lemma distinct_move:
  assumes "i < length ps" "distinct (map f (xs @ ps))"
  shows "distinct (map f ((xs @ [ps ! i]) @ take i ps @ drop (Suc i) ps))" "distinct (map f (xs @ take i ps @ drop (Suc i) ps))"
proof -
  have m: "mset (map f ((xs @ [ps ! i]) @ take i ps @ drop (Suc i) ps)) = mset (map f (xs @ ps))"
    using arg_cong [OF id_take_nth_drop [OF assms(1)], of "\<lambda>x. mset (map f x)"] by simp
  show d: "distinct (map f ((xs @ [ps ! i]) @ take i ps @ drop (Suc i) ps))"
    using mset_eq_imp_distinct_iff [OF m] assms(2) by blast
  then show "distinct (map f (xs @ take i ps @ drop (Suc i) ps))" by auto
qed

lemma seq_inv_step:
  assumes "seq_inv k s" "emit_step s s'" "Suc k < 2 ^ 64"
  shows "seq_inv (Suc k) s'"
  using assms(2)
proof (cases rule: emit_step.cases)
  case (take t n t' ps now ev)
  have inv: "unat (tm_seq t) \<le> k" "distinct (map ev_seq (tm_sent t @ ps))" "\<forall>e \<in> set (tm_sent t @ ps). ev_seq e < tm_seq t"
    using assms(1) by (simp_all add: seq_inv_def take(1))
  have w: "tm_seq t < tm_seq t + 1" "unat (tm_seq t + 1) = Suc (unat (tm_seq t))"
    using inv(1) assms(3) unat_add_lem [of "tm_seq t" 1] by (simp_all add: word_less_nat_alt)
  have t': "n = tm_seq t" "t' = t\<lparr>tm_seq := tm_seq t + 1\<rparr>" using take(3) by (auto simp: take_seq_def)
  show ?thesis unfolding take(2) seq_inv_def t' using inv w
    by (auto simp: stamp_def intro: order.strict_trans)
next
  case (sent i ps t)
  have inv: "unat (tm_seq t) \<le> k" "distinct (map ev_seq (tm_sent t @ ps))" "\<forall>e \<in> set (tm_sent t @ ps). ev_seq e < tm_seq t"
    using assms(1) by (simp_all add: seq_inv_def sent(1))
  note d = distinct_move [OF sent(3) inv(2)]
  show ?thesis
  proof (cases "has_subscribers t")
    case True
    then show ?thesis unfolding sent(2) seq_inv_def using inv(1,3) d(1) set_take_drop [of i ps] sent(3) by (auto simp: send_def)
  next
    case False
    then show ?thesis unfolding sent(2) seq_inv_def using inv(1,3) d(2) set_take_drop [of i ps] by (auto simp: send_def)
  qed
next
  case (sub t ps)
  then show ?thesis using assms(1) by (auto simp: seq_inv_def subscribe_def)
qed

lemma reach_inv: "reach k s \<Longrightarrow> k < 2 ^ 64 \<Longrightarrow> seq_inv k s"
proof (induction rule: reach.induct)
  case start
  then show ?case by (simp add: seq_inv_def telemetry_new_def)
next
  case (step k s s')
  then show ?case using seq_inv_step by auto
qed

text \<open>
  However the threads interleave, no two events carry the same number, and every number was handed out before the
  one the counter shows.
\<close>

theorem events_numbered_once:
  assumes "reach k (t, ps)" "k < 2 ^ 64"
  shows "distinct (map ev_seq (tm_sent t @ ps)) \<and> (\<forall>e \<in> set (tm_sent t @ ps). ev_seq e < tm_seq t)"
  using reach_inv [OF assms] by (simp add: seq_inv_def)

definition demo_event :: step_event where
  "demo_event = \<lparr>ev_seq = 0, ev_at_ms = 5, ev_peer_index = 0, ev_peer_id = [], ev_phase = Decode, ev_rtt_ms = 0, ev_bytes_up = 0,
     ev_bytes_down = 0, ev_synthetic = False\<rparr>"

definition two_emits :: telemetry where
  "two_emits = \<lparr>tm_seq = 2, tm_sent = [stamp 1 5 demo_event, stamp 0 5 demo_event], tm_receivers = [0]\<rparr>"

text \<open>Two threads whose sends overtake each other: the numbers are not in order.\<close>

lemma overtaken: "reach 5 (two_emits, [])"
proof -
  let ?t0 = "\<lparr>tm_seq = 0, tm_sent = [], tm_receivers = [0]\<rparr> :: telemetry"
  let ?a = "stamp 0 5 demo_event" and ?b = "stamp 1 5 demo_event"
  have 1: "emit_step (telemetry_new, []) (?t0, [])" using emit_step.sub [of telemetry_new "[]"]
    by (simp add: subscribe_def telemetry_new_def)
  have 2: "emit_step (?t0, []) (?t0\<lparr>tm_seq := 1\<rparr>, [?a])" using emit_step.take [of ?t0 0 "?t0\<lparr>tm_seq := 1\<rparr>" "[]"]
    by (simp add: take_seq_def)
  have 3: "emit_step (?t0\<lparr>tm_seq := 1\<rparr>, [?a]) (?t0\<lparr>tm_seq := 2\<rparr>, [?a, ?b])"
    using emit_step.take [of "?t0\<lparr>tm_seq := 1\<rparr>" 1 "?t0\<lparr>tm_seq := 2\<rparr>" "[?a]"] by (simp add: take_seq_def)
  have 4: "emit_step (?t0\<lparr>tm_seq := 2\<rparr>, [?a, ?b]) (?t0\<lparr>tm_seq := 2, tm_sent := [?b]\<rparr>, [?a])"
    using emit_step.sent [of 1 "[?a, ?b]" "?t0\<lparr>tm_seq := 2\<rparr>"] by (simp add: send_def has_subscribers_def subscriber_count_def)
  have 5: "emit_step (?t0\<lparr>tm_seq := 2, tm_sent := [?b]\<rparr>, [?a]) (two_emits, [])"
    using emit_step.sent [of 0 "[?a]" "?t0\<lparr>tm_seq := 2, tm_sent := [?b]\<rparr>"]
    by (simp add: send_def has_subscribers_def subscriber_count_def two_emits_def)
  have "reach (Suc (Suc (Suc (Suc (Suc 0))))) (two_emits, [])"
    by (rule reach.step [OF reach.step [OF reach.step [OF reach.step [OF reach.step [OF reach.start 1] 2] 3] 4] 5])
  then show ?thesis by (simp add: numeral_eq_Suc)
qed

lemma events_numbered_once_witness: "distinct (map ev_seq (tm_sent two_emits @ [])) \<and> \<not> sorted (map ev_seq (tm_sent two_emits))"
  using events_numbered_once [OF overtaken] by (simp add: two_emits_def stamp_def)

end
