(* ===== verification/App_Keys.thy ===== *)
theory App_Keys
  imports App_Events
begin

text \<open>
  Keys and the main loop of the chat client (\<open>handle_key\<close>, \<open>edit_in_external_editor\<close>, \<open>run_loop\<close> and the
  state the frame leaves behind, in \<open>crates/app/src/tui/mod.rs\<close>), and what holds of every run of it.
\<close>

record key_event =
  k_code :: key_code
  k_ctrl :: bool
  k_shift :: bool
  k_alt :: bool

text \<open>How a run of \<open>$EDITOR\<close> ends: an error before or after it, an exit status, or a saved text.\<close>

datatype editor_run = EditorFails string | EditorExits string | EditorSaves utext

section \<open>Editing\<close>

definition replace_range :: "utext \<Rightarrow> nat \<Rightarrow> nat \<Rightarrow> utext \<Rightarrow> utext option" where
  "replace_range t i j new =
     (if j < i then None
      else Option.bind (cut t i) (\<lambda>(x, r). map_option (\<lambda>(_, y). x @ new @ y) (cut r (j - i))))"

definition insert_char :: "nat \<Rightarrow> 'm app \<Rightarrow> 'm app option" where
  "insert_char c a =
     map_option (\<lambda>t. (push_undo a)\<lparr>ap_input := t, ap_cursor := ap_cursor a + clen c\<rparr>) (insert_at (ap_cursor a) [c] (ap_input a))"

text \<open>Backslash and Enter: the backslash becomes the newline.\<close>

definition newline_for_backslash :: "'m app \<Rightarrow> 'm app option" where
  "newline_for_backslash a =
     (let p = prev_char_boundary (ap_input a) (ap_cursor a)
      in map_option (\<lambda>t. (push_undo a)\<lparr>ap_input := t, ap_cursor := p + 1\<rparr>) (replace_range (ap_input a) p (ap_cursor a) [NL]))"

definition backspace :: "'m app \<Rightarrow> 'm app option" where
  "backspace a =
     (if ap_cursor a = 0 then Some a
      else let p = prev_char_boundary (ap_input a) (ap_cursor a)
           in map_option (\<lambda>t. (push_undo a)\<lparr>ap_input := t, ap_cursor := p\<rparr>) (replace_range (ap_input a) p (ap_cursor a) []))"

definition delete_char :: "'m app \<Rightarrow> 'm app option" where
  "delete_char a =
     (if blen (ap_input a) \<le> ap_cursor a then Some a
      else let n = next_char_boundary (ap_input a) (ap_cursor a)
           in map_option (\<lambda>t. (push_undo a)\<lparr>ap_input := t\<rparr>) (replace_range (ap_input a) (ap_cursor a) n []))"

definition edit_in_external_editor :: "editor_run \<Rightarrow> 'm app \<Rightarrow> 'm app" where
  "edit_in_external_editor r a =
     (case r of
        EditorFails e \<Rightarrow> push_system (''$EDITOR: '' @ e) a
      | EditorExits st \<Rightarrow> push_system (''$EDITOR exited '' @ st @ '' '' @ em_dash @ '' input unchanged'') a
      | EditorSaves t \<Rightarrow>
          (set_input (rev (dropWhile (\<lambda>c. c = NL) (rev t))) a)\<lparr>ap_sugg_idx := 0, ap_history_idx := None\<rparr>)"

definition cancel_stream :: "'m app \<Rightarrow> 'm app" where
  "cancel_stream a = on_last (\<lambda>t. t\<lparr>tn_complete := True\<rparr>) (a\<lparr>ap_streaming := None\<rparr>)"

section \<open>Keys\<close>

definition EXIT_WINDOW :: nat where "EXIT_WINDOW = 1500"
definition CLEAR_WINDOW :: nat where "CLEAR_WINDOW = 600"

definition armed :: "nat \<Rightarrow> nat \<Rightarrow> nat option \<Rightarrow> bool" where
  "armed now window p = (case p of Some t \<Rightarrow> now - t < window | None \<Rightarrow> False)"

definition disarm :: "'m app \<Rightarrow> 'm app" where
  "disarm a = a\<lparr>ap_exit_pending := None, ap_clear_pending := None\<rparr>"

definition ctrl_c :: "app_env \<Rightarrow> 'm app \<Rightarrow> bool \<times> 'm app" where
  "ctrl_c E a =
     (if armed (ae_now E) EXIT_WINDOW (ap_exit_pending a) then (True, a)
      else (False,
        (if ap_streaming a \<noteq> None then cancel_stream a
         else if in_overlay a then a\<lparr>ap_view := Chat\<rparr>
         else if ap_input a \<noteq> [] then a\<lparr>ap_input := [], ap_cursor := 0, ap_sugg_idx := 0, ap_history_idx := None\<rparr>
         else a)\<lparr>ap_exit_pending := Some (ae_now E)\<rparr>))"

text \<open>The keys taken with Control; \<open>None\<close> is a key that goes on to the rest.\<close>

definition ctrl_key :: "app_env \<Rightarrow> editor_run \<Rightarrow> key_code \<Rightarrow> 'm app \<Rightarrow> (bool \<times> 'm app) option" where
  "ctrl_key E ed k a =
     (if k = KChar 0x5F then
        Some (False, disarm (case pop_undo a of (True, a1) \<Rightarrow> a1 | (False, a1) \<Rightarrow> push_system ''nothing to undo'' a1))
      else if k = KChar 0x67 then Some (False, disarm (edit_in_external_editor ed (push_undo a)))
      else if k = KChar 0x63 then Some (ctrl_c E a)
      else if k = KChar 0x64 then Some (ap_input a = [] \<and> \<not> in_overlay a, a)
      else if k = KChar 0x6C then Some (False, a\<lparr>ap_history := []\<rparr>)
      else None)"

definition browser_keys :: "app_env \<Rightarrow> browser_state \<Rightarrow> key_code \<Rightarrow> 'm app \<Rightarrow> 'm app option" where
  "browser_keys E s k a =
     (let (s1, act) = browser_key s k; a1 = a\<lparr>ap_view := BrowserView s1\<rparr>
      in case act of Commit \<Rightarrow> commit_browser E a1 | ContributeRow \<Rightarrow> contribute_browser E a1
         | CloseBrowser \<Rightarrow> Some (close_browser a1) | Consumed \<Rightarrow> Some a1 | Passthrough \<Rightarrow> Some a1)"

text \<open>The keys the list of suggestions takes; \<open>None\<close> is a key that goes on. Up and Down wrap around.\<close>

definition overlay_key :: "app_env \<Rightarrow> slash_cmd list \<Rightarrow> key_code \<Rightarrow> 'm ui \<Rightarrow> 'm ui option option" where
  "overlay_key E s k u =
     (let a = fst u
      in if k = KUp then Some (Some (apfst (\<lambda>a. a\<lparr>ap_sugg_idx := (if ap_sugg_idx a = 0 then length s - 1 else ap_sugg_idx a - 1)\<rparr>) u))
         else if k = KDown then Some (Some (apfst (\<lambda>a. a\<lparr>ap_sugg_idx := (ap_sugg_idx a + 1) mod length s\<rparr>) u))
         else if k = KTab then Some (Some (apfst accept_suggestion u))
         else if k = KEnter then
           Some (if list_ex (\<lambda>c. ascii (sc_name c) = dropWhile (\<lambda>c. c = 0x2F) (ap_input a)) s
                 then submit_ui E u else Some (apfst accept_suggestion u))
         else if k = KEsc then Some (Some (apfst (\<lambda>a. a\<lparr>ap_input := [], ap_cursor := 0, ap_sugg_idx := 0\<rparr>) u))
         else None)"

definition enter_key :: "app_env \<Rightarrow> bool \<Rightarrow> 'm ui \<Rightarrow> 'm ui option" where
  "enter_key E shift u =
     (let a = fst u
      in if shift then map_option (\<lambda>a. (a, snd u)) (insert_char NL a)
         else if ap_cursor a = 0 then submit_ui E u
         else Option.bind (cut (ap_input a) (ap_cursor a)) (\<lambda>(x, _).
           if last x = 0x5C then map_option (\<lambda>a. (a, snd u)) (newline_for_backslash a) else submit_ui E u))"

definition escape_key :: "app_env \<Rightarrow> 'm app \<Rightarrow> 'm app" where
  "escape_key E a =
     (if ap_streaming a \<noteq> None then (cancel_stream a)\<lparr>ap_clear_pending := None\<rparr>
      else if ap_input a = [] then a
      else if armed (ae_now E) CLEAR_WINDOW (ap_clear_pending a)
      then (push_undo a)\<lparr>ap_input := [], ap_cursor := 0, ap_history_idx := None, ap_sugg_idx := 0, ap_clear_pending := None\<rparr>
      else a\<lparr>ap_clear_pending := Some (ae_now E)\<rparr>)"

definition scroll_step :: "'m app \<Rightarrow> u16" where
  "scroll_step a = max (ap_last_viewport a div 2) 1"

definition sat_add16 :: "u16 \<Rightarrow> u16 \<Rightarrow> u16" where
  "sat_add16 a b = (if unat a + unat b < 2 ^ 16 then a + b else - 1)"

definition page_up :: "'m app \<Rightarrow> 'm app" where
  "page_up a = a\<lparr>ap_follow_tail := False, ap_scroll_off := sat_sub (ap_scroll_off a) (scroll_step a)\<rparr>"

definition page_down :: "'m app \<Rightarrow> 'm app" where
  "page_down a =
     (let max_off = sat_sub (ap_last_total a) (ap_last_viewport a);
          off = min (sat_add16 (ap_scroll_off a) (scroll_step a)) max_off
      in a\<lparr>ap_scroll_off := off, ap_follow_tail := (if off = max_off then True else ap_follow_tail a)\<rparr>)"

definition scroll_to :: "u16 \<times> bool \<Rightarrow> 'm app \<Rightarrow> 'm app" where
  "scroll_to p a = a\<lparr>ap_scroll_off := fst p, ap_follow_tail := snd p\<rparr>"

definition home_key :: "app_env \<Rightarrow> bool \<Rightarrow> 'm app \<Rightarrow> 'm app" where
  "home_key E shift a =
     (if shift then scroll_to transcript_scroll_to_top a
      else a\<lparr>ap_cursor := visual_row_start (ae_cw E) (ap_input a) (ap_cursor a) (row_limit a)\<rparr>)"

definition end_key :: "app_env \<Rightarrow> bool \<Rightarrow> 'm app \<Rightarrow> 'm app option" where
  "end_key E shift a =
     (if shift then Some (scroll_to (transcript_scroll_to_bottom (ap_last_total a) (ap_last_viewport a)) a)
      else map_option (\<lambda>i. a\<lparr>ap_cursor := i\<rparr>) (visual_row_end (ae_cw E) (ap_input a) (ap_cursor a) (row_limit a)))"

definition char_key :: "nat \<Rightarrow> 'm app \<Rightarrow> 'm app option" where
  "char_key c a = map_option (\<lambda>a. a\<lparr>ap_clear_pending := None\<rparr>) (insert_char c a)"

definition edit_key :: "app_env \<Rightarrow> key_event \<Rightarrow> 'm app \<Rightarrow> 'm app option" where
  "edit_key E k a =
     (case k_code k of
        KBackspace \<Rightarrow> backspace a
      | KDelete \<Rightarrow> delete_char a
      | KLeft \<Rightarrow> Some (a\<lparr>ap_cursor := prev_char_boundary (ap_input a) (ap_cursor a)\<rparr>)
      | KRight \<Rightarrow> Some (a\<lparr>ap_cursor := next_char_boundary (ap_input a) (ap_cursor a)\<rparr>)
      | KUp \<Rightarrow> if cursor_on_first_input_row E a then history_up a else Some a
      | KDown \<Rightarrow> if cursor_on_last_input_row E a then history_down a else Some a
      | KHome \<Rightarrow> Some (home_key E (k_shift k) a)
      | KEnd \<Rightarrow> end_key E (k_shift k) a
      | KPageUp \<Rightarrow> Some (page_up a)
      | KPageDown \<Rightarrow> Some (page_down a)
      | KChar c \<Rightarrow> char_key c a
      | KEsc \<Rightarrow> Some (escape_key E a)
      | _ \<Rightarrow> Some a)"

definition chat_key :: "app_env \<Rightarrow> key_event \<Rightarrow> 'm ui \<Rightarrow> 'm ui option" where
  "chat_key E k u =
     (case (if suggestions (fst u) = [] then None else overlay_key E (suggestions (fst u)) (k_code k) u) of
        Some r \<Rightarrow> r
      | None \<Rightarrow>
          if k_alt k \<and> (k_code k = KChar 0x70 \<or> k_code k = KChar 0x50) then Some (apfst cycle_model u)
          else if k_code k = KEnter then enter_key E (k_shift k) u
          else map_option (\<lambda>a. (a, snd u)) (edit_key E k (fst u)))"

text \<open>One key press; \<open>True\<close> asks the program to quit, \<open>None\<close> is a panic.\<close>

definition handle_key :: "app_env \<Rightarrow> editor_run \<Rightarrow> key_event \<Rightarrow> 'm ui \<Rightarrow> (bool \<times> 'm ui) option" where
  "handle_key E ed k u =
     (case (if k_ctrl k then ctrl_key E ed (k_code k) (fst u) else None) of
        Some (q, a) \<Rightarrow> Some (q, (a, snd u))
      | None \<Rightarrow>
          let a = (fst u)\<lparr>ap_exit_pending := None\<rparr>
          in map_option (\<lambda>u1. (False, u1))
               (case ap_view a of
                  Doctor _ \<Rightarrow>
                    Some (if k_code k = KEsc \<or> k_code k = KEnter \<or> k_code k = KChar 0x71 then a\<lparr>ap_view := Chat\<rparr> else a, snd u)
                | BrowserView s \<Rightarrow> map_option (\<lambda>a1. (a1, snd u)) (browser_keys E s (k_code k) a)
                | Chat \<Rightarrow> chat_key E k (a, snd u)))"

section \<open>The main loop\<close>

text \<open>What a frame is drawn with: the width of the screen, the rows of the transcript and of its view.\<close>

record frame =
  fr_width :: u16
  fr_total :: u16
  fr_viewport :: u16

definition draw_conversation :: "frame \<Rightarrow> 'm app \<Rightarrow> 'm app" where
  "draw_conversation f a =
     (let max_off = sat_sub (fr_total f) (fr_viewport f);
          off = (if ap_follow_tail a then max_off else min (ap_scroll_off a) max_off)
      in a\<lparr>ap_last_viewport := fr_viewport f, ap_last_total := fr_total f, ap_scroll_off := off,
           ap_follow_tail := (if off = max_off then True else ap_follow_tail a)\<rparr>)"

definition draw :: "frame \<Rightarrow> 'm app \<Rightarrow> 'm app" where
  "draw f a =
     (if in_overlay a then a
      else (draw_conversation f
             (if suggestions a \<noteq> [] \<and> length (suggestions a) \<le> ap_sugg_idx a then a\<lparr>ap_sugg_idx := 0\<rparr> else a))
             \<lparr>ap_last_input_inner_w := max (sat_sub (fr_width f) 4) 4\<rparr>)"

datatype ui_event = KeyPress key_event editor_run | Paste utext | OtherEvent

record loop_input =
  li_frame :: frame
  li_stream :: "stream_delta list"
  li_download :: "dl_event list"
  li_split :: "split_event list"
  li_pull :: "pull_event list"
  li_swarm :: "swarm_model list list"
  li_event :: ui_event

definition expire :: "nat \<Rightarrow> nat \<Rightarrow> nat option \<Rightarrow> nat option" where
  "expire now window p = (case p of Some t \<Rightarrow> if window \<le> now - t then None else p | None \<Rightarrow> None)"

definition drain_all :: "app_env \<Rightarrow> loop_input \<Rightarrow> 'm app \<Rightarrow> 'm app option" where
  "drain_all E i a =
     Option.bind (drain_split E (li_split i) (drain_download E (li_download i) (drain_stream (li_stream i) a))) (\<lambda>a1.
     map_option (drain_swarm E (li_swarm i)) (drain_pull E (li_pull i) a1))"

definition on_event :: "app_env \<Rightarrow> ui_event \<Rightarrow> 'm ui \<Rightarrow> (bool \<times> 'm ui) option" where
  "on_event E ev u =
     (case ev of
        KeyPress k ed \<Rightarrow> handle_key E ed k u
      | Paste t \<Rightarrow>
          (case ap_view (fst u) of BrowserView _ \<Rightarrow> Some (False, u)
           | _ \<Rightarrow> map_option (\<lambda>a. (False, (a, snd u))) (insert_paste t (fst u)))
      | OtherEvent \<Rightarrow> Some (False, u))"

text \<open>One turn of the loop; \<open>True\<close> leaves it.\<close>

definition loop_step :: "app_env \<Rightarrow> loop_input \<Rightarrow> 'm ui \<Rightarrow> (bool \<times> 'm ui) option" where
  "loop_step E i u =
     Option.bind (drain_all E i (draw (li_frame i) (fst u))) (\<lambda>a.
       let a1 = a\<lparr>ap_exit_pending := expire (ae_now E) EXIT_WINDOW (ap_exit_pending a),
                 ap_clear_pending := expire (ae_now E) CLEAR_WINDOW (ap_clear_pending a)\<rparr>
       in if ap_should_quit a1 then Some (True, (a1, snd u)) else on_event E (li_event i) (a1, snd u))"

text \<open>The loop over what happens at each turn, with the environment it finds then.\<close>

fun run_loop :: "(app_env \<times> loop_input) list \<Rightarrow> 'm ui \<Rightarrow> (bool \<times> 'm ui) option" where
  "run_loop [] u = Some (False, u)"
| "run_loop ((E, i) # rest) u =
     (case loop_step E i u of None \<Rightarrow> None | Some (True, u1) \<Rightarrow> Some (True, u1) | Some (False, u1) \<Rightarrow> run_loop rest u1)"

section \<open>The invariant\<close>

definition undo_ok :: "(utext \<times> nat) list \<Rightarrow> bool" where
  "undo_ok us \<longleftrightarrow> length us \<le> UNDO_HISTORY_CAP \<and> list_all (\<lambda>(t, c). boundary t c) us"

definition hist_ok :: "nat option \<Rightarrow> utext list \<Rightarrow> bool" where
  "hist_ok i ps \<longleftrightarrow> (case i of None \<Rightarrow> True | Some n \<Rightarrow> n < length ps)"

definition view_ok :: "view \<Rightarrow> bool" where
  "view_ok v \<longleftrightarrow> (case v of BrowserView s \<Rightarrow> browser_ok s | _ \<Rightarrow> True)"

text \<open>Identifiers that can be cut after twelve bytes.\<close>

definition short_ok :: "string \<Rightarrow> bool" where
  "short_ok s \<longleftrightarrow> short12 s \<noteq> None"

definition models_ok :: "swarm_model list \<Rightarrow> bool" where
  "models_ok ms \<longleftrightarrow> list_all (\<lambda>m. short_ok (sm_cid m) \<and>
     list_all (\<lambda>r. list_all (\<lambda>p. short_ok (pr_peer_id p)) (rc_providers r)) (sm_ranges m)) ms"

definition daemon_ok :: "control_state option \<Rightarrow> bool" where
  "daemon_ok D \<longleftrightarrow> (case D of None \<Rightarrow> True | Some st \<Rightarrow> list_all (\<lambda>s. short_ok (fst (fst s))) (slices st))"

definition app_ok :: "'m app \<Rightarrow> bool" where
  "app_ok a \<longleftrightarrow> boundary (ap_input a) (ap_cursor a) \<and> undo_ok (ap_input_undo a) \<and>
     hist_ok (ap_history_idx a) (ap_prompt_history a) \<and> view_ok (ap_view a) \<and> models_ok (ap_swarm_models a)"

named_theorems ui \<open>what the operations of the client keep\<close>

lemma view_ok_simps [simp]: "view_ok Chat" "view_ok (Doctor d)" "view_ok (BrowserView s) = browser_ok s"
  by (simp_all add: view_ok_def)

lemma hist_ok_None [simp]: "hist_ok None ps" and hist_ok_Some [simp]: "hist_ok (Some n) ps = (n < length ps)"
  by (simp_all add: hist_ok_def)

lemma push_undo_ok: "boundary (ap_input a) (ap_cursor a) \<Longrightarrow> undo_ok (ap_input_undo a) \<Longrightarrow> undo_ok (ap_input_undo (push_undo a))"
  by (cases "ap_input_undo a") (auto simp: undo_ok_def push_undo_def UNDO_HISTORY_CAP_def)

lemma push_undo_fields [simp]:
  "ap_input (push_undo a) = ap_input a" "ap_cursor (push_undo a) = ap_cursor a" "ap_history_idx (push_undo a) = ap_history_idx a"
  "ap_prompt_history (push_undo a) = ap_prompt_history a" "ap_view (push_undo a) = ap_view a"
  "ap_swarm_models (push_undo a) = ap_swarm_models a"
  by (simp_all add: push_undo_def)

lemma push_undo_app_ok [ui]: "app_ok a \<Longrightarrow> app_ok (push_undo a)"
  using push_undo_ok by (auto simp: app_ok_def)

lemma push_system_ok [ui]: "app_ok (push_system s a) = app_ok a"
  by (simp add: push_system_def app_ok_def)

lemma on_last_ok [ui]: "app_ok (on_last f a) = app_ok a"
  by (simp add: on_last_def app_ok_def)

lemma set_input_ok [ui]: "app_ok a \<Longrightarrow> app_ok (set_input t a)"
  by (simp add: set_input_def app_ok_def)

lemma pop_undo_ok [ui]: "app_ok a \<Longrightarrow> app_ok (snd (pop_undo a))"
proof (cases "ap_input_undo a" rule: rev_cases)
  case (snoc us u)
  then show "app_ok a \<Longrightarrow> ?thesis" by (cases u) (auto simp: pop_undo_def app_ok_def undo_ok_def)
qed (simp add: pop_undo_def)

lemma cycle_model_ok [ui]: "app_ok (cycle_model a) = app_ok a"
  by (simp add: cycle_model_def Let_def ui) (simp add: app_ok_def)

lemma accept_ok [ui]: "app_ok a \<Longrightarrow> app_ok (accept_suggestion a)"
  by (simp add: accept_suggestion_def Let_def set_input_def app_ok_def)

lemma emit_fatal_ok [ui]: "app_ok (emit_fatal m a) = app_ok a"
  by (simp add: emit_fatal_def Let_def ui) (simp add: app_ok_def)

lemma start_ok [ui]: "app_ok (start_local E ms a) = app_ok a" "app_ok (start_chain E ms a) = app_ok a"
  by (auto simp: start_local_def start_chain_def ui split: option.splits) (simp_all add: app_ok_def)

lemma send_prompt_ok [ui]: "app_ok a \<Longrightarrow> app_ok (send_prompt E m a)"
  by (simp add: send_prompt_def Let_def ui split: run_mode.splits) (simp add: app_ok_def)

section \<open>Edits of the input\<close>

lemma insert_at_Some:
  assumes "boundary t i"
  shows "\<exists>x y. t = x @ y \<and> blen x = i \<and> insert_at i new t = Some (x @ new @ y)"
proof -
  obtain x y where "t = x @ y" "blen x = i" using assms by (auto simp: boundary_iff)
  then show ?thesis by (intro exI [of _ x] exI [of _ y]) (auto simp: insert_at_def)
qed

lemma replace_range_Some:
  assumes "boundary t i" "boundary t j" "i \<le> j"
  shows "\<exists>x m y. t = x @ m @ y \<and> blen x = i \<and> blen (x @ m) = j \<and> replace_range t i j new = Some (x @ new @ y)"
proof -
  obtain x r where x: "t = x @ r" "blen x = i" using assms(1) by (auto simp: boundary_iff)
  then have "boundary r (j - i)" using assms(2,3) boundary_past [of x r "j - i"] by simp
  then obtain m y where "r = m @ y" "blen m = j - i" by (auto simp: boundary_iff)
  then have "cut t i = Some (x, r)" "cut r (j - i) = Some (m, y)" using x by (simp_all add: cut_Some)
  then show ?thesis using x \<open>r = m @ y\<close> \<open>blen m = j - i\<close> assms(3) by (intro exI [of _ x] exI [of _ m] exI [of _ y]) (simp add: replace_range_def)
qed

lemma edit_ok: "app_ok a \<Longrightarrow> boundary t c \<Longrightarrow> app_ok ((push_undo a)\<lparr>ap_input := t, ap_cursor := c\<rparr>)"
  using push_undo_ok by (auto simp: app_ok_def)

lemma insert_char_ok: "app_ok a \<Longrightarrow> \<exists>b. insert_char c a = Some b \<and> app_ok b"
proof -
  assume a: "app_ok a"
  then have "boundary (ap_input a) (ap_cursor a)" by (simp add: app_ok_def)
  from insert_at_Some [OF this, of "[c]"] obtain x y where
    "blen x = ap_cursor a" "insert_at (ap_cursor a) [c] (ap_input a) = Some (x @ c # y)" by auto
  moreover have "boundary (x @ c # y) (blen x + clen c)" by (rule boundary_after)
  ultimately show ?thesis using edit_ok [OF a] by (simp add: insert_char_def)
qed

lemma newline_for_backslash_ok: "app_ok a \<Longrightarrow> \<exists>b. newline_for_backslash a = Some b \<and> app_ok b"
proof -
  assume a: "app_ok a"
  let ?p = "prev_char_boundary (ap_input a) (ap_cursor a)"
  have "boundary (ap_input a) (ap_cursor a)" using a by (simp add: app_ok_def)
  with char_boundaries [OF this] obtain x y where
    "blen x = ?p" "replace_range (ap_input a) ?p (ap_cursor a) [NL] = Some (x @ NL # y)"
    using replace_range_Some [of "ap_input a" ?p "ap_cursor a" "[NL]"] by auto
  moreover have "boundary (x @ NL # y) (blen x + 1)" using boundary_after [of x NL y] by simp
  ultimately show ?thesis using edit_ok [OF a, of "x @ NL # y" "?p + 1"] by (simp add: newline_for_backslash_def)
qed

lemma backspace_ok: "app_ok a \<Longrightarrow> \<exists>b. backspace a = Some b \<and> app_ok b"
proof -
  assume a: "app_ok a"
  let ?p = "prev_char_boundary (ap_input a) (ap_cursor a)"
  have "boundary (ap_input a) (ap_cursor a)" using a by (simp add: app_ok_def)
  with char_boundaries [OF this] obtain x y where
    "blen x = ?p" "replace_range (ap_input a) ?p (ap_cursor a) [] = Some (x @ y)"
    using replace_range_Some [of "ap_input a" ?p "ap_cursor a" "[]"] by auto
  moreover have "boundary (x @ y) (blen x)" by (rule boundary_here)
  ultimately show ?thesis using edit_ok [OF a, of "x @ y" ?p] a by (simp add: backspace_def)
qed

lemma delete_char_ok: "app_ok a \<Longrightarrow> \<exists>b. delete_char a = Some b \<and> app_ok b"
proof -
  assume a: "app_ok a"
  let ?n = "next_char_boundary (ap_input a) (ap_cursor a)"
  have "boundary (ap_input a) (ap_cursor a)" using a by (simp add: app_ok_def)
  with char_boundaries [OF this] obtain x y where
    "blen x = ap_cursor a" "replace_range (ap_input a) (ap_cursor a) ?n [] = Some (x @ y)"
    using replace_range_Some [of "ap_input a" "ap_cursor a" ?n "[]"] by auto
  moreover have "boundary (x @ y) (blen x)" by (rule boundary_here)
  ultimately show ?thesis using push_undo_app_ok [OF a] a by (simp add: delete_char_def app_ok_def)
qed

lemma insert_paste_ok: "app_ok a \<Longrightarrow> \<exists>b. insert_paste p a = Some b \<and> app_ok b"
proof -
  assume a: "app_ok a"
  have in_ok: "\<exists>x y. insert_at (ap_cursor a) body (ap_input a) = Some (x @ body @ y) \<and> blen x = ap_cursor a \<and>
      boundary (x @ body @ y) (ap_cursor a + blen body)" for body
  proof -
    have "boundary (ap_input a) (ap_cursor a)" using a by (simp add: app_ok_def)
    from insert_at_Some [OF this, of body] obtain x y where
      "blen x = ap_cursor a" "insert_at (ap_cursor a) body (ap_input a) = Some (x @ body @ y)" by blast
    moreover have "boundary (x @ body @ y) (blen (x @ body))" using boundary_here [of "x @ body" y] by simp
    ultimately show ?thesis by auto
  qed
  show ?thesis
  proof (cases "PASTE_THRESHOLD < length p")
    case True
    obtain body where body: "body = take KEEP_HEAD p @ paste_ref (ap_next_paste_id a)
        (length (filter (\<lambda>c. c = NL) (take (length p - (KEEP_HEAD + KEEP_TAIL)) (drop KEEP_HEAD p))) + 1) @ drop (length p - KEEP_TAIL) p" by blast
    from in_ok [of body] show ?thesis using a True by (auto simp: insert_paste_def Let_def body app_ok_def)
  next
    case False
    from in_ok [of p] show ?thesis using a False by (auto simp: insert_paste_def Let_def app_ok_def)
  qed
qed

section \<open>Commands keep the invariant\<close>

definition ui_ok :: "'m ui \<Rightarrow> bool" where
  "ui_ok u \<longleftrightarrow> app_ok (fst u) \<and> daemon_ok (snd u)"

text \<open>An operation that does not panic and keeps the invariant.\<close>

definition steps_ok :: "('a \<Rightarrow> bool) \<Rightarrow> 'a option \<Rightarrow> bool" where
  "steps_ok P r \<longleftrightarrow> (case r of None \<Rightarrow> False | Some x \<Rightarrow> P x)"

lemma steps_ok_simps [simp]: "steps_ok P (Some x) = P x" "\<not> steps_ok P None"
  by (simp_all add: steps_ok_def)

lemma steps_ok_iff: "steps_ok P r \<longleftrightarrow> (\<exists>x. r = Some x \<and> P x)"
  by (cases r) simp_all

lemma steps_ok_map [simp]: "steps_ok P (map_option f r) = steps_ok (\<lambda>x. P (f x)) r"
  by (cases r) simp_all

lemma steps_ok_bind: "steps_ok Q r \<Longrightarrow> (\<And>x. Q x \<Longrightarrow> steps_ok P (f x)) \<Longrightarrow> steps_ok P (Option.bind r f)"
  by (cases r) simp_all

lemma steps_ok_mono: "steps_ok Q r \<Longrightarrow> (\<And>x. Q x \<Longrightarrow> P x) \<Longrightarrow> steps_ok P r"
  by (cases r) simp_all

lemma short_ok_iff: "short_ok s \<longleftrightarrow> steps_ok (\<lambda>_. True) (short12 s)"
  by (cases "short12 s") (simp_all add: short_ok_def)

lemma say_ok [ui]: "ui_ok (say s u) = ui_ok u"
  by (cases u) (simp add: say_def ui_ok_def ui)

lemma app_ok_picker [ui]: "app_ok (a\<lparr>ap_leave_picker := x\<rparr>) = app_ok a"
  by (simp add: app_ok_def)

lemma begin_drain_ok: "list_all (\<lambda>s. P (fst s)) (slices st) \<Longrightarrow> list_all (\<lambda>s. P (fst s)) (slices (snd (begin_drain now k st)))"
proof (cases "map_of (slices st) k")
  case (Some e)
  assume P: "list_all (\<lambda>s. P (fst s)) (slices st)"
  then have "\<forall>k \<in> set (map fst (slices st)). P k" by (auto simp: list_all_iff)
  moreover have "k \<in> set (map fst (slices st))" using Some by (metis list.set_map map_of_eq_None_iff option.distinct(1))
  ultimately have "\<forall>k \<in> set (map fst (btree_insert k v (slices st))). P k" for v
    unfolding btree_insert_keys by auto
  then have "list_all (\<lambda>s. P (fst s)) (btree_insert k v (slices st))" for v by (auto simp: list_all_iff)
  then show ?thesis using Some P by (simp add: begin_drain_def)
qed (simp add: begin_drain_def)

lemma daemon_call_ok:
  assumes "daemon_call E req u = (r, u1)" "ui_ok u" "\<nexists>c s e. req = ReqJoin c s e"
  shows "ui_ok u1 \<and> fst u1 = fst u"
proof (cases "snd u")
  case (Some st)
  then show ?thesis using assms begin_drain_ok [of "\<lambda>k. short_ok (fst k)" st]
    by (cases req) (auto simp: daemon_call_def dispatch_def ui_ok_def daemon_ok_def case_prod_unfold Let_def)
qed (use assms in \<open>auto simp: daemon_call_def\<close>)

text \<open>Leaving answers only for a slice the daemon has.\<close>

lemma leaving_short:
  assumes "daemon_call E (ReqLeave c s e) u = (Inr RespLeaving, u1)" "ui_ok u"
  shows "short_ok c"
proof (cases "snd u")
  case (Some st)
  then have "fst (begin_drain (ae_now E) (c, s, e) st)"
    using assms(1) by (auto simp: daemon_call_def dispatch_def split: prod.splits if_splits)
  then have "(c, s, e) \<in> fst ` set (slices st)"
    by (auto simp: begin_drain_def split: option.splits dest!: map_of_SomeD intro: rev_image_eqI)
  then show ?thesis using assms(2) Some by (auto simp: ui_ok_def daemon_ok_def list_all_iff)
qed (use assms in \<open>simp add: daemon_call_def\<close>)

lemma do_leave_ok: "ui_ok u \<Longrightarrow> steps_ok ui_ok (do_leave E c s e u)"
proof -
  assume u: "ui_ok u"
  obtain r u1 where r: "daemon_call E (ReqLeave c s e) u = (r, u1)" by (cases "daemon_call E (ReqLeave c s e) u") auto
  have u1: "ui_ok u1" using daemon_call_ok [OF r u] by simp
  show ?thesis
  proof (cases "r = Inr RespLeaving")
    case True
    then have "short12 c \<noteq> None" using leaving_short [OF r [unfolded True] u] by (simp add: short_ok_def)
    then show ?thesis using True r u1 by (auto simp: do_leave_def ui)
  next
    case False
    then show ?thesis using r u1 by (auto simp: do_leave_def ui split: sum.splits response.splits)
  qed
qed

lemma hosting_ok: "ui_ok u \<Longrightarrow> ui_ok (handle_hosting_cmd E u)"
proof -
  assume u: "ui_ok u"
  obtain r u1 where r: "daemon_call E ReqListHosted u = (r, u1)" by (cases "daemon_call E ReqListHosted u") auto
  then have "ui_ok u1" using daemon_call_ok [OF r u] by simp
  then show ?thesis by (simp add: handle_hosting_cmd_def r ui)
qed

lemma picker_lines_ok: "list_all (\<lambda>s. short_ok (hs_cid s)) ss \<Longrightarrow> \<exists>ls. picker_lines n ss = Some ls"
proof (induction ss arbitrary: n)
  case (Cons s ss)
  then obtain ls where "picker_lines (n + 1) ss = Some ls" by fastforce
  then show ?case using Cons.prems by (auto simp: short_ok_def)
qed simp

lemma listed_short:
  assumes "daemon_call E ReqListHosted u = (Inr (RespHosted ss), u1)" "ui_ok u"
  shows "list_all (\<lambda>s. short_ok (hs_cid s)) ss"
  using assms by (auto simp: daemon_call_def dispatch_def snapshot_hosted_def ui_ok_def daemon_ok_def list_all_iff split: option.splits) force

lemma leave_picker_ok: "ui_ok u \<Longrightarrow> steps_ok ui_ok (show_leave_picker E u)"
proof -
  assume u: "ui_ok u"
  obtain r u1 where r: "daemon_call E ReqListHosted u = (r, u1)" by (cases "daemon_call E ReqListHosted u") auto
  have u1: "ui_ok u1" using daemon_call_ok [OF r u] by simp
  then have up: "ui_ok (apfst (\<lambda>a. a\<lparr>ap_leave_picker := x\<rparr>) u1)" for x by (cases u1) (simp add: ui_ok_def ui)
  show ?thesis
  proof (cases "\<exists>ss. r = Inr (RespHosted ss)")
    case True
    then obtain ss where ss: "r = Inr (RespHosted ss)" by blast
    have "\<exists>ls. picker_lines 1 ss = Some ls" by (rule picker_lines_ok [OF listed_short [OF r [unfolded ss] u]])
    then show ?thesis using up by (auto simp: show_leave_picker_def r ss ui)
  next
    case False
    then show ?thesis using r u1 by (auto simp: show_leave_picker_def ui split: sum.splits response.splits)
  qed
qed

lemma leave_cmd_ok: "ui_ok u \<Longrightarrow> steps_ok ui_ok (handle_leave_cmd E args u)"
  by (auto simp: handle_leave_cmd_def leave_coords_def ui do_leave_ok leave_picker_ok Let_def
      split: list.splits option.splits prod.splits)

lemma with_chain_ok [ui]: "app_ok (with_chain f a) = app_ok a"
  by (simp add: with_chain_def app_ok_def)

lemma show_rows_ok [ui]: "app_ok a \<Longrightarrow> app_ok (show_rows E a)"
  by (simp add: show_rows_def app_ok_def browser_new_ok)

lemma open_browser_ok [ui]: "app_ok a \<Longrightarrow> app_ok (open_browser E a)"
proof -
  assume "app_ok a"
  then have "app_ok (show_rows E (a\<lparr>ap_local_scan := list_models (ae_fs E) (ap_models_dir a)\<rparr>))"
    by (intro show_rows_ok) (simp add: app_ok_def)
  then show ?thesis by (simp add: open_browser_def kick_swarm_refresh_def) (simp add: app_ok_def)
qed

lemma small_cmds_ok [ui]:
  "app_ok a \<Longrightarrow> app_ok (handle_mode_cmd args a)" "app_ok a \<Longrightarrow> app_ok (handle_model_cmd args a)"
  "app_ok a \<Longrightarrow> app_ok (handle_quorum_cmd args a)" "app_ok a \<Longrightarrow> app_ok (handle_tier_cmd args a)"
  "app_ok a \<Longrightarrow> app_ok (handle_wire_cmd args a)"
  "app_ok a \<Longrightarrow> app_ok (handle_peers_cmd E args a)" "app_ok a \<Longrightarrow> app_ok (handle_draft_cmd E args a)"
  "app_ok a \<Longrightarrow> app_ok (open_doctor E a)"
  by (auto simp: handle_mode_cmd_def handle_model_cmd_def handle_quorum_cmd_def handle_tier_cmd_def handle_wire_cmd_def
      handle_peers_cmd_def handle_draft_cmd_def open_doctor_def ui Let_def
      split: list.splits sum.splits option.splits prod.splits) (simp_all add: app_ok_def)

lemma client_cmd_ok [ui]: "app_ok a \<Longrightarrow> app_ok (client_cmd E h args a)"
  unfolding client_cmd_def by (simp add: ui) (simp add: app_ok_def)

text \<open>\<open>/service install\<close> shows the journal of a service that did not start, with its lines cut at byte 140.\<close>

definition journal_ok :: "app_env \<Rightarrow> bool" where
  "journal_ok E \<longleftrightarrow> recent_journal (ae_service E) \<noteq> None"

lemma install_no_panic: "recent_journal S \<noteq> None \<Longrightarrow> fst (install_service S now) \<noteq> InstallPanic"
  by (auto simp: install_service_def Let_def split: sum.splits option.splits)

lemma service_cmd_ok: "app_ok a \<Longrightarrow> journal_ok E \<Longrightarrow> steps_ok app_ok (handle_service_cmd E args a)"
  using install_no_panic [of "ae_service E" "ae_now E"]
  by (auto simp: handle_service_cmd_def journal_ok_def Let_def ui steps_ok_iff split: list.splits install_result.splits)

lemma handle_slash_ok:
  assumes u: "ui_ok u" and j: "journal_ok E" shows "steps_ok ui_ok (handle_slash E c u)"
proof -
  have "ui_ok (apfst (client_cmd E h args) u)" for h args using u by (cases u) (simp add: ui_ok_def ui)
  moreover have "steps_ok ui_ok (map_option (\<lambda>a. (a, snd u)) (handle_service_cmd E args (fst u)))" for args
    using service_cmd_ok [OF _ j, of "fst u" args] u by (auto simp: ui_ok_def steps_ok_iff)
  ultimately show ?thesis using hosting_ok [OF u] leave_cmd_ok [OF u] by (simp add: handle_slash_def Let_def)
qed

section \<open>Submitting, the picker and the tasks\<close>

lemma submit_ok:
  assumes u: "ui_ok u" and j: "journal_ok E" shows "steps_ok ui_ok (submit_ui E u)"
proof -
  define m where "m = utrim (ap_input (fst u))"
  define a1 where "a1 = (fst u)\<lparr>ap_input := [], ap_cursor := 0, ap_history_idx := None\<rparr>"
  define a2 where "a2 = (if \<not> starts_with m (ascii ''/'') \<and> (ap_prompt_history a1 = [] \<or> last (ap_prompt_history a1) \<noteq> m)
                         then a1\<lparr>ap_prompt_history := ap_prompt_history a1 @ [m]\<rparr> else a1)"
  have ok: "app_ok a1" "app_ok a2" using u by (simp_all add: a1_def a2_def ui_ok_def app_ok_def)
  have D: "daemon_ok (snd u)" "app_ok (fst u)" using u by (simp_all add: ui_ok_def)
  have "submit_ui E u =
    (if in_overlay (fst u) then Some (fst u, snd u) else if m = [] then Some (a1, snd u)
     else case strip_prefix (inflate_paste_refs a2 m) (ascii ''/'') of
            Some c \<Rightarrow> handle_slash E (utf8 c) (a2, snd u)
          | None \<Rightarrow> Some (send_prompt E (utf8 (inflate_paste_refs a2 m)) a2, snd u))"
    by (simp add: submit_ui_def submit_def m_def a1_def a2_def Let_def cong: option.case_cong)
  moreover have "steps_ok ui_ok (handle_slash E c (a2, snd u))" for c
    by (rule handle_slash_ok [OF _ j]) (simp add: ui_ok_def ok D)
  ultimately show ?thesis using ok D by (simp add: ui_ok_def send_prompt_ok split: option.splits)
qed

lemma start_install_ok [ui]: "app_ok (start_install E e a) = app_ok a"
  by (simp add: start_install_def ui) (simp add: app_ok_def push_system_def)

lemma close_browser_ok [ui]: "app_ok a \<Longrightarrow> app_ok (close_browser a)"
  by (simp add: close_browser_def app_ok_def)

lemma app_ok_updates [ui]:
  "app_ok (a\<lparr>ap_mode := x1\<rparr>) = app_ok a" "app_ok (a\<lparr>ap_model := x2\<rparr>) = app_ok a" "app_ok (a\<lparr>ap_splitting := x3\<rparr>) = app_ok a"
  "app_ok (a\<lparr>ap_pulling := x4\<rparr>) = app_ok a" "app_ok (a\<lparr>ap_streaming := x5\<rparr>) = app_ok a" "app_ok (a\<lparr>ap_download := x6\<rparr>) = app_ok a"
  "app_ok (a\<lparr>ap_dl_progress := x7\<rparr>) = app_ok a" "app_ok (a\<lparr>ap_local_scan := x8\<rparr>) = app_ok a" "app_ok (a\<lparr>ap_swarm_rx := x9\<rparr>) = app_ok a"
  "app_ok (a\<lparr>ap_history := x10\<rparr>) = app_ok a" "app_ok (a\<lparr>ap_sugg_idx := x11\<rparr>) = app_ok a" "app_ok (a\<lparr>ap_exit_pending := x12\<rparr>) = app_ok a"
  "app_ok (a\<lparr>ap_clear_pending := x13\<rparr>) = app_ok a" "app_ok (a\<lparr>ap_scroll_off := x14\<rparr>) = app_ok a" "app_ok (a\<lparr>ap_follow_tail := x15\<rparr>) = app_ok a"
  "app_ok (a\<lparr>ap_last_viewport := x16\<rparr>) = app_ok a" "app_ok (a\<lparr>ap_last_total := x17\<rparr>) = app_ok a"
  "app_ok (a\<lparr>ap_last_input_inner_w := x18\<rparr>) = app_ok a"
  by (simp_all add: app_ok_def)

lemma find_in: "List.find P xs = Some x \<Longrightarrow> x \<in> set xs \<and> P x"
  by (auto simp: find_Some_iff)

lemma model_short:
  assumes "app_ok a" "List.find (\<lambda>m. sm_cid m = cid) (ap_swarm_models a) = Some m"
  shows "short_ok cid \<and> (\<forall>r \<in> set (sm_ranges m). \<forall>p \<in> set (rc_providers r). short_ok (pr_peer_id p))"
proof -
  have "m \<in> set (ap_swarm_models a)" "sm_cid m = cid" using find_in [OF assms(2)] by simp_all
  then show ?thesis using assms(1) by (simp add: app_ok_def models_ok_def list_all_iff) blast
qed

lemma commit_swarm_ok: "app_ok a \<Longrightarrow> steps_ok app_ok (commit_swarm E row cid n a)"
  using model_short [of a cid] by (auto simp: commit_swarm_def ui short_ok_def split: option.splits sum.splits)

lemma steps_close: "steps_ok app_ok r \<Longrightarrow> steps_ok app_ok (map_option close_browser r)"
  by (cases r) (simp_all add: ui)

lemma commit_ok: "app_ok a \<Longrightarrow> steps_ok app_ok (commit_browser E a)"
  unfolding commit_browser_def
  by (auto simp: ui commit_swarm_ok intro!: steps_close split: option.splits row_kind.splits simp del: steps_ok_map) (simp_all add: ui Let_def)


lemma default_range_in:
  assumes "default_range rs = Some (s, e, p)"
  shows "\<exists>ps. (s, e, ps) \<in> set rs \<and> p \<in> set ps"
proof -
  from default_range_Some [OF assms] obtain ps where ps: "(s, e, ps) \<in> set rs" "pick_provider ps = Some p"
    by (metis in_set_conv_decomp)
  then obtain as bs where "filter reachable ps = as @ p # bs" by (auto simp: pick_provider_def max_by_key_Some)
  then have "p \<in> set (filter reachable ps)" by simp
  then show ?thesis using ps(1) by auto
qed

lemma contribute_swarm_ok:
  assumes "app_ok a"
  shows "steps_ok app_ok (contribute_swarm cid a)"
proof (cases "List.find (\<lambda>m. sm_cid m = cid) (ap_swarm_models a)")
  case (Some m)
  note short = model_short [OF assms Some]
  show ?thesis
  proof (cases "default_range (range_triples m)")
    case sel: (Some t)
    obtain s e p where t: "t = (s, e, p)" by (cases t)
    from default_range_in [OF sel [unfolded t]] short have "short_ok (pr_peer_id p)" "short_ok cid"
      by (auto simp: range_triples_def)
    then show ?thesis using Some sel t assms by (auto simp: contribute_swarm_def short_ok_def ui)
  qed (use Some assms in \<open>simp add: contribute_swarm_def ui\<close>)
qed (use assms in \<open>simp add: contribute_swarm_def ui\<close>)

lemma contribute_others_ok [ui]:
  "app_ok (begin_split E e m a) = app_ok a" "app_ok (contribute_local E p a) = app_ok a" "app_ok (contribute_install E e a) = app_ok a"
  by (auto simp: begin_split_def contribute_local_def contribute_install_def ui Let_def split: option.splits)

lemma contribute_ok: "app_ok a \<Longrightarrow> steps_ok app_ok (contribute_browser E a)"
  unfolding contribute_browser_def
  by (auto simp: ui contribute_swarm_ok intro!: steps_close split: option.splits row_kind.splits simp del: steps_ok_map)

lemma stream_events_ok [ui]: "app_ok (stream_events ds a) = app_ok a"
  by (induction ds a rule: stream_events.induct) (simp_all add: ui)

lemma swarm_events_ok: "app_ok a \<Longrightarrow> list_all models_ok evs \<Longrightarrow> app_ok (swarm_events E evs a)"
proof (induction E evs a rule: swarm_events.induct)
  case (2 E ms rest a)
  then have "app_ok (a\<lparr>ap_swarm_models := ms\<rparr>)" by (simp add: app_ok_def)
  then show ?case using 2 by (auto simp: Let_def ui split: view.splits)
qed simp

definition pull_ok :: "pull_event \<Rightarrow> bool" where
  "pull_ok ev \<longleftrightarrow> (case ev of PullManifestOk cid _ \<Rightarrow> short_ok cid | _ \<Rightarrow> True)"

definition split_ok :: "split_event \<Rightarrow> bool" where
  "split_ok ev \<longleftrightarrow> (case ev of SplitDone cid _ _ _ _ \<Rightarrow> short_ok cid | _ \<Rightarrow> True)"

lemma pull_events_ok: "app_ok a \<Longrightarrow> list_all pull_ok evs \<Longrightarrow> steps_ok app_ok (pull_events E evs a)"
  by (induction E evs a rule: pull_events.induct) (auto simp: pull_ok_def ui short_ok_def)

lemma split_events_ok: "app_ok a \<Longrightarrow> list_all split_ok evs \<Longrightarrow> steps_ok app_ok (split_events E evs a)"
  by (induction E evs a rule: split_events.induct) (auto simp: split_ok_def ui short_ok_def)

lemma dl_events_ok [ui]: "app_ok (dl_events E evs a) = app_ok a"
  by (induction E evs a rule: dl_events.induct) (simp_all add: ui Let_def)

section \<open>Keys keep the invariant\<close>

lemma cancel_stream_ok [ui]: "app_ok (cancel_stream a) = app_ok a"
  by (simp add: cancel_stream_def ui)

lemma ctrl_c_ok: "app_ok a \<Longrightarrow> app_ok (snd (ctrl_c E a))"
proof -
  assume a: "app_ok a"
  then have "app_ok (a\<lparr>ap_view := Chat\<rparr>)" "app_ok (a\<lparr>ap_input := [], ap_cursor := 0, ap_sugg_idx := 0, ap_history_idx := None\<rparr>)"
    by (simp_all add: app_ok_def)
  then show ?thesis using a by (auto simp: ctrl_c_def ui)
qed

lemma editor_ok: "app_ok a \<Longrightarrow> app_ok (edit_in_external_editor r a)"
  by (cases r) (simp_all add: edit_in_external_editor_def ui, simp add: set_input_def app_ok_def)

lemma ctrl_key_ok: "app_ok a \<Longrightarrow> ctrl_key E ed k a = Some (q, b) \<Longrightarrow> app_ok b"
  using pop_undo_ok [of a] ctrl_c_ok [of a E] editor_ok [OF push_undo_app_ok [of a], of ed]
  by (cases "pop_undo a") (auto simp: ctrl_key_def disarm_def ui split: if_splits bool.splits)

lemma history_ok:
  assumes "app_ok a"
  shows "steps_ok app_ok (history_up a) \<and> steps_ok app_ok (history_down a)"
proof -
  have "(case ap_history_idx a of None \<Rightarrow> length (ap_prompt_history a) - 1 | Some n \<Rightarrow> n - 1) < length (ap_prompt_history a)"
    if "ap_prompt_history a \<noteq> []" using that assms by (auto simp: app_ok_def split: option.splits)
  then show ?thesis using assms
    by (auto simp: history_up_def history_down_def nth_opt_def set_input_def app_ok_def Let_def split: option.splits)
qed

text \<open>Home and End, without a bound on the width of a character.\<close>

lemma row_ends:
  assumes "0 < width" "boundary t c"
  shows "boundary t (visual_row_start cw t c width) \<and> steps_ok (boundary t) (visual_row_end cw t c width)"
proof -
  obtain a b where ab: "t = a @ b" "blen a = c" using assms(2) by (auto simp: boundary_iff)
  obtain R C W where l: "layout cw width a [] [] 0 = (R, C, W)" by (cases "layout cw width a [] [] 0") auto
  obtain a0 where a0: "a = a0 @ C" using layout_suffix [OF l] by auto
  have start: "visual_row_start cw t c width = blen a0"
    using start_loop_layout [OF l, of 0 b] assms(1) ab a0 by (simp add: visual_row_start_def)
  obtain R2 C2 W2 where "layout cw width (C @ b) [] [] 0 = (R2, C2, W2)" by (cases "layout cw width (C @ b) [] [] 0") auto
  from end_loop_layout [OF this, of "blen a0"] obtain y b' where y: "C @ b = y @ b'" "end_loop cw width (blen a0) 0 (C @ b) = blen (a0 @ y)"
    by auto
  have "cut t (blen a0) = Some (a0, C @ b)" using ab a0 by (simp add: cut_Some)
  then have e: "visual_row_end cw t c width = Some (blen (a0 @ y))"
    using start assms(1) y(2) by (simp add: visual_row_end_def del: blen_simps)
  have "t = a0 @ C @ b" "t = (a0 @ y) @ b'" using ab a0 y(1) by simp_all
  then have "boundary t (blen a0)" "boundary t (blen (a0 @ y))" using boundary_here by metis+
  then show ?thesis by (simp add: start e del: blen_simps)
qed

lemma row_limit_pos: "0 < row_limit a"
proof -
  have "4 \<le> max (ap_last_input_inner_w a) 4" by simp
  then have "unat (4 :: u16) \<le> row_limit a" unfolding row_limit_def word_le_nat_alt by simp
  then show ?thesis by simp
qed

lemma edit_key_ok:
  assumes "app_ok a"
  shows "steps_ok app_ok (edit_key E k a)"
proof -
  have c: "boundary (ap_input a) (ap_cursor a)" using assms by (simp add: app_ok_def)
  have mv: "app_ok (a\<lparr>ap_cursor := i\<rparr>)" if "boundary (ap_input a) i" for i using assms that by (simp add: app_ok_def)
  have esc: "app_ok (escape_key E a)" using push_undo_app_ok [OF assms] assms by (auto simp: escape_key_def ui) (simp add: app_ok_def push_undo_ok)
  have "steps_ok app_ok (insert_char x a)" for x using insert_char_ok [OF assms] by (auto simp: steps_ok_iff)
  then have ch: "steps_ok app_ok (char_key x a)" for x by (simp add: char_key_def ui)
  have home: "app_ok (home_key E sh a)" for sh
    using assms mv [OF conjunct1 [OF row_ends [OF row_limit_pos [of a] c]]] by (simp add: home_key_def scroll_to_def ui)
  have endk: "steps_ok app_ok (end_key E sh a)" for sh
    using assms steps_ok_mono [OF conjunct2 [OF row_ends [OF row_limit_pos [of a] c]] mv] by (simp add: end_key_def scroll_to_def ui)
  have "steps_ok app_ok (backspace a)" "steps_ok app_ok (delete_char a)"
    using backspace_ok [OF assms] delete_char_ok [OF assms] by (auto simp: steps_ok_iff)
  moreover have "app_ok (page_up a)" "app_ok (page_down a)" using assms by (simp_all add: page_up_def page_down_def Let_def ui)
  ultimately show ?thesis using assms esc ch home endk mv char_boundaries [OF c] history_ok [OF assms]
    by (auto simp: edit_key_def split: key_code.splits)
qed

lemma ui_lift: "steps_ok app_ok r \<Longrightarrow> daemon_ok D \<Longrightarrow> steps_ok ui_ok (map_option (\<lambda>a. (a, D)) r)"
  by (cases r) (simp_all add: ui_ok_def)

lemma enter_key_ok:
  assumes "ui_ok u" "journal_ok E"
  shows "steps_ok ui_ok (enter_key E shift u)"
proof -
  have a: "app_ok (fst u)" "daemon_ok (snd u)" using assms(1) by (simp_all add: ui_ok_def)
  have "steps_ok app_ok (insert_char NL (fst u))" "steps_ok app_ok (newline_for_backslash (fst u))"
    using insert_char_ok [OF a(1)] newline_for_backslash_ok [OF a(1)] by (auto simp: steps_ok_iff)
  then have "steps_ok ui_ok (map_option (\<lambda>a. (a, snd u)) (insert_char NL (fst u)))"
    "steps_ok ui_ok (map_option (\<lambda>a. (a, snd u)) (newline_for_backslash (fst u)))" using ui_lift a(2) by blast+
  moreover obtain x y where "cut (ap_input (fst u)) (ap_cursor (fst u)) = Some (x, y)"
    using a(1) by (auto simp: app_ok_def boundary_def)
  ultimately show ?thesis using submit_ok [OF assms] by (simp add: enter_key_def Let_def del: steps_ok_map)
qed

lemma overlay_key_ok:
  assumes "ui_ok u" "overlay_key E s k u = Some r" "journal_ok E"
  shows "steps_ok ui_ok r"
proof -
  have a: "app_ok (fst u)" "daemon_ok (snd u)" using assms(1) by (simp_all add: ui_ok_def)
  then have "app_ok ((fst u)\<lparr>ap_input := [], ap_cursor := 0, ap_sugg_idx := 0\<rparr>)" by (simp add: app_ok_def)
  then show ?thesis using assms(2) a submit_ok [OF assms(1,3)] accept_ok [OF a(1)]
    by (auto simp: overlay_key_def ui_ok_def Let_def ui split: if_splits)
qed

lemma chat_key_ok:
  assumes "ui_ok u" "journal_ok E"
  shows "steps_ok ui_ok (chat_key E k u)"
proof (cases "if suggestions (fst u) = [] then None else overlay_key E (suggestions (fst u)) (k_code k) u")
  case (Some r)
  then have "steps_ok ui_ok r" using overlay_key_ok [OF assms(1) _ assms(2)] by (simp split: if_splits)
  then show ?thesis using Some by (simp add: chat_key_def)
next
  case None
  have a: "app_ok (fst u)" "daemon_ok (snd u)" using assms(1) by (simp_all add: ui_ok_def)
  have "ui_ok (apfst cycle_model u)" using a by (simp add: ui_ok_def ui)
  moreover have "steps_ok ui_ok (map_option (\<lambda>a. (a, snd u)) (edit_key E k (fst u)))" by (rule ui_lift [OF edit_key_ok]) (rule a)+
  ultimately show ?thesis using None enter_key_ok [OF assms] by (simp add: chat_key_def del: steps_ok_map)
qed

lemma browser_keys_ok:
  assumes "app_ok a" "browser_ok s"
  shows "steps_ok app_ok (browser_keys E s k a)"
proof -
  obtain s1 act where k: "browser_key s k = (s1, act)" by (cases "browser_key s k") auto
  have "browser_ok s1" using browser_key_ok [OF assms(2), of k] k by simp
  then have "app_ok (a\<lparr>ap_view := BrowserView s1\<rparr>)" using assms(1) by (simp add: app_ok_def)
  then show ?thesis using commit_ok contribute_ok by (auto simp: browser_keys_def k ui Let_def split: browser_action.splits)
qed

lemma handle_key_ok:
  assumes "ui_ok u" "journal_ok E"
  shows "steps_ok (\<lambda>(q, u1). ui_ok u1) (handle_key E ed k u)"
proof (cases "if k_ctrl k then ctrl_key E ed (k_code k) (fst u) else None")
  case (Some p)
  then show ?thesis using assms(1) ctrl_key_ok [of "fst u" E ed "k_code k"]
    by (cases p) (auto simp: handle_key_def ui_ok_def split: if_splits)
next
  case None
  define a where "a = (fst u)\<lparr>ap_exit_pending := None\<rparr>"
  have a: "app_ok a" "daemon_ok (snd u)" "ui_ok (a, snd u)" using assms(1) by (simp_all add: ui_ok_def a_def ui)
  have v: "view_ok (ap_view a)" using a(1) by (simp add: app_ok_def)
  have "app_ok (a\<lparr>ap_view := Chat\<rparr>)" using a(1) by (simp add: app_ok_def)
  then have "steps_ok ui_ok (case ap_view a of
      Doctor _ \<Rightarrow> Some (if k_code k = KEsc \<or> k_code k = KEnter \<or> k_code k = KChar 0x71 then a\<lparr>ap_view := Chat\<rparr> else a, snd u)
    | BrowserView s \<Rightarrow> map_option (\<lambda>a1. (a1, snd u)) (browser_keys E s (k_code k) a)
    | Chat \<Rightarrow> chat_key E k (a, snd u))"
    using a chat_key_ok [OF a(3) assms(2), of k] ui_lift [OF browser_keys_ok [OF a(1)] a(2)] v
    by (auto simp: ui_ok_def split: view.splits simp del: steps_ok_map)
  then show ?thesis using None by (simp add: handle_key_def a_def [symmetric] Let_def del: if_split)
qed

section \<open>Runs\<close>

definition input_ok :: "loop_input \<Rightarrow> bool" where
  "input_ok i \<longleftrightarrow> list_all split_ok (li_split i) \<and> list_all pull_ok (li_pull i) \<and> list_all models_ok (li_swarm i)"

lemma draw_ok: "app_ok a \<Longrightarrow> app_ok (draw f a)"
  by (simp add: draw_def draw_conversation_def Let_def ui)

lemma drain_all_ok:
  assumes "app_ok a" "input_ok i"
  shows "steps_ok app_ok (drain_all E i a)"
proof -
  have "app_ok (drain_download E (li_download i) (drain_stream (li_stream i) a))"
    using assms(1) by (simp add: drain_download_def drain_stream_def ui)
  then have "steps_ok app_ok (drain_split E (li_split i) (drain_download E (li_download i) (drain_stream (li_stream i) a)))"
    using assms(2) by (simp add: drain_split_def input_ok_def split_events_ok)
  then show ?thesis unfolding drain_all_def
  proof (rule steps_ok_bind)
    fix b :: "'a app"
    assume "app_ok b"
    then have "steps_ok app_ok (drain_pull E (li_pull i) b)" using assms(2) by (simp add: drain_pull_def input_ok_def pull_events_ok)
    then show "steps_ok app_ok (map_option (drain_swarm E (li_swarm i)) (drain_pull E (li_pull i) b))"
      using assms(2) by (auto simp: drain_swarm_def input_ok_def ui swarm_events_ok intro: steps_ok_mono)
  qed
qed

lemma loop_step_ok:
  assumes "ui_ok u" "input_ok i" "journal_ok E"
  shows "steps_ok (\<lambda>(q, u1). ui_ok u1) (loop_step E i u)"
proof -
  have D: "daemon_ok (snd u)" and d: "app_ok (draw (li_frame i) (fst u))" using assms(1) by (simp_all add: ui_ok_def draw_ok)
  show ?thesis unfolding loop_step_def
  proof (rule steps_ok_bind [OF drain_all_ok [OF d assms(2)]])
    fix a :: "'a app"
    assume a: "app_ok a"
    define b where "b = a\<lparr>ap_exit_pending := expire (ae_now E) EXIT_WINDOW (ap_exit_pending a),
      ap_clear_pending := expire (ae_now E) CLEAR_WINDOW (ap_clear_pending a)\<rparr>"
    have b: "ui_ok (b, snd u)" "app_ok b" using a D by (simp_all add: b_def ui_ok_def ui)
    have "steps_ok (\<lambda>(q, u1). ui_ok u1) (map_option (\<lambda>a. (False, (a, snd u))) (insert_paste t b))" for t
      using insert_paste_ok [OF b(2), of t] D by (auto simp: ui_ok_def)
    then have "steps_ok (\<lambda>(q, u1). ui_ok u1) (on_event E (li_event i) (b, snd u))"
      using b handle_key_ok [OF b(1) assms(3)] by (auto simp: on_event_def split: ui_event.splits view.splits simp del: steps_ok_map)
    then show "steps_ok (\<lambda>(q, u1). ui_ok u1) (let a1 = a\<lparr>ap_exit_pending := expire (ae_now E) EXIT_WINDOW (ap_exit_pending a),
        ap_clear_pending := expire (ae_now E) CLEAR_WINDOW (ap_clear_pending a)\<rparr>
      in if ap_should_quit a1 then Some (True, (a1, snd u)) else on_event E (li_event i) (a1, snd u))"
      using b by (simp add: b_def Let_def)
  qed
qed

lemma run_loop_ok: "ui_ok u \<Longrightarrow> list_all (\<lambda>(E, i). input_ok i \<and> journal_ok E) steps \<Longrightarrow> steps_ok (\<lambda>(q, u1). ui_ok u1) (run_loop steps u)"
proof (induction steps u rule: run_loop.induct)
  case (2 E i rest u)
  from loop_step_ok [OF 2(2), of i E] 2(3) obtain q u1 where s: "loop_step E i u = Some (q, u1)" "ui_ok u1"
    by (auto simp: steps_ok_iff)
  then show ?case using 2(1) [OF s(1)] 2(3) by (cases q) auto
qed simp

end
