(* ===== verification/App_Props.thy ===== *)
theory App_Props
  imports App_Keys
begin

text \<open>
  What the chat client guarantees: where alone a run can panic, edits that can be taken back, pastes that reach the
  model whole, prompts sent as they were typed, replies assembled from their tokens, slices drained by
  their row; and where it does not do what its comments say.
\<close>

section \<open>Runs without a panic\<close>

lemma app_new_ok: "app_ok (app_new dir mode chain scan model quorum wan tier)"
  by (simp add: app_new_def app_ok_def undo_ok_def models_ok_def)

text \<open>
  C15. Where the chat client can panic. However keys, pastes, ticks and messages of the background tasks follow each
  other, every slice, index and insertion of the editor, the picker and the transcript is in range; a
  run panics only where a text from outside is cut at a fixed byte: an identifier that the daemon hosts
  or a message carries, at byte 12 (\<open>daemon_ok\<close>, \<open>input_ok\<close>), or a line of the journal that \<open>/service install\<close>
  shows, at byte 140 (\<open>journal_ok\<close>). Both happen (\<open>crafted_peer_panics\<close>, \<open>service_install_panics\<close>). Without
  such a text the run goes on, the cursor stays on a character boundary of the input, the undo ring holds
  at most 32 snapshots, and the place in the prompt history and the selected row of the picker exist.
\<close>

theorem ui_panics_only_by_cuts:
  "case run_loop steps (app_new dir mode chain scan model quorum wan tier, D) of
     None \<Rightarrow> \<not> daemon_ok D \<or> (\<exists>(E, i) \<in> set steps. \<not> input_ok i \<or> \<not> journal_ok E)
   | Some (q, (a, D')) \<Rightarrow>
       daemon_ok D \<and> (\<forall>(E, i) \<in> set steps. input_ok i \<and> journal_ok E) \<longrightarrow>
       boundary (ap_input a) (ap_cursor a) \<and> length (ap_input_undo a) \<le> 32 \<and>
       hist_ok (ap_history_idx a) (ap_prompt_history a) \<and> view_ok (ap_view a)"
proof (cases "daemon_ok D \<and> (\<forall>(E, i) \<in> set steps. input_ok i \<and> journal_ok E)")
  case True
  then have "ui_ok (app_new dir mode chain scan model quorum wan tier, D)" by (simp add: ui_ok_def app_new_ok)
  moreover have "list_all (\<lambda>(E, i). input_ok i \<and> journal_ok E) steps" using True by (simp add: list_all_iff)
  ultimately obtain q a D' where
    r: "run_loop steps (app_new dir mode chain scan model quorum wan tier, D) = Some (q, (a, D'))" "app_ok a"
    using run_loop_ok [of "(app_new dir mode chain scan model quorum wan tier, D)" steps] by (auto simp: steps_ok_iff ui_ok_def)
  then show ?thesis by (simp add: app_ok_def undo_ok_def UNDO_HISTORY_CAP_def)
next
  case False
  then show ?thesis by (auto split: option.splits)
qed

definition demo_ui_env :: app_env where
  "demo_ui_env =
     \<lparr>ae_fs = [], ae_cwd = [], ae_cw = (\<lambda>_. 1), ae_now = 0, ae_parse_addr = Some, ae_free = 0, ae_runtime = [],
      ae_available = [], ae_preferred = [], ae_cid_of = (\<lambda>_. []), ae_kept = (\<lambda>_. None), ae_service = demo_service,
      ae_sock = [], ae_path_text = (\<lambda>_. []), ae_pull_error = (\<lambda>_. []), ae_split_error = (\<lambda>_. [])\<rparr>"

definition press :: "key_code \<Rightarrow> ui_event" where
  "press k = KeyPress \<lparr>k_code = k, k_ctrl = False, k_shift = False, k_alt = False\<rparr> (EditorFails [])"

definition demo_loop :: "ui_event \<Rightarrow> app_env \<times> loop_input" where
  "demo_loop ev = (demo_ui_env, \<lparr>li_frame = \<lparr>fr_width = 80, fr_total = 10, fr_viewport = 20\<rparr>, li_stream = [], li_download = [],
     li_split = [], li_pull = [], li_swarm = [], li_event = ev\<rparr>)"

lemma ui_panics_only_by_cuts_witness:
  "\<exists>q a D'. run_loop [demo_loop (press (KChar 0xE9)), demo_loop (press KBackspace), demo_loop (press KDelete), demo_loop (press KUp)]
      (app_new [] LocalMode chain_driver_new [] [] 1 False [], None) = Some (q, (a, D')) \<and> boundary (ap_input a) (ap_cursor a)"
proof -
  have "journal_ok demo_ui_env" by (simp add: journal_ok_def demo_ui_env_def recent_journal_def demo_service_def)
  then show ?thesis
    using ui_panics_only_by_cuts [of None "[demo_loop (press (KChar 0xE9)), demo_loop (press KBackspace), demo_loop (press KDelete), demo_loop (press KUp)]"
        "[]" LocalMode chain_driver_new "[]" "[]" 1 False "[]"]
    by (auto simp: demo_loop_def input_ok_def daemon_ok_def split: option.splits)
qed

text \<open>
  The first cut: contributing to a swarm model shows the first twelve bytes of its provider's
  peer identifier, which is any text a peer put in its DHT record.
\<close>

definition crafted_peer :: provider_record where
  "crafted_peer = \<lparr>pr_peer_id = ''peer0123456'' @ [CHR 0xC3, CHR 0xA9], pr_addrs = [], pr_chunks_url = Some ''h:1'',
     pr_manifest_cid = Some ''m'', pr_forward_url = None, pr_minted_at = 1\<rparr>"

lemma crafted_peer_panics:
  assumes "List.find (\<lambda>m. sm_cid m = cid) (ap_swarm_models a) =
      Some \<lparr>sm_cid = cid, sm_envelope = env, sm_ranges = [\<lparr>rc_start = s, rc_end = e, rc_providers = [crafted_peer]\<rparr>]\<rparr>"
  shows "contribute_swarm cid a = None"
proof -
  have "short12 (pr_peer_id crafted_peer) = None"
    by (simp add: crafted_peer_def short12_def is_char_boundary_def starts_char_def code_def eval_nat_numeral)
  then show ?thesis using assms
    by (cases "short12 cid") (simp_all add: contribute_swarm_def range_triples_def pick_provider_def reachable_def crafted_peer_def)
qed

text \<open>
  The second cut: a service that does not become active within its four seconds, with a character across
  byte 140 of a line of its journal.
\<close>

definition stuck_service :: service_env where
  "stuck_service = demo_service\<lparr>sv_active := \<lambda>_. False, sv_journal := Some [],
     sv_lossy := \<lambda>_. replicate 139 CHR ''x'' @ [CHR 0xC3, CHR 0xA9]\<rparr>"

lemma service_install_panics: "handle_slash (demo_ui_env\<lparr>ae_service := stuck_service\<rparr>) ''service install'' u = None"
proof -
  let ?E = "demo_ui_env\<lparr>ae_service := stuck_service\<rparr>"
  have p: "fst (install_service stuck_service 0) = InstallPanic" by code_simp
  have w: "split_whitespace ''service install'' = [''service'', ''install'']" by code_simp
  have "handle_service_cmd ?E [''install''] a = None" for a :: "'a app"
    by (simp add: handle_service_cmd_def p demo_ui_env_def)
  then show ?thesis by (simp add: handle_slash_def w)
qed

section \<open>Edits\<close>

lemma push_undo_pop:
  "snd (pop_undo ((push_undo a)\<lparr>ap_input := t, ap_cursor := c\<rparr>)) =
     (snd (pop_undo (push_undo a)))" for t c
  by (simp add: pop_undo_def push_undo_def)

lemma undone [simp]:
  "fst (pop_undo ((push_undo a)\<lparr>ap_input := t, ap_cursor := c\<rparr>))"
  "ap_input (snd (pop_undo ((push_undo a)\<lparr>ap_input := t, ap_cursor := c\<rparr>))) = ap_input a"
  "ap_cursor (snd (pop_undo ((push_undo a)\<lparr>ap_input := t, ap_cursor := c\<rparr>))) = ap_cursor a"
  by (simp_all add: pop_undo_def push_undo_def)

text \<open>
  Typing at the cursor puts the character there and moves past it; Backspace then takes exactly that
  character out again, and undo after either gives the input and the cursor as they were before it.
\<close>

theorem edits_are_undone:
  assumes "cut (ap_input a) (ap_cursor a) = Some (x, y)"
  shows "\<exists>b c. insert_char ch a = Some b \<and> ap_input b = x @ ch # y \<and> ap_cursor b = ap_cursor a + clen ch \<and>
    backspace b = Some c \<and> ap_input c = ap_input a \<and> ap_cursor c = ap_cursor a \<and>
    ap_input (snd (pop_undo b)) = ap_input a \<and> ap_cursor (snd (pop_undo b)) = ap_cursor a \<and>
    ap_input (snd (pop_undo c)) = ap_input b \<and> ap_cursor (snd (pop_undo c)) = ap_cursor b"
proof -
  have a: "ap_input a = x @ y" "ap_cursor a = blen x" using assms by (simp_all add: cut_Some)
  let ?b = "(push_undo a)\<lparr>ap_input := x @ ch # y, ap_cursor := blen x + clen ch\<rparr>"
  have b: "insert_char ch a = Some ?b" using assms a by (simp add: insert_char_def insert_at_def)
  have "cut (x @ ch # y) (blen x) = Some (x, ch # y)" "cut (ch # y) (clen ch) = Some ([ch], y)"
    by (simp_all add: cut_Some)
  then have "replace_range (x @ ch # y) (blen x) (blen x + clen ch) [] = Some (x @ y)" by (simp add: replace_range_def)
  then have c: "backspace ?b = Some ((push_undo ?b)\<lparr>ap_input := x @ y, ap_cursor := blen x\<rparr>)"
    by (simp add: backspace_def prev_char_snoc Let_def)
  show ?thesis using b c a by (intro exI [of _ ?b] exI [of _ "(push_undo ?b)\<lparr>ap_input := x @ y, ap_cursor := blen x\<rparr>"]) simp
qed

definition demo_app :: "utext \<Rightarrow> nat \<Rightarrow> unit app" where
  "demo_app t c = (app_new [] LocalMode chain_driver_new [] [] 1 False [])\<lparr>ap_input := t, ap_cursor := c\<rparr>"

lemma edits_are_undone_witness:
  "\<exists>b c. insert_char 0xE9 (demo_app [0x61, 0x62] 1) = Some b \<and> ap_input b = [0x61, 0xE9, 0x62] \<and> backspace b = Some c \<and>
    ap_input c = [0x61, 0x62] \<and> ap_input (snd (pop_undo b)) = [0x61, 0x62]"
  using edits_are_undone [where a = "demo_app [0x61, 0x62] 1" and x = "[0x61]" and y = "[0x62]" and ch = "0xE9"]
  by (auto simp: demo_app_def clen_def)

section \<open>Pastes\<close>

lemma inflate_plain: "0x5B \<notin> set u \<Longrightarrow> inflate st (u @ t) = u @ inflate st t"
proof (induction u)
  case (Cons c u)
  have "take 9 (c # u @ t) \<noteq> ascii ''[#pasted-''" using Cons.prems by (auto simp: ascii_def)
  then show ?case using Cons by (simp add: inflate.simps Let_def)
qed simp

lemma ascii_append [simp]: "ascii (s @ t) = ascii s @ ascii t" and ascii_Nil [simp]: "ascii [] = []"
  by (simp_all add: ascii_def)

lemma utf8_digits: "utf8 (ascii (dec_digits n)) = dec_digits n"
proof -
  have "utf8 (ascii s) = s" if "\<forall>c \<in> set s. (of_char c :: nat) < 0x80" for s
    using that by (induction s) (auto simp: ascii_def utf8_def utf8_char_def)
  moreover have "\<forall>c \<in> set (dec_digits n). (of_char c :: nat) < 0x80" using digit_char_code [of _ n] by fastforce
  ultimately show ?thesis by blast
qed

lemma digit_plain: "c \<in> set (ascii (dec_digits n)) \<Longrightarrow> \<not> uwhite c \<and> c \<noteq> 0x5D"
  using digit_char_code [of _ n] by (fastforce simp: ascii_def uwhite_def)

lemma paste_id_ref: "paste_id (ascii (dec_digits (unat i) @ '' +'' @ dec_digits n @ '' lines'')) = i"
proof -
  let ?d = "ascii (dec_digits (unat i))"
  have d: "\<forall>c \<in> set ?d. \<not> uwhite c" using digit_plain by blast
  have "dropWhile uwhite (?d @ t) = ?d @ t" for t
    using d dec_digits_ne_Nil [of "unat i"] by (cases ?d) (auto simp: ascii_def)
  moreover have "takeWhile (\<lambda>c. \<not> uwhite c) (?d @ 0x20 # t) = ?d" for t
    using d by (simp add: takeWhile_append uwhite_def)
  moreover have "parse_uint (2 ^ 32) (dec_digits (unat i)) = Some (unat i)"
    by (rule parse_uint_digits) (use unat_u32_less in simp)
  ultimately show ?thesis by (simp add: paste_id_def utf8_digits) (simp add: ascii_def utf8_digits [unfolded ascii_def])
qed

lemma inflate_ref:
  assumes "map_of st i = Some full"
  shows "inflate st (paste_ref i n @ t) = full @ inflate st t"
proof -
  let ?tok = "ascii (dec_digits (unat i) @ '' +'' @ dec_digits n @ '' lines'')"
  have tok: "0x5D \<notin> set ?tok" using digit_plain by (auto simp: ascii_def)
  have ref: "paste_ref i n @ t = ascii ''[#pasted-'' @ ?tok @ 0x5D # t" by (simp add: paste_ref_def ascii_def)
  have nine: "length (ascii ''[#pasted-'') = 9" by (simp add: ascii_def)
  have tw: "takeWhile (\<lambda>c. c \<noteq> 0x5D) (?tok @ 0x5D # t) = ?tok" "dropWhile (\<lambda>c. c \<noteq> 0x5D) (?tok @ 0x5D # t) = 0x5D # t"
    using tok by (simp_all add: takeWhile_append dropWhile_append)
  obtain c r where cr: "ascii ''[#pasted-'' @ ?tok @ 0x5D # t = c # r" by (cases "ascii ''[#pasted-'' @ ?tok @ 0x5D # t") (auto simp: ascii_def)
  have "drop 9 (c # r) = ?tok @ 0x5D # t" "take 9 (c # r) = ascii ''[#pasted-''"
    unfolding cr [symmetric] using nine by simp_all
  then have "inflate st (c # r) = full @ inflate st t"
    using assms tw by (simp only: inflate.simps Let_def paste_id_ref) simp
  then show ?thesis by (simp only: ref cr)
qed


section \<open>Prompts and replies\<close>

text \<open>The conversation so far as the model is sent it.\<close>

definition spoken :: "ui_turn list \<Rightarrow> chat_turn list" where
  "spoken h = map (\<lambda>t. \<lparr>ct_role = role_name (tn_role t), ct_content = tn_content t\<rparr>)
     (filter (\<lambda>t. tn_role t \<noteq> System \<and> \<not> (tn_role t = Assistant \<and> \<not> tn_complete t \<and> tn_content t = [])) h)"

lemma chat_messages_prompt: "chat_messages (h @ [user_turn s, assistant_open]) = spoken h @ [\<lparr>ct_role = ''user'', ct_content = s\<rparr>]"
  by (simp add: chat_messages_def spoken_def user_turn_def assistant_open_def role_name_def Let_def filter_filter conj_commute cong: conj_cong)

lemma prompt_sent:
  assumes "ap_view a = Chat" "ap_mode a = LocalMode" "utrim (ap_input a) \<noteq> []" "\<not> starts_with (utrim (ap_input a)) (ascii ''/'')"
    and "strip_prefix (inflate_paste_refs a (utrim (ap_input a))) (ascii ''/'') = None"
    and "resolve (ae_fs E) (ae_cwd E) (ap_local_scan a) (ap_model a) = Some m" "is_usable m"
  shows "\<exists>b. submit_ui E (a, D) = Some (b, D) \<and> ap_input b = [] \<and> ap_cursor b = 0 \<and>
    ap_history b = ap_history a @ [user_turn (utf8 (inflate_paste_refs a (utrim (ap_input a)))), assistant_open] \<and>
    ap_streaming b = Some (LocalJob m (spoken (ap_history a) @
      [\<lparr>ct_role = ''user'', ct_content = utf8 (inflate_paste_refs a (utrim (ap_input a)))\<rparr>])) \<and>
    ap_prompt_history b \<noteq> [] \<and> last (ap_prompt_history b) = utrim (ap_input a)"
  using assms
  by (auto simp: submit_ui_def submit_def in_overlay_def Let_def inflate_paste_refs_def send_prompt_def start_local_def
      chat_messages_prompt)

text \<open>Trimming stops at what is not white space.\<close>

lemma utrim_around:
  assumes "x \<noteq> []" "\<not> uwhite (hd x)" "\<not> uwhite (last x)"
  shows "utrim (h @ x @ t) = dropWhile uwhite h @ x @ rev (dropWhile uwhite (rev t))"
proof -
  have l: "dropWhile uwhite (h @ x @ t) = dropWhile uwhite h @ x @ t"
    using assms(1,2) by (induction h) (cases x; simp)+
  have r: "dropWhile uwhite (u @ y @ v) = dropWhile uwhite u @ y @ v" if "y \<noteq> []" "\<not> uwhite (hd y)" for u y v
    using that by (induction u) (cases y; simp)+
  have "dropWhile uwhite (rev t @ rev x @ rev (dropWhile uwhite h)) = dropWhile uwhite (rev t) @ rev x @ rev (dropWhile uwhite h)"
    by (rule r) (use assms(1,3) in \<open>simp_all add: hd_rev\<close>)
  then show ?thesis by (simp add: utrim_def l)
qed

lemma utrim_ends:
  assumes "\<exists>c \<in> set h. \<not> uwhite c" "\<exists>c \<in> set t. \<not> uwhite c"
  shows "utrim (h @ m @ t) = dropWhile uwhite h @ m @ rev (dropWhile uwhite (rev t))"
proof -
  obtain c where "c \<in> set h" "\<not> uwhite c" using assms(1) by blast
  then have l: "dropWhile uwhite (h @ m @ t) = dropWhile uwhite h @ m @ t" by (rule dropWhile_append1)
  obtain d where "d \<in> set (rev t)" "\<not> uwhite d" using assms(2) by auto
  then have "dropWhile uwhite (rev t @ rev m @ rev (dropWhile uwhite h)) = dropWhile uwhite (rev t) @ rev m @ rev (dropWhile uwhite h)"
    by (rule dropWhile_append1)
  then show ?thesis by (simp add: utrim_def l)
qed

text \<open>What the input holds after a long paste: the two ends around a placeholder that stands for the middle.\<close>

lemma paste_shown:
  assumes "PASTE_THRESHOLD < length p" "ap_input a = []" "ap_cursor a = 0"
  shows "\<exists>mid lines st. take KEEP_HEAD p @ mid @ drop (length p - KEEP_TAIL) p = p \<and>
    st = (ap_next_paste_id a, mid) # ap_paste_stash a \<and>
    insert_paste p a = Some (a\<lparr>ap_next_paste_id := ap_next_paste_id a + 1, ap_paste_stash := st,
      ap_input := take KEEP_HEAD p @ paste_ref (ap_next_paste_id a) lines @ drop (length p - KEEP_TAIL) p,
      ap_cursor := blen (take KEEP_HEAD p @ paste_ref (ap_next_paste_id a) lines @ drop (length p - KEEP_TAIL) p),
      ap_history_idx := None\<rparr>) \<and>
    (\<forall>x y. 0x5B \<notin> set x \<longrightarrow> 0x5B \<notin> set y \<longrightarrow> inflate st (x @ paste_ref (ap_next_paste_id a) lines @ y) = x @ mid @ y)"
proof (intro exI conjI allI impI)
  let ?mid = "take (length p - (KEEP_HEAD + KEEP_TAIL)) (drop KEEP_HEAD p)" and ?i = "ap_next_paste_id a"
  let ?lines = "length (filter (\<lambda>c. c = NL) ?mid) + 1"
  show "take KEEP_HEAD p @ ?mid @ drop (length p - KEEP_TAIL) p = p"
    using assms(1) append_take_drop_id [of "length p - (KEEP_HEAD + KEEP_TAIL)" "drop KEEP_HEAD p"]
    by (simp add: PASTE_THRESHOLD_def KEEP_HEAD_def KEEP_TAIL_def add.commute)
  show "insert_paste p a = Some (a\<lparr>ap_next_paste_id := ?i + 1, ap_paste_stash := (?i, ?mid) # ap_paste_stash a,
      ap_input := take KEEP_HEAD p @ paste_ref ?i ?lines @ drop (length p - KEEP_TAIL) p,
      ap_cursor := blen (take KEEP_HEAD p @ paste_ref ?i ?lines @ drop (length p - KEEP_TAIL) p), ap_history_idx := None\<rparr>)"
    using assms by (simp add: insert_paste_def Let_def insert_at_def)
  fix x y :: utext assume "0x5B \<notin> set x" "0x5B \<notin> set y"
  then show "inflate ((?i, ?mid) # ap_paste_stash a) (x @ paste_ref ?i ?lines @ y) = x @ ?mid @ y"
    using inflate_plain [of x "(?i, ?mid) # ap_paste_stash a" "paste_ref ?i ?lines @ y"]
      inflate_plain [of y "(?i, ?mid) # ap_paste_stash a" "[]"]
    by (simp add: inflate_ref inflate.simps)
qed simp_all

text \<open>Trimming around a placeholder trims the text that it stands for.\<close>

lemma paste_trim:
  assumes "h @ mid @ t = p" "\<exists>c \<in> set h. \<not> uwhite c" "\<exists>c \<in> set t. \<not> uwhite c" "0x5B \<notin> set h" "0x5B \<notin> set t"
  shows "\<exists>h' t'. utrim (h @ paste_ref i n @ t) = h' @ paste_ref i n @ t' \<and> utrim p = h' @ mid @ t' \<and> h' \<noteq> [] \<and>
    0x5B \<notin> set h' \<and> 0x5B \<notin> set t'"
proof -
  let ?h' = "dropWhile uwhite h" and ?t' = "rev (dropWhile uwhite (rev t))"
  have ref: "paste_ref i n \<noteq> []" "\<not> uwhite (hd (paste_ref i n))" "\<not> uwhite (last (paste_ref i n))"
    by (simp_all add: paste_ref_def ascii_def uwhite_def last_map)
  have "utrim (h @ paste_ref i n @ t) = ?h' @ paste_ref i n @ ?t'" by (rule utrim_around [OF ref])
  moreover have "?h' @ mid @ ?t' = utrim p" using utrim_ends [OF assms(2,3), of mid] by (simp only: assms(1))
  moreover have "?h' \<noteq> []" using assms(2) by (simp add: dropWhile_eq_Nil_conv)
  moreover have "0x5B \<notin> set ?h'" "0x5B \<notin> set ?t'" using assms(4,5) by (auto dest: set_dropWhileD)
  ultimately show ?thesis by metis
qed

text \<open>
  C37. A long paste is shortened on the screen only. The input shows its first and last 500 characters
  around a placeholder, which stands for whatever the middle holds; Enter then sends the pasted
  text, trimmed as every prompt is, as the last message to the model and puts it into the transcript
  (in local mode with a usable model, when the trimmed text is no command, neither of the kept ends is
  blank, and no bracket in them can be mistaken for a placeholder).
\<close>

theorem paste_roundtrip:
  assumes "PASTE_THRESHOLD < length p" "ap_input a = []" "ap_cursor a = 0"
    and "0x5B \<notin> set (take KEEP_HEAD p)" "0x5B \<notin> set (drop (length p - KEEP_TAIL) p)"
    and "\<exists>c \<in> set (take KEEP_HEAD p). \<not> uwhite c" "\<exists>c \<in> set (drop (length p - KEEP_TAIL) p). \<not> uwhite c"
    and "\<not> starts_with (utrim p) (ascii ''/'')" "ap_view a = Chat" "ap_mode a = LocalMode"
    and "resolve (ae_fs E) (ae_cwd E) (ap_local_scan a) (ap_model a) = Some m" "is_usable m"
  shows "\<exists>b c lines. insert_paste p a = Some b \<and>
    ap_input b = take KEEP_HEAD p @ paste_ref (ap_next_paste_id a) lines @ drop (length p - KEEP_TAIL) p \<and>
    inflate_paste_refs b (ap_input b) = p \<and>
    submit_ui E (b, D) = Some (c, D) \<and> ap_input c = [] \<and>
    ap_history c = ap_history a @ [user_turn (utf8 (utrim p)), assistant_open] \<and>
    ap_streaming c = Some (LocalJob m (spoken (ap_history a) @ [\<lparr>ct_role = ''user'', ct_content = utf8 (utrim p)\<rparr>]))"
proof -
  let ?h = "take KEEP_HEAD p" and ?t = "drop (length p - KEEP_TAIL) p" and ?i = "ap_next_paste_id a"
  obtain mid lines st where p: "?h @ mid @ ?t = p" and st: "st = (?i, mid) # ap_paste_stash a"
    and b: "insert_paste p a = Some (a\<lparr>ap_next_paste_id := ?i + 1, ap_paste_stash := st, ap_input := ?h @ paste_ref ?i lines @ ?t,
      ap_cursor := blen (?h @ paste_ref ?i lines @ ?t), ap_history_idx := None\<rparr>)" (is "_ = Some ?b")
    and infl: "\<forall>x y. 0x5B \<notin> set x \<longrightarrow> 0x5B \<notin> set y \<longrightarrow> inflate st (x @ paste_ref ?i lines @ y) = x @ mid @ y"
    using paste_shown [OF assms(1-3)] by blast
  have ib: "inflate_paste_refs ?b x = inflate st x" for x by (simp add: inflate_paste_refs_def st)
  have whole: "inflate_paste_refs ?b (ap_input ?b) = p" using infl assms(4,5) p unfolding ib by simp
  obtain h' t' where t: "utrim (ap_input ?b) = h' @ paste_ref ?i lines @ t'" "utrim p = h' @ mid @ t'" "h' \<noteq> []"
    "0x5B \<notin> set h'" "0x5B \<notin> set t'"
    using paste_trim [OF p assms(6,7,4,5), of ?i lines] by auto
  have sent: "inflate_paste_refs ?b (utrim (ap_input ?b)) = utrim p" using infl t unfolding ib by simp
  have plain: "\<not> starts_with (utrim (ap_input ?b)) (ascii ''/'')"
    using assms(8) t(3) unfolding t(1,2) by (cases h') (auto simp: starts_with_def ascii_def)
  have none: "strip_prefix (inflate_paste_refs ?b (utrim (ap_input ?b))) (ascii ''/'') = None"
    using assms(8) unfolding sent by (simp add: strip_prefix_def)
  have env: "ap_view ?b = Chat" "ap_mode ?b = LocalMode" "utrim (ap_input ?b) \<noteq> []" "ap_history ?b = ap_history a"
    "resolve (ae_fs E) (ae_cwd E) (ap_local_scan ?b) (ap_model ?b) = Some m"
    using assms(9-11) t(3) unfolding t(1) by simp_all
  obtain c where "submit_ui E (?b, D) = Some (c, D)" "ap_input c = []"
    "ap_history c = ap_history a @ [user_turn (utf8 (utrim p)), assistant_open]"
    "ap_streaming c = Some (LocalJob m (spoken (ap_history a) @ [\<lparr>ct_role = ''user'', ct_content = utf8 (utrim p)\<rparr>]))"
    using prompt_sent [OF env(1-3) plain none env(5) assms(12), of D] unfolding sent env(4) by blast
  then show ?thesis using b whole by (intro exI [of _ ?b] exI [of _ c] exI [of _ lines]) simp
qed

text \<open>
  C35. Enter on a prompt (in local mode, with a usable model): the model is sent the whole conversation, the
  system turns left out, with the typed text, its placeholders put back, as its last message; the
  transcript gains the prompt and an empty open reply; the input is empty and the prompt is in the
  history of prompts.
\<close>

theorem submit_sends_prompt:
  assumes "ap_view a = Chat" "ap_mode a = LocalMode" "utrim (ap_input a) \<noteq> []" "\<not> starts_with (utrim (ap_input a)) (ascii ''/'')"
    and "strip_prefix (inflate_paste_refs a (utrim (ap_input a))) (ascii ''/'') = None"
    and "resolve (ae_fs E) (ae_cwd E) (ap_local_scan a) (ap_model a) = Some m" "is_usable m"
  shows "\<exists>b. submit_ui E (a, D) = Some (b, D) \<and> ap_input b = [] \<and> ap_cursor b = 0 \<and>
    ap_history b = ap_history a @ [user_turn (utf8 (inflate_paste_refs a (utrim (ap_input a)))), assistant_open] \<and>
    ap_streaming b = Some (LocalJob m (spoken (ap_history a) @
      [\<lparr>ct_role = ''user'', ct_content = utf8 (inflate_paste_refs a (utrim (ap_input a)))\<rparr>])) \<and>
    ap_prompt_history b \<noteq> [] \<and> last (ap_prompt_history b) = utrim (ap_input a)"
  by (rule prompt_sent [OF assms])

definition demo_prompt :: "unit app" where
  "demo_prompt = (demo_app [0x20, 0x68, 0x69] 3)\<lparr>ap_local_scan := [sample_model], ap_model := lm_name sample_model\<rparr>"

lemma submit_sends_prompt_witness:
  "\<exists>b. submit_ui demo_ui_env (demo_prompt, None) = Some (b, None) \<and> ap_history b = [user_turn ''hi'', assistant_open] \<and>
    ap_streaming b = Some (LocalJob sample_model [\<lparr>ct_role = ''user'', ct_content = ''hi''\<rparr>])"
proof -
  have f: "ap_view demo_prompt = Chat" "ap_mode demo_prompt = LocalMode" "ap_history demo_prompt = []" "utrim (ap_input demo_prompt) = [0x68, 0x69]"
    "\<not> starts_with (utrim (ap_input demo_prompt)) (ascii ''/'')" "ap_paste_stash demo_prompt = []"
    by (simp_all add: demo_prompt_def demo_app_def app_new_def utrim_def uwhite_def starts_with_def ascii_def)
  have g: "inflate_paste_refs demo_prompt (utrim (ap_input demo_prompt)) = [0x68, 0x69]"
    using f by (simp add: inflate_paste_refs_def inflate.simps ascii_def)
  then have n: "strip_prefix (inflate_paste_refs demo_prompt (utrim (ap_input demo_prompt))) (ascii ''/'') = None"
    by (simp add: strip_prefix_def starts_with_def ascii_def)
  have r: "resolve (ae_fs demo_ui_env) (ae_cwd demo_ui_env) (ap_local_scan demo_prompt) (ap_model demo_prompt) = Some sample_model"
    "is_usable sample_model"
    by (simp_all add: demo_ui_env_def demo_prompt_def demo_app_def resolve_def sample_model_def is_usable_def eq_ignore_ascii_case_def
        is_file_def read_file_def ascii_lower_def Let_def)
  have "utf8 [0x68, 0x69] = ''hi''" by code_simp
  with submit_sends_prompt [OF f(1,2) _ f(5) n r, of None] show ?thesis
    using f(3,4) g by (auto simp: spoken_def)
qed

definition demo_paste_app :: "unit app" where
  "demo_paste_app = (demo_app [] 0)\<lparr>ap_local_scan := [sample_model], ap_model := lm_name sample_model\<rparr>"

lemma paste_roundtrip_witness:
  "\<exists>b c. insert_paste (replicate 10001 0x61) demo_paste_app = Some b \<and> inflate_paste_refs b (ap_input b) = replicate 10001 0x61 \<and>
    submit_ui demo_ui_env (b, None) = Some (c, None) \<and>
    ap_history c = [user_turn (utf8 (replicate 10001 0x61)), assistant_open]"
proof -
  let ?p = "replicate 10001 0x61 :: utext"
  have f: "ap_input demo_paste_app = []" "ap_cursor demo_paste_app = 0" "ap_view demo_paste_app = Chat" "ap_mode demo_paste_app = LocalMode"
    "ap_history demo_paste_app = []"
    by (simp_all add: demo_paste_app_def demo_app_def app_new_def)
  have r: "resolve (ae_fs demo_ui_env) (ae_cwd demo_ui_env) (ap_local_scan demo_paste_app) (ap_model demo_paste_app) = Some sample_model"
    "is_usable sample_model"
    by (simp_all add: demo_ui_env_def demo_paste_app_def demo_app_def resolve_def sample_model_def is_usable_def eq_ignore_ascii_case_def
        is_file_def read_file_def ascii_lower_def Let_def)
  have d: "dropWhile uwhite (replicate (Suc n) 0x61) = replicate (Suc n) 0x61" for n by (simp add: uwhite_def)
  have t: "utrim ?p = ?p" using d [of 10000] by (simp add: utrim_def)
  have len: "PASTE_THRESHOLD < length ?p" by (simp add: PASTE_THRESHOLD_def)
  have h: "0x5B \<notin> set (take KEEP_HEAD ?p)" "0x5B \<notin> set (drop (length ?p - KEEP_TAIL) ?p)"
    "\<exists>c \<in> set (take KEEP_HEAD ?p). \<not> uwhite c" "\<exists>c \<in> set (drop (length ?p - KEEP_TAIL) ?p). \<not> uwhite c"
    by (simp_all add: KEEP_HEAD_def KEEP_TAIL_def uwhite_def)
  have s: "\<not> starts_with (utrim ?p) (ascii ''/'')" unfolding t by (simp add: starts_with_def ascii_def)
  show ?thesis
    using paste_roundtrip [OF len f(1,2) h s f(3,4) r, of None] unfolding t f(5) by (simp only: append_Nil) blast
qed

section \<open>The reply\<close>

definition open_reply :: "'m app \<Rightarrow> string \<Rightarrow> bool" where
  "open_reply a s \<longleftrightarrow> ap_history a \<noteq> [] \<and> last (ap_history a) = \<lparr>tn_role = Assistant, tn_content = s, tn_complete = False\<rparr>"

lemma tokens_append:
  assumes "open_reply a s"
  shows "stream_events (map Token ts @ ds) a =
    stream_events ds (a\<lparr>ap_history := butlast (ap_history a) @ [\<lparr>tn_role = Assistant, tn_content = s @ concat ts, tn_complete = False\<rparr>]\<rparr>)"
  using assms
proof (induction ts arbitrary: a s)
  case Nil
  then have "ap_history a = butlast (ap_history a) @ [\<lparr>tn_role = Assistant, tn_content = s, tn_complete = False\<rparr>]"
    unfolding open_reply_def by (metis append_butlast_last_id)
  then show ?case by (simp add: Nil)
next
  case (Cons t ts)
  let ?a = "on_last (if_open (\<lambda>x. x\<lparr>tn_content := tn_content x @ t\<rparr>)) a"
  have h: "ap_history ?a = butlast (ap_history a) @ [\<lparr>tn_role = Assistant, tn_content = s @ t, tn_complete = False\<rparr>]"
    and a: "?a = a\<lparr>ap_history := butlast (ap_history a) @ [\<lparr>tn_role = Assistant, tn_content = s @ t, tn_complete = False\<rparr>]\<rparr>"
    using Cons.prems by (simp_all add: open_reply_def on_last_def if_open_def)
  then have "open_reply ?a (s @ t)" by (simp add: open_reply_def)
  from Cons.IH [OF this] show ?case by (simp add: h) (simp add: a)
qed


lemma on_last_streaming [simp]: "ap_streaming (on_last f a) = ap_streaming a"
  by (simp add: on_last_def)

lemma drain_append:
  fixes a :: "'m app"
  shows "drain_stream (xs @ ys) a = drain_stream ys (drain_stream xs a)"
proof -
  have "ap_streaming a \<noteq> None \<Longrightarrow> stream_events (xs @ ys) a =
      (if ap_streaming (stream_events xs a) = None then stream_events xs a else stream_events ys (stream_events xs a))" for a :: "'m app"
    by (induction xs a rule: stream_events.induct) auto
  then show ?thesis by (cases "ap_streaming a"; cases "ap_streaming (stream_events xs a)") (simp_all add: drain_stream_def)
qed

text \<open>
  C36. A reply is its tokens in order: arriving while the open reply is the last turn, over one tick or
  several, they end as the text it had followed by their concatenation, complete, with the stream
  closed; an error ends it with the error's text on a line of its own.
\<close>

theorem reply_assembled:
  assumes "open_reply a s" "ap_streaming a \<noteq> None"
  shows "drain_stream (map Token ts @ [StreamDone]) a =
      a\<lparr>ap_history := butlast (ap_history a) @ [\<lparr>tn_role = Assistant, tn_content = s @ concat ts, tn_complete = True\<rparr>], ap_streaming := None\<rparr> \<and>
    drain_stream (map Token ts @ [StreamError e]) a =
      a\<lparr>ap_history := butlast (ap_history a) @
          [\<lparr>tn_role = Assistant, tn_content = s @ concat ts @ newline @ warn_sign @ '' '' @ e, tn_complete = True\<rparr>], ap_streaming := None\<rparr> \<and>
    drain_stream (map Token ts @ us) a = drain_stream us (drain_stream (map Token ts) a)"
proof (intro conjI)
  obtain j where j: "ap_streaming a = Some j" using assms(2) by blast
  note t = tokens_append [OF assms(1), of ts]
  show "drain_stream (map Token ts @ [StreamDone]) a =
      a\<lparr>ap_history := butlast (ap_history a) @ [\<lparr>tn_role = Assistant, tn_content = s @ concat ts, tn_complete = True\<rparr>], ap_streaming := None\<rparr>"
    using j t [of "[StreamDone]"] by (simp add: drain_stream_def on_last_def)
  show "drain_stream (map Token ts @ [StreamError e]) a =
      a\<lparr>ap_history := butlast (ap_history a) @
          [\<lparr>tn_role = Assistant, tn_content = s @ concat ts @ newline @ warn_sign @ '' '' @ e, tn_complete = True\<rparr>], ap_streaming := None\<rparr>"
    using j t [of "[StreamError e]"] by (simp add: drain_stream_def on_last_def if_open_def)
  show "drain_stream (map Token ts @ us) a = drain_stream us (drain_stream (map Token ts) a)" by (rule drain_append)
qed

lemma reply_assembled_witness:
  "\<exists>a :: unit app. open_reply a ''He'' \<and>
    ap_history (drain_stream [Token ''ll'', Token ''o'', StreamDone] a) = [user_turn ''hi'', \<lparr>tn_role = Assistant, tn_content = ''Hello'', tn_complete = True\<rparr>]"
proof -
  let ?a = "(demo_app [] 0)\<lparr>ap_history := [user_turn ''hi'', \<lparr>tn_role = Assistant, tn_content = ''He'', tn_complete = False\<rparr>],
    ap_streaming := Some (LocalJob sample_model [])\<rparr>"
  have o1: "open_reply ?a ''He''" and "ap_streaming ?a \<noteq> None" by (simp_all add: open_reply_def)
  from conjunct1 [OF reply_assembled [OF this, of "[''ll'', ''o'']"]] have
    "ap_history (drain_stream [Token ''ll'', Token ''o'', StreamDone] ?a) = [user_turn ''hi'', \<lparr>tn_role = Assistant, tn_content = ''Hello'', tn_complete = True\<rparr>]"
    by simp
  with o1 show ?thesis by blast
qed

text \<open>
  A message the client shows while a reply is streaming takes the reply's place as the last turn: all
  later tokens are dropped, the end of the stream does not complete the reply, and what it had got so
  far stays open, in the transcript and in the next prompt.
\<close>

theorem interrupted_reply_lost:
  assumes "open_reply a s" "ap_streaming a \<noteq> None" "ap_download a \<noteq> None" "s \<noteq> []"
  shows "ap_history (drain_stream (map Token ts @ [StreamDone]) (drain_download E [DlError label m] a)) =
      ap_history a @ [system_turn (warn_sign @ '' '' @ label @ '': '' @ m)] \<and>
    ap_streaming (drain_stream (map Token ts @ [StreamDone]) (drain_download E [DlError label m] a)) = None \<and>
    chat_messages (ap_history a @ [system_turn (warn_sign @ '' '' @ label @ '': '' @ m), user_turn p, assistant_open]) =
      spoken (butlast (ap_history a)) @ [\<lparr>ct_role = ''assistant'', ct_content = s\<rparr>, \<lparr>ct_role = ''user'', ct_content = p\<rparr>]"
proof -
  let ?sys = "system_turn (warn_sign @ '' '' @ label @ '': '' @ m)"
  define b where "b = drain_download E [DlError label m] a"
  have b: "ap_history b = ap_history a @ [?sys]" "ap_streaming b \<noteq> None"
    using assms(2,3) by (simp_all add: b_def drain_download_def push_system_def)
  have skip: "on_last (if_open f) c = c" if "ap_history c = ap_history a @ [?sys]" for f and c :: "'a app"
    by (cases c) (use that in \<open>simp add: on_last_def if_open_def system_turn_def\<close>)
  have toks: "stream_events (map Token ts @ ds) c = stream_events ds c" if "ap_history c = ap_history a @ [?sys]" for ds and c :: "'a app"
    by (induction ts) (simp_all add: skip [OF that])
  have fin: "drain_stream (map Token ts @ [StreamDone]) b = b\<lparr>ap_streaming := None\<rparr>"
    using b toks [OF b(1)] by (cases b) (simp add: drain_stream_def on_last_def system_turn_def)
  have "ap_history a = butlast (ap_history a) @ [\<lparr>tn_role = Assistant, tn_content = s, tn_complete = False\<rparr>]"
    using assms(1) unfolding open_reply_def by (metis append_butlast_last_id)
  moreover have "spoken (h @ [\<lparr>tn_role = Assistant, tn_content = s, tn_complete = False\<rparr>, ?sys]) =
      spoken h @ [\<lparr>ct_role = ''assistant'', ct_content = s\<rparr>]" for h
    using assms(4) by (simp add: spoken_def role_name_def system_turn_def)
  ultimately have "spoken (ap_history a @ [?sys]) = spoken (butlast (ap_history a)) @ [\<lparr>ct_role = ''assistant'', ct_content = s\<rparr>]"
    by (metis append.assoc append_Cons append_Nil)
  then show ?thesis using b(1) fin chat_messages_prompt [of "ap_history a @ [?sys]" p] by (simp add: b_def)
qed

definition demo_streaming :: "unit app" where
  "demo_streaming = (demo_app [] 0)\<lparr>ap_history := [user_turn ''hi'', \<lparr>tn_role = Assistant, tn_content = ''He'', tn_complete = False\<rparr>],
     ap_streaming := Some (LocalJob sample_model []), ap_download := Some (hd CATALOG)\<rparr>"

lemma interrupted_reply_lost_witness:
  "ap_history (drain_stream [Token ''llo'', StreamDone] (drain_download demo_ui_env [DlError ''m'' ''gone''] demo_streaming)) =
    [user_turn ''hi'', \<lparr>tn_role = Assistant, tn_content = ''He'', tn_complete = False\<rparr>, system_turn (warn_sign @ '' m: gone'')]"
proof -
  have "open_reply demo_streaming ''He''" "ap_streaming demo_streaming \<noteq> None" "ap_download demo_streaming \<noteq> None"
    by (simp_all add: open_reply_def demo_streaming_def)
  from conjunct1 [OF interrupted_reply_lost [OF this, of "[''llo'']" demo_ui_env "''m''" "''gone''" "[]"]] show ?thesis
    by (simp add: demo_streaming_def)
qed

section \<open>Commands\<close>

text \<open>
  C31. \<open>/leave\<close> and then \<open>/leave n\<close>: the daemon is asked to drain the slice that was row \<open>n\<close> of the
  listing the user saw, whatever it hosts by then, and no other: its state becomes what its own
  \<open>begin_drain\<close> makes of that slice.
\<close>

theorem leave_by_row:
  assumes "daemon_ok (Some st)" "daemon_ok (Some st2)" "app_ok a" "n < length (slices st)" "length (slices st) < 2 ^ 64"
  shows "\<exists>a1 a2. handle_leave_cmd E [] (a, Some st) = Some (a1, Some st) \<and>
    handle_leave_cmd E2 [dec_digits (n + 1)] (a1, Some st2) =
      Some (a2, Some (snd (begin_drain (ae_now E2) (fst (slices st ! n)) st2)))"
proof -
  define ss where "ss = snapshot_hosted st"
  have keys: "map slice_of ss = map fst (slices st)" by (simp add: ss_def snapshot_hosted_def slice_of_def case_prod_unfold comp_def)
  have call: "daemon_call E ReqListHosted (a, Some st) = (Inr (RespHosted ss), (a, Some st))"
    by (simp add: daemon_call_def dispatch_def ss_def)
  have "ui_ok (a, Some st)" using assms(1,3) by (simp add: ui_ok_def)
  from picker_lines_ok [OF listed_short [OF call this], of 1] obtain ls where ls: "picker_lines 1 ss = Some ls" by blast
  have "ss \<noteq> []" using assms(4) by (auto simp: ss_def snapshot_hosted_def)
  then obtain a1 where a1: "handle_leave_cmd E [] (a, Some st) = Some (a1, Some st)" "ap_leave_picker a1 = map fst (slices st)" "app_ok a1"
    using assms(3) by (auto simp: handle_leave_cmd_def show_leave_picker_def call ls [simplified] keys say_def push_system_def app_ok_def)
  obtain c s e where k: "fst (slices st ! n) = (c, s, e)" by (cases "fst (slices st ! n)") auto
  have "nth_opt (ap_leave_picker a1) n = Some (c, s, e)" using assms(4) a1(2) k by (simp add: nth_opt_def)
  moreover have "parse_uint (2 ^ 64) (dec_digits (n + 1)) = Some (n + 1)" by (rule parse_uint_digits) (use assms(4,5) in linarith)
  ultimately have two: "handle_leave_cmd E2 [dec_digits (n + 1)] (a1, Some st2) = do_leave E2 c s e (a1, Some st2)"
    by (simp add: handle_leave_cmd_def)
  have u2: "ui_ok (a1, Some st2)" using a1(3) assms(2) by (simp add: ui_ok_def)
  obtain ok st3 where d: "begin_drain (ae_now E2) (c, s, e) st2 = (ok, st3)" by (cases "begin_drain (ae_now E2) (c, s, e) st2") auto
  then have call2: "daemon_call E2 (ReqLeave c s e) (a1, Some st2) = (Inr (if ok then RespLeaving else RespNotAnnouncing), (a1, Some st3))"
    by (simp add: daemon_call_def dispatch_def)
  have "short12 c \<noteq> None" if ok using leaving_short [OF _ u2, of E2 c s e] call2 that by (simp add: short_ok_def)
  then have "\<exists>a2. do_leave E2 c s e (a1, Some st2) = Some (a2, Some st3)"
    by (cases ok) (auto simp: do_leave_def call2 say_def)
  then show ?thesis using a1(1) two d k by auto
qed

lemma leave_by_row_witness:
  "\<exists>a1 a2. handle_leave_cmd demo_ui_env [] (demo_app [] 0, Some ctl1) = Some (a1, Some ctl1) \<and>
    handle_leave_cmd demo_ui_env [dec_digits (0 + 1)] (a1, Some ctl2) = Some (a2, Some (snd (begin_drain 0 key0 ctl2)))"
proof -
  have k: "slices ctl1 ! 0 = (key0, \<lparr>display_name = ''m'', se_state = Announcing, active_chains = 0, draining_since = None\<rparr>)"
    "length (slices ctl1) = 1"
    by (simp_all add: ctl1_def upsert_announcing_def control_new_def)
  have "daemon_ok (Some ctl1)" "daemon_ok (Some ctl2)"
    by (simp_all add: daemon_ok_def ctl2_def ctl1_def upsert_announcing_def control_new_def accept_chain_def short_ok_def short12_def
        key0_def is_char_boundary_def)
  moreover have "app_ok (demo_app [] 0)" by (simp add: demo_app_def app_ok_def app_new_def undo_ok_def models_ok_def)
  ultimately show ?thesis using leave_by_row [of ctl1 ctl2 "demo_app [] 0" 0 demo_ui_env demo_ui_env] k by (simp add: demo_ui_env_def)
qed

section \<open>Scrolling\<close>

definition scroll_ok :: "'m app \<Rightarrow> bool" where
  "scroll_ok a \<longleftrightarrow> ap_scroll_off a \<le> sat_sub (ap_last_total a) (ap_last_viewport a)"


lemma sat_sub_le: "sat_sub a b \<le> a"
  by (simp add: sat_sub_def word_sub_le)

text \<open>
  Every frame of the chat leaves the transcript scrolled within its bounds and pinned to the tail
  exactly when it shows the last row; and Page Up, Page Down, Shift-Home and Shift-End keep it within
  the bounds until the next frame.
\<close>

theorem frames_scroll:
  fixes a b :: "'m app"
  assumes "ap_view a = Chat" "scroll_ok b"
  shows "scroll_ok (draw f a) \<and>
    ap_follow_tail (draw f a) = (ap_scroll_off (draw f a) = sat_sub (fr_total f) (fr_viewport f)) \<and>
    (ap_follow_tail a \<longrightarrow> ap_follow_tail (draw f a)) \<and>
    scroll_ok (page_up b) \<and> scroll_ok (page_down b) \<and> scroll_ok (home_key E True b) \<and> steps_ok scroll_ok (end_key E True b)"
  using assms sat_sub_le [of "ap_scroll_off b" "scroll_step b"]
  by (auto simp: draw_def draw_conversation_def in_overlay_def scroll_ok_def Let_def page_up_def page_down_def home_key_def end_key_def
      scroll_to_def transcript_scroll_to_top_def transcript_scroll_to_bottom_def)

lemma demo_app_fields: "ap_view (demo_app t c) = Chat" "ap_follow_tail (demo_app t c)" "scroll_ok (demo_app t c)"
  by (simp_all add: demo_app_def app_new_def scroll_ok_def sat_sub_def)

lemma frames_scroll_witness:
  "ap_scroll_off (draw \<lparr>fr_width = 80, fr_total = 100, fr_viewport = 20\<rparr> (demo_app [] 0)) = 80"
  using frames_scroll [OF demo_app_fields(1) demo_app_fields(3) [of "[]" 0], of "\<lparr>fr_width = 80, fr_total = 100, fr_viewport = 20\<rparr>" "[]" 0 demo_ui_env]
    demo_app_fields(2) [of "[]" 0]
  by (auto simp: sat_sub_def)

section \<open>Keys that do not do what they say\<close>

definition ctrl :: "nat \<Rightarrow> key_event" where
  "ctrl c = \<lparr>k_code = KChar c, k_ctrl = True, k_shift = False, k_alt = False\<rparr>"

text \<open>
  Two Control-C within the window leave the program; the first one cancels the stream, closes the
  overlay or clears the input. A window that has passed counts as none.
\<close>

theorem double_ctrl_c:
  assumes "\<not> armed (ae_now E) EXIT_WINDOW (ap_exit_pending a)" "ae_now E \<le> ae_now E2"
  shows "\<exists>b. handle_key E ed (ctrl 0x63) (a, D) = Some (False, (b, D)) \<and>
    handle_key E2 ed (ctrl 0x63) (b, D) = Some (ae_now E2 - ae_now E < 1500, (if ae_now E2 - ae_now E < 1500 then b else snd (ctrl_c E2 b), D)) \<and>
    (ap_streaming a \<noteq> None \<longrightarrow> ap_streaming b = None) \<and>
    (ap_streaming a = None \<longrightarrow> (if in_overlay a then ap_view b = Chat \<and> ap_input b = ap_input a else ap_input b = []))"
proof -
  define b where "b = snd (ctrl_c E a)"
  have b: "ctrl_c E a = (False, b)" "ap_exit_pending b = Some (ae_now E)"
    using assms(1) by (simp_all add: b_def ctrl_c_def)
  obtain q r where q: "ctrl_c E2 b = (q, r)" by (cases "ctrl_c E2 b") auto
  then have "q = (ae_now E2 - ae_now E < 1500)" "q \<Longrightarrow> r = b"
    using b(2) by (auto simp: ctrl_c_def armed_def EXIT_WINDOW_def split: if_splits)
  moreover have "(ap_streaming a \<noteq> None \<longrightarrow> ap_streaming b = None) \<and>
    (ap_streaming a = None \<longrightarrow> (if in_overlay a then ap_view b = Chat \<and> ap_input b = ap_input a else ap_input b = []))"
    using assms(1) by (simp add: b_def ctrl_c_def cancel_stream_def)
  ultimately show ?thesis using b(1) q
    by (intro exI [of _ b]) (auto simp: handle_key_def ctrl_key_def ctrl_def)
qed

lemma double_ctrl_c_witness:
  "\<exists>b. handle_key demo_ui_env (EditorFails []) (ctrl 0x63) (demo_app [0x61] 1, None) = Some (False, (b, None)) \<and> ap_input b = [] \<and>
    fst (the (handle_key demo_ui_env (EditorFails []) (ctrl 0x63) (b, None)))"
  using double_ctrl_c [of demo_ui_env "demo_app [0x61] 1" demo_ui_env "EditorFails []" None]
  by (auto simp: demo_app_def app_new_def armed_def in_overlay_def)

text \<open>
  Control-L and Control-D are taken before the pending exit is disarmed: Control-C, Control-L, Control-C
  leaves the program.
\<close>

lemma ctrl_l_keeps_armed:
  "handle_key E ed (ctrl 0x6C) (a, D) = Some (False, (a\<lparr>ap_history := []\<rparr>, D))"
  by (simp add: handle_key_def ctrl_key_def ctrl_def)

text \<open>Control-Z, listed as suspending the program, types a \<open>z\<close>.\<close>

lemma ctrl_z_types:
  assumes "ap_view a = Chat" "cut (ap_input a) (ap_cursor a) = Some (x, y)" "suggestions a = []"
  shows "\<exists>b. handle_key E ed (ctrl 0x7A) (a, D) = Some (False, (b, D)) \<and> ap_input b = x @ 0x7A # y"
  using assms
  by (simp add: handle_key_def ctrl_key_def ctrl_def Let_def chat_key_def suggestions_def edit_key_def char_key_def insert_char_def insert_at_def)

text \<open>With the list of commands open, Escape clears the input and leaves the stream running.\<close>

lemma escape_in_suggestions:
  assumes "ap_view a = Chat" "suggestions a \<noteq> []" "k_code k = KEsc" "\<not> k_ctrl k"
  shows "\<exists>b. handle_key E ed k (a, D) = Some (False, (b, D)) \<and> ap_input b = [] \<and> ap_streaming b = ap_streaming a"
  using assms
  by (simp add: handle_key_def Let_def chat_key_def suggestions_def overlay_key_def)

text \<open>A refresh of the swarm moves the selection back to the first row that can be run.\<close>

lemma refresh_resets_selection:
  assumes "ap_swarm_rx a \<noteq> None" "ap_view a = BrowserView s"
  shows "ap_view (drain_swarm E [ms] a) =
    BrowserView (browser_new (build_rows (ae_cid_of E) (ap_local_scan a) ms (ae_free E)))"
  using assms by (cases "ap_swarm_rx a") (simp_all add: drain_swarm_def show_rows_def Let_def)

end
