(* ===== verification/Cli.thy ===== *)
theory Cli
  imports App_Props Startup Ggml_Loader Gate Fetch Backend
begin

text \<open>
  The command-line program \<open>intelnav\<close>, \<open>crates/cli/src/main.rs\<close>, its non-interactive commands, \<open>crates/app/src/cmd.rs\<close>, the
  start of the chat client (\<open>run\<close> in \<open>crates/app/src/tui/mod.rs\<close>) and the tool \<open>intelnav-chunk\<close>
  (\<open>crates/model-store/src/bin/intelnav_chunk.rs\<close>). The parser of the command line, the terminal and the log are libraries.
\<close>

section \<open>The text that asks for a contribution\<close>

definition bold :: "string \<Rightarrow> string" where "bold s = esc ''1'' @ s @ esc ''0''"
definition green :: "string \<Rightarrow> string" where "green s = esc ''32'' @ s @ esc ''0''"
definition cyan :: "string \<Rightarrow> string" where "cyan s = esc ''36'' @ s @ esc ''0''"

definition layers_of :: "u16 \<times> u16 \<Rightarrow> string" where
  "layers_of = (\<lambda>(s, e). ''layers '' @ show_range s e)"

definition fit_label :: "fit \<Rightarrow> string" where
  "fit_label f = (case f of Fits \<Rightarrow> ''comfortable'' | Tight \<Rightarrow> ''tight (close to RAM limit)'' | TooBig \<Rightarrow> ''too big'')"

definition apostrophe :: string where "apostrophe = [CHR 0x27]"

definition gate_block :: "suggestion option \<Rightarrow> hardware_tier \<Rightarrow> string list" where
  "gate_block sugg tier =
     [[], bold ''IntelNav requires every peer to contribute.'', []] @
     (case tier of
        Capable \<Rightarrow>
          [''Your hardware is plenty for hosting. '' @ bold ''Please host a slice.'',
           ''The network only works because capable peers commit their hardware.'', []] @
          (case sugg of
             Some s \<Rightarrow> [''  Suggested:  '' @ green (ce_display_name (sg_entry s)) @ ''  '' @ layers_of (sg_range s)]
           | None \<Rightarrow> []) @
          [[], ''  How to host:'',
           ''    '' @ bold ''INTELNAV_RELAY_ONLY=1 intelnav'' @ ''   (one-time, to reach the TUI)'',
           ''    Inside the TUI: '' @ bold ''/models'' @ '' '' @ arrow @ '' highlight a row '' @ arrow @ '' press '' @ bold ''c'',
           ''    Then '' @ bold ''/service install'' @ '' to make it permanent across reboots.'', []]
      | Modest \<Rightarrow>
          [''You'' @ apostrophe @ ''re not hosting a slice yet. Two ways forward:'', []] @
          (case sugg of
             Some s \<Rightarrow>
               [''  1. '' @ green ''Host a slice'' @ '' '' @ bold ''(strongly preferred)'' @ '':'',
                ''       '' @ bold (ce_display_name (sg_entry s)) @ ''  '' @ layers_of (sg_range s) @ ''  ('' @ fit_label (sg_fit s) @ '')'', [],
                ''       '' @ bold ''INTELNAV_RELAY_ONLY=1 intelnav'' @ '' to reach the TUI,'',
                ''       then '' @ bold ''/models'' @ '' '' @ arrow @ '' highlight '' @ arrow @ '' press '' @ bold ''c'' @ '' to contribute.'']
           | None \<Rightarrow> []) @
          [[], ''  2. '' @ cyan ''Relay only'' @ '' '' @ em_dash @ '' DHT routing, no inference:'',
           ''       '' @ bold ''INTELNAV_RELAY_ONLY=1 intelnav'',
           ''       (Make permanent: set '' @ bold ''relay_only = true'' @ '' in ~/.config/intelnav/config.toml)'', []]
      | Constrained \<Rightarrow>
          [''Your hardware is below the catalog'' @ apostrophe @ ''s hosting floor.'',
           cyan ''Relay-only mode'' @ '' is the right path:'', [],
           ''    '' @ bold ''INTELNAV_RELAY_ONLY=1 intelnav'', [],
           ''Your daemon will participate in the DHT (which still helps the network)'',
           ''but won'' @ apostrophe @ ''t run inference layers.'',
           ''Make permanent: set '' @ bold ''relay_only = true'' @ '' in ~/.config/intelnav/config.toml.'', []])"

section \<open>The program\<close>

datatype command =
    CmdChat "string option" "u8 option" bool
  | CmdAsk "string option" "string option"
  | CmdModels bool
  | CmdDoctor
  | CmdInit bool

text \<open>The field \<open>config\<close> is parsed and not read.\<close>

record cli_args =
  ca_config :: "string option"
  ca_mode :: "run_mode option"
  ca_command :: "command option"

record main_env =
  mn_host :: host
  mn_toml :: "bytes \<Rightarrow> string + config"
  mn_vars :: "string \<Rightarrow> string option"
  mn_rocminfo :: "string option"
  mn_sidecars :: sidecar_json
  mn_free :: u64
  mn_stdin :: "string option"
  mn_log :: bool

datatype main_end =
    SetupError host_error
  | ConfigError config_error
  | GateBlocked "string list"
  | LogError
  | StdinError
  | RunChat config "string option" "u8 option" bool
  | RunAsk config "string option" string
  | RunModels config bool
  | RunDoctor config
  | RunInit bool

definition is_tui :: "command option \<Rightarrow> bool" where
  "is_tui c \<longleftrightarrow> (case c of None \<Rightarrow> True | Some (CmdChat m q w) \<Rightarrow> True | _ \<Rightarrow> False)"

definition dispatch_command :: "main_env \<Rightarrow> config \<Rightarrow> command option \<Rightarrow> main_end" where
  "dispatch_command E cfg c =
     (case (case c of Some x \<Rightarrow> x | None \<Rightarrow> CmdChat None None False) of
        CmdChat m q w \<Rightarrow> RunChat cfg m q w
      | CmdAsk m prompt \<Rightarrow>
          (case prompt of Some p \<Rightarrow> RunAsk cfg m p
           | None \<Rightarrow> (case mn_stdin E of Some s \<Rightarrow> RunAsk cfg m s | None \<Rightarrow> StdinError))
      | CmdModels json \<Rightarrow> RunModels cfg json
      | CmdDoctor \<Rightarrow> RunDoctor cfg
      | CmdInit force \<Rightarrow> RunInit force)"

text \<open>The end of the start, the disk, and the two variables set for the library.\<close>

definition main_run :: "main_env \<Rightarrow> cli_args \<Rightarrow> disk \<Rightarrow> main_end \<times> disk \<times> path option \<times> string option" where
  "main_run E args d =
     (case ensure_initialized (mn_host E) d of
        (Inl e, d1) \<Rightarrow> (SetupError e, d1, None, None)
      | (Inr _, d1) \<Rightarrow>
          let lib = snd (auto_discover_libllama_dir (mn_host E) d1 (map_option (path_of (ho_cwd (mn_host E))) (mn_vars E ''INTELNAV_LIBLLAMA_DIR'')));
              gfx = ensure_runtime_overrides (mn_vars E ''HSA_OVERRIDE_GFX_VERSION'') (mn_rocminfo E)
          in (case config_load (ho_cwd (mn_host E)) (ho_dirs (mn_host E)) (mn_toml E) (mn_vars E) (dk_files d1) of
                Inl e \<Rightarrow> ConfigError e
              | Inr cfg0 \<Rightarrow>
                  let cfg = (case ca_mode args of Some m \<Rightarrow> cfg0\<lparr>cf_mode := m\<rparr> | None \<Rightarrow> cfg0)
                  in if is_tui (ca_command args) then
                       (case check_gate (mn_sidecars E) (cf_models_dir cfg) (cf_relay_only cfg) (mn_free E) (dk_files d1) of
                          NeedsContribution sugg tier \<Rightarrow> GateBlocked (gate_block sugg tier)
                        | Pass g \<Rightarrow> if mn_log E then dispatch_command E cfg (ca_command args) else LogError)
                     else dispatch_command E cfg (ca_command args),
              d1, lib, gfx))"

section \<open>ask\<close>

datatype ask_error =
    NoMatch string
  | NotUsable string
  | NoPeersInConfig
  | BadTarget target_error

definition configure_driver :: "config \<Rightarrow> 'm chain_driver \<Rightarrow> 'm chain_driver" where
  "configure_driver cfg D =
     (let D1 = (case cf_draft_model cfg of
            Some p \<Rightarrow> if 2 \<le> cf_spec_k cfg then set_draft (Some \<lparr>dt_path = p, dt_k = unat (cf_spec_k cfg)\<rparr>) D else D
          | None \<Rightarrow> D)
      in set_wire_dtype (fst (parse_wire_dtype (cf_wire_dtype cfg))) D1)"

definition device_of :: "config \<Rightarrow> device_pref" where
  "device_of cfg = (case device_from_str (cf_device cfg) of Inr p \<Rightarrow> p | Inl _ \<Rightarrow> DevAuto)"

definition ask_model :: "config \<Rightarrow> fs \<Rightarrow> path \<Rightarrow> string option \<Rightarrow> ask_error + local_model" where
  "ask_model cfg fs cwd model =
     (let scan = list_models fs (cf_models_dir cfg);
          requested = (case model of
              Some m \<Rightarrow> m
            | None \<Rightarrow> (case pick_default scan of Some m \<Rightarrow> lm_name m | None \<Rightarrow> cf_default_model cfg))
      in case resolve fs cwd scan requested of
           None \<Rightarrow> Inl (NoMatch requested)
         | Some m \<Rightarrow> if is_usable m then Inr m else Inl (NotUsable (status_line m)))"

text \<open>What will run: the local driver, or the chain driver as it is set up.\<close>

definition ask_driver :: "parse_addr \<Rightarrow> config \<Rightarrow> run_mode \<Rightarrow> ask_error + 'm chain_driver option" where
  "ask_driver pa cfg mode =
     (case mode of
        LocalMode \<Rightarrow> Inr None
      | Network \<Rightarrow>
          if cf_peers cfg = [] then Inl NoPeersInConfig
          else rbind (map_err BadTarget (from_config pa (cf_peers cfg) (cf_splits cfg))) (\<lambda>t.
            Inr (Some (configure_driver cfg (set_target (Some t) chain_driver_new)))))"

datatype ask_end = AskOk | AskExit1

text \<open>The reply on standard output. The loop ends at \<open>Done\<close>, at an error, and when the channel is closed.\<close>

fun ask_print :: "delta list \<Rightarrow> string \<times> ask_end" where
  "ask_print [] = ([], AskOk)"
| "ask_print (DToken t # ds) = (case ask_print ds of (out, r) \<Rightarrow> (t @ out, r))"
| "ask_print (DDone # ds) = ([CHR 0x0A], AskOk)"
| "ask_print (DError # ds) = ([], AskExit1)"

definition ask_run :: "config \<Rightarrow> fs \<Rightarrow> path \<Rightarrow> parse_addr \<Rightarrow> run_mode \<Rightarrow> string option \<Rightarrow>
    (local_model \<Rightarrow> 'm chain_driver option \<Rightarrow> delta list) \<Rightarrow> ask_error + string \<times> ask_end" where
  "ask_run cfg fs cwd pa mode model stream =
     rbind (ask_model cfg fs cwd model) (\<lambda>m.
     rbind (ask_driver pa cfg mode) (\<lambda>D.
       Inr (ask_print (stream m D))))"

section \<open>models\<close>

definition models_lines :: "(path \<Rightarrow> string) \<Rightarrow> config \<Rightarrow> fs \<Rightarrow> string list" where
  "models_lines show cfg fs =
     (let scan = list_models fs (cf_models_dir cfg); rule = [CHR 0xE2, CHR 0x94, CHR 0x80]
      in (rule @ rule @ '' local ('' @ show (cf_models_dir cfg) @ '') '' @ rule @ rule) #
         (if scan = [] then [''  (no .gguf files found)'']
          else map (\<lambda>m. ''  '' @ (if is_usable m then middle_dot else ''!'') @ '' '' @ status_line m) scan))"

section \<open>The start of the chat client\<close>

definition tagline :: "string \<Rightarrow> string" where
  "tagline version = ''intelnav '' @ version @ '' '' @ middle_dot @ '' proto v1''"

definition or_else :: "'a \<Rightarrow> 'a option \<Rightarrow> 'a" where
  "or_else d x = (case x of Some v \<Rightarrow> v | None \<Rightarrow> d)"

definition tui_model :: "config \<Rightarrow> run_mode \<Rightarrow> string option \<Rightarrow> local_model list \<Rightarrow> string" where
  "tui_model cfg mode model scan =
     (case model of
        Some m \<Rightarrow> m
      | None \<Rightarrow>
          (case (if mode = LocalMode then map_option lm_name (pick_default scan) else None) of
             Some m \<Rightarrow> m
           | None \<Rightarrow> cf_default_model cfg))"

definition tui_driver :: "parse_addr \<Rightarrow> config \<Rightarrow> 'm chain_driver" where
  "tui_driver pa cfg =
     configure_driver cfg
       (case from_config pa (cf_peers cfg) (cf_splits cfg) of
          Inr t \<Rightarrow> set_target (Some t) chain_driver_new
        | Inl _ \<Rightarrow> chain_driver_new)"

text \<open>The client when its loop starts; \<open>swarm\<close> is the peer id of the swarm host, or why there is none.\<close>

definition tui_start :: "app_env \<Rightarrow> string \<Rightarrow> config \<Rightarrow> run_mode \<Rightarrow> string option \<Rightarrow> u8 option \<Rightarrow> bool \<Rightarrow> string + string \<Rightarrow> 'm app" where
  "tui_start A version cfg mode model quorum wan swarm =
     (let scan = list_models (ae_fs A) (cf_models_dir cfg);
          a0 = app_new (cf_models_dir cfg) mode (tui_driver (ae_parse_addr A) cfg) scan (tui_model cfg mode model scan)
                 (or_else (cf_quorum cfg) quorum) (wan \<or> cf_allow_wan cfg) (tier_display (cf_default_tier cfg));
          a1 = greet_mode A (push_system (''Welcome to '' @ tagline version @ ''. Type /help for commands. Ctrl+C to quit.'') a0)
      in case swarm of
           Inr peer \<Rightarrow>
             (push_system (''swarm: peer '' @ peer @ '' reading the DHT (run `intelnav-node` to host).'') a1)\<lparr>ap_swarm_index := True\<rparr>
         | Inl e \<Rightarrow> push_system (''swarm: offline ('' @ e @ ''). /models will show only local + hub rows.'') a1)"

section \<open>intelnav-chunk\<close>

datatype tool_error = ToolChunk "chunk_error fault" | ToolFetch "fetch_error fault" | BothOrNeither

text \<open>The line on standard output, where there is one.\<close>

definition run_chunk :: "sha \<Rightarrow> cid_str \<Rightarrow> to_json \<Rightarrow> path \<Rightarrow> path \<Rightarrow> bool \<Rightarrow> bool \<Rightarrow> fs \<Rightarrow> tool_error + string \<times> fs" where
  "run_chunk sha cs to_json input out ovr dry fs =
     rbind (map_err ToolChunk (chunk_gguf sha cs to_json input \<lparr>output_dir = out, overwrite = ovr, dry_run = dry\<rparr> fs)) (\<lambda>(o1, fs').
       Inr (co_manifest_cid o1, fs'))"

definition run_verify :: "sha \<Rightarrow> cid_str \<Rightarrow> from_json \<Rightarrow> path \<Rightarrow> fs \<Rightarrow> tool_error + unit" where
  "run_verify sha cs from_json out fs = map_err ToolChunk (verify_chunks sha cs from_json out fs)"

definition run_fetch :: "('u, 'w) fetch_env \<Rightarrow> path \<Rightarrow> string \<Rightarrow> path option \<Rightarrow> u32 option \<Rightarrow> u32 option \<Rightarrow> fs \<Rightarrow> 'w \<Rightarrow>
    (tool_error + string) \<times> fs \<times> 'w" where
  "run_fetch E default_root url root start stop fs w =
     (let opts = default_options (or_else default_root root);
          finish = (\<lambda>(r, fs', w'). (rbind (map_err ToolFetch r) (\<lambda>out. Inr (ft_manifest_cid out)), fs', w'))
      in case (start, stop) of
           (Some s, Some e) \<Rightarrow>
             (case fetch_manifest_only E url opts fs w of
                (Inl e, fs1, w1) \<Rightarrow> (Inl (ToolFetch e), fs1, w1)
              | (Inr f, fs1, w1) \<Rightarrow> finish (fetch_chunks E f (for_range (fm_manifest f) s e) opts fs1 w1))
         | (None, None) \<Rightarrow> finish (fetch_manifest_and_chunks E url FullPlan opts fs w)
         | _ \<Rightarrow> (Inl BothOrNeither, fs, w))"


section \<open>Properties\<close>

text \<open>
  No chat without a contribution: when the program opens the chat client, the configuration it runs with (the mode
  of the command line included) has passed the gate, hosting a slice or relaying; when the gate refuses, the
  program ends with its text. The other commands are not gated.
\<close>

theorem gate_guards_chat:
  assumes "main_run E args d = (r, d', lib, gfx)"
  shows "(\<forall>cfg m q w. r = RunChat cfg m q w \<longrightarrow>
      (\<exists>g. check_gate (mn_sidecars E) (cf_models_dir cfg) (cf_relay_only cfg) (mn_free E) (dk_files d') = Pass g) \<and>
      (\<forall>mode. ca_mode args = Some mode \<longrightarrow> cf_mode cfg = mode)) \<and>
    (\<forall>ls. r = GateBlocked ls \<longrightarrow> is_tui (ca_command args))"
  using assms
  by (cases "ca_command args")
    (auto simp: main_run_def dispatch_command_def is_tui_def Let_def split: sum.splits prod.splits option.splits gate_state.splits command.splits if_splits)

definition demo_disk :: disk where
  "demo_disk = \<lparr>dk_files = [([''c'', ''config.toml''], [1]), ([''d'', ''peer.key''], [1])], dk_dirs = [[''c''], [''d'', ''models'']], dk_private = []\<rparr>"

definition demo_main :: main_env where
  "demo_main = \<lparr>mn_host = demo_host, mn_toml = (\<lambda>_. Inr ((config_default [''d'', ''models''])\<lparr>cf_relay_only := True\<rparr>)),
     mn_vars = (\<lambda>_. None), mn_rocminfo = None, mn_sidecars = sample_sidecars, mn_free = 0, mn_stdin = None, mn_log = True\<rparr>"

lemma gate_guards_chat_witness:
  "\<exists>cfg g. fst (main_run demo_main \<lparr>ca_config = None, ca_mode = Some LocalMode, ca_command = None\<rparr> demo_disk) = RunChat cfg None None False \<and>
    check_gate sample_sidecars (cf_models_dir cfg) (cf_relay_only cfg) 0 (dk_files demo_disk) = Pass g"
proof -
  let ?args = "\<lparr>ca_config = None, ca_mode = Some LocalMode, ca_command = None\<rparr> :: cli_args"
  have init: "ensure_initialized demo_host demo_disk =
      (Inr \<lparr>ir_wrote_config = False, ir_wrote_identity = False, ir_created_models_dir = False\<rparr>, demo_disk)"
    by (simp add: ensure_initialized_def dbind_def create_dir_all_def ensure_config_def ensure_identity_def ensure_models_dir_def
        exists_at_def demo_disk_def demo_host_simps config_path_def identity_path_def default_models_dir_def join_def read_file_def)
  let ?c = "(config_default [''d'', ''models''])\<lparr>cf_relay_only := True\<rparr>"
  have "apply_env [] (\<lambda>_. None) ?c = ?c" by (simp add: apply_env_def env_rules_def overlay_def)
  moreover have "utf8_valid [1 :: byte]" by simp
  ultimately have load: "config_load [] (ho_dirs demo_host) (mn_toml demo_main) (\<lambda>_. None) (dk_files demo_disk) = Inr ?c"
    by (simp add: config_load_def config_path_def demo_host_simps demo_disk_def join_def read_file_def demo_main_def)
  have "hosts_any_slice sample_sidecars [''d'', ''models''] (dk_files demo_disk) = False"
    by (simp add: hosts_any_slice_def Let_def read_dir_def demo_disk_def join_def)
  then have gate: "check_gate sample_sidecars [''d'', ''models''] True 0 (dk_files demo_disk) = Pass Relay" by (simp add: check_gate_def)
  obtain r lib gfx where run: "main_run demo_main ?args demo_disk = (r, demo_disk, lib, gfx)"
    using init by (simp add: main_run_def demo_main_def Let_def)
  have "r = RunChat (?c\<lparr>cf_mode := LocalMode\<rparr>) None None False"
  proof -
    have "r = fst (main_run demo_main ?args demo_disk)" using run by simp
    also have "\<dots> = RunChat (?c\<lparr>cf_mode := LocalMode\<rparr>) None None False"
      using init load gate
      by (simp add: main_run_def Let_def is_tui_def dispatch_command_def demo_main_def demo_host_simps config_default_def)
    finally show ?thesis .
  qed
  with gate_guards_chat [OF run] run show ?thesis by (auto simp: demo_main_def)
qed

lemma ask_print_reply: "ask_print (map DToken ps @ ds) = (concat ps @ fst (ask_print ds), snd (ask_print ds))"
  by (induction ps) (simp_all add: case_prod_unfold)

text \<open>
  What \<open>ask\<close> prints is the reply, for the model that was asked for: the pieces of text in order, then a line break
  and success when the turn ended well; at an error the exit code is 1 and the output is what had come before.
\<close>

theorem ask_prints_reply:
  assumes "ask_model cfg fs cwd model = Inr m" "ask_driver pa cfg mode = Inr D" "stream m D = map DToken ps @ last_delta r"
  shows "ask_run cfg fs cwd pa mode model stream =
      Inr (case r of Inr _ \<Rightarrow> (concat ps @ [CHR 0x0A], AskOk) | Inl (Fail _) \<Rightarrow> (concat ps, AskExit1) | Inl Panic \<Rightarrow> (concat ps, AskOk)) \<and>
    is_usable m \<and> (mode = LocalMode \<longleftrightarrow> D = None) \<and>
    (\<forall>C. D = Some C \<longrightarrow> (\<exists>t. cd_target C = Some t \<and> from_config pa (cf_peers cfg) (cf_splits cfg) = Inr t))"
proof -
  have "is_usable m" using assms(1) by (auto simp: ask_model_def Let_def split: option.splits if_splits)
  moreover have "mode = LocalMode \<longleftrightarrow> D = None"
    "\<forall>C. D = Some C \<longrightarrow> (\<exists>t. cd_target C = Some t \<and> from_config pa (cf_peers cfg) (cf_splits cfg) = Inr t)"
    using assms(2)
    by (auto simp: ask_driver_def results configure_driver_def set_target_def set_draft_def set_wire_dtype_def Let_def
        split: run_mode.splits if_splits option.splits)
  ultimately show ?thesis using assms(1,2,3)
    by (auto simp: ask_run_def ask_print_reply last_delta_def split: sum.splits fault.splits)
qed

lemma ask_prints_reply_witness:
  "\<exists>r. ask_run (config_default [''models'']) sample_dir [] (\<lambda>a. Some a) LocalMode None (\<lambda>m D :: unit chain_driver option. [DToken ''hi'', DToken ''!'', DDone]) = Inr r \<and>
    r = (''hi!'' @ [CHR 0x0A], AskOk)"
proof -
  have "\<not> isl (ask_model (config_default [''models'']) sample_dir [] None)" by code_simp
  then obtain m where m: "ask_model (config_default [''models'']) sample_dir [] None = Inr m"
    by (cases "ask_model (config_default [''models'']) sample_dir [] None") auto
  have d: "ask_driver (\<lambda>a. Some a) (config_default [''models'']) LocalMode = Inr (None :: unit chain_driver option)" by (simp add: ask_driver_def)
  have s: "(\<lambda>m D :: unit chain_driver option. [DToken ''hi'', DToken ''!'', DDone]) m None = map DToken [''hi'', ''!''] @ last_delta (Inr ())"
    by (simp add: last_delta_def)
  from ask_prints_reply [where stream = "\<lambda>m D. [DToken ''hi'', DToken ''!'', DDone]", OF m d s] show ?thesis by simp
qed

section \<open>The host program\<close>

text \<open>
  \<open>intelnav-node\<close>, \<open>crates/node/src/main.rs\<close>: the same set-up, then the host runs with the configuration. The field
  \<open>config\<close> of its arguments is not read.
\<close>

datatype node_error = NodeSetup host_error | NodeConfig config_error

definition node_main :: "main_env \<Rightarrow> disk \<Rightarrow> (node_error + config) \<times> disk \<times> path option \<times> string option" where
  "node_main E d =
     (case ensure_initialized (mn_host E) d of
        (Inl e, d1) \<Rightarrow> (Inl (NodeSetup e), d1, None, None)
      | (Inr _, d1) \<Rightarrow>
          (map_err NodeConfig (config_load (ho_cwd (mn_host E)) (ho_dirs (mn_host E)) (mn_toml E) (mn_vars E) (dk_files d1)),
           d1,
           snd (auto_discover_libllama_dir (mn_host E) d1 (map_option (path_of (ho_cwd (mn_host E))) (mn_vars E ''INTELNAV_LIBLLAMA_DIR''))),
           ensure_runtime_overrides (mn_vars E ''HSA_OVERRIDE_GFX_VERSION'') (mn_rocminfo E)))"

text \<open>
  Chat and host see the same machine: on the same disk and environment the host runs on the models directory of the
  chat, with the same library and the same override, and leaves the same disk.
\<close>

lemma node_agrees:
  "main_run E args d = (RunChat cfg m q w, d', lib, gfx) \<Longrightarrow>
    \<exists>c. node_main E d = (Inr c, d', lib, gfx) \<and> cf_models_dir c = cf_models_dir cfg"
  by (cases "ca_mode args")
    (auto simp: main_run_def node_main_def dispatch_command_def Let_def map_err_def
      split: sum.splits prod.splits option.splits gate_state.splits command.splits if_splits)

end
