(* ===== verification/Doctor.thy ===== *)
theory Doctor
  imports Cli
begin

text \<open>
  The preflight report \<open>doctor\<close> of \<open>crates/app/src/cmd.rs\<close>: its lines and the list of things to fix. The banner, the texts
  of paths and of errors, and the outcome of loading the backends are parameters.
\<close>

section \<open>The report\<close>

record doctor_env =
  do_host :: host
  do_disk :: disk
  do_hardware :: hardware
  do_cpus :: "string list"
  do_total :: u64
  do_free :: u64
  do_lib :: lib_env
  do_linker :: linker
  do_listing :: "path \<Rightarrow> string list option"
  do_backends :: "string option" \<comment> \<open>why the backends do not load\<close>
  do_show :: "path \<Rightarrow> string"
  do_find_text :: "find_error \<Rightarrow> string"
  do_open_text :: "open_error \<Rightarrow> string"
  do_lower :: "string \<Rightarrow> string"
  do_banner :: string

definition ok_or_warn :: "string \<Rightarrow> string \<Rightarrow> bool \<Rightarrow> string" where
  "ok_or_warn label v ok =
     ''  '' @ (if ok then esc ''32'' @ check_mark @ esc ''0'' else esc ''33'' @ ''!'' @ esc ''0'') @ '' '' @ pad_right 14 label @ '' '' @ v"

definition good :: "string \<Rightarrow> string" where "good s = ''      '' @ esc ''32'' @ check_mark @ esc ''0'' @ '' '' @ s"
definition bad :: "string \<Rightarrow> string" where "bad s = ''      '' @ esc ''31'' @ cross_mark @ esc ''0'' @ '' '' @ s"

definition debug_tier :: "latency_tier \<Rightarrow> string" where
  "debug_tier t = (case t of Lan \<Rightarrow> ''Lan'' | Continent \<Rightarrow> ''Continent'' | Wan \<Rightarrow> ''Wan'')"

definition identity_section :: "doctor_env \<Rightarrow> string list \<times> string list" where
  "identity_section E =
     (let p = identity_path (do_host E)
      in if exists_at p (do_disk E) then ([ok_or_warn ''peer identity'' (''loaded from '' @ do_show E p) True], [])
         else ([ok_or_warn ''peer identity'' (''not yet generated '' @ em_dash @ '' run `intelnav init`'') False],
               [''run `intelnav init` to generate a peer identity'']))"

definition backend_lines :: "backend_check \<Rightarrow> string list" where
  "backend_lines b =
     (case bc_status b of
        Available \<Rightarrow> [good (pad_right 7 (bc_tag b) @ '' libs available'')]
      | Missing reason hint \<Rightarrow>
          (''      '' @ esc ''33'' @ cross_mark @ esc ''0'' @ '' '' @ pad_right 7 (bc_tag b) @ '' '' @ reason) #
          (case hint of Some h \<Rightarrow> [''          hint: '' @ h] | None \<Rightarrow> [])
      | NotApplicable \<Rightarrow> [])"

definition hardware_section :: "doctor_env \<Rightarrow> string list" where
  "hardware_section E =
     (let p = run_probe_collect (do_hardware E) (do_cpus E) (do_total E) (do_free E); gg = probe_collect (do_hardware E)
      in [ok_or_warn ''runtime'' (rp_summary p) True,
          ''      available: '' @ sep_by '', '' (rp_available p),
          ''      preferred: '' @ rp_recommended p,
          ok_or_warn ''ggml backend'' (''preferred: '' @ sep_by ('' '' @ arrow @ '' '') (gp_preferred gg)) True] @
         map (\<lambda>g. ''      GPU: '' @ dg_vendor g @ '' '' @ middle_dot @ '' '' @ dg_detail g) (gp_gpus gg) @
         concat (map backend_lines (gp_backends gg)))"

definition library_section :: "doctor_env \<Rightarrow> string list \<times> string list" where
  "library_section E =
     (case find_libllama (do_lib E) of
        Inl e \<Rightarrow>
          ([bad (''libllama not found: '' @ do_find_text E e)],
           [''download a libllama tarball from https://github.com/IntelNav/llama.cpp/releases and set INTELNAV_LIBLLAMA_DIR to its bin/ directory''])
      | Inr p \<Rightarrow>
          (case loader_open (do_linker E) (do_listing E (butlast p)) p of
             Inl e \<Rightarrow>
               ([good (''found '' @ do_show E p), bad (''dlopen failed: '' @ do_open_text E e)],
                [dlopen_hint (do_lower E) (do_open_text E e)])
           | Inr l \<Rightarrow>
               (let pre = [good (''found '' @ do_show E p),
                      good (''dlopen succeeded (loaded '' @ dec_digits (count_companions p (do_listing E (butlast p))) @ '' companion lib(s))'')]
                in case do_backends E of
                     None \<Rightarrow> (pre @ [good (''ggml backends loaded from '' @ do_show E (butlast (lo_loaded_from l)))], [])
                   | Some e \<Rightarrow>
                       (pre @ [bad (''backend_load_all failed: '' @ e)],
                        [''no ggml backends available '' @ em_dash @
                         '' check that `libggml-*.so` files ship alongside libllama.so in the same directory'']))))"

definition models_section :: "doctor_env \<Rightarrow> config \<Rightarrow> string list \<times> string list" where
  "models_section E cfg =
     (let scan = list_models (dk_files (do_disk E)) (cf_models_dir cfg); n = length (filter is_usable scan)
      in (ok_or_warn ''models_dir'' (do_show E (cf_models_dir cfg) @ '' ('' @ dec_digits n @ '' usable / '' @ dec_digits (length scan) @ '' total)'')
            (0 < n \<or> scan = []) #
          map (\<lambda>m. ''      '' @ (if is_usable m then middle_dot else ''!'') @ '' '' @ status_line m) scan,
          if n = 0 then [''drop a .gguf into '' @ do_show E (cf_models_dir cfg)] else []))"

definition verdict :: "string list \<Rightarrow> string list" where
  "verdict actions =
     (if actions = [] then [esc ''32'' @ ''All green.'' @ esc ''0'' @ '' You'' @ apostrophe @ ''re ready to run.'']
      else (esc ''33'' @ dec_digits (length actions) @ '' thing'' @ (if length actions = 1 then [] else ''s'') @ '' to fix, in order:'' @ esc ''0'') #
        map (\<lambda>(i, a). ''  '' @ dec_digits (i + 1) @ ''. '' @ a) (enumerate 0 actions))"

definition doctor_actions :: "doctor_env \<Rightarrow> config \<Rightarrow> string list" where
  "doctor_actions E cfg = snd (identity_section E) @ snd (library_section E) @ snd (models_section E cfg)"

definition doctor_lines :: "doctor_env \<Rightarrow> config \<Rightarrow> string list" where
  "doctor_lines E cfg =
     [do_banner E, ''IntelNav doctor '' @ em_dash @ '' preflight checks'', [],
      ok_or_warn ''config path'' (case config_path (ho_dirs (do_host E)) of Some p \<Rightarrow> do_show E p | None \<Rightarrow> ''<no XDG dir>'') True] @
     fst (identity_section E) @ [ok_or_warn ''mode'' (mode_str (cf_mode cfg)) True] @ hardware_section E @
     [[], ''  libllama load test''] @ fst (library_section E) @ fst (models_section E cfg) @
     [ok_or_warn ''default tier'' (debug_tier (cf_default_tier cfg)) True,
      ok_or_warn ''allow WAN'' (if cf_allow_wan cfg then ''true'' else ''false'') True, []] @
     verdict (doctor_actions E cfg)"

section \<open>What all green means\<close>

text \<open>
  The report ends in all green exactly when a prompt can be answered on this machine: the identity exists, the library
  is found and opens, its backends load, and some model of the models directory is usable.
\<close>

theorem doctor_green:
  "doctor_actions E cfg = [] \<longleftrightarrow>
    exists_at (identity_path (do_host E)) (do_disk E) \<and>
    (\<exists>p l. find_libllama (do_lib E) = Inr p \<and> loader_open (do_linker E) (do_listing E (butlast p)) p = Inr l) \<and>
    do_backends E = None \<and> pick_default (list_models (dk_files (do_disk E)) (cf_models_dir cfg)) \<noteq> None"
proof -
  have "snd (library_section E) = [] \<longleftrightarrow>
      (\<exists>p l. find_libllama (do_lib E) = Inr p \<and> loader_open (do_linker E) (do_listing E (butlast p)) p = Inr l) \<and> do_backends E = None"
  proof (cases "find_libllama (do_lib E)")
    case (Inr p)
    show ?thesis
      by (cases "loader_open (do_linker E) (do_listing E (butlast p)) p"; cases "do_backends E") (simp_all add: library_section_def Inr Let_def)
  qed (simp add: library_section_def)
  moreover have "snd (models_section E cfg) = [] \<longleftrightarrow> pick_default (list_models (dk_files (do_disk E)) (cf_models_dir cfg)) \<noteq> None"
    by (simp add: models_section_def Let_def pick_default_def min_by_size_None)
  moreover have "snd (identity_section E) = [] \<longleftrightarrow> exists_at (identity_path (do_host E)) (do_disk E)"
    by (simp add: identity_section_def Let_def)
  ultimately show ?thesis by (simp add: doctor_actions_def)
qed

text \<open>The number the report announces is the number of things it lists.\<close>

lemma verdict_counts: "actions \<noteq> [] \<Longrightarrow> length (verdict actions) = Suc (length actions)"
  by (simp add: verdict_def)

end
