(* ===== verification/Screen.thy ===== *)
theory Screen
  imports App_Keys Sampler
begin

text \<open>
  What the chat client draws: the palette and the shimmer (\<open>theme.rs\<close>, \<open>shimmer.rs\<close>), the picker
  (\<open>render\<close> in \<open>browser.rs\<close>) and the frame (\<open>draw\<close> and the \<open>render_*\<close> functions of \<open>tui/mod.rs\<close>, all in
  \<open>crates/app/src\<close>), as styled rows of text. The rows are what \<open>ratatui\<close> is given; its layout, the
  arithmetic and formatting of floats and the column widths of characters are parameters.
\<close>

section \<open>Palette\<close>

datatype colour = Rgb u8 u8 u8

record theme =
  th_text :: colour
  th_subtle :: colour
  th_inactive :: colour
  th_inverse :: colour
  th_you :: colour
  th_intel :: colour
  th_intel_lit :: colour
  th_sys :: colour
  th_success :: colour
  th_warning :: colour
  th_error :: colour
  th_suggestion :: colour
  th_border_active :: colour
  th_border_inactive :: colour
  th_mode_local :: colour
  th_mode_network :: colour
  th_mode_auto :: colour
  th_tag_local :: colour
  th_tag_network :: colour
  th_tag_install :: colour
  th_code_fg :: colour
  th_code_gutter :: colour

definition dark :: theme where
  "dark = \<lparr>
     th_text = Rgb 0xe6 0xe6 0xe6, th_subtle = Rgb 0x88 0x88 0x88, th_inactive = Rgb 0x55 0x55 0x55, th_inverse = Rgb 0 0 0,
     th_you = Rgb 0x7a 0xb4 0xe8, th_intel = Rgb 0xd9 0x77 0x57, th_intel_lit = Rgb 0xff 0xb0 0x89, th_sys = Rgb 0x80 0x80 0x80,
     th_success = Rgb 0x4e 0xba 0x65, th_warning = Rgb 0xff 0xc1 0x07, th_error = Rgb 0xff 0x6b 0x80,
     th_suggestion = Rgb 0xb1 0xb9 0xf9,
     th_border_active = Rgb 0xd9 0x77 0x57, th_border_inactive = Rgb 0x88 0x88 0x88,
     th_mode_local = Rgb 0x4e 0xba 0x65, th_mode_network = Rgb 0x79 0xd5 0xe6, th_mode_auto = Rgb 0x88 0x88 0x88,
     th_tag_local = Rgb 0x4e 0xba 0x65, th_tag_network = Rgb 0x79 0xd5 0xe6, th_tag_install = Rgb 0xc8 0x8d 0xe8,
     th_code_fg = Rgb 0xe6 0xe6 0xe6, th_code_gutter = Rgb 0x55 0x55 0x55\<rparr>"

record style =
  sy_fg :: "colour option"
  sy_bold :: bool
  sy_italic :: bool
  sy_dim :: bool

definition plain_style :: style where
  "plain_style = \<lparr>sy_fg = None, sy_bold = False, sy_italic = False, sy_dim = False\<rparr>"

definition fg :: "colour \<Rightarrow> style" where
  "fg c = plain_style\<lparr>sy_fg := Some c\<rparr>"

definition subtle :: style where "subtle = fg (th_subtle dark)"
definition accent_bold :: style where "accent_bold = (fg (th_intel dark))\<lparr>sy_bold := True\<rparr>"

definition role_style :: "turn_role \<Rightarrow> style" where
  "role_style r =
     (case r of
        User \<Rightarrow> (fg (th_you dark))\<lparr>sy_bold := True\<rparr>
      | Assistant \<Rightarrow> (fg (th_intel dark))\<lparr>sy_bold := True\<rparr>
      | System \<Rightarrow> (fg (th_sys dark))\<lparr>sy_italic := True\<rparr>)"

definition body_style :: "turn_role \<Rightarrow> style" where
  "body_style r = (if r = System then (fg (th_subtle dark))\<lparr>sy_italic := True\<rparr> else fg (th_text dark))"

section \<open>Shimmer\<close>

text \<open>The float operations of the standard library, and the time since the client started in seconds.\<close>

record paint =
  pn_of_nat :: "nat \<Rightarrow> f32"
  pn_add :: "f32 \<Rightarrow> f32 \<Rightarrow> f32"
  pn_sub :: "f32 \<Rightarrow> f32 \<Rightarrow> f32"
  pn_mul :: "f32 \<Rightarrow> f32 \<Rightarrow> f32"
  pn_div :: "f32 \<Rightarrow> f32 \<Rightarrow> f32"
  pn_rem :: "f32 \<Rightarrow> f32 \<Rightarrow> f32"
  pn_rem_euclid :: "f32 \<Rightarrow> f32 \<Rightarrow> f32"
  pn_as_u8 :: "f32 \<Rightarrow> u8"
  pn_elapsed :: f32
  pn_as_f64 :: "u64 \<Rightarrow> f64"
  pn_div64 :: "f64 \<Rightarrow> f64 \<Rightarrow> f64"
  pn_mul64 :: "f64 \<Rightarrow> f64 \<Rightarrow> f64"
  pn_min64 :: "f64 \<Rightarrow> f64 \<Rightarrow> f64"
  pn_fixed :: "nat \<Rightarrow> f64 \<Rightarrow> string" \<comment> \<open>\<open>{:.n}\<close>\<close>

definition F32_HALF :: f32 where "F32_HALF = 0x3F000000"
definition F32_TWO :: f32 where "F32_TWO = 0x40000000"
definition F32_PERIOD :: f32 where "F32_PERIOD = 0x404CCCCD" \<comment> \<open>3.2\<close>
definition F64_HUNDRED :: f64 where "F64_HUNDRED = 0x4059000000000000"
definition F64_MIB :: f64 where "F64_MIB = 0x4130000000000000" \<comment> \<open>1024.0 * 1024.0\<close>

definition STOP_A :: colour where "STOP_A = Rgb 0xb4 0x54 0x2e"
definition STOP_B :: colour where "STOP_B = Rgb 0xd9 0x77 0x57"
definition STOP_C :: colour where "STOP_C = Rgb 0xff 0xb0 0x89"

definition lerp_byte :: "paint \<Rightarrow> f32 \<Rightarrow> u8 \<Rightarrow> u8 \<Rightarrow> u8" where
  "lerp_byte P t x y =
     (let fx = pn_of_nat P (unat x); fy = pn_of_nat P (unat y) in pn_as_u8 P (pn_add P fx (pn_mul P (pn_sub P fy fx) t)))"

definition lerp :: "paint \<Rightarrow> colour \<Rightarrow> colour \<Rightarrow> f32 \<Rightarrow> colour" where
  "lerp P a b t =
     (case (a, b) of (Rgb r1 g1 b1, Rgb r2 g2 b2) \<Rightarrow> Rgb (lerp_byte P t r1 r2) (lerp_byte P t g1 g2) (lerp_byte P t b1 b2))"

definition gradient :: "paint \<Rightarrow> f32 \<Rightarrow> colour" where
  "gradient P t =
     (let t = pn_rem_euclid P t F32_ONE;
          (a, b, l) = (if f32_gt F32_HALF t then (STOP_A, STOP_C, pn_mul P t F32_TWO)
                       else (STOP_C, STOP_A, pn_mul P (pn_sub P t F32_HALF) F32_TWO))
      in if f32_gt F32_HALF l then lerp P a STOP_B (pn_mul P l F32_TWO)
         else lerp P STOP_B b (pn_mul P (pn_sub P l F32_HALF) F32_TWO))"

definition char_color :: "paint \<Rightarrow> nat \<Rightarrow> nat \<Rightarrow> f32 \<Rightarrow> colour" where
  "char_color P i n phase =
     gradient P (pn_add P (if n = 0 then 0 else pn_div P (pn_of_nat P i) (pn_of_nat P (max n 1))) phase)"

definition phase_now :: "paint \<Rightarrow> f32" where
  "phase_now P = pn_rem P (pn_div P (pn_elapsed P) F32_PERIOD) F32_ONE"

section \<open>Rows and widgets\<close>

record text_span =
  sp_text :: utext
  sp_style :: style

type_synonym text_line = "text_span list"

definition styled :: "utext \<Rightarrow> style \<Rightarrow> text_span" where
  "styled t s = \<lparr>sp_text = t, sp_style = s\<rparr>"

definition raw :: "utext \<Rightarrow> text_span" where
  "raw t = styled t plain_style"

definition line_text :: "text_line \<Rightarrow> utext" where
  "line_text l = concat (map sp_text l)"

record rect =
  ra_x :: u16
  ra_y :: u16
  ra_width :: u16
  ra_height :: u16

datatype constraint = Exactly u16 | AtLeast u16

datatype borders = AllSides | BottomOnly

record block =
  bk_borders :: borders
  bk_border :: style
  bk_title :: text_line

record widget =
  wi_lines :: "text_line list"
  wi_block :: "block option"
  wi_scroll :: u16
  wi_wraps :: bool

definition para_of :: "text_line list \<Rightarrow> widget" where
  "para_of ls = \<lparr>wi_lines = ls, wi_block = None, wi_scroll = 0, wi_wraps = False\<rparr>"

definition framed :: "colour \<Rightarrow> text_span \<Rightarrow> widget \<Rightarrow> widget" where
  "framed c title w = w\<lparr>wi_block := Some \<lparr>bk_borders = AllSides, bk_border = fg c, bk_title = [title]\<rparr>\<rparr>"

text \<open>The characters of a string: its scalar values.\<close>

definition lead_len :: "nat \<Rightarrow> nat" where
  "lead_len b = (if b < 0x80 then 0 else if b < 0xE0 then 1 else if b < 0xF0 then 2 else 3)"

function unutf8 :: "string \<Rightarrow> utext" where
  "unutf8 [] = []"
| "unutf8 (a # s) =
     (let b = of_char a; n = lead_len b
      in foldl (\<lambda>v c. v * 64 + of_char c mod 64) (if n = 0 then b else b mod 2 ^ (6 - n)) (take n s) # unutf8 (drop n s))"
  by pat_completeness auto
termination
  by (relation "measure length") auto

text \<open>The characters of a text's UTF-8 are the text.\<close>

lemma unutf8_utf8: "\<forall>c \<in> set t. c < 0x110000 \<Longrightarrow> unutf8 (utf8 t) = t"
proof (induction t)
  case (Cons c t)
  define q p k where "q = c div 64" and "p = q div 64" and "k = p div 64"
  have d: "c div 4096 = p" "c div 262144 = k" by (simp_all add: q_def p_def k_def div_mult2_eq [symmetric])
  have m: "64 * q + c mod 64 = c" "64 * p + q mod 64 = q" "64 * k + p mod 64 = p" by (simp_all add: q_def p_def k_def)
  have back_up: "p * 64 + q mod 64 = q" "q * 64 + c mod 64 = c" "k * 64 + p mod 64 = p" using m by (simp_all add: mult.commute)
  have low: "(128 + x mod 64) mod 64 = x mod (64 :: nat)" for x using mod_mult_self1 [of "x mod 64" 2 64] by (simp add: add.commute)
  from Cons have IH: "unutf8 (utf8 t) = t" and c: "c < 0x110000" by simp_all
  consider "c < 0x80" | "0x80 \<le> c" "c < 0x800" | "0x800 \<le> c" "c < 0x10000" | "0x10000 \<le> c" by linarith
  then show ?case
  proof cases
    case 1
    then show ?thesis using IH by (simp add: utf8_def utf8_char_def lead_len_def Let_def)
  next
    case 2
    moreover have "q < 32" using 2 m(1) by linarith
    moreover from this have "(192 + q) mod 32 = q" using mod_mult_self1 [of q 6 32] by (simp add: add.commute)
    moreover have "q * 64 + c mod 64 = c" by (fact back_up)
    ultimately show ?thesis using IH by (simp add: utf8_def utf8_char_def lead_len_def Let_def low flip: q_def)
  next
    case 3
    moreover have "p < 16" using 3 m by linarith
    moreover from this have "(224 + p) mod 16 = p" using mod_mult_self1 [of p 14 16] by (simp add: add.commute)
    moreover have "(p * 64 + q mod 64) * 64 + c mod 64 = c" by (simp only: back_up)
    ultimately show ?thesis using IH by (simp add: utf8_def utf8_char_def lead_len_def Let_def d low flip: q_def)
  next
    case 4
    moreover have "k < 8" using c m by linarith
    moreover from this have "(240 + k) mod 8 = k" using mod_mult_self1 [of k 30 8] by (simp add: add.commute)
    moreover have "((k * 64 + p mod 64) * 64 + q mod 64) * 64 + c mod 64 = c" by (simp only: back_up)
    ultimately show ?thesis using IH c by (simp add: utf8_def utf8_char_def lead_len_def Let_def d low flip: q_def)
  qed
qed simp

definition upad :: "nat \<Rightarrow> utext \<Rightarrow> utext" where
  "upad n t = t @ replicate (n - length t) 0x20"

text \<open>Literals.\<close>

definition POINTER :: nat where "POINTER = 0x203A"
definition BULLET :: utext where "BULLET = [0xB7, 0x20]"
definition UP_DOWN :: utext where "UP_DOWN = [0x20, 0x20, 0x2191, 0x2F, 0x2193]"
definition RETURN_SIGN :: nat where "RETURN_SIGN = 0x21B5"

section \<open>The transcript\<close>

definition role_tag :: "turn_role \<Rightarrow> utext" where
  "role_tag r = ascii (case r of User \<Rightarrow> ''you  '' | Assistant \<Rightarrow> ''intel'' | System \<Rightarrow> ''sys  '')"

definition CODE_BAR :: utext where "CODE_BAR = [0x2502, 0x20]"

text \<open>The start of a code row that has at most so many columns, \<open>w\<close> being used.\<close>

fun take_cols :: "(nat \<Rightarrow> nat) \<Rightarrow> nat \<Rightarrow> nat \<Rightarrow> utext \<Rightarrow> utext" where
  "take_cols cw limit w [] = []"
| "take_cols cw limit w (c # t) = (if limit < w + cw c then [] else c # take_cols cw limit (w + cw c) t)"

definition row_bodies :: "(nat \<Rightarrow> nat) \<Rightarrow> nat \<Rightarrow> turn_role \<Rightarrow> segment \<Rightarrow> text_line list" where
  "row_bodies cw inner role seg =
     (case seg of
        Prose body \<Rightarrow>
          map (\<lambda>row. [styled row (body_style role)]) (concat (map (\<lambda>p. wrap_visual cw p inner) (split_nl body)))
      | Code _ body \<Rightarrow>
          map (\<lambda>l. [styled CODE_BAR (fg (th_code_gutter dark)), styled (take_cols cw (inner - 2) 0 l) (fg (th_code_fg dark))])
            (split_nl body))"

definition with_gutter :: "text_span \<Rightarrow> text_line list \<Rightarrow> text_line list" where
  "with_gutter tag bodies =
     (case bodies of
        [] \<Rightarrow> []
      | b # bs \<Rightarrow> (tag # raw [0x20] # b) # map (\<lambda>b. raw (replicate 5 0x20) # raw [0x20] # b) bs)"

definition turn_lines :: "(nat \<Rightarrow> nat) \<Rightarrow> nat \<Rightarrow> ui_turn \<Rightarrow> text_line list" where
  "turn_lines cw inner t =
     with_gutter (styled (role_tag (tn_role t)) (role_style (tn_role t)))
       (concat (map (row_bodies cw inner (tn_role t)) (split_code_fences (unutf8 (tn_content t)))))"

definition TAIL_LEN :: nat where "TAIL_LEN = 10"
definition STREAM_CURSOR :: utext where "STREAM_CURSOR = [0x258D]"

text \<open>A colour for each character.\<close>

definition glow :: "paint \<Rightarrow> nat \<Rightarrow> f32 \<Rightarrow> utext \<Rightarrow> text_line" where
  "glow P n phase t = map (\<lambda>(i, c). styled [c] (fg (char_color P i n phase))) (List.enumerate 0 t)"

definition shimmer_line :: "paint \<Rightarrow> f32 \<Rightarrow> text_line \<Rightarrow> text_line" where
  "shimmer_line P phase l =
     (if l = [] then []
      else let t = sp_text (last l); n = length t; tail = drop (n - TAIL_LEN) t
           in butlast l @
              (if TAIL_LEN < n
               then styled (take (n - TAIL_LEN) t) (sp_style (last l)) # glow P (max (length tail) 1) phase tail
               else glow P (max n 1) phase t))
     @ [styled STREAM_CURSOR (fg (char_color P 0 1 phase))]"

definition shimmer_last :: "paint \<Rightarrow> f32 \<Rightarrow> text_line list \<Rightarrow> text_line list" where
  "shimmer_last P phase ls = (if ls = [] then [] else butlast ls @ [shimmer_line P phase (last ls)])"

text \<open>The turn that is still open, when a reply is streaming.\<close>

definition streaming_idx :: "'m app \<Rightarrow> nat option" where
  "streaming_idx a =
     (if ap_streaming a = None then None
      else List.find (\<lambda>i. tn_role (ap_history a ! i) = Assistant \<and> \<not> tn_complete (ap_history a ! i))
             (rev [0..<length (ap_history a)]))"

definition add_turn :: "paint \<Rightarrow> f32 \<Rightarrow> (nat \<Rightarrow> nat) \<Rightarrow> nat \<Rightarrow> nat option \<Rightarrow> nat \<times> ui_turn \<Rightarrow> text_line list \<Rightarrow> text_line list" where
  "add_turn P phase cw inner si x acc =
     (let ls = acc @ turn_lines cw inner (snd x)
      in (if si = Some (fst x) then shimmer_last P phase ls else ls) @ [[]])"

definition transcript_lines :: "paint \<Rightarrow> (nat \<Rightarrow> nat) \<Rightarrow> nat \<Rightarrow> nat option \<Rightarrow> ui_turn list \<Rightarrow> text_line list" where
  "transcript_lines P cw inner si h = fold (add_turn P (phase_now P) cw inner si) (List.enumerate 0 h) []"

definition transcript_width :: "u16 \<Rightarrow> nat" where
  "transcript_width w = unat (max (sat_sub w 7) 10)"

definition conversation :: "paint \<Rightarrow> (nat \<Rightarrow> nat) \<Rightarrow> u16 \<Rightarrow> 'm app \<Rightarrow> text_line list" where
  "conversation P cw w a = transcript_lines P cw (transcript_width w) (streaming_idx a) (ap_history a)"

definition conversation_frame :: "paint \<Rightarrow> (nat \<Rightarrow> nat) \<Rightarrow> rect \<Rightarrow> u16 \<Rightarrow> 'm app \<Rightarrow> frame" where
  "conversation_frame P cw area w a =
     \<lparr>fr_width = w, fr_total = word_of_nat (length (conversation P cw (ra_width area) a)), fr_viewport = ra_height area\<rparr>"

definition render_conversation :: "paint \<Rightarrow> (nat \<Rightarrow> nat) \<Rightarrow> rect \<Rightarrow> 'm app \<Rightarrow> widget \<times> 'm app" where
  "render_conversation P cw area a =
     (let a1 = draw_conversation (conversation_frame P cw area (ra_width area) a) a
      in ((para_of (conversation P cw (ra_width area) a))\<lparr>wi_scroll := ap_scroll_off a1\<rparr>, a1))"

section \<open>The other parts of the frame\<close>

definition spaced :: "utext \<Rightarrow> style \<Rightarrow> text_span" where
  "spaced t s = styled (BULLET @ t @ [0x20]) s"

definition render_header :: "'m app \<Rightarrow> widget" where
  "render_header a =
     (let base =
        [styled (ascii ''  intelnav  '') accent_bold,
         spaced (ascii (mode_str (ap_mode a)))
           (fg (case ap_mode a of LocalMode \<Rightarrow> th_mode_local dark | Network \<Rightarrow> th_mode_network dark)),
         spaced (unutf8 (ap_model a)) subtle,
         spaced (unutf8 (ap_tier a)) subtle,
         spaced (ascii (''q='' @ dec_digits (unat (ap_quorum a)))) subtle,
         spaced (ascii ((if ap_allow_wan a then ''+'' else ''-'') @ ''wan''))
           (fg (if ap_allow_wan a then th_warning dark else th_inactive dark))];
          peers = (case cd_target (ap_chain a) of
             None \<Rightarrow> []
           | Some t \<Rightarrow> [spaced (ascii (dec_digits (length (ct_peers t)) @ ''p chain'')) (fg (th_mode_network dark))]);
          draft = (case cd_draft (ap_chain a) of
             None \<Rightarrow> []
           | Some d \<Rightarrow> [spaced (ascii (''spec k='' @ dec_digits (dt_k d))) (fg (th_mode_network dark))])
      in (para_of [])\<lparr>wi_block := Some \<lparr>bk_borders = BottomOnly, bk_border = plain_style, bk_title = base @ peers @ draft\<rparr>\<rparr>)"

definition doctor_row :: "string \<Rightarrow> text_span \<Rightarrow> text_line" where
  "doctor_row label v = [styled (upad 14 (ascii (''  '' @ label))) subtle, v]"

definition render_doctor :: "app_env \<Rightarrow> doctor_view \<Rightarrow> widget" where
  "render_doctor E d =
     (let value = (\<lambda>s. styled (unutf8 s) (fg (th_text dark)))
      in framed (th_border_inactive dark) (styled (ascii '' /doctor '') subtle)
           (para_of
             [[],
              [raw (ascii ''  ''), styled (ascii ''doctor'') accent_bold,
               styled ([0x20] @ BULLET @ ascii ''preflight snapshot'') subtle],
              [],
              doctor_row ''runtime'' (styled (unutf8 (dv_runtime d)) (fg (th_success dark))),
              doctor_row ''available'' (value (if dv_available d = [] then ''(none)'' else sep_by '', '' (dv_available d))),
              doctor_row ''preferred'' (value (dv_preferred d)),
              [],
              doctor_row ''mode'' (value (dv_mode d)),
              doctor_row ''model'' (value (dv_model d)),
              doctor_row ''models_dir'' (value (ae_path_text E (dv_models_dir d))),
              [],
              [styled (ascii ''  Esc '' @ BULLET @ [RETURN_SIGN, 0x20] @ BULLET @ ascii ''q  close'') (fg (th_inactive dark))]]))"

definition suggestion_row :: "bool \<Rightarrow> slash_cmd \<Rightarrow> text_line" where
  "suggestion_row sel c =
     [styled ([0x20, if sel then POINTER else 0x20, 0x20]) (fg (if sel then th_intel dark else th_inactive dark)),
      styled ([0x2F] @ upad 8 (ascii (sc_name c))) (if sel then accent_bold else fg (th_text dark))] @
     (if sc_args c = [] then [] else [raw [0x20], styled (ascii (sc_args c)) (fg (th_inactive dark))]) @
     [raw [0x20, 0x20], styled (ascii (sc_help c)) subtle]"

definition render_suggestions :: "slash_cmd list \<Rightarrow> nat \<Rightarrow> widget" where
  "render_suggestions items selected =
     framed (th_border_inactive dark) (styled (ascii '' commands '') subtle)
       (para_of (map (\<lambda>(i, c). suggestion_row (i = selected) c) (List.enumerate 0 items)))"

definition tag_colour :: "string \<Rightarrow> colour" where
  "tag_colour t =
     (if t = ''local'' then th_tag_local dark else if t = ''swarm'' then th_tag_network dark
      else if t = ''hub'' then th_tag_install dark else th_subtle dark)"

definition browser_row :: "bool \<Rightarrow> source_row \<Rightarrow> text_line" where
  "browser_row sel r =
     [styled ([0x20, if sel then POINTER else 0x20, 0x20]) (fg (if sel then th_intel dark else th_inactive dark)),
      styled (upad 6 (ascii (row_tag r))) (fg (tag_colour (row_tag r))),
      raw [0x20, 0x20],
      styled (upad 36 (unutf8 (row_model r)))
        (if sel then accent_bold else if row_enabled r then fg (th_text dark) else (fg (th_inactive dark))\<lparr>sy_dim := True\<rparr>),
      raw [0x20, 0x20],
      styled (unutf8 (row_detail r)) (fg (if row_enabled r then th_subtle dark else th_inactive dark))]"

definition NO_MODELS :: utext where
  "NO_MODELS = ascii ''  no models visible '' @ [0x2014] @
     ascii '' local cache empty, swarm has nothing yet, no catalog hits.''"

definition render_browser :: "browser_state \<Rightarrow> widget" where
  "render_browser s =
     (framed (th_border_active dark) (styled (ascii '' models '') ((fg (th_text dark))\<lparr>sy_bold := True\<rparr>))
       (para_of
         ([[styled (UP_DOWN @ ascii '' pick '' @ BULLET @ [RETURN_SIGN] @ ascii '' run '' @ BULLET @ ascii ''c contribute '' @
              BULLET @ ascii ''esc back'') (subtle\<lparr>sy_italic := True\<rparr>)],
           []] @
          (if br_rows s = [] then [[styled NO_MODELS subtle]] else []) @
          map (\<lambda>(i, r). browser_row (i = br_selected s) r) (List.enumerate 0 (br_rows s)))))\<lparr>wi_wraps := True\<rparr>"

text \<open>The input box, the place of the cursor when it is shown, and the width that is kept for the next keys.\<close>

definition render_input :: "(nat \<Rightarrow> nat) \<Rightarrow> rect \<Rightarrow> 'm app \<Rightarrow> widget \<times> (u16 \<times> u16) option \<times> 'm app" where
  "render_input cw area a =
     (let busy = ap_streaming a \<noteq> None;
          inner_w = max (sat_sub (ra_width area) 4) 4;
          rows = input_visual_rows cw (ap_input a) (unat inner_w);
          (cursor_row, cursor_col) = cursor_visual_pos cw (ap_input a) (ap_cursor a) (unat inner_w);
          scroll = input_scroll_for_cursor cursor_row (sat_sub (ra_height area) 2);
          gutter = (\<lambda>i. if i = 0 then styled [0x25B8, 0x20] (fg (th_intel dark)) else raw [0x20, 0x20]);
          title = (if busy then ascii '' streaming '' @ [0x2014] @ ascii '' Esc to cancel '' else ascii '' ask intelnav '');
          w = framed (if ap_input a = [] \<and> \<not> busy then th_border_inactive dark else th_border_active dark) (styled title subtle)
                (para_of (map (\<lambda>(i, r). [gutter i, styled r (fg (th_text dark))]) (List.enumerate 0 rows)));
          x = min (ra_x area + 1 + 2 + cursor_col) (ra_x area + sat_sub (ra_width area) 2);
          y = min (ra_y area + 1 + sat_sub cursor_row scroll) (ra_y area + sat_sub (ra_height area) 2)
      in (w\<lparr>wi_scroll := scroll\<rparr>, if busy then None else Some (x, y), a\<lparr>ap_last_input_inner_w := inner_w\<rparr>))"

definition progress_text :: "paint \<Rightarrow> dl_progress \<Rightarrow> utext" where
  "progress_text P p =
     (let speed = ascii (pn_fixed P 1 (pn_div64 P (dp_bps p) F64_MIB) @ '' MB/s  '');
          head = [0x20, 0x20, 0x21E3, 0x20] @ unutf8 (dp_label p) @ [0x20] @ BULLET
      in case dp_total p of
           Some t \<Rightarrow>
             let pct = (if 0 < t then pn_min64 P (pn_mul64 P (pn_div64 P (pn_as_f64 P (dp_done p)) (pn_as_f64 P t)) F64_HUNDRED) F64_HUNDRED
                        else 0)
             in head @ ascii (pn_fixed P 0 pct @ ''% ('' @ human_bytes (dp_done p) @ '' / '' @ human_bytes t @ '') '') @ BULLET @ speed
         | None \<Rightarrow> head @ ascii (human_bytes (dp_done p) @ '' '') @ BULLET @ speed)"

definition shimmered :: "paint \<Rightarrow> utext \<Rightarrow> widget" where
  "shimmered P t = para_of [glow P (length t) (phase_now P) t]"

definition render_status :: "paint \<Rightarrow> nat \<Rightarrow> 'm app \<Rightarrow> widget" where
  "render_status P now a =
     (case ap_dl_progress a of
        Some p \<Rightarrow> shimmered P (progress_text P p)
      | None \<Rightarrow>
          if armed now EXIT_WINDOW (ap_exit_pending a)
          then para_of [[styled (ascii ''  press ctrl+c again to exit  '') ((fg (th_warning dark))\<lparr>sy_bold := True\<rparr>)]]
          else (case ap_view a of
            BrowserView _ \<Rightarrow>
              para_of [[styled (UP_DOWN @ ascii '' pick '' @ BULLET @ [RETURN_SIGN] @ ascii '' select '' @ BULLET @
                ascii ''esc back  '') subtle]]
          | Doctor _ \<Rightarrow>
              para_of [[styled (ascii ''  esc '' @ BULLET @ [RETURN_SIGN, 0x20] @ BULLET @ ascii ''q  close  '') subtle]]
          | Chat \<Rightarrow>
              if ap_streaming a \<noteq> None
              then shimmered P ([0x20, 0x20, 0x25B8] @ ascii '' streaming'' @ [0x2026] @ ascii '' press Esc to cancel  '')
              else para_of [[styled ([0x20, 0x20, RETURN_SIGN] @ ascii '' send '' @ BULLET @ ascii ''shift+'' @ [RETURN_SIGN] @
                ascii '' newline '' @ BULLET @ ascii ''/models '' @ BULLET @ ascii ''/help '' @ BULLET @ ascii ''ctrl+c quit  '') subtle]]))"

section \<open>A frame\<close>

text \<open>
  \<open>split\<close> is the layout of \<open>ratatui\<close>: the rectangles, from top to bottom, for a list of constraints. The frame
  gives the widgets in their rectangles, the cursor, and the state the loop goes on with.
\<close>

type_synonym split_rows = "constraint list \<Rightarrow> rect \<Rightarrow> rect list"

definition clamp_sugg :: "'m app \<Rightarrow> 'm app" where
  "clamp_sugg a = (if suggestions a \<noteq> [] \<and> length (suggestions a) \<le> ap_sugg_idx a then a\<lparr>ap_sugg_idx := 0\<rparr> else a)"

definition shown_suggestions :: "'m app \<Rightarrow> slash_cmd list" where
  "shown_suggestions a = (if in_overlay a then [] else suggestions a)"

definition input_rows :: "(nat \<Rightarrow> nat) \<Rightarrow> rect \<Rightarrow> 'm app \<Rightarrow> u16" where
  "input_rows cw area a =
     (if in_overlay a then 0 else input_height_visual cw (ap_input a) (ra_width area) (max (ra_height area div 2) 3))"

definition row_heights :: "(nat \<Rightarrow> nat) \<Rightarrow> rect \<Rightarrow> 'm app \<Rightarrow> constraint list" where
  "row_heights cw area a =
     [Exactly 2, AtLeast 4] @
     (if shown_suggestions a = [] then [] else [Exactly (word_of_nat (length (shown_suggestions a)) + 2)]) @
     (if input_rows cw area a = 0 then [] else [Exactly (input_rows cw area a)]) @ [Exactly 1]"

definition render_body :: "app_env \<Rightarrow> paint \<Rightarrow> rect \<Rightarrow> 'm app \<Rightarrow> widget \<times> 'm app" where
  "render_body E P area a =
     (case ap_view a of
        BrowserView s \<Rightarrow> (render_browser s, a)
      | Doctor d \<Rightarrow> (render_doctor E d, a)
      | Chat \<Rightarrow> render_conversation P (ae_cw E) area a)"

definition draw_screen ::
  "app_env \<Rightarrow> paint \<Rightarrow> split_rows \<Rightarrow> rect \<Rightarrow> 'm app \<Rightarrow> ((rect \<times> widget) list \<times> (u16 \<times> u16) option) \<times> 'm app" where
  "draw_screen E P split area a =
     (let a1 = (if in_overlay a then a else clamp_sugg a);
          suggs = shown_suggestions a1;
          areas = split (row_heights (ae_cw E) area a1) area;
          header = render_header a1;
          (body, a2) = render_body E P (areas ! 1) a1;
          upper = [header, body] @ (if suggs = [] then [] else [render_suggestions suggs (ap_sugg_idx a2)]);
          (box, cursor, a3) =
            (if input_rows (ae_cw E) area a1 = 0 then ([], None, a2)
             else map_prod (\<lambda>w. [w]) id (render_input (ae_cw E) (areas ! length upper) a2))
      in ((zip areas (upper @ box @ [render_status P (ae_now E) a3]), cursor), a3))"

lemma input_rows_pos: "\<not> in_overlay a \<Longrightarrow> input_rows cw area a \<noteq> 0"
proof
  assume "\<not> in_overlay a" "input_rows cw area a = 0"
  then have "(3::u16) \<le> 0"
    by (metis input_rows_def input_height_visual_def max.cobounded2 min_def)
  then show False by simp
qed

text \<open>
  A frame changes the state as the main loop's model has it (\<open>draw\<close>): what it changes depends on the screen only
  through the height of the transcript's rectangle, the number of its rows and the width of the input box.
\<close>

definition frame_at :: "app_env \<Rightarrow> paint \<Rightarrow> split_rows \<Rightarrow> rect \<Rightarrow> 'm app \<Rightarrow> frame" where
  "frame_at E P split area a =
     (let areas = split (row_heights (ae_cw E) area a) area
      in conversation_frame P (ae_cw E) (areas ! 1) (ra_width (areas ! (2 + (if suggestions a = [] then 0 else 1)))) a)"

lemma render_input_state:
  "snd (snd (render_input cw area a)) = a\<lparr>ap_last_input_inner_w := max (sat_sub (ra_width area) 4) 4\<rparr>"
  by (simp add: render_input_def Let_def case_prod_unfold)

lemma render_conversation_state:
  "snd (render_conversation P cw area a) = draw_conversation (conversation_frame P cw area (ra_width area) a) a"
  by (simp add: render_conversation_def Let_def)

lemma draw_screen_state:
  "snd (draw_screen E P split area a) =
     (let a1 = (if in_overlay a then a else clamp_sugg a);
          areas = split (row_heights (ae_cw E) area a1) area;
          a2 = snd (render_body E P (areas ! 1) a1)
      in if input_rows (ae_cw E) area a1 = 0 then a2
         else snd (snd (render_input (ae_cw E) (areas ! (2 + (if shown_suggestions a1 = [] then 0 else 1))) a2)))"
  unfolding draw_screen_def Let_def case_prod_unfold fst_conv snd_conv by (simp only: snd_conv snd_map_prod if_distrib [of snd] id_apply
    length_append list.size if_distrib [of length] One_nat_def plus_nat.simps add_0_right add_Suc_right numeral_2_eq_2 if_cancel cong: if_cong)

lemma draw_screen_draw: "snd (draw_screen E P split area a) = draw (frame_at E P split area a) a"
proof (cases "in_overlay a")
  case True
  then have "snd (render_body E P r a) = a" for r
    by (cases "ap_view a") (simp_all add: in_overlay_def render_body_def)
  moreover have "input_rows (ae_cw E) area a = 0" using True by (simp add: input_rows_def)
  ultimately show ?thesis using True by (simp only: draw_screen_state draw_def Let_def if_True simp_thms)
next
  case False
  define a1 areas where "a1 = clamp_sugg a" and "areas = split (row_heights (ae_cw E) area a) area"
  have c: "in_overlay a1 = in_overlay a" "suggestions a1 = suggestions a" "ap_view a1 = ap_view a"
    "ap_input a1 = ap_input a" "ap_history a1 = ap_history a" "ap_streaming a1 = ap_streaming a"
    by (simp_all add: a1_def clamp_sugg_def in_overlay_def suggestions_def)
  have e: "row_heights cw area a1 = row_heights cw area a" "conversation P cw w a1 = conversation P cw w a"
    "input_rows cw area a1 = input_rows cw area a" "shown_suggestions a1 = suggestions a" for cw area w P
    using False by (simp_all add: row_heights_def shown_suggestions_def input_rows_def conversation_def streaming_idx_def c)
  have v: "ap_view a1 = Chat" using False by (simp add: in_overlay_def c)
  define k where "k = 2 + (if suggestions a = [] then 0 else 1 :: nat)"
  have b: "snd (render_body E P (areas ! 1) a1) = draw_conversation (conversation_frame P (ae_cw E) (areas ! 1) (ra_width (areas ! 1)) a1) a1"
    by (simp only: render_body_def v view.case render_conversation_state)
  have "snd (draw_screen E P split area a) = snd (snd (render_input (ae_cw E) (areas ! k) (snd (render_body E P (areas ! 1) a1))))"
    by (simp only: draw_screen_state False if_False Let_def a1_def [symmetric] e areas_def [symmetric] input_rows_pos [OF False] k_def [symmetric])
  also have "\<dots> = draw (frame_at E P split area a) a"
    unfolding render_input_state b draw_def frame_at_def Let_def areas_def [symmetric] k_def [symmetric] clamp_sugg_def [symmetric] a1_def [symmetric]
    using False by (simp only: if_False) (simp add: draw_conversation_def conversation_frame_def e)
  finally show ?thesis .
qed

section \<open>Every turn, in order\<close>

lemma split_code_fences_ne: "split_code_fences t \<noteq> []"
  by (simp add: split_code_fences_def Let_def)

lemma wrap_visual_ne: "wrap_visual cw t width \<noteq> []"
  by (simp add: wrap_visual_def Let_def)

lemma row_bodies_ne: "row_bodies cw inner role seg \<noteq> []"
proof (cases seg)
  case (Prose body)
  obtain p ps where "split_nl body = p # ps" by (cases "split_nl body") auto
  then show ?thesis using Prose by (simp add: row_bodies_def wrap_visual_ne)
qed (simp add: row_bodies_def)

lemma row_bodies_spans: "b \<in> set (row_bodies cw inner role seg) \<Longrightarrow> b \<noteq> []"
  by (auto simp: row_bodies_def split: segment.splits)

definition turn_bodies :: "(nat \<Rightarrow> nat) \<Rightarrow> nat \<Rightarrow> ui_turn \<Rightarrow> text_line list" where
  "turn_bodies cw inner t = concat (map (row_bodies cw inner (tn_role t)) (split_code_fences (unutf8 (tn_content t))))"

lemma turn_bodies_ne: "turn_bodies cw inner t \<noteq> []"
  using split_code_fences_ne [of "unutf8 (tn_content t)"]
  by (cases "split_code_fences (unutf8 (tn_content t))") (simp_all add: turn_bodies_def row_bodies_ne)

lemma turn_lines_bodies:
  obtains b bs where "turn_bodies cw inner t = b # bs"
    "turn_lines cw inner t = (styled (role_tag (tn_role t)) (role_style (tn_role t)) # raw [0x20] # b) #
       map (\<lambda>b. raw (replicate 5 0x20) # raw [0x20] # b) bs"
  using turn_bodies_ne [of cw inner t]
  by (cases "turn_bodies cw inner t") (auto simp: turn_lines_def with_gutter_def turn_bodies_def)

lemma turn_lines_ne: "turn_lines cw inner t \<noteq> []"
  by (rule turn_lines_bodies [of cw inner t]) simp

text \<open>The rows of one turn of the transcript.\<close>

definition turn_block :: "paint \<Rightarrow> (nat \<Rightarrow> nat) \<Rightarrow> nat \<Rightarrow> nat option \<Rightarrow> nat \<times> ui_turn \<Rightarrow> text_line list" where
  "turn_block P cw inner si x =
     (if si = Some (fst x) then shimmer_last P (phase_now P) (turn_lines cw inner (snd x)) else turn_lines cw inner (snd x))"

lemma shimmer_last_append: "ls \<noteq> [] \<Longrightarrow> shimmer_last P phase (acc @ ls) = acc @ shimmer_last P phase ls"
  by (simp add: shimmer_last_def butlast_append)

lemma transcript_blocks: "transcript_lines P cw inner si h = concat (map (\<lambda>x. turn_block P cw inner si x @ [[]]) (List.enumerate 0 h))"
proof -
  have "fold (add_turn P (phase_now P) cw inner si) xs acc = acc @ concat (map (\<lambda>x. turn_block P cw inner si x @ [[]]) xs)" for xs acc
    by (induction xs arbitrary: acc) (simp_all add: add_turn_def turn_block_def shimmer_last_append turn_lines_ne)
  then show ?thesis by (simp add: transcript_lines_def)
qed

text \<open>The shimmer adds the cursor and changes nothing of the text.\<close>

lemma glow_text: "line_text (glow P n phase t) = t"
proof -
  have "concat (map (sp_text \<circ> (\<lambda>(i, c). styled [c] (fg (char_color P i n phase)))) (List.enumerate k t)) = t" for k
    by (induction t arbitrary: k) (simp_all add: styled_def)
  then show ?thesis by (simp add: glow_def line_text_def)
qed

lemma line_text_simps [simp]: "line_text [] = []" "line_text (s # l) = sp_text s @ line_text l" "line_text (l @ l') = line_text l @ line_text l'"
  "sp_text (styled t y) = t" "sp_text (raw t) = t"
  by (simp_all add: line_text_def styled_def raw_def)

lemma shimmer_line_text: "line_text (shimmer_line P phase l) = line_text l @ STREAM_CURSOR"
proof (cases l rule: rev_cases)
  case (snoc l' b)
  then show ?thesis by (simp add: shimmer_line_def Let_def glow_text)
qed (simp add: shimmer_line_def)

lemma shimmer_last_text: "ls \<noteq> [] \<Longrightarrow>
  map line_text (shimmer_last P phase ls) = map line_text (butlast ls) @ [line_text (last ls) @ STREAM_CURSOR]"
  by (simp add: shimmer_last_def shimmer_line_text)

section \<open>Rows fit the screen\<close>

text \<open>What \<open>unicode-width\<close> says of the characters the client adds, and of any other.\<close>

definition columns_ok :: "(nat \<Rightarrow> nat) \<Rightarrow> bool" where
  "columns_ok cw \<longleftrightarrow> (\<forall>c. cw c \<le> 2) \<and> (\<forall>c. 0x20 \<le> c \<longrightarrow> c < 0x7F \<longrightarrow> cw c = 1) \<and> cw 0x09 \<le> 1 \<and> cw 0x2502 = 1 \<and> cw 0x258D = 1"

lemma columns_shown: "columns_ok cw \<Longrightarrow> row_width cw t \<le> row_width (shown cw) t"
  by (induction t) (auto simp: shown_def blank_def columns_ok_def)

lemma take_cols_width: "w \<le> limit \<Longrightarrow> w + row_width cw (take_cols cw limit w t) \<le> limit"
proof (induction t arbitrary: w)
  case (Cons c t)
  then show ?case using Cons.IH [of "w + cw c"] by (auto simp: add.assoc)
qed simp

lemma row_bodies_width:
  assumes "columns_ok cw" "2 \<le> inner" "b \<in> set (row_bodies cw inner role seg)"
  shows "row_width cw (line_text b) \<le> inner"
proof (cases seg)
  case (Prose body)
  then obtain p row where b: "b = [styled row (body_style role)]" "p \<in> set (split_nl body)" "row \<in> set (wrap_visual cw p inner)"
    using assms(3) by (auto simp: row_bodies_def)
  have "cw c \<le> 2" for c using assms(1) by (simp add: columns_ok_def)
  then have "\<forall>c \<in> set p. cw c \<le> inner" using assms(2) order_trans by blast
  then have "row_width (shown cw) row \<le> inner" using wrap_visual_fits [of inner p cw] assms(2) b(3) by simp
  then show ?thesis using columns_shown [OF assms(1), of row] b(1) by simp
next
  case (Code lang body)
  then obtain l where b: "b = [styled CODE_BAR (fg (th_code_gutter dark)), styled (take_cols cw (inner - 2) 0 l) (fg (th_code_fg dark))]"
    using assms(3) by (auto simp: row_bodies_def)
  have "row_width cw CODE_BAR = 2" using assms(1) by (simp add: CODE_BAR_def columns_ok_def)
  then show ?thesis using take_cols_width [of 0 "inner - 2" cw l] assms(2) by (simp add: b)
qed

lemma turn_lines_width:
  assumes "columns_ok cw" "2 \<le> inner" "l \<in> set (turn_lines cw inner t)"
  shows "row_width cw (line_text l) \<le> inner + 6"
proof -
  have asc: "row_width cw s = length s" if "\<forall>c \<in> set s. 0x20 \<le> c \<and> c < 0x7F" for s
    using that assms(1) by (induction s) (simp_all add: columns_ok_def)
  have tag: "row_width cw (role_tag r) = 5" "row_width cw (replicate 5 0x20) = 5" "row_width cw [0x20] = 1" for r
    by (subst asc; cases r; simp add: role_tag_def ascii_def)+
  obtain b bs where bb: "turn_bodies cw inner t = b # bs"
    "turn_lines cw inner t = (styled (role_tag (tn_role t)) (role_style (tn_role t)) # raw [0x20] # b) #
       map (\<lambda>b. raw (replicate 5 0x20) # raw [0x20] # b) bs"
    by (rule turn_lines_bodies)
  have "row_width cw (line_text x) \<le> inner" if "x \<in> set (b # bs)" for x
    using that row_bodies_width [OF assms(1,2)] unfolding bb(1) [symmetric] turn_bodies_def by auto
  then show ?thesis using assms(3) tag unfolding bb(2) by (auto simp: add.commute)
qed

text \<open>
  On a screen of 17 columns or more no row of the transcript is wider than the screen: with its gutter, and the
  cursor of a reply that is streaming, every wrapped or cut row fits, whatever the text.
\<close>

theorem rows_fit_screen:
  assumes "columns_ok cw" "17 \<le> unat w" "l \<in> set (conversation P cw w a)"
  shows "row_width cw (line_text l) \<le> unat w"
proof -
  define inner where "inner = transcript_width w"
  have "unat (sat_sub w 7) = unat w - 7" using assms(2) by (simp add: sat_sub_def word_le_nat_alt unat_sub)
  then have i: "inner + 7 = unat w" using assms(2) by (auto simp: inner_def transcript_width_def max_def word_le_nat_alt)
  obtain x where "l \<in> set (turn_block P cw inner (streaming_idx a) x @ [[]])"
    using assms(3) unfolding conversation_def transcript_blocks inner_def by (auto simp only: set_concat set_map)
  then consider "l = []" | "l \<in> set (turn_lines cw inner (snd x))" |
    "turn_lines cw inner (snd x) \<noteq> []" "l \<in> set (shimmer_last P (phase_now P) (turn_lines cw inner (snd x)))"
    using turn_lines_ne by (fastforce simp: turn_block_def split: if_splits)
  then show ?thesis
  proof cases
    case 3
    have "row_width cw STREAM_CURSOR = 1" using assms(1) by (simp add: STREAM_CURSOR_def columns_ok_def)
    moreover have "row_width cw (line_text (last (turn_lines cw inner (snd x)))) \<le> inner + 6"
      using turn_lines_width [OF assms(1), of inner _ "snd x"] last_in_set [OF 3(1)] i assms(2) by simp
    moreover have "l \<in> set (butlast (turn_lines cw inner (snd x))) \<or> l = shimmer_line P (phase_now P) (last (turn_lines cw inner (snd x)))"
      using 3 by (auto simp: shimmer_last_def)
    ultimately show ?thesis
      using turn_lines_width [OF assms(1) _ in_set_butlastD, of inner l "snd x"] i assms(2) by (auto simp: shimmer_line_text)
  next
    case 2
    then show ?thesis using turn_lines_width [OF assms(1), of inner l "snd x"] i assms(2) by simp
  qed simp
qed

section \<open>What is shown\<close>

lemma concat_split_nl: "concat (split_nl t) = filter (\<lambda>c. c \<noteq> NL) t"
proof (induction t)
  case (Cons c t)
  then show ?case using split_nl_ne [of t] by (cases "split_nl t") simp_all
qed simp

text \<open>The text of a row after its gutter.\<close>

definition body_text :: "text_line \<Rightarrow> utext" where
  "body_text l = line_text (drop 2 l)"

lemma body_text_shimmer:
  assumes "2 < length l"
  shows "body_text (shimmer_line P phase l) = body_text l @ STREAM_CURSOR"
proof -
  obtain a b l' where l: "l = a # b # l'" "l' \<noteq> []" using assms by (cases l; cases "tl l") auto
  then have "shimmer_line P phase l = a # b # shimmer_line P phase l'" by (simp add: shimmer_line_def Let_def)
  then show ?thesis by (simp add: body_text_def l(1) shimmer_line_text)
qed

lemma turn_lines_texts:
  "map body_text (turn_lines cw inner t) = map line_text (turn_bodies cw inner t) \<and> (\<forall>l \<in> set (turn_lines cw inner t). 2 < length l)"
proof -
  obtain b bs where bb: "turn_bodies cw inner t = b # bs"
    "turn_lines cw inner t = (styled (role_tag (tn_role t)) (role_style (tn_role t)) # raw [0x20] # b) #
       map (\<lambda>b. raw (replicate 5 0x20) # raw [0x20] # b) bs"
    by (rule turn_lines_bodies)
  have "x \<noteq> []" if "x \<in> set (b # bs)" for x
    using that unfolding bb(1) [symmetric] turn_bodies_def by (auto dest: row_bodies_spans)
  then show ?thesis by (auto simp: bb body_text_def)
qed

lemma prose_text:
  assumes "0 < inner" "\<forall>c. cw c \<le> inner"
  shows "solid (concat (map line_text (row_bodies cw inner role (Prose t)))) = solid (filter (\<lambda>c. c \<noteq> NL) t)"
proof -
  have s: "solid (concat ts) = concat (map solid ts)" for ts by (induction ts) simp_all
  have ss: "solid (concat (concat tss)) = concat (map (\<lambda>ts. solid (concat ts)) tss)" for tss by (induction tss) simp_all
  have "concat (map line_text (row_bodies cw inner role (Prose t))) = concat (concat (map (\<lambda>p. wrap_visual cw p inner) (split_nl t)))"
    by (simp add: row_bodies_def comp_def)
  also have "solid \<dots> = concat (map (\<lambda>p. solid (concat (wrap_visual cw p inner))) (split_nl t))"
    using ss [of "map (\<lambda>p. wrap_visual cw p inner) (split_nl t)"] by (simp add: comp_def)
  finally show ?thesis using wrap_visual_fits [of inner _ cw] assms by (simp add: s comp_def flip: concat_split_nl)
qed

text \<open>
  C39. The transcript shows every turn, in order, a blank row after each: the first row of a turn carries the tag of its
  role and, when the turn has no code block, its rows together hold every character of it but the spaces, the tabs
  and the line breaks; the turn that is streaming ends in the cursor, and the colours of its shimmer
  leave the text as it is.
\<close>

theorem transcript_complete:
  assumes "columns_ok cw"
  shows "\<exists>bs. conversation P cw w a = concat (map (\<lambda>b. b @ [[]]) bs) \<and> length bs = length (ap_history a) \<and>
    list_all2 (\<lambda>t b. b \<noteq> [] \<and> take 5 (line_text (hd b)) = role_tag (tn_role t)) (ap_history a) bs \<and>
    list_all2 (\<lambda>(i, t) b. split_code_fences (unutf8 (tn_content t)) \<noteq> [Prose (unutf8 (tn_content t))] \<or>
       solid (concat (map body_text b)) =
       solid (filter (\<lambda>c. c \<noteq> NL) (unutf8 (tn_content t))) @ (if streaming_idx a = Some i then STREAM_CURSOR else []))
      (List.enumerate 0 (ap_history a)) bs"
proof -
  define inner si where "inner = transcript_width w" and "si = streaming_idx a"
  have i: "10 \<le> inner" by (simp add: inner_def transcript_width_def max_def word_le_nat_alt)
  have cw: "cw c \<le> 2" for c using assms by (simp add: columns_ok_def)
  have tag: "length (role_tag r) = 5" for r by (cases r) (simp_all add: role_tag_def ascii_def)
  define bs where "bs = map (turn_block P cw inner si) (List.enumerate 0 (ap_history a))"
  have A: "turn_block P cw inner si x \<noteq> [] \<and> take 5 (line_text (hd (turn_block P cw inner si x))) = role_tag (tn_role (snd x))" for x
    by (rule turn_lines_bodies [of cw inner "snd x"])
      (auto simp: turn_block_def shimmer_last_def shimmer_line_text tag hd_append neq_Nil_conv)
  have B: "solid (concat (map body_text (turn_block P cw inner si x))) =
      solid (filter (\<lambda>c. c \<noteq> NL) (unutf8 (tn_content (snd x)))) @ (if si = Some (fst x) then STREAM_CURSOR else [])"
    if "split_code_fences (unutf8 (tn_content (snd x))) = [Prose (unutf8 (tn_content (snd x)))]" for x
  proof -
    have p: "solid (concat (map body_text (turn_lines cw inner (snd x)))) = solid (filter (\<lambda>c. c \<noteq> NL) (unutf8 (tn_content (snd x))))"
      using turn_lines_texts [of cw inner "snd x"] prose_text [of inner cw "tn_role (snd x)" "unutf8 (tn_content (snd x))"]
        that i order_trans [OF cw, of inner] by (simp add: turn_bodies_def)
    obtain ls l where t: "turn_lines cw inner (snd x) = ls @ [l]" using turn_lines_ne [of cw inner "snd x"] by (cases rule: rev_cases) auto
    have "2 < length l" using turn_lines_texts [of cw inner "snd x"] t by simp
    then show ?thesis using p by (simp add: turn_block_def shimmer_last_def t body_text_shimmer STREAM_CURSOR_def blank_def flip: append_assoc)
  qed
  have "conversation P cw w a = concat (map (\<lambda>b. b @ [[]]) bs)"
    by (simp add: conversation_def transcript_blocks bs_def inner_def si_def comp_def)
  moreover have "length bs = length (ap_history a)" by (simp add: bs_def)
  moreover have "list_all2 (\<lambda>t b. b \<noteq> [] \<and> take 5 (line_text (hd b)) = role_tag (tn_role t)) (ap_history a) bs"
    using A by (auto simp: bs_def list_all2_conv_all_nth nth_enumerate_eq)
  moreover have "list_all2 (\<lambda>(i, t) b. split_code_fences (unutf8 (tn_content t)) \<noteq> [Prose (unutf8 (tn_content t))] \<or>
       solid (concat (map body_text b)) =
       solid (filter (\<lambda>c. c \<noteq> NL) (unutf8 (tn_content t))) @ (if si = Some i then STREAM_CURSOR else []))
      (List.enumerate 0 (ap_history a)) bs"
    using B by (auto simp: bs_def list_all2_conv_all_nth nth_enumerate_eq)
  ultimately show ?thesis unfolding si_def by blast
qed

text \<open>
  A transcript that follows its tail shows it exactly while it has fewer than 65536 rows: the number of rows is
  kept in 16 bits, and in a longer transcript the view stays that many rows above the end.
\<close>

theorem tail_shown_iff:
  assumes "render_conversation P cw area a = (w, a1)" "ap_follow_tail a"
  shows "length (wi_lines w) \<le> unat (wi_scroll w) + unat (ra_height area) \<longleftrightarrow>
    length (conversation P cw (ra_width area) a) < 2 ^ 16"
proof -
  define n where "n = length (conversation P cw (ra_width area) a)"
  have m: "unat (word_of_nat n :: u16) = n mod 2 ^ 16" by (simp add: unat_of_nat)
  have w: "length (wi_lines w) = n" "wi_scroll w = sat_sub (word_of_nat n) (ra_height area)"
    using assms by (auto simp: render_conversation_def draw_conversation_def conversation_frame_def para_of_def n_def Let_def)
  have "unat (wi_scroll w) + unat (ra_height area) = max (n mod 2 ^ 16) (unat (ra_height area))"
    by (simp add: w(2) sat_sub_def word_le_nat_alt unat_sub m)
  moreover have "unat (ra_height area) < 2 ^ 16" by (rule unat_u16_less)
  moreover have "n mod 2 ^ 16 < 2 ^ 16" by simp
  moreover have "n < 2 ^ 16 \<Longrightarrow> n mod 2 ^ 16 = n" by simp
  ultimately show ?thesis unfolding w(1) n_def [symmetric] by linarith
qed

section \<open>Two transcripts\<close>

lemma turn_block_ne: "turn_block P cw inner si x \<noteq> []"
  by (simp add: turn_block_def shimmer_last_def turn_lines_ne)

text \<open>Every turn takes two rows at least.\<close>

lemma conversation_length: "2 * length (ap_history a) \<le> length (conversation P cw w a)"
proof -
  have "2 * length xs \<le> length (concat (map (\<lambda>x. turn_block P cw inner si x @ [[]]) xs))" for inner si xs
  proof (induction xs)
    case (Cons x xs)
    then show ?case using turn_block_ne [of P cw inner si x] by (cases "turn_block P cw inner si x") auto
  qed simp
  from this [of "List.enumerate 0 (ap_history a)"] show ?thesis by (simp add: conversation_def transcript_blocks)
qed

definition demo_paint :: paint where
  "demo_paint = \<lparr>pn_of_nat = word_of_nat, pn_add = (+), pn_sub = (-), pn_mul = (*), pn_div = (div), pn_rem = (mod), pn_rem_euclid = (mod),
     pn_as_u8 = ucast, pn_elapsed = 0, pn_as_f64 = ucast, pn_div64 = (div), pn_mul64 = (*), pn_min64 = min, pn_fixed = (\<lambda>_ _. [])\<rparr>"

definition demo_talk :: "ui_turn list \<Rightarrow> unit app" where
  "demo_talk h = (app_new [] LocalMode chain_driver_new [] [] 1 False [])\<lparr>ap_history := h\<rparr>"

definition demo_area :: rect where
  "demo_area = \<lparr>ra_x = 0, ra_y = 2, ra_width = 17, ra_height = 5\<rparr>"

definition one_col :: "nat \<Rightarrow> nat" where "one_col c = (if c = 0x09 then 0 else 1)"

lemma one_col_ok: "columns_ok one_col"
  by (simp add: columns_ok_def one_col_def)

definition demo_turns :: "ui_turn list" where
  "demo_turns = [user_turn ''the quick brown fox'']"

lemma demo_rows: "map line_text (conversation demo_paint one_col 17 (demo_talk demo_turns)) =
    [ascii ''you   the quick '', ascii ''      brown fox'', []]"
  by code_simp

lemma rows_fit_screen_witness:
  "\<exists>l. l \<in> set (conversation demo_paint one_col 17 (demo_talk demo_turns)) \<and> line_text l = ascii ''you   the quick '' \<and>
    row_width one_col (line_text l) = 16 \<and> row_width one_col (line_text l) \<le> 17"
proof -
  have "ascii ''you   the quick '' \<in> set (map line_text (conversation demo_paint one_col 17 (demo_talk demo_turns)))"
    unfolding demo_rows by (rule list.set_intros)
  then obtain l where l: "l \<in> set (conversation demo_paint one_col 17 (demo_talk demo_turns))" "line_text l = ascii ''you   the quick ''"
    by (auto simp only: set_map)
  have "17 \<le> unat (17 :: u16)" "unat (17 :: u16) = 17" "row_width one_col (ascii ''you   the quick '') = 16" by code_simp+
  then show ?thesis using rows_fit_screen [OF one_col_ok _ l(1)] l by metis
qed

lemma transcript_complete_witness:
  "\<exists>b. conversation demo_paint one_col 17 (demo_talk demo_turns) = b @ [[]] \<and> take 5 (line_text (hd b)) = ascii ''you  '' \<and>
    solid (concat (map body_text b)) = ascii ''thequickbrownfox''"
proof -
  have h: "ap_history (demo_talk demo_turns) = [user_turn ''the quick brown fox'']" "streaming_idx (demo_talk demo_turns) = None"
    by (simp_all add: demo_talk_def demo_turns_def app_new_def streaming_idx_def)
  have s: "split_code_fences (unutf8 ''the quick brown fox'') = [Prose (unutf8 ''the quick brown fox'')]"
    "solid (filter (\<lambda>c. c \<noteq> NL) (unutf8 ''the quick brown fox'')) = ascii ''thequickbrownfox''"
    by code_simp+
  have t: "tn_content (user_turn x) = x" "tn_role (user_turn x) = User" for x by (simp_all add: user_turn_def)
  obtain bs where b: "conversation demo_paint one_col 17 (demo_talk demo_turns) = concat (map (\<lambda>b. b @ [[]]) bs)"
    "list_all2 (\<lambda>t b. b \<noteq> [] \<and> take 5 (line_text (hd b)) = role_tag (tn_role t)) [user_turn ''the quick brown fox''] bs"
    "list_all2 (\<lambda>(i, t) b. split_code_fences (unutf8 (tn_content t)) \<noteq> [Prose (unutf8 (tn_content t))] \<or>
       solid (concat (map body_text b)) = solid (filter (\<lambda>c. c \<noteq> NL) (unutf8 (tn_content t))) @ (if None = Some i then STREAM_CURSOR else []))
      [(0 :: nat, user_turn ''the quick brown fox'')] bs"
    using transcript_complete [OF one_col_ok, of demo_paint 17 "demo_talk demo_turns"] unfolding h enumerate_simps by (elim exE conjE) (rule that; assumption)
  from b(2) obtain x where x: "bs = [x]" by (auto simp only: list_all2_Cons1 list_all2_Nil)
  have "take 5 (line_text (hd x)) = role_tag User" using b(2) unfolding x by (simp only: list_all2_Cons t simp_thms list_all2_Nil)
  moreover have "solid (concat (map body_text x)) = ascii ''thequickbrownfox'' @ []"
    using b(3) unfolding x by (simp only: list_all2_Cons prod.case t s simp_thms list_all2_Nil option.distinct if_False)
  ultimately show ?thesis using b(1) unfolding x
    by (simp only: list.map concat.simps append_Nil2 role_tag_def turn_role.case) blast
qed

text \<open>A conversation of 32768 prompts is cut.\<close>

lemma tail_shown_iff_witness:
  "\<exists>w a1. render_conversation demo_paint one_col demo_area (demo_talk (replicate 32768 (user_turn ''hi''))) = (w, a1) \<and>
    unat (wi_scroll w) + unat (ra_height demo_area) < length (wi_lines w)"
proof -
  let ?a = "demo_talk (replicate 32768 (user_turn ''hi''))"
  obtain w a1 where r: "render_conversation demo_paint one_col demo_area ?a = (w, a1)" by (rule prod.exhaust)
  have "ap_follow_tail ?a" "length (ap_history ?a) = 32768" by (simp_all add: demo_talk_def app_new_def)
  moreover have "2 ^ 16 \<le> length (conversation demo_paint one_col (ra_width demo_area) ?a)"
    using conversation_length [of ?a demo_paint one_col "ra_width demo_area"] calculation(2) by simp
  ultimately show ?thesis using tail_shown_iff [OF r] r by (metis not_le)
qed

end
