(* ===== verification/Relay.thy ===== *)
theory Relay
  imports Cli
begin

text \<open>
  \<open>enable_relay_mode\<close> of \<open>crates/app/src/gate.rs\<close>: relaying is made permanent in the configuration file. The
  program itself does not call it; it is the crate's way past the gate for other front ends.
\<close>

datatype relay_error = RelayHost host_error | RelayConfig config_error

definition enable_relay_mode :: "main_env \<Rightarrow> disk \<Rightarrow> (relay_error + unit) \<times> disk" where
  "enable_relay_mode E d =
     (let H = mn_host E
      in case config_path (ho_dirs H) of
           None \<Rightarrow> (Inl (RelayHost NoConfigDir), d)
         | Some p \<Rightarrow>
             (case config_load (ho_cwd H) (ho_dirs H) (mn_toml E) (mn_vars E) (dk_files d) of
                Inl e \<Rightarrow> (Inl (RelayConfig e), d)
              | Inr cfg \<Rightarrow>
                  (case ho_toml H (cfg\<lparr>cf_relay_only := True\<rparr>) of
                     None \<Rightarrow> (Inl (RelayHost TomlFailed), d)
                   | Some toml \<Rightarrow>
                       (case write_at H p toml d of
                          (Inl e, d1) \<Rightarrow> (Inl (RelayHost e), d1)
                        | (Inr x, d1) \<Rightarrow> (Inr x, d1)))))"

text \<open>A setup leaves a configuration file that is there as it is.\<close>

lemma initialized_keeps_config:
  assumes "ensure_initialized H d = (Inr r, d')" "config_path (ho_dirs H) = Some p" "read_file (dk_files d) p = Some raw"
  shows "read_file (dk_files d') p = Some raw"
proof -
  from assms(1) [unfolded ensure_initialized_def assms(2)] obtain x c i m d1 d2 d3 where
    1: "create_dir_all H (butlast p) d = (Inr x, d1)" and 2: "ensure_config H p d1 = (Inr c, d2)"
    and 3: "ensure_identity H (identity_path H) d2 = (Inr i, d3)"
    and 4: "ensure_models_dir H (default_models_dir (ho_cwd H) (ho_dirs H)) d3 = (Inr m, d')"
    by (auto simp: dbind_Inr)
  have "dk_files d1 = dk_files d" using create_dir_facts [OF 1] by simp
  moreover from this have "d2 = d1" using 2 assms(3) by (simp add: ensure_config_def exists_at_def)
  moreover have "p \<noteq> identity_path H"
    using assms(2) by (auto simp: config_path_def identity_path_def join_def split: option.splits)
  then have "read_file (dk_files d3) p = read_file (dk_files d2) p"
    using ensure_identity_facts [OF 3] by (cases i) (auto simp: read_write_file)
  moreover have "dk_files d' = dk_files d3"
    using 4 create_dir_facts [of H _ d3 _ d'] by (auto simp: ensure_models_dir_def dbind_Inr split: if_splits)
  ultimately show ?thesis using assms(3) by simp
qed

lemma enable_relay_Inr:
  assumes "enable_relay_mode E d = (Inr x, d')"
  obtains p cfg toml where "config_path (ho_dirs (mn_host E)) = Some p"
    "config_load (ho_cwd (mn_host E)) (ho_dirs (mn_host E)) (mn_toml E) (mn_vars E) (dk_files d) = Inr cfg"
    "ho_toml (mn_host E) (cfg\<lparr>cf_relay_only := True\<rparr>) = Some toml" "dk_files d' = write_file p toml (dk_files d)"
  using assms by (auto simp: enable_relay_mode_def Let_def dest!: write_at_facts split: option.splits sum.splits prod.splits)

text \<open>
  Relay mode stays: once it has been enabled, the gate lets every later start through, as long as the variable
  \<open>INTELNAV_RELAY_ONLY\<close> does not say otherwise. What is written is the configuration with the
  environment laid over it: the file then holds the values the variables had, and keeps them when the variables
  are gone.
\<close>

theorem relay_persists:
  assumes "toml_ok (mn_host E) (mn_toml E)" "mn_vars E ''INTELNAV_RELAY_ONLY'' = None" "enable_relay_mode E d = (Inr x, d')"
    and "main_run E args d' = (r, d'', lib, gfx)"
  shows "(\<forall>ls. r \<noteq> GateBlocked ls) \<and>
    config_load (ho_cwd (mn_host E)) (ho_dirs (mn_host E)) (mn_toml E) (\<lambda>_. None) (dk_files d') =
    rbind (config_load (ho_cwd (mn_host E)) (ho_dirs (mn_host E)) (mn_toml E) (mn_vars E) (dk_files d))
      (\<lambda>cfg. Inr (cfg\<lparr>cf_relay_only := True\<rparr>))"
proof -
  obtain p cfg toml where p: "config_path (ho_dirs (mn_host E)) = Some p"
    and cfg: "config_load (ho_cwd (mn_host E)) (ho_dirs (mn_host E)) (mn_toml E) (mn_vars E) (dk_files d) = Inr cfg"
    and toml: "ho_toml (mn_host E) (cfg\<lparr>cf_relay_only := True\<rparr>) = Some toml" and w: "dk_files d' = write_file p toml (dk_files d)"
    by (rule enable_relay_Inr [OF assms(3)])
  have t: "utf8_valid toml" "mn_toml E toml = Inr (cfg\<lparr>cf_relay_only := True\<rparr>)" using assms(1) toml by (auto simp: toml_ok_def)
  have load: "config_load (ho_cwd (mn_host E)) (ho_dirs (mn_host E)) (mn_toml E) env fs =
      Inr (apply_env (ho_cwd (mn_host E)) env (cfg\<lparr>cf_relay_only := True\<rparr>))" if "read_file fs p = Some toml" for env fs
    using that t by (simp add: config_load_def p)
  have f: "read_file (dk_files d') p = Some toml" by (simp add: w read_write_file)
  have "r \<noteq> GateBlocked ls" for ls
  proof (cases "ensure_initialized (mn_host E) d'")
    case (Pair i d1)
    show ?thesis
    proof (cases i)
      case (Inr rep)
      have "read_file (dk_files d1) p = Some toml" using initialized_keeps_config [OF _ p f] Pair Inr by simp
      note L = load [OF this, of "mn_vars E"]
      have "cf_relay_only (apply_env (ho_cwd (mn_host E)) (mn_vars E) (cfg\<lparr>cf_relay_only := True\<rparr>))"
        by (simp add: env_relay_only assms(2))
      then show ?thesis using assms(4) Pair Inr L
        by (cases "ca_mode args")
          (auto simp: main_run_def Let_def check_gate_def dispatch_command_def split: if_splits option.splits command.splits)
    qed (use assms(4) Pair in \<open>auto simp: main_run_def\<close>)
  qed
  moreover have "apply_env (ho_cwd (mn_host E)) (\<lambda>_. None) c = c" for c
    by (simp add: apply_env_def env_rules_def)
  ultimately show ?thesis by (simp add: load [OF f] cfg)
qed

definition plain_cfg :: config where
  "plain_cfg = config_default [''d'', ''models'']"

definition cpu_relay :: config where
  "cpu_relay = plain_cfg\<lparr>cf_device := ''cpu'', cf_relay_only := True\<rparr>"

definition demo_relay :: main_env where
  "demo_relay = demo_main\<lparr>mn_host := demo_host\<lparr>ho_toml := \<lambda>c. if c = cpu_relay then Some [2] else None\<rparr>,
     mn_toml := \<lambda>bs. Inr (if bs = [2] then cpu_relay else plain_cfg),
     mn_vars := \<lambda>k. if k = ''INTELNAV_DEVICE'' then Some ''cpu'' else None\<rparr>"

text \<open>A variable that chose the device for one run is in the file ever after.\<close>

lemma relay_persists_witness:
  "\<exists>d' r d'' lib gfx. enable_relay_mode demo_relay demo_disk = (Inr (), d') \<and>
    config_load [] (ho_dirs demo_host) (mn_toml demo_relay) (\<lambda>_. None) (dk_files d') = Inr cpu_relay \<and>
    main_run demo_relay \<lparr>ca_config = None, ca_mode = None, ca_command = None\<rparr> d' = (r, d'', lib, gfx) \<and> r \<noteq> GateBlocked []"
proof -
  have f: "ho_dirs (mn_host demo_relay) = ho_dirs demo_host" "ho_cwd (mn_host demo_relay) = []" "ho_write (mn_host demo_relay) p"
    "ho_toml (mn_host demo_relay) c = (if c = cpu_relay then Some [2] else None)" for p c
    by (simp_all add: demo_relay_def demo_host_simps)
  have v: "mn_vars demo_relay k = (if k = ''INTELNAV_DEVICE'' then Some ''cpu'' else None)"
    "mn_toml demo_relay bs = Inr (if bs = [2] then cpu_relay else plain_cfg)" for k bs
    by (simp_all add: demo_relay_def)
  have t: "toml_ok (mn_host demo_relay) (mn_toml demo_relay)" by (simp add: toml_ok_def f v)
  have "apply_env [] (mn_vars demo_relay) plain_cfg = plain_cfg\<lparr>cf_device := ''cpu''\<rparr>"
    by (simp add: apply_env_def env_rules_def overlay_def v)
  moreover have "utf8_valid [1 :: byte]" by simp
  ultimately have load: "config_load [] (ho_dirs demo_host) (mn_toml demo_relay) (mn_vars demo_relay) (dk_files demo_disk) =
      Inr (plain_cfg\<lparr>cf_device := ''cpu''\<rparr>)"
    by (simp add: config_load_def config_path_def demo_host_simps demo_disk_def join_def read_file_def v)
  have cp: "config_path (ho_dirs demo_host) = Some [''c'', ''config.toml'']" by (simp add: config_path_def demo_host_simps join_def)
  have "plain_cfg\<lparr>cf_device := ''cpu'', cf_relay_only := True\<rparr> = cpu_relay" by (simp add: cpu_relay_def)
  then obtain d' where run: "enable_relay_mode demo_relay demo_disk = (Inr (), d')"
    by (simp add: enable_relay_mode_def Let_def f load write_at_def cp)
  obtain r d'' lib gfx where m: "main_run demo_relay \<lparr>ca_config = None, ca_mode = None, ca_command = None\<rparr> d' = (r, d'', lib, gfx)"
    by (metis prod.collapse)
  have "mn_vars demo_relay ''INTELNAV_RELAY_ONLY'' = None" by (simp add: v)
  from relay_persists [OF t this run m] show ?thesis
    using run m by (simp add: f load cpu_relay_def)
qed

end
