(* ===== verification/Llama.thy ===== *)
theory Llama
  imports Backend Ggml_Loader
begin

text \<open>
  Loading a model: \<open>Model\<close>, \<open>Context\<close>, \<open>Session\<close> and \<open>Vocab\<close> of \<open>crates/ggml/src/lib.rs\<close>, the constructor of
  the backend (\<open>crates/runtime/src/ggml_backend.rs\<close>) and of the model handle with its environment
  (\<open>crates/runtime/src/model.rs\<close>). The state is the log of the calls into libllama that allocate, use or free
  a model or a context there (the batch of a decode call, allocated before and freed by its \<open>Drop\<close> after it,
  is not in the log); what the library answers is a parameter that may depend on the log. A handle of the
  library is a number.
\<close>

section \<open>Calls into the library\<close>

datatype ffi =
    LoadBackends string
  | LoadBackendsDefault
  | TripAbort bool
  | ModelLoaded nat
  | ModelRead nat
  | ModelFreed nat
  | CtxCreated nat nat \<comment> \<open>the context and its model\<close>
  | CtxCalled nat
  | CtxFreed nat

record ctx_params =
  cp_n_ctx :: u32
  cp_n_batch :: u32
  cp_n_ubatch :: u32
  cp_n_seq_max :: u32

text \<open>A null pointer is \<open>None\<close>; \<open>nv_tokenize\<close> gives the returned code and the tokens written.\<close>

record native =
  nv_load :: "ffi list \<Rightarrow> string \<Rightarrow> u32 \<Rightarrow> nat option"
  nv_new_context :: "ffi list \<Rightarrow> nat \<Rightarrow> ctx_params \<Rightarrow> nat option"
  nv_n_embd :: "nat \<Rightarrow> u32"
  nv_n_layer :: "nat \<Rightarrow> u32"
  nv_n_tokens :: "nat \<Rightarrow> u32"
  nv_tokenize :: "nat \<Rightarrow> string \<Rightarrow> u32 \<Rightarrow> nat \<Rightarrow> bool \<Rightarrow> bool \<Rightarrow> u32 \<times> u32 list"

datatype load_error =
    NoLibrary default_error
  | NulInDir
  | NulInPath string
  | ModelNotLoaded string
  | NoContext
  | TokenizeFailed u32

type_synonym 'a native_call = "ffi list \<Rightarrow> (load_error + 'a) \<times> ffi list"

definition call_ffi :: "ffi \<Rightarrow> unit native_call" where
  "call_ffi c log = (Inr (), log @ [c])"

text \<open>\<open>CString::new\<close>\<close>

definition has_nul :: "string \<Rightarrow> bool" where
  "has_nul s \<longleftrightarrow> CHR 0x00 \<in> set s"

section \<open>Loading\<close>

text \<open>The loader of the process is there or is not; \<open>show\<close> is the text of a path.\<close>

definition backend_load_all :: "(path \<Rightarrow> string) \<Rightarrow> default_error + loader \<Rightarrow> unit native_call" where
  "backend_load_all show ldr =
     (case ldr of
        Inl e \<Rightarrow> slift (Inl (NoLibrary e))
      | Inr l \<Rightarrow>
          if lo_loaded_from l = [] then call_ffi LoadBackendsDefault
          else let dir = show (butlast (lo_loaded_from l))
               in if has_nul dir then slift (Inl NulInDir)
                  else sbind (call_ffi (LoadBackends dir)) (\<lambda>_. call_ffi LoadBackendsDefault))"

definition trip_abort :: "default_error + loader \<Rightarrow> bool \<Rightarrow> unit native_call" where
  "trip_abort ldr tripped = (case ldr of Inl e \<Rightarrow> slift (Inl (NoLibrary e)) | Inr _ \<Rightarrow> call_ffi (TripAbort tripped))"

definition model_load :: "native \<Rightarrow> string \<Rightarrow> u32 \<Rightarrow> nat native_call" where
  "model_load N file ngl log =
     (if has_nul file then (Inl (NulInPath file), log)
      else case nv_load N log file ngl of
             None \<Rightarrow> (Inl (ModelNotLoaded file), log)
           | Some m \<Rightarrow> (Inr m, log @ [ModelLoaded m]))"

definition context_new :: "native \<Rightarrow> nat \<Rightarrow> ctx_params \<Rightarrow> nat native_call" where
  "context_new N m cp log =
     (case nv_new_context N log m cp of
        None \<Rightarrow> (Inl NoContext, log)
      | Some c \<Rightarrow> (Inr c, log @ [CtxCreated c m]))"

record session_handle =
  sh_ctx :: "nat option"
  sh_model :: nat

text \<open>When there is no context, the model that was loaded is dropped with the error.\<close>

definition session_load :: "native \<Rightarrow> default_error + loader \<Rightarrow> string \<Rightarrow> ctx_params \<Rightarrow> u32 \<Rightarrow> session_handle native_call" where
  "session_load N ldr file cp ngl =
     (case ldr of
        Inl e \<Rightarrow> slift (Inl (NoLibrary e))
      | Inr _ \<Rightarrow>
          sbind (model_load N file ngl) (\<lambda>m log.
            case context_new N m cp log of
              (Inl e, log1) \<Rightarrow> (Inl e, log1 @ [ModelFreed m])
            | (Inr c, log1) \<Rightarrow> (Inr \<lparr>sh_ctx = Some c, sh_model = m\<rparr>, log1)))"

text \<open>The context is dropped before the fields, among them the model.\<close>

definition session_drop :: "session_handle \<Rightarrow> ffi list \<Rightarrow> ffi list" where
  "session_drop s log = (case sh_ctx s of Some c \<Rightarrow> log @ [CtxFreed c] | None \<Rightarrow> log) @ [ModelFreed (sh_model s)]"

text \<open>\<open>GgmlBackend::load\<close>: two sequences, and what the library says of the model.\<close>

definition gb_load :: "native \<Rightarrow> (path \<Rightarrow> string) \<Rightarrow> default_error + loader \<Rightarrow> string \<Rightarrow> u32 \<Rightarrow> u32 \<Rightarrow> u32 \<Rightarrow>
    (session_handle \<times> nat option ggml_backend) native_call" where
  "gb_load N show ldr file n_ctx n_batch ngl log =
     (let log1 = snd (backend_load_all show ldr log)
      in sbind (session_load N ldr file \<lparr>cp_n_ctx = n_ctx, cp_n_batch = n_batch, cp_n_ubatch = n_batch, cp_n_seq_max = 2\<rparr> ngl) (\<lambda>s.
         let m = sh_model s
         in sbind (call_ffi (ModelRead m)) (\<lambda>_. sbind (call_ffi (ModelRead m)) (\<lambda>_. sbind (call_ffi (ModelRead m)) (\<lambda>_.
              slift (Inr (s, \<lparr>be_ctx = sh_ctx s, be_n_embd = nv_n_embd N m, be_n_layer = nv_n_layer N m,
                              be_n_vocab = nv_n_tokens N m, be_n_ctx = n_ctx\<rparr>)))))) log1)"

section \<open>The environment\<close>

definition env_or :: "(string \<Rightarrow> string option) \<Rightarrow> (string \<Rightarrow> 'a option) \<Rightarrow> string \<Rightarrow> 'a \<Rightarrow> 'a" where
  "env_or vars parse key d = (case Option.bind (vars key) parse of Some v \<Rightarrow> v | None \<Rightarrow> d)"

definition parse_u32 :: "string \<Rightarrow> u32 option" where
  "parse_u32 s = map_option word_of_nat (parse_uint (2 ^ 32) s)"

definition parse_i32 :: "string \<Rightarrow> u32 option" where
  "parse_i32 s =
     (case s of
        CHR ''-'' # ds \<Rightarrow>
          (case ds of CHR ''+'' # _ \<Rightarrow> None
           | _ \<Rightarrow> map_option (\<lambda>n. - word_of_nat n) (parse_uint (2 ^ 31 + 1) ds))
      | _ \<Rightarrow> map_option word_of_nat (parse_uint (2 ^ 31) s))"

definition model_handle_load :: "native \<Rightarrow> (path \<Rightarrow> string) \<Rightarrow> default_error + loader \<Rightarrow> (string \<Rightarrow> string option) \<Rightarrow> string \<Rightarrow> device_pref \<Rightarrow>
    (session_handle \<times> nat option ggml_backend) native_call" where
  "model_handle_load N show ldr vars file pref =
     gb_load N show ldr file (env_or vars parse_u32 ''INTELNAV_NCTX'' 2048) (env_or vars parse_u32 ''INTELNAV_NBATCH'' 512)
       (env_or vars parse_i32 ''INTELNAV_NGL'' (n_gpu_layers pref))"

section \<open>Tokenizing\<close>

definition negative :: "u32 \<Rightarrow> bool" where
  "negative x \<longleftrightarrow> 2 ^ 31 \<le> unat x"

text \<open>A call without a buffer for the size, then one with it.\<close>

definition vocab_tokenize :: "native \<Rightarrow> nat \<Rightarrow> string \<Rightarrow> bool \<Rightarrow> bool \<Rightarrow> load_error + u32 list" where
  "vocab_tokenize N m text add_special parse_special =
     (let probe = nv_tokenize N m text (word_of_nat (length text));
          first = fst (probe 0 add_special parse_special);
          needed = (if negative first then - first else first)
      in if needed = 0 \<or> negative needed then Inr []
         else (case probe (unat needed) add_special parse_special of
            (written, toks) \<Rightarrow>
              if negative written then Inl (TokenizeFailed written)
              else Inr (take (unat written) (toks @ replicate (unat needed - length toks) 0))))"

section \<open>Who is alive\<close>

text \<open>
  What libllama asks of its callers, as a check of a log: a handle is used and freed only while it is alive, a
  context is made on a live model, and a model is freed after its contexts. \<open>None\<close> is a violation.
\<close>

record live =
  lv_models :: "nat set"
  lv_ctxs :: "(nat \<times> nat) set"

definition live_step :: "ffi \<Rightarrow> live \<Rightarrow> live option" where
  "live_step e lv =
     (case e of
        ModelLoaded m \<Rightarrow> if m \<in> lv_models lv then None else Some (lv\<lparr>lv_models := insert m (lv_models lv)\<rparr>)
      | ModelRead m \<Rightarrow> if m \<in> lv_models lv then Some lv else None
      | ModelFreed m \<Rightarrow>
          if m \<in> lv_models lv \<and> m \<notin> snd ` lv_ctxs lv then Some (lv\<lparr>lv_models := lv_models lv - {m}\<rparr>) else None
      | CtxCreated c m \<Rightarrow>
          if m \<in> lv_models lv \<and> c \<notin> fst ` lv_ctxs lv then Some (lv\<lparr>lv_ctxs := insert (c, m) (lv_ctxs lv)\<rparr>) else None
      | CtxCalled c \<Rightarrow> if c \<in> fst ` lv_ctxs lv then Some lv else None
      | CtxFreed c \<Rightarrow>
          if c \<in> fst ` lv_ctxs lv then Some (lv\<lparr>lv_ctxs := {x \<in> lv_ctxs lv. fst x \<noteq> c}\<rparr>) else None
      | _ \<Rightarrow> Some lv)"

definition ledger :: "ffi list \<Rightarrow> live option" where
  "ledger log = fold (\<lambda>e r. Option.bind r (live_step e)) log (Some \<lparr>lv_models = {}, lv_ctxs = {}\<rparr>)"

lemma ledger_Nil [simp]: "ledger [] = Some \<lparr>lv_models = {}, lv_ctxs = {}\<rparr>"
  and ledger_append [simp]: "ledger (log @ es) = fold (\<lambda>e r. Option.bind r (live_step e)) es (ledger log)"
  by (simp_all add: ledger_def)

text \<open>The library gives out handles that are not in use.\<close>

definition native_ok :: "native \<Rightarrow> bool" where
  "native_ok N \<longleftrightarrow>
     (\<forall>log file ngl m lv. nv_load N log file ngl = Some m \<longrightarrow> ledger log = Some lv \<longrightarrow> m \<notin> lv_models lv) \<and>
     (\<forall>log m cp c lv. nv_new_context N log m cp = Some c \<longrightarrow> ledger log = Some lv \<longrightarrow> c \<notin> fst ` lv_ctxs lv)"

section \<open>Sessions of a process\<close>

text \<open>What the owners of sessions do, in any order: open one, call its context, query its model, drop it.\<close>

datatype session_op =
    Open string u32 u32 u32
  | CallContext nat
  | ReadModel nat
  | Close nat

definition session_step :: "native \<Rightarrow> (path \<Rightarrow> string) \<Rightarrow> default_error + loader \<Rightarrow> session_op \<Rightarrow>
    session_handle list \<times> ffi list \<Rightarrow> session_handle list \<times> ffi list" where
  "session_step N show ldr op w =
     (case w of (ss, log) \<Rightarrow>
        (case op of
           Open file n_ctx n_batch ngl \<Rightarrow>
             (case gb_load N show ldr file n_ctx n_batch ngl log of
                (Inl e, log1) \<Rightarrow> (ss, log1)
              | (Inr (s, _), log1) \<Rightarrow> (ss @ [s], log1))
         | CallContext i \<Rightarrow>
             (ss, if i < length ss then (case sh_ctx (ss ! i) of Some c \<Rightarrow> log @ [CtxCalled c] | None \<Rightarrow> log) else log)
         | ReadModel i \<Rightarrow> (ss, if i < length ss then log @ [ModelRead (sh_model (ss ! i))] else log)
         | Close i \<Rightarrow>
             if i < length ss then (take i ss @ drop (Suc i) ss, session_drop (ss ! i) log) else (ss, log)))"

definition run_sessions :: "native \<Rightarrow> (path \<Rightarrow> string) \<Rightarrow> default_error + loader \<Rightarrow> session_op list \<Rightarrow> session_handle list \<times> ffi list" where
  "run_sessions N show ldr ops = fold (session_step N show ldr) ops ([], [])"

text \<open>The sessions own what is alive, each its own model and context.\<close>

definition owned :: "session_handle list \<Rightarrow> live option \<Rightarrow> bool" where
  "owned ss r \<longleftrightarrow>
     distinct (map sh_model ss) \<and> distinct (map sh_ctx ss) \<and> None \<notin> set (map sh_ctx ss) \<and>
     r = Some \<lparr>lv_models = set (map sh_model ss), lv_ctxs = set (map (\<lambda>s. (the (sh_ctx s), sh_model s)) ss)\<rparr>"

lemma ledger_quiet: "owned ss (ledger log) \<Longrightarrow> e \<in> {LoadBackends d, LoadBackendsDefault} \<Longrightarrow> owned ss (ledger (log @ [e]))"
  by (auto simp: owned_def live_step_def)

lemma owned_backends: "owned ss (ledger log) \<Longrightarrow> owned ss (ledger (snd (backend_load_all show ldr log)))"
  using ledger_quiet [of ss log _ "[]"] ledger_quiet [of ss log _ "show (butlast (lo_loaded_from (projr ldr)))"]
    ledger_quiet [of ss "log @ [LoadBackends (show (butlast (lo_loaded_from (projr ldr))))]" LoadBackendsDefault "[]"]
  by (cases ldr) (simp_all add: backend_load_all_def slift_def sbind_def call_ffi_def Let_def del: ledger_append)

lemma owned_open:
  assumes "native_ok N" "owned ss (ledger log)" "session_load N ldr file cp ngl log = (r, log1)"
  shows "case r of Inl e \<Rightarrow> owned ss (ledger log1) | Inr s \<Rightarrow> owned (ss @ [s]) (ledger log1)"
proof (cases "session_load N ldr file cp ngl log = (Inl (ModelNotLoaded file), log) \<or> (\<exists>e. session_load N ldr file cp ngl log = (Inl e, log))")
  case False
  then obtain m where m: "nv_load N log file ngl = Some m" "ldr \<noteq> Inl e" "\<not> has_nul file" for e
    by (cases ldr; cases "nv_load N log file ngl") (auto simp: session_load_def model_load_def slift_def sbind_def split: if_splits)
  from assms(2) have L: "ledger log = Some \<lparr>lv_models = set (map sh_model ss), lv_ctxs = set (map (\<lambda>s. (the (sh_ctx s), sh_model s)) ss)\<rparr>"
    by (simp add: owned_def)
  have fm: "m \<notin> set (map sh_model ss)" using assms(1) m(1) L by (fastforce simp: native_ok_def)
  let ?log = "log @ [ModelLoaded m]"
  have L1: "ledger ?log = Some \<lparr>lv_models = insert m (set (map sh_model ss)), lv_ctxs = set (map (\<lambda>s. (the (sh_ctx s), sh_model s)) ss)\<rparr>"
    using L fm by (simp add: live_step_def)
  have step: "ledger (?log @ [e]) = live_step e \<lparr>lv_models = insert m (set (map sh_model ss)),
      lv_ctxs = set (map (\<lambda>s. (the (sh_ctx s), sh_model s)) ss)\<rparr>" for e
    by (simp only: ledger_append [of ?log] L1 fold_simps bind.simps)
  have run: "session_load N ldr file cp ngl log =
      (case nv_new_context N ?log m cp of None \<Rightarrow> (Inl NoContext, ?log @ [ModelFreed m])
       | Some c \<Rightarrow> (Inr \<lparr>sh_ctx = Some c, sh_model = m\<rparr>, ?log @ [CtxCreated c m]))"
    using m by (cases ldr) (auto simp: session_load_def model_load_def sbind_def context_new_def split: option.splits)
  show ?thesis
  proof (cases "nv_new_context N ?log m cp")
    case None
    have "owned ss (ledger (?log @ [ModelFreed m]))"
      unfolding step using assms(2) fm by (auto simp: owned_def live_step_def)
    then show ?thesis using assms(3) run None by (auto simp del: ledger_append)
  next
    case (Some c)
    have fc: "c \<notin> fst ` set (map (\<lambda>s. (the (sh_ctx s), sh_model s)) ss)"
    proof -
      have "nv_new_context N l k p = Some d \<Longrightarrow> ledger l = Some lv \<Longrightarrow> d \<notin> fst ` lv_ctxs lv" for l k p d lv
        using assms(1) unfolding native_ok_def by blast
      from this [OF Some L1] show ?thesis by simp
    qed
    have sc: "Some c \<notin> set (map sh_ctx ss)"
    proof
      assume "Some c \<in> set (map sh_ctx ss)"
      then obtain s where s: "s \<in> set ss" "sh_ctx s = Some c" by auto
      from s(1) have "(the (sh_ctx s), sh_model s) \<in> set (map (\<lambda>s. (the (sh_ctx s), sh_model s)) ss)"
        unfolding set_map by (rule imageI)
      then have "fst (the (sh_ctx s), sh_model s) \<in> fst ` set (map (\<lambda>s. (the (sh_ctx s), sh_model s)) ss)" by (rule imageI)
      then show False using fc s(2) by simp
    qed
    then have "owned (ss @ [\<lparr>sh_ctx = Some c, sh_model = m\<rparr>]) (ledger (?log @ [CtxCreated c m]))"
      unfolding step using assms(2) fm fc by (simp add: owned_def live_step_def)
    then show ?thesis using assms(3) run Some by (auto simp del: ledger_append)
  qed
qed (use assms in auto)

lemma owned_read: "owned ss (ledger log) \<Longrightarrow> s \<in> set ss \<Longrightarrow> owned ss (ledger (log @ [ModelRead (sh_model s)]))"
  by (auto simp: owned_def live_step_def)

lemma owned_load:
  assumes "native_ok N" "owned ss (ledger log)" "gb_load N show ldr file n_ctx n_batch ngl log = (r, log1)"
  shows "case r of Inl e \<Rightarrow> owned ss (ledger log1) | Inr (s, b) \<Rightarrow> owned (ss @ [s]) (ledger log1)"
proof -
  let ?cp = "\<lparr>cp_n_ctx = n_ctx, cp_n_batch = n_batch, cp_n_ubatch = n_batch, cp_n_seq_max = 2\<rparr>"
  obtain q log2 where q: "session_load N ldr file ?cp ngl (snd (backend_load_all show ldr log)) = (q, log2)" by (metis prod.collapse)
  from owned_open [OF assms(1) owned_backends [OF assms(2)] q] show ?thesis
    using assms(3) q owned_read [of "ss @ [s]" _ s for s]
    by (cases q) (auto simp: gb_load_def Let_def sbind_def call_ffi_def slift_def owned_def live_step_def)
qed

lemma owned_close:
  assumes "owned ss (ledger log)" "i < length ss"
  shows "owned (take i ss @ drop (Suc i) ss) (ledger (session_drop (ss ! i) log))"
proof -
  define s as bs where "s = ss ! i" and "as = take i ss" and "bs = drop (Suc i) ss"
  have ss: "ss = as @ s # bs" unfolding s_def as_def bs_def by (rule id_take_nth_drop [OF assms(2)])
  have o: "distinct (map sh_model ss)" "distinct (map sh_ctx ss)" "None \<notin> set (map sh_ctx ss)"
    "ledger log = Some \<lparr>lv_models = set (map sh_model ss), lv_ctxs = set (map (\<lambda>s. (the (sh_ctx s), sh_model s)) ss)\<rparr>"
    using assms(1) by (simp_all add: owned_def)
  then obtain c where c: "sh_ctx s = Some c" using ss by (cases "sh_ctx s") auto
  have other: "the (sh_ctx t) \<noteq> c \<and> sh_model t \<noteq> sh_model s" if "t \<in> set (as @ bs)" for t
  proof -
    have "sh_ctx t \<noteq> sh_ctx s" "sh_model t \<noteq> sh_model s" using o(1,2) that unfolding ss by (auto simp: image_iff)
    moreover have "sh_ctx t \<noteq> None" using o(3) that unfolding ss by (metis Un_iff image_eqI list.set_map set_append set_ConsD list.set_intros(2))
    ultimately show ?thesis using c by auto
  qed
  then have others: "\<forall>t \<in> set (as @ bs). the (sh_ctx t) \<noteq> c \<and> sh_model t \<noteq> sh_model s" by blast
  then have "{x \<in> lv_ctxs (the (ledger log)). fst x \<noteq> c} = set (map (\<lambda>s. (the (sh_ctx s), sh_model s)) (as @ bs))"
    "set (map sh_model ss) - {sh_model s} = set (map sh_model (as @ bs))"
    using c others by (auto simp: o(4) ss)
  moreover have "sh_model s \<notin> snd ` set (map (\<lambda>s. (the (sh_ctx s), sh_model s)) (as @ bs))" using others by auto
  moreover have "c \<in> fst ` lv_ctxs (the (ledger log))" using c by (auto simp: o(4) ss image_iff)
  ultimately have "ledger (session_drop s log) =
      Some \<lparr>lv_models = set (map sh_model (as @ bs)), lv_ctxs = set (map (\<lambda>s. (the (sh_ctx s), sh_model s)) (as @ bs))\<rparr>"
    using ss by (simp add: session_drop_def c o(4) live_step_def)
  then show ?thesis using o(1,2,3) unfolding s_def [symmetric] as_def [symmetric] bs_def [symmetric] by (auto simp: owned_def ss)
qed

lemma owned_step:
  assumes "native_ok N" "owned (fst w) (ledger (snd w))"
  shows "owned (fst (session_step N show ldr op w)) (ledger (snd (session_step N show ldr op w)))"
proof -
  obtain ss log where w: "w = (ss, log)" by (rule prod.exhaust)
  then have o: "owned ss (ledger log)" using assms(2) by simp
  show ?thesis
  proof (cases op)
    case (Open f n_ctx n_batch ngl)
    obtain r log1 where r: "gb_load N show ldr f n_ctx n_batch ngl log = (r, log1)" by (rule prod.exhaust)
    from owned_load [OF assms(1) o r] show ?thesis by (cases r) (auto simp: session_step_def w Open r split: prod.splits)
  next
    case (CallContext i)
    moreover have "c \<in> (\<lambda>s. the (sh_ctx s)) ` set ss" if "i < length ss" "sh_ctx (ss ! i) = Some c" for c
      using that by (intro image_eqI [of _ _ "ss ! i"]) simp_all
    ultimately show ?thesis using o
      by (auto simp: session_step_def w owned_def live_step_def image_image split: option.splits)
  next
    case (ReadModel i)
    then show ?thesis using o owned_read [OF o, of "ss ! i"] by (simp add: session_step_def w del: ledger_append)
  next
    case (Close i)
    then show ?thesis using o owned_close [OF o, of i] by (simp add: session_step_def w)
  qed
qed

text \<open>
  C21. The handles of the library are used as it asks: whatever sessions a process opens, uses and drops, in any
  order and with loads that fail half way, no handle is used or freed after it was freed, no model is freed
  under a context, and what is alive is exactly what the open sessions own: nothing is leaked.
\<close>

theorem handles_owned:
  assumes "native_ok N" "run_sessions N show ldr ops = (ss, log)"
  shows "ledger log = Some \<lparr>lv_models = set (map sh_model ss), lv_ctxs = set (map (\<lambda>s. (the (sh_ctx s), sh_model s)) ss)\<rparr> \<and>
    distinct (map sh_model ss) \<and> distinct (map sh_ctx ss)"
proof -
  have "owned (fst (fold (session_step N show ldr) ops w)) (ledger (snd (fold (session_step N show ldr) ops w)))"
    if "owned (fst w) (ledger (snd w))" for w
    using that by (induction ops arbitrary: w) (simp_all add: owned_step [OF assms(1)])
  from this [of "([], [])"] show ?thesis using assms(2) by (simp add: run_sessions_def owned_def)
qed

text \<open>A process with two sessions, one of which does not get its context.\<close>

fun handle_of :: "ffi \<Rightarrow> nat" where
  "handle_of (ModelLoaded m) = m"
| "handle_of (CtxCreated c m) = c"
| "handle_of _ = 0"

definition demo_native :: native where
  "demo_native = \<lparr>nv_load = \<lambda>log file ngl. Some (Suc (sum_list (map handle_of log))),
     nv_new_context = \<lambda>log m cp. if cp_n_ctx cp = 0 then None else Some (Suc (sum_list (map handle_of log))),
     nv_n_embd = \<lambda>_. 4, nv_n_layer = \<lambda>_. 2, nv_n_tokens = \<lambda>_. 10,
     nv_tokenize = \<lambda>m text len cap a p. if length text \<le> cap then (word_of_nat (length text), map (word_of_nat \<circ> code) text)
       else (- word_of_nat (length text), [])\<rparr>"

lemma ledger_handles:
  "ledger log = Some lv \<Longrightarrow> (\<forall>m \<in> lv_models lv. m \<le> sum_list (map handle_of log)) \<and> (\<forall>c \<in> fst ` lv_ctxs lv. c \<le> sum_list (map handle_of log))"
proof (induction log arbitrary: lv rule: rev_induct)
  case (snoc e log)
  then obtain lv0 where lv0: "ledger log = Some lv0" "live_step e lv0 = Some lv" by (auto simp: bind_eq_Some_conv)
  from snoc.IH [OF lv0(1)] lv0(2) show ?case
    by (cases e) (fastforce simp: live_step_def split: if_splits)+
qed auto

lemma demo_native_ok: "native_ok demo_native"
  using ledger_handles by (fastforce simp: native_ok_def demo_native_def split: if_splits)

definition demo_ops :: "session_op list" where
  "demo_ops = [Open ''a'' 8 8 0, Open ''b'' 0 8 0, CallContext 0, Open ''c'' 8 8 0, Close 0]"

definition demo_loader :: loader where
  "demo_loader = \<lparr>lo_companions = [], lo_loaded_from = [''l'']\<rparr>"

lemma handles_owned_witness:
  "\<exists>log. run_sessions demo_native (\<lambda>_. ''d'') (Inr demo_loader) demo_ops = ([\<lparr>sh_ctx = Some 16, sh_model = 8\<rparr>], log) \<and>
    ledger log = Some \<lparr>lv_models = {8}, lv_ctxs = {(16, 8)}\<rparr>"
proof -
  obtain ss log where r: "run_sessions demo_native (\<lambda>_. ''d'') (Inr demo_loader) demo_ops = (ss, log)" by (rule prod.exhaust)
  have "fst (run_sessions demo_native (\<lambda>_. ''d'') (Inr demo_loader) demo_ops) = [\<lparr>sh_ctx = Some 16, sh_model = 8\<rparr>]" by code_simp
  then have "ss = [\<lparr>sh_ctx = Some 16, sh_model = 8\<rparr>]" using r by simp
  then show ?thesis using handles_owned [OF demo_native_ok r] r by simp
qed

section \<open>Tokenizing\<close>

text \<open>
  What the library documents of \<open>llama_tokenize\<close>: with room for them it writes the tokens and returns their
  number, without it returns the negated number and writes nothing.
\<close>

definition tokenizes :: "native \<Rightarrow> nat \<Rightarrow> string \<Rightarrow> bool \<Rightarrow> bool \<Rightarrow> u32 list \<Rightarrow> bool" where
  "tokenizes N m text a p ts \<longleftrightarrow>
     (\<forall>cap. nv_tokenize N m text (word_of_nat (length text)) cap a p =
        (if length ts \<le> cap then (word_of_nat (length ts), ts) else (- word_of_nat (length ts), [])))"

lemma small_u32: "n < 2 ^ 31 \<Longrightarrow> unat (word_of_nat n :: u32) = n"
  by (rule unat_of_nat_u32) simp

text \<open>
  Two calls are enough: whatever the text, the wrapper returns exactly the tokens, without an error and without the
  zeros its buffer was filled with.
\<close>

theorem tokenize_complete:
  assumes "tokenizes N m text a p ts" "length ts < 2 ^ 31"
  shows "vocab_tokenize N m text a p = Inr ts"
proof (cases "ts = []")
  case True
  then show ?thesis using assms(1) by (simp add: tokenizes_def vocab_tokenize_def Let_def negative_def)
next
  case False
  let ?n = "word_of_nat (length ts) :: u32"
  have n: "unat ?n = length ts" by (rule small_u32 [OF assms(2)])
  then have nz: "?n \<noteq> 0" using False by (metis length_0_conv unat_0)
  then have "unat (- ?n) = 2 ^ 32 - length ts" 
    using unat_sub_if' [of 0 ?n] n False by simp
  then have neg: "negative (- ?n)" "\<not> negative ?n" using assms(2) n by (simp_all add: negative_def)
  show ?thesis using assms(1) False nz neg n by (simp add: tokenizes_def vocab_tokenize_def Let_def)
qed

lemma tokenize_complete_witness: "vocab_tokenize demo_native 1 ''hi'' False False = Inr [104, 105]"
proof -
  have "tokenizes demo_native 1 ''hi'' False False [104, 105]" by (simp add: tokenizes_def demo_native_def code_def)
  from tokenize_complete [OF this] show ?thesis by simp
qed

text \<open>A text with too many tokens to count, for which the library returns the least number, has no tokens at all.\<close>

lemma tokenize_overflow_empty:
  "fst (nv_tokenize N m text (word_of_nat (length text)) 0 a p) = 0x80000000 \<Longrightarrow> vocab_tokenize N m text a p = Inr []"
  by (simp add: vocab_tokenize_def Let_def negative_def)

end
