(* ===== verification/Session_Id.thy ===== *)
theory Session_Id
  imports First_Run
begin

text \<open>
  Session identifiers (\<open>SessionId\<close> in \<open>crates/core/src/ids.rs\<close>): 32 bytes from the extensible output of
  BLAKE3 (a parameter) over the clock, the name of the thread and the length.
\<close>

text \<open>\<open>now\<close> is the time in nanoseconds since 1970 as a 128-bit number; 0 when the clock is before.\<close>

definition getrandom_fill :: "(bytes \<Rightarrow> nat \<Rightarrow> bytes) \<Rightarrow> nat option \<Rightarrow> string \<Rightarrow> nat \<Rightarrow> bytes" where
  "getrandom_fill xof now thread n =
     xof (le_bytes 16 (case now of Some t \<Rightarrow> t mod 2 ^ 128 | None \<Rightarrow> 0) @ str_bytes thread @ le_bytes 8 n) n"

definition session_random :: "(bytes \<Rightarrow> nat \<Rightarrow> bytes) \<Rightarrow> nat option \<Rightarrow> string \<Rightarrow> bytes" where
  "session_random xof now thread = getrandom_fill xof now thread 32"

definition session_display :: "bytes \<Rightarrow> string" where
  "session_display b = hex_encode (take 8 b)"

text \<open>What is shown of an identifier tells its first eight bytes, and nothing else of it.\<close>

lemma session_display_eq: "session_display a = session_display b \<longleftrightarrow> take 8 a = take 8 b"
  unfolding session_display_def by (metis hex_roundtrip option.inject)

end
