(* ===== verification/Spec2Isabelle.thy ===== *)
theory Spec2Isabelle
  imports Chunker Stitch Gate Base58 Forward_Server Spec Chain_Driver Backend Local Pull P2p_Fetch Net_Swarm Directory Metadata Download Startup Service Crypto Telemetry Doctor Screen Relay Llama Session_Id
begin

text \<open>
  IntelNav splits a language model over peers: each peer holds a range of transformer blocks, a client
  runs the first blocks and the head, and hidden states travel along a chain of TCP connections. This
  development models the Rust crates under \<open>src/crates\<close> as HOL functions and proves what makes them
  correct. It is written for a reader who has the repository open next to it.

  \<^bold>\<open>Parts of the program and their theories.\<close>

  Model files (\<open>crates/model-store\<close>):
  \<^item> \<open>Gguf\<close>: the GGUF parser, \<open>gguf.rs\<close>. \<open>gguf_open\<close>, \<open>kv_entries\<close>, \<open>tensors\<close>, \<open>tensor_bytes\<close> work on the bytes of
    the mapped file. \<open>Metadata\<close>: \<open>metadata.rs\<close>, the fields the picker shows.
  \<^item> \<open>Bundle\<close>: tensor classification, bundles, manifest and CIDs (\<open>bundle.rs\<close>, \<open>manifest.rs\<close>, \<open>cid.rs\<close>).
  \<^item> \<open>Chunker\<close>: \<open>chunker.rs\<close>, a model file to a directory of content-addressed chunks, and the verifier.
  \<^item> \<open>Stitch\<close>: \<open>stitch.rs\<close>, a layer range back to a GGUF file.
  \<^item> \<open>Fetch\<close>, \<open>Serve\<close>: \<open>http.rs\<close> and \<open>serve.rs\<close>, chunks over HTTP from both sides.
  \<^item> \<open>P2p\<close>, \<open>P2p_Fetch\<close>: \<open>p2p.rs\<close>, chunks from peers: the event loop of the swarm, and a fetch through it.

  The hosting side (\<open>crates/app\<close>, \<open>crates/net\<close>, \<open>crates/node\<close>):
  \<^item> \<open>Control\<close>: \<open>control.rs\<close>, the slice state machine with its chain guards and the request dispatcher; the
    relation \<open>cstep\<close> is one operation of any task, \<open>crun\<close> a run of them.
  \<^item> \<open>Contribute\<close>, \<open>Swarm_Node\<close>, \<open>Startup\<close>: \<open>contribute.rs\<close>, \<open>swarm_node.rs\<close> and \<open>bootstrap.rs\<close>, the sidecar
    files, the start of a host, the announce loop, the drain watchdog and the shutdown.
  \<^item> \<open>Dht\<close>, \<open>Net_Swarm\<close>, \<open>Directory\<close>: \<open>dht.rs\<close>, \<open>swarm_index.rs\<close>, \<open>swarm.rs\<close>, \<open>directory.rs\<close> and \<open>mdns.rs\<close>: what is
    announced, the task that talks to libp2p, and how a model's providers are found.
  \<^item> \<open>Forward_Server\<close>: \<open>forward_server.rs\<close>, the listener: every connection to its end, interleaved with the other tasks.
  \<^item> \<open>Pull\<close>: \<open>swarm_contribute.rs\<close>, a slice taken over from a peer.
  \<^item> \<open>Catalog\<close>, \<open>Gate\<close>, \<open>Relay\<close>: \<open>catalog.rs\<close>, \<open>gate.rs\<close>.
  \<^item> \<open>First_Run\<close>, \<open>Service\<close>: \<open>firstrun.rs\<close>, the identity of the node, and the unit of \<open>service/\<close>.

  The wire (\<open>crates/wire\<close>, \<open>crates/core\<close>, \<open>crates/ggml\<close>, \<open>crates/crypto\<close>):
  \<^item> \<open>Wire\<close>: messages and length-prefixed frames; \<open>Base58\<close>, \<open>Session_Id\<close>: identifiers; \<open>Hidden\<close>: hidden states and
    their f16 and int8 encodings; \<open>Crypto\<close>: handshakes and encrypted prompts; \<open>Config\<close>: the configuration.

  Inference (\<open>crates/runtime\<close>, \<open>crates/ggml\<close>, \<open>crates/app\<close>):
  \<^item> \<open>Sampler\<close>, \<open>Turn\<close>, \<open>Spec\<close>: \<open>sample.rs\<close>, \<open>generate.rs\<close> with \<open>run_turn\<close> of \<open>chain.rs\<close>, and \<open>spec.rs\<close>.
  \<^item> \<open>Chain\<close>, \<open>Telemetry\<close>: \<open>chain.rs\<close>, the sessions with the peers and one step through them, and its events.
  \<^item> \<open>Backend\<close>, \<open>Llama\<close>: \<open>ggml_backend.rs\<close>, \<open>model.rs\<close>, the wrappers of \<open>crates/ggml/src/lib.rs\<close>, \<open>device.rs\<close>,
    \<open>tokenizer.rs\<close>: the calls of a loaded model, and the life of its handles.
  \<^item> \<open>Ggml_Host\<close>, \<open>Ggml_Loader\<close>: \<open>probe.rs\<close>, \<open>loader.rs\<close>, \<open>gpu_compat.rs\<close>: the hardware and the library.
  \<^item> \<open>Chain_Driver\<close>, \<open>Local\<close>: \<open>chain_driver.rs\<close>, \<open>probe_latency.rs\<close>, \<open>local.rs\<close>.

  The client (\<open>crates/app/src/tui\<close>, \<open>crates/cli\<close>):
  \<^item> \<open>Wrap\<close>, \<open>Render\<close>, \<open>Browser\<close>, \<open>Screen\<close>: text geometry, texts, the model picker, and the frame as styled rows.
  \<^item> \<open>App\<close>, \<open>App_Slash\<close>, \<open>App_Events\<close>, \<open>App_Keys\<close>, \<open>App_Props\<close>: the state of the chat, its commands, what background
    tasks report, the keys with the main loop, and what holds of every run. \<open>Download\<close>: \<open>download.rs\<close>.
  \<^item> \<open>Cli\<close>, \<open>Doctor\<close>: \<open>crates/cli\<close>, \<open>cmd.rs\<close>, \<open>crates/node\<close> and the tool \<open>intelnav-chunk\<close>.

  \<open>Prelude\<close>, \<open>Bytes\<close>, \<open>Text\<close> and \<open>Files\<close> hold what they share: results, machine integers, byte encodings,
  the \<open>str\<close> operations of the standard library and a file system. The interfaces are locales: \<open>reader\<close> and
  \<open>codec\<close> (\<open>Readers\<close>) for every function that moves a cursor, \<open>event_loop\<close> (\<open>Event_Loop\<close>) for the two libp2p tasks,
  \<open>chunk_source\<close> (\<open>P2p_Fetch\<close>) for where chunks come from, \<open>peer_directory\<close> (\<open>Directory\<close>) for the trait of that name;
  each is interpreted on the model of the code that provides it.

  \<^bold>\<open>How the parts interact.\<close> A host starts (\<open>Startup\<close>), reads its sidecars, announces its slices (\<open>Swarm_Node\<close> through
  \<open>Net_Swarm\<close>) and admits chains (\<open>Forward_Server\<close> through \<open>Control\<close>); the slices it serves were cut by the chunker or
  pulled, and are stitched to a file that libllama loads (\<open>Llama\<close>). A client finds providers (\<open>Dht\<close>), builds a target
  (\<open>Chain_Driver\<close>), connects (\<open>Chain\<close>) and generates (\<open>Turn\<close>, \<open>Spec\<close>) on a backend; its chat (\<open>App\<close>) receives the
  tokens as events.

  \<^bold>\<open>How code corresponds to definitions.\<close> A function keeps its name (with a prefix or suffix where
  Isabelle's libraries use it). A struct is a record, an enum a datatype, \<open>u8\<close> to \<open>u64\<close> are words; a
  \<open>usize\<close> is a natural number that is reduced modulo \<open>2 ^ 64\<close> where the code does unchecked arithmetic, as
  the release profile does not check. \<open>Result\<close> is a sum with an error datatype per component, an
  out-of-bounds slice, a failed assertion or an oversized allocation is \<open>Inl Panic\<close>; the release profile
  aborts on a panic. Mutable state is an argument and a result; \<open>st\<close> in \<open>Chain\<close> is the type of such
  computations. A float is its bit pattern: comparisons are defined on it, rounding operations are the
  fields of a parameter record. Loops are structural recursion; where the code may loop forever the
  fuel is stated (\<open>read_all\<close>: the number of messages; \<open>spec_rounds\<close>: \<open>max_new_tokens\<close>, which
  \<open>run_turn_spec_terminates\<close> shows to be enough) or the recursion has a measure (\<open>connect_loop\<close>: the
  attempts left).

  \<^bold>\<open>What is a parameter.\<close> SHA-256, BLAKE3, the ciphers and signatures, the CID text form, \<open>serde_json\<close>, TOML and the CBOR
  coder, the \<open>tokenizers\<close> crate, libllama behind its C interface, the dynamic linker, the random generator, the unstable
  sort, sockets, timers, libp2p with its Kademlia store, the directories of the platform, what commands print, the
  column width of a character and the layout of \<open>ratatui\<close>. Laws they have to obey are named definitions (\<open>cbor_ok\<close>,
  \<open>cid_separates\<close>, \<open>causal_target\<close>, \<open>draft_law\<close>, \<open>local_law\<close>, \<open>cid_plain\<close>, \<open>native_ok\<close>, \<open>toml_ok\<close>, \<open>columns_ok\<close>) and every property
  that needs one has a witness with a concrete instance.

  \<^bold>\<open>What the lemmas show.\<close> Parsers: locality and round trips of every reader (\<open>Readers\<close>, \<open>Stitch\<close>), so
  that a stitched file parses back to exactly the kept tensors. Storage: what the chunker writes refines
  the bundle specification and verifies; what a fetcher leaves is verified, and is what the stitcher needs. Control: an
  invariant over every interleaving, the exact chain count, and that every way a connection ends returns its guards.
  Event loops: every caller is answered exactly once, or told that no answer will come. Inference: the distributed turn
  and the speculative decoder emit the greedy continuation of the chain's logits, the local generation that of its
  own, and the two texts part only where the argmax of the logits does; no input from the wire aborts the backend, and the handles of the library are freed once and in order.
  Client: failing over keeps every hop on its own route and the driver's state consistent; a run of the
  chat panics only where it cuts a text from outside at a fixed byte, and the transcript shows every turn. Setup: what the first start writes is what later ones read.
  Bugs the proofs met are theorems too, listed as findings of the manifest.

  \<^bold>\<open>Not modelled.\<close> The declarations of the C interface (\<open>crates/ggml/src/sys.rs\<close>), examples, benchmarks and tests;
  what crosses a socket below the messages (TLS, HTTP headers beyond those read, the libp2p transports), terminal
  escape sequences, argument parsing and log output: calls into libraries, without logic of the program.
\<close>

end
